(* ===== verification/Aegis_Prelude.thy ===== *)
theory Aegis_Prelude
  imports Main "HOL-Library.Char_ord" "HOL-Library.List_Lexorder"
begin

section \<open>Prelude: results, transactions, tables and text\<close>

text \<open>
  What every component of the model shares. A method that changes state and may raise is a
  function from the state to a pair of a result (\<open>Inl\<close> the exception, \<open>Inr\<close> the returned
  value) and the state it leaves behind. A block \<^verbatim>\<open>with self._connect() as connection:\<close> of the
  SQLite stores commits when it is left normally and rolls back when an exception leaves it,
  which is \<open>transaction\<close>. A table is the list of its rows: \<open>SELECT\<close> with \<open>fetchone\<close> is
  \<open>find\<close>, \<open>UPDATE\<close> is \<open>update_where\<close>, \<open>INSERT\<close> appends. A Python \<open>str\<close> is a \<open>string\<close>, one
  \<open>char\<close> per code point below 256, and \<open>utf8\<close> is its encoding.
\<close>

named_theorems frame_simps \<open>what an operation leaves unchanged\<close>
named_theorems table_simps \<open>queries after inserts and updates\<close>

subsection \<open>Operations and transactions\<close>

type_synonym ('s, 'e, 'a) operation = "'s \<Rightarrow> ('e + 'a) \<times> 's"

definition transaction :: "('s, 'e, 'a) operation \<Rightarrow> ('s, 'e, 'a) operation" where
  "transaction f s = (case f s of (Inr a, t) \<Rightarrow> (Inr a, t) | (Inl e, t) \<Rightarrow> (Inl e, s))"

lemma transaction_Inr [simp]:
  "transaction f s = (Inr a, t) \<longleftrightarrow> f s = (Inr a, t)"
  by (auto simp: transaction_def split: prod.splits sum.splits)

lemma transaction_Inl [simp]:
  "transaction f s = (Inl e, t) \<longleftrightarrow> t = s \<and> (\<exists>u. f s = (Inl e, u))"
  by (auto simp: transaction_def split: prod.splits sum.splits)

lemma transaction_fst [simp]: "fst (transaction f s) = fst (f s)"
  by (auto simp: transaction_def split: prod.splits sum.splits)

text \<open>Statements in sequence: the second runs only if the first returns.\<close>

definition op_seq :: "('s, 'e, 'a) operation \<Rightarrow> ('s, 'e, 'b) operation \<Rightarrow> ('s, 'e, 'b) operation" where
  "op_seq f g s = (case f s of (Inl e, t) \<Rightarrow> (Inl e, t) | (Inr _, t) \<Rightarrow> g t)"

lemma op_seq_Inr [simp]: "op_seq f g s = (Inr b, u) \<longleftrightarrow> (\<exists>a t. f s = (Inr a, t) \<and> g t = (Inr b, u))"
  by (auto simp: op_seq_def split: prod.splits sum.splits)

lemma op_seq_snd:
  assumes "I s" and "\<And>s. I s \<Longrightarrow> I (snd (f s))" and "\<And>s. I s \<Longrightarrow> I (snd (g s))"
  shows "I (snd (op_seq f g s))"
  using assms(1) assms(2) [of s] assms(3) [of "snd (f s)"]
  by (auto simp: op_seq_def split: prod.splits sum.splits)

text \<open>An invariant kept whenever the body returns normally is kept by the transaction.\<close>

lemma transaction_invariant:
  assumes "I s" and "\<And>a t. f s = (Inr a, t) \<Longrightarrow> I t"
  shows "I (snd (transaction f s))"
  using assms by (auto simp: transaction_def split: prod.splits sum.splits)

lemma transaction_cases:
  obtains (commit) a t where "f s = (Inr a, t)" "transaction f s = (Inr a, t)"
  | (rollback) e u where "f s = (Inl e, u)" "transaction f s = (Inl e, s)"
  by (cases "f s"; cases "fst (f s)") (auto simp: transaction_def)

subsection \<open>Tables\<close>

definition update_where :: "('r \<Rightarrow> bool) \<Rightarrow> ('r \<Rightarrow> 'r) \<Rightarrow> 'r list \<Rightarrow> 'r list" where
  "update_where p f rows = map (\<lambda>r. if p r then f r else r) rows"

abbreviation row_of :: "('r \<Rightarrow> 'k) \<Rightarrow> 'k \<Rightarrow> 'r list \<Rightarrow> 'r option" where
  "row_of key k rows \<equiv> find (\<lambda>r. key r = k) rows"

lemma row_of_SomeD: "row_of key k rows = Some r \<Longrightarrow> r \<in> set rows \<and> key r = k"
  by (auto simp: find_Some_iff)

lemma row_of_None: "row_of key k rows = None \<longleftrightarrow> k \<notin> key ` set rows"
  by (auto simp: find_None_iff)

lemma row_of_unique:
  assumes "distinct (map key rows)"
  shows "row_of key k rows = Some r \<longleftrightarrow> r \<in> set rows \<and> key r = k"
  using assms by (induction rows) (auto simp: image_iff)

lemma find_append [table_simps]:
  "find p (xs @ ys) = (case find p xs of Some x \<Rightarrow> Some x | None \<Rightarrow> find p ys)"
  by (induction xs) auto

lemma set_update_where:
  "r \<in> set (update_where p f rows) \<longleftrightarrow>
     (\<exists>q \<in> set rows. r = (if p q then f q else q))"
  by (auto simp: update_where_def)

lemma map_key_update_where [table_simps]:
  assumes "\<And>r. p r \<Longrightarrow> key (f r) = key r"
  shows "map key (update_where p f rows) = map key rows"
  using assms by (induction rows) (auto simp: update_where_def)

lemma find_update_where_same [table_simps]:
  assumes "\<And>r. key (f r) = key r"
  shows "row_of key k (update_where (\<lambda>r. key r = k) f rows) = map_option f (row_of key k rows)"
  using assms by (induction rows) (auto simp: update_where_def)

lemma find_update_where_other [table_simps]:
  assumes "\<And>r. p r \<Longrightarrow> key (f r) = key r" and "\<And>r. p r \<Longrightarrow> key r \<noteq> k"
  shows "row_of key k (update_where p f rows) = row_of key k rows"
  using assms by (induction rows) (auto simp: update_where_def)

lemma find_update_where_guarded [table_simps]:
  assumes "\<And>r. key (f r) = key r" and "row_of key k rows = Some r" and "p r"
  shows "row_of key j (update_where (\<lambda>x. key x = k \<and> p x) f rows) =
    (if j = k then Some (f r) else row_of key j rows)"
proof (cases "j = k")
  case True
  with assms show ?thesis by (induction rows) (auto simp: update_where_def split: if_splits)
next
  case False
  with assms(1) show ?thesis by (subst find_update_where_other) auto
qed

lemma find_update_where_skipped [table_simps]:
  assumes "row_of key k rows = Some r" and "\<not> p r"
  shows "row_of key k (update_where (\<lambda>x. key x = k \<and> p x) f rows) = Some r"
  using assms by (induction rows) (auto simp: update_where_def split: if_splits)

lemma update_where_idle: "(\<And>r. r \<in> set rows \<Longrightarrow> \<not> p r) \<Longrightarrow> update_where p f rows = rows"
  by (induction rows) (auto simp: update_where_def)

lemma length_update_where [simp]: "length (update_where p f rows) = length rows"
  by (simp add: update_where_def)

text \<open>\<^verbatim>\<open>INSERT OR IGNORE\<close> and \<^verbatim>\<open>INSERT ... ON CONFLICT DO UPDATE\<close> on the primary key.\<close>

definition insert_or_ignore :: "('r \<Rightarrow> 'k) \<Rightarrow> 'r \<Rightarrow> 'r list \<Rightarrow> 'r list" where
  "insert_or_ignore key r rows = (if key r \<in> key ` set rows then rows else rows @ [r])"

definition upsert :: "('r \<Rightarrow> 'k) \<Rightarrow> 'r \<Rightarrow> 'r list \<Rightarrow> 'r list" where
  "upsert key r rows =
     (if key r \<in> key ` set rows then update_where (\<lambda>q. key q = key r) (\<lambda>_. r) rows else rows @ [r])"

lemma row_of_insert_or_ignore [table_simps]:
  "row_of key k (insert_or_ignore key r rows) =
     (case row_of key k rows of Some q \<Rightarrow> Some q | None \<Rightarrow> if key r = k then Some r else None)"
proof (cases "key r \<in> key ` set rows")
  case True
  then have "row_of key (key r) rows \<noteq> None" by (simp add: row_of_None)
  with True show ?thesis by (auto simp: insert_or_ignore_def split: option.split)
next
  case False
  then show ?thesis by (simp add: insert_or_ignore_def find_append split: option.split)
qed

lemma row_of_upsert [table_simps]:
  "row_of key k (upsert key r rows) = (if key r = k then Some r else row_of key k rows)"
proof (cases "key r \<in> key ` set rows")
  case True
  then obtain q where "row_of key (key r) rows = Some q" by (cases "row_of key (key r) rows") (auto simp: row_of_None)
  then have "row_of key (key r) (update_where (\<lambda>q. key q = key r) (\<lambda>_. r) rows) = Some r"
    by (induction rows) (auto simp: update_where_def split: if_splits)
  moreover have "row_of key k (update_where (\<lambda>q. key q = key r) (\<lambda>_. r) rows) = row_of key k rows" if "key r \<noteq> k"
    using that by (intro find_update_where_other) auto
  ultimately show ?thesis using True by (auto simp: upsert_def)
next
  case False
  then have "row_of key (key r) rows = None" by (simp add: row_of_None)
  with False show ?thesis by (auto simp: upsert_def find_append split: option.split)
qed

subsection \<open>Text\<close>

text \<open>\<^verbatim>\<open>sep.join(parts)\<close> for a separator of one character.\<close>

fun join_with :: "'a \<Rightarrow> 'a list list \<Rightarrow> 'a list" where
  "join_with c [] = []"
| "join_with c [x] = x"
| "join_with c (x # y # zs) = x @ c # join_with c (y # zs)"

lemma split_at_separator:
  assumes "a @ c # b = a' @ c # b'" and "c \<notin> set a" and "c \<notin> set a'"
  shows "a = a' \<and> b = b'"
  using assms
proof (induction a arbitrary: a')
  case Nil
  then show ?case by (cases a') auto
next
  case (Cons x xs)
  then show ?case by (cases a') auto
qed

lemma split_at_last_separator:
  assumes "a @ c # b = a' @ c # b'" and "c \<notin> set b" and "c \<notin> set b'"
  shows "a = a' \<and> b = b'"
proof -
  from assms(1) have "rev b @ c # rev a = rev b' @ c # rev a'"
    by (metis append.assoc append_Cons append_Nil rev.simps(2) rev_append)
  with assms(2,3) show ?thesis
    using split_at_separator [of "rev b" c "rev a" "rev b'" "rev a'"] by simp
qed

lemma join_with_inject:
  assumes "length xs = length ys" and "join_with c xs = join_with c ys"
    and "\<forall>x \<in> set xs. c \<notin> set x" and "\<forall>y \<in> set ys. c \<notin> set y"
  shows "xs = ys"
  using assms
proof (induction c xs arbitrary: ys rule: join_with.induct)
  case (1 c)
  then show ?case by simp
next
  case (2 c x)
  then show ?case by (cases ys) auto
next
  case (3 c x y zs)
  from "3.prems"(1) obtain x' y' zs' where ys: "ys = x' # y' # zs'"
    by (cases ys; cases "tl ys") auto
  with "3.prems" have "x @ c # join_with c (y # zs) = x' @ c # join_with c (y' # zs')"
    and "c \<notin> set x" and "c \<notin> set x'" by auto
  from split_at_separator [OF this]
  have eq: "x = x'" "join_with c (y # zs) = join_with c (y' # zs')" by simp_all
  with "3.IH" [of "y' # zs'"] "3.prems" ys show ?case by simp
qed

text \<open>
  UTF-8 of a code point below 256: one byte below 128, two bytes from 128 on.
\<close>

definition utf8_char :: "char \<Rightarrow> string" where
  "utf8_char c = (let n = of_char c :: nat in
     if n < 128 then [c] else [char_of (192 + n div 64), char_of (128 + n mod 64)])"

definition utf8 :: "string \<Rightarrow> string" where
  "utf8 s = concat (map utf8_char s)"

lemma utf8_simps [simp]: "utf8 [] = []" "utf8 (c # s) = utf8_char c @ utf8 s"
  by (simp_all add: utf8_def)

lemma utf8_append [simp]: "utf8 (s @ t) = utf8 s @ utf8 t"
  by (simp add: utf8_def)

lemma of_char_bound: "(of_char c :: nat) < 256"
  by (metis of_char_mod_256 mod_less_divisor zero_less_numeral)

lemma char_of_eqD: "char_of (m :: nat) = char_of n \<Longrightarrow> m < 256 \<Longrightarrow> n < 256 \<Longrightarrow> m = n"
  by (metis char_of_eq_iff mod_less of_char_of)

lemma utf8_char_prefix_free:
  assumes "utf8_char c @ s = utf8_char d @ t"
  shows "c = d \<and> s = t"
proof -
  let ?m = "of_char c :: nat" and ?n = "of_char d :: nat"
  have b: "?m < 256" "?n < 256" by (simp_all add: of_char_bound)
  consider "?m < 128" "?n < 128" | "?m < 128" "?n \<ge> 128" | "?m \<ge> 128" "?n < 128"
    | "?m \<ge> 128" "?n \<ge> 128" by linarith
  then show ?thesis
  proof cases
    case 1
    with assms show ?thesis by (simp add: utf8_char_def)
  next
    case 2
    with assms have "c = char_of (192 + ?n div 64)" by (simp add: utf8_char_def Let_def)
    then have "?m = (192 + ?n div 64) mod 256" by (simp only: of_char_of)
    moreover from b have "192 + ?n div 64 < 256" by linarith
    then have "(192 + ?n div 64) mod 256 = 192 + ?n div 64" by (rule mod_less)
    ultimately show ?thesis using 2 by linarith
  next
    case 3
    with assms have "d = char_of (192 + ?m div 64)" by (simp add: utf8_char_def Let_def)
    then have "?n = (192 + ?m div 64) mod 256" by (simp only: of_char_of)
    moreover from b have "192 + ?m div 64 < 256" by linarith
    then have "(192 + ?m div 64) mod 256 = 192 + ?m div 64" by (rule mod_less)
    ultimately show ?thesis using 3 by linarith
  next
    case 4
    with assms have eq: "char_of (192 + ?m div 64) = char_of (192 + ?n div 64)"
      "char_of (128 + ?m mod 64) = char_of (128 + ?n mod 64)" "s = t"
      by (simp_all add: utf8_char_def Let_def)
    from b have "192 + ?m div 64 < 256" "192 + ?n div 64 < 256"
      "128 + ?m mod 64 < 256" "128 + ?n mod 64 < 256" by linarith+
    with eq have "192 + ?m div 64 = 192 + ?n div 64" "128 + ?m mod 64 = 128 + ?n mod 64"
      using char_of_eqD [of "192 + ?m div 64" "192 + ?n div 64"]
        char_of_eqD [of "128 + ?m mod 64" "128 + ?n mod 64"] by blast+
    then have "?m div 64 = ?n div 64" "?m mod 64 = ?n mod 64" by simp_all
    then have "?m = ?n" by (metis div_mult_mod_eq)
    with eq show ?thesis by simp
  qed
qed

lemma utf8_inject [simp]: "utf8 s = utf8 t \<longleftrightarrow> s = t"
proof (induction s arbitrary: t)
  case Nil
  show ?case by (cases t) (auto simp: utf8_char_def Let_def)
next
  case (Cons c s)
  show ?case
  proof (cases t)
    case Nil
    then show ?thesis by (auto simp: utf8_char_def Let_def)
  next
    case (Cons d u)
    with Cons.IH show ?thesis by (auto dest: utf8_char_prefix_free)
  qed
qed

text \<open>White space, as \<^verbatim>\<open>str.isspace\<close> and the regular expression \<^verbatim>\<open>\\s\<close> have it.\<close>

definition is_py_space :: "char \<Rightarrow> bool" where
  "is_py_space c = (let n = of_char c :: nat in
     9 \<le> n \<and> n \<le> 13 \<or> 28 \<le> n \<and> n \<le> 32 \<or> n = 133 \<or> n = 160)"

text \<open>
  SHA-256 is an argument \<open>sha\<close> of the definitions that use it, so what is proved holds for every
  function, and for SHA-256 in particular. Where a theorem rests on collision freeness it names
  the collision that would otherwise exist.
\<close>

definition collision :: "(string \<Rightarrow> string) \<Rightarrow> string \<Rightarrow> string \<Rightarrow> bool" where
  "collision sha m n \<longleftrightarrow> m \<noteq> n \<and> sha m = sha n"

subsection \<open>Entries written once\<close>

text \<open>
  What the ledgers and the receipt stores have in common: an entry that is there stays as it is, whatever
  steps follow. A call answered from such a ledger is always answered in the same way.
\<close>

locale write_once =
  fixes entry :: "'s \<Rightarrow> 'k \<Rightarrow> 'v option"
    and step :: "'s \<Rightarrow> 's \<Rightarrow> bool"
  assumes step_keeps: "step s t \<Longrightarrow> entry s k = Some v \<Longrightarrow> entry t k = Some v"
begin

lemma steps_keep: "step\<^sup>*\<^sup>* s t \<Longrightarrow> entry s k = Some v \<Longrightarrow> entry t k = Some v"
  by (induction rule: rtranclp_induct) (auto intro: step_keeps)

lemma entries_agree:
  assumes "step\<^sup>*\<^sup>* s t" and "entry s k = Some v" and "entry t k = Some v'"
  shows "v = v'"
  using steps_keep [OF assms(1,2)] assms(3) by simp

end

end
