(* ===== verification/Json.thy ===== *)
theory Json
  imports Aegis_Prelude "HOL-Library.AList" "HOL-Library.Multiset"
begin

section \<open>JSON documents: json.dumps and json.loads\<close>

text \<open>
  The stores bind approvals, outbox rows and signatures to canonical JSON text
  (\<^verbatim>\<open>json.dumps(..., sort_keys=True, separators=(",", ":"))\<close>) and read it back with
  \<^verbatim>\<open>json.loads\<close>. A value is a \<open>json\<close>; a \<open>dict\<close> is the list of its items in insertion
  order, with distinct keys (\<open>wf_json\<close>). Floats do not occur in the documents modelled here: no
  argument model of \<open>mcp_gateway/models.py\<close> and no claim set has a float field. The main result
  is that reading the canonical text back gives the value with its keys sorted, so that two
  values have the same canonical text only if they are equal up to the order of their keys.
\<close>

datatype json =
    JNull
  | JBool bool
  | JInt int
  | JStr string
  | JList "json list"
  | JObj "(string \<times> json) list"

subsection \<open>Writing\<close>

definition digit_char :: "nat \<Rightarrow> char" where
  "digit_char n = char_of (48 + n)"

fun digits :: "nat \<Rightarrow> string" where
  "digits n = (if n < 10 then [digit_char n] else digits (n div 10) @ [digit_char (n mod 10)])"

declare digits.simps [simp del]

definition str_int :: "int \<Rightarrow> string" where
  "str_int i = (if i < 0 then CHR ''-'' # digits (nat (- i)) else digits (nat i))"

definition hex_digit :: "nat \<Rightarrow> char" where
  "hex_digit n = (if n < 10 then char_of (48 + n) else char_of (87 + n))"

text \<open>The escapes of \<^verbatim>\<open>json.encoder\<close>, with \<^verbatim>\<open>ensure_ascii\<close> as the first argument.\<close>

definition escape_char :: "bool \<Rightarrow> char \<Rightarrow> string" where
  "escape_char ascii c = (let n = of_char c :: nat in
     if n = 34 then [CHR 0x5C, CHR 0x22]
     else if n = 92 then [CHR 0x5C, CHR 0x5C]
     else if n = 10 then [CHR 0x5C, CHR ''n'']
     else if n = 13 then [CHR 0x5C, CHR ''r'']
     else if n = 9 then [CHR 0x5C, CHR ''t'']
     else if n = 12 then [CHR 0x5C, CHR ''f'']
     else if n = 8 then [CHR 0x5C, CHR ''b'']
     else if n < 32 \<or> (ascii \<and> 127 \<le> n)
       then [CHR 0x5C, CHR ''u'', CHR ''0'', CHR ''0'', hex_digit (n div 16), hex_digit (n mod 16)]
     else [c])"

definition quote_str :: "bool \<Rightarrow> string \<Rightarrow> string" where
  "quote_str ascii s = CHR 0x22 # concat (map (escape_char ascii) s) @ [CHR 0x22]"

definition item_text :: "bool \<Rightarrow> string \<times> string \<Rightarrow> string" where
  "item_text ascii = (\<lambda>(k, t). quote_str ascii k @ CHR '':'' # t)"

primrec json_text :: "bool \<Rightarrow> json \<Rightarrow> string" where
  "json_text ascii JNull = ''null''"
| "json_text ascii (JBool b) = (if b then ''true'' else ''false'')"
| "json_text ascii (JInt i) = str_int i"
| "json_text ascii (JStr s) = quote_str ascii s"
| "json_text ascii (JList xs) = CHR ''['' # join_with (CHR '','') (map (json_text ascii) xs) @ '']''"
| "json_text ascii (JObj kvs) =
     CHR ''{'' # join_with (CHR '','') (map (item_text ascii) (map (map_prod id (json_text ascii)) kvs))
       @ ''}''"

primrec sort_keys :: "json \<Rightarrow> json" where
  "sort_keys JNull = JNull"
| "sort_keys (JBool b) = JBool b"
| "sort_keys (JInt i) = JInt i"
| "sort_keys (JStr s) = JStr s"
| "sort_keys (JList xs) = JList (map sort_keys xs)"
| "sort_keys (JObj kvs) = JObj (sort_key fst (map (map_prod id sort_keys) kvs))"

definition json_dumps :: "bool \<Rightarrow> json \<Rightarrow> string" where
  "json_dumps ascii j = json_text ascii (sort_keys j)"

primrec wf_json :: "json \<Rightarrow> bool" where
  "wf_json JNull = True"
| "wf_json (JBool b) = True"
| "wf_json (JInt i) = True"
| "wf_json (JStr s) = True"
| "wf_json (JList xs) = list_all (\<lambda>b. b) (map wf_json xs)"
| "wf_json (JObj kvs) = (distinct (map fst kvs) \<and> list_all snd (map (map_prod id wf_json) kvs))"

subsection \<open>Reading\<close>

definition is_ws :: "char \<Rightarrow> bool" where
  "is_ws c \<longleftrightarrow> c \<in> {CHR '' '', CHR 0x09, CHR 0x0A, CHR 0x0D}"

abbreviation skip_ws :: "string \<Rightarrow> string" where
  "skip_ws \<equiv> dropWhile is_ws"

definition is_digit :: "char \<Rightarrow> bool" where
  "is_digit c \<longleftrightarrow> 48 \<le> (of_char c :: nat) \<and> (of_char c :: nat) \<le> 57"

definition nat_of_digits :: "string \<Rightarrow> nat" where
  "nat_of_digits = foldl (\<lambda>n c. 10 * n + (of_char c - 48)) 0"

definition hex_val :: "char \<Rightarrow> nat option" where
  "hex_val c = (let n = of_char c :: nat in
     if 48 \<le> n \<and> n \<le> 57 then Some (n - 48)
     else if 97 \<le> n \<and> n \<le> 102 then Some (n - 87)
     else if 65 \<le> n \<and> n \<le> 70 then Some (n - 55) else None)"

definition unescape :: "char \<Rightarrow> char option" where
  "unescape c =
     (if c \<in> {CHR 0x22, CHR 0x5C, CHR ''/''} then Some c
      else if c = CHR ''n'' then Some (CHR 0x0A)
      else if c = CHR ''r'' then Some (CHR 0x0D)
      else if c = CHR ''t'' then Some (CHR 0x09)
      else if c = CHR ''f'' then Some (CHR 0x0C)
      else if c = CHR ''b'' then Some (CHR 0x08)
      else None)"

text \<open>The rest of a string literal after its opening quote. A code point above 255 is outside
  the model of \<open>str\<close>.\<close>

fun read_str :: "string \<Rightarrow> (string \<times> string) option" where
  "read_str [] = None"
| "read_str (c # cs) =
     (if c = CHR 0x22 then Some ([], cs)
      else if c = CHR 0x5C then
        (case cs of
           [] \<Rightarrow> None
         | d # ds \<Rightarrow>
             if d = CHR ''u'' then
               (case ds of
                  h1 # h2 # h3 # h4 # r \<Rightarrow>
                    (case (hex_val h1, hex_val h2, hex_val h3, hex_val h4) of
                       (Some 0, Some 0, Some a, Some b) \<Rightarrow>
                         map_option (\<lambda>(s, q). (char_of (16 * a + b) # s, q)) (read_str r)
                     | _ \<Rightarrow> None)
                | _ \<Rightarrow> None)
             else
               (case unescape d of
                  None \<Rightarrow> None
                | Some e \<Rightarrow> map_option (\<lambda>(s, q). (e # s, q)) (read_str ds)))
      else if (of_char c :: nat) < 32 then None
      else map_option (\<lambda>(s, q). (c # s, q)) (read_str cs))"

fun read_nat :: "string \<Rightarrow> (nat \<times> string) option" where
  "read_nat [] = None"
| "read_nat (c # cs) =
     (if c = CHR ''0'' then Some (0, cs)
      else if is_digit c
        then Some (nat_of_digits (c # takeWhile is_digit cs), dropWhile is_digit cs)
      else None)"

definition eat :: "char \<Rightarrow> string \<Rightarrow> string option" where
  "eat c s = (case s of [] \<Rightarrow> None | d # r \<Rightarrow> if d = c then Some r else None)"

definition read_int :: "string \<Rightarrow> (json \<times> string) option" where
  "read_int s = (case eat (CHR ''-'') s of
     Some cs \<Rightarrow> map_option (\<lambda>(n, r). (JInt (- int n), r)) (read_nat cs)
   | None \<Rightarrow> map_option (\<lambda>(n, r). (JInt (int n), r)) (read_nat s))"

definition read_word :: "string \<Rightarrow> json \<Rightarrow> string \<Rightarrow> (json \<times> string) option" where
  "read_word w v s =
     (if take (length w) s = w then Some (v, drop (length w) s) else None)"

definition dict_of :: "(string \<times> json) list \<Rightarrow> (string \<times> json) list" where
  "dict_of kvs = foldl (\<lambda>d (k, v). AList.update k v d) [] kvs"

text \<open>One unit of fuel per nested call; \<open>json_loads\<close> starts with the length of the text.\<close>

fun read_value :: "nat \<Rightarrow> string \<Rightarrow> (json \<times> string) option"
  and read_items :: "nat \<Rightarrow> string \<Rightarrow> (json list \<times> string) option"
  and read_pairs :: "nat \<Rightarrow> string \<Rightarrow> ((string \<times> json) list \<times> string) option" where
  "read_value 0 s = None"
| "read_value (Suc n) s = (case s of
     [] \<Rightarrow> None
   | c # cs \<Rightarrow>
       if c = CHR 0x22 then map_option (\<lambda>(t, r). (JStr t, r)) (read_str cs)
       else if c = CHR ''['' then
         (case eat (CHR '']'') (skip_ws cs) of
            Some r \<Rightarrow> Some (JList [], r)
          | None \<Rightarrow> map_option (\<lambda>(xs, r). (JList xs, r)) (read_items n (skip_ws cs)))
       else if c = CHR ''{'' then
         (case eat (CHR ''}'') (skip_ws cs) of
            Some r \<Rightarrow> Some (JObj [], r)
          | None \<Rightarrow> map_option (\<lambda>(kvs, r). (JObj (dict_of kvs), r)) (read_pairs n (skip_ws cs)))
       else if c = CHR ''n'' then read_word ''null'' JNull s
       else if c = CHR ''t'' then read_word ''true'' (JBool True) s
       else if c = CHR ''f'' then read_word ''false'' (JBool False) s
       else read_int s)"
| "read_items 0 s = None"
| "read_items (Suc n) s = (case read_value n s of
     None \<Rightarrow> None
   | Some (v, r) \<Rightarrow>
       (case eat (CHR '','') (skip_ws r) of
          Some q \<Rightarrow> map_option (\<lambda>(vs, t). (v # vs, t)) (read_items n (skip_ws q))
        | None \<Rightarrow> map_option (\<lambda>q. ([v], q)) (eat (CHR '']'') (skip_ws r))))"
| "read_pairs 0 s = None"
| "read_pairs (Suc n) s = (case Option.bind (eat (CHR 0x22) s) read_str of
     None \<Rightarrow> None
   | Some (k, r) \<Rightarrow>
       (case eat (CHR '':'') (skip_ws r) of
          None \<Rightarrow> None
        | Some r1 \<Rightarrow>
            (case read_value n (skip_ws r1) of
               None \<Rightarrow> None
             | Some (v, r2) \<Rightarrow>
                 (case eat (CHR '','') (skip_ws r2) of
                    Some q \<Rightarrow>
                      map_option (\<lambda>(kvs, t). ((k, v) # kvs, t)) (read_pairs n (skip_ws q))
                  | None \<Rightarrow> map_option (\<lambda>q. ([(k, v)], q)) (eat (CHR ''}'') (skip_ws r2))))))"

definition json_loads :: "string \<Rightarrow> json option" where
  "json_loads s = (case read_value (length s) (skip_ws s) of
     Some (v, r) \<Rightarrow> if skip_ws r = [] then Some v else None
   | None \<Rightarrow> None)"

subsection \<open>Reading back what was written\<close>

lemma of_char_char_of [simp]: "n < 256 \<Longrightarrow> of_char (char_of n :: char) = (n :: nat)"
  by (simp add: of_char_of)

lemma of_charD: "of_char c = (n :: nat) \<Longrightarrow> c = char_of n"
  by auto

lemma hex_val_hex_digit [simp]: "n < 16 \<Longrightarrow> hex_val (hex_digit n) = Some n"
  by (auto simp: hex_val_def hex_digit_def Let_def)

lemma hex_val_zero [simp]: "hex_val (CHR ''0'') = Some 0"
  by (simp add: hex_val_def)

lemma read_str_escape:
  "read_str (escape_char ascii c @ t) = map_option (\<lambda>(s, q). (c # s, q)) (read_str t)"
proof -
  let ?n = "of_char c :: nat"
  have n: "?n < 256" by (rule of_char_bound)
  consider "?n \<in> {34, 92, 10, 13, 9, 12, 8}"
    | "?n \<notin> {34, 92, 10, 13, 9, 12, 8}" "?n < 32 \<or> (ascii \<and> 127 \<le> ?n)"
    | "?n \<notin> {34, 92, 10, 13, 9, 12, 8}" "\<not> (?n < 32 \<or> (ascii \<and> 127 \<le> ?n))" by blast
  then show ?thesis
  proof cases
    case 1
    then show ?thesis
      by (auto simp: escape_char_def unescape_def dest!: of_charD) (simp_all add: char_of_def bit_0)
  next
    case 2
    then have "escape_char ascii c =
      [CHR 0x5C, CHR ''u'', CHR ''0'', CHR ''0'', hex_digit (?n div 16), hex_digit (?n mod 16)]"
      by (auto simp: escape_char_def Let_def)
    moreover have "?n div 16 < 16" using n by linarith
    moreover have "char_of (16 * (?n div 16) + ?n mod 16) = c" by simp
    ultimately show ?thesis by (simp del: char_of_eq_iff)
  next
    case 3
    then have "escape_char ascii c = [c]" by (auto simp: escape_char_def Let_def)
    moreover from 3 have "c \<noteq> CHR 0x22" "c \<noteq> CHR 0x5C" by auto
    ultimately show ?thesis using 3 by simp
  qed
qed

lemma read_str_text:
  "read_str (concat (map (escape_char ascii) s) @ CHR 0x22 # t) = Some (s, t)"
  by (induction s) (simp_all add: read_str_escape del: read_str.simps(2), simp)

definition ends_number :: "string \<Rightarrow> bool" where
  "ends_number r \<longleftrightarrow> (case r of [] \<Rightarrow> True | c # _ \<Rightarrow> \<not> is_digit c)"

lemma is_digit_digit_char [simp]: "n < 10 \<Longrightarrow> is_digit (digit_char n)"
  by (simp add: is_digit_def digit_char_def)

lemma of_char_digit_char [simp]: "n < 10 \<Longrightarrow> of_char (digit_char n) = (48 + n :: nat)"
  by (simp add: digit_char_def)

lemma digits_are_digits: "\<forall>c \<in> set (digits n). is_digit c"
  by (induction n rule: digits.induct) (subst digits.simps, auto)

lemma nat_of_digits_snoc: "nat_of_digits (ds @ [c]) = 10 * nat_of_digits ds + (of_char c - 48)"
  by (simp add: nat_of_digits_def)

lemma nat_of_digits_digits [simp]: "nat_of_digits (digits n) = n"
proof (induction n rule: digits.induct)
  case (1 n)
  show ?case
  proof (cases "n < 10")
    case True
    then show ?thesis by (simp add: digits.simps [of n] nat_of_digits_def)
  next
    case False
    with 1 show ?thesis by (simp add: digits.simps [of n] nat_of_digits_snoc)
  qed
qed

lemma digits_head: "0 < n \<Longrightarrow> \<exists>c cs. digits n = c # cs \<and> c \<noteq> CHR ''0''"
proof (induction n rule: digits.induct)
  case (1 n)
  show ?case
  proof (cases "n < 10")
    case True
    with "1.prems" have "(of_char (digit_char n) :: nat) \<noteq> of_char (CHR ''0'')" by simp
    then have "digit_char n \<noteq> CHR ''0''" by metis
    with True show ?thesis by (simp add: digits.simps [of n])
  next
    case False
    then have "0 < n div 10" by (simp add: div_greater_zero_iff)
    with 1 False obtain c cs where "digits (n div 10) = c # cs" "c \<noteq> CHR ''0''" by blast
    with False show ?thesis by (simp add: digits.simps [of n])
  qed
qed

lemma ends_number_span: "ends_number r \<Longrightarrow> takeWhile is_digit r = [] \<and> dropWhile is_digit r = r"
  by (auto simp: ends_number_def split: list.splits)

lemma read_nat_digits:
  assumes "ends_number r"
  shows "read_nat (digits n @ r) = Some (n, r)"
proof (cases "n = 0")
  case True
  then show ?thesis by (simp add: digits.simps [of 0] digit_char_def char_of_def bit_0)
next
  case False
  then obtain c cs where d: "digits n = c # cs" "c \<noteq> CHR ''0''" using digits_head by blast
  with digits_are_digits [of n] have "is_digit c" "\<forall>c \<in> set cs. is_digit c" by auto
  with d assms nat_of_digits_digits [of n] show ?thesis by (simp add: ends_number_span)
qed

lemma digits_not_minus: "eat (CHR ''-'') (digits n @ r) = None"
proof -
  have "digits n \<noteq> []" by (subst digits.simps) simp
  then obtain c cs where "digits n = c # cs" by (cases "digits n") auto
  moreover from this digits_are_digits [of n] have "c \<noteq> CHR ''-''" by (auto simp: is_digit_def)
  ultimately show ?thesis by (simp add: eat_def)
qed

lemma read_int_str_int:
  assumes "ends_number r"
  shows "read_int (str_int i @ r) = Some (JInt i, r)"
  using assms
  by (auto simp: str_int_def read_int_def digits_not_minus read_nat_digits)
    (simp_all add: eat_def read_nat_digits)

lemma skip_ws_start: "s = c # t \<Longrightarrow> \<not> is_ws c \<Longrightarrow> skip_ws s = s"
  by simp

definition is_start :: "char \<Rightarrow> bool" where
  "is_start c \<longleftrightarrow> \<not> is_ws c \<and> c \<noteq> CHR '']'' \<and> c \<noteq> CHR ''}''"

lemma str_int_start: "\<exists>c t. str_int i = c # t \<and> is_start c \<and>
    c \<notin> {CHR 0x22, CHR ''['', CHR ''{'', CHR ''n'', CHR ''t'', CHR ''f''}"
proof -
  have d: "\<exists>c t. digits n = c # t \<and> is_digit c" for n
    using digits_are_digits [of n] by (cases "digits n") (auto simp: digits.simps [of n] split: if_splits)
  show ?thesis
  proof (cases "i < 0")
    case True
    then show ?thesis by (simp add: str_int_def is_start_def is_ws_def)
  next
    case False
    with d [of "nat i"] show ?thesis
      by (auto simp: str_int_def is_start_def is_ws_def is_digit_def)
  qed
qed

lemma json_text_start: "\<exists>c t. json_text ascii j = c # t \<and> is_start c"
proof (cases j)
  case (JInt i)
  with str_int_start [of i] show ?thesis by auto
qed (auto simp: is_start_def is_ws_def quote_str_def)

lemma ends_number_simps [simp]:
  "ends_number []" "ends_number (CHR '','' # r)" "ends_number (CHR '']'' # r)"
  "ends_number (CHR ''}'' # r)"
  by (auto simp: ends_number_def is_digit_def)

lemma eat_simps [simp]: "eat c (c # r) = Some r" "c \<noteq> d \<Longrightarrow> eat c (d # r) = None" "eat c [] = None"
  by (auto simp: eat_def)

lemma is_ws_simps [simp]: "\<not> is_ws (CHR '','')" "\<not> is_ws (CHR '']'')" "\<not> is_ws (CHR ''}'')"
  "\<not> is_ws (CHR '':'')" "\<not> is_ws (CHR 0x22)"
  by (auto simp: is_ws_def)

text \<open>Every text reads back if it is followed by something that cannot extend a number.\<close>

definition reads_back :: "bool \<Rightarrow> json \<Rightarrow> bool" where
  "reads_back ascii j \<longleftrightarrow> (\<forall>n r. length (json_text ascii j) \<le> n \<longrightarrow> ends_number r \<longrightarrow>
     read_value n (json_text ascii j @ r) = Some (j, r))"

lemma reads_backD:
  "reads_back ascii j \<Longrightarrow> length (json_text ascii j) \<le> n \<Longrightarrow> ends_number r \<Longrightarrow>
     read_value n (json_text ascii j @ r) = Some (j, r)"
  by (simp add: reads_back_def)

lemma reads_backI:
  assumes "\<And>m r. length (json_text ascii j) \<le> Suc m \<Longrightarrow> ends_number r \<Longrightarrow>
    read_value (Suc m) (json_text ascii j @ r) = Some (j, r)"
  shows "reads_back ascii j"
  unfolding reads_back_def
proof (intro allI impI)
  fix n r
  assume n: "length (json_text ascii j) \<le> n" and r: "ends_number r"
  moreover have "json_text ascii j \<noteq> []" using json_text_start [of ascii j] by auto
  ultimately obtain m where "n = Suc m" by (cases n) auto
  with assms n r show "read_value n (json_text ascii j @ r) = Some (j, r)" by blast
qed

lemma read_items_text:
  assumes "\<forall>x \<in> set (x # xs). reads_back ascii x"
    and "length (join_with (CHR '','') (map (json_text ascii) (x # xs))) < n"
  shows "read_items n (join_with (CHR '','') (map (json_text ascii) (x # xs)) @ CHR '']'' # r) =
    Some (x # xs, r)"
  using assms
proof (induction xs arbitrary: x n)
  case Nil
  then obtain m where "n = Suc m" by (cases n) auto
  with Nil show ?case by (simp add: reads_backD)
next
  case (Cons y ys)
  then obtain m where n: "n = Suc m" by (cases n) auto
  let ?rest = "join_with (CHR '','') (map (json_text ascii) (y # ys)) @ CHR '']'' # r"
  from json_text_start [of ascii y] obtain c t where y: "json_text ascii y = c # t" "is_start c"
    by blast
  have ws: "skip_ws ?rest = ?rest" using y by (cases ys) (auto simp: is_start_def)
  from Cons.prems n have "read_value m (json_text ascii x @ CHR '','' # ?rest) = Some (x, CHR '','' # ?rest)"
    by (simp add: reads_backD)
  moreover from Cons.prems n have "read_items m ?rest = Some (y # ys, r)"
    by (intro Cons.IH) auto
  ultimately show ?case using n ws by simp
qed

definition pair_text :: "bool \<Rightarrow> string \<times> json \<Rightarrow> string" where
  "pair_text ascii p = item_text ascii (map_prod id (json_text ascii) p)"

lemma pair_text_simps:
  "pair_text ascii (k, v) @ t =
     CHR 0x22 # (concat (map (escape_char ascii) k) @ CHR 0x22 # CHR '':'' # json_text ascii v @ t)"
  by (simp add: pair_text_def item_text_def quote_str_def)

lemma pair_text_start: "\<exists>t. pair_text ascii p = CHR 0x22 # t"
  by (cases p) (simp add: pair_text_def item_text_def quote_str_def)

lemma pair_text_length: "length (json_text ascii (snd p)) < length (pair_text ascii p)"
  by (cases p) (simp add: pair_text_def item_text_def quote_str_def)

lemma read_pairs_text:
  assumes "\<forall>p \<in> set (p # ps). reads_back ascii (snd p)"
    and "length (join_with (CHR '','') (map (pair_text ascii) (p # ps))) < n"
  shows "read_pairs n (join_with (CHR '','') (map (pair_text ascii) (p # ps)) @ CHR ''}'' # r) =
    Some (p # ps, r)"
  using assms
proof (induction ps arbitrary: p n)
  case Nil
  then obtain m where n: "n = Suc m" by (cases n) auto
  obtain k v where p: "p = (k, v)" by (cases p)
  obtain c t where v: "json_text ascii v = c # t" "is_start c" using json_text_start by blast
  have "skip_ws (json_text ascii v @ CHR ''}'' # r) = json_text ascii v @ CHR ''}'' # r"
    using v by (simp add: is_start_def)
  moreover have "read_value m (json_text ascii v @ CHR ''}'' # r) = Some (v, CHR ''}'' # r)"
    using Nil n p pair_text_length [of ascii p] by (intro reads_backD) auto
  ultimately show ?case using n p
    by (simp add: pair_text_simps read_str_text)
next
  case (Cons q qs)
  then obtain m where n: "n = Suc m" by (cases n) auto
  obtain k v where p: "p = (k, v)" by (cases p)
  let ?rest = "join_with (CHR '','') (map (pair_text ascii) (q # qs)) @ CHR ''}'' # r"
  obtain c t where v: "json_text ascii v = c # t" "is_start c" using json_text_start by blast
  have ws: "skip_ws ?rest = ?rest"
    using pair_text_start [of ascii q] by (cases qs) auto
  have "skip_ws (json_text ascii v @ CHR '','' # ?rest) = json_text ascii v @ CHR '','' # ?rest"
    using v by (simp add: is_start_def)
  moreover have "read_value m (json_text ascii v @ CHR '','' # ?rest) = Some (v, CHR '','' # ?rest)"
    using Cons.prems n p pair_text_length [of ascii p] by (intro reads_backD) auto
  moreover from Cons.prems n have "read_pairs m ?rest = Some (q # qs, r)"
    by (intro Cons.IH) auto
  ultimately show ?case using n p ws
    by (simp add: pair_text_simps read_str_text)
qed

lemma dict_of_distinct: "distinct (map fst kvs) \<Longrightarrow> dict_of kvs = kvs"
proof -
  have upd: "k \<notin> fst ` set d \<Longrightarrow> AList.update k v d = d @ [(k, v)]" for k :: string and v :: json and d
    by (induction d) auto
  have "distinct (map fst (d @ kvs)) \<Longrightarrow>
      foldl (\<lambda>d (k, v). AList.update k v d) d kvs = d @ kvs" for d :: "(string \<times> json) list"
    by (induction kvs arbitrary: d) (auto simp: upd image_iff)
  from this [of "[]"] show "distinct (map fst kvs) \<Longrightarrow> dict_of kvs = kvs"
    by (simp add: dict_of_def)
qed

lemma read_value_Int:
  assumes "ends_number r" and "n > 0"
  shows "read_value n (str_int i @ r) = Some (JInt i, r)"
proof -
  obtain c t where "str_int i = c # t" "c \<notin> {CHR 0x22, CHR ''['', CHR ''{'', CHR ''n'', CHR ''t'', CHR ''f''}"
    using str_int_start by blast
  moreover obtain m where "n = Suc m" using assms(2) by (cases n) auto
  ultimately show ?thesis using read_int_str_int [OF assms(1), of i] by auto
qed

theorem json_text_reads_back: "wf_json j \<Longrightarrow> reads_back ascii j"
proof (induction j)
  case (JInt i)
  show ?case by (rule reads_backI) (simp only: json_text.simps read_value_Int zero_less_Suc)
next
  case (JList xs)
  show ?case
  proof (rule reads_backI)
    fix m r
    assume n: "length (json_text ascii (JList xs)) \<le> Suc m"
    show "read_value (Suc m) (json_text ascii (JList xs) @ r) = Some (JList xs, r)"
    proof (cases xs)
      case (Cons y ys)
      obtain c t where y: "json_text ascii y = c # t" "is_start c" using json_text_start by blast
      let ?s = "join_with (CHR '','') (map (json_text ascii) (y # ys)) @ CHR '']'' # r"
      have "\<exists>u. ?s = c # u" using y by (cases ys) auto
      then have "skip_ws ?s = ?s" "eat (CHR '']'') ?s = None" using y(2) by (auto simp: is_start_def)
      moreover have "read_items m ?s = Some (y # ys, r)"
        using JList Cons n by (intro read_items_text) (auto simp: list_all_iff)
      ultimately show ?thesis using Cons by simp
    qed simp
  qed
next
  case (JObj kvs)
  have kvs: "\<forall>q \<in> set kvs. reads_back ascii (snd q)"
  proof
    fix q
    assume "q \<in> set kvs"
    with JObj.IH [of q "snd q"] JObj.prems show "reads_back ascii (snd q)"
      by (cases q) (auto simp: list_all_iff)
  qed
  have eq: "json_text ascii (JObj kvs) =
      CHR ''{'' # join_with (CHR '','') (map (pair_text ascii) kvs) @ ''}''"
    by (simp add: pair_text_def [abs_def] comp_def)
  show ?case
  proof (rule reads_backI)
    fix m r
    assume n: "length (json_text ascii (JObj kvs)) \<le> Suc m"
    show "read_value (Suc m) (json_text ascii (JObj kvs) @ r) = Some (JObj kvs, r)"
    proof (cases kvs)
      case (Cons p ps)
      let ?s = "join_with (CHR '','') (map (pair_text ascii) (p # ps)) @ CHR ''}'' # r"
      have "\<exists>u. ?s = CHR 0x22 # u" using pair_text_start [of ascii p] by (cases ps) auto
      then have "skip_ws ?s = ?s" "eat (CHR ''}'') ?s = None" by auto
      moreover have "read_pairs m ?s = Some (p # ps, r)"
        using kvs n [unfolded eq] unfolding Cons by (intro read_pairs_text) auto
      moreover have "dict_of (p # ps) = p # ps"
        using JObj.prems Cons by (intro dict_of_distinct) auto
      ultimately show ?thesis using Cons unfolding eq by simp
    qed simp
  qed
qed (auto intro!: reads_backI simp: quote_str_def read_str_text read_word_def)

subsection \<open>Canonical text\<close>

lemma map_fst_map_prod: "map fst (map (map_prod id f) kvs) = map fst kvs"
  by (induction kvs) auto

lemma wf_sort_keys: "wf_json j \<Longrightarrow> wf_json (sort_keys j)"
proof (induction j)
  case (JList xs)
  then show ?case by (auto simp: list_all_iff)
next
  case (JObj kvs)
  have "mset (map fst (sort_key fst (map (map_prod id sort_keys) kvs))) = mset (map fst kvs)"
    by (metis map_fst_map_prod mset_map mset_sort)
  then have "distinct (map fst (sort_key fst (map (map_prod id sort_keys) kvs)))"
    using JObj.prems by (metis mset_eq_imp_distinct_iff wf_json.simps(6))
  with JObj show ?case by (auto simp: list_all_iff dest: bspec)
qed auto

lemma sort_key_sorted: "sort_key f (sort_key f xs) = sort_key f xs"
  by (rule properties_for_sort_key) auto

lemma sort_keys_idem [simp]: "sort_keys (sort_keys j) = sort_keys j"
proof (induction j)
  case (JObj kvs)
  have "map (map_prod id sort_keys) (sort_key fst (map (map_prod id sort_keys) kvs)) =
      sort_key fst (map (map_prod id sort_keys) kvs)"
    using JObj by (intro map_idI) auto
  then show ?case by (simp add: sort_key_sorted)
qed auto

lemma json_dumps_sort_keys [simp]: "json_dumps ascii (sort_keys j) = json_dumps ascii j"
  by (simp add: json_dumps_def)

theorem json_loads_dumps:
  assumes "wf_json j"
  shows "json_loads (json_dumps ascii j) = Some (sort_keys j)"
proof -
  let ?t = "json_text ascii (sort_keys j)"
  have "reads_back ascii (sort_keys j)"
    using assms by (intro json_text_reads_back wf_sort_keys)
  from reads_backD [OF this, of "length ?t" "[]"]
  have "read_value (length ?t) ?t = Some (sort_keys j, [])" by simp
  moreover have "skip_ws ?t = ?t"
    using json_text_start [of ascii "sort_keys j"] by (auto simp: is_start_def)
  ultimately show ?thesis by (simp add: json_loads_def json_dumps_def)
qed

theorem json_dumps_inject:
  assumes "wf_json i" and "wf_json j"
  shows "json_dumps ascii i = json_dumps ascii j \<longleftrightarrow> sort_keys i = sort_keys j"
  using json_loads_dumps [OF assms(1), of ascii] json_loads_dumps [OF assms(2), of ascii]
  by (metis json_dumps_sort_keys option.inject)

text \<open>Two documents with the same canonical text agree on every field.\<close>

lemma map_of_sort_key:
  assumes "distinct (map fst kvs)"
  shows "map_of (sort_key fst kvs) = map_of kvs"
proof (rule map_of_inject_set [THEN iffD2])
  have "mset (map fst (sort_key fst kvs)) = mset (map fst kvs)" by (metis mset_map mset_sort)
  then show "distinct (map fst (sort_key fst kvs))" using assms by (metis mset_eq_imp_distinct_iff)
qed (use assms in auto)

lemma map_of_map_prod: "map_of (map (map_prod id f) kvs) k = map_option f (map_of kvs k)"
  by (induction kvs) auto

lemma sort_keys_field:
  assumes "sort_keys (JObj kvs) = sort_keys (JObj kvs')"
    and "distinct (map fst kvs)" and "distinct (map fst kvs')"
  shows "map_option sort_keys (map_of kvs k) = map_option sort_keys (map_of kvs' k)"
proof -
  have "map_of (sort_key fst (map (map_prod id sort_keys) kvs)) k =
      map_of (sort_key fst (map (map_prod id sort_keys) kvs')) k" using assms(1) by simp
  moreover have "distinct (map fst (map (map_prod id sort_keys) kvs))"
    "distinct (map fst (map (map_prod id sort_keys) kvs'))"
    using assms(2,3) unfolding map_fst_map_prod by simp_all
  ultimately show ?thesis using map_of_sort_key map_of_map_prod by metis
qed

lemma json_dumps_field:
  assumes "json_dumps ascii (JObj kvs) = json_dumps ascii (JObj kvs')"
    and "wf_json (JObj kvs)" and "wf_json (JObj kvs')"
  shows "map_option sort_keys (map_of kvs k) = map_option sort_keys (map_of kvs' k)"
proof -
  have "distinct (map fst kvs)" "distinct (map fst kvs')"
    using assms(2,3) by simp_all
  with assms json_dumps_inject [OF assms(2,3), of ascii] show ?thesis by (intro sort_keys_field) simp_all
qed

text \<open>With \<^verbatim>\<open>ensure_ascii\<close> the text is printable ASCII.\<close>

definition printable :: "string \<Rightarrow> bool" where
  "printable s \<longleftrightarrow> (\<forall>c \<in> set s. 32 \<le> (of_char c :: nat) \<and> (of_char c :: nat) < 127)"

lemma printable_simps [simp]: "printable []" "printable (s @ t) \<longleftrightarrow> printable s \<and> printable t"
  "printable (c # s) \<longleftrightarrow> 32 \<le> (of_char c :: nat) \<and> (of_char c :: nat) < 127 \<and> printable s"
  by (auto simp: printable_def)

lemma printable_hex_digit: "n < 16 \<Longrightarrow> printable [hex_digit n]"
  by (simp add: hex_digit_def)

lemma printable_escape_char: "printable (escape_char True c)"
proof -
  have "(of_char c :: nat) div 16 < 16" using of_char_bound [of c] by linarith
  with printable_hex_digit show ?thesis by (simp add: escape_char_def Let_def)
qed

lemma printable_quote_str: "printable (quote_str True s)"
proof -
  have "printable (concat (map (escape_char True) s))"
    by (induction s) (simp_all add: printable_escape_char)
  then show ?thesis by (simp add: quote_str_def)
qed

lemma printable_digits: "printable (digits n)"
  using digits_are_digits [of n] by (auto simp: printable_def is_digit_def)

lemma printable_join_with:
  "32 \<le> (of_char c :: nat) \<Longrightarrow> (of_char c :: nat) < 127 \<Longrightarrow> \<forall>x \<in> set xs. printable x \<Longrightarrow>
     printable (join_with c xs)"
  by (induction c xs rule: join_with.induct) auto

lemma printable_json_text: "printable (json_text True j)"
proof (induction j)
  case (JInt i)
  show ?case by (simp add: str_int_def printable_digits)
next
  case (JList xs)
  then show ?case by (auto intro!: printable_join_with)
next
  case (JObj kvs)
  then show ?case
    by (auto simp: item_text_def printable_quote_str intro!: printable_join_with)
qed (auto simp: printable_quote_str)

corollary json_dumps_no_separator: "CHR 0x1F \<notin> set (json_dumps True j)"
  using printable_json_text [of "sort_keys j"] by (auto simp: json_dumps_def printable_def)

end
