(* ===== verification/Exceptions.thy ===== *)
theory Exceptions
  imports Aegis_Prelude
begin

section \<open>Exceptions and their reason codes\<close>

text \<open>
  The exception classes that the modelled modules raise, as one datatype: a call that crosses
  module boundaries (the agent resuming an approval, which runs the effect pipeline) can then
  return any of them. A class that is raised with several fixed messages carries the message; a
  class with a reason code carries the code of its \<open>StrEnum\<close>.
\<close>

datatype execution_authorization_reason =
    ALLOWED
  | SUBJECT_NOT_FOUND
  | SUBJECT_INACTIVE
  | TENANT_MEMBERSHIP_CHANGED
  | REQUIRED_ROLE_MISSING
  | RESOURCE_NOT_FOUND
  | RESOURCE_DISABLED
  | RESOURCE_OWNER_MISMATCH
  | PASSWORD_RESET_DISABLED
  | INVALID_BOUND_ARGUMENTS
  | OUTBOX_CANCELLED

datatype authorization_freshness_reason =
    OUTBOX_CANCELLED
  | DECISION_BINDING_MISMATCH
  | TENANT_BINDING_MISMATCH
  | AUTHORITATIVE_VERSION_NOT_FOUND
  | REVOCATION_EPOCH_MISMATCH
  | POLICY_VERSION_MISMATCH
  | CACHED_AUTHORIZATION_DENIED

datatype authorization_provenance_reason =
    OUTBOX_CANCELLED
  | ISSUER_MISMATCH
  | AUDIENCE_MISMATCH
  | UNTRUSTED_SIGNING_KEY
  | KEY_EPOCH_MISMATCH
  | SIGNATURE_INVALID
  | DECISION_NOT_YET_VALID
  | DECISION_EXPIRED
  | TENANT_BINDING_MISMATCH
  | DECISION_BINDING_MISMATCH
  | AUTHORITATIVE_VERSION_NOT_FOUND
  | REVOCATION_EPOCH_MISMATCH
  | POLICY_VERSION_MISMATCH
  | CACHED_AUTHORIZATION_DENIED

datatype rollback_anchor_reason =
    OUTBOX_CANCELLED
  | ANCHOR_NOT_INITIALIZED
  | CONTROL_PLANE_GENERATION_MISMATCH
  | ENVELOPE_SIGNATURE_INVALID

datatype control_plane_convergence_reason =
    CHANGE_PENDING
  | EXECUTION_STATE_NOT_INITIALIZED
  | EXECUTION_GENERATION_MISMATCH
  | CHANGE_CONFLICT

datatype control_plane_crash_point = AFTER_PREPARE | AFTER_EXECUTION_APPLY | AFTER_MARK_APPLIED

datatype aegis_error =
    ValueError string
  | KeyError string
  | AssertionError
  | IntegrityError
  | ApprovalNotFoundError
  | ApprovalAuthorizationError string
  | ApprovalBindingError
  | ApprovalStateError string
  | EffectBindingError string
  | SyntheticWorkerCrash
  | ExecutionAuthorizationError execution_authorization_reason
  | AuthorizationFreshnessError authorization_freshness_reason
  | AuthorizationProvenanceError authorization_provenance_reason
  | RollbackAnchorError rollback_anchor_reason
  | ControlPlaneConvergenceError control_plane_convergence_reason
  | SyntheticControlPlaneCrash control_plane_crash_point
  | ReceiptWitnessError string
  | RuntimeError string
  | ValidationError
  | ToolValidationError string
  | ToolExecutionError string
  | ToolCapabilityDenied string
  | SyntheticTokenValidationError
  | InventoryAuthorizationError

end
