(* ===== verification/Identity.thy ===== *)
theory Identity
  imports Aegis_Prelude
begin

section \<open>Identity\<close>

text \<open>
  The principals of \<open>aegis/identity\<close>: the trusted server-side identity every authorization
  decision starts from, and the table of synthetic login handles. \<open>casefold\<close> is the ASCII part of
  \<^verbatim>\<open>str.casefold\<close>; all handles of the table are ASCII.
\<close>

datatype role = EMPLOYEE | SUPPORT_ANALYST | ADMIN_APPROVER | ATTACKER

definition role_value :: "role \<Rightarrow> string" where
  "role_value r = (case r of
     EMPLOYEE \<Rightarrow> ''employee''
   | SUPPORT_ANALYST \<Rightarrow> ''support_analyst''
   | ADMIN_APPROVER \<Rightarrow> ''admin_approver''
   | ATTACKER \<Rightarrow> ''attacker'')"

lemma role_value_inject [simp]: "role_value r = role_value q \<longleftrightarrow> r = q"
  by (cases r; cases q) (simp_all add: role_value_def)

record principal =
  p_user_id :: string
  p_tenant_id :: string
  p_roles :: "role set"

definition casefold :: "string \<Rightarrow> string" where
  "casefold s = map (\<lambda>c. let n = of_char c :: nat in
     if 65 \<le> n \<and> n \<le> 90 then char_of (n + 32) else c) s"

definition SYNTHETIC_PRINCIPALS :: "(string \<times> principal) list" where
  "SYNTHETIC_PRINCIPALS =
    [(''alice@northstar-dynamics.test'',
      \<lparr>p_user_id = ''usr_dyn_alice'', p_tenant_id = ''tenant_northstar_dynamics'', p_roles = {EMPLOYEE}\<rparr>),
     (''carol.approver@northstar-dynamics.test'',
      \<lparr>p_user_id = ''usr_dyn_carol'', p_tenant_id = ''tenant_northstar_dynamics'', p_roles = {ADMIN_APPROVER}\<rparr>),
     (''bob@northstar-digital.test'',
      \<lparr>p_user_id = ''usr_dig_bob'', p_tenant_id = ''tenant_northstar_digital'', p_roles = {EMPLOYEE}\<rparr>),
     (''dave.approver@northstar-digital.test'',
      \<lparr>p_user_id = ''usr_dig_dave'', p_tenant_id = ''tenant_northstar_digital'', p_roles = {ADMIN_APPROVER}\<rparr>)]"

definition resolve_synthetic_principal :: "string \<Rightarrow> principal option" where
  "resolve_synthetic_principal handle = map_of SYNTHETIC_PRINCIPALS (casefold handle)"

lemma casefold_idem: "casefold (casefold s) = casefold s"
  by (auto simp: casefold_def Let_def of_char_of)

text \<open>A handle resolves to the same principal however its letters are cased.\<close>

lemma resolve_casefold: "resolve_synthetic_principal (casefold h) = resolve_synthetic_principal h"
  by (simp add: resolve_synthetic_principal_def casefold_idem)

end
