(* ===== verification/Approvals.thy ===== *)
theory Approvals
  imports Json Exceptions Identity
begin

section \<open>Approvals: the in-memory store\<close>

text \<open>
  \<open>aegis/approvals/models.py\<close> and \<open>aegis/approvals/store.py\<close>. A call reads the clock at most twice
  (the expiry check, then the time it records); each reading is an argument of the model, in the
  order the code takes them. \<^verbatim>\<open>secrets.token_urlsafe\<close> gives the two random tokens of \<open>create\<close>,
  which are arguments too. The lock makes each method one step.
\<close>

subsection \<open>Records\<close>

datatype approval_action = REQUEST_ACCESS | REQUEST_PASSWORD_RESET

datatype approval_status = PENDING | APPROVED | REJECTED | CONSUMED | EXPIRED

datatype approval_decision = APPROVE | REJECT

definition action_value :: "approval_action \<Rightarrow> string" where
  "action_value a = (case a of
     REQUEST_ACCESS \<Rightarrow> ''request_access''
   | REQUEST_PASSWORD_RESET \<Rightarrow> ''request_password_reset'')"

definition status_value :: "approval_status \<Rightarrow> string" where
  "status_value s = (case s of
     PENDING \<Rightarrow> ''pending'' | APPROVED \<Rightarrow> ''approved'' | REJECTED \<Rightarrow> ''rejected''
   | CONSUMED \<Rightarrow> ''consumed'' | EXPIRED \<Rightarrow> ''expired'')"

record approval_record =
  a_approval_id :: string
  a_nonce :: string
  a_requester_user_id :: string
  a_tenant_id :: string
  a_action :: approval_action
  a_normalized_arguments_json :: string
  a_binding_hash :: string
  a_created_at :: int
  a_expires_at :: int
  a_status :: approval_status
  a_approver_user_id :: "string option"
  a_decided_at :: "int option"
  a_consumed_at :: "int option"

record approval_store =
  s_ttl :: int
  s_records :: "string \<rightharpoonup> approval_record"

subsection \<open>Operations\<close>

definition canonicalize :: "json \<Rightarrow> string" where
  "canonicalize arguments = json_dumps True arguments"

definition binding_material ::
  "string \<Rightarrow> string \<Rightarrow> string \<Rightarrow> approval_action \<Rightarrow> string \<Rightarrow> string" where
  "binding_material nonce requester_user_id tenant_id action normalized_arguments_json =
     utf8 (join_with (CHR 0x1F)
       [nonce, requester_user_id, tenant_id, action_value action, normalized_arguments_json])"

definition binding_hash ::
  "(string \<Rightarrow> string) \<Rightarrow> string \<Rightarrow> string \<Rightarrow> string \<Rightarrow> approval_action \<Rightarrow> string \<Rightarrow> string" where
  "binding_hash sha nonce requester_user_id tenant_id action normalized_arguments_json =
     sha (binding_material nonce requester_user_id tenant_id action normalized_arguments_json)"

definition approval_store_init :: "int \<Rightarrow> aegis_error + approval_store" where
  "approval_store_init ttl =
     (if ttl \<le> 0 then Inl (ValueError ''approval TTL must be positive'')
      else Inr \<lparr>s_ttl = ttl, s_records = Map.empty\<rparr>)"

definition new_record ::
  "(string \<Rightarrow> string) \<Rightarrow> int \<Rightarrow> int \<Rightarrow> string \<Rightarrow> string \<Rightarrow> principal \<Rightarrow> approval_action \<Rightarrow> json
     \<Rightarrow> approval_record" where
  "new_record sha ttl now token nonce requester action arguments =
     (let normalized = canonicalize arguments in
      \<lparr>a_approval_id = ''apr_'' @ token,
       a_nonce = nonce,
       a_requester_user_id = p_user_id requester,
       a_tenant_id = p_tenant_id requester,
       a_action = action,
       a_normalized_arguments_json = normalized,
       a_binding_hash = binding_hash sha nonce (p_user_id requester) (p_tenant_id requester)
         action normalized,
       a_created_at = now,
       a_expires_at = now + ttl,
       a_status = PENDING,
       a_approver_user_id = None,
       a_decided_at = None,
       a_consumed_at = None\<rparr>)"

definition create ::
  "(string \<Rightarrow> string) \<Rightarrow> int \<Rightarrow> string \<Rightarrow> string \<Rightarrow> principal \<Rightarrow> approval_action \<Rightarrow> json
     \<Rightarrow> (approval_store, aegis_error, approval_record) operation" where
  "create sha now token nonce requester action arguments st =
     (let record = new_record sha (s_ttl st) now token nonce requester action arguments in
      (Inr record, st\<lparr>s_records := (s_records st)(a_approval_id record \<mapsto> record)\<rparr>))"

definition require_record :: "string \<Rightarrow> approval_store \<Rightarrow> aegis_error + approval_record" where
  "require_record approval_id st = (case s_records st approval_id of
     None \<Rightarrow> Inl ApprovalNotFoundError
   | Some record \<Rightarrow> Inr record)"

definition is_expired :: "int \<Rightarrow> approval_record \<Rightarrow> bool" where
  "is_expired now record \<longleftrightarrow>
     a_status record \<in> {PENDING, APPROVED} \<and> a_expires_at record \<le> now"

definition expire_if_needed ::
  "int \<Rightarrow> approval_record \<Rightarrow> approval_store \<Rightarrow> approval_record \<times> approval_store" where
  "expire_if_needed now record st =
     (if is_expired now record then
        (let expired = record\<lparr>a_status := EXPIRED\<rparr> in
         (expired, st\<lparr>s_records := (s_records st)(a_approval_id record \<mapsto> expired)\<rparr>))
      else (record, st))"

definition verify_binding ::
  "(string \<Rightarrow> string) \<Rightarrow> approval_record \<Rightarrow> principal \<Rightarrow> approval_action \<Rightarrow> json
     \<Rightarrow> aegis_error + unit" where
  "verify_binding sha record requester action arguments =
     (let candidate = binding_hash sha (a_nonce record) (p_user_id requester)
        (p_tenant_id requester) action (canonicalize arguments) in
      if candidate \<noteq> a_binding_hash record then Inl ApprovalBindingError else Inr ())"

definition store_get :: "int \<Rightarrow> string \<Rightarrow> (approval_store, aegis_error, approval_record) operation" where
  "store_get now approval_id st = (case require_record approval_id st of
     Inl e \<Rightarrow> (Inl e, st)
   | Inr record \<Rightarrow> (let (record', st') = expire_if_needed now record st in (Inr record', st')))"

text \<open>The checks of an approver that both stores make, in the code's order.\<close>

definition check_approver :: "principal \<Rightarrow> approval_record \<Rightarrow> aegis_error option" where
  "check_approver approver record =
     (if ADMIN_APPROVER \<notin> p_roles approver
        then Some (ApprovalAuthorizationError ''principal is not an approver'')
      else if p_tenant_id approver \<noteq> a_tenant_id record
        then Some (ApprovalAuthorizationError ''cross-tenant approval is forbidden'')
      else if p_user_id approver = a_requester_user_id record
        then Some (ApprovalAuthorizationError ''self-approval is forbidden'')
      else None)"

definition desired_status :: "approval_decision \<Rightarrow> approval_status" where
  "desired_status decision = (case decision of APPROVE \<Rightarrow> APPROVED | REJECT \<Rightarrow> REJECTED)"

definition decided :: "approval_decision \<Rightarrow> string \<Rightarrow> int \<Rightarrow> approval_record \<Rightarrow> approval_record" where
  "decided decision approver_user_id now record =
     record\<lparr>a_status := desired_status decision, a_approver_user_id := Some approver_user_id,
            a_decided_at := Some now\<rparr>"

definition consumed :: "int \<Rightarrow> approval_record \<Rightarrow> approval_record" where
  "consumed now record = record\<lparr>a_status := CONSUMED, a_consumed_at := Some now\<rparr>"

definition decide ::
  "int \<Rightarrow> int \<Rightarrow> string \<Rightarrow> principal \<Rightarrow> approval_decision
     \<Rightarrow> (approval_store, aegis_error, approval_record) operation" where
  "decide checked now approval_id approver decision st = (case require_record approval_id st of
     Inl e \<Rightarrow> (Inl e, st)
   | Inr record0 \<Rightarrow>
       (let (record, st1) = expire_if_needed checked record0 st in
        case check_approver approver record of
          Some e \<Rightarrow> (Inl e, st1)
        | None \<Rightarrow>
            if a_status record \<noteq> PENDING
              then (Inl (ApprovalStateError ''approval is not pending''), st1)
            else
              (let updated = decided decision (p_user_id approver) now record in
               (Inr updated, st1\<lparr>s_records := (s_records st1)(approval_id \<mapsto> updated)\<rparr>))))"

definition consume_locked ::
  "(string \<Rightarrow> string) \<Rightarrow> int \<Rightarrow> approval_record \<Rightarrow> principal \<Rightarrow> approval_action \<Rightarrow> json
     \<Rightarrow> (approval_store, aegis_error, approval_record) operation" where
  "consume_locked sha now record requester action arguments st =
     (case verify_binding sha record requester action arguments of
        Inl e \<Rightarrow> (Inl e, st)
      | Inr _ \<Rightarrow>
          (let updated = consumed now record in
           (Inr updated, st\<lparr>s_records := (s_records st)(a_approval_id record \<mapsto> updated)\<rparr>)))"

definition resolve_after_review ::
  "(string \<Rightarrow> string) \<Rightarrow> int \<Rightarrow> int \<Rightarrow> string \<Rightarrow> principal \<Rightarrow> approval_action \<Rightarrow> json
     \<Rightarrow> (approval_store, aegis_error, approval_record) operation" where
  "resolve_after_review sha checked now approval_id requester action arguments st =
     (case require_record approval_id st of
        Inl e \<Rightarrow> (Inl e, st)
      | Inr record0 \<Rightarrow>
          (let (record, st1) = expire_if_needed checked record0 st in
           if a_status record = REJECTED then
             (case verify_binding sha record requester action arguments of
                Inl e \<Rightarrow> (Inl e, st1)
              | Inr _ \<Rightarrow> (Inr record, st1))
           else if a_status record \<noteq> APPROVED
             then (Inl (ApprovalStateError ''approval is not ready for consumption''), st1)
           else consume_locked sha now record requester action arguments st1))"

definition consume ::
  "(string \<Rightarrow> string) \<Rightarrow> int \<Rightarrow> int \<Rightarrow> string \<Rightarrow> principal \<Rightarrow> approval_action \<Rightarrow> json
     \<Rightarrow> (approval_store, aegis_error, approval_record) operation" where
  "consume sha checked now approval_id requester action arguments st =
     (case require_record approval_id st of
        Inl e \<Rightarrow> (Inl e, st)
      | Inr record0 \<Rightarrow>
          (let (record, st1) = expire_if_needed checked record0 st in
           if a_status record \<noteq> APPROVED
             then (Inl (ApprovalStateError ''approval is not approved''), st1)
           else consume_locked sha now record requester action arguments st1))"

subsection \<open>The lifecycle contract\<close>

inductive approval_step :: "approval_record \<Rightarrow> approval_record \<Rightarrow> bool" where
  stay: "approval_step r r"
| expire: "a_status r \<in> {PENDING, APPROVED} \<Longrightarrow> approval_step r (r\<lparr>a_status := EXPIRED\<rparr>)"
| decide: "a_status r = PENDING \<Longrightarrow> u \<noteq> a_requester_user_id r \<Longrightarrow> approval_step r (decided d u t r)"
| consume: "a_status r = APPROVED \<Longrightarrow> approval_step r (consumed t r)"

inductive_cases approval_stepE: "approval_step r r'"

definition fresh_record :: "approval_record \<Rightarrow> bool" where
  "fresh_record r \<longleftrightarrow> a_status r = PENDING \<and> a_approver_user_id r = None \<and>
     a_decided_at r = None \<and> a_consumed_at r = None"

definition other_approver :: "approval_record \<Rightarrow> bool" where
  "other_approver r \<longleftrightarrow> (\<exists>u t. a_approver_user_id r = Some u \<and> u \<noteq> a_requester_user_id r \<and>
     a_decided_at r = Some t)"

definition lifecycle_ok :: "approval_record \<Rightarrow> bool" where
  "lifecycle_ok r \<longleftrightarrow> (case a_status r of
     PENDING \<Rightarrow> fresh_record r
   | APPROVED \<Rightarrow> other_approver r \<and> a_consumed_at r = None
   | REJECTED \<Rightarrow> other_approver r \<and> a_consumed_at r = None
   | CONSUMED \<Rightarrow> other_approver r \<and> a_consumed_at r \<noteq> None
   | EXPIRED \<Rightarrow> (a_approver_user_id r = None \<or> other_approver r) \<and> a_consumed_at r = None)"

abbreviation terminal :: "approval_status \<Rightarrow> bool" where
  "terminal s \<equiv> s \<in> {REJECTED, CONSUMED, EXPIRED}"

text \<open>What no transition changes.\<close>

definition same_request :: "approval_record \<Rightarrow> approval_record \<Rightarrow> bool" where
  "same_request r r' \<longleftrightarrow> a_approval_id r' = a_approval_id r \<and> a_nonce r' = a_nonce r \<and>
     a_requester_user_id r' = a_requester_user_id r \<and> a_tenant_id r' = a_tenant_id r \<and>
     a_action r' = a_action r \<and>
     a_normalized_arguments_json r' = a_normalized_arguments_json r \<and>
     a_binding_hash r' = a_binding_hash r \<and> a_created_at r' = a_created_at r \<and>
     a_expires_at r' = a_expires_at r"

lemma desired_status_neq [simp]:
  "desired_status d \<noteq> PENDING" "desired_status d \<noteq> CONSUMED" "desired_status d \<noteq> EXPIRED"
  by (cases d; simp add: desired_status_def)+

lemma consumed_status [simp]: "a_status (consumed t r) = CONSUMED"
  by (simp add: consumed_def)

lemma approval_step_same_request: "approval_step r r' \<Longrightarrow> same_request r r'"
  by (cases rule: approval_step.cases) (auto simp: same_request_def decided_def consumed_def)

lemma approval_step_lifecycle_ok: "approval_step r r' \<Longrightarrow> lifecycle_ok r \<Longrightarrow> lifecycle_ok r'"
  by (cases rule: approval_step.cases)
    (auto simp: lifecycle_ok_def decided_def consumed_def desired_status_def other_approver_def
      fresh_record_def split: approval_decision.splits)

lemma approval_step_terminal: "approval_step r r' \<Longrightarrow> terminal (a_status r) \<Longrightarrow> r' = r"
  by (cases rule: approval_step.cases) auto

lemma same_request_refl [simp]: "same_request r r"
  by (simp add: same_request_def)

lemma same_request_trans [trans]: "same_request r s \<Longrightarrow> same_request s t \<Longrightarrow> same_request r t"
  by (simp add: same_request_def)

locale approval_lifecycle =
  fixes lookup :: "'s \<Rightarrow> string \<Rightarrow> approval_record option"
    and step :: "'s \<Rightarrow> 's \<Rightarrow> bool"
    and inv :: "'s \<Rightarrow> bool"
  assumes inv_step: "inv s \<Longrightarrow> step s t \<Longrightarrow> inv t"
    and inv_ok: "inv s \<Longrightarrow> lookup s i = Some r \<Longrightarrow> lifecycle_ok r"
    and step_old: "inv s \<Longrightarrow> step s t \<Longrightarrow> lookup s i = Some r \<Longrightarrow>
      \<exists>r'. lookup t i = Some r' \<and> approval_step r r'"
    and step_new: "inv s \<Longrightarrow> step s t \<Longrightarrow> lookup s i = None \<Longrightarrow> lookup t i = Some r \<Longrightarrow>
      fresh_record r"
begin

lemma inv_steps: "step\<^sup>*\<^sup>* s t \<Longrightarrow> inv s \<Longrightarrow> inv t"
  by (induction rule: rtranclp_induct) (auto intro: inv_step)

lemma steps_old:
  "step\<^sup>*\<^sup>* s t \<Longrightarrow> inv s \<Longrightarrow> lookup s i = Some r \<Longrightarrow>
     \<exists>r'. lookup t i = Some r' \<and> approval_step\<^sup>*\<^sup>* r r'"
proof (induction rule: rtranclp_induct)
  case base
  then show ?case by blast
next
  case (step t u)
  then obtain r' where r': "lookup t i = Some r'" "approval_step\<^sup>*\<^sup>* r r'" by blast
  from step.hyps(1) step.prems(1) have "inv t" by (rule inv_steps)
  from step_old [OF this step.hyps(2) r'(1)] r'(2) show ?case
    by (meson rtranclp.rtrancl_into_rtrancl)
qed

lemma request_is_fixed:
  assumes "step\<^sup>*\<^sup>* s t" and "inv s" and "lookup s i = Some r"
  shows "\<exists>r'. lookup t i = Some r' \<and> same_request r r'"
proof -
  obtain r' where r': "lookup t i = Some r'" "approval_step\<^sup>*\<^sup>* r r'"
    using steps_old [OF assms] by blast
  from r'(2) have "same_request r r'"
    by (induction rule: rtranclp_induct)
      (auto intro: same_request_trans approval_step_same_request)
  with r'(1) show ?thesis by blast
qed

lemma terminal_is_final:
  assumes "step\<^sup>*\<^sup>* s t" and "inv s" and "lookup s i = Some r" and "terminal (a_status r)"
  shows "lookup t i = Some r"
proof -
  obtain r' where r': "lookup t i = Some r'" "approval_step\<^sup>*\<^sup>* r r'"
    using steps_old [OF assms(1,2,3)] by blast
  from r'(2) have "r' = r"
    using assms(4) by (induction rule: rtranclp_induct) (auto dest: approval_step_terminal)
  with r'(1) show ?thesis by simp
qed

lemma consumed_needs_other_approver:
  assumes "inv s" and "lookup s i = Some r" and "a_status r = CONSUMED"
  shows "\<exists>u. a_approver_user_id r = Some u \<and> u \<noteq> a_requester_user_id r"
  using inv_ok [OF assms(1,2)] assms(3) by (auto simp: lifecycle_ok_def other_approver_def)

end

subsection \<open>The in-memory store keeps the contract\<close>

definition bound :: "(string \<Rightarrow> string) \<Rightarrow> approval_record \<Rightarrow> bool" where
  "bound sha r \<longleftrightarrow> a_binding_hash r = binding_hash sha (a_nonce r) (a_requester_user_id r)
     (a_tenant_id r) (a_action r) (a_normalized_arguments_json r) \<and>
     (\<exists>args. wf_json args \<and> a_normalized_arguments_json r = canonicalize args)"

definition record_inv :: "(string \<Rightarrow> string) \<Rightarrow> int \<Rightarrow> approval_record \<Rightarrow> bool" where
  "record_inv sha ttl r \<longleftrightarrow> bound sha r \<and> lifecycle_ok r \<and> a_expires_at r = a_created_at r + ttl"

definition store_inv :: "(string \<Rightarrow> string) \<Rightarrow> approval_store \<Rightarrow> bool" where
  "store_inv sha st \<longleftrightarrow> 0 < s_ttl st \<and> (\<forall>i r. s_records st i = Some r \<longrightarrow>
     a_approval_id r = i \<and> record_inv sha (s_ttl st) r)"

lemma approval_step_record_inv: "approval_step r r' \<Longrightarrow> record_inv sha ttl r \<Longrightarrow> record_inv sha ttl r'"
  using approval_step_same_request [of r r'] approval_step_lifecycle_ok [of r r']
  by (auto simp: record_inv_def bound_def same_request_def)

abbreviation put_record :: "string \<Rightarrow> approval_record \<Rightarrow> approval_store \<Rightarrow> approval_store" where
  "put_record i r st \<equiv> st\<lparr>s_records := (s_records st)(i \<mapsto> r)\<rparr>"

text \<open>
  Every method other than \<open>create\<close> moves at most the record it is called for; a call that raises,
  and \<open>get\<close>, at most lets it lapse.
\<close>

definition moves :: "string \<Rightarrow> approval_store \<Rightarrow> approval_store \<Rightarrow> bool" where
  "moves i st st' \<longleftrightarrow> st' = st \<or>
     (\<exists>r r'. s_records st i = Some r \<and> approval_step r r' \<and> st' = put_record i r' st)"

definition lapses :: "string \<Rightarrow> approval_store \<Rightarrow> approval_store \<Rightarrow> bool" where
  "lapses i st st' \<longleftrightarrow> st' = st \<or>
     (\<exists>r. s_records st i = Some r \<and> a_status r \<in> {PENDING, APPROVED} \<and>
        st' = put_record i (r\<lparr>a_status := EXPIRED\<rparr>) st)"

lemma lapses_moves: "lapses i st st' \<Longrightarrow> moves i st st'"
  by (auto simp: lapses_def moves_def intro: approval_step.expire)

lemma require_record_simps:
  "require_record i st = Inr r \<longleftrightarrow> s_records st i = Some r"
  "require_record i st = Inl e \<longleftrightarrow> s_records st i = None \<and> e = ApprovalNotFoundError"
  by (auto simp: require_record_def split: option.splits)

lemma store_inv_id: "store_inv sha st \<Longrightarrow> s_records st i = Some r \<Longrightarrow> a_approval_id r = i"
  by (simp add: store_inv_def)

lemma check_approver_None:
  "check_approver p r = None \<longleftrightarrow> ADMIN_APPROVER \<in> p_roles p \<and> p_tenant_id p = a_tenant_id r \<and>
     p_user_id p \<noteq> a_requester_user_id r"
  by (auto simp: check_approver_def)

lemma expire_lapses:
  assumes "store_inv sha st" and "require_record i st = Inr r"
    and "expire_if_needed now r st = (r', st')"
  shows "lapses i st st'"
  using assms store_inv_id [OF assms(1), of i r]
  by (auto simp: expire_if_needed_def lapses_def is_expired_def Let_def require_record_simps
      split: if_splits)

lemma get_lapses:
  assumes "store_inv sha st" and "store_get now i st = (res, st')"
  shows "lapses i st st'"
proof (cases "require_record i st")
  case (Inl e)
  with assms show ?thesis by (auto simp: store_get_def lapses_def)
next
  case (Inr r)
  obtain r1 st1 where e: "expire_if_needed now r st = (r1, st1)" by fastforce
  with Inr assms have "st' = st1" by (simp add: store_get_def)
  with expire_lapses [OF assms(1) Inr e] show ?thesis by simp
qed

text \<open>
  What a successful decision means: the record was pending and not past its expiry at the check,
  and the approver is an admin approver of the same tenant other than the requester.
\<close>

lemma decide_Inr:
  assumes "decide t1 t2 i p d st = (Inr r', st')"
  shows "\<exists>r. s_records st i = Some r \<and> a_status r = PENDING \<and> t1 < a_expires_at r \<and>
    check_approver p r = None \<and> r' = decided d (p_user_id p) t2 r \<and> st' = put_record i r' st"
  using assms
  by (auto simp: decide_def expire_if_needed_def is_expired_def require_record_def Let_def
      split: option.splits if_splits)

lemma decide_Inl:
  assumes "decide t1 t2 i p d st = (Inl e, st')" and "store_inv sha st"
  shows "lapses i st st'"
proof (cases "require_record i st")
  case (Inl e)
  with assms show ?thesis by (auto simp: decide_def lapses_def)
next
  case (Inr r)
  obtain r1 st1 where x: "expire_if_needed t1 r st = (r1, st1)" by fastforce
  with Inr assms(1) have "st' = st1"
    by (auto simp: decide_def Let_def split: option.splits if_splits)
  with expire_lapses [OF assms(2) Inr x] show ?thesis by simp
qed

lemma decide_moves:
  assumes "store_inv sha st" and "decide t1 t2 i p d st = (res, st')"
  shows "moves i st st'"
proof (cases res)
  case (Inl e)
  with assms decide_Inl lapses_moves show ?thesis by blast
next
  case (Inr r')
  with assms(2) decide_Inr [of t1 t2 i p d st r' st'] show ?thesis
    by (auto simp: moves_def check_approver_None intro: approval_step.decide)
qed

text \<open>What a successful consumption means.\<close>

lemma consume_locked_Inr:
  "consume_locked sha t r q a args st = (Inr r', st') \<longleftrightarrow>
     verify_binding sha r q a args = Inr () \<and> r' = consumed t r \<and>
     st' = put_record (a_approval_id r) r' st"
  by (auto simp: consume_locked_def Let_def split: sum.splits)

lemma consume_locked_Inl: "consume_locked sha t r q a args st = (Inl e, st') \<Longrightarrow> st' = st"
  by (auto simp: consume_locked_def Let_def split: sum.splits)

lemma consume_Inr:
  assumes "consume sha t1 t2 i q a args st = (Inr r', st')" and "store_inv sha st"
  shows "\<exists>r. s_records st i = Some r \<and> a_status r = APPROVED \<and> t1 < a_expires_at r \<and>
    verify_binding sha r q a args = Inr () \<and> r' = consumed t2 r \<and> st' = put_record i r' st"
  using assms
  by (auto simp: consume_def expire_if_needed_def is_expired_def require_record_def Let_def
      consume_locked_Inr dest: store_inv_id split: option.splits if_splits)

lemma consume_Inl:
  assumes inv: "store_inv sha st" and run: "consume sha t1 t2 i q a args st = (Inl e, st')"
  shows "lapses i st st'"
proof (cases "require_record i st")
  case (Inl e)
  with run show ?thesis by (auto simp: consume_def lapses_def)
next
  case (Inr r)
  obtain r1 st1 where x: "expire_if_needed t1 r st = (r1, st1)" by fastforce
  with run Inr have "st' = st1"
    by (auto simp: consume_def Let_def dest: consume_locked_Inl split: if_splits)
  with expire_lapses [OF inv Inr x] show ?thesis by simp
qed

lemma consume_moves:
  assumes inv: "store_inv sha st" and run: "consume sha t1 t2 i q a args st = (res, st')"
  shows "moves i st st'"
proof (cases res)
  case (Inl e)
  with inv run consume_Inl lapses_moves show ?thesis by blast
next
  case (Inr r')
  with run consume_Inr [OF _ inv] show ?thesis
    by (fastforce simp: moves_def intro: approval_step.consume)
qed

lemma resolve_Inr:
  assumes "resolve_after_review sha t1 t2 i q a args st = (Inr r', st')" and "store_inv sha st"
  shows "\<exists>r. s_records st i = Some r \<and> verify_binding sha r q a args = Inr () \<and>
    (a_status r = REJECTED \<and> r' = r \<and> st' = st \<or>
     a_status r = APPROVED \<and> t1 < a_expires_at r \<and> r' = consumed t2 r \<and> st' = put_record i r' st)"
  using assms
  by (auto simp: resolve_after_review_def expire_if_needed_def is_expired_def require_record_def
      Let_def consume_locked_Inr dest: store_inv_id split: option.splits if_splits sum.splits)

lemma resolve_Inl:
  assumes inv: "store_inv sha st"
    and run: "resolve_after_review sha t1 t2 i q a args st = (Inl e, st')"
  shows "lapses i st st'"
proof (cases "require_record i st")
  case (Inl e)
  with run show ?thesis by (auto simp: resolve_after_review_def lapses_def)
next
  case (Inr r)
  obtain r1 st1 where x: "expire_if_needed t1 r st = (r1, st1)" by fastforce
  with run Inr have "st' = st1"
    by (auto simp: resolve_after_review_def Let_def dest: consume_locked_Inl
        split: if_splits sum.splits)
  with expire_lapses [OF inv Inr x] show ?thesis by simp
qed

lemma resolve_moves:
  assumes inv: "store_inv sha st" and run: "resolve_after_review sha t1 t2 i q a args st = (res, st')"
  shows "moves i st st'"
proof (cases res)
  case (Inl e)
  with inv run resolve_Inl lapses_moves show ?thesis by blast
next
  case (Inr r')
  with run resolve_Inr [OF _ inv] show ?thesis
    by (fastforce simp: moves_def intro: approval_step.consume)
qed

inductive store_step :: "(string \<Rightarrow> string) \<Rightarrow> approval_store \<Rightarrow> approval_store \<Rightarrow> bool"
  for sha where
  create: "create sha now tok nonce q a args st = (res, st') \<Longrightarrow>
    s_records st (''apr_'' @ tok) = None \<Longrightarrow> wf_json args \<Longrightarrow> store_step sha st st'"
| get: "store_get now i st = (res, st') \<Longrightarrow> store_step sha st st'"
| decide: "decide t1 t2 i p d st = (res, st') \<Longrightarrow> store_step sha st st'"
| resolve: "resolve_after_review sha t1 t2 i q a args st = (res, st') \<Longrightarrow> store_step sha st st'"
| consume: "consume sha t1 t2 i q a args st = (res, st') \<Longrightarrow> store_step sha st st'"

lemma new_record_ok:
  "fresh_record (new_record sha ttl now tok nonce q a args)"
  "wf_json args \<Longrightarrow> record_inv sha ttl (new_record sha ttl now tok nonce q a args)"
  by (auto simp: new_record_def fresh_record_def record_inv_def bound_def lifecycle_ok_def Let_def)

lemma put_record_inv:
  "store_inv sha st \<Longrightarrow> record_inv sha (s_ttl st) r \<Longrightarrow> store_inv sha (put_record (a_approval_id r) r st)"
  by (simp add: store_inv_def)

lemma store_step_cases:
  assumes "store_step sha st st'" and "store_inv sha st"
  obtains (new) now tok nonce q a args r where "s_records st (a_approval_id r) = None" "wf_json args"
      "r = new_record sha (s_ttl st) now tok nonce q a args" "st' = put_record (a_approval_id r) r st"
  | (moved) i where "moves i st st'"
  using assms
proof (cases rule: store_step.cases)
  case (create now tok nonce q a args res)
  then show ?thesis
    by (intro new [of "new_record sha (s_ttl st) now tok nonce q a args" args now tok nonce q a])
      (auto simp: create_def Let_def new_record_def)
qed (use assms(2) moved in \<open>blast intro: lapses_moves get_lapses decide_moves resolve_moves consume_moves\<close>)+

lemma moves_inv:
  assumes "moves i st st'" and "store_inv sha st"
  shows "store_inv sha st'"
proof (cases "st' = st")
  case False
  with assms(1) obtain r r' where r: "s_records st i = Some r" "approval_step r r'"
      "st' = put_record i r' st" by (auto simp: moves_def)
  with assms(2) have "record_inv sha (s_ttl st) r'" "i = a_approval_id r'"
    using approval_step_same_request [OF r(2)]
    by (auto simp: store_inv_def same_request_def intro: approval_step_record_inv)
  with r(3) assms(2) show ?thesis by (simp add: put_record_inv)
qed (use assms in simp)

lemma store_step_inv: "store_inv sha st \<Longrightarrow> store_step sha st st' \<Longrightarrow> store_inv sha st'"
  by (erule store_step_cases) (auto intro: moves_inv put_record_inv new_record_ok)

interpretation mem: approval_lifecycle s_records "store_step sha" "store_inv sha"
proof
  fix s t i r
  assume inv: "store_inv sha s" and st: "store_step sha s t"
  show "store_inv sha t" using inv st by (rule store_step_inv)
  { assume r: "s_records s i = Some r"
    from st inv show "\<exists>r'. s_records t i = Some r' \<and> approval_step r r'"
      by (rule store_step_cases)
        (use r in \<open>auto simp: moves_def intro: approval_step.stay\<close>) }
  { assume n: "s_records s i = None" and r: "s_records t i = Some r"
    from st inv show "fresh_record r"
      by (rule store_step_cases)
        (use n r in \<open>auto simp: moves_def new_record_ok split: if_splits\<close>) }
qed (simp add: store_inv_def record_inv_def)

subsection \<open>What the binding proves\<close>

text \<open>
  The binding hash is over the joined fields, so equal hashes give equal joined fields unless the
  hash function collides on exactly these two messages. The action and the arguments are then the
  recorded ones whatever the identifiers contain; the requester and the tenant are, provided that
  no identifier contains the separator.
\<close>

lemma action_value_no_separator: "CHR 0x1F \<notin> set (action_value a)"
  by (cases a) (simp_all add: action_value_def)

lemma action_value_inject [simp]: "action_value a = action_value b \<longleftrightarrow> a = b"
  by (cases a; cases b) (simp_all add: action_value_def)

lemma binding_material_inject:
  assumes "binding_material n u t a x = binding_material n u' t' a' x'"
    and "CHR 0x1F \<notin> set x" and "CHR 0x1F \<notin> set x'"
  shows "a = a' \<and> x = x' \<and> u @ CHR 0x1F # t = u' @ CHR 0x1F # t'"
proof -
  let ?c = "CHR 0x1F"
  from assms(1) have eq: "((u @ ?c # t) @ ?c # action_value a) @ ?c # x =
      ((u' @ ?c # t') @ ?c # action_value a') @ ?c # x'"
    unfolding binding_material_def utf8_inject by simp
  from split_at_last_separator [OF this assms(2,3)]
  have x: "x = x'" and "(u @ ?c # t) @ ?c # action_value a = (u' @ ?c # t') @ ?c # action_value a'"
    by simp_all
  from split_at_last_separator [OF this(2)] x show ?thesis
    by (simp add: action_value_no_separator)
qed

definition same_binding :: "approval_record \<Rightarrow> principal \<Rightarrow> approval_action \<Rightarrow> json \<Rightarrow> bool" where
  "same_binding r q a args \<longleftrightarrow> p_user_id q = a_requester_user_id r \<and> p_tenant_id q = a_tenant_id r \<and>
     a = a_action r \<and> canonicalize args = a_normalized_arguments_json r"

definition no_separator :: "string \<Rightarrow> bool" where
  "no_separator s \<longleftrightarrow> CHR 0x1F \<notin> set s"

abbreviation binding_collision ::
  "(string \<Rightarrow> string) \<Rightarrow> approval_record \<Rightarrow> principal \<Rightarrow> approval_action \<Rightarrow> json \<Rightarrow> bool" where
  "binding_collision sha r q a args \<equiv> collision sha
     (binding_material (a_nonce r) (p_user_id q) (p_tenant_id q) a (canonicalize args))
     (binding_material (a_nonce r) (a_requester_user_id r) (a_tenant_id r) (a_action r)
        (a_normalized_arguments_json r))"

lemma verify_binding_joined:
  assumes "verify_binding sha r q a args = Inr ()" and "bound sha r" and "\<not> binding_collision sha r q a args"
  shows "a = a_action r \<and> canonicalize args = a_normalized_arguments_json r \<and>
    p_user_id q @ CHR 0x1F # p_tenant_id q = a_requester_user_id r @ CHR 0x1F # a_tenant_id r"
proof -
  from assms have "binding_material (a_nonce r) (p_user_id q) (p_tenant_id q) a (canonicalize args) =
      binding_material (a_nonce r) (a_requester_user_id r) (a_tenant_id r) (a_action r)
        (a_normalized_arguments_json r)"
    by (auto simp: verify_binding_def bound_def binding_hash_def collision_def Let_def split: if_splits)
  moreover from assms(2) have "CHR 0x1F \<notin> set (a_normalized_arguments_json r)"
    by (auto simp: bound_def canonicalize_def json_dumps_no_separator)
  ultimately show ?thesis
    by (intro binding_material_inject) (auto simp: canonicalize_def json_dumps_no_separator)
qed

lemma joined_ids:
  assumes "p_user_id q @ CHR 0x1F # p_tenant_id q = a_requester_user_id r @ CHR 0x1F # a_tenant_id r"
    and "no_separator (p_user_id q)" and "no_separator (a_requester_user_id r)"
  shows "p_user_id q = a_requester_user_id r \<and> p_tenant_id q = a_tenant_id r"
  using assms by (auto simp: no_separator_def dest: split_at_separator)

lemma verify_binding_sound:
  assumes "verify_binding sha r q a args = Inr ()" and "bound sha r"
    and "no_separator (p_user_id q)" and "no_separator (a_requester_user_id r)"
  shows "same_binding r q a args \<or> binding_collision sha r q a args"
  using verify_binding_joined [OF assms(1,2)] joined_ids [OF _ assms(3,4)] by (auto simp: same_binding_def)

text \<open>The users the code knows have no separator in their identifiers.\<close>

lemma synthetic_principals_no_separator:
  "resolve_synthetic_principal handle = Some q \<Longrightarrow> no_separator (p_user_id q)"
  by (auto simp: resolve_synthetic_principal_def SYNTHETIC_PRINCIPALS_def no_separator_def split: if_splits)

lemma verify_binding_complete:
  "bound sha r \<Longrightarrow> same_binding r q a args \<Longrightarrow> verify_binding sha r q a args = Inr ()"
  by (simp add: verify_binding_def bound_def same_binding_def)

subsection \<open>Histories: four eyes and single use\<close>

datatype store_event = Decided string principal approval_decision | Consumed string

definition decision_events ::
  "string \<Rightarrow> principal \<Rightarrow> approval_decision \<Rightarrow> aegis_error + approval_record \<Rightarrow> store_event list" where
  "decision_events i p d res = (case res of Inr _ \<Rightarrow> [Decided i p d] | Inl _ \<Rightarrow> [])"

definition consumption_events :: "string \<Rightarrow> aegis_error + approval_record \<Rightarrow> store_event list" where
  "consumption_events i res = (case res of
     Inr r \<Rightarrow> if a_status r = CONSUMED then [Consumed i] else [] | Inl _ \<Rightarrow> [])"

inductive store_run :: "(string \<Rightarrow> string) \<Rightarrow> store_event list \<Rightarrow> approval_store \<Rightarrow> bool"
  for sha where
  start: "approval_store_init ttl = Inr st \<Longrightarrow> store_run sha [] st"
| create: "store_run sha h st \<Longrightarrow> create sha now tok nonce q a args st = (res, st') \<Longrightarrow>
    s_records st (''apr_'' @ tok) = None \<Longrightarrow> wf_json args \<Longrightarrow> store_run sha h st'"
| get: "store_run sha h st \<Longrightarrow> store_get now i st = (res, st') \<Longrightarrow> store_run sha h st'"
| decide: "store_run sha h st \<Longrightarrow> decide t1 t2 i p d st = (res, st') \<Longrightarrow>
    store_run sha (decision_events i p d res @ h) st'"
| resolve: "store_run sha h st \<Longrightarrow> resolve_after_review sha t1 t2 i q a args st = (res, st') \<Longrightarrow>
    store_run sha (consumption_events i res @ h) st'"
| consume: "store_run sha h st \<Longrightarrow> consume sha t1 t2 i q a args st = (res, st') \<Longrightarrow>
    store_run sha (consumption_events i res @ h) st'"

lemma store_run_inv: "store_run sha h st \<Longrightarrow> store_inv sha st"
proof (induction rule: store_run.induct)
  case (start ttl st)
  then show ?case by (auto simp: approval_store_init_def store_inv_def split: if_splits)
qed (blast intro: store_step_inv store_step.intros)+

definition history_at :: "store_event list \<Rightarrow> string \<Rightarrow> approval_record option \<Rightarrow> bool" where
  "history_at h i ro \<longleftrightarrow>
     count_list h (Consumed i) = (if \<exists>r. ro = Some r \<and> a_status r = CONSUMED then 1 else 0) \<and>
     (\<forall>r. ro = Some r \<longrightarrow> a_status r \<in> {APPROVED, CONSUMED} \<longrightarrow>
        (\<exists>p. Decided i p APPROVE \<in> set h \<and> check_approver p r = None))"

definition history_ok :: "store_event list \<Rightarrow> approval_store \<Rightarrow> bool" where
  "history_ok h st \<longleftrightarrow> (\<forall>i. history_at h i (s_records st i))"

lemma history_put:
  assumes "history_ok h st" and "history_at (es @ h) i (Some r)"
    and "\<And>j. j \<noteq> i \<Longrightarrow> Consumed j \<notin> set es"
  shows "history_ok (es @ h) (put_record i r st)"
proof -
  have "history_at (es @ h) j (s_records st j)" if "j \<noteq> i" for j
  proof -
    have "count_list es (Consumed j) = 0" using assms(3) [OF that] by (simp add: count_list_0_iff)
    moreover have "history_at h j (s_records st j)" using assms(1) by (simp add: history_ok_def)
    ultimately show ?thesis by (auto simp: history_at_def)
  qed
  with assms(2) show ?thesis by (simp add: history_ok_def)
qed

lemma history_lapses: "history_ok h st \<Longrightarrow> lapses i st st' \<Longrightarrow> history_ok h st'"
proof (cases "st' = st")
  case False
  assume h: "history_ok h st" and "lapses i st st'"
  with False obtain r where r: "s_records st i = Some r" "a_status r \<in> {PENDING, APPROVED}"
      "st' = put_record i (r\<lparr>a_status := EXPIRED\<rparr>) st" by (auto simp: lapses_def)
  from h r(1) have "history_at h i (Some r)" by (metis history_ok_def)
  with r(2) have "history_at ([] @ h) i (Some (r\<lparr>a_status := EXPIRED\<rparr>))"
    by (auto simp: history_at_def)
  from history_put [OF h this] r(3) show ?thesis by simp
qed simp

lemma history_new:
  assumes "history_ok h st" and "s_records st i = None" and "a_status r = PENDING"
  shows "history_ok h (put_record i r st)"
proof -
  have "history_at h i None" using assms(1,2) by (metis history_ok_def)
  with assms(3) have "history_at ([] @ h) i (Some r)" by (auto simp: history_at_def)
  from history_put [OF assms(1) this] show ?thesis by simp
qed

lemma history_decided:
  assumes "history_ok h st" and "s_records st i = Some r" and "a_status r = PENDING"
    and "check_approver p r = None"
  shows "history_ok (Decided i p d # h) (put_record i (decided d (p_user_id p) t r) st)"
proof -
  have "history_at h i (Some r)" using assms(1,2) by (metis history_ok_def)
  with assms(3,4) have "history_at ([Decided i p d] @ h) i (Some (decided d (p_user_id p) t r))"
    by (cases d) (auto simp: history_at_def decided_def desired_status_def check_approver_None)
  from history_put [OF assms(1) this] show ?thesis by simp
qed

lemma history_consumed:
  assumes "history_ok h st" and "s_records st i = Some r" and "a_status r = APPROVED"
  shows "history_ok (Consumed i # h) (put_record i (consumed t r) st)"
proof -
  have "history_at h i (Some r)" using assms(1,2) by (metis history_ok_def)
  with assms(3) have "history_at ([Consumed i] @ h) i (Some (consumed t r))"
    by (auto simp: history_at_def consumed_def check_approver_None)
  from history_put [OF assms(1) this] show ?thesis by simp
qed

lemma decision_events_simps [simp]:
  "decision_events i p d (Inr r) = [Decided i p d]" "decision_events i p d (Inl e) = []"
  by (simp_all add: decision_events_def)

lemma consumption_events_simps [simp]:
  "consumption_events i (Inr r) = (if a_status r = CONSUMED then [Consumed i] else [])"
  "consumption_events i (Inl e) = []"
  by (simp_all add: consumption_events_def)

lemma store_run_history: "store_run sha h st \<Longrightarrow> history_ok h st"
proof (induction rule: store_run.induct)
  case (start ttl st)
  then show ?case
    by (auto simp: approval_store_init_def history_ok_def history_at_def split: if_splits)
next
  case (create h st now tok nonce q a args res st')
  then have "history_ok h (put_record (''apr_'' @ tok)
      (new_record sha (s_ttl st) now tok nonce q a args) st)"
    by (intro history_new) (simp_all add: new_record_def Let_def)
  with create.hyps(2) show ?case by (auto simp: create_def Let_def new_record_def)
next
  case (get h st now i res st')
  then show ?case by (meson get_lapses history_lapses store_run_inv)
next
  case (decide h st t1 t2 i p d res st')
  show ?case
  proof (cases res)
    case (Inl e)
    with decide decide_Inl history_lapses store_run_inv show ?thesis by fastforce
  next
    case (Inr r')
    with decide.hyps(2) decide_Inr [of t1 t2 i p d st r' st'] decide.IH show ?thesis
      by (auto intro: history_decided)
  qed
next
  case (resolve h st t1 t2 i q a args res st')
  then have inv: "store_inv sha st" by (simp add: store_run_inv)
  show ?case
  proof (cases res)
    case (Inl e)
    with resolve resolve_Inl [OF inv] history_lapses show ?thesis by fastforce
  next
    case (Inr r')
    with resolve.hyps(2) have "resolve_after_review sha t1 t2 i q a args st = (Inr r', st')" by simp
    from resolve_Inr [OF this inv] obtain r where "s_records st i = Some r"
      and "a_status r = REJECTED \<and> r' = r \<and> st' = st \<or>
        a_status r = APPROVED \<and> r' = consumed t2 r \<and> st' = put_record i r' st" by blast
    with Inr resolve.IH show ?thesis by (auto intro: history_consumed)
  qed
next
  case (consume h st t1 t2 i q a args res st')
  then have inv: "store_inv sha st" by (simp add: store_run_inv)
  show ?case
  proof (cases res)
    case (Inl e)
    with consume consume_Inl [OF inv] history_lapses show ?thesis by fastforce
  next
    case (Inr r')
    with consume.hyps(2) consume_Inr [OF _ inv] consume.IH show ?thesis
      by (fastforce intro: history_consumed)
  qed
qed

subsection \<open>Properties\<close>

text \<open>\<^bold>\<open>C1\<close>. Four eyes: in every run of the in-memory store, an approval that was consumed was
  approved by a principal who is an admin approver, belongs to the tenant of the request and is
  not the requester.\<close>

theorem four_eyes:
  assumes "store_run sha h st" and "Consumed i \<in> set h"
  shows "\<exists>p r. Decided i p APPROVE \<in> set h \<and> s_records st i = Some r \<and>
    ADMIN_APPROVER \<in> p_roles p \<and> p_tenant_id p = a_tenant_id r \<and>
    p_user_id p \<noteq> a_requester_user_id r"
proof -
  have h: "history_at h i (s_records st i)"
    using store_run_history [OF assms(1)] by (simp add: history_ok_def)
  moreover have "count_list h (Consumed i) \<noteq> 0" using assms(2) by (simp add: count_list_0_iff)
  ultimately obtain r where "s_records st i = Some r" "a_status r = CONSUMED"
    by (auto simp: history_at_def split: if_splits)
  with h show ?thesis by (auto simp: history_at_def check_approver_None)
qed

lemma store_run_snd:
  "store_run sha h st \<Longrightarrow> s_records st (''apr_'' @ tok) = None \<Longrightarrow> wf_json args \<Longrightarrow>
     store_run sha h (snd (create sha now tok nonce q a args st))"
  "store_run sha h st \<Longrightarrow>
     store_run sha (decision_events i p d (fst (decide t1 t2 i p d st)) @ h) (snd (decide t1 t2 i p d st))"
  "store_run sha h st \<Longrightarrow>
     store_run sha (consumption_events i (fst (consume sha t1 t2 i q a args st)) @ h)
       (snd (consume sha t1 t2 i q a args st))"
  by (blast intro: store_run.create store_run.decide store_run.consume surjective_pairing)+

abbreviation alice :: principal where
  "alice \<equiv> \<lparr>p_user_id = ''usr_dyn_alice'', p_tenant_id = ''tenant_northstar_dynamics'', p_roles = {EMPLOYEE}\<rparr>"

abbreviation carol :: principal where
  "carol \<equiv> \<lparr>p_user_id = ''usr_dyn_carol'', p_tenant_id = ''tenant_northstar_dynamics'',
     p_roles = {ADMIN_APPROVER}\<rparr>"

abbreviation reset_args :: json where
  "reset_args \<equiv> JObj [(''reason'', JStr ''lost'')]"

text \<open>A complete run: Alice asks for a password reset, Carol approves it, and it is consumed.\<close>

lemmas store_evals = create_def new_record_def decide_def consume_def consume_locked_def
  require_record_def expire_if_needed_def is_expired_def check_approver_def verify_binding_def
  decided_def consumed_def desired_status_def approval_store_init_def Let_def

lemma demo_run:
  "\<exists>st. store_run id [Consumed ''apr_t'', Decided ''apr_t'' carol APPROVE] st"
proof -
  let ?st0 = "\<lparr>s_ttl = 600, s_records = Map.empty\<rparr> :: approval_store"
  let ?st1 = "snd (create id 0 ''t'' ''n'' alice REQUEST_PASSWORD_RESET reset_args ?st0)"
  let ?d = "decide 5 6 ''apr_t'' carol APPROVE ?st1"
  let ?c = "consume id 7 8 ''apr_t'' alice REQUEST_PASSWORD_RESET reset_args (snd ?d)"
  have "store_run id [] ?st0" by (rule store_run.start [of 600]) (simp add: approval_store_init_def)
  then have "store_run id [] ?st1" by (rule store_run_snd) simp_all
  then have "store_run id (decision_events ''apr_t'' carol APPROVE (fst ?d) @ []) (snd ?d)"
    by (rule store_run_snd)
  then have r: "store_run id (consumption_events ''apr_t'' (fst ?c) @
      decision_events ''apr_t'' carol APPROVE (fst ?d) @ []) (snd ?c)" by (rule store_run_snd)
  have "decision_events ''apr_t'' carol APPROVE (fst ?d) = [Decided ''apr_t'' carol APPROVE]"
    by (simp add: store_evals)
  moreover have "consumption_events ''apr_t'' (fst ?c) = [Consumed ''apr_t'']"
    by (simp add: store_evals)
  ultimately show ?thesis using r by auto
qed

abbreviation demo_request :: approval_record where
  "demo_request \<equiv> new_record id 600 0 ''t'' ''n'' alice REQUEST_PASSWORD_RESET reset_args"

abbreviation demo_store :: "approval_decision \<Rightarrow> approval_store" where
  "demo_store d \<equiv> put_record ''apr_t'' (decided d ''usr_dyn_carol'' 6 demo_request)
     \<lparr>s_ttl = 600, s_records = Map.empty\<rparr>"

lemma demo_store_inv: "store_inv id (demo_store d)"
proof -
  have "approval_step demo_request (decided d ''usr_dyn_carol'' 6 demo_request)"
    by (rule approval_step.decide) (simp_all add: new_record_def Let_def)
  then have "record_inv id 600 (decided d ''usr_dyn_carol'' 6 demo_request)"
    by (rule approval_step_record_inv) (rule new_record_ok, simp)
  then show ?thesis by (simp add: store_inv_def) (simp add: decided_def new_record_def Let_def)
qed

theorem four_eyes_witness:
  "\<exists>h st p r. store_run id h st \<and> Consumed ''apr_t'' \<in> set h \<and> Decided ''apr_t'' p APPROVE \<in> set h \<and>
     s_records st ''apr_t'' = Some r \<and> ADMIN_APPROVER \<in> p_roles p"
proof -
  obtain st where "store_run id [Consumed ''apr_t'', Decided ''apr_t'' carol APPROVE] st"
    using demo_run by blast
  with four_eyes [OF this, of "''apr_t''"] show ?thesis by (meson list.set_intros(1))
qed

text \<open>Single use: no run of the in-memory store consumes the same approval twice, through
  \<open>consume\<close>, \<open>resolve_after_review\<close> or both.\<close>

theorem single_use:
  assumes "store_run sha h st"
  shows "count_list h (Consumed i) \<le> 1"
proof -
  have "history_at h i (s_records st i)"
    using store_run_history [OF assms(1)] by (simp add: history_ok_def)
  then show ?thesis by (simp add: history_at_def)
qed

theorem single_use_witness:
  "\<exists>h st. store_run id h st \<and> count_list h (Consumed ''apr_t'') = 1 \<and>
     count_list h (Consumed ''apr_t'') \<le> 1"
proof -
  obtain st where r: "store_run id [Consumed ''apr_t'', Decided ''apr_t'' carol APPROVE] st"
    using demo_run by blast
  moreover have "count_list [Consumed ''apr_t'', Decided ''apr_t'' carol APPROVE] (Consumed ''apr_t'') = 1"
    by simp
  ultimately show ?thesis using single_use [OF r, of "''apr_t''"] by blast
qed

text \<open>\<^bold>\<open>C5\<close>. Only the recorded request can be consumed: when \<open>consume\<close> returns, the stored record was approved and not
  past its expiry at the check, and either the hash function collides on the two messages compared, or the action and the
  canonical arguments are the recorded ones and the user and tenant, joined by the separator 0x1F as they are hashed, are the
  recorded user and tenant joined. The joined texts determine both when neither user identifier contains the separator, as those
  of the synthetic users do not; then the caller's user and tenant are the recorded ones.\<close>

theorem consume_authentic:
  assumes "store_inv sha st" and "consume sha t1 t2 i q a args st = (Inr r', st')"
  shows "\<exists>r. s_records st i = Some r \<and> a_status r = APPROVED \<and> t1 < a_expires_at r \<and>
    r' = consumed t2 r \<and> s_records st' i = Some r' \<and>
    (binding_collision sha r q a args \<or>
     a = a_action r \<and> canonicalize args = a_normalized_arguments_json r \<and>
     p_user_id q @ CHR 0x1F # p_tenant_id q = a_requester_user_id r @ CHR 0x1F # a_tenant_id r \<and>
     (no_separator (p_user_id q) \<and> no_separator (a_requester_user_id r) \<longrightarrow> same_binding r q a args))"
proof -
  from consume_Inr [OF assms(2,1)] obtain r where r: "s_records st i = Some r" "a_status r = APPROVED"
      "t1 < a_expires_at r" "verify_binding sha r q a args = Inr ()" "r' = consumed t2 r"
      "st' = put_record i r' st" by blast
  moreover from assms(1) r(1) have "bound sha r" by (simp add: store_inv_def record_inv_def)
  ultimately show ?thesis
    using verify_binding_joined [OF r(4)] verify_binding_sound [OF r(4)] by (intro exI [of _ r]) auto
qed

theorem consume_authentic_witness:
  "\<exists>r u. s_records (demo_store APPROVE) ''apr_t'' = Some r \<and> a_status r = APPROVED \<and>
     fst (consume id 7 8 ''apr_t'' alice REQUEST_PASSWORD_RESET reset_args (demo_store APPROVE)) = Inr u \<and>
     same_binding r alice REQUEST_PASSWORD_RESET reset_args"
proof -
  let ?r = "decided APPROVE ''usr_dyn_carol'' 6 demo_request"
  have run: "consume id 7 8 ''apr_t'' alice REQUEST_PASSWORD_RESET reset_args (demo_store APPROVE) =
      (Inr (consumed 8 ?r), put_record ''apr_t'' (consumed 8 ?r) (demo_store APPROVE))"
    by (simp add: store_evals)
  have "no_separator (p_user_id alice)" "no_separator (a_requester_user_id ?r)"
    by (simp_all add: no_separator_def decided_def new_record_def Let_def)
  with consume_authentic [OF demo_store_inv run] run show ?thesis
    by (auto simp: collision_def)
qed

text \<open>A decision is final: once a record is rejected, consumed or expired, no sequence of
  calls changes it in any field.\<close>

theorem closed_approval_is_final:
  assumes "store_inv sha st" and "(store_step sha)\<^sup>*\<^sup>* st st'"
    and "s_records st i = Some r" and "a_status r \<in> {REJECTED, CONSUMED, EXPIRED}"
  shows "s_records st' i = Some r"
  using assms(2,1,3,4) by (rule mem.terminal_is_final)

theorem closed_approval_is_final_witness:
  "s_records (snd (consume id 7 8 ''apr_t'' alice REQUEST_PASSWORD_RESET reset_args (demo_store REJECT)))
     ''apr_t'' = Some (decided REJECT ''usr_dyn_carol'' 6 demo_request)"
proof -
  have "(store_step id)\<^sup>*\<^sup>* (demo_store REJECT)
      (snd (consume id 7 8 ''apr_t'' alice REQUEST_PASSWORD_RESET reset_args (demo_store REJECT)))"
    by (intro r_into_rtranclp store_step.consume [OF surjective_pairing])
  from closed_approval_is_final [OF demo_store_inv this, of "''apr_t''"] show ?thesis
    by (simp add: decided_def desired_status_def)
qed

text \<open>Every branch of \<open>decide\<close>, in the code's order of checks.\<close>

lemma decide_outcome:
  "fst (decide t1 t2 i p d st) = (case s_records st i of
     None \<Rightarrow> Inl ApprovalNotFoundError
   | Some r \<Rightarrow>
       if ADMIN_APPROVER \<notin> p_roles p
         then Inl (ApprovalAuthorizationError ''principal is not an approver'')
       else if p_tenant_id p \<noteq> a_tenant_id r
         then Inl (ApprovalAuthorizationError ''cross-tenant approval is forbidden'')
       else if p_user_id p = a_requester_user_id r
         then Inl (ApprovalAuthorizationError ''self-approval is forbidden'')
       else if a_status r = PENDING \<and> t1 < a_expires_at r
         then Inr (r\<lparr>a_status := (if d = APPROVE then APPROVED else REJECTED),
                     a_approver_user_id := Some (p_user_id p), a_decided_at := Some t2\<rparr>)
       else Inl (ApprovalStateError ''approval is not pending''))"
  by (cases d) (auto simp: store_evals split: option.splits)

end
