(* ===== verification/Durable_Approvals.thy ===== *)
theory Durable_Approvals
  imports Approvals
begin

section \<open>Approvals: the SQLite store and its workflow journal\<close>

text \<open>
  \<open>aegis/approvals/durable.py\<close>. The two tables of the database are lists of rows; a column that
  holds the value of an enum holds the enum, a column that holds JSON holds the text. Every block
  \<^verbatim>\<open>with self._connect() as connection\<close> is a \<open>transaction\<close>: an exception rolls the whole block back,
  so a decision refused because the record has lapsed does not leave it marked expired, which the
  in-memory store does. The record of the database is extensible: the effect outbox adds its
  tables to the same file. The clock readings are arguments as in the in-memory store.
\<close>

subsection \<open>Tables\<close>

datatype workflow_status = WORKFLOW_PENDING | WORKFLOW_COMPLETED

record workflow_context =
  c_thread_id :: string
  c_trace_id :: string
  c_tool_calls :: int

record workflow_row =
  w_approval_id :: string
  w_thread_id :: string
  w_trace_id :: string
  w_requester_user_id :: string
  w_tenant_id :: string
  w_requester_roles_json :: string
  w_action :: approval_action
  w_normalized_arguments_json :: string
  w_tool_calls :: int
  w_status :: workflow_status
  w_final_outcome :: "string option"
  w_created_at :: int
  w_completed_at :: "int option"

record workflow_record =
  v_approval_id :: string
  v_thread_id :: string
  v_trace_id :: string
  v_requester_user_id :: string
  v_tenant_id :: string
  v_requester_roles :: "role set"
  v_action :: approval_action
  v_arguments :: json
  v_tool_calls :: int
  v_status :: workflow_status
  v_final_outcome :: "string option"
  v_created_at :: int
  v_completed_at :: "int option"

definition v_requester :: "workflow_record \<Rightarrow> principal" where
  "v_requester v = \<lparr>p_user_id = v_requester_user_id v, p_tenant_id = v_tenant_id v,
     p_roles = v_requester_roles v\<rparr>"

record approval_db =
  d_approval_records :: "approval_record list"
  d_approval_workflows :: "workflow_row list"

abbreviation approval_row :: "'z approval_db_scheme \<Rightarrow> string \<Rightarrow> approval_record option" where
  "approval_row db i \<equiv> row_of a_approval_id i (d_approval_records db)"

abbreviation journal_row :: "'z approval_db_scheme \<Rightarrow> string \<Rightarrow> workflow_row option" where
  "journal_row db i \<equiv> row_of w_approval_id i (d_approval_workflows db)"

subsection \<open>The roles column\<close>

text \<open>\<^verbatim>\<open>json.dumps(sorted(role.value for role in roles))\<close>, with the default separators.\<close>

fun comma_join :: "string list \<Rightarrow> string" where
  "comma_join [] = []"
| "comma_join [x] = x"
| "comma_join (x # y # zs) = x @ CHR '','' # CHR '' '' # comma_join (y # zs)"

definition roles_json :: "role set \<Rightarrow> string" where
  "roles_json roles =
     CHR ''['' # comma_join (map (quote_str True) (sorted_list_of_set (role_value ` roles))) @ '']''"

definition role_of_value :: "json \<Rightarrow> role option" where
  "role_of_value j =
     find (\<lambda>r. j = JStr (role_value r)) [EMPLOYEE, SUPPORT_ANALYST, ADMIN_APPROVER, ATTACKER]"

definition roles_of_json :: "string \<Rightarrow> aegis_error + role set" where
  "roles_of_json s = (case json_loads s of
     Some (JList xs) \<Rightarrow>
       if list_all (\<lambda>x. role_of_value x \<noteq> None) xs
         then Inr (set (List.map_filter role_of_value xs))
       else Inl (ValueError ''not a valid Role'')
   | _ \<Rightarrow> Inl (ValueError ''requester_roles_json''))"

definition arguments_of_json :: "string \<Rightarrow> aegis_error + json" where
  "arguments_of_json s = (case json_loads s of
     Some (JObj kvs) \<Rightarrow> Inr (JObj kvs)
   | _ \<Rightarrow> Inl (ValueError ''normalized_arguments_json''))"

subsection \<open>DurableApprovalStore\<close>

definition load_locked ::
  "int \<Rightarrow> string \<Rightarrow> ('z approval_db_scheme, aegis_error, approval_record) operation" where
  "load_locked now approval_id db = (case approval_row db approval_id of
     None \<Rightarrow> (Inl ApprovalNotFoundError, db)
   | Some record \<Rightarrow>
       if is_expired now record then
         (Inr (record\<lparr>a_status := EXPIRED\<rparr>),
          db\<lparr>d_approval_records := update_where (\<lambda>r. a_approval_id r = approval_id)
            (\<lambda>r. r\<lparr>a_status := EXPIRED\<rparr>) (d_approval_records db)\<rparr>)
       else (Inr record, db))"

definition new_workflow_row :: "workflow_context \<Rightarrow> principal \<Rightarrow> approval_record \<Rightarrow> workflow_row" where
  "new_workflow_row workflow requester record =
     \<lparr>w_approval_id = a_approval_id record,
      w_thread_id = c_thread_id workflow,
      w_trace_id = c_trace_id workflow,
      w_requester_user_id = p_user_id requester,
      w_tenant_id = p_tenant_id requester,
      w_requester_roles_json = roles_json (p_roles requester),
      w_action = a_action record,
      w_normalized_arguments_json = a_normalized_arguments_json record,
      w_tool_calls = c_tool_calls workflow,
      w_status = WORKFLOW_PENDING,
      w_final_outcome = None,
      w_created_at = a_created_at record,
      w_completed_at = None\<rparr>"

definition insert_workflow ::
  "workflow_row \<Rightarrow> ('z approval_db_scheme, aegis_error, unit) operation" where
  "insert_workflow w db =
     (if w_approval_id w \<in> w_approval_id ` set (d_approval_workflows db)
        \<or> w_thread_id w \<in> w_thread_id ` set (d_approval_workflows db)
        \<or> w_approval_id w \<notin> a_approval_id ` set (d_approval_records db)
      then (Inl IntegrityError, db)
      else (Inr (), db\<lparr>d_approval_workflows := d_approval_workflows db @ [w]\<rparr>))"

definition durable_create ::
  "(string \<Rightarrow> string) \<Rightarrow> int \<Rightarrow> int \<Rightarrow> string \<Rightarrow> string \<Rightarrow> workflow_context option \<Rightarrow> principal
     \<Rightarrow> approval_action \<Rightarrow> json \<Rightarrow> ('z approval_db_scheme, aegis_error, approval_record) operation" where
  "durable_create sha ttl now token nonce workflow requester action arguments =
     (let record = new_record sha ttl now token nonce requester action arguments in
      transaction (\<lambda>db.
        if a_approval_id record \<in> a_approval_id ` set (d_approval_records db)
          then (Inl IntegrityError, db)
        else
          (let db1 = db\<lparr>d_approval_records := d_approval_records db @ [record]\<rparr> in
           case workflow of
             None \<Rightarrow> (Inr record, db1)
           | Some w \<Rightarrow>
               (case insert_workflow (new_workflow_row w requester record) db1 of
                  (Inl e, db2) \<Rightarrow> (Inl e, db2)
                | (Inr _, db2) \<Rightarrow> (Inr record, db2)))))"

definition durable_get ::
  "int \<Rightarrow> string \<Rightarrow> ('z approval_db_scheme, aegis_error, approval_record) operation" where
  "durable_get now approval_id = transaction (load_locked now approval_id)"

text \<open>\<^verbatim>\<open>UPDATE approval_records SET ... WHERE approval_id = ? AND status = ?\<close>\<close>

definition update_approval ::
  "string \<Rightarrow> approval_status \<Rightarrow> (approval_record \<Rightarrow> approval_record) \<Rightarrow> 'z approval_db_scheme
     \<Rightarrow> 'z approval_db_scheme" where
  "update_approval approval_id status f db =
     db\<lparr>d_approval_records := update_where (\<lambda>r. a_approval_id r = approval_id \<and> a_status r = status) f
       (d_approval_records db)\<rparr>"

definition same_recovery_decision :: "principal \<Rightarrow> approval_decision \<Rightarrow> approval_record \<Rightarrow> bool" where
  "same_recovery_decision approver decision record \<longleftrightarrow>
     a_approver_user_id record = Some (p_user_id approver) \<and>
     (a_status record = desired_status decision \<or>
      a_status record = CONSUMED \<and> desired_status decision = APPROVED)"

definition durable_decide ::
  "int \<Rightarrow> int \<Rightarrow> string \<Rightarrow> principal \<Rightarrow> approval_decision
     \<Rightarrow> ('z approval_db_scheme, aegis_error, approval_record) operation" where
  "durable_decide checked now approval_id approver decision = transaction (\<lambda>db.
     case load_locked checked approval_id db of
       (Inl e, db1) \<Rightarrow> (Inl e, db1)
     | (Inr record, db1) \<Rightarrow>
         (case check_approver approver record of
            Some e \<Rightarrow> (Inl e, db1)
          | None \<Rightarrow>
              if a_status record = PENDING then
                (Inr (decided decision (p_user_id approver) now record),
                 update_approval approval_id PENDING (decided decision (p_user_id approver) now) db1)
              else if same_recovery_decision approver decision record then (Inr record, db1)
              else (Inl (ApprovalStateError ''approval is not pending''), db1)))"

definition durable_resolve_after_review ::
  "(string \<Rightarrow> string) \<Rightarrow> int \<Rightarrow> int \<Rightarrow> string \<Rightarrow> principal \<Rightarrow> approval_action \<Rightarrow> json
     \<Rightarrow> ('z approval_db_scheme, aegis_error, approval_record) operation" where
  "durable_resolve_after_review sha checked now approval_id requester action arguments =
     transaction (\<lambda>db.
       case load_locked checked approval_id db of
         (Inl e, db1) \<Rightarrow> (Inl e, db1)
       | (Inr record, db1) \<Rightarrow>
           (case verify_binding sha record requester action arguments of
              Inl e \<Rightarrow> (Inl e, db1)
            | Inr _ \<Rightarrow>
                if a_status record = REJECTED then (Inr record, db1)
                else if a_status record = CONSUMED then (Inr record, db1)
                else if a_status record \<noteq> APPROVED
                  then (Inl (ApprovalStateError ''approval is not ready for consumption''), db1)
                else (Inr (consumed now record),
                      update_approval approval_id APPROVED (consumed now) db1)))"

definition durable_consume ::
  "(string \<Rightarrow> string) \<Rightarrow> int \<Rightarrow> int \<Rightarrow> string \<Rightarrow> principal \<Rightarrow> approval_action \<Rightarrow> json
     \<Rightarrow> ('z approval_db_scheme, aegis_error, approval_record) operation" where
  "durable_consume sha checked now approval_id requester action arguments =
     transaction (\<lambda>db.
       case load_locked checked approval_id db of
         (Inl e, db1) \<Rightarrow> (Inl e, db1)
       | (Inr record, db1) \<Rightarrow>
           (case verify_binding sha record requester action arguments of
              Inl e \<Rightarrow> (Inl e, db1)
            | Inr _ \<Rightarrow>
                if a_status record = CONSUMED then (Inr record, db1)
                else if a_status record \<noteq> APPROVED
                  then (Inl (ApprovalStateError ''approval is not approved''), db1)
                else (Inr (consumed now record),
                      update_approval approval_id APPROVED (consumed now) db1)))"

subsection \<open>DurableWorkflowStore\<close>

definition row_to_workflow :: "workflow_row \<Rightarrow> aegis_error + workflow_record" where
  "row_to_workflow w = (case roles_of_json (w_requester_roles_json w) of
     Inl e \<Rightarrow> Inl e
   | Inr roles \<Rightarrow>
       (case arguments_of_json (w_normalized_arguments_json w) of
          Inl e \<Rightarrow> Inl e
        | Inr arguments \<Rightarrow>
            Inr \<lparr>v_approval_id = w_approval_id w,
                 v_thread_id = w_thread_id w,
                 v_trace_id = w_trace_id w,
                 v_requester_user_id = w_requester_user_id w,
                 v_tenant_id = w_tenant_id w,
                 v_requester_roles = roles,
                 v_action = w_action w,
                 v_arguments = arguments,
                 v_tool_calls = w_tool_calls w,
                 v_status = w_status w,
                 v_final_outcome = w_final_outcome w,
                 v_created_at = w_created_at w,
                 v_completed_at = w_completed_at w\<rparr>))"

definition workflow_get :: "string \<Rightarrow> 'z approval_db_scheme \<Rightarrow> aegis_error + workflow_record" where
  "workflow_get approval_id db = (case journal_row db approval_id of
     None \<Rightarrow> Inl (ApprovalStateError ''no durable workflow for approval'')
   | Some w \<Rightarrow> row_to_workflow w)"

definition require_pending :: "string \<Rightarrow> 'z approval_db_scheme \<Rightarrow> aegis_error + workflow_record" where
  "require_pending approval_id db = (case workflow_get approval_id db of
     Inl e \<Rightarrow> Inl e
   | Inr record \<Rightarrow>
       if v_status record \<noteq> WORKFLOW_PENDING
         then Inl (ApprovalStateError ''approval workflow is already completed'')
       else Inr record)"

definition workflow_complete ::
  "int \<Rightarrow> string \<Rightarrow> string \<Rightarrow> ('z approval_db_scheme, aegis_error, workflow_record) operation" where
  "workflow_complete now approval_id outcome = transaction (\<lambda>db.
     case require_pending approval_id db of
       Inl e \<Rightarrow> (Inl e, db)
     | Inr record \<Rightarrow>
         (Inr (record\<lparr>v_status := WORKFLOW_COMPLETED, v_final_outcome := Some outcome,
                      v_completed_at := Some now\<rparr>),
          db\<lparr>d_approval_workflows := update_where
            (\<lambda>w. w_approval_id w = approval_id \<and> w_status w = WORKFLOW_PENDING)
            (\<lambda>w. w\<lparr>w_status := WORKFLOW_COMPLETED, w_final_outcome := Some outcome,
                   w_completed_at := Some now\<rparr>)
            (d_approval_workflows db)\<rparr>))"


subsection \<open>Lookups after updates\<close>

definition row_moved :: "string \<Rightarrow> approval_record list \<Rightarrow> approval_record list \<Rightarrow> bool" where
  "row_moved i rows rows' \<longleftrightarrow> map a_approval_id rows' = map a_approval_id rows \<and>
     (\<exists>r r'. row_of a_approval_id i rows = Some r \<and> approval_step r r' \<and>
        (\<forall>j. row_of a_approval_id j rows' =
           (if j = i then Some r' else row_of a_approval_id j rows)))"

definition durable_moves :: "string \<Rightarrow> 'z approval_db_scheme \<Rightarrow> 'z approval_db_scheme \<Rightarrow> bool" where
  "durable_moves i db db' \<longleftrightarrow> db' = db \<or>
     (\<exists>rows. db' = db\<lparr>d_approval_records := rows\<rparr> \<and> row_moved i (d_approval_records db) rows)"

lemma durable_moves_refl [simp]: "durable_moves i db db"
  by (simp add: durable_moves_def)

lemma decided_id [simp]: "a_approval_id (decided d u t r) = a_approval_id r"
  by (simp add: decided_def)

lemma consumed_id [simp]: "a_approval_id (consumed t r) = a_approval_id r"
  by (simp add: consumed_def)

lemma update_approval_row:
  assumes "\<And>r. a_approval_id (f r) = a_approval_id r" and "approval_row db i = Some r" and "a_status r = s"
  shows "approval_row (update_approval i s f db) j = (if j = i then Some (f r) else approval_row db j)"
  using assms by (simp add: update_approval_def find_update_where_guarded)

lemma update_approval_moves:
  assumes "\<And>r. a_approval_id (f r) = a_approval_id r" and "approval_row db i = Some r"
    and "a_status r = s" and "approval_step r (f r)"
  shows "durable_moves i db (update_approval i s f db)"
proof -
  let ?rows = "update_where (\<lambda>r. a_approval_id r = i \<and> a_status r = s) f (d_approval_records db)"
  have "map a_approval_id ?rows = map a_approval_id (d_approval_records db)"
    using assms(1) by (intro map_key_update_where)
  with assms update_approval_row [OF assms(1-3)] show ?thesis
    by (auto simp: durable_moves_def row_moved_def update_approval_def)
qed

lemma load_locked_live:
  "approval_row db i = Some r \<Longrightarrow> \<not> is_expired t r \<Longrightarrow> load_locked t i db = (Inr r, db)"
  by (simp add: load_locked_def)

lemma load_locked_lapsed:
  assumes "approval_row db i = Some r" and "is_expired t r"
  obtains db1 where "load_locked t i db = (Inr (r\<lparr>a_status := EXPIRED\<rparr>), db1)" and "durable_moves i db db1"
proof -
  let ?rows = "update_where (\<lambda>r. a_approval_id r = i) (a_status_update (\<lambda>_. EXPIRED)) (d_approval_records db)"
  have "map a_approval_id ?rows = map a_approval_id (d_approval_records db)"
    by (intro map_key_update_where) simp
  moreover have "row_of a_approval_id j ?rows =
      (if j = i then Some (r\<lparr>a_status := EXPIRED\<rparr>) else approval_row db j)" for j
    using assms find_update_where_guarded [where p = "\<lambda>_. True" and f = "a_status_update (\<lambda>_. EXPIRED)"
        and key = a_approval_id and rows = "d_approval_records db" and k = i and r = r and j = j]
    by simp
  ultimately have "row_moved i (d_approval_records db) ?rows"
    using assms by (auto simp: row_moved_def is_expired_def intro: approval_step.expire)
  with assms show ?thesis
    by (intro that) (auto simp: load_locked_def durable_moves_def)
qed

lemma load_locked_missing:
  "approval_row db i = None \<Longrightarrow> load_locked t i db = (Inl ApprovalNotFoundError, db)"
  by (simp add: load_locked_def)

text \<open>What each method does when it returns; when it raises, the database is as before.\<close>

lemma durable_decide_Inr:
  assumes "durable_decide t1 t2 i p d db = (Inr r', db')"
  shows "\<exists>r. approval_row db i = Some r \<and> \<not> is_expired t1 r \<and> check_approver p r = None \<and>
    (a_status r = PENDING \<and> r' = decided d (p_user_id p) t2 r \<and>
       db' = update_approval i PENDING (decided d (p_user_id p) t2) db \<or>
     a_status r \<noteq> PENDING \<and> same_recovery_decision p d r \<and> r' = r \<and> db' = db)"
proof (cases "approval_row db i")
  case None
  with assms show ?thesis by (simp add: durable_decide_def load_locked_missing)
next
  case (Some r)
  show ?thesis
  proof (cases "is_expired t1 r")
    case True
    with Some obtain db1 where "load_locked t1 i db = (Inr (r\<lparr>a_status := EXPIRED\<rparr>), db1)"
      by (rule load_locked_lapsed)
    with assms show ?thesis
      by (auto simp: durable_decide_def same_recovery_decision_def desired_status_def
          split: option.splits if_splits approval_decision.splits)
  next
    case False
    with assms Some show ?thesis
      by (auto simp: durable_decide_def load_locked_live split: option.splits if_splits)
  qed
qed

lemma durable_resolve_Inr:
  assumes "durable_resolve_after_review sha t1 t2 i q a args db = (Inr r', db')"
  shows "\<exists>r. approval_row db i = Some r \<and> \<not> is_expired t1 r \<and> verify_binding sha r q a args = Inr () \<and>
    (a_status r = APPROVED \<and> r' = consumed t2 r \<and> db' = update_approval i APPROVED (consumed t2) db \<or>
     a_status r \<in> {REJECTED, CONSUMED} \<and> r' = r \<and> db' = db)"
proof (cases "approval_row db i")
  case None
  with assms show ?thesis by (simp add: durable_resolve_after_review_def load_locked_missing)
next
  case (Some r)
  show ?thesis
  proof (cases "is_expired t1 r")
    case True
    with Some obtain db1 where "load_locked t1 i db = (Inr (r\<lparr>a_status := EXPIRED\<rparr>), db1)"
      by (rule load_locked_lapsed)
    with assms show ?thesis
      by (auto simp: durable_resolve_after_review_def split: sum.splits if_splits)
  next
    case False
    with assms Some show ?thesis
      by (auto simp: durable_resolve_after_review_def load_locked_live split: sum.splits if_splits)
  qed
qed

lemma durable_consume_Inr:
  assumes "durable_consume sha t1 t2 i q a args db = (Inr r', db')"
  shows "\<exists>r. approval_row db i = Some r \<and> \<not> is_expired t1 r \<and> verify_binding sha r q a args = Inr () \<and>
    (a_status r = APPROVED \<and> r' = consumed t2 r \<and> db' = update_approval i APPROVED (consumed t2) db \<or>
     a_status r = CONSUMED \<and> r' = r \<and> db' = db)"
proof (cases "approval_row db i")
  case None
  with assms show ?thesis by (simp add: durable_consume_def load_locked_missing)
next
  case (Some r)
  show ?thesis
  proof (cases "is_expired t1 r")
    case True
    with Some obtain db1 where "load_locked t1 i db = (Inr (r\<lparr>a_status := EXPIRED\<rparr>), db1)"
      by (rule load_locked_lapsed)
    with assms show ?thesis
      by (auto simp: durable_consume_def split: sum.splits if_splits)
  next
    case False
    with assms Some show ?thesis
      by (auto simp: durable_consume_def load_locked_live split: sum.splits if_splits)
  qed
qed

lemma durable_decide_Inl: "durable_decide t1 t2 i p d db = (Inl e, db') \<Longrightarrow> db' = db"
  by (simp add: durable_decide_def)

lemma durable_resolve_Inl: "durable_resolve_after_review sha t1 t2 i q a args db = (Inl e, db') \<Longrightarrow> db' = db"
  by (simp add: durable_resolve_after_review_def)

lemma durable_consume_Inl: "durable_consume sha t1 t2 i q a args db = (Inl e, db') \<Longrightarrow> db' = db"
  by (simp add: durable_consume_def)

lemma durable_decide_moves: "durable_decide t1 t2 i p d db = (res, db') \<Longrightarrow> durable_moves i db db'"
proof (cases res)
  case (Inr r')
  assume "durable_decide t1 t2 i p d db = (res, db')"
  with Inr durable_decide_Inr [of t1 t2 i p d db r' db'] show ?thesis
    by (auto simp: check_approver_None intro!: update_approval_moves approval_step.decide)
qed (auto dest: durable_decide_Inl)

lemma durable_resolve_moves:
  "durable_resolve_after_review sha t1 t2 i q a args db = (res, db') \<Longrightarrow> durable_moves i db db'"
proof (cases res)
  case (Inr r')
  assume "durable_resolve_after_review sha t1 t2 i q a args db = (res, db')"
  with Inr durable_resolve_Inr [of sha t1 t2 i q a args db r' db'] show ?thesis
    by (auto intro!: update_approval_moves approval_step.consume)
qed (auto dest: durable_resolve_Inl)

lemma durable_consume_moves:
  "durable_consume sha t1 t2 i q a args db = (res, db') \<Longrightarrow> durable_moves i db db'"
proof (cases res)
  case (Inr r')
  assume "durable_consume sha t1 t2 i q a args db = (res, db')"
  with Inr durable_consume_Inr [of sha t1 t2 i q a args db r' db'] show ?thesis
    by (auto intro!: update_approval_moves approval_step.consume)
qed (auto dest: durable_consume_Inl)

lemma load_locked_moves: "load_locked t i db = (res, db') \<Longrightarrow> durable_moves i db db'"
proof (cases "approval_row db i")
  case (Some r)
  assume l: "load_locked t i db = (res, db')"
  show ?thesis
  proof (cases "is_expired t r")
    case True
    with Some l show ?thesis by (metis load_locked_lapsed prod.inject)
  qed (use Some l in \<open>simp add: load_locked_live\<close>)
qed (simp add: load_locked_missing)

lemma durable_get_moves: "durable_get t i db = (res, db') \<Longrightarrow> durable_moves i db db'"
  by (cases res) (auto simp: durable_get_def dest: load_locked_moves)

lemma durable_create_Inr:
  assumes "durable_create sha ttl now tok nonce ctx q a args db = (Inr r, db')"
  shows "r = new_record sha ttl now tok nonce q a args" and "approval_row db (a_approval_id r) = None"
    and "db' = db\<lparr>d_approval_records := d_approval_records db @ [r],
        d_approval_workflows := d_approval_workflows db @
          (case ctx of None \<Rightarrow> [] | Some w \<Rightarrow> [new_workflow_row w q r])\<rparr>"
    and "ctx = Some w \<Longrightarrow> journal_row db (a_approval_id r) = None \<and>
      c_thread_id w \<notin> w_thread_id ` set (d_approval_workflows db)"
  using assms
  by (auto simp: durable_create_def insert_workflow_def new_workflow_row_def Let_def row_of_None
      split: if_splits option.splits prod.splits sum.splits)

lemma durable_create_Inl:
  "durable_create sha ttl now tok nonce ctx q a args db = (Inl e, db') \<Longrightarrow> db' = db"
  by (simp add: durable_create_def Let_def)

lemma workflow_complete_Inr:
  assumes "workflow_complete now i out db = (Inr v, db')"
  shows "\<exists>w. journal_row db i = Some w \<and> w_status w = WORKFLOW_PENDING \<and>
    db' = db\<lparr>d_approval_workflows := update_where
      (\<lambda>w. w_approval_id w = i \<and> w_status w = WORKFLOW_PENDING)
      (\<lambda>w. w\<lparr>w_status := WORKFLOW_COMPLETED, w_final_outcome := Some out, w_completed_at := Some now\<rparr>)
      (d_approval_workflows db)\<rparr>"
  using assms
  by (auto simp: workflow_complete_def require_pending_def workflow_get_def row_to_workflow_def
      split: option.splits sum.splits if_splits)

lemma workflow_complete_Inl: "workflow_complete now i out db = (Inl e, db') \<Longrightarrow> db' = db"
  by (simp add: workflow_complete_def)

subsection \<open>The roles column reads back\<close>

lemma read_value_quoted [simp]: "read_value (Suc n) (quote_str True x @ t) = Some (JStr x, t)"
  by (simp add: quote_str_def read_str_text)

lemma skip_ws_quoted [simp]: "skip_ws (quote_str True x @ t) = quote_str True x @ t"
  by (simp add: quote_str_def)

lemma read_items_comma_join:
  "Suc (length xs) < n \<Longrightarrow>
     read_items n (comma_join (map (quote_str True) (x # xs)) @ CHR '']'' # r) =
       Some (map JStr (x # xs), r)"
proof (induction xs arbitrary: x n)
  case Nil
  then obtain m where "n = Suc (Suc m)" by (cases n; cases "n - 1") auto
  then show ?case by (simp del: read_value.simps)
next
  case (Cons y ys)
  then obtain m where n: "n = Suc (Suc m)" by (cases n; cases "n - 1") auto
  let ?rest = "comma_join (map (quote_str True) (y # ys)) @ CHR '']'' # r"
  have "read_items (Suc m) ?rest = Some (map JStr (y # ys), r)" using Cons n by (intro Cons.IH) simp
  moreover have "skip_ws (CHR '' '' # ?rest) = ?rest"
    by (cases ys) (simp_all add: quote_str_def, simp_all add: is_ws_def)
  ultimately show ?case using n by (simp del: read_value.simps)
qed

lemma comma_join_length: "length xs \<le> length (comma_join (map (quote_str True) xs))"
  by (induction xs rule: induct_list012) (simp_all add: quote_str_def)

lemma json_loads_strings:
  "json_loads (CHR ''['' # comma_join (map (quote_str True) xs) @ '']'') = Some (JList (map JStr xs))"
proof (cases xs)
  case Nil
  then show ?thesis by (simp add: json_loads_def is_ws_def)
next
  case (Cons y ys)
  let ?t = "comma_join (map (quote_str True) xs) @ '']''"
  obtain u where u: "?t = CHR 0x22 # u" using Cons by (cases ys) (simp_all add: quote_str_def)
  have "read_items (length ?t) ?t = Some (map JStr xs, [])"
    using comma_join_length [of xs] Cons read_items_comma_join [of ys "length ?t" y "[]"] by simp
  then show ?thesis using u by (simp add: json_loads_def is_ws_def)
qed

lemma finite_roles [simp]: "finite (R :: role set)"
proof (rule finite_subset)
  show "R \<subseteq> {EMPLOYEE, SUPPORT_ANALYST, ADMIN_APPROVER, ATTACKER}" using role.exhaust by blast
qed simp

lemma role_of_value_role [simp]: "role_of_value (JStr (role_value r)) = Some r"
  by (cases r) (auto simp: role_of_value_def role_value_def)

lemma roles_of_json_roles [simp]: "roles_of_json (roles_json R) = Inr R"
proof -
  let ?vs = "sorted_list_of_set (role_value ` R)"
  have vs: "set ?vs = role_value ` R" by simp
  then have "list_all (\<lambda>x. role_of_value x \<noteq> None) (map JStr ?vs)" by (auto simp: list_all_iff)
  moreover have "set (List.map_filter role_of_value (map JStr ?vs)) = R"
    by (auto simp: List.map_filter_def image_iff)
  ultimately show ?thesis
    by (simp add: roles_of_json_def roles_json_def json_loads_strings)
qed

subsection \<open>The database invariant and the lifecycle contract\<close>

definition journal_ok :: "workflow_row \<Rightarrow> approval_record \<Rightarrow> bool" where
  "journal_ok w r \<longleftrightarrow> w_requester_user_id w = a_requester_user_id r \<and> w_tenant_id w = a_tenant_id r \<and>
     w_action w = a_action r \<and> w_normalized_arguments_json w = a_normalized_arguments_json r"

definition db_inv :: "(string \<Rightarrow> string) \<Rightarrow> 'z approval_db_scheme \<Rightarrow> bool" where
  "db_inv sha db \<longleftrightarrow> distinct (map a_approval_id (d_approval_records db)) \<and>
     (\<forall>i r. approval_row db i = Some r \<longrightarrow> bound sha r \<and> lifecycle_ok r) \<and>
     distinct (map w_approval_id (d_approval_workflows db)) \<and>
     distinct (map w_thread_id (d_approval_workflows db)) \<and>
     (\<forall>i w. journal_row db i = Some w \<longrightarrow> (\<exists>r. approval_row db i = Some r \<and> journal_ok w r))"

lemma db_inv_journal:
  assumes "db_inv sha db" and "journal_row db i = Some w"
  obtains r where "approval_row db i = Some r" and "journal_ok w r"
  using assms by (auto simp: db_inv_def) blast

inductive durable_step :: "(string \<Rightarrow> string) \<Rightarrow> 'z approval_db_scheme \<Rightarrow> 'z approval_db_scheme \<Rightarrow> bool"
  for sha where
  create: "durable_create sha ttl now tok nonce ctx q a args db = (res, db') \<Longrightarrow> wf_json args \<Longrightarrow>
    durable_step sha db db'"
| get: "durable_get now i db = (res, db') \<Longrightarrow> durable_step sha db db'"
| decide: "durable_decide t1 t2 i p d db = (res, db') \<Longrightarrow> durable_step sha db db'"
| resolve: "durable_resolve_after_review sha t1 t2 i q a args db = (res, db') \<Longrightarrow> durable_step sha db db'"
| consume: "durable_consume sha t1 t2 i q a args db = (res, db') \<Longrightarrow> durable_step sha db db'"
| complete: "workflow_complete now i out db = (res', db') \<Longrightarrow> durable_step sha db db'"

text \<open>Every step does one of three things.\<close>

lemma durable_step_cases:
  assumes "durable_step sha db db'"
  obtains (new) ttl now tok nonce ctx q a args r where
      "durable_create sha ttl now tok nonce ctx q a args db = (Inr r, db')" "wf_json args"
  | (moved) i where "durable_moves i db db'"
  | (completed) now i out v where "workflow_complete now i out db = (Inr v, db')"
  using assms
proof (cases rule: durable_step.cases)
  case (create ttl now tok nonce ctx q a args res)
  then show ?thesis using new moved by (cases res) (auto dest: durable_create_Inl)
next
  case (complete now i out res')
  then show ?thesis using completed moved by (cases res') (auto dest: workflow_complete_Inl)
qed (use moved in \<open>blast intro: durable_get_moves durable_decide_moves durable_resolve_moves durable_consume_moves\<close>)+

lemma new_record_fields [simp]:
  "a_approval_id (new_record sha ttl now tok nonce q a args) = ''apr_'' @ tok"
  "a_requester_user_id (new_record sha ttl now tok nonce q a args) = p_user_id q"
  "a_tenant_id (new_record sha ttl now tok nonce q a args) = p_tenant_id q"
  "a_action (new_record sha ttl now tok nonce q a args) = a"
  "a_normalized_arguments_json (new_record sha ttl now tok nonce q a args) = canonicalize args"
  "a_status (new_record sha ttl now tok nonce q a args) = PENDING"
  by (simp_all add: new_record_def Let_def)

lemma new_workflow_row_fields [simp]:
  "w_approval_id (new_workflow_row w q r) = a_approval_id r"
  "w_thread_id (new_workflow_row w q r) = c_thread_id w"
  by (simp_all add: new_workflow_row_def)

lemma new_journal_ok:
  "journal_ok (new_workflow_row w q (new_record sha ttl now tok nonce q a args))
     (new_record sha ttl now tok nonce q a args)"
  by (simp add: journal_ok_def new_workflow_row_def)

lemma new_record_bound:
  "wf_json args \<Longrightarrow> bound sha (new_record sha ttl now tok nonce q a args)"
  "lifecycle_ok (new_record sha ttl now tok nonce q a args)"
  using new_record_ok(2) [of args sha ttl now tok nonce q a]
    new_record_ok(1) [of sha ttl now tok nonce q a args]
  by (simp_all add: record_inv_def lifecycle_ok_def)

text \<open>Lookups in the database that \<open>create\<close> leaves.\<close>

lemma create_lookup:
  assumes "durable_create sha ttl now tok nonce ctx q a args db = (Inr r, db')"
  shows "approval_row db' i = (if i = a_approval_id r then Some r else approval_row db i)"
    and "journal_row db' i = (case journal_row db i of Some w \<Rightarrow> Some w | None \<Rightarrow>
      (case ctx of Some w \<Rightarrow> if i = a_approval_id r then Some (new_workflow_row w q r) else None
       | None \<Rightarrow> None))"
  using durable_create_Inr(2) [OF assms] unfolding durable_create_Inr(3) [OF assms]
  by (auto simp: find_append split: option.splits)

lemma create_inv:
  assumes inv: "db_inv sha db" and "wf_json args"
    and c: "durable_create sha ttl now tok nonce ctx q a args db = (Inr r, db')"
  shows "db_inv sha db'"
proof -
  note d = durable_create_Inr [OF c]
  have "distinct (map a_approval_id (d_approval_records db'))"
    using inv d(2) unfolding d(3) by (simp add: db_inv_def row_of_None)
  moreover have "distinct (map w_approval_id (d_approval_workflows db'))"
    "distinct (map w_thread_id (d_approval_workflows db'))"
    using inv d(4) unfolding d(3) by (auto simp: db_inv_def row_of_None split: option.splits)
  moreover have "bound sha r'" "lifecycle_ok r'" if "approval_row db' i = Some r'" for i r'
    using that inv assms(2) d(1)
    by (auto simp: create_lookup(1) [OF c] db_inv_def new_record_bound split: if_splits)
  moreover have "\<exists>r'. approval_row db' i = Some r' \<and> journal_ok w r'"
    if "journal_row db' i = Some w" for i w
  proof (cases "journal_row db i")
    case None
    with that d(1) show ?thesis
      by (auto simp: create_lookup [OF c] new_journal_ok split: if_splits option.splits)
  next
    case (Some w')
    with inv obtain r' where "approval_row db i = Some r'" "journal_ok w' r'" by (rule db_inv_journal)
    with that Some d(2) show ?thesis by (auto simp: create_lookup [OF c])
  qed
  ultimately show ?thesis by (simp add: db_inv_def)
qed

lemma moves_lookup:
  assumes "durable_moves i db db'"
  shows "d_approval_workflows db' = d_approval_workflows db"
    and "map a_approval_id (d_approval_records db') = map a_approval_id (d_approval_records db)"
    and "approval_row db j = Some r \<Longrightarrow> \<exists>r'. approval_row db' j = Some r' \<and> approval_step r r'"
    and "approval_row db j = None \<Longrightarrow> approval_row db' j = None"
  using assms by (auto simp: durable_moves_def row_moved_def intro: approval_step.stay)

lemma durable_moves_inv:
  assumes "durable_moves i db db'" and inv: "db_inv sha db"
  shows "db_inv sha db'"
proof -
  note m = moves_lookup [OF assms(1)]
  have step: "\<exists>r. approval_row db j = Some r \<and> approval_step r r'" if "approval_row db' j = Some r'" for j r'
    using that m(3,4) [of j] by (cases "approval_row db j") auto
  have "bound sha r'" "lifecycle_ok r'" if "approval_row db' j = Some r'" for j r'
    using step [OF that] inv approval_step_same_request [of _ r'] approval_step_lifecycle_ok [of _ r']
    by (auto simp: db_inv_def bound_def same_request_def)
  moreover have "\<exists>r'. approval_row db' j = Some r' \<and> journal_ok w r'" if "journal_row db' j = Some w" for j w
  proof -
    from that m(1) have "journal_row db j = Some w" by simp
    with inv obtain r where "approval_row db j = Some r" "journal_ok w r" by (rule db_inv_journal)
    with m(3) [of j r] approval_step_same_request show ?thesis
      by (auto simp: journal_ok_def same_request_def)
  qed
  ultimately show ?thesis using inv m(1,2) by (simp add: db_inv_def)
qed

lemma complete_lookup:
  assumes "workflow_complete now i out db = (Inr v, db')"
  shows "d_approval_records db' = d_approval_records db"
    and "map w_approval_id (d_approval_workflows db') = map w_approval_id (d_approval_workflows db)"
    and "map w_thread_id (d_approval_workflows db') = map w_thread_id (d_approval_workflows db)"
    and "\<exists>w. journal_row db i = Some w \<and> (\<forall>j. journal_row db' j =
      (if j = i then Some (w\<lparr>w_status := WORKFLOW_COMPLETED, w_final_outcome := Some out,
         w_completed_at := Some now\<rparr>) else journal_row db j))"
proof -
  obtain w where w: "journal_row db i = Some w" "w_status w = WORKFLOW_PENDING"
    and db': "db' = db\<lparr>d_approval_workflows := update_where
      (\<lambda>w. w_approval_id w = i \<and> w_status w = WORKFLOW_PENDING)
      (\<lambda>w. w\<lparr>w_status := WORKFLOW_COMPLETED, w_final_outcome := Some out, w_completed_at := Some now\<rparr>)
      (d_approval_workflows db)\<rparr>"
    using workflow_complete_Inr [OF assms] by blast
  then show "d_approval_records db' = d_approval_records db"
    "map w_approval_id (d_approval_workflows db') = map w_approval_id (d_approval_workflows db)"
    "map w_thread_id (d_approval_workflows db') = map w_thread_id (d_approval_workflows db)"
    by (simp_all add: map_key_update_where)
  show "\<exists>w. journal_row db i = Some w \<and> (\<forall>j. journal_row db' j =
      (if j = i then Some (w\<lparr>w_status := WORKFLOW_COMPLETED, w_final_outcome := Some out,
         w_completed_at := Some now\<rparr>) else journal_row db j))"
    using w db' find_update_where_guarded [where key = w_approval_id and k = i and r = w
      and p = "\<lambda>w. w_status w = WORKFLOW_PENDING" and rows = "d_approval_workflows db"
      and f = "\<lambda>w. w\<lparr>w_status := WORKFLOW_COMPLETED, w_final_outcome := Some out, w_completed_at := Some now\<rparr>"]
    by simp
qed

lemma complete_inv:
  assumes "workflow_complete now i out db = (Inr v, db')" and inv: "db_inv sha db"
  shows "db_inv sha db'"
proof -
  note c = complete_lookup [OF assms(1)]
  have "\<exists>r. approval_row db' j = Some r \<and> journal_ok w r" if "journal_row db' j = Some w" for j w
  proof -
    from that c(4) obtain w' where w': "journal_row db j = Some w'" and "\<And>r. journal_ok w r = journal_ok w' r"
      by (cases "j = i") (auto simp: journal_ok_def)
    with db_inv_journal [OF inv w'] show ?thesis unfolding c(1) by metis
  qed
  then show ?thesis using inv c(1-3) by (simp add: db_inv_def)
qed

lemma durable_step_inv: "db_inv sha db \<Longrightarrow> durable_step sha db db' \<Longrightarrow> db_inv sha db'"
  by (erule durable_step_cases) (auto intro: create_inv durable_moves_inv complete_inv)

interpretation sqlite: approval_lifecycle "approval_row" "durable_step sha" "db_inv sha"
proof
  fix s t :: "'z approval_db_scheme" and i r
  assume inv: "db_inv sha s" and st: "durable_step sha s t"
  show "db_inv sha t" using inv st by (rule durable_step_inv)
  { assume r: "approval_row s i = Some r"
    from st show "\<exists>r'. approval_row t i = Some r' \<and> approval_step r r'"
    proof (cases rule: durable_step_cases)
      case new
      with r durable_create_Inr(2) [OF new(1)] show ?thesis
        by (auto simp: create_lookup(1) [OF new(1)] intro: approval_step.stay)
    next
      case (moved j)
      with r moves_lookup(3) show ?thesis by blast
    next
      case completed
      with r complete_lookup(1) [OF completed] show ?thesis by (auto intro: approval_step.stay)
    qed }
  { assume n: "approval_row s i = None" and r: "approval_row t i = Some r"
    from st show "fresh_record r"
    proof (cases rule: durable_step_cases)
      case new
      with n r durable_create_Inr(1) [OF new(1)] show ?thesis
        by (auto simp: create_lookup(1) [OF new(1)] new_record_ok(1) split: if_splits)
    next
      case (moved j)
      with n r moves_lookup(4) show ?thesis by fastforce
    next
      case completed
      with n r complete_lookup(1) [OF completed] show ?thesis by simp
    qed }
qed (simp add: db_inv_def)

subsection \<open>The SQLite store refines the in-memory store\<close>

definition as_store :: "int \<Rightarrow> 'z approval_db_scheme \<Rightarrow> approval_store" where
  "as_store ttl db = \<lparr>s_ttl = ttl, s_records = approval_row db\<rparr>"

lemma as_store_update:
  assumes "\<And>r. a_approval_id (f r) = a_approval_id r" and "approval_row db i = Some r" and "a_status r = s"
  shows "as_store ttl (update_approval i s f db) = put_record i (f r) (as_store ttl db)"
  using update_approval_row [OF assms] by (auto simp: as_store_def)

lemma mem_decide:
  "s_records st i = Some r \<Longrightarrow> a_status r = PENDING \<Longrightarrow> \<not> is_expired t1 r \<Longrightarrow> check_approver p r = None \<Longrightarrow>
     decide t1 t2 i p d st = (Inr (decided d (p_user_id p) t2 r), put_record i (decided d (p_user_id p) t2 r) st)"
  by (simp add: decide_def require_record_def expire_if_needed_def Let_def)

lemma mem_consume:
  "s_records st i = Some r \<Longrightarrow> a_approval_id r = i \<Longrightarrow> a_status r = APPROVED \<Longrightarrow> \<not> is_expired t1 r \<Longrightarrow>
     verify_binding sha r q a args = Inr () \<Longrightarrow>
     consume sha t1 t2 i q a args st = (Inr (consumed t2 r), put_record i (consumed t2 r) st)"
  by (simp add: consume_def require_record_def expire_if_needed_def consume_locked_def Let_def)

text \<open>The approver has decided the record before, in the same way; an approval may have been consumed since.\<close>

definition decided_alike :: "principal \<Rightarrow> approval_decision \<Rightarrow> approval_record \<Rightarrow> bool" where
  "decided_alike p d r \<longleftrightarrow> a_approver_user_id r = Some (p_user_id p) \<and>
     (case d of APPROVE \<Rightarrow> a_status r \<in> {APPROVED, CONSUMED} | REJECT \<Rightarrow> a_status r = REJECTED)"

lemma decided_alike_recovers: "same_recovery_decision p d r \<longleftrightarrow> decided_alike p d r"
  by (auto simp: same_recovery_decision_def decided_alike_def desired_status_def split: approval_decision.split)

text \<open>\<^bold>\<open>C10\<close>. A decision in the SQLite store is the decision of the in-memory store on the same
  records, with the same result, exception or new contents, except that the approver who already
  decided the record the same way (approved it, whether or not it was consumed since, or rejected it) gets the stored record
  back and nothing changes, where the in-memory store raises. No such repetition is refused: the
  database raises only where the in-memory store raises and the call repeats no decision, and then it
  is unchanged. The workflow rows are never touched.\<close>

theorem durable_decide_refines:
  "(let (res, db') = durable_decide t1 t2 i p d db; (mem, st') = decide t1 t2 i p d (as_store ttl db) in
    d_approval_workflows db' = d_approval_workflows db \<and>
    (case res of
       Inl e \<Rightarrow> mem = Inl e \<and> db' = db \<and>
         \<not> (\<exists>r. approval_row db i = Some r \<and> \<not> is_expired t1 r \<and> check_approver p r = None \<and> decided_alike p d r)
     | Inr r' \<Rightarrow> (mem = Inr r' \<and> as_store ttl db' = st') \<or>
         (db' = db \<and> approval_row db i = Some r' \<and> mem = Inl (ApprovalStateError ''approval is not pending'') \<and>
          decided_alike p d r')))"
proof (cases "approval_row db i")
  case None
  then show ?thesis
    by (simp add: durable_decide_def transaction_def load_locked_missing decide_def require_record_def
        as_store_def)
next
  case (Some r)
  show ?thesis
  proof (cases "is_expired t1 r")
    case True
    with Some obtain db1 where "load_locked t1 i db = (Inr (r\<lparr>a_status := EXPIRED\<rparr>), db1)"
      by (rule load_locked_lapsed)
    with True Some show ?thesis
      by (simp add: durable_decide_def transaction_def decide_def require_record_def as_store_def
          expire_if_needed_def same_recovery_decision_def Let_def check_approver_def
          desired_status_neq [symmetric] split: option.split)
  next
    case False
    note live = load_locked_live [OF Some False]
    show ?thesis
    proof (cases "check_approver p r = None \<and> a_status r = PENDING")
      case True
      then have "\<not> decided_alike p d r" by (simp add: decided_alike_def split: approval_decision.split)
      with True Some False live as_store_update [of "decided d (p_user_id p) t2" i db r PENDING ttl]
        mem_decide [of "as_store ttl db" i r t1 p t2 d] show ?thesis
        by (simp add: durable_decide_def transaction_def) (simp add: as_store_def update_approval_def)
    next
      case False
      with Some \<open>\<not> is_expired t1 r\<close> live show ?thesis
        by (auto simp: durable_decide_def transaction_def decide_def require_record_def as_store_def
          expire_if_needed_def decided_alike_recovers split: option.splits)
    qed
  qed
qed

text \<open>A consumption in the SQLite store that returns is a consumption of the in-memory
  store on the same records with the same new contents, or repeats an earlier one and changes
  nothing; in both cases the caller's binding was verified.\<close>

theorem durable_consume_refines:
  assumes "db_inv sha db" and "durable_consume sha t1 t2 i q a args db = (Inr r', db')"
  shows "consume sha t1 t2 i q a args (as_store ttl db) = (Inr r', as_store ttl db') \<or>
    (db' = db \<and> approval_row db i = Some r' \<and> a_status r' = CONSUMED \<and> verify_binding sha r' q a args = Inr ())"
proof -
  from durable_consume_Inr [OF assms(2)] obtain r where r: "approval_row db i = Some r"
      "\<not> is_expired t1 r" "verify_binding sha r q a args = Inr ()" and
    "a_status r = APPROVED \<and> r' = consumed t2 r \<and> db' = update_approval i APPROVED (consumed t2) db \<or>
     a_status r = CONSUMED \<and> r' = r \<and> db' = db" by blast
  moreover have "a_approval_id r = i" using row_of_SomeD [OF r(1)] by simp
  ultimately show ?thesis
    using mem_consume [of "as_store ttl db" i r t1 sha q a args t2]
      as_store_update [of "consumed t2" i db r APPROVED ttl]
    by (auto simp: as_store_def)
qed

abbreviation demo_db :: "approval_db" where
  "demo_db \<equiv> \<lparr>d_approval_records = [decided APPROVE ''usr_dyn_carol'' 6 demo_request], d_approval_workflows = []\<rparr>"

lemma demo_db_inv: "db_inv id demo_db"
proof -
  have "store_inv id (demo_store APPROVE)" by (rule demo_store_inv)
  then show ?thesis by (auto simp: db_inv_def store_inv_def record_inv_def split: if_splits)
qed

theorem durable_consume_refines_witness:
  "\<exists>r' db'. durable_consume id 7 8 ''apr_t'' alice REQUEST_PASSWORD_RESET reset_args demo_db = (Inr r', db') \<and>
     consume id 7 8 ''apr_t'' alice REQUEST_PASSWORD_RESET reset_args (as_store 600 demo_db) =
       (Inr r', as_store 600 db')"
proof -
  let ?c = "durable_consume id 7 8 ''apr_t'' alice REQUEST_PASSWORD_RESET reset_args demo_db"
  obtain r' db' where c: "?c = (Inr r', db')"
    by (simp add: durable_consume_def transaction_def load_locked_def store_evals)
  from durable_consume_refines [OF demo_db_inv c, of 600] c show ?thesis
    by (auto simp: decided_def desired_status_def split: if_splits)
qed

subsection \<open>Resuming after a restart\<close>

definition same_context :: "workflow_row \<Rightarrow> workflow_row \<Rightarrow> bool" where
  "same_context w w' \<longleftrightarrow> w_approval_id w' = w_approval_id w \<and> w_thread_id w' = w_thread_id w \<and>
     w_trace_id w' = w_trace_id w \<and> w_requester_user_id w' = w_requester_user_id w \<and>
     w_tenant_id w' = w_tenant_id w \<and> w_requester_roles_json w' = w_requester_roles_json w \<and>
     w_action w' = w_action w \<and> w_normalized_arguments_json w' = w_normalized_arguments_json w \<and>
     w_tool_calls w' = w_tool_calls w \<and> w_created_at w' = w_created_at w"

lemma step_journal:
  assumes "durable_step sha db db'" and "journal_row db i = Some w"
  shows "\<exists>w'. journal_row db' i = Some w' \<and> same_context w w'"
  using assms(1)
proof (cases rule: durable_step_cases)
  case new
  with assms(2) show ?thesis by (simp add: create_lookup [OF new(1)] same_context_def)
next
  case (moved j)
  with assms(2) show ?thesis by (simp add: moves_lookup(1) same_context_def)
next
  case (completed now j out v)
  from complete_lookup(4) [OF this] assms(2) show ?thesis by (auto simp: same_context_def)
qed

lemma steps_journal:
  "(durable_step sha)\<^sup>*\<^sup>* db db' \<Longrightarrow> journal_row db i = Some w \<Longrightarrow>
     \<exists>w'. journal_row db' i = Some w' \<and> same_context w w'"
proof (induction rule: rtranclp_induct)
  case base
  then show ?case by (auto simp: same_context_def)
next
  case (step db1 db2)
  then obtain w1 where w1: "journal_row db1 i = Some w1" "same_context w w1" by blast
  from step_journal [OF step.hyps(2) w1(1)] obtain w2 where "journal_row db2 i = Some w2" "same_context w1 w2"
    by blast
  with w1(2) show ?case by (auto simp: same_context_def)
qed

lemma arguments_read_back:
  "wf_json (JObj kvs) \<Longrightarrow> arguments_of_json (canonicalize (JObj kvs)) = Inr (sort_keys (JObj kvs))"
  using json_loads_dumps [of "JObj kvs" True] by (simp add: arguments_of_json_def canonicalize_def)

lemma journal_after_create:
  assumes inv: "db_inv sha db" and wf: "wf_json args"
    and create: "durable_create sha ttl now tok nonce (Some ctx) q a args db = (Inr r, db1)"
    and steps: "(durable_step sha)\<^sup>*\<^sup>* db1 db2"
  shows "\<exists>w. journal_row db2 (a_approval_id r) = Some w \<and> same_context (new_workflow_row ctx q r) w"
proof -
  have "journal_row db1 (a_approval_id r) = Some (new_workflow_row ctx q r)"
    using durable_create_Inr(4) [OF create] by (simp add: create_lookup(2) [OF create])
  from steps_journal [OF steps this] show ?thesis .
qed

text \<open>\<^bold>\<open>C9\<close>. Resuming works after any sequence of calls, restarts included: from the journal alone
  the workflow store rebuilds the requester with exactly the roles it had, the thread and the
  arguments, and the rebuilt context passes the binding check of the stored approval.\<close>

theorem resume_from_journal:
  assumes inv: "db_inv sha db" and wf: "wf_json (JObj kvs)"
    and create: "durable_create sha ttl now tok nonce (Some ctx) q a (JObj kvs) db = (Inr r, db1)"
    and steps: "(durable_step sha)\<^sup>*\<^sup>* db1 db2"
  shows "\<exists>v r2. workflow_get (a_approval_id r) db2 = Inr v \<and> v_requester v = q \<and> v_action v = a \<and>
    v_thread_id v = c_thread_id ctx \<and> v_arguments v = sort_keys (JObj kvs) \<and>
    approval_row db2 (a_approval_id r) = Some r2 \<and> same_request r r2 \<and>
    verify_binding sha r2 (v_requester v) (v_action v) (v_arguments v) = Inr ()"
proof -
  let ?i = "a_approval_id r"
  note r = durable_create_Inr(1) [OF create]
  have inv1: "db_inv sha db1" by (rule create_inv [OF inv wf create])
  obtain w where w: "journal_row db2 ?i = Some w" "same_context (new_workflow_row ctx q r) w"
    using journal_after_create [OF inv wf create steps] by blast
  then have "w_requester_roles_json w = roles_json (p_roles q)" "w_requester_user_id w = p_user_id q"
    "w_tenant_id w = p_tenant_id q" "w_thread_id w = c_thread_id ctx" "w_action w = a"
    "w_normalized_arguments_json w = canonicalize (JObj kvs)"
    using r by (auto simp: same_context_def new_workflow_row_def)
  then obtain v where v: "workflow_get ?i db2 = Inr v" "v_requester v = q" "v_action v = a"
      "v_thread_id v = c_thread_id ctx" "v_arguments v = sort_keys (JObj kvs)"
    using w(1) arguments_read_back [OF wf]
    by (simp add: workflow_get_def row_to_workflow_def v_requester_def)
  have "approval_row db1 ?i = Some r" by (simp add: create_lookup(1) [OF create])
  from sqlite.request_is_fixed [OF steps inv1 this] obtain r2 where
    r2: "approval_row db2 ?i = Some r2" "same_request r r2" by blast
  from sqlite.inv_steps [OF steps inv1] r2(1) have "bound sha r2" by (simp add: db_inv_def)
  then have "verify_binding sha r2 (v_requester v) (v_action v) (v_arguments v) = Inr ()"
    using r2(2) r v by (intro verify_binding_complete)
      (auto simp: same_binding_def same_request_def canonicalize_def simp del: sort_keys.simps)
  with v r2 show ?thesis by blast
qed

abbreviation demo_context :: workflow_context where
  "demo_context \<equiv> \<lparr>c_thread_id = ''th'', c_trace_id = ''tr'', c_tool_calls = 1\<rparr>"

theorem resume_from_journal_witness:
  "\<exists>v. workflow_get ''apr_t'' (snd (durable_decide 5 6 ''apr_t'' carol APPROVE
       (snd (durable_create id 600 0 ''t'' ''n'' (Some demo_context) alice REQUEST_PASSWORD_RESET reset_args
         \<lparr>d_approval_records = [], d_approval_workflows = []\<rparr>)))) = Inr v \<and> v_requester v = alice"
proof -
  let ?db0 = "\<lparr>d_approval_records = [], d_approval_workflows = []\<rparr>"
  let ?c = "durable_create id 600 0 ''t'' ''n'' (Some demo_context) alice REQUEST_PASSWORD_RESET reset_args ?db0"
  have inv: "db_inv id ?db0" by (simp add: db_inv_def)
  obtain r where r: "?c = (Inr r, snd ?c)" "a_approval_id r = ''apr_t''"
    by (simp add: durable_create_def insert_workflow_def transaction_def Let_def)
  have "(durable_step id)\<^sup>*\<^sup>* (snd ?c) (snd (durable_decide 5 6 ''apr_t'' carol APPROVE (snd ?c)))"
    by (intro r_into_rtranclp durable_step.decide [OF surjective_pairing])
  from resume_from_journal [OF inv _ r(1) this] r(2) show ?thesis by auto
qed

end
