(* ===== verification/Effect_Outbox.thy ===== *)
theory Effect_Outbox
  imports Durable_Approvals
begin

section \<open>Effects: the transactional outbox and the idempotent downstream\<close>

text \<open>
  \<open>aegis/effects/durable.py\<close>. The outbox table lives in the approval database, the effect ledger
  in the database of the downstream service. The constraints of both schemas are checked where
  rows are inserted: \<^verbatim>\<open>INSERT OR IGNORE\<close> skips a row that repeats a unique value and raises on a
  missing foreign key, a plain \<^verbatim>\<open>INSERT\<close> raises. A worker and a pipeline take the effect service's
  \<open>execute\<close> as an argument, as the classes take the service object.
\<close>

subsection \<open>Rows\<close>

datatype outbox_status = OUTBOX_PENDING | OUTBOX_COMPLETED | OUTBOX_ROW_CANCELLED

record outbox_record =
  o_approval_id :: string
  o_idempotency_key :: string
  o_requester_user_id :: string
  o_tenant_id :: string
  o_action :: approval_action
  o_normalized_arguments_json :: string
  o_status :: outbox_status
  o_delivery_attempts :: int
  o_created_at :: int
  o_completed_at :: "int option"

record effect_execution =
  x_effect_ref :: string
  x_approval_id :: string
  x_action :: approval_action
  x_duplicate_suppressed :: bool

record ledger_row =
  l_idempotency_key :: string
  l_approval_id :: string
  l_requester_user_id :: string
  l_tenant_id :: string
  l_action :: approval_action
  l_normalized_arguments_json :: string
  l_effect_ref :: string
  l_executed_at :: int

record outbox_db = approval_db +
  d_effect_outbox :: "outbox_record list"

record ledger_db =
  d_effect_ledger :: "ledger_row list"

abbreviation outbox_row :: "outbox_db \<Rightarrow> string \<Rightarrow> outbox_record option" where
  "outbox_row db i \<equiv> row_of o_approval_id i (d_effect_outbox db)"

subsection \<open>Enqueueing\<close>

definition idempotency_material :: "approval_record \<Rightarrow> string" where
  "idempotency_material record = utf8 (join_with (CHR 0x1F)
     [''aegisdesk-p2l-v1'', a_approval_id record, a_binding_hash record, a_requester_user_id record,
      a_tenant_id record, action_value (a_action record), a_normalized_arguments_json record])"

definition idempotency_key :: "(string \<Rightarrow> string) \<Rightarrow> approval_record \<Rightarrow> string" where
  "idempotency_key sha record = sha (idempotency_material record)"

definition new_outbox_record :: "(string \<Rightarrow> string) \<Rightarrow> approval_record \<Rightarrow> int \<Rightarrow> outbox_record" where
  "new_outbox_record sha record created_at =
     \<lparr>o_approval_id = a_approval_id record,
      o_idempotency_key = idempotency_key sha record,
      o_requester_user_id = a_requester_user_id record,
      o_tenant_id = a_tenant_id record,
      o_action = a_action record,
      o_normalized_arguments_json = a_normalized_arguments_json record,
      o_status = OUTBOX_PENDING,
      o_delivery_attempts = 0,
      o_created_at = created_at,
      o_completed_at = None\<rparr>"

definition insert_or_ignore_outbox :: "outbox_record \<Rightarrow> (outbox_db, aegis_error, unit) operation" where
  "insert_or_ignore_outbox o1 db =
     (if o_approval_id o1 \<in> o_approval_id ` set (d_effect_outbox db)
        \<or> o_idempotency_key o1 \<in> o_idempotency_key ` set (d_effect_outbox db)
      then (Inr (), db)
      else if o_approval_id o1 \<notin> a_approval_id ` set (d_approval_records db)
      then (Inl IntegrityError, db)
      else (Inr (), db\<lparr>d_effect_outbox := d_effect_outbox db @ [o1]\<rparr>))"

definition outbox_bound :: "(string \<Rightarrow> string) \<Rightarrow> approval_record \<Rightarrow> outbox_record \<Rightarrow> bool" where
  "outbox_bound sha record outbox \<longleftrightarrow>
     o_idempotency_key outbox = idempotency_key sha record \<and>
     o_requester_user_id outbox = a_requester_user_id record \<and>
     o_tenant_id outbox = a_tenant_id record \<and>
     o_action outbox = a_action record \<and>
     o_normalized_arguments_json outbox = a_normalized_arguments_json record"

definition insert_or_validate_outbox ::
  "(string \<Rightarrow> string) \<Rightarrow> approval_record \<Rightarrow> int \<Rightarrow> (outbox_db, aegis_error, outbox_record) operation" where
  "insert_or_validate_outbox sha record created_at db =
     (case insert_or_ignore_outbox (new_outbox_record sha record created_at) db of
        (Inl e, db1) \<Rightarrow> (Inl e, db1)
      | (Inr _, db1) \<Rightarrow>
          (case outbox_row db1 (a_approval_id record) of
             None \<Rightarrow> (Inl (ApprovalStateError ''effect outbox row was not created''), db1)
           | Some outbox \<Rightarrow>
               if \<not> outbox_bound sha record outbox
                 then (Inl (EffectBindingError ''existing effect outbox binding mismatch''), db1)
               else (Inr outbox, db1)))"

definition resolve_after_review_and_enqueue ::
  "(string \<Rightarrow> string) \<Rightarrow> int \<Rightarrow> int \<Rightarrow> string \<Rightarrow> principal \<Rightarrow> approval_action \<Rightarrow> json
     \<Rightarrow> (outbox_db, aegis_error, approval_record) operation" where
  "resolve_after_review_and_enqueue sha checked now approval_id requester action arguments =
     transaction (\<lambda>db.
       case load_locked checked approval_id db of
         (Inl e, db1) \<Rightarrow> (Inl e, db1)
       | (Inr record, db1) \<Rightarrow>
           (case verify_binding sha record requester action arguments of
              Inl e \<Rightarrow> (Inl e, db1)
            | Inr _ \<Rightarrow>
                if a_status record = REJECTED then (Inr record, db1)
                else if a_status record = CONSUMED then
                  (let created_at = (case a_consumed_at record of Some t \<Rightarrow> t | None \<Rightarrow> now) in
                   case insert_or_validate_outbox sha record created_at db1 of
                     (Inl e, db2) \<Rightarrow> (Inl e, db2)
                   | (Inr _, db2) \<Rightarrow> (Inr record, db2))
                else if a_status record = APPROVED then
                  (let db2 = update_approval approval_id APPROVED (consumed now) db1 in
                   case insert_or_validate_outbox sha (consumed now record) now db2 of
                     (Inl e, db3) \<Rightarrow> (Inl e, db3)
                   | (Inr _, db3) \<Rightarrow> (Inr (consumed now record), db3))
                else (Inl (ApprovalStateError ''approval is not ready for effect enqueue''), db1)))"

subsection \<open>DurableEffectOutboxStore\<close>

definition outbox_get :: "string \<Rightarrow> outbox_db \<Rightarrow> aegis_error + outbox_record" where
  "outbox_get approval_id db = (case outbox_row db approval_id of
     None \<Rightarrow> Inl (ApprovalStateError ''no effect outbox row for approval'')
   | Some row \<Rightarrow> Inr row)"

text \<open>\<^verbatim>\<open>assert refreshed is not None\<close> after the block has committed.\<close>

definition asserted :: "('s, aegis_error, 'a option) operation \<Rightarrow> ('s, aegis_error, 'a) operation" where
  "asserted f s = (case f s of
     (Inl e, t) \<Rightarrow> (Inl e, t)
   | (Inr None, t) \<Rightarrow> (Inl AssertionError, t)
   | (Inr (Some a), t) \<Rightarrow> (Inr a, t))"

definition begin_delivery :: "string \<Rightarrow> (outbox_db, aegis_error, outbox_record) operation" where
  "begin_delivery approval_id = asserted (transaction (\<lambda>db.
     case outbox_get approval_id db of
       Inl e \<Rightarrow> (Inl e, db)
     | Inr row \<Rightarrow>
         (let db1 = db\<lparr>d_effect_outbox := update_where (\<lambda>r. o_approval_id r = approval_id)
             (\<lambda>r. r\<lparr>o_delivery_attempts := o_delivery_attempts r + 1\<rparr>) (d_effect_outbox db)\<rparr> in
          (Inr (outbox_row db1 approval_id), db1))))"

definition outbox_complete ::
  "int \<Rightarrow> string \<Rightarrow> string \<Rightarrow> (outbox_db, aegis_error, outbox_record) operation" where
  "outbox_complete now approval_id key = asserted (transaction (\<lambda>db.
     case outbox_get approval_id db of
       Inl e \<Rightarrow> (Inl e, db)
     | Inr current \<Rightarrow>
         if o_idempotency_key current \<noteq> key
           then (Inl (EffectBindingError ''effect outbox idempotency key mismatch''), db)
         else if o_status current = OUTBOX_COMPLETED then (Inr (Some current), db)
         else
           (let db1 = db\<lparr>d_effect_outbox := update_where
               (\<lambda>r. o_approval_id r = approval_id \<and> o_status r = OUTBOX_PENDING)
               (\<lambda>r. r\<lparr>o_status := OUTBOX_COMPLETED, o_completed_at := Some now\<rparr>) (d_effect_outbox db)\<rparr> in
            (Inr (outbox_row db1 approval_id), db1))))"

subsection \<open>SyntheticIdempotentEffectService\<close>

abbreviation ledger_by_key :: "'z ledger_db_scheme \<Rightarrow> string \<Rightarrow> ledger_row option" where
  "ledger_by_key db k \<equiv> row_of l_idempotency_key k (d_effect_ledger db)"

abbreviation ledger_by_approval :: "'z ledger_db_scheme \<Rightarrow> string \<Rightarrow> ledger_row option" where
  "ledger_by_approval db i \<equiv> row_of l_approval_id i (d_effect_ledger db)"

definition ledger_matches :: "ledger_row \<Rightarrow> outbox_record \<Rightarrow> bool" where
  "ledger_matches row record \<longleftrightarrow>
     l_approval_id row = o_approval_id record \<and>
     l_requester_user_id row = o_requester_user_id record \<and>
     l_tenant_id row = o_tenant_id record \<and>
     l_action row = o_action record \<and>
     l_normalized_arguments_json row = o_normalized_arguments_json record"

definition validate_existing :: "ledger_row \<Rightarrow> outbox_record \<Rightarrow> aegis_error option" where
  "validate_existing row record =
     (if \<not> ledger_matches row record
        then Some (EffectBindingError ''idempotency key reused with a different effect payload'')
      else None)"

definition effect_ref_of :: "string \<Rightarrow> string" where
  "effect_ref_of key = ''synthetic-effect-'' @ take 20 key"

definition new_ledger_row :: "int \<Rightarrow> outbox_record \<Rightarrow> ledger_row" where
  "new_ledger_row now record =
     \<lparr>l_idempotency_key = o_idempotency_key record,
      l_approval_id = o_approval_id record,
      l_requester_user_id = o_requester_user_id record,
      l_tenant_id = o_tenant_id record,
      l_action = o_action record,
      l_normalized_arguments_json = o_normalized_arguments_json record,
      l_effect_ref = effect_ref_of (o_idempotency_key record),
      l_executed_at = now\<rparr>"

definition execution_of :: "string \<Rightarrow> outbox_record \<Rightarrow> bool \<Rightarrow> effect_execution" where
  "execution_of ref record duplicate =
     \<lparr>x_effect_ref = ref, x_approval_id = o_approval_id record, x_action = o_action record,
      x_duplicate_suppressed = duplicate\<rparr>"

definition insert_ledger ::
  "ledger_row \<Rightarrow> ('z ledger_db_scheme, aegis_error, unit) operation" where
  "insert_ledger row db =
     (if l_idempotency_key row \<in> l_idempotency_key ` set (d_effect_ledger db)
        \<or> l_approval_id row \<in> l_approval_id ` set (d_effect_ledger db)
        \<or> l_effect_ref row \<in> l_effect_ref ` set (d_effect_ledger db)
      then (Inl IntegrityError, db)
      else (Inr (), db\<lparr>d_effect_ledger := d_effect_ledger db @ [row]\<rparr>))"

definition record_effect ::
  "int \<Rightarrow> outbox_record \<Rightarrow> ('z ledger_db_scheme, aegis_error, effect_execution) operation" where
  "record_effect now record db =
     (case insert_ledger (new_ledger_row now record) db of
        (Inl e, db1) \<Rightarrow> (Inl e, db1)
      | (Inr _, db1) \<Rightarrow>
          (Inr (execution_of (effect_ref_of (o_idempotency_key record)) record False), db1))"

text \<open>
  The lookups every service starts with: a ledger row with the same key answers the call, one for
  the same approval with another key refuses it, otherwise the service goes on.
\<close>

definition ledger_lookup ::
  "outbox_record \<Rightarrow> 'z ledger_db_scheme \<Rightarrow> (aegis_error + effect_execution) option" where
  "ledger_lookup record db = (case ledger_by_key db (o_idempotency_key record) of
     Some existing \<Rightarrow>
       (case validate_existing existing record of
          Some e \<Rightarrow> Some (Inl e)
        | None \<Rightarrow> Some (Inr (execution_of (l_effect_ref existing) record True)))
   | None \<Rightarrow>
       (case ledger_by_approval db (o_approval_id record) of
          Some conflicting \<Rightarrow>
            Some (Inl (EffectBindingError ''approval already mapped to another idempotency key''))
        | None \<Rightarrow> None))"

definition execute ::
  "int \<Rightarrow> outbox_record \<Rightarrow> ('z ledger_db_scheme, aegis_error, effect_execution) operation" where
  "execute now record = transaction (\<lambda>db.
     case ledger_lookup record db of
       Some res \<Rightarrow> (res, db)
     | None \<Rightarrow> record_effect now record db)"

definition count_effects :: "string \<Rightarrow> 'z ledger_db_scheme \<Rightarrow> nat" where
  "count_effects approval_id db = length (filter (\<lambda>l. l_approval_id l = approval_id) (d_effect_ledger db))"

subsection \<open>Worker and pipeline\<close>

record 's pipeline =
  pl_outbox :: outbox_db
  pl_effects :: 's
  pl_crash_after_effect_once :: bool

definition acknowledge ::
  "int \<Rightarrow> string \<Rightarrow> outbox_record \<Rightarrow> effect_execution \<Rightarrow> ('s pipeline, aegis_error, effect_execution) operation" where
  "acknowledge now approval_id record execution w =
     (if pl_crash_after_effect_once w
        then (Inl SyntheticWorkerCrash, w\<lparr>pl_crash_after_effect_once := False\<rparr>)
      else
        (case outbox_complete now approval_id (o_idempotency_key record) (pl_outbox w) of
           (Inl e, db) \<Rightarrow> (Inl e, w\<lparr>pl_outbox := db\<rparr>)
         | (Inr _, db) \<Rightarrow> (Inr execution, w\<lparr>pl_outbox := db\<rparr>)))"

definition deliver ::
  "(outbox_record \<Rightarrow> ('s, aegis_error, effect_execution) operation) \<Rightarrow> int \<Rightarrow> string
     \<Rightarrow> ('s pipeline, aegis_error, effect_execution) operation" where
  "deliver exec now approval_id w = (case begin_delivery approval_id (pl_outbox w) of
     (Inl e, db) \<Rightarrow> (Inl e, w\<lparr>pl_outbox := db\<rparr>)
   | (Inr record, db) \<Rightarrow>
       (case exec record (pl_effects w) of
          (Inl e, s) \<Rightarrow> (Inl e, w\<lparr>pl_outbox := db, pl_effects := s\<rparr>)
        | (Inr execution, s) \<Rightarrow>
            acknowledge now approval_id record execution (w\<lparr>pl_outbox := db, pl_effects := s\<rparr>)))"

definition resolve_and_deliver ::
  "(string \<Rightarrow> string) \<Rightarrow> (string \<Rightarrow> ('s pipeline, aegis_error, effect_execution) operation) \<Rightarrow> int \<Rightarrow> int
     \<Rightarrow> string \<Rightarrow> principal \<Rightarrow> approval_action \<Rightarrow> json
     \<Rightarrow> ('s pipeline, aegis_error, approval_record \<times> effect_execution option) operation" where
  "resolve_and_deliver sha worker checked now approval_id requester action arguments w =
     (case resolve_after_review_and_enqueue sha checked now approval_id requester action arguments
         (pl_outbox w) of
        (Inl e, db) \<Rightarrow> (Inl e, w\<lparr>pl_outbox := db\<rparr>)
      | (Inr record, db) \<Rightarrow>
          (let w1 = w\<lparr>pl_outbox := db\<rparr> in
           if a_status record = REJECTED then (Inr (record, None), w1)
           else if a_status record \<noteq> CONSUMED
             then (Inl (ApprovalStateError ''unexpected approval status before effect delivery''), w1)
           else
             (case worker approval_id w1 of
                (Inl e, w2) \<Rightarrow> (Inl e, w2)
              | (Inr execution, w2) \<Rightarrow> (Inr (record, Some execution), w2))))"

subsection \<open>The contract of an effect service\<close>

definition same_effect :: "outbox_record \<Rightarrow> outbox_record \<Rightarrow> bool" where
  "same_effect o1 o2 \<longleftrightarrow> o_approval_id o1 = o_approval_id o2 \<and> o_idempotency_key o1 = o_idempotency_key o2 \<and>
     o_requester_user_id o1 = o_requester_user_id o2 \<and> o_tenant_id o1 = o_tenant_id o2 \<and>
     o_action o1 = o_action o2 \<and> o_normalized_arguments_json o1 = o_normalized_arguments_json o2"

definition ledger_ok :: "ledger_row list \<Rightarrow> bool" where
  "ledger_ok rows \<longleftrightarrow> distinct (map l_idempotency_key rows) \<and> distinct (map l_approval_id rows) \<and>
     distinct (map l_effect_ref rows)"

definition fresh_effect :: "ledger_row list \<Rightarrow> outbox_record \<Rightarrow> bool" where
  "fresh_effect rows o1 \<longleftrightarrow> o_idempotency_key o1 \<notin> l_idempotency_key ` set rows \<and>
     o_approval_id o1 \<notin> l_approval_id ` set rows \<and>
     effect_ref_of (o_idempotency_key o1) \<notin> l_effect_ref ` set rows"

definition recorded :: "ledger_row list \<Rightarrow> outbox_record \<Rightarrow> ledger_row \<Rightarrow> bool" where
  "recorded rows o1 l \<longleftrightarrow> l \<in> set rows \<and> l_idempotency_key l = o_idempotency_key o1 \<and> ledger_matches l o1"

lemma new_ledger_row_matches [simp]:
  "ledger_matches (new_ledger_row now o1) o1"
  "l_idempotency_key (new_ledger_row now o1) = o_idempotency_key o1"
  "l_approval_id (new_ledger_row now o1) = o_approval_id o1"
  "l_effect_ref (new_ledger_row now o1) = effect_ref_of (o_idempotency_key o1)"
  by (simp_all add: ledger_matches_def new_ledger_row_def)

lemma same_effect_refl [simp]: "same_effect o1 o1"
  by (simp add: same_effect_def)

lemma same_effect_trans: "same_effect o1 o2 \<Longrightarrow> same_effect o2 o3 \<Longrightarrow> same_effect o1 o3"
  by (simp add: same_effect_def)

lemma ledger_matches_same: "same_effect o1 o2 \<Longrightarrow> ledger_matches l o1 \<longleftrightarrow> ledger_matches l o2"
  by (auto simp: same_effect_def ledger_matches_def)

lemma recorded_same: "same_effect o1 o2 \<Longrightarrow> recorded rows o1 l \<longleftrightarrow> recorded rows o2 l"
  using ledger_matches_same [of o1 o2 l] by (auto simp: recorded_def same_effect_def)

lemma ledger_ok_append:
  "ledger_ok (rows @ [new_ledger_row now o1]) \<longleftrightarrow> ledger_ok rows \<and> fresh_effect rows o1"
  by (auto simp: ledger_ok_def fresh_effect_def)

inductive pipeline_step ::
  "(string \<Rightarrow> string) \<Rightarrow> ('s \<Rightarrow> ledger_row list) \<Rightarrow>
   ('c \<Rightarrow> outbox_record \<Rightarrow> ('s, aegis_error, effect_execution) operation) \<Rightarrow>
   's pipeline \<Rightarrow> 's pipeline \<Rightarrow> bool"
  for sha ledger exec where
  approvals: "durable_step sha (pl_outbox w) db \<Longrightarrow> pipeline_step sha ledger exec w (w\<lparr>pl_outbox := db\<rparr>)"
| enqueue: "resolve_after_review_and_enqueue sha t1 t2 i q a args (pl_outbox w) = (res, db) \<Longrightarrow>
    pipeline_step sha ledger exec w (w\<lparr>pl_outbox := db\<rparr>)"
| progress: "db = (pl_outbox w)\<lparr>d_effect_outbox := rows\<rparr> \<Longrightarrow>
    list_all2 same_effect (d_effect_outbox (pl_outbox w)) rows \<Longrightarrow>
    pipeline_step sha ledger exec w (w\<lparr>pl_outbox := db\<rparr>)"
| effect: "o2 \<in> set (d_effect_outbox (pl_outbox w)) \<Longrightarrow> same_effect o1 o2 \<Longrightarrow>
    exec c o1 (pl_effects w) = (res', s) \<Longrightarrow> pipeline_step sha ledger exec w (w\<lparr>pl_effects := s\<rparr>)"
| service: "ledger s = ledger (pl_effects w) \<Longrightarrow>
    pipeline_step sha ledger exec w (w\<lparr>pl_effects := s\<rparr>)"
| restart: "pipeline_step sha ledger exec w (w\<lparr>pl_crash_after_effect_once := b\<rparr>)"

definition outbox_inv :: "(string \<Rightarrow> string) \<Rightarrow> outbox_db \<Rightarrow> bool" where
  "outbox_inv sha db \<longleftrightarrow> db_inv sha db \<and> distinct (map o_approval_id (d_effect_outbox db)) \<and>
     distinct (map o_idempotency_key (d_effect_outbox db)) \<and>
     (\<forall>o1 \<in> set (d_effect_outbox db). \<exists>r. approval_row db (o_approval_id o1) = Some r \<and>
        a_status r = CONSUMED \<and> outbox_bound sha r o1)"

definition pipeline_inv ::
  "(string \<Rightarrow> string) \<Rightarrow> ('s \<Rightarrow> ledger_row list) \<Rightarrow> 's pipeline \<Rightarrow> bool" where
  "pipeline_inv sha ledger w \<longleftrightarrow> outbox_inv sha (pl_outbox w) \<and> ledger_ok (ledger (pl_effects w)) \<and>
     (\<forall>l \<in> set (ledger (pl_effects w)). \<exists>o1 \<in> set (d_effect_outbox (pl_outbox w)).
        l_idempotency_key l = o_idempotency_key o1 \<and> ledger_matches l o1)"

subsection \<open>The outbox keeps its invariant\<close>

lemma durable_step_outbox:
  assumes "durable_step sha db db'"
  shows "d_effect_outbox db' = d_effect_outbox db"
  using assms
proof (cases rule: durable_step_cases)
  case new
  show ?thesis unfolding durable_create_Inr(3) [OF new(1)] by simp
next
  case (moved i)
  then show ?thesis by (auto simp: durable_moves_def)
next
  case completed
  from workflow_complete_Inr [OF completed] show ?thesis by auto
qed

lemma outbox_bound_same_request:
  "same_request r r' \<Longrightarrow> outbox_bound sha r' o1 \<longleftrightarrow> outbox_bound sha r o1"
  by (simp add: outbox_bound_def same_request_def idempotency_key_def idempotency_material_def)

lemma outbox_inv_row:
  assumes "outbox_inv sha db" and "o1 \<in> set (d_effect_outbox db)"
  obtains r where "approval_row db (o_approval_id o1) = Some r" "a_status r = CONSUMED" "outbox_bound sha r o1"
  using assms unfolding outbox_inv_def by blast

lemma outbox_inv_step:
  assumes inv: "outbox_inv sha db" and "durable_step sha db db'"
  shows "outbox_inv sha db'"
proof -
  have "db_inv sha db'" using inv durable_step_inv [OF _ assms(2)] by (simp add: outbox_inv_def)
  moreover have "\<exists>r. approval_row db' (o_approval_id o1) = Some r \<and> a_status r = CONSUMED \<and> outbox_bound sha r o1"
    if "o1 \<in> set (d_effect_outbox db)" for o1
  proof -
    from inv that obtain r where r: "approval_row db (o_approval_id o1) = Some r" "a_status r = CONSUMED"
      "outbox_bound sha r o1" by (rule outbox_inv_row)
    have "approval_row db' (o_approval_id o1) = Some r"
      using sqlite.terminal_is_final [OF r_into_rtranclp, OF assms(2) _ r(1)] inv r(2)
      by (simp add: outbox_inv_def)
    with r show ?thesis by blast
  qed
  ultimately show ?thesis using inv durable_step_outbox [OF assms(2)] by (simp add: outbox_inv_def)
qed

lemma list_all2_same_effect:
  assumes "list_all2 same_effect rows rows'"
  shows "map o_approval_id rows' = map o_approval_id rows"
    and "map o_idempotency_key rows' = map o_idempotency_key rows"
    and "o2 \<in> set rows' \<Longrightarrow> \<exists>o1 \<in> set rows. same_effect o1 o2"
    and "o1 \<in> set rows \<Longrightarrow> \<exists>o2 \<in> set rows'. same_effect o1 o2"
  using assms by (induction rows rows' rule: list_all2_induct) (auto simp: same_effect_def)

lemma outbox_bound_same_effect: "same_effect o1 o2 \<Longrightarrow> outbox_bound sha r o1 \<longleftrightarrow> outbox_bound sha r o2"
  by (auto simp: outbox_bound_def same_effect_def)

lemma outbox_inv_progress:
  assumes inv: "outbox_inv sha db" and rows: "list_all2 same_effect (d_effect_outbox db) rows"
  shows "outbox_inv sha (db\<lparr>d_effect_outbox := rows\<rparr>)"
proof -
  have "\<exists>r. approval_row db (o_approval_id o2) = Some r \<and> a_status r = CONSUMED \<and> outbox_bound sha r o2"
    if "o2 \<in> set rows" for o2
  proof -
    from list_all2_same_effect(3) [OF rows that] obtain o1 where
      o1: "o1 \<in> set (d_effect_outbox db)" "same_effect o1 o2" by blast
    from inv o1(1) obtain r where "approval_row db (o_approval_id o1) = Some r" "a_status r = CONSUMED"
      "outbox_bound sha r o1" by (rule outbox_inv_row)
    with o1(2) outbox_bound_same_effect [OF o1(2)] show ?thesis by (auto simp: same_effect_def)
  qed
  moreover have "db_inv sha (db\<lparr>d_effect_outbox := rows\<rparr>)"
    using inv by (simp add: outbox_inv_def db_inv_def)
  ultimately show ?thesis using inv list_all2_same_effect(1,2) [OF rows] by (simp add: outbox_inv_def)
qed

text \<open>What enqueueing does to the outbox: nothing, or it appends the row of the consumed record.\<close>

lemma insert_or_validate_Inr:
  assumes "insert_or_validate_outbox sha r t db = (Inr o1, db')"
  shows "o1 \<in> set (d_effect_outbox db')" and "o_approval_id o1 = a_approval_id r" and "outbox_bound sha r o1"
    and "db' = db \<or> (db' = db\<lparr>d_effect_outbox := d_effect_outbox db @ [new_outbox_record sha r t]\<rparr> \<and>
      a_approval_id r \<notin> o_approval_id ` set (d_effect_outbox db) \<and>
      idempotency_key sha r \<notin> o_idempotency_key ` set (d_effect_outbox db))"
  using assms
  by (auto simp: insert_or_validate_outbox_def insert_or_ignore_outbox_def new_outbox_record_def
      split: if_splits option.splits dest: row_of_SomeD)

lemma new_outbox_record_bound [simp]:
  "outbox_bound sha r (new_outbox_record sha r t)" "o_approval_id (new_outbox_record sha r t) = a_approval_id r"
  "o_idempotency_key (new_outbox_record sha r t) = idempotency_key sha r"
  by (simp_all add: outbox_bound_def new_outbox_record_def)

lemma insert_or_validate_inv:
  assumes inv: "outbox_inv sha db" and "insert_or_validate_outbox sha r t db = (Inr o1, db')"
    and "approval_row db (a_approval_id r) = Some r" and "a_status r = CONSUMED"
  shows "outbox_inv sha db'"
proof (cases "db' = db")
  case False
  with insert_or_validate_Inr(4) [OF assms(2)] have
    db': "db' = db\<lparr>d_effect_outbox := d_effect_outbox db @ [new_outbox_record sha r t]\<rparr>" and
    "a_approval_id r \<notin> o_approval_id ` set (d_effect_outbox db)"
    "idempotency_key sha r \<notin> o_idempotency_key ` set (d_effect_outbox db)" by auto
  with inv assms(3,4) show ?thesis unfolding outbox_inv_def db' by (auto simp: db_inv_def)
qed (use inv in simp)

lemma enqueue_Inr:
  assumes "resolve_after_review_and_enqueue sha t1 t2 i q a args db = (Inr r', db')"
  shows "\<exists>r. approval_row db i = Some r \<and> \<not> is_expired t1 r \<and> verify_binding sha r q a args = Inr () \<and>
    (a_status r = REJECTED \<and> r' = r \<and> db' = db \<or>
     a_status r = CONSUMED \<and> r' = r \<and> (\<exists>t o1. insert_or_validate_outbox sha r t db = (Inr o1, db')) \<or>
     a_status r = APPROVED \<and> r' = consumed t2 r \<and>
       (\<exists>o1. insert_or_validate_outbox sha r' t2 (update_approval i APPROVED (consumed t2) db) = (Inr o1, db')))"
proof (cases "approval_row db i")
  case None
  with assms show ?thesis by (simp add: resolve_after_review_and_enqueue_def load_locked_missing)
next
  case (Some r)
  show ?thesis
  proof (cases "is_expired t1 r")
    case True
    with Some obtain db1 where "load_locked t1 i db = (Inr (r\<lparr>a_status := EXPIRED\<rparr>), db1)"
      by (rule load_locked_lapsed)
    with assms show ?thesis
      by (auto simp: resolve_after_review_and_enqueue_def split: sum.splits if_splits)
  next
    case False
    with assms Some show ?thesis
      by (auto simp: resolve_after_review_and_enqueue_def load_locked_live Let_def
          split: sum.splits if_splits prod.splits)
  qed
qed

lemma enqueue_Inl:
  "resolve_after_review_and_enqueue sha t1 t2 i q a args db = (Inl e, db') \<Longrightarrow> db' = db"
  by (simp add: resolve_after_review_and_enqueue_def)

lemma outbox_inv_moves:
  assumes inv: "outbox_inv sha db" and moves: "durable_moves i db db'"
  shows "outbox_inv sha db'"
proof -
  have same: "d_effect_outbox db' = d_effect_outbox db" using moves by (auto simp: durable_moves_def)
  have "db_inv sha db'" using inv durable_moves_inv [OF moves] by (simp add: outbox_inv_def)
  moreover have "\<exists>r. approval_row db' (o_approval_id o1) = Some r \<and> a_status r = CONSUMED \<and> outbox_bound sha r o1"
    if "o1 \<in> set (d_effect_outbox db)" for o1
  proof -
    from inv that obtain r where r: "approval_row db (o_approval_id o1) = Some r" "a_status r = CONSUMED"
      "outbox_bound sha r o1" by (rule outbox_inv_row)
    from moves_lookup(3) [OF moves r(1)] obtain r' where
      "approval_row db' (o_approval_id o1) = Some r'" "approval_step r r'" by blast
    with r approval_step_terminal [of r r'] show ?thesis by auto
  qed
  ultimately show ?thesis using inv same by (simp add: outbox_inv_def)
qed

lemma update_approval_outbox [simp]:
  "d_effect_outbox (update_approval i s f db) = d_effect_outbox db"
  by (simp add: update_approval_def)

lemma enqueue_inv:
  assumes inv: "outbox_inv sha db"
    and enq: "resolve_after_review_and_enqueue sha t1 t2 i q a args db = (res, db')"
  shows "outbox_inv sha db'"
proof (cases res)
  case (Inl e)
  with enq enqueue_Inl inv show ?thesis by blast
next
  case (Inr r')
  with enq have "resolve_after_review_and_enqueue sha t1 t2 i q a args db = (Inr r', db')" by simp
  from enqueue_Inr [OF this] obtain r where r: "approval_row db i = Some r" and
    cases: "a_status r = REJECTED \<and> r' = r \<and> db' = db \<or>
     a_status r = CONSUMED \<and> r' = r \<and> (\<exists>t o1. insert_or_validate_outbox sha r t db = (Inr o1, db')) \<or>
     a_status r = APPROVED \<and> r' = consumed t2 r \<and>
       (\<exists>o1. insert_or_validate_outbox sha r' t2 (update_approval i APPROVED (consumed t2) db) = (Inr o1, db'))"
    by blast
  have id: "a_approval_id r = i" using row_of_SomeD [OF r] by simp
  from cases consider "db' = db"
    | t o1 where "a_status r = CONSUMED" "insert_or_validate_outbox sha r t db = (Inr o1, db')"
    | o1 where "a_status r = APPROVED"
        "insert_or_validate_outbox sha (consumed t2 r) t2 (update_approval i APPROVED (consumed t2) db) = (Inr o1, db')"
    by blast
  then show ?thesis
  proof cases
    case 1
    with inv show ?thesis by simp
  next
    case 2
    from insert_or_validate_inv [OF inv 2(2)] r id 2(1) show ?thesis by simp
  next
    case 3
    have "outbox_inv sha (update_approval i APPROVED (consumed t2) db)"
      using update_approval_moves [of "consumed t2", OF _ r 3(1) approval_step.consume [OF 3(1)]]
      by (intro outbox_inv_moves [OF inv, of i]) simp
    from insert_or_validate_inv [OF this 3(2)] r id 3(1) show ?thesis
      by (simp add: update_approval_row)
  qed
qed

lemma enqueue_outbox_grows:
  assumes "resolve_after_review_and_enqueue sha t1 t2 i q a args db = (res, db')"
  shows "set (d_effect_outbox db) \<subseteq> set (d_effect_outbox db')"
proof (cases res)
  case (Inl e)
  with assms enqueue_Inl show ?thesis by blast
next
  case (Inr r')
  with assms have "resolve_after_review_and_enqueue sha t1 t2 i q a args db = (Inr r', db')" by simp
  from enqueue_Inr [OF this] show ?thesis by (auto dest!: insert_or_validate_Inr(4))
qed

lemma distinct_filter_at_most_one:
  assumes "distinct (map f xs)"
  shows "length (filter (\<lambda>x. f x = a) xs) \<le> 1"
  using assms by (induction xs) (auto simp: filter_empty_conv image_iff)

subsection \<open>Effect services\<close>

text \<open>
  What a worker relies on when it calls \<open>execute\<close>: a call that raises records nothing; a call that
  returns either found the effect recorded for exactly this outbox row and changed nothing, or
  recorded it now, for the first time under its key and its approval.
\<close>

locale effect_service =
  fixes ledger :: "'s \<Rightarrow> ledger_row list"
    and exec :: "'c \<Rightarrow> outbox_record \<Rightarrow> ('s, aegis_error, effect_execution) operation"
  assumes exec_Inl: "exec c o1 s = (Inl e, t) \<Longrightarrow> ledger t = ledger s"
    and exec_Inr: "exec c o1 s = (Inr x, t) \<Longrightarrow>
      (\<exists>l. recorded (ledger s) o1 l \<and> t = s \<and> x = execution_of (l_effect_ref l) o1 True) \<or>
      (\<exists>now. fresh_effect (ledger s) o1 \<and> ledger t = ledger s @ [new_ledger_row now o1] \<and>
        x = execution_of (effect_ref_of (o_idempotency_key o1)) o1 False)"
begin

lemma exec_grows:
  assumes "exec c o1 s = (res, t)"
  shows "ledger t = ledger s \<or> (\<exists>now. fresh_effect (ledger s) o1 \<and> ledger t = ledger s @ [new_ledger_row now o1])"
  using assms exec_Inl exec_Inr by (cases res) blast+

lemma exec_recorded:
  assumes "exec c o1 s = (Inr x, t)"
  obtains l where "recorded (ledger t) o1 l" "x_effect_ref x = l_effect_ref l"
  using exec_Inr [OF assms]
proof (elim disjE exE conjE)
  fix l
  assume "recorded (ledger s) o1 l" "t = s" "x = execution_of (l_effect_ref l) o1 True"
  then show ?thesis by (intro that [of l]) (auto simp: execution_of_def)
next
  fix now
  assume "ledger t = ledger s @ [new_ledger_row now o1]"
    "x = execution_of (effect_ref_of (o_idempotency_key o1)) o1 False"
  then show ?thesis by (intro that [of "new_ledger_row now o1"]) (auto simp: recorded_def execution_of_def)
qed

lemma exec_ok: "ledger_ok (ledger s) \<Longrightarrow> exec c o1 s = (res, t) \<Longrightarrow> ledger_ok (ledger t)"
  using exec_grows [of c o1 s res t] by (auto simp: ledger_ok_append)

lemma pipeline_inv_step:
  assumes step: "pipeline_step sha ledger exec w w'" and inv: "pipeline_inv sha ledger w"
  shows "pipeline_inv sha ledger w'"
  using step
proof (cases rule: pipeline_step.cases)
  case (approvals db)
  with inv outbox_inv_step [of sha "pl_outbox w" db] durable_step_outbox [of sha "pl_outbox w" db]
  show ?thesis by (simp add: pipeline_inv_def)
next
  case (enqueue t1 t2 i q a args res db)
  with inv enqueue_inv [OF _ enqueue(2)] enqueue_outbox_grows [OF enqueue(2)] show ?thesis
    by (simp add: pipeline_inv_def) blast
next
  case (progress db rows)
  with inv show ?thesis
    using outbox_inv_progress [of sha "pl_outbox w" rows] list_all2_same_effect(4) [OF progress(3)]
    by (simp add: pipeline_inv_def) (metis ledger_matches_same same_effect_def)
next
  case (effect o2 o1 c res' s)
  have "\<exists>o1 \<in> set (d_effect_outbox (pl_outbox w)). l_idempotency_key l = o_idempotency_key o1 \<and> ledger_matches l o1"
    if "l \<in> set (ledger s)" for l
  proof (cases "l \<in> set (ledger (pl_effects w))")
    case True
    with inv show ?thesis by (simp add: pipeline_inv_def)
  next
    case False
    with that exec_grows [OF effect(4)] obtain now where "l = new_ledger_row now o1" by auto
    with effect(2,3) ledger_matches_same [OF effect(3), of l] show ?thesis
      by (auto simp: same_effect_def)
  qed
  with inv effect exec_ok [OF _ effect(4)] show ?thesis by (simp add: pipeline_inv_def)
next
  case (service s)
  with inv show ?thesis by (simp add: pipeline_inv_def)
next
  case restart
  with inv show ?thesis by (simp add: pipeline_inv_def)
qed

lemma pipeline_inv_steps:
  "(pipeline_step sha ledger exec)\<^sup>*\<^sup>* w w' \<Longrightarrow> pipeline_inv sha ledger w \<Longrightarrow> pipeline_inv sha ledger w'"
  by (induction rule: rtranclp_induct) (auto intro: pipeline_inv_step)

lemma ledger_grows_step:
  assumes "pipeline_step sha ledger exec w w'"
  shows "\<exists>ls. ledger (pl_effects w') = ledger (pl_effects w) @ ls"
  using assms by (cases rule: pipeline_step.cases) (auto dest: exec_grows)

lemma ledger_grows:
  "(pipeline_step sha ledger exec)\<^sup>*\<^sup>* w w' \<Longrightarrow> \<exists>ls. ledger (pl_effects w') = ledger (pl_effects w) @ ls"
proof (induction rule: rtranclp_induct)
  case (step w1 w2)
  with ledger_grows_step [OF step.hyps(2)] show ?case by auto
qed simp

text \<open>No effect without an approval given by another principal, for exactly this request.\<close>

lemma effect_was_approved:
  assumes inv: "pipeline_inv sha ledger w" and l: "l \<in> set (ledger (pl_effects w))"
  shows "\<exists>r u. approval_row (pl_outbox w) (l_approval_id l) = Some r \<and> a_status r = CONSUMED \<and>
    a_approver_user_id r = Some u \<and> u \<noteq> a_requester_user_id r \<and>
    l_idempotency_key l = idempotency_key sha r \<and> l_requester_user_id l = a_requester_user_id r \<and>
    l_tenant_id l = a_tenant_id r \<and> l_action l = a_action r \<and>
    l_normalized_arguments_json l = a_normalized_arguments_json r"
proof -
  from inv l obtain o1 where o1: "o1 \<in> set (d_effect_outbox (pl_outbox w))"
    "l_idempotency_key l = o_idempotency_key o1" "ledger_matches l o1" by (auto simp: pipeline_inv_def)
  have oi: "outbox_inv sha (pl_outbox w)" using inv by (simp add: pipeline_inv_def)
  from oi o1(1) obtain r where r: "approval_row (pl_outbox w) (o_approval_id o1) = Some r"
    "a_status r = CONSUMED" "outbox_bound sha r o1" by (rule outbox_inv_row)
  have "db_inv sha (pl_outbox w)" using oi by (simp add: outbox_inv_def)
  from sqlite.consumed_needs_other_approver [OF this r(1,2)] r o1(2,3) show ?thesis
    by (auto simp: outbox_bound_def ledger_matches_def)
qed

lemma effects_at_most_once:
  assumes "pipeline_inv sha ledger w"
  shows "length (filter (\<lambda>l. l_approval_id l = i) (ledger (pl_effects w))) \<le> 1"
  using assms distinct_filter_at_most_one [of l_approval_id "ledger (pl_effects w)" i]
  by (simp add: pipeline_inv_def ledger_ok_def)

end

text \<open>A service that also answers a repeated call from the ledger, whatever else has changed.\<close>

locale replaying_service = effect_service ledger exec
  for ledger :: "'s \<Rightarrow> ledger_row list"
    and exec :: "'c \<Rightarrow> outbox_record \<Rightarrow> ('s, aegis_error, effect_execution) operation" +
  assumes exec_replay: "ledger_ok (ledger s) \<Longrightarrow> recorded (ledger s) o1 l \<Longrightarrow>
    exec c o1 s = (Inr (execution_of (l_effect_ref l) o1 True), s)"

subsection \<open>What a delivery does\<close>

lemma asserted_Inr [simp]: "asserted f s = (Inr a, t) \<longleftrightarrow> f s = (Inr (Some a), t)"
  by (auto simp: asserted_def split: prod.splits sum.splits option.splits)

lemma asserted_Inl: "asserted f s = (Inl e, t) \<Longrightarrow> f s = (Inl e, t) \<or> (f s = (Inr None, t) \<and> e = AssertionError)"
  by (auto simp: asserted_def split: prod.splits sum.splits option.splits)

lemma update_where_same_effect:
  "(\<And>r. same_effect r (f r)) \<Longrightarrow> list_all2 same_effect rows (update_where p f rows)"
  by (induction rows) (auto simp: update_where_def)

lemma begin_delivery_Inr:
  assumes "begin_delivery i db = (Inr o1, db')"
  shows "\<exists>o0. outbox_row db i = Some o0 \<and> o1 = o0\<lparr>o_delivery_attempts := o_delivery_attempts o0 + 1\<rparr> \<and>
    outbox_row db' i = Some o1 \<and> (\<exists>rows. db' = db\<lparr>d_effect_outbox := rows\<rparr> \<and>
      list_all2 same_effect (d_effect_outbox db) rows)"
proof -
  let ?f = "\<lambda>r. r\<lparr>o_delivery_attempts := o_delivery_attempts r + 1\<rparr>"
  let ?rows = "update_where (\<lambda>r. o_approval_id r = i) ?f (d_effect_outbox db)"
  have "list_all2 same_effect (d_effect_outbox db) ?rows"
    by (rule update_where_same_effect) (simp add: same_effect_def)
  with assms show ?thesis
    by (auto simp: begin_delivery_def outbox_get_def find_update_where_same Let_def split: option.splits)
qed

lemma begin_delivery_total:
  assumes "outbox_row db i = Some o0"
  shows "\<exists>o1 db'. begin_delivery i db = (Inr o1, db')"
  using assms
  by (simp add: begin_delivery_def transaction_def asserted_def outbox_get_def find_update_where_same Let_def)

lemma begin_delivery_Inl: "begin_delivery i db = (Inl e, db') \<Longrightarrow> db' = db"
  using begin_delivery_total [of i db]
  by (cases "outbox_row db i") (auto simp: begin_delivery_def transaction_def asserted_def outbox_get_def)

lemma begin_delivery_progress:
  assumes "begin_delivery i db = (res, db')"
  shows "\<exists>rows. db' = db\<lparr>d_effect_outbox := rows\<rparr> \<and> list_all2 same_effect (d_effect_outbox db) rows"
proof (cases res)
  case (Inl e)
  with assms begin_delivery_Inl have "db' = db\<lparr>d_effect_outbox := d_effect_outbox db\<rparr>" by fastforce
  then show ?thesis by (metis list.rel_refl same_effect_refl)
next
  case (Inr o1)
  with assms begin_delivery_Inr show ?thesis by blast
qed

definition completed_row :: "int \<Rightarrow> outbox_record \<Rightarrow> outbox_record" where
  "completed_row now r = (if o_status r = OUTBOX_PENDING
     then r\<lparr>o_status := OUTBOX_COMPLETED, o_completed_at := Some now\<rparr> else r)"

lemma outbox_complete_total:
  assumes "outbox_row db i = Some o1"
  shows "\<exists>db'. outbox_complete now i (o_idempotency_key o1) db = (Inr (completed_row now o1), db') \<and>
    outbox_row db' i = Some (completed_row now o1)"
proof (cases "o_status o1 = OUTBOX_PENDING")
  case True
  let ?f = "\<lambda>r. r\<lparr>o_status := OUTBOX_COMPLETED, o_completed_at := Some now\<rparr>"
  have "row_of o_approval_id i (update_where (\<lambda>r. o_approval_id r = i \<and> o_status r = OUTBOX_PENDING) ?f
      (d_effect_outbox db)) = Some (?f o1)"
    using assms True by (subst find_update_where_guarded) auto
  with assms True show ?thesis
    by (simp add: outbox_complete_def transaction_def asserted_def outbox_get_def Let_def completed_row_def)
next
  case False
  let ?f = "\<lambda>r. r\<lparr>o_status := OUTBOX_COMPLETED, o_completed_at := Some now\<rparr>"
  have "row_of o_approval_id i (update_where (\<lambda>r. o_approval_id r = i \<and> o_status r = OUTBOX_PENDING) ?f
      (d_effect_outbox db)) = Some o1"
    using assms False by (rule find_update_where_skipped)
  with assms False show ?thesis
    by (simp add: outbox_complete_def transaction_def asserted_def outbox_get_def Let_def completed_row_def)
qed

lemma outbox_complete_progress:
  assumes "outbox_complete now i k db = (res, db')"
  shows "\<exists>rows. db' = db\<lparr>d_effect_outbox := rows\<rparr> \<and> list_all2 same_effect (d_effect_outbox db) rows"
proof -
  let ?f = "\<lambda>r. r\<lparr>o_status := OUTBOX_COMPLETED, o_completed_at := Some now\<rparr>"
  let ?rows = "update_where (\<lambda>r. o_approval_id r = i \<and> o_status r = OUTBOX_PENDING) ?f (d_effect_outbox db)"
  have "list_all2 same_effect (d_effect_outbox db) ?rows"
    by (rule update_where_same_effect) (simp add: same_effect_def)
  moreover have "db' = db \<or> db' = db\<lparr>d_effect_outbox := ?rows\<rparr>"
    using assms
    by (auto simp: outbox_complete_def transaction_def asserted_def outbox_get_def Let_def
        split: option.splits if_splits)
  moreover have "db = db\<lparr>d_effect_outbox := d_effect_outbox db\<rparr>" by simp
  moreover have "list_all2 same_effect (d_effect_outbox db) (d_effect_outbox db)" by (simp add: list.rel_refl)
  ultimately show ?thesis by metis
qed

context effect_service
begin

lemma step_progress:
  assumes "db = (pl_outbox w)\<lparr>d_effect_outbox := rows\<rparr>"
    and "list_all2 same_effect (d_effect_outbox (pl_outbox w)) rows"
  shows "pipeline_step sha ledger exec w (w\<lparr>pl_outbox := db\<rparr>)"
  using assms by (rule pipeline_step.progress)

lemma begin_steps:
  "begin_delivery i (pl_outbox w) = (res, db) \<Longrightarrow> pipeline_step sha ledger exec w (w\<lparr>pl_outbox := db\<rparr>)"
  using begin_delivery_progress step_progress by blast

lemma acknowledge_steps:
  assumes "acknowledge now i o1 x w = (res, w')"
  shows "(pipeline_step sha ledger exec)\<^sup>*\<^sup>* w w'"
proof (cases "pl_crash_after_effect_once w")
  case True
  with assms have "w' = w\<lparr>pl_crash_after_effect_once := False\<rparr>" by (simp add: acknowledge_def)
  with pipeline_step.restart [of sha ledger exec w False] show ?thesis by blast
next
  case False
  obtain res' db where c: "outbox_complete now i (o_idempotency_key o1) (pl_outbox w) = (res', db)" by fastforce
  with False assms have "w' = w\<lparr>pl_outbox := db\<rparr>" by (cases res') (auto simp: acknowledge_def)
  with outbox_complete_progress [OF c] step_progress show ?thesis by blast
qed

text \<open>Every delivery is a sequence of the steps above, so it keeps whatever they keep.\<close>

lemma deliver_steps:
  assumes "deliver (exec c) now i w = (res, w')"
  shows "(pipeline_step sha ledger exec)\<^sup>*\<^sup>* w w'"
proof -
  obtain b db where b: "begin_delivery i (pl_outbox w) = (b, db)" by fastforce
  let ?w1 = "w\<lparr>pl_outbox := db\<rparr>"
  have s1: "pipeline_step sha ledger exec w ?w1" by (rule begin_steps [OF b])
  show ?thesis
  proof (cases b)
    case (Inl e)
    with b assms s1 show ?thesis by (auto simp: deliver_def)
  next
    case (Inr o1)
    with b begin_delivery_Inr [of i "pl_outbox w" o1 db] have "outbox_row db i = Some o1" by auto
    then have "o1 \<in> set (d_effect_outbox db)" by (rule row_of_SomeD [THEN conjunct1])
    moreover obtain y s where x: "exec c o1 (pl_effects w) = (y, s)" by fastforce
    ultimately have "pipeline_step sha ledger exec ?w1 (?w1\<lparr>pl_effects := s\<rparr>)"
      using pipeline_step.effect [of o1 ?w1 o1 exec c y s sha ledger] by simp
    with s1 have s2: "(pipeline_step sha ledger exec)\<^sup>*\<^sup>* w (?w1\<lparr>pl_effects := s\<rparr>)"
      by (meson converse_rtranclp_into_rtranclp r_into_rtranclp)
    show ?thesis
    proof (cases y)
      case (Inl e)
      with Inr b x assms s2 show ?thesis by (simp add: deliver_def)
    next
      case (Inr execution)
      with \<open>b = Inr o1\<close> b x assms
      have "acknowledge now i o1 execution (?w1\<lparr>pl_effects := s\<rparr>) = (res, w')" by (simp add: deliver_def)
      from s2 acknowledge_steps [OF this] show ?thesis by (rule rtranclp_trans)
    qed
  qed
qed

lemma resolve_and_deliver_steps:
  assumes run: "resolve_and_deliver sha worker t1 t2 i q a args w = (res, w')"
    and worker: "\<And>j v x v'. worker j v = (x, v') \<Longrightarrow> (pipeline_step sha ledger exec)\<^sup>*\<^sup>* v v'"
  shows "(pipeline_step sha ledger exec)\<^sup>*\<^sup>* w w'"
proof -
  obtain y db where e: "resolve_after_review_and_enqueue sha t1 t2 i q a args (pl_outbox w) = (y, db)"
    by fastforce
  then have s1: "pipeline_step sha ledger exec w (w\<lparr>pl_outbox := db\<rparr>)" by (rule pipeline_step.enqueue)
  obtain z v' where v: "worker i (w\<lparr>pl_outbox := db\<rparr>) = (z, v')" by fastforce
  have "w' = w\<lparr>pl_outbox := db\<rparr> \<or> w' = v'"
    using run e v by (cases y; cases z) (auto simp: resolve_and_deliver_def Let_def split: if_splits)
  with s1 worker [OF v] show ?thesis by (meson converse_rtranclp_into_rtranclp r_into_rtranclp)
qed

end

context replaying_service
begin

text \<open>A delivery whose effect is already recorded succeeds, records nothing and acknowledges.\<close>

lemma deliver_recorded:
  assumes ok: "ledger_ok (ledger (pl_effects w))" and o1: "outbox_row (pl_outbox w) i = Some o1"
    and rec: "recorded (ledger (pl_effects w)) o1 l" and "\<not> pl_crash_after_effect_once w"
  shows "\<exists>x w' o2. deliver (exec c) now i w = (Inr x, w') \<and> x_duplicate_suppressed x \<and>
    x_effect_ref x = l_effect_ref l \<and> pl_effects w' = pl_effects w \<and>
    outbox_row (pl_outbox w') i = Some o2 \<and> o_status o2 \<noteq> OUTBOX_PENDING"
proof -
  obtain o2 db where b: "begin_delivery i (pl_outbox w) = (Inr o2, db)"
    using begin_delivery_total [OF o1] by blast
  have o2: "o2 = o1\<lparr>o_delivery_attempts := o_delivery_attempts o1 + 1\<rparr>" and row: "outbox_row db i = Some o2"
    using begin_delivery_Inr [OF b] o1 by auto
  then have "same_effect o1 o2" by (simp add: same_effect_def)
  with rec have "recorded (ledger (pl_effects w)) o2 l" using recorded_same by blast
  from exec_replay [OF ok this]
  have x: "exec c o2 (pl_effects w) = (Inr (execution_of (l_effect_ref l) o2 True), pl_effects w)" .
  obtain db' where "outbox_complete now i (o_idempotency_key o2) db = (Inr (completed_row now o2), db')"
      "outbox_row db' i = Some (completed_row now o2)" using outbox_complete_total [OF row] by blast
  with b x assms(4) show ?thesis
    by (simp add: deliver_def acknowledge_def execution_of_def completed_row_def)
qed

lemma crash_exposes_effect:
  assumes "deliver (exec c) now i w = (res, w1)" and "pl_crash_after_effect_once w"
    and "\<not> pl_crash_after_effect_once w1"
  obtains o1 l where "outbox_row (pl_outbox w1) i = Some o1" "recorded (ledger (pl_effects w1)) o1 l"
proof -
  obtain b db where b: "begin_delivery i (pl_outbox w) = (b, db)" by fastforce
  with assms obtain o1 where o1: "b = Inr o1" by (cases b) (auto simp: deliver_def)
  obtain y s where y: "exec c o1 (pl_effects w) = (y, s)" by fastforce
  with assms b o1 obtain x where x: "y = Inr x" by (cases y) (auto simp: deliver_def)
  with y obtain l where "recorded (ledger s) o1 l" by (metis exec_recorded)
  moreover have "w1 = w\<lparr>pl_outbox := db, pl_effects := s, pl_crash_after_effect_once := False\<rparr>"
    using assms b o1 y x by (simp add: deliver_def acknowledge_def)
  moreover have "outbox_row db i = Some o1" using begin_delivery_Inr [of i "pl_outbox w" o1 db] b o1 by auto
  ultimately show ?thesis using that by simp
qed

lemma retry_after_crash:
  assumes inv: "pipeline_inv sha ledger w" and run: "deliver (exec c) now i w = (res, w1)"
    and "pl_crash_after_effect_once w" and "\<not> pl_crash_after_effect_once w1"
  shows "\<exists>x w2 o2. deliver (exec c') now' i w1 = (Inr x, w2) \<and> x_duplicate_suppressed x \<and>
    pl_effects w2 = pl_effects w1 \<and> outbox_row (pl_outbox w2) i = Some o2 \<and> o_status o2 \<noteq> OUTBOX_PENDING"
proof -
  from run assms(3,4) obtain o1 l where
    o1: "outbox_row (pl_outbox w1) i = Some o1" "recorded (ledger (pl_effects w1)) o1 l"
    by (rule crash_exposes_effect)
  have "ledger_ok (ledger (pl_effects w1))"
    using pipeline_inv_steps [OF deliver_steps [OF run] inv] by (simp add: pipeline_inv_def)
  from deliver_recorded [OF this o1 assms(4)] show ?thesis by blast
qed

end

subsection \<open>The synthetic downstream keeps the contract\<close>

lemma ledger_lookup_Inr:
  assumes "ledger_lookup o1 db = Some (Inr x)"
  shows "\<exists>l. recorded (d_effect_ledger db) o1 l \<and> x = execution_of (l_effect_ref l) o1 True"
  using assms
  by (auto simp: ledger_lookup_def validate_existing_def recorded_def split: option.splits if_splits
      dest!: row_of_SomeD)

lemma ledger_lookup_recorded:
  assumes "ledger_ok (d_effect_ledger db)" and "recorded (d_effect_ledger db) o1 l"
  shows "ledger_lookup o1 db = Some (Inr (execution_of (l_effect_ref l) o1 True))"
proof -
  have "ledger_by_key db (o_idempotency_key o1) = Some l"
    using assms by (subst row_of_unique) (auto simp: ledger_ok_def recorded_def)
  with assms(2) show ?thesis by (simp add: ledger_lookup_def validate_existing_def recorded_def)
qed

lemma record_effect_Inr:
  assumes "record_effect now o1 db = (Inr x, db')"
  shows "fresh_effect (d_effect_ledger db) o1" "db' = db\<lparr>d_effect_ledger := d_effect_ledger db @ [new_ledger_row now o1]\<rparr>"
    "x = execution_of (effect_ref_of (o_idempotency_key o1)) o1 False"
  using assms by (auto simp: record_effect_def insert_ledger_def fresh_effect_def split: if_splits)

lemma record_effect_Inl: "record_effect now o1 db = (Inl e, db') \<Longrightarrow> db' = db"
  by (auto simp: record_effect_def insert_ledger_def split: if_splits)

interpretation synthetic: replaying_service d_effect_ledger execute
proof
  fix now o1 e x and s t :: "'z ledger_db_scheme" and l
  show "execute now o1 s = (Inl e, t) \<Longrightarrow> d_effect_ledger t = d_effect_ledger s"
    by (auto simp: execute_def)
  show "execute now o1 s = (Inr x, t) \<Longrightarrow>
    (\<exists>l. recorded (d_effect_ledger s) o1 l \<and> t = s \<and> x = execution_of (l_effect_ref l) o1 True) \<or>
    (\<exists>now. fresh_effect (d_effect_ledger s) o1 \<and> d_effect_ledger t = d_effect_ledger s @ [new_ledger_row now o1] \<and>
      x = execution_of (effect_ref_of (o_idempotency_key o1)) o1 False)"
    by (cases "ledger_lookup o1 s")
      (use record_effect_Inr [of now o1 s x t] in \<open>auto simp: execute_def dest: ledger_lookup_Inr\<close>)
  show "ledger_ok (d_effect_ledger s) \<Longrightarrow> recorded (d_effect_ledger s) o1 l \<Longrightarrow>
    execute now o1 s = (Inr (execution_of (l_effect_ref l) o1 True), s)"
    by (simp add: execute_def ledger_lookup_recorded)
qed

subsection \<open>Properties\<close>

abbreviation pipeline_start :: "ledger_db pipeline" where
  "pipeline_start \<equiv> \<lparr>pl_outbox = \<lparr>d_approval_records = [], d_approval_workflows = [], d_effect_outbox = []\<rparr>,
     pl_effects = \<lparr>d_effect_ledger = []\<rparr>, pl_crash_after_effect_once = False\<rparr>"

lemma pipeline_start_inv: "pipeline_inv sha d_effect_ledger pipeline_start"
  by (simp add: pipeline_inv_def outbox_inv_def db_inv_def ledger_ok_def)

text \<open>A fresh request on its way to the ledger.\<close>

lemma idempotency_key_consumed [simp]: "idempotency_key sha (consumed t r) = idempotency_key sha r"
  by (simp add: idempotency_key_def idempotency_material_def consumed_def)

lemma enqueue_approved:
  assumes r: "approval_row db i = Some r" "a_status r = APPROVED" "\<not> is_expired t1 r"
    and b: "verify_binding sha r q a args = Inr ()"
    and free: "i \<notin> o_approval_id ` set (d_effect_outbox db)"
      "idempotency_key sha r \<notin> o_idempotency_key ` set (d_effect_outbox db)"
  shows "\<exists>db'. resolve_after_review_and_enqueue sha t1 t2 i q a args db = (Inr (consumed t2 r), db') \<and>
    outbox_row db' i = Some (new_outbox_record sha (consumed t2 r) t2)"
proof -
  have id: "a_approval_id r = i" using row_of_SomeD [OF r(1)] by simp
  let ?db1 = "update_approval i APPROVED (consumed t2) db"
  have row1: "approval_row ?db1 i = Some (consumed t2 r)" using r by (simp add: update_approval_row)
  then have fk: "i \<in> a_approval_id ` set (d_approval_records ?db1)"
    by (metis option.distinct(1) row_of_None)
  have none: "outbox_row db i = None" using free(1) by (simp add: row_of_None)
  have "insert_or_validate_outbox sha (consumed t2 r) t2 ?db1 =
      (Inr (new_outbox_record sha (consumed t2 r) t2),
       ?db1\<lparr>d_effect_outbox := d_effect_outbox db @ [new_outbox_record sha (consumed t2 r) t2]\<rparr>)"
    using id fk free none
    by (simp add: insert_or_validate_outbox_def insert_or_ignore_outbox_def find_append)
  with r b id none show ?thesis
    by (simp add: resolve_after_review_and_enqueue_def transaction_def load_locked_live find_append)
qed

lemma execute_fresh:
  assumes "fresh_effect (d_effect_ledger s) o1"
  shows "execute now o1 s = (Inr (execution_of (effect_ref_of (o_idempotency_key o1)) o1 False),
    s\<lparr>d_effect_ledger := d_effect_ledger s @ [new_ledger_row now o1]\<rparr>)"
proof -
  have "ledger_by_key s (o_idempotency_key o1) = None" "ledger_by_approval s (o_approval_id o1) = None"
    using assms by (simp_all add: fresh_effect_def row_of_None)
  with assms show ?thesis
    by (simp add: execute_def ledger_lookup_def transaction_def record_effect_def insert_ledger_def fresh_effect_def)
qed

lemma deliver_fresh:
  assumes o0: "outbox_row (pl_outbox w) i = Some o0" "o_status o0 = OUTBOX_PENDING"
    and fresh: "fresh_effect (d_effect_ledger (pl_effects w)) o0" and "\<not> pl_crash_after_effect_once w"
  shows "\<exists>x w' o2. deliver (execute tx) tc i w = (Inr x, w') \<and> \<not> x_duplicate_suppressed x \<and>
    (\<exists>l. recorded (d_effect_ledger (pl_effects w')) o0 l) \<and>
    outbox_row (pl_outbox w') i = Some o2 \<and> o_status o2 = OUTBOX_COMPLETED"
proof -
  obtain o1 db where b: "begin_delivery i (pl_outbox w) = (Inr o1, db)"
    using begin_delivery_total [OF o0(1)] by blast
  have o1: "o1 = o0\<lparr>o_delivery_attempts := o_delivery_attempts o0 + 1\<rparr>" and row: "outbox_row db i = Some o1"
    using begin_delivery_Inr [OF b] o0(1) by auto
  then have same: "same_effect o0 o1" by (simp add: same_effect_def)
  with fresh have "fresh_effect (d_effect_ledger (pl_effects w)) o1"
    by (simp add: fresh_effect_def same_effect_def)
  note x = execute_fresh [OF this, of tx]
  obtain db' where "outbox_complete tc i (o_idempotency_key o1) db = (Inr (completed_row tc o1), db')"
      "outbox_row db' i = Some (completed_row tc o1)" using outbox_complete_total [OF row] by blast
  moreover have "recorded (d_effect_ledger (pl_effects w) @ [new_ledger_row tx o1]) o0 (new_ledger_row tx o1)"
    unfolding recorded_same [OF same] by (simp add: recorded_def)
  ultimately show ?thesis using b x assms(4) o0(2) o1
    by (auto simp: deliver_def acknowledge_def execution_of_def completed_row_def)
qed

lemma unused_approval_is_fresh:
  assumes inv: "pipeline_inv sha d_effect_ledger w" and r: "approval_row (pl_outbox w) i = Some r"
    and "a_status r \<noteq> CONSUMED"
    and "idempotency_key sha r \<notin> o_idempotency_key ` set (d_effect_outbox (pl_outbox w))"
    and "effect_ref_of (idempotency_key sha r) \<notin> l_effect_ref ` set (d_effect_ledger (pl_effects w))"
  shows "i \<notin> o_approval_id ` set (d_effect_outbox (pl_outbox w))"
    and "fresh_effect (d_effect_ledger (pl_effects w)) (new_outbox_record sha (consumed t r) t)"
proof -
  have oi: "outbox_inv sha (pl_outbox w)" using inv by (simp add: pipeline_inv_def)
  have no: "o_approval_id o1 \<noteq> i" if "o1 \<in> set (d_effect_outbox (pl_outbox w))" for o1
    using outbox_inv_row [OF oi that] r assms(3) by force
  then show "i \<notin> o_approval_id ` set (d_effect_outbox (pl_outbox w))" by blast
  have id: "a_approval_id r = i" using row_of_SomeD [OF r] by simp
  have used: "l_approval_id l \<noteq> i \<and> l_idempotency_key l \<noteq> idempotency_key sha r"
    if "l \<in> set (d_effect_ledger (pl_effects w))" for l
  proof -
    from inv that obtain o1 where "o1 \<in> set (d_effect_outbox (pl_outbox w))"
      "l_idempotency_key l = o_idempotency_key o1" "ledger_matches l o1" by (auto simp: pipeline_inv_def)
    with no assms(4) show ?thesis by (metis ledger_matches_def rev_image_eqI)
  qed
  have "i \<notin> l_approval_id ` set (d_effect_ledger (pl_effects w))"
    "idempotency_key sha r \<notin> l_idempotency_key ` set (d_effect_ledger (pl_effects w))"
    using used by (metis imageE)+
  with assms(5) id show "fresh_effect (d_effect_ledger (pl_effects w)) (new_outbox_record sha (consumed t r) t)"
    by (simp add: fresh_effect_def)
qed

text \<open>\<^bold>\<open>C2\<close>. No effect without approval: whatever sequence of approval calls, enqueues, deliveries by
  any number of interleaved workers, crashes and restarts is run, every row of the effect ledger
  belongs to an approval that is consumed, was approved by someone other than its requester, and
  has exactly the requester, tenant, action and arguments of the effect.\<close>

theorem effect_needs_approval:
  assumes "pipeline_inv sha d_effect_ledger w0"
    and "(pipeline_step sha d_effect_ledger execute)\<^sup>*\<^sup>* w0 w"
    and "l \<in> set (d_effect_ledger (pl_effects w))"
  shows "\<exists>r u. approval_row (pl_outbox w) (l_approval_id l) = Some r \<and> a_status r = CONSUMED \<and>
    a_approver_user_id r = Some u \<and> u \<noteq> a_requester_user_id r \<and>
    l_idempotency_key l = idempotency_key sha r \<and> l_requester_user_id l = a_requester_user_id r \<and>
    l_tenant_id l = a_tenant_id r \<and> l_action l = a_action r \<and>
    l_normalized_arguments_json l = a_normalized_arguments_json r"
  using synthetic.effect_was_approved [OF synthetic.pipeline_inv_steps [OF assms(2,1)] assms(3)] .

abbreviation demo_pipeline :: "bool \<Rightarrow> ledger_db pipeline" where
  "demo_pipeline crash \<equiv> \<lparr>pl_outbox = \<lparr>d_approval_records = [decided APPROVE ''usr_dyn_carol'' 6 demo_request],
     d_approval_workflows = [], d_effect_outbox = []\<rparr>, pl_effects = \<lparr>d_effect_ledger = []\<rparr>,
     pl_crash_after_effect_once = crash\<rparr>"

abbreviation demo_resolve ::
  "ledger_db pipeline \<Rightarrow> (aegis_error + approval_record \<times> effect_execution option) \<times> ledger_db pipeline" where
  "demo_resolve \<equiv> resolve_and_deliver id (deliver (execute 9) 10) 7 8 ''apr_t'' alice
     REQUEST_PASSWORD_RESET reset_args"

lemma demo_pipeline_inv: "pipeline_inv id d_effect_ledger (demo_pipeline b)"
  using demo_db_inv by (auto simp: pipeline_inv_def outbox_inv_def ledger_ok_def db_inv_def)

lemma demo_resolve_steps: "(pipeline_step id d_effect_ledger execute)\<^sup>*\<^sup>* w (snd (demo_resolve w))"
  by (rule synthetic.resolve_and_deliver_steps [OF surjective_pairing]) (rule synthetic.deliver_steps)

text \<open>\<^bold>\<open>C6\<close>. Delivery happens: for an approved and unexpired record and the caller it is bound to,
  one call of the pipeline consumes the approval, records the effect, acknowledges the outbox row
  and returns, provided the key and the reference derived from it are not taken by another row.\<close>

theorem approved_effect_is_delivered:
  assumes inv: "pipeline_inv sha d_effect_ledger w" and r: "approval_row (pl_outbox w) i = Some r"
    and st: "a_status r = APPROVED" "t1 < a_expires_at r"
    and bind: "same_binding r q a args" and crash: "\<not> pl_crash_after_effect_once w"
    and key: "idempotency_key sha r \<notin> o_idempotency_key ` set (d_effect_outbox (pl_outbox w))"
    and ref: "effect_ref_of (idempotency_key sha r) \<notin> l_effect_ref ` set (d_effect_ledger (pl_effects w))"
  shows "\<exists>x w' o2. resolve_and_deliver sha (deliver (execute tx) tc) t1 t2 i q a args w =
      (Inr (consumed t2 r, Some x), w') \<and> \<not> x_duplicate_suppressed x \<and>
    count_effects i (pl_effects w') = 1 \<and>
    outbox_row (pl_outbox w') i = Some o2 \<and> o_status o2 = OUTBOX_COMPLETED"
proof -
  have "bound sha r" using inv r by (simp add: pipeline_inv_def outbox_inv_def db_inv_def)
  with bind have v: "verify_binding sha r q a args = Inr ()" by (simp add: verify_binding_complete)
  have live: "\<not> is_expired t1 r" using st(2) by (simp add: is_expired_def)
  have "a_status r \<noteq> CONSUMED" using st(1) by simp
  note fresh = unused_approval_is_fresh(1) [OF inv r this key ref]
    unused_approval_is_fresh(2) [OF inv r this key ref, of t2]
  from enqueue_approved [OF r st(1) live v fresh(1) key, of t2] obtain db where
    e: "resolve_after_review_and_enqueue sha t1 t2 i q a args (pl_outbox w) = (Inr (consumed t2 r), db)"
      "outbox_row db i = Some (new_outbox_record sha (consumed t2 r) t2)" by blast
  have pend: "o_status (new_outbox_record sha (consumed t2 r) t2) = OUTBOX_PENDING"
    by (simp add: new_outbox_record_def)
  from deliver_fresh [where w = "w\<lparr>pl_outbox := db\<rparr>" and i = i and tx = tx and tc = tc, OF _ pend]
    e(2) fresh(2) crash
  obtain x w' o2 l where d: "deliver (execute tx) tc i (w\<lparr>pl_outbox := db\<rparr>) = (Inr x, w')"
    "\<not> x_duplicate_suppressed x" "recorded (d_effect_ledger (pl_effects w')) (new_outbox_record sha (consumed t2 r) t2) l"
    "outbox_row (pl_outbox w') i = Some o2" "o_status o2 = OUTBOX_COMPLETED" by auto
  have run: "resolve_and_deliver sha (deliver (execute tx) tc) t1 t2 i q a args w =
      (Inr (consumed t2 r, Some x), w')" using e(1) d(1) by (simp add: resolve_and_deliver_def)
  have "pipeline_inv sha d_effect_ledger w'"
    using synthetic.pipeline_inv_steps [OF synthetic.resolve_and_deliver_steps [OF run synthetic.deliver_steps] inv] .
  from synthetic.effects_at_most_once [OF this, of i] have "count_effects i (pl_effects w') \<le> 1"
    by (simp add: count_effects_def)
  moreover have "l_approval_id l = i" "l \<in> set (d_effect_ledger (pl_effects w'))"
    using d(3) row_of_SomeD [OF r] by (auto simp: recorded_def ledger_matches_def)
  then have "count_effects i (pl_effects w') \<noteq> 0" by (auto simp: count_effects_def filter_empty_conv)
  ultimately show ?thesis using run d(2,4,5) by auto
qed

theorem approved_effect_is_delivered_witness:
  "\<exists>x w'. demo_resolve (demo_pipeline False) =
     (Inr (consumed 8 (decided APPROVE ''usr_dyn_carol'' 6 demo_request), Some x), w') \<and>
     count_effects ''apr_t'' (pl_effects w') = 1"
proof -
  let ?r = "decided APPROVE ''usr_dyn_carol'' 6 demo_request"
  have "approval_row (pl_outbox (demo_pipeline False)) ''apr_t'' = Some ?r"
    "a_status ?r = APPROVED" "7 < a_expires_at ?r"
    "same_binding ?r alice REQUEST_PASSWORD_RESET reset_args"
    by (simp_all add: store_evals same_binding_def)
  from approved_effect_is_delivered [OF demo_pipeline_inv this, of 9 10 8] show ?thesis by auto
qed

theorem effect_needs_approval_witness:
  "\<exists>w l r u. (pipeline_step id d_effect_ledger execute)\<^sup>*\<^sup>* (demo_pipeline False) w \<and>
     l \<in> set (d_effect_ledger (pl_effects w)) \<and> approval_row (pl_outbox w) (l_approval_id l) = Some r \<and>
     a_status r = CONSUMED \<and> a_approver_user_id r = Some u \<and> u \<noteq> a_requester_user_id r"
proof -
  let ?w = "snd (demo_resolve (demo_pipeline False))"
  have "d_effect_ledger (pl_effects ?w) \<noteq> []"
    by (simp add: resolve_and_deliver_def deliver_def acknowledge_def resolve_after_review_and_enqueue_def
        transaction_def load_locked_def store_evals update_approval_def update_where_def
        insert_or_validate_outbox_def insert_or_ignore_outbox_def new_outbox_record_def outbox_bound_def
        begin_delivery_def asserted_def outbox_get_def execute_def ledger_lookup_def record_effect_def
        insert_ledger_def outbox_complete_def idempotency_key_def idempotency_material_def)
  then obtain l where l: "l \<in> set (d_effect_ledger (pl_effects ?w))" by (meson list.set_sel(1))
  from effect_needs_approval [OF demo_pipeline_inv demo_resolve_steps l] l demo_resolve_steps show ?thesis
    by blast
qed

text \<open>\<^bold>\<open>C3\<close>. Effects happen at most once: after any sequence of steps from a consistent state the
  ledger counts at most one effect for an approval, and no row that was there is lost or changed.\<close>

theorem effect_at_most_once:
  assumes "pipeline_inv sha d_effect_ledger w0"
    and "(pipeline_step sha d_effect_ledger execute)\<^sup>*\<^sup>* w0 w"
  shows "count_effects i (pl_effects w) \<le> 1 \<and>
    (\<exists>ls. d_effect_ledger (pl_effects w) = d_effect_ledger (pl_effects w0) @ ls)"
  using synthetic.effects_at_most_once [OF synthetic.pipeline_inv_steps [OF assms(2,1)], of i]
    synthetic.ledger_grows [OF assms(2)] by (simp add: count_effects_def)

theorem effect_at_most_once_witness:
  "count_effects ''apr_t'' (pl_effects (snd (demo_resolve (snd (demo_resolve (demo_pipeline True)))))) \<le> 1"
  using effect_at_most_once [OF demo_pipeline_inv rtranclp_trans [OF demo_resolve_steps demo_resolve_steps]]
  by blast

text \<open>Crash recovery: when the worker crashes after the effect and before the
  acknowledgement, the next delivery of the same row, at any later time, returns the recorded
  effect as a suppressed duplicate, records nothing and leaves the outbox row settled.\<close>

theorem retry_after_worker_crash:
  assumes "pipeline_inv sha d_effect_ledger w" and "deliver (execute tx) tc i w = (Inl SyntheticWorkerCrash, w1)"
    and "pl_crash_after_effect_once w" and "\<not> pl_crash_after_effect_once w1"
  shows "\<exists>x w2 o2. deliver (execute tx') tc' i w1 = (Inr x, w2) \<and> x_duplicate_suppressed x \<and>
    pl_effects w2 = pl_effects w1 \<and> outbox_row (pl_outbox w2) i = Some o2 \<and> o_status o2 \<noteq> OUTBOX_PENDING"
  using assms by (rule synthetic.retry_after_crash)

theorem retry_after_worker_crash_witness:
  "\<exists>w1 x w2. deliver (execute 9) 10 ''apr_t''
       (demo_pipeline True\<lparr>pl_outbox := snd (resolve_after_review_and_enqueue id 7 8 ''apr_t'' alice
          REQUEST_PASSWORD_RESET reset_args (pl_outbox (demo_pipeline True)))\<rparr>) = (Inl SyntheticWorkerCrash, w1) \<and>
     deliver (execute 20) 21 ''apr_t'' w1 = (Inr x, w2) \<and> x_duplicate_suppressed x"
proof -
  let ?e = "resolve_after_review_and_enqueue id 7 8 ''apr_t'' alice REQUEST_PASSWORD_RESET reset_args
    (pl_outbox (demo_pipeline True))"
  let ?w = "demo_pipeline True\<lparr>pl_outbox := snd ?e\<rparr>"
  have inv: "pipeline_inv id d_effect_ledger ?w"
    by (rule synthetic.pipeline_inv_step [OF pipeline_step.enqueue [OF surjective_pairing] demo_pipeline_inv])
  obtain w1 where w1: "deliver (execute 9) 10 ''apr_t'' ?w = (Inl SyntheticWorkerCrash, w1)"
    "\<not> pl_crash_after_effect_once w1"
    by (simp add: deliver_def acknowledge_def resolve_after_review_and_enqueue_def
        transaction_def load_locked_def store_evals update_approval_def update_where_def
        insert_or_validate_outbox_def insert_or_ignore_outbox_def new_outbox_record_def outbox_bound_def
        begin_delivery_def asserted_def outbox_get_def execute_def ledger_lookup_def record_effect_def
        insert_ledger_def idempotency_key_def idempotency_material_def)
  from retry_after_worker_crash [OF inv w1(1) _ w1(2), of 20 21] w1(1) show ?thesis by auto
qed

end
