(* ===== verification/Revalidation.thy ===== *)
theory Revalidation
  imports Effect_Outbox
begin

section \<open>Effects: authorization at execution time\<close>

text \<open>
  \<open>aegis/effects/revalidation.py\<close>. The database of the effect service also holds the current
  authorization state (subjects, resources, tenant policies) and the denials, so that the decision
  and the ledger entry are one transaction. A denial is committed and raised after the block.
  Columns that hold \<^verbatim>\<open>int(flag)\<close> hold the flag; the roles column holds JSON text.
\<close>

subsection \<open>Authorization state\<close>

record subject_row =
  sb_user_id :: string
  sb_tenant_id :: string
  sb_active :: bool
  sb_roles_json :: string

record resource_row =
  rs_tenant_id :: string
  rs_resource :: string
  rs_enabled :: bool
  rs_owner_user_id :: "string option"
  rs_required_role :: "string option"

record tenant_policy_row =
  tp_tenant_id :: string
  tp_password_reset_enabled :: bool

record 'r denial_row =
  dn_approval_id :: string
  dn_idempotency_key :: string
  dn_reason :: 'r
  dn_denied_at :: int

record authz_db = ledger_db +
  d_subjects :: "subject_row list"
  d_resources :: "resource_row list"
  d_tenant_policies :: "tenant_policy_row list"
  d_execution_denials :: "execution_authorization_reason denial_row list"

abbreviation subject_of :: "'z authz_db_scheme \<Rightarrow> string \<Rightarrow> subject_row option" where
  "subject_of db u \<equiv> row_of sb_user_id u (d_subjects db)"

definition resource_key :: "resource_row \<Rightarrow> string \<times> string" where
  "resource_key r = (rs_tenant_id r, rs_resource r)"

definition compact_roles_json :: "role set \<Rightarrow> string" where
  "compact_roles_json roles = json_dumps True (JList (map JStr (sorted_list_of_set (role_value ` roles))))"

definition ensure_subject ::
  "string \<Rightarrow> string \<Rightarrow> bool \<Rightarrow> role set \<Rightarrow> 'z authz_db_scheme \<Rightarrow> 'z authz_db_scheme" where
  "ensure_subject user_id tenant_id active roles db =
     db\<lparr>d_subjects := insert_or_ignore sb_user_id
       \<lparr>sb_user_id = user_id, sb_tenant_id = tenant_id, sb_active = active,
        sb_roles_json = compact_roles_json roles\<rparr> (d_subjects db)\<rparr>"

definition set_subject ::
  "string \<Rightarrow> string \<Rightarrow> bool \<Rightarrow> role set \<Rightarrow> 'z authz_db_scheme \<Rightarrow> 'z authz_db_scheme" where
  "set_subject user_id tenant_id active roles db =
     db\<lparr>d_subjects := upsert sb_user_id
       \<lparr>sb_user_id = user_id, sb_tenant_id = tenant_id, sb_active = active,
        sb_roles_json = compact_roles_json roles\<rparr> (d_subjects db)\<rparr>"

text \<open>\<^verbatim>\<open>UPDATE ... WHERE user_id = ?\<close>, refused with \<open>KeyError\<close> unless one row is updated.\<close>

definition update_subject ::
  "string \<Rightarrow> (subject_row \<Rightarrow> subject_row) \<Rightarrow> ('z authz_db_scheme, aegis_error, unit) operation" where
  "update_subject user_id f = transaction (\<lambda>db.
     (if length (filter (\<lambda>r. sb_user_id r = user_id) (d_subjects db)) \<noteq> 1
        then Inl (KeyError ''synthetic subject not found'') else Inr (),
      db\<lparr>d_subjects := update_where (\<lambda>r. sb_user_id r = user_id) f (d_subjects db)\<rparr>))"

definition set_subject_active ::
  "string \<Rightarrow> bool \<Rightarrow> ('z authz_db_scheme, aegis_error, unit) operation" where
  "set_subject_active user_id active = update_subject user_id (\<lambda>r. r\<lparr>sb_active := active\<rparr>)"

definition set_subject_tenant ::
  "string \<Rightarrow> string \<Rightarrow> ('z authz_db_scheme, aegis_error, unit) operation" where
  "set_subject_tenant user_id tenant_id = update_subject user_id (\<lambda>r. r\<lparr>sb_tenant_id := tenant_id\<rparr>)"

definition set_subject_roles ::
  "string \<Rightarrow> role set \<Rightarrow> ('z authz_db_scheme, aegis_error, unit) operation" where
  "set_subject_roles user_id roles =
     update_subject user_id (\<lambda>r. r\<lparr>sb_roles_json := compact_roles_json roles\<rparr>)"

definition ensure_resource ::
  "string \<Rightarrow> string \<Rightarrow> bool \<Rightarrow> string option \<Rightarrow> role option \<Rightarrow> 'z authz_db_scheme \<Rightarrow> 'z authz_db_scheme" where
  "ensure_resource tenant_id resource enabled owner_user_id required_role db =
     db\<lparr>d_resources := insert_or_ignore resource_key
       \<lparr>rs_tenant_id = tenant_id, rs_resource = resource, rs_enabled = enabled,
        rs_owner_user_id = owner_user_id, rs_required_role = map_option role_value required_role\<rparr>
       (d_resources db)\<rparr>"

definition set_resource ::
  "string \<Rightarrow> string \<Rightarrow> bool \<Rightarrow> string option \<Rightarrow> role option \<Rightarrow> 'z authz_db_scheme \<Rightarrow> 'z authz_db_scheme" where
  "set_resource tenant_id resource enabled owner_user_id required_role db =
     db\<lparr>d_resources := upsert resource_key
       \<lparr>rs_tenant_id = tenant_id, rs_resource = resource, rs_enabled = enabled,
        rs_owner_user_id = owner_user_id, rs_required_role = map_option role_value required_role\<rparr>
       (d_resources db)\<rparr>"

definition update_resource ::
  "string \<Rightarrow> string \<Rightarrow> (resource_row \<Rightarrow> resource_row) \<Rightarrow> ('z authz_db_scheme, aegis_error, unit) operation" where
  "update_resource tenant_id resource f = transaction (\<lambda>db.
     (if length (filter (\<lambda>r. resource_key r = (tenant_id, resource)) (d_resources db)) \<noteq> 1
        then Inl (KeyError ''synthetic resource not found'') else Inr (),
      db\<lparr>d_resources := update_where (\<lambda>r. resource_key r = (tenant_id, resource)) f (d_resources db)\<rparr>))"

definition set_resource_enabled ::
  "string \<Rightarrow> string \<Rightarrow> bool \<Rightarrow> ('z authz_db_scheme, aegis_error, unit) operation" where
  "set_resource_enabled tenant_id resource enabled =
     update_resource tenant_id resource (\<lambda>r. r\<lparr>rs_enabled := enabled\<rparr>)"

definition set_resource_owner ::
  "string \<Rightarrow> string \<Rightarrow> string option \<Rightarrow> ('z authz_db_scheme, aegis_error, unit) operation" where
  "set_resource_owner tenant_id resource owner_user_id =
     update_resource tenant_id resource (\<lambda>r. r\<lparr>rs_owner_user_id := owner_user_id\<rparr>)"

definition set_resource_required_role ::
  "string \<Rightarrow> string \<Rightarrow> role option \<Rightarrow> ('z authz_db_scheme, aegis_error, unit) operation" where
  "set_resource_required_role tenant_id resource required_role =
     update_resource tenant_id resource (\<lambda>r. r\<lparr>rs_required_role := map_option role_value required_role\<rparr>)"

definition ensure_password_reset_policy ::
  "string \<Rightarrow> bool \<Rightarrow> 'z authz_db_scheme \<Rightarrow> 'z authz_db_scheme" where
  "ensure_password_reset_policy tenant_id enabled db =
     db\<lparr>d_tenant_policies := insert_or_ignore tp_tenant_id
       \<lparr>tp_tenant_id = tenant_id, tp_password_reset_enabled = enabled\<rparr> (d_tenant_policies db)\<rparr>"

definition set_password_reset_enabled ::
  "string \<Rightarrow> bool \<Rightarrow> 'z authz_db_scheme \<Rightarrow> 'z authz_db_scheme" where
  "set_password_reset_enabled tenant_id enabled db =
     db\<lparr>d_tenant_policies := upsert tp_tenant_id
       \<lparr>tp_tenant_id = tenant_id, tp_password_reset_enabled = enabled\<rparr> (d_tenant_policies db)\<rparr>"

subsection \<open>The decision\<close>

fun str_of_json :: "json \<Rightarrow> string option" where
  "str_of_json (JStr s) = Some s"
| "str_of_json _ = None"

definition decode_roles :: "string \<Rightarrow> string set" where
  "decode_roles raw = (case json_loads raw of
     Some (JList xs) \<Rightarrow>
       if list_all (\<lambda>x. str_of_json x \<noteq> None) xs then set (List.map_filter str_of_json xs) else {}
   | _ \<Rightarrow> {})"

definition bound_arguments :: "outbox_record \<Rightarrow> (string \<times> json) list option" where
  "bound_arguments record = (case json_loads (o_normalized_arguments_json record) of
     Some (JObj kvs) \<Rightarrow> Some kvs
   | _ \<Rightarrow> None)"

definition access_reason ::
  "'z authz_db_scheme \<Rightarrow> outbox_record \<Rightarrow> string set \<Rightarrow> (string \<times> json) list
     \<Rightarrow> execution_authorization_reason" where
  "access_reason db record roles arguments =
     (case Option.bind (map_of arguments ''resource'') str_of_json of
        None \<Rightarrow> INVALID_BOUND_ARGUMENTS
      | Some resource \<Rightarrow>
          if resource = [] then INVALID_BOUND_ARGUMENTS
          else
            (case row_of resource_key (o_tenant_id record, resource) (d_resources db) of
               None \<Rightarrow> RESOURCE_NOT_FOUND
             | Some row \<Rightarrow>
                 if \<not> rs_enabled row then RESOURCE_DISABLED
                 else if rs_owner_user_id row \<noteq> None \<and> rs_owner_user_id row \<noteq> Some (o_requester_user_id record)
                   then RESOURCE_OWNER_MISMATCH
                 else (case rs_required_role row of
                         None \<Rightarrow> ALLOWED
                       | Some required \<Rightarrow> if required \<notin> roles then REQUIRED_ROLE_MISSING else ALLOWED)))"

definition authorization_reason ::
  "'z authz_db_scheme \<Rightarrow> outbox_record \<Rightarrow> execution_authorization_reason" where
  "authorization_reason db record = (case subject_of db (o_requester_user_id record) of
     None \<Rightarrow> SUBJECT_NOT_FOUND
   | Some subject \<Rightarrow>
       if \<not> sb_active subject then SUBJECT_INACTIVE
       else if sb_tenant_id subject \<noteq> o_tenant_id record then TENANT_MEMBERSHIP_CHANGED
       else
         (let roles = decode_roles (sb_roles_json subject) in
          case bound_arguments record of
            None \<Rightarrow> INVALID_BOUND_ARGUMENTS
          | Some arguments \<Rightarrow>
              (case o_action record of
                 REQUEST_ACCESS \<Rightarrow> access_reason db record roles arguments
               | REQUEST_PASSWORD_RESET \<Rightarrow>
                   (case row_of tp_tenant_id (o_tenant_id record) (d_tenant_policies db) of
                      None \<Rightarrow> PASSWORD_RESET_DISABLED
                    | Some policy \<Rightarrow>
                        if \<not> tp_password_reset_enabled policy then PASSWORD_RESET_DISABLED else ALLOWED))))"

subsection \<open>The effect service with a fence\<close>

text \<open>
  The three fenced services have the same transaction: answer from the ledger, else repeat a
  stored denial, else decide; a denial is stored, anything else is recorded as an effect. They
  differ in the table of denials (\<open>get_denials\<close>, \<open>put_denials\<close>), in the decision (\<open>failure\<close>) and in
  the exception. The denial leaves the block normally and is raised after the commit.
\<close>

definition raise_denial ::
  "('r \<Rightarrow> aegis_error) \<Rightarrow> ('s, aegis_error, 'r + 'a) operation \<Rightarrow> ('s, aegis_error, 'a) operation" where
  "raise_denial err f s = (case f s of
     (Inl e, t) \<Rightarrow> (Inl e, t)
   | (Inr (Inl reason), t) \<Rightarrow> (Inl (err reason), t)
   | (Inr (Inr a), t) \<Rightarrow> (Inr a, t))"

definition insert_denial ::
  "('s \<Rightarrow> 'r denial_row list) \<Rightarrow> ('r denial_row list \<Rightarrow> 's \<Rightarrow> 's) \<Rightarrow> 'r denial_row
     \<Rightarrow> ('s, aegis_error, 'r + 'a) operation" where
  "insert_denial get_denials put_denials row db =
     (if dn_approval_id row \<in> dn_approval_id ` set (get_denials db)
        \<or> dn_idempotency_key row \<in> dn_idempotency_key ` set (get_denials db)
      then (Inl IntegrityError, db)
      else (Inr (Inl (dn_reason row)), put_denials (get_denials db @ [row]) db))"

definition fenced_execute ::
  "('z ledger_db_scheme \<Rightarrow> 'r denial_row list) \<Rightarrow>
   ('r denial_row list \<Rightarrow> 'z ledger_db_scheme \<Rightarrow> 'z ledger_db_scheme) \<Rightarrow>
   ('z ledger_db_scheme \<Rightarrow> outbox_record \<Rightarrow> 'r option) \<Rightarrow> ('r \<Rightarrow> aegis_error) \<Rightarrow> string \<Rightarrow> int \<Rightarrow> outbox_record
     \<Rightarrow> ('z ledger_db_scheme, aegis_error, effect_execution) operation" where
  "fenced_execute get_denials put_denials failure err mismatch now record =
     raise_denial err (transaction (\<lambda>db.
       case ledger_lookup record db of
         Some (Inl e) \<Rightarrow> (Inl e, db)
       | Some (Inr x) \<Rightarrow> (Inr (Inr x), db)
       | None \<Rightarrow>
           (case row_of dn_approval_id (o_approval_id record) (get_denials db) of
              Some denial \<Rightarrow>
                if dn_idempotency_key denial \<noteq> o_idempotency_key record
                  then (Inl (EffectBindingError mismatch), db)
                else (Inr (Inl (dn_reason denial)), db)
            | None \<Rightarrow>
                (case failure db record of
                   Some reason \<Rightarrow>
                     insert_denial get_denials put_denials
                       \<lparr>dn_approval_id = o_approval_id record, dn_idempotency_key = o_idempotency_key record,
                        dn_reason = reason, dn_denied_at = now\<rparr> db
                 | None \<Rightarrow>
                     (case record_effect now record db of
                        (Inl e, db1) \<Rightarrow> (Inl e, db1)
                      | (Inr x, db1) \<Rightarrow> (Inr (Inr x), db1))))))"

definition revalidation_failure ::
  "'z authz_db_scheme \<Rightarrow> outbox_record \<Rightarrow> execution_authorization_reason option" where
  "revalidation_failure db record =
     (let reason = authorization_reason db record in if reason \<noteq> ALLOWED then Some reason else None)"

definition revalidating_execute ::
  "int \<Rightarrow> outbox_record \<Rightarrow> ('z authz_db_scheme, aegis_error, effect_execution) operation" where
  "revalidating_execute =
     fenced_execute d_execution_denials (\<lambda>rows db. db\<lparr>d_execution_denials := rows\<rparr>) revalidation_failure
       ExecutionAuthorizationError ''authorization denial binding mismatch''"

subsection \<open>Cancelling, and the worker\<close>

definition outbox_cancel ::
  "int \<Rightarrow> string \<Rightarrow> string \<Rightarrow> (outbox_db, aegis_error, outbox_record) operation" where
  "outbox_cancel now approval_id key db =
     (case transaction (\<lambda>db.
         case outbox_get approval_id db of
           Inl e \<Rightarrow> (Inl e, db)
         | Inr current \<Rightarrow>
             if o_idempotency_key current \<noteq> key
               then (Inl (EffectBindingError ''effect outbox idempotency key mismatch''), db)
             else if o_status current = OUTBOX_COMPLETED then (Inr (Some current), db)
             else if o_status current \<noteq> OUTBOX_ROW_CANCELLED then
               (Inr None, db\<lparr>d_effect_outbox := update_where
                  (\<lambda>r. o_approval_id r = approval_id \<and> o_status r \<noteq> OUTBOX_COMPLETED)
                  (\<lambda>r. r\<lparr>o_status := OUTBOX_ROW_CANCELLED, o_completed_at := Some now\<rparr>) (d_effect_outbox db)\<rparr>)
             else (Inr None, db)) db of
        (Inl e, db1) \<Rightarrow> (Inl e, db1)
      | (Inr (Some current), db1) \<Rightarrow> (Inr current, db1)
      | (Inr None, db1) \<Rightarrow> (outbox_get approval_id db1, db1))"

text \<open>
  The workers of the fenced services: refuse a cancelled row, begin the delivery, obtain the
  evidence (none here, a cached, signed or anchored decision later), execute, cancel the row when
  the fence refuses (\<open>fence_error\<close> tells its exceptions) and raise that exception again, otherwise
  crash or acknowledge. An exception of \<open>cancel\<close> replaces the one being handled.
\<close>

definition fenced_deliver ::
  "aegis_error \<Rightarrow> (aegis_error \<Rightarrow> bool) \<Rightarrow> (outbox_record \<Rightarrow> 's \<Rightarrow> aegis_error + 'd) \<Rightarrow>
   ('d \<Rightarrow> outbox_record \<Rightarrow> ('s, aegis_error, effect_execution) operation) \<Rightarrow> int \<Rightarrow> string
     \<Rightarrow> ('s pipeline, aegis_error, effect_execution) operation" where
  "fenced_deliver cancelled fence_error evidence exec now approval_id w =
     (case outbox_get approval_id (pl_outbox w) of
        Inl e \<Rightarrow> (Inl e, w)
      | Inr current \<Rightarrow>
          if o_status current = OUTBOX_ROW_CANCELLED then (Inl cancelled, w)
          else
            (case begin_delivery approval_id (pl_outbox w) of
               (Inl e, db) \<Rightarrow> (Inl e, w\<lparr>pl_outbox := db\<rparr>)
             | (Inr record, db) \<Rightarrow>
                 (case evidence record (pl_effects w) of
                    Inl e \<Rightarrow> (Inl e, w\<lparr>pl_outbox := db\<rparr>)
                  | Inr decision \<Rightarrow>
                      (case exec decision record (pl_effects w) of
                         (Inr execution, s) \<Rightarrow>
                           acknowledge now approval_id record execution (w\<lparr>pl_outbox := db, pl_effects := s\<rparr>)
                       | (Inl e, s) \<Rightarrow>
                           if \<not> fence_error e then (Inl e, w\<lparr>pl_outbox := db, pl_effects := s\<rparr>)
                           else
                             (case outbox_cancel now approval_id (o_idempotency_key record) db of
                                (Inl e', db1) \<Rightarrow> (Inl e', w\<lparr>pl_outbox := db1, pl_effects := s\<rparr>)
                              | (Inr _, db1) \<Rightarrow> (Inl e, w\<lparr>pl_outbox := db1, pl_effects := s\<rparr>))))))"

definition is_execution_authorization_error :: "aegis_error \<Rightarrow> bool" where
  "is_execution_authorization_error e = (case e of ExecutionAuthorizationError _ \<Rightarrow> True | _ \<Rightarrow> False)"

definition revalidating_deliver ::
  "int \<Rightarrow> int \<Rightarrow> string \<Rightarrow> ('z authz_db_scheme pipeline, aegis_error, effect_execution) operation" where
  "revalidating_deliver executed now =
     fenced_deliver (ExecutionAuthorizationError execution_authorization_reason.OUTBOX_CANCELLED)
       is_execution_authorization_error (\<lambda>record s. Inr ()) (\<lambda>_. revalidating_execute executed) now"

subsection \<open>What every fence guarantees\<close>

lemma ledger_lookup_cong: "d_effect_ledger s = d_effect_ledger t \<Longrightarrow> ledger_lookup o1 s = ledger_lookup o1 t"
  by (simp add: ledger_lookup_def split: option.split)

inductive fence_step ::
  "('s \<Rightarrow> ledger_row list) \<Rightarrow> ('s \<Rightarrow> 'r denial_row list) \<Rightarrow>
   ('c \<Rightarrow> outbox_record \<Rightarrow> ('s, aegis_error, effect_execution) operation) \<Rightarrow> 's \<Rightarrow> 's \<Rightarrow> bool"
  for ledger denials exec where
  execute: "exec c o1 s = (res, t) \<Longrightarrow> fence_step ledger denials exec s t"
| other: "ledger t = ledger s \<Longrightarrow> denials t = denials s \<Longrightarrow> fence_step ledger denials exec s t"

definition denied_apart :: "ledger_row list \<Rightarrow> 'r denial_row list \<Rightarrow> bool" where
  "denied_apart ledger denials \<longleftrightarrow>
     (\<forall>d \<in> set denials. \<forall>l \<in> set ledger. dn_approval_id d \<noteq> l_approval_id l)"

lemma raise_denial_Inr [simp]: "raise_denial err f s = (Inr a, t) \<longleftrightarrow> f s = (Inr (Inr a), t)"
  by (auto simp: raise_denial_def split: prod.splits sum.splits)

lemma raise_denial_Inl:
  "raise_denial err f s = (Inl e, t) \<longleftrightarrow> f s = (Inl e, t) \<or> (\<exists>r. e = err r \<and> f s = (Inr (Inl r), t))"
  by (auto simp: raise_denial_def split: prod.splits sum.splits)

text \<open>
  \<open>time\<close> and \<open>failure\<close> read the clock and the evidence that one call of the service is given.
\<close>

locale fenced_effects =
  fixes get_denials :: "'z ledger_db_scheme \<Rightarrow> 'r denial_row list"
    and put_denials :: "'r denial_row list \<Rightarrow> 'z ledger_db_scheme \<Rightarrow> 'z ledger_db_scheme"
    and failure :: "'c \<Rightarrow> 'z ledger_db_scheme \<Rightarrow> outbox_record \<Rightarrow> 'r option"
    and err :: "'r \<Rightarrow> aegis_error"
    and mismatch :: string
    and time :: "'c \<Rightarrow> int"
    and fexec :: "'c \<Rightarrow> outbox_record \<Rightarrow> ('z ledger_db_scheme, aegis_error, effect_execution) operation"
  assumes fexec_def: "fexec c = fenced_execute get_denials put_denials (failure c) err mismatch (time c)"
    and get_put [simp]: "get_denials (put_denials rows db) = rows"
    and ledger_put [simp]: "d_effect_ledger (put_denials rows db) = d_effect_ledger db"
    and get_ledger [simp]: "get_denials (db\<lparr>d_effect_ledger := ls\<rparr>) = get_denials db"
    and err_distinct [simp]: "err r \<noteq> EffectBindingError m" "err r \<noteq> IntegrityError"
begin

lemma fexec_Inr:
  assumes "fexec c o1 db = (Inr x, db')"
  shows "(\<exists>l. recorded (d_effect_ledger db) o1 l \<and> db' = db \<and> x = execution_of (l_effect_ref l) o1 True) \<or>
    (failure c db o1 = None \<and> o_approval_id o1 \<notin> dn_approval_id ` set (get_denials db) \<and>
     fresh_effect (d_effect_ledger db) o1 \<and>
     db' = db\<lparr>d_effect_ledger := d_effect_ledger db @ [new_ledger_row (time c) o1]\<rparr> \<and>
     x = execution_of (effect_ref_of (o_idempotency_key o1)) o1 False)"
proof (cases "ledger_lookup o1 db")
  case (Some y)
  with assms ledger_lookup_Inr [of o1 db x] show ?thesis
    by (cases y) (auto simp: fexec_def fenced_execute_def)
next
  case None
  with assms have n: "row_of dn_approval_id (o_approval_id o1) (get_denials db) = None"
    by (auto simp: fexec_def fenced_execute_def insert_denial_def split: option.splits if_splits)
  with None assms have f: "failure c db o1 = None"
    by (auto simp: fexec_def fenced_execute_def insert_denial_def split: option.splits if_splits)
  with None n assms have "record_effect (time c) o1 db = (Inr x, db')"
    by (auto simp: fexec_def fenced_execute_def split: prod.splits sum.splits)
  with f n show ?thesis using record_effect_Inr by (auto simp: row_of_None)
qed

lemma fexec_Inl:
  assumes "fexec c o1 db = (Inl e, db')"
  shows "db' = db \<or> (\<exists>row. e = err (dn_reason row) \<and> db' = put_denials (get_denials db @ [row]) db \<and>
    dn_approval_id row = o_approval_id o1 \<and> dn_idempotency_key row = o_idempotency_key o1 \<and>
    failure c db o1 = Some (dn_reason row) \<and> o_approval_id o1 \<notin> l_approval_id ` set (d_effect_ledger db))"
proof (cases "ledger_lookup o1 db")
  case (Some y)
  with assms show ?thesis by (cases y) (auto simp: fexec_def fenced_execute_def raise_denial_Inl)
next
  case None
  then have ni: "o_approval_id o1 \<notin> l_approval_id ` set (d_effect_ledger db)"
    by (simp add: ledger_lookup_def row_of_None split: option.splits)
  show ?thesis
  proof (cases "row_of dn_approval_id (o_approval_id o1) (get_denials db)")
    case (Some d)
    with None assms show ?thesis by (auto simp: fexec_def fenced_execute_def raise_denial_Inl split: if_splits)
  next
    case n: None
    show ?thesis
    proof (cases "failure c db o1")
      case None
      with \<open>ledger_lookup o1 db = None\<close> n assms show ?thesis
        by (auto simp: fexec_def fenced_execute_def raise_denial_Inl split: prod.splits sum.splits)
    next
      case (Some r)
      let ?row = "\<lparr>dn_approval_id = o_approval_id o1, dn_idempotency_key = o_idempotency_key o1,
        dn_reason = r, dn_denied_at = time c\<rparr>"
      from Some \<open>ledger_lookup o1 db = None\<close> n assms
      have "db' = db \<or> e = err r \<and> db' = put_denials (get_denials db @ [?row]) db"
        by (auto simp: fexec_def fenced_execute_def raise_denial_Inl insert_denial_def split: if_splits)
      with Some ni show ?thesis by (auto intro!: exI [of _ ?row])
    qed
  qed
qed

lemma record_effect_error: "record_effect now o1 db = (Inl e, db') \<Longrightarrow> e = IntegrityError"
  by (auto simp: record_effect_def insert_ledger_def split: if_splits)

lemma ledger_lookup_error: "ledger_lookup o1 db = Some (Inl e) \<Longrightarrow> \<exists>m. e = EffectBindingError m"
  by (auto simp: ledger_lookup_def validate_existing_def split: option.splits if_splits)

lemma fexec_denied:
  assumes "fexec c o1 db = (Inl (err r), db')"
  shows "\<exists>d \<in> set (get_denials db'). dn_approval_id d = o_approval_id o1 \<and>
    dn_idempotency_key d = o_idempotency_key o1 \<and> err (dn_reason d) = err r"
proof (cases "ledger_lookup o1 db")
  case (Some y)
  with assms ledger_lookup_error [of o1 db "err r"] show ?thesis
    by (cases y) (auto simp: fexec_def fenced_execute_def raise_denial_Inl)
next
  case None
  then consider (stored) d where "row_of dn_approval_id (o_approval_id o1) (get_denials db) = Some d"
    | (fresh) "row_of dn_approval_id (o_approval_id o1) (get_denials db) = None" by fastforce
  then show ?thesis
  proof cases
    case stored
    with None assms row_of_SomeD [OF stored] err_distinct(1) [symmetric] show ?thesis
      by (auto simp: fexec_def fenced_execute_def raise_denial_Inl split: if_splits)
  next
    case fresh
    with None assms record_effect_error [of "time c" o1 db "err r"] err_distinct(2) [symmetric] show ?thesis
      by (auto simp: fexec_def fenced_execute_def raise_denial_Inl insert_denial_def
          split: option.splits if_splits prod.splits sum.splits)
  qed
qed

text \<open>A call that finds neither a ledger row nor a denial and fails the decision stores the denial.\<close>

lemma fexec_denies:
  assumes "ledger_lookup o1 db = None" and "failure c db o1 = Some r"
    and "o_approval_id o1 \<notin> dn_approval_id ` set (get_denials db)"
    and "o_idempotency_key o1 \<notin> dn_idempotency_key ` set (get_denials db)"
  shows "fst (fexec c o1 db) = Inl (err r)"
proof -
  have "row_of dn_approval_id (o_approval_id o1) (get_denials db) = None" using assms(3) by (simp add: row_of_None)
  with assms show ?thesis
    by (simp add: fexec_def fenced_execute_def raise_denial_def transaction_def insert_denial_def)
qed

lemma fexec_replay:
  assumes "ledger_ok (d_effect_ledger db)" and "recorded (d_effect_ledger db) o1 l"
  shows "fexec c o1 db = (Inr (execution_of (l_effect_ref l) o1 True), db)"
  by (simp add: fexec_def fenced_execute_def ledger_lookup_recorded [OF assms])

lemma fexec_apart:
  assumes "fexec c o1 db = (res, db')" and "denied_apart (d_effect_ledger db) (get_denials db)"
  shows "denied_apart (d_effect_ledger db') (get_denials db') \<and> (\<exists>ds. get_denials db' = get_denials db @ ds)"
proof (cases res)
  case (Inl e)
  with assms fexec_Inl [of c o1 db e db'] show ?thesis by (auto simp: denied_apart_def image_iff) metis
next
  case (Inr x)
  with assms fexec_Inr [of c o1 db x db'] show ?thesis by (auto simp: denied_apart_def image_iff) metis
qed

lemma fence_steps_apart:
  "(fence_step d_effect_ledger get_denials fexec)\<^sup>*\<^sup>* s t \<Longrightarrow> denied_apart (d_effect_ledger s) (get_denials s) \<Longrightarrow>
     denied_apart (d_effect_ledger t) (get_denials t) \<and> set (get_denials s) \<subseteq> set (get_denials t)"
proof (induction rule: rtranclp_induct)
  case (step t u)
  then have t: "denied_apart (d_effect_ledger t) (get_denials t)" "set (get_denials s) \<subseteq> set (get_denials t)"
    by auto
  from step.hyps(2) show ?case
  proof (cases rule: fence_step.cases)
    case (execute c o1 res)
    with t fexec_apart [OF execute] show ?thesis by auto
  qed (use t in auto)
qed simp

lemma fexec_after_denial:
  assumes "denied_apart (d_effect_ledger db) (get_denials db)" and "d \<in> set (get_denials db)"
    and "dn_approval_id d = o_approval_id o1"
  shows "\<exists>e. fst (fexec c o1 db) = Inl e"
proof (rule ccontr)
  assume "\<not> ?thesis"
  then obtain x db' where "fexec c o1 db = (Inr x, db')" by (cases "fexec c o1 db"; cases "fst (fexec c o1 db)") auto
  from fexec_Inr [OF this] assms show False
    by (auto simp: denied_apart_def recorded_def ledger_matches_def image_iff) metis
qed

text \<open>After a denial the approval never has an effect, whatever is called in between.\<close>

lemma denied_forever:
  assumes "denied_apart (d_effect_ledger s) (get_denials s)" and "d \<in> set (get_denials s)"
    and "(fence_step d_effect_ledger get_denials fexec)\<^sup>*\<^sup>* s t"
  shows "dn_approval_id d \<notin> l_approval_id ` set (d_effect_ledger t)"
  using fence_steps_apart [OF assms(3,1)] assms(2) by (auto simp: denied_apart_def image_iff)

end

sublocale fenced_effects \<subseteq> replaying_service d_effect_ledger fexec
proof
  fix c o1 s e t x l
  show "fexec c o1 s = (Inl e, t) \<Longrightarrow> d_effect_ledger t = d_effect_ledger s"
    using fexec_Inl [of c o1 s e t] by auto
  show "fexec c o1 s = (Inr x, t) \<Longrightarrow>
    (\<exists>l. recorded (d_effect_ledger s) o1 l \<and> t = s \<and> x = execution_of (l_effect_ref l) o1 True) \<or>
    (\<exists>now. fresh_effect (d_effect_ledger s) o1 \<and> d_effect_ledger t = d_effect_ledger s @ [new_ledger_row now o1] \<and>
      x = execution_of (effect_ref_of (o_idempotency_key o1)) o1 False)"
    using fexec_Inr [of c o1 s x t] by auto
  show "ledger_ok (d_effect_ledger s) \<Longrightarrow> recorded (d_effect_ledger s) o1 l \<Longrightarrow>
    fexec c o1 s = (Inr (execution_of (l_effect_ref l) o1 True), s)"
    by (rule fexec_replay)
qed

subsection \<open>Fenced workers take pipeline steps\<close>

lemma outbox_cancel_progress:
  assumes "outbox_cancel now i k db = (res, db')"
  shows "\<exists>rows. db' = db\<lparr>d_effect_outbox := rows\<rparr> \<and> list_all2 same_effect (d_effect_outbox db) rows"
proof -
  let ?f = "\<lambda>r. r\<lparr>o_status := OUTBOX_ROW_CANCELLED, o_completed_at := Some now\<rparr>"
  let ?rows = "update_where (\<lambda>r. o_approval_id r = i \<and> o_status r \<noteq> OUTBOX_COMPLETED) ?f (d_effect_outbox db)"
  have "list_all2 same_effect (d_effect_outbox db) ?rows"
    by (rule update_where_same_effect) (simp add: same_effect_def)
  moreover have "db' = db \<or> db' = db\<lparr>d_effect_outbox := ?rows\<rparr>"
    using assms by (auto simp: outbox_cancel_def transaction_def split: sum.splits if_splits)
  moreover have "db = db\<lparr>d_effect_outbox := d_effect_outbox db\<rparr>" by simp
  moreover have "list_all2 same_effect (d_effect_outbox db) (d_effect_outbox db)" by (simp add: list.rel_refl)
  ultimately show ?thesis by metis
qed

context effect_service
begin

lemma cancel_steps:
  "outbox_cancel now i k (pl_outbox w) = (res, db) \<Longrightarrow> pipeline_step sha ledger exec w (w\<lparr>pl_outbox := db\<rparr>)"
  using outbox_cancel_progress step_progress by blast

lemma fenced_deliver_steps:
  assumes "fenced_deliver cancelled fe evidence (\<lambda>d. exec (ctx d)) now i w = (res, w')"
  shows "(pipeline_step sha ledger exec)\<^sup>*\<^sup>* w w'"
proof (cases "\<exists>o0. outbox_get i (pl_outbox w) = Inr o0 \<and> o_status o0 \<noteq> OUTBOX_ROW_CANCELLED")
  case False
  with assms have "w' = w" by (auto simp: fenced_deliver_def split: sum.splits if_splits)
  then show ?thesis by simp
next
  case True
  then obtain o0 where o0: "outbox_get i (pl_outbox w) = Inr o0" "o_status o0 \<noteq> OUTBOX_ROW_CANCELLED" by blast
  obtain b db where b: "begin_delivery i (pl_outbox w) = (b, db)" by fastforce
  let ?w1 = "w\<lparr>pl_outbox := db\<rparr>"
  have s1: "(pipeline_step sha ledger exec)\<^sup>*\<^sup>* w ?w1" using begin_steps [OF b] by blast
  show ?thesis
  proof (cases "\<exists>o1 d. b = Inr o1 \<and> evidence o1 (pl_effects w) = Inr d")
    case False
    with assms o0 b have "w' = ?w1" by (auto simp: fenced_deliver_def split: sum.splits)
    with s1 show ?thesis by simp
  next
    case True
    then obtain o1 d where o1: "b = Inr o1" "evidence o1 (pl_effects w) = Inr d" by blast
    obtain y s where x: "exec (ctx d) o1 (pl_effects w) = (y, s)" by fastforce
    let ?w2 = "?w1\<lparr>pl_effects := s\<rparr>"
    from b o1 begin_delivery_Inr [of i "pl_outbox w" o1 db] have "outbox_row db i = Some o1" by auto
    then have "o1 \<in> set (d_effect_outbox db)" by (rule row_of_SomeD [THEN conjunct1])
    with x have "pipeline_step sha ledger exec ?w1 ?w2"
      using pipeline_step.effect [of o1 ?w1 o1 exec "ctx d" y s sha ledger] by simp
    with s1 have s2: "(pipeline_step sha ledger exec)\<^sup>*\<^sup>* w ?w2" by (rule rtranclp.rtrancl_into_rtrancl)
    show ?thesis
    proof (cases y)
      case (Inr execution)
      with assms o0 b o1 x have "acknowledge now i o1 execution ?w2 = (res, w')" by (simp add: fenced_deliver_def)
      from s2 acknowledge_steps [OF this] show ?thesis by (rule rtranclp_trans)
    next
      case (Inl e)
      obtain z db1 where c: "outbox_cancel now i (o_idempotency_key o1) db = (z, db1)" by fastforce
      have "w' = ?w2 \<or> w' = ?w2\<lparr>pl_outbox := db1\<rparr>"
        using assms o0 b o1 x Inl c by (cases z) (auto simp: fenced_deliver_def split: if_splits)
      moreover have "pipeline_step sha ledger exec ?w2 (?w2\<lparr>pl_outbox := db1\<rparr>)"
        using c by (intro cancel_steps) simp
      ultimately show ?thesis using s2 by (auto intro: rtranclp.rtrancl_into_rtrancl)
    qed
  qed
qed

end

lemma cancelled_row_is_refused:
  "outbox_row (pl_outbox w) i = Some o1 \<Longrightarrow> o_status o1 = OUTBOX_ROW_CANCELLED \<Longrightarrow>
     fenced_deliver cancelled fe evidence exec now i w = (Inl cancelled, w)"
  by (simp add: fenced_deliver_def outbox_get_def)

subsection \<open>Properties\<close>

interpretation revalidating: fenced_effects d_execution_denials "\<lambda>rows db. db\<lparr>d_execution_denials := rows\<rparr>"
  "\<lambda>_. revalidation_failure" ExecutionAuthorizationError "''authorization denial binding mismatch''" "\<lambda>now. now"
  revalidating_execute
  by unfold_locales (simp_all add: revalidating_execute_def)

text \<open>What the decision \<open>ALLOWED\<close> means.\<close>

definition authorized_now :: "'z authz_db_scheme \<Rightarrow> outbox_record \<Rightarrow> bool" where
  "authorized_now db o1 \<longleftrightarrow> (\<exists>subject kvs. subject_of db (o_requester_user_id o1) = Some subject \<and>
     sb_active subject \<and> sb_tenant_id subject = o_tenant_id o1 \<and> bound_arguments o1 = Some kvs \<and>
     (case o_action o1 of
        REQUEST_PASSWORD_RESET \<Rightarrow> (\<exists>p. row_of tp_tenant_id (o_tenant_id o1) (d_tenant_policies db) = Some p \<and>
          tp_password_reset_enabled p)
      | REQUEST_ACCESS \<Rightarrow> (\<exists>name row. map_of kvs ''resource'' = Some (JStr name) \<and> name \<noteq> [] \<and>
          row_of resource_key (o_tenant_id o1, name) (d_resources db) = Some row \<and> rs_enabled row \<and>
          rs_owner_user_id row \<in> {None, Some (o_requester_user_id o1)} \<and>
          (\<forall>required. rs_required_role row = Some required \<longrightarrow> required \<in> decode_roles (sb_roles_json subject)))))"

lemma str_of_json_Some [simp]: "str_of_json j = Some s \<longleftrightarrow> j = JStr s"
  by (cases j) auto

lemma access_reason_ALLOWED:
  "access_reason db o1 roles kvs = ALLOWED \<longleftrightarrow> (\<exists>name row. map_of kvs ''resource'' = Some (JStr name) \<and> name \<noteq> [] \<and>
     row_of resource_key (o_tenant_id o1, name) (d_resources db) = Some row \<and> rs_enabled row \<and>
     rs_owner_user_id row \<in> {None, Some (o_requester_user_id o1)} \<and>
     (\<forall>required. rs_required_role row = Some required \<longrightarrow> required \<in> roles))"
  by (auto simp: access_reason_def split: option.splits if_splits bind_split)

lemma authorization_reason_ALLOWED: "authorization_reason db o1 = ALLOWED \<longleftrightarrow> authorized_now db o1"
  by (auto simp: authorization_reason_def authorized_now_def access_reason_ALLOWED Let_def
      split: option.splits approval_action.splits if_splits)

lemma decode_compact_roles [simp]: "decode_roles (compact_roles_json R) = role_value ` R"
proof -
  let ?vs = "sorted_list_of_set (role_value ` R)"
  have "json_loads (compact_roles_json R) = Some (JList (map JStr ?vs))"
    using json_loads_dumps [of "JList (map JStr ?vs)" True]
    by (simp add: compact_roles_json_def list_all_iff comp_def)
  moreover have "set (List.map_filter str_of_json (map JStr ?vs)) = role_value ` R"
    by (auto simp: List.map_filter_def)
  ultimately show ?thesis by (simp add: decode_roles_def list_all_iff)
qed

text \<open>An effect that the revalidating service newly records is authorized by the state of the
  same transaction: the requester is an active member of the tenant, and either the tenant allows
  password resets, or the named resource is enabled, not owned by someone else, and its required
  role is one of the requester's current roles.\<close>

theorem new_effect_is_authorized:
  assumes "revalidating_execute now o1 db = (Inr x, db')" and "\<not> x_duplicate_suppressed x"
  shows "authorized_now db o1 \<and> d_effect_ledger db' = d_effect_ledger db @ [new_ledger_row now o1]"
  using revalidating.fexec_Inr [OF assms(1)] assms(2)
  by (auto simp: execution_of_def revalidation_failure_def authorization_reason_ALLOWED Let_def split: if_splits)

abbreviation demo_outbox :: "outbox_record" where
  "demo_outbox \<equiv> new_outbox_record id (consumed 8 (decided APPROVE ''usr_dyn_carol'' 6 demo_request)) 8"

abbreviation demo_authz :: "bool \<Rightarrow> authz_db" where
  "demo_authz active \<equiv> \<lparr>d_effect_ledger = [],
     d_subjects = [\<lparr>sb_user_id = ''usr_dyn_alice'', sb_tenant_id = ''tenant_northstar_dynamics'', sb_active = active,
       sb_roles_json = compact_roles_json {EMPLOYEE}\<rparr>],
     d_resources = [],
     d_tenant_policies = [\<lparr>tp_tenant_id = ''tenant_northstar_dynamics'', tp_password_reset_enabled = True\<rparr>],
     d_execution_denials = []\<rparr>"

lemma demo_bound_arguments [simp]: "bound_arguments demo_outbox = Some [(''reason'', JStr ''lost'')]"
proof -
  have "o_normalized_arguments_json demo_outbox = json_dumps True reset_args"
    by (simp add: new_outbox_record_def consumed_def decided_def canonicalize_def)
  then show ?thesis using json_loads_dumps [of reset_args True] by (simp add: bound_arguments_def)
qed

lemma demo_outbox_fields [simp]:
  "o_requester_user_id demo_outbox = ''usr_dyn_alice''" "o_tenant_id demo_outbox = ''tenant_northstar_dynamics''"
  "o_action demo_outbox = REQUEST_PASSWORD_RESET" "o_approval_id demo_outbox = ''apr_t''"
  by (simp_all add: new_outbox_record_def consumed_def decided_def new_record_def Let_def)

lemma demo_failure:
  "revalidation_failure (demo_authz True) demo_outbox = None"
  "revalidation_failure (demo_authz False) demo_outbox = Some SUBJECT_INACTIVE"
  by (simp_all add: revalidation_failure_def authorization_reason_def Let_def)

theorem new_effect_is_authorized_witness:
  "\<exists>x db'. revalidating_execute 9 demo_outbox (demo_authz True) = (Inr x, db') \<and>
     authorized_now (demo_authz True) demo_outbox"
proof -
  obtain x db' where x: "revalidating_execute 9 demo_outbox (demo_authz True) = (Inr x, db')"
    "\<not> x_duplicate_suppressed x"
    by (simp add: revalidating_execute_def fenced_execute_def raise_denial_def transaction_def demo_failure
        ledger_lookup_def record_effect_def insert_ledger_def execution_of_def)
  from new_effect_is_authorized [OF this] x(1) show ?thesis by blast
qed

text \<open>A denial is final: once the service has refused an outbox row, no change of the
  authorization state and no sequence of further executions lets that approval have an effect, and
  every later execution of the row raises.\<close>

theorem denial_is_final:
  assumes "denied_apart (d_effect_ledger s) (d_execution_denials s)"
    and "revalidating_execute now o1 s = (Inl (ExecutionAuthorizationError r), t)"
    and "(fence_step d_effect_ledger d_execution_denials revalidating_execute)\<^sup>*\<^sup>* t u"
  shows "o_approval_id o1 \<notin> l_approval_id ` set (d_effect_ledger u) \<and>
    (\<exists>e. fst (revalidating_execute now' o1 u) = Inl e)"
proof -
  have apart: "denied_apart (d_effect_ledger t) (d_execution_denials t)"
    using revalidating.fexec_apart [OF assms(2,1)] by blast
  obtain d where d: "d \<in> set (d_execution_denials t)" "dn_approval_id d = o_approval_id o1"
    using revalidating.fexec_denied [OF assms(2)] by blast
  have "denied_apart (d_effect_ledger u) (d_execution_denials u)" "d \<in> set (d_execution_denials u)"
    using revalidating.fence_steps_apart [OF assms(3) apart] d(1) by auto
  with revalidating.fexec_after_denial [of u d o1 now'] revalidating.denied_forever [OF apart d(1) assms(3)] d(2)
  show ?thesis by simp
qed

lemma demo_denial:
  "revalidating_execute 9 demo_outbox (demo_authz False) =
     (Inl (ExecutionAuthorizationError SUBJECT_INACTIVE),
      demo_authz False\<lparr>d_execution_denials := [\<lparr>dn_approval_id = ''apr_t'',
        dn_idempotency_key = o_idempotency_key demo_outbox, dn_reason = SUBJECT_INACTIVE, dn_denied_at = 9\<rparr>]\<rparr>)"
  by (simp add: revalidating_execute_def fenced_execute_def raise_denial_def transaction_def demo_failure
      ledger_lookup_def insert_denial_def)

theorem denial_is_final_witness:
  "\<exists>e. fst (revalidating_execute 20 demo_outbox (snd (set_subject_active ''usr_dyn_alice'' True
     (snd (revalidating_execute 9 demo_outbox (demo_authz False)))))) = Inl e"
proof -
  let ?t = "snd (revalidating_execute 9 demo_outbox (demo_authz False))"
  have d: "revalidating_execute 9 demo_outbox (demo_authz False) =
      (Inl (ExecutionAuthorizationError SUBJECT_INACTIVE), ?t)" using demo_denial by simp
  have "(fence_step d_effect_ledger d_execution_denials revalidating_execute)\<^sup>*\<^sup>* ?t
      (snd (set_subject_active ''usr_dyn_alice'' True ?t))"
    by (intro r_into_rtranclp fence_step.other)
      (simp_all add: set_subject_active_def update_subject_def transaction_def)
  from denial_is_final [OF _ d this, of 20] show ?thesis by (simp add: denied_apart_def)
qed

text \<open>Revocation takes effect at once: after \<open>set_subject_active(user, False)\<close> returns, the next
  execution of any of the user's outbox rows that is neither recorded nor denied is refused with
  \<open>SUBJECT_INACTIVE\<close>, and records no effect.\<close>

theorem deactivated_subject_is_refused:
  assumes "set_subject_active (o_requester_user_id o1) False db = (Inr (), db')"
    and "ledger_lookup o1 db = None"
    and "o_approval_id o1 \<notin> dn_approval_id ` set (d_execution_denials db)"
    and "o_idempotency_key o1 \<notin> dn_idempotency_key ` set (d_execution_denials db)"
  shows "fst (revalidating_execute now o1 db') = Inl (ExecutionAuthorizationError SUBJECT_INACTIVE) \<and>
    d_effect_ledger (snd (revalidating_execute now o1 db')) = d_effect_ledger db"
proof -
  let ?u = "o_requester_user_id o1"
  from assms(1) have db': "db' = db\<lparr>d_subjects := update_where (\<lambda>r. sb_user_id r = ?u) (\<lambda>r. r\<lparr>sb_active := False\<rparr>)
      (d_subjects db)\<rparr>" and "length (filter (\<lambda>r. sb_user_id r = ?u) (d_subjects db)) = 1"
    by (auto simp: set_subject_active_def update_subject_def split: if_splits)
  then have "filter (\<lambda>r. sb_user_id r = ?u) (d_subjects db) \<noteq> []" by fastforce
  then obtain s where "subject_of db ?u = Some s"
    by (cases "subject_of db ?u") (auto simp: row_of_None filter_empty_conv image_iff)
  then have "subject_of db' ?u = Some (s\<lparr>sb_active := False\<rparr>)"
    using db' by (simp add: find_update_where_same)
  then have "revalidation_failure db' o1 = Some SUBJECT_INACTIVE"
    by (simp add: revalidation_failure_def authorization_reason_def)
  moreover have "ledger_lookup o1 db' = None" using assms(2) db' ledger_lookup_cong [of db' db o1] by simp
  ultimately have r: "fst (revalidating_execute now o1 db') = Inl (ExecutionAuthorizationError SUBJECT_INACTIVE)"
    using assms(3,4) db' by (intro revalidating.fexec_denies) auto
  then have "d_effect_ledger (snd (revalidating_execute now o1 db')) = d_effect_ledger db'"
    by (metis revalidating.exec_Inl prod.collapse)
  with r db' show ?thesis by simp
qed

theorem deactivated_subject_is_refused_witness:
  "fst (revalidating_execute 9 demo_outbox (snd (set_subject_active ''usr_dyn_alice'' False (demo_authz True)))) =
     Inl (ExecutionAuthorizationError SUBJECT_INACTIVE)"
proof -
  let ?s = "set_subject_active ''usr_dyn_alice'' False (demo_authz True)"
  have "set_subject_active (o_requester_user_id demo_outbox) False (demo_authz True) = (Inr (), snd ?s)"
    by (simp add: set_subject_active_def update_subject_def transaction_def)
  from deactivated_subject_is_refused [OF this, of 9] show ?thesis by (simp add: ledger_lookup_def)
qed

subsection \<open>A refused row is cancelled\<close>

lemma outbox_cancel_pending:
  assumes "outbox_row db i = Some o1" and "o_status o1 = OUTBOX_PENDING"
  shows "\<exists>o2 db'. outbox_cancel now i (o_idempotency_key o1) db = (Inr o2, db') \<and>
    outbox_row db' i = Some o2 \<and> o_status o2 = OUTBOX_ROW_CANCELLED"
proof -
  let ?f = "\<lambda>r. r\<lparr>o_status := OUTBOX_ROW_CANCELLED, o_completed_at := Some now\<rparr>"
  have "row_of o_approval_id i (update_where (\<lambda>r. o_approval_id r = i \<and> o_status r \<noteq> OUTBOX_COMPLETED) ?f
      (d_effect_outbox db)) = Some (?f o1)"
    using assms by (subst find_update_where_guarded) auto
  with assms show ?thesis by (simp add: outbox_cancel_def transaction_def outbox_get_def)
qed

lemma acknowledge_error:
  assumes "acknowledge now i o1 x w = (Inl e, w')"
  shows "e \<in> {SyntheticWorkerCrash, AssertionError} \<union> range ApprovalStateError \<union> range EffectBindingError"
  using assms
  by (auto simp: acknowledge_def outbox_complete_def outbox_get_def asserted_def transaction_def Let_def
      split: if_splits option.splits prod.splits sum.splits)

definition only_fence_errors :: "(aegis_error \<Rightarrow> bool) \<Rightarrow> bool" where
  "only_fence_errors fe \<longleftrightarrow> (\<forall>e \<in> {SyntheticWorkerCrash, AssertionError} \<union> range ApprovalStateError \<union>
     range EffectBindingError. \<not> fe e)"

lemma refused_delivery:
  assumes o0: "outbox_row (pl_outbox w) i = Some o0" "o_status o0 = OUTBOX_PENDING"
    and run: "fenced_deliver cancelled fe evidence exec now i w = (Inl e, w')" and "fe e"
    and fe: "only_fence_errors fe" and ev: "\<And>o1 s e'. evidence o1 s = Inl e' \<Longrightarrow> \<not> fe e'"
  shows "\<exists>o1 d o2. same_effect o0 o1 \<and> evidence o1 (pl_effects w) = Inr d \<and>
    exec d o1 (pl_effects w) = (Inl e, pl_effects w') \<and>
    outbox_row (pl_outbox w') i = Some o2 \<and> o_status o2 = OUTBOX_ROW_CANCELLED"
proof -
  obtain o1 db where b: "begin_delivery i (pl_outbox w) = (Inr o1, db)"
    using begin_delivery_total [OF o0(1)] by blast
  have o1: "o1 = o0\<lparr>o_delivery_attempts := o_delivery_attempts o0 + 1\<rparr>" and row: "outbox_row db i = Some o1"
    using begin_delivery_Inr [OF b] o0(1) by auto
  with o0(2) have pend: "o_status o1 = OUTBOX_PENDING" and same: "same_effect o0 o1" by (auto simp: same_effect_def)
  have get: "outbox_get i (pl_outbox w) = Inr o0" using o0(1) by (simp add: outbox_get_def)
  from run get b o0(2) \<open>fe e\<close> ev obtain d where d: "evidence o1 (pl_effects w) = Inr d"
    by (cases "evidence o1 (pl_effects w)") (auto simp: fenced_deliver_def)
  obtain y s where y: "exec d o1 (pl_effects w) = (y, s)" by fastforce
  obtain o2 db' where c: "outbox_cancel now i (o_idempotency_key o1) db = (Inr o2, db')"
      "outbox_row db' i = Some o2" "o_status o2 = OUTBOX_ROW_CANCELLED"
    using outbox_cancel_pending [OF row pend] by blast
  show ?thesis
  proof (cases y)
    case (Inr x)
    with run get b o0(2) d y have "acknowledge now i o1 x (w\<lparr>pl_outbox := db, pl_effects := s\<rparr>) = (Inl e, w')"
      by (simp add: fenced_deliver_def)
    from acknowledge_error [OF this] fe \<open>fe e\<close> show ?thesis by (auto simp: only_fence_errors_def)
  next
    case (Inl e2)
    with run get b o0(2) d y c have "e2 = e" "w' = w\<lparr>pl_outbox := db', pl_effects := s\<rparr>"
      using \<open>fe e\<close> by (auto simp: fenced_deliver_def split: if_splits)
    with Inl same d y c show ?thesis by auto
  qed
qed

text \<open>A delivery that the execution-time check refuses cancels its outbox row, records no effect,
  and every later delivery of the row is refused with \<open>OUTBOX_CANCELLED\<close> and changes nothing.\<close>

theorem refused_row_is_cancelled:
  assumes "outbox_row (pl_outbox w) i = Some o0" and "o_status o0 = OUTBOX_PENDING"
    and "revalidating_deliver tx tc i w = (Inl (ExecutionAuthorizationError r), w')"
  shows "d_effect_ledger (pl_effects w') = d_effect_ledger (pl_effects w) \<and>
    (\<exists>o2. outbox_row (pl_outbox w') i = Some o2 \<and> o_status o2 = OUTBOX_ROW_CANCELLED) \<and>
    revalidating_deliver tx' tc' i w' =
      (Inl (ExecutionAuthorizationError execution_authorization_reason.OUTBOX_CANCELLED), w')"
proof -
  have "only_fence_errors is_execution_authorization_error"
    by (auto simp: only_fence_errors_def is_execution_authorization_error_def)
  moreover have "is_execution_authorization_error (ExecutionAuthorizationError r)"
    by (simp add: is_execution_authorization_error_def)
  ultimately obtain o1 o2 where
    "revalidating_execute tx o1 (pl_effects w) = (Inl (ExecutionAuthorizationError r), pl_effects w')"
    and o2: "outbox_row (pl_outbox w') i = Some o2" "o_status o2 = OUTBOX_ROW_CANCELLED"
    using refused_delivery [OF assms(1,2) assms(3) [unfolded revalidating_deliver_def]] by auto
  then show ?thesis
    using revalidating.exec_Inl o2 cancelled_row_is_refused [OF o2] by (auto simp: revalidating_deliver_def)
qed

abbreviation demo_refused :: "authz_db pipeline" where
  "demo_refused \<equiv> \<lparr>pl_outbox = \<lparr>d_approval_records = [], d_approval_workflows = [], d_effect_outbox = [demo_outbox]\<rparr>,
     pl_effects = demo_authz False, pl_crash_after_effect_once = False\<rparr>"

theorem refused_row_is_cancelled_witness:
  "\<exists>w'. revalidating_deliver 9 10 ''apr_t'' demo_refused = (Inl (ExecutionAuthorizationError SUBJECT_INACTIVE), w') \<and>
     revalidating_deliver 20 21 ''apr_t'' w' =
       (Inl (ExecutionAuthorizationError execution_authorization_reason.OUTBOX_CANCELLED), w')"
proof -
  let ?o = "demo_outbox\<lparr>o_delivery_attempts := 1\<rparr>"
  have attempts: "o_delivery_attempts demo_outbox = 0" and pend: "o_status demo_outbox = OUTBOX_PENDING"
    by (simp_all add: new_outbox_record_def)
  have "revalidation_failure (demo_authz False) ?o = Some SUBJECT_INACTIVE"
    by (simp add: revalidation_failure_def authorization_reason_def Let_def)
  then have x: "fst (revalidating_execute 9 ?o (demo_authz False)) = Inl (ExecutionAuthorizationError SUBJECT_INACTIVE)"
    by (intro revalidating.fexec_denies) (simp_all add: ledger_lookup_def)
  obtain s where s: "revalidating_execute 9 ?o (demo_authz False) =
      (Inl (ExecutionAuthorizationError SUBJECT_INACTIVE), s)" using x by (metis prod.collapse)
  have "outbox_row (pl_outbox demo_refused) ''apr_t'' = Some demo_outbox" by simp
  moreover obtain w' where w': "revalidating_deliver 9 10 ''apr_t'' demo_refused =
      (Inl (ExecutionAuthorizationError SUBJECT_INACTIVE), w')"
    using s pend attempts
    by (simp add: revalidating_deliver_def fenced_deliver_def outbox_get_def begin_delivery_def asserted_def
        transaction_def update_where_def is_execution_authorization_error_def outbox_cancel_def)
  ultimately show ?thesis using refused_row_is_cancelled [OF _ pend w'] by auto
qed

end
