(* ===== verification/Versioned_Revalidation.thy ===== *)
theory Versioned_Revalidation
  imports Revalidation
begin

section \<open>Effects: version-fenced cached authorization\<close>

text \<open>
  \<open>aegis/effects/versioned_revalidation.py\<close>. The authoritative database carries a policy version and
  a revocation epoch per tenant; a replica is another database of the same shape that may lag. A
  decision cached from a replica is accepted only if its versions equal the authoritative ones.
\<close>

subsection \<open>Versions\<close>

record version_row =
  vr_tenant_id :: string
  vr_policy_version :: int
  vr_revocation_epoch :: int

record versioned_db = authz_db +
  d_versions :: "version_row list"
  d_freshness_denials :: "authorization_freshness_reason denial_row list"

abbreviation version_of :: "'z versioned_db_scheme \<Rightarrow> string \<Rightarrow> version_row option" where
  "version_of db tenant_id \<equiv> row_of vr_tenant_id tenant_id (d_versions db)"

text \<open>The bounds of the pydantic model and of the table, both \<open>\<ge> 1\<close>.\<close>

definition version_state :: "string \<Rightarrow> int \<Rightarrow> int \<Rightarrow> aegis_error + version_row" where
  "version_state tenant_id policy_version revocation_epoch =
     (if policy_version < 1 \<or> revocation_epoch < 1 then Inl (ValueError ''AuthorizationVersionState'')
      else Inr \<lparr>vr_tenant_id = tenant_id, vr_policy_version = policy_version,
                vr_revocation_epoch = revocation_epoch\<rparr>)"

definition version_get :: "string \<Rightarrow> 'z versioned_db_scheme \<Rightarrow> aegis_error + version_row" where
  "version_get tenant_id db = (case version_of db tenant_id of
     None \<Rightarrow> Inl (KeyError ''synthetic authorization version not found'')
   | Some state \<Rightarrow> Inr state)"

text \<open>A committed block followed by \<^verbatim>\<open>return self.get(tenant_id)\<close>.\<close>

definition then_get ::
  "string \<Rightarrow> ('z versioned_db_scheme, aegis_error, unit) operation
     \<Rightarrow> ('z versioned_db_scheme, aegis_error, version_row) operation" where
  "then_get tenant_id f db = (case f db of
     (Inl e, db1) \<Rightarrow> (Inl e, db1)
   | (Inr _, db1) \<Rightarrow> (version_get tenant_id db1, db1))"

definition version_ensure ::
  "string \<Rightarrow> int \<Rightarrow> int \<Rightarrow> ('z versioned_db_scheme, aegis_error, version_row) operation" where
  "version_ensure tenant_id policy_version revocation_epoch db =
     (case version_state tenant_id policy_version revocation_epoch of
        Inl e \<Rightarrow> (Inl e, db)
      | Inr desired \<Rightarrow>
          then_get tenant_id (\<lambda>db. (Inr (), db\<lparr>d_versions := insert_or_ignore vr_tenant_id desired (d_versions db)\<rparr>)) db)"

definition set_version ::
  "string \<Rightarrow> int \<Rightarrow> int \<Rightarrow> ('z versioned_db_scheme, aegis_error, version_row) operation" where
  "set_version tenant_id policy_version revocation_epoch db =
     (case version_state tenant_id policy_version revocation_epoch of
        Inl e \<Rightarrow> (Inl e, db)
      | Inr desired \<Rightarrow>
          then_get tenant_id (transaction (\<lambda>db.
            case version_of db tenant_id of
              Some current \<Rightarrow>
                if vr_policy_version desired < vr_policy_version current
                   \<or> vr_revocation_epoch desired < vr_revocation_epoch current
                  then (Inl (ValueError ''authorization versions are monotonic''), db)
                else (Inr (), db\<lparr>d_versions := upsert vr_tenant_id desired (d_versions db)\<rparr>)
            | None \<Rightarrow> (Inr (), db\<lparr>d_versions := upsert vr_tenant_id desired (d_versions db)\<rparr>))) db)"

definition bump_revocation_epoch :: "string \<Rightarrow> 'z versioned_db_scheme \<Rightarrow> 'z versioned_db_scheme" where
  "bump_revocation_epoch tenant_id db =
     db\<lparr>d_versions := update_where (\<lambda>r. vr_tenant_id r = tenant_id)
       (\<lambda>r. r\<lparr>vr_revocation_epoch := vr_revocation_epoch r + 1\<rparr>) (d_versions db)\<rparr>"

definition bump_policy_version :: "string \<Rightarrow> 'z versioned_db_scheme \<Rightarrow> 'z versioned_db_scheme" where
  "bump_policy_version tenant_id db =
     db\<lparr>d_versions := update_where (\<lambda>r. vr_tenant_id r = tenant_id)
       (\<lambda>r. r\<lparr>vr_policy_version := vr_policy_version r + 1\<rparr>) (d_versions db)\<rparr>"

definition advance_revocation_epoch ::
  "string \<Rightarrow> ('z versioned_db_scheme, aegis_error, version_row) operation" where
  "advance_revocation_epoch tenant_id = then_get tenant_id (transaction (\<lambda>db.
     case version_get tenant_id db of
       Inl e \<Rightarrow> (Inl e, db)
     | Inr _ \<Rightarrow> (Inr (), bump_revocation_epoch tenant_id db)))"

definition advance_policy_version ::
  "string \<Rightarrow> ('z versioned_db_scheme, aegis_error, version_row) operation" where
  "advance_policy_version tenant_id = then_get tenant_id (transaction (\<lambda>db.
     case version_get tenant_id db of
       Inl e \<Rightarrow> (Inl e, db)
     | Inr _ \<Rightarrow> (Inr (), bump_policy_version tenant_id db)))"

subsection \<open>VersionedAuthorizationController\<close>

definition controller_set_subject_active ::
  "string \<Rightarrow> bool \<Rightarrow> ('z versioned_db_scheme, aegis_error, version_row) operation" where
  "controller_set_subject_active user_id active db = (case subject_of db user_id of
     None \<Rightarrow> (Inl (KeyError ''synthetic subject not found''), db)
   | Some row \<Rightarrow>
       then_get (sb_tenant_id row) (transaction (\<lambda>db.
         case version_get (sb_tenant_id row) db of
           Inl e \<Rightarrow> (Inl e, db)
         | Inr _ \<Rightarrow>
             (Inr (), bump_revocation_epoch (sb_tenant_id row)
                (db\<lparr>d_subjects := update_where (\<lambda>r. sb_user_id r = user_id) (\<lambda>r. r\<lparr>sb_active := active\<rparr>)
                   (d_subjects db)\<rparr>)))) db)"

definition controller_set_resource_owner ::
  "string \<Rightarrow> string \<Rightarrow> string option \<Rightarrow> ('z versioned_db_scheme, aegis_error, version_row) operation" where
  "controller_set_resource_owner tenant_id resource owner_user_id = then_get tenant_id (transaction (\<lambda>db.
     case version_get tenant_id db of
       Inl e \<Rightarrow> (Inl e, db)
     | Inr _ \<Rightarrow>
         (case set_resource_owner tenant_id resource owner_user_id db of
            (Inl e, db1) \<Rightarrow> (Inl e, db1)
          | (Inr _, db1) \<Rightarrow> (Inr (), bump_revocation_epoch tenant_id db1))))"

definition controller_set_password_reset_enabled ::
  "string \<Rightarrow> bool \<Rightarrow> ('z versioned_db_scheme, aegis_error, version_row) operation" where
  "controller_set_password_reset_enabled tenant_id enabled = then_get tenant_id (transaction (\<lambda>db.
     case version_get tenant_id db of
       Inl e \<Rightarrow> (Inl e, db)
     | Inr _ \<Rightarrow> (Inr (), bump_policy_version tenant_id (set_password_reset_enabled tenant_id enabled db))))"

subsection \<open>Cached decisions\<close>

record cached_decision =
  cd_tenant_id :: string
  cd_record_binding_hash :: string
  cd_policy_version :: int
  cd_revocation_epoch :: int
  cd_reason :: execution_authorization_reason

definition evidence_material :: "outbox_record \<Rightarrow> string" where
  "evidence_material record = utf8 (join_with (CHR 0x1F)
     [''aegisdesk-p2n-authorization-evidence-v1'', o_approval_id record, o_idempotency_key record,
      o_requester_user_id record, o_tenant_id record, action_value (o_action record),
      o_normalized_arguments_json record])"

definition authorization_record_binding :: "(string \<Rightarrow> string) \<Rightarrow> outbox_record \<Rightarrow> string" where
  "authorization_record_binding sha record = sha (evidence_material record)"

definition replica_evaluate ::
  "(string \<Rightarrow> string) \<Rightarrow> 'z versioned_db_scheme \<Rightarrow> outbox_record \<Rightarrow> aegis_error + cached_decision" where
  "replica_evaluate sha replica record = (case version_get (o_tenant_id record) replica of
     Inl e \<Rightarrow> Inl e
   | Inr version \<Rightarrow>
       Inr \<lparr>cd_tenant_id = o_tenant_id record,
            cd_record_binding_hash = authorization_record_binding sha record,
            cd_policy_version = vr_policy_version version,
            cd_revocation_epoch = vr_revocation_epoch version,
            cd_reason = authorization_reason replica record\<rparr>)"

definition freshness_failure ::
  "(string \<Rightarrow> string) \<Rightarrow> cached_decision \<Rightarrow> 'z versioned_db_scheme \<Rightarrow> outbox_record
     \<Rightarrow> authorization_freshness_reason option" where
  "freshness_failure sha decision db record =
     (if cd_tenant_id decision \<noteq> o_tenant_id record
        then Some authorization_freshness_reason.TENANT_BINDING_MISMATCH
      else if cd_record_binding_hash decision \<noteq> authorization_record_binding sha record
        then Some authorization_freshness_reason.DECISION_BINDING_MISMATCH
      else
        (case version_of db (o_tenant_id record) of
           None \<Rightarrow> Some authorization_freshness_reason.AUTHORITATIVE_VERSION_NOT_FOUND
         | Some authoritative \<Rightarrow>
             if cd_revocation_epoch decision \<noteq> vr_revocation_epoch authoritative
               then Some authorization_freshness_reason.REVOCATION_EPOCH_MISMATCH
             else if cd_policy_version decision \<noteq> vr_policy_version authoritative
               then Some authorization_freshness_reason.POLICY_VERSION_MISMATCH
             else if cd_reason decision \<noteq> ALLOWED
               then Some authorization_freshness_reason.CACHED_AUTHORIZATION_DENIED
             else None))"

definition version_fenced_execute ::
  "(string \<Rightarrow> string) \<Rightarrow> int \<times> cached_decision \<Rightarrow> outbox_record
     \<Rightarrow> ('z versioned_db_scheme, aegis_error, effect_execution) operation" where
  "version_fenced_execute sha c =
     fenced_execute d_freshness_denials (\<lambda>rows db. db\<lparr>d_freshness_denials := rows\<rparr>)
       (freshness_failure sha (snd c)) AuthorizationFreshnessError
       ''authorization freshness denial binding mismatch'' (fst c)"

definition is_freshness_error :: "aegis_error \<Rightarrow> bool" where
  "is_freshness_error e = (case e of AuthorizationFreshnessError _ \<Rightarrow> True | _ \<Rightarrow> False)"

definition version_fenced_deliver ::
  "(string \<Rightarrow> string) \<Rightarrow> 'y versioned_db_scheme \<Rightarrow> int \<Rightarrow> int \<Rightarrow> string
     \<Rightarrow> ('z versioned_db_scheme pipeline, aegis_error, effect_execution) operation" where
  "version_fenced_deliver sha replica executed now =
     fenced_deliver (AuthorizationFreshnessError authorization_freshness_reason.OUTBOX_CANCELLED) is_freshness_error
       (\<lambda>record s. replica_evaluate sha replica record)
       (\<lambda>decision. version_fenced_execute sha (executed, decision)) now"

subsection \<open>Registers that only grow\<close>

text \<open>
  What a fence relies on: along the steps of a store the value of a register never falls and never
  disappears. A value that was passed once is then never current again.
\<close>

locale monotone_register =
  fixes reg :: "'s \<Rightarrow> 'k \<Rightarrow> int option"
    and step :: "'s \<Rightarrow> 's \<Rightarrow> bool"
  assumes step_mono: "step s t \<Longrightarrow> reg s k = Some v \<Longrightarrow> \<exists>v'. reg t k = Some v' \<and> v \<le> v'"
begin

lemma steps_mono: "step\<^sup>*\<^sup>* s t \<Longrightarrow> reg s k = Some v \<Longrightarrow> \<exists>v'. reg t k = Some v' \<and> v \<le> v'"
proof (induction rule: rtranclp_induct)
  case (step t u)
  then obtain v' where "reg t k = Some v'" "v \<le> v'" by blast
  with step_mono [OF step.hyps(2)] show ?case by fastforce
qed auto

lemma passed_value_is_gone:
  assumes "step\<^sup>*\<^sup>* s t" and "reg s k = Some v" and "u < v"
  shows "reg t k \<noteq> Some u"
  using steps_mono [OF assms(1,2)] assms(3) by auto

end

subsection \<open>Versions only grow\<close>

inductive version_step :: "'z versioned_db_scheme \<Rightarrow> 'z versioned_db_scheme \<Rightarrow> bool" where
  ensure: "version_ensure tn p e s = (res, t) \<Longrightarrow> version_step s t"
| set_version: "set_version tn p e s = (res, t) \<Longrightarrow> version_step s t"
| advance_revocation: "advance_revocation_epoch tn s = (res, t) \<Longrightarrow> version_step s t"
| advance_policy: "advance_policy_version tn s = (res, t) \<Longrightarrow> version_step s t"
| set_active: "controller_set_subject_active u b s = (res, t) \<Longrightarrow> version_step s t"
| set_owner: "controller_set_resource_owner tn r ow s = (res, t) \<Longrightarrow> version_step s t"
| set_policy: "controller_set_password_reset_enabled tn b s = (res, t) \<Longrightarrow> version_step s t"
| other: "d_versions t = d_versions s \<Longrightarrow> version_step s t"

definition versions_grow :: "'z versioned_db_scheme \<Rightarrow> 'z versioned_db_scheme \<Rightarrow> bool" where
  "versions_grow s t \<longleftrightarrow> (\<forall>k r. version_of s k = Some r \<longrightarrow> (\<exists>r'. version_of t k = Some r' \<and>
     vr_policy_version r \<le> vr_policy_version r' \<and> vr_revocation_epoch r \<le> vr_revocation_epoch r'))"

lemma versions_grow_refl: "d_versions t = d_versions s \<Longrightarrow> versions_grow s t"
  by (simp add: versions_grow_def)

lemma then_get_snd [simp]: "snd (then_get tn f db) = snd (f db)"
  by (auto simp: then_get_def split: prod.splits sum.splits)

lemma bump_lookup:
  "version_of (bump_revocation_epoch tn s) k = (if k = tn
     then map_option (\<lambda>r. r\<lparr>vr_revocation_epoch := vr_revocation_epoch r + 1\<rparr>) (version_of s k) else version_of s k)"
  "version_of (bump_policy_version tn s) k = (if k = tn
     then map_option (\<lambda>r. r\<lparr>vr_policy_version := vr_policy_version r + 1\<rparr>) (version_of s k) else version_of s k)"
  by (auto simp: bump_revocation_epoch_def bump_policy_version_def find_update_where_same find_update_where_other)

lemma bump_grows:
  "d_versions t = d_versions s \<Longrightarrow> versions_grow s (bump_revocation_epoch tn t)"
  "d_versions t = d_versions s \<Longrightarrow> versions_grow s (bump_policy_version tn t)"
  by (auto simp: versions_grow_def bump_lookup)

lemma transaction_grows:
  assumes "\<And>a t. f s = (Inr a, t) \<Longrightarrow> versions_grow s t"
  shows "versions_grow s (snd (transaction f s))"
  using assms by (intro transaction_invariant [where I = "versions_grow s"]) (simp_all add: versions_grow_refl)

lemma version_ensure_grows: "versions_grow s (snd (version_ensure tn p e s))"
  by (auto simp: version_ensure_def version_state_def versions_grow_def row_of_insert_or_ignore split: option.splits)

lemma set_version_grows: "versions_grow s (snd (set_version tn p e s))"
proof (cases "version_state tn p e")
  case (Inl x)
  then show ?thesis by (simp add: set_version_def versions_grow_refl)
next
  case (Inr desired)
  then have tn: "vr_tenant_id desired = tn" by (auto simp: version_state_def split: if_splits)
  have "versions_grow s (s\<lparr>d_versions := upsert vr_tenant_id desired (d_versions s)\<rparr>)"
    if "\<And>c. version_of s tn = Some c \<Longrightarrow> vr_policy_version c \<le> vr_policy_version desired \<and>
      vr_revocation_epoch c \<le> vr_revocation_epoch desired"
    using that tn by (auto simp: versions_grow_def row_of_upsert)
  with Inr show ?thesis
    by (auto simp: set_version_def not_less intro!: transaction_grows split: option.splits if_splits)
qed

lemma advance_grows:
  "versions_grow s (snd (advance_revocation_epoch tn s))"
  "versions_grow s (snd (advance_policy_version tn s))"
  by (auto simp: advance_revocation_epoch_def advance_policy_version_def
      intro!: transaction_grows bump_grows split: sum.splits)

lemma set_resource_owner_versions:
  "set_resource_owner tn r ow s = (res, t) \<Longrightarrow> d_versions t = d_versions s"
  by (cases res) (auto simp: set_resource_owner_def update_resource_def split: if_splits)

lemma controller_grows:
  "versions_grow s (snd (controller_set_subject_active u b s))"
  "versions_grow s (snd (controller_set_resource_owner tn r ow s))"
  "versions_grow s (snd (controller_set_password_reset_enabled tn b s))"
proof -
  show "versions_grow s (snd (controller_set_subject_active u b s))"
    by (auto simp: controller_set_subject_active_def versions_grow_refl
        intro!: transaction_grows bump_grows split: sum.splits option.splits)
  show "versions_grow s (snd (controller_set_resource_owner tn r ow s))"
    by (auto simp: controller_set_resource_owner_def intro!: transaction_grows bump_grows
        dest: set_resource_owner_versions split: sum.splits prod.splits)
  show "versions_grow s (snd (controller_set_password_reset_enabled tn b s))"
    by (auto simp: controller_set_password_reset_enabled_def set_password_reset_enabled_def
        intro!: transaction_grows bump_grows split: sum.splits)
qed

lemma version_step_grows: "version_step s t \<Longrightarrow> versions_grow s t"
  by (induction rule: version_step.induct)
    (metis snd_conv version_ensure_grows set_version_grows advance_grows controller_grows versions_grow_refl)+

definition revocation_epoch_of :: "'z versioned_db_scheme \<Rightarrow> string \<Rightarrow> int option" where
  "revocation_epoch_of db tn = map_option vr_revocation_epoch (version_of db tn)"

definition policy_version_of :: "'z versioned_db_scheme \<Rightarrow> string \<Rightarrow> int option" where
  "policy_version_of db tn = map_option vr_policy_version (version_of db tn)"

interpretation epochs: monotone_register revocation_epoch_of version_step
  by unfold_locales (fastforce simp: revocation_epoch_of_def versions_grow_def dest: version_step_grows)

interpretation policies: monotone_register policy_version_of version_step
  by unfold_locales (fastforce simp: policy_version_of_def versions_grow_def dest: version_step_grows)

interpretation fresh: fenced_effects d_freshness_denials "\<lambda>rows db. db\<lparr>d_freshness_denials := rows\<rparr>"
  "\<lambda>c. freshness_failure sha (snd c)" AuthorizationFreshnessError
  "''authorization freshness denial binding mismatch''" fst "version_fenced_execute sha"
  by unfold_locales (simp_all add: version_fenced_execute_def)

subsection \<open>Properties\<close>

lemma freshness_passed:
  assumes "freshness_failure sha d db o1 = None"
  shows "revocation_epoch_of db (o_tenant_id o1) = Some (cd_revocation_epoch d)"
    "policy_version_of db (o_tenant_id o1) = Some (cd_policy_version d)" "cd_reason d = ALLOWED"
    "cd_tenant_id d = o_tenant_id o1" "cd_record_binding_hash d = authorization_record_binding sha o1"
  using assms
  by (auto simp: freshness_failure_def revocation_epoch_of_def policy_version_of_def split: if_splits option.splits)

lemma stale_inert:
  assumes "version_of s (o_tenant_id o1) = Some v"
    and "cd_revocation_epoch d < vr_revocation_epoch v \<or> cd_policy_version d < vr_policy_version v"
    and "version_step\<^sup>*\<^sup>* s t" and "version_fenced_execute sha (now, d) o1 t = (res, u)"
  shows "d_effect_ledger u = d_effect_ledger t"
proof (cases res)
  case (Inl e)
  with assms(4) fresh.exec_Inl show ?thesis by blast
next
  case (Inr x)
  have "revocation_epoch_of t (o_tenant_id o1) \<noteq> Some (cd_revocation_epoch d) \<or>
      policy_version_of t (o_tenant_id o1) \<noteq> Some (cd_policy_version d)"
    using epochs.passed_value_is_gone [OF assms(3), of "o_tenant_id o1" "vr_revocation_epoch v"]
      policies.passed_value_is_gone [OF assms(3), of "o_tenant_id o1" "vr_policy_version v"] assms(1,2)
    by (auto simp: revocation_epoch_of_def policy_version_of_def)
  then have "freshness_failure sha d t o1 \<noteq> None" using freshness_passed by metis
  with fresh.fexec_Inr [of sha "(now, d)" o1 t x u] assms(4) Inr show ?thesis by auto
qed

text \<open>A stale decision never causes an effect: once a tenant's revocation epoch or policy version has
  passed the one a cached decision carries, executing with that decision after any further sequence of
  steps records nothing new, whatever the decision says.\<close>

theorem stale_decision_is_inert:
  assumes "version_of s (o_tenant_id o1) = Some v"
    and "cd_revocation_epoch d < vr_revocation_epoch v \<or> cd_policy_version d < vr_policy_version v"
    and "version_step\<^sup>*\<^sup>* s t" and "version_fenced_execute sha (now, d) o1 t = (res, u)"
  shows "d_effect_ledger u = d_effect_ledger t"
  using assms by (rule stale_inert)

lemma replica_decision:
  assumes "replica_evaluate sha rep o1 = Inr d"
  shows "revocation_epoch_of rep (o_tenant_id o1) = Some (cd_revocation_epoch d)"
    "cd_reason d = authorization_reason rep o1"
  using assms by (auto simp: replica_evaluate_def version_get_def revocation_epoch_of_def split: option.splits)

text \<open>\<^bold>\<open>C8\<close>. Revocation reaches lagging replicas: after the controller has changed a subject's active flag,
  no decision that a replica issued at an epoch the authority had already reached before the change
  can record a new effect for that tenant, however late it is used.\<close>

theorem revocation_fences_replicas:
  assumes "replica_evaluate sha rep o1 = Inr d"
    and "revocation_epoch_of rep (o_tenant_id o1) = Some er" and "revocation_epoch_of s (o_tenant_id o1) = Some ea"
    and "er \<le> ea"
    and "subject_of s u = Some row" and "sb_tenant_id row = o_tenant_id o1"
    and "controller_set_subject_active u active s = (Inr st, s')" and "version_step\<^sup>*\<^sup>* s' t"
    and "version_fenced_execute sha (now, d) o1 t = (res, t')"
  shows "d_effect_ledger t' = d_effect_ledger t"
proof -
  from assms(3) obtain v where v: "version_of s (o_tenant_id o1) = Some v" "vr_revocation_epoch v = ea"
    by (auto simp: revocation_epoch_of_def)
  have "s' = bump_revocation_epoch (o_tenant_id o1)
      (s\<lparr>d_subjects := update_where (\<lambda>r. sb_user_id r = u) (\<lambda>r. r\<lparr>sb_active := active\<rparr>) (d_subjects s)\<rparr>)"
    using assms(5-7) v(1)
    by (auto simp: controller_set_subject_active_def then_get_def version_get_def transaction_def
        split: option.splits)
  then have v': "version_of s' (o_tenant_id o1) = Some (v\<lparr>vr_revocation_epoch := ea + 1\<rparr>)"
    using v by (simp add: bump_lookup)
  have "cd_revocation_epoch d < ea + 1" using replica_decision(1) [OF assms(1)] assms(2,4) by simp
  then show ?thesis by (intro stale_inert [OF v' _ assms(8,9)]) simp
qed

abbreviation demo_versioned :: "int \<Rightarrow> versioned_db" where
  "demo_versioned e \<equiv> \<lparr>d_effect_ledger = [],
     d_subjects = [\<lparr>sb_user_id = ''usr_dyn_alice'', sb_tenant_id = ''tenant_northstar_dynamics'', sb_active = True,
       sb_roles_json = compact_roles_json {EMPLOYEE}\<rparr>],
     d_resources = [],
     d_tenant_policies = [\<lparr>tp_tenant_id = ''tenant_northstar_dynamics'', tp_password_reset_enabled = True\<rparr>],
     d_execution_denials = [],
     d_versions = [\<lparr>vr_tenant_id = ''tenant_northstar_dynamics'', vr_policy_version = 1, vr_revocation_epoch = e\<rparr>],
     d_freshness_denials = []\<rparr>"

abbreviation demo_decision :: cached_decision where
  "demo_decision \<equiv> \<lparr>cd_tenant_id = ''tenant_northstar_dynamics'',
     cd_record_binding_hash = authorization_record_binding id demo_outbox,
     cd_policy_version = 1, cd_revocation_epoch = 1, cd_reason = ALLOWED\<rparr>"

lemma demo_replica: "replica_evaluate id (demo_versioned 1) demo_outbox = Inr demo_decision"
  by (simp add: replica_evaluate_def version_get_def authorization_reason_def Let_def)

theorem stale_decision_is_inert_witness:
  "d_effect_ledger (snd (version_fenced_execute id (9, demo_decision) demo_outbox (demo_versioned 2))) = []"
proof -
  have "version_of (demo_versioned 2) (o_tenant_id demo_outbox) =
      Some \<lparr>vr_tenant_id = ''tenant_northstar_dynamics'', vr_policy_version = 1, vr_revocation_epoch = 2\<rparr>" by simp
  from stale_decision_is_inert [OF this _ rtranclp.rtrancl_refl surjective_pairing, of demo_decision id 9]
  show ?thesis by simp
qed

theorem revocation_fences_replicas_witness:
  "d_effect_ledger (snd (version_fenced_execute id (9, demo_decision) demo_outbox
     (snd (controller_set_subject_active ''usr_dyn_alice'' False (demo_versioned 1))))) = []"
proof -
  let ?c = "controller_set_subject_active ''usr_dyn_alice'' False (demo_versioned 1)"
  have c: "?c = (Inr \<lparr>vr_tenant_id = ''tenant_northstar_dynamics'', vr_policy_version = 1, vr_revocation_epoch = 2\<rparr>,
      snd ?c)"
    by (simp add: controller_set_subject_active_def then_get_def transaction_def version_get_def
        bump_revocation_epoch_def update_where_def)
  have l: "d_effect_ledger (snd ?c) = []"
    by (simp add: controller_set_subject_active_def transaction_def version_get_def bump_revocation_epoch_def)
  have e: "revocation_epoch_of (demo_versioned 1) (o_tenant_id demo_outbox) = Some 1"
    by (simp add: revocation_epoch_of_def)
  from revocation_fences_replicas [OF demo_replica e e _ _ _ c rtranclp.rtrancl_refl surjective_pairing, of _ 9] l
  show ?thesis by simp
qed

end
