(* ===== verification/Encodings.thy ===== *)
theory Encodings
  imports Json
begin

section \<open>Text encodings of bytes\<close>

text \<open>
  \<^verbatim>\<open>base64.urlsafe_b64encode(value).rstrip("=")\<close> and the strict decoder
  \<^verbatim>\<open>base64.b64decode(value + padding, altchars=b"-_", validate=True)\<close> of the signature fields, and
  \<^verbatim>\<open>bytes.hex\<close>, \<^verbatim>\<open>bytes.fromhex\<close> of stored public keys. A byte string is a \<open>string\<close>.
\<close>

definition b64_char :: "nat \<Rightarrow> char" where
  "b64_char n = (if n < 26 then char_of (65 + n)
     else if n < 52 then char_of (71 + n)
     else if n < 62 then char_of (n - 4)
     else if n = 62 then CHR ''-'' else CHR ''_'')"

text \<open>The decoder also takes the standard characters for 62 and 63: \<open>altchars\<close> adds to them.\<close>

definition b64_val :: "char \<Rightarrow> nat option" where
  "b64_val c = (let n = of_char c :: nat in
     if 65 \<le> n \<and> n \<le> 90 then Some (n - 65)
     else if 97 \<le> n \<and> n \<le> 122 then Some (n - 71)
     else if 48 \<le> n \<and> n \<le> 57 then Some (n + 4)
     else if c = CHR ''-'' \<or> c = CHR ''+'' then Some 62
     else if c = CHR ''_'' \<or> c = CHR ''/'' then Some 63
     else None)"

fun b64url_encode :: "string \<Rightarrow> string" where
  "b64url_encode [] = []"
| "b64url_encode [a] = (let x = of_char a :: nat in [b64_char (x div 4), b64_char ((x mod 4) * 16)])"
| "b64url_encode [a, b] = (let x = of_char a :: nat; y = of_char b :: nat in
     [b64_char (x div 4), b64_char ((x mod 4) * 16 + y div 16), b64_char ((y mod 16) * 4)])"
| "b64url_encode (a # b # c # r) = (let x = of_char a :: nat; y = of_char b :: nat; z = of_char c :: nat in
     [b64_char (x div 4), b64_char ((x mod 4) * 16 + y div 16), b64_char ((y mod 16) * 4 + z div 64),
      b64_char (z mod 64)] @ b64url_encode r)"

definition quad1 :: "nat \<Rightarrow> nat \<Rightarrow> char" where
  "quad1 p q = char_of (p * 4 + q div 16)"

definition quad2 :: "nat \<Rightarrow> nat \<Rightarrow> char" where
  "quad2 q r = char_of ((q mod 16) * 16 + r div 4)"

definition quad3 :: "nat \<Rightarrow> nat \<Rightarrow> char" where
  "quad3 r s = char_of ((r mod 4) * 64 + s)"

fun strict_b64decode :: "string \<Rightarrow> string option" where
  "strict_b64decode [] = Some []"
| "strict_b64decode (c1 # c2 # c3 # c4 # rest) = (case (b64_val c1, b64_val c2) of
     (Some p, Some q) \<Rightarrow>
       if c3 = CHR ''='' \<and> c4 = CHR ''='' \<and> rest = [] then Some [quad1 p q]
       else
         (case b64_val c3 of
            None \<Rightarrow> None
          | Some r \<Rightarrow>
              if c4 = CHR ''='' \<and> rest = [] then Some [quad1 p q, quad2 q r]
              else
                (case b64_val c4 of
                   None \<Rightarrow> None
                 | Some s \<Rightarrow>
                     map_option (\<lambda>t. quad1 p q # quad2 q r # quad3 r s # t) (strict_b64decode rest)))
   | _ \<Rightarrow> None)"
| "strict_b64decode _ = None"

definition b64url_decode :: "string \<Rightarrow> string option" where
  "b64url_decode value = strict_b64decode (value @ replicate ((4 - length value mod 4) mod 4) (CHR ''=''))"

definition bytes_hex :: "string \<Rightarrow> string" where
  "bytes_hex s = concat (map (\<lambda>c. let n = of_char c :: nat in [hex_digit (n div 16), hex_digit (n mod 16)]) s)"

fun bytes_fromhex :: "string \<Rightarrow> string option" where
  "bytes_fromhex [] = Some []"
| "bytes_fromhex [a] = None"
| "bytes_fromhex (a # b # r) = (case (hex_val a, hex_val b) of
     (Some x, Some y) \<Rightarrow> map_option (\<lambda>t. char_of (16 * x + y) # t) (bytes_fromhex r)
   | _ \<Rightarrow> None)"

lemma b64_val_char [simp]: "n < 64 \<Longrightarrow> b64_val (b64_char n) = Some n"
  by (auto simp: b64_val_def b64_char_def Let_def) 

lemma b64_char_not_pad [simp]: "n < 64 \<Longrightarrow> b64_char n \<noteq> CHR ''=''"
  using b64_val_char [of n] by (auto simp: b64_val_def)

lemma quads:
  fixes x y z :: nat
  assumes "x < 256" "y < 256" "z < 256"
  shows "quad1 (x div 4) ((x mod 4) * 16 + y div 16) = char_of x"
    "quad1 (x div 4) ((x mod 4) * 16) = char_of x"
    "quad2 ((x mod 4) * 16 + y div 16) ((y mod 16) * 4 + z div 64) = char_of y"
    "quad2 ((x mod 4) * 16 + y div 16) ((y mod 16) * 4) = char_of y"
    "quad3 ((y mod 16) * 4 + z div 64) (z mod 64) = char_of z"
proof -
  have "x div 4 * 4 + x mod 4 = x" "y div 16 * 16 + y mod 16 = y" "z div 64 * 64 + z mod 64 = z" by simp_all
  moreover have "y div 16 < 16" "z div 64 < 4" using assms by linarith+
  ultimately show "quad1 (x div 4) ((x mod 4) * 16 + y div 16) = char_of x"
    "quad1 (x div 4) ((x mod 4) * 16) = char_of x"
    "quad2 ((x mod 4) * 16 + y div 16) ((y mod 16) * 4 + z div 64) = char_of y"
    "quad2 ((x mod 4) * 16 + y div 16) ((y mod 16) * 4) = char_of y"
    "quad3 ((y mod 16) * 4 + z div 64) (z mod 64) = char_of z"
    unfolding quad1_def quad2_def quad3_def
    by (simp_all add: div_add1_eq mod_add_eq algebra_simps)
qed

lemma sextets:
  fixes x y z :: nat
  assumes "x < 256" "y < 256" "z < 256"
  shows "x div 4 < 64" "(x mod 4) * 16 + y div 16 < 64" "(x mod 4) * 16 < 64"
    "(y mod 16) * 4 + z div 64 < 64" "(y mod 16) * 4 < 64" "z mod 64 < 64"
  using assms by linarith+

text \<open>Decoding gives back every byte string that was encoded.\<close>

lemma b64url_decode_encode [simp]: "b64url_decode (b64url_encode s) = Some s"
proof -
  have "strict_b64decode (b64url_encode s @ replicate ((4 - length (b64url_encode s) mod 4) mod 4) (CHR ''='')) = Some s"
  proof (induction s rule: b64url_encode.induct)
    case (2 a)
    note b = of_char_bound [of a]
    show ?case using sextets [OF b b b] quads(2) [OF b b b] by (simp add: Let_def numeral_2_eq_2)
  next
    case (3 a b)
    note b = of_char_bound [of a] of_char_bound [of b]
    show ?case using sextets [OF b(1,2,2)] quads(1,4) [OF b(1,2,2)] by (simp add: Let_def)
  next
    case (4 a b c r)
    note b = of_char_bound [of a] of_char_bound [of b] of_char_bound [of c]
    from 4 show ?case using sextets [OF b] quads(1,3,5) [OF b] by (simp add: Let_def)
  qed simp
  then show ?thesis by (simp add: b64url_decode_def)
qed

lemma bytes_fromhex_hex [simp]: "bytes_fromhex (bytes_hex s) = Some s"
proof (induction s)
  case (Cons c s)
  have "(of_char c :: nat) div 16 < 16" using of_char_bound [of c] by linarith
  with Cons show ?case by (simp add: bytes_hex_def Let_def)
qed (simp add: bytes_hex_def)

end
