(* ===== verification/Signed_Authorization.thy ===== *)
theory Signed_Authorization
  imports Versioned_Revalidation Encodings
begin

section \<open>Effects: signed authorization decisions\<close>

text \<open>
  \<open>aegis/effects/signed_authorization.py\<close>. Ed25519 is third-party code: \<open>verify public_key signature
  message\<close> says whether \<^verbatim>\<open>Ed25519PublicKey.from_public_bytes(public_key).verify(signature, message)\<close>
  returns without an exception, and \<open>sign\<close> is the signer's private-key operation. The check of a
  decision reads the clock once and the recording of an effect or a denial once more.
\<close>

subsection \<open>Claims\<close>

definition reason_value :: "execution_authorization_reason \<Rightarrow> string" where
  "reason_value r = (case r of
     ALLOWED \<Rightarrow> ''allowed'' | SUBJECT_NOT_FOUND \<Rightarrow> ''subject_not_found''
   | SUBJECT_INACTIVE \<Rightarrow> ''subject_inactive'' | TENANT_MEMBERSHIP_CHANGED \<Rightarrow> ''tenant_membership_changed''
   | REQUIRED_ROLE_MISSING \<Rightarrow> ''required_role_missing'' | RESOURCE_NOT_FOUND \<Rightarrow> ''resource_not_found''
   | RESOURCE_DISABLED \<Rightarrow> ''resource_disabled'' | RESOURCE_OWNER_MISMATCH \<Rightarrow> ''resource_owner_mismatch''
   | PASSWORD_RESET_DISABLED \<Rightarrow> ''password_reset_disabled''
   | INVALID_BOUND_ARGUMENTS \<Rightarrow> ''invalid_bound_arguments''
   | execution_authorization_reason.OUTBOX_CANCELLED \<Rightarrow> ''outbox_cancelled'')"

record decision_claims =
  cl_issuer_id :: string
  cl_audience :: string
  cl_key_id :: string
  cl_key_epoch :: int
  cl_tenant_id :: string
  cl_record_binding_hash :: string
  cl_policy_version :: int
  cl_revocation_epoch :: int
  cl_reason :: execution_authorization_reason
  cl_issued_at :: int
  cl_expires_at :: int

text \<open>The constraints of the pydantic model; \<open>schema_version\<close> has one value.\<close>

definition claims_valid :: "decision_claims \<Rightarrow> bool" where
  "claims_valid c \<longleftrightarrow>
     1 \<le> length (cl_issuer_id c) \<and> length (cl_issuer_id c) \<le> 128 \<and>
     1 \<le> length (cl_audience c) \<and> length (cl_audience c) \<le> 128 \<and>
     1 \<le> length (cl_key_id c) \<and> length (cl_key_id c) \<le> 128 \<and>
     1 \<le> cl_key_epoch c \<and>
     1 \<le> length (cl_tenant_id c) \<and> length (cl_tenant_id c) \<le> 256 \<and>
     length (cl_record_binding_hash c) = 64 \<and>
     1 \<le> cl_policy_version c \<and> 1 \<le> cl_revocation_epoch c \<and>
     0 \<le> cl_issued_at c \<and> 0 \<le> cl_expires_at c \<and> cl_issued_at c < cl_expires_at c"

record signed_decision =
  sd_claims :: decision_claims
  sd_signature_b64url :: string

definition claims_fields :: "decision_claims \<Rightarrow> (string \<times> json) list" where
  "claims_fields c =
     [(''schema_version'', JStr ''aegis.authz-decision.v1''),
      (''issuer_id'', JStr (cl_issuer_id c)),
      (''audience'', JStr (cl_audience c)),
      (''key_id'', JStr (cl_key_id c)),
      (''key_epoch'', JInt (cl_key_epoch c)),
      (''tenant_id'', JStr (cl_tenant_id c)),
      (''record_binding_hash'', JStr (cl_record_binding_hash c)),
      (''policy_version'', JInt (cl_policy_version c)),
      (''revocation_epoch'', JInt (cl_revocation_epoch c)),
      (''reason'', JStr (reason_value (cl_reason c))),
      (''issued_at'', JInt (cl_issued_at c)),
      (''expires_at'', JInt (cl_expires_at c))]"

definition canonical_authorization_claims :: "decision_claims \<Rightarrow> string" where
  "canonical_authorization_claims claims = utf8 (json_dumps False (JObj (claims_fields claims)))"

subsection \<open>AuthorizationDecisionSigner\<close>

record 'k decision_signer =
  sg_issuer_id :: string
  sg_audience :: string
  sg_key_id :: string
  sg_key_epoch :: int
  sg_private_key :: 'k
  sg_ttl_seconds :: int

definition signer_init ::
  "string \<Rightarrow> string \<Rightarrow> string \<Rightarrow> int \<Rightarrow> 'k \<Rightarrow> int \<Rightarrow> aegis_error + 'k decision_signer" where
  "signer_init issuer_id audience key_id key_epoch private_key ttl_seconds =
     (if key_epoch < 1 then Inl (ValueError ''key epoch must be positive'')
      else if ttl_seconds < 1 then Inl (ValueError ''decision TTL must be positive'')
      else Inr \<lparr>sg_issuer_id = issuer_id, sg_audience = audience, sg_key_id = key_id, sg_key_epoch = key_epoch,
                sg_private_key = private_key, sg_ttl_seconds = ttl_seconds\<rparr>)"

definition issued_claims :: "'k decision_signer \<Rightarrow> int \<Rightarrow> cached_decision \<Rightarrow> decision_claims" where
  "issued_claims signer issued_at decision =
     \<lparr>cl_issuer_id = sg_issuer_id signer,
      cl_audience = sg_audience signer,
      cl_key_id = sg_key_id signer,
      cl_key_epoch = sg_key_epoch signer,
      cl_tenant_id = cd_tenant_id decision,
      cl_record_binding_hash = cd_record_binding_hash decision,
      cl_policy_version = cd_policy_version decision,
      cl_revocation_epoch = cd_revocation_epoch decision,
      cl_reason = cd_reason decision,
      cl_issued_at = issued_at,
      cl_expires_at = issued_at + sg_ttl_seconds signer\<rparr>"

definition signer_issue ::
  "('k \<Rightarrow> string \<Rightarrow> string) \<Rightarrow> 'k decision_signer \<Rightarrow> int \<Rightarrow> cached_decision \<Rightarrow> aegis_error + signed_decision" where
  "signer_issue sign signer issued_at decision =
     (let claims = issued_claims signer issued_at decision in
      if \<not> claims_valid claims then Inl (ValueError ''AuthorizationDecisionClaims'')
      else Inr \<lparr>sd_claims = claims,
                sd_signature_b64url =
                  b64url_encode (sign (sg_private_key signer) (canonical_authorization_claims claims))\<rparr>)"

definition signed_replica_evaluate ::
  "(string \<Rightarrow> string) \<Rightarrow> ('k \<Rightarrow> string \<Rightarrow> string) \<Rightarrow> 'k decision_signer \<Rightarrow> 'z versioned_db_scheme \<Rightarrow> int
     \<Rightarrow> outbox_record \<Rightarrow> aegis_error + signed_decision" where
  "signed_replica_evaluate sha sign signer replica issued_at record =
     (case replica_evaluate sha replica record of
        Inl e \<Rightarrow> Inl e
      | Inr decision \<Rightarrow> signer_issue sign signer issued_at decision)"

subsection \<open>TrustedAuthorizationKeyStore\<close>

record trusted_key_row =
  tk_issuer_id :: string
  tk_audience :: string
  tk_key_id :: string
  tk_key_epoch :: int
  tk_public_key_hex :: string

record key_epoch_row =
  ke_issuer_id :: string
  ke_audience :: string
  ke_current_key_epoch :: int

record signed_db = versioned_db +
  d_trusted_keys :: "trusted_key_row list"
  d_key_epochs :: "key_epoch_row list"
  d_provenance_denials :: "authorization_provenance_reason denial_row list"

definition trusted_key_id :: "trusted_key_row \<Rightarrow> string \<times> string \<times> string" where
  "trusted_key_id r = (tk_issuer_id r, tk_audience r, tk_key_id r)"

definition key_epoch_id :: "key_epoch_row \<Rightarrow> string \<times> string" where
  "key_epoch_id r = (ke_issuer_id r, ke_audience r)"

definition current_epoch_locked :: "'z signed_db_scheme \<Rightarrow> string \<times> string \<Rightarrow> int option" where
  "current_epoch_locked db issuer = map_option ke_current_key_epoch (row_of key_epoch_id issuer (d_key_epochs db))"

definition key_locked :: "'z signed_db_scheme \<Rightarrow> string \<Rightarrow> string \<Rightarrow> string \<Rightarrow> trusted_key_row option" where
  "key_locked db issuer_id audience key_id = row_of trusted_key_id (issuer_id, audience, key_id) (d_trusted_keys db)"

definition upsert_key :: "string \<Rightarrow> string \<Rightarrow> string \<Rightarrow> int \<Rightarrow> string \<Rightarrow> 'z signed_db_scheme \<Rightarrow> 'z signed_db_scheme" where
  "upsert_key issuer_id audience key_id key_epoch public_key db =
     db\<lparr>d_trusted_keys := upsert trusted_key_id
       \<lparr>tk_issuer_id = issuer_id, tk_audience = audience, tk_key_id = key_id, tk_key_epoch = key_epoch,
        tk_public_key_hex = bytes_hex public_key\<rparr> (d_trusted_keys db)\<rparr>"

definition trust_initial_key ::
  "string \<Rightarrow> string \<Rightarrow> string \<Rightarrow> int \<Rightarrow> string \<Rightarrow> ('z signed_db_scheme, aegis_error, unit) operation" where
  "trust_initial_key issuer_id audience key_id key_epoch public_key db =
     (if key_epoch < 1 \<or> length public_key \<noteq> 32 then (Inl (ValueError ''invalid Ed25519 trust key''), db)
      else transaction (\<lambda>db.
        if current_epoch_locked db (issuer_id, audience) \<notin> {None, Some key_epoch}
          then (Inl (ValueError ''initial trust epoch already established''), db)
        else
          (let db1 = upsert_key issuer_id audience key_id key_epoch public_key db in
           (Inr (), db1\<lparr>d_key_epochs := insert_or_ignore key_epoch_id
              \<lparr>ke_issuer_id = issuer_id, ke_audience = audience, ke_current_key_epoch = key_epoch\<rparr>
              (d_key_epochs db1)\<rparr>))) db)"

definition rotate_key ::
  "string \<Rightarrow> string \<Rightarrow> string \<Rightarrow> int \<Rightarrow> string \<Rightarrow> ('z signed_db_scheme, aegis_error, unit) operation" where
  "rotate_key issuer_id audience key_id key_epoch public_key db =
     (if key_epoch < 1 \<or> length public_key \<noteq> 32 then (Inl (ValueError ''invalid Ed25519 trust key''), db)
      else transaction (\<lambda>db.
        case current_epoch_locked db (issuer_id, audience) of
          None \<Rightarrow> (Inl (KeyError ''authorization issuer trust not initialized''), db)
        | Some current \<Rightarrow>
            if key_epoch \<le> current
              then (Inl (ValueError ''authorization signing key epochs are monotonic''), db)
            else
              (let db1 = upsert_key issuer_id audience key_id key_epoch public_key db in
               (Inr (), db1\<lparr>d_key_epochs := update_where (\<lambda>r. key_epoch_id r = (issuer_id, audience))
                  (\<lambda>r. r\<lparr>ke_current_key_epoch := key_epoch\<rparr>) (d_key_epochs db1)\<rparr>))) db)"

definition current_epoch :: "string \<Rightarrow> string \<Rightarrow> 'z signed_db_scheme \<Rightarrow> aegis_error + int" where
  "current_epoch issuer_id audience db = (case current_epoch_locked db (issuer_id, audience) of
     None \<Rightarrow> Inl (KeyError ''authorization issuer trust not initialized'')
   | Some current \<Rightarrow> Inr current)"

subsection \<open>ProvenanceFencedSyntheticEffectService\<close>

definition signature_ok ::
  "(string \<Rightarrow> string \<Rightarrow> string \<Rightarrow> bool) \<Rightarrow> string \<Rightarrow> string \<Rightarrow> string \<Rightarrow> bool" where
  "signature_ok verify public_key_hex signature_b64url message =
     (case b64url_decode signature_b64url of
        None \<Rightarrow> False
      | Some signature \<Rightarrow>
          length signature = 64 \<and>
          (case bytes_fromhex public_key_hex of
             None \<Rightarrow> False
           | Some public_key \<Rightarrow> verify public_key signature message))"

record fence_config =
  fc_expected_issuer_id :: string
  fc_expected_audience :: string

definition claims_failure ::
  "(string \<Rightarrow> string) \<Rightarrow> int \<Rightarrow> decision_claims \<Rightarrow> 'z signed_db_scheme \<Rightarrow> outbox_record
     \<Rightarrow> authorization_provenance_reason option" where
  "claims_failure sha now claims db record =
     (if cl_issued_at claims > now then Some DECISION_NOT_YET_VALID
      else if cl_expires_at claims \<le> now then Some DECISION_EXPIRED
      else if cl_tenant_id claims \<noteq> o_tenant_id record
        then Some authorization_provenance_reason.TENANT_BINDING_MISMATCH
      else if cl_record_binding_hash claims \<noteq> authorization_record_binding sha record
        then Some authorization_provenance_reason.DECISION_BINDING_MISMATCH
      else
        (case version_of db (o_tenant_id record) of
           None \<Rightarrow> Some authorization_provenance_reason.AUTHORITATIVE_VERSION_NOT_FOUND
         | Some authoritative \<Rightarrow>
             if cl_revocation_epoch claims \<noteq> vr_revocation_epoch authoritative
               then Some authorization_provenance_reason.REVOCATION_EPOCH_MISMATCH
             else if cl_policy_version claims \<noteq> vr_policy_version authoritative
               then Some authorization_provenance_reason.POLICY_VERSION_MISMATCH
             else if cl_reason claims \<noteq> ALLOWED
               then Some authorization_provenance_reason.CACHED_AUTHORIZATION_DENIED
             else None))"

definition provenance_failure ::
  "(string \<Rightarrow> string) \<Rightarrow> (string \<Rightarrow> string \<Rightarrow> string \<Rightarrow> bool) \<Rightarrow> fence_config \<Rightarrow> int \<Rightarrow> signed_decision
     \<Rightarrow> 'z signed_db_scheme \<Rightarrow> outbox_record \<Rightarrow> authorization_provenance_reason option" where
  "provenance_failure sha verify config now decision db record =
     (let claims = sd_claims decision in
      if cl_issuer_id claims \<noteq> fc_expected_issuer_id config then Some ISSUER_MISMATCH
      else if cl_audience claims \<noteq> fc_expected_audience config then Some AUDIENCE_MISMATCH
      else
        (case key_locked db (cl_issuer_id claims) (cl_audience claims) (cl_key_id claims) of
           None \<Rightarrow> Some UNTRUSTED_SIGNING_KEY
         | Some key_row \<Rightarrow>
             (case current_epoch_locked db (cl_issuer_id claims, cl_audience claims) of
                None \<Rightarrow> Some UNTRUSTED_SIGNING_KEY
              | Some current_key_epoch \<Rightarrow>
                  if cl_key_epoch claims \<noteq> tk_key_epoch key_row \<or> cl_key_epoch claims \<noteq> current_key_epoch
                    then Some KEY_EPOCH_MISMATCH
                  else if \<not> signature_ok verify (tk_public_key_hex key_row) (sd_signature_b64url decision)
                      (canonical_authorization_claims claims)
                    then Some SIGNATURE_INVALID
                  else claims_failure sha now claims db record)))"

text \<open>One call: the clock reading of the check, the one of the recording, and the decision.\<close>

type_synonym signed_call = "int \<times> int \<times> signed_decision"

definition provenance_execute ::
  "(string \<Rightarrow> string) \<Rightarrow> (string \<Rightarrow> string \<Rightarrow> string \<Rightarrow> bool) \<Rightarrow> fence_config \<Rightarrow> signed_call \<Rightarrow> outbox_record
     \<Rightarrow> ('z signed_db_scheme, aegis_error, effect_execution) operation" where
  "provenance_execute sha verify config c =
     fenced_execute d_provenance_denials (\<lambda>rows db. db\<lparr>d_provenance_denials := rows\<rparr>)
       (provenance_failure sha verify config (fst c) (snd (snd c))) AuthorizationProvenanceError
       ''authorization provenance denial binding mismatch'' (fst (snd c))"

definition is_provenance_error :: "aegis_error \<Rightarrow> bool" where
  "is_provenance_error e = (case e of AuthorizationProvenanceError _ \<Rightarrow> True | _ \<Rightarrow> False)"

definition provenance_deliver ::
  "(string \<Rightarrow> string) \<Rightarrow> ('k \<Rightarrow> string \<Rightarrow> string) \<Rightarrow> (string \<Rightarrow> string \<Rightarrow> string \<Rightarrow> bool) \<Rightarrow> fence_config
     \<Rightarrow> 'k decision_signer \<Rightarrow> 'y versioned_db_scheme \<Rightarrow> int \<Rightarrow> int \<Rightarrow> int \<Rightarrow> int \<Rightarrow> string
     \<Rightarrow> ('z signed_db_scheme pipeline, aegis_error, effect_execution) operation" where
  "provenance_deliver sha sign verify config signer replica issued_at checked executed now =
     fenced_deliver (AuthorizationProvenanceError authorization_provenance_reason.OUTBOX_CANCELLED)
       is_provenance_error
       (\<lambda>record s. signed_replica_evaluate sha sign signer replica issued_at record)
       (\<lambda>decision. provenance_execute sha verify config (checked, executed, decision)) now"

subsection \<open>Claims are signed unambiguously\<close>

lemma reason_value_inject [simp]: "reason_value a = reason_value b \<longleftrightarrow> a = b"
  by (cases a; cases b; simp add: reason_value_def)

lemma wf_claims: "wf_json (JObj (claims_fields c))"
  by (simp add: claims_fields_def)

lemma canonical_claims_inject:
  assumes "canonical_authorization_claims c = canonical_authorization_claims d"
  shows "c = d"
proof -
  have eq: "json_dumps False (JObj (claims_fields c)) = json_dumps False (JObj (claims_fields d))"
    using assms unfolding canonical_authorization_claims_def by simp
  have f: "map_option sort_keys (map_of (claims_fields c) k) = map_option sort_keys (map_of (claims_fields d) k)" for k
    by (rule json_dumps_field [OF eq wf_claims wf_claims])
  have "cl_issuer_id c = cl_issuer_id d" using f [of "''issuer_id''"] by (simp add: claims_fields_def)
  moreover have "cl_audience c = cl_audience d" using f [of "''audience''"] by (simp add: claims_fields_def)
  moreover have "cl_key_id c = cl_key_id d" using f [of "''key_id''"] by (simp add: claims_fields_def)
  moreover have "cl_key_epoch c = cl_key_epoch d" using f [of "''key_epoch''"] by (simp add: claims_fields_def)
  moreover have "cl_tenant_id c = cl_tenant_id d" using f [of "''tenant_id''"] by (simp add: claims_fields_def)
  moreover have "cl_record_binding_hash c = cl_record_binding_hash d"
    using f [of "''record_binding_hash''"] by (simp add: claims_fields_def)
  moreover have "cl_policy_version c = cl_policy_version d"
    using f [of "''policy_version''"] by (simp add: claims_fields_def)
  moreover have "cl_revocation_epoch c = cl_revocation_epoch d"
    using f [of "''revocation_epoch''"] by (simp add: claims_fields_def)
  moreover have "cl_reason c = cl_reason d" using f [of "''reason''"] by (simp add: claims_fields_def)
  moreover have "cl_issued_at c = cl_issued_at d" using f [of "''issued_at''"] by (simp add: claims_fields_def)
  moreover have "cl_expires_at c = cl_expires_at d" using f [of "''expires_at''"] by (simp add: claims_fields_def)
  ultimately show ?thesis by simp
qed

subsection \<open>Key epochs only grow\<close>

inductive key_step :: "'z signed_db_scheme \<Rightarrow> 'z signed_db_scheme \<Rightarrow> bool" where
  trust: "trust_initial_key iss aud k ep pk s = (res, t) \<Longrightarrow> key_step s t"
| rotate: "rotate_key iss aud k ep pk s = (res, t) \<Longrightarrow> key_step s t"
| other: "d_key_epochs t = d_key_epochs s \<Longrightarrow> key_step s t"

lemma upsert_key_epochs [simp]: "d_key_epochs (upsert_key iss aud k ep pk db) = d_key_epochs db"
  by (simp add: upsert_key_def)

lemma trust_epochs:
  "trust_initial_key iss aud k ep pk s = (res, t) \<Longrightarrow> current_epoch_locked s i = Some v \<Longrightarrow>
     current_epoch_locked t i = Some v"
  by (cases res)
    (auto simp: trust_initial_key_def current_epoch_locked_def row_of_insert_or_ignore Let_def split: if_splits)

lemma rotate_Inr:
  assumes "rotate_key iss aud k ep pk s = (Inr (), t)"
  shows "\<exists>v. current_epoch_locked s (iss, aud) = Some v \<and> v < ep \<and>
    (\<forall>i. current_epoch_locked t i = (if i = (iss, aud) then Some ep else current_epoch_locked s i))"
proof -
  from assms obtain v where v: "current_epoch_locked s (iss, aud) = Some v" "v < ep" and
    t: "t = (upsert_key iss aud k ep pk s)\<lparr>d_key_epochs := update_where (\<lambda>r. key_epoch_id r = (iss, aud))
      (\<lambda>r. r\<lparr>ke_current_key_epoch := ep\<rparr>) (d_key_epochs s)\<rparr>"
    by (auto simp: rotate_key_def Let_def split: if_splits option.splits)
  have "row_of key_epoch_id (iss, aud) (d_key_epochs t) =
      map_option (\<lambda>r. r\<lparr>ke_current_key_epoch := ep\<rparr>) (row_of key_epoch_id (iss, aud) (d_key_epochs s))"
    unfolding t by (simp, rule find_update_where_same) (simp add: key_epoch_id_def)
  moreover have "row_of key_epoch_id i (d_key_epochs t) = row_of key_epoch_id i (d_key_epochs s)" if "i \<noteq> (iss, aud)" for i
    unfolding t using that by (simp, intro find_update_where_other) (auto simp: key_epoch_id_def)
  ultimately show ?thesis using v by (auto simp: current_epoch_locked_def)
qed

lemma key_step_mono:
  assumes "key_step s t" and "current_epoch_locked s i = Some v"
  shows "\<exists>v'. current_epoch_locked t i = Some v' \<and> v \<le> v'"
  using assms(1)
proof (cases rule: key_step.cases)
  case (trust iss aud k ep pk res)
  from trust_epochs [OF this assms(2)] show ?thesis by simp
next
  case (rotate iss aud k ep pk res)
  show ?thesis
  proof (cases res)
    case (Inl e)
    with rotate have "t = s" by (auto simp: rotate_key_def split: if_splits)
    with assms(2) show ?thesis by simp
  next
    case (Inr u)
    with rotate have "rotate_key iss aud k ep pk s = (Inr (), t)" by simp
    from rotate_Inr [OF this] obtain w where "current_epoch_locked s (iss, aud) = Some w"
      "w < ep" "current_epoch_locked t i = (if i = (iss, aud) then Some ep else current_epoch_locked s i)" by blast
    with assms(2) show ?thesis by (auto split: if_splits)
  qed
next
  case other
  then have "current_epoch_locked t i = current_epoch_locked s i" by (simp add: current_epoch_locked_def)
  with assms(2) show ?thesis by simp
qed

interpretation key_epochs: monotone_register current_epoch_locked key_step
  by unfold_locales (rule key_step_mono)

interpretation provenance: fenced_effects d_provenance_denials "\<lambda>rows db. db\<lparr>d_provenance_denials := rows\<rparr>"
  "\<lambda>c. provenance_failure sha verify config (fst c) (snd (snd c))" AuthorizationProvenanceError
  "''authorization provenance denial binding mismatch''" "\<lambda>c. fst (snd c)" "provenance_execute sha verify config"
  by unfold_locales (simp_all add: provenance_execute_def)

subsection \<open>What a passed check means\<close>

lemma claims_passed:
  assumes "claims_failure sha now c db o1 = None"
  shows "cl_issued_at c \<le> now" "now < cl_expires_at c" "cl_tenant_id c = o_tenant_id o1"
    "cl_record_binding_hash c = authorization_record_binding sha o1"
    "revocation_epoch_of db (o_tenant_id o1) = Some (cl_revocation_epoch c)"
    "policy_version_of db (o_tenant_id o1) = Some (cl_policy_version c)" "cl_reason c = ALLOWED"
  using assms
  by (auto simp: claims_failure_def revocation_epoch_of_def policy_version_of_def split: if_splits option.splits)

lemma provenance_passed:
  assumes "provenance_failure sha verify config now d db o1 = None"
  shows "\<exists>row pk sig. key_locked db (fc_expected_issuer_id config) (fc_expected_audience config) (cl_key_id (sd_claims d)) = Some row \<and>
      bytes_fromhex (tk_public_key_hex row) = Some pk \<and>
      verify pk sig (canonical_authorization_claims (sd_claims d)) \<and>
      current_epoch_locked db (fc_expected_issuer_id config, fc_expected_audience config) = Some (cl_key_epoch (sd_claims d))"
    and "cl_issuer_id (sd_claims d) = fc_expected_issuer_id config"
    and "cl_audience (sd_claims d) = fc_expected_audience config"
    and "claims_failure sha now (sd_claims d) db o1 = None"
  using assms
  by (auto simp: provenance_failure_def signature_ok_def Let_def split: if_splits option.splits)

lemma new_effect_passed:
  assumes "provenance_execute sha verify config (t1, t2, d) o1 db = (Inr x, db')" and "\<not> x_duplicate_suppressed x"
  shows "provenance_failure sha verify config t1 d db o1 = None"
  using provenance.fexec_Inr [OF assms(1)] assms(2) by (auto simp: execution_of_def)

subsection \<open>Properties\<close>

text \<open>\<^bold>\<open>C7\<close>. Provenance: assume that a message verifies under a trusted key only if it is the canonical
  text of a claim set the issuer signed. Then a newly recorded effect was authorized by claims
  that the issuer really issued, with the expected issuer and audience and the current key epoch,
  within their validity interval, bound to this very outbox row, with the authoritative versions,
  and with the reason \<open>ALLOWED\<close>.\<close>

theorem new_effect_has_provenance:
  assumes unforgeable: "\<forall>row \<in> set (d_trusted_keys db). \<forall>pk sig m. bytes_fromhex (tk_public_key_hex row) = Some pk \<longrightarrow>
      verify pk sig m \<longrightarrow> m \<in> canonical_authorization_claims ` issued"
    and "provenance_execute sha verify config (t1, t2, d) o1 db = (Inr x, db')" and "\<not> x_duplicate_suppressed x"
  shows "\<exists>c \<in> issued. cl_issuer_id c = fc_expected_issuer_id config \<and> cl_audience c = fc_expected_audience config \<and>
    current_epoch_locked db (cl_issuer_id c, cl_audience c) = Some (cl_key_epoch c) \<and>
    cl_issued_at c \<le> t1 \<and> t1 < cl_expires_at c \<and> cl_tenant_id c = o_tenant_id o1 \<and>
    cl_record_binding_hash c = authorization_record_binding sha o1 \<and>
    revocation_epoch_of db (o_tenant_id o1) = Some (cl_revocation_epoch c) \<and>
    policy_version_of db (o_tenant_id o1) = Some (cl_policy_version c) \<and> cl_reason c = ALLOWED"
proof -
  note p = provenance_passed [OF new_effect_passed [OF assms(2,3)]]
  from p(1) obtain row pk sig where row: "key_locked db (fc_expected_issuer_id config) (fc_expected_audience config)
      (cl_key_id (sd_claims d)) = Some row" "bytes_fromhex (tk_public_key_hex row) = Some pk"
    "verify pk sig (canonical_authorization_claims (sd_claims d))" and
    epoch: "current_epoch_locked db (fc_expected_issuer_id config, fc_expected_audience config) =
      Some (cl_key_epoch (sd_claims d))" by blast
  have "row \<in> set (d_trusted_keys db)" using row_of_SomeD [OF row(1) [unfolded key_locked_def]] by simp
  with unforgeable row(2,3) have "canonical_authorization_claims (sd_claims d) \<in> canonical_authorization_claims ` issued"
    by blast
  then have "sd_claims d \<in> issued" using canonical_claims_inject by auto
  with claims_passed [OF p(4)] p(2,3) epoch show ?thesis by auto
qed

text \<open>Rotating the signing key kills the old decisions: once the key epoch of an issuer has passed the
  one a signed decision names, executing with that decision records nothing, after any further
  steps of the key store and whatever key it was signed with.\<close>

theorem rotated_key_is_dead:
  assumes "current_epoch_locked s (cl_issuer_id (sd_claims d), cl_audience (sd_claims d)) = Some e"
    and "cl_key_epoch (sd_claims d) < e" and "key_step\<^sup>*\<^sup>* s t"
    and "provenance_execute sha verify config (t1, t2, d) o1 t = (res, u)"
  shows "d_effect_ledger u = d_effect_ledger t"
proof (cases res)
  case (Inl x)
  with assms(4) provenance.exec_Inl show ?thesis by blast
next
  case (Inr x)
  have "current_epoch_locked t (cl_issuer_id (sd_claims d), cl_audience (sd_claims d)) \<noteq> Some (cl_key_epoch (sd_claims d))"
    using key_epochs.passed_value_is_gone [OF assms(3,1,2)] .
  then have "provenance_failure sha verify config t1 d t o1 \<noteq> None" using provenance_passed(1,2,3) by metis
  with provenance.fexec_Inr [of sha verify config "(t1, t2, d)" o1 t x u] assms(4) Inr show ?thesis by auto
qed

text \<open>A decision that the signer issues for an up-to-date replica is accepted: if signatures are 64
  bytes and verify under the signer's public key, the key is the trusted one of the current epoch,
  and the replica's versions are the authoritative ones, then within the validity interval the
  check of the signed decision fails only for the reason the replica itself gave.\<close>

theorem issued_decision_is_accepted:
  assumes ed: "\<forall>m. verify pk (sign (sg_private_key signer) m) m \<and> length (sign (sg_private_key signer) m) = 64"
    and issue: "signed_replica_evaluate sha sign signer replica t0 o1 = Inr d"
    and key: "key_locked db (sg_issuer_id signer) (sg_audience signer) (sg_key_id signer) = Some row"
      "tk_key_epoch row = sg_key_epoch signer" "tk_public_key_hex row = bytes_hex pk"
      "current_epoch_locked db (sg_issuer_id signer, sg_audience signer) = Some (sg_key_epoch signer)"
    and config: "fc_expected_issuer_id config = sg_issuer_id signer" "fc_expected_audience config = sg_audience signer"
    and version: "version_of db (o_tenant_id o1) = version_of replica (o_tenant_id o1)"
    and time: "t0 \<le> t1" "t1 < t0 + sg_ttl_seconds signer"
  shows "provenance_failure sha verify config t1 d db o1 =
    (if authorization_reason replica o1 = ALLOWED then None
     else Some authorization_provenance_reason.CACHED_AUTHORIZATION_DENIED)"
proof -
  from issue obtain c where c: "replica_evaluate sha replica o1 = Inr c" "signer_issue sign signer t0 c = Inr d"
    by (auto simp: signed_replica_evaluate_def split: sum.splits)
  then have d: "sd_claims d = issued_claims signer t0 c" "sd_signature_b64url d =
      b64url_encode (sign (sg_private_key signer) (canonical_authorization_claims (issued_claims signer t0 c)))"
    by (auto simp: signer_issue_def Let_def split: if_splits)
  have sig: "signature_ok verify (tk_public_key_hex row) (sd_signature_b64url d)
      (canonical_authorization_claims (sd_claims d))"
    using ed key(3) d by (simp add: signature_ok_def)
  from c(1) obtain v where v: "version_of replica (o_tenant_id o1) = Some v" and
    cc: "cd_tenant_id c = o_tenant_id o1" "cd_record_binding_hash c = authorization_record_binding sha o1"
      "cd_policy_version c = vr_policy_version v" "cd_revocation_epoch c = vr_revocation_epoch v"
      "cd_reason c = authorization_reason replica o1"
    by (auto simp: replica_evaluate_def version_get_def split: option.splits)
  have "claims_failure sha t1 (sd_claims d) db o1 =
      (if authorization_reason replica o1 = ALLOWED then None
       else Some authorization_provenance_reason.CACHED_AUTHORIZATION_DENIED)"
    using version v time d(1) cc by (simp add: claims_failure_def issued_claims_def)
  with sig key config d(1) show ?thesis by (simp add: provenance_failure_def issued_claims_def)
qed

subsection \<open>A concrete signer\<close>

abbreviation demo_sha :: "string \<Rightarrow> string" where
  "demo_sha \<equiv> \<lambda>m. replicate 64 (CHR ''a'')"

abbreviation demo_signer :: "unit decision_signer" where
  "demo_signer \<equiv> \<lparr>sg_issuer_id = ''iss'', sg_audience = ''aud'', sg_key_id = ''k1'', sg_key_epoch = 1,
     sg_private_key = (), sg_ttl_seconds = 300\<rparr>"

abbreviation demo_config :: fence_config where
  "demo_config \<equiv> \<lparr>fc_expected_issuer_id = ''iss'', fc_expected_audience = ''aud''\<rparr>"

abbreviation demo_claims :: decision_claims where
  "demo_claims \<equiv> \<lparr>cl_issuer_id = ''iss'', cl_audience = ''aud'', cl_key_id = ''k1'', cl_key_epoch = 1,
     cl_tenant_id = ''tenant_northstar_dynamics'', cl_record_binding_hash = replicate 64 (CHR ''a''),
     cl_policy_version = 1, cl_revocation_epoch = 1, cl_reason = ALLOWED, cl_issued_at = 5, cl_expires_at = 305\<rparr>"

abbreviation demo_sign :: "unit \<Rightarrow> string \<Rightarrow> string" where
  "demo_sign \<equiv> \<lambda>_ m. replicate 64 (CHR ''s'')"

abbreviation demo_verify :: "string \<Rightarrow> string \<Rightarrow> string \<Rightarrow> bool" where
  "demo_verify \<equiv> \<lambda>pk sig m. m = canonical_authorization_claims demo_claims"

abbreviation demo_signed_decision :: signed_decision where
  "demo_signed_decision \<equiv> \<lparr>sd_claims = demo_claims, sd_signature_b64url = b64url_encode (replicate 64 (CHR ''s''))\<rparr>"

abbreviation demo_signed :: "int \<Rightarrow> signed_db" where
  "demo_signed e \<equiv> \<lparr>d_effect_ledger = [],
     d_subjects = [\<lparr>sb_user_id = ''usr_dyn_alice'', sb_tenant_id = ''tenant_northstar_dynamics'', sb_active = True,
       sb_roles_json = compact_roles_json {EMPLOYEE}\<rparr>],
     d_resources = [],
     d_tenant_policies = [\<lparr>tp_tenant_id = ''tenant_northstar_dynamics'', tp_password_reset_enabled = True\<rparr>],
     d_execution_denials = [],
     d_versions = [\<lparr>vr_tenant_id = ''tenant_northstar_dynamics'', vr_policy_version = 1, vr_revocation_epoch = 1\<rparr>],
     d_freshness_denials = [],
     d_trusted_keys = [\<lparr>tk_issuer_id = ''iss'', tk_audience = ''aud'', tk_key_id = ''k1'', tk_key_epoch = 1,
       tk_public_key_hex = bytes_hex ''pk''\<rparr>],
     d_key_epochs = [\<lparr>ke_issuer_id = ''iss'', ke_audience = ''aud'', ke_current_key_epoch = e\<rparr>],
     d_provenance_denials = []\<rparr>"

lemma demo_signed_passes:
  "provenance_failure demo_sha demo_verify demo_config 10 demo_signed_decision (demo_signed 1) demo_outbox = None"
proof -
  have "signature_ok demo_verify (bytes_hex ''pk'') (b64url_encode (replicate 64 (CHR ''s'')))
      (canonical_authorization_claims demo_claims)"
    unfolding signature_ok_def b64url_decode_encode bytes_fromhex_hex by simp
  then show ?thesis
    by (simp add: provenance_failure_def key_locked_def trusted_key_id_def current_epoch_locked_def key_epoch_id_def
        claims_failure_def authorization_record_binding_def)
qed

theorem new_effect_has_provenance_witness:
  "\<exists>x db' c. provenance_execute demo_sha demo_verify demo_config (10, 11, demo_signed_decision) demo_outbox
       (demo_signed 1) = (Inr x, db') \<and> c \<in> {demo_claims} \<and> cl_reason c = ALLOWED \<and>
     cl_record_binding_hash c = authorization_record_binding demo_sha demo_outbox"
proof -
  obtain x db' where x: "provenance_execute demo_sha demo_verify demo_config (10, 11, demo_signed_decision) demo_outbox
      (demo_signed 1) = (Inr x, db')" "\<not> x_duplicate_suppressed x"
    using demo_signed_passes
    by (simp add: provenance_execute_def fenced_execute_def raise_denial_def transaction_def ledger_lookup_def
        record_effect_def insert_ledger_def execution_of_def)
  from new_effect_has_provenance [where issued = "{demo_claims}", OF _ x] x(1) show ?thesis by blast
qed

theorem rotated_key_is_dead_witness:
  "d_effect_ledger (snd (provenance_execute demo_sha demo_verify demo_config (10, 11, demo_signed_decision) demo_outbox
     (demo_signed 2))) = []"
proof -
  have "current_epoch_locked (demo_signed 2)
      (cl_issuer_id (sd_claims demo_signed_decision), cl_audience (sd_claims demo_signed_decision)) = Some 2"
    by (simp add: current_epoch_locked_def key_epoch_id_def)
  from rotated_key_is_dead [OF this _ rtranclp.rtrancl_refl surjective_pairing] show ?thesis by simp
qed

theorem issued_decision_is_accepted_witness:
  "\<exists>d. signed_replica_evaluate demo_sha demo_sign demo_signer (demo_versioned 1) 5 demo_outbox = Inr d \<and>
     provenance_failure demo_sha (\<lambda>pk sig m. sig = replicate 64 (CHR ''s'')) demo_config 10 d (demo_signed 1) demo_outbox = None"
proof -
  have r: "authorization_reason (demo_versioned 1) demo_outbox = ALLOWED"
    by (simp add: authorization_reason_def Let_def)
  obtain d where d: "signed_replica_evaluate demo_sha demo_sign demo_signer (demo_versioned 1) 5 demo_outbox = Inr d"
    using r by (simp add: signed_replica_evaluate_def replica_evaluate_def version_get_def signer_issue_def
        issued_claims_def claims_valid_def authorization_record_binding_def Let_def)
  have k: "key_locked (demo_signed 1) (sg_issuer_id demo_signer) (sg_audience demo_signer) (sg_key_id demo_signer) =
      Some \<lparr>tk_issuer_id = ''iss'', tk_audience = ''aud'', tk_key_id = ''k1'', tk_key_epoch = 1,
        tk_public_key_hex = bytes_hex ''pk''\<rparr>" by (simp add: key_locked_def trusted_key_id_def)
  have e: "current_epoch_locked (demo_signed 1) (sg_issuer_id demo_signer, sg_audience demo_signer) =
      Some (sg_key_epoch demo_signer)" by (simp add: current_epoch_locked_def key_epoch_id_def)
  from issued_decision_is_accepted [where pk = "''pk''" and verify = "\<lambda>pk sig m. sig = replicate 64 (CHR ''s'')"
      and config = demo_config and ?t1.0 = 10, OF _ d k _ _ e] r d
  show ?thesis by (simp)
qed

end
