(* ===== verification/Rollback_Anchor.thy ===== *)
theory Rollback_Anchor
  imports Signed_Authorization
begin

section \<open>Effects: the rollback anchor\<close>

text \<open>
  \<open>aegis/effects/rollback_anchor.py\<close>. The control-plane generation lives in a database of its own, so
  that restoring an old copy of the execution database cannot bring an old generation back. The
  service holds the write lock of the generation while it checks the envelope and executes, which
  makes the call one step on the pair of the execution database and the generation database.
\<close>

subsection \<open>ControlPlaneGenerationStore\<close>

record generation_row =
  gn_authority_id :: string
  gn_current_generation :: int

record anchor_db =
  d_generations :: "generation_row list"

definition generation_of :: "'z anchor_db_scheme \<Rightarrow> string \<Rightarrow> int option" where
  "generation_of db authority_id =
     map_option gn_current_generation (row_of gn_authority_id authority_id (d_generations db))"

definition generation_current :: "string \<Rightarrow> 'z anchor_db_scheme \<Rightarrow> aegis_error + int" where
  "generation_current authority_id db = (case generation_of db authority_id of
     None \<Rightarrow> Inl (KeyError ''control-plane generation not initialized'')
   | Some current \<Rightarrow> Inr current)"

definition generation_initialize :: "string \<Rightarrow> int \<Rightarrow> ('z anchor_db_scheme, aegis_error, int) operation" where
  "generation_initialize authority_id generation db =
     (if authority_id = [] \<or> generation < 1
        then (Inl (ValueError ''invalid control-plane generation initialization''), db)
      else
        (case transaction (\<lambda>db.
            if generation_of db authority_id \<notin> {None, Some generation}
              then (Inl (ValueError ''control-plane generation already initialized''), db)
            else (Inr (), db\<lparr>d_generations := insert_or_ignore gn_authority_id
                    \<lparr>gn_authority_id = authority_id, gn_current_generation = generation\<rparr>
                    (d_generations db)\<rparr>)) db of
           (Inl e, db1) \<Rightarrow> (Inl e, db1)
         | (Inr _, db1) \<Rightarrow> (generation_current authority_id db1, db1)))"

definition generation_advance :: "string \<Rightarrow> int option \<Rightarrow> ('z anchor_db_scheme, aegis_error, int) operation" where
  "generation_advance authority_id expected_current = transaction (\<lambda>db.
     case generation_of db authority_id of
       None \<Rightarrow> (Inl (KeyError ''control-plane generation not initialized''), db)
     | Some current \<Rightarrow>
         if expected_current \<noteq> None \<and> expected_current \<noteq> Some current
           then (Inl (ValueError ''control-plane generation compare-and-swap failed''), db)
         else
           (Inr (current + 1), db\<lparr>d_generations := update_where (\<lambda>r. gn_authority_id r = authority_id)
              (\<lambda>r. r\<lparr>gn_current_generation := current + 1\<rparr>) (d_generations db)\<rparr>))"

subsection \<open>Anchored decisions\<close>

record anchored_payload =
  ap_control_plane_generation :: int
  ap_decision :: signed_decision

record anchored_decision =
  an_payload :: anchored_payload
  an_envelope_signature_b64url :: string

definition decision_fields :: "signed_decision \<Rightarrow> (string \<times> json) list" where
  "decision_fields d =
     [(''claims'', JObj (claims_fields (sd_claims d))),
      (''signature_b64url'', JStr (sd_signature_b64url d))]"

definition payload_fields :: "anchored_payload \<Rightarrow> (string \<times> json) list" where
  "payload_fields p =
     [(''schema_version'', JStr ''aegis.authz-envelope.v1''),
      (''control_plane_generation'', JInt (ap_control_plane_generation p)),
      (''decision'', JObj (decision_fields (ap_decision p)))]"

definition canonical_anchored_payload :: "anchored_payload \<Rightarrow> string" where
  "canonical_anchored_payload payload = utf8 (json_dumps False (JObj (payload_fields payload)))"

definition anchored_issue ::
  "('k \<Rightarrow> string \<Rightarrow> string) \<Rightarrow> 'k decision_signer \<Rightarrow> int \<Rightarrow> cached_decision \<Rightarrow> int
     \<Rightarrow> aegis_error + anchored_decision" where
  "anchored_issue sign signer issued_at decision generation =
     (case signer_issue sign signer issued_at decision of
        Inl e \<Rightarrow> Inl e
      | Inr signed \<Rightarrow>
          if generation < 1 then Inl (ValueError ''AnchoredAuthorizationPayload'')
          else
            (let payload = \<lparr>ap_control_plane_generation = generation, ap_decision = signed\<rparr> in
             Inr \<lparr>an_payload = payload,
                  an_envelope_signature_b64url =
                    b64url_encode (sign (sg_private_key signer) (canonical_anchored_payload payload))\<rparr>))"

definition anchored_replica_evaluate ::
  "(string \<Rightarrow> string) \<Rightarrow> ('k \<Rightarrow> string \<Rightarrow> string) \<Rightarrow> 'k decision_signer \<Rightarrow> 'z versioned_db_scheme \<Rightarrow> string \<Rightarrow> int
     \<Rightarrow> outbox_record \<Rightarrow> anchor_db \<Rightarrow> aegis_error + anchored_decision" where
  "anchored_replica_evaluate sha sign signer replica authority_id issued_at record anchors =
     (case generation_current authority_id anchors of
        Inl e \<Rightarrow> Inl e
      | Inr generation \<Rightarrow>
          (case replica_evaluate sha replica record of
             Inl e \<Rightarrow> Inl e
           | Inr decision \<Rightarrow> anchored_issue sign signer issued_at decision generation))"

subsection \<open>RollbackResistantSyntheticEffectService\<close>

definition verify_envelope_signature ::
  "(string \<Rightarrow> string \<Rightarrow> string \<Rightarrow> bool) \<Rightarrow> anchored_decision \<Rightarrow> 'z signed_db_scheme \<Rightarrow> aegis_error option" where
  "verify_envelope_signature verify envelope db =
     (let claims = sd_claims (ap_decision (an_payload envelope)) in
      case key_locked db (cl_issuer_id claims) (cl_audience claims) (cl_key_id claims) of
        None \<Rightarrow> Some (RollbackAnchorError ENVELOPE_SIGNATURE_INVALID)
      | Some key_row \<Rightarrow>
          if signature_ok verify (tk_public_key_hex key_row) (an_envelope_signature_b64url envelope)
              (canonical_anchored_payload (an_payload envelope))
            then None
          else Some (RollbackAnchorError ENVELOPE_SIGNATURE_INVALID))"

type_synonym anchored_call = "int \<times> int \<times> anchored_decision"

definition anchored_execute ::
  "(string \<Rightarrow> string) \<Rightarrow> (string \<Rightarrow> string \<Rightarrow> string \<Rightarrow> bool) \<Rightarrow> fence_config \<Rightarrow> string \<Rightarrow> anchored_call \<Rightarrow> outbox_record
     \<Rightarrow> ('z signed_db_scheme \<times> anchor_db, aegis_error, effect_execution) operation" where
  "anchored_execute sha verify config authority_id c record s =
     (case generation_of (snd s) authority_id of
        None \<Rightarrow> (Inl (RollbackAnchorError ANCHOR_NOT_INITIALIZED), s)
      | Some current_generation \<Rightarrow>
          if ap_control_plane_generation (an_payload (snd (snd c))) \<noteq> current_generation
            then (Inl (RollbackAnchorError CONTROL_PLANE_GENERATION_MISMATCH), s)
          else
            (case verify_envelope_signature verify (snd (snd c)) (fst s) of
               Some e \<Rightarrow> (Inl e, s)
             | None \<Rightarrow>
                 (case provenance_execute sha verify config
                     (fst c, fst (snd c), ap_decision (an_payload (snd (snd c)))) record (fst s) of
                    (res, db) \<Rightarrow> (res, (db, snd s)))))"

definition is_anchor_or_provenance_error :: "aegis_error \<Rightarrow> bool" where
  "is_anchor_or_provenance_error e = (case e of
     RollbackAnchorError _ \<Rightarrow> True | AuthorizationProvenanceError _ \<Rightarrow> True | _ \<Rightarrow> False)"

definition anchored_deliver ::
  "(string \<Rightarrow> string) \<Rightarrow> ('k \<Rightarrow> string \<Rightarrow> string) \<Rightarrow> (string \<Rightarrow> string \<Rightarrow> string \<Rightarrow> bool) \<Rightarrow> fence_config \<Rightarrow> string
     \<Rightarrow> 'k decision_signer \<Rightarrow> 'y versioned_db_scheme \<Rightarrow> int \<Rightarrow> int \<Rightarrow> int \<Rightarrow> int \<Rightarrow> string
     \<Rightarrow> (('z signed_db_scheme \<times> anchor_db) pipeline, aegis_error, effect_execution) operation" where
  "anchored_deliver sha sign verify config authority_id signer replica issued_at checked executed now =
     fenced_deliver (RollbackAnchorError rollback_anchor_reason.OUTBOX_CANCELLED) is_anchor_or_provenance_error
       (\<lambda>record s. anchored_replica_evaluate sha sign signer replica authority_id issued_at record (snd s))
       (\<lambda>envelope. anchored_execute sha verify config authority_id (checked, executed, envelope)) now"

subsection \<open>Generations only grow\<close>

inductive anchor_step :: "'z anchor_db_scheme \<Rightarrow> 'z anchor_db_scheme \<Rightarrow> bool" where
  initialize: "generation_initialize a g s = (res, t) \<Longrightarrow> anchor_step s t"
| advance: "generation_advance a ex s = (res, t) \<Longrightarrow> anchor_step s t"

lemma initialize_keeps:
  "generation_initialize a g s = (res, t) \<Longrightarrow> generation_of s i = Some v \<Longrightarrow> generation_of t i = Some v"
  by (auto simp: generation_initialize_def generation_of_def transaction_def row_of_insert_or_ignore
      split: if_splits)

lemma advance_Inr:
  assumes "generation_advance a ex s = (Inr n, t)"
  shows "\<exists>v. generation_of s a = Some v \<and> n = v + 1 \<and> ex \<in> {None, Some v} \<and>
    (\<forall>i. generation_of t i = (if i = a then Some n else generation_of s i))"
proof -
  from assms obtain v where v: "generation_of s a = Some v" "n = v + 1" "ex \<in> {None, Some v}" and
    t: "t = s\<lparr>d_generations := update_where (\<lambda>r. gn_authority_id r = a)
      (\<lambda>r. r\<lparr>gn_current_generation := n\<rparr>) (d_generations s)\<rparr>"
    by (auto simp: generation_advance_def split: option.splits if_splits)
  have "row_of gn_authority_id i (d_generations t) = (if i = a
      then map_option (\<lambda>r. r\<lparr>gn_current_generation := n\<rparr>) (row_of gn_authority_id a (d_generations s))
      else row_of gn_authority_id i (d_generations s))" for i
    unfolding t by (auto simp: find_update_where_same find_update_where_other)
  with v show ?thesis by (auto simp: generation_of_def)
qed

lemma anchor_step_mono:
  assumes "anchor_step s t" and "generation_of s i = Some v"
  shows "\<exists>v'. generation_of t i = Some v' \<and> v \<le> v'"
  using assms(1)
proof (cases rule: anchor_step.cases)
  case (initialize a g res)
  from initialize_keeps [OF this assms(2)] show ?thesis by simp
next
  case (advance a ex res)
  show ?thesis
  proof (cases res)
    case (Inl e)
    with advance assms(2) show ?thesis by (simp add: generation_advance_def)
  next
    case (Inr n)
    with advance advance_Inr [of a ex s n t] assms(2) show ?thesis by auto
  qed
qed

interpretation generations: monotone_register generation_of anchor_step
  by unfold_locales (rule anchor_step_mono)

interpretation anchored: effect_service "\<lambda>s. d_effect_ledger (fst s)" "anchored_execute sha verify config authority_id"
proof
  fix c o1 e x and s t :: "'z signed_db_scheme \<times> anchor_db"
  assume run: "anchored_execute sha verify config authority_id c o1 s = (Inl e, t)"
  then show "d_effect_ledger (fst t) = d_effect_ledger (fst s)"
    using provenance.exec_Inl by (fastforce simp: anchored_execute_def split: option.splits if_splits prod.splits)
next
  fix c o1 x and s t :: "'z signed_db_scheme \<times> anchor_db"
  assume run: "anchored_execute sha verify config authority_id c o1 s = (Inr x, t)"
  then obtain db where "provenance_execute sha verify config
      (fst c, fst (snd c), ap_decision (an_payload (snd (snd c)))) o1 (fst s) = (Inr x, db)" "t = (db, snd s)"
    by (auto simp: anchored_execute_def split: option.splits if_splits prod.splits)
  with provenance.exec_Inr [of sha verify config _ o1 "fst s" x db]
  show "(\<exists>l. recorded (d_effect_ledger (fst s)) o1 l \<and> t = s \<and> x = execution_of (l_effect_ref l) o1 True) \<or>
    (\<exists>now. fresh_effect (d_effect_ledger (fst s)) o1 \<and> d_effect_ledger (fst t) = d_effect_ledger (fst s) @ [new_ledger_row now o1] \<and>
      x = execution_of (effect_ref_of (o_idempotency_key o1)) o1 False)" by fastforce
qed

subsection \<open>What the envelope signature covers\<close>

lemma wf_decision: "wf_json (JObj (decision_fields d))"
  using wf_claims by (simp add: decision_fields_def)

lemma wf_payload: "wf_json (JObj (payload_fields p))"
  using wf_decision by (simp add: payload_fields_def)

lemma sort_claims_inject:
  "sort_keys (JObj (claims_fields c)) = sort_keys (JObj (claims_fields d)) \<Longrightarrow> c = d"
  by (rule canonical_claims_inject)
    (simp add: canonical_authorization_claims_def json_dumps_inject [OF wf_claims wf_claims])

lemma canonical_payload_inject:
  assumes "canonical_anchored_payload p = canonical_anchored_payload q"
  shows "p = q"
proof -
  have eq: "json_dumps False (JObj (payload_fields p)) = json_dumps False (JObj (payload_fields q))"
    using assms unfolding canonical_anchored_payload_def by simp
  have f: "map_option sort_keys (map_of (payload_fields p) k) = map_option sort_keys (map_of (payload_fields q) k)" for k
    by (rule json_dumps_field [OF eq wf_payload wf_payload])
  have g: "ap_control_plane_generation p = ap_control_plane_generation q"
    using f [of "''control_plane_generation''"] by (simp add: payload_fields_def)
  have "sort_keys (JObj (decision_fields (ap_decision p))) = sort_keys (JObj (decision_fields (ap_decision q)))"
    using f [of "''decision''"] by (simp add: payload_fields_def del: sort_keys.simps)
  from sort_keys_field [OF this]
  have d: "map_option sort_keys (map_of (decision_fields (ap_decision p)) k) =
      map_option sort_keys (map_of (decision_fields (ap_decision q)) k)" for k
    by (simp add: decision_fields_def)
  have "sd_signature_b64url (ap_decision p) = sd_signature_b64url (ap_decision q)"
    using d [of "''signature_b64url''"] by (simp add: decision_fields_def)
  moreover have "sort_keys (JObj (claims_fields (sd_claims (ap_decision p)))) =
      sort_keys (JObj (claims_fields (sd_claims (ap_decision q))))"
    using d [of "''claims''"] by (simp add: decision_fields_def del: sort_keys.simps)
  then have "sd_claims (ap_decision p) = sd_claims (ap_decision q)" by (rule sort_claims_inject)
  ultimately show ?thesis using g by simp
qed

lemma payload_is_not_claims: "canonical_anchored_payload p \<noteq> canonical_authorization_claims c"
proof
  assume "canonical_anchored_payload p = canonical_authorization_claims c"
  then have eq: "json_dumps False (JObj (payload_fields p)) = json_dumps False (JObj (claims_fields c))"
    unfolding canonical_anchored_payload_def canonical_authorization_claims_def by simp
  from json_dumps_field [OF eq wf_payload wf_claims, of "''schema_version''"] show False
    by (simp add: payload_fields_def claims_fields_def)
qed

subsection \<open>Properties\<close>

text \<open>\<^bold>\<open>C4\<close>. Rollback resistance: once the generation of the authority has passed the one in an envelope,
  the envelope is refused and nothing changes, on every execution database whatsoever, in particular
  on any old copy of it restored from a backup, and after any further generation steps.\<close>

theorem rolled_back_database_is_fenced:
  assumes "generation_of g authority_id = Some n" and "ap_control_plane_generation (an_payload envelope) < n"
    and "anchor_step\<^sup>*\<^sup>* g g'"
  shows "anchored_execute sha verify config authority_id (t1, t2, envelope) o1 (any_db, g') =
    (Inl (RollbackAnchorError CONTROL_PLANE_GENERATION_MISMATCH), (any_db, g'))"
proof -
  obtain n' where n': "generation_of g' authority_id = Some n'" "n \<le> n'"
    using generations.steps_mono [OF assms(3,1)] by blast
  with assms(2) show ?thesis by (auto simp: anchored_execute_def)
qed

theorem rolled_back_database_is_fenced_witness:
  "anchored_execute demo_sha demo_verify demo_config ''authority''
     (10, 11, \<lparr>an_payload = \<lparr>ap_control_plane_generation = 1, ap_decision = demo_signed_decision\<rparr>,
       an_envelope_signature_b64url = ''AA''\<rparr>) demo_outbox
     (demo_signed 1, snd (generation_advance ''authority'' None
        \<lparr>d_generations = [\<lparr>gn_authority_id = ''authority'', gn_current_generation = 1\<rparr>]\<rparr>)) =
   (Inl (RollbackAnchorError CONTROL_PLANE_GENERATION_MISMATCH),
     (demo_signed 1, snd (generation_advance ''authority'' None
        \<lparr>d_generations = [\<lparr>gn_authority_id = ''authority'', gn_current_generation = 1\<rparr>]\<rparr>)))"
proof -
  let ?g = "snd (generation_advance ''authority'' None
    \<lparr>d_generations = [\<lparr>gn_authority_id = ''authority'', gn_current_generation = 1\<rparr>]\<rparr>)"
  have "generation_of ?g ''authority'' = Some 2"
    by (simp add: generation_advance_def generation_of_def transaction_def update_where_def)
  then show ?thesis by (rule rolled_back_database_is_fenced [OF _ _ rtranclp.rtrancl_refl]) simp
qed

text \<open>The envelope signature is unambiguous: two payloads with the same signed bytes are the same
  payload (generation, claims and inner signature), and no payload has the signed bytes of a claim
  set, so a signature on one kind of message never passes for the other although one key signs both.\<close>

theorem signed_messages_are_unambiguous:
  "(canonical_anchored_payload p = canonical_anchored_payload q \<longleftrightarrow> p = q) \<and>
   (canonical_authorization_claims c = canonical_authorization_claims d \<longleftrightarrow> c = d) \<and>
   canonical_anchored_payload p \<noteq> canonical_authorization_claims c"
  using canonical_payload_inject canonical_claims_inject payload_is_not_claims by blast

text \<open>What can happen to the anchored pipeline: calls of the approval API, runs of the pipeline with the
  anchored worker, changes of the authorization state and of the generation, worker restarts.\<close>

inductive anchored_call ::
  "(string \<Rightarrow> string) \<Rightarrow> ('k \<Rightarrow> string \<Rightarrow> string) \<Rightarrow> (string \<Rightarrow> string \<Rightarrow> string \<Rightarrow> bool) \<Rightarrow> fence_config \<Rightarrow> string
     \<Rightarrow> (signed_db \<times> anchor_db) pipeline \<Rightarrow> (signed_db \<times> anchor_db) pipeline \<Rightarrow> bool"
  for sha sign verify config authority_id where
  approvals: "durable_step sha (pl_outbox w) db \<Longrightarrow> anchored_call sha sign verify config authority_id w (w\<lparr>pl_outbox := db\<rparr>)"
| resolve: "resolve_and_deliver sha
      (anchored_deliver sha sign verify config authority_id signer (replica :: versioned_db) t0 t1 t2 t3)
      t4 t5 i q a args w = (res, w') \<Longrightarrow> anchored_call sha sign verify config authority_id w w'"
| service: "d_effect_ledger (fst s) = d_effect_ledger (fst (pl_effects w)) \<Longrightarrow>
    anchored_call sha sign verify config authority_id w (w\<lparr>pl_effects := s\<rparr>)"
| restart: "anchored_call sha sign verify config authority_id w (w\<lparr>pl_crash_after_effect_once := b\<rparr>)"

abbreviation anchored_ledger :: "signed_db \<times> anchor_db \<Rightarrow> ledger_row list" where
  "anchored_ledger \<equiv> \<lambda>s. d_effect_ledger (fst s)"

lemma anchored_deliver_steps:
  assumes "anchored_deliver sha sign verify config authority_id signer replica t0 t1 t2 t3 j v = (x, v')"
  shows "(pipeline_step sha (\<lambda>s. d_effect_ledger (fst s)) (anchored_execute sha verify config authority_id))\<^sup>*\<^sup>* v v'"
  using assms unfolding anchored_deliver_def
  by (rule anchored.fenced_deliver_steps [where ctx = "\<lambda>d. (t1, t2, d)"])

lemma anchored_call_steps:
  assumes "anchored_call sha sign verify config authority_id w w'"
  shows "(pipeline_step sha anchored_ledger (anchored_execute sha verify config authority_id))\<^sup>*\<^sup>* w w'"
  using assms
proof (cases rule: anchored_call.cases)
  case (approvals db)
  then show ?thesis by (auto intro: pipeline_step.approvals)
next
  case (resolve signer replica t0 t1 t2 t3 t4 t5 i q a args res)
  then show ?thesis
    by (rule anchored.resolve_and_deliver_steps) (rule anchored_deliver_steps)
next
  case (service s)
  then show ?thesis by (auto intro: pipeline_step.service)
next
  case restart
  then show ?thesis by (auto intro: pipeline_step.restart)
qed

text \<open>The pipeline with the anchored worker keeps the promises of the plain one: after any sequence of
  calls every effect belongs to a consumed approval given by someone other than its requester for
  exactly that request, and there is at most one effect per approval.\<close>

theorem anchored_pipeline_is_safe:
  assumes "pipeline_inv sha anchored_ledger w0"
    and "(anchored_call sha sign verify config authority_id)\<^sup>*\<^sup>* w0 w"
  shows "(\<forall>l \<in> set (anchored_ledger (pl_effects w)). \<exists>r u.
      approval_row (pl_outbox w) (l_approval_id l) = Some r \<and> a_status r = CONSUMED \<and>
      a_approver_user_id r = Some u \<and> u \<noteq> a_requester_user_id r \<and>
      l_requester_user_id l = a_requester_user_id r \<and> l_tenant_id l = a_tenant_id r \<and>
      l_action l = a_action r \<and> l_normalized_arguments_json l = a_normalized_arguments_json r) \<and>
    (\<forall>i. count_effects i (fst (pl_effects w)) \<le> 1)"
proof -
  have "(pipeline_step sha anchored_ledger (anchored_execute sha verify config authority_id))\<^sup>*\<^sup>* w0 w"
    using assms(2) by (induction rule: rtranclp_induct) (auto dest: anchored_call_steps)
  from anchored.pipeline_inv_steps [OF this assms(1)] have inv: "pipeline_inv sha anchored_ledger w" .
  show ?thesis
    using anchored.effect_was_approved [OF inv] anchored.effects_at_most_once [OF inv]
    by (fastforce simp: count_effects_def)
qed

abbreviation demo_anchored :: "(signed_db \<times> anchor_db) pipeline" where
  "demo_anchored \<equiv> \<lparr>pl_outbox = \<lparr>d_approval_records = [decided APPROVE ''usr_dyn_carol'' 6 demo_request],
     d_approval_workflows = [], d_effect_outbox = []\<rparr>,
     pl_effects = (demo_signed 1, \<lparr>d_generations = []\<rparr>), pl_crash_after_effect_once = False\<rparr>"

theorem anchored_pipeline_is_safe_witness:
  "count_effects ''apr_t'' (fst (pl_effects (snd (resolve_and_deliver id
     (anchored_deliver id demo_sign demo_verify demo_config ''authority'' demo_signer (demo_versioned 1) 5 10 11 12)
     7 8 ''apr_t'' alice REQUEST_PASSWORD_RESET reset_args demo_anchored)))) \<le> 1"
proof -
  have "pipeline_inv id anchored_ledger demo_anchored"
    using demo_db_inv by (auto simp: pipeline_inv_def outbox_inv_def ledger_ok_def db_inv_def)
  moreover have "(anchored_call id demo_sign demo_verify demo_config ''authority'')\<^sup>*\<^sup>* demo_anchored
      (snd (resolve_and_deliver id
     (anchored_deliver id demo_sign demo_verify demo_config ''authority'' demo_signer (demo_versioned 1) 5 10 11 12)
     7 8 ''apr_t'' alice REQUEST_PASSWORD_RESET reset_args demo_anchored))"
    by (intro r_into_rtranclp anchored_call.resolve [OF surjective_pairing])
  ultimately show ?thesis using anchored_pipeline_is_safe by blast
qed

end
