(* ===== verification/Execution_Budget.thy ===== *)
theory Execution_Budget
  imports Json Exceptions Identity
begin

section \<open>Agent: the execution budget\<close>

text \<open>
  \<open>aegis/agent/execution_budget.py\<close> and the tool names and proposals of \<open>aegis/mcp_gateway/models.py\<close>.
  The clock is a function from the number of earlier readings to milliseconds, so that a run reads
  it as often as the code does; no monotonicity is assumed.
\<close>

subsection \<open>Proposals\<close>

datatype tool_name =
  SEARCH_KNOWLEDGE_BASE | GET_MY_ASSETS | CREATE_TICKET | TOOL_REQUEST_ACCESS | TOOL_REQUEST_PASSWORD_RESET

definition tool_value :: "tool_name \<Rightarrow> string" where
  "tool_value n = (case n of
     SEARCH_KNOWLEDGE_BASE \<Rightarrow> ''search_knowledge_base'' | GET_MY_ASSETS \<Rightarrow> ''get_my_assets''
   | CREATE_TICKET \<Rightarrow> ''create_ticket'' | TOOL_REQUEST_ACCESS \<Rightarrow> ''request_access''
   | TOOL_REQUEST_PASSWORD_RESET \<Rightarrow> ''request_password_reset'')"

record tool_proposal =
  pr_name :: tool_name
  pr_arguments :: "(string \<times> json) list"

subsection \<open>Limits\<close>

datatype budget_dimension =
  STEPS | MODEL_CALLS | TOOL_CALLS | RETRIES | INPUT_BYTES | CONTEXT_BYTES | RESULT_BYTES | ELAPSED_MS
| SAME_TOOL_CALLS

record budget_exceeded =
  be_dimension :: budget_dimension
  be_limit :: int
  be_observed :: int

record execution_limits =
  max_steps :: int
  max_model_calls :: int
  max_tool_calls :: int
  max_retries :: int
  max_input_bytes :: int
  max_context_bytes :: int
  max_result_bytes :: int
  max_elapsed_ms :: int
  max_same_tool_call_count :: int

definition execution_limits_check :: "execution_limits \<Rightarrow> aegis_error option" where
  "execution_limits_check l =
     (if \<exists>v \<in> set [max_steps l, max_model_calls l, max_tool_calls l, max_input_bytes l, max_context_bytes l,
         max_result_bytes l, max_elapsed_ms l, max_same_tool_call_count l]. v \<le> 0
        then Some (ValueError ''positive execution limits must be greater than zero'')
      else if max_retries l < 0 then Some (ValueError ''max_retries must be zero or greater'')
      else None)"

definition P2G_EXECUTION_LIMITS :: execution_limits where
  "P2G_EXECUTION_LIMITS = \<lparr>max_steps = 20, max_model_calls = 8, max_tool_calls = 5, max_retries = 2,
     max_input_bytes = 1024, max_context_bytes = 900, max_result_bytes = 4096, max_elapsed_ms = 5000,
     max_same_tool_call_count = 1\<rparr>"

subsection \<open>ExecutionBudget\<close>

record budget =
  b_started_ms :: int
  b_steps :: int
  b_model_calls :: int
  b_tool_calls :: int
  b_retries :: int
  b_result_bytes :: int
  b_max_context_bytes_observed :: int
  b_same_call_counts :: "string \<rightharpoonup> int"
  b_readings :: nat

type_synonym clock_ms = "nat \<Rightarrow> int"

definition str_bytes :: "string \<Rightarrow> int" where
  "str_bytes s = int (length (utf8 s))"

definition json_bytes :: "json \<Rightarrow> int" where
  "json_bytes j = int (length (utf8 (json_dumps False j)))"

definition proposal_json :: "tool_proposal \<Rightarrow> json" where
  "proposal_json p = JObj [(''name'', JStr (tool_value (pr_name p))), (''arguments'', JObj (pr_arguments p))]"

definition proposal_fingerprint :: "(string \<Rightarrow> string) \<Rightarrow> tool_proposal \<Rightarrow> string" where
  "proposal_fingerprint sha p = sha (utf8 (json_dumps False (proposal_json p)))"

definition budget_init :: "clock_ms \<Rightarrow> budget" where
  "budget_init clk =
     \<lparr>b_started_ms = clk 0, b_steps = 0, b_model_calls = 0, b_tool_calls = 0, b_retries = 0, b_result_bytes = 0,
      b_max_context_bytes_observed = 0, b_same_call_counts = Map.empty, b_readings = 1\<rparr>"

definition require :: "budget_dimension \<Rightarrow> int \<Rightarrow> int \<Rightarrow> (budget, budget_exceeded, unit) operation" where
  "require dimension observed limit b =
     (if observed > limit
        then (Inl \<lparr>be_dimension = dimension, be_limit = limit, be_observed = observed\<rparr>, b)
      else (Inr (), b))"

definition update_budget :: "(budget \<Rightarrow> budget) \<Rightarrow> (budget, budget_exceeded, unit) operation" where
  "update_budget f b = (Inr (), f b)"

definition elapsed_ms :: "clock_ms \<Rightarrow> budget \<Rightarrow> int" where
  "elapsed_ms clk b = max 0 (clk (b_readings b) - b_started_ms b)"

definition check_elapsed :: "execution_limits \<Rightarrow> clock_ms \<Rightarrow> (budget, budget_exceeded, unit) operation" where
  "check_elapsed limits clk b =
     require ELAPSED_MS (elapsed_ms clk b) (max_elapsed_ms limits) (b\<lparr>b_readings := b_readings b + 1\<rparr>)"

definition consume_step :: "execution_limits \<Rightarrow> (budget, budget_exceeded, unit) operation" where
  "consume_step limits b = op_seq (require STEPS (b_steps b + 1) (max_steps limits))
     (update_budget (\<lambda>b. b\<lparr>b_steps := b_steps b + 1\<rparr>)) b"

definition validate_input :: "execution_limits \<Rightarrow> clock_ms \<Rightarrow> string \<Rightarrow> (budget, budget_exceeded, unit) operation" where
  "validate_input limits clk input_text =
     op_seq (check_elapsed limits clk) (require INPUT_BYTES (str_bytes input_text) (max_input_bytes limits))"

definition before_model :: "execution_limits \<Rightarrow> clock_ms \<Rightarrow> string \<Rightarrow> (budget, budget_exceeded, unit) operation" where
  "before_model limits clk ctx =
     op_seq (check_elapsed limits clk)
     (op_seq (update_budget (\<lambda>b. b\<lparr>b_max_context_bytes_observed := max (b_max_context_bytes_observed b) (str_bytes ctx)\<rparr>))
     (op_seq (require CONTEXT_BYTES (str_bytes ctx) (max_context_bytes limits))
     (op_seq (consume_step limits)
     (\<lambda>b. op_seq (require MODEL_CALLS (b_model_calls b + 1) (max_model_calls limits))
        (update_budget (\<lambda>b. b\<lparr>b_model_calls := b_model_calls b + 1\<rparr>)) b))))"

definition same_count :: "budget \<Rightarrow> string \<Rightarrow> int" where
  "same_count b fingerprint = (case b_same_call_counts b fingerprint of None \<Rightarrow> 0 | Some n \<Rightarrow> n)"

definition before_tool ::
  "(string \<Rightarrow> string) \<Rightarrow> execution_limits \<Rightarrow> clock_ms \<Rightarrow> tool_proposal \<Rightarrow> (budget, budget_exceeded, unit) operation" where
  "before_tool sha limits clk proposal =
     op_seq (check_elapsed limits clk)
     (\<lambda>b. op_seq (require TOOL_CALLS (b_tool_calls b + 1) (max_tool_calls limits))
       (op_seq (require SAME_TOOL_CALLS (same_count b (proposal_fingerprint sha proposal) + 1)
                  (max_same_tool_call_count limits))
       (op_seq (consume_step limits)
         (update_budget (\<lambda>b. b\<lparr>b_tool_calls := b_tool_calls b + 1,
            b_same_call_counts := (b_same_call_counts b)(proposal_fingerprint sha proposal \<mapsto>
              same_count b (proposal_fingerprint sha proposal) + 1)\<rparr>)))) b)"

definition after_tool :: "execution_limits \<Rightarrow> clock_ms \<Rightarrow> json \<Rightarrow> (budget, budget_exceeded, unit) operation" where
  "after_tool limits clk result =
     op_seq (check_elapsed limits clk)
     (\<lambda>b. op_seq (require RESULT_BYTES (b_result_bytes b + json_bytes result) (max_result_bytes limits))
        (update_budget (\<lambda>b. b\<lparr>b_result_bytes := b_result_bytes b + json_bytes result\<rparr>)) b)"

definition record_retry :: "execution_limits \<Rightarrow> clock_ms \<Rightarrow> (budget, budget_exceeded, unit) operation" where
  "record_retry limits clk =
     op_seq (check_elapsed limits clk)
     (\<lambda>b. op_seq (require RETRIES (b_retries b + 1) (max_retries limits))
       (op_seq (consume_step limits) (update_budget (\<lambda>b. b\<lparr>b_retries := b_retries b + 1\<rparr>))) b)"

record budget_snapshot =
  sn_steps :: int
  sn_model_calls :: int
  sn_tool_calls :: int
  sn_retries :: int
  sn_result_bytes :: int
  sn_max_context_bytes_observed :: int
  sn_elapsed_ms :: int

definition snapshot :: "clock_ms \<Rightarrow> budget \<Rightarrow> budget_snapshot" where
  "snapshot clk b =
     \<lparr>sn_steps = b_steps b, sn_model_calls = b_model_calls b, sn_tool_calls = b_tool_calls b,
      sn_retries = b_retries b, sn_result_bytes = b_result_bytes b,
      sn_max_context_bytes_observed = b_max_context_bytes_observed b, sn_elapsed_ms = elapsed_ms clk b\<rparr>"

subsection \<open>No counter passes its limit\<close>

definition budget_ok :: "execution_limits \<Rightarrow> budget \<Rightarrow> bool" where
  "budget_ok l b \<longleftrightarrow>
     0 \<le> b_model_calls b \<and> b_model_calls b \<le> max_model_calls l \<and>
     0 \<le> b_tool_calls b \<and> b_tool_calls b \<le> max_tool_calls l \<and>
     0 \<le> b_retries b \<and> b_retries b \<le> max_retries l \<and>
     0 \<le> b_result_bytes b \<and> b_result_bytes b \<le> max_result_bytes l \<and>
     b_model_calls b + b_tool_calls b + b_retries b \<le> b_steps b \<and> b_steps b \<le> max_steps l \<and>
     (\<forall>f. 0 \<le> same_count b f \<and> same_count b f \<le> max_same_tool_call_count l)"

lemmas budget_steps = require_def update_budget_def check_elapsed_def consume_step_def op_seq_def

lemma budget_init_ok: "execution_limits_check l = None \<Longrightarrow> budget_ok l (budget_init clk)"
  by (auto simp: execution_limits_check_def budget_ok_def budget_init_def same_count_def split: if_splits)

lemma json_bytes_nonneg [simp]: "0 \<le> json_bytes j"
  by (simp add: json_bytes_def)

lemma same_count_simps [simp]:
  "same_count (b\<lparr>b_steps := n\<rparr>) f = same_count b f" "same_count (b\<lparr>b_readings := r\<rparr>) f = same_count b f"
  "same_count (b\<lparr>b_model_calls := n\<rparr>) f = same_count b f" "same_count (b\<lparr>b_retries := n\<rparr>) f = same_count b f"
  "same_count (b\<lparr>b_result_bytes := n\<rparr>) f = same_count b f" "same_count (b\<lparr>b_tool_calls := n\<rparr>) f = same_count b f"
  "same_count (b\<lparr>b_max_context_bytes_observed := n\<rparr>) f = same_count b f"
  "same_count (b\<lparr>b_same_call_counts := (b_same_call_counts b')(k \<mapsto> i)\<rparr>) f = (if f = k then i else same_count b' f)"
  by (simp_all add: same_count_def)

lemma validate_input_ok: "budget_ok l b \<Longrightarrow> budget_ok l (snd (validate_input l clk t b))"
  by (auto simp: validate_input_def budget_steps budget_ok_def)

lemma before_model_ok: "budget_ok l b \<Longrightarrow> budget_ok l (snd (before_model l clk t b))"
  by (auto simp: before_model_def budget_steps budget_ok_def)

lemma before_tool_ok: "budget_ok l b \<Longrightarrow> budget_ok l (snd (before_tool sha l clk p b))"
  by (auto simp: before_tool_def budget_steps budget_ok_def)

lemma after_tool_ok: "budget_ok l b \<Longrightarrow> budget_ok l (snd (after_tool l clk j b))"
  by (auto simp: after_tool_def budget_steps budget_ok_def)

lemma record_retry_ok: "budget_ok l b \<Longrightarrow> budget_ok l (snd (record_retry l clk b))"
  by (auto simp: record_retry_def budget_steps budget_ok_def)

lemmas budget_kept = validate_input_ok before_model_ok before_tool_ok after_tool_ok record_retry_ok

text \<open>What a granted request has passed, and what it leaves.\<close>

lemma before_model_Inr:
  assumes "before_model l clk ctx b = (Inr (), b')"
  shows "str_bytes ctx \<le> max_context_bytes l" "elapsed_ms clk b \<le> max_elapsed_ms l"
    "b_model_calls b' = b_model_calls b + 1" "b_tool_calls b' = b_tool_calls b" "b_retries b' = b_retries b"
    "same_count b' f = same_count b f"
  using assms by (auto simp: before_model_def budget_steps split: if_splits)

lemma before_tool_Inr:
  assumes "before_tool sha l clk p b = (Inr (), b')"
  shows "b_tool_calls b' = b_tool_calls b + 1" "b_model_calls b' = b_model_calls b" "b_retries b' = b_retries b"
    "same_count b' f = same_count b f + (if f = proposal_fingerprint sha p then 1 else 0)"
  using assms by (auto simp: before_tool_def budget_steps split: if_splits)

lemma after_tool_counts:
  "b_tool_calls (snd (after_tool l clk j b)) = b_tool_calls b" "b_model_calls (snd (after_tool l clk j b)) = b_model_calls b"
  "b_retries (snd (after_tool l clk j b)) = b_retries b" "same_count (snd (after_tool l clk j b)) f = same_count b f"
  by (auto simp: after_tool_def budget_steps)

lemma record_retry_counts:
  "b_tool_calls (snd (record_retry l clk b)) = b_tool_calls b" "b_model_calls (snd (record_retry l clk b)) = b_model_calls b"
  "same_count (snd (record_retry l clk b)) f = same_count b f"
  by (auto simp: record_retry_def budget_steps)

lemma before_tool_Inl_counts:
  assumes "before_tool sha l clk p b = (Inl e, b')"
  shows "b_tool_calls b' = b_tool_calls b" "b_model_calls b' = b_model_calls b" "same_count b' f = same_count b f"
  using assms by (auto simp: before_tool_def budget_steps split: if_splits)

lemma before_model_counts:
  "b_tool_calls (snd (before_model l clk ctx b)) = b_tool_calls b"
  "same_count (snd (before_model l clk ctx b)) f = same_count b f"
  by (auto simp: before_model_def budget_steps)

text \<open>Requests within the limits are granted, and a repeated proposal is refused.\<close>

lemma before_model_grants:
  assumes "elapsed_ms clk b \<le> max_elapsed_ms l" and "str_bytes ctx \<le> max_context_bytes l"
    and "b_steps b < max_steps l" and "b_model_calls b < max_model_calls l"
  shows "before_model l clk ctx b = (Inr (), b\<lparr>b_readings := b_readings b + 1,
    b_max_context_bytes_observed := max (b_max_context_bytes_observed b) (str_bytes ctx),
    b_steps := b_steps b + 1, b_model_calls := b_model_calls b + 1\<rparr>)"
  using assms by (simp add: before_model_def budget_steps)

lemma before_tool_grants:
  assumes "elapsed_ms clk b \<le> max_elapsed_ms l" and "b_tool_calls b < max_tool_calls l" and "b_steps b < max_steps l"
    and "same_count b (proposal_fingerprint sha p) < max_same_tool_call_count l"
  shows "before_tool sha l clk p b = (Inr (), b\<lparr>b_readings := b_readings b + 1,
    b_steps := b_steps b + 1, b_tool_calls := b_tool_calls b + 1,
    b_same_call_counts := (b_same_call_counts b)(proposal_fingerprint sha p \<mapsto> same_count b (proposal_fingerprint sha p) + 1)\<rparr>)"
  using assms by (simp add: before_tool_def budget_steps)

lemma before_tool_repeated:
  assumes "elapsed_ms clk b \<le> max_elapsed_ms l" and "b_tool_calls b < max_tool_calls l"
    and "max_same_tool_call_count l \<le> same_count b (proposal_fingerprint sha p)"
  shows "before_tool sha l clk p b =
    (Inl \<lparr>be_dimension = SAME_TOOL_CALLS, be_limit = max_same_tool_call_count l,
          be_observed = same_count b (proposal_fingerprint sha p) + 1\<rparr>, b\<lparr>b_readings := b_readings b + 1\<rparr>)"
  using assms by (simp add: before_tool_def budget_steps)

lemma after_tool_grants:
  assumes "elapsed_ms clk b \<le> max_elapsed_ms l" and "b_result_bytes b + json_bytes j \<le> max_result_bytes l"
  shows "after_tool l clk j b =
    (Inr (), b\<lparr>b_readings := b_readings b + 1, b_result_bytes := b_result_bytes b + json_bytes j\<rparr>)"
  using assms by (simp add: after_tool_def budget_steps)

lemma validate_input_grants:
  assumes "elapsed_ms clk b \<le> max_elapsed_ms l" and "str_bytes text \<le> max_input_bytes l"
  shows "validate_input l clk text b = (Inr (), b\<lparr>b_readings := b_readings b + 1\<rparr>)"
  using assms by (simp add: validate_input_def budget_steps)

end
