(* ===== verification/Bounded_Loop.thy ===== *)
theory Bounded_Loop
  imports Execution_Budget
begin

section \<open>Agent: the bounded tool loop\<close>

text \<open>
  \<open>aegis/agent/bounded_loop.py\<close> and the planner of \<open>aegis/agent/runaway_model.py\<close>. The runner is
  modelled for every planner, every gateway and every clock: the planner is a function of the
  message and the iteration, and the gateway threads a state of any type through its calls, so a
  property of all gateways says what any gateway has been asked to do. A dispatch returns a result,
  raises a \<open>ToolGatewayError\<close>, or raises something the runner does not catch.
\<close>

subsection \<open>DeterministicRunawayModel\<close>

type_synonym planner = "string \<Rightarrow> nat \<Rightarrow> tool_proposal option"

definition runaway_propose :: planner where
  "runaway_propose message iteration =
     (if message = ''attack:duplicate-ticket'' then
        Some \<lparr>pr_name = CREATE_TICKET,
              pr_arguments = [(''title'', JStr ''Synthetic loop ticket''),
                              (''description'', JStr ''Repeated by the deterministic P2-G loop model'')]\<rparr>
      else if message = ''attack:context-growth'' then
        Some \<lparr>pr_name = SEARCH_KNOWLEDGE_BASE,
              pr_arguments = [(''query'', JStr (''vpn setup deterministic-loop-'' @ str_int (int iteration))),
                              (''limit'', JInt 2)]\<rparr>
      else if message = ''benign:ticket'' then
        (if iteration = 0 then
           Some \<lparr>pr_name = CREATE_TICKET,
                 pr_arguments = [(''title'', JStr ''Synthetic benign ticket''),
                                 (''description'', JStr ''One expected help-desk action'')]\<rparr>
         else None)
      else if message = ''benign:search'' then
        (if iteration = 0 then
           Some \<lparr>pr_name = SEARCH_KNOWLEDGE_BASE,
                 pr_arguments = [(''query'', JStr ''vpn setup''), (''limit'', JInt 1)]\<rparr>
         else None)
      else None)"

subsection \<open>BoundedLoopAgentRunner\<close>

definition P2G_LAB_SAFETY_CEILING :: nat where
  "P2G_LAB_SAFETY_CEILING = 6"

datatype loop_run_status = COMPLETED | BLOCKED | LAB_CEILING

record loop_run_outcome =
  lo_status :: loop_run_status
  lo_blocked_dimension :: "budget_dimension option"
  lo_model_calls :: int
  lo_tool_attempts :: int
  lo_executed_tool_calls :: nat
  lo_retries :: int
  lo_result_bytes :: int
  lo_max_context_bytes_observed :: int
  lo_elapsed_ms :: int
  lo_tool_names :: "string list"
  lo_tool_results :: "json list"
  lo_lab_ceiling_reached :: bool

definition context_entry :: "tool_proposal \<Rightarrow> json \<Rightarrow> string" where
  "context_entry p result =
     CHR 0x0A # json_dumps False (JObj [(''tool'', JStr (tool_value (pr_name p))), (''result'', result)])"

datatype dispatch_result = Returned json | RaisedGatewayError | RaisedOther aegis_error

type_synonym 'g gateway = "tool_proposal \<Rightarrow> 'g \<Rightarrow> dispatch_result \<times> 'g"

record 'g loop_state =
  ls_budget :: budget
  ls_executed :: nat
  ls_tool_names :: "string list"
  ls_tool_results :: "json list"
  ls_context :: string
  ls_gateway :: 'g

text \<open>How the body of \<open>run\<close> ends: by one of its two \<open>return\<close> statements, or by an exception.\<close>

datatype loop_end = ReturnCompleted | ReturnCeiling | ExceptBudget budget_exceeded | ExceptOther aegis_error

definition tool_turn ::
  "(string \<Rightarrow> string) \<Rightarrow> execution_limits \<Rightarrow> clock_ms \<Rightarrow> 'g gateway \<Rightarrow> tool_proposal \<Rightarrow> 'g loop_state \<Rightarrow>
   loop_end option \<times> 'g loop_state" where
  "tool_turn sha limits clk gateway proposal st =
     (case before_tool sha limits clk proposal (ls_budget st) of
        (Inl e, b) \<Rightarrow> (Some (ExceptBudget e), st\<lparr>ls_budget := b\<rparr>)
      | (Inr _, b) \<Rightarrow>
          (case gateway proposal (ls_gateway st) of
             (RaisedOther e, g) \<Rightarrow> (Some (ExceptOther e), st\<lparr>ls_gateway := g, ls_budget := b\<rparr>)
           | (RaisedGatewayError, g) \<Rightarrow>
               (case record_retry limits clk b of
                  (Inl e, b) \<Rightarrow> (Some (ExceptBudget e), st\<lparr>ls_gateway := g, ls_budget := b\<rparr>)
                | (Inr _, b) \<Rightarrow> (None, st\<lparr>ls_gateway := g, ls_budget := b,
                                        ls_context := ls_context st @ CHR 0x0A # ''TOOL_ERROR''\<rparr>))
           | (Returned result, g) \<Rightarrow>
               (let st = st\<lparr>ls_gateway := g, ls_executed := Suc (ls_executed st),
                            ls_tool_names := ls_tool_names st @ [tool_value (pr_name proposal)],
                            ls_tool_results := ls_tool_results st @ [result]\<rparr>
                in case after_tool limits clk result b of
                     (Inl e, b) \<Rightarrow> (Some (ExceptBudget e), st\<lparr>ls_budget := b\<rparr>)
                   | (Inr _, b) \<Rightarrow> (None, st\<lparr>ls_budget := b,
                                           ls_context := ls_context st @ context_entry proposal result\<rparr>))))"

definition loop_turn ::
  "(string \<Rightarrow> string) \<Rightarrow> execution_limits \<Rightarrow> clock_ms \<Rightarrow> planner \<Rightarrow> 'g gateway \<Rightarrow> string \<Rightarrow> nat \<Rightarrow> 'g loop_state \<Rightarrow>
   loop_end option \<times> 'g loop_state" where
  "loop_turn sha limits clk model gateway message iteration st =
     (case before_model limits clk (ls_context st) (ls_budget st) of
        (Inl e, b) \<Rightarrow> (Some (ExceptBudget e), st\<lparr>ls_budget := b\<rparr>)
      | (Inr _, b) \<Rightarrow>
          (case model message iteration of
             None \<Rightarrow> (Some ReturnCompleted, st\<lparr>ls_budget := b\<rparr>)
           | Some proposal \<Rightarrow> tool_turn sha limits clk gateway proposal (st\<lparr>ls_budget := b\<rparr>)))"

fun loop_from ::
  "(string \<Rightarrow> string) \<Rightarrow> execution_limits \<Rightarrow> clock_ms \<Rightarrow> planner \<Rightarrow> 'g gateway \<Rightarrow> string \<Rightarrow>
   nat \<Rightarrow> nat \<Rightarrow> 'g loop_state \<Rightarrow> loop_end \<times> 'g loop_state" where
  "loop_from sha limits clk model gateway message iteration 0 st = (ReturnCeiling, st)"
| "loop_from sha limits clk model gateway message iteration (Suc remaining) st =
     (case loop_turn sha limits clk model gateway message iteration st of
        (Some stop, st) \<Rightarrow> (stop, st)
      | (None, st) \<Rightarrow> loop_from sha limits clk model gateway message (iteration + 1) remaining st)"

definition loop_body ::
  "(string \<Rightarrow> string) \<Rightarrow> execution_limits \<Rightarrow> nat \<Rightarrow> clock_ms \<Rightarrow> planner \<Rightarrow> 'g gateway \<Rightarrow> string \<Rightarrow> 'g \<Rightarrow>
   loop_end \<times> 'g loop_state" where
  "loop_body sha limits ceiling clk model gateway message g =
     (case validate_input limits clk message (budget_init clk) of
        (Inl e, b) \<Rightarrow> (ExceptBudget e, \<lparr>ls_budget = b, ls_executed = 0, ls_tool_names = [], ls_tool_results = [],
                                        ls_context = message, ls_gateway = g\<rparr>)
      | (Inr _, b) \<Rightarrow> loop_from sha limits clk model gateway message 0 ceiling
                        \<lparr>ls_budget = b, ls_executed = 0, ls_tool_names = [], ls_tool_results = [],
                         ls_context = message, ls_gateway = g\<rparr>)"

definition loop_outcome ::
  "clock_ms \<Rightarrow> 'g loop_state \<Rightarrow> loop_run_status \<Rightarrow> budget_dimension option \<Rightarrow> bool \<Rightarrow> int option \<Rightarrow> loop_run_outcome" where
  "loop_outcome clk st status blocked_dimension lab_ceiling_reached extra_context_bytes =
     (let s = snapshot clk (ls_budget st);
          max_context = (case extra_context_bytes of
             None \<Rightarrow> sn_max_context_bytes_observed s
           | Some extra \<Rightarrow> max (sn_max_context_bytes_observed s) extra)
      in \<lparr>lo_status = status, lo_blocked_dimension = blocked_dimension, lo_model_calls = sn_model_calls s,
          lo_tool_attempts = sn_tool_calls s, lo_executed_tool_calls = ls_executed st, lo_retries = sn_retries s,
          lo_result_bytes = sn_result_bytes s, lo_max_context_bytes_observed = max_context,
          lo_elapsed_ms = sn_elapsed_ms s, lo_tool_names = ls_tool_names st, lo_tool_results = ls_tool_results st,
          lo_lab_ceiling_reached = lab_ceiling_reached\<rparr>)"

definition loop_run ::
  "(string \<Rightarrow> string) \<Rightarrow> execution_limits \<Rightarrow> nat \<Rightarrow> clock_ms \<Rightarrow> planner \<Rightarrow> 'g gateway \<Rightarrow> string \<Rightarrow>
   ('g, aegis_error, loop_run_outcome) operation" where
  "loop_run sha limits ceiling clk model gateway message g =
     (case loop_body sha limits ceiling clk model gateway message g of
        (ReturnCompleted, st) \<Rightarrow> (Inr (loop_outcome clk st COMPLETED None False None), ls_gateway st)
      | (ReturnCeiling, st) \<Rightarrow>
          (Inr (loop_outcome clk st LAB_CEILING None True (Some (str_bytes (ls_context st)))), ls_gateway st)
      | (ExceptBudget e, st) \<Rightarrow>
          (Inr (loop_outcome clk st BLOCKED (Some (be_dimension e)) False
             (if be_dimension e = CONTEXT_BYTES then Some (be_observed e) else None)), ls_gateway st)
      | (ExceptOther e, st) \<Rightarrow> (Inl e, ls_gateway st))"

subsection \<open>The loop invariant\<close>

text \<open>
  A gateway with a record of the proposals it was asked to execute. Every gateway can be wrapped
  this way without changing what the loop sees of it.
\<close>

definition recording :: "'g gateway \<Rightarrow> (tool_proposal list \<times> 'g) gateway" where
  "recording gw p s = (case gw p (snd s) of (r, g) \<Rightarrow> (r, (fst s @ [p], g)))"

definition loop_inv ::
  "(string \<Rightarrow> string) \<Rightarrow> execution_limits \<Rightarrow> (tool_proposal list \<times> 'g) loop_state \<Rightarrow> bool" where
  "loop_inv sha l st \<longleftrightarrow> budget_ok l (ls_budget st) \<and>
     ls_executed st = length (ls_tool_names st) \<and> length (ls_tool_results st) = length (ls_tool_names st) \<and>
     length (ls_tool_names st) \<le> length (fst (ls_gateway st)) \<and>
     b_tool_calls (ls_budget st) = int (length (fst (ls_gateway st))) \<and>
     (\<forall>f. same_count (ls_budget st) f =
        int (length (filter (\<lambda>p. proposal_fingerprint sha p = f) (fst (ls_gateway st)))))"

lemma loop_inv_granted:
  assumes "loop_inv sha l st" and "before_tool sha l clk p (ls_budget st) = (Inr (), b)"
  shows "loop_inv sha l (st\<lparr>ls_gateway := (fst (ls_gateway st) @ [p], g), ls_budget := b\<rparr>)"
  using assms before_tool_ok [of l "ls_budget st" sha clk p] before_tool_Inr [OF assms(2)]
  by (simp add: loop_inv_def)

lemma loop_inv_refused:
  assumes "loop_inv sha l st" and "before_tool sha l clk p (ls_budget st) = (Inl e, b)"
  shows "loop_inv sha l (st\<lparr>ls_budget := b\<rparr>)"
  using assms before_tool_ok [of l "ls_budget st" sha clk p] before_tool_Inl_counts [OF assms(2)]
  by (simp add: loop_inv_def)

lemma loop_inv_retry:
  assumes "loop_inv sha l (st\<lparr>ls_gateway := lg, ls_budget := b\<rparr>)" and "record_retry l clk b = (r, b')"
  shows "loop_inv sha l (st\<lparr>ls_gateway := lg, ls_budget := b'\<rparr>)"
    and "loop_inv sha l (st\<lparr>ls_gateway := lg, ls_budget := b', ls_context := c\<rparr>)"
  using assms record_retry_ok [of l b clk] record_retry_counts [of l clk b] by (simp_all add: loop_inv_def)

lemma loop_inv_result:
  assumes "loop_inv sha l (st\<lparr>ls_gateway := lg, ls_budget := b\<rparr>)" and "after_tool l clk result b = (r, b')"
    and "length (ls_tool_names st) < length (fst lg)"
  shows "loop_inv sha l (st\<lparr>ls_gateway := lg, ls_executed := Suc (ls_executed st), ls_tool_names := ls_tool_names st @ [n],
           ls_tool_results := ls_tool_results st @ [result], ls_budget := b'\<rparr>)"
    and "loop_inv sha l (st\<lparr>ls_gateway := lg, ls_executed := Suc (ls_executed st), ls_tool_names := ls_tool_names st @ [n],
           ls_tool_results := ls_tool_results st @ [result], ls_budget := b', ls_context := c\<rparr>)"
  using assms after_tool_ok [of l b clk result] after_tool_counts [of l clk result b] by (simp_all add: loop_inv_def)

lemma tool_turn_inv:
  assumes "loop_inv sha l st"
  shows "loop_inv sha l (snd (tool_turn sha l clk (recording gw) p st))"
proof (cases "before_tool sha l clk p (ls_budget st)")
  case (Pair t b)
  have shorter: "length (ls_tool_names st) < length (fst (fst (ls_gateway st) @ [p], g))" for g :: 'a
    using assms by (simp add: loop_inv_def)
  from Pair show ?thesis
    using loop_inv_refused [OF assms] loop_inv_granted [OF assms]
      loop_inv_retry [OF loop_inv_granted [OF assms]] loop_inv_result [OF loop_inv_granted [OF assms] _ shorter]
    by (cases t) (auto simp: tool_turn_def recording_def Let_def split: prod.splits sum.splits dispatch_result.splits)
qed

lemma loop_turn_inv:
  assumes "loop_inv sha l st"
  shows "loop_inv sha l (snd (loop_turn sha l clk model (recording gw) message i st))"
proof -
  have "loop_inv sha l (st\<lparr>ls_budget := snd (before_model l clk (ls_context st) (ls_budget st))\<rparr>)"
    using assms before_model_counts [of l clk "ls_context st" "ls_budget st"]
    by (simp add: loop_inv_def before_model_ok)
  then show ?thesis
    by (auto simp: loop_turn_def tool_turn_inv split: prod.splits sum.splits option.splits)
qed

lemma loop_from_inv:
  assumes "loop_inv sha l st"
  shows "loop_inv sha l (snd (loop_from sha l clk model (recording gw) message i n st))"
  using assms
proof (induction n arbitrary: i st)
  case (Suc n)
  from loop_turn_inv [OF Suc.prems, of clk model gw message i] Suc.IH show ?case
    by (auto split: prod.splits option.splits)
qed simp

lemma loop_body_inv:
  assumes "execution_limits_check l = None"
  shows "loop_inv sha l (snd (loop_body sha l ceiling clk model (recording gw) message ([], g)))"
proof -
  let ?b = "snd (validate_input l clk message (budget_init clk))"
  have "budget_ok l ?b" by (intro validate_input_ok budget_init_ok assms)
  moreover have "b_tool_calls ?b = 0" "same_count ?b f = 0" for f
    by (auto simp: validate_input_def budget_steps budget_init_def same_count_def)
  ultimately have "loop_inv sha l \<lparr>ls_budget = ?b, ls_executed = 0, ls_tool_names = [], ls_tool_results = [],
      ls_context = message, ls_gateway = ([], g)\<rparr>" by (simp add: loop_inv_def)
  then show ?thesis
    by (auto simp: loop_body_def loop_from_inv split: prod.splits sum.splits)
qed

subsection \<open>Properties\<close>

definition outcome_reports :: "loop_run_outcome \<Rightarrow> 'g loop_state \<Rightarrow> bool" where
  "outcome_reports out st \<longleftrightarrow>
     lo_model_calls out = b_model_calls (ls_budget st) \<and> lo_tool_attempts out = b_tool_calls (ls_budget st) \<and>
     lo_retries out = b_retries (ls_budget st) \<and> lo_result_bytes out = b_result_bytes (ls_budget st) \<and>
     lo_executed_tool_calls out = ls_executed st \<and> lo_tool_names out = ls_tool_names st \<and>
     lo_tool_results out = ls_tool_results st \<and> (lo_status out = BLOCKED \<longleftrightarrow> lo_blocked_dimension out \<noteq> None) \<and>
     (lo_lab_ceiling_reached out \<longleftrightarrow> lo_status out = LAB_CEILING)"

lemma loop_run_inv:
  assumes "execution_limits_check l = None"
    and "loop_run sha l ceiling clk model (recording gw) message ([], g) = (r, log)"
  obtains st where "loop_inv sha l st" "ls_gateway st = log"
    "\<And>out. r = Inr out \<Longrightarrow> outcome_reports out st"
proof -
  let ?body = "loop_body sha l ceiling clk model (recording gw) message ([], g)"
  obtain how st where body: "?body = (how, st)" by fastforce
  show thesis
  proof (rule that)
    show "loop_inv sha l st"
      using loop_body_inv [OF assms(1), of sha ceiling clk model gw message g] body by simp
    show "ls_gateway st = log" using assms(2) body by (cases how) (auto simp: loop_run_def)
    show "outcome_reports out st" if "r = Inr out" for out
      using assms(2) body that by (cases how) (auto simp: loop_run_def outcome_reports_def loop_outcome_def snapshot_def Let_def)
  qed
qed

text \<open>\<^bold>\<open>C12\<close>. For every planner, every gateway and every clock, the outcome that a run reports is
  within the server-owned limits: model calls, tool attempts, retries and result bytes do not pass
  their maximum, the attempts are exactly the proposals that reached the gateway, every executed
  call has one name and one result, and a run is reported as blocked exactly when it names the
  dimension that blocked it.\<close>

theorem agent_run_stays_within_limits:
  assumes "execution_limits_check l = None"
    and "loop_run sha l ceiling clk model (recording gw) message ([], g) = (Inr out, (log, g'))"
  shows "lo_model_calls out \<le> max_model_calls l \<and> lo_tool_attempts out \<le> max_tool_calls l \<and>
    lo_retries out \<le> max_retries l \<and> lo_result_bytes out \<le> max_result_bytes l \<and>
    lo_tool_attempts out = int (length log) \<and>
    lo_executed_tool_calls out = length (lo_tool_names out) \<and>
    length (lo_tool_results out) = length (lo_tool_names out) \<and>
    int (lo_executed_tool_calls out) \<le> lo_tool_attempts out \<and>
    (lo_status out = BLOCKED \<longleftrightarrow> lo_blocked_dimension out \<noteq> None) \<and>
    (lo_lab_ceiling_reached out \<longleftrightarrow> lo_status out = LAB_CEILING)"
proof -
  obtain st where I: "loop_inv sha l st" and log: "ls_gateway st = (log, g')"
    and out: "outcome_reports out st"
    using loop_run_inv [OF assms] by metis
  then show ?thesis by (auto simp: outcome_reports_def loop_inv_def budget_ok_def)
qed

definition echo_gateway :: "nat gateway" where
  "echo_gateway p n = (Returned (JObj [(''ticket_id'', JStr ''tkt_1'')]), n + 1)"

theorem agent_run_stays_within_limits_witness:
  "\<exists>out log n. loop_run (\<lambda>s. s) P2G_EXECUTION_LIMITS 6 (\<lambda>_. 0) runaway_propose (recording echo_gateway)
     ''benign:ticket'' ([], 0) = (Inr out, (log, n)) \<and> lo_tool_attempts out = int (length log) \<and>
     lo_model_calls out \<le> 8 \<and> lo_executed_tool_calls out = length (lo_tool_names out)"
proof -
  let ?run = "loop_run (\<lambda>s. s) P2G_EXECUTION_LIMITS 6 (\<lambda>_. 0) runaway_propose (recording echo_gateway)
     ''benign:ticket'' ([], 0)"
  have check: "execution_limits_check P2G_EXECUTION_LIMITS = None" by code_simp
  have "\<not> isl (fst ?run)" by code_simp
  then obtain out log n where run: "?run = (Inr out, (log, n))" by (metis prod.collapse sum.collapse(2))
  from agent_run_stays_within_limits [OF check run] run show ?thesis by (auto simp: P2G_EXECUTION_LIMITS_def)
qed

text \<open>However a run ends, an exception the runner does not catch included, the gateway has been
  asked to execute at most \<open>max_tool_calls\<close> proposals, and the same proposal (the same tool with the
  same arguments) at most \<open>max_same_tool_call_count\<close> times.\<close>

theorem gateway_never_sees_a_proposal_too_often:
  assumes "execution_limits_check l = None"
    and "loop_run sha l ceiling clk model (recording gw) message ([], g) = (r, (log, g'))"
  shows "int (length log) \<le> max_tool_calls l \<and> int (count (mset log) p) \<le> max_same_tool_call_count l"
proof -
  obtain st where "loop_inv sha l st" "ls_gateway st = (log, g')"
    using loop_run_inv [OF assms] by metis
  then have calls: "int (length log) \<le> max_tool_calls l"
    and same: "int (length (filter (\<lambda>q. proposal_fingerprint sha q = proposal_fingerprint sha p) log))
          \<le> max_same_tool_call_count l"
    by (auto simp: loop_inv_def budget_ok_def)
  have "count (mset log) p \<le> length (filter (\<lambda>q. proposal_fingerprint sha q = proposal_fingerprint sha p) log)"
    by (induction log) auto
  with calls same show ?thesis by linarith
qed

theorem gateway_never_sees_a_proposal_too_often_witness:
  "\<exists>r log n. loop_run (\<lambda>s. s) P2G_EXECUTION_LIMITS 6 (\<lambda>_. 0) runaway_propose (recording echo_gateway)
     ''attack:context-growth'' ([], 0) = (r, (log, n)) \<and> length log \<le> 5 \<and>
     count (mset log) \<lparr>pr_name = SEARCH_KNOWLEDGE_BASE,
       pr_arguments = [(''query'', JStr ''vpn setup deterministic-loop-0''), (''limit'', JInt 2)]\<rparr> \<le> 1"
proof -
  let ?run = "loop_run (\<lambda>s. s) P2G_EXECUTION_LIMITS 6 (\<lambda>_. 0) runaway_propose (recording echo_gateway)
     ''attack:context-growth'' ([], 0)"
  have check: "execution_limits_check P2G_EXECUTION_LIMITS = None" by code_simp
  obtain r log n where run: "?run = (r, (log, n))" by (metis prod.collapse)
  from gateway_never_sees_a_proposal_too_often [OF check run, of "\<lparr>pr_name = SEARCH_KNOWLEDGE_BASE,
       pr_arguments = [(''query'', JStr ''vpn setup deterministic-loop-0''), (''limit'', JInt 2)]\<rparr>"] run
  show ?thesis by (auto simp: P2G_EXECUTION_LIMITS_def)
qed

text \<open>The runaway planner that proposes the same ticket in every iteration is stopped by the
  default limits: whatever ticket the gateway returns for the first proposal, as long as its text
  and the clock are within the limits, the run ends as blocked on repeated tool calls after exactly one
  ticket has been created.\<close>

theorem duplicate_ticket_attack_blocked:
  assumes "\<And>n. clk n - clk 0 \<le> 5000"
    and "the (runaway_propose ''attack:duplicate-ticket'' 0) = ticket"
    and "gw ticket g = (Returned result, g')"
    and "json_bytes result \<le> 4096"
    and "str_bytes (''attack:duplicate-ticket'' @ context_entry ticket result) \<le> 900"
  shows "\<exists>out. loop_run sha P2G_EXECUTION_LIMITS P2G_LAB_SAFETY_CEILING clk runaway_propose gw
      ''attack:duplicate-ticket'' g = (Inr out, g') \<and>
    lo_status out = BLOCKED \<and> lo_blocked_dimension out = Some SAME_TOOL_CALLS \<and>
    lo_executed_tool_calls out = 1 \<and> lo_tool_attempts out = 1 \<and> lo_tool_results out = [result]"
proof -
  obtain msg where msg: "msg = ''attack:duplicate-ticket''" by simp
  have t: "runaway_propose msg i = Some ticket" for i
    using assms(2) by (simp add: msg runaway_propose_def)
  have small: "str_bytes msg \<le> 900" unfolding msg by code_simp
  have time: "elapsed_ms clk b \<le> 5000" if "b_started_ms b = clk 0" for b
    using assms(1) that by (simp add: elapsed_ms_def)
  let ?L = P2G_EXECUTION_LIMITS
  let ?f = "proposal_fingerprint sha ticket"
  have L: "max_elapsed_ms ?L = 5000" "max_input_bytes ?L = 1024" "max_context_bytes ?L = 900" "max_steps ?L = 20"
    "max_model_calls ?L = 8" "max_tool_calls ?L = 5" "max_same_tool_call_count ?L = 1" "max_result_bytes ?L = 4096"
    by (simp_all add: P2G_EXECUTION_LIMITS_def)
  note grants = validate_input_grants before_model_grants before_tool_grants after_tool_grants before_tool_repeated
  let ?b = "\<lambda>steps models tools bytes seen counts n. \<lparr>b_started_ms = clk 0, b_steps = steps, b_model_calls = models,
    b_tool_calls = tools, b_retries = 0, b_result_bytes = bytes, b_max_context_bytes_observed = seen,
    b_same_call_counts = counts, b_readings = n\<rparr>"
  let ?s0 = "\<lparr>ls_budget = ?b 0 0 0 0 0 Map.empty 2, ls_executed = 0, ls_tool_names = [], ls_tool_results = [],
    ls_context = msg, ls_gateway = g\<rparr>"
  let ?seen = "max 0 (str_bytes msg)"
  let ?s1 = "\<lparr>ls_budget = ?b 2 1 1 (json_bytes result) ?seen [?f \<mapsto> 1] 5, ls_executed = 1,
    ls_tool_names = [tool_value (pr_name ticket)], ls_tool_results = [result],
    ls_context = msg @ context_entry ticket result, ls_gateway = g'\<rparr>"
  have turn1: "loop_turn sha ?L clk runaway_propose gw msg 0 ?s0 = (None, ?s1)"
    using small assms(3,4) by (simp add: loop_turn_def tool_turn_def t grants L time same_count_def)
  have turn2: "\<exists>b2 e. loop_turn sha ?L clk runaway_propose gw msg 1 ?s1 = (Some (ExceptBudget e), ?s1\<lparr>ls_budget := b2\<rparr>)
      \<and> be_dimension e = SAME_TOOL_CALLS \<and> b_tool_calls b2 = 1"
    using assms(5) unfolding msg [symmetric]
    by (simp add: loop_turn_def tool_turn_def t grants L time same_count_def)
  have start: "validate_input ?L clk msg (budget_init clk) = (Inr (), ls_budget ?s0)"
    using small by (simp add: validate_input_grants L time budget_init_def)
  obtain k where k: "P2G_LAB_SAFETY_CEILING = Suc (Suc k)" by (simp add: P2G_LAB_SAFETY_CEILING_def)
  from turn2 obtain b2 e where turn2: "be_dimension e = SAME_TOOL_CALLS" "b_tool_calls b2 = 1"
    "loop_turn sha ?L clk runaway_propose gw msg 1 ?s1 = (Some (ExceptBudget e), ?s1\<lparr>ls_budget := b2\<rparr>)" by blast
  have "loop_body sha ?L P2G_LAB_SAFETY_CEILING clk runaway_propose gw msg g = (ExceptBudget e, ?s1\<lparr>ls_budget := b2\<rparr>)"
    using start turn1 turn2(3) by (simp add: loop_body_def k)
  with turn2(1,2) show ?thesis unfolding msg [symmetric]
    by (simp add: loop_run_def loop_outcome_def snapshot_def Let_def)
qed

theorem duplicate_ticket_attack_blocked_witness:
  "\<exists>out. loop_run (\<lambda>s. s) P2G_EXECUTION_LIMITS P2G_LAB_SAFETY_CEILING (\<lambda>_. 0) runaway_propose echo_gateway
      ''attack:duplicate-ticket'' 0 = (Inr out, 1) \<and> lo_blocked_dimension out = Some SAME_TOOL_CALLS \<and>
    lo_executed_tool_calls out = 1"
proof -
  let ?t = "\<lparr>pr_name = CREATE_TICKET, pr_arguments = [(''title'', JStr ''Synthetic loop ticket''),
    (''description'', JStr ''Repeated by the deterministic P2-G loop model'')]\<rparr>"
  let ?r = "JObj [(''ticket_id'', JStr ''tkt_1'')]"
  have "the (runaway_propose ''attack:duplicate-ticket'' 0) = ?t" by (simp add: runaway_propose_def)
  moreover have "echo_gateway ?t 0 = (Returned ?r, 1)" by (simp add: echo_gateway_def)
  moreover have "json_bytes ?r \<le> 4096" by code_simp
  moreover have "str_bytes (''attack:duplicate-ticket'' @ context_entry ?t ?r) \<le> 900" by code_simp
  ultimately show ?thesis
    using duplicate_ticket_attack_blocked [of "\<lambda>_. 0" ?t echo_gateway 0 ?r 1 "\<lambda>s. s"] by auto
qed

end
