(* ===== verification/Helpdesk.thy ===== *)
theory Helpdesk
  imports Execution_Budget
begin

section \<open>Help desk: assets, tickets and the downstream inventory\<close>

text \<open>
  \<open>aegis/helpdesk\<close> (asset and ticket stores) and \<open>aegis/downstream\<close> (the synthetic inventory service,
  its credentials and the broker that holds the service credential). \<open>sha\<close> is the hex digest of
  SHA-256. The lock of the ticket store and of the audit list makes each method one step.
\<close>

subsection \<open>AssetStore\<close>

record asset_record =
  as_asset_id :: string
  as_tenant_id :: string
  as_assigned_user_id :: string
  as_asset_type :: string
  as_label :: string

record asset_view =
  av_asset_id :: string
  av_asset_type :: string
  av_label :: string

definition asset_of :: "principal \<Rightarrow> asset_record \<Rightarrow> bool" where
  "asset_of who asset \<longleftrightarrow>
     as_tenant_id asset = p_tenant_id who \<and> as_assigned_user_id asset = p_user_id who"

definition asset_view_of :: "asset_record \<Rightarrow> asset_view" where
  "asset_view_of asset =
     \<lparr>av_asset_id = as_asset_id asset, av_asset_type = as_asset_type asset, av_label = as_label asset\<rparr>"

definition asset_store_get_my_assets :: "asset_record list \<Rightarrow> principal \<Rightarrow> asset_view list" where
  "asset_store_get_my_assets assets who = map asset_view_of (filter (asset_of who) assets)"

subsection \<open>TicketStore\<close>

record ticket_record =
  tk_ticket_id :: string
  tk_tenant_id :: string
  tk_created_by_user_id :: string
  tk_title :: string
  tk_description :: string
  tk_status :: string

record ticket_store =
  ts_records :: "string \<rightharpoonup> ticket_record"
  ts_next_id :: nat

definition ticket_store_init :: ticket_store where
  "ticket_store_init = \<lparr>ts_records = Map.empty, ts_next_id = 1\<rparr>"

text \<open>The format \<^verbatim>\<open>:04d\<close>.\<close>

definition format_04d :: "nat \<Rightarrow> string" where
  "format_04d n = replicate (4 - length (digits n)) (CHR ''0'') @ digits n"

definition ticket_id_of :: "nat \<Rightarrow> string" where
  "ticket_id_of n = ''TCK-'' @ format_04d n"

definition ticket_create :: "principal \<Rightarrow> string \<Rightarrow> string \<Rightarrow> ticket_store \<Rightarrow> ticket_record \<times> ticket_store" where
  "ticket_create who title description store =
     (let record = \<lparr>tk_ticket_id = ticket_id_of (ts_next_id store), tk_tenant_id = p_tenant_id who,
                    tk_created_by_user_id = p_user_id who, tk_title = title, tk_description = description,
                    tk_status = ''created''\<rparr>
      in (record, \<lparr>ts_records = (ts_records store)(tk_ticket_id record \<mapsto> record),
                   ts_next_id = ts_next_id store + 1\<rparr>))"

definition ticket_get :: "ticket_store \<Rightarrow> string \<Rightarrow> ticket_record option" where
  "ticket_get store ticket_id = ts_records store ticket_id"

subsection \<open>Downstream credentials\<close>

definition MCP_AUDIENCE :: string where "MCP_AUDIENCE = ''urn:aegisdesk:mcp''"
definition INVENTORY_AUDIENCE :: string where "INVENTORY_AUDIENCE = ''urn:aegisdesk:synthetic-inventory''"
definition MCP_ALICE_TOKEN :: string where "MCP_ALICE_TOKEN = ''synthetic.mcp.alice.v1''"
definition MCP_BOB_TOKEN :: string where "MCP_BOB_TOKEN = ''synthetic.mcp.bob.v1''"
definition INVENTORY_ALICE_ADMIN_TOKEN :: string where
  "INVENTORY_ALICE_ADMIN_TOKEN = ''synthetic.inventory.alice.admin.v1''"
definition INVENTORY_SERVICE_TOKEN :: string where
  "INVENTORY_SERVICE_TOKEN = ''synthetic.inventory.aegisdesk.service.v1''"

record token_claims =
  tc_subject :: string
  tc_audience :: string
  tc_scopes :: "string list"
  tc_credential_class :: string

definition TOKEN_REGISTRY :: "(string \<times> token_claims) list" where
  "TOKEN_REGISTRY =
    [(MCP_ALICE_TOKEN, \<lparr>tc_subject = ''usr_dyn_alice'', tc_audience = MCP_AUDIENCE,
        tc_scopes = [''mcp:tools''], tc_credential_class = ''mcp-user''\<rparr>),
     (MCP_BOB_TOKEN, \<lparr>tc_subject = ''usr_dig_bob'', tc_audience = MCP_AUDIENCE,
        tc_scopes = [''mcp:tools''], tc_credential_class = ''mcp-user''\<rparr>),
     (INVENTORY_ALICE_ADMIN_TOKEN, \<lparr>tc_subject = ''usr_dyn_alice'', tc_audience = INVENTORY_AUDIENCE,
        tc_scopes = [''inventory:admin''], tc_credential_class = ''inventory-user-admin''\<rparr>),
     (INVENTORY_SERVICE_TOKEN, \<lparr>tc_subject = ''svc:aegisdesk'', tc_audience = INVENTORY_AUDIENCE,
        tc_scopes = [''assets:read''], tc_credential_class = ''inventory-service''\<rparr>)]"

definition resolve_synthetic_token :: "string \<Rightarrow> token_claims option" where
  "resolve_synthetic_token token = map_of TOKEN_REGISTRY token"

definition token_fingerprint :: "(string \<Rightarrow> string) \<Rightarrow> string \<Rightarrow> string" where
  "token_fingerprint sha token = ''sha256:'' @ take 16 (sha (utf8 token))"

definition validate_mcp_inbound_token :: "string \<Rightarrow> principal \<Rightarrow> aegis_error + token_claims" where
  "validate_mcp_inbound_token token who =
     (case resolve_synthetic_token token of
        None \<Rightarrow> Inl SyntheticTokenValidationError
      | Some claims \<Rightarrow>
          if tc_audience claims \<noteq> MCP_AUDIENCE then Inl SyntheticTokenValidationError
          else if tc_subject claims \<noteq> p_user_id who then Inl SyntheticTokenValidationError
          else if ''mcp:tools'' \<notin> set (tc_scopes claims) then Inl SyntheticTokenValidationError
          else Inr claims)"

subsection \<open>SyntheticInventoryService and InventoryCredentialBroker\<close>

record inventory_audit_event =
  ie_endpoint :: string
  ie_token_fingerprint :: string
  ie_credential_class :: string
  ie_token_audience :: string
  ie_token_subject :: string
  ie_authorized :: bool

record inventory_service =
  iv_assets :: "asset_record list"
  iv_events :: "inventory_audit_event list"

definition inventory_authorized :: "token_claims option \<Rightarrow> bool" where
  "inventory_authorized claims =
     (case claims of
        None \<Rightarrow> False
      | Some c \<Rightarrow> tc_audience c = INVENTORY_AUDIENCE \<and>
          (''assets:read'' \<in> set (tc_scopes c) \<or> ''inventory:admin'' \<in> set (tc_scopes c)))"

definition inventory_event :: "(string \<Rightarrow> string) \<Rightarrow> string \<Rightarrow> inventory_audit_event" where
  "inventory_event sha bearer =
     (let claims = resolve_synthetic_token bearer
      in \<lparr>ie_endpoint = ''get_my_assets'', ie_token_fingerprint = token_fingerprint sha bearer,
          ie_credential_class = (case claims of None \<Rightarrow> ''unknown'' | Some c \<Rightarrow> tc_credential_class c),
          ie_token_audience = (case claims of None \<Rightarrow> ''unknown'' | Some c \<Rightarrow> tc_audience c),
          ie_token_subject = (case claims of None \<Rightarrow> ''unknown'' | Some c \<Rightarrow> tc_subject c),
          ie_authorized = inventory_authorized claims\<rparr>)"

definition inventory_get_my_assets ::
  "(string \<Rightarrow> string) \<Rightarrow> string \<Rightarrow> principal \<Rightarrow> (inventory_service, aegis_error, asset_view list) operation" where
  "inventory_get_my_assets sha bearer who svc =
     (let svc' = svc\<lparr>iv_events := iv_events svc @ [inventory_event sha bearer]\<rparr>
      in if \<not> inventory_authorized (resolve_synthetic_token bearer) then (Inl InventoryAuthorizationError, svc')
         else (Inr (asset_store_get_my_assets (iv_assets svc') who), svc'))"

definition broker_get_my_assets ::
  "(string \<Rightarrow> string) \<Rightarrow> principal \<Rightarrow> (inventory_service, aegis_error, asset_view list) operation" where
  "broker_get_my_assets sha who = inventory_get_my_assets sha INVENTORY_SERVICE_TOKEN who"

subsection \<open>Ticket numbers\<close>

lemma nat_of_digits_zero [simp]: "nat_of_digits (CHR ''0'' # ds) = nat_of_digits ds"
  by (simp add: nat_of_digits_def)

lemma nat_of_digits_format [simp]: "nat_of_digits (format_04d n) = n"
proof -
  have "nat_of_digits (replicate k (CHR ''0'') @ ds) = nat_of_digits ds" for k ds
    by (induction k) simp_all
  then show ?thesis by (simp add: format_04d_def)
qed

lemma ticket_id_of_inject [simp]: "ticket_id_of m = ticket_id_of n \<longleftrightarrow> m = n"
  by (metis nat_of_digits_format same_append_eq ticket_id_of_def)

definition tickets_ok :: "ticket_store \<Rightarrow> bool" where
  "tickets_ok s \<longleftrightarrow> (\<forall>i r. ts_records s i = Some r \<longrightarrow> tk_ticket_id r = i \<and> (\<exists>n < ts_next_id s. i = ticket_id_of n))"

lemma tickets_ok_init: "tickets_ok ticket_store_init"
  by (simp add: tickets_ok_def ticket_store_init_def)

lemma tickets_ok_create: "tickets_ok s \<Longrightarrow> tickets_ok (snd (ticket_create p t d s))"
  by (fastforce simp: tickets_ok_def ticket_create_def Let_def less_Suc_eq)

fun create_tickets :: "(principal \<times> string \<times> string) list \<Rightarrow> ticket_store \<Rightarrow> ticket_record list \<times> ticket_store" where
  "create_tickets [] s = ([], s)"
| "create_tickets ((p, t, d) # reqs) s =
     (case ticket_create p t d s of (r, s') \<Rightarrow>
        (case create_tickets reqs s' of (rs, s'') \<Rightarrow> (r # rs, s'')))"

lemma ticket_number_fresh:
  assumes "tickets_ok s"
  shows "ts_records s (ticket_id_of (ts_next_id s)) = None"
proof (rule ccontr)
  assume "ts_records s (ticket_id_of (ts_next_id s)) \<noteq> None"
  then obtain n where "n < ts_next_id s" "ticket_id_of (ts_next_id s) = ticket_id_of n"
    using assms unfolding tickets_ok_def by blast
  then show False by simp
qed

lemma ticket_get_create:
  assumes "tickets_ok s" and "ticket_create p t d s = (r, s')"
  shows "ticket_get s (tk_ticket_id r) = None"
    and "ticket_get s' i = (if i = tk_ticket_id r then Some r else ticket_get s i)"
  using assms ticket_number_fresh [OF assms(1)] by (auto simp: ticket_create_def ticket_get_def Let_def)

lemma create_tickets_keeps:
  assumes "create_tickets reqs s = (rs, s')" and "tickets_ok s"
  shows "tickets_ok s' \<and> (\<forall>i r. ticket_get s i = Some r \<longrightarrow> ticket_get s' i = Some r) \<and>
    (\<forall>r \<in> set rs. ticket_get s' (tk_ticket_id r) = Some r \<and> ticket_get s (tk_ticket_id r) = None) \<and>
    distinct (map tk_ticket_id rs)"
  using assms
proof (induction reqs s arbitrary: rs rule: create_tickets.induct)
  case (2 p t d reqs s)
  obtain r u rs' where c: "ticket_create p t d s = (r, u)" and cs: "create_tickets reqs u = (rs', s')" and rs: "rs = r # rs'"
    using "2.prems"(1) by (auto split: prod.splits)
  have "tickets_ok u" using tickets_ok_create [OF "2.prems"(2), of p t d] c by simp
  note IH = "2.IH" [OF c [symmetric] cs this]
  note get = ticket_get_create [OF "2.prems"(2) c]
  have r: "ticket_get u (tk_ticket_id r) = Some r" using get(2) by simp
  with IH have "tk_ticket_id r \<notin> tk_ticket_id ` set rs'" by force
  moreover have "ticket_get s' i = Some q" if "ticket_get s i = Some q" for i q
    using IH get that by (metis option.distinct(1))
  moreover have "ticket_get s (tk_ticket_id q) = None" if "q \<in> set rs'" for q
    using IH get that by (metis option.distinct(1))
  ultimately show ?case using IH r rs get(1) by auto
qed simp

text \<open>Ticket numbers are never reused: whatever tickets are filed, in whatever order, all the
  returned records have different ids, each is stored under its id at the end, and no ticket that
  was there before has changed.\<close>

theorem tickets_never_overwrite:
  assumes "create_tickets reqs ticket_store_init = (rs, s)" and "create_tickets reqs' s = (rs', s')"
  shows "distinct (map tk_ticket_id (rs @ rs')) \<and> (\<forall>r \<in> set (rs @ rs'). ticket_get s' (tk_ticket_id r) = Some r)"
proof -
  note 1 = create_tickets_keeps [OF assms(1) tickets_ok_init]
  note 2 = create_tickets_keeps [OF assms(2)] 
  from 1 2 have "tk_ticket_id r \<noteq> tk_ticket_id r'" if "r \<in> set rs" "r' \<in> set rs'" for r r'
    using that by (metis option.distinct(1))
  with 1 2 show ?thesis by (auto simp: image_iff)
qed

theorem tickets_never_overwrite_witness:
  "\<exists>rs s rs' s'. create_tickets [(\<lparr>p_user_id = ''u'', p_tenant_id = ''t'', p_roles = {EMPLOYEE}\<rparr>, ''a'', ''b'')]
      ticket_store_init = (rs, s) \<and>
    create_tickets [(\<lparr>p_user_id = ''v'', p_tenant_id = ''t'', p_roles = {EMPLOYEE}\<rparr>, ''c'', ''d'')] s = (rs', s') \<and>
    length (rs @ rs') = 2 \<and> distinct (map tk_ticket_id (rs @ rs'))"
proof -
  let ?a = "[(\<lparr>p_user_id = ''u'', p_tenant_id = ''t'', p_roles = {EMPLOYEE}\<rparr>, ''a'', ''b'')]"
  let ?b = "[(\<lparr>p_user_id = ''v'', p_tenant_id = ''t'', p_roles = {EMPLOYEE}\<rparr>, ''c'', ''d'')]"
  obtain rs s where 1: "create_tickets ?a ticket_store_init = (rs, s)" by fastforce
  obtain rs' s' where 2: "create_tickets ?b s = (rs', s')" by fastforce
  have "length (rs @ rs') = 2" using 1 2 by (auto split: prod.splits)
  with tickets_never_overwrite [OF 1 2] 1 2 show ?thesis by blast
qed

subsection \<open>Reading assets\<close>

text \<open>
  The boundary \<open>AssetReader\<close> of \<open>mcp_gateway/server.py\<close>: whoever reads assets on behalf of a principal
  gets the views of the assets assigned to that principal, and reading changes no asset. The
  asset store and the broker both provide it.
\<close>

locale asset_reader =
  fixes read_assets :: "principal \<Rightarrow> ('s, aegis_error, asset_view list) operation"
    and assets :: "'s \<Rightarrow> asset_record list"
  assumes reads_own: "fst (read_assets p s) = Inr (asset_store_get_my_assets (assets s) p)"
    and assets_kept: "assets (snd (read_assets p s)) = assets s"
begin

lemma shown_assets_are_assigned:
  assumes "read_assets p s = (Inr views, s')" and "v \<in> set views"
  shows "\<exists>a \<in> set (assets s). v = asset_view_of a \<and> asset_of p a"
  using assms reads_own [of p s] by (auto simp: asset_store_get_my_assets_def)

lemma other_assets_do_not_matter:
  assumes "filter (asset_of p) (assets s) = filter (asset_of p) (assets t)"
  shows "fst (read_assets p s) = fst (read_assets p t)"
  using assms by (simp add: reads_own asset_store_get_my_assets_def)

lemma reads_keep_assets: "assets (fold (\<lambda>p s. snd (read_assets p s)) ps s) = assets s"
  by (induction ps arbitrary: s) (simp_all add: assets_kept)

end

lemma service_token_authorized [simp]: "inventory_authorized (resolve_synthetic_token INVENTORY_SERVICE_TOKEN)"
  by code_simp

interpretation store_reader: asset_reader "\<lambda>p s. (Inr (asset_store_get_my_assets s p), s)" "\<lambda>s. s"
  by unfold_locales simp_all

interpretation broker_reader: asset_reader "broker_get_my_assets sha" iv_assets for sha
  by unfold_locales (simp_all add: broker_get_my_assets_def inventory_get_my_assets_def Let_def)

text \<open>Asset isolation through the brokered downstream: whatever reads other principals made
  before, reading a principal's assets succeeds, shows only assets assigned to that user in that
  tenant, shows all of them, and does not depend on anybody else's assets.\<close>

theorem brokered_assets_are_isolated:
  assumes "filter (asset_of p) (iv_assets svc) = filter (asset_of p) (iv_assets svc')"
  shows "\<exists>views. fst (broker_get_my_assets sha p (fold (\<lambda>q s. snd (broker_get_my_assets sha q s)) qs svc)) = Inr views \<and>
    fst (broker_get_my_assets sha p svc') = Inr views \<and>
    set views = asset_view_of ` {a \<in> set (iv_assets svc). asset_of p a}"
proof -
  let ?later = "fold (\<lambda>q s. snd (broker_get_my_assets sha q s)) qs svc"
  have later: "iv_assets ?later = iv_assets svc" by (rule broker_reader.reads_keep_assets)
  then have "fst (broker_get_my_assets sha p ?later) = fst (broker_get_my_assets sha p svc')"
    using assms by (intro broker_reader.other_assets_do_not_matter) simp
  moreover have "fst (broker_get_my_assets sha p ?later) = Inr (asset_store_get_my_assets (iv_assets svc) p)"
    using broker_reader.reads_own [of sha p ?later] later by simp
  moreover have "set (asset_store_get_my_assets (iv_assets svc) p) = asset_view_of ` {a \<in> set (iv_assets svc). asset_of p a}"
    by (auto simp: asset_store_get_my_assets_def)
  ultimately show ?thesis by metis
qed

theorem brokered_assets_are_isolated_witness:
  "\<exists>views. fst (broker_get_my_assets (\<lambda>s. s) \<lparr>p_user_id = ''usr_dyn_alice'', p_tenant_id = ''t'', p_roles = {EMPLOYEE}\<rparr>
      \<lparr>iv_assets = [\<lparr>as_asset_id = ''a1'', as_tenant_id = ''t'', as_assigned_user_id = ''usr_dyn_alice'',
                     as_asset_type = ''laptop'', as_label = ''L''\<rparr>], iv_events = []\<rparr>) = Inr views \<and>
    set views = {\<lparr>av_asset_id = ''a1'', av_asset_type = ''laptop'', av_label = ''L''\<rparr>}"
proof -
  let ?p = "\<lparr>p_user_id = ''usr_dyn_alice'', p_tenant_id = ''t'', p_roles = {EMPLOYEE}\<rparr>"
  let ?a = "\<lparr>as_asset_id = ''a1'', as_tenant_id = ''t'', as_assigned_user_id = ''usr_dyn_alice'',
    as_asset_type = ''laptop'', as_label = ''L''\<rparr>"
  let ?b = "\<lparr>as_asset_id = ''b1'', as_tenant_id = ''t'', as_assigned_user_id = ''usr_dig_bob'',
    as_asset_type = ''phone'', as_label = ''P''\<rparr>"
  have "{a. a = ?a \<and> asset_of ?p a} = {?a}" by (auto simp: asset_of_def)
  then show ?thesis
    using brokered_assets_are_isolated [of ?p "\<lparr>iv_assets = [?a], iv_events = []\<rparr>"
        "\<lparr>iv_assets = [?b, ?a], iv_events = []\<rparr>" "\<lambda>s. s" "[]"]
    by (auto simp: asset_of_def asset_view_of_def)
qed

text \<open>No token passthrough: a credential that the MCP boundary accepts from a user is rejected by
  the downstream inventory for every principal, and the rejected attempt is on record as an
  unauthorized event with the credential's fingerprint and class.\<close>

theorem mcp_credential_useless_downstream:
  assumes "validate_mcp_inbound_token token p = Inr claims"
  shows "\<exists>event. inventory_get_my_assets sha token q svc =
      (Inl InventoryAuthorizationError, svc\<lparr>iv_events := iv_events svc @ [event]\<rparr>) \<and>
    \<not> ie_authorized event \<and> ie_token_fingerprint event = token_fingerprint sha token \<and>
    ie_token_subject event = p_user_id p \<and> ie_token_audience event = MCP_AUDIENCE"
  using assms
  by (auto simp: validate_mcp_inbound_token_def inventory_get_my_assets_def inventory_authorized_def
      inventory_event_def Let_def MCP_AUDIENCE_def INVENTORY_AUDIENCE_def split: option.splits if_splits)

theorem mcp_credential_useless_downstream_witness:
  "validate_mcp_inbound_token MCP_ALICE_TOKEN \<lparr>p_user_id = ''usr_dyn_alice'', p_tenant_id = ''t'', p_roles = {}\<rparr> \<noteq>
      Inl SyntheticTokenValidationError \<and>
    fst (inventory_get_my_assets (\<lambda>s. s) MCP_ALICE_TOKEN \<lparr>p_user_id = ''usr_dyn_alice'', p_tenant_id = ''t'', p_roles = {}\<rparr>
      \<lparr>iv_assets = [], iv_events = []\<rparr>) = Inl InventoryAuthorizationError"
proof -
  let ?p = "\<lparr>p_user_id = ''usr_dyn_alice'', p_tenant_id = ''t'', p_roles = {}\<rparr>"
  obtain claims where c: "validate_mcp_inbound_token MCP_ALICE_TOKEN ?p = Inr claims"
    by (auto simp: validate_mcp_inbound_token_def resolve_synthetic_token_def TOKEN_REGISTRY_def)
  from mcp_credential_useless_downstream [OF c, of "\<lambda>s. s" ?p "\<lparr>iv_assets = [], iv_events = []\<rparr>"] c
  show ?thesis by auto
qed

end
