(* ===== verification/Durable_Memory.thy ===== *)
theory Durable_Memory
  imports Helpdesk Approvals
begin

section \<open>Durable user memory\<close>

text \<open>
  \<open>aegis/memory\<close>: the SQLite table of user notes, the memory-aware service and the planning context of
  the default runtime. Stripping of whitespace is done by pydantic and is the parameter \<open>strip\<close>;
  \<open>str_of\<close> is Python's \<^verbatim>\<open>str()\<close> on the query argument, the identity on strings. Clock readings are
  arguments. \<open>INTEGER PRIMARY KEY AUTOINCREMENT\<close> is a counter that is never reset.
\<close>

subsection \<open>SqliteMemoryStore\<close>

datatype memory_source = MEMORY_USER

record memory_record =
  mm_memory_id :: int
  mm_tenant_id :: string
  mm_user_id :: string
  mm_content :: string
  mm_source :: memory_source
  mm_created_at :: int

record memory_db =
  md_rows :: "memory_record list"
  md_sequence :: int

definition memory_db_init :: memory_db where
  "memory_db_init = \<lparr>md_rows = [], md_sequence = 0\<rparr>"

definition remember_note :: "(string \<Rightarrow> string) \<Rightarrow> string \<Rightarrow> aegis_error + string" where
  "remember_note strip content =
     (let c = strip content in if 1 \<le> length c \<and> length c \<le> 2000 then Inr c else Inl ValidationError)"

definition memory_remember ::
  "(string \<Rightarrow> string) \<Rightarrow> principal \<Rightarrow> string \<Rightarrow> int \<Rightarrow> (memory_db, aegis_error, memory_record) operation" where
  "memory_remember strip who content now db =
     (case remember_note strip content of
        Inl e \<Rightarrow> (Inl e, db)
      | Inr note \<Rightarrow>
          (let row = \<lparr>mm_memory_id = md_sequence db + 1, mm_tenant_id = p_tenant_id who, mm_user_id = p_user_id who,
                      mm_content = note, mm_source = MEMORY_USER, mm_created_at = now\<rparr>
           in (Inr row, \<lparr>md_rows = md_rows db @ [row], md_sequence = md_sequence db + 1\<rparr>)))"

definition memory_of :: "principal \<Rightarrow> memory_record \<Rightarrow> bool" where
  "memory_of who row \<longleftrightarrow> mm_tenant_id row = p_tenant_id who \<and> mm_user_id row = p_user_id who"

definition list_for_principal :: "principal \<Rightarrow> int \<Rightarrow> memory_db \<Rightarrow> aegis_error + memory_record list" where
  "list_for_principal who limit db =
     (if limit < 1 \<or> limit > 100 then Inl (ValueError ''memory limit must be between 1 and 100'')
      else Inr (take (nat limit) (sort_key mm_memory_id (filter (memory_of who) (md_rows db)))))"

subsection \<open>MemoryAwareService\<close>

definition memory_recall :: "principal \<Rightarrow> memory_db \<Rightarrow> aegis_error + memory_record list" where
  "memory_recall who db = list_for_principal who 50 db"

definition memory_get_my_assets :: "asset_record list \<Rightarrow> principal \<Rightarrow> memory_db \<Rightarrow> aegis_error + asset_view list" where
  "memory_get_my_assets assets who db =
     (case memory_recall who db of Inl e \<Rightarrow> Inl e | Inr _ \<Rightarrow> Inr (asset_store_get_my_assets assets who))"

definition memory_approve_request ::
  "principal \<Rightarrow> string \<Rightarrow> int \<Rightarrow> int \<Rightarrow> memory_db \<Rightarrow> (approval_store, aegis_error, approval_record) operation" where
  "memory_approve_request who approval_id checked now db store =
     (case memory_recall who db of Inl e \<Rightarrow> (Inl e, store) | Inr _ \<Rightarrow> decide checked now approval_id who APPROVE store)"

subsection \<open>DefaultMemoryContextService\<close>

record planning_memory_context =
  pm_notes :: "string list"
  pm_rendered_context :: string

definition MEMORY_CONTEXT_LABEL :: string where "MEMORY_CONTEXT_LABEL = ''untrusted_user_memory''"

definition render_context :: "string \<Rightarrow> string list \<Rightarrow> string" where
  "render_context message notes =
     json_dumps False (JObj [(''user_message'', JStr message), (MEMORY_CONTEXT_LABEL, JList (map JStr notes))])"

function fit_search :: "(string \<Rightarrow> bool) \<Rightarrow> string \<Rightarrow> int \<Rightarrow> int \<Rightarrow> string \<Rightarrow> string" where
  "fit_search fits content low high best =
     (if low \<le> high
        then (let midpoint = (low + high) div 2; candidate = take (nat midpoint) content
              in if fits candidate then fit_search fits content (midpoint + 1) high candidate
                 else fit_search fits content low (midpoint - 1) best)
      else best)"
  by pat_completeness auto
termination by (relation "measure (\<lambda>(_, _, low, high, _). nat (high + 1 - low))") (auto simp: nat_less_iff)

declare fit_search.simps [simp del]

definition context_fits :: "string \<Rightarrow> string list \<Rightarrow> int \<Rightarrow> string \<Rightarrow> bool" where
  "context_fits message selected max_bytes content \<longleftrightarrow>
     str_bytes (render_context message (selected @ [content])) \<le> max_bytes"

definition fit_note :: "string \<Rightarrow> string list \<Rightarrow> string \<Rightarrow> int \<Rightarrow> string" where
  "fit_note message selected content max_bytes =
     (if context_fits message selected max_bytes content then content
      else fit_search (context_fits message selected max_bytes) content 0 (int (length content)) [])"

primrec select_notes :: "string \<Rightarrow> int \<Rightarrow> string list \<Rightarrow> string list \<Rightarrow> string list" where
  "select_notes message max_bytes [] selected = selected"
| "select_notes message max_bytes (content # candidates) selected =
     (let fitted = fit_note message selected content max_bytes
      in select_notes message max_bytes candidates (if fitted \<noteq> [] then selected @ [fitted] else selected))"

definition last_records :: "nat \<Rightarrow> 'a list \<Rightarrow> 'a list" where
  "last_records k xs = drop (length xs - k) xs"

definition planning_context ::
  "nat \<Rightarrow> principal \<Rightarrow> string \<Rightarrow> int \<Rightarrow> memory_db \<Rightarrow> aegis_error + planning_memory_context" where
  "planning_context max_planning_records who message max_bytes db =
     (case list_for_principal who 100 db of
        Inl e \<Rightarrow> Inl e
      | Inr records \<Rightarrow>
          (let candidates = rev (map mm_content (last_records max_planning_records records));
               base = render_context message []
           in if str_bytes base > max_bytes then Inr \<lparr>pm_notes = [], pm_rendered_context = base\<rparr>
              else let notes = select_notes message max_bytes candidates []
                   in Inr \<lparr>pm_notes = notes, pm_rendered_context = render_context message notes\<rparr>))"

definition enrich_proposal ::
  "(json \<Rightarrow> string) \<Rightarrow> tool_proposal \<Rightarrow> planning_memory_context \<Rightarrow> aegis_error + tool_proposal" where
  "enrich_proposal str_of proposal context =
     (if pr_name proposal \<noteq> SEARCH_KNOWLEDGE_BASE \<or> pm_notes context = [] then Inr proposal
      else case map_of (pr_arguments proposal) ''query'' of
             None \<Rightarrow> Inl (KeyError ''query'')
           | Some query \<Rightarrow>
               Inr (proposal\<lparr>pr_arguments := AList.update ''query''
                 (JStr (str_of query @ CHR 0x0A # MEMORY_CONTEXT_LABEL @ CHR ''='' #
                    json_text False (JList (map JStr (pm_notes context))))) (pr_arguments proposal)\<rparr>))"

text \<open>\<open>DefaultMemoryAwareAgentRunner._plan\<close>; a refusal of the budget is the left of the inner result.\<close>

definition memory_plan ::
  "(json \<Rightarrow> string) \<Rightarrow> nat \<Rightarrow> execution_limits \<Rightarrow> clock_ms \<Rightarrow> (string \<Rightarrow> tool_proposal) \<Rightarrow> principal \<Rightarrow> string \<Rightarrow>
   memory_db \<Rightarrow> budget \<Rightarrow> (aegis_error + (budget_exceeded + tool_proposal)) \<times> budget" where
  "memory_plan str_of max_planning_records limits clk propose who message db b =
     (case planning_context max_planning_records who message (max_context_bytes limits) db of
        Inl e \<Rightarrow> (Inl e, b)
      | Inr context \<Rightarrow>
          (case before_model limits clk (pm_rendered_context context) b of
             (Inl e, b) \<Rightarrow> (Inr (Inl e), b)
           | (Inr _, b) \<Rightarrow>
               (case enrich_proposal str_of (propose message) context of
                  Inl e \<Rightarrow> (Inl e, b)
                | Inr proposal \<Rightarrow> (Inr (Inr proposal), b))))"

subsection \<open>The binary search finds the longest prefix that fits\<close>

definition longest_fit :: "(string \<Rightarrow> bool) \<Rightarrow> string \<Rightarrow> string" where
  "longest_fit fits content =
     (case filter (\<lambda>k. fits (take k content)) (rev [0 ..< length content + 1]) of
        [] \<Rightarrow> [] | k # _ \<Rightarrow> take k content)"

lemma fit_search_spec:
  assumes "\<And>i j. i \<le> j \<Longrightarrow> fits (take j content) \<Longrightarrow> fits (take i content)"
    and "0 \<le> low" "low \<le> high + 1" "high \<le> int (length content)"
    and "\<And>k. int k < low \<Longrightarrow> fits (take k content)"
    and "\<And>k. high < int k \<Longrightarrow> k \<le> length content \<Longrightarrow> \<not> fits (take k content)"
    and "best = take (nat (low - 1)) content"
  shows "\<exists>n \<le> length content + 1. fit_search fits content low high best = take (n - 1) content \<and>
    (\<forall>k < n. fits (take k content)) \<and> (\<forall>k \<ge> n. k \<le> length content \<longrightarrow> \<not> fits (take k content))"
  using assms
proof (induction fits content low high best rule: fit_search.induct)
  case (1 fits content low high best)
  show ?case
  proof (cases "low \<le> high")
    case False
    with "1.prems" have "low = high + 1" by simp
    moreover have "fit_search fits content low high best = best" using False by (simp add: fit_search.simps)
    moreover have "nat high = nat (high + 1) - Suc 0" by arith
    ultimately show ?thesis using "1.prems" by (intro exI [of _ "nat low"]) auto
  next
    case True
    define m where "m = (low + high) div 2"
    have m: "low \<le> m" "m \<le> high" "0 \<le> m" using True "1.prems"(2) by (auto simp: m_def)
    show ?thesis
    proof (cases "fits (take (nat m) content)")
      case fit: True
      have "fits (take k content)" if "int k < m + 1" for k
        using "1.prems"(1) [OF _ fit, of k] that by simp
      then show ?thesis
        using "1.IH"(1) [OF True m_def refl fit "1.prems"(1)] fit True m "1.prems"
        by (subst fit_search.simps) (simp add: m_def [symmetric] Let_def)
    next
      case fit: False
      have "\<not> fits (take k content)" if "m - 1 < int k" for k
        using "1.prems"(1) [of "nat m" k] fit that nat_le_iff [of m k] by auto
      then show ?thesis
        using "1.IH"(2) [OF True m_def refl fit "1.prems"(1)] fit True m "1.prems"
        by (subst fit_search.simps) (simp add: m_def [symmetric] Let_def)
    qed
  qed
qed

lemma longest_fit_take:
  assumes "n \<le> length content + 1" and "\<And>k. k < n \<Longrightarrow> fits (take k content)"
    and "\<And>k. n \<le> k \<Longrightarrow> k \<le> length content \<Longrightarrow> \<not> fits (take k content)"
  shows "longest_fit fits content = take (n - 1) content"
proof -
  let ?P = "\<lambda>k. fits (take k content)"
  have "[0 ..< length content + 1] = [0 ..< n] @ [n ..< length content + 1]"
    using upt_add_eq_append [of 0 n "length content + 1 - n"] assms(1) by simp
  then have "filter ?P (rev [0 ..< length content + 1]) = rev (filter ?P ([0 ..< n] @ [n ..< length content + 1]))"
    by (metis rev_filter)
  also have "\<dots> = rev [0 ..< n]"
    using assms(2,3) by (auto simp: filter_id_conv filter_empty_conv)
  finally have "filter ?P (rev [0 ..< length content + 1]) = rev [0 ..< n]" .
  then show ?thesis by (cases n) (simp_all add: longest_fit_def)
qed

lemma str_bytes_append [simp]: "str_bytes (s @ t) = str_bytes s + str_bytes t" "str_bytes [] = 0"
  by (simp_all add: str_bytes_def)

lemma str_bytes_nonneg [simp]: "0 \<le> str_bytes s"
  by (simp add: str_bytes_def)

lemma str_bytes_quote_take:
  assumes "i \<le> j"
  shows "str_bytes (quote_str a (take i s)) \<le> str_bytes (quote_str a (take j s))"
proof -
  have j: "take j s = take i s @ drop i (take j s)"
    using append_take_drop_id [of i "take j s"] assms by (simp add: min_def)
  have "str_bytes (quote_str a (u @ v)) = str_bytes (quote_str a u) + str_bytes (concat (map (escape_char a) v))" for u v
    by (simp add: quote_str_def str_bytes_def)
  then show ?thesis by (metis j le_add_same_cancel1 str_bytes_nonneg)
qed

lemma join_with_snoc: "\<exists>pre. \<forall>x. join_with c (xs @ [x]) = pre @ x"
proof (induction xs rule: join_with.induct [of _ c])
  case (2 c x)
  then show ?case by (auto intro: exI [of _ "x @ [c]"])
next
  case (3 c x y zs)
  then obtain pre where "\<forall>z. join_with c ((y # zs) @ [z]) = pre @ z" by blast
  then show ?case by (intro exI [of _ "x @ c # pre"]) simp
qed simp

lemma render_context_last:
  "\<exists>pre post. \<forall>c. render_context message (selected @ [c]) = pre @ quote_str False c @ post"
proof -
  obtain pre where "\<forall>x. join_with (CHR '','') (map (json_text False) (map JStr selected) @ [x]) = pre @ x"
    using join_with_snoc [of "CHR '',''" "map (json_text False) (map JStr selected)"] by blast
  then have items: "join_with (CHR '','') (map (json_text False) (map JStr (selected @ [c]))) = pre @ quote_str False c" for c
    by simp
  have order: "MEMORY_CONTEXT_LABEL \<le> ''user_message''" "\<not> ''user_message'' \<le> MEMORY_CONTEXT_LABEL" by code_simp+
  have shape: "render_context message ns =
      CHR ''{'' # quote_str False MEMORY_CONTEXT_LABEL @ '':['' @
      join_with (CHR '','') (map (json_text False) (map JStr ns)) @ ''],'' @
      quote_str False ''user_message'' @ '':'' @ quote_str False message @ ''}''" for ns
    using order by (simp add: render_context_def json_dumps_def item_text_def comp_def)
  have "\<forall>c. render_context message (selected @ [c]) =
      (CHR ''{'' # quote_str False MEMORY_CONTEXT_LABEL @ '':['' @ pre) @ quote_str False c @
      (''],'' @ quote_str False ''user_message'' @ '':'' @ quote_str False message @ ''}'')"
    unfolding shape items by simp
  then show ?thesis by blast
qed

lemma context_fits_prefix:
  assumes "i \<le> j" and "context_fits message selected max_bytes (take j c)"
  shows "context_fits message selected max_bytes (take i c)"
proof -
  obtain pre post where "\<And>c. render_context message (selected @ [c]) = pre @ quote_str False c @ post"
    using render_context_last by metis
  with assms str_bytes_quote_take [OF assms(1), of False c] show ?thesis by (simp add: context_fits_def)
qed

lemma fit_note_longest:
  "fit_note message selected content max_bytes = longest_fit (context_fits message selected max_bytes) content"
proof (cases "context_fits message selected max_bytes content")
  case True
  have "longest_fit (context_fits message selected max_bytes) content = take (length content + 1 - 1) content"
    by (rule longest_fit_take) (use True context_fits_prefix [of _ "length content" message selected max_bytes content] in auto)
  with True show ?thesis by (simp add: fit_note_def)
next
  case False
  let ?fits = "context_fits message selected max_bytes"
  have "\<exists>n \<le> length content + 1. fit_search ?fits content 0 (int (length content)) [] = take (n - 1) content \<and>
      (\<forall>k < n. ?fits (take k content)) \<and> (\<forall>k \<ge> n. k \<le> length content \<longrightarrow> \<not> ?fits (take k content))"
    by (rule fit_search_spec, erule (1) context_fits_prefix) simp_all
  then obtain n where "n \<le> length content + 1"
      "fit_search (context_fits message selected max_bytes) content 0 (int (length content)) [] = take (n - 1) content"
      "\<forall>k < n. context_fits message selected max_bytes (take k content)"
      "\<forall>k \<ge> n. k \<le> length content \<longrightarrow> \<not> context_fits message selected max_bytes (take k content)"
    by auto
  with longest_fit_take [of n content "context_fits message selected max_bytes"] False show ?thesis
    by (simp add: fit_note_def)
qed

lemma longest_fit_fits: "longest_fit fits content \<noteq> [] \<Longrightarrow> fits (longest_fit fits content)"
proof (cases "filter (\<lambda>k. fits (take k content)) (rev [0 ..< length content + 1])")
  case (Cons k ks)
  then have "k \<in> set (filter (\<lambda>k. fits (take k content)) (rev [0 ..< length content + 1]))" by simp
  then have "fits (take k content)" by (auto split: if_splits)
  with Cons show ?thesis by (simp add: longest_fit_def)
qed (simp add: longest_fit_def)

lemma longest_fit_prefix: "\<exists>k. longest_fit fits content = take k content"
proof (cases "filter (\<lambda>k. fits (take k content)) (rev [0 ..< length content + 1])")
  case Nil
  then have "longest_fit fits content = take 0 content" by (simp add: longest_fit_def)
  then show ?thesis ..
next
  case (Cons k ks)
  then have "longest_fit fits content = take k content" by (simp add: longest_fit_def)
  then show ?thesis ..
qed

text \<open>\<^bold>\<open>C14\<close>. The binary search of \<open>_fit_note\<close> is equivalent to a linear scan: it terminates and returns the
  longest prefix of the note with which the rendered context still fits into the byte budget,
  escapes and multi-byte characters included (and the empty text when no prefix fits).\<close>

theorem fit_note_is_longest_fitting_prefix:
  "fit_note message selected content max_bytes =
     longest_fit (\<lambda>c. str_bytes (render_context message (selected @ [c])) \<le> max_bytes) content"
  using fit_note_longest [of message selected content max_bytes] by (simp add: context_fits_def [abs_def])

subsection \<open>The planning context\<close>

definition sample_alice :: principal where
  "sample_alice = \<lparr>p_user_id = ''usr_dyn_alice'', p_tenant_id = ''t'', p_roles = {EMPLOYEE}\<rparr>"

definition sample_bob :: principal where
  "sample_bob = \<lparr>p_user_id = ''usr_dyn_bob'', p_tenant_id = ''t'', p_roles = {EMPLOYEE}\<rparr>"

definition sample_planner :: "string \<Rightarrow> tool_proposal" where
  "sample_planner message = \<lparr>pr_name = SEARCH_KNOWLEDGE_BASE, pr_arguments = [(''query'', JStr message), (''limit'', JInt 3)]\<rparr>"

definition sample_str :: "json \<Rightarrow> string" where
  "sample_str j = (case j of JStr s \<Rightarrow> s | _ \<Rightarrow> ''other'')"

lemma select_notes_fits:
  assumes "str_bytes (render_context message selected) \<le> max_bytes"
  shows "str_bytes (render_context message (select_notes message max_bytes cs selected)) \<le> max_bytes"
  using assms
proof (induction cs arbitrary: selected)
  case (Cons c cs)
  show ?case
  proof (cases "fit_note message selected c max_bytes = []")
    case False
    then have "context_fits message selected max_bytes (fit_note message selected c max_bytes)"
      unfolding fit_note_longest by (rule longest_fit_fits)
    with Cons.IH False show ?thesis by (simp add: Let_def context_fits_def)
  qed (use Cons in \<open>simp add: Let_def\<close>)
qed simp

lemma select_notes_prefixes:
  assumes "n \<in> set (select_notes message max_bytes cs selected)"
  shows "n \<in> set selected \<or> (\<exists>c \<in> set cs. \<exists>k. n = take k c)"
  using assms
proof (induction cs arbitrary: selected)
  case (Cons c cs)
  then have "n \<in> set selected \<or> n = fit_note message selected c max_bytes \<or> (\<exists>c \<in> set cs. \<exists>k. n = take k c)"
    by (fastforce simp: Let_def split: if_splits)
  then show ?case using longest_fit_prefix fit_note_longest by (metis list.set_intros)
qed simp

lemma planning_context_Inr: "\<exists>c. planning_context k who message max_bytes db = Inr c"
  by (auto simp: planning_context_def list_for_principal_def Let_def)

text \<open>The notes as the sequence of requests determines them.\<close>

type_synonym remember_request = "principal \<times> string \<times> int"

definition remember_one :: "(string \<Rightarrow> string) \<Rightarrow> remember_request \<Rightarrow> memory_db \<Rightarrow> memory_db" where
  "remember_one strip req db = (case req of (who, content, now) \<Rightarrow> snd (memory_remember strip who content now db))"

definition remember_all :: "(string \<Rightarrow> string) \<Rightarrow> remember_request list \<Rightarrow> memory_db" where
  "remember_all strip reqs = fold (remember_one strip) reqs memory_db_init"

definition request_of :: "principal \<Rightarrow> remember_request \<Rightarrow> bool" where
  "request_of who req \<longleftrightarrow> p_tenant_id (fst req) = p_tenant_id who \<and> p_user_id (fst req) = p_user_id who"

definition memory_ok :: "memory_db \<Rightarrow> bool" where
  "memory_ok db \<longleftrightarrow> sorted_wrt (<) (map mm_memory_id (md_rows db)) \<and> (\<forall>r \<in> set (md_rows db). mm_memory_id r \<le> md_sequence db)"

definition own_contents :: "principal \<Rightarrow> memory_db \<Rightarrow> string list" where
  "own_contents who db = map mm_content (filter (memory_of who) (md_rows db))"

definition noted :: "(string \<Rightarrow> string) \<Rightarrow> remember_request \<Rightarrow> string list" where
  "noted strip req = (case remember_note strip (fst (snd req)) of Inl _ \<Rightarrow> [] | Inr n \<Rightarrow> [n])"

lemma remember_one_ok: "memory_ok db \<Longrightarrow> memory_ok (remember_one strip req db)"
  by (force simp: memory_ok_def remember_one_def memory_remember_def sorted_wrt_append Let_def split: prod.splits sum.splits)

lemma own_contents_remember_one:
  "own_contents who (remember_one strip req db) =
     own_contents who db @ (if request_of who req then noted strip req else [])"
  by (auto simp: own_contents_def remember_one_def memory_remember_def memory_of_def request_of_def noted_def Let_def
      split: prod.splits sum.splits)

lemma remember_all_ok: "memory_ok (remember_all strip reqs)"
  and own_contents_remember_all:
    "own_contents who (remember_all strip reqs) = concat (map (noted strip) (filter (request_of who) reqs))"
proof -
  have "memory_ok (fold (remember_one strip) reqs db)" if "memory_ok db" for db
    using that by (induction reqs arbitrary: db) (simp_all add: remember_one_ok)
  moreover have "own_contents who (fold (remember_one strip) reqs db) =
      own_contents who db @ concat (map (noted strip) (filter (request_of who) reqs))" for db
    by (induction reqs arbitrary: db) (simp_all add: own_contents_remember_one)
  moreover have "memory_ok memory_db_init" "own_contents who memory_db_init = []"
    by (simp_all add: memory_ok_def memory_db_init_def own_contents_def)
  ultimately show "memory_ok (remember_all strip reqs)"
    "own_contents who (remember_all strip reqs) = concat (map (noted strip) (filter (request_of who) reqs))"
    by (simp_all add: remember_all_def)
qed

lemma memory_ok_sorted:
  assumes "memory_ok db"
  shows "sort_key mm_memory_id (filter P (md_rows db)) = filter P (md_rows db)"
proof (rule sort_key_id_if_sorted)
  have "sorted_wrt (\<lambda>r q. mm_memory_id r < mm_memory_id q) (md_rows db)"
    using assms by (simp add: memory_ok_def sorted_wrt_map)
  then have "sorted_wrt (\<lambda>r q. mm_memory_id r < mm_memory_id q) (filter P (md_rows db))" by (rule sorted_wrt_filter)
  then show "sorted (map mm_memory_id (filter P (md_rows db)))"
    unfolding sorted_map by (rule sorted_wrt_mono_rel [rotated]) simp
qed

definition context_of :: "nat \<Rightarrow> string \<Rightarrow> int \<Rightarrow> string list \<Rightarrow> planning_memory_context" where
  "context_of k message max_bytes contents =
     (if str_bytes (render_context message []) > max_bytes
        then \<lparr>pm_notes = [], pm_rendered_context = render_context message []\<rparr>
      else (let ns = select_notes message max_bytes (rev (last_records k (take 100 contents))) []
            in \<lparr>pm_notes = ns, pm_rendered_context = render_context message ns\<rparr>))"

lemma planning_context_contents:
  assumes "memory_ok db"
  shows "planning_context k who message max_bytes db = Inr (context_of k message max_bytes (own_contents who db))"
  using assms
  by (simp add: planning_context_def list_for_principal_def memory_ok_sorted context_of_def own_contents_def
      last_records_def Let_def drop_map take_map)

text \<open>Memory isolation: the planning context of a principal depends only on that principal's own
  requests to remember something. However two histories differ in what other users or other
  tenants stored, and in how those requests are interleaved, the context is the same.\<close>

theorem planning_context_isolated:
  assumes "filter (request_of who) reqs = filter (request_of who) reqs'"
  shows "planning_context k who message max_bytes (remember_all strip reqs) =
    planning_context k who message max_bytes (remember_all strip reqs')"
  using assms by (simp add: planning_context_contents remember_all_ok own_contents_remember_all)

theorem planning_context_isolated_witness:
  "planning_context 3 sample_alice ''vpn'' 900 (remember_all (\<lambda>s. s) [(sample_alice, ''mac'', 1), (sample_bob, ''linux'', 2)]) =
   planning_context 3 sample_alice ''vpn'' 900 (remember_all (\<lambda>s. s) [(sample_bob, ''windows'', 0), (sample_alice, ''mac'', 1)])"
  by (rule planning_context_isolated) (simp add: request_of_def sample_alice_def sample_bob_def)

text \<open>Memory cannot exhaust the context budget: if the message alone fits, planning with any
  stored notes is never refused for the size of the context.\<close>

theorem memory_never_exceeds_context_budget:
  assumes "str_bytes (render_context message []) \<le> max_context_bytes l"
    and "memory_plan str_of k l clk propose who message (remember_all strip reqs) b = (Inr (Inl e), b')"
  shows "be_dimension e \<noteq> CONTEXT_BYTES"
proof -
  let ?c = "context_of k message (max_context_bytes l) (own_contents who (remember_all strip reqs))"
  have "str_bytes (pm_rendered_context ?c) \<le> max_context_bytes l"
    using assms(1) select_notes_fits by (simp add: context_of_def Let_def)
  moreover have "before_model l clk (pm_rendered_context ?c) b = (Inl e, b')"
    using assms(2) by (auto simp: memory_plan_def planning_context_contents remember_all_ok split: prod.splits sum.splits)
  ultimately show ?thesis by (auto simp: before_model_def budget_steps split: if_splits)
qed

theorem memory_never_exceeds_context_budget_witness:
  "\<exists>e b'. memory_plan sample_str 3 P2G_EXECUTION_LIMITS (\<lambda>_. 0) sample_planner sample_alice ''vpn''
      (remember_all (\<lambda>s. s) [(sample_alice, ''mac'', 1)]) ((budget_init (\<lambda>_. 0))\<lparr>b_steps := 20\<rparr>) = (Inr (Inl e), b') \<and>
    be_dimension e \<noteq> CONTEXT_BYTES"
proof -
  let ?b = "(budget_init (\<lambda>_. 0))\<lparr>b_steps := 20\<rparr>"
  let ?run = "memory_plan sample_str 3 P2G_EXECUTION_LIMITS (\<lambda>_. 0) sample_planner sample_alice ''vpn''
      (remember_all (\<lambda>s. s) [(sample_alice, ''mac'', 1)]) ?b"
  have small: "str_bytes (render_context ''vpn'' []) \<le> max_context_bytes P2G_EXECUTION_LIMITS" by code_simp
  have "\<not> isl (fst ?run) \<and> isl (projr (fst ?run))" by code_simp
  then obtain e b' where run: "?run = (Inr (Inl e), b')"
    by (metis prod.collapse sum.collapse(1) sum.collapse(2))
  from memory_never_exceeds_context_budget [OF small run] run show ?thesis by blast
qed

text \<open>Memory is data, not authority: for any two contents of the memory, the planned tool call has
  the tool that the planner chose from the message alone, and the same arguments except possibly
  the text of a search query; a call that is not a search is not changed at all.\<close>

theorem memory_changes_only_search_text:
  assumes "memory_plan str_of k l clk propose who message db b = (Inr (Inr prop), b')"
  shows "pr_name prop = pr_name (propose message) \<and>
    (\<forall>key. key \<noteq> ''query'' \<longrightarrow> map_of (pr_arguments prop) key = map_of (pr_arguments (propose message)) key) \<and>
    (pr_name prop \<noteq> SEARCH_KNOWLEDGE_BASE \<longrightarrow> prop = propose message)"
proof -
  obtain ctx where "enrich_proposal str_of (propose message) ctx = Inr prop"
    using assms by (auto simp: memory_plan_def split: prod.splits sum.splits)
  then show ?thesis by (auto simp: enrich_proposal_def update_conv' split: if_splits option.splits)
qed

theorem memory_changes_only_search_text_witness:
  "\<exists>prop b'. memory_plan sample_str 3 P2G_EXECUTION_LIMITS (\<lambda>_. 0) sample_planner sample_alice ''vpn''
      (remember_all (\<lambda>s. s) [(sample_alice, ''mac'', 1)]) (budget_init (\<lambda>_. 0)) = (Inr (Inr prop), b') \<and>
    pr_name prop = SEARCH_KNOWLEDGE_BASE \<and> map_of (pr_arguments prop) ''limit'' = Some (JInt 3)"
proof -
  let ?run = "memory_plan sample_str 3 P2G_EXECUTION_LIMITS (\<lambda>_. 0) sample_planner sample_alice ''vpn''
      (remember_all (\<lambda>s. s) [(sample_alice, ''mac'', 1)]) (budget_init (\<lambda>_. 0))"
  have "\<not> isl (fst ?run) \<and> \<not> isl (projr (fst ?run))" by code_simp
  then obtain q b' where run: "?run = (Inr (Inr q), b')" by (metis prod.collapse sum.collapse(2))
  from memory_changes_only_search_text [OF run] run show ?thesis by (auto simp: sample_planner_def)
qed

text \<open>The planning context is meant to carry the newest notes. It does not once a principal has one
  hundred notes: whatever that principal stores from then on never reaches the planning context,
  which stays what it was.\<close>

theorem newest_notes_ignored_after_one_hundred:
  assumes "100 \<le> length (own_contents who (remember_all strip reqs))"
  shows "planning_context k who message max_bytes (remember_all strip (reqs @ later)) =
    planning_context k who message max_bytes (remember_all strip reqs)"
proof -
  have "take 100 (own_contents who (remember_all strip (reqs @ later))) = take 100 (own_contents who (remember_all strip reqs))"
    using assms by (simp add: own_contents_remember_all)
  then show ?thesis by (simp add: planning_context_contents remember_all_ok context_of_def)
qed

theorem newest_notes_ignored_after_one_hundred_witness:
  "planning_context 3 sample_alice ''vpn'' 900
     (remember_all (\<lambda>s. s) (replicate 100 (sample_alice, ''old'', 1) @ [(sample_alice, ''my laptop is a mac'', 2)])) =
   planning_context 3 sample_alice ''vpn'' 900 (remember_all (\<lambda>s. s) (replicate 100 (sample_alice, ''old'', 1)))"
proof (rule newest_notes_ignored_after_one_hundred)
  have "request_of sample_alice (sample_alice, ''old'', 1)" "noted (\<lambda>s. s) (sample_alice, ''old'', 1) = [''old'']"
    by (simp_all add: request_of_def noted_def remember_note_def)
  then show "100 \<le> length (own_contents sample_alice (remember_all (\<lambda>s. s) (replicate 100 (sample_alice, ''old'', 1))))"
    by (simp add: own_contents_remember_all filter_replicate length_concat sum_list_replicate)
qed

end
