(* ===== verification/Tool_Gateway.thy ===== *)
theory Tool_Gateway
  imports Durable_Memory
begin

section \<open>The tool gateway\<close>

text \<open>
  \<open>aegis/mcp_gateway\<close> (argument models, server tools, the bound principal, the gateway) and the
  knowledge store of \<open>aegis/rag/store.py\<close>. Three libraries are parameters: pydantic's \<open>strip\<close> and its
  conversion of a value to an integer (\<open>as_int\<close>), Qdrant's \<open>query_points\<close>, and the MCP client
  (\<open>relay\<close>), which runs a tool of the server and turns its return value or its exception into a
  call result. The context variable with the trusted principal is part of the state.
\<close>

subsection \<open>KnowledgeStore\<close>

record knowledge_document =
  kd_id :: int
  kd_tenant_id :: string
  kd_title :: string
  kd_text :: string
  kd_canary :: string

record knowledge_store =
  ks_index :: "knowledge_document list"
  ks_revoked_document_ids :: "int set"

type_synonym query_points = "knowledge_document list \<Rightarrow> string \<Rightarrow> string \<Rightarrow> int \<Rightarrow> knowledge_document list"

definition knowledge_revoke :: "int \<Rightarrow> knowledge_store \<Rightarrow> knowledge_store" where
  "knowledge_revoke document_id store =
     store\<lparr>ks_revoked_document_ids := insert document_id (ks_revoked_document_ids store),
           ks_index := filter (\<lambda>d. kd_id d \<noteq> document_id) (ks_index store)\<rparr>"

record retrieved_document =
  rd_document_id :: int
  rd_tenant_id :: string
  rd_title :: string
  rd_text :: string

definition knowledge_search ::
  "query_points \<Rightarrow> principal \<Rightarrow> string \<Rightarrow> int \<Rightarrow> knowledge_store \<Rightarrow> retrieved_document list" where
  "knowledge_search query_points who query limit store =
     map (\<lambda>d. \<lparr>rd_document_id = kd_id d, rd_tenant_id = kd_tenant_id d, rd_title = kd_title d, rd_text = kd_text d\<rparr>)
       (filter (\<lambda>d. kd_id d \<notin> ks_revoked_document_ids store)
          (query_points (ks_index store) (p_tenant_id who) query limit))"

subsection \<open>Argument models\<close>

definition str_field ::
  "(string \<Rightarrow> string) \<Rightarrow> nat \<Rightarrow> (string \<times> json) list \<Rightarrow> string \<Rightarrow> json option" where
  "str_field strip max_length arguments key =
     (case map_of arguments key of
        Some (JStr s) \<Rightarrow> (let t = strip s in if 1 \<le> length t \<and> length t \<le> max_length then Some (JStr t) else None)
      | _ \<Rightarrow> None)"

definition limit_field :: "(json \<Rightarrow> int option) \<Rightarrow> (string \<times> json) list \<Rightarrow> json option" where
  "limit_field as_int arguments =
     (case map_of arguments ''limit'' of
        None \<Rightarrow> Some (JInt 3)
      | Some j \<Rightarrow> (case as_int j of
          None \<Rightarrow> None | Some i \<Rightarrow> if 1 \<le> i \<and> i \<le> 5 then Some (JInt i) else None))"

definition extra_forbidden :: "string list \<Rightarrow> (string \<times> json) list \<Rightarrow> bool" where
  "extra_forbidden allowed arguments \<longleftrightarrow> list_all (\<lambda>(k, _). k \<in> set allowed) arguments"

definition both_fields :: "string \<Rightarrow> json option \<Rightarrow> string \<Rightarrow> json option \<Rightarrow> (string \<times> json) list option" where
  "both_fields k v l w = (case (v, w) of (Some i, Some j) \<Rightarrow> Some [(k, i), (l, j)] | _ \<Rightarrow> None)"

definition model_validate ::
  "(string \<Rightarrow> string) \<Rightarrow> (json \<Rightarrow> int option) \<Rightarrow> tool_name \<Rightarrow> (string \<times> json) list \<Rightarrow> (string \<times> json) list option" where
  "model_validate strip as_int name arguments =
     (case name of
        SEARCH_KNOWLEDGE_BASE \<Rightarrow>
          if extra_forbidden [''query'', ''limit''] arguments
          then both_fields ''query'' (str_field (\<lambda>s. s) 500 arguments ''query'') ''limit'' (limit_field as_int arguments)
          else None
      | GET_MY_ASSETS \<Rightarrow> if extra_forbidden [] arguments then Some [] else None
      | CREATE_TICKET \<Rightarrow>
          if extra_forbidden [''title'', ''description''] arguments
          then both_fields ''title'' (str_field strip 120 arguments ''title'')
                 ''description'' (str_field strip 2000 arguments ''description'')
          else None
      | TOOL_REQUEST_ACCESS \<Rightarrow>
          if extra_forbidden [''resource'', ''justification''] arguments
          then both_fields ''resource'' (str_field strip 200 arguments ''resource'')
                 ''justification'' (str_field strip 1000 arguments ''justification'')
          else None
      | TOOL_REQUEST_PASSWORD_RESET \<Rightarrow>
          if extra_forbidden [''reason''] arguments
          then map_option (\<lambda>r. [(''reason'', r)]) (str_field strip 1000 arguments ''reason'')
          else None)"

definition normalize_proposal ::
  "(string \<Rightarrow> string) \<Rightarrow> (json \<Rightarrow> int option) \<Rightarrow> tool_proposal \<Rightarrow> aegis_error + tool_proposal" where
  "normalize_proposal strip as_int proposal =
     (case model_validate strip as_int (pr_name proposal) (pr_arguments proposal) of
        None \<Rightarrow> Inl (ToolValidationError (''invalid arguments for tool '' @ tool_value (pr_name proposal)))
      | Some validated \<Rightarrow> Inr (proposal\<lparr>pr_arguments := validated\<rparr>))"

subsection \<open>The server's tools\<close>

record gateway_state =
  gs_bound_principal :: "principal option"
  gs_knowledge :: knowledge_store
  gs_inventory :: inventory_service
  gs_tickets :: ticket_store
  gs_approvals :: approval_store

text \<open>What the outside world contributes to one call: the reading of the clock, the random id and nonce.\<close>

record call_env =
  ce_now :: int
  ce_token :: string
  ce_nonce :: string

definition require_bound_principal :: "gateway_state \<Rightarrow> aegis_error + principal" where
  "require_bound_principal st =
     (case gs_bound_principal st of None \<Rightarrow> Inl (RuntimeError ''trusted principal is not bound'') | Some p \<Rightarrow> Inr p)"

definition search_result_json :: "retrieved_document \<Rightarrow> json" where
  "search_result_json d =
     JObj [(''document_id'', JInt (rd_document_id d)), (''title'', JStr (rd_title d)), (''text'', JStr (rd_text d))]"

definition asset_view_json :: "asset_view \<Rightarrow> json" where
  "asset_view_json v =
     JObj [(''asset_id'', JStr (av_asset_id v)), (''asset_type'', JStr (av_asset_type v)), (''label'', JStr (av_label v))]"

definition str_arg :: "(string \<times> json) list \<Rightarrow> string \<Rightarrow> string" where
  "str_arg arguments key = (case map_of arguments key of Some (JStr s) \<Rightarrow> s | _ \<Rightarrow> [])"

definition int_arg :: "(string \<times> json) list \<Rightarrow> string \<Rightarrow> int" where
  "int_arg arguments key = (case map_of arguments key of Some (JInt i) \<Rightarrow> i | _ \<Rightarrow> 3)"

definition approval_request_output :: "(int \<Rightarrow> string) \<Rightarrow> approval_record \<Rightarrow> json" where
  "approval_request_output isoformat record =
     JObj [(''approval_id'', JStr (a_approval_id record)), (''action'', JStr (action_value (a_action record))),
           (''status'', JStr (status_value (a_status record))), (''expires_at'', JStr (isoformat (a_expires_at record)))]"

definition request_approval ::
  "(string \<Rightarrow> string) \<Rightarrow> (int \<Rightarrow> string) \<Rightarrow> call_env \<Rightarrow> principal \<Rightarrow> approval_action \<Rightarrow> json \<Rightarrow>
   (gateway_state, aegis_error, json) operation" where
  "request_approval sha isoformat env who action arguments st =
     (case create sha (ce_now env) (ce_token env) (ce_nonce env) who action arguments (gs_approvals st) of
        (Inl e, approvals) \<Rightarrow> (Inl e, st\<lparr>gs_approvals := approvals\<rparr>)
      | (Inr record, approvals) \<Rightarrow> (Inr (approval_request_output isoformat record), st\<lparr>gs_approvals := approvals\<rparr>))"

definition run_tool ::
  "(string \<Rightarrow> string) \<Rightarrow> (int \<Rightarrow> string) \<Rightarrow> query_points \<Rightarrow> call_env \<Rightarrow> tool_name \<Rightarrow> (string \<times> json) list \<Rightarrow> principal \<Rightarrow>
   (gateway_state, aegis_error, json) operation" where
  "run_tool sha isoformat query_points env name arguments who st =
     (case name of
        SEARCH_KNOWLEDGE_BASE \<Rightarrow>
          (Inr (JObj [(''results'', JList (map search_result_json
             (knowledge_search query_points who (str_arg arguments ''query'') (int_arg arguments ''limit'')
                (gs_knowledge st))))]), st)
      | GET_MY_ASSETS \<Rightarrow>
          (case broker_get_my_assets sha who (gs_inventory st) of
             (Inl e, inventory) \<Rightarrow> (Inl e, st\<lparr>gs_inventory := inventory\<rparr>)
           | (Inr views, inventory) \<Rightarrow>
               (Inr (JObj [(''assets'', JList (map asset_view_json views))]), st\<lparr>gs_inventory := inventory\<rparr>))
      | CREATE_TICKET \<Rightarrow>
          (case ticket_create who (str_arg arguments ''title'') (str_arg arguments ''description'') (gs_tickets st) of
             (record, tickets) \<Rightarrow>
               (Inr (JObj [(''ticket_id'', JStr (tk_ticket_id record)), (''status'', JStr (tk_status record)),
                           (''title'', JStr (tk_title record))]), st\<lparr>gs_tickets := tickets\<rparr>))
      | TOOL_REQUEST_ACCESS \<Rightarrow>
          request_approval sha isoformat env who REQUEST_ACCESS
            (JObj [(''resource'', JStr (str_arg arguments ''resource'')),
                   (''justification'', JStr (str_arg arguments ''justification''))]) st
      | TOOL_REQUEST_PASSWORD_RESET \<Rightarrow>
          request_approval sha isoformat env who REQUEST_PASSWORD_RESET
            (JObj [(''reason'', JStr (str_arg arguments ''reason''))]) st)"

text \<open>A tool call on the server: the principal dependency is resolved, then the tool runs.\<close>

definition server_call ::
  "(string \<Rightarrow> string) \<Rightarrow> (int \<Rightarrow> string) \<Rightarrow> query_points \<Rightarrow> call_env \<Rightarrow> tool_name \<Rightarrow> (string \<times> json) list \<Rightarrow>
   (gateway_state, aegis_error, json) operation" where
  "server_call sha isoformat query_points env name arguments st =
     (case require_bound_principal st of
        Inl e \<Rightarrow> (Inl e, st)
      | Inr who \<Rightarrow> run_tool sha isoformat query_points env name arguments who st)"

subsection \<open>ToolGateway.dispatch\<close>

record call_tool_result =
  cr_is_error :: bool
  cr_structured_content :: "json option"

type_synonym relay =
  "(gateway_state, aegis_error, json) operation \<Rightarrow> gateway_state \<Rightarrow> call_tool_result \<times> gateway_state"

definition tool_dispatch ::
  "(string \<Rightarrow> string) \<Rightarrow> (json \<Rightarrow> int option) \<Rightarrow> (string \<Rightarrow> string) \<Rightarrow> (int \<Rightarrow> string) \<Rightarrow> query_points \<Rightarrow> relay \<Rightarrow>
   call_env \<Rightarrow> principal \<Rightarrow> tool_proposal \<Rightarrow> (gateway_state, aegis_error, json) operation" where
  "tool_dispatch strip as_int sha isoformat query_points relay env who proposal st =
     (case normalize_proposal strip as_int proposal of
        Inl e \<Rightarrow> (Inl e, st)
      | Inr normalized \<Rightarrow>
          (case relay (server_call sha isoformat query_points env (pr_name normalized) (pr_arguments normalized))
                  (st\<lparr>gs_bound_principal := Some who\<rparr>) of
             (result, st') \<Rightarrow>
               (let st'' = st'\<lparr>gs_bound_principal := gs_bound_principal st\<rparr>
                in if cr_is_error result
                     then (Inl (ToolExecutionError (''tool '' @ tool_value (pr_name normalized) @ '' failed'')), st'')
                   else case cr_structured_content result of
                     None \<Rightarrow> (Inl (ToolExecutionError
                       (''tool '' @ tool_value (pr_name normalized) @ '' returned no structured output'')), st'')
                   | Some content \<Rightarrow> (Inr content, st''))))"

text \<open>The documented behaviour of the MCP client: the tool runs once, an exception comes back as an error result.\<close>

definition faithful_relay :: relay where
  "faithful_relay tool st =
     (case tool st of
        (Inl e, st') \<Rightarrow> (\<lparr>cr_is_error = True, cr_structured_content = None\<rparr>, st')
      | (Inr j, st') \<Rightarrow> (\<lparr>cr_is_error = False, cr_structured_content = Some j\<rparr>, st'))"

subsection \<open>Normalization\<close>

lemma both_fields_Some [simp]:
  "both_fields k v l w = Some args \<longleftrightarrow> (\<exists>i j. v = Some i \<and> w = Some j \<and> args = [(k, i), (l, j)])"
  by (auto simp: both_fields_def split: option.splits)

lemma str_field_Some:
  "str_field strip n args k = Some j \<longleftrightarrow>
     (\<exists>s. map_of args k = Some (JStr s) \<and> j = JStr (strip s) \<and> 1 \<le> length (strip s) \<and> length (strip s) \<le> n)"
  by (auto simp: str_field_def Let_def split: option.splits json.splits if_splits)

lemma limit_field_Some:
  assumes "limit_field as_int args = Some j"
  obtains i where "j = JInt i" "1 \<le> i" "i \<le> 5"
  using assms by (auto simp: limit_field_def split: option.splits if_splits)

lemma model_validate_again:
  assumes "\<And>s. strip (strip s) = strip s" and "\<And>i. as_int (JInt i) = Some i"
    and "model_validate strip as_int name args = Some args'"
  shows "model_validate strip as_int name args' = Some args'"
proof (cases name)
  case SEARCH_KNOWLEDGE_BASE
  with assms(3) obtain q j where j: "limit_field as_int args = Some j"
    and args: "args' = [(''query'', JStr q), (''limit'', j)]" "1 \<le> length q" "length q \<le> 500"
    by (auto simp: model_validate_def str_field_Some split: if_splits)
  from limit_field_Some [OF j] obtain i where "j = JInt i" "1 \<le> i" "i \<le> 5" .
  with SEARCH_KNOWLEDGE_BASE args show ?thesis
    by (simp add: model_validate_def extra_forbidden_def str_field_def limit_field_def assms(2))
qed (use assms(1,3) in \<open>auto simp: model_validate_def str_field_Some extra_forbidden_def split: if_splits\<close>)

text \<open>Normalizing a proposal twice is the same as normalizing it once. The agent normalizes a
  proposal before it binds the workflow context and the gateway normalizes it again before the call,
  so the arguments that are executed are the arguments that were checked.\<close>

theorem normalize_proposal_idempotent:
  assumes "\<And>s. strip (strip s) = strip s" and "\<And>i. as_int (JInt i) = Some i"
    and "normalize_proposal strip as_int p = Inr q"
  shows "normalize_proposal strip as_int q = Inr q \<and> pr_name q = pr_name p"
  using assms(3) model_validate_again [OF assms(1,2)]
  by (auto simp: normalize_proposal_def split: option.splits)

definition int_only :: "json \<Rightarrow> int option" where
  "int_only j = (case j of JInt i \<Rightarrow> Some i | _ \<Rightarrow> None)"

theorem normalize_proposal_idempotent_witness:
  "normalize_proposal (\<lambda>s. s) int_only (sample_planner ''vpn'') = Inr (sample_planner ''vpn'') \<and>
   pr_name (sample_planner ''vpn'') = SEARCH_KNOWLEDGE_BASE"
proof -
  have "normalize_proposal (\<lambda>s. s) int_only (sample_planner ''vpn'') = Inr (sample_planner ''vpn'')" by code_simp
  from normalize_proposal_idempotent [OF _ _ this] show ?thesis by (simp add: int_only_def sample_planner_def)
qed

text \<open>A long enough memory disables search: as soon as the query and the notes that were selected
  for it are together longer than the query field allows, the enriched proposal is rejected as
  invalid, although the context budget accepted the notes and the query alone was valid.\<close>

theorem long_memory_breaks_search:
  assumes "pr_name p = SEARCH_KNOWLEDGE_BASE" and "map_of (pr_arguments p) ''query'' = Some (JStr q)"
    and "str_of (JStr q) = q" and "pm_notes ctx \<noteq> []"
    and "500 < length q + 23 + sum_list (map length (pm_notes ctx))"
    and "enrich_proposal str_of p ctx = Inr p'"
  shows "normalize_proposal strip as_int p' = Inl (ToolValidationError ''invalid arguments for tool search_knowledge_base'')"
proof -
  let ?blob = "json_text False (JList (map JStr (pm_notes ctx)))"
  have esc: "1 \<le> length (escape_char False c)" for c by (simp add: escape_char_def Let_def)
  have "length s \<le> length (concat (map (escape_char False) s))" for s
  proof (induction s)
    case (Cons a s)
    with esc [of a] show ?case by (simp only: concat.simps list.map length_append list.size)
  qed simp
  then have quote: "length s \<le> length (json_text False (JStr s))" for s by (simp add: quote_str_def le_SucI)
  have "sum_list (map length ns) \<le> length (join_with (CHR '','') (map (json_text False) (map JStr ns)))" for ns
  proof (induction ns rule: induct_list012)
    case (3 x y zs)
    then show ?case using quote [of x] by simp
  qed (use quote in simp_all)
  then have "sum_list (map length (pm_notes ctx)) \<le> length ?blob" by (metis json_text.simps(5) le_SucI length_Cons length_append trans_le_add1)
  moreover have "map_of (pr_arguments p') ''query'' = Some (JStr (q @ CHR 0x0A # MEMORY_CONTEXT_LABEL @ CHR ''='' # ?blob))"
    and "pr_name p' = SEARCH_KNOWLEDGE_BASE"
    using assms by (auto simp: enrich_proposal_def update_conv')
  ultimately show ?thesis using assms(5)
    by (simp add: normalize_proposal_def model_validate_def str_field_def both_fields_def tool_value_def MEMORY_CONTEXT_LABEL_def)
qed

theorem long_memory_breaks_search_witness:
  "\<exists>ctx p'. planning_context 3 sample_alice ''vpn'' 900
      (remember_all (\<lambda>s. s) [(sample_alice, replicate 480 (CHR ''a''), 1)]) = Inr ctx \<and>
    enrich_proposal sample_str (sample_planner ''vpn'') ctx = Inr p' \<and>
    normalize_proposal (\<lambda>s. s) int_only p' = Inl (ToolValidationError ''invalid arguments for tool search_knowledge_base'')"
proof -
  let ?note = "replicate 480 (CHR ''a'')"
  let ?db = "remember_all (\<lambda>s. s) [(sample_alice, ?note, 1)]"
  let ?ctx = "context_of 3 ''vpn'' 900 [?note]"
  have ctx: "planning_context 3 sample_alice ''vpn'' 900 ?db = Inr ?ctx"
    by (simp add: planning_context_contents remember_all_ok own_contents_remember_all request_of_def noted_def remember_note_def)
  have ns: "pm_notes ?ctx = [?note]" by code_simp
  obtain p' where p': "enrich_proposal sample_str (sample_planner ''vpn'') ?ctx = Inr p'"
    using ns by (auto simp: enrich_proposal_def sample_planner_def)
  have "normalize_proposal (\<lambda>s. s) int_only p' = Inl (ToolValidationError ''invalid arguments for tool search_knowledge_base'')"
    by (rule long_memory_breaks_search [OF _ _ _ _ _ p', of "''vpn''"])
      (simp_all add: ns sample_planner_def sample_str_def)
  with ctx p' show ?thesis by blast
qed

subsection \<open>Search\<close>

text \<open>A revoked document is never returned again, by any later search of any principal, even if the
  vector index is stale and still delivers it; and documents of another tenant are never returned,
  given that the index honours the tenant filter it is passed.\<close>

theorem revoked_documents_never_returned:
  assumes "\<And>ds t q n d. d \<in> set (query_points ds t q n) \<Longrightarrow> kd_tenant_id d = t"
    and "r \<in> set (knowledge_search query_points who query limit (fold knowledge_revoke later (knowledge_revoke i store)))"
  shows "rd_document_id r \<noteq> i \<and> rd_tenant_id r = p_tenant_id who"
proof -
  have "i \<in> ks_revoked_document_ids (fold knowledge_revoke later s)" if "i \<in> ks_revoked_document_ids s" for s
    using that by (induction later arbitrary: s) (simp_all add: knowledge_revoke_def)
  then have "i \<in> ks_revoked_document_ids (fold knowledge_revoke later (knowledge_revoke i store))"
    by (simp add: knowledge_revoke_def)
  with assms show ?thesis by (auto simp: knowledge_search_def)
qed

definition linear_index :: query_points where
  "linear_index ds t q n = take (nat n) (filter (\<lambda>d. kd_tenant_id d = t) ds)"

theorem revoked_documents_never_returned_witness:
  "\<exists>r. r \<in> set (knowledge_search linear_index sample_alice ''vpn'' 3 (fold knowledge_revoke []
      (knowledge_revoke 1 \<lparr>ks_index = [\<lparr>kd_id = 2, kd_tenant_id = ''t'', kd_title = ''vpn'', kd_text = ''x'', kd_canary = ''c''\<rparr>],
        ks_revoked_document_ids = {}\<rparr>))) \<and> rd_document_id r \<noteq> 1 \<and> rd_tenant_id r = p_tenant_id sample_alice"
proof -
  let ?s = "\<lparr>ks_index = [\<lparr>kd_id = 2, kd_tenant_id = ''t'', kd_title = ''vpn'', kd_text = ''x'', kd_canary = ''c''\<rparr>],
        ks_revoked_document_ids = {}\<rparr>"
  have "\<exists>r. r \<in> set (knowledge_search linear_index sample_alice ''vpn'' 3 (fold knowledge_revoke [] (knowledge_revoke 1 ?s)))"
    by (simp add: knowledge_search_def knowledge_revoke_def linear_index_def sample_alice_def)
  then obtain r where r: "r \<in> set (knowledge_search linear_index sample_alice ''vpn'' 3 (fold knowledge_revoke [] (knowledge_revoke 1 ?s)))" ..
  moreover have "kd_tenant_id d = t" if "d \<in> set (linear_index ds t q n)" for d ds t q n
    using that by (auto simp: linear_index_def dest: in_set_takeD)
  ultimately show ?thesis using revoked_documents_never_returned [OF _ r] by blast
qed

subsection \<open>Dispatch acts in the caller's name\<close>

text \<open>
  What a tool may change: \<open>create_ticket\<close> adds one ticket of the caller under a number that was free, the two requests write one
  pending approval of the caller under the identifier drawn for it, and reading the assets adds one event to the downstream audit.
\<close>

definition adds_ticket :: "principal \<Rightarrow> ticket_store \<Rightarrow> ticket_store \<Rightarrow> bool" where
  "adds_ticket who s s' \<longleftrightarrow> (\<exists>t. ts_records s (tk_ticket_id t) = None \<and>
     s' = \<lparr>ts_records = (ts_records s)(tk_ticket_id t \<mapsto> t), ts_next_id = ts_next_id s + 1\<rparr> \<and>
     tk_tenant_id t = p_tenant_id who \<and> tk_created_by_user_id t = p_user_id who)"

definition adds_request :: "principal \<Rightarrow> string \<Rightarrow> approval_action \<Rightarrow> approval_store \<Rightarrow> approval_store \<Rightarrow> bool" where
  "adds_request who token action s s' \<longleftrightarrow> (\<exists>a. s' = s\<lparr>s_records := (s_records s)(''apr_'' @ token \<mapsto> a)\<rparr> \<and>
     a_approval_id a = ''apr_'' @ token \<and> a_requester_user_id a = p_user_id who \<and> a_tenant_id a = p_tenant_id who \<and>
     a_action a = action \<and> a_status a = PENDING)"

definition in_name_of :: "principal \<Rightarrow> string \<Rightarrow> tool_name \<Rightarrow> gateway_state \<Rightarrow> gateway_state \<Rightarrow> bool" where
  "in_name_of who token name st st' \<longleftrightarrow>
     (gs_tickets st' = gs_tickets st \<or> name = CREATE_TICKET \<and> adds_ticket who (gs_tickets st) (gs_tickets st')) \<and>
     (gs_approvals st' = gs_approvals st \<or>
        name = TOOL_REQUEST_ACCESS \<and> adds_request who token REQUEST_ACCESS (gs_approvals st) (gs_approvals st') \<or>
        name = TOOL_REQUEST_PASSWORD_RESET \<and> adds_request who token REQUEST_PASSWORD_RESET (gs_approvals st) (gs_approvals st')) \<and>
     (gs_inventory st' = gs_inventory st \<or> name = GET_MY_ASSETS \<and>
        (\<exists>event. gs_inventory st' = (gs_inventory st)\<lparr>iv_events := iv_events (gs_inventory st) @ [event]\<rparr>)) \<and>
     gs_knowledge st' = gs_knowledge st"

lemma in_name_of_refl [simp]: "in_name_of who token name st st"
  by (simp add: in_name_of_def)

lemma in_name_of_bound [simp]:
  "in_name_of who token name (st\<lparr>gs_bound_principal := b\<rparr>) st' = in_name_of who token name st st'"
  "in_name_of who token name st (st'\<lparr>gs_bound_principal := b\<rparr>) = in_name_of who token name st st'"
  by (simp_all add: in_name_of_def)

lemma ticket_create_adds: "tickets_ok s \<Longrightarrow> ticket_create who title description s = (r, s') \<Longrightarrow> adds_ticket who s s'"
  by (auto simp: adds_ticket_def ticket_create_def Let_def ticket_number_fresh intro!: exI [of _ r])

lemma broker_appends_event:
  "\<exists>event. snd (broker_get_my_assets sha who svc) = svc\<lparr>iv_events := iv_events svc @ [event]\<rparr>"
  by (auto simp: broker_get_my_assets_def inventory_get_my_assets_def Let_def)

lemma request_approval_adds:
  obtains approvals where "snd (request_approval sha isoformat env who action arguments st) = st\<lparr>gs_approvals := approvals\<rparr>"
    "adds_request who (ce_token env) action (gs_approvals st) approvals"
proof
  let ?a = "new_record sha (s_ttl (gs_approvals st)) (ce_now env) (ce_token env) (ce_nonce env) who action arguments"
  have id: "a_approval_id ?a = ''apr_'' @ ce_token env" by (simp add: new_record_def Let_def)
  show "snd (request_approval sha isoformat env who action arguments st) = st\<lparr>gs_approvals := put_record (''apr_'' @ ce_token env) ?a (gs_approvals st)\<rparr>"
    unfolding request_approval_def create_def Let_def id by simp
  show "adds_request who (ce_token env) action (gs_approvals st) (put_record (''apr_'' @ ce_token env) ?a (gs_approvals st))"
    unfolding adds_request_def by (intro exI [of _ ?a]) (simp add: new_record_def Let_def)
qed

lemma request_approval_in_name:
  assumes "name = TOOL_REQUEST_ACCESS \<and> action = REQUEST_ACCESS \<or> name = TOOL_REQUEST_PASSWORD_RESET \<and> action = REQUEST_PASSWORD_RESET"
  shows "in_name_of who (ce_token env) name st (snd (request_approval sha isoformat env who action arguments st))"
  by (rule request_approval_adds [of sha isoformat env who action arguments st]) (use assms in \<open>auto simp: in_name_of_def\<close>)

lemma run_tool_in_name:
  assumes "tickets_ok (gs_tickets st)"
  shows "in_name_of who (ce_token env) name st (snd (run_tool sha isoformat qp env name arguments who st))"
proof (cases name)
  case GET_MY_ASSETS
  with broker_appends_event [of sha who "gs_inventory st"] show ?thesis
    by (auto simp: run_tool_def in_name_of_def split: prod.splits sum.splits)
next
  case CREATE_TICKET
  then show ?thesis using ticket_create_adds [OF assms, of who] by (auto simp: run_tool_def in_name_of_def split: prod.splits)
qed (simp_all add: run_tool_def request_approval_in_name)


text \<open>\<^bold>\<open>C13\<close>. Whatever a model proposes, a dispatch acts only in the name of the authenticated caller and changes nothing
  else. With a ticket store as the code numbers it and a client that runs the tool once: at most one ticket is written, by \<open>create_ticket\<close>, for the caller's user and
  tenant and under a number that was free; at most one approval record, by the two request tools, as a pending request of the
  caller under the identifier drawn for it (which replaces a record only if the random identifier was in use); at most one audit event of the inventory, by \<open>get_my_assets\<close>. Every other ticket and
  approval, every asset and document stays as it was, so no tool call approves or executes a high-impact action. Afterwards the
  principal that was bound before is bound again, whether the call returned or raised.\<close>

theorem dispatch_acts_for_the_caller:
  assumes "tickets_ok (gs_tickets st)"
    and "tool_dispatch strip as_int sha isoformat qp faithful_relay env who proposal st = (res, st')"
  shows "in_name_of who (ce_token env) (pr_name proposal) st st' \<and> gs_bound_principal st' = gs_bound_principal st"
proof (cases "normalize_proposal strip as_int proposal")
  case (Inl e)
  with assms(2) show ?thesis by (simp add: tool_dispatch_def)
next
  case (Inr normalized)
  then have name: "pr_name normalized = pr_name proposal" by (auto simp: normalize_proposal_def split: option.splits)
  let ?bound = "st\<lparr>gs_bound_principal := Some who\<rparr>"
  have "in_name_of who (ce_token env) (pr_name proposal) st st2"
    if "faithful_relay (server_call sha isoformat qp env (pr_name proposal) args) ?bound = (r, st2)" for args r st2
    using run_tool_in_name [of ?bound who env "pr_name proposal" sha isoformat qp args] that assms(1)
    by (auto simp: faithful_relay_def server_call_def require_bound_principal_def split: prod.splits sum.splits)
  with Inr assms(2) name show ?thesis
    by (auto simp: tool_dispatch_def Let_def split: prod.splits sum.splits option.splits if_splits)
qed

definition desk_ticket :: ticket_record where
  "desk_ticket = \<lparr>tk_ticket_id = ticket_id_of 1, tk_tenant_id = ''other'', tk_created_by_user_id = ''usr_dig_bob'', tk_title = ''vpn'',
     tk_description = ''broken'', tk_status = ''created''\<rparr>"

definition desk_state :: gateway_state where
  "desk_state = \<lparr>gs_bound_principal = None, gs_knowledge = \<lparr>ks_index = [], ks_revoked_document_ids = {}\<rparr>,
     gs_inventory = \<lparr>iv_assets = [], iv_events = []\<rparr>,
     gs_tickets = \<lparr>ts_records = [ticket_id_of 1 \<mapsto> desk_ticket], ts_next_id = 2\<rparr>, gs_approvals = \<lparr>s_ttl = 600, s_records = Map.empty\<rparr>\<rparr>"

definition desk_proposal :: tool_proposal where
  "desk_proposal = (sample_planner ''vpn'')\<lparr>pr_name := CREATE_TICKET, pr_arguments := [(''title'', JStr ''disk''), (''description'', JStr ''full'')]\<rparr>"

theorem dispatch_acts_for_the_caller_witness:
  "\<exists>res st'. tool_dispatch (\<lambda>s. s) int_only (\<lambda>s. s) (\<lambda>n. []) linear_index faithful_relay \<lparr>ce_now = 5, ce_token = ''t'', ce_nonce = ''n''\<rparr>
      sample_alice desk_proposal desk_state = (Inr res, st') \<and>
    gs_tickets st' \<noteq> gs_tickets desk_state \<and> adds_ticket sample_alice (gs_tickets desk_state) (gs_tickets st') \<and>
    gs_approvals st' = gs_approvals desk_state \<and> gs_bound_principal st' = None"
proof -
  let ?env = "\<lparr>ce_now = 5, ce_token = ''t'', ce_nonce = ''n''\<rparr> :: call_env"
  have ok: "tickets_ok (gs_tickets desk_state)" by (simp add: tickets_ok_def desk_state_def desk_ticket_def)
  have name: "pr_name desk_proposal = CREATE_TICKET" by (simp add: desk_proposal_def)
  have "normalize_proposal (\<lambda>s. s) int_only desk_proposal = Inr desk_proposal" by code_simp
  then obtain res st' where run: "tool_dispatch (\<lambda>s. s) int_only (\<lambda>s. s) (\<lambda>n. []) linear_index faithful_relay ?env sample_alice desk_proposal
      desk_state = (Inr res, st')" and number: "ts_next_id (gs_tickets st') = 3"
    by (simp add: tool_dispatch_def faithful_relay_def server_call_def require_bound_principal_def run_tool_def name ticket_create_def Let_def
      desk_state_def)
  have "ts_next_id (gs_tickets desk_state) = 2" by (simp add: desk_state_def)
  with number have new: "gs_tickets st' \<noteq> gs_tickets desk_state" by auto
  from dispatch_acts_for_the_caller [OF ok run] new have "adds_ticket sample_alice (gs_tickets desk_state) (gs_tickets st')"
    "gs_approvals st' = gs_approvals desk_state" "gs_bound_principal st' = None"
    by (simp_all add: in_name_of_def name) (simp add: desk_state_def)
  with run new show ?thesis by blast
qed

end
