(* ===== verification/Agent_Review.thy ===== *)
theory Agent_Review
  imports Effect_Outbox Execution_Budget
begin

section \<open>The agent's human-review path\<close>

text \<open>
  \<open>AgentRunner\<close> of \<open>aegis/agent/graph.py\<close> with the durable stores: resuming a run after a reviewer's
  decision. The calls are composed as the method composes them: the pending workflow is loaded from
  the journal, the decision is recorded, the approved effect is enqueued and delivered by the
  pipeline, and the workflow is completed. Telemetry is switched off. The readings of the clock are
  arguments, in the order in which the calls take them.
\<close>

datatype agent_run_status = RUN_COMPLETED | RUN_PENDING_APPROVAL | RUN_APPROVED | RUN_REJECTED

record agent_run_response =
  ar_tool :: tool_name
  ar_result :: json
  ar_tool_calls :: int
  ar_status :: agent_run_status
  ar_approval_id :: "string option"

definition tool_of_action :: "approval_action \<Rightarrow> tool_name" where
  "tool_of_action a = (case a of REQUEST_ACCESS \<Rightarrow> TOOL_REQUEST_ACCESS | REQUEST_PASSWORD_RESET \<Rightarrow> TOOL_REQUEST_PASSWORD_RESET)"

lemma tool_of_action_value: "tool_value (tool_of_action a) = action_value a"
  by (cases a) (simp_all add: tool_of_action_def tool_value_def action_value_def)

record review_clock =
  rv_decide_checked :: int
  rv_decide_now :: int
  rv_resolve_checked :: int
  rv_resolve_now :: int
  rv_complete_now :: int

definition review_outcome :: "approval_record \<Rightarrow> aegis_error + string \<times> agent_run_status" where
  "review_outcome record =
     (if a_status record = REJECTED then Inr (''rejected'', RUN_REJECTED)
      else if a_status record = CONSUMED then Inr (''approved'', RUN_APPROVED)
      else Inl (ApprovalStateError ''unexpected durable approval state after review''))"

definition review_response :: "(int \<Rightarrow> string) \<Rightarrow> workflow_record \<Rightarrow> approval_record \<Rightarrow> string \<Rightarrow> agent_run_status \<Rightarrow> agent_run_response" where
  "review_response isoformat pending record approval_id status =
     \<lparr>ar_tool = tool_of_action (v_action pending),
      ar_result = JObj [(''approval_id'', JStr (a_approval_id record)), (''action'', JStr (action_value (a_action record))),
        (''status'', JStr (status_value (a_status record))), (''expires_at'', JStr (isoformat (a_expires_at record)))],
      ar_tool_calls = v_tool_calls pending, ar_status = status, ar_approval_id = Some approval_id\<rparr>"

definition review_and_resume_durable ::
  "(string \<Rightarrow> string) \<Rightarrow> (int \<Rightarrow> string) \<Rightarrow> (string \<Rightarrow> ('s pipeline, aegis_error, effect_execution) operation) \<Rightarrow> review_clock \<Rightarrow>
   string \<Rightarrow> principal \<Rightarrow> approval_decision \<Rightarrow> ('s pipeline, aegis_error, agent_run_response) operation" where
  "review_and_resume_durable sha isoformat worker clock approval_id approver decision w =
     (case require_pending approval_id (pl_outbox w) of
        Inl e \<Rightarrow> (Inl e, w)
      | Inr pending \<Rightarrow>
          (case durable_decide (rv_decide_checked clock) (rv_decide_now clock) approval_id approver decision (pl_outbox w) of
             (Inl e, db) \<Rightarrow> (Inl e, w\<lparr>pl_outbox := db\<rparr>)
           | (Inr _, db) \<Rightarrow>
               (case resolve_and_deliver sha worker (rv_resolve_checked clock) (rv_resolve_now clock) approval_id
                       (v_requester pending) (v_action pending) (v_arguments pending) (w\<lparr>pl_outbox := db\<rparr>) of
                  (Inl e, w2) \<Rightarrow> (Inl e, w2)
                | (Inr (record, _), w2) \<Rightarrow>
                    (case review_outcome record of
                       Inl e \<Rightarrow> (Inl e, w2)
                     | Inr (outcome, status) \<Rightarrow>
                         (case workflow_complete (rv_complete_now clock) approval_id outcome (pl_outbox w2) of
                            (Inl e, db3) \<Rightarrow> (Inl e, w2\<lparr>pl_outbox := db3\<rparr>)
                          | (Inr _, db3) \<Rightarrow>
                              (Inr (review_response isoformat pending record approval_id status), w2\<lparr>pl_outbox := db3\<rparr>))))))"

subsection \<open>A review is a sequence of pipeline steps\<close>

context effect_service
begin

lemma review_steps:
  assumes "review_and_resume_durable sha isof (deliver (exec c) now) clock i p d w = (res, w')"
  shows "(pipeline_step sha ledger exec)\<^sup>*\<^sup>* w w'"
proof (cases "require_pending i (pl_outbox w)")
  case (Inl e)
  with assms show ?thesis by (simp add: review_and_resume_durable_def)
next
  case (Inr v)
  obtain y1 db where d: "durable_decide (rv_decide_checked clock) (rv_decide_now clock) i p d (pl_outbox w) = (y1, db)"
    by fastforce
  have s1: "(pipeline_step sha ledger exec)\<^sup>*\<^sup>* w (w\<lparr>pl_outbox := db\<rparr>)"
    using pipeline_step.approvals [OF durable_step.decide [OF d]] by blast
  obtain y2 w2 where r: "resolve_and_deliver sha (deliver (exec c) now) (rv_resolve_checked clock) (rv_resolve_now clock) i
      (v_requester v) (v_action v) (v_arguments v) (w\<lparr>pl_outbox := db\<rparr>) = (y2, w2)" by fastforce
  have s2: "(pipeline_step sha ledger exec)\<^sup>*\<^sup>* w w2"
    using s1 resolve_and_deliver_steps [OF r deliver_steps] by (rule rtranclp_trans)
  have s3: "(pipeline_step sha ledger exec)\<^sup>*\<^sup>* w (w2\<lparr>pl_outbox := db3\<rparr>)"
    if "workflow_complete t i out (pl_outbox w2) = (y3, db3)" for t out y3 db3
    using s2 pipeline_step.approvals [OF durable_step.complete [OF that]] by (rule rtranclp.rtrancl_into_rtrancl)
  show ?thesis
    using assms Inr d r s1 s2 s3
    by (cases y1; cases y2)
      (auto simp: review_and_resume_durable_def split: sum.splits prod.splits)
qed

lemma deliver_Inr_recorded:
  assumes "deliver (exec c) now i w = (Inr x, w')"
  shows "\<exists>l \<in> set (ledger (pl_effects w')). l_approval_id l = i"
proof -
  obtain o1 db s where b: "begin_delivery i (pl_outbox w) = (Inr o1, db)" and e: "exec c o1 (pl_effects w) = (Inr x, s)"
    and w': "pl_effects w' = s"
    using assms by (auto simp: deliver_def acknowledge_def split: prod.splits sum.splits if_splits)
  from e obtain l where "recorded (ledger s) o1 l" by (metis exec_recorded)
  moreover have "o_approval_id o1 = i"
    using begin_delivery_Inr [OF b] row_of_SomeD [of o_approval_id i "d_effect_outbox db" o1] by auto
  ultimately show ?thesis using w' by (auto simp: recorded_def ledger_matches_def)
qed

end

lemma review_Inr:
  assumes "review_and_resume_durable sha isof worker clock i p d w = (Inr resp, w')"
  obtains v r0 db rec x w2 outcome status db3 z where
    "require_pending i (pl_outbox w) = Inr v"
    "durable_decide (rv_decide_checked clock) (rv_decide_now clock) i p d (pl_outbox w) = (Inr r0, db)"
    "resolve_and_deliver sha worker (rv_resolve_checked clock) (rv_resolve_now clock) i
       (v_requester v) (v_action v) (v_arguments v) (w\<lparr>pl_outbox := db\<rparr>) = (Inr (rec, x), w2)"
    "review_outcome rec = Inr (outcome, status)"
    "workflow_complete (rv_complete_now clock) i outcome (pl_outbox w2) = (Inr z, db3)"
    "w' = w2\<lparr>pl_outbox := db3\<rparr>" "resp = review_response isof v rec i status"
  using assms by (auto simp: review_and_resume_durable_def split: sum.splits prod.splits)

text \<open>What the decision leaves behind, whether it was recorded now or in an earlier, interrupted review.\<close>

lemma decide_row:
  assumes "durable_decide t1 t2 i p d db = (Inr r0, db')"
  obtains r where "approval_row db' i = Some r" "check_approver p r = None" "a_approver_user_id r = Some (p_user_id p)"
    "a_status r = desired_status d \<or> a_status r = CONSUMED \<and> desired_status d = APPROVED"
proof -
  from durable_decide_Inr [OF assms] obtain r where r: "approval_row db i = Some r" "check_approver p r = None"
    "a_status r = PENDING \<and> db' = update_approval i PENDING (decided d (p_user_id p) t2) db \<or>
     a_status r \<noteq> PENDING \<and> same_recovery_decision p d r \<and> db' = db" by blast
  from r(3) show thesis
  proof
    assume new: "a_status r = PENDING \<and> db' = update_approval i PENDING (decided d (p_user_id p) t2) db"
    with r(1,2) show thesis
      by (intro that [of "decided d (p_user_id p) t2 r"]) (simp_all add: update_approval_row decided_def check_approver_None)
  next
    assume "a_status r \<noteq> PENDING \<and> same_recovery_decision p d r \<and> db' = db"
    with r(1,2) show thesis by (intro that [of r]) (auto simp: same_recovery_decision_def)
  qed
qed

lemma resolve_and_deliver_Inr:
  assumes "resolve_and_deliver sha worker t1 t2 i q a args w = (Inr (r', x), w')"
  obtains db where "resolve_after_review_and_enqueue sha t1 t2 i q a args (pl_outbox w) = (Inr r', db)"
    "a_status r' = REJECTED \<and> w' = w\<lparr>pl_outbox := db\<rparr> \<or>
     a_status r' = CONSUMED \<and> (\<exists>y. worker i (w\<lparr>pl_outbox := db\<rparr>) = (Inr y, w'))"
  using assms by (auto simp: resolve_and_deliver_def Let_def split: prod.splits sum.splits if_splits)

lemma completed_not_pending:
  assumes "workflow_complete t i out db = (Inr v, db')"
  shows "require_pending i db' = Inl (ApprovalStateError ''approval workflow is already completed'')"
proof -
  from workflow_complete_Inr [OF assms] obtain w where w: "journal_row db i = Some w" "w_status w = WORKFLOW_PENDING"
    and db': "db' = db\<lparr>d_approval_workflows := update_where (\<lambda>w. w_approval_id w = i \<and> w_status w = WORKFLOW_PENDING)
      (\<lambda>w. w\<lparr>w_status := WORKFLOW_COMPLETED, w_final_outcome := Some out, w_completed_at := Some t\<rparr>)
      (d_approval_workflows db)\<rparr>" by blast
  from w(1) assms obtain u where u: "row_to_workflow w = Inr u"
    by (auto simp: workflow_complete_def require_pending_def workflow_get_def split: sum.splits)
  have "journal_row db' i = Some (w\<lparr>w_status := WORKFLOW_COMPLETED, w_final_outcome := Some out, w_completed_at := Some t\<rparr>)"
    using w db' by (simp add: find_update_where_guarded)
  with u show ?thesis
    by (auto simp: require_pending_def workflow_get_def row_to_workflow_def split: sum.splits)
qed

text \<open>\<^bold>\<open>C11\<close>. End to end, a review does what its answer says. If it reports \<open>approved\<close>, then the reviewer
  approved, holds the approver role in the request's tenant and is not the requester, and the
  ledger has exactly one effect for the approval. If it reports \<open>rejected\<close>, then the reviewer
  rejected and the ledger has no effect for it. In both cases the workflow is closed: another review
  is refused.\<close>

theorem review_does_what_it_reports:
  assumes inv: "pipeline_inv sha d_effect_ledger w"
    and run: "review_and_resume_durable sha isof (deliver (execute tx) tc) clock i p d w = (Inr resp, w')"
  shows "(ar_status resp = RUN_APPROVED \<and> d = APPROVE \<and> count_effects i (pl_effects w') = 1 \<or>
      ar_status resp = RUN_REJECTED \<and> d = REJECT \<and> count_effects i (pl_effects w') = 0) \<and>
    (\<exists>r. approval_row (pl_outbox w) i = Some r \<and> check_approver p r = None) \<and>
    require_pending i (pl_outbox w') = Inl (ApprovalStateError ''approval workflow is already completed'')"
proof -
  from run obtain v r0 db rec x w2 outcome status db3 z where
    dec: "durable_decide (rv_decide_checked clock) (rv_decide_now clock) i p d (pl_outbox w) = (Inr r0, db)" and
    res: "resolve_and_deliver sha (deliver (execute tx) tc) (rv_resolve_checked clock) (rv_resolve_now clock) i
       (v_requester v) (v_action v) (v_arguments v) (w\<lparr>pl_outbox := db\<rparr>) = (Inr (rec, x), w2)" and
    out: "review_outcome rec = Inr (outcome, status)" and
    cmp: "workflow_complete (rv_complete_now clock) i outcome (pl_outbox w2) = (Inr z, db3)" and
    w': "w' = w2\<lparr>pl_outbox := db3\<rparr>" and resp: "resp = review_response isof v rec i status"
    by (rule review_Inr)
  have inv': "pipeline_inv sha d_effect_ledger w'"
    using synthetic.pipeline_inv_steps [OF synthetic.review_steps [OF run] inv] .
  then have most: "count_effects i (pl_effects w') \<le> 1"
    using synthetic.effects_at_most_once by (simp add: count_effects_def)
  from dec obtain r where r: "approval_row db i = Some r"
    "a_status r = desired_status d \<or> a_status r = CONSUMED \<and> desired_status d = APPROVED"
    by (rule decide_row)
  from res obtain db2 where e: "resolve_after_review_and_enqueue sha (rv_resolve_checked clock) (rv_resolve_now clock) i
       (v_requester v) (v_action v) (v_arguments v) db = (Inr rec, db2)"
    and how: "a_status rec = REJECTED \<and> w2 = w\<lparr>pl_outbox := db2\<rparr> \<or>
      a_status rec = CONSUMED \<and> (\<exists>y. deliver (execute tx) tc i (w\<lparr>pl_outbox := db2\<rparr>) = (Inr y, w2))"
    by (rule resolve_and_deliver_Inr) auto
  have effects: "pl_effects w' = pl_effects w2" using w' by simp
  have "ar_status resp = RUN_APPROVED \<and> d = APPROVE \<and> count_effects i (pl_effects w') = 1 \<or>
      ar_status resp = RUN_REJECTED \<and> d = REJECT \<and> count_effects i (pl_effects w') = 0"
    using how
  proof
    assume rej: "a_status rec = REJECTED \<and> w2 = w\<lparr>pl_outbox := db2\<rparr>"
    with enqueue_Inr [OF e] r(1) have "rec = r" "db2 = db" by (auto simp: consumed_def)
    with rej r(2) have "d = REJECT" by (cases d) (auto simp: desired_status_def)
    have "approval_row (pl_outbox w') i = Some r"
      using w' workflow_complete_Inr [OF cmp] rej r(1) \<open>db2 = db\<close> by auto
    with synthetic.effect_was_approved [OF inv'] rej \<open>rec = r\<close>
    have "count_effects i (pl_effects w') = 0" by (fastforce simp: count_effects_def filter_empty_conv)
    moreover have "ar_status resp = RUN_REJECTED" using out resp rej by (auto simp: review_outcome_def review_response_def)
    ultimately show ?thesis using \<open>d = REJECT\<close> by simp
  next
    assume con: "a_status rec = CONSUMED \<and> (\<exists>y. deliver (execute tx) tc i (w\<lparr>pl_outbox := db2\<rparr>) = (Inr y, w2))"
    with enqueue_Inr [OF e] r have "d = APPROVE" by (cases d) (auto simp: desired_status_def)
    have "\<exists>l \<in> set (d_effect_ledger (pl_effects w')). l_approval_id l = i"
      using con synthetic.deliver_Inr_recorded effects by metis
    with most have "count_effects i (pl_effects w') = 1" by (auto simp: count_effects_def filter_empty_conv le_Suc_eq)
    moreover have "ar_status resp = RUN_APPROVED" using out resp con by (auto simp: review_outcome_def review_response_def)
    ultimately show ?thesis using \<open>d = APPROVE\<close> by simp
  qed
  moreover have "require_pending i (pl_outbox w') = Inl (ApprovalStateError ''approval workflow is already completed'')"
    using completed_not_pending [OF cmp] w' by simp
  ultimately show ?thesis using durable_decide_Inr [OF dec] by blast
qed

subsection \<open>Resuming after a crash\<close>

lemma deliver_outbox_only:
  assumes "deliver exec now i w = (res, w')"
  shows "\<exists>rows. pl_outbox w' = (pl_outbox w)\<lparr>d_effect_outbox := rows\<rparr>"
proof -
  obtain b db where b: "begin_delivery i (pl_outbox w) = (b, db)" by fastforce
  then obtain rows where db: "db = (pl_outbox w)\<lparr>d_effect_outbox := rows\<rparr>" using begin_delivery_progress by blast
  obtain y s where y: "exec (projr b) (pl_effects w) = (y, s)" by fastforce
  have "pl_outbox w' = db \<or> (\<exists>o1 k res'. outbox_complete now i k db = (res', pl_outbox w'))"
    using assms b y by (cases b; cases y) (auto simp: deliver_def acknowledge_def split: prod.splits sum.splits if_splits)
  then show ?thesis using db outbox_complete_progress by fastforce
qed

lemma require_pending_cong:
  "d_approval_workflows db' = d_approval_workflows db \<Longrightarrow> require_pending i db' = require_pending i db"
  by (simp add: require_pending_def workflow_get_def)

lemma enqueue_replays:
  assumes inv: "outbox_inv sha db" and r: "approval_row db i = Some r" "a_status r = CONSUMED"
    and v: "verify_binding sha r q a args = Inr ()" and o1: "outbox_row db i = Some o1"
  shows "resolve_after_review_and_enqueue sha t1 t2 i q a args db = (Inr r, db)"
proof -
  have "\<not> is_expired t1 r" using r(2) by (simp add: is_expired_def)
  with r(1) have l: "load_locked t1 i db = (Inr r, db)" by (rule load_locked_live)
  have mem: "o1 \<in> set (d_effect_outbox db)" "o_approval_id o1 = i" "a_approval_id r = i"
    using row_of_SomeD [OF o1] row_of_SomeD [OF r(1)] by simp_all
  obtain r' where "approval_row db (o_approval_id o1) = Some r'" "outbox_bound sha r' o1"
    by (rule outbox_inv_row [OF inv mem(1)])
  then have "outbox_bound sha r o1" using r(1) mem(2) by simp
  with mem o1 have "insert_or_validate_outbox sha r t db = (Inr o1, db)" for t
    by (auto simp: insert_or_validate_outbox_def insert_or_ignore_outbox_def)
  with l v r(2) show ?thesis by (simp add: resolve_after_review_and_enqueue_def Let_def)
qed

context replaying_service
begin

lemma review_replays:
  assumes inv: "pipeline_inv sha ledger w" and pend: "require_pending i (pl_outbox w) = Inr v"
    and r: "approval_row (pl_outbox w) i = Some r" "a_status r = CONSUMED" "check_approver p r = None"
      "a_approver_user_id r = Some (p_user_id p)"
    and v: "verify_binding sha r (v_requester v) (v_action v) (v_arguments v) = Inr ()"
    and o1: "outbox_row (pl_outbox w) i = Some o1" "recorded (ledger (pl_effects w)) o1 l"
    and calm: "\<not> pl_crash_after_effect_once w"
  shows "\<exists>resp w'. review_and_resume_durable sha isof (deliver (exec c) now) clock i p APPROVE w = (Inr resp, w') \<and>
    ar_status resp = RUN_APPROVED \<and> pl_effects w' = pl_effects w"
proof -
  have "\<not> is_expired t r" for t using r(2) by (simp add: is_expired_def)
  with r have dec: "durable_decide t1 t2 i p APPROVE (pl_outbox w) = (Inr r, pl_outbox w)" for t1 t2
    by (simp add: durable_decide_def transaction_def load_locked_live same_recovery_decision_def desired_status_def)
  have ok: "outbox_inv sha (pl_outbox w)" "ledger_ok (ledger (pl_effects w))" using inv by (simp_all add: pipeline_inv_def)
  note enq = enqueue_replays [OF ok(1) r(1,2) v o1(1)]
  obtain x w2 where d: "deliver (exec c) now i w = (Inr x, w2)" "pl_effects w2 = pl_effects w"
    using deliver_recorded [OF ok(2) o1 calm] by blast
  with enq r(2) have res: "resolve_and_deliver sha (deliver (exec c) now) t1 t2 i (v_requester v) (v_action v) (v_arguments v) w =
      (Inr (r, Some x), w2)" for t1 t2 by (simp add: resolve_and_deliver_def)
  have "require_pending i (pl_outbox w2) = Inr v"
    using pend deliver_outbox_only [OF d(1)] require_pending_cong by (metis approval_db.select_convs(2) outbox_db.surjective outbox_db.update_convs(1))
  then obtain z db3 where "workflow_complete (rv_complete_now clock) i ''approved'' (pl_outbox w2) = (Inr z, db3)"
    by (simp add: workflow_complete_def transaction_def)
  with pend dec res r(2) d(2) show ?thesis
    by (simp add: review_and_resume_durable_def review_outcome_def review_response_def)
qed

end

lemma durable_moves_workflows: "durable_moves i db db' \<Longrightarrow> d_approval_workflows db' = d_approval_workflows db"
  by (auto simp: durable_moves_def)

lemma verify_binding_consumed [simp]: "verify_binding sha (consumed t r) q a args = verify_binding sha r q a args"
  by (simp add: verify_binding_def consumed_def Let_def)

lemma check_approver_consumed [simp]: "check_approver p (consumed t r) = check_approver p r"
  by (simp add: check_approver_def consumed_def)

lemma consumed_fields [simp]:
  "a_status (consumed t r) = CONSUMED" "a_approver_user_id (consumed t r) = a_approver_user_id r"
  by (simp_all add: consumed_def)

lemma enqueued_row:
  assumes "resolve_after_review_and_enqueue sha t1 t2 i q a args db = (Inr rec, db')" and "a_status rec = CONSUMED"
    and "approval_row db i = Some r"
  shows "approval_row db' i = Some rec" "verify_binding sha rec q a args = Inr ()"
    "a_approver_user_id rec = a_approver_user_id r" "check_approver p rec = check_approver p r"
    "d_approval_workflows db' = d_approval_workflows db"
proof -
  from enqueue_Inr [OF assms(1)] assms(2,3) have v: "verify_binding sha r q a args = Inr ()"
    and cases: "a_status r = CONSUMED \<and> rec = r \<and> (\<exists>t o1. insert_or_validate_outbox sha r t db = (Inr o1, db')) \<or>
     a_status r = APPROVED \<and> rec = consumed t2 r \<and>
       (\<exists>o1. insert_or_validate_outbox sha rec t2 (update_approval i APPROVED (consumed t2) db) = (Inr o1, db'))"
    by auto
  from cases assms(3) v show "approval_row db' i = Some rec" "verify_binding sha rec q a args = Inr ()"
    "a_approver_user_id rec = a_approver_user_id r" "check_approver p rec = check_approver p r"
    by (auto dest!: insert_or_validate_Inr(4) simp: update_approval_row)
  from cases show "d_approval_workflows db' = d_approval_workflows db"
    by (auto dest!: insert_or_validate_Inr(4) simp: update_approval_def)
qed

lemma deliver_under_crash:
  assumes "deliver exec now i w = (res, w')" and "pl_crash_after_effect_once w"
  shows "isl res"
  using assms by (auto simp: deliver_def acknowledge_def split: prod.splits sum.splits)

lemma review_crash:
  assumes run: "review_and_resume_durable sha isof (deliver exec tc) clock i p d w = (res, w1)"
    and crash: "pl_crash_after_effect_once w" "\<not> pl_crash_after_effect_once w1"
  obtains v r0 db rec db2 y where "require_pending i (pl_outbox w) = Inr v"
    "durable_decide (rv_decide_checked clock) (rv_decide_now clock) i p d (pl_outbox w) = (Inr r0, db)"
    "resolve_after_review_and_enqueue sha (rv_resolve_checked clock) (rv_resolve_now clock) i
      (v_requester v) (v_action v) (v_arguments v) db = (Inr rec, db2)"
    "a_status rec = CONSUMED" "deliver exec tc i (w\<lparr>pl_outbox := db2\<rparr>) = (y, w1)"
proof -
  from run crash obtain v where v: "require_pending i (pl_outbox w) = Inr v"
    by (auto simp: review_and_resume_durable_def split: sum.splits)
  obtain y1 db where d: "durable_decide (rv_decide_checked clock) (rv_decide_now clock) i p d (pl_outbox w) = (y1, db)"
    by fastforce
  obtain y2 db2 where e: "resolve_after_review_and_enqueue sha (rv_resolve_checked clock) (rv_resolve_now clock) i
      (v_requester v) (v_action v) (v_arguments v) db = (y2, db2)" by fastforce
  obtain y3 w3 where dl: "deliver exec tc i (w\<lparr>pl_outbox := db2\<rparr>) = (y3, w3)" by fastforce
  then have "isl y3" using deliver_under_crash crash(1) by fastforce
  with run crash v d e dl that show thesis
    by (cases y1; cases y2) (auto simp: review_and_resume_durable_def resolve_and_deliver_def Let_def review_outcome_def
        split: sum.splits if_splits prod.splits)
qed

text \<open>A crashed review can be resumed: when the worker crashes during an approving review, between the
  effect and its acknowledgement, the same reviewer can repeat the review at any later time, even
  after the request has expired; it then reports \<open>approved\<close>, and the effect is not executed again.\<close>

theorem crashed_review_resumes:
  assumes inv: "pipeline_inv sha d_effect_ledger w"
    and run: "review_and_resume_durable sha isof (deliver (execute tx) tc) clock i p APPROVE w = (res, w1)"
    and crash: "pl_crash_after_effect_once w" "\<not> pl_crash_after_effect_once w1"
  shows "\<exists>resp w2. review_and_resume_durable sha isof (deliver (execute tx') tc') clock' i p APPROVE w1 = (Inr resp, w2) \<and>
    ar_status resp = RUN_APPROVED \<and> pl_effects w2 = pl_effects w1"
proof -
  from run crash obtain v r0 db rec db2 y where v: "require_pending i (pl_outbox w) = Inr v"
    and d: "durable_decide (rv_decide_checked clock) (rv_decide_now clock) i p APPROVE (pl_outbox w) = (Inr r0, db)"
    and e: "resolve_after_review_and_enqueue sha (rv_resolve_checked clock) (rv_resolve_now clock) i
      (v_requester v) (v_action v) (v_arguments v) db = (Inr rec, db2)" "a_status rec = CONSUMED"
    and dl: "deliver (execute tx) tc i (w\<lparr>pl_outbox := db2\<rparr>) = (y, w1)" by (rule review_crash)
  from d obtain r where r: "approval_row db i = Some r" "check_approver p r = None" "a_approver_user_id r = Some (p_user_id p)"
    by (rule decide_row)
  note row = enqueued_row [OF e r(1)]
  from deliver_outbox_only [OF dl] obtain rows where w1: "pl_outbox w1 = db2\<lparr>d_effect_outbox := rows\<rparr>" by auto
  have "require_pending i (pl_outbox w1) = Inr v"
    using v row(5) durable_moves_workflows [OF durable_decide_moves [OF d]] require_pending_cong [of "pl_outbox w1" "pl_outbox w" i]
    by (simp add: w1)
  moreover from dl crash obtain o1 l where "outbox_row (pl_outbox w1) i = Some o1" "recorded (d_effect_ledger (pl_effects w1)) o1 l"
    by (auto elim: synthetic.crash_exposes_effect)
  moreover have "pipeline_inv sha d_effect_ledger w1"
    using synthetic.pipeline_inv_steps [OF synthetic.review_steps [OF run] inv] .
  ultimately show ?thesis
    using synthetic.review_replays [of sha w1 i v rec p] row r e(2) crash(2) by (simp add: w1)
qed

subsection \<open>A run on concrete data\<close>

definition review_start :: "bool \<Rightarrow> ledger_db pipeline" where
  "review_start crash = \<lparr>pl_outbox = snd (durable_create id 600 0 ''t'' ''n'' (Some demo_context) alice REQUEST_PASSWORD_RESET
     reset_args \<lparr>d_approval_records = [], d_approval_workflows = [], d_effect_outbox = []\<rparr>),
     pl_effects = \<lparr>d_effect_ledger = []\<rparr>, pl_crash_after_effect_once = crash\<rparr>"

definition review_demo_clock :: review_clock where
  "review_demo_clock =
     \<lparr>rv_decide_checked = 5, rv_decide_now = 6, rv_resolve_checked = 7, rv_resolve_now = 8, rv_complete_now = 11\<rparr>"

definition review_demo :: "ledger_db pipeline \<Rightarrow> (aegis_error + agent_run_response) \<times> ledger_db pipeline" where
  "review_demo = review_and_resume_durable id str_int (deliver (execute 9) 10) review_demo_clock ''apr_t'' carol APPROVE"

lemma review_start_inv: "pipeline_inv id d_effect_ledger (review_start b)"
proof -
  let ?w = "\<lparr>pl_outbox = \<lparr>d_approval_records = [], d_approval_workflows = [], d_effect_outbox = []\<rparr>,
     pl_effects = \<lparr>d_effect_ledger = []\<rparr>, pl_crash_after_effect_once = b\<rparr>"
  have inv: "pipeline_inv id d_effect_ledger ?w"
    by (simp add: pipeline_inv_def outbox_inv_def db_inv_def ledger_ok_def)
  obtain res db where c: "durable_create id 600 0 ''t'' ''n'' (Some demo_context) alice REQUEST_PASSWORD_RESET
     reset_args (pl_outbox ?w) = (res, db)" by fastforce
  then have "durable_step id (pl_outbox ?w) db" by (rule durable_step.create) simp
  then have "pipeline_step id d_effect_ledger execute ?w (?w\<lparr>pl_outbox := db\<rparr>)" by (rule pipeline_step.approvals)
  from synthetic.pipeline_inv_step [OF this inv] c show ?thesis by (simp add: review_start_def)
qed

theorem review_does_what_it_reports_witness:
  "\<exists>resp w. review_demo (review_start False) = (Inr resp, w) \<and> ar_status resp = RUN_APPROVED \<and>
     count_effects ''apr_t'' (pl_effects w) = 1"
proof -
  have "\<not> isl (fst (review_demo (review_start False)))" by code_simp
  then obtain resp w where run: "review_demo (review_start False) = (Inr resp, w)" by (metis prod.collapse sum.collapse(2))
  from review_does_what_it_reports [OF review_start_inv run [unfolded review_demo_def]] run show ?thesis by auto
qed

theorem crashed_review_resumes_witness:
  "\<exists>resp w. review_demo (snd (review_demo (review_start True))) = (Inr resp, w) \<and> ar_status resp = RUN_APPROVED"
proof -
  obtain res w1 where run: "review_demo (review_start True) = (res, w1)" by fastforce
  have "pl_crash_after_effect_once (review_start True)" "\<not> pl_crash_after_effect_once (snd (review_demo (review_start True)))"
    by code_simp+
  with crashed_review_resumes [OF review_start_inv run [unfolded review_demo_def], of 9 10 review_demo_clock] run show ?thesis
    by (auto simp flip: review_demo_def [THEN fun_cong])
qed

end
