(* ===== verification/Lifecycle_Commands.thy ===== *)
theory Lifecycle_Commands
  imports Json
begin

section \<open>Checkpoint lifecycle: commands, capabilities and the fencing coordinator\<close>

text \<open>
  \<open>aegis/agent/checkpoint_lifecycle_fencing.py\<close> and the capability check of
  \<open>checkpoint_lifecycle_capabilities.py\<close>. The lifecycle provider and the checkpoint saver are passed in
  by the caller; the model takes them as a record of functions on a state \<open>'w\<close> that stands for
  everything they own: the anchor, the checkpoint database and its backups. A function that may raise
  returns the exception as a value. \<open>sha\<close> is the hex digest of SHA-256.
\<close>

subsection \<open>Commands\<close>

datatype lifecycle_operation = MIGRATION | SNAPSHOT | RESTORE

definition operation_value :: "lifecycle_operation \<Rightarrow> string" where
  "operation_value op = (case op of
     MIGRATION \<Rightarrow> ''checkpoint_encryption_migration''
   | SNAPSHOT \<Rightarrow> ''checkpoint_backup_snapshot''
   | RESTORE \<Rightarrow> ''checkpoint_backup_restore'')"

datatype lifecycle_fault = NO_FAULT | PROVIDER_UNAVAILABLE | AMBIGUOUS_AFTER_COMMIT | PARTIAL_ANCHOR_PROGRESS

datatype fencing_reason =
    FENCING_PROVIDER_UNAVAILABLE | STALE_FENCE | COMMAND_REPLAY_CONFLICT | FENCING_ANCHOR_MISMATCH
  | AMBIGUOUS_COMMIT_OUTCOME | PARTIAL_PROGRESS_RECONCILED | ANCHOR_STATE_UNAVAILABLE
  | FENCING_ARGUMENTS_INVALID

datatype journal_fault =
    JOURNAL_NO_FAULT | AFTER_PREPARED_BEFORE_PROVIDER | AFTER_PROVIDER_BEFORE_COMMIT | AFTER_COMMIT_BEFORE_RESPONSE

datatype journal_reason =
    JOURNAL_INTEGRITY_FAILED | JOURNAL_COMMAND_CONFLICT | JOURNAL_COMMAND_MISSING | JOURNAL_FENCE_STALE
  | JOURNAL_STATE_INVALID | JOURNAL_RECONCILIATION_REQUIRED | JOURNAL_RECONCILIATION_UNPROVABLE
  | JOURNAL_PROVIDER_ID_MISMATCH | JOURNAL_ANCHOR_MISMATCH | JOURNAL_ARGUMENTS_INVALID | JOURNAL_SYNTHETIC_CRASH

datatype outcome_reason =
    OUTCOME_STORE_INVALID | RECEIPT_INTEGRITY_FAILED | OUTCOME_COMMAND_CONFLICT | RECEIPT_NOT_FOUND
  | OUTCOME_PROVIDER_ID_MISMATCH | ANCHOR_PRECONDITION_MISMATCH | ANCHOR_POSTCONDITION_MISMATCH
  | OUTCOME_ARGUMENTS_INVALID

datatype command_fault =
    COMMAND_NO_FAULT | AFTER_PREPARE_BEFORE_MUTATION | AFTER_MUTATION_BEFORE_RECEIPT | AFTER_RECEIPT_BEFORE_RESPONSE

datatype command_state_reason =
    COMMAND_STORE_INVALID | COMMAND_INTEGRITY_FAILED | COMMAND_CONFLICT | COMMAND_MISSING | ARGUMENT_CONFLICT
  | COMMAND_STATE_INVALID | COMMAND_RECONCILIATION_UNPROVABLE | COMMAND_SYNTHETIC_CRASH

text \<open>The exceptions of the four lifecycle modules; \<open>ProviderRaised\<close> is whatever an injected provider raises.\<close>

datatype lifecycle_error =
    LifecycleValueError string
  | LifecycleCapabilityError lifecycle_operation
  | FencingError fencing_reason string
  | FencingStateError fencing_reason
  | JournalError journal_reason string
  | JournalStoreError journal_reason
  | JournalCrash string journal_fault
  | OutcomeError outcome_reason string
  | OutcomeStoreError outcome_reason
  | CommandStateError command_state_reason string
  | CommandStoreError command_state_reason
  | CommandCrash string command_fault
  | LifecycleSqliteIntegrityError
  | ProviderRaised string

record lifecycle_command =
  lc_command_id :: string
  lc_operation :: lifecycle_operation
  lc_fence_token :: int
  lc_expected_anchor_fingerprint :: string
  lc_resource_id :: string

text \<open>\<^verbatim>\<open>not s.strip()\<close>: every character is white space.\<close>

definition is_blank :: "string \<Rightarrow> bool" where
  "is_blank s = list_all is_py_space s"

definition new_command ::
  "string \<Rightarrow> lifecycle_operation \<Rightarrow> int \<Rightarrow> string \<Rightarrow> string \<Rightarrow> lifecycle_error + lifecycle_command" where
  "new_command command_id operation fence_token expected_anchor_fingerprint resource_id =
     (if is_blank command_id then Inl (LifecycleValueError ''checkpoint lifecycle command id must be non-empty'')
      else if fence_token < 1 then Inl (LifecycleValueError ''checkpoint lifecycle fence token must be positive'')
      else if is_blank expected_anchor_fingerprint
        then Inl (LifecycleValueError ''checkpoint lifecycle anchor fingerprint must be non-empty'')
      else if is_blank resource_id then Inl (LifecycleValueError ''checkpoint lifecycle resource id must be non-empty'')
      else Inr \<lparr>lc_command_id = command_id, lc_operation = operation, lc_fence_token = fence_token,
                lc_expected_anchor_fingerprint = expected_anchor_fingerprint, lc_resource_id = resource_id\<rparr>)"

definition canonical_bytes :: "json \<Rightarrow> string" where
  "canonical_bytes payload = utf8 (json_dumps True payload)"

definition command_payload :: "lifecycle_command \<Rightarrow> json" where
  "command_payload c = JObj
     [(''command_id'', JStr (lc_command_id c)),
      (''operation'', JStr (operation_value (lc_operation c))),
      (''fence_token'', JInt (lc_fence_token c)),
      (''expected_anchor_fingerprint'', JStr (lc_expected_anchor_fingerprint c)),
      (''resource_id'', JStr (lc_resource_id c))]"

definition command_digest :: "(string \<Rightarrow> string) \<Rightarrow> lifecycle_command \<Rightarrow> string" where
  "command_digest sha c = sha (canonical_bytes (command_payload c))"

record command_receipt =
  cr_command_id :: string
  cr_operation :: lifecycle_operation
  cr_fence_token :: int
  cr_command_digest :: string
  cr_anchor_fingerprint_after :: string
  cr_provider_id :: string
  cr_replayed :: bool

subsection \<open>Providers\<close>

record lifecycle_paths =
  pa_checkpoint_destination :: "string option"
  pa_anchor_destination :: "string option"
  pa_backup_database_path :: "string option"
  pa_backup_anchor_path :: "string option"

type_synonym anchor_state = "json list \<times> json list"

record 'w lifecycle_provider =
  lp_provider_id :: string
  lp_capabilities :: "lifecycle_operation list"
  lp_callable :: "lifecycle_operation \<Rightarrow> bool"
  lp_command_aware :: bool
  lp_export_anchor :: "('w \<Rightarrow> anchor_state) option"
  lp_replace_anchor :: "(anchor_state \<Rightarrow> ('w, string, unit) operation) option"
  lp_run :: "lifecycle_operation \<Rightarrow> lifecycle_paths \<Rightarrow> ('w, string, unit) operation"

definition require_lifecycle_capability :: "'w lifecycle_provider \<Rightarrow> lifecycle_operation \<Rightarrow> lifecycle_error option" where
  "require_lifecycle_capability provider capability =
     (if capability \<notin> set (lp_capabilities provider) \<or> \<not> (lp_callable provider capability \<or> lp_command_aware provider)
        then Some (LifecycleCapabilityError capability) else None)"

definition operation_arguments_ok :: "lifecycle_operation \<Rightarrow> lifecycle_paths \<Rightarrow> bool" where
  "operation_arguments_ok op paths = (case op of
     MIGRATION \<Rightarrow> True
   | SNAPSHOT \<Rightarrow> pa_checkpoint_destination paths \<noteq> None \<and> pa_anchor_destination paths \<noteq> None
   | RESTORE \<Rightarrow> pa_backup_database_path paths \<noteq> None \<and> pa_backup_anchor_path paths \<noteq> None)"

definition fingerprint_state :: "(string \<Rightarrow> string) \<Rightarrow> anchor_state \<Rightarrow> string" where
  "fingerprint_state sha st =
     sha (canonical_bytes (JObj [(''checkpoint_heads'', JList (fst st)), (''write_heads'', JList (snd st))]))"

subsection \<open>SyntheticFencedCheckpointLifecycleCoordinator\<close>

record 'w fencing_coordinator =
  fc_world :: 'w
  fc_highest_committed_fence :: int
  fc_receipts :: "string \<rightharpoonup> command_receipt"
  fc_fault_mode :: lifecycle_fault
  fc_provider_invocations :: nat
  fc_replay_hits :: nat
  fc_reconciliations :: nat

definition fencing_init :: "'w \<Rightarrow> 'w fencing_coordinator" where
  "fencing_init w = \<lparr>fc_world = w, fc_highest_committed_fence = 0, fc_receipts = Map.empty, fc_fault_mode = NO_FAULT,
     fc_provider_invocations = 0, fc_replay_hits = 0, fc_reconciliations = 0\<rparr>"

definition fencing_arm_fault :: "lifecycle_fault \<Rightarrow> 'w fencing_coordinator \<Rightarrow> 'w fencing_coordinator" where
  "fencing_arm_fault mode st = st\<lparr>fc_fault_mode := mode\<rparr>"

definition fencing_anchor :: "'w lifecycle_provider \<Rightarrow> 'w \<Rightarrow> lifecycle_error + anchor_state" where
  "fencing_anchor provider w =
     (case lp_export_anchor provider of
        None \<Rightarrow> Inl (FencingStateError ANCHOR_STATE_UNAVAILABLE) | Some export \<Rightarrow> Inr (export w))"

definition fencing_fingerprint :: "(string \<Rightarrow> string) \<Rightarrow> 'w lifecycle_provider \<Rightarrow> 'w \<Rightarrow> lifecycle_error + string" where
  "fencing_fingerprint sha provider w =
     (case fencing_anchor provider w of Inl e \<Rightarrow> Inl e | Inr a \<Rightarrow> Inr (fingerprint_state sha a))"

definition fencing_issue_command ::
  "(string \<Rightarrow> string) \<Rightarrow> 'w lifecycle_provider \<Rightarrow> string \<Rightarrow> lifecycle_operation \<Rightarrow> string \<Rightarrow> 'w fencing_coordinator \<Rightarrow>
   lifecycle_error + lifecycle_command" where
  "fencing_issue_command sha provider command_id operation resource_id st =
     (case fencing_fingerprint sha provider (fc_world st) of
        Inl e \<Rightarrow> Inl e
      | Inr fingerprint \<Rightarrow> new_command command_id operation (fc_highest_committed_fence st + 1) fingerprint resource_id)"

definition fencing_replace_anchor ::
  "'w lifecycle_provider \<Rightarrow> anchor_state \<Rightarrow> ('w fencing_coordinator, lifecycle_error, unit) operation" where
  "fencing_replace_anchor provider a st =
     (case lp_replace_anchor provider of
        None \<Rightarrow> (Inl (FencingStateError ANCHOR_STATE_UNAVAILABLE), st)
      | Some replace \<Rightarrow>
          (case replace a (fc_world st) of
             (Inl e, w) \<Rightarrow> (Inl (ProviderRaised e), st\<lparr>fc_world := w\<rparr>)
           | (Inr _, w) \<Rightarrow> (Inr (), st\<lparr>fc_world := w\<rparr>)))"

definition corrupt_head :: "json \<Rightarrow> json" where
  "corrupt_head head = (case head of
     JObj kvs \<Rightarrow> JObj (AList.update ''checkpoint_digest'' (JStr (replicate 64 (CHR ''f''))) kvs) | j \<Rightarrow> j)"

definition partial_heads :: "json list \<Rightarrow> json list" where
  "partial_heads heads = (case heads of
     [] \<Rightarrow> [JObj [(''thread_id'', JStr ''p4l-partial-progress''), (''checkpoint_ns'', JStr ''''), (''generation'', JInt 1),
                  (''checkpoint_id'', JStr ''partial-progress''),
                  (''checkpoint_digest'', JStr (replicate 64 (CHR ''f'')))]]
   | h # hs \<Rightarrow> corrupt_head h # hs)"

definition inject_partial_anchor_progress ::
  "'w lifecycle_provider \<Rightarrow> anchor_state \<Rightarrow> ('w fencing_coordinator, lifecycle_error, unit) operation" where
  "inject_partial_anchor_progress provider before =
     fencing_replace_anchor provider (partial_heads (fst before), snd before)"

definition validate_command ::
  "(string \<Rightarrow> string) \<Rightarrow> 'w lifecycle_provider \<Rightarrow> lifecycle_command \<Rightarrow>
   ('w fencing_coordinator, lifecycle_error, command_receipt option) operation" where
  "validate_command sha provider c st =
     (case fc_receipts st (lc_command_id c) of
        Some existing \<Rightarrow>
          if cr_command_digest existing \<noteq> command_digest sha c
            then (Inl (FencingError COMMAND_REPLAY_CONFLICT (lc_command_id c)), st)
          else (Inr (Some (existing\<lparr>cr_replayed := True\<rparr>)), st\<lparr>fc_replay_hits := fc_replay_hits st + 1\<rparr>)
      | None \<Rightarrow>
          if lc_fence_token c \<le> fc_highest_committed_fence st
            then (Inl (FencingError STALE_FENCE (lc_command_id c)), st)
          else case fencing_fingerprint sha provider (fc_world st) of
                 Inl e \<Rightarrow> (Inl e, st)
               | Inr fingerprint \<Rightarrow>
                   if lc_expected_anchor_fingerprint c \<noteq> fingerprint
                     then (Inl (FencingError FENCING_ANCHOR_MISMATCH (lc_command_id c)), st)
                   else (Inr None, st))"

definition record_receipt ::
  "(string \<Rightarrow> string) \<Rightarrow> 'w lifecycle_provider \<Rightarrow> lifecycle_command \<Rightarrow>
   ('w fencing_coordinator, lifecycle_error, command_receipt) operation" where
  "record_receipt sha provider c st =
     (case fencing_fingerprint sha provider (fc_world st) of
        Inl e \<Rightarrow> (Inl e, st)
      | Inr fingerprint \<Rightarrow>
          (let receipt = \<lparr>cr_command_id = lc_command_id c, cr_operation = lc_operation c,
                 cr_fence_token = lc_fence_token c, cr_command_digest = command_digest sha c,
                 cr_anchor_fingerprint_after = fingerprint, cr_provider_id = lp_provider_id provider, cr_replayed = False\<rparr>
           in (Inr receipt, st\<lparr>fc_receipts := (fc_receipts st)(lc_command_id c \<mapsto> receipt),
                               fc_highest_committed_fence := lc_fence_token c\<rparr>)))"

definition fencing_reconcile_partial ::
  "(string \<Rightarrow> string) \<Rightarrow> 'w lifecycle_provider \<Rightarrow> lifecycle_command \<Rightarrow> anchor_state \<Rightarrow>
   ('w fencing_coordinator, lifecycle_error, command_receipt) operation" where
  "fencing_reconcile_partial sha provider c before =
     op_seq (inject_partial_anchor_progress provider before)
     (op_seq (fencing_replace_anchor provider before)
     (\<lambda>st. case fencing_fingerprint sha provider (fc_world st) of
        Inl e \<Rightarrow> (Inl e, st)
      | Inr fingerprint \<Rightarrow>
          if fingerprint \<noteq> lc_expected_anchor_fingerprint c
            then (Inl (FencingError ANCHOR_STATE_UNAVAILABLE (lc_command_id c)), st)
          else (Inl (FencingError PARTIAL_PROGRESS_RECONCILED (lc_command_id c)),
                st\<lparr>fc_reconciliations := fc_reconciliations st + 1\<rparr>)))"

definition fencing_invoke ::
  "'w lifecycle_provider \<Rightarrow> lifecycle_command \<Rightarrow> lifecycle_paths \<Rightarrow> ('w fencing_coordinator, lifecycle_error, unit) operation" where
  "fencing_invoke provider c paths st =
     (let st = st\<lparr>fc_provider_invocations := fc_provider_invocations st + 1\<rparr>
      in if \<not> operation_arguments_ok (lc_operation c) paths
           then (Inl (FencingError FENCING_ARGUMENTS_INVALID (lc_command_id c)), st)
         else case lp_run provider (lc_operation c) paths (fc_world st) of
                (Inl e, w) \<Rightarrow> (Inl (ProviderRaised e), st\<lparr>fc_world := w\<rparr>)
              | (Inr _, w) \<Rightarrow> (Inr (), st\<lparr>fc_world := w\<rparr>))"

definition fencing_execute ::
  "(string \<Rightarrow> string) \<Rightarrow> 'w lifecycle_provider \<Rightarrow> lifecycle_command \<Rightarrow> lifecycle_paths \<Rightarrow>
   ('w fencing_coordinator, lifecycle_error, command_receipt) operation" where
  "fencing_execute sha provider c paths st =
     (case validate_command sha provider c st of
        (Inl e, st) \<Rightarrow> (Inl e, st)
      | (Inr (Some replay), st) \<Rightarrow> (Inr replay, st)
      | (Inr None, st) \<Rightarrow>
          (case require_lifecycle_capability provider (lc_operation c) of
             Some e \<Rightarrow> (Inl e, st)
           | None \<Rightarrow>
               (case fencing_anchor provider (fc_world st) of
                  Inl e \<Rightarrow> (Inl e, st)
                | Inr before \<Rightarrow>
                    (let fault = fc_fault_mode st; st = st\<lparr>fc_fault_mode := NO_FAULT\<rparr>
                     in if fault = PROVIDER_UNAVAILABLE
                          then (Inl (FencingError FENCING_PROVIDER_UNAVAILABLE (lc_command_id c)), st)
                        else if fault = PARTIAL_ANCHOR_PROGRESS
                          then fencing_reconcile_partial sha provider c before st
                        else
                          (case op_seq (fencing_invoke provider c paths) (record_receipt sha provider c) st of
                             (Inl e, st) \<Rightarrow> (Inl e, st)
                           | (Inr receipt, st) \<Rightarrow>
                               if fault = AMBIGUOUS_AFTER_COMMIT
                                 then (Inl (FencingError AMBIGUOUS_COMMIT_OUTCOME (lc_command_id c)), st)
                               else (Inr receipt, st))))))"

subsection \<open>Write-once ledgers\<close>

text \<open>The steps of the coordinator, under which the receipts are written once.\<close>

inductive fencing_step :: "(string \<Rightarrow> string) \<Rightarrow> 'w lifecycle_provider \<Rightarrow> 'w fencing_coordinator \<Rightarrow> 'w fencing_coordinator \<Rightarrow> bool"
  for sha provider where
  run: "fencing_execute sha provider c paths st = (res, st') \<Longrightarrow> fencing_step sha provider st st'"
| arm: "fencing_step sha provider st (fencing_arm_fault mode st)"
| outside: "fencing_step sha provider st (st\<lparr>fc_world := w\<rparr>)"

text \<open>What a call can do to the ledger: nothing, or commit one new command above every committed fence.\<close>

definition fencing_commits ::
  "(string \<Rightarrow> string) \<Rightarrow> lifecycle_command \<Rightarrow> 'w fencing_coordinator \<Rightarrow> 'w fencing_coordinator \<Rightarrow> bool" where
  "fencing_commits sha c st st' \<longleftrightarrow> fc_receipts st (lc_command_id c) = None \<and>
     fc_highest_committed_fence st < lc_fence_token c \<and> fc_highest_committed_fence st' = lc_fence_token c \<and>
     (\<exists>r. fc_receipts st' = (fc_receipts st)(lc_command_id c \<mapsto> r) \<and> cr_command_digest r = command_digest sha c \<and>
        cr_fence_token r = lc_fence_token c)"

lemma fencing_replace_ledger:
  "fencing_replace_anchor provider a st = (res, st') \<Longrightarrow>
   fc_receipts st' = fc_receipts st \<and> fc_highest_committed_fence st' = fc_highest_committed_fence st"
  by (auto simp: fencing_replace_anchor_def split: option.splits prod.splits sum.splits)

lemma fencing_partial_ledger:
  "fencing_reconcile_partial sha provider c before st = (res, st') \<Longrightarrow>
   fc_receipts st' = fc_receipts st \<and> fc_highest_committed_fence st' = fc_highest_committed_fence st \<and> isl res"
  by (auto simp: fencing_reconcile_partial_def inject_partial_anchor_progress_def op_seq_def
      dest!: fencing_replace_ledger split: prod.splits sum.splits if_splits)

lemma fencing_invoke_ledger:
  "fencing_invoke provider c paths st = (res, st') \<Longrightarrow>
   fc_receipts st' = fc_receipts st \<and> fc_highest_committed_fence st' = fc_highest_committed_fence st"
  by (auto simp: fencing_invoke_def Let_def split: if_splits prod.splits sum.splits)

lemma fencing_record_ledger:
  "record_receipt sha provider c st = (res, st') \<Longrightarrow>
   (case res of
      Inl e \<Rightarrow> st' = st
    | Inr r \<Rightarrow> fc_receipts st' = (fc_receipts st)(lc_command_id c \<mapsto> r) \<and> fc_highest_committed_fence st' = lc_fence_token c \<and>
        cr_command_digest r = command_digest sha c \<and> cr_fence_token r = lc_fence_token c \<and> \<not> cr_replayed r)"
  by (auto simp: record_receipt_def Let_def split: sum.splits)

lemma validate_command_fresh:
  "validate_command sha provider c st = (Inr None, st') \<Longrightarrow>
   st' = st \<and> fc_receipts st (lc_command_id c) = None \<and> fc_highest_committed_fence st < lc_fence_token c"
  by (auto simp: validate_command_def split: option.splits if_splits sum.splits)

lemma validate_command_other:
  "validate_command sha provider c st = (res, st') \<Longrightarrow> res \<noteq> Inr None \<Longrightarrow>
   fc_receipts st' = fc_receipts st \<and> fc_highest_committed_fence st' = fc_highest_committed_fence st \<and>
   (\<forall>r. res = Inr (Some r) \<longrightarrow> cr_replayed r)"
  by (auto simp: validate_command_def split: option.splits if_splits sum.splits)

lemma fencing_run_ledger:
  assumes "op_seq (fencing_invoke provider c paths) (record_receipt sha provider c) st = (res, st')"
    and "fc_receipts st (lc_command_id c) = None" and "fc_highest_committed_fence st < lc_fence_token c"
  shows "case res of
      Inl e \<Rightarrow> fc_receipts st' = fc_receipts st \<and> fc_highest_committed_fence st' = fc_highest_committed_fence st
    | Inr r \<Rightarrow> fencing_commits sha c st st' \<and> \<not> cr_replayed r"
  using assms
  by (auto simp: op_seq_def fencing_commits_def dest!: fencing_invoke_ledger fencing_record_ledger
      split: prod.splits sum.splits)

lemma fencing_execute_ledger:
  assumes "fencing_execute sha provider c paths st = (res, st')"
  shows "fc_receipts st' = fc_receipts st \<and> fc_highest_committed_fence st' = fc_highest_committed_fence st \<and>
      (\<forall>r. res = Inr r \<longrightarrow> cr_replayed r) \<or>
    fencing_commits sha c st st'"
proof (cases "fst (validate_command sha provider c st) = Inr None")
  case False
  with assms show ?thesis
    by (auto simp: fencing_execute_def split: prod.splits sum.splits option.splits dest!: validate_command_other)
next
  case True
  then have v: "validate_command sha provider c st = (Inr None, st)"
    using validate_command_fresh by (metis prod.collapse)
  note fresh = validate_command_fresh [OF v]
  consider (unchanged) "fc_receipts st' = fc_receipts st" "fc_highest_committed_fence st' = fc_highest_committed_fence st" "isl res"
    | (partial) before where "fencing_reconcile_partial sha provider c before (st\<lparr>fc_fault_mode := NO_FAULT\<rparr>) = (res, st')"
    | (run) res' where "op_seq (fencing_invoke provider c paths) (record_receipt sha provider c) (st\<lparr>fc_fault_mode := NO_FAULT\<rparr>) = (res', st')"
        "isl res' \<longrightarrow> isl res"
    using assms v by (auto simp: fencing_execute_def Let_def split: option.splits sum.splits prod.splits if_splits)
  then show ?thesis
  proof cases
    case unchanged
    then show ?thesis by auto
  next
    case partial
    from fencing_partial_ledger [OF this] show ?thesis by auto
  next
    case run
    from fencing_run_ledger [OF run(1)] fresh run(2) show ?thesis
      by (auto simp: fencing_commits_def split: sum.splits)
  qed
qed

interpretation fencing_ledger: write_once fc_receipts "fencing_step sha provider" for sha provider
proof
  fix st st' k v
  assume "fencing_step sha provider st st'" and "fc_receipts st k = Some v"
  then show "fc_receipts st' k = Some v"
  proof cases
    case (run c paths res)
    with fencing_execute_ledger [OF run] \<open>fc_receipts st k = Some v\<close> show ?thesis by (auto simp: fencing_commits_def)
  qed (auto simp: fencing_arm_fault_def)
qed

lemma fence_step_mono: "fencing_step sha provider st st' \<Longrightarrow> fc_highest_committed_fence st \<le> fc_highest_committed_fence st'"
  by (erule fencing_step.cases) (auto dest!: fencing_execute_ledger simp: fencing_commits_def fencing_arm_fault_def)

lemma fence_steps_mono:
  "(fencing_step sha provider)\<^sup>*\<^sup>* st st' \<Longrightarrow> fc_highest_committed_fence st \<le> fc_highest_committed_fence st'"
  by (induction rule: rtranclp_induct) (auto dest: fence_step_mono)

text \<open>A provider on a world that is one counter, and a digest, for concrete runs.\<close>

definition lab_sha :: "string \<Rightarrow> string" where
  "lab_sha m = ''h''"

lemma lab_digests [simp]: "command_digest lab_sha c = ''h''" "fingerprint_state lab_sha a = ''h''"
  by (simp_all add: command_digest_def fingerprint_state_def lab_sha_def)

definition no_paths :: lifecycle_paths where
  "no_paths = \<lparr>pa_checkpoint_destination = None, pa_anchor_destination = None,
     pa_backup_database_path = None, pa_backup_anchor_path = None\<rparr>"

definition counting_provider :: "nat lifecycle_provider" where
  "counting_provider = \<lparr>lp_provider_id = ''lab'', lp_capabilities = [MIGRATION, SNAPSHOT, RESTORE],
     lp_callable = (\<lambda>_. True), lp_command_aware = False, lp_export_anchor = Some (\<lambda>w. ([JInt (int w)], [])),
     lp_replace_anchor = Some (\<lambda>a w. (Inr (), w)), lp_run = (\<lambda>op paths w. (Inr (), Suc w))\<rparr>"

text \<open>Replays are inert: once a command has a receipt, executing the same command again returns that
  receipt, marked as replayed, in every later state; the provider is not called and the anchor and
  the checkpoints are not touched. So an outcome that was ambiguous after the commit is resolved by
  repeating the command.\<close>

theorem committed_command_is_replayed:
  assumes "fc_receipts st (lc_command_id c) = Some r" and "cr_command_digest r = command_digest sha c"
    and "(fencing_step sha provider)\<^sup>*\<^sup>* st st'"
  shows "fencing_execute sha provider c paths st' =
    (Inr (r\<lparr>cr_replayed := True\<rparr>), st'\<lparr>fc_replay_hits := fc_replay_hits st' + 1\<rparr>)"
  using fencing_ledger.steps_keep [OF assms(3,1)] assms(2)
  by (simp add: fencing_execute_def validate_command_def)

lemmas fencing_eval = fencing_execute_def validate_command_def fencing_fingerprint_def fencing_anchor_def
  require_lifecycle_capability_def fencing_invoke_def operation_arguments_ok_def record_receipt_def op_seq_def
  counting_provider_def fencing_init_def fencing_arm_fault_def

theorem committed_command_is_replayed_witness:
  "\<exists>c st r st'. fencing_execute lab_sha counting_provider c no_paths (fencing_arm_fault AMBIGUOUS_AFTER_COMMIT (fencing_init 0)) =
       (Inl (FencingError AMBIGUOUS_COMMIT_OUTCOME (lc_command_id c)), st) \<and>
     (fencing_step lab_sha counting_provider)\<^sup>*\<^sup>* st st' \<and> fc_world st' = 7 \<and>
     fencing_execute lab_sha counting_provider c no_paths st' =
       (Inr (r\<lparr>cr_replayed := True\<rparr>), st'\<lparr>fc_replay_hits := fc_replay_hits st' + 1\<rparr>)"
proof -
  let ?c = "\<lparr>lc_command_id = ''m1'', lc_operation = MIGRATION, lc_fence_token = 1,
    lc_expected_anchor_fingerprint = ''h'', lc_resource_id = ''db''\<rparr>"
  let ?run = "fencing_execute lab_sha counting_provider ?c no_paths (fencing_arm_fault AMBIGUOUS_AFTER_COMMIT (fencing_init 0))"
  have "fst ?run = Inl (FencingError AMBIGUOUS_COMMIT_OUTCOME ''m1'') \<and> (\<exists>r. fc_receipts (snd ?run) ''m1'' = Some r \<and> cr_command_digest r = ''h'')"
    by (simp add: fencing_eval Let_def)
  then obtain st r where run: "?run = (Inl (FencingError AMBIGUOUS_COMMIT_OUTCOME (lc_command_id ?c)), st)"
    and r: "fc_receipts st (lc_command_id ?c) = Some r" "cr_command_digest r = command_digest lab_sha ?c" by (cases ?run) auto
  have outside: "(fencing_step lab_sha counting_provider)\<^sup>*\<^sup>* st (st\<lparr>fc_world := 7\<rparr>)" by (intro r_into_rtranclp fencing_step.outside)
  have "fc_world (st\<lparr>fc_world := 7\<rparr>) = 7" by simp
  with run outside committed_command_is_replayed [OF r outside, of no_paths] show ?thesis by blast
qed

text \<open>Fencing: when a command with a fence at least as high has been committed, a command that was
  not committed until then is refused as stale in every later state, and refusing it changes nothing.\<close>

theorem overtaken_command_is_fenced_off:
  assumes "fencing_execute sha provider c2 paths st = (Inr r, st1)" and "\<not> cr_replayed r"
    and "lc_fence_token c1 \<le> lc_fence_token c2"
    and "(fencing_step sha provider)\<^sup>*\<^sup>* st1 st2" and "fc_receipts st2 (lc_command_id c1) = None"
  shows "fencing_execute sha provider c1 paths' st2 = (Inl (FencingError STALE_FENCE (lc_command_id c1)), st2)"
proof -
  have "fc_highest_committed_fence st1 = lc_fence_token c2"
    using fencing_execute_ledger [OF assms(1)] assms(2) by (auto simp: fencing_commits_def)
  with fence_steps_mono [OF assms(4)] assms(3,5) show ?thesis by (simp add: fencing_execute_def validate_command_def)
qed

theorem overtaken_command_is_fenced_off_witness:
  "\<exists>c1 c2 st1 r. fencing_execute lab_sha counting_provider c2 no_paths (fencing_init 0) = (Inr r, st1) \<and>
     lc_fence_token c1 \<le> lc_fence_token c2 \<and>
     fencing_execute lab_sha counting_provider c1 no_paths st1 = (Inl (FencingError STALE_FENCE (lc_command_id c1)), st1)"
proof -
  let ?c1 = "\<lparr>lc_command_id = ''m1'', lc_operation = MIGRATION, lc_fence_token = 1,
    lc_expected_anchor_fingerprint = ''h'', lc_resource_id = ''db''\<rparr>"
  let ?c2 = "?c1\<lparr>lc_command_id := ''m2''\<rparr>"
  let ?run = "fencing_execute lab_sha counting_provider ?c2 no_paths (fencing_init 0)"
  have "(\<exists>r. fst ?run = Inr r \<and> \<not> cr_replayed r) \<and> fc_receipts (snd ?run) ''m1'' = None"
    by (simp add: fencing_eval Let_def)
  then obtain r st1 where run: "?run = (Inr r, st1)" "\<not> cr_replayed r" "fc_receipts st1 (lc_command_id ?c1) = None"
    by (cases ?run) auto
  have le: "lc_fence_token ?c1 \<le> lc_fence_token ?c2" by simp
  from overtaken_command_is_fenced_off [OF run(1,2) le rtranclp.rtrancl_refl run(3), of no_paths] run(1) le
  show ?thesis by blast
qed

end
