(* ===== verification/Lifecycle_Journal.thy ===== *)
theory Lifecycle_Journal
  imports Lifecycle_Commands
begin

section \<open>The durable lifecycle journal\<close>

text \<open>
  \<open>aegis/agent/checkpoint_lifecycle_journal.py\<close>. The SQLite file has a row per command and one row of
  counters; every row carries an HMAC tag under a key kept in a file of its own. The columns are modelled
  as they are stored, so that a row which does not parse or whose tag does not fit is refused as the
  code refuses it. \<open>mac key msg\<close> is the hex digest of HMAC-SHA-256, \<open>sha\<close> that of SHA-256. The
  checkpoint saver is a record of functions that read the state \<open>'w\<close> shared with the provider.
\<close>

subsection \<open>Rows and tags\<close>

datatype journal_state = J_PREPARED | J_PROVIDER_STARTED | J_RECONCILIATION_REQUIRED | J_COMMITTED

definition journal_state_value :: "journal_state \<Rightarrow> string" where
  "journal_state_value s = (case s of
     J_PREPARED \<Rightarrow> ''prepared'' | J_PROVIDER_STARTED \<Rightarrow> ''provider_started''
   | J_RECONCILIATION_REQUIRED \<Rightarrow> ''reconciliation_required'' | J_COMMITTED \<Rightarrow> ''committed'')"

text \<open>\<^verbatim>\<open>Enum(value)\<close>: the member with that value.\<close>

definition operation_of_value :: "string \<Rightarrow> lifecycle_operation option" where
  "operation_of_value s = find (\<lambda>op. operation_value op = s) [MIGRATION, SNAPSHOT, RESTORE]"

definition journal_state_of_value :: "string \<Rightarrow> journal_state option" where
  "journal_state_of_value s = find (\<lambda>j. journal_state_value j = s)
     [J_PREPARED, J_PROVIDER_STARTED, J_RECONCILIATION_REQUIRED, J_COMMITTED]"

record journal_row =
  jr_command_id :: string
  jr_operation :: string
  jr_fence_token :: int
  jr_expected_anchor_fingerprint :: string
  jr_resource_id :: string
  jr_command_digest :: string
  jr_state :: string
  jr_pre_observation_json :: string
  jr_anchor_fingerprint_after :: "string option"
  jr_provider_id :: string
  jr_integrity_tag :: string

record journal_meta =
  jm_schema_version :: string
  jm_highest_issued_fence :: int
  jm_highest_committed_fence :: int
  jm_integrity_tag :: string

record journal_db =
  jd_meta :: "journal_meta option"
  jd_commands :: "journal_row list"

record journal_record =
  jx_command :: lifecycle_command
  jx_state :: journal_state
  jx_pre_observation :: "(string \<times> json) list"
  jx_anchor_fingerprint_after :: "string option"
  jx_provider_id :: string

definition JOURNAL_POLICY_VERSION :: string where
  "JOURNAL_POLICY_VERSION = ''durable-synthetic-checkpoint-lifecycle-journal-v1''"

definition JOURNAL_SCHEMA_VERSION :: string where
  "JOURNAL_SCHEMA_VERSION = ''p4m-lifecycle-journal-schema-v1''"

definition json_opt :: "string option \<Rightarrow> json" where
  "json_opt v = (case v of None \<Rightarrow> JNull | Some s \<Rightarrow> JStr s)"

definition meta_payload :: "int \<Rightarrow> int \<Rightarrow> (string \<times> json) list" where
  "meta_payload issued committed =
     [(''policy_version'', JStr JOURNAL_POLICY_VERSION),
      (''schema_version'', JStr JOURNAL_SCHEMA_VERSION),
      (''highest_issued_fence'', JInt issued),
      (''highest_committed_fence'', JInt committed)]"

definition meta_tag :: "(string \<Rightarrow> string \<Rightarrow> string) \<Rightarrow> string \<Rightarrow> int \<Rightarrow> int \<Rightarrow> string" where
  "meta_tag mac key issued committed = mac key (canonical_bytes (JObj (meta_payload issued committed)))"

definition command_tag_payload ::
  "(string \<Rightarrow> string) \<Rightarrow> lifecycle_command \<Rightarrow> journal_state \<Rightarrow> string \<Rightarrow> string option \<Rightarrow> string \<Rightarrow> (string \<times> json) list" where
  "command_tag_payload sha c state pre_json after provider_id =
     [(''policy_version'', JStr JOURNAL_POLICY_VERSION),
      (''command_id'', JStr (lc_command_id c)),
      (''operation'', JStr (operation_value (lc_operation c))),
      (''fence_token'', JInt (lc_fence_token c)),
      (''expected_anchor_fingerprint'', JStr (lc_expected_anchor_fingerprint c)),
      (''resource_id'', JStr (lc_resource_id c)),
      (''command_digest'', JStr (command_digest sha c)),
      (''state'', JStr (journal_state_value state)),
      (''pre_observation_json'', JStr pre_json),
      (''anchor_fingerprint_after'', json_opt after),
      (''provider_id'', JStr provider_id)]"

definition command_tag ::
  "(string \<Rightarrow> string) \<Rightarrow> (string \<Rightarrow> string \<Rightarrow> string) \<Rightarrow> string \<Rightarrow> lifecycle_command \<Rightarrow> journal_state \<Rightarrow> string \<Rightarrow>
   string option \<Rightarrow> string \<Rightarrow> string" where
  "command_tag sha mac key c state pre_json after provider_id =
     mac key (canonical_bytes (JObj (command_tag_payload sha c state pre_json after provider_id)))"

definition observation_json :: "(string \<times> json) list \<Rightarrow> string" where
  "observation_json obs = json_dumps True (JObj obs)"

definition read_meta ::
  "(string \<Rightarrow> string \<Rightarrow> string) \<Rightarrow> string \<Rightarrow> journal_db \<Rightarrow> lifecycle_error + journal_meta" where
  "read_meta mac key db = (case jd_meta db of
     None \<Rightarrow> Inl (JournalStoreError JOURNAL_STATE_INVALID)
   | Some meta \<Rightarrow>
       if jm_schema_version meta \<noteq> JOURNAL_SCHEMA_VERSION then Inl (JournalStoreError JOURNAL_STATE_INVALID)
       else if jm_integrity_tag meta \<noteq> meta_tag mac key (jm_highest_issued_fence meta) (jm_highest_committed_fence meta)
         then Inl (JournalStoreError JOURNAL_INTEGRITY_FAILED)
       else if jm_highest_committed_fence meta > jm_highest_issued_fence meta
         then Inl (JournalStoreError JOURNAL_STATE_INVALID)
       else Inr meta)"

definition parse_row :: "journal_row \<Rightarrow> (lifecycle_command \<times> journal_state \<times> (string \<times> json) list) option" where
  "parse_row row =
     (case operation_of_value (jr_operation row) of
        None \<Rightarrow> None
      | Some operation \<Rightarrow>
          (case new_command (jr_command_id row) operation (jr_fence_token row) (jr_expected_anchor_fingerprint row)
                  (jr_resource_id row) of
             Inl _ \<Rightarrow> None
           | Inr c \<Rightarrow>
               (case (journal_state_of_value (jr_state row), json_loads (jr_pre_observation_json row)) of
                  (Some state, Some (JObj obs)) \<Rightarrow> Some (c, state, obs)
                | _ \<Rightarrow> None)))"

definition row_to_record ::
  "(string \<Rightarrow> string) \<Rightarrow> (string \<Rightarrow> string \<Rightarrow> string) \<Rightarrow> string \<Rightarrow> journal_row \<Rightarrow> lifecycle_error + journal_record" where
  "row_to_record sha mac key row =
     (case parse_row row of
        None \<Rightarrow> Inl (JournalStoreError JOURNAL_STATE_INVALID)
      | Some (c, state, obs) \<Rightarrow>
          if jr_command_digest row \<noteq> command_digest sha c
            then Inl (JournalError JOURNAL_INTEGRITY_FAILED (lc_command_id c))
          else if jr_integrity_tag row \<noteq> command_tag sha mac key c state (jr_pre_observation_json row)
                    (jr_anchor_fingerprint_after row) (jr_provider_id row)
            then Inl (JournalError JOURNAL_INTEGRITY_FAILED (lc_command_id c))
          else if state = J_COMMITTED \<and> jr_anchor_fingerprint_after row \<in> {None, Some []}
            then Inl (JournalError JOURNAL_STATE_INVALID (lc_command_id c))
          else Inr \<lparr>jx_command = c, jx_state = state, jx_pre_observation = obs,
                    jx_anchor_fingerprint_after = jr_anchor_fingerprint_after row, jx_provider_id = jr_provider_id row\<rparr>)"

abbreviation load_row :: "string \<Rightarrow> journal_db \<Rightarrow> journal_row option" where
  "load_row command_id db \<equiv> row_of jr_command_id command_id (jd_commands db)"

fun rows_to_records ::
  "(string \<Rightarrow> string) \<Rightarrow> (string \<Rightarrow> string \<Rightarrow> string) \<Rightarrow> string \<Rightarrow> journal_row list \<Rightarrow> lifecycle_error + journal_record list" where
  "rows_to_records sha mac key [] = Inr []"
| "rows_to_records sha mac key (row # rows) =
     (case row_to_record sha mac key row of
        Inl e \<Rightarrow> Inl e
      | Inr rec \<Rightarrow> (case rows_to_records sha mac key rows of Inl e \<Rightarrow> Inl e | Inr recs \<Rightarrow> Inr (rec # recs)))"

text \<open>\<^verbatim>\<open>max(xs, default=0)\<close>, for fences.\<close>

definition max_fence :: "int list \<Rightarrow> int" where
  "max_fence fs = (case fs of [] \<Rightarrow> 0 | f # fs \<Rightarrow> fold max fs f)"

definition committed_fences :: "journal_record list \<Rightarrow> int list" where
  "committed_fences recs = map (lc_fence_token \<circ> jx_command) (filter (\<lambda>rec. jx_state rec = J_COMMITTED) recs)"

definition verify_store ::
  "(string \<Rightarrow> string) \<Rightarrow> (string \<Rightarrow> string \<Rightarrow> string) \<Rightarrow> string \<Rightarrow> journal_db \<Rightarrow> lifecycle_error + unit" where
  "verify_store sha mac key db =
     (case read_meta mac key db of
        Inl e \<Rightarrow> Inl e
      | Inr meta \<Rightarrow>
          (case rows_to_records sha mac key (sort_key jr_fence_token (jd_commands db)) of
             Inl e \<Rightarrow> Inl e
           | Inr records \<Rightarrow>
               if records \<noteq> [] then
                 if max_fence (map (lc_fence_token \<circ> jx_command) records) \<noteq> jm_highest_issued_fence meta
                   then Inl (JournalStoreError JOURNAL_STATE_INVALID)
                 else if max_fence (committed_fences records) \<noteq> jm_highest_committed_fence meta
                   then Inl (JournalStoreError JOURNAL_STATE_INVALID)
                 else Inr ()
               else if jm_highest_issued_fence meta \<noteq> 0 \<or> jm_highest_committed_fence meta \<noteq> 0
                 then Inl (JournalStoreError JOURNAL_STATE_INVALID)
               else Inr ()))"

subsection \<open>Opening a journal\<close>

definition new_journal :: "(string \<Rightarrow> string \<Rightarrow> string) \<Rightarrow> string \<Rightarrow> journal_db" where
  "new_journal mac key = \<lparr>jd_meta = Some \<lparr>jm_schema_version = JOURNAL_SCHEMA_VERSION, jm_highest_issued_fence = 0,
     jm_highest_committed_fence = 0, jm_integrity_tag = meta_tag mac key 0 0\<rparr>, jd_commands = []\<rparr>"

text \<open>The two files; \<open>token\<close> is what \<^verbatim>\<open>secrets.token_bytes(32)\<close> returns.\<close>

record journal_files =
  jf_journal :: "journal_db option"
  jf_key :: "string option"

definition open_or_create_store ::
  "(string \<Rightarrow> string \<Rightarrow> string) \<Rightarrow> string \<Rightarrow> (journal_files, lifecycle_error, string) operation" where
  "open_or_create_store mac token files =
     (case (jf_journal files, jf_key files) of
        (Some db, Some key) \<Rightarrow>
          if length key \<noteq> 32 then (Inl (JournalStoreError JOURNAL_STATE_INVALID), files) else (Inr key, files)
      | (None, None) \<Rightarrow> (Inr token, \<lparr>jf_journal = Some (new_journal mac token), jf_key = Some token\<rparr>)
      | _ \<Rightarrow> (Inl (JournalStoreError JOURNAL_STATE_INVALID), files))"

definition set_row_state :: "string \<Rightarrow> journal_state \<Rightarrow> string \<Rightarrow> journal_db \<Rightarrow> journal_db" where
  "set_row_state command_id state tag db = db\<lparr>jd_commands := update_where (\<lambda>row. jr_command_id row = command_id)
     (\<lambda>row. row\<lparr>jr_state := journal_state_value state, jr_integrity_tag := tag\<rparr>) (jd_commands db)\<rparr>"

fun recover_rows ::
  "(string \<Rightarrow> string) \<Rightarrow> (string \<Rightarrow> string \<Rightarrow> string) \<Rightarrow> string \<Rightarrow> journal_row list \<Rightarrow> (journal_db, lifecycle_error, unit) operation" where
  "recover_rows sha mac key [] db = (Inr (), db)"
| "recover_rows sha mac key (row # rows) db =
     (case row_to_record sha mac key row of
        Inl e \<Rightarrow> (Inl e, db)
      | Inr rec \<Rightarrow>
          recover_rows sha mac key rows
            (set_row_state (lc_command_id (jx_command rec)) J_RECONCILIATION_REQUIRED
               (command_tag sha mac key (jx_command rec) J_RECONCILIATION_REQUIRED
                  (observation_json (jx_pre_observation rec)) None (jx_provider_id rec)) db))"

definition recover_started_commands ::
  "(string \<Rightarrow> string) \<Rightarrow> (string \<Rightarrow> string \<Rightarrow> string) \<Rightarrow> string \<Rightarrow> (journal_db, lifecycle_error, unit) operation" where
  "recover_started_commands sha mac key = transaction (\<lambda>db.
     case read_meta mac key db of
       Inl e \<Rightarrow> (Inl e, db)
     | Inr _ \<Rightarrow> recover_rows sha mac key (sort_key jr_fence_token
         (filter (\<lambda>row. jr_state row = journal_state_value J_PROVIDER_STARTED) (jd_commands db))) db)"

subsection \<open>DurableSyntheticCheckpointLifecycleCoordinator\<close>

record 'w lifecycle_saver =
  sv_active_key_id :: "'w \<Rightarrow> string"
  sv_checkpoint_blobs :: "'w \<Rightarrow> string list"
  sv_write_blobs :: "'w \<Rightarrow> string list"
  sv_envelope_key_id :: "string \<Rightarrow> string + string"

record 'w journal_coordinator =
  jc_world :: 'w
  jc_db :: journal_db
  jc_key :: string
  jc_fault_mode :: journal_fault
  jc_provider_invocations :: nat
  jc_replay_hits :: nat
  jc_reconciliations :: nat

definition journal_open ::
  "(string \<Rightarrow> string) \<Rightarrow> (string \<Rightarrow> string \<Rightarrow> string) \<Rightarrow> string \<Rightarrow> 'w \<Rightarrow> (journal_files, lifecycle_error, 'w journal_coordinator) operation" where
  "journal_open sha mac token w files =
     (case open_or_create_store mac token files of
        (Inl e, files) \<Rightarrow> (Inl e, files)
      | (Inr key, files) \<Rightarrow>
          (case jf_journal files of
             None \<Rightarrow> (Inl (JournalStoreError JOURNAL_STATE_INVALID), files)
           | Some db \<Rightarrow>
               (case verify_store sha mac key db of
                  Inl e \<Rightarrow> (Inl e, files)
                | Inr _ \<Rightarrow>
                    (case recover_started_commands sha mac key db of
                       (Inl e, db) \<Rightarrow> (Inl e, files\<lparr>jf_journal := Some db\<rparr>)
                     | (Inr _, db) \<Rightarrow>
                         (Inr \<lparr>jc_world = w, jc_db = db, jc_key = key, jc_fault_mode = JOURNAL_NO_FAULT,
                               jc_provider_invocations = 0, jc_replay_hits = 0, jc_reconciliations = 0\<rparr>,
                          files\<lparr>jf_journal := Some db\<rparr>)))))"

definition journal_arm_fault :: "journal_fault \<Rightarrow> 'w journal_coordinator \<Rightarrow> 'w journal_coordinator" where
  "journal_arm_fault mode st = st\<lparr>jc_fault_mode := mode\<rparr>"

definition journal_fingerprint :: "(string \<Rightarrow> string) \<Rightarrow> 'w lifecycle_provider \<Rightarrow> 'w \<Rightarrow> lifecycle_error + string" where
  "journal_fingerprint sha provider w =
     (case lp_export_anchor provider of
        None \<Rightarrow> Inl (JournalStoreError JOURNAL_STATE_INVALID) | Some export \<Rightarrow> Inr (fingerprint_state sha (export w)))"

fun envelope_key_ids :: "'w lifecycle_saver \<Rightarrow> string list \<Rightarrow> lifecycle_error + string list" where
  "envelope_key_ids saver [] = Inr []"
| "envelope_key_ids saver (blob # blobs) =
     (case sv_envelope_key_id saver blob of
        Inl e \<Rightarrow> Inl (ProviderRaised e)
      | Inr key_id \<Rightarrow>
          (case envelope_key_ids saver blobs of Inl e \<Rightarrow> Inl e | Inr key_ids \<Rightarrow> Inr (key_id # key_ids)))"

definition migration_observation ::
  "(string \<Rightarrow> string) \<Rightarrow> 'w lifecycle_provider \<Rightarrow> 'w lifecycle_saver \<Rightarrow> 'w \<Rightarrow> lifecycle_error + (string \<times> json) list" where
  "migration_observation sha provider saver w =
     (let active = sv_active_key_id saver w
      in case envelope_key_ids saver (sv_checkpoint_blobs saver w) of
           Inl e \<Rightarrow> Inl e
         | Inr checkpoint_ids \<Rightarrow>
             (case envelope_key_ids saver (sv_write_blobs saver w) of
                Inl e \<Rightarrow> Inl e
              | Inr write_ids \<Rightarrow>
                  (case journal_fingerprint sha provider w of
                     Inl e \<Rightarrow> Inl e
                   | Inr fingerprint \<Rightarrow> Inr
                       [(''anchor_fingerprint'', JStr fingerprint),
                        (''active_key_id'', JStr active),
                        (''checkpoint_total'', JInt (int (length checkpoint_ids))),
                        (''checkpoint_active'', JInt (int (length (filter (\<lambda>k. k = active) checkpoint_ids)))),
                        (''write_total'', JInt (int (length write_ids))),
                        (''write_active'', JInt (int (length (filter (\<lambda>k. k = active) write_ids))))])))"

definition operation_observation ::
  "(string \<Rightarrow> string) \<Rightarrow> 'w lifecycle_provider \<Rightarrow> 'w lifecycle_saver \<Rightarrow> lifecycle_operation \<Rightarrow> 'w \<Rightarrow>
   lifecycle_error + (string \<times> json) list" where
  "operation_observation sha provider saver operation w =
     (if operation = MIGRATION then migration_observation sha provider saver w
      else case journal_fingerprint sha provider w of
             Inl e \<Rightarrow> Inl e | Inr fingerprint \<Rightarrow> Inr [(''anchor_fingerprint'', JStr fingerprint)])"

definition new_journal_row ::
  "(string \<Rightarrow> string) \<Rightarrow> (string \<Rightarrow> string \<Rightarrow> string) \<Rightarrow> string \<Rightarrow> lifecycle_command \<Rightarrow> string \<Rightarrow> string \<Rightarrow> journal_row" where
  "new_journal_row sha mac key c pre_json provider_id =
     \<lparr>jr_command_id = lc_command_id c, jr_operation = operation_value (lc_operation c),
      jr_fence_token = lc_fence_token c, jr_expected_anchor_fingerprint = lc_expected_anchor_fingerprint c,
      jr_resource_id = lc_resource_id c, jr_command_digest = command_digest sha c,
      jr_state = journal_state_value J_PREPARED, jr_pre_observation_json = pre_json,
      jr_anchor_fingerprint_after = None, jr_provider_id = provider_id,
      jr_integrity_tag = command_tag sha mac key c J_PREPARED pre_json None provider_id\<rparr>"

text \<open>The transaction of \<open>issue_command\<close>; the table has unique fences.\<close>

definition insert_command ::
  "(string \<Rightarrow> string) \<Rightarrow> (string \<Rightarrow> string \<Rightarrow> string) \<Rightarrow> string \<Rightarrow> string \<Rightarrow> string \<Rightarrow> lifecycle_operation \<Rightarrow> string \<Rightarrow> string \<Rightarrow>
   string \<Rightarrow> (journal_db, lifecycle_error, lifecycle_command) operation" where
  "insert_command sha mac key provider_id command_id operation resource_id anchor pre_json = transaction (\<lambda>db.
     case read_meta mac key db of
       Inl e \<Rightarrow> (Inl e, db)
     | Inr meta \<Rightarrow>
         (case load_row command_id db of
            Some row \<Rightarrow>
              (case row_to_record sha mac key row of
                 Inl e \<Rightarrow> (Inl e, db)
               | Inr existing \<Rightarrow>
                   if lc_operation (jx_command existing) \<noteq> operation \<or> lc_resource_id (jx_command existing) \<noteq> resource_id
                      \<or> jx_provider_id existing \<noteq> provider_id
                     then (Inl (JournalError JOURNAL_COMMAND_CONFLICT command_id), db)
                   else (Inr (jx_command existing), db))
          | None \<Rightarrow>
              (let fence = jm_highest_issued_fence meta + 1
               in case new_command command_id operation fence anchor resource_id of
                    Inl e \<Rightarrow> (Inl e, db)
                  | Inr c \<Rightarrow>
                      if fence \<in> jr_fence_token ` set (jd_commands db) then (Inl LifecycleSqliteIntegrityError, db)
                      else (Inr c,
                        db\<lparr>jd_commands := jd_commands db @ [new_journal_row sha mac key c pre_json provider_id],
                           jd_meta := Some (meta\<lparr>jm_highest_issued_fence := fence,
                             jm_integrity_tag := meta_tag mac key fence (jm_highest_committed_fence meta)\<rparr>)\<rparr>))))"

definition journal_issue_command ::
  "(string \<Rightarrow> string) \<Rightarrow> (string \<Rightarrow> string \<Rightarrow> string) \<Rightarrow> 'w lifecycle_provider \<Rightarrow> 'w lifecycle_saver \<Rightarrow>
   string \<Rightarrow> lifecycle_operation \<Rightarrow> string \<Rightarrow> ('w journal_coordinator, lifecycle_error, lifecycle_command) operation" where
  "journal_issue_command sha mac provider saver command_id operation resource_id st =
     (if is_blank command_id \<or> is_blank resource_id
        then (Inl (LifecycleValueError ''checkpoint lifecycle command and resource ids must be non-empty''), st)
      else case journal_fingerprint sha provider (jc_world st) of
             Inl e \<Rightarrow> (Inl e, st)
           | Inr current_anchor \<Rightarrow>
               (case operation_observation sha provider saver operation (jc_world st) of
                  Inl e \<Rightarrow> (Inl e, st)
                | Inr obs \<Rightarrow>
                    if map_of obs ''anchor_fingerprint'' \<noteq> Some (JStr current_anchor)
                      then (Inl (JournalError JOURNAL_ANCHOR_MISMATCH command_id), st)
                    else case insert_command sha mac (jc_key st) (lp_provider_id provider) command_id operation
                                resource_id current_anchor (observation_json obs) (jc_db st) of
                           (res, db) \<Rightarrow> (res, st\<lparr>jc_db := db\<rparr>)))"

definition load_record_for_command ::
  "(string \<Rightarrow> string) \<Rightarrow> (string \<Rightarrow> string \<Rightarrow> string) \<Rightarrow> string \<Rightarrow> string \<Rightarrow> lifecycle_command \<Rightarrow> journal_db \<Rightarrow>
   lifecycle_error + journal_record \<times> int" where
  "load_record_for_command sha mac key provider_id c db =
     (case read_meta mac key db of
        Inl e \<Rightarrow> Inl e
      | Inr meta \<Rightarrow>
          (case load_row (lc_command_id c) db of
             None \<Rightarrow> Inl (JournalError JOURNAL_COMMAND_MISSING (lc_command_id c))
           | Some row \<Rightarrow>
               (case row_to_record sha mac key row of
                  Inl e \<Rightarrow> Inl e
                | Inr rec \<Rightarrow>
                    if command_digest sha (jx_command rec) \<noteq> command_digest sha c
                      then Inl (JournalError JOURNAL_COMMAND_CONFLICT (lc_command_id c))
                    else if jx_provider_id rec \<noteq> provider_id
                      then Inl (JournalError JOURNAL_PROVIDER_ID_MISMATCH (lc_command_id c))
                    else Inr (rec, jm_highest_committed_fence meta))))"

text \<open>The checks \<open>_set_state\<close> and \<open>_commit_receipt\<close> make in their transaction.\<close>

definition current_row_check ::
  "(string \<Rightarrow> string) \<Rightarrow> (string \<Rightarrow> string \<Rightarrow> string) \<Rightarrow> string \<Rightarrow> journal_record \<Rightarrow> journal_db \<Rightarrow>
   lifecycle_error + journal_meta" where
  "current_row_check sha mac key rec db =
     (let command_id = lc_command_id (jx_command rec)
      in case read_meta mac key db of
           Inl e \<Rightarrow> Inl e
         | Inr meta \<Rightarrow>
             (case load_row command_id db of
                None \<Rightarrow> Inl (JournalError JOURNAL_COMMAND_MISSING command_id)
              | Some row \<Rightarrow>
                  (case row_to_record sha mac key row of
                     Inl e \<Rightarrow> Inl e
                   | Inr current \<Rightarrow>
                       if command_digest sha (jx_command current) \<noteq> command_digest sha (jx_command rec)
                         then Inl (JournalError JOURNAL_COMMAND_CONFLICT command_id)
                       else Inr meta)))"

definition journal_set_state ::
  "(string \<Rightarrow> string) \<Rightarrow> (string \<Rightarrow> string \<Rightarrow> string) \<Rightarrow> string \<Rightarrow> journal_record \<Rightarrow> journal_state \<Rightarrow>
   (journal_db, lifecycle_error, journal_record) operation" where
  "journal_set_state sha mac key rec state = transaction (\<lambda>db.
     case current_row_check sha mac key rec db of
       Inl e \<Rightarrow> (Inl e, db)
     | Inr _ \<Rightarrow> (Inr (rec\<lparr>jx_state := state\<rparr>),
         set_row_state (lc_command_id (jx_command rec)) state
           (command_tag sha mac key (jx_command rec) state (observation_json (jx_pre_observation rec))
              (jx_anchor_fingerprint_after rec) (jx_provider_id rec)) db))"

definition receipt_of ::
  "(string \<Rightarrow> string) \<Rightarrow> journal_record \<Rightarrow> string \<Rightarrow> bool \<Rightarrow> command_receipt" where
  "receipt_of sha rec after replayed =
     \<lparr>cr_command_id = lc_command_id (jx_command rec), cr_operation = lc_operation (jx_command rec),
      cr_fence_token = lc_fence_token (jx_command rec), cr_command_digest = command_digest sha (jx_command rec),
      cr_anchor_fingerprint_after = after, cr_provider_id = jx_provider_id rec, cr_replayed = replayed\<rparr>"

definition commit_receipt ::
  "(string \<Rightarrow> string) \<Rightarrow> (string \<Rightarrow> string \<Rightarrow> string) \<Rightarrow> string \<Rightarrow> journal_record \<Rightarrow> string \<Rightarrow>
   (journal_db, lifecycle_error, command_receipt) operation" where
  "commit_receipt sha mac key rec after = transaction (\<lambda>db.
     let command_id = lc_command_id (jx_command rec);
         tag = command_tag sha mac key (jx_command rec) J_COMMITTED (observation_json (jx_pre_observation rec))
                 (Some after) (jx_provider_id rec)
     in case current_row_check sha mac key rec db of
          Inl e \<Rightarrow> (Inl e, db)
        | Inr meta \<Rightarrow>
            (let committed = max (jm_highest_committed_fence meta) (lc_fence_token (jx_command rec))
             in (Inr (receipt_of sha rec after False),
                 db\<lparr>jd_commands := update_where (\<lambda>row. jr_command_id row = command_id)
                      (\<lambda>row. row\<lparr>jr_state := journal_state_value J_COMMITTED,
                                 jr_anchor_fingerprint_after := Some after, jr_integrity_tag := tag\<rparr>) (jd_commands db),
                    jd_meta := Some (meta\<lparr>jm_highest_committed_fence := committed,
                      jm_integrity_tag := meta_tag mac key (jm_highest_issued_fence meta) committed\<rparr>)\<rparr>)))"

definition receipt_from_record ::
  "(string \<Rightarrow> string) \<Rightarrow> journal_record \<Rightarrow> lifecycle_error + command_receipt" where
  "receipt_from_record sha rec = (case jx_anchor_fingerprint_after rec of
     None \<Rightarrow> Inl (JournalError JOURNAL_STATE_INVALID (lc_command_id (jx_command rec)))
   | Some after \<Rightarrow> Inr (receipt_of sha rec after True))"

text \<open>The statements of a coordinator method that only touch the journal.\<close>

definition on_journal :: "(journal_db, lifecycle_error, 'a) operation \<Rightarrow> ('w journal_coordinator, lifecycle_error, 'a) operation" where
  "on_journal f st = (case f (jc_db st) of (res, db) \<Rightarrow> (res, st\<lparr>jc_db := db\<rparr>))"

definition journal_invoke ::
  "'w lifecycle_provider \<Rightarrow> lifecycle_command \<Rightarrow> lifecycle_paths \<Rightarrow> ('w journal_coordinator, lifecycle_error, unit) operation" where
  "journal_invoke provider c paths st =
     (case lp_run provider (lc_operation c) paths (jc_world st) of
        (res, w) \<Rightarrow> (map_sum ProviderRaised id res, st\<lparr>jc_world := w, jc_provider_invocations := jc_provider_invocations st + 1\<rparr>))"

text \<open>What happens to a record in \<open>PROVIDER_STARTED\<close> when a command is executed or reconciled again.\<close>

definition demote_started ::
  "(string \<Rightarrow> string) \<Rightarrow> (string \<Rightarrow> string \<Rightarrow> string) \<Rightarrow> journal_record \<Rightarrow>
   ('w journal_coordinator, lifecycle_error, journal_record) operation" where
  "demote_started sha mac rec st =
     (if jx_state rec = J_PROVIDER_STARTED
        then on_journal (journal_set_state sha mac (jc_key st) rec J_RECONCILIATION_REQUIRED) st
      else (Inr rec, st))"

definition journal_admission ::
  "(string \<Rightarrow> string) \<Rightarrow> 'w lifecycle_provider \<Rightarrow> lifecycle_command \<Rightarrow> lifecycle_paths \<Rightarrow> journal_record \<Rightarrow> int \<Rightarrow> 'w \<Rightarrow>
   lifecycle_error option" where
  "journal_admission sha provider c paths rec highest_committed w =
     (if jx_state rec = J_RECONCILIATION_REQUIRED then Some (JournalError JOURNAL_RECONCILIATION_REQUIRED (lc_command_id c))
      else if jx_state rec \<noteq> J_PREPARED then Some (JournalError JOURNAL_STATE_INVALID (lc_command_id c))
      else if lc_fence_token c \<le> highest_committed then Some (JournalError JOURNAL_FENCE_STALE (lc_command_id c))
      else case journal_fingerprint sha provider w of
             Inl e \<Rightarrow> Some e
           | Inr fingerprint \<Rightarrow>
               if lc_expected_anchor_fingerprint c \<noteq> fingerprint
                 then Some (JournalError JOURNAL_ANCHOR_MISMATCH (lc_command_id c))
               else if \<not> operation_arguments_ok (lc_operation c) paths
                 then Some (JournalError JOURNAL_ARGUMENTS_INVALID (lc_command_id c))
               else require_lifecycle_capability provider (lc_operation c))"

definition journal_finish ::
  "(string \<Rightarrow> string) \<Rightarrow> (string \<Rightarrow> string \<Rightarrow> string) \<Rightarrow> 'w lifecycle_provider \<Rightarrow> lifecycle_command \<Rightarrow> journal_fault \<Rightarrow>
   journal_record \<Rightarrow> ('w journal_coordinator, lifecycle_error, command_receipt) operation" where
  "journal_finish sha mac provider c fault rec st =
     (if fault = AFTER_PROVIDER_BEFORE_COMMIT then (Inl (JournalCrash (lc_command_id c) fault), st)
      else case journal_fingerprint sha provider (jc_world st) of
             Inl e \<Rightarrow> (Inl e, st)
           | Inr after \<Rightarrow>
               (case on_journal (commit_receipt sha mac (jc_key st) rec after) st of
                  (Inl e, st) \<Rightarrow> (Inl e, st)
                | (Inr receipt, st) \<Rightarrow>
                    if fault = AFTER_COMMIT_BEFORE_RESPONSE then (Inl (JournalCrash (lc_command_id c) fault), st)
                    else (Inr receipt, st)))"

text \<open>A subclass overrides \<open>_invoke_provider\<close>; \<open>invoke\<close> is the method of the class at hand.\<close>

definition journal_start ::
  "(string \<Rightarrow> string) \<Rightarrow> (string \<Rightarrow> string \<Rightarrow> string) \<Rightarrow> 'w lifecycle_provider \<Rightarrow>
   (lifecycle_command \<Rightarrow> lifecycle_paths \<Rightarrow> ('w journal_coordinator, lifecycle_error, unit) operation) \<Rightarrow> lifecycle_command \<Rightarrow> lifecycle_paths \<Rightarrow>
   journal_fault \<Rightarrow> journal_record \<Rightarrow> ('w journal_coordinator, lifecycle_error, command_receipt) operation" where
  "journal_start sha mac provider invoke c paths fault rec st =
     (if fault = AFTER_PREPARED_BEFORE_PROVIDER then (Inl (JournalCrash (lc_command_id c) fault), st)
      else case on_journal (journal_set_state sha mac (jc_key st) rec J_PROVIDER_STARTED) st of
             (Inl e, st) \<Rightarrow> (Inl e, st)
           | (Inr rec, st) \<Rightarrow>
               (case invoke c paths st of
                  (Inl _, st) \<Rightarrow>
                    (case on_journal (journal_set_state sha mac (jc_key st) rec J_RECONCILIATION_REQUIRED) st of
                       (Inl e, st) \<Rightarrow> (Inl e, st)
                     | (Inr _, st) \<Rightarrow> (Inl (JournalError JOURNAL_RECONCILIATION_REQUIRED (lc_command_id c)), st))
                | (Inr _, st) \<Rightarrow> journal_finish sha mac provider c fault rec st))"

definition journal_execute ::
  "(string \<Rightarrow> string) \<Rightarrow> (string \<Rightarrow> string \<Rightarrow> string) \<Rightarrow> 'w lifecycle_provider \<Rightarrow>
   (lifecycle_command \<Rightarrow> lifecycle_paths \<Rightarrow> ('w journal_coordinator, lifecycle_error, unit) operation) \<Rightarrow> lifecycle_command \<Rightarrow> lifecycle_paths \<Rightarrow>
   ('w journal_coordinator, lifecycle_error, command_receipt) operation" where
  "journal_execute sha mac provider invoke c paths st =
     (case load_record_for_command sha mac (jc_key st) (lp_provider_id provider) c (jc_db st) of
        Inl e \<Rightarrow> (Inl e, st)
      | Inr (rec, highest_committed) \<Rightarrow>
          if jx_state rec = J_COMMITTED
            then (receipt_from_record sha rec, st\<lparr>jc_replay_hits := jc_replay_hits st + 1\<rparr>)
          else case demote_started sha mac rec st of
                 (Inl e, st) \<Rightarrow> (Inl e, st)
               | (Inr rec, st) \<Rightarrow>
                   (case journal_admission sha provider c paths rec highest_committed (jc_world st) of
                      Some e \<Rightarrow> (Inl e, st)
                    | None \<Rightarrow>
                        journal_start sha mac provider invoke c paths (jc_fault_mode st) rec
                          (st\<lparr>jc_fault_mode := JOURNAL_NO_FAULT\<rparr>)))"

text \<open>\<^verbatim>\<open>int(d[k])\<close> and \<^verbatim>\<open>str(d[k])\<close> on the fields of an observation; \<open>None\<close> where Python raises.\<close>

definition int_field :: "(string \<times> json) list \<Rightarrow> string \<Rightarrow> int option" where
  "int_field d k = (case map_of d k of Some (JInt i) \<Rightarrow> Some i | Some (JBool b) \<Rightarrow> Some (of_bool b) | _ \<Rightarrow> None)"

definition migration_counts :: "(string \<times> json) list \<Rightarrow> (int \<times> int) option" where
  "migration_counts d =
     (case (int_field d ''checkpoint_total'', int_field d ''write_total'',
            int_field d ''checkpoint_active'', int_field d ''write_active'') of
        (Some ct, Some wt, Some ca, Some wa) \<Rightarrow> Some (ct + wt, ca + wa) | _ \<Rightarrow> None)"

definition migration_commit_proven :: "(string \<times> json) list \<Rightarrow> (string \<times> json) list \<Rightarrow> bool" where
  "migration_commit_proven before current =
     (case (migration_counts before, migration_counts current) of
        (Some (before_total, before_active), Some (current_total, current_active)) \<Rightarrow>
          before_total > 0 \<and> before_total = current_total \<and> before_active < before_total \<and>
          current_active = current_total \<and>
          (case (map_of before ''active_key_id'', map_of current ''active_key_id'') of
             (Some a, Some b) \<Rightarrow> a = b | _ \<Rightarrow> False) \<and>
          (case (map_of before ''anchor_fingerprint'', map_of current ''anchor_fingerprint'') of
             (Some a, Some b) \<Rightarrow> a \<noteq> b | _ \<Rightarrow> False)
      | _ \<Rightarrow> False)"

definition journal_reconcile ::
  "(string \<Rightarrow> string) \<Rightarrow> (string \<Rightarrow> string \<Rightarrow> string) \<Rightarrow> 'w lifecycle_provider \<Rightarrow> 'w lifecycle_saver \<Rightarrow> lifecycle_command \<Rightarrow>
   ('w journal_coordinator, lifecycle_error, command_receipt) operation" where
  "journal_reconcile sha mac provider saver c st =
     (let unprovable = Inl (JournalError JOURNAL_RECONCILIATION_UNPROVABLE (lc_command_id c))
      in case load_record_for_command sha mac (jc_key st) (lp_provider_id provider) c (jc_db st) of
        Inl e \<Rightarrow> (Inl e, st)
      | Inr (rec, _) \<Rightarrow>
          if jx_state rec = J_COMMITTED
            then (receipt_from_record sha rec, st\<lparr>jc_replay_hits := jc_replay_hits st + 1\<rparr>)
          else case demote_started sha mac rec st of
                 (Inl e, st) \<Rightarrow> (Inl e, st)
               | (Inr rec, st) \<Rightarrow>
                   if jx_state rec \<noteq> J_RECONCILIATION_REQUIRED then (unprovable, st)
                   else if lc_operation c \<noteq> MIGRATION then (unprovable, st)
                   else case migration_observation sha provider saver (jc_world st) of
                          Inl e \<Rightarrow> (Inl e, st)
                        | Inr current \<Rightarrow>
                            if \<not> migration_commit_proven (jx_pre_observation rec) current then (unprovable, st)
                            else case (map_of current ''anchor_fingerprint'') of
                                   Some (JStr after) \<Rightarrow>
                                     (case on_journal (commit_receipt sha mac (jc_key st) rec after) st of
                                        (Inl e, st) \<Rightarrow> (Inl e, st)
                                      | (Inr receipt, st) \<Rightarrow>
                                          (Inr (receipt\<lparr>cr_replayed := True\<rparr>),
                                           st\<lparr>jc_reconciliations := jc_reconciliations st + 1\<rparr>))
                                 | _ \<Rightarrow> (unprovable, st))"

end
