(* ===== verification/Journal_Histories.thy ===== *)
theory Journal_Histories
  imports Lifecycle_Journal
begin

section \<open>Histories of the lifecycle journal\<close>

text \<open>
  A journal file is the table of a list of records, and every operation of the coordinator on the file is an
  operation on that list. From that follow the guarantees of a journal over any history of calls,
  injected crashes and restarts, for every class of coordinators that keeps to the contract
  \<open>coordinator_methods\<close>.
\<close>

subsection \<open>A journal is the table of its records\<close>

text \<open>
  The abstract view of a journal file: a list of records. \<open>record_row\<close> is the row that stores a record, with
  its digest and its tag, and \<open>journal_of\<close> the database that holds a list of records with counters that
  fit. Every operation of the coordinator on \<open>journal_of recs\<close> is an operation on \<open>recs\<close>.
\<close>

abbreviation rec_id :: "journal_record \<Rightarrow> string" where
  "rec_id rec \<equiv> lc_command_id (jx_command rec)"

abbreviation rec_fence :: "journal_record \<Rightarrow> int" where
  "rec_fence rec \<equiv> lc_fence_token (jx_command rec)"

definition command_ok :: "lifecycle_command \<Rightarrow> bool" where
  "command_ok c \<longleftrightarrow> \<not> is_blank (lc_command_id c) \<and> 1 \<le> lc_fence_token c \<and>
     \<not> is_blank (lc_expected_anchor_fingerprint c) \<and> \<not> is_blank (lc_resource_id c)"

definition record_ok :: "journal_record \<Rightarrow> bool" where
  "record_ok rec \<longleftrightarrow> command_ok (jx_command rec) \<and> wf_json (JObj (jx_pre_observation rec)) \<and>
     sort_keys (JObj (jx_pre_observation rec)) = JObj (jx_pre_observation rec) \<and>
     (jx_state rec = J_COMMITTED \<longleftrightarrow> jx_anchor_fingerprint_after rec \<noteq> None) \<and>
     jx_anchor_fingerprint_after rec \<noteq> Some []"

definition records_ok :: "journal_record list \<Rightarrow> bool" where
  "records_ok recs \<longleftrightarrow> (\<forall>rec \<in> set recs. record_ok rec) \<and> distinct (map rec_id recs) \<and> distinct (map rec_fence recs)"

definition record_row ::
  "(string \<Rightarrow> string) \<Rightarrow> (string \<Rightarrow> string \<Rightarrow> string) \<Rightarrow> string \<Rightarrow> journal_record \<Rightarrow> journal_row" where
  "record_row sha mac key rec =
     \<lparr>jr_command_id = rec_id rec, jr_operation = operation_value (lc_operation (jx_command rec)),
      jr_fence_token = rec_fence rec, jr_expected_anchor_fingerprint = lc_expected_anchor_fingerprint (jx_command rec),
      jr_resource_id = lc_resource_id (jx_command rec), jr_command_digest = command_digest sha (jx_command rec),
      jr_state = journal_state_value (jx_state rec), jr_pre_observation_json = observation_json (jx_pre_observation rec),
      jr_anchor_fingerprint_after = jx_anchor_fingerprint_after rec, jr_provider_id = jx_provider_id rec,
      jr_integrity_tag = command_tag sha mac key (jx_command rec) (jx_state rec) (observation_json (jx_pre_observation rec))
        (jx_anchor_fingerprint_after rec) (jx_provider_id rec)\<rparr>"

definition meta_of :: "(string \<Rightarrow> string \<Rightarrow> string) \<Rightarrow> string \<Rightarrow> journal_record list \<Rightarrow> journal_meta" where
  "meta_of mac key recs = (let issued = max_fence (map rec_fence recs); committed = max_fence (committed_fences recs)
     in \<lparr>jm_schema_version = JOURNAL_SCHEMA_VERSION, jm_highest_issued_fence = issued,
         jm_highest_committed_fence = committed, jm_integrity_tag = meta_tag mac key issued committed\<rparr>)"

definition journal_of ::
  "(string \<Rightarrow> string) \<Rightarrow> (string \<Rightarrow> string \<Rightarrow> string) \<Rightarrow> string \<Rightarrow> journal_record list \<Rightarrow> journal_db" where
  "journal_of sha mac key recs = \<lparr>jd_meta = Some (meta_of mac key recs), jd_commands = map (record_row sha mac key) recs\<rparr>"

lemma journal_of_sel [simp]:
  "jd_meta (journal_of sha mac key recs) = Some (meta_of mac key recs)"
  "jd_commands (journal_of sha mac key recs) = map (record_row sha mac key) recs"
  by (simp_all add: journal_of_def)

lemma record_row_sel [simp]:
  "jr_command_id (record_row sha mac key rec) = rec_id rec"
  "jr_fence_token (record_row sha mac key rec) = rec_fence rec"
  "jr_state (record_row sha mac key rec) = journal_state_value (jx_state rec)"
  by (simp_all add: record_row_def)

lemma operation_of_value [simp]: "operation_of_value (operation_value op) = Some op"
  by (cases op) (simp_all add: operation_of_value_def operation_value_def)

lemma journal_state_of_value [simp]: "journal_state_of_value (journal_state_value s) = Some s"
  by (cases s) (simp_all add: journal_state_of_value_def journal_state_value_def)

lemma operation_value_inject: "operation_value op = operation_value op' \<longleftrightarrow> op = op'"
  by (metis operation_of_value option.inject)

lemma journal_state_value_inject [simp]: "journal_state_value s = journal_state_value t \<longleftrightarrow> s = t"
  by (metis journal_state_of_value option.inject)

lemma new_command_Inr:
  "new_command i op f a r = Inr c \<longleftrightarrow>
     c = \<lparr>lc_command_id = i, lc_operation = op, lc_fence_token = f, lc_expected_anchor_fingerprint = a, lc_resource_id = r\<rparr> \<and>
     command_ok c"
  by (auto simp: new_command_def command_ok_def)

lemma row_to_record_row [simp]:
  assumes "record_ok rec"
  shows "row_to_record sha mac key (record_row sha mac key rec) = Inr rec"
proof -
  have c: "new_command (rec_id rec) (lc_operation (jx_command rec)) (rec_fence rec)
      (lc_expected_anchor_fingerprint (jx_command rec)) (lc_resource_id (jx_command rec)) = Inr (jx_command rec)"
    using assms by (simp add: new_command_Inr record_ok_def)
  have "json_loads (observation_json (jx_pre_observation rec)) = Some (JObj (jx_pre_observation rec))"
    using assms json_loads_dumps [of "JObj (jx_pre_observation rec)" True]
    by (simp add: record_ok_def observation_json_def)
  with c assms show ?thesis by (auto simp: row_to_record_def parse_row_def record_row_def record_ok_def)
qed

lemma fences_positive: "records_ok recs \<Longrightarrow> f \<in> set (map rec_fence recs) \<Longrightarrow> 1 \<le> f"
  by (auto simp: records_ok_def record_ok_def command_ok_def)

lemma max_fence_Max:
  assumes "\<And>f. f \<in> set fs \<Longrightarrow> 0 \<le> f"
  shows "max_fence fs = Max (insert 0 (set fs))"
proof (cases fs)
  case (Cons f gs)
  have "max_fence fs = Max (set fs)" unfolding Cons by (simp only: max_fence_def list.case Max.set_eq_fold)
  moreover have "0 \<le> Max (set fs)" using assms [of f] Cons by (metis List.finite_set Max_ge list.set_intros(1) order_trans)
  ultimately show ?thesis using Cons by simp
qed (simp add: max_fence_def)

lemma issued_Max: "records_ok recs \<Longrightarrow> max_fence (map rec_fence recs) = Max (insert 0 (rec_fence ` set recs))"
  using fences_positive [of recs] by (subst max_fence_Max) force+

lemma committed_Max:
  "records_ok recs \<Longrightarrow>
   max_fence (committed_fences recs) = Max (insert 0 (rec_fence ` {rec \<in> set recs. jx_state rec = J_COMMITTED}))"
  using fences_positive [of recs] by (subst max_fence_Max) (force simp: committed_fences_def image_def intro!: arg_cong [where f = Max])+

lemma committed_le_issued: "records_ok recs \<Longrightarrow> max_fence (committed_fences recs) \<le> max_fence (map rec_fence recs)"
  unfolding issued_Max committed_Max by (intro Max_mono) auto

lemma read_meta_of [simp]: "records_ok recs \<Longrightarrow> read_meta mac key (journal_of sha mac key recs) = Inr (meta_of mac key recs)"
  using committed_le_issued [of recs] by (simp add: read_meta_def meta_of_def Let_def not_less)

lemma row_of_map: "row_of k i (map f xs) = map_option f (row_of (k \<circ> f) i xs)"
  by (induction xs) auto

lemma load_row_of [simp]:
  "row_of jr_command_id i (map (record_row sha mac key) recs) = map_option (record_row sha mac key) (row_of rec_id i recs)"
  by (simp add: row_of_map comp_def)

lemma record_okI: "records_ok recs \<Longrightarrow> row_of rec_id i recs = Some rec \<Longrightarrow> record_ok rec \<and> rec_id rec = i"
  by (auto simp: records_ok_def dest: row_of_SomeD)

lemma rec_unique:
  "records_ok recs \<Longrightarrow> row_of rec_id i recs = Some rec \<Longrightarrow> r \<in> set recs \<Longrightarrow> r = rec \<longleftrightarrow> rec_id r = i"
  by (auto simp: records_ok_def distinct_map inj_on_def dest!: row_of_SomeD)

lemma records_ok_mset:
  assumes "mset recs' = mset recs"
  shows "records_ok recs' \<longleftrightarrow> records_ok recs"
proof -
  from assms have "mset (map f recs') = mset (map f recs)" for f :: "journal_record \<Rightarrow> 'a" by simp
  then have "distinct (map rec_id recs') = distinct (map rec_id recs)" "distinct (map rec_fence recs') = distinct (map rec_fence recs)"
    by (metis mset_eq_imp_distinct_iff)+
  with mset_eq_setD [OF assms] show ?thesis by (simp add: records_ok_def)
qed

subsection \<open>Updates of a journal\<close>

definition set_rec :: "journal_record \<Rightarrow> journal_record list \<Rightarrow> journal_record list" where
  "set_rec new recs = update_where (\<lambda>rec. rec_id rec = rec_id new) (\<lambda>_. new) recs"

lemma set_rec_at:
  assumes "records_ok recs" and "row_of rec_id (rec_id new) recs = Some rec"
  shows "set_rec new recs = map (\<lambda>r. if r = rec then new else r) recs"
  using rec_unique [OF assms] by (auto simp: set_rec_def update_where_def)

lemma set_rec_keys:
  assumes "records_ok recs" and "row_of rec_id (rec_id new) recs = Some rec" and "jx_command new = jx_command rec"
  shows "map rec_id (set_rec new recs) = map rec_id recs" "map rec_fence (set_rec new recs) = map rec_fence recs"
  using assms(3) unfolding set_rec_at [OF assms(1,2)] by auto

lemma records_ok_set_rec:
  assumes "records_ok recs" and "row_of rec_id (rec_id new) recs = Some rec" and "jx_command new = jx_command rec" and "record_ok new"
  shows "records_ok (set_rec new recs)"
  using assms(1,4) set_rec_keys [OF assms(1-3)] by (auto simp: records_ok_def set_rec_def set_update_where)

lemma row_of_set_rec:
  assumes "row_of rec_id (rec_id new) recs = Some rec"
  shows "row_of rec_id i (set_rec new recs) = (if i = rec_id new then Some new else row_of rec_id i recs)"
proof (cases "i = rec_id new")
  case True
  with assms show ?thesis by (induction recs) (auto simp: set_rec_def update_where_def split: if_splits)
next
  case False
  then show ?thesis by (auto simp: set_rec_def intro!: find_update_where_other)
qed

lemma committed_set_rec:
  assumes "records_ok recs" and "row_of rec_id (rec_id new) recs = Some rec" and "jx_command new = jx_command rec" and "record_ok new"
    and "jx_state rec \<noteq> J_COMMITTED"
  shows "max_fence (committed_fences (set_rec new recs)) =
    (if jx_state new = J_COMMITTED then max (max_fence (committed_fences recs)) (rec_fence rec) else max_fence (committed_fences recs))"
proof -
  let ?C = "\<lambda>rs. rec_fence ` {r \<in> set rs. jx_state r = J_COMMITTED}"
  from assms(2) have "rec \<in> set recs" by (auto dest!: row_of_SomeD)
  then have "set (set_rec new recs) = insert new (set recs - {rec})"
    unfolding set_rec_at [OF assms(1,2)] by auto
  with assms(3,5) have "?C (set_rec new recs) = (if jx_state new = J_COMMITTED then insert (rec_fence rec) (?C recs) else ?C recs)"
    by (auto simp: image_iff) (metis assms(3))
  then show ?thesis
    unfolding committed_Max [OF assms(1)] committed_Max [OF records_ok_set_rec [OF assms(1-4)]]
    by (auto simp: insert_commute [of 0] max.commute)
qed

lemma set_row_state_of:
  assumes "records_ok recs" and "row_of rec_id (rec_id rec) recs = Some rec" and "jx_state rec \<noteq> J_COMMITTED"
    and "state \<noteq> J_COMMITTED"
  shows "set_row_state (rec_id rec) state (command_tag sha mac key (jx_command rec) state
      (observation_json (jx_pre_observation rec)) None (jx_provider_id rec)) (journal_of sha mac key recs) =
    journal_of sha mac key (set_rec (rec\<lparr>jx_state := state\<rparr>) recs) \<and>
    records_ok (set_rec (rec\<lparr>jx_state := state\<rparr>) recs)"
proof -
  let ?new = "rec\<lparr>jx_state := state\<rparr>"
  have old: "row_of rec_id (rec_id ?new) recs = Some rec" using assms(2) by simp
  from record_okI [OF assms(1,2)] have ok: "record_ok rec" by simp
  with assms(3,4) have new: "record_ok ?new" and none: "jx_anchor_fingerprint_after rec = None"
    by (auto simp: record_ok_def)
  have "meta_of mac key (set_rec ?new recs) = meta_of mac key recs"
    using committed_set_rec [OF assms(1) old _ new] set_rec_keys [OF assms(1) old] assms(3,4) by (simp add: meta_of_def)
  moreover have "r = rec \<longleftrightarrow> rec_id r = rec_id rec" if "r \<in> set recs" for r
    using rec_unique [OF assms(1,2)] that by blast
  ultimately show ?thesis
    using records_ok_set_rec [OF assms(1) old _ new] none
    by (auto simp: set_row_state_def journal_of_def set_rec_at [OF assms(1) old] update_where_def record_row_def)
qed

lemma current_row_check_of:
  assumes "records_ok recs" and "row_of rec_id (rec_id rec) recs = Some cur" and "jx_command cur = jx_command rec"
  shows "current_row_check sha mac key rec (journal_of sha mac key recs) = Inr (meta_of mac key recs)"
  using assms record_okI [OF assms(1,2)] by (simp add: current_row_check_def Let_def)

lemma journal_set_state_of:
  assumes "records_ok recs" and "row_of rec_id (rec_id rec) recs = Some rec" and "jx_state rec \<noteq> J_COMMITTED"
    and "state \<noteq> J_COMMITTED"
  shows "journal_set_state sha mac key rec state (journal_of sha mac key recs) =
    (Inr (rec\<lparr>jx_state := state\<rparr>), journal_of sha mac key (set_rec (rec\<lparr>jx_state := state\<rparr>) recs))"
proof -
  have "jx_anchor_fingerprint_after rec = None" using record_okI [OF assms(1,2)] assms(3) by (simp add: record_ok_def)
  then show ?thesis
    using set_row_state_of [OF assms] current_row_check_of [OF assms(1,2)] by (simp add: journal_set_state_def)
qed

lemma commit_receipt_of:
  assumes "records_ok recs" and "row_of rec_id (rec_id rec) recs = Some rec" and "jx_state rec \<noteq> J_COMMITTED"
    and "after \<noteq> []"
  defines "new \<equiv> rec\<lparr>jx_state := J_COMMITTED, jx_anchor_fingerprint_after := Some after\<rparr>"
  shows "commit_receipt sha mac key rec after (journal_of sha mac key recs) =
      (Inr (receipt_of sha rec after False), journal_of sha mac key (set_rec new recs)) \<and> records_ok (set_rec new recs)"
proof -
  have old: "row_of rec_id (rec_id new) recs = Some rec" using assms(2) by (simp add: new_def)
  from record_okI [OF assms(1,2)] assms(4) have new: "record_ok new" by (simp add: new_def record_ok_def)
  have cmd: "jx_command new = jx_command rec" by (simp add: new_def)
  have "max_fence (committed_fences (set_rec new recs)) = max (max_fence (committed_fences recs)) (rec_fence rec)"
    using committed_set_rec [OF assms(1) old cmd new assms(3)] by (simp add: new_def)
  moreover have "max_fence (map rec_fence (set_rec new recs)) = max_fence (map rec_fence recs)"
    using set_rec_keys [OF assms(1) old cmd] by simp
  moreover have "update_where (\<lambda>row. jr_command_id row = rec_id rec)
      (\<lambda>row. row\<lparr>jr_state := journal_state_value J_COMMITTED, jr_anchor_fingerprint_after := Some after,
         jr_integrity_tag := command_tag sha mac key (jx_command rec) J_COMMITTED
           (observation_json (jx_pre_observation rec)) (Some after) (jx_provider_id rec)\<rparr>)
      (map (record_row sha mac key) recs) = map (record_row sha mac key) (set_rec new recs)"
    using rec_unique [OF assms(1,2)] unfolding set_rec_at [OF assms(1) old]
    by (auto simp: update_where_def record_row_def new_def)
  ultimately show ?thesis
    using records_ok_set_rec [OF assms(1) old cmd new] current_row_check_of [OF assms(1,2)]
    by (simp add: commit_receipt_def Let_def journal_of_def meta_of_def)
qed

subsection \<open>Opening what was written\<close>

lemma rows_to_records_map:
  "(\<And>rec. rec \<in> set recs \<Longrightarrow> record_ok rec) \<Longrightarrow> rows_to_records sha mac key (map (record_row sha mac key) recs) = Inr recs"
  by (induction recs) auto

lemma sorted_rows:
  assumes "\<And>rec. rec \<in> set recs \<Longrightarrow> record_ok rec"
  obtains recs' where "sort_key jr_fence_token (map (record_row sha mac key) recs) = map (record_row sha mac key) recs'"
    and "set recs' = set recs" and "mset recs' = mset recs"
proof
  let ?row = "record_row sha mac key"
  let ?readback = "\<lambda>row. projr (row_to_record sha mac key row)"
  let ?sorted = "sort_key jr_fence_token (map ?row recs)"
  have inv: "?readback (?row rec) = rec" if "rec \<in> set recs" for rec using assms [OF that] by simp
  have "set ?sorted = ?row ` set recs" by simp
  then show "?sorted = map ?row (map ?readback ?sorted)" using inv by (auto intro!: map_idI [symmetric])
  have "map (?readback \<circ> ?row) recs = recs" using inv by (intro map_idI) simp
  have "mset (map ?readback ?sorted) = mset (map ?readback (map ?row recs))" by (simp only: mset_map mset_sort)
  also have "\<dots> = mset recs" unfolding map_map \<open>map (?readback \<circ> ?row) recs = recs\<close> ..
  finally show same: "mset (map ?readback ?sorted) = mset recs" .
  then show "set (map ?readback ?sorted) = set recs" by (rule mset_eq_setD)
qed

lemma verify_store_of:
  assumes "records_ok recs"
  shows "verify_store sha mac key (journal_of sha mac key recs) = Inr ()"
proof -
  from assms have ok: "\<And>rec. rec \<in> set recs \<Longrightarrow> record_ok rec" by (simp add: records_ok_def)
  obtain recs' where sort: "sort_key jr_fence_token (map (record_row sha mac key) recs) = map (record_row sha mac key) recs'"
    and same: "set recs' = set recs" "mset recs' = mset recs" by (rule sorted_rows [OF ok])
  have "records_ok recs'" using assms same(2) records_ok_mset by blast
  then have "max_fence (map rec_fence recs') = max_fence (map rec_fence recs)"
    "max_fence (committed_fences recs') = max_fence (committed_fences recs)"
    using assms same by (simp_all add: issued_Max committed_Max)
  moreover have "rows_to_records sha mac key (map (record_row sha mac key) recs') = Inr recs'"
    using ok same by (intro rows_to_records_map) auto
  ultimately show ?thesis
    using assms same sort by (auto simp: verify_store_def meta_of_def Let_def comp_def max_fence_def committed_fences_def)
qed

text \<open>Demoting the started commands, record by record.\<close>

definition demoted :: "journal_record \<Rightarrow> journal_record" where
  "demoted rec = rec\<lparr>jx_state := J_RECONCILIATION_REQUIRED\<rparr>"

lemma set_rec_others:
  assumes "set rs \<subseteq> set recs" and "rec_id new \<notin> rec_id ` set rs"
  shows "set rs \<subseteq> set (set_rec new recs)"
proof
  fix r assume r: "r \<in> set rs"
  with assms have "rec_id r \<noteq> rec_id new" by (auto simp: image_iff)
  with r assms(1) show "r \<in> set (set_rec new recs)"
    by (auto simp: set_rec_def set_update_where intro: bexI [of _ r])
qed

lemma recover_rows_of:
  assumes "records_ok recs" and "set rs \<subseteq> set recs" and "distinct (map rec_id rs)"
    and "\<And>rec. rec \<in> set rs \<Longrightarrow> jx_state rec = J_PROVIDER_STARTED"
  shows "recover_rows sha mac key (map (record_row sha mac key) rs) (journal_of sha mac key recs) =
      (Inr (), journal_of sha mac key (fold (\<lambda>rec. set_rec (demoted rec)) rs recs)) \<and>
    records_ok (fold (\<lambda>rec. set_rec (demoted rec)) rs recs)"
  using assms
proof (induction rs arbitrary: recs)
  case (Cons rec rs)
  from Cons.prems(1,2) have at: "row_of rec_id (rec_id rec) recs = Some rec"
    using row_of_unique [of rec_id recs] by (simp add: records_ok_def)
  with Cons.prems(1) have ok: "record_ok rec" by (blast dest: record_okI)
  from Cons.prems(4) [of rec] set_row_state_of [OF Cons.prems(1) at, of J_RECONCILIATION_REQUIRED sha mac key]
  have step: "set_row_state (rec_id rec) J_RECONCILIATION_REQUIRED (command_tag sha mac key (jx_command rec)
      J_RECONCILIATION_REQUIRED (observation_json (jx_pre_observation rec)) None (jx_provider_id rec)) (journal_of sha mac key recs) =
      journal_of sha mac key (set_rec (demoted rec) recs)" and ok': "records_ok (set_rec (demoted rec) recs)"
    by (simp_all add: demoted_def)
  have "rec_id (demoted rec) \<notin> rec_id ` set rs" using Cons.prems(3) by (simp add: demoted_def)
  then have "set rs \<subseteq> set (set_rec (demoted rec) recs)" using Cons.prems(2) by (intro set_rec_others) auto
  with Cons.IH [OF ok'] Cons.prems(3,4) ok step show ?case by simp
qed simp

text \<open>How a list of records may develop: none is lost, none goes back to \<open>PREPARED\<close>, a committed one stays.\<close>

definition records_grow :: "journal_record list \<Rightarrow> journal_record list \<Rightarrow> bool" where
  "records_grow recs recs' \<longleftrightarrow> (\<forall>i rec. row_of rec_id i recs = Some rec \<longrightarrow>
     (\<exists>rec'. row_of rec_id i recs' = Some rec' \<and> jx_command rec' = jx_command rec \<and>
        (jx_state rec \<noteq> J_PREPARED \<longrightarrow> jx_state rec' \<noteq> J_PREPARED) \<and> (jx_state rec = J_COMMITTED \<longrightarrow> rec' = rec)))"

lemma records_grow_refl [simp]: "records_grow recs recs"
  by (simp add: records_grow_def)

lemma records_grow_trans: "records_grow a b \<Longrightarrow> records_grow b c \<Longrightarrow> records_grow a c"
  by (simp add: records_grow_def) metis

lemma records_growD:
  "records_grow recs recs' \<Longrightarrow> row_of rec_id i recs = Some rec \<Longrightarrow> jx_state rec \<noteq> J_PREPARED \<Longrightarrow>
   \<exists>rec'. row_of rec_id i recs' = Some rec' \<and> jx_state rec' \<noteq> J_PREPARED"
  unfolding records_grow_def by blast

lemma records_grow_set_rec:
  assumes "row_of rec_id (rec_id new) recs = Some rec" and "jx_command new = jx_command rec"
    and "jx_state rec \<noteq> J_COMMITTED" and "jx_state new \<noteq> J_PREPARED"
  shows "records_grow recs (set_rec new recs)"
  using assms by (auto simp: records_grow_def row_of_set_rec [OF assms(1)])

lemma records_grow_demoted:
  assumes "records_ok recs" and "set rs \<subseteq> set recs" and "distinct (map rec_id rs)"
    and "\<And>rec. rec \<in> set rs \<Longrightarrow> jx_state rec = J_PROVIDER_STARTED"
  shows "records_grow recs (fold (\<lambda>rec. set_rec (demoted rec)) rs recs)"
  using assms
proof (induction rs arbitrary: recs)
  case (Cons rec rs)
  from Cons.prems(1,2) have at: "row_of rec_id (rec_id (demoted rec)) recs = Some rec"
    using row_of_unique [of rec_id recs] by (simp add: records_ok_def demoted_def)
  from recover_rows_of [OF Cons.prems(1), of "[rec]" ] Cons.prems(2,4) have ok': "records_ok (set_rec (demoted rec) recs)" by simp
  have "rec_id (demoted rec) \<notin> rec_id ` set rs" using Cons.prems(3) by (simp add: demoted_def)
  then have "set rs \<subseteq> set (set_rec (demoted rec) recs)" using Cons.prems(2) by (intro set_rec_others) auto
  with Cons.IH [OF ok'] Cons.prems(3,4) have "records_grow (set_rec (demoted rec) recs) (fold (\<lambda>rec. set_rec (demoted rec)) rs (set_rec (demoted rec) recs))"
    by simp
  moreover have "records_grow recs (set_rec (demoted rec) recs)"
    using Cons.prems(4) [of rec] by (intro records_grow_set_rec [OF at]) (simp_all add: demoted_def)
  ultimately show ?case by (auto intro: records_grow_trans)
qed simp

lemma demote_all_ids: "map rec_id (fold (\<lambda>rec. set_rec (demoted rec)) rs recs) = map rec_id recs"
proof (induction rs arbitrary: recs)
  case (Cons rec rs)
  have "map rec_id (set_rec (demoted rec) recs) = map rec_id recs"
    unfolding set_rec_def by (rule map_key_update_where) simp
  with Cons.IH show ?case by simp
qed simp

lemma demote_all_members:
  "r \<in> set (fold (\<lambda>rec. set_rec (demoted rec)) rs recs) \<Longrightarrow>
   r \<in> set recs \<and> rec_id r \<notin> rec_id ` set rs \<or> r \<in> demoted ` set rs"
proof (induction rs arbitrary: recs)
  case (Cons rec rs)
  then have "r \<in> set (set_rec (demoted rec) recs) \<and> rec_id r \<notin> rec_id ` set rs \<or> r \<in> demoted ` set rs" by simp
  then show ?case by (auto simp: set_rec_def set_update_where split: if_splits) (auto simp: demoted_def)
qed simp

lemma demote_all_row:
  assumes "records_ok recs" and "set rs \<subseteq> set recs" and "distinct (map rec_id rs)"
    and "\<And>rec. rec \<in> set rs \<Longrightarrow> jx_state rec = J_PROVIDER_STARTED" and "rec \<in> set rs"
  shows "row_of rec_id (rec_id rec) (fold (\<lambda>rec. set_rec (demoted rec)) rs recs) = Some (demoted rec)"
proof -
  let ?recs = "fold (\<lambda>rec. set_rec (demoted rec)) rs recs"
  from assms(1,2,5) have "row_of rec_id (rec_id rec) recs = Some rec"
    using row_of_unique [of rec_id recs] by (auto simp: records_ok_def)
  moreover have "records_grow recs ?recs" by (rule records_grow_demoted [OF assms(1-4)])
  ultimately obtain rec' where row: "row_of rec_id (rec_id rec) ?recs = Some rec'"
    unfolding records_grow_def by blast
  then have "rec' \<in> set ?recs" "rec_id rec' = rec_id rec" by (auto dest!: row_of_SomeD)
  with demote_all_members [OF this(1)] assms(3,5) have "rec' = demoted rec"
    by (auto simp: demoted_def distinct_map inj_on_def)
  with row show ?thesis by simp
qed

lemma recover_started_of:
  assumes "records_ok recs"
  obtains recs' where "recover_started_commands sha mac key (journal_of sha mac key recs) = (Inr (), journal_of sha mac key recs')"
    and "records_ok recs'" and "records_grow recs recs'" and "map rec_id recs' = map rec_id recs"
    and "\<forall>rec \<in> set recs'. jx_state rec \<noteq> J_PROVIDER_STARTED"
    and "\<forall>rec \<in> set recs. jx_state rec = J_PROVIDER_STARTED \<longrightarrow> row_of rec_id (rec_id rec) recs' = Some (demoted rec)"
proof -
  let ?P = "\<lambda>rec. jx_state rec = J_PROVIDER_STARTED"
  let ?started = "filter ?P recs"
  have rows: "filter (\<lambda>row. jr_state row = journal_state_value J_PROVIDER_STARTED) (map (record_row sha mac key) recs) =
      map (record_row sha mac key) ?started"
    by (simp add: filter_map comp_def)
  from assms have ok: "record_ok rec" if "rec \<in> set ?started" for rec using that by (simp add: records_ok_def)
  obtain rs where rs: "sort_key jr_fence_token (map (record_row sha mac key) ?started) = map (record_row sha mac key) rs"
    "set rs = set ?started" "mset rs = mset ?started" by (rule sorted_rows [OF ok])
  have "distinct (map rec_id ?started)" using assms by (simp add: records_ok_def distinct_map inj_on_def)
  moreover have "mset (map rec_id rs) = mset (map rec_id ?started)" by (simp add: rs(3))
  ultimately have distinct: "distinct (map rec_id rs)" using mset_eq_imp_distinct_iff by blast

  have sub: "set rs \<subseteq> set recs" "\<And>rec. rec \<in> set rs \<Longrightarrow> jx_state rec = J_PROVIDER_STARTED" using rs(2) by auto
  let ?recs = "fold (\<lambda>rec. set_rec (demoted rec)) rs recs"
  from recover_rows_of [OF assms sub(1) distinct sub(2), of sha mac key]
  have run: "recover_rows sha mac key (map (record_row sha mac key) rs) (journal_of sha mac key recs) = (Inr (), journal_of sha mac key ?recs)"
    and "records_ok ?recs" by simp_all
  moreover have "records_grow recs ?recs" by (rule records_grow_demoted [OF assms sub(1) distinct sub(2)])
  moreover have "jx_state r \<noteq> J_PROVIDER_STARTED" if "r \<in> set ?recs" for r
    using demote_all_members [OF that] rs(2) by (auto simp: demoted_def)
  moreover have "row_of rec_id (rec_id r) ?recs = Some (demoted r)" if "r \<in> set recs" "jx_state r = J_PROVIDER_STARTED" for r
    using demote_all_row [OF assms sub(1) distinct sub(2)] rs(2) that by simp
  ultimately show thesis
    using assms demote_all_ids [of rs recs] by (intro that [of ?recs]) (simp_all add: recover_started_commands_def transaction_def rows rs(1))
qed

subsection \<open>Every call keeps the journal in order\<close>

lemma operation_observation_wf:
  "operation_observation sha provider saver operation w = Inr obs \<Longrightarrow> wf_json (JObj obs)"
  by (auto simp: operation_observation_def migration_observation_def Let_def split: if_splits sum.splits)

lemma records_ok_snoc:
  assumes "records_ok recs" and "record_ok new" and "row_of rec_id (rec_id new) recs = None"
    and "rec_fence new = max_fence (map rec_fence recs) + 1"
  shows "records_ok (recs @ [new])" and "rec_fence new \<notin> rec_fence ` set recs"
proof -
  have "rec_fence r \<le> max_fence (map rec_fence recs)" if "r \<in> set recs" for r
    using that unfolding issued_Max [OF assms(1)] by simp
  with assms(4) show "rec_fence new \<notin> rec_fence ` set recs" by force
  with assms show "records_ok (recs @ [new])" by (auto simp: records_ok_def row_of_None)
qed

lemma records_grow_snoc: "records_grow recs (recs @ [new])"
  by (simp add: records_grow_def find_append)

lemma meta_of_snoc:
  assumes "records_ok recs" and "records_ok (recs @ [new])" and "jx_state new \<noteq> J_COMMITTED"
    and "rec_fence new = max_fence (map rec_fence recs) + 1"
  shows "meta_of mac key (recs @ [new]) = (meta_of mac key recs)\<lparr>jm_highest_issued_fence := rec_fence new,
    jm_integrity_tag := meta_tag mac key (rec_fence new) (max_fence (committed_fences recs))\<rparr>"
proof -
  have "max_fence (map rec_fence (recs @ [new])) = rec_fence new"
    unfolding issued_Max [OF assms(2)] using assms(4) unfolding issued_Max [OF assms(1)]
    by (simp add: insert_commute [of 0] max_def)
  moreover have "committed_fences (recs @ [new]) = committed_fences recs" using assms(3) by (simp add: committed_fences_def)
  ultimately show ?thesis by (simp add: meta_of_def Let_def)
qed

definition in_order ::
  "(string \<Rightarrow> string) \<Rightarrow> (string \<Rightarrow> string \<Rightarrow> string) \<Rightarrow> journal_record list \<Rightarrow> 'w journal_coordinator \<Rightarrow> bool" where
  "in_order sha mac recs st \<longleftrightarrow> records_ok recs \<and> jc_db st = journal_of sha mac (jc_key st) recs \<and> length (jc_key st) = 32"

text \<open>What a call did: the journal is in order again and its records have grown.\<close>

definition journal_moved ::
  "(string \<Rightarrow> string) \<Rightarrow> (string \<Rightarrow> string \<Rightarrow> string) \<Rightarrow> journal_record list \<Rightarrow> journal_record list \<Rightarrow> 'w journal_coordinator \<Rightarrow> bool" where
  "journal_moved sha mac recs recs' st' \<longleftrightarrow> in_order sha mac recs' st' \<and> records_grow recs recs'"

lemma in_order_frame [simp]:
  "in_order sha mac recs (st\<lparr>jc_world := w\<rparr>) \<longleftrightarrow> in_order sha mac recs st"
  "in_order sha mac recs (st\<lparr>jc_fault_mode := mode\<rparr>) \<longleftrightarrow> in_order sha mac recs st"
  "in_order sha mac recs (st\<lparr>jc_provider_invocations := n\<rparr>) \<longleftrightarrow> in_order sha mac recs st"
  "in_order sha mac recs (st\<lparr>jc_replay_hits := n\<rparr>) \<longleftrightarrow> in_order sha mac recs st"
  "in_order sha mac recs (st\<lparr>jc_reconciliations := n\<rparr>) \<longleftrightarrow> in_order sha mac recs st"
  by (simp_all add: in_order_def)

lemma insert_command_of:
  assumes "records_ok recs" and "wf_json (JObj obs)"
    and "insert_command sha mac key pid i op res a (observation_json obs) (journal_of sha mac key recs) = p"
  shows "\<exists>recs'. snd p = journal_of sha mac key recs' \<and> records_ok recs' \<and> records_grow recs recs'"
proof (cases "snd p = journal_of sha mac key recs")
  case True
  with assms(1) show ?thesis by auto
next
  case False
  obtain obs' where obs': "sort_keys (JObj obs) = JObj obs'" by simp
  with assms(2) have wf: "wf_json (JObj obs')" "sort_keys (JObj obs') = JObj obs'"
    by (metis wf_sort_keys, metis sort_keys_idem)
  have json: "observation_json obs' = observation_json obs"
    unfolding observation_json_def obs' [symmetric] by (rule json_dumps_sort_keys)
  let ?f = "max_fence (map rec_fence recs) + 1"
  let ?c = "\<lparr>lc_command_id = i, lc_operation = op, lc_fence_token = ?f, lc_expected_anchor_fingerprint = a, lc_resource_id = res\<rparr>"
  let ?new = "\<lparr>jx_command = ?c, jx_state = J_PREPARED, jx_pre_observation = obs', jx_anchor_fingerprint_after = None,
    jx_provider_id = pid\<rparr>"
  have meta: "jm_highest_issued_fence (meta_of mac key recs) = max_fence (map rec_fence recs)"
    "jm_highest_committed_fence (meta_of mac key recs) = max_fence (committed_fences recs)"
    by (simp_all add: meta_of_def Let_def)
  from assms(3) False have none: "row_of rec_id i recs = None" and cmd: "command_ok ?c"
    and db': "snd p = (journal_of sha mac key recs)\<lparr>
      jd_commands := map (record_row sha mac key) recs @ [new_journal_row sha mac key ?c (observation_json obs) pid],
      jd_meta := Some ((meta_of mac key recs)\<lparr>jm_highest_issued_fence := ?f,
        jm_integrity_tag := meta_tag mac key ?f (max_fence (committed_fences recs))\<rparr>)\<rparr>"
    unfolding insert_command_def transaction_def
    by (auto simp: assms(1) Let_def meta new_command_Inr split: option.splits sum.splits if_splits)
  from cmd wf have new: "record_ok ?new" by (simp add: record_ok_def)
  have "record_row sha mac key ?new = new_journal_row sha mac key ?c (observation_json obs) pid"
    by (simp add: record_row_def new_journal_row_def json)
  with records_ok_snoc [OF assms(1) new] meta_of_snoc [OF assms(1), of ?new mac key] none db'
  have "snd p = journal_of sha mac key (recs @ [?new])" "records_ok (recs @ [?new])"
    by (simp_all add: journal_of_def)
  then show ?thesis using records_grow_snoc by blast
qed

lemma issue_moves:
  assumes "in_order sha mac recs st" and "journal_issue_command sha mac provider saver i op res st = (out, st')"
  shows "\<exists>recs'. journal_moved sha mac recs recs' st' \<and> jc_provider_invocations st' = jc_provider_invocations st"
proof -
  have ok: "records_ok recs" and db: "jc_db st = journal_of sha mac (jc_key st) recs" and key: "length (jc_key st) = 32"
    using assms(1) by (simp_all add: in_order_def)
  have "jc_key st' = jc_key st \<and> jc_provider_invocations st' = jc_provider_invocations st \<and>
      (jc_db st' = jc_db st \<or> (\<exists>obs a. operation_observation sha provider saver op (jc_world st) = Inr obs \<and>
         jc_db st' = snd (insert_command sha mac (jc_key st) (lp_provider_id provider) i op res a (observation_json obs) (jc_db st))))"
    using assms(2) by (auto simp: journal_issue_command_def case_prod_beta split: if_splits sum.splits)
  then consider "jc_key st' = jc_key st" "jc_provider_invocations st' = jc_provider_invocations st" "jc_db st' = jc_db st"
    | obs a where "jc_key st' = jc_key st" "jc_provider_invocations st' = jc_provider_invocations st"
      "operation_observation sha provider saver op (jc_world st) = Inr obs"
      "jc_db st' = snd (insert_command sha mac (jc_key st) (lp_provider_id provider) i op res a (observation_json obs) (jc_db st))"
    by blast
  then show ?thesis
  proof cases
    case 1
    with ok db key show ?thesis by (auto simp: journal_moved_def in_order_def intro!: exI [of _ recs])
  next
    case 2
    from insert_command_of [OF ok operation_observation_wf [OF 2(3)] refl, of sha mac "jc_key st" "lp_provider_id provider" i op res a]
    obtain recs' where "jc_db st' = journal_of sha mac (jc_key st) recs'" "records_ok recs'" "records_grow recs recs'"
      unfolding 2(4) db by blast
    with 2(1,2) key show ?thesis by (auto simp: journal_moved_def in_order_def)
  qed
qed

lemma load_record_of:
  assumes "records_ok recs" and "load_record_for_command sha mac key p c (journal_of sha mac key recs) = Inr (rec, h)"
  shows "row_of rec_id (lc_command_id c) recs = Some rec \<and> h = max_fence (committed_fences recs) \<and> jx_provider_id rec = p \<and>
    command_digest sha (jx_command rec) = command_digest sha c"
proof (cases "row_of rec_id (lc_command_id c) recs")
  case None
  with assms show ?thesis by (simp add: load_record_for_command_def)
next
  case (Some r)
  with assms record_okI [OF assms(1) Some] show ?thesis
    by (simp add: load_record_for_command_def meta_of_def Let_def split: if_splits)
qed

lemma set_state_moves:
  assumes "in_order sha mac recs st" and "row_of rec_id i recs = Some rec" and "jx_state rec \<noteq> J_COMMITTED"
    and "state = J_PROVIDER_STARTED \<or> state = J_RECONCILIATION_REQUIRED"
  shows "\<exists>st'. on_journal (journal_set_state sha mac (jc_key st) rec state) st = (Inr (rec\<lparr>jx_state := state\<rparr>), st') \<and>
    journal_moved sha mac recs (set_rec (rec\<lparr>jx_state := state\<rparr>) recs) st' \<and> st' = st\<lparr>jc_db := jc_db st'\<rparr>"
proof -
  have ok: "records_ok recs" and db: "jc_db st = journal_of sha mac (jc_key st) recs" using assms(1) by (simp_all add: in_order_def)
  from record_okI [OF ok assms(2)] assms(2) have at: "row_of rec_id (rec_id rec) recs = Some rec" by simp
  have "row_of rec_id (rec_id (rec\<lparr>jx_state := state\<rparr>)) recs = Some rec" using at by simp
  from records_grow_set_rec [OF this] have "records_grow recs (set_rec (rec\<lparr>jx_state := state\<rparr>) recs)" using assms(3,4) by auto
  with journal_set_state_of [OF ok at assms(3)] set_row_state_of [OF ok at assms(3)] assms(1,4) db show ?thesis
    by (auto simp: on_journal_def journal_moved_def in_order_def)
qed

lemma commit_moves:
  assumes "in_order sha mac recs st" and "row_of rec_id i recs = Some rec" and "jx_state rec \<noteq> J_COMMITTED" and "after \<noteq> []"
  shows "\<exists>st'. on_journal (commit_receipt sha mac (jc_key st) rec after) st = (Inr (receipt_of sha rec after False), st') \<and>
    journal_moved sha mac recs (set_rec (rec\<lparr>jx_state := J_COMMITTED, jx_anchor_fingerprint_after := Some after\<rparr>) recs) st' \<and>
    st' = st\<lparr>jc_db := jc_db st'\<rparr>"
proof -
  let ?new = "rec\<lparr>jx_state := J_COMMITTED, jx_anchor_fingerprint_after := Some after\<rparr>"
  have ok: "records_ok recs" and db: "jc_db st = journal_of sha mac (jc_key st) recs" using assms(1) by (simp_all add: in_order_def)
  from record_okI [OF ok assms(2)] assms(2) have at: "row_of rec_id (rec_id rec) recs = Some rec" by simp
  then have "row_of rec_id (rec_id ?new) recs = Some rec" by simp
  from records_grow_set_rec [OF this] have "records_grow recs (set_rec ?new recs)" using assms(3) by auto
  with commit_receipt_of [OF ok at assms(3,4)] assms(1) db show ?thesis
    by (auto simp: on_journal_def journal_moved_def in_order_def)
qed

lemma fingerprint_nonempty: "(\<And>m. sha m \<noteq> []) \<Longrightarrow> journal_fingerprint sha provider w = Inr a \<Longrightarrow> a \<noteq> []"
  by (auto simp: journal_fingerprint_def fingerprint_state_def split: option.splits)

lemma in_order_cong: "st' = st\<lparr>jc_db := jc_db st'\<rparr> \<Longrightarrow> jc_key st' = jc_key st \<and> jc_world st' = jc_world st \<and>
    jc_provider_invocations st' = jc_provider_invocations st \<and> jc_fault_mode st' = jc_fault_mode st"
  by (metis journal_coordinator.select_convs journal_coordinator.surjective journal_coordinator.update_convs(2))

lemma demote_moves:
  assumes "in_order sha mac recs st" and "row_of rec_id i recs = Some rec" and "jx_state rec \<noteq> J_COMMITTED"
  shows "\<exists>rec' st' recs'. demote_started sha mac rec st = (Inr rec', st') \<and> journal_moved sha mac recs recs' st' \<and>
    row_of rec_id i recs' = Some rec' \<and> jx_state rec' \<noteq> J_COMMITTED \<and> (jx_state rec' = J_PREPARED \<longrightarrow> rec' = rec \<and> recs' = recs) \<and>
    st' = st\<lparr>jc_db := jc_db st'\<rparr>"
proof (cases "jx_state rec = J_PROVIDER_STARTED")
  case False
  with assms show ?thesis by (auto simp: demote_started_def journal_moved_def)
next
  case True
  let ?new = "rec\<lparr>jx_state := J_RECONCILIATION_REQUIRED\<rparr>"
  obtain st' where "on_journal (journal_set_state sha mac (jc_key st) rec J_RECONCILIATION_REQUIRED) st = (Inr ?new, st')"
    "journal_moved sha mac recs (set_rec ?new recs) st'" "st' = st\<lparr>jc_db := jc_db st'\<rparr>"
    using set_state_moves [OF assms] by blast
  moreover have "row_of rec_id i (set_rec ?new recs) = Some ?new"
    using assms(2) record_okI [of recs i rec] assms(1) by (subst row_of_set_rec [of _ _ rec]) (auto simp: in_order_def)
  ultimately show ?thesis using True by (auto simp: demote_started_def)
qed

text \<open>What \<open>execute\<close> and \<open>reconcile\<close> did to the journal and to the count of provider calls.\<close>

definition execute_effect ::
  "(string \<Rightarrow> string) \<Rightarrow> (string \<Rightarrow> string \<Rightarrow> string) \<Rightarrow> string \<Rightarrow> journal_record list \<Rightarrow> 'w journal_coordinator \<Rightarrow> 'w journal_coordinator \<Rightarrow> bool" where
  "execute_effect sha mac i recs st st' \<longleftrightarrow> (\<exists>recs'. journal_moved sha mac recs recs' st' \<and>
     (jc_provider_invocations st' = jc_provider_invocations st \<or>
      jc_provider_invocations st' = jc_provider_invocations st + 1 \<and>
      (\<exists>rec rec'. row_of rec_id i recs = Some rec \<and> jx_state rec = J_PREPARED \<and>
         row_of rec_id i recs' = Some rec' \<and> jx_state rec' \<noteq> J_PREPARED)))"

lemma execute_effect_frame [simp]:
  "execute_effect sha mac i recs (st\<lparr>jc_fault_mode := mode\<rparr>) st' = execute_effect sha mac i recs st st'"
  by (simp add: execute_effect_def)

lemma journal_moved_trans:
  "journal_moved sha mac recs recs' st \<Longrightarrow> journal_moved sha mac recs' recs'' st' \<Longrightarrow> journal_moved sha mac recs recs'' st'"
  by (auto simp: journal_moved_def intro: records_grow_trans)

lemma finish_moves:
  assumes "\<And>m. sha m \<noteq> []" and "in_order sha mac recs st" and "row_of rec_id i recs = Some rec" and "jx_state rec \<noteq> J_COMMITTED"
    and "journal_finish sha mac provider c fault rec st = (res, st')"
  shows "\<exists>recs'. journal_moved sha mac recs recs' st' \<and> jc_provider_invocations st' = jc_provider_invocations st"
proof -
  consider "st' = st" | after r where "journal_fingerprint sha provider (jc_world st) = Inr after" "on_journal (commit_receipt sha mac (jc_key st) rec after) st = (r, st')"
    using assms(5) by (auto simp: journal_finish_def split: if_splits sum.splits prod.splits)
  then show ?thesis
  proof cases
    case 1
    with assms(2) show ?thesis by (auto simp: journal_moved_def)
  next
    case 2
    from commit_moves [OF assms(2-4) fingerprint_nonempty [OF assms(1) 2(1)]] 2(2) show ?thesis by (auto dest: in_order_cong)
  qed
qed

lemma observed_fingerprint_nonempty:
  assumes "\<And>m. sha m \<noteq> []" and "migration_observation sha provider saver w = Inr obs"
    and "map_of obs ''anchor_fingerprint'' = Some (JStr after)"
  shows "after \<noteq> []"
proof -
  from assms(2,3) have "journal_fingerprint sha provider w = Inr after"
    by (auto simp: migration_observation_def Let_def split: sum.splits)
  from fingerprint_nonempty [OF assms(1) this] show ?thesis .
qed

lemma reconcile_moves:
  assumes "\<And>m. sha m \<noteq> []" and "in_order sha mac recs st" and "journal_reconcile sha mac provider saver c st = (res, st')"
  shows "\<exists>recs'. journal_moved sha mac recs recs' st' \<and> jc_provider_invocations st' = jc_provider_invocations st"
proof -
  have ok: "records_ok recs" and db: "jc_db st = journal_of sha mac (jc_key st) recs" using assms(2) by (simp_all add: in_order_def)
  have idle: "journal_moved sha mac recs recs st" using assms(2) by (simp add: journal_moved_def)
  show ?thesis
  proof (cases "load_record_for_command sha mac (jc_key st) (lp_provider_id provider) c (jc_db st)")
    case (Inl e)
    with assms(3) idle show ?thesis by (auto simp: journal_reconcile_def Let_def)
  next
    case (Inr p)
    obtain rec h where p: "p = (rec, h)" by fastforce
    from load_record_of [OF ok] Inr p db have at: "row_of rec_id (lc_command_id c) recs = Some rec" by simp
    show ?thesis
    proof (cases "jx_state rec = J_COMMITTED")
      case True
      with assms(3) Inr p idle show ?thesis by (auto simp: journal_reconcile_def Let_def journal_moved_def)
    next
      case False
      obtain rec1 st1 recs1 where demote: "demote_started sha mac rec st = (Inr rec1, st1)" and moved: "journal_moved sha mac recs recs1 st1"
        and at1: "row_of rec_id (lc_command_id c) recs1 = Some rec1" and uncommitted: "jx_state rec1 \<noteq> J_COMMITTED"
        and st1: "st1 = st\<lparr>jc_db := jc_db st1\<rparr>"
        using demote_moves [OF assms(2) at False] by blast
      show ?thesis
      proof (cases "\<exists>current after. migration_observation sha provider saver (jc_world st1) = Inr current \<and>
          map_of current ''anchor_fingerprint'' = Some (JStr after) \<and> jx_state rec1 = J_RECONCILIATION_REQUIRED \<and>
          lc_operation c = MIGRATION \<and> migration_commit_proven (jx_pre_observation rec1) current")
        case False
        with assms(3) Inr p \<open>jx_state rec \<noteq> J_COMMITTED\<close> demote have "st' = st1"
          by (auto simp: journal_reconcile_def Let_def split: if_splits sum.splits option.splits json.splits)
        with moved in_order_cong [OF st1] show ?thesis by auto
      next
        case True
        then obtain current after where obs: "migration_observation sha provider saver (jc_world st1) = Inr current"
          "map_of current ''anchor_fingerprint'' = Some (JStr after)" and proven: "jx_state rec1 = J_RECONCILIATION_REQUIRED"
          "lc_operation c = MIGRATION" "migration_commit_proven (jx_pre_observation rec1) current" by blast
        from moved have "in_order sha mac recs1 st1" by (simp add: journal_moved_def)
        from commit_moves [OF this at1 uncommitted observed_fingerprint_nonempty [OF assms(1) obs]]
        obtain st2 recs2 where "on_journal (commit_receipt sha mac (jc_key st1) rec1 after) st1 = (Inr (receipt_of sha rec1 after False), st2)"
          and moved2: "journal_moved sha mac recs1 recs2 st2" and st2: "st2 = st1\<lparr>jc_db := jc_db st2\<rparr>" by blast
        with assms(3) Inr p \<open>jx_state rec \<noteq> J_COMMITTED\<close> demote obs proven have "st' = st2\<lparr>jc_reconciliations := jc_reconciliations st2 + 1\<rparr>"
          by (simp add: journal_reconcile_def Let_def)
        with journal_moved_trans [OF moved moved2] in_order_cong [OF st1] in_order_cong [OF st2] show ?thesis
          by (auto simp: journal_moved_def)
      qed
    qed
  qed
qed

subsection \<open>Histories of a journal\<close>

text \<open>
  The calls of the processes that use a journal one after the other. \<open>Restart\<close> ends the process, wherever the last
  call left it, and opens the files again; \<open>Outside\<close> is any change of the anchor and the checkpoints by
  someone else. A history also yields the ids of the commands for which the provider was called.
\<close>

datatype 'w journal_call =
    Issue string lifecycle_operation string
  | Execute lifecycle_command lifecycle_paths
  | Reconcile lifecycle_command
  | Arm journal_fault
  | Restart
  | Outside 'w

definition journal_restart ::
  "(string \<Rightarrow> string) \<Rightarrow> (string \<Rightarrow> string \<Rightarrow> string) \<Rightarrow> 'w journal_coordinator \<Rightarrow> lifecycle_error + 'w journal_coordinator" where
  "journal_restart sha mac st =
     fst (journal_open sha mac [] (jc_world st) \<lparr>jf_journal = Some (jc_db st), jf_key = Some (jc_key st)\<rparr>)"

text \<open>The two methods that the classes of coordinators have in different versions.\<close>

record 'w coordinator_class =
  cc_invoke :: "lifecycle_command \<Rightarrow> lifecycle_paths \<Rightarrow> ('w journal_coordinator, lifecycle_error, unit) operation"
  cc_reconcile :: "lifecycle_command \<Rightarrow> ('w journal_coordinator, lifecycle_error, command_receipt) operation"

definition durable_class ::
  "(string \<Rightarrow> string) \<Rightarrow> (string \<Rightarrow> string \<Rightarrow> string) \<Rightarrow> 'w lifecycle_provider \<Rightarrow> 'w lifecycle_saver \<Rightarrow> 'w coordinator_class" where
  "durable_class sha mac provider saver =
     \<lparr>cc_invoke = journal_invoke provider, cc_reconcile = journal_reconcile sha mac provider saver\<rparr>"

lemma durable_class_sel [simp]:
  "cc_invoke (durable_class sha mac provider saver) = journal_invoke provider"
  "cc_reconcile (durable_class sha mac provider saver) = journal_reconcile sha mac provider saver"
  by (simp_all add: durable_class_def)

definition journal_call ::
  "(string \<Rightarrow> string) \<Rightarrow> (string \<Rightarrow> string \<Rightarrow> string) \<Rightarrow> 'w lifecycle_provider \<Rightarrow> 'w lifecycle_saver \<Rightarrow> 'w coordinator_class \<Rightarrow> 'w journal_call \<Rightarrow>
   'w journal_coordinator \<Rightarrow> string list \<times> 'w journal_coordinator" where
  "journal_call sha mac provider saver cls call st = (case call of
     Issue i op res \<Rightarrow> ([], snd (journal_issue_command sha mac provider saver i op res st))
   | Execute c paths \<Rightarrow>
       (let st' = snd (journal_execute sha mac provider (cc_invoke cls) c paths st)
        in (if jc_provider_invocations st' = jc_provider_invocations st then [] else [lc_command_id c], st'))
   | Reconcile c \<Rightarrow> ([], snd (cc_reconcile cls c st))
   | Arm fault \<Rightarrow> ([], journal_arm_fault fault st)
   | Restart \<Rightarrow> ([], case journal_restart sha mac st of Inl _ \<Rightarrow> st | Inr st' \<Rightarrow> st')
   | Outside w \<Rightarrow> ([], st\<lparr>jc_world := w\<rparr>))"

fun journal_history ::
  "(string \<Rightarrow> string) \<Rightarrow> (string \<Rightarrow> string \<Rightarrow> string) \<Rightarrow> 'w lifecycle_provider \<Rightarrow> 'w lifecycle_saver \<Rightarrow> 'w coordinator_class \<Rightarrow> 'w journal_call list \<Rightarrow>
   'w journal_coordinator \<Rightarrow> string list \<times> 'w journal_coordinator" where
  "journal_history sha mac provider saver cls [] st = ([], st)"
| "journal_history sha mac provider saver cls (call # calls) st =
     (let (called, st) = journal_call sha mac provider saver cls call st;
          (called', st) = journal_history sha mac provider saver cls calls st
      in (called @ called', st))"

definition first_open ::
  "(string \<Rightarrow> string) \<Rightarrow> (string \<Rightarrow> string \<Rightarrow> string) \<Rightarrow> string \<Rightarrow> 'w \<Rightarrow> lifecycle_error + 'w journal_coordinator" where
  "first_open sha mac token w = fst (journal_open sha mac token w \<lparr>jf_journal = None, jf_key = None\<rparr>)"

lemma open_moves:
  assumes "records_ok recs" and "length key = 32"
  shows "\<exists>st' recs'. fst (journal_open sha mac token w \<lparr>jf_journal = Some (journal_of sha mac key recs), jf_key = Some key\<rparr>) = Inr st' \<and>
    journal_moved sha mac recs recs' st' \<and> jc_key st' = key \<and> jc_world st' = w \<and> map rec_id recs' = map rec_id recs \<and>
    (\<forall>rec \<in> set recs'. jx_state rec \<noteq> J_PROVIDER_STARTED) \<and>
    (\<forall>rec \<in> set recs. jx_state rec = J_PROVIDER_STARTED \<longrightarrow> row_of rec_id (rec_id rec) recs' = Some (demoted rec))"
proof -
  obtain recs' where "recover_started_commands sha mac key (journal_of sha mac key recs) = (Inr (), journal_of sha mac key recs')"
    "records_ok recs'" "records_grow recs recs'" "map rec_id recs' = map rec_id recs"
    "\<forall>rec \<in> set recs'. jx_state rec \<noteq> J_PROVIDER_STARTED"
    "\<forall>rec \<in> set recs. jx_state rec = J_PROVIDER_STARTED \<longrightarrow> row_of rec_id (rec_id rec) recs' = Some (demoted rec)" by (rule recover_started_of [OF assms(1), of sha mac key])
  then show ?thesis
    using assms verify_store_of [OF assms(1)]
    by (auto simp: journal_open_def open_or_create_store_def journal_moved_def in_order_def)
qed

lemma new_journal_of: "new_journal mac key = journal_of sha mac key []"
  by (simp add: new_journal_def journal_of_def meta_of_def max_fence_def committed_fences_def)

lemma first_open_in_order:
  assumes "length token = 32"
  shows "\<exists>st. first_open sha mac token w = Inr st \<and> in_order sha mac [] st"
proof -
  have ok: "records_ok []" by (simp add: records_ok_def)
  obtain recs' where "recover_started_commands sha mac token (journal_of sha mac token []) = (Inr (), journal_of sha mac token recs')"
    by (rule recover_started_of [OF ok])
  moreover have "recover_started_commands sha mac token (journal_of sha mac token []) = (Inr (), journal_of sha mac token [])"
    using ok by (simp add: recover_started_commands_def transaction_def)
  ultimately show ?thesis
    using assms verify_store_of [OF ok, of sha mac token] ok
    by (simp add: first_open_def journal_open_def open_or_create_store_def new_journal_of [of mac token sha] in_order_def)
qed

text \<open>The ids in \<open>called\<close> are new, and their records have left \<open>PREPARED\<close> for good.\<close>

definition calls_settled :: "journal_record list \<Rightarrow> journal_record list \<Rightarrow> string list \<Rightarrow> bool" where
  "calls_settled recs recs' called \<longleftrightarrow> distinct called \<and>
     (\<forall>i \<in> set called. (\<forall>rec. row_of rec_id i recs = Some rec \<longrightarrow> jx_state rec = J_PREPARED) \<and>
        (\<exists>rec. row_of rec_id i recs' = Some rec \<and> jx_state rec \<noteq> J_PREPARED))"

lemma calls_settled_append:
  assumes "calls_settled a b xs" and "calls_settled b c ys" and "records_grow a b" and "records_grow b c"
  shows "calls_settled a c (xs @ ys)"
proof -
  from assms(1,2) have "set xs \<inter> set ys = {}" by (fastforce simp: calls_settled_def)
  moreover have "\<exists>rec. row_of rec_id i c = Some rec \<and> jx_state rec \<noteq> J_PREPARED" if "i \<in> set (xs @ ys)" for i
    using that assms(1,2) records_growD [OF assms(4), of i] by (auto simp: calls_settled_def)
  moreover have "jx_state rec = J_PREPARED" if "i \<in> set (xs @ ys)" "row_of rec_id i a = Some rec" for i rec
    using that assms(1,2) records_growD [OF assms(3), of i rec] by (auto simp: calls_settled_def)
  ultimately show ?thesis using assms(1,2) by (auto simp: calls_settled_def)
qed

text \<open>A committed record answers every later execution of its command.\<close>

lemma committed_record_answers:
  assumes "in_order sha mac recs st" and "row_of rec_id (lc_command_id c) recs = Some rec" and "jx_state rec = J_COMMITTED"
    and "jx_anchor_fingerprint_after rec = Some after" and "command_digest sha (jx_command rec) = command_digest sha c"
    and "jx_provider_id rec = lp_provider_id provider"
  shows "journal_execute sha mac provider invoke c paths st =
    (Inr (receipt_of sha rec after True), st\<lparr>jc_replay_hits := jc_replay_hits st + 1\<rparr>)"
proof -
  from assms(1,2) have "load_record_for_command sha mac (jc_key st) (lp_provider_id provider) c (jc_db st) =
      Inr (rec, jm_highest_committed_fence (meta_of mac (jc_key st) recs))"
    using record_okI [of recs _ rec] assms(5,6) by (auto simp: load_record_for_command_def in_order_def)
  with assms(3,4) show ?thesis by (simp add: journal_execute_def receipt_from_record_def)
qed

definition committed_record :: "journal_record list \<Rightarrow> string \<Rightarrow> journal_record option" where
  "committed_record recs i = (case row_of rec_id i recs of
     Some rec \<Rightarrow> if jx_state rec = J_COMMITTED then Some rec else None | None \<Rightarrow> None)"

lemma committed_record_Some:
  "committed_record recs i = Some rec \<longleftrightarrow> row_of rec_id i recs = Some rec \<and> jx_state rec = J_COMMITTED"
  by (auto simp: committed_record_def split: option.splits if_splits)

interpretation journal_records: write_once committed_record records_grow
  by unfold_locales (fastforce simp: committed_record_Some records_grow_def)

text \<open>An execution that returns has committed its record.\<close>

definition answered ::
  "(string \<Rightarrow> string) \<Rightarrow> (string \<Rightarrow> string \<Rightarrow> string) \<Rightarrow> 'w lifecycle_provider \<Rightarrow> lifecycle_command \<Rightarrow> command_receipt \<Rightarrow>
   'w journal_coordinator \<Rightarrow> bool" where
  "answered sha mac provider c r st \<longleftrightarrow> (\<exists>recs rec after. in_order sha mac recs st \<and>
     committed_record recs (lc_command_id c) = Some rec \<and> jx_anchor_fingerprint_after rec = Some after \<and>
     command_digest sha (jx_command rec) = command_digest sha c \<and> jx_provider_id rec = lp_provider_id provider \<and>
     r\<lparr>cr_replayed := True\<rparr> = receipt_of sha rec after True)"

lemma answeredI:
  assumes "in_order sha mac recs st" and "row_of rec_id (lc_command_id c) recs = Some rec" and "jx_state rec \<noteq> J_COMMITTED"
    and "after \<noteq> []" and "on_journal (commit_receipt sha mac (jc_key st) rec after) st = (Inr r, st')"
    and "command_digest sha (jx_command rec) = command_digest sha c" and "jx_provider_id rec = lp_provider_id provider"
  shows "answered sha mac provider c r st'"
proof -
  let ?new = "rec\<lparr>jx_state := J_COMMITTED, jx_anchor_fingerprint_after := Some after\<rparr>"
  from commit_moves [OF assms(1-4)] assms(5) have "in_order sha mac (set_rec ?new recs) st'" and r: "r = receipt_of sha rec after False"
    by (auto simp: journal_moved_def)
  moreover have "row_of rec_id (lc_command_id c) (set_rec ?new recs) = Some ?new"
    using assms(1,2) record_okI [of recs _ rec] by (subst row_of_set_rec [of _ _ rec]) (auto simp: in_order_def)
  ultimately show ?thesis
    unfolding answered_def using assms(6,7)
    by (intro exI [of _ "set_rec ?new recs"] exI [of _ ?new] exI [of _ after]) (simp add: committed_record_Some receipt_of_def)
qed

subsection \<open>The classes of coordinators\<close>

text \<open>
  What a coordinator class has to promise of its two methods: calling the provider leaves the journal alone and
  counts at most one invocation; reconciling keeps the journal in order and calls nothing. Everything that
  holds of the histories of a journal is proved from that, once for all classes.
\<close>

lemma unloaded_no_crash: "load_record_for_command sha mac key p c db \<noteq> Inl (JournalCrash i fault)"
  by (auto simp: load_record_for_command_def read_meta_def row_to_record_def split: option.splits sum.splits if_splits)

lemma admission_no_crash: "journal_admission sha provider c paths rec h w \<noteq> Some (JournalCrash i fault)"
  by (auto simp: journal_admission_def journal_fingerprint_def require_lifecycle_capability_def split: option.splits sum.splits if_splits)

lemma commit_no_crash: "commit_receipt sha mac key rec after db \<noteq> (Inl (JournalCrash i fault), db')"
  by (auto simp: commit_receipt_def current_row_check_def read_meta_def row_to_record_def Let_def split: option.splits sum.splits if_splits)

lemma set_state_no_crash: "on_journal (journal_set_state sha mac key rec state) st \<noteq> (Inl (JournalCrash i fault), st')"
  by (auto simp: on_journal_def journal_set_state_def transaction_def current_row_check_def read_meta_def row_to_record_def Let_def
      split: option.splits sum.splits if_splits prod.splits)

lemma finish_crash:
  assumes "journal_finish sha mac provider c fault rec st = (Inl (JournalCrash i AFTER_PROVIDER_BEFORE_COMMIT), st')"
  shows "st' = st"
proof (cases "fault = AFTER_PROVIDER_BEFORE_COMMIT")
  case True
  with assms show ?thesis by (simp add: journal_finish_def)
next
  case False
  with assms commit_no_crash show ?thesis
    by (auto simp: journal_finish_def journal_fingerprint_def on_journal_def split: option.splits sum.splits prod.splits if_splits)
qed

locale coordinator_methods =
  fixes sha :: "string \<Rightarrow> string" and mac :: "string \<Rightarrow> string \<Rightarrow> string"
    and provider :: "'w lifecycle_provider" and saver :: "'w lifecycle_saver" and cls :: "'w coordinator_class"
  assumes invoke_keeps: "cc_invoke cls c paths st = (r, st') \<Longrightarrow> jc_db st' = jc_db st \<and> jc_key st' = jc_key st \<and>
      (jc_provider_invocations st' = jc_provider_invocations st + 1 \<or> jc_provider_invocations st' = jc_provider_invocations st)"
    and reconcile_keeps: "(\<And>m. sha m \<noteq> []) \<Longrightarrow> in_order sha mac recs st \<Longrightarrow> cc_reconcile cls c st = (res, st') \<Longrightarrow>
      \<exists>recs'. journal_moved sha mac recs recs' st' \<and> jc_provider_invocations st' = jc_provider_invocations st"
begin

lemma start_effect:
  assumes "\<And>m. sha m \<noteq> []" and "in_order sha mac recs st" and "row_of rec_id i recs = Some rec" and "jx_state rec = J_PREPARED"
    and "journal_start sha mac provider (cc_invoke cls) c paths fault rec st = (res, st')"
  shows "execute_effect sha mac i recs st st'"
proof (cases "fault = AFTER_PREPARED_BEFORE_PROVIDER")
  case True
  with assms(2,5) have "journal_moved sha mac recs recs st'" "st' = st" by (auto simp: journal_start_def journal_moved_def)
  then show ?thesis by (auto simp: execute_effect_def)
next
  case False
  let ?started = "rec\<lparr>jx_state := J_PROVIDER_STARTED\<rparr>"
  let ?recs1 = "set_rec ?started recs"
  obtain st1 where set: "on_journal (journal_set_state sha mac (jc_key st) rec J_PROVIDER_STARTED) st = (Inr ?started, st1)"
    and moved: "journal_moved sha mac recs ?recs1 st1" and st1: "st1 = st\<lparr>jc_db := jc_db st1\<rparr>"
    using set_state_moves [OF assms(2,3)] assms(4) by auto
  from assms(2,3) record_okI [of recs i rec] have at1: "row_of rec_id i ?recs1 = Some ?started"
    by (subst row_of_set_rec [of _ _ rec]) (auto simp: in_order_def)
  obtain r st2 where invoke: "cc_invoke cls c paths st1 = (r, st2)" by fastforce
  from invoke_keeps [OF invoke] moved have st2: "in_order sha mac ?recs1 st2"
    "jc_provider_invocations st2 = jc_provider_invocations st1 + 1 \<or> jc_provider_invocations st2 = jc_provider_invocations st1"
    by (auto simp: journal_moved_def in_order_def)
  have "\<exists>recs'. journal_moved sha mac ?recs1 recs' st' \<and> jc_provider_invocations st' = jc_provider_invocations st2"
  proof (cases r)
    case (Inl e)
    obtain st3 where "on_journal (journal_set_state sha mac (jc_key st2) ?started J_RECONCILIATION_REQUIRED) st2 =
        (Inr (?started\<lparr>jx_state := J_RECONCILIATION_REQUIRED\<rparr>), st3)"
      "journal_moved sha mac ?recs1 (set_rec (?started\<lparr>jx_state := J_RECONCILIATION_REQUIRED\<rparr>) ?recs1) st3"
      "st3 = st2\<lparr>jc_db := jc_db st3\<rparr>"
      using set_state_moves [OF st2(1) at1] by auto
    with assms(5) False set invoke Inl show ?thesis by (auto simp: journal_start_def dest: in_order_cong)
  next
    case (Inr u)
    with assms(5) False set invoke have "journal_finish sha mac provider c fault ?started st2 = (res, st')"
      by (simp add: journal_start_def)
    from finish_moves [OF assms(1) st2(1) at1 _ this] show ?thesis by simp
  qed
  then obtain recs' where recs': "journal_moved sha mac ?recs1 recs' st'" "jc_provider_invocations st' = jc_provider_invocations st2" by blast
  from recs'(1) at1 have "\<exists>rec'. row_of rec_id i recs' = Some rec' \<and> jx_state rec' \<noteq> J_PREPARED"
    using records_growD [of ?recs1 recs' i ?started] by (simp add: journal_moved_def)
  with journal_moved_trans [OF moved recs'(1)] recs'(2) st2(2) in_order_cong [OF st1] assms(3,4) show ?thesis
    by (auto simp: execute_effect_def)
qed

lemma execute_moves:
  assumes "\<And>m. sha m \<noteq> []" and "in_order sha mac recs st" and "journal_execute sha mac provider (cc_invoke cls) c paths st = (res, st')"
  shows "execute_effect sha mac (lc_command_id c) recs st st'"
proof -
  have ok: "records_ok recs" and db: "jc_db st = journal_of sha mac (jc_key st) recs" using assms(2) by (simp_all add: in_order_def)
  have idle: "execute_effect sha mac (lc_command_id c) recs st st" using assms(2) by (auto simp: execute_effect_def journal_moved_def)
  show ?thesis
  proof (cases "load_record_for_command sha mac (jc_key st) (lp_provider_id provider) c (jc_db st)")
    case (Inl e)
    with assms(3) idle show ?thesis by (simp add: journal_execute_def)
  next
    case (Inr p)
    obtain rec h where p: "p = (rec, h)" by fastforce
    from load_record_of [OF ok] Inr p db have at: "row_of rec_id (lc_command_id c) recs = Some rec" by simp
    show ?thesis
    proof (cases "jx_state rec = J_COMMITTED")
      case True
      with assms(3) Inr p idle show ?thesis by (auto simp: journal_execute_def execute_effect_def journal_moved_def)
    next
      case False
      obtain rec1 st1 recs1 where demote: "demote_started sha mac rec st = (Inr rec1, st1)" and moved: "journal_moved sha mac recs recs1 st1"
        and at1: "row_of rec_id (lc_command_id c) recs1 = Some rec1" and prep: "jx_state rec1 = J_PREPARED \<longrightarrow> rec1 = rec \<and> recs1 = recs"
        and st1: "st1 = st\<lparr>jc_db := jc_db st1\<rparr>"
        using demote_moves [OF assms(2) at False] by blast
      show ?thesis
      proof (cases "journal_admission sha provider c paths rec1 h (jc_world st1)")
        case (Some e)
        with assms(3) Inr p False demote moved in_order_cong [OF st1] show ?thesis
          by (auto simp: journal_execute_def execute_effect_def)
      next
        case None
        then have "jx_state rec1 = J_PREPARED" by (auto simp: journal_admission_def split: if_splits)
        moreover from None assms(3) Inr p False demote
        have "journal_start sha mac provider (cc_invoke cls) c paths (jc_fault_mode st1) rec1 (st1\<lparr>jc_fault_mode := JOURNAL_NO_FAULT\<rparr>) = (res, st')"
          by (simp add: journal_execute_def)
        ultimately have "execute_effect sha mac (lc_command_id c) recs st1 st'"
          using start_effect [where st = "st1\<lparr>jc_fault_mode := JOURNAL_NO_FAULT\<rparr>", OF assms(1) _ at1] prep moved
          by (simp add: journal_moved_def)
        then show ?thesis using in_order_cong [OF st1] by (auto simp: execute_effect_def)
      qed
    qed
  qed
qed


lemma call_moves:
  assumes "\<And>m. sha m \<noteq> []" and "in_order sha mac recs st" and "journal_call sha mac provider saver cls call st = (called, st')"
  shows "\<exists>recs'. journal_moved sha mac recs recs' st' \<and> calls_settled recs recs' called"
proof (cases call)
  case (Issue i op res)
  with assms(3) issue_moves [OF assms(2), of provider saver i op res] show ?thesis
    by (cases "journal_issue_command sha mac provider saver i op res st") (auto simp: journal_call_def calls_settled_def)
next
  case (Execute c paths)
  obtain res st1 where run: "journal_execute sha mac provider (cc_invoke cls) c paths st = (res, st1)" by fastforce
  with Execute assms(3) have "st' = st1"
    and "called = (if jc_provider_invocations st1 = jc_provider_invocations st then [] else [lc_command_id c])"
    by (auto simp: journal_call_def Let_def)
  with execute_moves [OF assms(1,2) run] show ?thesis
    by (auto simp: execute_effect_def calls_settled_def)
next
  case (Reconcile c)
  with assms(3) reconcile_keeps [OF assms(1,2), of c] show ?thesis
    by (cases "cc_reconcile cls c st") (auto simp: journal_call_def calls_settled_def)
next
  case Restart
  from assms(2) have "records_ok recs" "length (jc_key st) = 32" "jc_db st = journal_of sha mac (jc_key st) recs" by (simp_all add: in_order_def)
  with open_moves [of recs "jc_key st" sha mac "[]" "jc_world st"] Restart assms(3) show ?thesis
    by (auto simp: journal_call_def calls_settled_def journal_restart_def)
qed (use assms(2,3) in \<open>auto simp: journal_call_def calls_settled_def journal_moved_def journal_arm_fault_def\<close>)

lemma history_moves:
  assumes "\<And>m. sha m \<noteq> []" and "in_order sha mac recs st" and "journal_history sha mac provider saver cls calls st = (called, st')"
  shows "\<exists>recs'. journal_moved sha mac recs recs' st' \<and> calls_settled recs recs' called"
  using assms(2,3)
proof (induction calls arbitrary: recs st called)
  case Nil
  then show ?case by (auto simp: journal_moved_def calls_settled_def)
next
  case (Cons call calls)
  obtain called1 st1 where call: "journal_call sha mac provider saver cls call st = (called1, st1)" by fastforce
  obtain called2 where rest: "journal_history sha mac provider saver cls calls st1 = (called2, st')" and called: "called = called1 @ called2"
    using Cons.prems(2) call by (auto simp: Let_def split: prod.splits)
  from call_moves [OF assms(1) Cons.prems(1) call] obtain recs1 where
    moved1: "journal_moved sha mac recs recs1 st1" and settled1: "calls_settled recs recs1 called1" by blast
  then have "in_order sha mac recs1 st1" by (simp add: journal_moved_def)
  from Cons.IH [OF this rest] obtain recs2 where
    moved2: "journal_moved sha mac recs1 recs2 st'" and settled2: "calls_settled recs1 recs2 called2" by blast
  with moved1 calls_settled_append [OF settled1 settled2] journal_moved_trans [OF moved1 moved2] show ?case
    by (auto simp: called journal_moved_def)
qed

lemma restart_succeeds:
  assumes "\<And>m. sha m \<noteq> []" and "length token = 32" and "first_open sha mac token w = Inr st"
    and "journal_history sha mac provider saver cls calls st = (called, st1)"
  shows "\<exists>st2. journal_restart sha mac st1 = Inr st2 \<and> jc_world st2 = jc_world st1 \<and>
    map jr_command_id (jd_commands (jc_db st2)) = map jr_command_id (jd_commands (jc_db st1)) \<and>
    (\<forall>row \<in> set (jd_commands (jc_db st2)). jr_state row \<noteq> journal_state_value J_PROVIDER_STARTED)"
proof -
  from first_open_in_order [OF assms(2), of sha mac w] assms(3) have "in_order sha mac [] st" by simp
  from history_moves [OF assms(1) this assms(4)] obtain recs where "in_order sha mac recs st1" by (auto simp: journal_moved_def)
  then have recs: "records_ok recs" "length (jc_key st1) = 32" "jc_db st1 = journal_of sha mac (jc_key st1) recs"
    by (simp_all add: in_order_def)
  from open_moves [OF recs(1,2), of sha mac "[]" "jc_world st1"] recs(3) show ?thesis
    by (auto simp: journal_restart_def journal_moved_def in_order_def comp_def)
qed

lemma commands_are_kept:
  assumes "\<And>m. sha m \<noteq> []" and "length token = 32" and "first_open sha mac token w = Inr st"
    and "journal_history sha mac provider saver cls before st = (called, st0)"
    and "journal_history sha mac provider saver cls after st0 = (called', st1)"
  shows "set (map jr_command_id (jd_commands (jc_db st0))) \<subseteq> set (map jr_command_id (jd_commands (jc_db st1)))"
    and "journal_history sha mac provider saver cls (before @ after) st = (called @ called', st1)"
proof -
  from first_open_in_order [OF assms(2), of sha mac w] assms(3) have "in_order sha mac [] st" by simp
  from history_moves [OF assms(1) this assms(4)] obtain recs0 where recs0: "in_order sha mac recs0 st0" by (auto simp: journal_moved_def)
  from history_moves [OF assms(1) this assms(5)] obtain recs1 where recs1: "in_order sha mac recs1 st1" "records_grow recs0 recs1"
    by (auto simp: journal_moved_def)
  have "rec_id rec \<in> set (map rec_id recs1)" if rec: "rec \<in> set recs0" for rec
  proof -
    obtain r where "row_of rec_id (rec_id rec) recs0 = Some r" using rec row_of_None [of rec_id "rec_id rec" recs0] by fastforce
    with recs1(2) obtain r' where r': "row_of rec_id (rec_id rec) recs1 = Some r'" unfolding records_grow_def by blast
    show ?thesis using row_of_SomeD [OF r'] by (metis image_eqI list.set_map)
  qed
  then have sub: "set (map rec_id recs0) \<subseteq> set (map rec_id recs1)" by auto
  have ids: "map jr_command_id (jd_commands (jc_db st)) = map rec_id recs" if "in_order sha mac recs st" for recs st
    using that by (simp add: in_order_def comp_def)
  from sub show "set (map jr_command_id (jd_commands (jc_db st0))) \<subseteq> set (map jr_command_id (jd_commands (jc_db st1)))"
    unfolding ids [OF recs0] ids [OF recs1(1)] .
  show "journal_history sha mac provider saver cls (before @ after) st = (called @ called', st1)"
    using assms(4,5)
  proof (induction before arbitrary: st called)
    case (Cons call calls)
    then show ?case by (auto split: prod.splits)
  qed simp
qed

lemma called_at_most_once:
  assumes "\<And>m. sha m \<noteq> []" and "length token = 32" and "first_open sha mac token w = Inr st"
  shows "distinct (fst (journal_history sha mac provider saver cls calls st))"
proof -
  from first_open_in_order [OF assms(2), of sha mac w] assms(3) have "in_order sha mac [] st" by simp
  from history_moves [OF assms(1) this, of calls] show ?thesis
    by (cases "journal_history sha mac provider saver cls calls st") (auto simp: calls_settled_def)
qed

lemma start_answers:
  assumes "\<And>m. sha m \<noteq> []" and "in_order sha mac recs st" and "row_of rec_id (lc_command_id c) recs = Some rec" and "jx_state rec = J_PREPARED"
    and "journal_start sha mac provider (cc_invoke cls) c paths fault rec st = (Inr r, st')"
    and "command_digest sha (jx_command rec) = command_digest sha c" and "jx_provider_id rec = lp_provider_id provider"
  shows "answered sha mac provider c r st'"
proof -
  let ?started = "rec\<lparr>jx_state := J_PROVIDER_STARTED\<rparr>"
  obtain st1 where set: "on_journal (journal_set_state sha mac (jc_key st) rec J_PROVIDER_STARTED) st = (Inr ?started, st1)"
    and moved: "journal_moved sha mac recs (set_rec ?started recs) st1"
    using set_state_moves [OF assms(2,3)] assms(4) by auto
  from assms(2,3) record_okI [of recs _ rec] have at: "row_of rec_id (lc_command_id c) (set_rec ?started recs) = Some ?started"
    by (subst row_of_set_rec [of _ _ rec]) (auto simp: in_order_def)
  obtain x st2 where invoke: "cc_invoke cls c paths st1 = (x, st2)" by fastforce
  from invoke_keeps [OF invoke] moved have "in_order sha mac (set_rec ?started recs) st2"
    by (auto simp: journal_moved_def in_order_def)
  moreover obtain after where fp: "journal_fingerprint sha provider (jc_world st2) = Inr after"
    and "on_journal (commit_receipt sha mac (jc_key st2) ?started after) st2 = (Inr r, st')"
    using assms(5) set invoke by (auto simp: journal_start_def journal_finish_def split: if_splits sum.splits prod.splits)
  ultimately show ?thesis
    using assms(6,7) fingerprint_nonempty [OF assms(1) fp] by (intro answeredI [OF _ at]) auto
qed

lemma execute_answers:
  assumes "\<And>m. sha m \<noteq> []" and "in_order sha mac recs st" and "journal_execute sha mac provider (cc_invoke cls) c paths st = (Inr r, st')"
  shows "answered sha mac provider c r st'"
proof -
  have ok: "records_ok recs" and db: "jc_db st = journal_of sha mac (jc_key st) recs" using assms(2) by (simp_all add: in_order_def)
  from assms(3) obtain rec h where load: "load_record_for_command sha mac (jc_key st) (lp_provider_id provider) c (jc_db st) = Inr (rec, h)"
    by (auto simp: journal_execute_def split: sum.splits)
  from load_record_of [OF ok] load db have at: "row_of rec_id (lc_command_id c) recs = Some rec"
    and id: "command_digest sha (jx_command rec) = command_digest sha c" "jx_provider_id rec = lp_provider_id provider" by simp_all
  show ?thesis
  proof (cases "jx_state rec = J_COMMITTED")
    case True
    with assms(3) load obtain after where "jx_anchor_fingerprint_after rec = Some after" "r = receipt_of sha rec after True"
      "st' = st\<lparr>jc_replay_hits := jc_replay_hits st + 1\<rparr>"
      by (auto simp: journal_execute_def receipt_from_record_def split: option.splits)
    with True at id assms(2) show ?thesis
      unfolding answered_def by (intro exI [of _ recs] exI [of _ rec] exI [of _ after]) (simp add: committed_record_Some receipt_of_def)
  next
    case False
    obtain rec1 st1 recs1 where demote: "demote_started sha mac rec st = (Inr rec1, st1)" and moved: "journal_moved sha mac recs recs1 st1"
      and at1: "row_of rec_id (lc_command_id c) recs1 = Some rec1" and prep: "jx_state rec1 = J_PREPARED \<longrightarrow> rec1 = rec \<and> recs1 = recs"
      using demote_moves [OF assms(2) at False] by blast
    from assms(3) load False demote have adm: "journal_admission sha provider c paths rec1 h (jc_world st1) = None"
      and start: "journal_start sha mac provider (cc_invoke cls) c paths (jc_fault_mode st1) rec1 (st1\<lparr>jc_fault_mode := JOURNAL_NO_FAULT\<rparr>) = (Inr r, st')"
      by (simp_all add: journal_execute_def split: option.splits)
    from adm have prepared: "jx_state rec1 = J_PREPARED" by (auto simp: journal_admission_def split: if_splits)
    with prep moved id show ?thesis
      by (intro start_answers [OF assms(1) _ at1 prepared start]) (auto simp: journal_moved_def)
  qed
qed

lemma receipt_is_final:
  assumes "\<And>m. sha m \<noteq> []" and "length token = 32" and "first_open sha mac token w = Inr st0"
    and "journal_history sha mac provider saver cls before st0 = (called, st)"
    and "journal_execute sha mac provider (cc_invoke cls) c paths st = (Inr r, st1)"
    and "journal_history sha mac provider saver cls after st1 = (called', st2)"
  shows "journal_execute sha mac provider (cc_invoke cls) c paths' st2 =
    (Inr (r\<lparr>cr_replayed := True\<rparr>), st2\<lparr>jc_replay_hits := jc_replay_hits st2 + 1\<rparr>)"
proof -
  from first_open_in_order [OF assms(2), of sha mac w] assms(3) have "in_order sha mac [] st0" by simp
  from history_moves [OF assms(1) this assms(4)] obtain recs where "in_order sha mac recs st" by (auto simp: journal_moved_def)
  from execute_answers [OF assms(1) this assms(5)] obtain recs1 rec a where
    recs1: "in_order sha mac recs1 st1" "committed_record recs1 (lc_command_id c) = Some rec" and
    rec: "jx_anchor_fingerprint_after rec = Some a" "command_digest sha (jx_command rec) = command_digest sha c"
      "jx_provider_id rec = lp_provider_id provider" and r: "r\<lparr>cr_replayed := True\<rparr> = receipt_of sha rec a True"
    by (auto simp: answered_def)
  from history_moves [OF assms(1) recs1(1) assms(6)] obtain recs2 where
    recs2: "in_order sha mac recs2 st2" "records_grow recs1 recs2" by (auto simp: journal_moved_def)
  from journal_records.step_keeps [OF recs2(2) recs1(2)] have
    "row_of rec_id (lc_command_id c) recs2 = Some rec" "jx_state rec = J_COMMITTED" by (simp_all add: committed_record_Some)
  from committed_record_answers [OF recs2(1) this rec] r show ?thesis by simp
qed

text \<open>What a crash between the provider's return and the commit leaves behind.\<close>

lemma crash_leaves_started:
  assumes "in_order sha mac recs st"
    and "journal_execute sha mac provider (cc_invoke cls) c paths st = (Inl (JournalCrash i AFTER_PROVIDER_BEFORE_COMMIT), st1)"
  shows "\<exists>recs1 rec stA. cc_invoke cls c paths stA = (Inr (), st1) \<and> jc_world stA = jc_world st \<and> in_order sha mac recs1 st1 \<and>
    row_of rec_id (lc_command_id c) recs1 = Some rec \<and> jx_state rec = J_PROVIDER_STARTED \<and>
    command_digest sha (jx_command rec) = command_digest sha c \<and> jx_provider_id rec = lp_provider_id provider"
proof -
  have ok: "records_ok recs" and db: "jc_db st = journal_of sha mac (jc_key st) recs" using assms(1) by (simp_all add: in_order_def)
  obtain rec h where load: "load_record_for_command sha mac (jc_key st) (lp_provider_id provider) c (jc_db st) = Inr (rec, h)"
    using assms(2) unloaded_no_crash by (auto simp: journal_execute_def split: sum.splits)
  from load_record_of [OF ok] load db have at: "row_of rec_id (lc_command_id c) recs = Some rec"
    and id: "command_digest sha (jx_command rec) = command_digest sha c" "jx_provider_id rec = lp_provider_id provider" by simp_all
  have uncommitted: "jx_state rec \<noteq> J_COMMITTED"
    using assms(2) load by (auto simp: journal_execute_def receipt_from_record_def split: option.splits)
  obtain rec1 st' recs1 where demote: "demote_started sha mac rec st = (Inr rec1, st')" and moved: "journal_moved sha mac recs recs1 st'"
    and at1: "row_of rec_id (lc_command_id c) recs1 = Some rec1" and prep: "jx_state rec1 = J_PREPARED \<longrightarrow> rec1 = rec \<and> recs1 = recs"
    and st': "st' = st\<lparr>jc_db := jc_db st'\<rparr>"
    using demote_moves [OF assms(1) at uncommitted] by blast
  have adm: "journal_admission sha provider c paths rec1 h (jc_world st') = None"
    and start: "journal_start sha mac provider (cc_invoke cls) c paths (jc_fault_mode st') rec1 (st'\<lparr>jc_fault_mode := JOURNAL_NO_FAULT\<rparr>) =
      (Inl (JournalCrash i AFTER_PROVIDER_BEFORE_COMMIT), st1)"
    using assms(2) load uncommitted demote by (auto simp: journal_execute_def admission_no_crash split: option.splits)
  from adm have "jx_state rec1 = J_PREPARED" by (auto simp: journal_admission_def split: if_splits)
  with prep have rec1: "rec1 = rec" "recs1 = recs" "jx_state rec = J_PREPARED" by simp_all
  let ?started = "rec\<lparr>jx_state := J_PROVIDER_STARTED\<rparr>"
  from moved have "in_order sha mac recs (st'\<lparr>jc_fault_mode := JOURNAL_NO_FAULT\<rparr>)" using rec1 by (simp add: journal_moved_def)
  from set_state_moves [OF this at] rec1(3) obtain stA where
    set: "on_journal (journal_set_state sha mac (jc_key st') rec J_PROVIDER_STARTED) (st'\<lparr>jc_fault_mode := JOURNAL_NO_FAULT\<rparr>) = (Inr ?started, stA)"
    and movedA: "journal_moved sha mac recs (set_rec ?started recs) stA" and stA: "stA = (st'\<lparr>jc_fault_mode := JOURNAL_NO_FAULT\<rparr>)\<lparr>jc_db := jc_db stA\<rparr>"
    by auto
  from start rec1 set have invoke: "cc_invoke cls c paths stA = (Inr (), st1)"
    by (auto simp: journal_start_def set_state_no_crash split: if_splits sum.splits prod.splits dest!: finish_crash)
  have "jc_world stA = jc_world st" using in_order_cong [OF stA] in_order_cong [OF st'] by simp
  moreover from invoke_keeps [OF invoke] movedA have "in_order sha mac (set_rec ?started recs) st1"
    by (auto simp: journal_moved_def in_order_def)
  moreover have "row_of rec_id (lc_command_id c) (set_rec ?started recs) = Some ?started"
    using at record_okI [OF ok at] by (subst row_of_set_rec [of _ _ rec]) auto
  ultimately show ?thesis using invoke id by (intro exI [of _ "set_rec ?started recs"] exI [of _ ?started] exI [of _ stA]) simp
qed

end

interpretation durable: coordinator_methods sha mac provider saver "durable_class sha mac provider saver"
  for sha mac provider saver
proof
  show "cc_invoke (durable_class sha mac provider saver) c paths st = (r, st') \<Longrightarrow> jc_db st' = jc_db st \<and> jc_key st' = jc_key st \<and>
      (jc_provider_invocations st' = jc_provider_invocations st + 1 \<or> jc_provider_invocations st' = jc_provider_invocations st)" for c paths st r st'
    by (auto simp: durable_class_def journal_invoke_def split: prod.splits)
  show "(\<And>m. sha m \<noteq> []) \<Longrightarrow> in_order sha mac recs st \<Longrightarrow> cc_reconcile (durable_class sha mac provider saver) c st = (res, st') \<Longrightarrow>
      \<exists>recs'. journal_moved sha mac recs recs' st' \<and> jc_provider_invocations st' = jc_provider_invocations st" for recs st c res st'
    unfolding durable_class_sel by (rule reconcile_moves)
qed

subsection \<open>What the journal guarantees\<close>

text \<open>A saver without checkpoints, a key, a tag and a command, for concrete runs.\<close>

definition lab_mac :: "string \<Rightarrow> string \<Rightarrow> string" where
  "lab_mac key m = key"

definition lab_key :: string where
  "lab_key = replicate 32 (CHR ''k'')"

lemma lab_tags [simp]:
  "meta_tag lab_mac key i j = key" "command_tag sha lab_mac key c state pre after pid = key" "length lab_key = 32" "lab_sha m \<noteq> []"
  by (simp_all add: meta_tag_def command_tag_def lab_mac_def lab_key_def lab_sha_def)

definition plain_saver :: "'w lifecycle_saver" where
  "plain_saver = \<lparr>sv_active_key_id = (\<lambda>_. ''k1''), sv_checkpoint_blobs = (\<lambda>_. []), sv_write_blobs = (\<lambda>_. []),
     sv_envelope_key_id = Inr\<rparr>"

definition some_paths :: lifecycle_paths where
  "some_paths = \<lparr>pa_checkpoint_destination = Some ''c'', pa_anchor_destination = Some ''a'',
     pa_backup_database_path = None, pa_backup_anchor_path = None\<rparr>"

definition snapshot_command :: lifecycle_command where
  "snapshot_command = \<lparr>lc_command_id = ''s1'', lc_operation = SNAPSHOT, lc_fence_token = 1,
     lc_expected_anchor_fingerprint = ''h'', lc_resource_id = ''db''\<rparr>"

lemma lab_observation:
  "json_loads (observation_json [(''anchor_fingerprint'', JStr ''h'')]) = Some (JObj [(''anchor_fingerprint'', JStr ''h'')])"
  by (simp add: observation_json_def json_loads_dumps)

lemmas journal_eval = first_open_def journal_open_def open_or_create_store_def new_journal_def verify_store_def read_meta_def
  recover_started_commands_def transaction_def journal_call_def journal_issue_command_def journal_fingerprint_def
  counting_provider_def operation_observation_def insert_command_def new_command_def is_blank_def is_py_space_def
  new_journal_row_def row_to_record_def parse_row_def load_record_for_command_def journal_execute_def demote_started_def
  journal_admission_def operation_arguments_ok_def require_lifecycle_capability_def journal_start_def on_journal_def
  journal_set_state_def current_row_check_def set_row_state_def update_where_def journal_invoke_def journal_finish_def
  commit_receipt_def receipt_of_def journal_arm_fault_def journal_restart_def snapshot_command_def some_paths_def
  max_fence_def committed_fences_def lab_observation

lemma lab_open: "first_open lab_sha lab_mac lab_key w = Inr (projr (first_open lab_sha lab_mac lab_key w))"
  using first_open_in_order [of lab_key lab_sha lab_mac w] by (auto simp: projr_def split: sum.splits)

text \<open>\<^bold>\<open>C17\<close>. Restarts succeed and no command is lost: whatever sequence of calls, injected faults, provider failures and restarts a
  journal went through, every command it held at any point of the sequence is still there at the end; opening its files
  again then passes the check of the whole store (tags, digests, counters) and finds the same commands, with none of them left in
  \<open>PROVIDER_STARTED\<close>.\<close>

theorem journal_survives_every_history:
  assumes "\<And>m. sha m \<noteq> []" and "length token = 32" and "first_open sha mac token w = Inr st"
    and "journal_history sha mac provider saver (durable_class sha mac provider saver) before st = (called, st0)"
    and "journal_history sha mac provider saver (durable_class sha mac provider saver) after st0 = (called', st1)"
  shows "set (map jr_command_id (jd_commands (jc_db st0))) \<subseteq> set (map jr_command_id (jd_commands (jc_db st1))) \<and>
    (\<exists>st2. journal_restart sha mac st1 = Inr st2 \<and> jc_world st2 = jc_world st1 \<and>
       map jr_command_id (jd_commands (jc_db st2)) = map jr_command_id (jd_commands (jc_db st1)) \<and>
       (\<forall>row \<in> set (jd_commands (jc_db st2)). jr_state row \<noteq> journal_state_value J_PROVIDER_STARTED))"
  using durable.commands_are_kept [OF assms] durable.restart_succeeds [OF assms(1-3)] by blast

theorem journal_survives_every_history_witness:
  "\<exists>(st :: nat journal_coordinator) called st0 called' st1 st2. first_open lab_sha lab_mac lab_key 0 = Inr st \<and>
     journal_history lab_sha lab_mac counting_provider plain_saver
       (durable_class lab_sha lab_mac counting_provider plain_saver) [Issue ''s1'' SNAPSHOT ''db''] st = (called, st0) \<and>
     journal_history lab_sha lab_mac counting_provider plain_saver (durable_class lab_sha lab_mac counting_provider plain_saver)
       [Arm AFTER_PROVIDER_BEFORE_COMMIT, Execute snapshot_command some_paths] st0 = (called', st1) \<and>
     set (map jr_command_id (jd_commands (jc_db st0))) \<subseteq> set (map jr_command_id (jd_commands (jc_db st1))) \<and>
     journal_restart lab_sha lab_mac st1 = Inr st2 \<and> map jr_state (jd_commands (jc_db st1)) = [''provider_started''] \<and>
     (\<forall>row \<in> set (jd_commands (jc_db st2)). jr_state row \<noteq> ''provider_started'')"
proof -
  let ?history = "journal_history lab_sha lab_mac counting_provider plain_saver (durable_class lab_sha lab_mac counting_provider plain_saver)"
  let ?before = "[Issue ''s1'' SNAPSHOT ''db'']" and ?after = "[Arm AFTER_PROVIDER_BEFORE_COMMIT, Execute snapshot_command some_paths]"
  let ?st = "projr (first_open lab_sha lab_mac lab_key (0 :: nat))"
  obtain called st0 where before: "?history ?before ?st = (called, st0)" by fastforce
  obtain called' st1 where after: "?history ?after st0 = (called', st1)" by fastforce
  have "map jr_state (jd_commands (jc_db (snd (?history (?before @ ?after) ?st)))) = [journal_state_value J_PROVIDER_STARTED]"
    by (simp add: journal_eval Let_def)
  then have "map jr_state (jd_commands (jc_db st1)) = [''provider_started'']"
    using durable.commands_are_kept(2) [OF _ _ lab_open before after] by (simp add: journal_state_value_def del: journal_history.simps)
  with journal_survives_every_history [OF _ _ lab_open before after] lab_open [of "0 :: nat"] before after show ?thesis
    unfolding journal_state_value_def by (auto simp del: journal_history.simps)
qed

text \<open>At most one call of the provider per command: in no history of a journal, restarts and injected crashes at
  every point included, is the provider called twice for the same command id.\<close>

theorem provider_called_at_most_once:
  assumes "\<And>m. sha m \<noteq> []" and "length token = 32" and "first_open sha mac token w = Inr st"
  shows "distinct (fst (journal_history sha mac provider saver (durable_class sha mac provider saver) calls st))"
  using durable.called_at_most_once [OF assms] .

theorem provider_called_at_most_once_witness:
  "\<exists>st :: nat journal_coordinator. first_open lab_sha lab_mac lab_key 0 = Inr st \<and>
     (let calls = [Issue ''s1'' SNAPSHOT ''db'', Arm AFTER_PROVIDER_BEFORE_COMMIT, Execute snapshot_command some_paths, Restart,
        Execute snapshot_command some_paths, Reconcile snapshot_command]
      in ''s1'' \<in> set (fst (journal_history lab_sha lab_mac counting_provider plain_saver
       (durable_class lab_sha lab_mac counting_provider plain_saver) calls st)) \<and>
         distinct (fst (journal_history lab_sha lab_mac counting_provider plain_saver
       (durable_class lab_sha lab_mac counting_provider plain_saver) calls st)))"
proof -
  let ?st = "projr (first_open lab_sha lab_mac lab_key (0 :: nat))"
  have "''s1'' \<in> set (fst (journal_history lab_sha lab_mac counting_provider plain_saver
       (durable_class lab_sha lab_mac counting_provider plain_saver)
      ([Issue ''s1'' SNAPSHOT ''db'', Arm AFTER_PROVIDER_BEFORE_COMMIT, Execute snapshot_command some_paths] @ rest) ?st))" for rest
    by (simp add: journal_eval Let_def split_beta)
  from this [of "[Restart, Execute snapshot_command some_paths, Reconcile snapshot_command]"]
  show ?thesis
    using lab_open [of "0 :: nat"] provider_called_at_most_once [OF _ _ lab_open]
    by (intro exI [of _ ?st]) (simp add: Let_def del: journal_history.simps)
qed

text \<open>Receipts are final: once an execution of a command has returned a receipt, executing the command again
  returns the same receipt, marked as replayed, after every later history of the journal, restarts included; only the
  count of replays changes.\<close>

theorem journal_receipt_is_final:
  assumes "\<And>m. sha m \<noteq> []" and "length token = 32" and "first_open sha mac token w = Inr st0"
    and "journal_history sha mac provider saver (durable_class sha mac provider saver) before st0 = (called, st)"
    and "journal_execute sha mac provider (journal_invoke provider) c paths st = (Inr r, st1)"
    and "journal_history sha mac provider saver (durable_class sha mac provider saver) after st1 = (called', st2)"
  shows "journal_execute sha mac provider (journal_invoke provider) c paths' st2 =
    (Inr (r\<lparr>cr_replayed := True\<rparr>), st2\<lparr>jc_replay_hits := jc_replay_hits st2 + 1\<rparr>)"
  using durable.receipt_is_final [unfolded durable_class_sel, OF assms] .

theorem journal_receipt_is_final_witness:
  "\<exists>(st0 :: nat journal_coordinator) called st st1 called' st2 r. first_open lab_sha lab_mac lab_key 0 = Inr st0 \<and>
     journal_history lab_sha lab_mac counting_provider plain_saver
       (durable_class lab_sha lab_mac counting_provider plain_saver) [Issue ''s1'' SNAPSHOT ''db''] st0 = (called, st) \<and>
     journal_execute lab_sha lab_mac counting_provider (journal_invoke counting_provider) snapshot_command some_paths st = (Inr r, st1) \<and>
     journal_history lab_sha lab_mac counting_provider plain_saver
       (durable_class lab_sha lab_mac counting_provider plain_saver) [Restart, Outside 7] st1 = (called', st2) \<and>
     journal_execute lab_sha lab_mac counting_provider (journal_invoke counting_provider) snapshot_command some_paths st2 =
       (Inr (r\<lparr>cr_replayed := True\<rparr>), st2\<lparr>jc_replay_hits := jc_replay_hits st2 + 1\<rparr>)"
proof -
  let ?st0 = "projr (first_open lab_sha lab_mac lab_key (0 :: nat))"
  let ?hist = "journal_history lab_sha lab_mac counting_provider plain_saver
       (durable_class lab_sha lab_mac counting_provider plain_saver) [Issue ''s1'' SNAPSHOT ''db''] ?st0"
  have "\<not> isl (fst (journal_execute lab_sha lab_mac counting_provider (journal_invoke counting_provider) snapshot_command some_paths (snd ?hist)))"
    by (simp add: journal_eval Let_def)
  moreover obtain called st where hist: "?hist = (called, st)" by fastforce
  ultimately obtain r st1 where run: "journal_execute lab_sha lab_mac counting_provider (journal_invoke counting_provider) snapshot_command some_paths st = (Inr r, st1)"
    by (cases "journal_execute lab_sha lab_mac counting_provider (journal_invoke counting_provider) snapshot_command some_paths st"; cases "fst (journal_execute lab_sha lab_mac counting_provider (journal_invoke counting_provider) snapshot_command some_paths st)")
      (auto simp del: journal_history.simps)
  obtain called' st2 where later: "journal_history lab_sha lab_mac counting_provider plain_saver
       (durable_class lab_sha lab_mac counting_provider plain_saver) [Restart, Outside 7] st1 = (called', st2)"
    by fastforce
  from journal_receipt_is_final [OF _ _ lab_open hist run later] lab_open [of "0 :: nat"] hist run later show ?thesis
    by (auto simp del: journal_history.simps)
qed

text \<open>The message under the tag of a row: what \<open>_command_tag\<close> hands to HMAC.\<close>

definition tagged_message :: "(string \<Rightarrow> string) \<Rightarrow> journal_row \<Rightarrow> journal_record \<Rightarrow> string" where
  "tagged_message sha row rec = canonical_bytes (JObj (command_tag_payload sha (jx_command rec) (jx_state rec)
     (jr_pre_observation_json row) (jx_anchor_fingerprint_after rec) (jx_provider_id rec)))"

lemma accepted_row_tag:
  assumes "row_to_record sha mac key row = Inr rec"
  shows "jr_integrity_tag row = mac key (tagged_message sha row rec)"
    and "json_loads (jr_pre_observation_json row) = Some (JObj (jx_pre_observation rec))"
  using assms by (auto simp: row_to_record_def parse_row_def command_tag_def tagged_message_def
    split: option.splits sum.splits if_splits json.splits)

lemma tagged_message_inject:
  assumes "tagged_message sha row rec = tagged_message sha row' rec'"
  shows "jr_pre_observation_json row = jr_pre_observation_json row'" and "jx_command rec = jx_command rec'"
    and "jx_state rec = jx_state rec'" and "jx_provider_id rec = jx_provider_id rec'"
    and "jx_anchor_fingerprint_after rec = jx_anchor_fingerprint_after rec'"
proof -
  let ?payload = "\<lambda>rec row. command_tag_payload sha (jx_command rec) (jx_state rec) (jr_pre_observation_json row)
    (jx_anchor_fingerprint_after rec) (jx_provider_id rec)"
  have "json_dumps True (JObj (?payload rec row)) = json_dumps True (JObj (?payload rec' row'))"
    using assms by (simp add: tagged_message_def canonical_bytes_def)
  note field = json_dumps_field [OF this]
  have wf: "wf_json (JObj (?payload rec row))" for rec row by (simp add: command_tag_payload_def json_opt_def split: option.splits)
  show "jr_pre_observation_json row = jr_pre_observation_json row'"
    using field [OF wf wf, of "''pre_observation_json''"] by (simp add: command_tag_payload_def)
  show "jx_command rec = jx_command rec'"
    using field [OF wf wf, of "''command_id''"] field [OF wf wf, of "''operation''"] field [OF wf wf, of "''fence_token''"]
      field [OF wf wf, of "''expected_anchor_fingerprint''"] field [OF wf wf, of "''resource_id''"]
    by (simp add: command_tag_payload_def operation_value_inject lifecycle_command.equality)
  show "jx_state rec = jx_state rec'" "jx_provider_id rec = jx_provider_id rec'"
    using field [OF wf wf, of "''state''"] field [OF wf wf, of "''provider_id''"] by (simp_all add: command_tag_payload_def)
  show "jx_anchor_fingerprint_after rec = jx_anchor_fingerprint_after rec'"
    using field [OF wf wf, of "''anchor_fingerprint_after''"] by (simp add: command_tag_payload_def json_opt_def split: option.splits)
qed

text \<open>Rows are authenticated: two rows that the journal accepts and that carry the same tag stand for the same
  record, or HMAC collides on exactly the two messages under the tags. A row that was altered in any field of the
  record, under a tag taken from an existing row, is therefore refused.\<close>

theorem journal_row_is_authentic:
  assumes "row_to_record sha mac key row = Inr rec" and "row_to_record sha mac key row' = Inr rec'"
    and "jr_integrity_tag row = jr_integrity_tag row'"
  shows "rec = rec' \<or> collision (mac key) (tagged_message sha row rec) (tagged_message sha row' rec')"
proof (cases "tagged_message sha row rec = tagged_message sha row' rec'")
  case True
  from tagged_message_inject [OF this] accepted_row_tag(2) [OF assms(1)] accepted_row_tag(2) [OF assms(2)] show ?thesis
    by (simp add: journal_record.equality)
next
  case False
  with accepted_row_tag(1) [OF assms(1)] accepted_row_tag(1) [OF assms(2)] assms(3) show ?thesis by (simp add: collision_def)
qed

theorem journal_row_is_authentic_witness:
  "\<exists>sha mac key row rec. row_to_record sha mac key row = Inr rec \<and> rec_id rec = ''s1'' \<and>
     (\<forall>row' rec'. row_to_record sha mac key row' = Inr rec' \<longrightarrow> jr_integrity_tag row = jr_integrity_tag row' \<longrightarrow>
        rec = rec' \<or> collision (mac key) (tagged_message sha row rec) (tagged_message sha row' rec'))"
proof -
  let ?rec = "\<lparr>jx_command = snapshot_command, jx_state = J_PREPARED, jx_pre_observation = [(''anchor_fingerprint'', JStr ''h'')],
    jx_anchor_fingerprint_after = None, jx_provider_id = ''lab''\<rparr>"
  have "record_ok ?rec" by code_simp
  then have row: "row_to_record (\<lambda>m. ''h'') (\<lambda>k m. m) [] (record_row (\<lambda>m. ''h'') (\<lambda>k m. m) [] ?rec) = Inr ?rec"
    by (rule row_to_record_row)
  moreover have "rec_id ?rec = ''s1''" by (simp add: snapshot_command_def)
  ultimately show ?thesis using journal_row_is_authentic [OF row] by blast
qed

end
