(* ===== verification/Provider_Outcomes.thy ===== *)
theory Provider_Outcomes
  imports Journal_Histories
begin

section \<open>Provider-owned outcome receipts\<close>

text \<open>
  \<open>aegis/agent/checkpoint_lifecycle_outcome_receipts.py\<close>: a store of authenticated receipts that belongs to the
  lifecycle provider, the command-aware provider around an inner provider, and the coordinator that settles an
  unclear command from the provider's receipt instead of guessing from observations. The state of the
  provider, its store included, is the state \<open>'w\<close> of the coordinator's model.
\<close>

subsection \<open>Receipts\<close>

record outcome_receipt =
  or_command_id :: string
  or_operation :: lifecycle_operation
  or_fence_token :: int
  or_resource_id :: string
  or_command_digest :: string
  or_expected_anchor_fingerprint :: string
  or_anchor_fingerprint_after :: string
  or_provider_id :: string
  or_replayed :: bool

definition OUTCOME_SCHEMA_VERSION :: string where
  "OUTCOME_SCHEMA_VERSION = ''p4o-provider-outcome-receipt-schema-v1''"

definition receipt_payload :: "outcome_receipt \<Rightarrow> (string \<times> json) list" where
  "receipt_payload r =
     [(''schema_version'', JStr OUTCOME_SCHEMA_VERSION),
      (''command_id'', JStr (or_command_id r)),
      (''operation'', JStr (operation_value (or_operation r))),
      (''fence_token'', JInt (or_fence_token r)),
      (''resource_id'', JStr (or_resource_id r)),
      (''command_digest'', JStr (or_command_digest r)),
      (''expected_anchor_fingerprint'', JStr (or_expected_anchor_fingerprint r)),
      (''anchor_fingerprint_after'', JStr (or_anchor_fingerprint_after r)),
      (''provider_id'', JStr (or_provider_id r))]"

definition receipt_digest :: "(string \<Rightarrow> string) \<Rightarrow> outcome_receipt \<Rightarrow> string" where
  "receipt_digest sha r = sha (canonical_bytes (JObj (receipt_payload r)))"

definition outcome_tag_payload :: "string \<Rightarrow> (string \<times> json) list" where
  "outcome_tag_payload digest = [(''schema_version'', JStr OUTCOME_SCHEMA_VERSION), (''receipt_digest'', JStr digest)]"

definition outcome_tag :: "(string \<Rightarrow> string) \<Rightarrow> (string \<Rightarrow> string \<Rightarrow> string) \<Rightarrow> string \<Rightarrow> outcome_receipt \<Rightarrow> string" where
  "outcome_tag sha mac key r = mac key (canonical_bytes (JObj (outcome_tag_payload (receipt_digest sha r))))"

subsection \<open>SyntheticProviderOutcomeReceiptStore\<close>

record outcome_row =
  ow_command_id :: string
  ow_operation :: string
  ow_fence_token :: int
  ow_resource_id :: string
  ow_command_digest :: string
  ow_expected_anchor_fingerprint :: string
  ow_anchor_fingerprint_after :: string
  ow_provider_id :: string
  ow_receipt_digest :: string
  ow_integrity_tag :: string

record outcome_store =
  os_rows :: "outcome_row list"
  os_key :: string

definition row_to_receipt :: "outcome_row \<Rightarrow> lifecycle_error + outcome_receipt" where
  "row_to_receipt row = (case operation_of_value (ow_operation row) of
     None \<Rightarrow> Inl (OutcomeStoreError OUTCOME_STORE_INVALID)
   | Some operation \<Rightarrow> Inr
       \<lparr>or_command_id = ow_command_id row, or_operation = operation, or_fence_token = ow_fence_token row,
        or_resource_id = ow_resource_id row, or_command_digest = ow_command_digest row,
        or_expected_anchor_fingerprint = ow_expected_anchor_fingerprint row,
        or_anchor_fingerprint_after = ow_anchor_fingerprint_after row, or_provider_id = ow_provider_id row,
        or_replayed = False\<rparr>)"

definition verify_outcome_row ::
  "(string \<Rightarrow> string) \<Rightarrow> (string \<Rightarrow> string \<Rightarrow> string) \<Rightarrow> string \<Rightarrow> outcome_row \<Rightarrow> lifecycle_error + outcome_receipt" where
  "verify_outcome_row sha mac key row = (case row_to_receipt row of
     Inl e \<Rightarrow> Inl e
   | Inr r \<Rightarrow>
       if ow_receipt_digest row \<noteq> receipt_digest sha r then Inl (OutcomeError RECEIPT_INTEGRITY_FAILED (or_command_id r))
       else if ow_integrity_tag row \<noteq> outcome_tag sha mac key r then Inl (OutcomeError RECEIPT_INTEGRITY_FAILED (or_command_id r))
       else Inr r)"

fun verify_outcome_rows ::
  "(string \<Rightarrow> string) \<Rightarrow> (string \<Rightarrow> string \<Rightarrow> string) \<Rightarrow> string \<Rightarrow> outcome_row list \<Rightarrow> lifecycle_error + unit" where
  "verify_outcome_rows sha mac key [] = Inr ()"
| "verify_outcome_rows sha mac key (row # rows) =
     (case verify_outcome_row sha mac key row of Inl e \<Rightarrow> Inl e | Inr _ \<Rightarrow> verify_outcome_rows sha mac key rows)"

text \<open>The two files of the store; \<open>token\<close> is what \<^verbatim>\<open>secrets.token_bytes(32)\<close> returns.\<close>

record outcome_files =
  of_rows :: "outcome_row list option"
  of_key :: "string option"

definition open_outcome_store ::
  "(string \<Rightarrow> string) \<Rightarrow> (string \<Rightarrow> string \<Rightarrow> string) \<Rightarrow> string \<Rightarrow> (outcome_files, lifecycle_error, outcome_store) operation" where
  "open_outcome_store sha mac token files =
     (case (of_rows files, of_key files) of
        (Some rows, Some key) \<Rightarrow>
          if length key \<noteq> 32 then (Inl (OutcomeStoreError OUTCOME_STORE_INVALID), files)
          else (case verify_outcome_rows sha mac key (sort_key ow_command_id rows) of
                  Inl e \<Rightarrow> (Inl e, files)
                | Inr _ \<Rightarrow> (Inr \<lparr>os_rows = rows, os_key = key\<rparr>, files))
      | (None, None) \<Rightarrow>
          (Inr \<lparr>os_rows = [], os_key = token\<rparr>, \<lparr>of_rows = Some [], of_key = Some token\<rparr>)
      | _ \<Rightarrow> (Inl (OutcomeStoreError OUTCOME_STORE_INVALID), files))"

definition outcome_get ::
  "(string \<Rightarrow> string) \<Rightarrow> (string \<Rightarrow> string \<Rightarrow> string) \<Rightarrow> lifecycle_command \<Rightarrow> outcome_store \<Rightarrow>
   lifecycle_error + outcome_receipt option" where
  "outcome_get sha mac c store = (case row_of ow_command_id (lc_command_id c) (os_rows store) of
     None \<Rightarrow> Inr None
   | Some row \<Rightarrow>
       (case verify_outcome_row sha mac (os_key store) row of
          Inl e \<Rightarrow> Inl e
        | Inr r \<Rightarrow>
            if or_command_digest r \<noteq> command_digest sha c then Inl (OutcomeError OUTCOME_COMMAND_CONFLICT (lc_command_id c))
            else Inr (Some r)))"

definition outcome_require ::
  "(string \<Rightarrow> string) \<Rightarrow> (string \<Rightarrow> string \<Rightarrow> string) \<Rightarrow> lifecycle_command \<Rightarrow> outcome_store \<Rightarrow> lifecycle_error + outcome_receipt" where
  "outcome_require sha mac c store = (case outcome_get sha mac c store of
     Inl e \<Rightarrow> Inl e
   | Inr None \<Rightarrow> Inl (OutcomeError RECEIPT_NOT_FOUND (lc_command_id c))
   | Inr (Some r) \<Rightarrow> Inr r)"

definition receipt_row ::
  "(string \<Rightarrow> string) \<Rightarrow> (string \<Rightarrow> string \<Rightarrow> string) \<Rightarrow> string \<Rightarrow> outcome_receipt \<Rightarrow> outcome_row" where
  "receipt_row sha mac key r =
     \<lparr>ow_command_id = or_command_id r, ow_operation = operation_value (or_operation r), ow_fence_token = or_fence_token r,
      ow_resource_id = or_resource_id r, ow_command_digest = or_command_digest r,
      ow_expected_anchor_fingerprint = or_expected_anchor_fingerprint r,
      ow_anchor_fingerprint_after = or_anchor_fingerprint_after r, ow_provider_id = or_provider_id r,
      ow_receipt_digest = receipt_digest sha r, ow_integrity_tag = outcome_tag sha mac key r\<rparr>"

definition outcome_put ::
  "(string \<Rightarrow> string) \<Rightarrow> (string \<Rightarrow> string \<Rightarrow> string) \<Rightarrow> outcome_receipt \<Rightarrow> (outcome_store, lifecycle_error, outcome_receipt) operation" where
  "outcome_put sha mac r = transaction (\<lambda>store.
     case row_of ow_command_id (or_command_id r) (os_rows store) of
       Some row \<Rightarrow>
         (case verify_outcome_row sha mac (os_key store) row of
            Inl e \<Rightarrow> (Inl e, store)
          | Inr existing \<Rightarrow>
              if or_command_digest existing \<noteq> or_command_digest r
                then (Inl (OutcomeError OUTCOME_COMMAND_CONFLICT (or_command_id r)), store)
              else (Inr (existing\<lparr>or_replayed := True\<rparr>), store))
     | None \<Rightarrow> (Inr r, store\<lparr>os_rows := os_rows store @ [receipt_row sha mac (os_key store) r]\<rparr>))"

subsection \<open>SyntheticIdempotentOutcomeReceiptLifecycleProvider\<close>

record 'w outcome_provider =
  op_inner :: 'w
  op_store :: outcome_store
  op_command_invocations :: nat
  op_replay_hits :: nat

definition OUTCOME_PROVIDER_ID :: string where
  "OUTCOME_PROVIDER_ID = ''synthetic-provider-outcome-receipt-checkpoint-lifecycle''"

text \<open>The provider as the coordinators see it: the compatibility methods pass the call on to the inner provider.\<close>

definition outcome_lifecycle_provider :: "'w lifecycle_provider \<Rightarrow> 'w outcome_provider lifecycle_provider" where
  "outcome_lifecycle_provider inner =
     \<lparr>lp_provider_id = OUTCOME_PROVIDER_ID, lp_capabilities = lp_capabilities inner, lp_callable = (\<lambda>_. True),
      lp_command_aware = False,
      lp_export_anchor = map_option (\<lambda>export w. export (op_inner w)) (lp_export_anchor inner),
      lp_replace_anchor = map_option (\<lambda>replace a w. case replace a (op_inner w) of (res, v) \<Rightarrow> (res, w\<lparr>op_inner := v\<rparr>))
        (lp_replace_anchor inner),
      lp_run = (\<lambda>op paths w. case lp_run inner op paths (op_inner w) of (res, v) \<Rightarrow> (res, w\<lparr>op_inner := v\<rparr>))\<rparr>"

definition outcome_fingerprint :: "(string \<Rightarrow> string) \<Rightarrow> 'w lifecycle_provider \<Rightarrow> 'w \<Rightarrow> lifecycle_error + string" where
  "outcome_fingerprint sha provider w =
     (case lp_export_anchor provider of
        None \<Rightarrow> Inl (OutcomeStoreError OUTCOME_STORE_INVALID) | Some export \<Rightarrow> Inr (fingerprint_state sha (export w)))"

definition new_receipt :: "(string \<Rightarrow> string) \<Rightarrow> string \<Rightarrow> lifecycle_command \<Rightarrow> string \<Rightarrow> outcome_receipt" where
  "new_receipt sha provider_id c after =
     \<lparr>or_command_id = lc_command_id c, or_operation = lc_operation c, or_fence_token = lc_fence_token c,
      or_resource_id = lc_resource_id c, or_command_digest = command_digest sha c,
      or_expected_anchor_fingerprint = lc_expected_anchor_fingerprint c, or_anchor_fingerprint_after = after,
      or_provider_id = provider_id, or_replayed = False\<rparr>"

definition outcome_run_inner ::
  "'w lifecycle_provider \<Rightarrow> lifecycle_command \<Rightarrow> lifecycle_paths \<Rightarrow> ('w outcome_provider, lifecycle_error, unit) operation" where
  "outcome_run_inner inner c paths w =
     (case lp_run inner (lc_operation c) paths (op_inner w) of
        (res, v) \<Rightarrow> (map_sum ProviderRaised id res, w\<lparr>op_inner := v, op_command_invocations := op_command_invocations w + 1\<rparr>))"

definition outcome_record ::
  "(string \<Rightarrow> string) \<Rightarrow> (string \<Rightarrow> string \<Rightarrow> string) \<Rightarrow> 'w lifecycle_provider \<Rightarrow> lifecycle_command \<Rightarrow>
   ('w outcome_provider, lifecycle_error, outcome_receipt) operation" where
  "outcome_record sha mac inner c w =
     (case outcome_fingerprint sha inner (op_inner w) of
        Inl e \<Rightarrow> (Inl e, w)
      | Inr after \<Rightarrow>
          (case outcome_put sha mac (new_receipt sha OUTCOME_PROVIDER_ID c after) (op_store w) of
             (res, store) \<Rightarrow> (res, w\<lparr>op_store := store\<rparr>)))"

definition execute_lifecycle_command ::
  "(string \<Rightarrow> string) \<Rightarrow> (string \<Rightarrow> string \<Rightarrow> string) \<Rightarrow> 'w lifecycle_provider \<Rightarrow> lifecycle_command \<Rightarrow> lifecycle_paths \<Rightarrow>
   ('w outcome_provider, lifecycle_error, outcome_receipt) operation" where
  "execute_lifecycle_command sha mac inner c paths w =
     (case outcome_get sha mac c (op_store w) of
        Inl e \<Rightarrow> (Inl e, w)
      | Inr (Some existing) \<Rightarrow> (Inr (existing\<lparr>or_replayed := True\<rparr>), w\<lparr>op_replay_hits := op_replay_hits w + 1\<rparr>)
      | Inr None \<Rightarrow>
          if \<not> operation_arguments_ok (lc_operation c) paths
            then (Inl (OutcomeError OUTCOME_ARGUMENTS_INVALID (lc_command_id c)), w)
          else case require_lifecycle_capability (outcome_lifecycle_provider inner) (lc_operation c) of
                 Some e \<Rightarrow> (Inl e, w)
               | None \<Rightarrow>
                   (case outcome_fingerprint sha inner (op_inner w) of
                      Inl e \<Rightarrow> (Inl e, w)
                    | Inr fingerprint \<Rightarrow>
                        if fingerprint \<noteq> lc_expected_anchor_fingerprint c
                          then (Inl (OutcomeError ANCHOR_PRECONDITION_MISMATCH (lc_command_id c)), w)
                        else op_seq (outcome_run_inner inner c paths) (outcome_record sha mac inner c) w))"

definition get_lifecycle_outcome_receipt ::
  "(string \<Rightarrow> string) \<Rightarrow> (string \<Rightarrow> string \<Rightarrow> string) \<Rightarrow> lifecycle_command \<Rightarrow> 'w outcome_provider \<Rightarrow> lifecycle_error + outcome_receipt" where
  "get_lifecycle_outcome_receipt sha mac c w = outcome_require sha mac c (op_store w)"

subsection \<open>ProviderOutcomeRecoveringLifecycleCoordinator\<close>

text \<open>
  The methods that the coordinator looks up on the provider with \<open>getattr\<close>, \<open>None\<close> where the provider does not
  have them.
\<close>

record 'w command_methods =
  cm_execute :: "(lifecycle_command \<Rightarrow> lifecycle_paths \<Rightarrow> ('w, lifecycle_error, outcome_receipt) operation) option"
  cm_get_receipt :: "(lifecycle_command \<Rightarrow> 'w \<Rightarrow> lifecycle_error + outcome_receipt) option"

definition outcome_methods ::
  "(string \<Rightarrow> string) \<Rightarrow> (string \<Rightarrow> string \<Rightarrow> string) \<Rightarrow> 'w lifecycle_provider \<Rightarrow> 'w outcome_provider command_methods" where
  "outcome_methods sha mac inner = \<lparr>cm_execute = Some (execute_lifecycle_command sha mac inner),
     cm_get_receipt = Some (get_lifecycle_outcome_receipt sha mac)\<rparr>"

definition recovering_invoke ::
  "'w command_methods \<Rightarrow> lifecycle_command \<Rightarrow> lifecycle_paths \<Rightarrow> ('w journal_coordinator, lifecycle_error, unit) operation" where
  "recovering_invoke methods c paths st =
     (case cm_execute methods of
        None \<Rightarrow> (Inl (OutcomeError OUTCOME_STORE_INVALID (lc_command_id c)), st)
      | Some execute \<Rightarrow>
          (case execute c paths (jc_world st) of
             (res, w) \<Rightarrow> (map_sum id (\<lambda>_. ()) res,
               st\<lparr>jc_world := w, jc_provider_invocations := jc_provider_invocations st + 1\<rparr>)))"

text \<open>The last steps of the two overriding \<open>reconcile\<close> methods: check the provider's receipt and commit.\<close>

definition settle_from_receipt ::
  "(string \<Rightarrow> string) \<Rightarrow> (string \<Rightarrow> string \<Rightarrow> string) \<Rightarrow> 'w lifecycle_provider \<Rightarrow> lifecycle_command \<Rightarrow> journal_record \<Rightarrow>
   outcome_receipt \<Rightarrow> ('w journal_coordinator, lifecycle_error, command_receipt) operation" where
  "settle_from_receipt sha mac provider c rec pr st =
     (if or_provider_id pr \<noteq> lp_provider_id provider
        then (Inl (OutcomeError OUTCOME_PROVIDER_ID_MISMATCH (lc_command_id c)), st)
      else case journal_fingerprint sha provider (jc_world st) of
             Inl e \<Rightarrow> (Inl e, st)
           | Inr fingerprint \<Rightarrow>
               if or_anchor_fingerprint_after pr \<noteq> fingerprint
                 then (Inl (OutcomeError ANCHOR_POSTCONDITION_MISMATCH (lc_command_id c)), st)
               else case on_journal (commit_receipt sha mac (jc_key st) rec (or_anchor_fingerprint_after pr)) st of
                      (Inl e, st) \<Rightarrow> (Inl e, st)
                    | (Inr receipt, st) \<Rightarrow>
                        (Inr (receipt\<lparr>cr_replayed := True\<rparr>), st\<lparr>jc_reconciliations := jc_reconciliations st + 1\<rparr>))"

text \<open>What the two methods do before that: replay a committed record, demote a started one, and go on with a record that awaits reconciliation.\<close>

definition reconcile_with ::
  "(string \<Rightarrow> string) \<Rightarrow> (string \<Rightarrow> string \<Rightarrow> string) \<Rightarrow> 'w lifecycle_provider \<Rightarrow> lifecycle_command \<Rightarrow>
   (journal_record \<Rightarrow> ('w journal_coordinator, lifecycle_error, command_receipt) operation) \<Rightarrow>
   ('w journal_coordinator, lifecycle_error, command_receipt) operation" where
  "reconcile_with sha mac provider c resolve st =
     (case load_record_for_command sha mac (jc_key st) (lp_provider_id provider) c (jc_db st) of
        Inl e \<Rightarrow> (Inl e, st)
      | Inr (rec, _) \<Rightarrow>
          if jx_state rec = J_COMMITTED
            then (receipt_from_record sha rec, st\<lparr>jc_replay_hits := jc_replay_hits st + 1\<rparr>)
          else case demote_started sha mac rec st of
                 (Inl e, st) \<Rightarrow> (Inl e, st)
               | (Inr rec, st) \<Rightarrow>
                   if jx_state rec \<noteq> J_RECONCILIATION_REQUIRED
                     then (Inl (JournalError JOURNAL_RECONCILIATION_UNPROVABLE (lc_command_id c)), st)
                   else resolve rec st)"

definition recovering_reconcile ::
  "(string \<Rightarrow> string) \<Rightarrow> (string \<Rightarrow> string \<Rightarrow> string) \<Rightarrow> 'w lifecycle_provider \<Rightarrow> 'w command_methods \<Rightarrow> lifecycle_command \<Rightarrow>
   ('w journal_coordinator, lifecycle_error, command_receipt) operation" where
  "recovering_reconcile sha mac provider methods c = reconcile_with sha mac provider c (\<lambda>rec st.
     case cm_get_receipt methods of
       None \<Rightarrow> (Inl (OutcomeError RECEIPT_NOT_FOUND (lc_command_id c)), st)
     | Some get_receipt \<Rightarrow>
         (case get_receipt c (jc_world st) of
            Inl e \<Rightarrow> (Inl e, st)
          | Inr pr \<Rightarrow> settle_from_receipt sha mac provider c rec pr st))"

definition recovering_class ::
  "(string \<Rightarrow> string) \<Rightarrow> (string \<Rightarrow> string \<Rightarrow> string) \<Rightarrow> 'w lifecycle_provider \<Rightarrow> 'w command_methods \<Rightarrow> 'w coordinator_class" where
  "recovering_class sha mac provider methods =
     \<lparr>cc_invoke = recovering_invoke methods, cc_reconcile = recovering_reconcile sha mac provider methods\<rparr>"


subsection \<open>The coordinator keeps its contract\<close>

lemma settle_moves:
  assumes "\<And>m. sha m \<noteq> []" and "in_order sha mac recs st" and "row_of rec_id i recs = Some rec" and "jx_state rec \<noteq> J_COMMITTED"
    and "settle_from_receipt sha mac provider c rec pr st = (res, st')"
  shows "\<exists>recs'. journal_moved sha mac recs recs' st' \<and> jc_provider_invocations st' = jc_provider_invocations st"
proof (cases "or_provider_id pr = lp_provider_id provider \<and> journal_fingerprint sha provider (jc_world st) = Inr (or_anchor_fingerprint_after pr)")
  case False
  with assms(5) have "st' = st" by (auto simp: settle_from_receipt_def split: if_splits sum.splits)
  with assms(2) show ?thesis by (auto simp: journal_moved_def)
next
  case True
  let ?after = "or_anchor_fingerprint_after pr"
  have "?after \<noteq> []" by (rule fingerprint_nonempty [OF assms(1) conjunct2 [OF True]])
  from commit_moves [OF assms(2-4) this] obtain st1 recs1 where
    "on_journal (commit_receipt sha mac (jc_key st) rec ?after) st = (Inr (receipt_of sha rec ?after False), st1)"
    and moved: "journal_moved sha mac recs recs1 st1" and st1: "st1 = st\<lparr>jc_db := jc_db st1\<rparr>" by blast
  with assms(5) True have "st' = st1\<lparr>jc_reconciliations := jc_reconciliations st1 + 1\<rparr>" by (simp add: settle_from_receipt_def)
  with moved in_order_cong [OF st1] show ?thesis by (auto simp: journal_moved_def)
qed

lemma reconcile_with_moves:
  assumes "in_order sha mac recs st" and "reconcile_with sha mac provider c resolve st = (res, st')"
    and resolve: "\<And>recs1 rec1 st1. in_order sha mac recs1 st1 \<Longrightarrow> row_of rec_id (lc_command_id c) recs1 = Some rec1 \<Longrightarrow>
      jx_state rec1 = J_RECONCILIATION_REQUIRED \<Longrightarrow> resolve rec1 st1 = (res, st') \<Longrightarrow>
      \<exists>recs'. journal_moved sha mac recs1 recs' st' \<and> jc_provider_invocations st' = jc_provider_invocations st1"
  shows "\<exists>recs'. journal_moved sha mac recs recs' st' \<and> jc_provider_invocations st' = jc_provider_invocations st"
proof -
  have ok: "records_ok recs" and db: "jc_db st = journal_of sha mac (jc_key st) recs" using assms(1) by (simp_all add: in_order_def)
  have idle: "journal_moved sha mac recs recs st" using assms(1) by (simp add: journal_moved_def)
  show ?thesis
  proof (cases "load_record_for_command sha mac (jc_key st) (lp_provider_id provider) c (jc_db st)")
    case (Inl e)
    with assms(2) idle show ?thesis by (auto simp: reconcile_with_def)
  next
    case (Inr p)
    obtain rec h where p: "p = (rec, h)" by fastforce
    from load_record_of [OF ok] Inr p db have at: "row_of rec_id (lc_command_id c) recs = Some rec" by simp
    show ?thesis
    proof (cases "jx_state rec = J_COMMITTED")
      case True
      with assms(2) Inr p idle show ?thesis by (auto simp: reconcile_with_def journal_moved_def)
    next
      case False
      obtain rec1 st1 recs1 where demote: "demote_started sha mac rec st = (Inr rec1, st1)" and moved: "journal_moved sha mac recs recs1 st1"
        and at1: "row_of rec_id (lc_command_id c) recs1 = Some rec1" and st1: "st1 = st\<lparr>jc_db := jc_db st1\<rparr>"
        using demote_moves [OF assms(1) at False] by blast
      note run = assms(2) Inr p False demote
      show ?thesis
      proof (cases "jx_state rec1 = J_RECONCILIATION_REQUIRED")
        case True
        with run have "resolve rec1 st1 = (res, st')" by (simp add: reconcile_with_def)
        with resolve [OF _ at1 True] moved obtain recs2 where
          "journal_moved sha mac recs1 recs2 st'" "jc_provider_invocations st' = jc_provider_invocations st1"
          by (auto simp: journal_moved_def)
        with journal_moved_trans [OF moved] in_order_cong [OF st1] show ?thesis by auto
      next
        case False
        with run have "st' = st1" by (simp add: reconcile_with_def)
        with moved in_order_cong [OF st1] show ?thesis by auto
      qed
    qed
  qed
qed

lemma recovering_reconcile_moves:
  assumes "\<And>m. sha m \<noteq> []" and "in_order sha mac recs st" and "recovering_reconcile sha mac provider methods c st = (res, st')"
  shows "\<exists>recs'. journal_moved sha mac recs recs' st' \<and> jc_provider_invocations st' = jc_provider_invocations st"
proof (rule reconcile_with_moves [OF assms(2) assms(3) [unfolded recovering_reconcile_def]])
  fix recs1 rec1 st1
  assume st1: "in_order sha mac recs1 st1" "row_of rec_id (lc_command_id c) recs1 = Some rec1" "jx_state rec1 = J_RECONCILIATION_REQUIRED"
    and run: "(case cm_get_receipt methods of None \<Rightarrow> (Inl (OutcomeError RECEIPT_NOT_FOUND (lc_command_id c)), st1)
      | Some get_receipt \<Rightarrow> (case get_receipt c (jc_world st1) of Inl e \<Rightarrow> (Inl e, st1)
        | Inr pr \<Rightarrow> settle_from_receipt sha mac provider c rec1 pr st1)) = (res, st')"
  consider "st' = st1" | pr where "settle_from_receipt sha mac provider c rec1 pr st1 = (res, st')"
    using run by (auto split: option.splits sum.splits)
  then show "\<exists>recs'. journal_moved sha mac recs1 recs' st' \<and> jc_provider_invocations st' = jc_provider_invocations st1"
  proof cases
    case 1
    with st1(1) show ?thesis by (auto simp: journal_moved_def)
  next
    case 2
    then show ?thesis using settle_moves [OF assms(1) st1(1,2)] st1(3) by simp
  qed
qed

lemma recovering_class_sel [simp]:
  "cc_invoke (recovering_class sha mac provider methods) = recovering_invoke methods"
  "cc_reconcile (recovering_class sha mac provider methods) = recovering_reconcile sha mac provider methods"
  by (simp_all add: recovering_class_def)

lemma recovering_invoke_keeps:
  "recovering_invoke methods c paths st = (r, st') \<Longrightarrow> jc_db st' = jc_db st \<and> jc_key st' = jc_key st \<and>
   (jc_provider_invocations st' = jc_provider_invocations st + 1 \<or> jc_provider_invocations st' = jc_provider_invocations st)"
  by (auto simp: recovering_invoke_def split: option.splits prod.splits)

interpretation recovering: coordinator_methods sha mac provider saver "recovering_class sha mac provider methods"
  for sha mac provider saver methods
proof
  show "cc_invoke (recovering_class sha mac provider methods) c paths st = (r, st') \<Longrightarrow> jc_db st' = jc_db st \<and> jc_key st' = jc_key st \<and>
      (jc_provider_invocations st' = jc_provider_invocations st + 1 \<or> jc_provider_invocations st' = jc_provider_invocations st)" for c paths st r st'
    unfolding recovering_class_sel by (rule recovering_invoke_keeps)
  show "(\<And>m. sha m \<noteq> []) \<Longrightarrow> in_order sha mac recs st \<Longrightarrow> cc_reconcile (recovering_class sha mac provider methods) c st = (res, st') \<Longrightarrow>
      \<exists>recs'. journal_moved sha mac recs recs' st' \<and> jc_provider_invocations st' = jc_provider_invocations st" for recs st c res st'
    unfolding recovering_class_sel by (rule recovering_reconcile_moves)
qed

subsection \<open>Receipts of the provider\<close>

lemma verify_receipt_row [simp]:
  "verify_outcome_row sha mac key (receipt_row sha mac key r) = Inr (r\<lparr>or_replayed := False\<rparr>)"
  by (simp add: verify_outcome_row_def row_to_receipt_def receipt_row_def receipt_digest_def outcome_tag_def receipt_payload_def)

lemma receipt_row_id [simp]: "ow_command_id (receipt_row sha mac key r) = or_command_id r"
  by (simp add: receipt_row_def)

lemma outcome_put_cases:
  assumes "outcome_put sha mac r store = (res, store')"
  obtains (error) e where "res = Inl e" "store' = store"
  | (known) row existing where "row_of ow_command_id (or_command_id r) (os_rows store) = Some row"
      "verify_outcome_row sha mac (os_key store) row = Inr existing" "or_command_digest existing = or_command_digest r"
      "res = Inr (existing\<lparr>or_replayed := True\<rparr>)" "store' = store"
  | (new) "row_of ow_command_id (or_command_id r) (os_rows store) = None" "res = Inr r"
      "store' = store\<lparr>os_rows := os_rows store @ [receipt_row sha mac (os_key store) r]\<rparr>"
proof (cases "row_of ow_command_id (or_command_id r) (os_rows store)")
  case None
  with assms new show thesis by (simp add: outcome_put_def transaction_def)
next
  case (Some row)
  show thesis
  proof (cases "verify_outcome_row sha mac (os_key store) row")
    case (Inl e)
    with assms Some have "res = Inl e" "store' = store" by (simp_all add: outcome_put_def transaction_def)
    then show thesis by (rule error)
  next
    case (Inr existing)
    show thesis
    proof (cases "or_command_digest existing = or_command_digest r")
      case True
      with assms Some Inr have "res = Inr (existing\<lparr>or_replayed := True\<rparr>)" "store' = store"
        by (simp_all add: outcome_put_def transaction_def)
      then show thesis by (rule known [OF Some Inr True])
    next
      case False
      with assms Some Inr have "res = Inl (OutcomeError OUTCOME_COMMAND_CONFLICT (or_command_id r))" "store' = store"
        by (simp_all add: outcome_put_def transaction_def)
      then show thesis by (rule error)
    qed
  qed
qed

lemma outcome_put_keeps:
  assumes "outcome_put sha mac r store = (res, store')" and "row_of ow_command_id i (os_rows store) = Some row"
  shows "row_of ow_command_id i (os_rows store') = Some row"
  using assms(1) by (cases rule: outcome_put_cases) (use assms(2) in \<open>auto simp: find_append\<close>)

text \<open>The round trip of the store: what \<open>put\<close> returned is what \<open>get\<close> returns, up to the replay mark.\<close>

lemma outcome_get_put:
  assumes "outcome_put sha mac r store = (Inr r', store')" and "or_command_id r = lc_command_id c"
    and "or_command_digest r = command_digest sha c"
  shows "outcome_get sha mac c store' = Inr (Some (r'\<lparr>or_replayed := False\<rparr>)) \<and> or_command_digest r' = command_digest sha c"
  using assms(1)
proof (cases rule: outcome_put_cases)
  case (known row existing)
  moreover from known(2) have "existing\<lparr>or_replayed := False\<rparr> = existing"
    by (auto simp: verify_outcome_row_def row_to_receipt_def split: option.splits if_splits)
  ultimately show ?thesis using assms(2,3) by (simp add: outcome_get_def)
next
  case new
  then show ?thesis using assms(2,3) by (simp add: outcome_get_def find_append)
qed simp

text \<open>Steps of the provider: executing any command, and any change of what the inner provider owns.\<close>

inductive outcome_step ::
  "(string \<Rightarrow> string) \<Rightarrow> (string \<Rightarrow> string \<Rightarrow> string) \<Rightarrow> 'w lifecycle_provider \<Rightarrow> 'w outcome_provider \<Rightarrow> 'w outcome_provider \<Rightarrow> bool"
  for sha mac inner where
  run: "execute_lifecycle_command sha mac inner c paths w = (res, w') \<Longrightarrow> outcome_step sha mac inner w w'"
| outside: "outcome_step sha mac inner w (w\<lparr>op_inner := v\<rparr>)"

definition provider_receipt :: "'w outcome_provider \<Rightarrow> string \<Rightarrow> (outcome_row \<times> string) option" where
  "provider_receipt w i = map_option (\<lambda>row. (row, os_key (op_store w))) (row_of ow_command_id i (os_rows (op_store w)))"

lemma outcome_put_key: "outcome_put sha mac r store = (res, store') \<Longrightarrow> os_key store' = os_key store"
  by (erule outcome_put_cases) simp_all

lemma outcome_record_keeps:
  assumes "outcome_record sha mac inner c w = (res, w')" and "provider_receipt w i = Some row"
  shows "provider_receipt w' i = Some row"
proof (cases "outcome_fingerprint sha inner (op_inner w)")
  case (Inl e)
  with assms show ?thesis by (simp add: outcome_record_def)
next
  case (Inr after)
  obtain res store where put: "outcome_put sha mac (new_receipt sha OUTCOME_PROVIDER_ID c after) (op_store w) = (res, store)" by fastforce
  with assms Inr outcome_put_keeps [OF put] outcome_put_key [OF put] show ?thesis
    by (auto simp: outcome_record_def provider_receipt_def)
qed

lemma run_inner_store: "outcome_run_inner inner c paths w = (res, v) \<Longrightarrow> op_store v = op_store w"
  by (auto simp: outcome_run_inner_def split: prod.splits)

lemma provider_receipt_cong: "op_store v = op_store w \<Longrightarrow> provider_receipt v = provider_receipt w"
  by (simp add: provider_receipt_def fun_eq_iff)

lemma execute_command_keeps:
  assumes "execute_lifecycle_command sha mac inner c paths w = (res, w')" and "provider_receipt w i = Some row"
  shows "provider_receipt w' i = Some row"
proof -
  consider "op_store w' = op_store w" | v where "op_store v = op_store w" "outcome_record sha mac inner c v = (res, w')"
    using assms(1)
    by (auto simp: execute_lifecycle_command_def op_seq_def split: sum.splits option.splits if_splits prod.splits dest!: run_inner_store)
  then show ?thesis
  proof cases
    case 1
    with provider_receipt_cong [OF 1] assms(2) show ?thesis by simp
  next
    case (2 v)
    with provider_receipt_cong [OF 2(1)] assms(2) outcome_record_keeps [OF 2(2)] show ?thesis by simp
  qed
qed

interpretation provider_receipts: write_once provider_receipt "outcome_step sha mac inner" for sha mac inner
proof
  show "outcome_step sha mac inner w w' \<Longrightarrow> provider_receipt w i = Some row \<Longrightarrow> provider_receipt w' i = Some row" for w w' i row
    by (erule outcome_step.cases) (simp_all add: execute_command_keeps, simp add: provider_receipt_def)
qed

text \<open>After an execution has returned, the store has its receipt; a fresh one states the anchor it left.\<close>

lemma outcome_record_get:
  assumes "outcome_record sha mac inner c w = (Inr r, w')"
  shows "outcome_get sha mac c (op_store w') = Inr (Some (r\<lparr>or_replayed := False\<rparr>))"
proof -
  from assms obtain after where "outcome_put sha mac (new_receipt sha OUTCOME_PROVIDER_ID c after) (op_store w) = (Inr r, op_store w')"
    by (auto simp: outcome_record_def split: sum.splits prod.splits)
  from outcome_get_put [OF this, of c] show ?thesis by (simp add: new_receipt_def)
qed

lemma execute_command_get:
  assumes "execute_lifecycle_command sha mac inner c paths w = (Inr r, w')"
  shows "outcome_get sha mac c (op_store w') = Inr (Some (r\<lparr>or_replayed := False\<rparr>))"
proof (cases "outcome_get sha mac c (op_store w)")
  case (Inl e)
  with assms show ?thesis by (simp add: execute_lifecycle_command_def)
next
  case (Inr found)
  show ?thesis
  proof (cases found)
    case (Some existing)
    with Inr have "existing\<lparr>or_replayed := False\<rparr> = existing"
      by (auto simp: outcome_get_def verify_outcome_row_def row_to_receipt_def split: option.splits if_splits sum.splits)
    with Some Inr assms show ?thesis by (auto simp: execute_lifecycle_command_def)
  next
    case None
    with Inr assms obtain v where "outcome_record sha mac inner c v = (Inr r, w')"
      by (auto simp: execute_lifecycle_command_def split: if_splits option.splits sum.splits)
    then show ?thesis by (rule outcome_record_get)
  qed
qed

lemma outcome_get_cong:
  "provider_receipt w' (lc_command_id c) = provider_receipt w (lc_command_id c) \<Longrightarrow>
   outcome_get sha mac c (op_store w) = Inr (Some r) \<Longrightarrow> outcome_get sha mac c (op_store w') = Inr (Some r)"
  by (auto simp: provider_receipt_def outcome_get_def split: option.splits)

text \<open>A fresh provider around the counting one, for concrete runs.\<close>

definition lab_outcome_provider :: "nat outcome_provider" where
  "lab_outcome_provider = \<lparr>op_inner = 0, op_store = \<lparr>os_rows = [], os_key = lab_key\<rparr>, op_command_invocations = 0, op_replay_hits = 0\<rparr>"

lemmas outcome_eval = lab_outcome_provider_def outcome_get_def execute_lifecycle_command_def outcome_lifecycle_provider_def
  outcome_fingerprint_def outcome_run_inner_def outcome_record_def outcome_put_def new_receipt_def op_seq_def
  recovering_invoke_def outcome_methods_def

text \<open>The provider is idempotent by command: once an execution has returned a receipt, every later execution of the
  command returns that receipt, marked as replayed, without running the inner provider, whatever was executed
  or changed in between.\<close>

theorem provider_receipt_is_final:
  assumes "execute_lifecycle_command sha mac inner c paths w = (Inr r, w1)" and "(outcome_step sha mac inner)\<^sup>*\<^sup>* w1 w2"
  shows "execute_lifecycle_command sha mac inner c paths' w2 =
    (Inr (r\<lparr>or_replayed := True\<rparr>), w2\<lparr>op_replay_hits := op_replay_hits w2 + 1\<rparr>)"
proof -
  from execute_command_get [OF assms(1)] have get: "outcome_get sha mac c (op_store w1) = Inr (Some (r\<lparr>or_replayed := False\<rparr>))" .
  then obtain row where row: "provider_receipt w1 (lc_command_id c) = Some row"
    by (auto simp: outcome_get_def provider_receipt_def split: option.splits)
  with provider_receipts.steps_keep [OF assms(2)] get have "outcome_get sha mac c (op_store w2) = Inr (Some (r\<lparr>or_replayed := False\<rparr>))"
    by (intro outcome_get_cong [OF _ get]) simp
  then show ?thesis by (simp add: execute_lifecycle_command_def)
qed

theorem provider_receipt_is_final_witness:
  "\<exists>r w1 w2. execute_lifecycle_command lab_sha lab_mac counting_provider snapshot_command some_paths lab_outcome_provider = (Inr r, w1) \<and>
     (outcome_step lab_sha lab_mac counting_provider)\<^sup>*\<^sup>* w1 w2 \<and> op_inner w2 = 7 \<and>
     execute_lifecycle_command lab_sha lab_mac counting_provider snapshot_command some_paths w2 =
       (Inr (r\<lparr>or_replayed := True\<rparr>), w2\<lparr>op_replay_hits := op_replay_hits w2 + 1\<rparr>)"
proof -
  let ?run = "execute_lifecycle_command lab_sha lab_mac counting_provider snapshot_command some_paths lab_outcome_provider"
  have "\<exists>r. fst ?run = Inr r" by (simp add: journal_eval outcome_eval)
  then obtain r w1 where run: "?run = (Inr r, w1)" by (metis prod.collapse)
  have steps: "(outcome_step lab_sha lab_mac counting_provider)\<^sup>*\<^sup>* w1 (w1\<lparr>op_inner := 7\<rparr>)" by (intro r_into_rtranclp outcome_step.outside)
  have "op_inner (w1\<lparr>op_inner := 7\<rparr>) = 7" by simp
  with run steps provider_receipt_is_final [OF run steps, of some_paths] show ?thesis by blast
qed

text \<open>The recovering coordinator also calls the provider at most once per command, in every history with
  restarts and injected crashes.\<close>

theorem recovering_calls_provider_once:
  assumes "\<And>m. sha m \<noteq> []" and "length token = 32" and "first_open sha mac token w = Inr st"
  shows "distinct (fst (journal_history sha mac provider saver (recovering_class sha mac provider methods) calls st))"
  using recovering.called_at_most_once [OF assms] .

theorem recovering_calls_provider_once_witness:
  "\<exists>st :: nat outcome_provider journal_coordinator. first_open lab_sha lab_mac lab_key lab_outcome_provider = Inr st \<and>
     distinct (fst (journal_history lab_sha lab_mac (outcome_lifecycle_provider counting_provider) plain_saver
       (recovering_class lab_sha lab_mac (outcome_lifecycle_provider counting_provider) (outcome_methods lab_sha lab_mac counting_provider))
       [Issue ''s1'' SNAPSHOT ''db'', Arm AFTER_PROVIDER_BEFORE_COMMIT, Execute snapshot_command some_paths, Restart,
        Execute snapshot_command some_paths, Reconcile snapshot_command] st))"
  using lab_open [of lab_outcome_provider] recovering_calls_provider_once [OF _ _ lab_open] by (metis lab_tags(3,4))

lemma fresh_execution_states_anchor:
  assumes "execute_lifecycle_command sha mac inner c paths w = (Inr r, w')" and "outcome_get sha mac c (op_store w) = Inr None"
  shows "outcome_fingerprint sha inner (op_inner w') = Inr (or_anchor_fingerprint_after r) \<and> or_provider_id r = OUTCOME_PROVIDER_ID"
proof -
  from assms obtain v where run: "outcome_run_inner inner c paths w = (Inr (), v)" and rec: "outcome_record sha mac inner c v = (Inr r, w')"
    by (auto simp: execute_lifecycle_command_def split: if_splits option.splits sum.splits)
  from rec obtain after store where after: "outcome_fingerprint sha inner (op_inner v) = Inr after"
    and put: "outcome_put sha mac (new_receipt sha OUTCOME_PROVIDER_ID c after) (op_store v) = (Inr r, store)"
    and w': "w' = v\<lparr>op_store := store\<rparr>"
    by (auto simp: outcome_record_def split: sum.splits prod.splits)
  have "row_of ow_command_id (lc_command_id c) (os_rows (op_store v)) = None"
    using assms(2) run_inner_store [OF run] by (auto simp: outcome_get_def split: option.splits sum.splits if_splits)
  with put have "r = new_receipt sha OUTCOME_PROVIDER_ID c after"
    by (simp add: outcome_put_def transaction_def new_receipt_def)
  with after w' show ?thesis by (simp add: new_receipt_def)
qed

lemma journal_fingerprint_outcome:
  "outcome_fingerprint sha inner (op_inner w) = Inr a \<Longrightarrow> journal_fingerprint sha (outcome_lifecycle_provider inner) w = Inr a"
  by (auto simp: outcome_fingerprint_def journal_fingerprint_def outcome_lifecycle_provider_def split: option.splits)

lemma reconcile_with_pending:
  assumes "in_order sha mac recs st" and "row_of rec_id (lc_command_id c) recs = Some rec"
    and "jx_state rec = J_RECONCILIATION_REQUIRED" and "command_digest sha (jx_command rec) = command_digest sha c"
    and "jx_provider_id rec = lp_provider_id provider"
  shows "reconcile_with sha mac provider c resolve st = resolve rec st"
proof -
  from assms(1) have ok: "records_ok recs" and db: "jc_db st = journal_of sha mac (jc_key st) recs" by (simp_all add: in_order_def)
  from record_okI [OF ok assms(2)] have "record_ok rec" by simp
  with ok assms(2,4,5) have "load_record_for_command sha mac (jc_key st) (lp_provider_id provider) c (jc_db st) =
      Inr (rec, jm_highest_committed_fence (meta_of mac (jc_key st) recs))"
    by (simp add: load_record_for_command_def db)
  with assms(3) show ?thesis by (simp add: reconcile_with_def demote_started_def)
qed

lemma settle_succeeds:
  assumes "\<And>m. sha m \<noteq> []" and "in_order sha mac recs st" and "row_of rec_id i recs = Some rec" and "jx_state rec \<noteq> J_COMMITTED"
    and "or_provider_id pr = lp_provider_id provider"
    and "journal_fingerprint sha provider (jc_world st) = Inr (or_anchor_fingerprint_after pr)"
  shows "\<exists>st'. settle_from_receipt sha mac provider c rec pr st =
      (Inr (receipt_of sha rec (or_anchor_fingerprint_after pr) True), st') \<and> jc_world st' = jc_world st"
proof -
  from commit_moves [OF assms(2-4) fingerprint_nonempty [OF assms(1,6)]] obtain st1 where
    "on_journal (commit_receipt sha mac (jc_key st) rec (or_anchor_fingerprint_after pr)) st =
      (Inr (receipt_of sha rec (or_anchor_fingerprint_after pr) False), st1)" and st1: "st1 = st\<lparr>jc_db := jc_db st1\<rparr>" by blast
  with assms(5,6) in_order_cong [OF st1] show ?thesis by (simp add: settle_from_receipt_def receipt_of_def)
qed

lemma restart_demotes:
  assumes "in_order sha mac recs st" and "row_of rec_id i recs = Some rec" and "jx_state rec = J_PROVIDER_STARTED"
    and "journal_restart sha mac st = Inr st'"
  shows "\<exists>recs'. in_order sha mac recs' st' \<and> row_of rec_id i recs' = Some (demoted rec) \<and> jc_world st' = jc_world st"
proof -
  from assms(1) have ok: "records_ok recs" and db: "jc_db st = journal_of sha mac (jc_key st) recs" and key: "length (jc_key st) = 32"
    by (simp_all add: in_order_def)
  from record_okI [OF ok assms(2)] have "rec_id rec = i" by simp
  moreover from assms(2) have "rec \<in> set recs" by (auto dest!: row_of_SomeD)
  ultimately show ?thesis
    using open_moves [OF ok key, of sha mac "[]" "jc_world st"] assms(3,4) db by (auto simp: journal_restart_def journal_moved_def)
qed

text \<open>Recovery from a crash between the provider's return and the commit of the journal: after the restart,
  \<open>reconcile\<close> settles the command from the provider's receipt. It returns a receipt that states the anchor the
  provider left, and it neither runs the inner provider again nor changes anything the provider owns.\<close>

theorem crash_after_provider_is_settled:
  assumes "provider = outcome_lifecycle_provider inner" and "\<And>m. sha m \<noteq> []" and "length token = 32" and "first_open sha mac token w = Inr st0"
    and "journal_history sha mac provider saver (recovering_class sha mac provider (outcome_methods sha mac inner)) calls st0 = (called, st)"
    and "outcome_get sha mac c (op_store (jc_world st)) = Inr None"
    and "journal_execute sha mac provider (recovering_invoke (outcome_methods sha mac inner)) c paths
      (journal_arm_fault AFTER_PROVIDER_BEFORE_COMMIT st) = (Inl (JournalCrash (lc_command_id c) AFTER_PROVIDER_BEFORE_COMMIT), st1)"
    and "journal_restart sha mac st1 = Inr st2"
  shows "\<exists>r st3. recovering_reconcile sha mac provider (outcome_methods sha mac inner) c st2 = (Inr r, st3) \<and>
    cr_command_id r = lc_command_id c \<and> cr_replayed r \<and> jc_world st3 = jc_world st1 \<and>
    journal_fingerprint sha provider (jc_world st1) = Inr (cr_anchor_fingerprint_after r)"
proof -
  let ?methods = "outcome_methods sha mac inner"
  from first_open_in_order [OF assms(3), of sha mac w] assms(4) have "in_order sha mac [] st0" by simp
  from recovering.history_moves [OF assms(2) this assms(5)] obtain recs where
    "in_order sha mac recs (journal_arm_fault AFTER_PROVIDER_BEFORE_COMMIT st)"
    by (auto simp: journal_moved_def journal_arm_fault_def)
  from recovering.crash_leaves_started [unfolded recovering_class_sel, OF this assms(7)] obtain recs1 rec stA where
    invoke: "recovering_invoke ?methods c paths stA = (Inr (), st1)" and stA: "jc_world stA = jc_world st" and
    order1: "in_order sha mac recs1 st1" and at1: "row_of rec_id (lc_command_id c) recs1 = Some rec" and
    rec: "jx_state rec = J_PROVIDER_STARTED" "command_digest sha (jx_command rec) = command_digest sha c"
      "jx_provider_id rec = lp_provider_id provider"
    by (auto simp: journal_arm_fault_def)
  from invoke obtain pr where run: "execute_lifecycle_command sha mac inner c paths (jc_world st) = (Inr pr, jc_world st1)"
    using stA by (auto simp: recovering_invoke_def outcome_methods_def split: prod.splits sum.splits) (metis map_sum.simps old.sum.exhaust sum.distinct(1))
  note receipt = execute_command_get [OF run] fresh_execution_states_anchor [OF run assms(6)]
  have anchor: "journal_fingerprint sha provider (jc_world st1) = Inr (or_anchor_fingerprint_after pr)"
    unfolding assms(1) using receipt(2) by (intro journal_fingerprint_outcome) simp
  obtain recs2 where order2: "in_order sha mac recs2 st2" and at2: "row_of rec_id (lc_command_id c) recs2 = Some (demoted rec)"
    and world: "jc_world st2 = jc_world st1" using restart_demotes [OF order1 at1 rec(1) assms(8)] by blast
  have "recovering_reconcile sha mac provider ?methods c st2 =
      settle_from_receipt sha mac provider c (demoted rec) (pr\<lparr>or_replayed := False\<rparr>) st2"
    unfolding recovering_reconcile_def
    using rec receipt(1) world
    by (subst reconcile_with_pending [OF order2 at2]) (simp_all add: demoted_def outcome_methods_def get_lifecycle_outcome_receipt_def outcome_require_def)
  moreover obtain st3 where "settle_from_receipt sha mac provider c (demoted rec) (pr\<lparr>or_replayed := False\<rparr>) st2 =
      (Inr (receipt_of sha (demoted rec) (or_anchor_fingerprint_after pr) True), st3)" "jc_world st3 = jc_world st2"
    using settle_succeeds [OF assms(2) order2 at2, of "pr\<lparr>or_replayed := False\<rparr>" provider c] receipt(2) anchor world
    by (auto simp: demoted_def assms(1) outcome_lifecycle_provider_def)
  moreover have "rec_id rec = lc_command_id c" using at1 by (auto dest!: row_of_SomeD)
  ultimately show ?thesis using anchor world by (auto simp: receipt_of_def demoted_def)
qed

theorem crash_after_provider_is_settled_witness:
  "\<exists>(st0 :: nat outcome_provider journal_coordinator) called st st1 st2 r st3.
     first_open lab_sha lab_mac lab_key lab_outcome_provider = Inr st0 \<and>
     journal_history lab_sha lab_mac (outcome_lifecycle_provider counting_provider) plain_saver
       (recovering_class lab_sha lab_mac (outcome_lifecycle_provider counting_provider) (outcome_methods lab_sha lab_mac counting_provider))
       [Issue ''s1'' SNAPSHOT ''db''] st0 = (called, st) \<and>
     journal_execute lab_sha lab_mac (outcome_lifecycle_provider counting_provider)
       (recovering_invoke (outcome_methods lab_sha lab_mac counting_provider)) snapshot_command some_paths
       (journal_arm_fault AFTER_PROVIDER_BEFORE_COMMIT st) = (Inl (JournalCrash ''s1'' AFTER_PROVIDER_BEFORE_COMMIT), st1) \<and>
     journal_restart lab_sha lab_mac st1 = Inr st2 \<and>
     recovering_reconcile lab_sha lab_mac (outcome_lifecycle_provider counting_provider)
       (outcome_methods lab_sha lab_mac counting_provider) snapshot_command st2 = (Inr r, st3) \<and> cr_replayed r"
proof -
  let ?provider = "outcome_lifecycle_provider counting_provider" and ?methods = "outcome_methods lab_sha lab_mac counting_provider"
  let ?st0 = "projr (first_open lab_sha lab_mac lab_key lab_outcome_provider)"
  let ?hist = "journal_history lab_sha lab_mac ?provider plain_saver (recovering_class lab_sha lab_mac ?provider ?methods) [Issue ''s1'' SNAPSHOT ''db''] ?st0"
  let ?run = "journal_execute lab_sha lab_mac ?provider (recovering_invoke ?methods) snapshot_command some_paths
    (journal_arm_fault AFTER_PROVIDER_BEFORE_COMMIT (snd ?hist))"
  have id: "lc_command_id snapshot_command = ''s1''" by (simp add: snapshot_command_def)
  have "fst ?run = Inl (JournalCrash ''s1'' AFTER_PROVIDER_BEFORE_COMMIT) \<and> jc_world (snd ?hist) = lab_outcome_provider"
    by (simp add: journal_eval outcome_eval Let_def)
  moreover have "outcome_get lab_sha lab_mac snapshot_command (op_store lab_outcome_provider) = Inr None" by (simp add: outcome_eval)
  moreover obtain called st where hist: "?hist = (called, st)" by fastforce
  ultimately obtain st1 where run: "journal_execute lab_sha lab_mac ?provider (recovering_invoke ?methods) snapshot_command some_paths
      (journal_arm_fault AFTER_PROVIDER_BEFORE_COMMIT st) = (Inl (JournalCrash (lc_command_id snapshot_command) AFTER_PROVIDER_BEFORE_COMMIT), st1)"
    and fresh: "outcome_get lab_sha lab_mac snapshot_command (op_store (jc_world st)) = Inr None"
    unfolding id by (cases ?run) (auto simp del: journal_history.simps)
  have "\<exists>x. journal_history lab_sha lab_mac ?provider plain_saver (recovering_class lab_sha lab_mac ?provider ?methods)
      [Issue ''s1'' SNAPSHOT ''db'', Arm AFTER_PROVIDER_BEFORE_COMMIT, Execute snapshot_command some_paths] ?st0 = (x, st1)"
    using hist run by (auto simp: journal_call_def Let_def split_beta)
  then obtain st2 where restart: "journal_restart lab_sha lab_mac st1 = Inr st2"
    using recovering.restart_succeeds [OF _ _ lab_open] by fastforce
  from crash_after_provider_is_settled [OF refl _ _ lab_open hist fresh run restart] lab_open [of lab_outcome_provider] hist run restart
  show ?thesis unfolding id by (auto simp del: journal_history.simps)
qed

end
