(* ===== verification/Provider_Commands.thy ===== *)
theory Provider_Commands
  imports Provider_Outcomes
begin

section \<open>The crash-safe provider\<close>

text \<open>
  \<open>aegis/agent/checkpoint_lifecycle_provider_state_machine.py\<close>: a store of authenticated command states inside the
  provider, written before and after the mutation, and a recovery that proves from what it observes whether an
  interrupted mutation took place. What the code reads from files is read through a record of functions of
  the state \<open>'w\<close>: the rows of a checkpoint database, an anchor snapshot, whether a file exists.
\<close>

subsection \<open>SyntheticProviderCommandStateStore\<close>

datatype provider_command_state = PC_PREPARED | PC_MUTATION_STARTED | PC_COMMITTED

definition command_state_value :: "provider_command_state \<Rightarrow> string" where
  "command_state_value s = (case s of
     PC_PREPARED \<Rightarrow> ''prepared'' | PC_MUTATION_STARTED \<Rightarrow> ''mutation_started'' | PC_COMMITTED \<Rightarrow> ''committed'')"

definition command_state_of_value :: "string \<Rightarrow> provider_command_state option" where
  "command_state_of_value s = find (\<lambda>p. command_state_value p = s) [PC_PREPARED, PC_MUTATION_STARTED, PC_COMMITTED]"

record command_record =
  px_command :: lifecycle_command
  px_argument_digest :: string
  px_state :: provider_command_state
  px_pre_observation :: "(string \<times> json) list"
  px_anchor_fingerprint_after :: "string option"
  px_provider_id :: string

record command_row =
  pr_command_id :: string
  pr_operation :: string
  pr_fence_token :: int
  pr_expected_anchor_fingerprint :: string
  pr_resource_id :: string
  pr_command_digest :: string
  pr_argument_digest :: string
  pr_state :: string
  pr_pre_observation_json :: string
  pr_anchor_fingerprint_after :: "string option"
  pr_provider_id :: string
  pr_integrity_tag :: string

record command_store =
  cs_rows :: "command_row list"
  cs_key :: string

definition COMMAND_STATE_POLICY_VERSION :: string where
  "COMMAND_STATE_POLICY_VERSION = ''crash-safe-provider-command-state-v1''"

definition COMMAND_STATE_SCHEMA_VERSION :: string where
  "COMMAND_STATE_SCHEMA_VERSION = ''p4p-provider-command-state-schema-v1''"

definition command_state_payload ::
  "(string \<Rightarrow> string) \<Rightarrow> lifecycle_command \<Rightarrow> string \<Rightarrow> provider_command_state \<Rightarrow> string \<Rightarrow> string option \<Rightarrow> string \<Rightarrow>
   (string \<times> json) list" where
  "command_state_payload sha c argument_digest state pre_json after provider_id =
     [(''policy_version'', JStr COMMAND_STATE_POLICY_VERSION),
      (''schema_version'', JStr COMMAND_STATE_SCHEMA_VERSION),
      (''command_id'', JStr (lc_command_id c)),
      (''operation'', JStr (operation_value (lc_operation c))),
      (''fence_token'', JInt (lc_fence_token c)),
      (''expected_anchor_fingerprint'', JStr (lc_expected_anchor_fingerprint c)),
      (''resource_id'', JStr (lc_resource_id c)),
      (''command_digest'', JStr (command_digest sha c)),
      (''argument_digest'', JStr argument_digest),
      (''state'', JStr (command_state_value state)),
      (''pre_observation_json'', JStr pre_json),
      (''anchor_fingerprint_after'', json_opt after),
      (''provider_id'', JStr provider_id)]"

definition command_state_tag ::
  "(string \<Rightarrow> string) \<Rightarrow> (string \<Rightarrow> string \<Rightarrow> string) \<Rightarrow> string \<Rightarrow> lifecycle_command \<Rightarrow> string \<Rightarrow> provider_command_state \<Rightarrow>
   string \<Rightarrow> string option \<Rightarrow> string \<Rightarrow> string" where
  "command_state_tag sha mac key c argument_digest state pre_json after provider_id =
     mac key (canonical_bytes (JObj (command_state_payload sha c argument_digest state pre_json after provider_id)))"

definition parse_command_row :: "command_row \<Rightarrow> (lifecycle_command \<times> provider_command_state \<times> (string \<times> json) list) option" where
  "parse_command_row row =
     (case operation_of_value (pr_operation row) of
        None \<Rightarrow> None
      | Some operation \<Rightarrow>
          (case new_command (pr_command_id row) operation (pr_fence_token row) (pr_expected_anchor_fingerprint row)
                  (pr_resource_id row) of
             Inl _ \<Rightarrow> None
           | Inr c \<Rightarrow>
               (case (command_state_of_value (pr_state row), json_loads (pr_pre_observation_json row)) of
                  (Some state, Some (JObj obs)) \<Rightarrow> Some (c, state, obs)
                | _ \<Rightarrow> None)))"

definition command_row_to_record ::
  "(string \<Rightarrow> string) \<Rightarrow> (string \<Rightarrow> string \<Rightarrow> string) \<Rightarrow> string \<Rightarrow> command_row \<Rightarrow> lifecycle_error + command_record" where
  "command_row_to_record sha mac key row =
     (case parse_command_row row of
        None \<Rightarrow> Inl (CommandStoreError COMMAND_STORE_INVALID)
      | Some (c, state, obs) \<Rightarrow>
          if pr_command_digest row \<noteq> command_digest sha c
            then Inl (CommandStateError COMMAND_INTEGRITY_FAILED (lc_command_id c))
          else if pr_integrity_tag row \<noteq> command_state_tag sha mac key c (pr_argument_digest row) state
                    (pr_pre_observation_json row) (pr_anchor_fingerprint_after row) (pr_provider_id row)
            then Inl (CommandStateError COMMAND_INTEGRITY_FAILED (lc_command_id c))
          else if state = PC_COMMITTED \<and> pr_anchor_fingerprint_after row \<in> {None, Some []}
            then Inl (CommandStateError COMMAND_STATE_INVALID (lc_command_id c))
          else Inr \<lparr>px_command = c, px_argument_digest = pr_argument_digest row, px_state = state, px_pre_observation = obs,
                    px_anchor_fingerprint_after = pr_anchor_fingerprint_after row, px_provider_id = pr_provider_id row\<rparr>)"

fun verify_command_rows ::
  "(string \<Rightarrow> string) \<Rightarrow> (string \<Rightarrow> string \<Rightarrow> string) \<Rightarrow> string \<Rightarrow> command_row list \<Rightarrow> lifecycle_error + unit" where
  "verify_command_rows sha mac key [] = Inr ()"
| "verify_command_rows sha mac key (row # rows) =
     (case command_row_to_record sha mac key row of Inl e \<Rightarrow> Inl e | Inr _ \<Rightarrow> verify_command_rows sha mac key rows)"

record command_files =
  cf_rows :: "command_row list option"
  cf_key :: "string option"

definition open_command_store ::
  "(string \<Rightarrow> string) \<Rightarrow> (string \<Rightarrow> string \<Rightarrow> string) \<Rightarrow> string \<Rightarrow> (command_files, lifecycle_error, command_store) operation" where
  "open_command_store sha mac token files =
     (case (cf_rows files, cf_key files) of
        (Some rows, Some key) \<Rightarrow>
          if length key \<noteq> 32 then (Inl (CommandStoreError COMMAND_STORE_INVALID), files)
          else (case verify_command_rows sha mac key (sort_key pr_command_id rows) of
                  Inl e \<Rightarrow> (Inl e, files)
                | Inr _ \<Rightarrow> (Inr \<lparr>cs_rows = rows, cs_key = key\<rparr>, files))
      | (None, None) \<Rightarrow>
          (Inr \<lparr>cs_rows = [], cs_key = token\<rparr>, \<lparr>cf_rows = Some [], cf_key = Some token\<rparr>)
      | _ \<Rightarrow> (Inl (CommandStoreError COMMAND_STORE_INVALID), files))"

definition command_state_row ::
  "(string \<Rightarrow> string) \<Rightarrow> (string \<Rightarrow> string \<Rightarrow> string) \<Rightarrow> string \<Rightarrow> command_record \<Rightarrow> command_row" where
  "command_state_row sha mac key rec =
     (let pre_json = observation_json (px_pre_observation rec)
      in \<lparr>pr_command_id = lc_command_id (px_command rec), pr_operation = operation_value (lc_operation (px_command rec)),
          pr_fence_token = lc_fence_token (px_command rec),
          pr_expected_anchor_fingerprint = lc_expected_anchor_fingerprint (px_command rec),
          pr_resource_id = lc_resource_id (px_command rec), pr_command_digest = command_digest sha (px_command rec),
          pr_argument_digest = px_argument_digest rec, pr_state = command_state_value (px_state rec),
          pr_pre_observation_json = pre_json, pr_anchor_fingerprint_after = px_anchor_fingerprint_after rec,
          pr_provider_id = px_provider_id rec,
          pr_integrity_tag = command_state_tag sha mac key (px_command rec) (px_argument_digest rec) (px_state rec) pre_json
            (px_anchor_fingerprint_after rec) (px_provider_id rec)\<rparr>)"

definition command_prepare ::
  "(string \<Rightarrow> string) \<Rightarrow> (string \<Rightarrow> string \<Rightarrow> string) \<Rightarrow> lifecycle_command \<Rightarrow> string \<Rightarrow> (string \<times> json) list \<Rightarrow> string \<Rightarrow>
   (command_store, lifecycle_error, command_record) operation" where
  "command_prepare sha mac c argument_digest obs provider_id = transaction (\<lambda>store.
     case row_of pr_command_id (lc_command_id c) (cs_rows store) of
       Some row \<Rightarrow>
         (case command_row_to_record sha mac (cs_key store) row of
            Inl e \<Rightarrow> (Inl e, store)
          | Inr existing \<Rightarrow>
              if command_digest sha (px_command existing) \<noteq> command_digest sha c
                then (Inl (CommandStateError COMMAND_CONFLICT (lc_command_id c)), store)
              else if px_argument_digest existing \<noteq> argument_digest
                then (Inl (CommandStateError ARGUMENT_CONFLICT (lc_command_id c)), store)
              else if px_provider_id existing \<noteq> provider_id
                then (Inl (CommandStateError COMMAND_CONFLICT (lc_command_id c)), store)
              else (Inr existing, store))
     | None \<Rightarrow>
         (let rec = \<lparr>px_command = c, px_argument_digest = argument_digest, px_state = PC_PREPARED, px_pre_observation = obs,
                     px_anchor_fingerprint_after = None, px_provider_id = provider_id\<rparr>
          in (Inr rec, store\<lparr>cs_rows := cs_rows store @ [command_state_row sha mac (cs_key store) rec]\<rparr>)))"

definition command_require ::
  "(string \<Rightarrow> string) \<Rightarrow> (string \<Rightarrow> string \<Rightarrow> string) \<Rightarrow> lifecycle_command \<Rightarrow> string option \<Rightarrow> command_store \<Rightarrow>
   lifecycle_error + command_record" where
  "command_require sha mac c argument_digest store =
     (case row_of pr_command_id (lc_command_id c) (cs_rows store) of
        None \<Rightarrow> Inl (CommandStateError COMMAND_MISSING (lc_command_id c))
      | Some row \<Rightarrow>
          (case command_row_to_record sha mac (cs_key store) row of
             Inl e \<Rightarrow> Inl e
           | Inr rec \<Rightarrow>
               if command_digest sha (px_command rec) \<noteq> command_digest sha c
                 then Inl (CommandStateError COMMAND_CONFLICT (lc_command_id c))
               else if argument_digest \<noteq> None \<and> argument_digest \<noteq> Some (px_argument_digest rec)
                 then Inl (CommandStateError ARGUMENT_CONFLICT (lc_command_id c))
               else Inr rec))"

definition next_anchor :: "command_record \<Rightarrow> string option \<Rightarrow> string option" where
  "next_anchor rec after = (if after = None then px_anchor_fingerprint_after rec else after)"

definition command_set_state ::
  "(string \<Rightarrow> string) \<Rightarrow> (string \<Rightarrow> string \<Rightarrow> string) \<Rightarrow> command_record \<Rightarrow> provider_command_state \<Rightarrow> string option \<Rightarrow>
   (command_store, lifecycle_error, command_record) operation" where
  "command_set_state sha mac rec state after = transaction (\<lambda>store.
     let command_id = lc_command_id (px_command rec);
         tag = command_state_tag sha mac (cs_key store) (px_command rec) (px_argument_digest rec) state
                 (observation_json (px_pre_observation rec)) (next_anchor rec after) (px_provider_id rec)
     in case row_of pr_command_id command_id (cs_rows store) of
          None \<Rightarrow> (Inl (CommandStateError COMMAND_MISSING command_id), store)
        | Some row \<Rightarrow>
            (case command_row_to_record sha mac (cs_key store) row of
               Inl e \<Rightarrow> (Inl e, store)
             | Inr current \<Rightarrow>
                 if command_digest sha (px_command current) \<noteq> command_digest sha (px_command rec)
                   then (Inl (CommandStateError COMMAND_CONFLICT command_id), store)
                 else (Inr (rec\<lparr>px_state := state, px_anchor_fingerprint_after := next_anchor rec after\<rparr>),
                       store\<lparr>cs_rows := update_where (\<lambda>row. pr_command_id row = command_id)
                         (\<lambda>row. row\<lparr>pr_state := command_state_value state, pr_anchor_fingerprint_after := next_anchor rec after,
                                    pr_integrity_tag := tag\<rparr>) (cs_rows store)\<rparr>)))"

subsection \<open>SyntheticCrashSafeOutcomeReceiptLifecycleProvider: observations\<close>

record 'w lifecycle_files =
  lf_database_path :: string
  lf_database_rows :: "string \<Rightarrow> 'w \<Rightarrow> (json list \<times> json list) option"
  lf_anchor_snapshot :: "string \<Rightarrow> 'w \<Rightarrow> anchor_state option"
  lf_is_file :: "string \<Rightarrow> 'w \<Rightarrow> bool"
  lf_resolve :: "string \<Rightarrow> string"

definition logical_database_fingerprint ::
  "(string \<Rightarrow> string) \<Rightarrow> 'w lifecycle_files \<Rightarrow> string \<Rightarrow> 'w \<Rightarrow> lifecycle_error + string" where
  "logical_database_fingerprint sha files path w = (case lf_database_rows files path w of
     None \<Rightarrow> Inl (CommandStoreError COMMAND_STORE_INVALID)
   | Some (checkpoints, writes) \<Rightarrow>
       Inr (sha (canonical_bytes (JObj [(''checkpoints'', JList checkpoints), (''writes'', JList writes)]))))"

definition ANCHOR_SNAPSHOT_INVALID :: string where
  "ANCHOR_SNAPSHOT_INVALID = ''checkpoint_external_lifecycle_anchor_snapshot_invalid''"

definition anchor_snapshot_fingerprint ::
  "(string \<Rightarrow> string) \<Rightarrow> 'w lifecycle_files \<Rightarrow> string \<Rightarrow> 'w \<Rightarrow> lifecycle_error + string" where
  "anchor_snapshot_fingerprint sha files path w = (case lf_anchor_snapshot files path w of
     None \<Rightarrow> Inl (ProviderRaised ANCHOR_SNAPSHOT_INVALID)
   | Some st \<Rightarrow> Inr (fingerprint_state sha st))"

definition path_token :: "'w lifecycle_files \<Rightarrow> string option \<Rightarrow> json" where
  "path_token files path = json_opt (map_option (lf_resolve files) path)"

definition argument_digest :: "(string \<Rightarrow> string) \<Rightarrow> 'w lifecycle_files \<Rightarrow> lifecycle_command \<Rightarrow> lifecycle_paths \<Rightarrow> string" where
  "argument_digest sha files c paths = sha (canonical_bytes (JObj
     [(''operation'', JStr (operation_value (lc_operation c))),
      (''checkpoint_destination'', path_token files (pa_checkpoint_destination paths)),
      (''anchor_destination'', path_token files (pa_anchor_destination paths)),
      (''backup_database_path'', path_token files (pa_backup_database_path paths)),
      (''backup_anchor_path'', path_token files (pa_backup_anchor_path paths))]))"

text \<open>The observation of the state machine: the one of the journal with the digest of the database added.\<close>

definition provider_migration_observation ::
  "(string \<Rightarrow> string) \<Rightarrow> 'w lifecycle_provider \<Rightarrow> 'w lifecycle_saver \<Rightarrow> 'w lifecycle_files \<Rightarrow> 'w \<Rightarrow>
   lifecycle_error + (string \<times> json) list" where
  "provider_migration_observation sha inner saver files w =
     (let active = sv_active_key_id saver w
      in case envelope_key_ids saver (sv_checkpoint_blobs saver w) of
           Inl e \<Rightarrow> Inl e
         | Inr checkpoint_ids \<Rightarrow>
             (case envelope_key_ids saver (sv_write_blobs saver w) of
                Inl e \<Rightarrow> Inl e
              | Inr write_ids \<Rightarrow>
                  (case outcome_fingerprint sha inner w of
                     Inl e \<Rightarrow> Inl e
                   | Inr fingerprint \<Rightarrow>
                       (case logical_database_fingerprint sha files (lf_database_path files) w of
                          Inl e \<Rightarrow> Inl e
                        | Inr database \<Rightarrow> Inr
                            [(''anchor_fingerprint'', JStr fingerprint),
                             (''active_key_id'', JStr active),
                             (''checkpoint_total'', JInt (int (length checkpoint_ids))),
                             (''checkpoint_active'', JInt (int (length (filter (\<lambda>k. k = active) checkpoint_ids)))),
                             (''write_total'', JInt (int (length write_ids))),
                             (''write_active'', JInt (int (length (filter (\<lambda>k. k = active) write_ids)))),
                             (''database_fingerprint'', JStr database)]))))"

definition pre_observation ::
  "(string \<Rightarrow> string) \<Rightarrow> 'w lifecycle_provider \<Rightarrow> 'w lifecycle_saver \<Rightarrow> 'w lifecycle_files \<Rightarrow> lifecycle_command \<Rightarrow> lifecycle_paths \<Rightarrow> 'w \<Rightarrow>
   lifecycle_error + (string \<times> json) list" where
  "pre_observation sha inner saver files c paths w =
     (if lc_operation c = MIGRATION then provider_migration_observation sha inner saver files w
      else case outcome_fingerprint sha inner w of
             Inl e \<Rightarrow> Inl e
           | Inr fingerprint \<Rightarrow>
               (case logical_database_fingerprint sha files (lf_database_path files) w of
                  Inl e \<Rightarrow> Inl e
                | Inr database \<Rightarrow>
                    (let observation = [(''anchor_fingerprint'', JStr fingerprint), (''database_fingerprint'', JStr database)]
                     in if lc_operation c \<noteq> RESTORE then Inr observation
                        else case (pa_backup_database_path paths, pa_backup_anchor_path paths) of
                               (Some backup_database, Some backup_anchor) \<Rightarrow>
                                 (case logical_database_fingerprint sha files backup_database w of
                                    Inl e \<Rightarrow> Inl e
                                  | Inr backup \<Rightarrow>
                                      (case anchor_snapshot_fingerprint sha files backup_anchor w of
                                         Inl e \<Rightarrow> Inl e
                                       | Inr anchor \<Rightarrow> Inr (observation @
                                           [(''backup_database_fingerprint'', JStr backup),
                                            (''backup_anchor_fingerprint'', JStr anchor)])))
                             | _ \<Rightarrow> Inl (OutcomeError OUTCOME_ARGUMENTS_INVALID (lc_command_id c)))))"

text \<open>
  \<^verbatim>\<open>str(before[k])\<close> of a field that is stored as a string. The \<open>proven\<close> methods catch \<open>KeyError\<close>, \<open>OSError\<close> and the
  errors of the command store, which then count as not proven; any other exception passes.
\<close>

definition str_field_is :: "(string \<times> json) list \<Rightarrow> string \<Rightarrow> string \<Rightarrow> bool" where
  "str_field_is d k s = (map_of d k = Some (JStr s))"

definition snapshot_commit_proven ::
  "(string \<Rightarrow> string) \<Rightarrow> 'w lifecycle_files \<Rightarrow> (string \<times> json) list \<Rightarrow> lifecycle_paths \<Rightarrow> 'w \<Rightarrow> lifecycle_error + bool" where
  "snapshot_commit_proven sha files before paths w =
     (case (pa_checkpoint_destination paths, pa_anchor_destination paths) of
        (Some checkpoint, Some anchor) \<Rightarrow>
          if \<not> lf_is_file files checkpoint w \<or> \<not> lf_is_file files anchor w then Inr False
          else (case logical_database_fingerprint sha files checkpoint w of
                  Inl _ \<Rightarrow> Inr False
                | Inr database \<Rightarrow>
                    if \<not> str_field_is before ''database_fingerprint'' database then Inr False
                    else (case anchor_snapshot_fingerprint sha files anchor w of
                            Inl e \<Rightarrow> Inl e
                          | Inr fingerprint \<Rightarrow> Inr (str_field_is before ''anchor_fingerprint'' fingerprint)))
      | _ \<Rightarrow> Inr False)"

definition restore_commit_proven ::
  "(string \<Rightarrow> string) \<Rightarrow> 'w lifecycle_provider \<Rightarrow> 'w lifecycle_files \<Rightarrow> (string \<times> json) list \<Rightarrow> 'w \<Rightarrow> lifecycle_error + bool" where
  "restore_commit_proven sha inner files before w =
     (case logical_database_fingerprint sha files (lf_database_path files) w of
        Inl _ \<Rightarrow> Inr False
      | Inr database \<Rightarrow>
          if \<not> str_field_is before ''backup_database_fingerprint'' database then Inr False
          else (case outcome_fingerprint sha inner w of
                  Inl e \<Rightarrow> Inl e
                | Inr fingerprint \<Rightarrow> Inr (str_field_is before ''backup_anchor_fingerprint'' fingerprint)))"

definition mutation_proven ::
  "(string \<Rightarrow> string) \<Rightarrow> 'w lifecycle_provider \<Rightarrow> 'w lifecycle_saver \<Rightarrow> 'w lifecycle_files \<Rightarrow> lifecycle_command \<Rightarrow> lifecycle_paths \<Rightarrow>
   (string \<times> json) list \<Rightarrow> 'w \<Rightarrow> lifecycle_error + bool" where
  "mutation_proven sha inner saver files c paths before w = (case lc_operation c of
     MIGRATION \<Rightarrow>
       (case provider_migration_observation sha inner saver files w of
          Inl e \<Rightarrow> Inl e | Inr current \<Rightarrow> Inr (migration_commit_proven before current))
   | SNAPSHOT \<Rightarrow> snapshot_commit_proven sha files before paths w
   | RESTORE \<Rightarrow> restore_commit_proven sha inner files before w)"


subsection \<open>Execution and recovery\<close>

record 'w command_provider =
  cp_inner :: 'w
  cp_commands :: command_store
  cp_outcomes :: outcome_store
  cp_command_invocations :: nat
  cp_replay_hits :: nat
  cp_reconciliations :: nat
  cp_fault_mode :: command_fault

text \<open>What the methods read besides the state: the inner provider, the saver, the files.\<close>

record 'w command_env =
  ce_inner :: "'w lifecycle_provider"
  ce_saver :: "'w lifecycle_saver"
  ce_files :: "'w lifecycle_files"

definition CRASH_SAFE_PROVIDER_ID :: string where
  "CRASH_SAFE_PROVIDER_ID = ''synthetic-crash-safe-provider-outcome-checkpoint-lifecycle''"

definition crash_safe_lifecycle_provider :: "'w lifecycle_provider \<Rightarrow> 'w command_provider lifecycle_provider" where
  "crash_safe_lifecycle_provider inner =
     \<lparr>lp_provider_id = CRASH_SAFE_PROVIDER_ID, lp_capabilities = lp_capabilities inner, lp_callable = (\<lambda>_. False),
      lp_command_aware = True,
      lp_export_anchor = map_option (\<lambda>export w. export (cp_inner w)) (lp_export_anchor inner),
      lp_replace_anchor = map_option (\<lambda>replace a w. case replace a (cp_inner w) of (res, v) \<Rightarrow> (res, w\<lparr>cp_inner := v\<rparr>))
        (lp_replace_anchor inner),
      lp_run = (\<lambda>op paths w. (Inl ''AttributeError'', w))\<rparr>"

definition command_arm_fault :: "command_fault \<Rightarrow> 'w command_provider \<Rightarrow> 'w command_provider" where
  "command_arm_fault mode w = w\<lparr>cp_fault_mode := mode\<rparr>"

definition on_commands :: "(command_store, lifecycle_error, 'a) operation \<Rightarrow> ('w command_provider, lifecycle_error, 'a) operation" where
  "on_commands f w = (case f (cp_commands w) of (res, store) \<Rightarrow> (res, w\<lparr>cp_commands := store\<rparr>))"

definition on_outcomes :: "(outcome_store, lifecycle_error, 'a) operation \<Rightarrow> ('w command_provider, lifecycle_error, 'a) operation" where
  "on_outcomes f w = (case f (cp_outcomes w) of (res, store) \<Rightarrow> (res, w\<lparr>cp_outcomes := store\<rparr>))"

definition invoke_inner ::
  "'w command_env \<Rightarrow> lifecycle_command \<Rightarrow> lifecycle_paths \<Rightarrow> ('w command_provider, lifecycle_error, unit) operation" where
  "invoke_inner env c paths w =
     (case lp_run (ce_inner env) (lc_operation c) paths (cp_inner w) of
        (res, v) \<Rightarrow> (map_sum ProviderRaised id res, w\<lparr>cp_inner := v, cp_command_invocations := cp_command_invocations w + 1\<rparr>))"

text \<open>Both methods end by writing the receipt and marking the command as committed.\<close>

definition commit_command ::
  "(string \<Rightarrow> string) \<Rightarrow> (string \<Rightarrow> string \<Rightarrow> string) \<Rightarrow> 'w command_env \<Rightarrow> lifecycle_command \<Rightarrow> command_record \<Rightarrow>
   ('w command_provider, lifecycle_error, outcome_receipt) operation" where
  "commit_command sha mac env c rec w =
     (case outcome_fingerprint sha (ce_inner env) (cp_inner w) of
        Inl e \<Rightarrow> (Inl e, w)
      | Inr after \<Rightarrow>
          (case on_outcomes (outcome_put sha mac (new_receipt sha CRASH_SAFE_PROVIDER_ID c after)) w of
             (Inl e, w) \<Rightarrow> (Inl e, w)
           | (Inr receipt, w) \<Rightarrow>
               (case on_commands (command_set_state sha mac rec PC_COMMITTED (Some (or_anchor_fingerprint_after receipt))) w of
                  (Inl e, w) \<Rightarrow> (Inl e, w)
                | (Inr _, w) \<Rightarrow> (Inr receipt, w))))"

text \<open>The part of \<open>execute_lifecycle_command\<close> that follows the checks on a prepared command.\<close>

definition mutate_command ::
  "(string \<Rightarrow> string) \<Rightarrow> (string \<Rightarrow> string \<Rightarrow> string) \<Rightarrow> 'w command_env \<Rightarrow> lifecycle_command \<Rightarrow> lifecycle_paths \<Rightarrow> command_fault \<Rightarrow>
   command_record \<Rightarrow> ('w command_provider, lifecycle_error, outcome_receipt) operation" where
  "mutate_command sha mac env c paths fault rec w =
     (if fault = AFTER_PREPARE_BEFORE_MUTATION then (Inl (CommandCrash (lc_command_id c) fault), w)
      else case on_commands (command_set_state sha mac rec PC_MUTATION_STARTED None) w of
             (Inl e, w) \<Rightarrow> (Inl e, w)
           | (Inr rec, w) \<Rightarrow>
               (case invoke_inner env c paths w of
                  (Inl e, w) \<Rightarrow> (Inl e, w)
                | (Inr _, w) \<Rightarrow>
                    if fault = AFTER_MUTATION_BEFORE_RECEIPT then (Inl (CommandCrash (lc_command_id c) fault), w)
                    else case commit_command sha mac env c rec w of
                           (Inl e, w) \<Rightarrow> (Inl e, w)
                         | (Inr receipt, w) \<Rightarrow>
                             if fault = AFTER_RECEIPT_BEFORE_RESPONSE then (Inl (CommandCrash (lc_command_id c) fault), w)
                             else (Inr receipt, w)))"

text \<open>
  The two methods call each other: \<open>execute\<close> calls \<open>recover\<close> on a command whose mutation has started, \<open>recover\<close> calls
  \<open>execute\<close> on one that is only prepared. Each body takes the other method as an argument.
\<close>

type_synonym 'w command_method = "lifecycle_command \<Rightarrow> lifecycle_paths \<Rightarrow> ('w command_provider, lifecycle_error, outcome_receipt) operation"

definition execute_body ::
  "(string \<Rightarrow> string) \<Rightarrow> (string \<Rightarrow> string \<Rightarrow> string) \<Rightarrow> 'w command_env \<Rightarrow> 'w command_method \<Rightarrow> 'w command_method" where
  "execute_body sha mac env recover c paths w =
     (if \<not> operation_arguments_ok (lc_operation c) paths
        then (Inl (OutcomeError OUTCOME_ARGUMENTS_INVALID (lc_command_id c)), w)
      else let digest = argument_digest sha (ce_files env) c paths
      in case outcome_get sha mac c (cp_outcomes w) of
           Inl e \<Rightarrow> (Inl e, w)
         | Inr (Some existing) \<Rightarrow>
             (case command_require sha mac c (Some digest) (cp_commands w) of
                Inl e \<Rightarrow> (Inl e, w)
              | Inr _ \<Rightarrow> (Inr (existing\<lparr>or_replayed := True\<rparr>), w\<lparr>cp_replay_hits := cp_replay_hits w + 1\<rparr>))
         | Inr None \<Rightarrow>
             (case require_lifecycle_capability (crash_safe_lifecycle_provider (ce_inner env)) (lc_operation c) of
                Some e \<Rightarrow> (Inl e, w)
              | None \<Rightarrow>
                  (case pre_observation sha (ce_inner env) (ce_saver env) (ce_files env) c paths (cp_inner w) of
                     Inl e \<Rightarrow> (Inl e, w)
                   | Inr obs \<Rightarrow>
                       (case on_commands (command_prepare sha mac c digest obs CRASH_SAFE_PROVIDER_ID) w of
                          (Inl e, w) \<Rightarrow> (Inl e, w)
                        | (Inr rec, w) \<Rightarrow>
                            if px_state rec = PC_MUTATION_STARTED then recover c paths w
                            else if px_state rec = PC_COMMITTED
                              then (Inl (CommandStateError COMMAND_STATE_INVALID (lc_command_id c)), w)
                            else case outcome_fingerprint sha (ce_inner env) (cp_inner w) of
                                   Inl e \<Rightarrow> (Inl e, w)
                                 | Inr fingerprint \<Rightarrow>
                                     if lc_expected_anchor_fingerprint c \<noteq> fingerprint
                                       then (Inl (OutcomeError ANCHOR_PRECONDITION_MISMATCH (lc_command_id c)), w)
                                     else mutate_command sha mac env c paths (cp_fault_mode w) rec
                                            (w\<lparr>cp_fault_mode := COMMAND_NO_FAULT\<rparr>)))))"

definition recover_started ::
  "(string \<Rightarrow> string) \<Rightarrow> (string \<Rightarrow> string \<Rightarrow> string) \<Rightarrow> 'w command_env \<Rightarrow> lifecycle_command \<Rightarrow> lifecycle_paths \<Rightarrow> command_record \<Rightarrow>
   ('w command_provider, lifecycle_error, outcome_receipt) operation" where
  "recover_started sha mac env c paths rec w =
     (case mutation_proven sha (ce_inner env) (ce_saver env) (ce_files env) c paths (px_pre_observation rec) (cp_inner w) of
        Inl e \<Rightarrow> (Inl e, w)
      | Inr proven \<Rightarrow>
          if \<not> proven then (Inl (CommandStateError COMMAND_RECONCILIATION_UNPROVABLE (lc_command_id c)), w)
          else case outcome_fingerprint sha (ce_inner env) (cp_inner w) of
                 Inl e \<Rightarrow> (Inl e, w)
               | Inr after \<Rightarrow>
                   (case on_outcomes (outcome_put sha mac (new_receipt sha CRASH_SAFE_PROVIDER_ID c after)) w of
                      (Inl e, w) \<Rightarrow> (Inl e, w)
                    | (Inr receipt, w) \<Rightarrow>
                        (case on_commands (command_set_state sha mac rec PC_COMMITTED (Some after)) w of
                           (Inl e, w) \<Rightarrow> (Inl e, w)
                         | (Inr _, w) \<Rightarrow>
                             (Inr (receipt\<lparr>or_replayed := True\<rparr>), w\<lparr>cp_reconciliations := cp_reconciliations w + 1\<rparr>))))"

definition recover_body ::
  "(string \<Rightarrow> string) \<Rightarrow> (string \<Rightarrow> string \<Rightarrow> string) \<Rightarrow> 'w command_env \<Rightarrow> 'w command_method \<Rightarrow> 'w command_method" where
  "recover_body sha mac env execute c paths w =
     (if \<not> operation_arguments_ok (lc_operation c) paths
        then (Inl (OutcomeError OUTCOME_ARGUMENTS_INVALID (lc_command_id c)), w)
      else let digest = argument_digest sha (ce_files env) c paths
      in case command_require sha mac c (Some digest) (cp_commands w) of
           Inl e \<Rightarrow> (Inl e, w)
         | Inr rec \<Rightarrow>
             (case outcome_get sha mac c (cp_outcomes w) of
                Inl e \<Rightarrow> (Inl e, w)
              | Inr (Some existing) \<Rightarrow>
                  (case (if px_state rec \<noteq> PC_COMMITTED
                           then on_commands (command_set_state sha mac rec PC_COMMITTED (Some (or_anchor_fingerprint_after existing))) w
                         else (Inr rec, w)) of
                     (Inl e, w) \<Rightarrow> (Inl e, w)
                   | (Inr _, w) \<Rightarrow> (Inr (existing\<lparr>or_replayed := True\<rparr>), w\<lparr>cp_replay_hits := cp_replay_hits w + 1\<rparr>))
              | Inr None \<Rightarrow>
                  if px_state rec = PC_PREPARED
                    then (case execute c paths w of
                            (Inl e, w) \<Rightarrow> (Inl e, w)
                          | (Inr receipt, w) \<Rightarrow> (Inr (receipt\<lparr>or_replayed := True\<rparr>), w))
                  else if px_state rec \<noteq> PC_MUTATION_STARTED
                    then (Inl (CommandStateError COMMAND_STATE_INVALID (lc_command_id c)), w)
                  else recover_started sha mac env c paths rec w))"

text \<open>
  The methods: \<open>recover\<close> as \<open>execute\<close> calls it can do without calling back, since the command has started. That these
  are the methods of the code, which call each other without end in sight, is proved below.
\<close>

definition no_callback :: "'w command_method" where
  "no_callback c paths w = (Inl (ProviderRaised ''RecursionError''), w)"

definition execute_command :: "(string \<Rightarrow> string) \<Rightarrow> (string \<Rightarrow> string \<Rightarrow> string) \<Rightarrow> 'w command_env \<Rightarrow> 'w command_method" where
  "execute_command sha mac env = execute_body sha mac env (recover_body sha mac env no_callback)"

definition recover_command :: "(string \<Rightarrow> string) \<Rightarrow> (string \<Rightarrow> string \<Rightarrow> string) \<Rightarrow> 'w command_env \<Rightarrow> 'w command_method" where
  "recover_command sha mac env = recover_body sha mac env (execute_command sha mac env)"

subsection \<open>ProviderStateMachineRecoveringLifecycleCoordinator\<close>

definition state_machine_reconcile ::
  "(string \<Rightarrow> string) \<Rightarrow> (string \<Rightarrow> string \<Rightarrow> string) \<Rightarrow> 'w lifecycle_provider \<Rightarrow>
   (lifecycle_command \<Rightarrow> lifecycle_paths \<Rightarrow> ('w, lifecycle_error, outcome_receipt) operation) option \<Rightarrow>
   lifecycle_paths \<Rightarrow> lifecycle_command \<Rightarrow> ('w journal_coordinator, lifecycle_error, command_receipt) operation" where
  "state_machine_reconcile sha mac provider recover_method paths c = reconcile_with sha mac provider c (\<lambda>rec st.
     case recover_method of
       None \<Rightarrow> (Inl (CommandStateError COMMAND_RECONCILIATION_UNPROVABLE (lc_command_id c)), st)
     | Some recover \<Rightarrow>
         (case recover c paths (jc_world st) of
            (Inl e, w) \<Rightarrow> (Inl e, st\<lparr>jc_world := w\<rparr>)
          | (Inr pr, w) \<Rightarrow> settle_from_receipt sha mac provider c rec pr (st\<lparr>jc_world := w\<rparr>)))"

definition state_machine_class ::
  "(string \<Rightarrow> string) \<Rightarrow> (string \<Rightarrow> string \<Rightarrow> string) \<Rightarrow> 'w lifecycle_provider \<Rightarrow> 'w command_methods \<Rightarrow>
   (lifecycle_command \<Rightarrow> lifecycle_paths \<Rightarrow> ('w, lifecycle_error, outcome_receipt) operation) option \<Rightarrow> lifecycle_paths \<Rightarrow>
   'w coordinator_class" where
  "state_machine_class sha mac provider methods recover_method paths =
     \<lparr>cc_invoke = recovering_invoke methods, cc_reconcile = state_machine_reconcile sha mac provider recover_method paths\<rparr>"

subsection \<open>The two methods do not call each other forever\<close>

lemma prepare_existing:
  assumes "command_prepare sha mac c digest obs pid store = (Inr rec, store')" and "px_state rec \<noteq> PC_PREPARED"
  shows "store' = store \<and> command_require sha mac c (Some digest) store' = Inr rec"
proof (cases "row_of pr_command_id (lc_command_id c) (cs_rows store)")
  case None
  with assms show ?thesis by (auto simp: command_prepare_def Let_def)
next
  case (Some row)
  with assms(1) obtain existing where "command_row_to_record sha mac (cs_key store) row = Inr existing"
    by (auto simp: command_prepare_def split: sum.splits)
  with assms(1) Some show ?thesis by (auto simp: command_prepare_def command_require_def split: if_splits)
qed

lemma recover_without_callback:
  assumes "command_require sha mac c (Some (argument_digest sha (ce_files env) c paths)) (cp_commands w) = Inr rec"
    and "px_state rec \<noteq> PC_PREPARED"
  shows "recover_body sha mac env execute c paths w = recover_body sha mac env execute' c paths w"
  using assms by (simp add: recover_body_def)

lemma execute_body_cong:
  assumes "\<And>w rec. command_require sha mac c (Some (argument_digest sha (ce_files env) c paths)) (cp_commands w) = Inr rec \<Longrightarrow>
      px_state rec \<noteq> PC_PREPARED \<Longrightarrow> recover c paths w = recover' c paths w"
  shows "execute_body sha mac env recover c paths w = execute_body sha mac env recover' c paths w"
proof -
  let ?digest = "argument_digest sha (ce_files env) c paths"
  have "recover c paths w' = recover' c paths w'"
    if "on_commands (command_prepare sha mac c ?digest obs CRASH_SAFE_PROVIDER_ID) w = (Inr rec, w')" "px_state rec = PC_MUTATION_STARTED" for obs rec w'
    using that assms prepare_existing [of sha mac c ?digest obs CRASH_SAFE_PROVIDER_ID "cp_commands w" rec]
    by (auto simp: on_commands_def split: prod.splits)
  note same = this
  show ?thesis
  proof (cases "operation_arguments_ok (lc_operation c) paths \<and> outcome_get sha mac c (cp_outcomes w) = Inr None \<and>
      require_lifecycle_capability (crash_safe_lifecycle_provider (ce_inner env)) (lc_operation c) = None")
    case False
    then show ?thesis by (auto simp: execute_body_def Let_def split: sum.split option.split)
  next
    case True
    show ?thesis
    proof (cases "pre_observation sha (ce_inner env) (ce_saver env) (ce_files env) c paths (cp_inner w)")
      case (Inl e)
      with True show ?thesis by (simp add: execute_body_def)
    next
      case (Inr obs)
      obtain res w' where prepare: "on_commands (command_prepare sha mac c ?digest obs CRASH_SAFE_PROVIDER_ID) w = (res, w')" by fastforce
      with True Inr same show ?thesis by (cases res) (simp_all add: execute_body_def)
    qed
  qed
qed

text \<open>
  The mutual recursion of the code, unfolded to a depth: the bodies call each other, and at the given depth the call is answered by
  \<open>other\<close>, which may return, raise and change whatever it likes.
\<close>

fun execute_within :: "(string \<Rightarrow> string) \<Rightarrow> (string \<Rightarrow> string \<Rightarrow> string) \<Rightarrow> 'w command_env \<Rightarrow> 'w command_method \<Rightarrow> nat \<Rightarrow> 'w command_method"
  and recover_within :: "(string \<Rightarrow> string) \<Rightarrow> (string \<Rightarrow> string \<Rightarrow> string) \<Rightarrow> 'w command_env \<Rightarrow> 'w command_method \<Rightarrow> nat \<Rightarrow> 'w command_method" where
  "execute_within sha mac env other 0 = other"
| "execute_within sha mac env other (Suc n) = execute_body sha mac env (recover_within sha mac env other n)"
| "recover_within sha mac env other 0 = other"
| "recover_within sha mac env other (Suc n) = recover_body sha mac env (execute_within sha mac env other n)"

lemma execute_calls_back_once:
  "execute_body sha mac env (recover_body sha mac env execute) = execute_body sha mac env (recover_body sha mac env execute')"
  by (intro ext execute_body_cong) (rule recover_without_callback)

text \<open>\<^bold>\<open>C18\<close>. The mutual recursion of \<open>execute_lifecycle_command\<close> and \<open>recover_lifecycle_command\<close> ends. Unfold the code's
  recursion to any depth from two for \<open>execute\<close> and from three for \<open>recover\<close>: whatever would answer the calls below that depth,
  the result and the state are the same, those of \<open>execute_command\<close> and \<open>recover_command\<close>, so there are no such calls. A
  recovery calls an execution which calls a recovery at most, on any stores. And these functions satisfy the equations of the
  code, in which each method calls the other.\<close>

theorem provider_recursion_ends:
  "execute_within sha mac env other (n + 2) = execute_command sha mac env \<and>
   recover_within sha mac env other (n + 3) = recover_command sha mac env \<and>
   execute_command sha mac env = execute_body sha mac env (recover_command sha mac env) \<and>
   recover_command sha mac env = recover_body sha mac env (execute_command sha mac env)"
proof -
  have execute: "execute_within sha mac env other (n + 2) = execute_command sha mac env"
    unfolding execute_command_def add_2_eq_Suc' execute_within.simps recover_within.simps by (rule execute_calls_back_once)
  have "recover_within sha mac env other (n + 3) = recover_body sha mac env (execute_within sha mac env other (n + 2))"
    unfolding recover_within.simps(2) [symmetric] by (rule arg_cong [where f = "recover_within sha mac env other"]) simp
  then have "recover_within sha mac env other (n + 3) = recover_command sha mac env" unfolding execute recover_command_def .
  moreover have "execute_command sha mac env = execute_body sha mac env (recover_command sha mac env)"
    unfolding execute_command_def recover_command_def by (rule execute_calls_back_once)
  ultimately show ?thesis using execute recover_command_def by blast
qed

subsection \<open>The inner provider runs at most once per command\<close>

text \<open>A command has started when its row says anything but \<open>prepared\<close>.\<close>

definition command_started :: "'w command_provider \<Rightarrow> string \<Rightarrow> bool" where
  "command_started w i \<longleftrightarrow> (\<exists>row. row_of pr_command_id i (cs_rows (cp_commands w)) = Some row \<and>
     pr_state row \<noteq> command_state_value PC_PREPARED)"

text \<open>
  What a call may do to the inner provider: nothing, or one run of the command's operation, counted once, when the command had
  not started; it has then.
\<close>

definition command_effect :: "'w command_env \<Rightarrow> lifecycle_command \<Rightarrow> lifecycle_paths \<Rightarrow> 'w command_provider \<Rightarrow> 'w command_provider \<Rightarrow> bool" where
  "command_effect env c paths w w' \<longleftrightarrow> (\<forall>k. command_started w k \<longrightarrow> command_started w' k) \<and>
     (cp_command_invocations w' = cp_command_invocations w \<and> cp_inner w' = cp_inner w \<or>
      cp_command_invocations w' = cp_command_invocations w + 1 \<and> cp_inner w' = snd (lp_run (ce_inner env) (lc_operation c) paths (cp_inner w)) \<and>
      \<not> command_started w (lc_command_id c) \<and> command_started w' (lc_command_id c))"

definition command_idle :: "'w command_provider \<Rightarrow> 'w command_provider \<Rightarrow> bool" where
  "command_idle w w' \<longleftrightarrow> (\<forall>k. command_started w k \<longrightarrow> command_started w' k) \<and>
     cp_command_invocations w' = cp_command_invocations w \<and> cp_inner w' = cp_inner w"

lemma command_idle_refl [simp]: "command_idle w w"
  by (simp add: command_idle_def)

lemma command_idle_trans: "command_idle u v \<Longrightarrow> command_idle v w \<Longrightarrow> command_idle u w"
  by (simp add: command_idle_def)

lemma command_idle_effect: "command_idle w w' \<Longrightarrow> command_effect env c paths w w'"
  by (simp add: command_idle_def command_effect_def)

lemma command_idle_frame [simp]:
  "command_idle w (w'\<lparr>cp_replay_hits := n\<rparr>) = command_idle w w'"
  "command_idle w (w'\<lparr>cp_reconciliations := n\<rparr>) = command_idle w w'"
  "command_idle w (w'\<lparr>cp_outcomes := store\<rparr>) = command_idle w w'"
  "command_idle w (w'\<lparr>cp_fault_mode := mode\<rparr>) = command_idle w w'"
  by (simp_all add: command_idle_def command_started_def)

lemma command_state_of_value [simp]: "command_state_of_value (command_state_value s) = Some s"
  by (cases s) (simp_all add: command_state_of_value_def command_state_value_def)

lemma command_state_of_valueD: "command_state_of_value t = Some s \<Longrightarrow> t = command_state_value s"
  by (auto simp: command_state_of_value_def split: if_splits)

lemma command_state_value_inject [simp]: "command_state_value s = command_state_value t \<longleftrightarrow> s = t"
  by (metis command_state_of_value option.inject)

lemma command_row_recordD:
  "command_row_to_record sha mac key row = Inr rec \<Longrightarrow>
   lc_command_id (px_command rec) = pr_command_id row \<and> pr_state row = command_state_value (px_state rec)"
  by (auto simp: command_row_to_record_def parse_command_row_def new_command_def
      split: option.splits sum.splits if_splits json.splits dest!: command_state_of_valueD)

lemma set_state_Inr:
  assumes "command_set_state sha mac rec state after store = (Inr rec', store')"
  shows "\<exists>row. row_of pr_command_id (lc_command_id (px_command rec)) (cs_rows store) = Some row \<and>
    rec' = rec\<lparr>px_state := state, px_anchor_fingerprint_after := next_anchor rec after\<rparr> \<and>
    (\<forall>k. row_of pr_command_id k (cs_rows store') = (if k = lc_command_id (px_command rec)
       then Some (row\<lparr>pr_state := command_state_value state, pr_anchor_fingerprint_after := next_anchor rec after,
         pr_integrity_tag := command_state_tag sha mac (cs_key store) (px_command rec) (px_argument_digest rec) state
           (observation_json (px_pre_observation rec)) (next_anchor rec after) (px_provider_id rec)\<rparr>)
       else row_of pr_command_id k (cs_rows store))) \<and> cs_key store' = cs_key store"
proof -
  let ?i = "lc_command_id (px_command rec)"
  let ?upd = "\<lambda>row. row\<lparr>pr_state := command_state_value state, pr_anchor_fingerprint_after := next_anchor rec after,
    pr_integrity_tag := command_state_tag sha mac (cs_key store) (px_command rec) (px_argument_digest rec) state
      (observation_json (px_pre_observation rec)) (next_anchor rec after) (px_provider_id rec)\<rparr>"
  from assms obtain row where row: "row_of pr_command_id ?i (cs_rows store) = Some row"
    by (auto simp: command_set_state_def Let_def split: option.splits)
  with assms have rec': "rec' = rec\<lparr>px_state := state, px_anchor_fingerprint_after := next_anchor rec after\<rparr>"
    and store': "store' = store\<lparr>cs_rows := update_where (\<lambda>row. pr_command_id row = ?i) ?upd (cs_rows store)\<rparr>"
    by (simp_all add: command_set_state_def Let_def split: sum.splits if_splits)
  have "row_of pr_command_id k (cs_rows store') = (if k = ?i then Some (?upd row) else row_of pr_command_id k (cs_rows store))" for k
    unfolding store' using row by (cases "k = ?i") (simp_all add: find_update_where_same find_update_where_other)
  with row rec' store' show ?thesis by simp
qed

lemma set_state_started:
  assumes "on_commands (command_set_state sha mac rec state after) w = (res, w')" and "state \<noteq> PC_PREPARED"
  shows "command_idle w w' \<and> cp_inner w' = cp_inner w \<and> (\<not> isl res \<longrightarrow> command_started w' (lc_command_id (px_command rec)))"
proof -
  from assms(1) obtain store' where run: "command_set_state sha mac rec state after (cp_commands w) = (res, store')"
    and w': "w' = w\<lparr>cp_commands := store'\<rparr>" by (auto simp: on_commands_def split: prod.splits)
  show ?thesis
  proof (cases res)
    case (Inl e)
    with run have "store' = cp_commands w" by (simp add: command_set_state_def)
    with Inl w' show ?thesis by (simp add: command_idle_def command_started_def)
  next
    case (Inr rec')
    from set_state_Inr [OF run [unfolded Inr]] w' assms(2) show ?thesis
      by (auto simp: command_idle_def command_started_def)
  qed
qed

lemma prepare_idle:
  assumes "on_commands (command_prepare sha mac c digest obs pid) w = (res, w')"
  shows "command_idle w w' \<and> cp_inner w' = cp_inner w \<and>
    (\<forall>rec. res = Inr rec \<longrightarrow> lc_command_id (px_command rec) = lc_command_id c \<and>
       (px_state rec = PC_PREPARED \<longrightarrow> \<not> command_started w (lc_command_id c) \<and> \<not> command_started w' (lc_command_id c)))"
proof (cases "row_of pr_command_id (lc_command_id c) (cs_rows (cp_commands w))")
  case None
  with assms show ?thesis
    by (auto simp: on_commands_def command_prepare_def transaction_def Let_def command_idle_def command_started_def find_append
        command_state_row_def)
next
  case (Some row)
  then have "pr_command_id row = lc_command_id c" by (auto dest!: row_of_SomeD)
  with Some assms show ?thesis
    by (cases "command_row_to_record sha mac (cs_key (cp_commands w)) row")
      (auto simp: on_commands_def command_prepare_def transaction_def command_idle_def command_started_def
        split: if_splits dest!: command_row_recordD)
qed

lemma commit_idle:
  assumes "commit_command sha mac env c rec w = (res, w')"
  shows "command_idle w w' \<and> cp_inner w' = cp_inner w"
proof (cases "outcome_fingerprint sha (ce_inner env) (cp_inner w)")
  case (Inl e)
  with assms show ?thesis by (simp add: commit_command_def)
next
  case (Inr after)
  obtain res1 w1 where put: "on_outcomes (outcome_put sha mac (new_receipt sha CRASH_SAFE_PROVIDER_ID c after)) w = (res1, w1)" by fastforce
  then have w1: "command_idle w w1" "cp_inner w1 = cp_inner w" by (auto simp: on_outcomes_def split: prod.splits)
  show ?thesis
  proof (cases res1)
    case (Inl e)
    with assms Inr put w1 show ?thesis by (simp add: commit_command_def)
  next
    case (Inr receipt)
    let ?set = "command_set_state sha mac rec PC_COMMITTED (Some (or_anchor_fingerprint_after receipt))"
    obtain res2 w2 where set: "on_commands ?set w1 = (res2, w2)" by fastforce
    with assms \<open>outcome_fingerprint sha (ce_inner env) (cp_inner w) = Inr after\<close> put Inr have "w' = w2"
      by (cases res2) (simp_all add: commit_command_def)
    with set_state_started [OF set] w1 command_idle_trans [OF w1(1)] show ?thesis by simp
  qed
qed

lemma mutate_effect:
  assumes "mutate_command sha mac env c paths fault rec w = (res, w')" and "\<not> command_started w (lc_command_id c)"
    and "lc_command_id (px_command rec) = lc_command_id c"
  shows "command_effect env c paths w w'"
proof (cases "fault = AFTER_PREPARE_BEFORE_MUTATION")
  case True
  with assms(1) show ?thesis by (simp add: mutate_command_def command_idle_effect)
next
  case False
  obtain res1 w1 where set: "on_commands (command_set_state sha mac rec PC_MUTATION_STARTED None) w = (res1, w1)" by fastforce
  note w1 = set_state_started [OF set]
  show ?thesis
  proof (cases res1)
    case (Inl e)
    with assms(1) False set w1 show ?thesis by (simp add: mutate_command_def command_idle_effect)
  next
    case (Inr rec1)
    then have started: "command_started w1 (lc_command_id c)" using w1 assms(3) by simp
    obtain res2 w2 where invoke: "invoke_inner env c paths w1 = (res2, w2)" by fastforce
    then have w2: "cp_commands w2 = cp_commands w1" "cp_command_invocations w2 = cp_command_invocations w1 + 1"
      "cp_inner w2 = snd (lp_run (ce_inner env) (lc_operation c) paths (cp_inner w1))"
      by (auto simp: invoke_inner_def split: prod.splits)
    have "command_idle w2 w'"
    proof (cases "isl res2 \<or> fault = AFTER_MUTATION_BEFORE_RECEIPT")
      case True
      with assms(1) False set Inr invoke show ?thesis by (auto simp: mutate_command_def split: sum.splits)
    next
      case receipt: False
      obtain res3 w3 where commit: "commit_command sha mac env c rec1 w2 = (res3, w3)" by fastforce
      with assms(1) False set Inr invoke receipt have "w' = w3"
        by (cases res2; cases res3) (auto simp: mutate_command_def split: if_splits)
      with commit_idle [OF commit] show ?thesis by simp
    qed
    with w1 w2 started assms(2) show ?thesis
      by (auto simp: command_effect_def command_idle_def command_started_def)
  qed
qed

lemma recover_started_idle:
  assumes "recover_started sha mac env c paths rec w = (res, w')"
  shows "command_idle w w' \<and> cp_inner w' = cp_inner w"
proof -
  consider "w' = w" | after where "outcome_fingerprint sha (ce_inner env) (cp_inner w) = Inr after"
      "mutation_proven sha (ce_inner env) (ce_saver env) (ce_files env) c paths (px_pre_observation rec) (cp_inner w) = Inr True"
    using assms by (auto simp: recover_started_def split: sum.splits if_splits)
  then show ?thesis
  proof cases
    case (2 after)
    obtain res1 w1 where put: "on_outcomes (outcome_put sha mac (new_receipt sha CRASH_SAFE_PROVIDER_ID c after)) w = (res1, w1)" by fastforce
    then have w1: "command_idle w w1" "cp_inner w1 = cp_inner w" by (auto simp: on_outcomes_def split: prod.splits)
    obtain res2 w2 where set: "on_commands (command_set_state sha mac rec PC_COMMITTED (Some after)) w1 = (res2, w2)" by fastforce
    note w2 = set_state_started [OF set]
    from assms 2 put set have "w' = w1 \<or> w' = w2 \<or> w' = w2\<lparr>cp_reconciliations := cp_reconciliations w2 + 1\<rparr>"
      by (cases res1; cases res2) (auto simp: recover_started_def)
    with w1 w2 command_idle_trans [OF w1(1)] show ?thesis by auto
  qed simp
qed

lemma recover_effect:
  assumes "recover_body sha mac env execute c paths w = (res, w')"
    and "\<And>res w'. execute c paths w = (res, w') \<Longrightarrow> command_effect env c paths w w'"
  shows "command_effect env c paths w w'"
proof -
  consider "w' = w" | rec after res1 w1 where "on_commands (command_set_state sha mac rec PC_COMMITTED after) w = (res1, w1)"
      "w' = w1 \<or> w' = w1\<lparr>cp_replay_hits := cp_replay_hits w1 + 1\<rparr>"
    | "w' = w\<lparr>cp_replay_hits := cp_replay_hits w + 1\<rparr>"
    | res1 where "execute c paths w = (res1, w')" | rec where "recover_started sha mac env c paths rec w = (res, w')"
    using assms(1)
    by (auto simp: recover_body_def Let_def split: if_splits sum.splits option.splits prod.splits)
  then show ?thesis
  proof cases
    case 2
    with set_state_started [OF 2(1)] show ?thesis by (auto intro: command_idle_effect)
  next
    case 5
    with recover_started_idle [OF 5] show ?thesis by (simp add: command_idle_effect)
  qed (use assms(2) in \<open>auto intro: command_idle_effect\<close>)
qed

lemma execute_body_effect:
  assumes "execute_body sha mac env recover c paths w = (res, w')"
    and "\<And>w res w'. recover c paths w = (res, w') \<Longrightarrow> command_effect env c paths w w'"
  shows "command_effect env c paths w w'"
proof (cases "operation_arguments_ok (lc_operation c) paths \<and> outcome_get sha mac c (cp_outcomes w) = Inr None \<and>
    require_lifecycle_capability (crash_safe_lifecycle_provider (ce_inner env)) (lc_operation c) = None")
  case False
  with assms(1) have "w' = w \<or> w' = w\<lparr>cp_replay_hits := cp_replay_hits w + 1\<rparr>"
    by (auto simp: execute_body_def Let_def split: sum.splits option.splits if_splits)
  then show ?thesis by (auto intro: command_idle_effect)
next
  case True
  let ?digest = "argument_digest sha (ce_files env) c paths"
  show ?thesis
  proof (cases "pre_observation sha (ce_inner env) (ce_saver env) (ce_files env) c paths (cp_inner w)")
    case (Inl e)
    with True assms(1) show ?thesis by (simp add: execute_body_def command_idle_effect)
  next
    case (Inr obs)
    obtain res1 w1 where prepare: "on_commands (command_prepare sha mac c ?digest obs CRASH_SAFE_PROVIDER_ID) w = (res1, w1)" by fastforce
    note w1 = prepare_idle [OF prepare]
    note run = assms(1) True Inr prepare
    have effect: "command_effect env c paths w w'" if "command_effect env c paths w1 w'" "command_idle w w1" for w1
      using that by (auto simp: command_effect_def command_idle_def)
    show ?thesis
    proof (cases res1)
      case (Inl e)
      with run w1 show ?thesis by (simp add: execute_body_def command_idle_effect)
    next
      case (Inr rec)
      show ?thesis
      proof (cases "px_state rec = PC_MUTATION_STARTED")
        case True
        with run Inr have "recover c paths w1 = (res, w')" by (simp add: execute_body_def)
        from assms(2) [OF this] w1 show ?thesis by (simp add: effect)
      next
        case not_started: False
        show ?thesis
        proof (cases "px_state rec = PC_COMMITTED \<or> outcome_fingerprint sha (ce_inner env) (cp_inner w1) \<noteq> Inr (lc_expected_anchor_fingerprint c)")
          case True
          with run Inr not_started have "w' = w1" by (auto simp: execute_body_def split: sum.splits if_splits)
          with w1 show ?thesis by (simp add: command_idle_effect)
        next
          case False
          with not_started have "px_state rec = PC_PREPARED" by (cases "px_state rec") simp_all
          with w1 Inr have fresh: "\<not> command_started w (lc_command_id c)" "\<not> command_started w1 (lc_command_id c)" "lc_command_id (px_command rec) = lc_command_id c" by simp_all
          from run Inr not_started False have
            "mutate_command sha mac env c paths (cp_fault_mode w1) rec (w1\<lparr>cp_fault_mode := COMMAND_NO_FAULT\<rparr>) = (res, w')"
            by (simp add: execute_body_def)
          from mutate_effect [OF this] fresh(2,3) have "command_effect env c paths (w1\<lparr>cp_fault_mode := COMMAND_NO_FAULT\<rparr>) w'"
            by (simp add: command_started_def)
          with w1 fresh(1) show ?thesis by (auto simp: command_effect_def command_idle_def command_started_def)
        qed
      qed
    qed
  qed
qed

lemma recover_command_effect: "recover_command sha mac env c paths w = (res, w') \<Longrightarrow> command_effect env c paths w w'"
  and execute_command_effect: "execute_command sha mac env c paths w = (res, w') \<Longrightarrow> command_effect env c paths w w'"
proof -
  have inner: "command_effect env c paths w w'" if "recover_body sha mac env no_callback c paths w = (res, w')" for w res w'
    using recover_effect [OF that] by (simp add: no_callback_def command_idle_effect)
  show execute: "command_effect env c paths w w'" if "execute_command sha mac env c paths w = (res, w')" for w res w'
    using execute_body_effect [OF that [unfolded execute_command_def]] inner by blast
  show "recover_command sha mac env c paths w = (res, w') \<Longrightarrow> command_effect env c paths w w'"
    unfolding recover_command_def using recover_effect execute by blast
qed

text \<open>The calls of the processes that use the provider's stores one after the other.\<close>

datatype 'w provider_call =
    ExecuteCommand lifecycle_command lifecycle_paths
  | RecoverCommand lifecycle_command lifecycle_paths
  | ArmFault command_fault
  | RestartProvider
  | OutsideChange 'w

definition provider_restart ::
  "(string \<Rightarrow> string) \<Rightarrow> (string \<Rightarrow> string \<Rightarrow> string) \<Rightarrow> 'w command_provider \<Rightarrow> lifecycle_error + 'w command_provider" where
  "provider_restart sha mac w =
     (case fst (open_command_store sha mac [] \<lparr>cf_rows = Some (cs_rows (cp_commands w)), cf_key = Some (cs_key (cp_commands w))\<rparr>) of
        Inl e \<Rightarrow> Inl e
      | Inr commands \<Rightarrow>
          (case fst (open_outcome_store sha mac [] \<lparr>of_rows = Some (os_rows (cp_outcomes w)), of_key = Some (os_key (cp_outcomes w))\<rparr>) of
             Inl e \<Rightarrow> Inl e
           | Inr outcomes \<Rightarrow> Inr \<lparr>cp_inner = cp_inner w, cp_commands = commands, cp_outcomes = outcomes, cp_command_invocations = 0,
               cp_replay_hits = 0, cp_reconciliations = 0, cp_fault_mode = COMMAND_NO_FAULT\<rparr>))"

text \<open>
  What happens to the inner provider is logged: the runs of its operations, one entry for each time the invocation counter moved, and the changes
  from outside. \<open>inner_change\<close> is what an entry does to the inner provider's state.
\<close>

datatype 'w inner_event = InnerRun lifecycle_command lifecycle_paths | InnerReplaced 'w

fun inner_change :: "'w command_env \<Rightarrow> 'w inner_event \<Rightarrow> 'w \<Rightarrow> 'w" where
  "inner_change env (InnerRun c paths) v = snd (lp_run (ce_inner env) (lc_operation c) paths v)"
| "inner_change env (InnerReplaced u) v = u"

fun inner_runs :: "'w inner_event list \<Rightarrow> string list" where
  "inner_runs [] = []"
| "inner_runs (InnerRun c paths # events) = lc_command_id c # inner_runs events"
| "inner_runs (InnerReplaced u # events) = inner_runs events"

lemma inner_runs_append [simp]: "inner_runs (es @ fs) = inner_runs es @ inner_runs fs"
  by (induction es rule: inner_runs.induct) simp_all

definition provider_call ::
  "(string \<Rightarrow> string) \<Rightarrow> (string \<Rightarrow> string \<Rightarrow> string) \<Rightarrow> 'w command_env \<Rightarrow> 'w provider_call \<Rightarrow> 'w command_provider \<Rightarrow>
   'w inner_event list \<times> 'w command_provider" where
  "provider_call sha mac env call w =
     (let counted = (\<lambda>c paths w'. (replicate (cp_command_invocations w' - cp_command_invocations w) (InnerRun c paths), w'))
      in case call of
           ExecuteCommand c paths \<Rightarrow> counted c paths (snd (execute_command sha mac env c paths w))
         | RecoverCommand c paths \<Rightarrow> counted c paths (snd (recover_command sha mac env c paths w))
         | ArmFault fault \<Rightarrow> ([], command_arm_fault fault w)
         | RestartProvider \<Rightarrow> ([], case provider_restart sha mac w of Inl _ \<Rightarrow> w | Inr w' \<Rightarrow> w')
         | OutsideChange v \<Rightarrow> ([InnerReplaced v], w\<lparr>cp_inner := v\<rparr>))"

fun provider_history ::
  "(string \<Rightarrow> string) \<Rightarrow> (string \<Rightarrow> string \<Rightarrow> string) \<Rightarrow> 'w command_env \<Rightarrow> 'w provider_call list \<Rightarrow> 'w command_provider \<Rightarrow>
   'w inner_event list \<times> 'w command_provider" where
  "provider_history sha mac env [] w = ([], w)"
| "provider_history sha mac env (call # calls) w =
     (let (events, w) = provider_call sha mac env call w;
          (events', w) = provider_history sha mac env calls w
      in (events @ events', w))"

definition runs_settled :: "'w command_env \<Rightarrow> 'w command_provider \<Rightarrow> 'w command_provider \<Rightarrow> 'w inner_event list \<Rightarrow> bool" where
  "runs_settled env w w' events \<longleftrightarrow> distinct (inner_runs events) \<and> (\<forall>k. command_started w k \<longrightarrow> command_started w' k) \<and>
     (\<forall>i \<in> set (inner_runs events). \<not> command_started w i \<and> command_started w' i) \<and>
     cp_inner w' = fold (inner_change env) events (cp_inner w)"

lemma command_effect_settled:
  "command_effect env c paths w w' \<Longrightarrow>
   runs_settled env w w' (replicate (cp_command_invocations w' - cp_command_invocations w) (InnerRun c paths))"
  by (auto simp: command_effect_def runs_settled_def)

lemma restart_keeps:
  assumes "provider_restart sha mac w = Inr w'"
  shows "cs_rows (cp_commands w') = cs_rows (cp_commands w) \<and> cp_inner w' = cp_inner w"
proof -
  obtain commands outcomes where
    opened: "fst (open_command_store sha mac [] \<lparr>cf_rows = Some (cs_rows (cp_commands w)), cf_key = Some (cs_key (cp_commands w))\<rparr>) = Inr commands"
    and w': "w' = \<lparr>cp_inner = cp_inner w, cp_commands = commands, cp_outcomes = outcomes, cp_command_invocations = 0,
      cp_replay_hits = 0, cp_reconciliations = 0, cp_fault_mode = COMMAND_NO_FAULT\<rparr>"
    using assms by (auto simp: provider_restart_def split: sum.splits)
  from opened have "cs_rows commands = cs_rows (cp_commands w)" by (auto simp: open_command_store_def split: sum.splits if_splits)
  with w' show ?thesis by simp
qed

lemma provider_call_settled:
  assumes "provider_call sha mac env call w = (events, w')"
  shows "runs_settled env w w' events"
proof (cases call)
  case (ExecuteCommand c paths)
  with assms execute_command_effect [of sha mac env c paths w] show ?thesis
    by (cases "execute_command sha mac env c paths w") (auto simp: provider_call_def dest: command_effect_settled)
next
  case (RecoverCommand c paths)
  with assms recover_command_effect [of sha mac env c paths w] show ?thesis
    by (cases "recover_command sha mac env c paths w") (auto simp: provider_call_def dest: command_effect_settled)
next
  case RestartProvider
  show ?thesis
  proof (cases "provider_restart sha mac w")
    case (Inl e)
    with RestartProvider assms show ?thesis by (simp add: provider_call_def runs_settled_def)
  next
    case (Inr v)
    then have "w' = v" "events = []" using RestartProvider assms by (simp_all add: provider_call_def)
    with restart_keeps [OF Inr] show ?thesis by (simp add: runs_settled_def command_started_def)
  qed
qed (use assms in \<open>auto simp: provider_call_def runs_settled_def command_started_def command_arm_fault_def\<close>)

text \<open>\<^bold>\<open>C16\<close>. The inner provider runs at most once per command, whatever sequence of executions, recoveries, injected crashes,
  restarts and outside changes the provider goes through. In the log of the runs, with an entry for every time the invocation counter moved, no
  command occurs twice, and the log is complete: the inner provider's state is what the logged runs and outside changes, each
  applied once and in order, make of the state before.\<close>

theorem inner_provider_runs_at_most_once:
  "distinct (inner_runs (fst (provider_history sha mac env calls w))) \<and>
   cp_inner (snd (provider_history sha mac env calls w)) = fold (inner_change env) (fst (provider_history sha mac env calls w)) (cp_inner w)"
proof -
  have "runs_settled env w (snd (provider_history sha mac env calls w)) (fst (provider_history sha mac env calls w))"
  proof (induction calls arbitrary: w)
    case Nil
    show ?case by (simp add: runs_settled_def)
  next
    case (Cons call calls)
    obtain events w1 where call: "provider_call sha mac env call w = (events, w1)" by fastforce
    from provider_call_settled [OF call] Cons.IH [of w1] call show ?case
      by (auto simp: runs_settled_def split_beta)
  qed
  then show ?thesis by (simp add: runs_settled_def)
qed

subsection \<open>Recovery of an interrupted mutation\<close>

definition command_record_ok :: "command_record \<Rightarrow> bool" where
  "command_record_ok rec \<longleftrightarrow> command_ok (px_command rec) \<and> wf_json (JObj (px_pre_observation rec)) \<and>
     sort_keys (JObj (px_pre_observation rec)) = JObj (px_pre_observation rec) \<and>
     (px_state rec = PC_COMMITTED \<longrightarrow> px_anchor_fingerprint_after rec \<notin> {None, Some []})"

lemma command_state_row_id [simp]: "pr_command_id (command_state_row sha mac key rec) = lc_command_id (px_command rec)"
  by (simp add: command_state_row_def Let_def)

lemma command_row_round_trip [simp]:
  assumes "command_record_ok rec"
  shows "command_row_to_record sha mac key (command_state_row sha mac key rec) = Inr rec"
proof -
  let ?c = "px_command rec"
  have "new_command (lc_command_id ?c) (lc_operation ?c) (lc_fence_token ?c) (lc_expected_anchor_fingerprint ?c) (lc_resource_id ?c) = Inr ?c"
    using assms by (simp add: new_command_Inr command_record_ok_def)
  moreover have "json_loads (observation_json (px_pre_observation rec)) = Some (JObj (px_pre_observation rec))"
    using assms json_loads_dumps [of "JObj (px_pre_observation rec)" True] by (simp add: command_record_ok_def observation_json_def)
  ultimately show ?thesis
    using assms by (auto simp: command_row_to_record_def parse_command_row_def command_state_row_def command_record_ok_def Let_def)
qed

text \<open>\<open>rec'\<close> is \<open>rec\<close> as the store has it, with the keys of the observation sorted.\<close>

definition stored_as :: "command_record \<Rightarrow> command_record \<Rightarrow> bool" where
  "stored_as rec rec' \<longleftrightarrow> command_record_ok rec' \<and> (\<exists>obs. rec = rec'\<lparr>px_pre_observation := obs\<rparr> \<and>
     observation_json obs = observation_json (px_pre_observation rec'))"

lemma stored_as_refl: "command_record_ok rec \<Longrightarrow> stored_as rec rec"
  by (auto simp: stored_as_def intro!: exI [of _ "px_pre_observation rec"])

lemma stored_row: "stored_as rec rec' \<Longrightarrow> command_state_row sha mac key rec = command_state_row sha mac key rec'"
  by (auto simp: stored_as_def command_state_row_def Let_def)

lemma set_state_stored:
  assumes "row_of pr_command_id (lc_command_id (px_command rec)) (cs_rows store) = Some (command_state_row sha mac (cs_key store) rec')"
    and "stored_as rec rec'"
  shows "\<exists>store'. command_set_state sha mac rec state after store =
      (Inr (rec\<lparr>px_state := state, px_anchor_fingerprint_after := next_anchor rec after\<rparr>), store') \<and> cs_key store' = cs_key store \<and>
    row_of pr_command_id (lc_command_id (px_command rec)) (cs_rows store') = Some (command_state_row sha mac (cs_key store)
      (rec'\<lparr>px_state := state, px_anchor_fingerprint_after := next_anchor rec after\<rparr>))"
proof -
  from assms(2) obtain obs where ok: "command_record_ok rec'" and rec: "rec = rec'\<lparr>px_pre_observation := obs\<rparr>"
    "observation_json obs = observation_json (px_pre_observation rec')" by (auto simp: stored_as_def)
  then obtain store' where run: "command_set_state sha mac rec state after store =
      (Inr (rec\<lparr>px_state := state, px_anchor_fingerprint_after := next_anchor rec after\<rparr>), store')"
    using assms(1) by (simp add: command_set_state_def transaction_def Let_def)
  from set_state_Inr [OF run] assms(1) have "cs_key store' = cs_key store"
    "row_of pr_command_id (lc_command_id (px_command rec)) (cs_rows store') = Some (command_state_row sha mac (cs_key store)
      (rec'\<lparr>px_state := state, px_anchor_fingerprint_after := next_anchor rec after\<rparr>))"
    using rec by (auto simp: command_state_row_def Let_def)
  with run show ?thesis by blast
qed

lemma pre_observation_atoms:
  assumes "pre_observation sha inner saver files c paths w = Inr obs"
  shows "distinct (map fst obs)" and "\<And>k v. (k, v) \<in> set obs \<Longrightarrow> sort_keys v = v \<and> wf_json v"
  using assms
  by (auto simp: pre_observation_def provider_migration_observation_def Let_def split: if_splits sum.splits option.splits)

lemma pre_observation_sorted:
  assumes "pre_observation sha inner saver files c paths w = Inr obs"
  shows "wf_json (JObj obs)" and "\<exists>obs'. sort_keys (JObj obs) = JObj obs' \<and> map_of obs' = map_of obs"
proof -
  note atoms = pre_observation_atoms [OF assms]
  show "wf_json (JObj obs)" using atoms by (auto simp: list_all_iff)
  have "map (map_prod id sort_keys) obs = obs" using atoms(2) by (intro map_idI) auto
  then have "sort_keys (JObj obs) = JObj (sort_key fst obs)" by simp
  with map_of_sort_key [OF atoms(1)] show "\<exists>obs'. sort_keys (JObj obs) = JObj obs' \<and> map_of obs' = map_of obs" by blast
qed

lemma mutation_proven_cong:
  assumes "map_of obs' = map_of obs"
  shows "mutation_proven sha inner saver files c paths obs' w = mutation_proven sha inner saver files c paths obs w"
  unfolding mutation_proven_def snapshot_commit_proven_def restore_commit_proven_def migration_commit_proven_def
    migration_counts_def int_field_def str_field_is_def assms by (rule refl)

lemma no_command_crash:
  "outcome_get sha mac c store \<noteq> Inl (CommandCrash i fault)"
  "command_require sha mac c digest commands \<noteq> Inl (CommandCrash i fault)"
  "require_lifecycle_capability provider op \<noteq> Some (CommandCrash i fault)"
  "outcome_fingerprint sha provider w \<noteq> Inl (CommandCrash i fault)"
  by (auto simp: outcome_fingerprint_def outcome_get_def verify_outcome_row_def row_to_receipt_def command_require_def command_row_to_record_def
      require_lifecycle_capability_def split: option.splits sum.splits if_splits)

lemma mutation_crash:
  assumes "mutate_command sha mac env c paths AFTER_MUTATION_BEFORE_RECEIPT rec w = (Inl (CommandCrash i fault), w1)"
    and "on_commands (command_set_state sha mac rec PC_MUTATION_STARTED None) w = (Inr rec', w')"
  shows "cp_commands w1 = cp_commands w' \<and> cp_outcomes w1 = cp_outcomes w'"
  using assms by (auto simp: mutate_command_def invoke_inner_def split: sum.splits prod.splits)

lemma interrupted_execution:
  assumes "execute_command sha mac env c paths (command_arm_fault AFTER_MUTATION_BEFORE_RECEIPT w) =
      (Inl (CommandCrash (lc_command_id c) AFTER_MUTATION_BEFORE_RECEIPT), w1)"
    and "pre_observation sha (ce_inner env) (ce_saver env) (ce_files env) c paths (cp_inner w) = Inr obs"
    and "row_of pr_command_id (lc_command_id c) (cs_rows (cp_commands w)) = None" and "command_ok c"
  shows "\<exists>rec. command_record_ok rec \<and> px_command rec = c \<and> px_state rec = PC_MUTATION_STARTED \<and> map_of (px_pre_observation rec) = map_of obs \<and>
    px_argument_digest rec = argument_digest sha (ce_files env) c paths \<and> px_anchor_fingerprint_after rec = None \<and>
    row_of pr_command_id (lc_command_id c) (cs_rows (cp_commands w1)) = Some (command_state_row sha mac (cs_key (cp_commands w1)) rec) \<and>
    outcome_get sha mac c (cp_outcomes w1) = Inr None \<and> operation_arguments_ok (lc_operation c) paths"
proof -
  let ?w = "command_arm_fault AFTER_MUTATION_BEFORE_RECEIPT w" and ?digest = "argument_digest sha (ce_files env) c paths"
  let ?rec = "\<lparr>px_command = c, px_argument_digest = ?digest, px_state = PC_PREPARED, px_pre_observation = obs,
    px_anchor_fingerprint_after = None, px_provider_id = CRASH_SAFE_PROVIDER_ID\<rparr>"
  let ?key = "cs_key (cp_commands w)"
  let ?store = "(cp_commands w)\<lparr>cs_rows := cs_rows (cp_commands w) @ [command_state_row sha mac ?key ?rec]\<rparr>"
  let ?wp = "w\<lparr>cp_commands := ?store, cp_fault_mode := COMMAND_NO_FAULT\<rparr>"
  obtain obs' where obs': "sort_keys (JObj obs) = JObj obs'" "map_of obs' = map_of obs"
    using pre_observation_sorted(2) [OF assms(2)] by blast
  have "wf_json (JObj obs')" "sort_keys (JObj obs') = JObj obs'"
    using pre_observation_sorted(1) [OF assms(2)] obs'(1) by (metis wf_sort_keys, metis sort_keys_idem)
  moreover have json: "observation_json obs = observation_json obs'"
    unfolding observation_json_def obs'(1) [symmetric] by (rule json_dumps_sort_keys [symmetric])
  ultimately have stored: "stored_as ?rec (?rec\<lparr>px_pre_observation := obs'\<rparr>)"
    using assms(4) by (auto simp: stored_as_def command_record_ok_def intro!: exI [of _ obs])
  have prepare: "on_commands (command_prepare sha mac c ?digest obs CRASH_SAFE_PROVIDER_ID) ?w = (Inr ?rec, ?w\<lparr>cp_commands := ?store\<rparr>)"
    using assms(3) by (simp add: on_commands_def command_prepare_def transaction_def command_arm_fault_def Let_def)
  have row: "row_of pr_command_id (lc_command_id (px_command ?rec)) (cs_rows ?store) =
      Some (command_state_row sha mac (cs_key ?store) (?rec\<lparr>px_pre_observation := obs'\<rparr>))"
    using assms(3) stored_row [OF stored] by (simp add: find_append)
  have enabled: "operation_arguments_ok (lc_operation c) paths" "outcome_get sha mac c (cp_outcomes w) = Inr None"
    "require_lifecycle_capability (crash_safe_lifecycle_provider (ce_inner env)) (lc_operation c) = None"
    using assms(1) unfolding execute_command_def execute_body_def Let_def
    by (auto simp: no_command_crash command_arm_fault_def split: if_splits sum.splits option.splits)
  have "mutate_command sha mac env c paths AFTER_MUTATION_BEFORE_RECEIPT ?rec ?wp =
      (Inl (CommandCrash (lc_command_id c) AFTER_MUTATION_BEFORE_RECEIPT), w1)"
    using assms(1,2) enabled prepare
    by (auto simp: execute_command_def execute_body_def command_arm_fault_def no_command_crash split: sum.splits if_splits)
  moreover obtain store' where set: "command_set_state sha mac ?rec PC_MUTATION_STARTED None ?store =
      (Inr (?rec\<lparr>px_state := PC_MUTATION_STARTED, px_anchor_fingerprint_after := None\<rparr>), store')" "cs_key store' = ?key"
    "row_of pr_command_id (lc_command_id c) (cs_rows store') =
      Some (command_state_row sha mac ?key (?rec\<lparr>px_pre_observation := obs', px_state := PC_MUTATION_STARTED\<rparr>))"
    using set_state_stored [OF row stored, of PC_MUTATION_STARTED None] by (auto simp: next_anchor_def)
  then have "on_commands (command_set_state sha mac ?rec PC_MUTATION_STARTED None) ?wp =
      (Inr (?rec\<lparr>px_state := PC_MUTATION_STARTED, px_anchor_fingerprint_after := None\<rparr>), ?wp\<lparr>cp_commands := store'\<rparr>)"
    by (simp add: on_commands_def)
  ultimately have "cp_commands w1 = store'" "cp_outcomes w1 = cp_outcomes w" using mutation_crash by fastforce+
  with set(2,3) enabled obs'(2) stored show ?thesis
    by (intro exI [of _ "?rec\<lparr>px_pre_observation := obs', px_state := PC_MUTATION_STARTED\<rparr>"]) (auto simp: stored_as_def command_record_ok_def)
qed

text \<open>A fresh provider and files with or without a readable anchor snapshot, for concrete runs.\<close>

definition lab_files :: "bool \<Rightarrow> nat lifecycle_files" where
  "lab_files readable = \<lparr>lf_database_path = ''db'', lf_database_rows = (\<lambda>path w. Some ([], [])),
     lf_anchor_snapshot = (\<lambda>path w. if readable then Some ([], []) else None), lf_is_file = (\<lambda>path w. True), lf_resolve = id\<rparr>"

definition lab_command_env :: "bool \<Rightarrow> nat command_env" where
  "lab_command_env readable = \<lparr>ce_inner = counting_provider, ce_saver = plain_saver, ce_files = lab_files readable\<rparr>"

definition lab_command_provider :: "nat command_provider" where
  "lab_command_provider = \<lparr>cp_inner = 0, cp_commands = \<lparr>cs_rows = [], cs_key = lab_key\<rparr>, cp_outcomes = \<lparr>os_rows = [], os_key = lab_key\<rparr>,
     cp_command_invocations = 0, cp_replay_hits = 0, cp_reconciliations = 0, cp_fault_mode = COMMAND_NO_FAULT\<rparr>"

lemma lab_command_tags [simp]:
  "command_state_tag sha lab_mac key c digest state pre after pid = key" "argument_digest lab_sha files c paths = ''h''"
  by (simp_all add: command_state_tag_def lab_mac_def argument_digest_def lab_sha_def)

lemma lab_command_observation:
  "json_loads (observation_json [(''anchor_fingerprint'', JStr ''h''), (''database_fingerprint'', JStr ''h'')]) =
   Some (JObj [(''anchor_fingerprint'', JStr ''h''), (''database_fingerprint'', JStr ''h'')])"
proof -
  have "sort_keys (JObj [(''anchor_fingerprint'', JStr ''h''), (''database_fingerprint'', JStr ''h'')]) =
    JObj [(''anchor_fingerprint'', JStr ''h''), (''database_fingerprint'', JStr ''h'')]" by code_simp
  then show ?thesis by (simp add: observation_json_def json_loads_dumps del: sort_keys.simps)
qed

lemmas command_eval = lab_command_provider_def lab_command_env_def lab_files_def execute_command_def execute_body_def command_arm_fault_def
  outcome_get_def crash_safe_lifecycle_provider_def require_lifecycle_capability_def counting_provider_def pre_observation_def
  outcome_fingerprint_def logical_database_fingerprint_def lab_sha_def [of m for m] on_commands_def command_prepare_def transaction_def
  command_state_row_def mutate_command_def command_set_state_def command_row_to_record_def parse_command_row_def new_command_def
  is_blank_def is_py_space_def lab_command_observation invoke_inner_def operation_arguments_ok_def snapshot_command_def some_paths_def
  update_where_def next_anchor_def

text \<open>\<^bold>\<open>C15\<close>. Recovery of an interrupted mutation: after a crash between the mutation and its receipt, if the observations prove
  that the mutation took place, \<open>recover_lifecycle_command\<close> returns a receipt that states the present anchor. It
  changes nothing the inner provider owns, does not call it again, and marks the command as committed.\<close>

theorem interrupted_mutation_is_recovered:
  assumes "execute_command sha mac env c paths (command_arm_fault AFTER_MUTATION_BEFORE_RECEIPT w) =
      (Inl (CommandCrash (lc_command_id c) AFTER_MUTATION_BEFORE_RECEIPT), w1)"
    and "row_of pr_command_id (lc_command_id c) (cs_rows (cp_commands w)) = None" and "command_ok c"
    and "pre_observation sha (ce_inner env) (ce_saver env) (ce_files env) c paths (cp_inner w) = Inr obs"
    and "mutation_proven sha (ce_inner env) (ce_saver env) (ce_files env) c paths obs (cp_inner w1) = Inr True"
    and "outcome_fingerprint sha (ce_inner env) (cp_inner w1) = Inr after"
  shows "\<exists>r w2. recover_command sha mac env c paths w1 = (Inr r, w2) \<and> or_replayed r \<and> or_anchor_fingerprint_after r = after \<and>
    cp_inner w2 = cp_inner w1 \<and> cp_command_invocations w2 = cp_command_invocations w1 \<and> command_started w2 (lc_command_id c) \<and>
    outcome_get sha mac c (cp_outcomes w2) = Inr (Some (r\<lparr>or_replayed := False\<rparr>))"
proof -
  obtain rec where rec: "command_record_ok rec" "px_command rec = c" "px_state rec = PC_MUTATION_STARTED"
      "map_of (px_pre_observation rec) = map_of obs" "px_argument_digest rec = argument_digest sha (ce_files env) c paths"
    and row: "row_of pr_command_id (lc_command_id c) (cs_rows (cp_commands w1)) = Some (command_state_row sha mac (cs_key (cp_commands w1)) rec)"
    and none: "outcome_get sha mac c (cp_outcomes w1) = Inr None" and args: "operation_arguments_ok (lc_operation c) paths"
    using interrupted_execution [OF assms(1,4,2,3)] by blast
  let ?new = "new_receipt sha CRASH_SAFE_PROVIDER_ID c after"
  have "row_of ow_command_id (or_command_id ?new) (os_rows (cp_outcomes w1)) = None"
    using none by (auto simp: outcome_get_def new_receipt_def split: option.splits sum.splits if_splits)
  then obtain store where put: "outcome_put sha mac ?new (cp_outcomes w1) = (Inr ?new, store)"
    by (simp add: outcome_put_def transaction_def)
  let ?w = "w1\<lparr>cp_outcomes := store\<rparr>"
  obtain w2 where set: "on_commands (command_set_state sha mac rec PC_COMMITTED (Some after)) ?w =
      (Inr (rec\<lparr>px_state := PC_COMMITTED, px_anchor_fingerprint_after := Some after\<rparr>), w2)"
    and w2: "cp_outcomes w2 = store"
    using set_state_stored [OF row [folded rec(2)] stored_as_refl [OF rec(1)], of PC_COMMITTED "Some after"]
    by (auto simp: on_commands_def next_anchor_def)
  have "command_require sha mac c (Some (argument_digest sha (ce_files env) c paths)) (cp_commands w1) = Inr rec"
    using row rec by (simp add: command_require_def)
  moreover have "mutation_proven sha (ce_inner env) (ce_saver env) (ce_files env) c paths (px_pre_observation rec) (cp_inner w1) = Inr True"
    unfolding mutation_proven_cong [OF rec(4)] by (rule assms(5))
  ultimately have "recover_command sha mac env c paths w1 =
      (Inr (?new\<lparr>or_replayed := True\<rparr>), w2\<lparr>cp_reconciliations := cp_reconciliations w2 + 1\<rparr>)"
    using args none rec(3) assms(6) put set
    by (simp add: recover_command_def recover_body_def recover_started_def on_outcomes_def)
  moreover have "outcome_get sha mac c store = Inr (Some (?new\<lparr>or_replayed := False\<rparr>))"
    using outcome_get_put [OF put, of c] by (simp add: new_receipt_def)
  ultimately show ?thesis
    using set_state_started [OF set] w2 rec(2) by (auto simp: new_receipt_def command_idle_def command_started_def)
qed

theorem interrupted_mutation_is_recovered_witness:
  "\<exists>w1 r w2. execute_command lab_sha lab_mac (lab_command_env True) snapshot_command some_paths
       (command_arm_fault AFTER_MUTATION_BEFORE_RECEIPT lab_command_provider) = (Inl (CommandCrash ''s1'' AFTER_MUTATION_BEFORE_RECEIPT), w1) \<and>
     recover_command lab_sha lab_mac (lab_command_env True) snapshot_command some_paths w1 = (Inr r, w2) \<and> or_replayed r \<and>
     cp_command_invocations w2 = cp_command_invocations w1"
proof -
  let ?run = "execute_command lab_sha lab_mac (lab_command_env True) snapshot_command some_paths
    (command_arm_fault AFTER_MUTATION_BEFORE_RECEIPT lab_command_provider)"
  have id: "lc_command_id snapshot_command = ''s1''" and ok: "command_ok snapshot_command"
    by (simp_all add: snapshot_command_def command_ok_def is_blank_def is_py_space_def)
  have "fst ?run = Inl (CommandCrash ''s1'' AFTER_MUTATION_BEFORE_RECEIPT) \<and> (\<exists>v. cp_inner (snd ?run) = v)"
    by (simp add: command_eval Let_def)
  then obtain w1 where run: "?run = (Inl (CommandCrash (lc_command_id snapshot_command) AFTER_MUTATION_BEFORE_RECEIPT), w1)"
    unfolding id by (cases ?run) auto
  have fresh: "row_of pr_command_id (lc_command_id snapshot_command) (cs_rows (cp_commands lab_command_provider)) = None"
    by (simp add: lab_command_provider_def)
  have obs: "pre_observation lab_sha (ce_inner (lab_command_env True)) (ce_saver (lab_command_env True)) (ce_files (lab_command_env True))
      snapshot_command some_paths (cp_inner lab_command_provider) =
      Inr [(''anchor_fingerprint'', JStr ''h''), (''database_fingerprint'', JStr ''h'')]"
    by (simp add: command_eval Let_def)
  have proven: "mutation_proven lab_sha (ce_inner (lab_command_env True)) (ce_saver (lab_command_env True)) (ce_files (lab_command_env True))
      snapshot_command some_paths [(''anchor_fingerprint'', JStr ''h''), (''database_fingerprint'', JStr ''h'')] v = Inr True" for v
    by (simp add: command_eval mutation_proven_def snapshot_commit_proven_def anchor_snapshot_fingerprint_def str_field_is_def)
  have after: "outcome_fingerprint lab_sha (ce_inner (lab_command_env True)) v = Inr ''h''" for v
    by (simp add: command_eval)
  from interrupted_mutation_is_recovered [OF run fresh ok obs proven after] run show ?thesis unfolding id by blast
qed

text \<open>\<^bold>\<open>C19\<close>. A torn anchor snapshot escapes from recovery: if the snapshot of the database is complete but the anchor file cannot be
  read, as after a crash while it was written, recovery does not answer that the outcome is unprovable; the
  exception of the reader leaves \<open>recover_lifecycle_command\<close>.\<close>

theorem torn_anchor_snapshot_escapes_recovery:
  assumes "command_require sha mac c (Some (argument_digest sha (ce_files env) c paths)) (cp_commands w) = Inr rec"
    and "px_state rec = PC_MUTATION_STARTED" and "lc_operation c = SNAPSHOT" and "outcome_get sha mac c (cp_outcomes w) = Inr None"
    and "pa_checkpoint_destination paths = Some checkpoint" and "pa_anchor_destination paths = Some anchor"
    and "lf_is_file (ce_files env) checkpoint (cp_inner w)" and "lf_is_file (ce_files env) anchor (cp_inner w)"
    and "logical_database_fingerprint sha (ce_files env) checkpoint (cp_inner w) = Inr fingerprint"
    and "map_of (px_pre_observation rec) ''database_fingerprint'' = Some (JStr fingerprint)"
    and "lf_anchor_snapshot (ce_files env) anchor (cp_inner w) = None"
  shows "recover_command sha mac env c paths w = (Inl (ProviderRaised ANCHOR_SNAPSHOT_INVALID), w)"
  using assms
  by (simp add: recover_command_def recover_body_def recover_started_def mutation_proven_def snapshot_commit_proven_def
      anchor_snapshot_fingerprint_def str_field_is_def operation_arguments_ok_def)

theorem torn_anchor_snapshot_escapes_recovery_witness:
  "\<exists>w1. execute_command lab_sha lab_mac (lab_command_env False) snapshot_command some_paths
       (command_arm_fault AFTER_MUTATION_BEFORE_RECEIPT lab_command_provider) = (Inl (CommandCrash ''s1'' AFTER_MUTATION_BEFORE_RECEIPT), w1) \<and>
     recover_command lab_sha lab_mac (lab_command_env False) snapshot_command some_paths w1 = (Inl (ProviderRaised ANCHOR_SNAPSHOT_INVALID), w1)"
proof -
  let ?env = "lab_command_env False"
  let ?run = "execute_command lab_sha lab_mac ?env snapshot_command some_paths
    (command_arm_fault AFTER_MUTATION_BEFORE_RECEIPT lab_command_provider)"
  have id: "lc_command_id snapshot_command = ''s1''" and ok: "command_ok snapshot_command" and snapshot: "lc_operation snapshot_command = SNAPSHOT"
    by (simp_all add: snapshot_command_def command_ok_def is_blank_def is_py_space_def)
  have "fst ?run = Inl (CommandCrash ''s1'' AFTER_MUTATION_BEFORE_RECEIPT)" by (simp add: command_eval Let_def)
  then obtain w1 where run: "?run = (Inl (CommandCrash (lc_command_id snapshot_command) AFTER_MUTATION_BEFORE_RECEIPT), w1)"
    unfolding id by (cases ?run) auto
  have fresh: "row_of pr_command_id (lc_command_id snapshot_command) (cs_rows (cp_commands lab_command_provider)) = None"
    by (simp add: lab_command_provider_def)
  have obs: "pre_observation lab_sha (ce_inner ?env) (ce_saver ?env) (ce_files ?env) snapshot_command some_paths (cp_inner lab_command_provider) =
      Inr [(''anchor_fingerprint'', JStr ''h''), (''database_fingerprint'', JStr ''h'')]"
    by (simp add: command_eval Let_def)
  obtain rec where rec: "command_record_ok rec" "px_command rec = snapshot_command" "px_state rec = PC_MUTATION_STARTED"
      "map_of (px_pre_observation rec) = map_of [(''anchor_fingerprint'', JStr ''h''), (''database_fingerprint'', JStr ''h'')]"
      "px_argument_digest rec = argument_digest lab_sha (ce_files ?env) snapshot_command some_paths"
    and row: "row_of pr_command_id (lc_command_id snapshot_command) (cs_rows (cp_commands w1)) =
      Some (command_state_row lab_sha lab_mac (cs_key (cp_commands w1)) rec)"
    and none: "outcome_get lab_sha lab_mac snapshot_command (cp_outcomes w1) = Inr None"
    using interrupted_execution [OF run obs fresh ok] by blast
  have found: "command_require lab_sha lab_mac snapshot_command (Some (argument_digest lab_sha (ce_files ?env) snapshot_command some_paths)) (cp_commands w1) = Inr rec"
    using row rec by (simp add: command_require_def)
  have "recover_command lab_sha lab_mac ?env snapshot_command some_paths w1 = (Inl (ProviderRaised ANCHOR_SNAPSHOT_INVALID), w1)"
    by (rule torn_anchor_snapshot_escapes_recovery [OF found rec(3) snapshot none, of "''c''" "''a''" "''h''"])
      (simp_all add: rec(4) some_paths_def lab_command_env_def lab_files_def logical_database_fingerprint_def lab_sha_def)
  with run show ?thesis unfolding id by blast
qed

subsection \<open>The coordinator of the state machine\<close>

lemma state_machine_reconcile_moves:
  assumes "\<And>m. sha m \<noteq> []" and "in_order sha mac recs st"
    and "state_machine_reconcile sha mac provider recover_method paths c st = (res, st')"
  shows "\<exists>recs'. journal_moved sha mac recs recs' st' \<and> jc_provider_invocations st' = jc_provider_invocations st"
proof (rule reconcile_with_moves [OF assms(2) assms(3) [unfolded state_machine_reconcile_def]])
  fix recs1 rec1 st1
  assume st1: "in_order sha mac recs1 st1" "row_of rec_id (lc_command_id c) recs1 = Some rec1" "jx_state rec1 = J_RECONCILIATION_REQUIRED"
    and run: "(case recover_method of
        None \<Rightarrow> (Inl (CommandStateError COMMAND_RECONCILIATION_UNPROVABLE (lc_command_id c)), st1)
      | Some recover \<Rightarrow> (case recover c paths (jc_world st1) of
           (Inl e, w) \<Rightarrow> (Inl e, st1\<lparr>jc_world := w\<rparr>)
         | (Inr pr, w) \<Rightarrow> settle_from_receipt sha mac provider c rec1 pr (st1\<lparr>jc_world := w\<rparr>))) = (res, st')"
  consider "st' = st1" | w where "st' = st1\<lparr>jc_world := w\<rparr>"
    | pr w where "settle_from_receipt sha mac provider c rec1 pr (st1\<lparr>jc_world := w\<rparr>) = (res, st')"
    using run by (auto split: option.splits prod.splits sum.splits)
  then show "\<exists>recs'. journal_moved sha mac recs1 recs' st' \<and> jc_provider_invocations st' = jc_provider_invocations st1"
  proof cases
    case (3 pr w)
    have "in_order sha mac recs1 (st1\<lparr>jc_world := w\<rparr>)" using st1(1) by simp
    from settle_moves [OF assms(1) this st1(2) _ 3] st1(3) show ?thesis by simp
  qed (use st1(1) in \<open>auto simp: journal_moved_def\<close>)
qed

lemma state_machine_class_sel [simp]:
  "cc_invoke (state_machine_class sha mac provider methods recover_method paths) = recovering_invoke methods"
  "cc_reconcile (state_machine_class sha mac provider methods recover_method paths) =
     state_machine_reconcile sha mac provider recover_method paths"
  by (simp_all add: state_machine_class_def)

interpretation state_machine: coordinator_methods sha mac provider saver
    "state_machine_class sha mac provider methods recover_method paths"
  for sha mac provider saver methods recover_method paths
proof
  show "cc_invoke (state_machine_class sha mac provider methods recover_method paths) c p st = (r, st') \<Longrightarrow>
      jc_db st' = jc_db st \<and> jc_key st' = jc_key st \<and>
      (jc_provider_invocations st' = jc_provider_invocations st + 1 \<or> jc_provider_invocations st' = jc_provider_invocations st)" for c p st r st'
    unfolding state_machine_class_sel by (rule recovering_invoke_keeps)
  show "(\<And>m. sha m \<noteq> []) \<Longrightarrow> in_order sha mac recs st \<Longrightarrow>
      cc_reconcile (state_machine_class sha mac provider methods recover_method paths) c st = (res, st') \<Longrightarrow>
      \<exists>recs'. journal_moved sha mac recs recs' st' \<and> jc_provider_invocations st' = jc_provider_invocations st" for recs st c res st'
    unfolding state_machine_class_sel by (rule state_machine_reconcile_moves)
qed

end
