(* ===== verification/Control_Plane_Recovery.thy ===== *)
theory Control_Plane_Recovery imports Rollback_Anchor begin

section \<open>Effects: recovery of the control plane\<close>

text \<open>
  \<open>aegis/effects/control_plane_recovery.py\<close>. A change of the control plane concerns two databases that no
  transaction spans: the execution database, where subjects, policies, versions and keys live, and the
  generation database. A change is journaled next to the generation (prepared), applied to the execution
  database together with a marker, marked (applied) and made current (active). A crash may fall between any two
  of these transactions, each of which is one step here. The state is the pair of the databases.
\<close>

subsection \<open>ControlPlaneMutation\<close>

datatype mutation_kind = SUBJECT_ACTIVE | PASSWORD_RESET_ENABLED | SIGNING_KEY_ROTATION

datatype change_status = CHANGE_PREPARED | CHANGE_APPLIED | CHANGE_ACTIVE

definition mutation_kind_value :: "mutation_kind \<Rightarrow> string" where
  "mutation_kind_value k = (case k of
     SUBJECT_ACTIVE \<Rightarrow> ''subject_active'' | PASSWORD_RESET_ENABLED \<Rightarrow> ''password_reset_enabled''
   | SIGNING_KEY_ROTATION \<Rightarrow> ''signing_key_rotation'')"

record control_plane_mutation =
  mu_kind :: mutation_kind
  mu_tenant_id :: "string option"
  mu_user_id :: "string option"
  mu_active :: "bool option"
  mu_password_reset_enabled :: "bool option"
  mu_issuer_id :: "string option"
  mu_audience :: "string option"
  mu_key_id :: "string option"
  mu_key_epoch :: "int option"
  mu_public_key_hex :: "string option"

definition text_field_ok :: "nat \<Rightarrow> string option \<Rightarrow> bool" where
  "text_field_ok n f = (case f of None \<Rightarrow> True | Some s \<Rightarrow> 1 \<le> length s \<and> length s \<le> n)"

text \<open>
  The field constraints and the validator: an object of the class exists only if this holds. White space,
  which \<open>bytes.fromhex\<close> skips, cannot make 64 characters stand for 32 bytes.
\<close>

definition mutation_valid :: "control_plane_mutation \<Rightarrow> bool" where
  "mutation_valid m \<longleftrightarrow>
     text_field_ok 256 (mu_tenant_id m) \<and> text_field_ok 256 (mu_user_id m) \<and>
     text_field_ok 128 (mu_issuer_id m) \<and> text_field_ok 128 (mu_audience m) \<and> text_field_ok 128 (mu_key_id m) \<and>
     (case mu_key_epoch m of None \<Rightarrow> True | Some e \<Rightarrow> 1 \<le> e) \<and>
     (case mu_public_key_hex m of None \<Rightarrow> True | Some s \<Rightarrow> length s = 64) \<and>
     (case mu_kind m of
        SUBJECT_ACTIVE \<Rightarrow>
          mu_tenant_id m \<noteq> None \<and> mu_user_id m \<noteq> None \<and> mu_active m \<noteq> None \<and>
          mu_password_reset_enabled m = None \<and> mu_issuer_id m = None \<and> mu_audience m = None \<and>
          mu_key_id m = None \<and> mu_key_epoch m = None \<and> mu_public_key_hex m = None
      | PASSWORD_RESET_ENABLED \<Rightarrow>
          mu_tenant_id m \<noteq> None \<and> mu_password_reset_enabled m \<noteq> None \<and>
          mu_user_id m = None \<and> mu_active m = None \<and> mu_issuer_id m = None \<and> mu_audience m = None \<and>
          mu_key_id m = None \<and> mu_key_epoch m = None \<and> mu_public_key_hex m = None
      | SIGNING_KEY_ROTATION \<Rightarrow>
          mu_issuer_id m \<noteq> None \<and> mu_audience m \<noteq> None \<and> mu_key_id m \<noteq> None \<and> mu_key_epoch m \<noteq> None \<and>
          mu_tenant_id m = None \<and> mu_user_id m = None \<and> mu_active m = None \<and> mu_password_reset_enabled m = None \<and>
          (case mu_public_key_hex m of
             None \<Rightarrow> False
           | Some s \<Rightarrow> (case bytes_fromhex s of None \<Rightarrow> False | Some key \<Rightarrow> length key = 32)))"

definition opt_json :: "('a \<Rightarrow> json) \<Rightarrow> 'a option \<Rightarrow> json" where
  "opt_json f v = (case v of None \<Rightarrow> JNull | Some a \<Rightarrow> f a)"

definition mutation_fields :: "control_plane_mutation \<Rightarrow> (string \<times> json) list" where
  "mutation_fields m =
     [(''schema_version'', JStr ''aegis.control-plane-change.v1''),
      (''kind'', JStr (mutation_kind_value (mu_kind m))),
      (''tenant_id'', opt_json JStr (mu_tenant_id m)),
      (''user_id'', opt_json JStr (mu_user_id m)),
      (''active'', opt_json JBool (mu_active m)),
      (''password_reset_enabled'', opt_json JBool (mu_password_reset_enabled m)),
      (''issuer_id'', opt_json JStr (mu_issuer_id m)),
      (''audience'', opt_json JStr (mu_audience m)),
      (''key_id'', opt_json JStr (mu_key_id m)),
      (''key_epoch'', opt_json JInt (mu_key_epoch m)),
      (''public_key_hex'', opt_json JStr (mu_public_key_hex m))]"

text \<open>The canonical bytes and, decoded, the text stored in the journal.\<close>

definition mutation_text :: "control_plane_mutation \<Rightarrow> string" where
  "mutation_text m = json_dumps False (JObj (mutation_fields m))"

definition canonical_control_plane_mutation :: "control_plane_mutation \<Rightarrow> string" where
  "canonical_control_plane_mutation m = utf8 (mutation_text m)"

definition control_plane_mutation_hash :: "(string \<Rightarrow> string) \<Rightarrow> control_plane_mutation \<Rightarrow> string" where
  "control_plane_mutation_hash sha m = sha (canonical_control_plane_mutation m)"

text \<open>
  \<open>model_validate_json\<close> on stored text: fields of other JSON types, which pydantic might coerce, are rejected
  here; the journal never holds any, since \<open>prepare\<close> alone writes it.
\<close>

definition field_of :: "(json \<Rightarrow> 'a option) \<Rightarrow> (string \<times> json) list \<Rightarrow> string \<Rightarrow> 'a option option" where
  "field_of read kvs k = (case map_of kvs k of
     None \<Rightarrow> Some None | Some JNull \<Rightarrow> Some None | Some j \<Rightarrow> map_option Some (read j))"

fun read_text :: "json \<Rightarrow> string option" where
  "read_text (JStr s) = Some s" | "read_text _ = None"

fun read_bool :: "json \<Rightarrow> bool option" where
  "read_bool (JBool b) = Some b" | "read_bool _ = None"

fun read_number :: "json \<Rightarrow> int option" where
  "read_number (JInt i) = Some i" | "read_number _ = None"

definition kind_of_json :: "json option \<Rightarrow> mutation_kind option" where
  "kind_of_json j = (case j of
     Some (JStr s) \<Rightarrow> find (\<lambda>k. mutation_kind_value k = s) [SUBJECT_ACTIVE, PASSWORD_RESET_ENABLED, SIGNING_KEY_ROTATION]
   | _ \<Rightarrow> None)"

definition mutation_keys :: "string list" where
  "mutation_keys = [''schema_version'', ''kind'', ''tenant_id'', ''user_id'', ''active'', ''password_reset_enabled'',
     ''issuer_id'', ''audience'', ''key_id'', ''key_epoch'', ''public_key_hex'']"

definition mutation_of_fields :: "(string \<times> json) list \<Rightarrow> control_plane_mutation option" where
  "mutation_of_fields kvs =
     (if \<not> set (map fst kvs) \<subseteq> set mutation_keys \<or>
         map_of kvs ''schema_version'' \<notin> {None, Some (JStr ''aegis.control-plane-change.v1'')} then None
      else
        case (kind_of_json (map_of kvs ''kind''), field_of read_text kvs ''tenant_id'', field_of read_text kvs ''user_id'',
              field_of read_bool kvs ''active'', field_of read_bool kvs ''password_reset_enabled'') of
          (Some kind, Some tenant, Some user, Some active, Some enabled) \<Rightarrow>
            (case (field_of read_text kvs ''issuer_id'', field_of read_text kvs ''audience'',
                   field_of read_text kvs ''key_id'', field_of read_number kvs ''key_epoch'',
                   field_of read_text kvs ''public_key_hex'') of
               (Some issuer, Some audience, Some key, Some epoch, Some hex) \<Rightarrow>
                 (let m = \<lparr>mu_kind = kind, mu_tenant_id = tenant, mu_user_id = user, mu_active = active,
                    mu_password_reset_enabled = enabled, mu_issuer_id = issuer, mu_audience = audience,
                    mu_key_id = key, mu_key_epoch = epoch, mu_public_key_hex = hex\<rparr>
                  in if mutation_valid m then Some m else None)
             | _ \<Rightarrow> None)
        | _ \<Rightarrow> None)"

definition mutation_of_json :: "string \<Rightarrow> control_plane_mutation option" where
  "mutation_of_json s = (case json_loads s of Some (JObj kvs) \<Rightarrow> mutation_of_fields kvs | _ \<Rightarrow> None)"

subsection \<open>The two databases\<close>

record change_row =
  ch_authority_id :: string
  ch_change_id :: string
  ch_from_generation :: int
  ch_target_generation :: int
  ch_mutation_sha256 :: string
  ch_mutation_json :: string
  ch_status :: change_status

record change_db = anchor_db +
  d_control_plane_changes :: "change_row list"

record execution_state =
  es_authority_id :: string
  es_applied_generation :: int
  es_last_change_id :: "string option"
  es_last_mutation_sha256 :: "string option"

record execution_db = signed_db +
  d_execution_states :: "execution_state list"

type_synonym control_plane = "execution_db \<times> change_db"

record control_plane_change =
  cg_authority_id :: string
  cg_change_id :: string
  cg_from_generation :: int
  cg_target_generation :: int
  cg_mutation_sha256 :: string
  cg_mutation :: control_plane_mutation
  cg_status :: change_status

definition change_key :: "change_row \<Rightarrow> string \<times> string" where
  "change_key r = (ch_authority_id r, ch_change_id r)"

definition row_to_change :: "change_row \<Rightarrow> aegis_error + control_plane_change" where
  "row_to_change r = (case mutation_of_json (ch_mutation_json r) of
     None \<Rightarrow> Inl ValidationError
   | Some m \<Rightarrow>
       if ch_from_generation r < 1 \<or> ch_target_generation r < 2 \<or> length (ch_mutation_sha256 r) \<noteq> 64 then Inl ValidationError
       else Inr \<lparr>cg_authority_id = ch_authority_id r, cg_change_id = ch_change_id r,
                 cg_from_generation = ch_from_generation r, cg_target_generation = ch_target_generation r,
                 cg_mutation_sha256 = ch_mutation_sha256 r, cg_mutation = m, cg_status = ch_status r\<rparr>)"

definition execution_row_to_state :: "execution_state \<Rightarrow> aegis_error + execution_state" where
  "execution_row_to_state r =
     (if es_applied_generation r < 1 \<or> \<not> (case es_last_mutation_sha256 r of None \<Rightarrow> True | Some s \<Rightarrow> length s = 64)
        then Inl ValidationError else Inr r)"

abbreviation execution_row :: "execution_db \<Rightarrow> string \<Rightarrow> execution_state option" where
  "execution_row db a \<equiv> row_of es_authority_id a (d_execution_states db)"

text \<open>\<open>_execution_state_locked\<close> and \<open>execution_state\<close>.\<close>

definition execution_state_locked :: "string \<Rightarrow> execution_db \<Rightarrow> aegis_error + execution_state option" where
  "execution_state_locked a db = (case execution_row db a of
     None \<Rightarrow> Inr None
   | Some r \<Rightarrow> (case execution_row_to_state r of Inl e \<Rightarrow> Inl e | Inr st \<Rightarrow> Inr (Some st)))"

definition execution_state_of :: "string \<Rightarrow> execution_db \<Rightarrow> aegis_error + execution_state" where
  "execution_state_of a db = (case execution_state_locked a db of
     Inl e \<Rightarrow> Inl e
   | Inr None \<Rightarrow> Inl (ControlPlaneConvergenceError EXECUTION_STATE_NOT_INITIALIZED)
   | Inr (Some st) \<Rightarrow> Inr st)"

definition coordinator_initialize :: "string \<Rightarrow> int \<Rightarrow> (control_plane, aegis_error, execution_state) operation" where
  "coordinator_initialize a generation s = (case s of (db, anchors) \<Rightarrow>
     (case generation_initialize a generation anchors of
        (Inl e, anchors) \<Rightarrow> (Inl e, (db, anchors))
      | (Inr anchor_generation, anchors) \<Rightarrow>
          if anchor_generation \<noteq> generation
            then (Inl (ValueError ''control-plane initialization generation mismatch''), (db, anchors))
          else
            (case transaction (\<lambda>db. case execution_state_locked a db of
                 Inl e \<Rightarrow> (Inl e, db)
               | Inr current \<Rightarrow>
                   if (case current of None \<Rightarrow> False | Some st \<Rightarrow> es_applied_generation st \<noteq> generation)
                     then (Inl (ValueError ''execution control-plane state already initialized''), db)
                   else (Inr (), db\<lparr>d_execution_states := insert_or_ignore es_authority_id
                     \<lparr>es_authority_id = a, es_applied_generation = generation, es_last_change_id = None,
                      es_last_mutation_sha256 = None\<rparr> (d_execution_states db)\<rparr>)) db of
               (Inl e, db) \<Rightarrow> (Inl e, (db, anchors))
             | (Inr _, db) \<Rightarrow> (execution_state_of a db, (db, anchors)))))"

definition get_change :: "string \<Rightarrow> string \<Rightarrow> change_db \<Rightarrow> aegis_error + control_plane_change" where
  "get_change a c db = (case row_of change_key (a, c) (d_control_plane_changes db) of
     None \<Rightarrow> Inl (KeyError ''control-plane change not found'')
   | Some r \<Rightarrow> row_to_change r)"

definition pending_rows :: "string \<Rightarrow> change_db \<Rightarrow> change_row list" where
  "pending_rows a db = filter (\<lambda>r. ch_authority_id r = a \<and> ch_status r \<noteq> CHANGE_ACTIVE) (d_control_plane_changes db)"

definition pending_change :: "string \<Rightarrow> change_db \<Rightarrow> aegis_error + control_plane_change option" where
  "pending_change a db = (case sort_key ch_target_generation (pending_rows a db) of
     [] \<Rightarrow> Inr None
   | r # _ \<Rightarrow> (case row_to_change r of Inl e \<Rightarrow> Inl e | Inr c \<Rightarrow> Inr (Some c)))"

subsection \<open>The steps of a change\<close>

text \<open>The insertion fails on the \<open>UNIQUE\<close> and \<open>CHECK\<close> constraints; a second pending row was excluded before.\<close>

definition insert_change :: "change_row \<Rightarrow> (change_db, aegis_error, unit) operation" where
  "insert_change r db =
     (if ch_from_generation r < 1 \<or> ch_target_generation r < 2 \<or>
         (\<exists>q \<in> set (d_control_plane_changes db). ch_authority_id q = ch_authority_id r \<and>
            ch_target_generation q = ch_target_generation r)
        then (Inl IntegrityError, db)
      else (Inr (), db\<lparr>d_control_plane_changes := d_control_plane_changes db @ [r]\<rparr>))"

definition prepare_change ::
  "(string \<Rightarrow> string) \<Rightarrow> string \<Rightarrow> string \<Rightarrow> control_plane_mutation \<Rightarrow> (change_db, aegis_error, control_plane_change) operation" where
  "prepare_change sha a c m db =
     (case transaction (\<lambda>db.
        case row_of change_key (a, c) (d_control_plane_changes db) of
          Some existing \<Rightarrow>
            (case row_to_change existing of
               Inl e \<Rightarrow> (Inl e, db)
             | Inr change \<Rightarrow>
                 if cg_mutation_sha256 change \<noteq> control_plane_mutation_hash sha m
                   then (Inl (ControlPlaneConvergenceError CHANGE_CONFLICT), db)
                 else (Inr (Some change), db))
        | None \<Rightarrow>
            if pending_rows a db \<noteq> [] then (Inl (ControlPlaneConvergenceError CHANGE_PENDING), db)
            else (case generation_of db a of
                    None \<Rightarrow> (Inl (ControlPlaneConvergenceError EXECUTION_STATE_NOT_INITIALIZED), db)
                  | Some current \<Rightarrow>
                      (case insert_change
                         \<lparr>ch_authority_id = a, ch_change_id = c, ch_from_generation = current,
                          ch_target_generation = current + 1, ch_mutation_sha256 = control_plane_mutation_hash sha m,
                          ch_mutation_json = mutation_text m, ch_status = CHANGE_PREPARED\<rparr> db of
                         (Inl e, db) \<Rightarrow> (Inl e, db)
                       | (Inr _, db) \<Rightarrow> (Inr None, db)))) db of
        (Inl e, db) \<Rightarrow> (Inl e, db)
      | (Inr (Some change), db) \<Rightarrow> (Inr change, db)
      | (Inr None, db) \<Rightarrow> (get_change a c db, db))"

text \<open>
  \<open>_apply_mutation_locked\<close>: a missing field of the first two kinds is SQL's \<open>NULL\<close>, which equals nothing; of the
  last it is a failed assertion.
\<close>

definition apply_subject_active :: "control_plane_mutation \<Rightarrow> (execution_db, aegis_error, unit) operation" where
  "apply_subject_active m db =
     (case Option.bind (mu_user_id m) (subject_of db) of
        None \<Rightarrow> (Inl (KeyError ''synthetic subject mutation target not found''), db)
      | Some row \<Rightarrow>
          if Some (sb_tenant_id row) \<noteq> mu_tenant_id m
            then (Inl (KeyError ''synthetic subject mutation target not found''), db)
          else if version_of db (sb_tenant_id row) = None
            then (Inl (KeyError ''synthetic authorization version not found''), db)
          else (Inr (), bump_revocation_epoch (sb_tenant_id row)
                  (db\<lparr>d_subjects := update_where (\<lambda>r. sb_user_id r = sb_user_id row)
                        (\<lambda>r. r\<lparr>sb_active := (mu_active m = Some True)\<rparr>) (d_subjects db)\<rparr>)))"

definition apply_password_reset :: "control_plane_mutation \<Rightarrow> (execution_db, aegis_error, unit) operation" where
  "apply_password_reset m db =
     (case mu_tenant_id m of
        None \<Rightarrow> (Inl (KeyError ''synthetic authorization version not found''), db)
      | Some t \<Rightarrow>
          if version_of db t = None then (Inl (KeyError ''synthetic authorization version not found''), db)
          else (Inr (), bump_policy_version t (set_password_reset_enabled t (mu_password_reset_enabled m = Some True) db)))"

definition apply_key_rotation :: "control_plane_mutation \<Rightarrow> (execution_db, aegis_error, unit) operation" where
  "apply_key_rotation m db =
     (case (mu_issuer_id m, mu_audience m, mu_key_id m, mu_key_epoch m, mu_public_key_hex m) of
        (Some issuer, Some audience, Some key_id, Some epoch, Some public_key_hex) \<Rightarrow>
          (case current_epoch_locked db (issuer, audience) of
             None \<Rightarrow> (Inl (KeyError ''authorization issuer trust not initialized''), db)
           | Some current \<Rightarrow>
               if epoch \<le> current then (Inl (ValueError ''authorization signing key epochs are monotonic''), db)
               else (Inr (), db\<lparr>d_trusted_keys := upsert trusted_key_id
                         \<lparr>tk_issuer_id = issuer, tk_audience = audience, tk_key_id = key_id, tk_key_epoch = epoch,
                          tk_public_key_hex = public_key_hex\<rparr> (d_trusted_keys db),
                       d_key_epochs := update_where (\<lambda>r. key_epoch_id r = (issuer, audience))
                         (\<lambda>r. r\<lparr>ke_current_key_epoch := epoch\<rparr>) (d_key_epochs db)\<rparr>))
      | _ \<Rightarrow> (Inl AssertionError, db))"

definition apply_mutation_locked :: "control_plane_mutation \<Rightarrow> (execution_db, aegis_error, unit) operation" where
  "apply_mutation_locked m = (case mu_kind m of
     SUBJECT_ACTIVE \<Rightarrow> apply_subject_active m
   | PASSWORD_RESET_ENABLED \<Rightarrow> apply_password_reset m
   | SIGNING_KEY_ROTATION \<Rightarrow> apply_key_rotation m)"

definition states_change :: "execution_state \<Rightarrow> control_plane_change \<Rightarrow> bool" where
  "states_change st change \<longleftrightarrow> es_last_change_id st = Some (cg_change_id change) \<and>
     es_last_mutation_sha256 st = Some (cg_mutation_sha256 change)"

definition apply_execution :: "string \<Rightarrow> control_plane_change \<Rightarrow> (execution_db, aegis_error, execution_state) operation" where
  "apply_execution a change db =
     (case transaction (\<lambda>db.
        case execution_state_locked a db of
          Inl e \<Rightarrow> (Inl e, db)
        | Inr None \<Rightarrow> (Inl (ControlPlaneConvergenceError EXECUTION_STATE_NOT_INITIALIZED), db)
        | Inr (Some st) \<Rightarrow>
            if es_applied_generation st = cg_target_generation change then
              (if \<not> states_change st change then (Inl (ControlPlaneConvergenceError CHANGE_CONFLICT), db)
               else (Inr (Some st), db))
            else if es_applied_generation st \<noteq> cg_from_generation change
              then (Inl (ControlPlaneConvergenceError EXECUTION_GENERATION_MISMATCH), db)
            else
              (case apply_mutation_locked (cg_mutation change) db of
                 (Inl e, db) \<Rightarrow> (Inl e, db)
               | (Inr _, db) \<Rightarrow>
                   (Inr None, db\<lparr>d_execution_states := update_where (\<lambda>r. es_authority_id r = a)
                      (\<lambda>r. r\<lparr>es_applied_generation := cg_target_generation change,
                             es_last_change_id := Some (cg_change_id change),
                             es_last_mutation_sha256 := Some (cg_mutation_sha256 change)\<rparr>) (d_execution_states db)\<rparr>))) db of
        (Inl e, db) \<Rightarrow> (Inl e, db)
      | (Inr (Some st), db) \<Rightarrow> (Inr st, db)
      | (Inr None, db) \<Rightarrow> (execution_state_of a db, db))"

text \<open>The transactions on the generation database, which read the execution database while they hold the lock.\<close>

definition set_change_status :: "string \<Rightarrow> string \<Rightarrow> change_status \<Rightarrow> change_status \<Rightarrow> change_db \<Rightarrow> change_db" where
  "set_change_status a c old new db =
     db\<lparr>d_control_plane_changes := update_where (\<lambda>r. change_key r = (a, c) \<and> ch_status r = old)
       (\<lambda>r. r\<lparr>ch_status := new\<rparr>) (d_control_plane_changes db)\<rparr>"

definition on_anchor :: "(execution_db \<Rightarrow> (change_db, aegis_error, 'a) operation) \<Rightarrow> (control_plane, aegis_error, 'a) operation" where
  "on_anchor f s = (case transaction (f (fst s)) (snd s) of (res, anchors) \<Rightarrow> (res, (fst s, anchors)))"

definition reread_change :: "string \<Rightarrow> string \<Rightarrow> (control_plane, aegis_error, control_plane_change option) operation
    \<Rightarrow> (control_plane, aegis_error, control_plane_change) operation" where
  "reread_change a c f s = (case f s of
     (Inl e, s) \<Rightarrow> (Inl e, s)
   | (Inr (Some change), s) \<Rightarrow> (Inr change, s)
   | (Inr None, s) \<Rightarrow> (get_change a c (snd s), s))"

definition mark_applied :: "string \<Rightarrow> string \<Rightarrow> (control_plane, aegis_error, control_plane_change) operation" where
  "mark_applied a c = reread_change a c (on_anchor (\<lambda>db anchors.
     case get_change a c anchors of
       Inl e \<Rightarrow> (Inl e, anchors)
     | Inr change \<Rightarrow>
         if cg_status change = CHANGE_ACTIVE then (Inr (Some change), anchors)
         else (case execution_state_of a db of
                 Inl e \<Rightarrow> (Inl e, anchors)
               | Inr st \<Rightarrow>
                   if es_applied_generation st \<noteq> cg_target_generation change \<or> \<not> states_change st change
                     then (Inl (ControlPlaneConvergenceError EXECUTION_GENERATION_MISMATCH), anchors)
                   else (Inr None, if cg_status change = CHANGE_PREPARED
                                     then set_change_status a c CHANGE_PREPARED CHANGE_APPLIED anchors else anchors))))"

definition activate_change :: "string \<Rightarrow> string \<Rightarrow> (control_plane, aegis_error, control_plane_change) operation" where
  "activate_change a c = reread_change a c (on_anchor (\<lambda>db anchors.
     case get_change a c anchors of
       Inl e \<Rightarrow> (Inl e, anchors)
     | Inr change \<Rightarrow>
         let current = generation_of anchors a in
         if cg_status change = CHANGE_ACTIVE then
           (if current \<noteq> Some (cg_target_generation change)
              then (Inl (ControlPlaneConvergenceError EXECUTION_GENERATION_MISMATCH), anchors)
            else (Inr (Some change), anchors))
         else if cg_status change \<noteq> CHANGE_APPLIED then (Inl (ControlPlaneConvergenceError CHANGE_PENDING), anchors)
         else (case execution_state_of a db of
                 Inl e \<Rightarrow> (Inl e, anchors)
               | Inr st \<Rightarrow>
                   if es_applied_generation st \<noteq> cg_target_generation change \<or> \<not> states_change st change
                     then (Inl (ControlPlaneConvergenceError EXECUTION_GENERATION_MISMATCH), anchors)
                   else if current \<noteq> Some (cg_from_generation change)
                     then (Inl (ControlPlaneConvergenceError EXECUTION_GENERATION_MISMATCH), anchors)
                   else (Inr None, set_change_status a c CHANGE_APPLIED CHANGE_ACTIVE
                           (anchors\<lparr>d_generations := update_where (\<lambda>r. gn_authority_id r = a)
                              (\<lambda>r. r\<lparr>gn_current_generation := cg_target_generation change\<rparr>) (d_generations anchors)\<rparr>)))))"

text \<open>The composed operations: \<open>apply\<close>, \<open>commit\<close> with its injected crashes, and \<open>recover\<close>.\<close>

definition on_execution :: "(execution_db, aegis_error, 'a) operation \<Rightarrow> (control_plane, aegis_error, 'a) operation" where
  "on_execution f s = (case f (fst s) of (res, db) \<Rightarrow> (res, (db, snd s)))"

definition on_changes :: "(change_db, aegis_error, 'a) operation \<Rightarrow> (control_plane, aegis_error, 'a) operation" where
  "on_changes f s = (case f (snd s) of (res, anchors) \<Rightarrow> (res, (fst s, anchors)))"

definition apply_change :: "string \<Rightarrow> string \<Rightarrow> (control_plane, aegis_error, control_plane_change) operation" where
  "apply_change a c s = (case get_change a c (snd s) of
     Inl e \<Rightarrow> (Inl e, s)
   | Inr change \<Rightarrow> op_seq (on_execution (apply_execution a change)) (mark_applied a c) s)"

definition crash_if :: "bool \<Rightarrow> control_plane_crash_point \<Rightarrow> (control_plane, aegis_error, unit) operation" where
  "crash_if b p s = (if b then Inl (SyntheticControlPlaneCrash p) else Inr (), s)"

definition commit_change ::
  "(string \<Rightarrow> string) \<Rightarrow> string \<Rightarrow> string \<Rightarrow> control_plane_mutation \<Rightarrow> control_plane_crash_point option
     \<Rightarrow> (control_plane, aegis_error, control_plane_change) operation" where
  "commit_change sha a c m crash_at s =
     (case on_changes (prepare_change sha a c m) s of
        (Inl e, s) \<Rightarrow> (Inl e, s)
      | (Inr change, s) \<Rightarrow>
          op_seq (crash_if (crash_at = Some AFTER_PREPARE) AFTER_PREPARE)
         (op_seq (on_execution (apply_execution a change))
         (op_seq (crash_if (crash_at = Some AFTER_EXECUTION_APPLY) AFTER_EXECUTION_APPLY)
         (op_seq (mark_applied a c)
         (op_seq (crash_if (crash_at = Some AFTER_MARK_APPLIED) AFTER_MARK_APPLIED)
           (activate_change a c))))) s)"

definition locked_active_generation :: "string \<Rightarrow> control_plane \<Rightarrow> aegis_error + int" where
  "locked_active_generation a s =
     (if pending_rows a (snd s) \<noteq> [] then Inl (ControlPlaneConvergenceError CHANGE_PENDING)
      else case generation_of (snd s) a of
             None \<Rightarrow> Inl (ControlPlaneConvergenceError EXECUTION_STATE_NOT_INITIALIZED)
           | Some current \<Rightarrow>
               (case execution_state_of a (fst s) of
                  Inl e \<Rightarrow> Inl e
                | Inr st \<Rightarrow>
                    if es_applied_generation st \<noteq> current
                      then Inl (ControlPlaneConvergenceError EXECUTION_GENERATION_MISMATCH)
                    else Inr current))"

definition recover_change :: "string \<Rightarrow> (control_plane, aegis_error, control_plane_change option) operation" where
  "recover_change a s =
     (case pending_change a (snd s) of
        Inl e \<Rightarrow> (Inl e, s)
      | Inr None \<Rightarrow>
          (case locked_active_generation a s of Inl e \<Rightarrow> (Inl e, s) | Inr _ \<Rightarrow> (Inr None, s))
      | Inr (Some change) \<Rightarrow>
          (case execution_state_of a (fst s) of
             Inl e \<Rightarrow> (Inl e, s)
           | Inr st \<Rightarrow>
               (case (if es_applied_generation st = cg_from_generation change
                        then op_seq (on_execution (apply_execution a change)) (\<lambda>s. (Inr (), s)) s
                      else if es_applied_generation st = cg_target_generation change then
                        (if states_change st change then Inr () else Inl (ControlPlaneConvergenceError CHANGE_CONFLICT), s)
                      else (Inl (ControlPlaneConvergenceError EXECUTION_GENERATION_MISMATCH), s)) of
                  (Inl e, s) \<Rightarrow> (Inl e, s)
                | (Inr _, s) \<Rightarrow>
                    (case op_seq (mark_applied a (cg_change_id change)) (activate_change a (cg_change_id change)) s of
                       (Inl e, s) \<Rightarrow> (Inl e, s)
                     | (Inr active, s) \<Rightarrow> (Inr (Some active), s)))))"

subsection \<open>Evidence, effects and the worker\<close>

definition recoverable_evaluate ::
  "(string \<Rightarrow> string) \<Rightarrow> ('k \<Rightarrow> string \<Rightarrow> string) \<Rightarrow> 'k decision_signer \<Rightarrow> 'z versioned_db_scheme \<Rightarrow> string \<Rightarrow> int
     \<Rightarrow> outbox_record \<Rightarrow> control_plane \<Rightarrow> aegis_error + anchored_decision" where
  "recoverable_evaluate sha sign signer replica a issued_at record s =
     (case locked_active_generation a s of
        Inl e \<Rightarrow> Inl e
      | Inr generation \<Rightarrow>
          (case replica_evaluate sha replica record of
             Inl e \<Rightarrow> Inl e
           | Inr decision \<Rightarrow> anchored_issue sign signer issued_at decision generation))"

definition crash_safe_execute ::
  "(string \<Rightarrow> string) \<Rightarrow> (string \<Rightarrow> string \<Rightarrow> string \<Rightarrow> bool) \<Rightarrow> fence_config \<Rightarrow> string \<Rightarrow> int \<times> int \<times> anchored_decision \<Rightarrow> outbox_record
     \<Rightarrow> (control_plane, aegis_error, effect_execution) operation" where
  "crash_safe_execute sha verify config a c record s =
     (case locked_active_generation a s of
        Inl e \<Rightarrow> (Inl e, s)
      | Inr current \<Rightarrow>
          if ap_control_plane_generation (an_payload (snd (snd c))) \<noteq> current
            then (Inl (RollbackAnchorError CONTROL_PLANE_GENERATION_MISMATCH), s)
          else
            (case verify_envelope_signature verify (snd (snd c)) (fst s) of
               Some e \<Rightarrow> (Inl e, s)
             | None \<Rightarrow>
                 on_execution (provenance_execute sha verify config
                   (fst c, fst (snd c), ap_decision (an_payload (snd (snd c)))) record) s))"

text \<open>
  The worker: the evidence is obtained inside the \<open>try\<close>, so a fence error of either call cancels the row, while
  a convergence error leaves it for a retry.
\<close>

definition crash_safe_deliver ::
  "(string \<Rightarrow> string) \<Rightarrow> ('k \<Rightarrow> string \<Rightarrow> string) \<Rightarrow> (string \<Rightarrow> string \<Rightarrow> string \<Rightarrow> bool) \<Rightarrow> fence_config \<Rightarrow> string
     \<Rightarrow> 'k decision_signer \<Rightarrow> 'y versioned_db_scheme \<Rightarrow> int \<Rightarrow> int \<Rightarrow> int \<Rightarrow> int \<Rightarrow> string
     \<Rightarrow> (control_plane pipeline, aegis_error, effect_execution) operation" where
  "crash_safe_deliver sha sign verify config a signer replica issued_at checked executed now approval_id w =
     (case outbox_get approval_id (pl_outbox w) of
        Inl e \<Rightarrow> (Inl e, w)
      | Inr current \<Rightarrow>
          if o_status current = OUTBOX_ROW_CANCELLED then (Inl (RollbackAnchorError rollback_anchor_reason.OUTBOX_CANCELLED), w)
          else
            (case begin_delivery approval_id (pl_outbox w) of
               (Inl e, db) \<Rightarrow> (Inl e, w\<lparr>pl_outbox := db\<rparr>)
             | (Inr record, db) \<Rightarrow>
                 (case (case recoverable_evaluate sha sign signer replica a issued_at record (pl_effects w) of
                          Inl e \<Rightarrow> (Inl e, pl_effects w)
                        | Inr envelope \<Rightarrow>
                            crash_safe_execute sha verify config a (checked, executed, envelope) record (pl_effects w)) of
                    (Inr execution, s) \<Rightarrow>
                      acknowledge now approval_id record execution (w\<lparr>pl_outbox := db, pl_effects := s\<rparr>)
                  | (Inl e, s) \<Rightarrow>
                      if \<not> is_anchor_or_provenance_error e then (Inl e, w\<lparr>pl_outbox := db, pl_effects := s\<rparr>)
                      else
                        (case outbox_cancel now approval_id (o_idempotency_key record) db of
                           (Inl e', db1) \<Rightarrow> (Inl e', w\<lparr>pl_outbox := db1, pl_effects := s\<rparr>)
                         | (Inr _, db1) \<Rightarrow> (Inl e, w\<lparr>pl_outbox := db1, pl_effects := s\<rparr>)))))"


subsection \<open>Mutations are read back from the journal\<close>

lemma mutation_kind_value_inject [simp]: "mutation_kind_value a = mutation_kind_value b \<longleftrightarrow> a = b"
  by (cases a; cases b; simp add: mutation_kind_value_def)

lemma kind_of_value [simp]: "kind_of_json (Some (JStr (mutation_kind_value k))) = Some k"
  by (cases k) (simp_all add: kind_of_json_def)

lemma field_of_opt [simp]:
  assumes "map_of kvs k = Some (opt_json f v)"
    and "\<And>a. f a \<noteq> JNull" and "\<And>a. read (f a) = Some a"
  shows "field_of read kvs k = Some v"
proof (cases v)
  case (Some a)
  with assms(2) [of a] assms(3) [of a] show ?thesis by (cases "f a") (simp_all add: field_of_def assms(1) opt_json_def)
qed (simp add: field_of_def assms(1) opt_json_def)

lemma sort_keys_opt [simp]: "(\<And>a. sort_keys (f a) = f a) \<Longrightarrow> sort_keys (opt_json f v) = opt_json f v"
  by (simp add: opt_json_def split: option.split)

lemma wf_mutation: "wf_json (JObj (mutation_fields m))"
  by (simp add: mutation_fields_def opt_json_def split: option.splits)

lemma mutation_of_text [simp]:
  assumes "mutation_valid m"
  shows "mutation_of_json (mutation_text m) = Some m"
proof -
  define kvs where "kvs = sort_key fst (map (map_prod id sort_keys) (mutation_fields m))"
  have loads: "json_loads (mutation_text m) = Some (JObj kvs)"
    using json_loads_dumps [OF wf_mutation, of False m] by (simp add: mutation_text_def kvs_def)
  have distinct: "distinct (map fst (map (map_prod id sort_keys) (mutation_fields m)))"
    by (simp add: mutation_fields_def)
  have field: "map_of kvs k = map_option sort_keys (map_of (mutation_fields m) k)" for k
    unfolding kvs_def map_of_sort_key [OF distinct] by (rule map_of_map_prod)
  have keys: "set (map fst kvs) = set mutation_keys"
    unfolding kvs_def mutation_fields_def mutation_keys_def by (simp only: set_map set_sort list.set image_insert image_empty map_prod_simp fst_conv id_apply)
  have eta: "\<lparr>mu_kind = mu_kind m, mu_tenant_id = mu_tenant_id m, mu_user_id = mu_user_id m, mu_active = mu_active m,
      mu_password_reset_enabled = mu_password_reset_enabled m, mu_issuer_id = mu_issuer_id m, mu_audience = mu_audience m,
      mu_key_id = mu_key_id m, mu_key_epoch = mu_key_epoch m, mu_public_key_hex = mu_public_key_hex m\<rparr> = m" by simp
  have "mutation_of_fields kvs = Some m"
    unfolding mutation_of_fields_def keys
    using assms field [of "''schema_version''"] field [of "''kind''"]
      field [of "''tenant_id''"] field [of "''user_id''"] field [of "''active''"] field [of "''password_reset_enabled''"]
      field [of "''issuer_id''"] field [of "''audience''"] field [of "''key_id''"] field [of "''key_epoch''"]
      field [of "''public_key_hex''"]
    by (simp add: mutation_fields_def Let_def eta)
  with loads show ?thesis by (simp add: mutation_of_json_def)
qed

subsection \<open>The journal of one authority\<close>

definition changes_of :: "string \<Rightarrow> change_db \<Rightarrow> change_row list" where
  "changes_of a db = filter (\<lambda>r. ch_authority_id r = a) (d_control_plane_changes db)"

definition row_mutation :: "change_row \<Rightarrow> control_plane_mutation" where
  "row_mutation r = the (mutation_of_json (ch_mutation_json r))"

definition change_ok :: "(string \<Rightarrow> string) \<Rightarrow> change_row \<Rightarrow> bool" where
  "change_ok sha r \<longleftrightarrow> (\<exists>m. mutation_valid m \<and> ch_mutation_json r = mutation_text m \<and>
     ch_mutation_sha256 r = control_plane_mutation_hash sha m) \<and> length (ch_mutation_sha256 r) = 64 \<and>
     1 \<le> ch_from_generation r \<and> ch_target_generation r = ch_from_generation r + 1"

definition change_of_row :: "change_row \<Rightarrow> control_plane_change" where
  "change_of_row r = \<lparr>cg_authority_id = ch_authority_id r, cg_change_id = ch_change_id r,
     cg_from_generation = ch_from_generation r, cg_target_generation = ch_target_generation r,
     cg_mutation_sha256 = ch_mutation_sha256 r, cg_mutation = row_mutation r, cg_status = ch_status r\<rparr>"

lemma change_of_row_sel [simp]:
  "cg_change_id (change_of_row r) = ch_change_id r" "cg_from_generation (change_of_row r) = ch_from_generation r"
  "cg_target_generation (change_of_row r) = ch_target_generation r" "cg_mutation (change_of_row r) = row_mutation r"
  "cg_mutation_sha256 (change_of_row r) = ch_mutation_sha256 r" "cg_status (change_of_row r) = ch_status r"
  by (simp_all add: change_of_row_def)

lemma row_to_change_ok: "change_ok sha r \<Longrightarrow> row_to_change r = Inr (change_of_row r)"
  by (auto simp: change_ok_def row_to_change_def change_of_row_def row_mutation_def)

lemma find_within: "find (\<lambda>r. p r \<and> q r) rows = find q (filter p rows)"
  by (induction rows) auto

lemma filter_update_where:
  "(\<And>r. p (f r) = p r) \<Longrightarrow> filter p (update_where (\<lambda>r. p r \<and> q r) f rows) = update_where q f (filter p rows)"
  by (induction rows) (auto simp: update_where_def)

lemma row_of_change: "row_of change_key (a, c) (d_control_plane_changes db) = row_of ch_change_id c (changes_of a db)"
  by (simp add: changes_of_def change_key_def find_within)

lemma pending_rows_of: "pending_rows a db = filter (\<lambda>r. ch_status r \<noteq> CHANGE_ACTIVE) (changes_of a db)"
  by (simp add: pending_rows_def changes_of_def conj_commute)

lemma changes_of_status:
  "changes_of a (set_change_status a c old new db) =
     update_where (\<lambda>r. ch_change_id r = c \<and> ch_status r = old) (\<lambda>r. r\<lparr>ch_status := new\<rparr>) (changes_of a db)"
  by (simp add: changes_of_def set_change_status_def change_key_def filter_update_where conj_assoc)

lemma changes_of_insert:
  "ch_authority_id r = a \<Longrightarrow> changes_of a (db\<lparr>d_control_plane_changes := d_control_plane_changes db @ [r]\<rparr>) = changes_of a db @ [r]"
  by (simp add: changes_of_def)

lemma changes_of_more [simp]:
  "changes_of a (db\<lparr>d_generations := g\<rparr>) = changes_of a db"
  "generation_of (db\<lparr>d_control_plane_changes := cs\<rparr>) a = generation_of db a"
  "generation_of (set_change_status b c old new db) a = generation_of db a"
  by (simp_all add: changes_of_def generation_of_def set_change_status_def)

lemma generation_set:
  assumes "generation_of db a = Some g"
  shows "generation_of (db\<lparr>d_generations := update_where (\<lambda>r. gn_authority_id r = a)
    (\<lambda>r. r\<lparr>gn_current_generation := n\<rparr>) (d_generations db)\<rparr>) a = Some n"
  using assms by (auto simp: generation_of_def find_update_where_same)

subsection \<open>What one transaction does\<close>

definition marker_ok :: "execution_state \<Rightarrow> bool" where
  "marker_ok st \<longleftrightarrow> 1 \<le> es_applied_generation st \<and>
     (case es_last_mutation_sha256 st of None \<Rightarrow> True | Some s \<Rightarrow> length s = 64)"

lemma execution_state_ok:
  "execution_row db a = Some st \<Longrightarrow> marker_ok st \<Longrightarrow> execution_state_of a db = Inr st"
  by (auto simp: execution_state_of_def execution_state_locked_def execution_row_to_state_def marker_ok_def split: option.splits)

definition mark_generation :: "string \<Rightarrow> control_plane_change \<Rightarrow> execution_db \<Rightarrow> execution_db" where
  "mark_generation a change db = db\<lparr>d_execution_states := update_where (\<lambda>r. es_authority_id r = a)
     (\<lambda>r. r\<lparr>es_applied_generation := cg_target_generation change, es_last_change_id := Some (cg_change_id change),
            es_last_mutation_sha256 := Some (cg_mutation_sha256 change)\<rparr>) (d_execution_states db)\<rparr>"

lemma mark_generation_row:
  "execution_row db a = Some st \<Longrightarrow> execution_row (mark_generation a change db) a =
     Some (st\<lparr>es_applied_generation := cg_target_generation change, es_last_change_id := Some (cg_change_id change),
       es_last_mutation_sha256 := Some (cg_mutation_sha256 change)\<rparr>)"
  by (simp add: mark_generation_def find_update_where_same)

lemma apply_mutation_states:
  "apply_mutation_locked m db = (Inr (), db') \<Longrightarrow> d_execution_states db' = d_execution_states db"
  by (auto simp: apply_mutation_locked_def apply_subject_active_def apply_password_reset_def apply_key_rotation_def
      bump_revocation_epoch_def bump_policy_version_def set_password_reset_enabled_def split: mutation_kind.splits option.splits if_splits)

lemma apply_execution_cases:
  assumes "apply_execution a change db = (res, db')"
  obtains "db' = db"
  | st db1 where "execution_row db a = Some st" "es_applied_generation st = cg_from_generation change"
      "es_applied_generation st \<noteq> cg_target_generation change"
      "apply_mutation_locked (cg_mutation change) db = (Inr (), db1)" "db' = mark_generation a change db1"
  using assms
  by (auto simp: apply_execution_def transaction_def execution_state_locked_def execution_row_to_state_def mark_generation_def
      split: option.splits sum.splits if_splits prod.splits)

lemma apply_execution_applies:
  assumes "execution_row db a = Some st" and "marker_ok st" and "es_applied_generation st = cg_from_generation change"
    and "cg_target_generation change = cg_from_generation change + 1" and "length (cg_mutation_sha256 change) = 64"
    and "apply_mutation_locked (cg_mutation change) db = (Inr (), db1)"
  shows "\<exists>st'. apply_execution a change db = (Inr st', mark_generation a change db1)"
proof -
  have "execution_row db1 a = Some st" using apply_mutation_states [OF assms(6)] assms(1) by simp
  from mark_generation_row [OF this, of change] assms(2,3,4,5)
  have "execution_state_of a (mark_generation a change db1) = Inr (st\<lparr>es_applied_generation := cg_target_generation change,
      es_last_change_id := Some (cg_change_id change), es_last_mutation_sha256 := Some (cg_mutation_sha256 change)\<rparr>)"
    by (intro execution_state_ok) (auto simp: marker_ok_def)
  moreover have "execution_state_locked a db = Inr (Some st)"
    using assms(1,2) by (auto simp: execution_state_locked_def execution_row_to_state_def marker_ok_def split: option.splits)
  ultimately show ?thesis
    using assms(3,4,6) by (simp add: apply_execution_def transaction_def mark_generation_def)
qed

definition journal_ok :: "(string \<Rightarrow> string) \<Rightarrow> change_row list \<Rightarrow> bool" where
  "journal_ok sha rows \<longleftrightarrow> distinct (map ch_change_id rows) \<and> (\<forall>r \<in> set rows. change_ok sha r)"

lemma get_change_of:
  assumes "journal_ok sha (changes_of a db)"
  shows "get_change a c db = (case row_of ch_change_id c (changes_of a db) of
    None \<Rightarrow> Inl (KeyError ''control-plane change not found'') | Some r \<Rightarrow> Inr (change_of_row r))"
  using assms row_to_change_ok [of sha] unfolding get_change_def row_of_change
  by (auto simp: journal_ok_def dest: row_of_SomeD split: option.split)

lemma get_change_Inr:
  assumes "journal_ok sha (changes_of a db)" and "get_change a c db = Inr change"
  obtains r where "r \<in> set (changes_of a db)" "ch_change_id r = c" "change = change_of_row r" "change_ok sha r"
  using assms by (auto simp: get_change_of [OF assms(1)] journal_ok_def dest!: row_of_SomeD split: option.splits)

subsection \<open>The phases of the protocol\<close>

text \<open>
  Between changes everything is active and both databases agree on the generation. During a change the last row
  is pending, and either the execution database is still at the old generation or it has applied exactly this
  change. \<open>force rows db\<close> says which changes are in force in the execution database.
\<close>

definition all_active :: "int \<Rightarrow> change_row list \<Rightarrow> bool" where
  "all_active g rows \<longleftrightarrow> (\<forall>r \<in> set rows. ch_status r = CHANGE_ACTIVE \<and> ch_target_generation r \<le> g)"

definition states_row :: "execution_state \<Rightarrow> change_row \<Rightarrow> bool" where
  "states_row st r \<longleftrightarrow> es_last_change_id st = Some (ch_change_id r) \<and> es_last_mutation_sha256 st = Some (ch_mutation_sha256 r)"

lemma states_change_of_row [simp]: "states_change st (change_of_row r) = states_row st r"
  by (simp add: states_change_def states_row_def)

definition at_rest :: "(change_row list \<Rightarrow> execution_db \<Rightarrow> bool) \<Rightarrow> string \<Rightarrow> int \<Rightarrow> control_plane \<Rightarrow> bool" where
  "at_rest force a g s \<longleftrightarrow> all_active g (changes_of a (snd s)) \<and> generation_of (snd s) a = Some g \<and>
     (\<exists>st. execution_row (fst s) a = Some st \<and> marker_ok st \<and> es_applied_generation st = g) \<and>
     force (changes_of a (snd s)) (fst s)"

definition under_way :: "(change_row list \<Rightarrow> execution_db \<Rightarrow> bool) \<Rightarrow> string \<Rightarrow> int \<Rightarrow> change_row list \<Rightarrow> change_row \<Rightarrow> control_plane \<Rightarrow> bool" where
  "under_way force a g ys r s \<longleftrightarrow> changes_of a (snd s) = ys @ [r] \<and> all_active g ys \<and> ch_status r \<noteq> CHANGE_ACTIVE \<and>
     ch_from_generation r = g \<and> generation_of (snd s) a = Some g \<and>
     (\<exists>st. execution_row (fst s) a = Some st \<and> marker_ok st \<and>
        (ch_status r = CHANGE_PREPARED \<and> es_applied_generation st = g \<and> force ys (fst s) \<or>
         es_applied_generation st = g + 1 \<and> states_row st r \<and> force (ys @ [r]) (fst s)))"

definition control_inv ::
  "(string \<Rightarrow> string) \<Rightarrow> (change_row list \<Rightarrow> execution_db \<Rightarrow> bool) \<Rightarrow> string \<Rightarrow> control_plane \<Rightarrow> bool" where
  "control_inv sha force a s \<longleftrightarrow> journal_ok sha (changes_of a (snd s)) \<and>
     (\<exists>g \<ge> 1. at_rest force a g s \<or> (\<exists>ys r. under_way force a g ys r s))"

inductive control_step ::
  "(string \<Rightarrow> string) \<Rightarrow> (execution_db \<Rightarrow> execution_db \<Rightarrow> bool) \<Rightarrow> string \<Rightarrow> control_plane \<Rightarrow> control_plane \<Rightarrow> bool"
  for sha outside a where
  prepare: "mutation_valid m \<Longrightarrow> prepare_change sha a c m (snd s) = (res, anchors) \<Longrightarrow>
    control_step sha outside a s (fst s, anchors)"
| enforce: "get_change a c (snd s) = Inr change \<Longrightarrow> apply_execution a change (fst s) = (res, db) \<Longrightarrow>
    control_step sha outside a s (db, snd s)"
| mark: "mark_applied a c s = (res, t) \<Longrightarrow> control_step sha outside a s t"
| activate: "activate_change a c s = (res, t) \<Longrightarrow> control_step sha outside a s t"
| outside: "outside (fst s) db \<Longrightarrow> execution_row db a = execution_row (fst s) a \<Longrightarrow> control_step sha outside a s (db, snd s)"
| others: "changes_of a anchors = changes_of a (snd s) \<Longrightarrow> generation_of anchors a = generation_of (snd s) a \<Longrightarrow>
    control_step sha outside a s (fst s, anchors)"

lemma pending_rest: "all_active g (changes_of a db) \<Longrightarrow> pending_rows a db = []"
  by (simp add: pending_rows_of all_active_def)

lemma pending_under_way:
  "changes_of a db = ys @ [r] \<Longrightarrow> all_active g ys \<Longrightarrow> ch_status r \<noteq> CHANGE_ACTIVE \<Longrightarrow> pending_rows a db = [r]"
  by (simp add: pending_rows_of all_active_def)

lemma update_last:
  assumes "all_active g ys" and "old \<noteq> CHANGE_ACTIVE"
  shows "update_where (\<lambda>r. ch_change_id r = c \<and> ch_status r = old) f (ys @ [r]) =
    ys @ [if ch_change_id r = c \<and> ch_status r = old then f r else r]"
proof -
  have "update_where (\<lambda>r. ch_change_id r = c \<and> ch_status r = old) f ys = ys"
    using assms by (intro update_where_idle) (auto simp: all_active_def)
  then show ?thesis by (simp add: update_where_def)
qed

lemma all_active_mono: "all_active g rows \<Longrightarrow> g \<le> h \<Longrightarrow> all_active h rows"
  by (force simp: all_active_def)

lemma change_ok_status [simp]: "change_ok sha (r\<lparr>ch_status := x\<rparr>) = change_ok sha r"
  by (simp add: change_ok_def)

lemma row_mutation_status [simp]: "row_mutation (r\<lparr>ch_status := x\<rparr>) = row_mutation r"
  by (simp add: row_mutation_def)

lemma states_row_status [simp]: "states_row st (r\<lparr>ch_status := x\<rparr>) = states_row st r"
  by (simp add: states_row_def)

lemma prepare_cases:
  assumes "prepare_change sha a c m db = (res, db')"
  obtains "db' = db"
  | g where "row_of ch_change_id c (changes_of a db) = None" "pending_rows a db = []" "generation_of db a = Some g"
      "db' = db\<lparr>d_control_plane_changes := d_control_plane_changes db @
        [\<lparr>ch_authority_id = a, ch_change_id = c, ch_from_generation = g, ch_target_generation = g + 1,
          ch_mutation_sha256 = control_plane_mutation_hash sha m, ch_mutation_json = mutation_text m,
          ch_status = CHANGE_PREPARED\<rparr>]\<rparr>"
proof -
  from assms consider "db' = db" | g where "row_of change_key (a, c) (d_control_plane_changes db) = None"
      "pending_rows a db = []" "generation_of db a = Some g" "insert_change \<lparr>ch_authority_id = a, ch_change_id = c,
        ch_from_generation = g, ch_target_generation = g + 1, ch_mutation_sha256 = control_plane_mutation_hash sha m,
        ch_mutation_json = mutation_text m, ch_status = CHANGE_PREPARED\<rparr> db = (Inr (), db')"
    by (auto simp: prepare_change_def transaction_def split: option.splits sum.splits if_splits prod.splits)
  then show ?thesis
  proof cases
    case (2 g)
    then show ?thesis by (intro that(2) [of g]) (auto simp: row_of_change insert_change_def split: if_splits)
  qed (rule that(1))
qed

lemma mark_cases:
  assumes "journal_ok sha (changes_of a (snd s))" and "mark_applied a c s = (res, t)"
  obtains "t = s"
  | r st where "r \<in> set (changes_of a (snd s))" "ch_change_id r = c" "execution_state_of a (fst s) = Inr st"
      "es_applied_generation st = ch_target_generation r" "ch_status r \<noteq> CHANGE_ACTIVE"
      "states_row st r" "t = (fst s, set_change_status a c CHANGE_PREPARED CHANGE_APPLIED (snd s))"
proof -
  show ?thesis
  proof (cases "get_change a c (snd s)")
    case (Inl e)
    with assms(2) have "t = s" by (simp add: mark_applied_def reread_change_def on_anchor_def transaction_def)
    then show ?thesis by (rule that(1))
  next
    case (Inr change)
    from get_change_Inr [OF assms(1) Inr] obtain r where r: "r \<in> set (changes_of a (snd s))" "ch_change_id r = c"
      "change = change_of_row r" by metis
    from assms(2) Inr consider "t = s" | st where "execution_state_of a (fst s) = Inr st" "es_applied_generation st = cg_target_generation change"
        "cg_status change \<noteq> CHANGE_ACTIVE" "states_change st change" "t = (fst s, set_change_status a c CHANGE_PREPARED CHANGE_APPLIED (snd s))"
      by (cases s) (auto simp: mark_applied_def reread_change_def on_anchor_def transaction_def
          split: option.splits sum.splits if_splits)
    then show ?thesis
    proof cases
      case (2 st)
      with r show ?thesis by (intro that(2) [of r st]) auto
    qed (rule that(1))
  qed
qed

lemma activate_cases:
  assumes "journal_ok sha (changes_of a (snd s))" and "activate_change a c s = (res, t)"
  obtains "t = s"
  | r st where "r \<in> set (changes_of a (snd s))" "ch_change_id r = c" "ch_status r = CHANGE_APPLIED"
      "execution_state_of a (fst s) = Inr st" "es_applied_generation st = ch_target_generation r" "states_row st r"
      "generation_of (snd s) a = Some (ch_from_generation r)"
      "t = (fst s, set_change_status a c CHANGE_APPLIED CHANGE_ACTIVE
        ((snd s)\<lparr>d_generations := update_where (\<lambda>r. gn_authority_id r = a)
           (\<lambda>q. q\<lparr>gn_current_generation := ch_target_generation r\<rparr>) (d_generations (snd s))\<rparr>))"
proof -
  show ?thesis
  proof (cases "get_change a c (snd s)")
    case (Inl e)
    with assms(2) have "t = s" by (simp add: activate_change_def reread_change_def on_anchor_def transaction_def)
    then show ?thesis by (rule that(1))
  next
    case (Inr change)
    from get_change_Inr [OF assms(1) Inr] obtain r where r: "r \<in> set (changes_of a (snd s))" "ch_change_id r = c"
      "change = change_of_row r" by metis
    from assms(2) Inr consider "t = s" | st where "cg_status change = CHANGE_APPLIED" "execution_state_of a (fst s) = Inr st"
        "es_applied_generation st = cg_target_generation change" "states_change st change"
        "generation_of (snd s) a = Some (cg_from_generation change)"
        "t = (fst s, set_change_status a c CHANGE_APPLIED CHANGE_ACTIVE
          ((snd s)\<lparr>d_generations := update_where (\<lambda>r. gn_authority_id r = a)
             (\<lambda>q. q\<lparr>gn_current_generation := cg_target_generation change\<rparr>) (d_generations (snd s))\<rparr>))"
      by (cases s) (auto simp: activate_change_def reread_change_def on_anchor_def transaction_def Let_def
          split: option.splits sum.splits if_splits)
    then show ?thesis
    proof cases
      case (2 st)
      with r show ?thesis by (intro that(2) [of r st]) auto
    qed (rule that(1))
  qed
qed

locale control_history =
  fixes sha :: "string \<Rightarrow> string" and force :: "change_row list \<Rightarrow> execution_db \<Rightarrow> bool"
    and outside :: "execution_db \<Rightarrow> execution_db \<Rightarrow> bool" and a :: string
  assumes outside_force: "outside db db' \<Longrightarrow> force rows db \<Longrightarrow> force rows db'"
    and enforce_force: "force rows db \<Longrightarrow> change_ok sha r \<Longrightarrow> apply_mutation_locked (row_mutation r) db = (Inr (), db') \<Longrightarrow>
      force (rows @ [r]) (mark_generation a (change_of_row r) db')"
    and force_status: "force (rows @ [r\<lparr>ch_status := x\<rparr>]) db = force (rows @ [r]) db"
begin

lemma control_invE:
  assumes "control_inv sha force a s"
  obtains (rest) g where "1 \<le> g" "journal_ok sha (changes_of a (snd s))" "at_rest force a g s"
  | (moving) g ys r where "1 \<le> g" "journal_ok sha (changes_of a (snd s))" "under_way force a g ys r s"
  using assms by (auto simp: control_inv_def)

lemma restI: "1 \<le> g \<Longrightarrow> journal_ok sha (changes_of a (snd s)) \<Longrightarrow> at_rest force a g s \<Longrightarrow> control_inv sha force a s"
  by (auto simp: control_inv_def)

lemma movingI: "1 \<le> g \<Longrightarrow> journal_ok sha (changes_of a (snd s)) \<Longrightarrow> under_way force a g ys r s \<Longrightarrow> control_inv sha force a s"
  by (auto simp: control_inv_def)

lemma under_way_row:
  assumes "journal_ok sha (changes_of a (snd s))" and "under_way force a g ys r s"
  shows "change_ok sha r" "ch_target_generation r = g + 1" "pending_rows a (snd s) = [r]"
  using assms by (auto simp: under_way_def journal_ok_def change_ok_def pending_under_way)

lemma prepare_inv:
  assumes sha: "\<And>m. length (sha m) = 64" and inv: "control_inv sha force a s" and valid: "mutation_valid m"
    and run: "prepare_change sha a c m (snd s) = (res, db')"
  shows "control_inv sha force a (fst s, db')"
  using run
proof (cases rule: prepare_cases)
  case 1
  with inv show ?thesis by simp
next
  case (2 g)
  from inv show ?thesis
  proof (cases rule: control_invE)
    case (moving h ys r)
    with under_way_row [of s h ys r] 2 show ?thesis by simp
  next
    case (rest h)
    let ?r = "\<lparr>ch_authority_id = a, ch_change_id = c, ch_from_generation = g, ch_target_generation = g + 1,
      ch_mutation_sha256 = control_plane_mutation_hash sha m, ch_mutation_json = mutation_text m, ch_status = CHANGE_PREPARED\<rparr>"
    have h: "h = g" using rest 2 by (simp add: at_rest_def)
    have changes: "changes_of a db' = changes_of a (snd s) @ [?r]" unfolding 2(4) by (rule changes_of_insert) simp
    have gen: "generation_of db' a = Some g" unfolding 2(4) using 2(3) by simp
    have "change_ok sha ?r" using valid rest h by (auto simp: change_ok_def control_plane_mutation_hash_def sha)
    with rest 2(1) have ok: "journal_ok sha (changes_of a db')"
      by (auto simp: changes journal_ok_def row_of_None)
    have "under_way force a g (changes_of a (snd s)) ?r (fst s, db')"
      using rest h changes gen by (auto simp: under_way_def at_rest_def)
    with rest ok h show ?thesis by (intro movingI) auto
  qed
qed

lemma enforce_inv:
  assumes inv: "control_inv sha force a s" and known: "get_change a c (snd s) = Inr change"
    and run: "apply_execution a change (fst s) = (res, db)"
  shows "control_inv sha force a (db, snd s)"
  using run
proof (cases rule: apply_execution_cases)
  case 1
  with inv show ?thesis by simp
next
  case (2 st db1)
  from inv show ?thesis
  proof (cases rule: control_invE)
    case (rest g)
    from get_change_Inr [OF rest(2) known] obtain q where "q \<in> set (changes_of a (snd s))" "change = change_of_row q" "change_ok sha q"
      by metis
    with rest 2 have False by (auto simp: at_rest_def all_active_def change_ok_def)
    then show ?thesis ..
  next
    case (moving g ys r)
    note row = under_way_row [OF moving(2,3)]
    from get_change_Inr [OF moving(2) known] obtain q where q: "q \<in> set (changes_of a (snd s))" "change = change_of_row q" "change_ok sha q"
      by metis
    from moving 2(1,2) q row have "es_applied_generation st = g" "q = r"
      by (auto simp: under_way_def all_active_def change_ok_def)
    with moving(3) 2 have f: "force ys (fst s)" "ch_from_generation r = g" "marker_ok st" by (auto simp: under_way_def)
    have "execution_row db1 a = Some st" using apply_mutation_states [OF 2(4)] 2(1) by simp
    from mark_generation_row [OF this, of change]
    have "execution_row db a = Some (st\<lparr>es_applied_generation := g + 1, es_last_change_id := Some (ch_change_id r),
        es_last_mutation_sha256 := Some (ch_mutation_sha256 r)\<rparr>)"
      using row 2(5) q \<open>q = r\<close> by simp
    moreover have "force (ys @ [r]) db"
      using enforce_force [OF f(1) row(1)] 2(4,5) q \<open>q = r\<close> by simp
    moreover have "length (ch_mutation_sha256 r) = 64" using row(1) by (simp add: change_ok_def)
    ultimately have "under_way force a g ys r (db, snd s)"
      using moving(1,3) by (auto simp: under_way_def states_row_def marker_ok_def)
    with moving show ?thesis by (intro movingI) auto
  qed
qed

lemma mark_inv:
  assumes inv: "control_inv sha force a s" and run: "mark_applied a c s = (res, t)"
  shows "control_inv sha force a t"
proof -
  from inv have ok: "journal_ok sha (changes_of a (snd s))" by (simp add: control_inv_def)
  from ok run show ?thesis
  proof (cases rule: mark_cases)
    case 1
    with inv show ?thesis by simp
  next
    case (2 q st)
    from inv show ?thesis
    proof (cases rule: control_invE)
      case (rest g)
      have "changes_of a (snd t) = changes_of a (snd s)"
        using rest(3) unfolding 2(7) by (auto simp: changes_of_status at_rest_def all_active_def intro!: update_where_idle)
      with rest 2(7) show ?thesis by (intro restI [of g]) (auto simp: at_rest_def)
    next
      case (moving g ys r)
      let ?r = "if ch_change_id r = c \<and> ch_status r = CHANGE_PREPARED then r\<lparr>ch_status := CHANGE_APPLIED\<rparr> else r"
      from moving(3) have active: "all_active g ys" by (simp add: under_way_def)
      have changes: "changes_of a (snd t) = ys @ [?r]"
        using moving(3) update_last [OF active, of CHANGE_PREPARED c] unfolding 2(7)
        by (simp add: changes_of_status under_way_def)
      have ok': "journal_ok sha (changes_of a (snd t))" using ok moving(3) unfolding changes by (auto simp: journal_ok_def under_way_def)
      show ?thesis
      proof (cases "ch_change_id r = c")
        case False
        with moving ok' changes 2(7) show ?thesis by (intro movingI [of g _ ys r]) (auto simp: under_way_def)
      next
        case True
        have "q = r" using ok 2(1,2) True moving(3) by (auto simp: journal_ok_def under_way_def)
        with 2(3,4) under_way_row [OF moving(2,3)] moving(3) execution_state_ok [of a "fst s"]
        have "under_way force a g ys ?r t"
          unfolding under_way_def changes by (auto simp: 2(7) force_status)
        with moving ok' show ?thesis by (intro movingI [of g _ ys ?r]) auto
      qed
    qed
  qed
qed

lemma activate_inv:
  assumes inv: "control_inv sha force a s" and run: "activate_change a c s = (res, t)"
  shows "control_inv sha force a t"
proof -
  from inv have ok: "journal_ok sha (changes_of a (snd s))" by (simp add: control_inv_def)
  from ok run show ?thesis
  proof (cases rule: activate_cases)
    case 1
    with inv show ?thesis by simp
  next
    case (2 q st)
    from inv show ?thesis
    proof (cases rule: control_invE)
      case (rest g)
      with 2(1,3) have False by (auto simp: at_rest_def all_active_def)
      then show ?thesis ..
    next
      case (moving g ys r)
      note row = under_way_row [OF moving(2,3)]
      from moving(3) have active: "all_active g ys" by (simp add: under_way_def)
      with 2(1,3) moving(3) have "q = r" by (auto simp: under_way_def all_active_def)
      let ?r = "r\<lparr>ch_status := CHANGE_ACTIVE\<rparr>"
      have changes: "changes_of a (snd t) = ys @ [?r]"
        using moving(3) update_last [OF active, of CHANGE_APPLIED c] 2(2,3) \<open>q = r\<close> unfolding 2(8)
        by (simp add: changes_of_status under_way_def)
      have "journal_ok sha (changes_of a (snd t))" using ok moving(3) unfolding changes by (auto simp: journal_ok_def under_way_def)
      moreover have "all_active (g + 1) (ys @ [?r])"
        using all_active_mono [OF active, of "g + 1"] row(2) by (simp add: all_active_def)
      moreover have "generation_of (snd t) a = Some (g + 1)"
        using generation_set [OF 2(7)] row(2) \<open>q = r\<close> unfolding 2(8) by simp
      moreover obtain st where "execution_row (fst t) a = Some st" "marker_ok st" "es_applied_generation st = g + 1" "force (ys @ [r]) (fst t)"
        using moving(3) 2(3,8) \<open>q = r\<close> by (auto simp: under_way_def)
      ultimately show ?thesis
        using moving(1) changes by (intro restI [of "g + 1"]) (auto simp: at_rest_def force_status)
    qed
  qed
qed

lemma step_inv:
  assumes "\<And>m. length (sha m) = 64"
  shows "control_step sha outside a s t \<Longrightarrow> control_inv sha force a s \<Longrightarrow> control_inv sha force a t"
proof (induction rule: control_step.induct)
  case (outside s db)
  then show ?case using outside_force [OF outside(1)] unfolding control_inv_def at_rest_def under_way_def by auto
next
  case (others anchors s)
  then show ?case unfolding control_inv_def at_rest_def under_way_def by simp
qed (auto intro: prepare_inv [OF assms] enforce_inv mark_inv activate_inv)

lemma steps_inv:
  assumes "\<And>m. length (sha m) = 64"
  shows "(control_step sha outside a)\<^sup>*\<^sup>* s t \<Longrightarrow> control_inv sha force a s \<Longrightarrow> control_inv sha force a t"
  by (induction rule: rtranclp_induct) (auto intro: step_inv [OF assms])

text \<open>A pending change that cannot be applied, whatever is in force, stays pending.\<close>

definition stuck :: "change_row \<Rightarrow> control_plane \<Rightarrow> bool" where
  "stuck r s \<longleftrightarrow> journal_ok sha (changes_of a (snd s)) \<and> ch_status r = CHANGE_PREPARED \<and>
     (\<exists>g ys. 1 \<le> g \<and> under_way force a g ys r s \<and> force ys (fst s) \<and> (\<exists>st. execution_row (fst s) a = Some st \<and> es_applied_generation st = g))"

lemma stuckD:
  assumes "stuck r s"
  obtains g ys st where "1 \<le> g" "journal_ok sha (changes_of a (snd s))" "ch_status r = CHANGE_PREPARED" "under_way force a g ys r s"
    "changes_of a (snd s) = ys @ [r]" "all_active g ys" "force ys (fst s)" "change_ok sha r" "ch_from_generation r = g"
    "ch_target_generation r = g + 1" "pending_rows a (snd s) = [r]" "generation_of (snd s) a = Some g"
    "execution_row (fst s) a = Some st" "marker_ok st" "es_applied_generation st = g"
proof -
  from assms obtain g ys st where *: "1 \<le> g" "journal_ok sha (changes_of a (snd s))" "ch_status r = CHANGE_PREPARED"
    "under_way force a g ys r s" "force ys (fst s)" "execution_row (fst s) a = Some st" "es_applied_generation st = g"
    by (auto simp: stuck_def)
  show ?thesis
    using * under_way_row [OF *(2,4)] *(4) [unfolded under_way_def] by (intro that [of g ys st]) auto
qed

lemma stuck_step:
  assumes hopeless: "\<And>rows db. force rows db \<Longrightarrow> \<exists>e. fst (apply_mutation_locked (row_mutation r) db) = Inl e"
    and step: "control_step sha outside a s t" and "stuck r s"
  shows "stuck r t"
proof -
  from \<open>stuck r s\<close> obtain g ys st where s: "1 \<le> g" "journal_ok sha (changes_of a (snd s))" "ch_status r = CHANGE_PREPARED" "under_way force a g ys r s"
    "changes_of a (snd s) = ys @ [r]" "all_active g ys" "force ys (fst s)" "change_ok sha r" "ch_from_generation r = g"
    "ch_target_generation r = g + 1" "pending_rows a (snd s) = [r]" "generation_of (snd s) a = Some g"
    "execution_row (fst s) a = Some st" "marker_ok st" "es_applied_generation st = g" by (rule stuckD)
  from step show ?thesis
  proof (cases rule: control_step.cases)
    case (prepare m c res anchors)
    from this(3) s(11) have "anchors = snd s" by (cases rule: prepare_cases) auto
    with prepare(1) \<open>stuck r s\<close> show ?thesis by simp
  next
    case (enforce c change res db)
    from enforce(3) have "db = fst s"
    proof (cases rule: apply_execution_cases)
      case (2 st' db1)
      from get_change_Inr [OF s(2) enforce(2)] obtain q where q: "q \<in> set (changes_of a (snd s))" "change = change_of_row q" "change_ok sha q"
        by metis
      with 2(1,2,3) s have "q = r" by (auto simp: all_active_def change_ok_def)
      with hopeless [OF s(7)] 2(4) q show ?thesis by simp
    qed
    with enforce(1) \<open>stuck r s\<close> show ?thesis by simp
  next
    case (mark c res)
    from s(2) mark have "t = s"
    proof (cases rule: mark_cases)
      case (2 q st')
      with s execution_state_ok [OF s(13,14)] have "q = r" "es_applied_generation st' = g"
        by (auto simp: all_active_def states_row_def)
      with 2 s show ?thesis by simp
    qed
    with \<open>stuck r s\<close> show ?thesis by simp
  next
    case (activate c res)
    from s(2) activate have "t = s"
    proof (cases rule: activate_cases)
      case (2 q st')
      with s show ?thesis by (auto simp: all_active_def)
    qed
    with \<open>stuck r s\<close> show ?thesis by simp
  next
    case (outside db)
    have "force ys db" using outside_force [OF outside(2) s(7)] .
    then show ?thesis unfolding outside(1) stuck_def under_way_def using s outside(3)
      by (auto intro!: exI [of _ g] exI [of _ ys])
  next
    case (others anchors)
    then show ?thesis unfolding others(1) stuck_def under_way_def using s
      by (auto intro!: exI [of _ g] exI [of _ ys])
  qed
qed

lemma stuck_steps:
  assumes "\<And>rows db. force rows db \<Longrightarrow> \<exists>e. fst (apply_mutation_locked (row_mutation r) db) = Inl e"
  shows "(control_step sha outside a)\<^sup>*\<^sup>* s t \<Longrightarrow> stuck r s \<Longrightarrow> stuck r t"
  by (induction rule: rtranclp_induct) (auto intro: stuck_step [OF assms])

end

subsection \<open>What is in force\<close>

text \<open>The tables that changes write, and the reference: the mutations one after the other, without any protocol.\<close>

definition same_control :: "execution_db \<Rightarrow> execution_db \<Rightarrow> bool" where
  "same_control db db' \<longleftrightarrow> d_subjects db = d_subjects db' \<and> d_tenant_policies db = d_tenant_policies db' \<and>
     d_versions db = d_versions db' \<and> d_trusted_keys db = d_trusted_keys db' \<and> d_key_epochs db = d_key_epochs db'"

fun enforce_all :: "control_plane_mutation list \<Rightarrow> execution_db \<Rightarrow> aegis_error + execution_db" where
  "enforce_all [] db = Inr db"
| "enforce_all (m # ms) db = (case apply_mutation_locked m db of (Inl e, _) \<Rightarrow> Inl e | (Inr _, db) \<Rightarrow> enforce_all ms db)"

definition in_force :: "execution_db \<Rightarrow> change_row list \<Rightarrow> execution_db \<Rightarrow> bool" where
  "in_force db0 rows db \<longleftrightarrow> (\<exists>db'. enforce_all (map row_mutation rows) db0 = Inr db' \<and> same_control db db')"

lemma enforce_all_snoc:
  "enforce_all (ms @ [m]) db = (case enforce_all ms db of Inl e \<Rightarrow> Inl e
     | Inr db \<Rightarrow> (case apply_mutation_locked m db of (Inl e, _) \<Rightarrow> Inl e | (Inr _, db) \<Rightarrow> Inr db))"
  by (induction ms arbitrary: db) (auto split: sum.splits prod.splits)

lemma apply_same_control:
  assumes "same_control db db'" and "apply_mutation_locked m db = (Inr (), db1)"
  shows "\<exists>db1'. apply_mutation_locked m db' = (Inr (), db1') \<and> same_control db1 db1'"
proof (cases "mu_kind m")
  case SUBJECT_ACTIVE
  with assms show ?thesis
    by (auto simp: apply_mutation_locked_def apply_subject_active_def same_control_def bump_revocation_epoch_def
        split: option.splits if_splits)
next
  case PASSWORD_RESET_ENABLED
  with assms show ?thesis
    by (auto simp: apply_mutation_locked_def apply_password_reset_def same_control_def bump_policy_version_def
        set_password_reset_enabled_def split: option.splits if_splits)
next
  case SIGNING_KEY_ROTATION
  with assms show ?thesis
    by (auto simp: apply_mutation_locked_def apply_key_rotation_def same_control_def current_epoch_locked_def
        split: option.splits if_splits)
qed

lemma same_control_sym: "same_control db db' \<Longrightarrow> same_control db' db"
  by (simp add: same_control_def)

lemma same_control_trans: "same_control db db' \<Longrightarrow> same_control db' db'' \<Longrightarrow> same_control db db''"
  by (simp add: same_control_def)

lemma same_control_mark [simp]: "same_control (mark_generation a change db) db' = same_control db db'"
  by (simp add: same_control_def mark_generation_def)

interpretation exact: control_history sha "in_force db0" same_control a
proof
  fix db db' rows
  assume "same_control db db'" "in_force db0 rows db"
  then show "in_force db0 rows db'" unfolding in_force_def using same_control_sym same_control_trans by blast
next
  fix rows db r db'
  assume "in_force db0 rows db" and run: "apply_mutation_locked (row_mutation r) db = (Inr (), db')"
  then obtain db1 where "enforce_all (map row_mutation rows) db0 = Inr db1" "same_control db db1" by (auto simp: in_force_def)
  with apply_same_control [OF this(2) run] show "in_force db0 (rows @ [r]) (mark_generation a (change_of_row r) db')"
    by (auto simp: in_force_def enforce_all_snoc)
qed (simp add: in_force_def)

text \<open>Nothing is assumed of the other writers: enough for convergence.\<close>

interpretation any_history: control_history sha "\<lambda>_ _. True" "\<lambda>_ _. True" a
  by unfold_locales simp_all

text \<open>Key epochs that only grow, which is all that the other writers may do with them.\<close>

definition epochs_grow :: "execution_db \<Rightarrow> execution_db \<Rightarrow> bool" where
  "epochs_grow db db' \<longleftrightarrow> (\<forall>i v. current_epoch_locked db i = Some v \<longrightarrow> (\<exists>v'. current_epoch_locked db' i = Some v' \<and> v \<le> v'))"

definition epoch_reached :: "string \<times> string \<Rightarrow> int \<Rightarrow> execution_db \<Rightarrow> bool" where
  "epoch_reached i e db \<longleftrightarrow> (\<exists>v. current_epoch_locked db i = Some v \<and> e \<le> v)"

lemma key_steps_grow: "key_step\<^sup>*\<^sup>* db db' \<Longrightarrow> epochs_grow db db'"
  unfolding epochs_grow_def using key_epochs.steps_mono by blast

lemma epochs_growI: "d_key_epochs db' = d_key_epochs db \<Longrightarrow> epochs_grow db db'"
  by (auto simp: epochs_grow_def current_epoch_locked_def)

lemma apply_key_epochs:
  "d_key_epochs (snd (apply_subject_active m db)) = d_key_epochs db"
  "d_key_epochs (snd (apply_password_reset m db)) = d_key_epochs db"
  by (simp_all add: apply_subject_active_def apply_password_reset_def bump_revocation_epoch_def bump_policy_version_def
      set_password_reset_enabled_def split: option.split)

lemma apply_key_rotation_Inr:
  assumes "apply_key_rotation m db = (Inr (), db')"
  obtains i e v where "current_epoch_locked db i = Some v" "v < e"
    "d_key_epochs db' = update_where (\<lambda>r. key_epoch_id r = i) (\<lambda>r. r\<lparr>ke_current_key_epoch := e\<rparr>) (d_key_epochs db)"
proof -
  from assms obtain issuer audience k e h v where "mu_issuer_id m = Some issuer" "mu_audience m = Some audience"
    "mu_key_id m = Some k" "mu_key_epoch m = Some e" "mu_public_key_hex m = Some h" "current_epoch_locked db (issuer, audience) = Some v"
    by (auto simp: apply_key_rotation_def split: option.splits)
  with assms have "current_epoch_locked db (issuer, audience) = Some v" "v < e"
    "d_key_epochs db' = update_where (\<lambda>r. key_epoch_id r = (issuer, audience)) (\<lambda>r. r\<lparr>ke_current_key_epoch := e\<rparr>) (d_key_epochs db)"
    by (auto simp: apply_key_rotation_def split: if_splits)
  then show ?thesis by (rule that)
qed

lemma apply_epochs_grow:
  assumes "apply_mutation_locked m db = (Inr (), db')"
  shows "epochs_grow db db'"
proof (cases "mu_kind m")
  case SUBJECT_ACTIVE
  with assms apply_key_epochs(1) [of m db] show ?thesis by (intro epochs_growI) (simp add: apply_mutation_locked_def)
next
  case PASSWORD_RESET_ENABLED
  with assms apply_key_epochs(2) [of m db] show ?thesis by (intro epochs_growI) (simp add: apply_mutation_locked_def)
next
  case SIGNING_KEY_ROTATION
  with assms have "apply_key_rotation m db = (Inr (), db')" by (simp add: apply_mutation_locked_def)
  then obtain i e v where "current_epoch_locked db i = Some v" "v < e"
    and db': "d_key_epochs db' = update_where (\<lambda>r. key_epoch_id r = i) (\<lambda>r. r\<lparr>ke_current_key_epoch := e\<rparr>) (d_key_epochs db)"
    by (rule apply_key_rotation_Inr)
  moreover have "key_epoch_id (r\<lparr>ke_current_key_epoch := e\<rparr>) = key_epoch_id r" for r by (simp add: key_epoch_id_def)
  then have "current_epoch_locked db' j = (if j = i then map_option (\<lambda>_. e) (current_epoch_locked db i) else current_epoch_locked db j)" for j
    unfolding current_epoch_locked_def db'
    by (cases "j = i") (simp add: find_update_where_same option.map_comp comp_def, subst find_update_where_other, auto)
  ultimately show ?thesis by (auto simp: epochs_grow_def)
qed

interpretation growing: control_history sha "\<lambda>rows. epoch_reached i e" epochs_grow a
proof
  fix rows r db db'
  assume "epoch_reached i e db" and "apply_mutation_locked (row_mutation r) db = (Inr (), db')"
  then have "epoch_reached i e db'" using apply_epochs_grow unfolding epoch_reached_def epochs_grow_def by (meson order_trans)
  then show "epoch_reached i e (mark_generation a (change_of_row r) db')"
    by (simp add: epoch_reached_def mark_generation_def current_epoch_locked_def)
next
  fix rows :: "change_row list" and db db' :: execution_db
  show "epochs_grow db db' \<Longrightarrow> epoch_reached i e db \<Longrightarrow> epoch_reached i e db'"
    unfolding epoch_reached_def epochs_grow_def by (meson order_trans)
qed simp

subsection \<open>Properties of the protocol\<close>

text \<open>A coordinator that has been initialized and not used yet.\<close>

definition control_started :: "string \<Rightarrow> control_plane \<Rightarrow> bool" where
  "control_started a s \<longleftrightarrow> changes_of a (snd s) = [] \<and> (\<exists>g \<ge> 1. generation_of (snd s) a = Some g \<and>
     execution_row (fst s) a = Some \<lparr>es_authority_id = a, es_applied_generation = g, es_last_change_id = None,
       es_last_mutation_sha256 = None\<rparr>)"

lemma initialize_starts:
  assumes "coordinator_initialize a g s = (Inr st, t)" and "changes_of a (snd s) = []" and "execution_row (fst s) a = None"
  shows "control_started a t"
proof -
  from assms(1) obtain anchors n where init: "generation_initialize a g (snd s) = (Inr n, anchors)" and
    t: "t = ((fst s)\<lparr>d_execution_states := insert_or_ignore es_authority_id \<lparr>es_authority_id = a, es_applied_generation = g,
      es_last_change_id = None, es_last_mutation_sha256 = None\<rparr> (d_execution_states (fst s))\<rparr>, anchors)"
    using assms(3) by (auto simp: coordinator_initialize_def execution_state_locked_def split: prod.splits sum.splits if_splits)
  from init have "1 \<le> g" "generation_of anchors a = Some n" "changes_of a anchors = changes_of a (snd s)"
    by (auto simp: generation_initialize_def generation_current_def changes_of_def split: if_splits sum.splits option.splits prod.splits)
  moreover have "n = g" using assms(1) init by (auto simp: coordinator_initialize_def split: prod.splits if_splits)
  ultimately show ?thesis using assms(2,3) t by (auto simp: control_started_def row_of_insert_or_ignore)
qed

lemma started_inv:
  assumes "control_started a s" and "force [] (fst s)"
  shows "control_inv sha force a s"
proof -
  from assms(1) obtain g where "1 \<le> g" "at_rest force a g s"
    using assms by (auto simp: control_started_def at_rest_def all_active_def marker_ok_def)
  then show ?thesis using assms(1) by (auto simp: control_inv_def control_started_def journal_ok_def)
qed

text \<open>Marking and activating, once the change is in force.\<close>

lemma mark_runs:
  assumes ok: "journal_ok sha (changes_of a (snd s))" and way: "under_way force a g ys r s"
    and applied: "execution_row (fst s) a = Some st" "es_applied_generation st = g + 1" "states_row st r"
  shows "\<exists>change. mark_applied a (ch_change_id r) s = (Inr change,
    (fst s, if ch_status r = CHANGE_PREPARED then set_change_status a (ch_change_id r) CHANGE_PREPARED CHANGE_APPLIED (snd s) else snd s))"
proof -
  let ?c = "ch_change_id r"
  from way ok have changes: "changes_of a (snd s) = ys @ [r]" and active: "all_active g ys" and r: "change_ok sha r"
    "ch_from_generation r = g" "ch_status r \<noteq> CHANGE_ACTIVE" and distinct: "?c \<notin> ch_change_id ` set ys" and st: "marker_ok st"
    using applied(1) by (auto simp: under_way_def journal_ok_def)
  have "row_of ch_change_id ?c ys = None" using distinct by (simp add: row_of_None)
  then have find: "row_of ch_change_id ?c (changes_of a (snd s)) = Some r" by (simp add: changes find_append)
  then have get: "get_change a ?c (snd s) = Inr (change_of_row r)" by (simp add: get_change_of [OF ok])
  have target: "ch_target_generation r = g + 1" using r by (simp add: change_ok_def)
  note state = execution_state_ok [OF applied(1) st]
  let ?db = "if ch_status r = CHANGE_PREPARED then set_change_status a ?c CHANGE_PREPARED CHANGE_APPLIED (snd s) else snd s"
  let ?r = "if ch_status r = CHANGE_PREPARED then r\<lparr>ch_status := CHANGE_APPLIED\<rparr> else r"
  have changes': "changes_of a ?db = ys @ [?r]" using update_last [OF active, of CHANGE_PREPARED ?c] changes by (simp add: changes_of_status)
  have "journal_ok sha (changes_of a ?db)" using ok changes unfolding changes' by (auto simp: journal_ok_def)
  from get_change_of [OF this] have "get_change a ?c ?db = Inr (change_of_row ?r)"
    using \<open>row_of ch_change_id ?c ys = None\<close> unfolding changes' by (simp add: find_append split: if_split)
  then show ?thesis
    using get state applied(2,3) target r(3)
    by (cases s) (auto simp: mark_applied_def reread_change_def on_anchor_def transaction_def split: if_splits)
qed

lemma mark_phase:
  assumes ok: "journal_ok sha (changes_of a (snd s))" and way: "under_way (\<lambda>_ _. True) a g ys r s"
    and applied: "execution_row (fst s) a = Some st" "es_applied_generation st = g + 1" "states_row st r"
  obtains t change r' where "mark_applied a (ch_change_id r) s = (Inr change, t)" "fst t = fst s" "journal_ok sha (changes_of a (snd t))"
    "under_way (\<lambda>_ _. True) a g ys r' t" "ch_status r' = CHANGE_APPLIED" "ch_change_id r' = ch_change_id r" "states_row st r'"
proof -
  let ?db = "if ch_status r = CHANGE_PREPARED then set_change_status a (ch_change_id r) CHANGE_PREPARED CHANGE_APPLIED (snd s) else snd s"
  let ?r = "if ch_status r = CHANGE_PREPARED then r\<lparr>ch_status := CHANGE_APPLIED\<rparr> else r"
  from way have changes: "changes_of a (snd s) = ys @ [r]" and active: "all_active g ys" by (simp_all add: under_way_def)
  have changes': "changes_of a ?db = ys @ [?r]"
    using update_last [OF active, of CHANGE_PREPARED "ch_change_id r"] changes by (simp add: changes_of_status)
  obtain change where run: "mark_applied a (ch_change_id r) s = (Inr change, (fst s, ?db))" using mark_runs [OF ok way applied] by metis
  have "generation_of ?db a = generation_of (snd s) a" by simp
  then have "under_way (\<lambda>_ _. True) a g ys ?r (fst s, ?db)"
    using way applied by (auto simp: under_way_def changes' split: if_split)
  moreover have "journal_ok sha (changes_of a ?db)" using ok changes unfolding changes' by (auto simp: journal_ok_def)
  moreover have "ch_status ?r = CHANGE_APPLIED" using way by (cases "ch_status r") (auto simp: under_way_def)
  ultimately show ?thesis using run applied(3) by (intro that [of change "(fst s, ?db)" ?r]) auto
qed

lemma activate_runs:
  assumes ok: "journal_ok sha (changes_of a (snd s))" and way: "under_way force a g ys r s"
    and applied: "execution_row (fst s) a = Some st" "es_applied_generation st = g + 1" "states_row st r" "ch_status r = CHANGE_APPLIED"
  obtains t where "activate_change a (ch_change_id r) s = (Inr (change_of_row (r\<lparr>ch_status := CHANGE_ACTIVE\<rparr>)), t)"
    "locked_active_generation a t = Inr (g + 1)" "fst t = fst s"
proof -
  let ?c = "ch_change_id r"
  from way ok have changes: "changes_of a (snd s) = ys @ [r]" and active: "all_active g ys" and r: "change_ok sha r"
    "ch_from_generation r = g" and distinct: "?c \<notin> ch_change_id ` set ys" and st: "marker_ok st" and gen: "generation_of (snd s) a = Some g"
    using applied(1) by (auto simp: under_way_def journal_ok_def)
  have none: "row_of ch_change_id ?c ys = None" using distinct by (simp add: row_of_None)
  then have "row_of ch_change_id ?c (changes_of a (snd s)) = Some r" by (simp add: changes find_append)
  then have get: "get_change a ?c (snd s) = Inr (change_of_row r)" by (simp add: get_change_of [OF ok])
  have target: "ch_target_generation r = g + 1" using r by (simp add: change_ok_def)
  note state = execution_state_ok [OF applied(1) st]
  let ?anchors = "(snd s)\<lparr>d_generations := update_where (\<lambda>r. gn_authority_id r = a)
    (\<lambda>q. q\<lparr>gn_current_generation := g + 1\<rparr>) (d_generations (snd s))\<rparr>"
  let ?db = "set_change_status a ?c CHANGE_APPLIED CHANGE_ACTIVE ?anchors"
  let ?r = "r\<lparr>ch_status := CHANGE_ACTIVE\<rparr>"
  have changes': "changes_of a ?db = ys @ [?r]"
    using update_last [OF active, of CHANGE_APPLIED ?c] changes applied(4) by (simp add: changes_of_status)
  have "journal_ok sha (changes_of a ?db)" using ok changes unfolding changes' by (auto simp: journal_ok_def)
  from get_change_of [OF this] have get': "get_change a ?c ?db = Inr (change_of_row ?r)"
    using none unfolding changes' by (simp add: find_append)
  have run: "activate_change a ?c s = (Inr (change_of_row ?r), (fst s, ?db))"
    using get get' state applied target gen r(2)
    by (cases s) (simp add: activate_change_def reread_change_def on_anchor_def transaction_def Let_def)
  have "all_active (g + 1) (changes_of a ?db)"
    using all_active_mono [OF active, of "g + 1"] target unfolding changes' by (auto simp: all_active_def)
  from pending_rest [OF this] generation_set [OF gen, of "g + 1"] state applied(2)
  have "locked_active_generation a (fst s, ?db) = Inr (g + 1)" by (simp add: locked_active_generation_def)
  with run show ?thesis by (intro that [of "(fst s, ?db)"]) auto
qed

lemma recover_runs:
  assumes sha: "\<And>m. length (sha m) = 64" and inv: "control_inv sha (\<lambda>_ _. True) a s"
    and pending: "pending_change a (snd s) = Inr (Some change)"
    and applicable: "\<forall>st. execution_row (fst s) a = Some st \<and> es_applied_generation st = cg_from_generation change \<longrightarrow>
      (\<exists>db. apply_mutation_locked (cg_mutation change) (fst s) = (Inr (), db))"
  obtains active t where "recover_change a s = (Inr (Some active), t)" "cg_change_id active = cg_change_id change" "cg_status active = CHANGE_ACTIVE"
    "locked_active_generation a t = Inr (cg_target_generation change)"
proof -
  from inv show ?thesis
  proof (cases rule: any_history.control_invE)
    case (rest g)
    then have "pending_rows a (snd s) = []" by (auto simp: at_rest_def intro: pending_rest)
    with pending show ?thesis by (simp add: pending_change_def)
  next
    case (moving g ys r)
    note row = any_history.under_way_row [OF moving(2,3)]
    have change: "change = change_of_row r" using pending row(3) row_to_change_ok [OF row(1)] by (simp add: pending_change_def)
    from moving(3) obtain st where st: "execution_row (fst s) a = Some st" "marker_ok st" by (auto simp: under_way_def)
    have from_r: "ch_from_generation r = g" using moving(3) by (simp add: under_way_def)
    have phases: "es_applied_generation st = g \<or> es_applied_generation st = g + 1 \<and> states_row st r"
      using moving(3) st by (auto simp: under_way_def)
    obtain s1 st1 where first: "(if es_applied_generation st = cg_from_generation change
          then op_seq (on_execution (apply_execution a change)) (\<lambda>s. (Inr (), s)) s
        else if es_applied_generation st = cg_target_generation change then
          (if states_change st change then Inr () else Inl (ControlPlaneConvergenceError CHANGE_CONFLICT), s)
        else (Inl (ControlPlaneConvergenceError EXECUTION_GENERATION_MISMATCH), s)) = (Inr (), s1)"
      and s1: "under_way (\<lambda>_ _. True) a g ys r s1" "execution_row (fst s1) a = Some st1" "es_applied_generation st1 = g + 1"
        "states_row st1 r" "journal_ok sha (changes_of a (snd s1))"
    proof (cases "es_applied_generation st = g")
      case True
      with applicable st(1) change from_r obtain db where "apply_mutation_locked (row_mutation r) (fst s) = (Inr (), db)" by auto
      with st True change from_r row(2) apply_execution_applies [OF st, of change db] row(1)
      obtain st' where run: "apply_execution a change (fst s) = (Inr st', mark_generation a change db)"
        and db: "apply_mutation_locked (cg_mutation change) (fst s) = (Inr (), db)"
        by (auto simp: change_ok_def)
      have "execution_row db a = Some st" using apply_mutation_states [OF db] st(1) by simp
      from mark_generation_row [OF this, of change]
      obtain st1 where st1: "execution_row (mark_generation a change db) a = Some st1" "es_applied_generation st1 = g + 1"
        "states_row st1 r" "es_last_mutation_sha256 st1 = Some (ch_mutation_sha256 r)"
        using change row(2) by (auto simp: states_row_def)
      have "marker_ok st1" using st1 moving(1) row(1) by (auto simp: marker_ok_def change_ok_def)
      then have "under_way (\<lambda>_ _. True) a g ys r (mark_generation a change db, snd s)"
        using moving(3) st1 by (auto simp: under_way_def)
      with run st1 True change from_r moving(2) show ?thesis
        by (intro that [of "(mark_generation a change db, snd s)" st1]) (simp_all add: op_seq_def on_execution_def)
    next
      case False
      with phases change from_r row(2) moving st show ?thesis by (intro that [of s st]) simp_all
    qed
    from mark_phase [OF s1(5,1,2,3,4)] obtain s2 c' r' where s2: "mark_applied a (ch_change_id r) s1 = (Inr c', s2)" "fst s2 = fst s1"
      "journal_ok sha (changes_of a (snd s2))" "under_way (\<lambda>_ _. True) a g ys r' s2" "ch_status r' = CHANGE_APPLIED"
      "ch_change_id r' = ch_change_id r" "states_row st1 r'" by metis
    from activate_runs [OF s2(3,4) _ s1(3) s2(7,5)] s1(2) s2(2,6)
    obtain t where t: "activate_change a (ch_change_id r) s2 = (Inr (change_of_row (r'\<lparr>ch_status := CHANGE_ACTIVE\<rparr>)), t)"
      "locked_active_generation a t = Inr (g + 1)" by metis
    have "recover_change a s = (Inr (Some (change_of_row (r'\<lparr>ch_status := CHANGE_ACTIVE\<rparr>))), t)"
      unfolding recover_change_def pending sum.case option.case execution_state_ok [OF st] first
      using s2(1) t(1) change by (simp add: op_seq_def)
    then show ?thesis using t(2) s2(6) change row(2)
      by (intro that [of "change_of_row (r'\<lparr>ch_status := CHANGE_ACTIVE\<rparr>)" t]) simp_all
  qed
qed

text \<open>\<^bold>\<open>C21\<close>. Recovery converges: however a change of the control plane was interrupted, and whatever happened since, one
  call of \<open>recover\<close> finishes the pending change, provided that its mutation can still be applied where it was
  not yet: the change becomes active and both databases agree on its generation again.\<close>

theorem interrupted_change_converges:
  assumes "\<And>m. length (sha m) = 64" and "control_started a s0" and "(control_step sha (\<lambda>_ _. True) a)\<^sup>*\<^sup>* s0 s"
    and "pending_change a (snd s) = Inr (Some change)"
    and "\<And>st. execution_row (fst s) a = Some st \<Longrightarrow> es_applied_generation st = cg_from_generation change \<Longrightarrow>
      \<exists>db. apply_mutation_locked (cg_mutation change) (fst s) = (Inr (), db)"
  shows "\<exists>active t. recover_change a s = (Inr (Some active), t) \<and> cg_change_id active = cg_change_id change \<and>
    cg_status active = CHANGE_ACTIVE \<and> locked_active_generation a t = Inr (cg_target_generation change)"
proof -
  have "control_inv sha (\<lambda>_ _. True) a s" by (rule any_history.steps_inv [OF assms(1,3) started_inv [OF assms(2) TrueI]])
  moreover have "\<forall>st. execution_row (fst s) a = Some st \<and> es_applied_generation st = cg_from_generation change \<longrightarrow>
      (\<exists>db. apply_mutation_locked (cg_mutation change) (fst s) = (Inr (), db))" using assms(5) by blast
  ultimately obtain active t where "recover_change a s = (Inr (Some active), t)" "cg_change_id active = cg_change_id change"
    "cg_status active = CHANGE_ACTIVE" "locked_active_generation a t = Inr (cg_target_generation change)"
    by (rule recover_runs [OF assms(1) _ assms(4)])
  then show ?thesis by blast
qed

text \<open>\<^bold>\<open>C20\<close>. Changes take effect exactly once and in order, although no transaction spans the two databases: after
  any interleaving of calls, crashes and recoveries the tables of the execution database are those that the
  recorded mutations give when they are applied one after the other, each once, where at most the last one,
  still prepared, is missing; and none is missing once the generation is available again.\<close>

theorem crash_safe_changes_apply_once:
  assumes "\<And>m. length (sha m) = 64" and "control_started a s0" and "(control_step sha same_control a)\<^sup>*\<^sup>* s0 s"
  shows "\<exists>rows db. enforce_all (map row_mutation rows) (fst s0) = Inr db \<and> same_control (fst s) db \<and>
    (changes_of a (snd s) = rows \<or>
      (\<exists>r. changes_of a (snd s) = rows @ [r] \<and> ch_status r = CHANGE_PREPARED \<and> locked_active_generation a s = Inl (ControlPlaneConvergenceError CHANGE_PENDING)))"
proof -
  have "in_force (fst s0) [] (fst s0)" by (simp add: in_force_def same_control_def)
  from exact.steps_inv [OF assms(1,3) started_inv [where force = "in_force (fst s0)", OF assms(2) this]]
  have "control_inv sha (in_force (fst s0)) a s" .
  then show ?thesis
  proof (cases rule: exact.control_invE)
    case (rest g)
    then show ?thesis by (auto simp: at_rest_def in_force_def)
  next
    case (moving g ys r)
    have "locked_active_generation a s = Inl (ControlPlaneConvergenceError CHANGE_PENDING)"
      using exact.under_way_row(3) [OF moving(2,3)] by (simp add: locked_active_generation_def)
    with moving(3) show ?thesis unfolding under_way_def in_force_def by blast
  qed
qed

text \<open>\<^bold>\<open>C22\<close>. Effects see every change: if a call of the crash-safe service returns, no change is under way, all of them
  are active, the envelope is of the current generation, and the execution database is what the recorded
  mutations give, each applied once and in order.\<close>

theorem effects_see_every_change:
  assumes "\<And>m. length (sha m) = 64" and "control_started a s0" and "(control_step sha same_control a)\<^sup>*\<^sup>* s0 s"
    and "crash_safe_execute sha' verify config a (t1, t2, envelope) record s = (Inr x, t)"
  shows "(\<forall>r \<in> set (changes_of a (snd s)). ch_status r = CHANGE_ACTIVE) \<and>
    generation_of (snd s) a = Some (ap_control_plane_generation (an_payload envelope)) \<and>
    (\<exists>db. enforce_all (map row_mutation (changes_of a (snd s))) (fst s0) = Inr db \<and> same_control (fst s) db)"
proof -
  have "in_force (fst s0) [] (fst s0)" by (simp add: in_force_def same_control_def)
  from exact.steps_inv [OF assms(1,3) started_inv [where force = "in_force (fst s0)", OF assms(2) this]]
  have "control_inv sha (in_force (fst s0)) a s" .
  then show ?thesis
  proof (cases rule: exact.control_invE)
    case (rest g)
    then have "locked_active_generation a s = Inr g \<or> (\<exists>e. locked_active_generation a s = Inl e)"
      by (auto simp: locked_active_generation_def at_rest_def split: sum.splits)
    with assms(4) have "g = ap_control_plane_generation (an_payload envelope)" by (auto simp: crash_safe_execute_def split: if_splits)
    with rest(3) show ?thesis by (auto simp: at_rest_def all_active_def in_force_def)
  next
    case (moving g ys r)
    have "locked_active_generation a s = Inl (ControlPlaneConvergenceError CHANGE_PENDING)"
      using exact.under_way_row(3) [OF moving(2,3)] by (simp add: locked_active_generation_def)
    with assms(4) show ?thesis by (simp add: crash_safe_execute_def)
  qed
qed

lemma prepare_new:
  assumes sha: "\<And>m. length (sha m) = 64" and rest: "at_rest force a g s" "1 \<le> g" "journal_ok sha (changes_of a (snd s))"
    and new: "row_of ch_change_id c (changes_of a (snd s)) = None" and valid: "mutation_valid m"
  obtains r db where "prepare_change sha a c m (snd s) = (Inr (change_of_row r), db)" "changes_of a db = changes_of a (snd s) @ [r]"
    "row_mutation r = m" "ch_status r = CHANGE_PREPARED" "ch_change_id r = c" "ch_from_generation r = g" "ch_target_generation r = g + 1"
    "generation_of db a = Some g" "change_ok sha r" "journal_ok sha (changes_of a db)"
proof -
  let ?r = "\<lparr>ch_authority_id = a, ch_change_id = c, ch_from_generation = g, ch_target_generation = g + 1,
      ch_mutation_sha256 = control_plane_mutation_hash sha m, ch_mutation_json = mutation_text m, ch_status = CHANGE_PREPARED\<rparr>"
  let ?db = "(snd s)\<lparr>d_control_plane_changes := d_control_plane_changes (snd s) @ [?r]\<rparr>"
  have changes: "changes_of a ?db = changes_of a (snd s) @ [?r]" by (rule changes_of_insert) simp
  have r: "change_ok sha ?r" using valid rest(2) by (auto simp: change_ok_def control_plane_mutation_hash_def sha)
  with rest(3) new have ok: "journal_ok sha (changes_of a ?db)" by (auto simp: changes journal_ok_def row_of_None)
  have "q \<in> set (changes_of a (snd s)) \<Longrightarrow> ch_target_generation q \<noteq> g + 1" for q
    using rest(1) by (auto simp: at_rest_def all_active_def)
  then have "insert_change ?r (snd s) = (Inr (), ?db)" using rest(2) by (auto simp: insert_change_def changes_of_def)
  moreover have "get_change a c ?db = Inr (change_of_row ?r)"
    using new unfolding get_change_of [OF ok] changes by (simp add: find_append)
  ultimately have "prepare_change sha a c m (snd s) = (Inr (change_of_row ?r), ?db)"
    using rest(1) new by (simp add: prepare_change_def transaction_def row_of_change pending_rest [of g] at_rest_def)
  then show ?thesis using changes r ok rest(1) valid
    by (intro that [of ?r ?db]) (simp_all add: row_mutation_def at_rest_def)
qed

lemma control_step_mono:
  "(control_step sha outside a)\<^sup>*\<^sup>* s t \<Longrightarrow> (control_step sha (\<lambda>_ _. True) a)\<^sup>*\<^sup>* s t"
proof (induction rule: rtranclp_induct)
  case (step t u)
  from step.hyps(2) have "control_step sha (\<lambda>_ _. True) a t u" by (cases rule: control_step.cases) (auto intro: control_step.intros)
  with step.IH show ?case by simp
qed simp

abbreviation not_monotonic :: aegis_error where
  "not_monotonic \<equiv> ValueError ''authorization signing key epochs are monotonic''"

lemma passed_epoch_refused:
  assumes "mutation_valid m" and "mu_kind m = SIGNING_KEY_ROTATION" and "mu_issuer_id m = Some issuer" and "mu_audience m = Some audience"
    and "mu_key_epoch m = Some e" and "epoch_reached (issuer, audience) e db"
  shows "apply_mutation_locked m db = (Inl not_monotonic, db)"
proof -
  obtain h k where "mu_public_key_hex m = Some h" "mu_key_id m = Some k" using assms(1,2) by (auto simp: mutation_valid_def split: option.splits)
  with assms show ?thesis by (auto simp: apply_mutation_locked_def apply_key_rotation_def epoch_reached_def)
qed

lemma apply_execution_fails:
  assumes "execution_row db a = Some st" and "marker_ok st" and "es_applied_generation st = cg_from_generation change"
    and "cg_target_generation change = cg_from_generation change + 1" and "apply_mutation_locked (cg_mutation change) db = (Inl e, db)"
  shows "apply_execution a change db = (Inl e, db)"
  using assms by (auto simp: apply_execution_def transaction_def execution_state_locked_def execution_row_to_state_def marker_ok_def split: option.splits)

text \<open>\<^bold>\<open>C23\<close>. A change that cannot be applied wedges the control plane: \<open>prepare\<close> journals a key rotation without looking at
  the current key epoch; when that epoch has already been reached, applying the change raises, now and after
  everything that can happen later, because epochs never go back and no operation withdraws a change. Every
  recovery raises again, no other change can be prepared, and every effect is refused.\<close>

theorem rejected_rotation_wedges_control_plane:
  assumes "\<And>m. length (sha m) = 64" and "control_started a s0" and "(control_step sha epochs_grow a)\<^sup>*\<^sup>* s0 s"
    and "pending_rows a (snd s) = []" and "row_of ch_change_id c (changes_of a (snd s)) = None"
    and "mutation_valid m" and "mu_kind m = SIGNING_KEY_ROTATION" and "mu_issuer_id m = Some issuer" and "mu_audience m = Some audience"
    and "mu_key_epoch m = Some e" and "current_epoch_locked (fst s) (issuer, audience) = Some v" and "e \<le> v"
    and "commit_change sha a c m None s = (res, s1)" and "(control_step sha epochs_grow a)\<^sup>*\<^sup>* s1 s2"
  shows "res = Inl not_monotonic \<and> recover_change a s2 = (Inl not_monotonic, s2) \<and>
    (c' \<notin> ch_change_id ` set (changes_of a (snd s2)) \<longrightarrow>
      prepare_change sha a c' m' (snd s2) = (Inl (ControlPlaneConvergenceError CHANGE_PENDING), snd s2)) \<and>
    crash_safe_execute sha' verify config a call record s2 = (Inl (ControlPlaneConvergenceError CHANGE_PENDING), s2)"
proof -
  let ?force = "\<lambda>rows. epoch_reached (issuer, audience) e"
  have reached: "epoch_reached (issuer, audience) e (fst s)" using assms(11,12) by (auto simp: epoch_reached_def)
  have "control_inv sha (\<lambda>_ _. True) a s"
    by (rule any_history.steps_inv [OF assms(1) control_step_mono [OF assms(3)] started_inv [OF assms(2) TrueI]])
  then obtain g where g: "1 \<le> g" "journal_ok sha (changes_of a (snd s))" "at_rest (\<lambda>_ _. True) a g s"
    using assms(4) any_history.under_way_row(3) by (cases rule: any_history.control_invE) auto
  from prepare_new [OF assms(1) g(3,1,2) assms(5,6)] obtain r db where r: "prepare_change sha a c m (snd s) = (Inr (change_of_row r), db)"
    "changes_of a db = changes_of a (snd s) @ [r]" "row_mutation r = m" "ch_status r = CHANGE_PREPARED" "ch_change_id r = c"
    "ch_from_generation r = g" "ch_target_generation r = g + 1" "generation_of db a = Some g" "change_ok sha r"
    "journal_ok sha (changes_of a db)" by metis
  from g(3) obtain st where st: "execution_row (fst s) a = Some st" "marker_ok st" "es_applied_generation st = g" by (auto simp: at_rest_def)
  have refused: "apply_mutation_locked (row_mutation r) db' = (Inl not_monotonic, db')" if "epoch_reached (issuer, audience) e db'" for db'
    unfolding r(3) by (rule passed_epoch_refused [OF assms(6-10) that])
  have "apply_execution a (change_of_row r) (fst s) = (Inl not_monotonic, fst s)"
    using st r refused [OF reached] by (intro apply_execution_fails) simp_all
  then have commit: "commit_change sha a c m None s = (Inl not_monotonic, (fst s, db))"
    using r(1) by (simp add: commit_change_def on_changes_def op_seq_def crash_if_def on_execution_def)
  have "under_way ?force a g (changes_of a (snd s)) r (fst s, db)"
    using g(3) r st reached by (auto simp: under_way_def at_rest_def)
  then have "growing.stuck sha (issuer, audience) e a r (fst s, db)"
    using g(1) r(4,10) st reached unfolding growing.stuck_def by fastforce
  then have "growing.stuck sha (issuer, audience) e a r s2"
    using growing.stuck_steps [OF _ assms(14)] refused commit assms(13) by (metis fst_conv prod.inject)
  then obtain ys st2 where s2: "pending_rows a (snd s2) = [r]" "changes_of a (snd s2) = ys @ [r]" "execution_row (fst s2) a = Some st2" "marker_ok st2"
    "es_applied_generation st2 = ch_from_generation r" "change_ok sha r" "epoch_reached (issuer, audience) e (fst s2)"
    by (rule growing.stuckD) simp
  have "apply_execution a (change_of_row r) (fst s2) = (Inl not_monotonic, fst s2)"
    using s2 r(6,7) refused by (intro apply_execution_fails) simp_all
  then have "recover_change a s2 = (Inl not_monotonic, s2)"
    using s2 row_to_change_ok [OF s2(6)] execution_state_ok [OF s2(3,4)]
    by (cases s2) (simp add: recover_change_def pending_change_def op_seq_def on_execution_def)
  moreover have "prepare_change sha a c' m' (snd s2) = (Inl (ControlPlaneConvergenceError CHANGE_PENDING), snd s2)"
    if "c' \<notin> ch_change_id ` set (changes_of a (snd s2))"
  proof -
    from that have "row_of change_key (a, c') (d_control_plane_changes (snd s2)) = None" unfolding row_of_change by (simp add: row_of_None)
    then show ?thesis using s2(1) by (simp add: prepare_change_def transaction_def)
  qed
  moreover have "crash_safe_execute sha' verify config a call record s2 = (Inl (ControlPlaneConvergenceError CHANGE_PENDING), s2)"
    using s2(1) by (simp add: crash_safe_execute_def locked_active_generation_def)
  ultimately show ?thesis using commit assms(13) by simp
qed

subsection \<open>The composed operations are sequences of steps\<close>

lemma prepared_is_known:
  assumes "prepare_change sha a c m db = (Inr change, db')"
  shows "get_change a c db' = Inr change"
  using assms by (auto simp: prepare_change_def transaction_def get_change_def split: option.splits sum.splits prod.splits if_splits)

text \<open>The steps that follow \<open>prepare\<close>: with \<open>op_seq\<close> every prefix of them is a sequence of steps.\<close>

definition runs_steps :: "(control_plane \<Rightarrow> control_plane \<Rightarrow> bool) \<Rightarrow> (control_plane, aegis_error, 'a) operation \<Rightarrow> bool" where
  "runs_steps step f \<longleftrightarrow> (\<forall>s res t. f s = (res, t) \<longrightarrow> step\<^sup>*\<^sup>* s t)"

lemma runs_stepsD: "runs_steps step f \<Longrightarrow> f s = (res, t) \<Longrightarrow> step\<^sup>*\<^sup>* s t"
  unfolding runs_steps_def by blast

lemma runs_seq: "runs_steps step f \<Longrightarrow> runs_steps step g \<Longrightarrow> runs_steps step (op_seq f g)"
  unfolding runs_steps_def op_seq_def by (auto split: prod.splits sum.splits) (meson rtranclp_trans)+

lemma runs_crash [simp]: "runs_steps step (crash_if b p)"
  by (simp add: runs_steps_def crash_if_def)

lemma runs_mark [simp]: "runs_steps (control_step sha outside a) (mark_applied a c)"
  by (auto simp: runs_steps_def intro: control_step.mark)

lemma runs_activate [simp]: "runs_steps (control_step sha outside a) (activate_change a c)"
  by (auto simp: runs_steps_def intro: control_step.activate)

lemma apply_execution_steps:
  assumes "get_change a c (snd s) = Inr change" and "on_execution (apply_execution a change) s = (res, t)"
  shows "(control_step sha outside a)\<^sup>*\<^sup>* s t"
  using assms by (auto simp: on_execution_def split: prod.splits intro!: r_into_rtranclp control_step.enforce)

lemma commit_steps:
  assumes "mutation_valid m" and "commit_change sha a c m crash s = (res, t)"
  shows "(control_step sha outside a)\<^sup>*\<^sup>* s t"
proof -
  obtain res1 anchors where prepare: "prepare_change sha a c m (snd s) = (res1, anchors)" by fastforce
  have first: "(control_step sha outside a)\<^sup>*\<^sup>* s (fst s, anchors)"
    using control_step.prepare [OF assms(1) prepare] by (intro r_into_rtranclp) simp
  show ?thesis
  proof (cases res1)
    case (Inl e)
    with assms(2) prepare first show ?thesis by (simp add: commit_change_def on_changes_def)
  next
    case (Inr change)
    let ?rest = "op_seq (crash_if (crash = Some AFTER_EXECUTION_APPLY) AFTER_EXECUTION_APPLY) (op_seq (mark_applied a c)
      (op_seq (crash_if (crash = Some AFTER_MARK_APPLIED) AFTER_MARK_APPLIED) (activate_change a c)))"
    have rest: "runs_steps (control_step sha outside a) ?rest" by (intro runs_seq) simp_all
    from assms(2) prepare Inr have run: "op_seq (crash_if (crash = Some AFTER_PREPARE) AFTER_PREPARE)
        (op_seq (on_execution (apply_execution a change)) ?rest) (fst s, anchors) = (res, t)"
      by (simp add: commit_change_def on_changes_def)
    obtain res2 s2 where exec: "on_execution (apply_execution a change) (fst s, anchors) = (res2, s2)" by (metis surj_pair)
    have second: "(control_step sha outside a)\<^sup>*\<^sup>* (fst s, anchors) s2"
      using prepared_is_known [of sha a c m "snd s" change anchors] prepare Inr by (intro apply_execution_steps [OF _ exec]) simp
    show ?thesis
    proof (cases "crash = Some AFTER_PREPARE")
      case True
      with run first show ?thesis by (simp add: op_seq_def crash_if_def)
    next
      case False
      with run exec have "(res, t) = (case res2 of Inl e \<Rightarrow> (Inl e, s2) | Inr _ \<Rightarrow> ?rest s2)"
        by (simp add: op_seq_def [of "crash_if _ _"] op_seq_def [of "on_execution _"] crash_if_def split: sum.splits)
      then have "(control_step sha outside a)\<^sup>*\<^sup>* s2 t"
        using runs_stepsD [OF rest, of s2 res t] by (cases res2) (simp_all add: eq_commute [of "(res, t)"])
      with first second show ?thesis by (meson rtranclp_trans)
    qed
  qed
qed

lemma recover_steps:
  assumes inv: "control_inv sha force a s" and run: "recover_change a s = (res, t)"
  shows "(control_step sha outside a)\<^sup>*\<^sup>* s t"
proof (cases "pending_change a (snd s)")
  case (Inl e)
  with run show ?thesis by (simp add: recover_change_def)
next
  case (Inr pending)
  show ?thesis
  proof (cases pending)
    case None
    with run Inr show ?thesis by (auto simp: recover_change_def split: sum.splits)
  next
    case (Some change)
    from Inr Some obtain r rs where "sort_key ch_target_generation (pending_rows a (snd s)) = r # rs" "row_to_change r = Inr change"
      by (auto simp: pending_change_def split: list.splits sum.splits)
    then have "r \<in> set (pending_rows a (snd s))" "row_to_change r = Inr change" by (metis list.set_intros(1) set_sort)+
    then have "r \<in> set (changes_of a (snd s))" "row_to_change r = Inr change" by (auto simp: pending_rows_of)
    moreover from inv have "distinct (map ch_change_id (changes_of a (snd s)))" by (simp add: control_inv_def journal_ok_def)
    ultimately have "row_of ch_change_id (cg_change_id change) (changes_of a (snd s)) = Some r"
      by (auto simp: row_of_unique row_to_change_def split: option.splits if_splits)
    with \<open>row_to_change r = Inr change\<close> have known: "get_change a (cg_change_id change) (snd s) = Inr change"
      by (simp add: get_change_def row_of_change)
    let ?finish = "op_seq (mark_applied a (cg_change_id change)) (activate_change a (cg_change_id change))"
    have finish: "runs_steps (control_step sha outside a) ?finish" by (intro runs_seq) simp_all
    have finished: "(control_step sha outside a)\<^sup>*\<^sup>* u t"
      if "(case ?finish u of (Inl e, s) \<Rightarrow> (Inl e, s) | (Inr active, s) \<Rightarrow> (Inr (Some active), s)) = (res, t)" for u
    proof -
      obtain res1 v where v: "?finish u = (res1, v)" by (metis surj_pair)
      with that have "t = v" by (cases res1) simp_all
      with runs_stepsD [OF finish v] show ?thesis by simp
    qed
    show ?thesis
    proof (cases "execution_state_of a (fst s)")
      case (Inl e)
      with run Inr Some show ?thesis by (simp add: recover_change_def)
    next
      case (Inr st)
      obtain res1 u where exec: "on_execution (apply_execution a change) s = (res1, u)" by (metis surj_pair)
      note steps = apply_execution_steps [OF known exec, of sha outside]
      show ?thesis
      proof (cases "es_applied_generation st = cg_from_generation change")
        case True
        with run \<open>pending_change a (snd s) = Inr pending\<close> Some Inr exec
        have "case res1 of Inl e \<Rightarrow> t = u | Inr _ \<Rightarrow> (case ?finish u of (Inl e, s) \<Rightarrow> (Inl e, s) | (Inr active, s) \<Rightarrow> (Inr (Some active), s)) = (res, t)"
          by (cases res1) (simp_all add: recover_change_def op_seq_def [of "on_execution _"])
        then have "(control_step sha outside a)\<^sup>*\<^sup>* u t" using finished [of u] by (cases res1) auto
        with steps show ?thesis by (meson rtranclp_trans)
      next
        case False
        with run \<open>pending_change a (snd s) = Inr pending\<close> Some Inr finished [of s] show ?thesis
          by (auto simp: recover_change_def split: if_splits)
      qed
    qed
  qed
qed

subsection \<open>The crash-safe service is an effect service\<close>

interpretation crash_safe: effect_service "\<lambda>s. d_effect_ledger (fst s)" "crash_safe_execute sha verify config a"
proof
  fix c o1 e and s t :: control_plane
  assume run: "crash_safe_execute sha verify config a c o1 s = (Inl e, t)"
  then show "d_effect_ledger (fst t) = d_effect_ledger (fst s)"
    using provenance.exec_Inl by (fastforce simp: crash_safe_execute_def on_execution_def split: sum.splits option.splits if_splits prod.splits)
next
  fix c o1 x and s t :: control_plane
  assume run: "crash_safe_execute sha verify config a c o1 s = (Inr x, t)"
  then obtain db where "provenance_execute sha verify config
      (fst c, fst (snd c), ap_decision (an_payload (snd (snd c)))) o1 (fst s) = (Inr x, db)" "t = (db, snd s)"
    by (auto simp: crash_safe_execute_def on_execution_def split: sum.splits option.splits if_splits prod.splits)
  with provenance.exec_Inr [of sha verify config _ o1 "fst s" x db]
  show "(\<exists>l. recorded (d_effect_ledger (fst s)) o1 l \<and> t = s \<and> x = execution_of (l_effect_ref l) o1 True) \<or>
    (\<exists>now. fresh_effect (d_effect_ledger (fst s)) o1 \<and> d_effect_ledger (fst t) = d_effect_ledger (fst s) @ [new_ledger_row now o1] \<and>
      x = execution_of (effect_ref_of (o_idempotency_key o1)) o1 False)" by fastforce
qed

text \<open>
  The evidence never raises a fence error, so the worker is the general one of the fenced services, and the
  pipeline with it keeps the guarantees of \<open>pipeline_step\<close>.
\<close>

lemma evidence_no_fence_error:
  assumes "recoverable_evaluate sha sign signer replica a issued_at record s = Inl e"
  shows "\<not> is_anchor_or_provenance_error e"
  using assms
  by (auto simp: recoverable_evaluate_def locked_active_generation_def execution_state_of_def execution_state_locked_def
      execution_row_to_state_def replica_evaluate_def version_get_def anchored_issue_def signer_issue_def is_anchor_or_provenance_error_def Let_def
      split: sum.splits option.splits if_splits)

lemma crash_safe_deliver_fenced:
  "crash_safe_deliver sha sign verify config a signer replica issued_at checked executed =
     fenced_deliver (RollbackAnchorError rollback_anchor_reason.OUTBOX_CANCELLED) is_anchor_or_provenance_error
       (recoverable_evaluate sha sign signer replica a issued_at)
       (\<lambda>envelope. crash_safe_execute sha verify config a (checked, executed, envelope))"
proof (intro ext)
  fix now i w
  show "crash_safe_deliver sha sign verify config a signer replica issued_at checked executed now i w =
     fenced_deliver (RollbackAnchorError rollback_anchor_reason.OUTBOX_CANCELLED) is_anchor_or_provenance_error
       (recoverable_evaluate sha sign signer replica a issued_at)
       (\<lambda>envelope. crash_safe_execute sha verify config a (checked, executed, envelope)) now i w"
    unfolding crash_safe_deliver_def fenced_deliver_def
    by (auto dest: evidence_no_fence_error split: sum.split prod.split)
qed

lemma crash_safe_deliver_steps:
  assumes "crash_safe_deliver sha sign verify config a signer replica t0 t1 t2 t3 j v = (x, v')"
  shows "(pipeline_step sha (\<lambda>s. d_effect_ledger (fst s)) (crash_safe_execute sha verify config a))\<^sup>*\<^sup>* v v'"
  using assms unfolding crash_safe_deliver_fenced
  by (rule crash_safe.fenced_deliver_steps [where ctx = "\<lambda>d. (t1, t2, d)"])

subsection \<open>Concrete runs\<close>

abbreviation lab_execution :: execution_db where
  "lab_execution \<equiv> \<lparr>d_effect_ledger = [],
     d_subjects = [\<lparr>sb_user_id = ''usr_dyn_alice'', sb_tenant_id = ''tenant_northstar_dynamics'', sb_active = True,
       sb_roles_json = compact_roles_json {EMPLOYEE}\<rparr>],
     d_resources = [],
     d_tenant_policies = [\<lparr>tp_tenant_id = ''tenant_northstar_dynamics'', tp_password_reset_enabled = True\<rparr>],
     d_execution_denials = [],
     d_versions = [\<lparr>vr_tenant_id = ''tenant_northstar_dynamics'', vr_policy_version = 1, vr_revocation_epoch = 1\<rparr>],
     d_freshness_denials = [],
     d_trusted_keys = [\<lparr>tk_issuer_id = ''iss'', tk_audience = ''aud'', tk_key_id = ''k1'', tk_key_epoch = 1,
       tk_public_key_hex = bytes_hex ''pk''\<rparr>],
     d_key_epochs = [\<lparr>ke_issuer_id = ''iss'', ke_audience = ''aud'', ke_current_key_epoch = 1\<rparr>],
     d_provenance_denials = [],
     d_execution_states = [\<lparr>es_authority_id = ''cp'', es_applied_generation = 1, es_last_change_id = None, es_last_mutation_sha256 = None\<rparr>]\<rparr>"

abbreviation lab_plane :: control_plane where
  "lab_plane \<equiv> (lab_execution, \<lparr>d_generations = [\<lparr>gn_authority_id = ''cp'', gn_current_generation = 1\<rparr>], d_control_plane_changes = []\<rparr>)"

definition deactivation :: control_plane_mutation where
  "deactivation = \<lparr>mu_kind = SUBJECT_ACTIVE, mu_tenant_id = Some ''tenant_northstar_dynamics'', mu_user_id = Some ''usr_dyn_alice'',
     mu_active = Some False, mu_password_reset_enabled = None, mu_issuer_id = None, mu_audience = None, mu_key_id = None,
     mu_key_epoch = None, mu_public_key_hex = None\<rparr>"

definition old_rotation :: control_plane_mutation where
  "old_rotation = \<lparr>mu_kind = SIGNING_KEY_ROTATION, mu_tenant_id = None, mu_user_id = None, mu_active = None,
     mu_password_reset_enabled = None, mu_issuer_id = Some ''iss'', mu_audience = Some ''aud'', mu_key_id = Some ''k2'',
     mu_key_epoch = Some 1, mu_public_key_hex = Some (bytes_hex (replicate 32 (CHR ''k'')))\<rparr>"

lemma length_bytes_hex [simp]: "length (bytes_hex s) = 2 * length s"
  unfolding bytes_hex_def by (induction s) (simp_all add: Let_def)

lemma deactivation_valid [simp]: "mutation_valid deactivation"
  by (simp add: deactivation_def mutation_valid_def text_field_ok_def)

lemma old_rotation_valid [simp]: "mutation_valid old_rotation"
  unfolding old_rotation_def mutation_valid_def text_field_ok_def by (simp add: bytes_fromhex_hex del: replicate.simps)

lemma lab_started: "control_started ''cp'' lab_plane"
  by (simp add: control_started_def changes_of_def generation_of_def)

abbreviation interrupted :: control_plane where
  "interrupted \<equiv> snd (commit_change demo_sha ''cp'' ''c1'' deactivation (Some AFTER_EXECUTION_APPLY) lab_plane)"

lemma interrupted_steps: "(control_step demo_sha outside ''cp'')\<^sup>*\<^sup>* lab_plane interrupted"
  by (rule commit_steps [OF deactivation_valid surjective_pairing])

definition lab_change :: "change_status \<Rightarrow> change_row" where
  "lab_change st = \<lparr>ch_authority_id = ''cp'', ch_change_id = ''c1'', ch_from_generation = 1, ch_target_generation = 2,
     ch_mutation_sha256 = replicate 64 (CHR ''a''), ch_mutation_json = mutation_text deactivation, ch_status = st\<rparr>"

lemma lab_change_row: "row_to_change (lab_change st) = Inr \<lparr>cg_authority_id = ''cp'', cg_change_id = ''c1'', cg_from_generation = 1,
   cg_target_generation = 2, cg_mutation_sha256 = replicate 64 (CHR ''a''), cg_mutation = deactivation, cg_status = st\<rparr>"
  by (simp add: row_to_change_def lab_change_def del: replicate.simps)

lemma lab_prepare:
  "prepare_change demo_sha ''cp'' ''c1'' deactivation (snd lab_plane) =
    (Inr (change_of_row (lab_change CHANGE_PREPARED)), (snd lab_plane)\<lparr>d_control_plane_changes := [lab_change CHANGE_PREPARED]\<rparr>)"
proof -
  have "row_to_change (lab_change CHANGE_PREPARED) = Inr (change_of_row (lab_change CHANGE_PREPARED))"
    by (simp add: lab_change_row change_of_row_def row_mutation_def del: replicate.simps) (simp add: lab_change_def)
  then show ?thesis
    by (simp add: prepare_change_def transaction_def pending_rows_def generation_of_def insert_change_def get_change_def change_key_def
        control_plane_mutation_hash_def lab_change_def del: replicate.simps)
qed

lemma lab_mutation [simp]: "row_mutation (lab_change st) = deactivation"
  by (simp add: row_mutation_def lab_change_def)

lemma lab_interrupted:
  obtains st where "execution_row (fst interrupted) ''cp'' = Some st" "es_applied_generation st = 2"
    "snd interrupted = (snd lab_plane)\<lparr>d_control_plane_changes := [lab_change CHANGE_PREPARED]\<rparr>"
proof -
  let ?change = "change_of_row (lab_change CHANGE_PREPARED)"
  let ?db = "bump_revocation_epoch ''tenant_northstar_dynamics''
    (lab_execution\<lparr>d_subjects := update_where (\<lambda>r. sb_user_id r = ''usr_dyn_alice'') (\<lambda>r. r\<lparr>sb_active := False\<rparr>)
      (d_subjects lab_execution)\<rparr>)"
  have changed: "apply_mutation_locked deactivation lab_execution = (Inr (), ?db)"
    by (simp add: deactivation_def apply_mutation_locked_def apply_subject_active_def)
  have target [simp]: "ch_from_generation (lab_change x) = 1" "ch_target_generation (lab_change x) = 2"
    "length (ch_mutation_sha256 (lab_change x)) = 64" for x by (simp_all add: lab_change_def)
  obtain st' where "apply_execution ''cp'' ?change lab_execution = (Inr st', mark_generation ''cp'' ?change ?db)"
    using apply_execution_applies [OF _ _ _ _ _ changed [folded lab_mutation [of CHANGE_PREPARED], folded change_of_row_sel(4)], of "''cp''"]
    by (auto simp: marker_ok_def)
  then have run: "interrupted = (mark_generation ''cp'' ?change ?db, (snd lab_plane)\<lparr>d_control_plane_changes := [lab_change CHANGE_PREPARED]\<rparr>)"
    using lab_prepare by (simp add: commit_change_def on_changes_def op_seq_def crash_if_def on_execution_def)
  have "execution_row ?db ''cp'' = execution_row lab_execution ''cp''" using apply_mutation_states [OF changed] by simp
  then have "execution_row ?db ''cp'' = Some \<lparr>es_authority_id = ''cp'', es_applied_generation = 1, es_last_change_id = None,
      es_last_mutation_sha256 = None\<rparr>" by simp
  from mark_generation_row [OF this, of ?change] run that show ?thesis by simp
qed


theorem interrupted_change_converges_witness:
  "\<exists>active t. recover_change ''cp'' interrupted = (Inr (Some active), t) \<and> cg_change_id active = ''c1'' \<and>
     cg_status active = CHANGE_ACTIVE \<and> locked_active_generation ''cp'' t = Inr 2"
proof -
  obtain st where st: "execution_row (fst interrupted) ''cp'' = Some st" "es_applied_generation st = 2"
    "snd interrupted = (snd lab_plane)\<lparr>d_control_plane_changes := [lab_change CHANGE_PREPARED]\<rparr>" by (rule lab_interrupted)
  have row: "row_to_change (lab_change CHANGE_PREPARED) = Inr (change_of_row (lab_change CHANGE_PREPARED))"
    by (simp add: lab_change_row change_of_row_def del: replicate.simps) (simp add: lab_change_def)
  have fields: "ch_from_generation (lab_change CHANGE_PREPARED) = 1" "ch_target_generation (lab_change CHANGE_PREPARED) = 2"
    "ch_change_id (lab_change CHANGE_PREPARED) = ''c1''" "ch_status (lab_change CHANGE_PREPARED) = CHANGE_PREPARED"
    "ch_authority_id (lab_change CHANGE_PREPARED) = ''cp''" by (simp_all add: lab_change_def)
  have "pending_change ''cp'' (snd interrupted) = Inr (Some (change_of_row (lab_change CHANGE_PREPARED)))"
    unfolding st(3) using row fields by (simp add: pending_change_def pending_rows_def)
  from interrupted_change_converges [of demo_sha, OF _ lab_started interrupted_steps this] st(1,2) fields
  show ?thesis by simp
qed

theorem crash_safe_changes_apply_once_witness:
  "\<exists>rows db. enforce_all (map row_mutation rows) lab_execution = Inr db \<and> same_control (fst interrupted) db \<and>
    (changes_of ''cp'' (snd interrupted) = rows \<or>
      (\<exists>r. changes_of ''cp'' (snd interrupted) = rows @ [r] \<and> ch_status r = CHANGE_PREPARED \<and>
        locked_active_generation ''cp'' interrupted = Inl (ControlPlaneConvergenceError CHANGE_PENDING)))"
  using crash_safe_changes_apply_once [of demo_sha, OF _ lab_started interrupted_steps] by simp

definition lab_verify :: "string \<Rightarrow> string \<Rightarrow> string \<Rightarrow> bool" where
  "lab_verify pk sig m \<longleftrightarrow> sig = replicate 64 (CHR ''s'')"

abbreviation lab_envelope :: anchored_decision where
  "lab_envelope \<equiv> \<lparr>an_payload = \<lparr>ap_control_plane_generation = 1, ap_decision = demo_signed_decision\<rparr>,
     an_envelope_signature_b64url = b64url_encode (replicate 64 (CHR ''s''))\<rparr>"

lemma lab_signature: "signature_ok lab_verify (bytes_hex ''pk'') (b64url_encode (replicate 64 (CHR ''s''))) m"
  unfolding signature_ok_def b64url_decode_encode bytes_fromhex_hex lab_verify_def by simp

lemma lab_effect:
  "\<exists>x t. crash_safe_execute demo_sha lab_verify demo_config ''cp'' (10, 11, lab_envelope) demo_outbox lab_plane = (Inr x, t)"
proof -
  have "locked_active_generation ''cp'' lab_plane = Inr 1"
    by (simp add: locked_active_generation_def pending_rows_def generation_of_def execution_state_of_def execution_state_locked_def
        execution_row_to_state_def)
  moreover have "provenance_failure demo_sha lab_verify demo_config 10 demo_signed_decision lab_execution demo_outbox = None"
    using lab_signature by (simp add: provenance_failure_def key_locked_def trusted_key_id_def current_epoch_locked_def key_epoch_id_def
        claims_failure_def authorization_record_binding_def del: replicate.simps)
  moreover have "verify_envelope_signature lab_verify lab_envelope lab_execution = None"
    using lab_signature by (simp add: verify_envelope_signature_def key_locked_def trusted_key_id_def del: replicate.simps)
  ultimately show ?thesis
    by (simp add: crash_safe_execute_def on_execution_def provenance_execute_def fenced_execute_def raise_denial_def transaction_def
        ledger_lookup_def record_effect_def insert_ledger_def execution_of_def)
qed

theorem effects_see_every_change_witness:
  "generation_of (snd lab_plane) ''cp'' = Some 1 \<and>
   (\<exists>db. enforce_all (map row_mutation (changes_of ''cp'' (snd lab_plane))) lab_execution = Inr db \<and> same_control lab_execution db)"
proof -
  obtain x t where "crash_safe_execute demo_sha lab_verify demo_config ''cp'' (10, 11, lab_envelope) demo_outbox lab_plane = (Inr x, t)"
    using lab_effect by blast
  from effects_see_every_change [of demo_sha, OF _ lab_started rtranclp.rtrancl_refl this] show ?thesis by simp
qed

theorem rejected_rotation_wedges_control_plane_witness:
  "fst (commit_change demo_sha ''cp'' ''c2'' old_rotation None lab_plane) = Inl not_monotonic \<and>
   (let s = snd (commit_change demo_sha ''cp'' ''c2'' old_rotation None lab_plane) in
     recover_change ''cp'' s = (Inl not_monotonic, s))"
proof -
  have "mu_kind old_rotation = SIGNING_KEY_ROTATION" "mu_issuer_id old_rotation = Some ''iss''" "mu_audience old_rotation = Some ''aud''"
    "mu_key_epoch old_rotation = Some 1" by (simp_all add: old_rotation_def)
  moreover have "current_epoch_locked (fst lab_plane) (''iss'', ''aud'') = Some 1" by (simp add: current_epoch_locked_def key_epoch_id_def)
  moreover have "pending_rows ''cp'' (snd lab_plane) = []" "row_of ch_change_id ''c2'' (changes_of ''cp'' (snd lab_plane)) = None"
    by (simp_all add: pending_rows_def changes_of_def)
  ultimately show ?thesis
    using rejected_rotation_wedges_control_plane [of demo_sha, OF _ lab_started rtranclp.rtrancl_refl _ _ old_rotation_valid _ _ _ _ _ _
        surjective_pairing rtranclp.rtrancl_refl] by (simp add: Let_def)
qed

end
