(* ===== verification/Incident_Intake.thy ===== *)
theory Incident_Intake
  imports Json Identity "HOL-Library.Product_Lexorder"
begin

section \<open>Incidents: correlation and intake\<close>

text \<open>
  \<open>aegis/detection/incident_context.py\<close> and \<open>aegis/incidents/intake.py\<close>: detections of one tenant and workload become
  one correlated context, contexts of one tenant and workload one incident. A dictionary is the list of its items in
  insertion order, a tuple a list; Python's order of strings and pairs is the lexicographic order of the library.
\<close>

datatype incident_error = IncidentValueError string | IncidentTypeError string

record detection_context =
  dc_event_id :: string
  dc_event_time :: int
  dc_source_id :: string
  dc_source_kind :: string
  dc_event_type :: string
  dc_category :: string
  dc_action :: string
  dc_outcome :: string
  dc_severity :: string
  dc_reason_code :: string
  dc_sequence :: int
  dc_evidence_references :: "(string \<times> string) list"

record correlated_context =
  cc_tenant_ref :: string
  cc_workload_ref :: string
  cc_contributing_event_ids :: "string list"
  cc_evidence_references :: "(string \<times> string) list"
  cc_severities :: "string list"
  cc_highest_severity :: string
  cc_categories :: "string list"

record incident_intake =
  ii_incident_id :: string
  ii_tenant_ref :: string
  ii_workload_ref :: string
  ii_contributing_event_ids :: "string list"
  ii_evidence_references :: "(string \<times> string) list"
  ii_severities :: "string list"
  ii_highest_severity :: string
  ii_categories :: "string list"

type_synonym incident_scope = "string \<times> string"

definition SEVERITY_RANK :: "(string \<times> nat) list" where
  "SEVERITY_RANK = [(''info'', 0), (''low'', 1), (''medium'', 2), (''high'', 3), (''critical'', 4)]"

abbreviation known_severity :: "string \<Rightarrow> bool" where
  "known_severity s \<equiv> map_of SEVERITY_RANK s \<noteq> None"

definition severity_rank :: "string \<Rightarrow> nat" where
  "severity_rank s = the (map_of SEVERITY_RANK s)"

text \<open>\<^verbatim>\<open>sorted\<close> of a set, and of a set of severities by rank.\<close>

definition sorted_set :: "'a::linorder list \<Rightarrow> 'a list" where
  "sorted_set xs = sort (remdups xs)"

definition sorted_severities :: "string list \<Rightarrow> string list" where
  "sorted_severities xs = sort_key (\<lambda>s. (severity_rank s, s)) (remdups xs)"

definition references_named :: "string \<Rightarrow> (string \<times> string) list \<Rightarrow> string list" where
  "references_named n refs = map snd (filter (\<lambda>r. fst r = n) refs)"

text \<open>\<^verbatim>\<open>grouped.setdefault(scope, []).append(x)\<close>, and the same for a value that is not there yet.\<close>

definition add_member :: "'k \<Rightarrow> 'a \<Rightarrow> ('k \<times> 'a list) list \<Rightarrow> ('k \<times> 'a list) list" where
  "add_member k x = AList.map_default k [x] (\<lambda>xs. xs @ [x])"

definition add_new_member :: "'k \<Rightarrow> 'a \<Rightarrow> ('k \<times> 'a list) list \<Rightarrow> ('k \<times> 'a list) list" where
  "add_new_member k x = AList.map_default k [x] (\<lambda>xs. if x \<in> set xs then xs else xs @ [x])"

subsection \<open>DetectionIncidentContextBuilder\<close>

fun unique_contexts :: "detection_context list \<Rightarrow> detection_context list \<Rightarrow> incident_error + detection_context list" where
  "unique_contexts unique [] = Inr unique"
| "unique_contexts unique (c # cs) =
     (if dc_event_id c = [] \<or> \<not> known_severity (dc_severity c) then Inl (IncidentValueError ''DETECTION_CONTEXT_INVALID'')
      else case row_of dc_event_id (dc_event_id c) unique of
        Some existing \<Rightarrow>
          if existing \<noteq> c then Inl (IncidentValueError ''CONFLICTING_EVENT_ID'') else unique_contexts unique cs
      | None \<Rightarrow> unique_contexts (unique @ [c]) cs)"

definition context_scope :: "detection_context \<Rightarrow> incident_scope option" where
  "context_scope c =
     (case (references_named ''tenant_ref'' (dc_evidence_references c), references_named ''workload_ref'' (dc_evidence_references c)) of
        ([t], [w]) \<Rightarrow> if t = [] \<or> w = [] then None else Some (t, w)
      | _ \<Rightarrow> None)"

fun group_detections :: "(incident_scope \<times> detection_context list) list \<Rightarrow> detection_context list
    \<Rightarrow> incident_error + (incident_scope \<times> detection_context list) list" where
  "group_detections grouped [] = Inr grouped"
| "group_detections grouped (c # cs) =
     (case context_scope c of
        None \<Rightarrow> Inl (IncidentValueError ''CORRELATION_CONTEXT_REQUIRED'')
      | Some scope \<Rightarrow> group_detections (add_member scope c grouped) cs)"

definition correlate :: "incident_scope \<times> detection_context list \<Rightarrow> correlated_context" where
  "correlate g =
     (let members = sort_key dc_event_id (snd g); severities = sorted_severities (map dc_severity members) in
      \<lparr>cc_tenant_ref = fst (fst g), cc_workload_ref = snd (fst g),
       cc_contributing_event_ids = map dc_event_id members,
       cc_evidence_references = sorted_set (concat (map dc_evidence_references members)),
       cc_severities = severities, cc_highest_severity = last severities,
       cc_categories = sorted_set (map dc_category members)\<rparr>)"

definition build_contexts :: "detection_context list \<Rightarrow> incident_error + correlated_context list" where
  "build_contexts contexts =
     (if contexts = [] then Inl (IncidentValueError ''DETECTION_CONTEXTS_REQUIRED'')
      else case unique_contexts [] contexts of
        Inl e \<Rightarrow> Inl e
      | Inr unique \<Rightarrow>
          (case group_detections [] unique of
             Inl e \<Rightarrow> Inl e
           | Inr grouped \<Rightarrow> Inr (map correlate (sort_key fst grouped))))"

subsection \<open>IncidentIntakeBoundary\<close>

definition incident_id_of :: "(string \<Rightarrow> string) \<Rightarrow> incident_scope \<Rightarrow> string" where
  "incident_id_of sha scope = ''incident-'' @ take 32 (sha (utf8 (json_dumps False
     (JObj [(''tenant_ref'', JStr (fst scope)), (''workload_ref'', JStr (snd scope))]))))"

text \<open>\<^verbatim>\<open>max\<close> with a key: the first of the greatest.\<close>

definition first_max :: "('a \<Rightarrow> nat) \<Rightarrow> 'a list \<Rightarrow> 'a" where
  "first_max key xs = foldl (\<lambda>b x. if key b < key x then x else b) (hd xs) (tl xs)"

definition validate_context :: "correlated_context \<Rightarrow> incident_error option" where
  "validate_context c =
     (if cc_tenant_ref c = [] \<or> cc_workload_ref c = [] \<or> cc_contributing_event_ids c = [] \<or> cc_evidence_references c = [] \<or>
         cc_severities c = [] \<or> cc_categories c = [] \<or> \<not> known_severity (cc_highest_severity c) \<or>
         (\<exists>s \<in> set (cc_severities c). \<not> known_severity s)
        then Some (IncidentValueError ''CORRELATED_DETECTION_CONTEXT_INVALID'')
      else if \<not> distinct (cc_contributing_event_ids c) \<or> \<not> distinct (cc_evidence_references c) \<or>
         \<not> distinct (cc_severities c) \<or> \<not> distinct (cc_categories c)
        then Some (IncidentValueError ''CORRELATED_DETECTION_CONTEXT_DUPLICATE'')
      else if references_named ''tenant_ref'' (cc_evidence_references c) \<noteq> [cc_tenant_ref c] \<or>
         references_named ''workload_ref'' (cc_evidence_references c) \<noteq> [cc_workload_ref c]
        then Some (IncidentValueError ''INCIDENT_SCOPE_MISMATCH'')
      else if cc_highest_severity c \<noteq> first_max severity_rank (cc_severities c)
        then Some (IncidentValueError ''INCIDENT_SEVERITY_MISMATCH'')
      else None)"

definition cc_scope :: "correlated_context \<Rightarrow> incident_scope" where
  "cc_scope c = (cc_tenant_ref c, cc_workload_ref c)"

fun claim_events :: "incident_scope \<Rightarrow> (string \<times> incident_scope) list \<Rightarrow> string list \<Rightarrow> incident_error + (string \<times> incident_scope) list" where
  "claim_events scope owners [] = Inr owners"
| "claim_events scope owners (e # es) =
     (case map_of owners e of
        Some prior \<Rightarrow>
          if prior \<noteq> scope then Inl (IncidentValueError ''CROSS_TENANT_EVENT_CONFLICT'')
          else claim_events scope (AList.update e scope owners) es
      | None \<Rightarrow> claim_events scope (AList.update e scope owners) es)"

fun group_contexts :: "(incident_scope \<times> correlated_context list) list \<Rightarrow> (string \<times> incident_scope) list \<Rightarrow> correlated_context list
    \<Rightarrow> incident_error + (incident_scope \<times> correlated_context list) list" where
  "group_contexts grouped owners [] = Inr grouped"
| "group_contexts grouped owners (c # cs) =
     (case validate_context c of
        Some e \<Rightarrow> Inl e
      | None \<Rightarrow>
          (case claim_events (cc_scope c) owners (cc_contributing_event_ids c) of
             Inl e \<Rightarrow> Inl e
           | Inr owners \<Rightarrow> group_contexts (add_new_member (cc_scope c) c grouped) owners cs))"

definition incident_of :: "(string \<Rightarrow> string) \<Rightarrow> incident_scope \<times> correlated_context list \<Rightarrow> incident_intake" where
  "incident_of sha g =
     (let members = snd g; severities = sorted_severities (concat (map cc_severities members)) in
      \<lparr>ii_incident_id = incident_id_of sha (fst g), ii_tenant_ref = fst (fst g), ii_workload_ref = snd (fst g),
       ii_contributing_event_ids = sorted_set (concat (map cc_contributing_event_ids members)),
       ii_evidence_references = sorted_set (concat (map cc_evidence_references members)),
       ii_severities = severities, ii_highest_severity = last severities,
       ii_categories = sorted_set (concat (map cc_categories members))\<rparr>)"

definition intake :: "(string \<Rightarrow> string) \<Rightarrow> correlated_context list \<Rightarrow> incident_error + incident_intake list" where
  "intake sha contexts =
     (if contexts = [] then Inl (IncidentValueError ''CORRELATED_DETECTION_CONTEXTS_REQUIRED'')
      else case group_contexts [] [] contexts of
        Inl e \<Rightarrow> Inl e
      | Inr grouped \<Rightarrow> Inr (map (incident_of sha) (sort_key fst grouped)))"

subsection \<open>Grouping\<close>

lemma sorted_set_list [simp]: "sorted_set xs = sorted_list_of_set (set xs)"
  by (simp add: sorted_set_def sorted_list_of_set_sort_remdups)

lemma sorted_severities_sorted: "sorted (map (\<lambda>s. (severity_rank s, s)) (sorted_severities xs))" "distinct (sorted_severities xs)"
  "set (sorted_severities xs) = set xs"
  by (simp_all add: sorted_severities_def)

lemma sorted_severities_cong: "set xs = set ys \<Longrightarrow> sorted_severities xs = sorted_severities ys"
  by (rule map_sorted_distinct_set_unique [where f = "\<lambda>s. (severity_rank s, s)"])
    (auto simp: sorted_severities_sorted distinct_map inj_on_def)

lemma sorted_severities_idem: "sorted_severities (sorted_severities xs) = sorted_severities xs"
  by (rule sorted_severities_cong) (simp add: sorted_severities_sorted)

lemma sorted_severities_Nil [simp]: "sorted_severities xs = [] \<longleftrightarrow> xs = []"
  using sorted_severities_sorted(3) [of xs] by (metis set_empty)

lemma map_of_add_member: "map_of (add_member k x g) = (map_of g)(k \<mapsto> (case map_of g k of None \<Rightarrow> [x] | Some xs \<Rightarrow> xs @ [x]))"
  unfolding add_member_def by (induction g) auto

lemma map_of_add_new_member:
  "map_of (add_new_member k x g) = (map_of g)(k \<mapsto> (case map_of g k of None \<Rightarrow> [x] | Some xs \<Rightarrow> if x \<in> set xs then xs else xs @ [x]))"
  unfolding add_new_member_def by (induction g) auto

lemma distinct_add_member: "distinct (map fst g) \<Longrightarrow> distinct (map fst (add_member k x g))"
  "distinct (map fst g) \<Longrightarrow> distinct (map fst (add_new_member k x g))"
  unfolding add_member_def add_new_member_def by (rule distinct_map_default; assumption)+

text \<open>What is done with the groups depends on the members of each, in the order of the scopes.\<close>

lemma sorted_groups:
  fixes g :: "('k::linorder \<times> 'a list) list"
  assumes "distinct (map fst g)"
  shows "sort_key fst g = map (\<lambda>k. (k, the (map_of g k))) (sorted_list_of_set (fst ` set g))"
proof (rule map_sorted_distinct_set_unique [where f = fst])
  let ?r = "map (\<lambda>k. (k, the (map_of g k))) (sorted_list_of_set (fst ` set g))"
  show set: "set (sort_key fst g) = set ?r" using assms by (auto simp: image_image) force+
  show "inj_on fst (set (sort_key fst g) \<union> set ?r)" using assms unfolding set [symmetric] by (simp add: distinct_map)
  show "distinct (map fst (sort_key fst g))" using assms
    by (simp add: distinct_map)
qed (simp_all add: comp_def)

definition groups_of :: "('a \<Rightarrow> 'k) \<Rightarrow> 'a list \<Rightarrow> ('k \<times> 'a list) list \<Rightarrow> bool" where
  "groups_of f xs g \<longleftrightarrow> distinct (map fst g) \<and> fst ` set g = f ` set xs \<and>
     (\<forall>k ms. map_of g k = Some ms \<longrightarrow> ms \<noteq> [] \<and> set ms = {x \<in> set xs. f x = k})"

lemma groups_of_Nil: "groups_of f [] []"
  by (simp add: groups_of_def)

lemma groups_of_map_of:
  "groups_of f xs g \<Longrightarrow> map_of g k = None \<longleftrightarrow> k \<notin> f ` set xs"
  by (simp add: groups_of_def map_of_eq_None_iff)

lemma groups_of_step:
  assumes g: "groups_of f xs g" and g': "distinct (map fst g')" "map_of g' = (map_of g)(f x \<mapsto> ms)"
    and ms: "ms \<noteq> []" "set ms = insert x (case map_of g (f x) of None \<Rightarrow> {} | Some xs \<Rightarrow> set xs)"
  shows "groups_of f (xs @ [x]) g'"
proof -
  have keys: "fst ` set g' = insert (f x) (fst ` set g)" using g'(2) by (metis dom_fun_upd dom_map_of_conv_image_fst option.distinct(1))
  have "ms' \<noteq> [] \<and> set ms' = {y \<in> set (xs @ [x]). f y = k}" if "map_of g' k = Some ms'" for k ms'
  proof (cases "k = f x")
    case True
    with that g'(2) have "ms' = ms" by simp
    with True ms g show ?thesis unfolding groups_of_def
      by (cases "map_of g (f x)") (auto simp: groups_of_map_of [OF g] intro: rev_image_eqI)
  next
    case False
    with that g'(2) g show ?thesis by (auto simp: groups_of_def)
  qed
  with keys g g'(1) show ?thesis by (auto simp: groups_of_def)
qed

lemma groups_of_add:
  assumes "groups_of f xs g"
  shows "groups_of f (xs @ [x]) (add_member (f x) x g)" "groups_of f (xs @ [x]) (add_new_member (f x) x g)"
proof -
  have "distinct (map fst g)" using assms by (simp add: groups_of_def)
  note distinct = distinct_add_member [OF this, of "f x" x]
  show "groups_of f (xs @ [x]) (add_member (f x) x g)"
    by (rule groups_of_step [OF assms distinct(1) map_of_add_member]) (auto split: option.split)
  have "map_of g (f x) = Some ms \<Longrightarrow> ms \<noteq> []" for ms using assms by (simp add: groups_of_def)
  then show "groups_of f (xs @ [x]) (add_new_member (f x) x g)"
    by (intro groups_of_step [OF assms distinct(2) map_of_add_new_member]) (auto split: option.split)
qed

lemma groups_of_sorted:
  fixes f :: "'a \<Rightarrow> 'k::linorder"
  assumes "groups_of f xs g" and "\<And>k ms ms'. set ms = set ms' \<Longrightarrow> h (k, ms) = h (k, ms')"
  shows "map h (sort_key fst g) = map (\<lambda>k. h (k, filter (\<lambda>x. f x = k) xs)) (sorted_set (map f xs))"
proof -
  have "h (k, the (map_of g k)) = h (k, filter (\<lambda>x. f x = k) xs)" if "k \<in> f ` set xs" for k
  proof -
    from that groups_of_map_of [OF assms(1)] obtain ms where "map_of g k = Some ms" by (cases "map_of g k") auto
    with assms(1) show ?thesis by (auto simp: groups_of_def intro!: assms(2))
  qed
  moreover have "distinct (map fst g)" "fst ` set g = f ` set xs" using assms(1) by (simp_all add: groups_of_def)
  ultimately show ?thesis by (simp add: sorted_groups)
qed

subsection \<open>What intake computes\<close>

definition owns :: "correlated_context list \<Rightarrow> string \<Rightarrow> incident_scope \<Rightarrow> bool" where
  "owns cs e s \<longleftrightarrow> (\<exists>c \<in> set cs. e \<in> set (cc_contributing_event_ids c) \<and> cc_scope c = s)"

lemma owns_snoc: "owns (cs @ [c]) e s \<longleftrightarrow> owns cs e s \<or> e \<in> set (cc_contributing_event_ids c) \<and> s = cc_scope c"
  by (auto simp: owns_def)

definition consistent :: "correlated_context list \<Rightarrow> bool" where
  "consistent cs \<longleftrightarrow> (\<forall>c \<in> set cs. validate_context c = None) \<and> (\<forall>e s s'. owns cs e s \<longrightarrow> owns cs e s' \<longrightarrow> s = s')"

lemma claim_events_ok:
  assumes "\<forall>e \<in> set es. map_of owners e = None \<or> map_of owners e = Some s"
  shows "\<exists>owners'. claim_events s owners es = Inr owners' \<and> map_of owners' = (\<lambda>e. if e \<in> set es then Some s else map_of owners e)"
  using assms
proof (induction es arbitrary: owners)
  case (Cons e es)
  have "\<forall>x \<in> set es. map_of (AList.update e s owners) x = None \<or> map_of (AList.update e s owners) x = Some s"
    using Cons.prems by (auto simp: update_conv')
  from Cons.IH [OF this] obtain owners' where step: "claim_events s (AList.update e s owners) es = Inr owners'"
    "map_of owners' = (\<lambda>x. if x \<in> set es then Some s else map_of (AList.update e s owners) x)" by blast
  have "claim_events s owners (e # es) = claim_events s (AList.update e s owners) es"
    using Cons.prems by (auto split: option.split)
  with step show ?case by (auto simp: update_conv' fun_eq_iff)
qed (simp add: fun_eq_iff)

lemma claim_events_conflict:
  "claim_events s owners es = Inr owners' \<Longrightarrow> e \<in> set es \<Longrightarrow> map_of owners e = None \<or> map_of owners e = Some s"
proof (induction es arbitrary: owners)
  case (Cons x es)
  have x: "map_of owners x = None \<or> map_of owners x = Some s" and rest: "claim_events s (AList.update x s owners) es = Inr owners'"
    using Cons.prems(1) by (auto split: option.splits if_splits)
  show ?case
  proof (cases "e = x")
    case False
    with Cons.prems(2) Cons.IH [OF rest] show ?thesis by (simp add: update_conv')
  qed (use x in simp)
qed simp

definition owners_of :: "(string \<times> incident_scope) list \<Rightarrow> correlated_context list \<Rightarrow> bool" where
  "owners_of owners cs \<longleftrightarrow> (\<forall>e s. map_of owners e = Some s \<longleftrightarrow> owns cs e s)"

lemma consistent_snoc:
  assumes "consistent cs" and "owners_of owners cs"
  shows "consistent (cs @ [c]) \<longleftrightarrow> validate_context c = None \<and>
    (\<forall>e \<in> set (cc_contributing_event_ids c). map_of owners e = None \<or> map_of owners e = Some (cc_scope c))" (is "?l \<longleftrightarrow> ?r")
proof
  assume ?l
  then have unique: "owns (cs @ [c]) e s \<Longrightarrow> owns (cs @ [c]) e s' \<Longrightarrow> s = s'" for e s s'
    unfolding consistent_def by blast
  have "validate_context c = None" using \<open>?l\<close> by (simp add: consistent_def)
  moreover have "map_of owners e = Some (cc_scope c)" if "e \<in> set (cc_contributing_event_ids c)" "map_of owners e = Some s" for e s
  proof -
    have "owns cs e s" using assms(2) that(2) by (simp only: owners_of_def)
    then have "s = cc_scope c" using that(1) by (intro unique [of e]) (simp_all only: owns_snoc simp_thms)
    with that(2) show ?thesis by simp
  qed
  ultimately show ?r by (metis not_None_eq)
next
  assume r: ?r
  have new: "s = cc_scope c" if "owns cs e s" "e \<in> set (cc_contributing_event_ids c)" for e s
  proof -
    have "map_of owners e = Some s" using assms(2) that(1) by (simp only: owners_of_def)
    with r that(2) show ?thesis by fastforce
  qed
  have "s = s'" if "owns (cs @ [c]) e s" "owns (cs @ [c]) e s'" for e s s'
    using that new assms(1) unfolding owns_snoc consistent_def by blast
  with r assms(1) show ?l unfolding consistent_def by auto
qed

lemma consistent_prefix: "consistent (cs @ ds) \<Longrightarrow> consistent cs"
  unfolding consistent_def owns_def set_append by blast

lemma group_contexts_spec:
  assumes "groups_of cc_scope cs g" and "consistent cs" and "owners_of owners cs"
  shows "(if consistent (cs @ ds) then \<exists>g'. group_contexts g owners ds = Inr g' \<and> groups_of cc_scope (cs @ ds) g'
    else \<exists>e. group_contexts g owners ds = Inl e)"
  using assms
proof (induction ds arbitrary: cs g owners)
  case (Cons d ds)
  show ?case
  proof (cases "consistent (cs @ [d])")
    case True
    with consistent_snoc [OF Cons.prems(2,3)] claim_events_ok [of "cc_contributing_event_ids d" owners "cc_scope d"]
    obtain owners' where d: "validate_context d = None" "claim_events (cc_scope d) owners (cc_contributing_event_ids d) = Inr owners'"
      and owners': "map_of owners' = (\<lambda>e. if e \<in> set (cc_contributing_event_ids d) then Some (cc_scope d) else map_of owners e)"
      by blast
    have "owners_of owners' (cs @ [d])" unfolding owners_of_def
    proof (intro allI)
      fix e s
      have known: "map_of owners e = Some s \<longleftrightarrow> owns cs e s" using Cons.prems(3) by (simp only: owners_of_def)
      show "map_of owners' e = Some s \<longleftrightarrow> owns (cs @ [d]) e s"
      proof (cases "e \<in> set (cc_contributing_event_ids d)")
        case e: True
        then have "owns (cs @ [d]) e (cc_scope d)" by (simp add: owns_snoc)
        with e owners' True show ?thesis unfolding consistent_def by (metis option.inject)
      next
        case False
        with owners' known show ?thesis by (simp add: owns_snoc)
      qed
    qed
    from Cons.IH [OF groups_of_add(2) [OF Cons.prems(1)] True this] d show ?thesis by (simp split: if_splits)
  next
    case False
    have "\<exists>e. group_contexts g owners (d # ds) = Inl e"
    proof (cases "claim_events (cc_scope d) owners (cc_contributing_event_ids d)")
      case (Inr owners')
      have "\<forall>e \<in> set (cc_contributing_event_ids d). map_of owners e = None \<or> map_of owners e = Some (cc_scope d)"
        by (rule ballI) (rule claim_events_conflict [OF Inr])
      with False have "validate_context d \<noteq> None" unfolding consistent_snoc [OF Cons.prems(2,3)] by (metis (no_types))
      then show ?thesis by auto
    qed (auto split: option.split)
    moreover have "\<not> consistent (cs @ d # ds)" using False consistent_prefix [of "cs @ [d]" ds] by auto
    ultimately show ?thesis by simp
  qed
qed simp

lemma incident_of_cong:
  assumes "set ms = set ms'"
  shows "incident_of sha (s, ms) = incident_of sha (s, ms')"
proof -
  have "sorted_severities (concat (map cc_severities ms)) = sorted_severities (concat (map cc_severities ms'))"
    by (rule sorted_severities_cong) (simp add: assms)
  then show ?thesis by (simp add: incident_of_def assms)
qed

definition intake_of :: "(string \<Rightarrow> string) \<Rightarrow> correlated_context list \<Rightarrow> incident_intake list" where
  "intake_of sha cs = map (\<lambda>s. incident_of sha (s, filter (\<lambda>c. cc_scope c = s) cs)) (sorted_set (map cc_scope cs))"

lemma intake_spec: "intake sha cs = Inr incidents \<longleftrightarrow> cs \<noteq> [] \<and> consistent cs \<and> incidents = intake_of sha cs"
proof -
  have "groups_of cc_scope [] []" "consistent []" "owners_of [] []"
    by (simp_all add: groups_of_Nil consistent_def owners_of_def owns_def)
  from group_contexts_spec [OF this, of cs]
  consider g where "consistent cs" "group_contexts [] [] cs = Inr g" "groups_of cc_scope cs g"
    | e where "\<not> consistent cs" "group_contexts [] [] cs = Inl e" by (auto split: if_splits)
  then show ?thesis
  proof cases
    case (1 g)
    from groups_of_sorted [where h = "incident_of sha", OF 1(3) incident_of_cong] 1 show ?thesis
      by (auto simp: intake_def intake_of_def)
  qed (auto simp: intake_def)
qed

subsection \<open>Properties of intake\<close>

lemma validE:
  assumes "validate_context c = None"
  shows "references_named ''tenant_ref'' (cc_evidence_references c) = [cc_tenant_ref c]"
    "references_named ''workload_ref'' (cc_evidence_references c) = [cc_workload_ref c]"
    "cc_severities c \<noteq> []" "\<And>s. s \<in> set (cc_severities c) \<Longrightarrow> known_severity s"
    "cc_highest_severity c = first_max severity_rank (cc_severities c)"
  using assms unfolding validate_context_def by (simp_all split: if_splits)

lemma first_max_in: "xs \<noteq> [] \<Longrightarrow> first_max key xs \<in> set xs"
proof -
  have "foldl (\<lambda>b x. if key b < key x then x else b) b ys \<in> insert b (set ys)" for b ys
    by (induction ys arbitrary: b) (auto split: if_splits)
  then show "xs \<noteq> [] \<Longrightarrow> ?thesis" by (cases xs) (auto simp: first_max_def)
qed

lemma references_named_set: "set (references_named n refs) = {v. (n, v) \<in> set refs}"
  by (force simp: references_named_def)

lemma sorted_last_max:
  assumes "x \<in> set (sorted_severities xs)"
  shows "severity_rank x \<le> severity_rank (last (sorted_severities xs))"
proof -
  let ?ys = "sorted_severities xs"
  from assms obtain ys z where ys: "?ys = ys @ [z]" by (metis append_butlast_last_id list.distinct(1) list.set_cases)
  with sorted_severities_sorted(1) [of xs] assms show ?thesis by (auto simp: sorted_append)
qed

lemma distinct_references_named: "distinct refs \<Longrightarrow> distinct (references_named n refs)"
  unfolding references_named_def by (auto simp: distinct_map inj_on_def)

lemma singleton_list: "set xs = {x} \<Longrightarrow> distinct xs \<Longrightarrow> xs = [x]"
  by (cases xs) (auto dest: subset_singletonD split: if_splits)

lemma references_named_sorted:
  assumes "\<forall>c \<in> set ms. references_named n (refs c) = [t]" and "ms \<noteq> []"
  shows "references_named n (sorted_set (concat (map refs ms))) = [t]"
proof -
  have "{v. (n, v) \<in> set (refs c)} = {t}" if "c \<in> set ms" for c
    using assms(1) that references_named_set [of n "refs c"] by simp
  then have "(\<Union>c \<in> set ms. {v. (n, v) \<in> set (refs c)}) = {t}" using assms(2) by auto
  moreover have "set (references_named n (sorted_set (concat (map refs ms)))) = (\<Union>c \<in> set ms. {v. (n, v) \<in> set (refs c)})"
    by (auto simp: references_named_set)
  ultimately have "set (references_named n (sorted_set (concat (map refs ms)))) = {t}" by simp
  moreover have "distinct (references_named n (sorted_set (concat (map refs ms))))" by (simp add: distinct_references_named)
  ultimately show ?thesis by (rule singleton_list)
qed

lemma incident_of_sel:
  "ii_tenant_ref (incident_of sha g) = fst (fst g)" "ii_workload_ref (incident_of sha g) = snd (fst g)"
  "set (ii_contributing_event_ids (incident_of sha g)) = (\<Union>c \<in> set (snd g). set (cc_contributing_event_ids c))"
  "ii_evidence_references (incident_of sha g) = sorted_set (concat (map cc_evidence_references (snd g)))"
  "ii_highest_severity (incident_of sha g) = last (sorted_severities (concat (map cc_severities (snd g))))"
  by (simp_all add: incident_of_def Let_def)

text \<open>The order and the repetition of the correlated contexts do not matter: two lists with the same members
  give the same incidents, and if one is refused so is the other.\<close>

theorem intake_order_irrelevant:
  assumes "set cs = set ds"
  shows "intake sha cs = Inr incidents \<longleftrightarrow> intake sha ds = Inr incidents"
proof -
  have "consistent cs \<longleftrightarrow> consistent ds" using assms by (simp add: consistent_def owns_def)
  moreover have "cs = [] \<longleftrightarrow> ds = []" using assms by auto
  moreover have "intake_of sha cs = intake_of sha ds"
    unfolding intake_of_def by (auto simp: assms intro!: incident_of_cong)
  ultimately show ?thesis by (simp add: intake_spec)
qed

text \<open>\<^bold>\<open>C24\<close>. Incidents neither mix tenants nor lose detections: intake makes one incident for each tenant and workload;
  an event of an incident, and every tenant named in its evidence, is of its own tenant and workload only; and
  every context is contained in the incident of its scope, whose severity is at least the context's.\<close>

theorem intake_separates_and_keeps:
  assumes "intake sha cs = Inr incidents"
  shows "distinct (map (\<lambda>i. (ii_tenant_ref i, ii_workload_ref i)) incidents) \<and>
    (\<forall>i \<in> set incidents. (\<forall>c \<in> set cs. set (cc_contributing_event_ids c) \<inter> set (ii_contributing_event_ids i) \<noteq> {} \<longrightarrow>
        cc_scope c = (ii_tenant_ref i, ii_workload_ref i)) \<and>
      references_named ''tenant_ref'' (ii_evidence_references i) = [ii_tenant_ref i]) \<and>
    (\<forall>c \<in> set cs. \<exists>i \<in> set incidents. cc_scope c = (ii_tenant_ref i, ii_workload_ref i) \<and>
      set (cc_contributing_event_ids c) \<subseteq> set (ii_contributing_event_ids i) \<and>
      set (cc_evidence_references c) \<subseteq> set (ii_evidence_references i) \<and>
      severity_rank (cc_highest_severity c) \<le> severity_rank (ii_highest_severity i))"
proof -
  let ?members = "\<lambda>s. filter (\<lambda>c. cc_scope c = s) cs" and ?scope = "\<lambda>i. (ii_tenant_ref i, ii_workload_ref i)"
  have cs: "consistent cs" "incidents = intake_of sha cs" using assms by (simp_all add: intake_spec)
  then have "map ?scope incidents = sorted_set (map cc_scope cs)"
    by (simp add: intake_of_def incident_of_sel comp_def)
  then have one: "distinct (map ?scope incidents)" by simp
  have incident: "\<exists>s. i = incident_of sha (s, ?members s) \<and> s \<in> cc_scope ` set cs" if "i \<in> set incidents" for i
    using that cs(2) by (auto simp: intake_of_def simp del: split_paired_Ex)
  have own: "cc_scope c = ?scope i" if "i \<in> set incidents" "c \<in> set cs"
    "set (cc_contributing_event_ids c) \<inter> set (ii_contributing_event_ids i) \<noteq> {}" for i c
  proof -
    from incident [OF that(1)] obtain s where i: "i = incident_of sha (s, ?members s)" by blast
    with that(3) obtain e d where "e \<in> set (cc_contributing_event_ids c)" "d \<in> set cs" "cc_scope d = s" "e \<in> set (cc_contributing_event_ids d)"
      by (auto simp: incident_of_sel)
    then have "owns cs e s" "owns cs e (cc_scope c)" using that(2) unfolding owns_def by blast+
    with cs(1) i show ?thesis unfolding consistent_def by (metis incident_of_sel(1,2) prod.sel(1) prod.collapse)
  qed
  have named: "references_named ''tenant_ref'' (ii_evidence_references i) = [ii_tenant_ref i]" if "i \<in> set incidents" for i
  proof -
    from incident [OF that] obtain s where i: "i = incident_of sha (s, ?members s)" "s \<in> cc_scope ` set cs" by blast
    have "\<forall>c \<in> set (?members s). references_named ''tenant_ref'' (cc_evidence_references c) = [fst s]"
      using cs(1) validE(1) by (auto simp: consistent_def cc_scope_def)
    moreover have "?members s \<noteq> []" using i(2) by (auto simp: filter_empty_conv)
    ultimately show ?thesis unfolding i(1) incident_of_sel prod.sel by (rule references_named_sorted)
  qed
  have kept: "\<exists>i \<in> set incidents. cc_scope c = ?scope i \<and> set (cc_contributing_event_ids c) \<subseteq> set (ii_contributing_event_ids i) \<and>
      set (cc_evidence_references c) \<subseteq> set (ii_evidence_references i) \<and>
      severity_rank (cc_highest_severity c) \<le> severity_rank (ii_highest_severity i)" if "c \<in> set cs" for c
  proof (rule bexI [of _ "incident_of sha (cc_scope c, ?members (cc_scope c))"])
    show "incident_of sha (cc_scope c, ?members (cc_scope c)) \<in> set incidents" using that cs(2) by (auto simp: intake_of_def)
    have valid: "validate_context c = None" using cs(1) that by (simp add: consistent_def)
    have "cc_highest_severity c \<in> set (sorted_severities (concat (map cc_severities (?members (cc_scope c)))))"
      using that validE(3,5) [OF valid] first_max_in [of "cc_severities c"] by (auto simp: sorted_severities_sorted)
    from sorted_last_max [OF this] that
    show "cc_scope c = ?scope (incident_of sha (cc_scope c, ?members (cc_scope c))) \<and>
      set (cc_contributing_event_ids c) \<subseteq> set (ii_contributing_event_ids (incident_of sha (cc_scope c, ?members (cc_scope c)))) \<and>
      set (cc_evidence_references c) \<subseteq> set (ii_evidence_references (incident_of sha (cc_scope c, ?members (cc_scope c)))) \<and>
      severity_rank (cc_highest_severity c) \<le> severity_rank (ii_highest_severity (incident_of sha (cc_scope c, ?members (cc_scope c))))"
      by (auto simp: incident_of_sel)
  qed
  from one own named kept show ?thesis by blast
qed

subsection \<open>Correlated detections are taken in\<close>

lemma unique_contexts_Inr:
  assumes "unique_contexts u cs = Inr u'" and "distinct (map dc_event_id u)"
  shows "distinct (map dc_event_id u') \<and> set u' = set u \<union> set cs \<and>
    (\<forall>c \<in> set cs. dc_event_id c \<noteq> [] \<and> known_severity (dc_severity c))"
  using assms
proof (induction cs arbitrary: u)
  case (Cons c cs)
  have c: "dc_event_id c \<noteq> []" "known_severity (dc_severity c)" using Cons.prems(1) by (auto split: if_splits)
  show ?case
  proof (cases "row_of dc_event_id (dc_event_id c) u")
    case None
    then have "distinct (map dc_event_id (u @ [c]))" using Cons.prems(2) by (auto simp: row_of_None)
    with Cons.IH [of "u @ [c]"] Cons.prems(1) None c show ?thesis by auto
  next
    case (Some d)
    with Cons.prems(1) c have "d = c" "unique_contexts u cs = Inr u'" by (auto split: if_splits)
    with Cons.IH [of u] Cons.prems(2) Some c show ?thesis by (auto dest: row_of_SomeD)
  qed
qed simp

definition exact_groups :: "('a \<Rightarrow> 'k) \<Rightarrow> 'a list \<Rightarrow> ('k \<times> 'a list) list \<Rightarrow> bool" where
  "exact_groups f xs g \<longleftrightarrow> distinct (map fst g) \<and>
     (\<forall>k. map_of g k = (let ms = filter (\<lambda>x. f x = k) xs in if ms = [] then None else Some ms))"

lemma exact_groups_add:
  assumes "exact_groups f xs g"
  shows "exact_groups f (xs @ [x]) (add_member (f x) x g)"
proof -
  have "map_of g k = (let ms = filter (\<lambda>x. f x = k) xs in if ms = [] then None else Some ms)" for k
    using assms by (simp add: exact_groups_def)
  then have "map_of (add_member (f x) x g) k = (let ms = filter (\<lambda>y. f y = k) (xs @ [x]) in if ms = [] then None else Some ms)" for k
    by (auto simp: map_of_add_member Let_def)
  with assms show ?thesis by (simp add: exact_groups_def distinct_add_member)
qed

lemma exact_groups_sorted:
  fixes f :: "'a \<Rightarrow> 'k::linorder"
  assumes "exact_groups f xs g"
  shows "sort_key fst g = map (\<lambda>k. (k, filter (\<lambda>x. f x = k) xs)) (sorted_set (map f xs))"
proof -
  from assms have lookup: "map_of g k = (let ms = filter (\<lambda>x. f x = k) xs in if ms = [] then None else Some ms)" for k
    by (simp add: exact_groups_def)
  then have "k \<in> fst ` set g \<longleftrightarrow> k \<in> f ` set xs" for k
    using map_of_eq_None_iff [of g k] by (auto simp: Let_def filter_empty_conv split: if_splits)
  then have "fst ` set g = f ` set xs" by blast
  moreover have "the (map_of g k) = filter (\<lambda>x. f x = k) xs" if "k \<in> f ` set xs" for k
    using that lookup [of k] by (auto simp: Let_def filter_empty_conv)
  ultimately show ?thesis using assms by (simp add: sorted_groups exact_groups_def)
qed

abbreviation scope_of :: "detection_context \<Rightarrow> incident_scope" where
  "scope_of c \<equiv> the (context_scope c)"

lemma group_detections_Inr:
  assumes "group_detections g cs = Inr g'" and "exact_groups scope_of ds g"
  shows "exact_groups scope_of (ds @ cs) g' \<and> (\<forall>c \<in> set cs. context_scope c \<noteq> None)"
  using assms
proof (induction cs arbitrary: g ds)
  case (Cons c cs)
  then obtain s where c: "context_scope c = Some s" "group_detections (add_member s c g) cs = Inr g'"
    by (auto split: option.splits simp del: split_paired_Ex)
  have "exact_groups scope_of (ds @ [c]) (add_member s c g)" using exact_groups_add [OF Cons.prems(2), of c] c(1) by simp
  from Cons.IH [OF c(2) this] c(1) show ?case by simp
qed simp

definition correlated_of :: "detection_context list \<Rightarrow> correlated_context list" where
  "correlated_of u = map (\<lambda>s. correlate (s, filter (\<lambda>c. scope_of c = s) u)) (sorted_set (map scope_of u))"

definition correlatable :: "detection_context list \<Rightarrow> bool" where
  "correlatable u \<longleftrightarrow> u \<noteq> [] \<and> distinct (map dc_event_id u) \<and>
     (\<forall>c \<in> set u. dc_event_id c \<noteq> [] \<and> known_severity (dc_severity c) \<and> context_scope c \<noteq> None)"

lemma build_contexts_spec:
  assumes "build_contexts xs = Inr cs"
  obtains u where "set u = set xs" "correlatable u" "cs = correlated_of u"
proof -
  from assms obtain u g where xs: "xs \<noteq> []" "unique_contexts [] xs = Inr u" "group_detections [] u = Inr g" "cs = map correlate (sort_key fst g)"
    by (auto simp: build_contexts_def split: sum.splits if_splits)
  from unique_contexts_Inr [OF xs(2)] have u: "distinct (map dc_event_id u)" "set u = set xs"
    "\<forall>c \<in> set xs. dc_event_id c \<noteq> [] \<and> known_severity (dc_severity c)" by simp_all
  have "exact_groups scope_of [] []" by (simp add: exact_groups_def)
  from group_detections_Inr [OF xs(3) this] have g: "exact_groups scope_of u g" "\<forall>c \<in> set u. context_scope c \<noteq> None" by simp_all
  have "correlatable u" using u g(2) xs(1) by (auto simp: correlatable_def)
  moreover have "cs = correlated_of u" unfolding xs(4) exact_groups_sorted [OF g(1)] by (simp add: correlated_of_def)
  ultimately show ?thesis using that u(2) by blast
qed

lemma ranks_inject: "known_severity a \<Longrightarrow> known_severity b \<Longrightarrow> severity_rank a = severity_rank b \<Longrightarrow> a = b"
  by (auto simp: severity_rank_def SEVERITY_RANK_def split: if_splits)

lemma first_max_increasing:
  assumes "sorted_wrt (\<lambda>a b. severity_rank a < severity_rank b) xs" and "xs \<noteq> []"
  shows "first_max severity_rank xs = last xs"
proof -
  have "sorted_wrt (\<lambda>a b. severity_rank a < severity_rank b) (b # ys) \<Longrightarrow>
      foldl (\<lambda>b x. if severity_rank b < severity_rank x then x else b) b ys = last (b # ys)" for b ys
    by (induction ys arbitrary: b) auto
  with assms show ?thesis by (cases xs) (simp_all add: first_max_def)
qed

lemma sorted_severities_max:
  assumes "\<forall>s \<in> set xs. known_severity s" and "xs \<noteq> []"
  shows "first_max severity_rank (sorted_severities xs) = last (sorted_severities xs)"
proof (rule first_max_increasing)
  have "sorted_wrt (\<lambda>a b. (severity_rank a, a) < (severity_rank b, b)) (sorted_severities xs)"
    using sorted_severities_sorted(1,2) [of xs] strict_sorted_iff [of "map (\<lambda>s. (severity_rank s, s)) (sorted_severities xs)"]
    by (simp add: sorted_wrt_map distinct_map inj_on_def)
  then show "sorted_wrt (\<lambda>a b. severity_rank a < severity_rank b) (sorted_severities xs)"
  proof (rule sorted_wrt_mono_rel [rotated])
    fix a b assume "a \<in> set (sorted_severities xs)" "b \<in> set (sorted_severities xs)" "(severity_rank a, a) < (severity_rank b, b)"
    with assms(1) ranks_inject [of a b] show "severity_rank a < severity_rank b"
      by (cases "severity_rank a = severity_rank b") (auto simp: sorted_severities_sorted)
  qed
qed (use assms(2) in simp)

lemma context_scopeE:
  assumes "context_scope c = Some s"
  shows "references_named ''tenant_ref'' (dc_evidence_references c) = [fst s]"
    "references_named ''workload_ref'' (dc_evidence_references c) = [snd s]" "fst s \<noteq> []" "snd s \<noteq> []"
  using assms unfolding context_scope_def by (auto split: list.splits if_splits)

lemma correlate_sel:
  "cc_scope (correlate g) = fst g"
  "cc_contributing_event_ids (correlate g) = map dc_event_id (sort_key dc_event_id (snd g))"
  "cc_evidence_references (correlate g) = sorted_set (concat (map dc_evidence_references (snd g)))"
  "cc_severities (correlate g) = sorted_severities (map dc_severity (snd g))"
  "cc_highest_severity (correlate g) = last (sorted_severities (map dc_severity (snd g)))"
  "cc_categories (correlate g) = sorted_set (map dc_category (snd g))"
proof -
  have "sorted_severities (map dc_severity (sort_key dc_event_id (snd g))) = sorted_severities (map dc_severity (snd g))"
    by (rule sorted_severities_cong) simp
  then show "cc_scope (correlate g) = fst g"
    "cc_contributing_event_ids (correlate g) = map dc_event_id (sort_key dc_event_id (snd g))"
    "cc_evidence_references (correlate g) = sorted_set (concat (map dc_evidence_references (snd g)))"
    "cc_severities (correlate g) = sorted_severities (map dc_severity (snd g))"
    "cc_highest_severity (correlate g) = last (sorted_severities (map dc_severity (snd g)))"
    "cc_categories (correlate g) = sorted_set (map dc_category (snd g))"
    by (simp_all add: correlate_def cc_scope_def Let_def)
qed

lemma correlate_refs: "cc_tenant_ref (correlate g) = fst (fst g)" "cc_workload_ref (correlate g) = snd (fst g)"
  by (simp_all add: correlate_def Let_def)

lemma distinct_sorted_ids: "distinct (map f xs) \<Longrightarrow> distinct (map f (sort_key f xs))"
  by (simp add: distinct_map)

lemma correlate_valid:
  assumes "ms \<noteq> []" and "distinct (map dc_event_id ms)"
    and ms: "\<forall>m \<in> set ms. known_severity (dc_severity m) \<and> context_scope m = Some s"
  shows "validate_context (correlate (s, ms)) = None"
proof -
  let ?c = "correlate (s, ms)"
  obtain m where m: "m \<in> set ms" using assms(1) by (cases ms) auto
  note scope = context_scopeE [of m s]
  have named: "references_named ''tenant_ref'' (cc_evidence_references ?c) = [fst s]"
    "references_named ''workload_ref'' (cc_evidence_references ?c) = [snd s]"
    unfolding correlate_sel snd_conv
    by (rule references_named_sorted, use ms assms(1) context_scopeE(1,2) in blast, use assms(1) in blast)+
  then have "cc_evidence_references ?c \<noteq> []" by (auto simp: references_named_def)
  moreover have "\<forall>x \<in> set (map dc_severity ms). known_severity x" using ms by auto
  moreover from sorted_severities_max [OF this] assms(1)
  have "last (sorted_severities (map dc_severity ms)) = first_max severity_rank (sorted_severities (map dc_severity ms))" by simp
  moreover have "last (sorted_severities (map dc_severity ms)) \<in> set (sorted_severities (map dc_severity ms))"
    using assms(1) by (intro last_in_set) simp
  moreover have "distinct (cc_contributing_event_ids ?c)" using distinct_sorted_ids [OF assms(2)] by (simp add: correlate_sel)
  moreover have "cc_contributing_event_ids ?c \<noteq> []" using m by (auto simp: correlate_sel simp flip: set_empty)
  moreover have "cc_categories ?c \<noteq> []" using m by (auto simp: correlate_sel)
  ultimately show ?thesis using named scope ms m
    by (auto simp: validate_context_def correlate_sel correlate_refs sorted_severities_sorted)
qed

lemma filter_unique: "distinct (map f xs) \<Longrightarrow> x \<in> set xs \<Longrightarrow> filter (\<lambda>y. f y = f x) xs = [x]"
  by (induction xs) (auto simp: filter_empty_conv intro: rev_image_eqI)

definition incident_content :: "incident_intake \<Rightarrow> correlated_context" where
  "incident_content i = \<lparr>cc_tenant_ref = ii_tenant_ref i, cc_workload_ref = ii_workload_ref i,
     cc_contributing_event_ids = ii_contributing_event_ids i, cc_evidence_references = ii_evidence_references i,
     cc_severities = ii_severities i, cc_highest_severity = ii_highest_severity i, cc_categories = ii_categories i\<rparr>"

lemma incident_of_correlated:
  assumes "distinct (map dc_event_id ms)"
  shows "incident_content (incident_of sha (s, [correlate (s, ms)])) = correlate (s, ms)"
proof -
  let ?ids = "map dc_event_id (sort_key dc_event_id ms)"
  have "sorted_list_of_set (set ?ids) = ?ids"
    using distinct_sorted_ids [OF assms] by (intro sorted_list_of_set.idem_if_sorted_distinct) simp_all
  then show ?thesis
    by (intro correlated_context.equality) (simp_all add: incident_content_def incident_of_def correlate_sel correlate_refs Let_def sorted_severities_idem del: set_map)
qed


definition members_of :: "detection_context list \<Rightarrow> incident_scope \<Rightarrow> detection_context list" where
  "members_of u s = filter (\<lambda>c. scope_of c = s) u"

lemma correlated_events:
  "e \<in> set (cc_contributing_event_ids (correlate (s, members_of u s))) \<longleftrightarrow> (\<exists>d \<in> set u. scope_of d = s \<and> e = dc_event_id d)"
  by (auto simp: correlate_sel members_of_def)

lemma correlated_group: "c \<in> set (correlated_of u) \<Longrightarrow> \<exists>s. c = correlate (s, members_of u s) \<and> s \<in> scope_of ` set u"
  by (auto simp: correlated_of_def members_of_def simp del: split_paired_Ex)

lemma correlated_consistent:
  assumes "correlatable u"
  shows "consistent (correlated_of u)"
proof -
  have ids: "distinct (map dc_event_id u)" and scope: "\<And>c. c \<in> set u \<Longrightarrow> context_scope c = Some (scope_of c)"
    using assms by (auto simp: correlatable_def)
  have valid: "validate_context c = None" if "c \<in> set (correlated_of u)" for c
  proof -
    from correlated_group [OF that] obtain s where s: "c = correlate (s, members_of u s)" "s \<in> scope_of ` set u" by blast
    then show ?thesis using assms distinct_map_filter [OF ids] scope unfolding s(1) members_of_def
      by (intro correlate_valid) (auto simp: correlatable_def filter_empty_conv)
  qed
  have "\<exists>d \<in> set u. scope_of d = s \<and> e = dc_event_id d" if owned: "owns (correlated_of u) e s" for e s
  proof -
    from owned obtain c where c: "c \<in> set (correlated_of u)" "e \<in> set (cc_contributing_event_ids c)" "cc_scope c = s"
      unfolding owns_def by blast
    from correlated_group [OF c(1)] obtain s' where "c = correlate (s', members_of u s')" by blast
    with c(2,3) have "e \<in> set (cc_contributing_event_ids (correlate (s', members_of u s')))" "s' = s" by (simp_all add: correlate_sel(1))
    then show ?thesis unfolding correlated_events by simp
  qed
  then have "owns (correlated_of u) e s \<Longrightarrow> owns (correlated_of u) e s' \<Longrightarrow> s = s'" for e s s'
    using ids by (metis (no_types, lifting) distinct_map inj_onD)
  with valid show ?thesis by (simp add: consistent_def)
qed

lemma correlated_incidents:
  "intake_of sha (correlated_of u) = map (\<lambda>s. incident_of sha (s, [correlate (s, members_of u s)])) (sorted_set (map scope_of u))"
proof -
  have scopes: "map cc_scope (correlated_of u) = sorted_set (map scope_of u)" by (simp add: correlated_of_def comp_def correlate_sel)
  have one: "filter (\<lambda>c. cc_scope c = s) (correlated_of u) = [correlate (s, members_of u s)]" if "s \<in> scope_of ` set u" for s
  proof -
    have "correlate (s, members_of u s) \<in> set (correlated_of u)" using that by (auto simp: correlated_of_def members_of_def)
    moreover have "distinct (map cc_scope (correlated_of u))" unfolding scopes by simp
    ultimately show ?thesis using filter_unique [of cc_scope "correlated_of u" "correlate (s, members_of u s)"] by (simp add: correlate_sel(1))
  qed
  have idem: "sorted_set (sorted_set (map scope_of u)) = sorted_set (map scope_of u)" by simp
  show ?thesis unfolding intake_of_def scopes idem by (rule map_cong [OF refl]) (simp add: one)
qed

text \<open>Detections reach exactly the incident of their tenant and workload: whatever contexts the correlation builds
  from detections, intake accepts them and makes one incident with the same content from each; and every detection
  is among the events of the incident of its own tenant and workload, and of no other.\<close>

theorem detections_reach_their_incident:
  assumes "build_contexts ds = Inr cs"
  shows "\<exists>incidents. intake sha cs = Inr incidents \<and> map incident_content incidents = cs \<and>
    (\<forall>d \<in> set ds. \<forall>i \<in> set incidents.
      dc_event_id d \<in> set (ii_contributing_event_ids i) \<longleftrightarrow> context_scope d = Some (ii_tenant_ref i, ii_workload_ref i)) \<and>
    (\<forall>d \<in> set ds. \<exists>i \<in> set incidents. context_scope d = Some (ii_tenant_ref i, ii_workload_ref i))"
proof -
  from assms obtain u where u: "set u = set ds" "correlatable u" "cs = correlated_of u" by (rule build_contexts_spec)
  have ids: "distinct (map dc_event_id u)" and scope: "\<And>c. c \<in> set u \<Longrightarrow> context_scope c = Some (scope_of c)"
    using u(2) by (auto simp: correlatable_def)
  have "cs \<noteq> []" using u(2) by (auto simp: u(3) correlated_of_def correlatable_def)
  with correlated_consistent [OF u(2)] have run: "intake sha cs = Inr (intake_of sha cs)" by (simp add: intake_spec u(3))
  note incidents = correlated_incidents [of sha u, folded u(3)]
  have "map incident_content (intake_of sha cs) = map (\<lambda>s. correlate (s, members_of u s)) (sorted_set (map scope_of u))"
    unfolding incidents members_of_def by (simp add: incident_of_correlated [OF distinct_map_filter [OF ids]])
  then have "map incident_content (intake_of sha cs) = cs" by (simp add: u(3) correlated_of_def members_of_def)
  moreover have "dc_event_id d \<in> set (ii_contributing_event_ids i) \<longleftrightarrow> context_scope d = Some (ii_tenant_ref i, ii_workload_ref i)"
    if "d \<in> set ds" "i \<in> set (intake_of sha cs)" for d i
  proof -
    from that(2) obtain s where i: "i = incident_of sha (s, [correlate (s, members_of u s)])" unfolding incidents by (auto simp del: split_paired_Ex)
    have "e \<in> set (ii_contributing_event_ids i) \<longleftrightarrow> (\<exists>d \<in> set u. scope_of d = s \<and> e = dc_event_id d)" for e
      unfolding i incident_of_sel correlated_events [symmetric] by simp
    moreover have "(\<exists>d' \<in> set u. scope_of d' = s \<and> dc_event_id d = dc_event_id d') \<longleftrightarrow> scope_of d = s"
    proof
      assume "\<exists>d' \<in> set u. scope_of d' = s \<and> dc_event_id d = dc_event_id d'"
      then obtain d' where d': "d' \<in> set u" "scope_of d' = s" "dc_event_id d = dc_event_id d'" by blast
      have "inj_on dc_event_id (set u)" "d \<in> set u" using ids that(1) u(1) by (simp_all add: distinct_map)
      from inj_onD [OF this(1) d'(3) this(2) d'(1)] d'(2) show "scope_of d = s" by simp
    qed (use that(1) u(1) in blast)
    moreover have "context_scope d = Some (scope_of d)" using scope [of d] that(1) u(1) by simp
    moreover have "(ii_tenant_ref i, ii_workload_ref i) = s" unfolding i incident_of_sel by simp
    ultimately show ?thesis by (metis option.inject)
  qed
  moreover have "\<exists>i \<in> set (intake_of sha cs). context_scope d = Some (ii_tenant_ref i, ii_workload_ref i)" if "d \<in> set ds" for d
    using that scope [of d] u(1)
    by (intro bexI [of _ "incident_of sha (scope_of d, [correlate (scope_of d, members_of u (scope_of d))])"]) (auto simp: incidents incident_of_sel)
  ultimately show ?thesis using run by blast
qed


subsection \<open>A concrete intake\<close>

definition demo_detection :: "string \<Rightarrow> string \<Rightarrow> string \<Rightarrow> detection_context" where
  "demo_detection e t severity = \<lparr>dc_event_id = e, dc_event_time = 10, dc_source_id = ''agent'', dc_source_kind = ''planner'',
     dc_event_type = ''policy.denied'', dc_category = ''policy'', dc_action = ''search'', dc_outcome = ''denied'',
     dc_severity = severity, dc_reason_code = ''R1'', dc_sequence = 1,
     dc_evidence_references = [(''tenant_ref'', t), (''workload_ref'', ''wl'')]\<rparr>"

definition demo_detections :: "detection_context list" where
  "demo_detections = [demo_detection ''e1'' ''t1'' ''low'', demo_detection ''e2'' ''t1'' ''high'', demo_detection ''e3'' ''t2'' ''info'']"

definition demo_correlated :: "string list \<Rightarrow> string \<Rightarrow> string list \<Rightarrow> correlated_context" where
  "demo_correlated es t severities = \<lparr>cc_tenant_ref = t, cc_workload_ref = ''wl'', cc_contributing_event_ids = es,
     cc_evidence_references = [(''tenant_ref'', t), (''workload_ref'', ''wl'')], cc_severities = severities,
     cc_highest_severity = last severities, cc_categories = [''policy'']\<rparr>"

definition demo_contexts :: "correlated_context list" where
  "demo_contexts = [demo_correlated [''e1'', ''e2''] ''t1'' [''low'', ''high''], demo_correlated [''e3''] ''t2'' [''info'']]"

lemma demo_build: "build_contexts demo_detections = Inr demo_contexts"
  by code_simp

lemma demo_intake: "\<exists>incidents. intake sha demo_contexts = Inr incidents"
proof -
  have "\<not> isl (group_contexts [] [] demo_contexts)" by code_simp
  then show ?thesis by (cases "group_contexts [] [] demo_contexts") (auto simp: intake_def demo_contexts_def)
qed

theorem intake_order_irrelevant_witness:
  "\<exists>incidents. intake (\<lambda>m. m) demo_contexts = Inr incidents \<and> intake (\<lambda>m. m) (rev demo_contexts @ demo_contexts) = Inr incidents"
proof -
  obtain incidents where "intake (\<lambda>m. m) demo_contexts = Inr incidents" using demo_intake by blast
  with intake_order_irrelevant [of "rev demo_contexts @ demo_contexts" demo_contexts "\<lambda>m. m" incidents] show ?thesis by auto
qed

theorem intake_separates_and_keeps_witness:
  "\<exists>incidents. intake (\<lambda>m. m) demo_contexts = Inr incidents \<and>
     distinct (map (\<lambda>i. (ii_tenant_ref i, ii_workload_ref i)) incidents)"
proof -
  obtain incidents where "intake (\<lambda>m. m) demo_contexts = Inr incidents" using demo_intake by blast
  with intake_separates_and_keeps [OF this] show ?thesis by blast
qed

theorem detections_reach_their_incident_witness:
  "\<exists>incidents. intake (\<lambda>m. m) demo_contexts = Inr incidents \<and> map incident_content incidents = demo_contexts"
  using detections_reach_their_incident [OF demo_build, where sha = "\<lambda>m. m"] by blast

end
