(* ===== verification/Incident_Lifecycle.thy ===== *)
theory Incident_Lifecycle
  imports Incident_Intake "HOL-Library.Sublist"
begin

section \<open>Incidents: the lifecycle\<close>

text \<open>
  \<open>aegis/incidents/lifecycle.py\<close>: the state of an incident is the end of a chain of transitions, each bound by its
  SHA-256 digest to the intake, the states and the digest of its predecessor. A boundary remembers the digests it has
  seen at each position below an intake and refuses a chain that differs from them.
\<close>

abbreviation lifecycle_schema :: string where "lifecycle_schema \<equiv> ''aegis-incident-lifecycle-v1''"

definition ZERO_SHA256 :: string where
  "ZERO_SHA256 = replicate 64 (CHR ''0'')"

datatype incident_state = OPEN | ACKNOWLEDGED | INVESTIGATING | CONTAINED | RESOLVED | CLOSED

definition incident_state_value :: "incident_state \<Rightarrow> string" where
  "incident_state_value s = (case s of OPEN \<Rightarrow> ''open'' | ACKNOWLEDGED \<Rightarrow> ''acknowledged'' | INVESTIGATING \<Rightarrow> ''investigating''
     | CONTAINED \<Rightarrow> ''contained'' | RESOLVED \<Rightarrow> ''resolved'' | CLOSED \<Rightarrow> ''closed'')"

definition ALLOWED_TRANSITIONS :: "incident_state \<Rightarrow> incident_state list" where
  "ALLOWED_TRANSITIONS s = (case s of OPEN \<Rightarrow> [ACKNOWLEDGED] | ACKNOWLEDGED \<Rightarrow> [INVESTIGATING]
     | INVESTIGATING \<Rightarrow> [CONTAINED, RESOLVED] | CONTAINED \<Rightarrow> [RESOLVED] | RESOLVED \<Rightarrow> [CLOSED] | CLOSED \<Rightarrow> [])"

record lifecycle_transition =
  lt_incident_id :: string
  lt_intake_root_sha256 :: string
  lt_sequence :: int
  lt_from_state :: incident_state
  lt_to_state :: incident_state
  lt_previous_transition_sha256 :: string
  lt_transition_sha256 :: string

record lifecycle_record =
  lr_intake :: incident_intake
  lr_intake_root_sha256 :: string
  lr_state :: incident_state
  lr_transitions :: "lifecycle_transition list"
  lr_schema_version :: string

abbreviation lr_incident_id :: "lifecycle_record \<Rightarrow> string" where
  "lr_incident_id r \<equiv> ii_incident_id (lr_intake r)"

definition validate_intake :: "incident_intake \<Rightarrow> incident_error option" where
  "validate_intake i =
     (if ii_incident_id i = [] \<or> ii_tenant_ref i = [] \<or> ii_workload_ref i = [] \<or> ii_contributing_event_ids i = [] \<or>
         ii_evidence_references i = []
        then Some (IncidentValueError ''INCIDENT_INTAKE_RECORD_INVALID'') else None)"

text \<open>The digests. \<open>intake_root_digest\<close> validates first, which the model keeps apart.\<close>

definition canonical_json :: "json \<Rightarrow> string" where
  "canonical_json j = utf8 (json_dumps False j)"

definition references_json :: "(string \<times> string) list \<Rightarrow> json" where
  "references_json refs = JList (map (\<lambda>r. JList [JStr (fst r), JStr (snd r)]) refs)"

definition intake_root_material :: "incident_intake \<Rightarrow> string" where
  "intake_root_material i = canonical_json (JObj
     [(''contributing_event_ids'', JList (map JStr (ii_contributing_event_ids i))),
      (''domain'', JStr ''aegis-p15-incident-intake-root-v1''),
      (''evidence_references'', references_json (ii_evidence_references i)),
      (''incident_id'', JStr (ii_incident_id i)),
      (''tenant_ref'', JStr (ii_tenant_ref i)),
      (''workload_ref'', JStr (ii_workload_ref i))])"

definition intake_root_digest :: "(string \<Rightarrow> string) \<Rightarrow> incident_intake \<Rightarrow> incident_error + string" where
  "intake_root_digest sha i = (case validate_intake i of
     Some e \<Rightarrow> Inl e
   | None \<Rightarrow> Inr (sha (intake_root_material i)))"

definition transition_material :: "lifecycle_transition \<Rightarrow> string" where
  "transition_material t = canonical_json (JObj
     [(''domain'', JStr ''aegis-p15-incident-lifecycle-transition-v1''),
      (''from_state'', JStr (incident_state_value (lt_from_state t))),
      (''incident_id'', JStr (lt_incident_id t)),
      (''intake_root_sha256'', JStr (casefold (lt_intake_root_sha256 t))),
      (''previous_transition_sha256'', JStr (casefold (lt_previous_transition_sha256 t))),
      (''sequence'', JInt (lt_sequence t)),
      (''to_state'', JStr (incident_state_value (lt_to_state t)))])"

definition transition_digest :: "(string \<Rightarrow> string) \<Rightarrow> lifecycle_transition \<Rightarrow> string" where
  "transition_digest sha t = sha (transition_material t)"

subsection \<open>Validation\<close>

definition transition_invalid ::
  "(string \<Rightarrow> string) \<Rightarrow> lifecycle_record \<Rightarrow> incident_state \<Rightarrow> string \<Rightarrow> int \<Rightarrow> lifecycle_transition \<Rightarrow> bool" where
  "transition_invalid sha record expected previous n t \<longleftrightarrow>
     lt_incident_id t \<noteq> lr_incident_id record \<or>
     casefold (lt_intake_root_sha256 t) \<noteq> casefold (lr_intake_root_sha256 record) \<or>
     lt_sequence t \<noteq> n \<or> lt_from_state t \<noteq> expected \<or>
     lt_to_state t \<notin> set (ALLOWED_TRANSITIONS expected) \<or>
     casefold (lt_previous_transition_sha256 t) \<noteq> previous \<or>
     casefold (lt_transition_sha256 t) \<noteq> transition_digest sha t"

text \<open>The state in which the loop over the transitions ends, \<open>None\<close> if it raises.\<close>

fun validate_chain :: "(string \<Rightarrow> string) \<Rightarrow> lifecycle_record \<Rightarrow> incident_state \<Rightarrow> string \<Rightarrow> int \<Rightarrow> lifecycle_transition list
    \<Rightarrow> incident_state option" where
  "validate_chain sha record expected previous n [] = Some expected"
| "validate_chain sha record expected previous n (t # ts) =
     (if transition_invalid sha record expected previous n t then None
      else validate_chain sha record (lt_to_state t) (casefold (lt_transition_sha256 t)) (n + 1) ts)"

definition validate_record :: "(string \<Rightarrow> string) \<Rightarrow> lifecycle_record \<Rightarrow> incident_error option" where
  "validate_record sha record =
     (case validate_intake (lr_intake record) of
        Some e \<Rightarrow> Some e
      | None \<Rightarrow>
          if lr_schema_version record \<noteq> lifecycle_schema then Some (IncidentValueError ''INCIDENT_LIFECYCLE_SCHEMA_INVALID'')
          else if Inr (casefold (lr_intake_root_sha256 record)) \<noteq> intake_root_digest sha (lr_intake record)
            then Some (IncidentValueError ''INCIDENT_LIFECYCLE_INTAKE_ROOT_INVALID'')
          else (case validate_chain sha record OPEN ZERO_SHA256 1 (lr_transitions record) of
                  None \<Rightarrow> Some (IncidentValueError ''INCIDENT_LIFECYCLE_CHAIN_INVALID'')
                | Some state \<Rightarrow>
                    if lr_state record \<noteq> state then Some (IncidentValueError ''INCIDENT_LIFECYCLE_STATE_INVALID'') else None))"

subsection \<open>IncidentLifecycleBoundary\<close>

text \<open>\<open>_canonical_transitions\<close>: for each intake root the digest seen at each position.\<close>

type_synonym lifecycle_boundary = "(string \<times> (int \<times> string) list) list"

text \<open>The loop of \<open>_bind_chain\<close>: the dictionary is updated in place, so a fork leaves what was written before it.\<close>

fun bind_items :: "lifecycle_transition list \<Rightarrow> ((int \<times> string) list, incident_error, unit) operation" where
  "bind_items [] canonical = (Inr (), canonical)"
| "bind_items (t # ts) canonical =
     (let digest = casefold (lt_transition_sha256 t) in
      case map_of canonical (lt_sequence t) of
        Some known \<Rightarrow>
          if known \<noteq> digest then (Inl (IncidentValueError ''INCIDENT_LIFECYCLE_FORK_INVALID''), canonical)
          else bind_items ts (AList.update (lt_sequence t) digest canonical)
      | None \<Rightarrow> bind_items ts (AList.update (lt_sequence t) digest canonical))"

definition bind_chain :: "lifecycle_record \<Rightarrow> (lifecycle_boundary, incident_error, unit) operation" where
  "bind_chain record boundary =
     (let root = casefold (lr_intake_root_sha256 record);
          canonical = (case map_of boundary root of None \<Rightarrow> [] | Some known \<Rightarrow> known);
          (res, canonical) = bind_items (lr_transitions record) canonical
      in (res, AList.update root canonical boundary))"

definition lifecycle_open :: "(string \<Rightarrow> string) \<Rightarrow> incident_intake \<Rightarrow> (lifecycle_boundary, incident_error, lifecycle_record) operation" where
  "lifecycle_open sha i boundary =
     (case intake_root_digest sha i of
        Inl e \<Rightarrow> (Inl e, boundary)
      | Inr root \<Rightarrow>
          (let record = \<lparr>lr_intake = i, lr_intake_root_sha256 = root, lr_state = OPEN, lr_transitions = [], lr_schema_version = lifecycle_schema\<rparr> in
           case bind_chain record boundary of
             (Inl e, boundary) \<Rightarrow> (Inl e, boundary)
           | (Inr _, boundary) \<Rightarrow> (Inr record, boundary)))"

text \<open>The argument \<open>to_state\<close> may be any value; a value that is no state is \<open>None\<close>.\<close>

definition lifecycle_head :: "lifecycle_record \<Rightarrow> string" where
  "lifecycle_head record = (if lr_transitions record = [] then ZERO_SHA256 else lt_transition_sha256 (last (lr_transitions record)))"

definition next_transition :: "(string \<Rightarrow> string) \<Rightarrow> lifecycle_record \<Rightarrow> incident_state \<Rightarrow> lifecycle_transition" where
  "next_transition sha record to_state =
     (let t = \<lparr>lt_incident_id = lr_incident_id record, lt_intake_root_sha256 = lr_intake_root_sha256 record,
               lt_sequence = int (length (lr_transitions record)) + 1, lt_from_state = lr_state record, lt_to_state = to_state,
               lt_previous_transition_sha256 = lifecycle_head record, lt_transition_sha256 = []\<rparr>
      in t\<lparr>lt_transition_sha256 := transition_digest sha t\<rparr>)"

definition lifecycle_transition_to ::
  "(string \<Rightarrow> string) \<Rightarrow> lifecycle_record \<Rightarrow> incident_state option \<Rightarrow> (lifecycle_boundary, incident_error, lifecycle_record) operation" where
  "lifecycle_transition_to sha record to_state boundary =
     (case validate_record sha record of
        Some e \<Rightarrow> (Inl e, boundary)
      | None \<Rightarrow>
          (case bind_chain record boundary of
             (Inl e, boundary) \<Rightarrow> (Inl e, boundary)
           | (Inr _, boundary) \<Rightarrow>
               (case to_state of
                  None \<Rightarrow> (Inl (IncidentTypeError ''INCIDENT_LIFECYCLE_STATE_REQUIRED''), boundary)
                | Some to_state \<Rightarrow>
                    if lr_transitions record \<noteq> [] \<and> to_state = lr_state record then (Inr record, boundary)
                    else if to_state \<notin> set (ALLOWED_TRANSITIONS (lr_state record))
                      then (Inl (IncidentValueError ''INCIDENT_LIFECYCLE_TRANSITION_INVALID''), boundary)
                    else
                      (let result = record\<lparr>lr_state := to_state,
                             lr_transitions := lr_transitions record @ [next_transition sha record to_state]\<rparr> in
                       case bind_chain result boundary of
                         (Inl e, boundary) \<Rightarrow> (Inl e, boundary)
                       | (Inr _, boundary) \<Rightarrow> (Inr result, boundary)))))"

subsection \<open>Chains\<close>

lemma casefold_sha: "(\<And>m. casefold (sha m) = sha m) \<Longrightarrow> casefold (transition_digest sha t) = transition_digest sha t"
  by (simp add: transition_digest_def)

lemma casefold_ZERO [simp]: "casefold ZERO_SHA256 = ZERO_SHA256"
  by (simp add: casefold_def ZERO_SHA256_def)

lemma incident_state_value_inject [simp]: "incident_state_value a = incident_state_value b \<longleftrightarrow> a = b"
  by (cases a; cases b; simp add: incident_state_value_def)

abbreviation digests_of :: "lifecycle_record \<Rightarrow> string list" where
  "digests_of r \<equiv> map (\<lambda>t. casefold (lt_transition_sha256 t)) (lr_transitions r)"

abbreviation states_of :: "lifecycle_record \<Rightarrow> incident_state list" where
  "states_of r \<equiv> map lt_to_state (lr_transitions r)"

abbreviation root_of :: "lifecycle_record \<Rightarrow> string" where
  "root_of r \<equiv> casefold (lr_intake_root_sha256 r)"

text \<open>A chain is valid if every transition is, after the ones before it.\<close>

definition previous_in :: "string \<Rightarrow> lifecycle_transition list \<Rightarrow> string" where
  "previous_in p ts = (if ts = [] then p else casefold (lt_transition_sha256 (last ts)))"

lemma previous_in_simps [simp]: "previous_in p [] = p" "previous_in p (t # ts) = previous_in (casefold (lt_transition_sha256 t)) ts"
  by (simp_all add: previous_in_def)

lemma validate_chain_snoc:
  "validate_chain sha r s p n (ts @ [t]) = (case validate_chain sha r s p n ts of
     None \<Rightarrow> None
   | Some s' \<Rightarrow> if transition_invalid sha r s' (previous_in p ts) (n + int (length ts)) t then None else Some (lt_to_state t))"
  by (induction ts arbitrary: s p n) (auto simp: algebra_simps split: option.split)

lemma validate_chain_state: "validate_chain sha r s p n ts = Some s' \<Longrightarrow> s' = last (s # map lt_to_state ts)"
  by (induction ts arbitrary: s p n) (auto split: if_splits)

lemma validate_chain_record:
  "lr_intake r = lr_intake r' \<Longrightarrow> lr_intake_root_sha256 r = lr_intake_root_sha256 r' \<Longrightarrow>
    validate_chain sha r s p n ts = validate_chain sha r' s p n ts"
  by (induction ts arbitrary: s p n) (simp_all add: transition_invalid_def)

fun lifecycle_path :: "incident_state \<Rightarrow> incident_state list \<Rightarrow> bool" where
  "lifecycle_path s [] = True"
| "lifecycle_path s (s' # ss) = (s' \<in> set (ALLOWED_TRANSITIONS s) \<and> lifecycle_path s' ss)"

lemma validate_chain_path: "validate_chain sha r s p n ts = Some s' \<Longrightarrow> lifecycle_path s (map lt_to_state ts)"
  by (induction ts arbitrary: s p n) (auto simp: transition_invalid_def split: if_splits)

lemma validate_chain_digests:
  "validate_chain sha r s p n ts = Some s' \<Longrightarrow> k < length ts \<Longrightarrow>
    lt_sequence (ts ! k) = n + int k \<and> casefold (lt_transition_sha256 (ts ! k)) = transition_digest sha (ts ! k)"
proof (induction ts arbitrary: s p n k)
  case (Cons t ts)
  then show ?case by (cases k) (auto simp: transition_invalid_def split: if_splits)
qed simp

lemma validate_record_None:
  "validate_record sha r = None \<longleftrightarrow> validate_intake (lr_intake r) = None \<and> lr_schema_version r = lifecycle_schema \<and>
     root_of r = sha (intake_root_material (lr_intake r)) \<and>
     validate_chain sha r OPEN ZERO_SHA256 1 (lr_transitions r) = Some (lr_state r)"
  by (auto simp: validate_record_def intake_root_digest_def split: option.splits)

lemma next_transition_sel [simp]:
  "lt_incident_id (next_transition sha r s) = lr_incident_id r" "lt_sequence (next_transition sha r s) = int (length (lr_transitions r)) + 1"
  "lt_to_state (next_transition sha r s) = s" "lt_from_state (next_transition sha r s) = lr_state r"
  "lt_intake_root_sha256 (next_transition sha r s) = lr_intake_root_sha256 r"
  "lt_previous_transition_sha256 (next_transition sha r s) = lifecycle_head r"
  "lt_transition_sha256 (next_transition sha r s) = transition_digest sha (next_transition sha r s)"
  by (simp_all add: next_transition_def Let_def transition_digest_def transition_material_def)

abbreviation moved_to :: "(string \<Rightarrow> string) \<Rightarrow> lifecycle_record \<Rightarrow> incident_state \<Rightarrow> lifecycle_record" where
  "moved_to sha r s \<equiv> r\<lparr>lr_state := s, lr_transitions := lr_transitions r @ [next_transition sha r s]\<rparr>"

lemma moved_valid:
  assumes "\<And>m. casefold (sha m) = sha m" and "validate_record sha r = None" and "s \<in> set (ALLOWED_TRANSITIONS (lr_state r))"
  shows "validate_record sha (moved_to sha r s) = None"
proof -
  have "previous_in ZERO_SHA256 (lr_transitions r) = casefold (lifecycle_head r)" by (simp add: previous_in_def lifecycle_head_def)
  moreover have "validate_chain sha (moved_to sha r s) OPEN ZERO_SHA256 1 (lr_transitions r) = Some (lr_state r)"
    using assms(2) validate_chain_record [of "moved_to sha r s" r] by (simp add: validate_record_None)
  ultimately have "validate_chain sha (moved_to sha r s) OPEN ZERO_SHA256 1 (lr_transitions r @ [next_transition sha r s]) = Some s"
    using assms(3) casefold_sha [OF assms(1)] by (simp add: validate_chain_snoc transition_invalid_def)
  with assms(2) show ?thesis by (simp add: validate_record_None)
qed

subsection \<open>What a boundary remembers\<close>

definition canonical_of :: "lifecycle_boundary \<Rightarrow> string \<Rightarrow> int \<Rightarrow> string option" where
  "canonical_of b root = map_of (case map_of b root of None \<Rightarrow> [] | Some known \<Rightarrow> known)"

definition bound_in :: "lifecycle_boundary \<Rightarrow> lifecycle_record \<Rightarrow> bool" where
  "bound_in b r \<longleftrightarrow> (\<forall>k < length (lr_transitions r). canonical_of b (root_of r) (int k + 1) = Some (digests_of r ! k))"

lemma bind_items_keeps:
  "bind_items ts canonical = (res, canonical') \<Longrightarrow> map_of canonical n = Some d \<Longrightarrow> map_of canonical' n = Some d"
proof (induction ts arbitrary: canonical)
  case (Cons t ts)
  let ?c = "AList.update (lt_sequence t) (casefold (lt_transition_sha256 t)) canonical"
  from Cons.prems(1) consider "canonical' = canonical"
    | "bind_items ts ?c = (res, canonical')" "map_of canonical (lt_sequence t) \<in> {None, Some (casefold (lt_transition_sha256 t))}"
    by (auto simp: Let_def split: option.splits if_splits)
  then show ?case
  proof cases
    case 2
    then have "map_of ?c n = Some d" using Cons.prems(2) by (auto simp: update_conv')
    with Cons.IH [OF 2(1)] show ?thesis by simp
  qed (use Cons.prems(2) in simp)
qed simp

lemma bind_items_binds:
  "bind_items ts canonical = (Inr (), canonical') \<Longrightarrow> t \<in> set ts \<Longrightarrow>
    map_of canonical' (lt_sequence t) = Some (casefold (lt_transition_sha256 t))"
proof (induction ts arbitrary: canonical)
  case (Cons x ts)
  from Cons.prems(1) have rest: "bind_items ts (AList.update (lt_sequence x) (casefold (lt_transition_sha256 x)) canonical) = (Inr (), canonical')"
    by (auto simp: Let_def split: option.splits if_splits)
  show ?case
  proof (cases "t = x")
    case True
    then show ?thesis using bind_items_keeps [OF rest] by (simp add: update_conv')
  next
    case False
    with Cons.IH [OF rest] Cons.prems(2) show ?thesis by simp
  qed
qed simp

lemma bind_items_ok:
  "\<forall>t \<in> set ts. map_of canonical (lt_sequence t) = Some (casefold (lt_transition_sha256 t)) \<Longrightarrow> \<exists>canonical'.
     bind_items ts canonical = (Inr (), canonical') \<and> map_of canonical' = map_of canonical"
proof (induction ts arbitrary: canonical)
  case (Cons x ts)
  let ?c = "AList.update (lt_sequence x) (casefold (lt_transition_sha256 x)) canonical"
  have same: "map_of ?c = map_of canonical" using Cons.prems by (auto simp: update_conv' fun_eq_iff)
  with Cons.IH [of ?c] Cons.prems show ?case by simp
qed simp

lemma bind_chain_keeps:
  assumes "bind_chain r b = (res, b')" and "canonical_of b root n = Some d"
  shows "canonical_of b' root n = Some d"
proof -
  from assms(1) obtain canonical where "bind_items (lr_transitions r) (case map_of b (root_of r) of None \<Rightarrow> [] | Some known \<Rightarrow> known) = (res, canonical)"
    "b' = AList.update (root_of r) canonical b" by (auto simp: bind_chain_def Let_def split: prod.splits)
  with assms(2) bind_items_keeps [OF this(1)] show ?thesis by (auto simp: canonical_of_def update_conv')
qed

lemma bind_chain_binds:
  assumes "bind_chain r b = (Inr (), b')" and "validate_record sha r = None"
  shows "bound_in b' r"
proof -
  from assms(1) obtain canonical where bind: "bind_items (lr_transitions r) (case map_of b (root_of r) of None \<Rightarrow> [] | Some known \<Rightarrow> known) = (Inr (), canonical)"
    "b' = AList.update (root_of r) canonical b" by (auto simp: bind_chain_def Let_def split: prod.splits)
  have "canonical_of b' (root_of r) (int k + 1) = Some (digests_of r ! k)" if "k < length (lr_transitions r)" for k
    using bind_items_binds [OF bind(1), of "lr_transitions r ! k"] validate_chain_digests [of sha r OPEN ZERO_SHA256 1 "lr_transitions r" _ k] that assms(2)
    by (simp add: bind(2) canonical_of_def update_conv' validate_record_None add.commute)
  then show ?thesis by (simp add: bound_in_def)
qed

lemma bind_chain_again:
  assumes "bound_in b r" and "validate_record sha r = None"
  shows "\<exists>b'. bind_chain r b = (Inr (), b') \<and> canonical_of b' = canonical_of b"
proof -
  let ?c = "case map_of b (root_of r) of None \<Rightarrow> [] | Some known \<Rightarrow> known"
  have "map_of ?c (lt_sequence t) = Some (casefold (lt_transition_sha256 t))" if "t \<in> set (lr_transitions r)" for t
  proof -
    from that obtain k where k: "k < length (lr_transitions r)" "t = lr_transitions r ! k" by (metis in_set_conv_nth)
    with assms validate_chain_digests [of sha r OPEN ZERO_SHA256 1 "lr_transitions r" _ k] show ?thesis
      by (simp add: bound_in_def canonical_of_def validate_record_None add.commute)
  qed
  with bind_items_ok [of "lr_transitions r" ?c] obtain c where "bind_items (lr_transitions r) ?c = (Inr (), c)" "map_of c = map_of ?c" by blast
  then show ?thesis by (auto simp: bind_chain_def canonical_of_def update_conv' fun_eq_iff)
qed

subsection \<open>Runs of a boundary\<close>

definition lifecycle_call ::
  "(string \<Rightarrow> string) \<Rightarrow> lifecycle_boundary \<Rightarrow> incident_error + lifecycle_record \<Rightarrow> lifecycle_boundary \<Rightarrow> bool" where
  "lifecycle_call sha b res b' \<longleftrightarrow> (\<exists>i. lifecycle_open sha i b = (res, b')) \<or> (\<exists>r s. lifecycle_transition_to sha r s b = (res, b'))"

text \<open>A run with the records it has returned; the callers choose the arguments, forged records included.\<close>

inductive lifecycle_run :: "(string \<Rightarrow> string) \<Rightarrow> lifecycle_record list \<Rightarrow> lifecycle_boundary \<Rightarrow> bool" for sha where
  started: "lifecycle_run sha [] []"
| returned: "lifecycle_run sha rs b \<Longrightarrow> lifecycle_call sha b (Inr r) b' \<Longrightarrow> lifecycle_run sha (r # rs) b'"
| raised: "lifecycle_run sha rs b \<Longrightarrow> lifecycle_call sha b (Inl e) b' \<Longrightarrow> lifecycle_run sha rs b'"

lemma open_cases:
  assumes "lifecycle_open sha i b = (res, b')"
  obtains e where "res = Inl e" "b' = b"
  | r where "validate_intake i = None" "r = \<lparr>lr_intake = i, lr_intake_root_sha256 = sha (intake_root_material i), lr_state = OPEN,
      lr_transitions = [], lr_schema_version = lifecycle_schema\<rparr>" "bind_chain r b = (Inr (), b')" "res = Inr r"
  using assms by (auto simp: lifecycle_open_def intake_root_digest_def bind_chain_def Let_def split: option.splits)

lemma transition_cases:
  assumes "lifecycle_transition_to sha r s b = (res, b')"
  obtains e where "validate_record sha r = Some e" "res = Inl e" "b' = b"
  | e where "validate_record sha r = None" "bind_chain r b = (Inl e, b')" "res = Inl e"
  | e where "validate_record sha r = None" "bind_chain r b = (Inr (), b')" "res = Inl e"
  | "validate_record sha r = None" "bind_chain r b = (Inr (), b')" "res = Inr r" "s = Some (lr_state r)"
  | s' b1 res' where "validate_record sha r = None" "s = Some s'" "s' \<in> set (ALLOWED_TRANSITIONS (lr_state r))" "bind_chain r b = (Inr (), b1)"
      "bind_chain (moved_to sha r s') b1 = (res', b')" "res = (case res' of Inl e \<Rightarrow> Inl e | Inr _ \<Rightarrow> Inr (moved_to sha r s'))"
  using assms by (auto simp: lifecycle_transition_to_def Let_def split: option.splits prod.splits sum.splits if_splits)

lemma lifecycle_call_keeps:
  assumes "lifecycle_call sha b res b'" and "canonical_of b root n = Some d"
  shows "canonical_of b' root n = Some d"
proof -
  from assms(1) consider i where "lifecycle_open sha i b = (res, b')" | r s where "lifecycle_transition_to sha r s b = (res, b')"
    unfolding lifecycle_call_def by blast
  then show ?thesis
  proof cases
    case 1
    then show ?thesis using assms(2) by (cases rule: open_cases) (auto intro: bind_chain_keeps)
  next
    case 2
    then show ?thesis using assms(2) by (cases rule: transition_cases) (auto intro: bind_chain_keeps)
  qed
qed

lemma lifecycle_call_returns:
  assumes hex: "\<And>m. casefold (sha m) = sha m" and "lifecycle_call sha b (Inr r) b'"
  shows "validate_record sha r = None \<and> bound_in b' r"
proof -
  from assms(2) consider i where "lifecycle_open sha i b = (Inr r, b')" | q s where "lifecycle_transition_to sha q s b = (Inr r, b')"
    unfolding lifecycle_call_def by blast
  then show ?thesis
  proof cases
    case 1
    then show ?thesis by (cases rule: open_cases) (auto simp: validate_record_None bound_in_def hex)
  next
    case 2
    then show ?thesis
    proof (cases rule: transition_cases)
      case 4
      then show ?thesis using bind_chain_binds by auto
    next
      case (5 s' b1 res')
      then have "r = moved_to sha q s'" "res' = Inr ()" by (auto split: sum.splits)
      with 5 moved_valid [OF hex 5(1,3)] bind_chain_binds [of r b1 b' sha] show ?thesis by simp
    qed auto
  qed
qed

lemma lifecycle_run_inv:
  assumes "lifecycle_run sha rs b" and "\<And>m. casefold (sha m) = sha m" and "r \<in> set rs"
  shows "validate_record sha r = None \<and> bound_in b r"
  using assms(1,3)
proof (induction arbitrary: r)
  case (returned rs b q b')
  then show ?case using lifecycle_call_returns [OF assms(2) returned.hyps(2)] lifecycle_call_keeps [OF returned.hyps(2)]
    by (auto simp: bound_in_def)
next
  case (raised rs b e b')
  then show ?case using lifecycle_call_keeps [OF raised.hyps(2)] by (auto simp: bound_in_def)
qed simp

lemma transition_material_state:
  assumes "transition_material t = transition_material u"
  shows "lt_to_state t = lt_to_state u"
proof -
  let ?j = "\<lambda>t. [(''domain'', JStr ''aegis-p15-incident-lifecycle-transition-v1''),
      (''from_state'', JStr (incident_state_value (lt_from_state t))), (''incident_id'', JStr (lt_incident_id t)),
      (''intake_root_sha256'', JStr (casefold (lt_intake_root_sha256 t))),
      (''previous_transition_sha256'', JStr (casefold (lt_previous_transition_sha256 t))),
      (''sequence'', JInt (lt_sequence t)), (''to_state'', JStr (incident_state_value (lt_to_state t)))]"
  have "json_dumps False (JObj (?j t)) = json_dumps False (JObj (?j u))"
    using assms by (simp add: transition_material_def canonical_json_def del: list.map)
  from json_dumps_field [OF this, of "''to_state''"] show ?thesis by simp
qed

lemma valid_digest:
  "validate_record sha r = None \<Longrightarrow> k < length (lr_transitions r) \<Longrightarrow>
    casefold (lt_transition_sha256 (lr_transitions r ! k)) = transition_digest sha (lr_transitions r ! k)"
  using validate_chain_digests [of sha r OPEN ZERO_SHA256 1 "lr_transitions r" _ k] by (simp add: validate_record_None)

lemma differing_prefixes:
  assumes "\<not> prefix xs ys" and "\<not> prefix ys xs"
  obtains k where "k < length xs" "k < length ys" "xs ! k \<noteq> ys ! k"
proof -
  from assms have "parallel xs ys" by blast
  then obtain as x xs' y ys' where "x \<noteq> y" "xs = as @ x # xs'" "ys = as @ y # ys'" by (blast dest: parallel_decomp)
  then show ?thesis using that [of "length as"] by simp
qed

text \<open>\<^bold>\<open>C25\<close>. No incident has two histories: in every run of a boundary, whatever records the callers present, the histories
  of two returned records below the same intake are prefixes of one another, or SHA-256 collides on the two
  transitions at a position where they differ.\<close>

theorem incident_history_never_forks:
  assumes "\<And>m. casefold (sha m) = sha m" and "lifecycle_run sha rs b" and "r \<in> set rs" and "q \<in> set rs"
    and "casefold (lr_intake_root_sha256 r) = casefold (lr_intake_root_sha256 q)"
  shows "prefix (map lt_to_state (lr_transitions r)) (map lt_to_state (lr_transitions q)) \<or>
    prefix (map lt_to_state (lr_transitions q)) (map lt_to_state (lr_transitions r)) \<or>
    (\<exists>k. collision sha (transition_material (lr_transitions r ! k)) (transition_material (lr_transitions q ! k)))"
proof (rule ccontr)
  assume no: "\<not> ?thesis"
  then obtain k where k: "k < length (lr_transitions r)" "k < length (lr_transitions q)"
    "lt_to_state (lr_transitions r ! k) \<noteq> lt_to_state (lr_transitions q ! k)"
    using differing_prefixes [of "states_of r" "states_of q"] by auto
  have inv: "validate_record sha r = None" "bound_in b r" "validate_record sha q = None" "bound_in b q"
    using lifecycle_run_inv [OF assms(2,1)] assms(3,4) by blast+
  have "canonical_of b (root_of q) (int k + 1) = Some (digests_of r ! k)" "canonical_of b (root_of q) (int k + 1) = Some (digests_of q ! k)"
    using inv(2,4) k(1,2) unfolding bound_in_def assms(5) by blast+
  then have "digests_of r ! k = digests_of q ! k" by simp
  then have "transition_digest sha (lr_transitions r ! k) = transition_digest sha (lr_transitions q ! k)"
    using valid_digest [OF inv(1) k(1)] valid_digest [OF inv(3) k(2)] k by simp
  with k(3) have "collision sha (transition_material (lr_transitions r ! k)) (transition_material (lr_transitions q ! k))"
    by (auto simp: collision_def transition_digest_def dest: transition_material_state)
  with no show False by blast
qed


text \<open>\<^bold>\<open>C26\<close>. Every record a boundary returns is well-formed: it passes the validation of the module, its states are a path of
  allowed transitions that starts at open and ends in its state, and a closed incident admits only its repetition.\<close>

theorem returned_records_are_well_formed:
  assumes "\<And>m. casefold (sha m) = sha m" and "lifecycle_run sha rs b" and "r \<in> set rs"
  shows "validate_record sha r = None \<and> lifecycle_path OPEN (map lt_to_state (lr_transitions r)) \<and>
    lr_state r = last (OPEN # map lt_to_state (lr_transitions r)) \<and>
    (lr_state r = CLOSED \<longrightarrow> (\<exists>b'. lifecycle_transition_to sha r s b = ((case s of
       None \<Rightarrow> Inl (IncidentTypeError ''INCIDENT_LIFECYCLE_STATE_REQUIRED'')
     | Some s' \<Rightarrow> if s' = CLOSED then Inr r else Inl (IncidentValueError ''INCIDENT_LIFECYCLE_TRANSITION_INVALID'')), b')))"
proof -
  have inv: "validate_record sha r = None" "bound_in b r" using lifecycle_run_inv [OF assms(2,1,3)] by blast+
  then have chain: "validate_chain sha r OPEN ZERO_SHA256 1 (lr_transitions r) = Some (lr_state r)" by (simp add: validate_record_None)
  note state = validate_chain_state [OF chain]
  moreover have "\<exists>b'. lifecycle_transition_to sha r s b = ((case s of
       None \<Rightarrow> Inl (IncidentTypeError ''INCIDENT_LIFECYCLE_STATE_REQUIRED'')
     | Some s' \<Rightarrow> if s' = CLOSED then Inr r else Inl (IncidentValueError ''INCIDENT_LIFECYCLE_TRANSITION_INVALID'')), b')" if "lr_state r = CLOSED"
  proof -
    have "lr_transitions r \<noteq> []" using state that by auto
    with bind_chain_again [OF inv(2,1)] inv(1) that show ?thesis
      by (auto simp: lifecycle_transition_to_def ALLOWED_TRANSITIONS_def split: option.split)
  qed
  ultimately show ?thesis using inv(1) validate_chain_path [OF chain] by blast
qed

lemma bind_items_append:
  "bind_items (ts @ us) c = (case bind_items ts c of (Inl e, c') \<Rightarrow> (Inl e, c') | (Inr _, c') \<Rightarrow> bind_items us c')"
  by (induction ts arbitrary: c) (auto simp: Let_def split: option.split prod.split sum.split)

lemma bind_moved:
  assumes "bound_in b r" and "validate_record sha r = None" and "\<And>m. casefold (sha m) = sha m"
  shows "\<exists>res b'. bind_chain (moved_to sha r s) b = (res, b') \<and>
    (case canonical_of b (root_of r) (int (length (lr_transitions r)) + 1) of
       None \<Rightarrow> res = Inr () \<and> canonical_of b' (root_of r) (int (length (lr_transitions r)) + 1) = Some (transition_digest sha (next_transition sha r s))
     | Some d \<Rightarrow> res = (if d = transition_digest sha (next_transition sha r s) then Inr ()
         else Inl (IncidentValueError ''INCIDENT_LIFECYCLE_FORK_INVALID'')))"
proof -
  let ?c = "case map_of b (root_of r) of None \<Rightarrow> [] | Some known \<Rightarrow> known"
  from bind_chain_again [OF assms(1,2)] obtain c where c: "bind_items (lr_transitions r) ?c = (Inr (), c)"
    and same: "canonical_of (AList.update (root_of r) c b) = canonical_of b"
    by (auto simp: bind_chain_def Let_def split: prod.splits)
  from fun_cong [OF same, of "root_of r"] have "map_of c = canonical_of b (root_of r)"
    by (simp add: canonical_of_def update_conv')
  then show ?thesis
    by (auto simp: bind_chain_def Let_def bind_items_append c casefold_sha [OF assms(3)] canonical_of_def update_conv'
        split: option.splits prod.splits sum.splits)
qed

lemma move_result:
  assumes "validate_record sha r = None" and "bound_in b r" and "s \<in> set (ALLOWED_TRANSITIONS (lr_state r))" and "\<And>m. casefold (sha m) = sha m"
  shows "\<exists>res b'. lifecycle_transition_to sha r (Some s) b = (res, b') \<and>
    (case canonical_of b (root_of r) (int (length (lr_transitions r)) + 1) of
       None \<Rightarrow> res = Inr (moved_to sha r s) \<and>
         canonical_of b' (root_of r) (int (length (lr_transitions r)) + 1) = Some (transition_digest sha (next_transition sha r s))
     | Some d \<Rightarrow> res = (if d = transition_digest sha (next_transition sha r s) then Inr (moved_to sha r s)
         else Inl (IncidentValueError ''INCIDENT_LIFECYCLE_FORK_INVALID'')))"
proof -
  from bind_chain_again [OF assms(2,1)] obtain b1 where b1: "bind_chain r b = (Inr (), b1)" "canonical_of b1 = canonical_of b" by blast
  then have "bound_in b1 r" using assms(2) by (simp add: bound_in_def)
  from bind_moved [OF this assms(1,4), of s] obtain res b' where move: "bind_chain (moved_to sha r s) b1 = (res, b')"
    "case canonical_of b (root_of r) (int (length (lr_transitions r)) + 1) of
       None \<Rightarrow> res = Inr () \<and> canonical_of b' (root_of r) (int (length (lr_transitions r)) + 1) = Some (transition_digest sha (next_transition sha r s))
     | Some d \<Rightarrow> res = (if d = transition_digest sha (next_transition sha r s) then Inr ()
         else Inl (IncidentValueError ''INCIDENT_LIFECYCLE_FORK_INVALID''))" unfolding b1(2) by blast
  have "s \<noteq> lr_state r" using assms(3) by (auto simp: ALLOWED_TRANSITIONS_def split: incident_state.splits)
  then have "lifecycle_transition_to sha r (Some s) b = (case res of Inl e \<Rightarrow> Inl e | Inr _ \<Rightarrow> Inr (moved_to sha r s), b')"
    using assms(1,3) b1(1) move(1) by (simp add: lifecycle_transition_to_def Let_def split: sum.split)
  with move(2) show ?thesis by (auto split: option.splits if_splits)
qed

text \<open>A returned record can be carried on, in one direction only: if nothing is remembered beyond it, every allowed
  transition succeeds, and from then on any other transition of the same record is refused as a fork, or SHA-256
  collides on the two transitions.\<close>

theorem first_transition_wins:
  assumes "\<And>m. casefold (sha m) = sha m" and "lifecycle_run sha rs b" and "r \<in> set rs"
    and "canonical_of b (casefold (lr_intake_root_sha256 r)) (int (length (lr_transitions r)) + 1) = None"
    and "s \<in> set (ALLOWED_TRANSITIONS (lr_state r))" and "s' \<in> set (ALLOWED_TRANSITIONS (lr_state r))" and "s \<noteq> s'"
  shows "\<exists>q b' b''. lifecycle_transition_to sha r (Some s) b = (Inr q, b') \<and> lr_state q = s \<and> validate_record sha q = None \<and>
    (lifecycle_transition_to sha r (Some s') b' = (Inl (IncidentValueError ''INCIDENT_LIFECYCLE_FORK_INVALID''), b'') \<or>
     collision sha (transition_material (next_transition sha r s)) (transition_material (next_transition sha r s')))"
proof -
  have inv: "validate_record sha r = None" "bound_in b r" using lifecycle_run_inv [OF assms(2,1,3)] by blast+
  from move_result [OF inv assms(5,1)] assms(4) obtain b' where first: "lifecycle_transition_to sha r (Some s) b = (Inr (moved_to sha r s), b')"
    and seen: "canonical_of b' (root_of r) (int (length (lr_transitions r)) + 1) = Some (transition_digest sha (next_transition sha r s))" by auto
  have "lifecycle_call sha b (Inr (moved_to sha r s)) b'" using first by (auto simp: lifecycle_call_def)
  then have "bound_in b' r" using inv(2) lifecycle_call_keeps by (auto simp: bound_in_def)
  from move_result [OF inv(1) this assms(6,1)] seen obtain b'' where
    "lifecycle_transition_to sha r (Some s') b' = (Inl (IncidentValueError ''INCIDENT_LIFECYCLE_FORK_INVALID''), b'') \<or>
     transition_digest sha (next_transition sha r s) = transition_digest sha (next_transition sha r s')" by (auto split: if_splits)
  moreover have "transition_material (next_transition sha r s) \<noteq> transition_material (next_transition sha r s')"
    using assms(7) transition_material_state by fastforce
  ultimately have "lifecycle_transition_to sha r (Some s') b' = (Inl (IncidentValueError ''INCIDENT_LIFECYCLE_FORK_INVALID''), b'') \<or>
     collision sha (transition_material (next_transition sha r s)) (transition_material (next_transition sha r s'))"
    by (auto simp: collision_def transition_digest_def)
  then show ?thesis using first moved_valid [OF assms(1) inv(1) assms(5)] by (intro exI [of _ "moved_to sha r s"] exI [of _ b'] exI [of _ b'']) simp
qed


subsection \<open>A concrete incident\<close>

definition demo_incident :: incident_intake where
  "demo_incident = \<lparr>ii_incident_id = ''incident-1'', ii_tenant_ref = ''t1'', ii_workload_ref = ''wl'', ii_contributing_event_ids = [''e1''],
     ii_evidence_references = [(''tenant_ref'', ''t1''), (''workload_ref'', ''wl'')], ii_severities = [''high''],
     ii_highest_severity = ''high'', ii_categories = [''policy'']\<rparr>"

definition demo_open :: lifecycle_record where
  "demo_open = \<lparr>lr_intake = demo_incident, lr_intake_root_sha256 = casefold (intake_root_material demo_incident), lr_state = OPEN,
     lr_transitions = [], lr_schema_version = lifecycle_schema\<rparr>"

abbreviation demo_boundary :: lifecycle_boundary where
  "demo_boundary \<equiv> [(casefold (intake_root_material demo_incident), [])]"

lemma demo_opened: "lifecycle_run casefold [demo_open] demo_boundary"
proof -
  have "lifecycle_open casefold demo_incident [] = (Inr demo_open, demo_boundary)"
    by (simp add: lifecycle_open_def intake_root_digest_def validate_intake_def demo_open_def bind_chain_def casefold_idem)
      (simp add: demo_incident_def)
  then show ?thesis using lifecycle_run.returned [OF lifecycle_run.started] by (auto simp: lifecycle_call_def)
qed

text \<open>Positions beyond a chain stay free.\<close>

lemma bind_items_fresh:
  "bind_items ts c = (res, c') \<Longrightarrow> map_of c n = None \<Longrightarrow> n \<notin> lt_sequence ` set ts \<Longrightarrow> map_of c' n = None"
proof (induction ts arbitrary: c)
  case (Cons t ts)
  let ?c = "AList.update (lt_sequence t) (casefold (lt_transition_sha256 t)) c"
  from Cons.prems(1) consider "c' = c" | "bind_items ts ?c = (res, c')" by (auto simp: Let_def split: option.splits if_splits)
  then show ?case
  proof cases
    case 2
    then show ?thesis using Cons.prems(2,3) Cons.IH [OF 2] by (simp add: update_conv')
  qed (use Cons.prems(2) in simp)
qed simp

lemma bind_chain_fresh:
  assumes "bind_chain r b = (res, b')" and "canonical_of b root n = None" and "n \<notin> lt_sequence ` set (lr_transitions r)"
  shows "canonical_of b' root n = None"
proof -
  from assms(1) obtain c where "bind_items (lr_transitions r) (case map_of b (root_of r) of None \<Rightarrow> [] | Some known \<Rightarrow> known) = (res, c)"
    "b' = AList.update (root_of r) c b" by (auto simp: bind_chain_def Let_def split: prod.splits)
  with assms(2,3) bind_items_fresh [OF this(1)] show ?thesis by (auto simp: canonical_of_def update_conv')
qed

lemma valid_sequences:
  assumes "validate_record sha r = None" and "int (length (lr_transitions r)) < n"
  shows "n \<notin> lt_sequence ` set (lr_transitions r)"
proof
  assume "n \<in> lt_sequence ` set (lr_transitions r)"
  then obtain k where "k < length (lr_transitions r)" "n = lt_sequence (lr_transitions r ! k)" by (auto simp: in_set_conv_nth)
  with validate_chain_digests [of sha r OPEN ZERO_SHA256 1 "lr_transitions r" _ k] assms show False
    by (simp add: validate_record_None)
qed

definition ahead_free :: "lifecycle_boundary \<Rightarrow> lifecycle_record \<Rightarrow> bool" where
  "ahead_free b r \<longleftrightarrow> (\<forall>n > int (length (lr_transitions r)). canonical_of b (root_of r) n = None)"

lemma demo_moved:
  assumes "lifecycle_run casefold rs b" and "r \<in> set rs" and "s \<in> set (ALLOWED_TRANSITIONS (lr_state r))" and "ahead_free b r"
  obtains b' where "lifecycle_run casefold (moved_to casefold r s # rs) b'" "ahead_free b' (moved_to casefold r s)"
proof -
  have inv: "validate_record casefold r = None" "bound_in b r" using lifecycle_run_inv [OF assms(1) casefold_idem assms(2)] by simp_all
  from move_result [OF inv assms(3) casefold_idem] assms(4) obtain b' where
    move: "lifecycle_transition_to casefold r (Some s) b = (Inr (moved_to casefold r s), b')" by (auto simp: ahead_free_def)
  then have "lifecycle_call casefold b (Inr (moved_to casefold r s)) b'" by (auto simp: lifecycle_call_def)
  moreover from move have "ahead_free b' (moved_to casefold r s)"
  proof (cases rule: transition_cases)
    case 4
    from 4(3) have "moved_to casefold r s = r" by (rule sum.inject(2) [THEN iffD1])
    from arg_cong [OF this, of "\<lambda>r. length (lr_transitions r)"] show ?thesis by simp
  next
    case (5 s' b1 res')
    have "canonical_of b' (root_of r) n = None" if "int (length (lr_transitions r)) + 1 < n" for n
    proof -
      have "canonical_of b1 (root_of r) n = None"
        using bind_chain_fresh [OF 5(4)] assms(4) that valid_sequences [OF inv(1), of n] by (simp add: ahead_free_def)
      from bind_chain_fresh [OF 5(5) this] that valid_sequences [OF inv(1), of n] show ?thesis by simp
    qed
    then show ?thesis by (simp add: ahead_free_def)
  qed simp_all
  ultimately show ?thesis using that lifecycle_run.returned [OF assms(1)] by blast
qed

abbreviation demo_acknowledged :: lifecycle_record where
  "demo_acknowledged \<equiv> moved_to casefold demo_open ACKNOWLEDGED"

abbreviation demo_investigating :: lifecycle_record where
  "demo_investigating \<equiv> moved_to casefold demo_acknowledged INVESTIGATING"

lemma demo_incident_run:
  obtains b where "lifecycle_run casefold [demo_investigating, demo_acknowledged, demo_open] b" "ahead_free b demo_investigating"
proof -
  have free: "ahead_free demo_boundary demo_open" by (simp add: ahead_free_def canonical_of_def demo_open_def)
  have "ACKNOWLEDGED \<in> set (ALLOWED_TRANSITIONS (lr_state demo_open))" by (simp add: ALLOWED_TRANSITIONS_def demo_open_def)
  from demo_moved [OF demo_opened _ this free] obtain b1 where b1: "lifecycle_run casefold [demo_acknowledged, demo_open] b1"
    "ahead_free b1 demo_acknowledged" by auto
  have "INVESTIGATING \<in> set (ALLOWED_TRANSITIONS (lr_state demo_acknowledged))" by (simp add: ALLOWED_TRANSITIONS_def)
  from demo_moved [OF b1(1) _ this b1(2)] that show ?thesis by auto
qed

theorem incident_history_never_forks_witness:
  "prefix (map lt_to_state (lr_transitions demo_investigating)) (map lt_to_state (lr_transitions demo_open)) \<or>
   prefix (map lt_to_state (lr_transitions demo_open)) (map lt_to_state (lr_transitions demo_investigating)) \<or>
   (\<exists>k. collision casefold (transition_material (lr_transitions demo_investigating ! k)) (transition_material (lr_transitions demo_open ! k)))"
proof -
  obtain b where "lifecycle_run casefold [demo_investigating, demo_acknowledged, demo_open] b" by (rule demo_incident_run)
  from incident_history_never_forks [OF casefold_idem this, of demo_investigating demo_open] show ?thesis by simp
qed

theorem returned_records_are_well_formed_witness:
  "validate_record casefold demo_investigating = None \<and> lifecycle_path OPEN (map lt_to_state (lr_transitions demo_investigating))"
proof -
  obtain b where "lifecycle_run casefold [demo_investigating, demo_acknowledged, demo_open] b" by (rule demo_incident_run)
  from returned_records_are_well_formed [OF casefold_idem this, of demo_investigating] show ?thesis by simp
qed

theorem first_transition_wins_witness:
  "\<exists>b q b'. lifecycle_transition_to casefold demo_investigating (Some CONTAINED) b = (Inr q, b') \<and> lr_state q = CONTAINED"
proof -
  obtain b where b: "lifecycle_run casefold [demo_investigating, demo_acknowledged, demo_open] b" "ahead_free b demo_investigating"
    by (rule demo_incident_run)
  then have "canonical_of b (casefold (lr_intake_root_sha256 demo_investigating)) (int (length (lr_transitions demo_investigating)) + 1) = None"
    by (simp add: ahead_free_def)
  from first_transition_wins [OF casefold_idem b(1) _ this, of CONTAINED RESOLVED] show ?thesis
    by (simp add: ALLOWED_TRANSITIONS_def) blast
qed

end
