(* ===== verification/Incident_Response.thy ===== *)
theory Incident_Response
  imports Incident_Lifecycle
begin

section \<open>Incidents: governance, execution and handoff\<close>

text \<open>
  \<open>aegis/incidents/governance.py\<close>, \<open>execution.py\<close> and \<open>handoff.py\<close>: a decision on a response to an incident, the request
  made from an approved one, its projection into a SQLite ledger, and the inert handoff. Nothing is executed; every
  record carries the digests of what it was made from.
\<close>

subsection \<open>IncidentGovernanceBoundary\<close>

datatype governance_decision = ACTION_APPROVED | ACTION_DENIED | ACTION_REQUIRES_APPROVAL

definition governance_decision_value :: "governance_decision \<Rightarrow> string" where
  "governance_decision_value d = (case d of ACTION_APPROVED \<Rightarrow> ''approved'' | ACTION_DENIED \<Rightarrow> ''denied''
     | ACTION_REQUIRES_APPROVAL \<Rightarrow> ''requires_approval'')"

record governance_record =
  gr_lifecycle :: lifecycle_record
  gr_tenant_ref :: string
  gr_workload_ref :: string
  gr_requested_action :: string
  gr_decision :: governance_decision
  gr_decision_sha256 :: string
  gr_schema_version :: string

abbreviation governance_schema :: string where "governance_schema \<equiv> ''aegis-incident-governance-v1''"

abbreviation gr_incident_id :: "governance_record \<Rightarrow> string" where
  "gr_incident_id g \<equiv> lr_incident_id (gr_lifecycle g)"

definition governance_material :: "governance_record \<Rightarrow> string" where
  "governance_material g = canonical_json (JObj
     [(''decision'', JStr (governance_decision_value (gr_decision g))),
      (''domain'', JStr ''aegis-p16-incident-governance-decision-v1''),
      (''incident_id'', JStr (gr_incident_id g)),
      (''intake_root_sha256'', JStr (casefold (lr_intake_root_sha256 (gr_lifecycle g)))),
      (''lifecycle_head_sha256'', JStr (casefold (lifecycle_head (gr_lifecycle g)))),
      (''lifecycle_state'', JStr (incident_state_value (lr_state (gr_lifecycle g)))),
      (''requested_action'', JStr (gr_requested_action g)),
      (''tenant_ref'', JStr (gr_tenant_ref g)),
      (''workload_ref'', JStr (gr_workload_ref g))])"

definition governance_decision_digest :: "(string \<Rightarrow> string) \<Rightarrow> governance_record \<Rightarrow> string" where
  "governance_decision_digest sha g = sha (governance_material g)"

text \<open>The argument \<open>policy_decision\<close> may be \<open>None\<close>, a string that is no decision, or a decision.\<close>

definition governance_evaluate ::
  "(string \<Rightarrow> string) \<Rightarrow> lifecycle_record \<Rightarrow> string \<Rightarrow> string \<Rightarrow> string \<Rightarrow> (string + governance_decision) option
     \<Rightarrow> incident_error + governance_record" where
  "governance_evaluate sha lifecycle tenant workload action policy_decision =
     (case validate_record sha lifecycle of
        Some e \<Rightarrow> Inl e
      | None \<Rightarrow>
          if lr_state lifecycle = CLOSED then Inl (IncidentValueError ''CLOSED_INCIDENT_ACTION_REJECTED'')
          else if tenant \<noteq> ii_tenant_ref (lr_intake lifecycle) then Inl (IncidentValueError ''INCIDENT_GOVERNANCE_TENANT_MISMATCH'')
          else if workload \<noteq> ii_workload_ref (lr_intake lifecycle) then Inl (IncidentValueError ''INCIDENT_GOVERNANCE_WORKLOAD_MISMATCH'')
          else if action = [] then Inl (IncidentValueError ''INCIDENT_GOVERNANCE_ACTION_REQUIRED'')
          else (case policy_decision of
                  None \<Rightarrow> Inl (IncidentValueError ''INCIDENT_GOVERNANCE_POLICY_DECISION_REQUIRED'')
                | Some (Inl other) \<Rightarrow>
                    if other = [] then Inl (IncidentValueError ''INCIDENT_GOVERNANCE_POLICY_DECISION_REQUIRED'')
                    else Inl (IncidentTypeError ''INCIDENT_GOVERNANCE_POLICY_DECISION_INVALID'')
                | Some (Inr decision) \<Rightarrow>
                    (let g = \<lparr>gr_lifecycle = lifecycle, gr_tenant_ref = tenant, gr_workload_ref = workload,
                              gr_requested_action = action, gr_decision = decision, gr_decision_sha256 = [],
                              gr_schema_version = governance_schema\<rparr>
                     in Inr (g\<lparr>gr_decision_sha256 := governance_decision_digest sha g\<rparr>))))"

subsection \<open>Execution requests\<close>

record execution_request =
  er_governance :: governance_record
  er_incident_id :: string
  er_governance_decision :: governance_decision
  er_lifecycle_state :: incident_state
  er_requested_action :: string
  er_evidence_references :: "(string \<times> string) list"
  er_policy_references :: "string list"
  er_provenance_references :: "string list"
  er_request_sha256 :: string
  er_schema_version :: string

abbreviation execution_schema :: string where "execution_schema \<equiv> ''aegis-incident-execution-request-v1''"

record execution_result =
  ex_incident_id :: string
  ex_governance_decision_reference :: string
  ex_requested_action :: string
  ex_policy_references :: "string list"
  ex_evidence_references :: "(string \<times> string) list"
  ex_execution_identity :: string
  ex_status :: string
  ex_schema_version :: string

definition decision_reference :: "execution_request \<Rightarrow> string" where
  "decision_reference r = casefold (gr_decision_sha256 (er_governance r))"

definition canonical_strings :: "string list \<Rightarrow> string \<Rightarrow> incident_error + string list" where
  "canonical_strings values error =
     (if values = [] \<or> [] \<in> set values then Inl (IncidentValueError error) else Inr (sorted_set values))"

definition canonical_evidence :: "(string \<times> string) list \<Rightarrow> incident_error + (string \<times> string) list" where
  "canonical_evidence values =
     (if values = [] \<or> (\<exists>v \<in> set values. fst v = [] \<or> snd v = []) then Inl (IncidentValueError ''INCIDENT_EXECUTION_EVIDENCE_REQUIRED'')
      else Inr (sorted_set values))"

definition request_material :: "governance_record \<Rightarrow> (string \<times> string) list \<Rightarrow> string" where
  "request_material g evidence = canonical_json (JObj
     [(''domain'', JStr ''aegis-p17-incident-execution-request-v1''),
      (''evidence_references'', references_json evidence),
      (''governance_decision'', JStr (governance_decision_value (gr_decision g))),
      (''governance_decision_sha256'', JStr (casefold (gr_decision_sha256 g))),
      (''incident_id'', JStr (gr_incident_id g)),
      (''intake_root_sha256'', JStr (casefold (lr_intake_root_sha256 (gr_lifecycle g)))),
      (''lifecycle_head_sha256'', JStr (casefold (lifecycle_head (gr_lifecycle g)))),
      (''lifecycle_state'', JStr (incident_state_value (lr_state (gr_lifecycle g)))),
      (''requested_action'', JStr (gr_requested_action g)),
      (''tenant_ref'', JStr (gr_tenant_ref g)),
      (''workload_ref'', JStr (gr_workload_ref g))])"

definition execution_request_digest :: "(string \<Rightarrow> string) \<Rightarrow> governance_record \<Rightarrow> (string \<times> string) list \<Rightarrow> string" where
  "execution_request_digest sha g evidence = sha (request_material g evidence)"

definition identity_material :: "string \<Rightarrow> string \<Rightarrow> string \<Rightarrow> string list \<Rightarrow> (string \<times> string) list \<Rightarrow> string" where
  "identity_material incident reference action policies evidence = canonical_json (JObj
     [(''domain'', JStr ''aegis-p17-incident-execution-identity-v1''),
      (''evidence_references'', references_json evidence),
      (''governance_decision_reference'', JStr (casefold reference)),
      (''incident_id'', JStr incident),
      (''policy_references'', JList (map JStr policies)),
      (''requested_action'', JStr action)])"

definition execution_identity :: "(string \<Rightarrow> string) \<Rightarrow> execution_request \<Rightarrow> incident_error + string" where
  "execution_identity sha r =
     (if er_incident_id r = [] then Inl (IncidentValueError ''INCIDENT_EXECUTION_INCIDENT_ID_REQUIRED'')
      else case canonical_evidence (er_evidence_references r) of
        Inl e \<Rightarrow> Inl e
      | Inr evidence \<Rightarrow>
          (case canonical_strings (er_policy_references r) ''INCIDENT_EXECUTION_POLICY_REQUIRED'' of
             Inl e \<Rightarrow> Inl e
           | Inr policies \<Rightarrow> Inr (''execution-'' @
               sha (identity_material (er_incident_id r) (decision_reference r) (er_requested_action r) policies evidence))))"

text \<open>\<open>_validate_governance\<close> returns the head of the lifecycle.\<close>

definition validate_governance :: "(string \<Rightarrow> string) \<Rightarrow> governance_record \<Rightarrow> incident_error + string" where
  "validate_governance sha g =
     (if gr_incident_id g = [] then Inl (IncidentValueError ''INCIDENT_EXECUTION_INCIDENT_ID_REQUIRED'')
      else case validate_record sha (gr_lifecycle g) of
        Some e \<Rightarrow> Inl e
      | None \<Rightarrow>
          if gr_schema_version g \<noteq> governance_schema then Inl (IncidentValueError ''INCIDENT_GOVERNANCE_SCHEMA_INVALID'')
          else if gr_tenant_ref g \<noteq> ii_tenant_ref (lr_intake (gr_lifecycle g))
            then Inl (IncidentValueError ''INCIDENT_GOVERNANCE_TENANT_MISMATCH'')
          else if gr_workload_ref g \<noteq> ii_workload_ref (lr_intake (gr_lifecycle g))
            then Inl (IncidentValueError ''INCIDENT_GOVERNANCE_WORKLOAD_MISMATCH'')
          else if gr_requested_action g = [] then Inl (IncidentValueError ''INCIDENT_GOVERNANCE_ACTION_REQUIRED'')
          else if gr_decision_sha256 g = [] \<or> casefold (gr_decision_sha256 g) \<noteq> governance_decision_digest sha g
            then Inl (IncidentValueError ''INCIDENT_GOVERNANCE_RECORD_INVALID'')
          else Inr (casefold (lifecycle_head (gr_lifecycle g))))"

text \<open>\<open>_validate_request\<close>, and \<open>_validate_execution_request\<close> of the handoff, which repeats it.\<close>

definition validate_request :: "(string \<Rightarrow> string) \<Rightarrow> execution_request \<Rightarrow> incident_error option" where
  "validate_request sha r =
     (case validate_governance sha (er_governance r) of
        Inl e \<Rightarrow> Some e
      | Inr head \<Rightarrow>
          (let g = er_governance r; lifecycle = gr_lifecycle g in
           if er_schema_version r \<noteq> execution_schema \<or> er_incident_id r \<noteq> gr_incident_id g \<or>
              er_governance_decision r \<noteq> gr_decision g \<or> er_lifecycle_state r \<noteq> lr_state lifecycle \<or>
              er_requested_action r \<noteq> gr_requested_action g \<or>
              er_evidence_references r \<noteq> ii_evidence_references (lr_intake lifecycle) \<or>
              er_policy_references r \<noteq> [casefold (gr_decision_sha256 g)] \<or>
              er_provenance_references r \<noteq> [casefold (lr_intake_root_sha256 lifecycle), head]
             then Some (IncidentValueError ''INCIDENT_EXECUTION_REQUEST_INVALID'')
           else if casefold (er_request_sha256 r) \<noteq> execution_request_digest sha g (er_evidence_references r)
             then Some (IncidentValueError ''INCIDENT_EXECUTION_REQUEST_INVALID'')
           else None))"

definition request_for :: "(string \<Rightarrow> string) \<Rightarrow> governance_record \<Rightarrow> string \<Rightarrow> execution_request" where
  "request_for sha g head =
     \<lparr>er_governance = g, er_incident_id = gr_incident_id g, er_governance_decision = gr_decision g,
      er_lifecycle_state = lr_state (gr_lifecycle g), er_requested_action = gr_requested_action g,
      er_evidence_references = ii_evidence_references (lr_intake (gr_lifecycle g)),
      er_policy_references = [casefold (gr_decision_sha256 g)],
      er_provenance_references = [casefold (lr_intake_root_sha256 (gr_lifecycle g)), head],
      er_request_sha256 = execution_request_digest sha g (ii_evidence_references (lr_intake (gr_lifecycle g))),
      er_schema_version = execution_schema\<rparr>"

definition create_request :: "(string \<Rightarrow> string) \<Rightarrow> governance_record \<Rightarrow> incident_error + execution_request" where
  "create_request sha g =
     (case validate_governance sha g of
        Inl e \<Rightarrow> Inl e
      | Inr head \<Rightarrow>
          if lr_state (gr_lifecycle g) = CLOSED then Inl (IncidentValueError ''CLOSED_INCIDENT_EXECUTION_REJECTED'')
          else if gr_decision g = ACTION_DENIED then Inl (IncidentValueError ''DENIED_GOVERNANCE_EXECUTION_REJECTED'')
          else if gr_decision g \<noteq> ACTION_APPROVED then Inl (IncidentValueError ''INCIDENT_EXECUTION_APPROVAL_REQUIRED'')
          else Inr (request_for sha g head))"


subsection \<open>IncidentExecutionBoundary\<close>

record projection_row =
  el_execution_identity :: string
  el_request_sha256 :: string
  el_request_fingerprint :: string
  el_result_json :: string

record execution_boundary =
  eb_ledger :: "projection_row list"
  eb_results :: "(string \<times> execution_result) list"

definition request_fingerprint :: "(string \<Rightarrow> string) \<Rightarrow> execution_request \<Rightarrow> string \<Rightarrow> string" where
  "request_fingerprint sha r identity = sha (utf8 (json_dumps True (JObj
     [(''execution_identity'', JStr identity), (''request_sha256'', JStr (casefold (er_request_sha256 r))),
      (''schema_version'', JStr (er_schema_version r))])))"

definition result_of :: "execution_request \<Rightarrow> string \<Rightarrow> execution_result" where
  "result_of r identity =
     \<lparr>ex_incident_id = er_incident_id r, ex_governance_decision_reference = decision_reference r,
      ex_requested_action = er_requested_action r, ex_policy_references = er_policy_references r,
      ex_evidence_references = er_evidence_references r, ex_execution_identity = identity, ex_status = ''projected'',
      ex_schema_version = execution_schema\<rparr>"

definition result_fields :: "execution_result \<Rightarrow> (string \<times> json) list" where
  "result_fields x =
     [(''evidence_references'', references_json (ex_evidence_references x)),
      (''execution_identity'', JStr (ex_execution_identity x)),
      (''governance_decision_reference'', JStr (ex_governance_decision_reference x)),
      (''incident_id'', JStr (ex_incident_id x)),
      (''policy_references'', JList (map JStr (ex_policy_references x))),
      (''requested_action'', JStr (ex_requested_action x))]"

definition result_json :: "execution_result \<Rightarrow> string" where
  "result_json x = json_dumps True (JObj (result_fields x))"

definition projected_row :: "(string \<Rightarrow> string) \<Rightarrow> execution_request \<Rightarrow> string \<Rightarrow> projection_row" where
  "projected_row sha r identity =
     \<lparr>el_execution_identity = identity, el_request_sha256 = casefold (er_request_sha256 r),
      el_request_fingerprint = request_fingerprint sha r identity, el_result_json = result_json (result_of r identity)\<rparr>"

text \<open>The insertion fails on the \<open>UNIQUE\<close> constraint of the request digest, which is reported as a conflict.\<close>

definition incident_execute :: "(string \<Rightarrow> string) \<Rightarrow> execution_request \<Rightarrow> (execution_boundary, incident_error, execution_result) operation" where
  "incident_execute sha r b =
     (case validate_request sha r of
        Some e \<Rightarrow> (Inl e, b)
      | None \<Rightarrow>
          (case execution_identity sha r of
             Inl e \<Rightarrow> (Inl e, b)
           | Inr identity \<Rightarrow>
               (let result = result_of r identity; expected = projected_row sha r identity in
                case row_of el_execution_identity identity (eb_ledger b) of
                  Some prior \<Rightarrow>
                    if prior \<noteq> expected then (Inl (IncidentValueError ''INCIDENT_EXECUTION_REPLAY_CONFLICT''), b)
                    else (case map_of (eb_results b) identity of
                            Some cached \<Rightarrow> (Inr cached, b)
                          | None \<Rightarrow> (Inr result, b\<lparr>eb_results := AList.update identity result (eb_results b)\<rparr>))
                | None \<Rightarrow>
                    if row_of el_request_sha256 (el_request_sha256 expected) (eb_ledger b) \<noteq> None
                      then (Inl (IncidentValueError ''INCIDENT_EXECUTION_REPLAY_CONFLICT''), b)
                    else (Inr result, b\<lparr>eb_ledger := eb_ledger b @ [expected],
                            eb_results := AList.update identity result (eb_results b)\<rparr>))))"

definition execution_restart :: "execution_boundary \<Rightarrow> execution_boundary" where
  "execution_restart b = b\<lparr>eb_results := []\<rparr>"

subsection \<open>IncidentResponseHandoffBoundary\<close>

record handoff_request =
  hr_execution :: execution_request
  hr_handoff_id :: string
  hr_incident_id :: string
  hr_execution_request_sha256 :: string
  hr_governance_decision :: governance_decision
  hr_lifecycle_state :: incident_state
  hr_evidence_references :: "(string \<times> string) list"
  hr_policy_references :: "string list"
  hr_provenance_references :: "string list"
  hr_requested_action :: string
  hr_schema_version :: string

definition handoff_material :: "execution_request \<Rightarrow> string" where
  "handoff_material r = canonical_json (JObj
     [(''domain'', JStr ''aegis-p18-response-handoff-request-v1''),
      (''evidence_references'', references_json (er_evidence_references r)),
      (''execution_request_sha256'', JStr (casefold (er_request_sha256 r))),
      (''governance_decision'', JStr (governance_decision_value (er_governance_decision r))),
      (''incident_id'', JStr (er_incident_id r)),
      (''lifecycle_state'', JStr (incident_state_value (er_lifecycle_state r))),
      (''policy_references'', JList (map JStr (er_policy_references r))),
      (''provenance_references'', JList (map JStr (er_provenance_references r))),
      (''requested_action'', JStr (er_requested_action r))])"

definition handoff_request_digest :: "(string \<Rightarrow> string) \<Rightarrow> execution_request \<Rightarrow> string" where
  "handoff_request_digest sha r = sha (handoff_material r)"

definition create_handoff :: "(string \<Rightarrow> string) \<Rightarrow> execution_request \<Rightarrow> incident_error + handoff_request" where
  "create_handoff sha r =
     (case validate_request sha r of
        Some e \<Rightarrow> Inl e
      | None \<Rightarrow>
          if er_governance_decision r \<noteq> ACTION_APPROVED then Inl (IncidentValueError ''INCIDENT_HANDOFF_APPROVED_EXECUTION_REQUIRED'')
          else if er_lifecycle_state r = CLOSED then Inl (IncidentValueError ''CLOSED_INCIDENT_HANDOFF_REJECTED'')
          else Inr \<lparr>hr_execution = r, hr_handoff_id = ''handoff-'' @ handoff_request_digest sha r, hr_incident_id = er_incident_id r,
                    hr_execution_request_sha256 = casefold (er_request_sha256 r), hr_governance_decision = er_governance_decision r,
                    hr_lifecycle_state = er_lifecycle_state r, hr_evidence_references = er_evidence_references r,
                    hr_policy_references = er_policy_references r, hr_provenance_references = er_provenance_references r,
                    hr_requested_action = er_requested_action r, hr_schema_version = ''aegis-response-handoff-request-v1''\<rparr>)"


subsection \<open>What is accepted\<close>

definition hex_digests :: "(string \<Rightarrow> string) \<Rightarrow> bool" where
  "hex_digests sha \<longleftrightarrow> (\<forall>m. length (sha m) = 64 \<and> casefold (sha m) = sha m)"

lemma hexD: "hex_digests sha \<Longrightarrow> casefold (sha m) = sha m" "hex_digests sha \<Longrightarrow> sha m \<noteq> []"
  unfolding hex_digests_def by (simp, metis length_0_conv zero_neq_numeral)

lemma governance_material_digest [simp]:
  "governance_decision_digest sha (g\<lparr>gr_decision_sha256 := d\<rparr>) = governance_decision_digest sha g"
  by (simp add: governance_decision_digest_def governance_material_def)

lemma evaluate_cases:
  "governance_evaluate sha l tenant workload action d = Inr g \<longleftrightarrow>
     validate_record sha l = None \<and> lr_state l \<noteq> CLOSED \<and> tenant = ii_tenant_ref (lr_intake l) \<and>
     workload = ii_workload_ref (lr_intake l) \<and> action \<noteq> [] \<and>
     (\<exists>decision. d = Some (Inr decision) \<and> g = (let g = \<lparr>gr_lifecycle = l, gr_tenant_ref = tenant, gr_workload_ref = workload,
        gr_requested_action = action, gr_decision = decision, gr_decision_sha256 = [], gr_schema_version = governance_schema\<rparr>
        in g\<lparr>gr_decision_sha256 := governance_decision_digest sha g\<rparr>))"
  by (auto simp: governance_evaluate_def Let_def split: option.splits sum.splits)

lemma validate_governance_Inr:
  "validate_governance sha g = Inr head \<longleftrightarrow> gr_incident_id g \<noteq> [] \<and> validate_record sha (gr_lifecycle g) = None \<and>
     gr_schema_version g = governance_schema \<and> gr_tenant_ref g = ii_tenant_ref (lr_intake (gr_lifecycle g)) \<and>
     gr_workload_ref g = ii_workload_ref (lr_intake (gr_lifecycle g)) \<and> gr_requested_action g \<noteq> [] \<and>
     gr_decision_sha256 g \<noteq> [] \<and> casefold (gr_decision_sha256 g) = governance_decision_digest sha g \<and>
     head = casefold (lifecycle_head (gr_lifecycle g))"
  by (auto simp: validate_governance_def split: option.splits)

lemma evaluated_is_valid:
  assumes "hex_digests sha" and "governance_evaluate sha l tenant workload action d = Inr g"
  shows "validate_governance sha g = Inr (casefold (lifecycle_head l)) \<and> gr_lifecycle g = l"
proof -
  have "ii_incident_id (lr_intake l) \<noteq> []" if "validate_record sha l = None"
    using that by (auto simp: validate_record_None validate_intake_def split: if_splits)
  then show ?thesis using assms(2) hexD [OF assms(1)]
    by (auto simp: evaluate_cases validate_governance_Inr Let_def governance_decision_digest_def governance_material_def)
qed

lemma validate_request_None:
  "validate_request sha r = None \<longleftrightarrow> (\<exists>head. validate_governance sha (er_governance r) = Inr head \<and>
     r = (request_for sha (er_governance r) head)\<lparr>er_request_sha256 := er_request_sha256 r\<rparr> \<and>
     casefold (er_request_sha256 r) = execution_request_digest sha (er_governance r) (er_evidence_references r))"
  by (cases r) (auto simp: validate_request_def request_for_def Let_def split: sum.splits)

lemma request_is_valid:
  "hex_digests sha \<Longrightarrow> validate_governance sha g = Inr head \<Longrightarrow> validate_request sha (request_for sha g head) = None"
  by (simp add: validate_request_None) (simp add: request_for_def execution_request_digest_def hexD)

lemma create_request_Inr:
  "create_request sha g = Inr r \<longleftrightarrow> (\<exists>head. validate_governance sha g = Inr head \<and> lr_state (gr_lifecycle g) \<noteq> CLOSED \<and>
     gr_decision g = ACTION_APPROVED \<and> r = request_for sha g head)"
  by (auto simp: create_request_def split: sum.splits)

abbreviation evidence_named :: "incident_intake \<Rightarrow> bool" where
  "evidence_named i \<equiv> \<forall>v \<in> set (ii_evidence_references i). fst v \<noteq> [] \<and> snd v \<noteq> []"

lemma request_identity:
  assumes "hex_digests sha" and "validate_governance sha g = Inr head" and "evidence_named (lr_intake (gr_lifecycle g))"
  shows "\<exists>identity. execution_identity sha (request_for sha g head) = Inr identity"
proof -
  have "ii_evidence_references (lr_intake (gr_lifecycle g)) \<noteq> []" "casefold (gr_decision_sha256 g) \<noteq> []"
    using assms(1,2) hexD(2) [OF assms(1)] unfolding validate_governance_Inr validate_record_None
    by (auto simp: validate_intake_def governance_decision_digest_def split: if_splits)
  with assms(2,3) show ?thesis
    by (auto simp: execution_identity_def request_for_def canonical_evidence_def canonical_strings_def validate_governance_Inr)
qed


subsection \<open>The ledger\<close>

lemma sort_keys_references [simp]: "sort_keys (references_json refs) = references_json refs"
  by (simp add: references_json_def comp_def)

lemma wf_references [simp]: "wf_json (references_json refs)"
  by (simp add: references_json_def list_all_iff)

lemma references_json_inject [simp]: "references_json refs = references_json refs' \<longleftrightarrow> refs = refs'"
proof -
  have "inj (\<lambda>r. JList [JStr (fst r), JStr (snd r)])" by (auto simp: inj_on_def prod_eq_iff)
  then show ?thesis by (simp add: references_json_def inj_map_eq_map)
qed

lemma sort_keys_strings [simp]: "sort_keys (JList (map JStr xs)) = JList (map JStr xs)"
  by (simp add: comp_def)

lemma wf_strings [simp]: "wf_json (JList (map JStr xs))"
  by (simp add: list_all_iff)

lemma strings_inject [simp]: "map JStr xs = map JStr ys \<longleftrightarrow> xs = ys"
  by (intro inj_map_eq_map) (auto simp: inj_on_def)

lemma result_json_inject:
  assumes "result_json x = result_json y" and "ex_status x = ex_status y" and "ex_schema_version x = ex_schema_version y"
  shows "x = y"
proof -
  have "wf_json (JObj (result_fields x))" for x by (simp add: result_fields_def del: wf_json.simps(5))
  from json_dumps_field [OF assms(1) [unfolded result_json_def] this this]
  have field: "map_option sort_keys (map_of (result_fields x) k) = map_option sort_keys (map_of (result_fields y) k)" for k .
  from field [of "''evidence_references''"] field [of "''execution_identity''"] field [of "''governance_decision_reference''"]
    field [of "''incident_id''"] field [of "''policy_references''"] field [of "''requested_action''"] assms(2,3)
  show ?thesis by (intro execution_result.equality) (simp_all add: result_fields_def del: sort_keys.simps(5))
qed

inductive execution_step :: "(string \<Rightarrow> string) \<Rightarrow> execution_boundary \<Rightarrow> execution_boundary \<Rightarrow> bool" for sha where
  projecting: "incident_execute sha r b = (res, b') \<Longrightarrow> execution_step sha b b'"
| restarting: "execution_step sha b (execution_restart b)"

lemma execute_cases:
  assumes "incident_execute sha r b = (res, b')"
  obtains e where "res = Inl e" "b' = b"
  | identity where "validate_request sha r = None" "execution_identity sha r = Inr identity"
      "row_of el_execution_identity identity (eb_ledger b) = Some (projected_row sha r identity)"
      "eb_ledger b' = eb_ledger b" "res = Inr (case map_of (eb_results b) identity of Some cached \<Rightarrow> cached | None \<Rightarrow> result_of r identity)"
      "map_of (eb_results b') = (map_of (eb_results b))(identity \<mapsto>
         case map_of (eb_results b) identity of Some cached \<Rightarrow> cached | None \<Rightarrow> result_of r identity)"
  | identity where "validate_request sha r = None" "execution_identity sha r = Inr identity"
      "row_of el_execution_identity identity (eb_ledger b) = None"
      "eb_ledger b' = eb_ledger b @ [projected_row sha r identity]" "res = Inr (result_of r identity)"
      "map_of (eb_results b') = (map_of (eb_results b))(identity \<mapsto> result_of r identity)"
  using assms
  by (auto simp: incident_execute_def Let_def update_conv' fun_upd_idem split: option.splits sum.splits if_splits)

interpretation projections: write_once "\<lambda>b identity. row_of el_execution_identity identity (eb_ledger b)" "execution_step sha" for sha
proof unfold_locales
  fix b b' identity row
  assume "execution_step sha b b'" and row: "row_of el_execution_identity identity (eb_ledger b) = Some row"
  then show "row_of el_execution_identity identity (eb_ledger b') = Some row"
  proof cases
    case (projecting r res)
    from projecting(1) row show ?thesis by (cases rule: execute_cases) (simp_all add: find_append)
  qed (simp add: execution_restart_def)
qed

text \<open>The results kept in memory are those the ledger states.\<close>

definition results_stated :: "execution_boundary \<Rightarrow> bool" where
  "results_stated b \<longleftrightarrow> (\<forall>identity x. map_of (eb_results b) identity = Some x \<longrightarrow>
     ex_status x = ''projected'' \<and> ex_schema_version x = execution_schema \<and> ex_execution_identity x = identity \<and>
     (\<exists>row. row_of el_execution_identity identity (eb_ledger b) = Some row \<and> el_result_json row = result_json x))"

lemma projected_row_sel [simp]: "el_result_json (projected_row sha r i) = result_json (result_of r i)"
  "el_execution_identity (projected_row sha r i) = i"
  by (simp_all add: projected_row_def)

lemma result_of_sel [simp]: "ex_status (result_of r i) = ''projected''" "ex_schema_version (result_of r i) = execution_schema"
  "ex_execution_identity (result_of r i) = i"
  by (simp_all add: result_of_def)

lemma statedD:
  assumes "results_stated b" and "map_of (eb_results b) i = Some x"
  obtains row where "row_of el_execution_identity i (eb_ledger b) = Some row" "el_result_json row = result_json x"
    "ex_status x = ''projected''" "ex_schema_version x = execution_schema" "ex_execution_identity x = i"
  using assms unfolding results_stated_def by blast

lemma cached_is_result:
  assumes "results_stated b" and "map_of (eb_results b) identity = Some x"
    and "row_of el_execution_identity identity (eb_ledger b) = Some (projected_row sha r identity)"
  shows "x = result_of r identity"
proof -
  from assms(1,2) obtain row where "row_of el_execution_identity identity (eb_ledger b) = Some row" "el_result_json row = result_json x"
    "ex_status x = ''projected''" "ex_schema_version x = execution_schema" by (rule statedD)
  with assms(3) show ?thesis by (intro result_json_inject) simp_all
qed

lemma execution_step_stated:
  assumes "execution_step sha b b'" and "results_stated b"
  shows "results_stated b'"
  using assms(1)
proof cases
  case (projecting r res)
  from projecting(1) show ?thesis
  proof (cases rule: execute_cases)
    case (2 identity)
    have "(case map_of (eb_results b) identity of Some cached \<Rightarrow> cached | None \<Rightarrow> result_of r identity) = result_of r identity"
      using cached_is_result [OF assms(2) _ 2(3)] by (simp split: option.split)
    with 2 assms(2) show ?thesis by (simp add: results_stated_def)
  next
    case (3 identity)
    have "\<exists>row. row_of el_execution_identity i (eb_ledger b') = Some row \<and> el_result_json row = result_json x \<and> ex_status x = ''projected'' \<and>
        ex_schema_version x = execution_schema \<and> ex_execution_identity x = i" if "map_of (eb_results b') i = Some x" for i x
    proof (cases "i = identity")
      case True
      with that 3(6) have "x = result_of r identity" by simp
      with 3(3,4) True show ?thesis by (simp add: find_append)
    next
      case False
      with that 3(6) have "map_of (eb_results b) i = Some x" by simp
      with assms(2) obtain row where "row_of el_execution_identity i (eb_ledger b) = Some row" "el_result_json row = result_json x"
        "ex_status x = ''projected''" "ex_schema_version x = execution_schema" "ex_execution_identity x = i" by (rule statedD)
      then show ?thesis by (simp add: 3(4) find_append)
    qed
    then show ?thesis unfolding results_stated_def by blast
  qed (use assms(2) in simp)
qed (simp add: results_stated_def execution_restart_def)

lemma execution_steps_stated: "(execution_step sha)\<^sup>*\<^sup>* b b' \<Longrightarrow> results_stated b \<Longrightarrow> results_stated b'"
  by (induction rule: rtranclp_induct) (auto intro: execution_step_stated)

text \<open>What a call that returns has found or written.\<close>

lemma executed:
  assumes "incident_execute sha r b = (Inr x, b')" and "results_stated b"
  obtains identity where "validate_request sha r = None" "execution_identity sha r = Inr identity" "x = result_of r identity"
    "row_of el_execution_identity identity (eb_ledger b') = Some (projected_row sha r identity)"
proof -
  from assms(1) show ?thesis
  proof (cases rule: execute_cases)
    case (2 identity)
    with that cached_is_result [OF assms(2) _ 2(3)] show ?thesis by (simp split: option.splits)
  next
    case (3 identity)
    with that show ?thesis by (simp add: find_append)
  qed simp
qed

lemma executed_again:
  assumes "validate_request sha r = None" and "execution_identity sha r = Inr identity" and "results_stated b"
    and "row_of el_execution_identity identity (eb_ledger b) = Some (projected_row sha r identity)"
  shows "\<exists>b'. incident_execute sha r b = (Inr (result_of r identity), b') \<and> eb_ledger b' = eb_ledger b"
  using assms(1,2,4) cached_is_result [OF assms(3) _ assms(4)]
  by (auto simp: incident_execute_def Let_def split: option.split)

text \<open>A projection is made once and stays: whatever requests are executed afterwards, process restarts included, the
  same request returns the same result again and writes nothing, and no accepted request with that identity ever
  returns another result.\<close>

theorem projection_is_final:
  assumes "eb_results b0 = []" and "(execution_step sha)\<^sup>*\<^sup>* b0 b" and "incident_execute sha r b = (Inr x, b1)"
    and "(execution_step sha)\<^sup>*\<^sup>* b1 b2"
  shows "(\<exists>b3. incident_execute sha r b2 = (Inr x, b3) \<and> eb_ledger b3 = eb_ledger b2) \<and>
    (incident_execute sha r' b2 = (Inr x', b3) \<and> ex_execution_identity x' = ex_execution_identity x \<longrightarrow> x' = x)"
proof -
  have "results_stated b0" using assms(1) by (simp add: results_stated_def)
  from execution_steps_stated [OF assms(2) this] have b: "results_stated b" .
  with execution_step.projecting [OF assms(3)] have "results_stated b1" by (rule execution_step_stated)
  from execution_steps_stated [OF assms(4) this] have b2: "results_stated b2" .
  from executed [OF assms(3) b] obtain i where r: "validate_request sha r = None" "execution_identity sha r = Inr i" "x = result_of r i"
    and row: "row_of el_execution_identity i (eb_ledger b1) = Some (projected_row sha r i)" by blast
  have kept: "row_of el_execution_identity i (eb_ledger b2) = Some (projected_row sha r i)" by (rule projections.steps_keep [OF assms(4) row])
  have "x' = x" if other: "incident_execute sha r' b2 = (Inr x', b3)" "ex_execution_identity x' = ex_execution_identity x"
  proof -
    from executed [OF other(1) b2] obtain i' where r': "x' = result_of r' i'"
      "row_of el_execution_identity i' (eb_ledger b3) = Some (projected_row sha r' i')" by blast
    have "i' = i" using r(3) r'(1) other(2) by simp
    moreover have "row_of el_execution_identity i (eb_ledger b3) = Some (projected_row sha r i)"
      using projections.step_keeps [OF execution_step.projecting [OF other(1)] kept] .
    ultimately have "projected_row sha r' i = projected_row sha r i" using r'(2) by simp
    then have "result_json (result_of r' i) = result_json (result_of r i)" by (metis projected_row_sel(1))
    then show ?thesis using r(3) r'(1) \<open>i' = i\<close> by (intro result_json_inject) simp_all
  qed
  then show ?thesis using executed_again [OF r(1,2) b2 kept] r(3) by blast
qed


subsection \<open>From decision to handoff\<close>

lemma handoff_Inr:
  "create_handoff sha r = Inr h \<longleftrightarrow> validate_request sha r = None \<and> er_governance_decision r = ACTION_APPROVED \<and>
     er_lifecycle_state r \<noteq> CLOSED \<and> h = \<lparr>hr_execution = r, hr_handoff_id = ''handoff-'' @ handoff_request_digest sha r,
       hr_incident_id = er_incident_id r, hr_execution_request_sha256 = casefold (er_request_sha256 r),
       hr_governance_decision = er_governance_decision r, hr_lifecycle_state = er_lifecycle_state r,
       hr_evidence_references = er_evidence_references r, hr_policy_references = er_policy_references r,
       hr_provenance_references = er_provenance_references r, hr_requested_action = er_requested_action r,
       hr_schema_version = ''aegis-response-handoff-request-v1''\<rparr>"
  by (auto simp: create_handoff_def split: option.split)

lemma request_for_sel [simp]:
  "er_governance (request_for sha g head) = g" "er_governance_decision (request_for sha g head) = gr_decision g"
  "er_lifecycle_state (request_for sha g head) = lr_state (gr_lifecycle g)" "er_requested_action (request_for sha g head) = gr_requested_action g"
  "er_evidence_references (request_for sha g head) = ii_evidence_references (lr_intake (gr_lifecycle g))"
  "er_incident_id (request_for sha g head) = gr_incident_id g"
  by (simp_all add: request_for_def)

text \<open>A boundary that has seen neither the identity nor the digest of a request.\<close>

definition unseen :: "(string \<Rightarrow> string) \<Rightarrow> execution_request \<Rightarrow> execution_boundary \<Rightarrow> bool" where
  "unseen sha r b \<longleftrightarrow> list_all (\<lambda>row. el_request_sha256 row \<noteq> casefold (er_request_sha256 r) \<and>
     Inr (el_execution_identity row) \<noteq> execution_identity sha r) (eb_ledger b)"

lemma unseen_is_projected:
  assumes "validate_request sha r = None" and "execution_identity sha r = Inr identity" and "unseen sha r b"
  shows "\<exists>b'. incident_execute sha r b = (Inr (result_of r identity), b') \<and> eb_ledger b' = eb_ledger b @ [projected_row sha r identity]"
proof -
  have "row_of el_execution_identity identity (eb_ledger b) = None"
    "row_of el_request_sha256 (casefold (er_request_sha256 r)) (eb_ledger b) = None"
    using assms(2,3) by (auto simp: unseen_def list_all_iff row_of_None)
  then show ?thesis using assms(1,2) by (simp add: incident_execute_def Let_def) (simp add: projected_row_def)
qed

text \<open>An approved action goes all the way: for a valid open incident whose evidence is named, an approval of an action
  yields a request, its execution is recorded and its handoff is created, about this incident and this action.\<close>

theorem approved_action_is_handed_off:
  assumes "hex_digests sha" and "validate_record sha l = None" and "lr_state l \<noteq> CLOSED" and "action \<noteq> []"
    and "list_all (\<lambda>v. fst v \<noteq> [] \<and> snd v \<noteq> []) (ii_evidence_references (lr_intake l))"
  shows "\<exists>g r h. governance_evaluate sha l (ii_tenant_ref (lr_intake l)) (ii_workload_ref (lr_intake l)) action (Some (Inr ACTION_APPROVED)) = Inr g \<and>
    create_request sha g = Inr r \<and> create_handoff sha r = Inr h \<and>
    (unseen sha r b \<longrightarrow> (\<exists>x b' row. incident_execute sha r b = (Inr x, b') \<and> ex_requested_action x = action \<and>
      ex_incident_id x = lr_incident_id l \<and> eb_ledger b' = eb_ledger b @ [row])) \<and>
    hr_requested_action h = action \<and> hr_incident_id h = lr_incident_id l \<and>
    hr_evidence_references h = ii_evidence_references (lr_intake l)"
proof -
  obtain g where g: "governance_evaluate sha l (ii_tenant_ref (lr_intake l)) (ii_workload_ref (lr_intake l)) action (Some (Inr ACTION_APPROVED)) = Inr g"
    "gr_decision g = ACTION_APPROVED" "gr_requested_action g = action"
    using assms(2-4) by (simp add: governance_evaluate_def Let_def)
  from evaluated_is_valid [OF assms(1) g(1)] have head: "validate_governance sha g = Inr (casefold (lifecycle_head l))" and l: "gr_lifecycle g = l" by simp_all
  let ?r = "request_for sha g (casefold (lifecycle_head l))"
  have valid: "validate_request sha ?r = None" by (rule request_is_valid [OF assms(1) head])
  have request: "create_request sha g = Inr ?r" using head g(2) l assms(3) by (auto simp: create_request_Inr)
  obtain h where h: "create_handoff sha ?r = Inr h" "hr_requested_action h = action" "hr_incident_id h = lr_incident_id l"
    "hr_evidence_references h = ii_evidence_references (lr_intake l)"
    using valid g(2,3) l assms(3) by (simp add: handoff_Inr)
  have "evidence_named (lr_intake (gr_lifecycle g))" using assms(5) l by (simp add: list_all_iff)
  from request_identity [OF assms(1) head this] obtain identity where "execution_identity sha ?r = Inr identity" by blast
  from unseen_is_projected [OF valid this, of b]
  have "unseen sha ?r b \<longrightarrow> (\<exists>x b' row. incident_execute sha ?r b = (Inr x, b') \<and> ex_requested_action x = action \<and>
      ex_incident_id x = lr_incident_id l \<and> eb_ledger b' = eb_ledger b @ [row])"
    using g(3) l by (auto simp: result_of_def)
  with g(1) request h show ?thesis by blast
qed

text \<open>\<^bold>\<open>C28\<close>. A denied action is projected all the same: \<open>create_request\<close> refuses to make a request from a decision that is
  not an approval, but \<open>execute\<close> never looks at the decision. For every decision, approved or not, the request with
  the fields that \<open>create_request\<close> would have filled in is executed and recorded as projected; of the two consumers of
  a request only the handoff asks for an approval.\<close>

theorem denied_action_is_projected:
  assumes "hex_digests sha" and "governance_evaluate sha l tenant workload action (Some (Inr decision)) = Inr g" and "decision \<noteq> ACTION_APPROVED"
    and "list_all (\<lambda>v. fst v \<noteq> [] \<and> snd v \<noteq> []) (ii_evidence_references (lr_intake l))"
    and "r = request_for sha g (casefold (lifecycle_head l))" and "unseen sha r b"
  shows "\<exists>e x b' row. create_request sha g = Inl e \<and> incident_execute sha r b = (Inr x, b') \<and> ex_status x = ''projected'' \<and>
    ex_requested_action x = action \<and> eb_ledger b' = eb_ledger b @ [row] \<and>
    create_handoff sha r = Inl (IncidentValueError ''INCIDENT_HANDOFF_APPROVED_EXECUTION_REQUIRED'')"
proof -
  from evaluated_is_valid [OF assms(1,2)] have head: "validate_governance sha g = Inr (casefold (lifecycle_head l))" and l: "gr_lifecycle g = l" by simp_all
  have g: "gr_decision g = decision" "gr_requested_action g = action" using assms(2) by (auto simp: evaluate_cases Let_def)
  have valid: "validate_request sha r = None" unfolding assms(5) by (rule request_is_valid [OF assms(1) head])
  have "evidence_named (lr_intake (gr_lifecycle g))" using assms(4) l by (simp add: list_all_iff)
  from request_identity [OF assms(1) head this] obtain identity where "execution_identity sha r = Inr identity" unfolding assms(5) by blast
  from unseen_is_projected [OF valid this assms(6)] obtain b' where
    "incident_execute sha r b = (Inr (result_of r identity), b')" "eb_ledger b' = eb_ledger b @ [projected_row sha r identity]" by blast
  moreover have "\<exists>e. create_request sha g = Inl e" using create_request_Inr [of sha g] assms(3) g(1) by (cases "create_request sha g") auto
  moreover have "create_handoff sha r = Inl (IncidentValueError ''INCIDENT_HANDOFF_APPROVED_EXECUTION_REQUIRED'')"
    using valid assms(3,5) g(1) by (simp add: create_handoff_def)
  moreover have "ex_requested_action (result_of r identity) = action" using assms(5) g(2) by (simp add: result_of_def)
  ultimately show ?thesis using result_of_sel(1) by blast
qed

lemma handoff_material_inject:
  assumes "handoff_material r = handoff_material q"
  shows "er_incident_id r = er_incident_id q \<and> er_requested_action r = er_requested_action q \<and>
    er_evidence_references r = er_evidence_references q \<and> casefold (er_request_sha256 r) = casefold (er_request_sha256 q)"
proof -
  let ?j = "\<lambda>r. [(''domain'', JStr ''aegis-p18-response-handoff-request-v1''), (''evidence_references'', references_json (er_evidence_references r)),
      (''execution_request_sha256'', JStr (casefold (er_request_sha256 r))),
      (''governance_decision'', JStr (governance_decision_value (er_governance_decision r))), (''incident_id'', JStr (er_incident_id r)),
      (''lifecycle_state'', JStr (incident_state_value (er_lifecycle_state r))), (''policy_references'', JList (map JStr (er_policy_references r))),
      (''provenance_references'', JList (map JStr (er_provenance_references r))), (''requested_action'', JStr (er_requested_action r))]"
  have same: "json_dumps False (JObj (?j r)) = json_dumps False (JObj (?j q))"
    using assms by (simp add: handoff_material_def canonical_json_def del: list.map)
  have wf: "wf_json (JObj (?j r))" for r by (simp del: wf_json.simps(5))
  have field: "map_option sort_keys (map_of (?j r) k) = map_option sort_keys (map_of (?j q) k)" for k by (rule json_dumps_field [OF same wf wf])
  from field [of "''incident_id''"] field [of "''requested_action''"] field [of "''evidence_references''"] field [of "''execution_request_sha256''"]
  show ?thesis by simp
qed

text \<open>\<^bold>\<open>C27\<close>. A handoff stands for an approved response to an open incident: its governance record is valid, approved and of the
  incident's own tenant and workload, its lifecycle is valid and not closed, and it carries the evidence of the
  intake. Its id stands for this handoff alone: two handoffs with one id agree on incident, action, evidence and
  request, or SHA-256 collides on their two messages.\<close>

theorem handoff_is_approved_and_bound:
  assumes "create_handoff sha r = Inr h"
  shows "gr_decision (er_governance r) = ACTION_APPROVED \<and> hr_requested_action h = gr_requested_action (er_governance r) \<and>
    validate_record sha (gr_lifecycle (er_governance r)) = None \<and> lr_state (gr_lifecycle (er_governance r)) \<noteq> CLOSED \<and>
    gr_tenant_ref (er_governance r) = ii_tenant_ref (lr_intake (gr_lifecycle (er_governance r))) \<and>
    gr_workload_ref (er_governance r) = ii_workload_ref (lr_intake (gr_lifecycle (er_governance r))) \<and>
    hr_evidence_references h = ii_evidence_references (lr_intake (gr_lifecycle (er_governance r))) \<and>
    (create_handoff sha q = Inr h' \<and> hr_handoff_id h' = hr_handoff_id h \<longrightarrow>
      (hr_incident_id h' = hr_incident_id h \<and> hr_requested_action h' = hr_requested_action h \<and>
       hr_evidence_references h' = hr_evidence_references h \<and> hr_execution_request_sha256 h' = hr_execution_request_sha256 h) \<or>
      collision sha (handoff_material q) (handoff_material r))"
proof -
  from assms have r: "validate_request sha r = None" "er_governance_decision r = ACTION_APPROVED" "er_lifecycle_state r \<noteq> CLOSED"
    and h: "hr_requested_action h = er_requested_action r" "hr_evidence_references h = er_evidence_references r"
    "hr_incident_id h = er_incident_id r" "hr_execution_request_sha256 h = casefold (er_request_sha256 r)"
    "hr_handoff_id h = ''handoff-'' @ handoff_request_digest sha r" by (simp_all add: handoff_Inr)
  from r(1) obtain head where head: "validate_governance sha (er_governance r) = Inr head"
    "r = (request_for sha (er_governance r) head)\<lparr>er_request_sha256 := er_request_sha256 r\<rparr>" unfolding validate_request_None by blast
  have fields: "er_governance_decision r = gr_decision (er_governance r)" "er_lifecycle_state r = lr_state (gr_lifecycle (er_governance r))"
    "er_requested_action r = gr_requested_action (er_governance r)"
    "er_evidence_references r = ii_evidence_references (lr_intake (gr_lifecycle (er_governance r)))"
    by (subst head(2), simp)+
  have "(hr_incident_id h' = hr_incident_id h \<and> hr_requested_action h' = hr_requested_action h \<and>
       hr_evidence_references h' = hr_evidence_references h \<and> hr_execution_request_sha256 h' = hr_execution_request_sha256 h) \<or>
      collision sha (handoff_material q) (handoff_material r)" if "create_handoff sha q = Inr h'" "hr_handoff_id h' = hr_handoff_id h"
  proof (cases "handoff_material q = handoff_material r")
    case True
    from handoff_material_inject [OF this] that(1) h show ?thesis by (simp add: handoff_Inr)
  next
    case False
    with that h(5) show ?thesis by (simp add: handoff_Inr handoff_request_digest_def collision_def)
  qed
  then show ?thesis using head(1) r(2,3) h(1,2) fields by (simp add: validate_governance_Inr)
qed


subsection \<open>A concrete response\<close>

definition pad_sha :: "string \<Rightarrow> string" where
  "pad_sha m = take 64 (casefold m @ replicate 64 (CHR ''0''))"

lemma casefold_append: "casefold (s @ t) = casefold s @ casefold t" "casefold (take n s) = take n (casefold s)"
  "casefold (replicate n (CHR ''0'')) = replicate n (CHR ''0'')"
  by (simp_all add: casefold_def take_map)

lemma pad_sha_hex: "hex_digests pad_sha"
proof -
  have "length (pad_sha m) = 64" for m by (simp add: pad_sha_def)
  moreover have "casefold (pad_sha m) = pad_sha m" for m by (simp only: pad_sha_def casefold_append casefold_idem)
  ultimately show ?thesis by (simp add: hex_digests_def)
qed

definition demo_lifecycle :: lifecycle_record where
  "demo_lifecycle = \<lparr>lr_intake = demo_incident, lr_intake_root_sha256 = pad_sha (intake_root_material demo_incident), lr_state = OPEN,
     lr_transitions = [], lr_schema_version = lifecycle_schema\<rparr>"

lemma demo_lifecycle_valid: "validate_record pad_sha demo_lifecycle = None" "lr_state demo_lifecycle \<noteq> CLOSED"
  "list_all (\<lambda>v. fst v \<noteq> [] \<and> snd v \<noteq> []) (ii_evidence_references (lr_intake demo_lifecycle))"
  using hexD(1) [OF pad_sha_hex]
  by (simp_all add: validate_record_None demo_lifecycle_def validate_intake_def) (simp_all add: demo_incident_def)

abbreviation demo_ledger :: execution_boundary where
  "demo_ledger \<equiv> \<lparr>eb_ledger = [], eb_results = []\<rparr>"

lemma demo_unseen: "unseen sha r demo_ledger"
  by (simp add: unseen_def)

theorem approved_action_is_handed_off_witness:
  "\<exists>g r h. create_request pad_sha g = Inr r \<and> create_handoff pad_sha r = Inr h \<and> hr_requested_action h = ''isolate'' \<and>
     (\<exists>x b' row. incident_execute pad_sha r demo_ledger = (Inr x, b') \<and> ex_requested_action x = ''isolate'' \<and> eb_ledger b' = [row])"
proof -
  have action: "''isolate'' \<noteq> ([] :: string)" by simp
  from approved_action_is_handed_off [OF pad_sha_hex demo_lifecycle_valid(1,2) action demo_lifecycle_valid(3), of demo_ledger]
  show ?thesis using demo_unseen by fastforce
qed

definition demo_denied :: governance_record where
  "demo_denied = projr (governance_evaluate pad_sha demo_lifecycle ''t1'' ''wl'' ''isolate'' (Some (Inr ACTION_DENIED)))"

lemma demo_denied: "governance_evaluate pad_sha demo_lifecycle ''t1'' ''wl'' ''isolate'' (Some (Inr ACTION_DENIED)) = Inr demo_denied"
proof -
  have "ii_tenant_ref (lr_intake demo_lifecycle) = ''t1''" "ii_workload_ref (lr_intake demo_lifecycle) = ''wl''"
    by (simp_all add: demo_lifecycle_def demo_incident_def)
  then show ?thesis using demo_lifecycle_valid(1,2) by (simp add: demo_denied_def governance_evaluate_def Let_def)
qed

abbreviation demo_denied_request :: execution_request where
  "demo_denied_request \<equiv> request_for pad_sha demo_denied (casefold (lifecycle_head demo_lifecycle))"

theorem denied_action_is_projected_witness:
  "\<exists>x b'. incident_execute pad_sha demo_denied_request demo_ledger = (Inr x, b') \<and> ex_status x = ''projected'' \<and> ex_requested_action x = ''isolate''"
  using denied_action_is_projected [OF pad_sha_hex demo_denied _ demo_lifecycle_valid(3) refl demo_unseen] by fastforce

lemma demo_projected: "\<exists>x b'. incident_execute pad_sha demo_denied_request demo_ledger = (Inr x, b')"
proof -
  from evaluated_is_valid [OF pad_sha_hex demo_denied]
  have head: "validate_governance pad_sha demo_denied = Inr (casefold (lifecycle_head demo_lifecycle))" "gr_lifecycle demo_denied = demo_lifecycle" by simp_all
  then obtain i where "execution_identity pad_sha demo_denied_request = Inr i"
    using request_identity [OF pad_sha_hex head(1)] demo_lifecycle_valid(3) by (auto simp: list_all_iff)
  from unseen_is_projected [OF request_is_valid [OF pad_sha_hex head(1)] this demo_unseen] show ?thesis by blast
qed

theorem projection_is_final_witness:
  "\<exists>x b1 b3. incident_execute pad_sha demo_denied_request demo_ledger = (Inr x, b1) \<and>
     incident_execute pad_sha demo_denied_request (execution_restart b1) = (Inr x, b3) \<and> eb_ledger b3 = eb_ledger (execution_restart b1)"
proof -
  obtain x b1 where run: "incident_execute pad_sha demo_denied_request demo_ledger = (Inr x, b1)" using demo_projected by blast
  have "(execution_step pad_sha)\<^sup>*\<^sup>* b1 (execution_restart b1)" by (intro r_into_rtranclp execution_step.restarting)
  from projection_is_final [OF _ rtranclp.rtrancl_refl run this] run show ?thesis by auto
qed

theorem handoff_is_approved_and_bound_witness:
  "\<exists>r h. create_handoff pad_sha r = Inr h \<and> gr_decision (er_governance r) = ACTION_APPROVED \<and>
     validate_record pad_sha (gr_lifecycle (er_governance r)) = None"
proof -
  obtain g where g: "governance_evaluate pad_sha demo_lifecycle (ii_tenant_ref (lr_intake demo_lifecycle)) (ii_workload_ref (lr_intake demo_lifecycle))
      ''isolate'' (Some (Inr ACTION_APPROVED)) = Inr g" "gr_decision g = ACTION_APPROVED"
    using demo_lifecycle_valid(1,2) by (simp add: governance_evaluate_def Let_def)
  from evaluated_is_valid [OF pad_sha_hex g(1)]
  have "validate_governance pad_sha g = Inr (casefold (lifecycle_head demo_lifecycle))" and l: "gr_lifecycle g = demo_lifecycle" by simp_all
  from request_is_valid [OF pad_sha_hex this(1)] g(2) demo_lifecycle_valid(2) obtain h where
    "create_handoff pad_sha (request_for pad_sha g (casefold (lifecycle_head demo_lifecycle))) = Inr h" by (simp add: handoff_Inr l)
  with handoff_is_approved_and_bound [OF this] show ?thesis by blast
qed

end
