(* ===== verification/Security_Events.thy ===== *)
theory Security_Events
  imports Incident_Intake Encodings
begin

section \<open>Detection: signed events, the event store and the rules\<close>

text \<open>
  \<open>aegis/detection/security_analytics.py\<close>. Producers sign events, a collector verifies them against registered sources
  and stores each once in a hash chain, and rules turn stored events into alerts, which are chained too. A
  \<open>SecurityEvent\<close> is untyped at run time: it is the list of its fields with JSON values, in the order of the class.
  Ed25519 is the argument \<open>verify\<close> of public key, signature and message.
\<close>

datatype detection_error =
    DetectionDenied string
  | DetectionTypeError
  | DetectionValueError
  | DetectionAttributeError
  | DetectionZeroDivisionError

type_synonym security_event = "(string \<times> json) list"

definition EVENT_SCHEMA :: string where "EVENT_SCHEMA = ''aegis.security-detection-event.v1''"
definition POLICY_VERSION :: string where "POLICY_VERSION = ''p11f-detection-policy.v1''"
definition MAX_EVENT_BYTES :: nat where "MAX_EVENT_BYTES = 4096"
definition MAX_STRING :: nat where "MAX_STRING = 128"
definition MAX_ATTRIBUTES :: nat where "MAX_ATTRIBUTES = 8"
definition MAX_ATTRIBUTE_KEY :: nat where "MAX_ATTRIBUTE_KEY = 32"
definition MAX_ATTRIBUTE_VALUE :: nat where "MAX_ATTRIBUTE_VALUE = 128"
definition MAX_FUTURE_SKEW :: int where "MAX_FUTURE_SKEW = 30"
definition MAX_STALE_AGE :: int where "MAX_STALE_AGE = 3600"

definition PROVENANCE :: "string list" where
  "PROVENANCE = [''NATIVE_LIVE'', ''LIVE_CONTROL_OBSERVATION'', ''DETERMINISTIC_FIXTURE'']"
definition CATEGORIES :: "string list" where
  "CATEGORIES = [''application_agent'', ''identity_iam'', ''serving_network'', ''kubernetes_platform'', ''supply_chain'']"
definition SEVERITIES :: "string list" where
  "SEVERITIES = [''info'', ''low'', ''medium'', ''high'', ''critical'']"

definition EVENT_FIELDS :: "string list" where
  "EVENT_FIELDS = [''schema_version'', ''event_id'', ''event_time'', ''source_id'', ''source_kind'', ''event_type'', ''category'',
     ''action'', ''outcome'', ''severity'', ''reason_code'', ''tenant_ref'', ''principal_ref'', ''workload_ref'', ''namespace_ref'',
     ''resource_ref'', ''request_ref'', ''session_ref'', ''trace_ref'', ''policy_version'', ''sequence'',
     ''provenance_classification'', ''attributes'']"

subsection \<open>Patterns\<close>

definition is_lower :: "char \<Rightarrow> bool" where
  "is_lower c = (let n = of_char c :: nat in 97 \<le> n \<and> n \<le> 122)"

definition is_upper :: "char \<Rightarrow> bool" where
  "is_upper c = (let n = of_char c :: nat in 65 \<le> n \<and> n \<le> 90)"

definition id_char :: "char \<Rightarrow> bool" where
  "id_char c = (is_lower c \<or> is_digit c \<or> c \<in> set ''._:-'')"

text \<open>\<open>ID\<close>, \<open>TOKEN\<close> and \<open>REF\<close>, matched in full.\<close>

definition matches_id :: "string \<Rightarrow> bool" where
  "matches_id s = (case s of [] \<Rightarrow> False
     | c # r \<Rightarrow> (is_lower c \<or> is_digit c) \<and> 2 \<le> length r \<and> length r \<le> 95 \<and> list_all id_char r)"

definition matches_token :: "string \<Rightarrow> bool" where
  "matches_token s = (case s of [] \<Rightarrow> False
     | c # r \<Rightarrow> is_upper c \<and> 1 \<le> length r \<and> length r \<le> 63 \<and> list_all (\<lambda>c. is_upper c \<or> is_digit c \<or> c = CHR ''_'') r)"

definition matches_ref :: "string \<Rightarrow> bool" where
  "matches_ref s = list_ex (\<lambda>p. take (length p) s = p \<and>
     (let r = drop (length p) s in 3 \<le> length r \<and> length r \<le> 96 \<and> list_all id_char r)) [''ref:'', ''hmac-sha256:'']"

text \<open>
  \<open>SENSITIVE_EVIDENCE_PATTERNS\<close> of \<open>aegis/platform/serving_security.py\<close>, searched without regard to case: private key headers,
  bearer tokens and signed web tokens, whose parts end where the characters of the class do.
\<close>

fun re_search :: "(string \<Rightarrow> bool) \<Rightarrow> string \<Rightarrow> bool" where
  "re_search p [] = p []"
| "re_search p (c # s) = (p (c # s) \<or> re_search p s)"

definition after :: "string \<Rightarrow> string \<Rightarrow> string option" where
  "after p s = (if take (length p) s = p then Some (drop (length p) s) else None)"

definition jwt_char :: "char \<Rightarrow> bool" where
  "jwt_char c = (is_lower c \<or> is_digit c \<or> c = CHR ''_'' \<or> c = CHR ''-'')"

definition jwt_part :: "nat \<Rightarrow> string \<Rightarrow> string option" where
  "jwt_part k s = (if k \<le> length (takeWhile jwt_char s) then after ''.'' (dropWhile jwt_char s) else None)"

definition jwt_at :: "nat \<Rightarrow> string \<Rightarrow> bool" where
  "jwt_at k s = (case Option.bind (Option.bind (Option.bind (Option.bind (after ''eyj'' s) (jwt_part k)) (after ''eyj'')) (jwt_part k))
       (\<lambda>r. if k \<le> length (takeWhile jwt_char r) then Some () else None) of None \<Rightarrow> False | Some _ \<Rightarrow> True)"

definition private_key_at :: "string \<Rightarrow> bool" where
  "private_key_at s = list_ex (\<lambda>m. after (''-----begin '' @ m @ ''private key-----'') s \<noteq> None) ['''', ''rsa '', ''ec '']"

definition bearer_header_at :: "string \<Rightarrow> bool" where
  "bearer_header_at s = (case Option.bind (after ''authorization'' s) (\<lambda>r. Option.bind (after '':'' (dropWhile is_py_space r))
       (\<lambda>r. after ''bearer'' (dropWhile is_py_space r))) of None \<Rightarrow> False | Some r \<Rightarrow> r = [] \<or> is_py_space (hd r))"

definition bearer_token_at :: "string \<Rightarrow> bool" where
  "bearer_token_at s = (case after ''bearer'' s of None \<Rightarrow> False
     | Some r \<Rightarrow> r \<noteq> [] \<and> is_py_space (hd r) \<and> jwt_at 8 (dropWhile is_py_space r))"

definition sensitive_material :: "string \<Rightarrow> bool" where
  "sensitive_material text = (let s = casefold text in
     re_search private_key_at s \<or> re_search bearer_header_at s \<or> re_search bearer_token_at s \<or> re_search (jwt_at 16) s)"

subsection \<open>SecurityEvent\<close>

definition event_digest :: "(string \<Rightarrow> string) \<Rightarrow> (string \<times> json) list \<Rightarrow> string" where
  "event_digest sha d = sha (utf8 (json_dumps False (JObj d)))"

definition ev_str :: "string \<Rightarrow> security_event \<Rightarrow> string" where
  "ev_str n e = (case map_of e n of Some (JStr s) \<Rightarrow> s | _ \<Rightarrow> [])"

text \<open>Python's integers include the booleans.\<close>

definition int_value :: "json option \<Rightarrow> int option" where
  "int_value v = (case v of Some (JInt i) \<Rightarrow> Some i | Some (JBool b) \<Rightarrow> Some (of_bool b) | _ \<Rightarrow> None)"

definition ev_int :: "string \<Rightarrow> security_event \<Rightarrow> int" where
  "ev_int n e = (case int_value (map_of e n) of Some i \<Rightarrow> i | None \<Rightarrow> 0)"

text \<open>A pattern applied to a value that is no string raises \<open>TypeError\<close>, and so does a set asked for a list or a dictionary.\<close>

definition check_pattern :: "(string \<Rightarrow> bool) \<Rightarrow> string \<Rightarrow> json option \<Rightarrow> detection_error option" where
  "check_pattern p reason v = (case v of Some (JStr s) \<Rightarrow> if p s then None else Some (DetectionDenied reason) | _ \<Rightarrow> Some DetectionTypeError)"

definition check_member :: "string list \<Rightarrow> string \<Rightarrow> json option \<Rightarrow> detection_error option" where
  "check_member xs reason v = (case v of
     Some (JStr s) \<Rightarrow> if s \<in> set xs then None else Some (DetectionDenied reason)
   | Some (JList _) \<Rightarrow> Some DetectionTypeError
   | Some (JObj _) \<Rightarrow> Some DetectionTypeError
   | _ \<Rightarrow> Some (DetectionDenied reason))"

definition check_token :: "json option \<Rightarrow> detection_error option" where
  "check_token v = (case v of Some (JStr s) \<Rightarrow> if length s \<le> MAX_STRING \<and> matches_token s then None else Some (DetectionDenied ''EVENT_TOKEN_INVALID'')
     | _ \<Rightarrow> Some (DetectionDenied ''EVENT_TOKEN_INVALID''))"

fun first_error :: "detection_error option list \<Rightarrow> detection_error option" where
  "first_error [] = None"
| "first_error (None # es) = first_error es"
| "first_error (Some e # es) = Some e"

abbreviation refs_of_event :: "string list" where
  "refs_of_event \<equiv> [''tenant_ref'', ''principal_ref'', ''workload_ref'', ''namespace_ref'', ''resource_ref'', ''request_ref'',
     ''session_ref'', ''trace_ref'']"

definition event_validate :: "security_event \<Rightarrow> detection_error option" where
  "event_validate e =
     (let rendered = json_dumps False (JObj e) in
      first_error
       ((if map_of e ''schema_version'' \<noteq> Some (JStr EVENT_SCHEMA) \<or> map_of e ''policy_version'' \<noteq> Some (JStr POLICY_VERSION)
           then Some (DetectionDenied ''EVENT_SCHEMA_INVALID'') else None)
        # map (\<lambda>n. check_pattern matches_id ''EVENT_IDENTITY_INVALID'' (map_of e n)) [''event_id'', ''source_id'']
        @ [check_member CATEGORIES ''EVENT_ENUM_INVALID'' (map_of e ''category''),
           check_member SEVERITIES ''EVENT_ENUM_INVALID'' (map_of e ''severity''),
           check_member PROVENANCE ''EVENT_ENUM_INVALID'' (map_of e ''provenance_classification'')]
        @ map (\<lambda>n. check_token (map_of e n)) [''event_type'', ''action'', ''outcome'', ''reason_code'', ''source_kind'']
        @ map (\<lambda>n. check_pattern matches_ref ''EVENT_REFERENCE_INVALID'' (map_of e n)) refs_of_event
        @ [if int_value (map_of e ''event_time'') = None \<or> int_value (map_of e ''sequence'') = None \<or> ev_int ''sequence'' e < 1
             then Some (DetectionDenied ''EVENT_TIME_SEQUENCE_INVALID'') else None,
           if MAX_EVENT_BYTES < length (utf8 rendered) then Some (DetectionDenied ''EVENT_TOO_LARGE'') else None,
           if list_ex (\<lambda>c. (of_char c :: nat) < 32) rendered then Some (DetectionDenied ''CONTROL_CHARACTER_DENIED'') else None,
           if sensitive_material rendered then Some (DetectionDenied ''SENSITIVE_MATERIAL_DENIED'') else None]))"

definition attribute_ok :: "string \<times> json \<Rightarrow> bool" where
  "attribute_ok a = (length (fst a) \<le> MAX_ATTRIBUTE_KEY \<and> matches_id (fst a) \<and>
     (case snd a of JStr item \<Rightarrow> length item \<le> MAX_ATTRIBUTE_VALUE | _ \<Rightarrow> False))"

definition event_from_dict :: "(string \<times> json) list \<Rightarrow> detection_error + security_event" where
  "event_from_dict d =
     (if set (map fst d) \<noteq> set EVENT_FIELDS then Inl (DetectionDenied ''EVENT_SCHEMA_INVALID'')
      else case map_of d ''attributes'' of
        Some (JObj attrs) \<Rightarrow>
          if MAX_ATTRIBUTES < length attrs \<or> \<not> list_all attribute_ok attrs then Inl (DetectionDenied ''ATTRIBUTES_INVALID'')
          else (let e = map (\<lambda>n. (n, if n = ''attributes'' then JObj (sort_key fst attrs) else the (map_of d n))) EVENT_FIELDS in
                case event_validate e of Some error \<Rightarrow> Inl error | None \<Rightarrow> Inr e)
      | _ \<Rightarrow> Inl (DetectionDenied ''ATTRIBUTES_INVALID''))"


subsection \<open>Envelopes and the source registry\<close>

record event_envelope =
  en_source_id :: string
  en_event_id :: string
  en_event_time :: int
  en_sequence :: int
  en_body_sha256 :: string
  en_body :: "(string \<times> json) list"
  en_signature :: string

record source_policy =
  sp_source_id :: string
  sp_source_kind :: string
  sp_public_key :: string
  sp_allowed_categories :: "string list"
  sp_allowed_provenance :: "string list"

definition envelope_material :: "event_envelope \<Rightarrow> string" where
  "envelope_material n = utf8 (json_dumps False (JObj
     [(''source_id'', JStr (en_source_id n)), (''event_id'', JStr (en_event_id n)), (''event_time'', JInt (en_event_time n)),
      (''sequence'', JInt (en_sequence n)), (''body_sha256'', JStr (en_body_sha256 n))]))"

text \<open>
  \<^verbatim>\<open>base64.b64encode\<close>, and \<open>ProducerSigner.sign\<close>: \<open>sign\<close> is the source's Ed25519 key. The body is the event, with its
  attributes as an object.
\<close>

definition standard_b64encode :: "string \<Rightarrow> string" where
  "standard_b64encode s = (let t = b64url_encode s in
     map (\<lambda>c. if c = CHR ''-'' then CHR ''+'' else if c = CHR ''_'' then CHR ''/'' else c)
       (t @ replicate ((4 - length t mod 4) mod 4) (CHR ''='')))"

definition producer_sign :: "(string \<Rightarrow> string) \<Rightarrow> (string \<Rightarrow> string) \<Rightarrow> string \<Rightarrow> security_event \<Rightarrow> event_envelope" where
  "producer_sign sha sign source_id e =
     (let unsigned = \<lparr>en_source_id = source_id, en_event_id = ev_str ''event_id'' e, en_event_time = ev_int ''event_time'' e,
            en_sequence = ev_int ''sequence'' e, en_body_sha256 = event_digest sha e, en_body = e, en_signature = []\<rparr>
      in unsigned\<lparr>en_signature := standard_b64encode (sign (envelope_material unsigned))\<rparr>)"

text \<open>\<^verbatim>\<open>base64.b64decode\<close> with \<^verbatim>\<open>validate=True\<close> takes the standard alphabet only.\<close>

definition standard_b64decode :: "string \<Rightarrow> string option" where
  "standard_b64decode s = (if CHR ''-'' \<in> set s \<or> CHR ''_'' \<in> set s then None else strict_b64decode s)"

definition registry_of :: "source_policy list \<Rightarrow> detection_error + source_policy list" where
  "registry_of policies = (if distinct (map sp_source_id policies) then Inr policies else Inl (DetectionDenied ''DUPLICATE_SOURCE''))"

definition registry_verify ::
  "(string \<Rightarrow> string) \<Rightarrow> (string \<Rightarrow> string \<Rightarrow> string \<Rightarrow> bool) \<Rightarrow> source_policy list \<Rightarrow> event_envelope \<Rightarrow> int
     \<Rightarrow> detection_error + security_event" where
  "registry_verify sha verify policies n now =
     (case row_of sp_source_id (en_source_id n) policies of
        None \<Rightarrow> Inl (DetectionDenied ''SOURCE_UNKNOWN'')
      | Some policy \<Rightarrow>
          (case event_from_dict (en_body n) of
             Inl e \<Rightarrow> Inl e
           | Inr event \<Rightarrow>
               if en_body_sha256 n \<noteq> event_digest sha (en_body n) \<or> ev_str ''event_id'' event \<noteq> en_event_id n \<or>
                  ev_int ''event_time'' event \<noteq> en_event_time n \<or> ev_int ''sequence'' event \<noteq> en_sequence n \<or>
                  ev_str ''source_id'' event \<noteq> en_source_id n
                 then Inl (DetectionDenied ''ENVELOPE_BINDING_INVALID'')
               else if \<not> (case standard_b64decode (en_signature n) of None \<Rightarrow> False
                         | Some sig \<Rightarrow> verify (sp_public_key policy) sig (envelope_material n))
                 then Inl (DetectionDenied ''SIGNATURE_INVALID'')
               else if ev_str ''source_kind'' event \<noteq> sp_source_kind policy \<or>
                  ev_str ''category'' event \<notin> set (sp_allowed_categories policy) \<or>
                  ev_str ''provenance_classification'' event \<notin> set (sp_allowed_provenance policy)
                 then Inl (DetectionDenied ''SOURCE_AUTHORIZATION_DENIED'')
               else if now + MAX_FUTURE_SKEW < ev_int ''event_time'' event then Inl (DetectionDenied ''EVENT_FUTURE'')
               else if ev_int ''event_time'' event < now - MAX_STALE_AGE then Inl (DetectionDenied ''EVENT_STALE'')
               else Inr event))"

subsection \<open>Rules\<close>

record detection_rule =
  ru_rule_id :: string
  ru_title :: string
  ru_version :: int
  ru_enabled :: bool
  ru_severity :: string
  ru_domain :: string
  ru_kind :: string
  ru_event_types :: "string list"
  ru_window_seconds :: int
  ru_group_by :: "string list"
  ru_threshold :: int
  ru_response_category :: string

text \<open>What \<open>load_rules\<close> asks of the rules it has read from the files of its directory.\<close>

definition check_rule :: "detection_rule \<Rightarrow> detection_error option" where
  "check_rule r =
     (if \<not> matches_id (ru_rule_id r) \<or> ru_severity r \<notin> set SEVERITIES \<or> ru_domain r \<notin> set (CATEGORIES @ [''cross_source_correlation'']) \<or>
         ru_kind r \<notin> set [''single'', ''threshold'', ''correlation''] \<or> ru_window_seconds r < 1 \<or> 3600 < ru_window_seconds r \<or>
         ru_threshold r < 1 \<or> ru_group_by r = [] \<or> \<not> ru_enabled r
        then Some (DetectionDenied ''RULE_POLICY_INVALID'')
      else if ru_kind r = ''correlation'' \<and> length (ru_event_types r) < 3 then Some (DetectionDenied ''RULE_CORRELATION_INVALID'')
      else None)"

definition check_rules :: "detection_rule list \<Rightarrow> detection_error option" where
  "check_rules rules =
     (if rules = [] then Some (DetectionDenied ''RULES_MISSING'')
      else case first_error (map check_rule rules) of
        Some e \<Rightarrow> Some e
      | None \<Rightarrow>
          if \<not> distinct (map ru_rule_id rules) then Some (DetectionDenied ''RULE_ID_DUPLICATE'')
          else if set (map ru_domain rules) \<noteq> set (CATEGORIES @ [''cross_source_correlation''])
            then Some (DetectionDenied ''RULE_DOMAIN_COVERAGE'')
          else None)"

subsection \<open>EventStore\<close>

record event_row =
  se_store_order :: int
  se_event_id :: string
  se_event_time :: int
  se_source_id :: string
  se_category :: string
  se_payload :: string
  se_chain_hash :: string

text \<open>The references of an alert are kept as the list their JSON text is read back as.\<close>

record alert_row =
  al_alert_id :: string
  al_rule_id :: string
  al_dedup_key :: string
  al_severity :: string
  al_first_time :: int
  al_last_time :: int
  al_event_refs :: "string list"
  al_detection_sequence :: int
  al_chain_hash :: string

record store_stats =
  ss_attempted :: nat
  ss_accepted :: nat
  ss_rejected :: nat
  ss_deduplicated :: nat
  ss_replayed :: nat
  ss_alert_candidates :: nat
  ss_alerts_created :: nat
  ss_alerts_deduplicated :: nat

record event_store =
  st_events :: "event_row list"
  st_alerts :: "alert_row list"
  st_stats :: store_stats

definition new_store :: event_store where
  "new_store = \<lparr>st_events = [], st_alerts = [], st_stats = \<lparr>ss_attempted = 0, ss_accepted = 0, ss_rejected = 0,
     ss_deduplicated = 0, ss_replayed = 0, ss_alert_candidates = 0, ss_alerts_created = 0, ss_alerts_deduplicated = 0\<rparr>\<rparr>"

definition count_stat :: "(store_stats \<Rightarrow> store_stats) \<Rightarrow> event_store \<Rightarrow> event_store" where
  "count_stat f s = s\<lparr>st_stats := f (st_stats s)\<rparr>"

abbreviation ZERO_CHAIN :: string where
  "ZERO_CHAIN \<equiv> replicate 64 (CHR ''0'')"

definition chain_message :: "string \<Rightarrow> string \<Rightarrow> string \<Rightarrow> string" where
  "chain_message domain prior payload = domain @ [CHR 0x00] @ prior @ payload"

definition chain_digest :: "(string \<Rightarrow> string) \<Rightarrow> string \<Rightarrow> string \<Rightarrow> string \<Rightarrow> detection_error + string" where
  "chain_digest sha domain prior payload = (case bytes_fromhex prior of
     None \<Rightarrow> Inl DetectionValueError
   | Some bytes \<Rightarrow> Inr (sha (chain_message domain bytes payload)))"

abbreviation event_domain :: string where "event_domain \<equiv> ''p11f-event-chain''"
abbreviation alert_domain :: string where "alert_domain \<equiv> ''p11f-alert-chain''"

definition last_chain :: "event_row list \<Rightarrow> string" where
  "last_chain rows = (if rows = [] then ZERO_CHAIN else se_chain_hash (last rows))"

definition next_order :: "event_row list \<Rightarrow> int" where
  "next_order rows = (if rows = [] then 1 else se_store_order (last rows) + 1)"

definition store_append :: "(string \<Rightarrow> string) \<Rightarrow> security_event \<Rightarrow> (event_store, detection_error, bool \<times> int) operation" where
  "store_append sha e s =
     (let payload = json_dumps False (JObj e);
          s = count_stat (\<lambda>t. t\<lparr>ss_attempted := ss_attempted t + 1\<rparr>) s in
      case chain_digest sha event_domain (last_chain (st_events s)) (utf8 payload) of
        Inl error \<Rightarrow> (Inl error, s)
      | Inr chain \<Rightarrow>
          (case row_of se_event_id (ev_str ''event_id'' e) (st_events s) of
             Some _ \<Rightarrow> (Inr (False, 0),
               count_stat (\<lambda>t. t\<lparr>ss_deduplicated := ss_deduplicated t + 1, ss_replayed := ss_replayed t + 1\<rparr>) s)
           | None \<Rightarrow>
               (let order = next_order (st_events s) in
                (Inr (True, order), count_stat (\<lambda>t. t\<lparr>ss_accepted := ss_accepted t + 1\<rparr>)
                   (s\<lparr>st_events := st_events s @ [\<lparr>se_store_order = order, se_event_id = ev_str ''event_id'' e,
                      se_event_time = ev_int ''event_time'' e, se_source_id = ev_str ''source_id'' e,
                      se_category = ev_str ''category'' e, se_payload = payload, se_chain_hash = chain\<rparr>]\<rparr>)))))"

fun read_events :: "event_row list \<Rightarrow> detection_error + security_event list" where
  "read_events [] = Inr []"
| "read_events (r # rs) =
     (case json_loads (se_payload r) of
        Some (JObj d) \<Rightarrow>
          (case event_from_dict d of
             Inl e \<Rightarrow> Inl e
           | Inr event \<Rightarrow> (case read_events rs of Inl e \<Rightarrow> Inl e | Inr events \<Rightarrow> Inr (event # events)))
      | Some _ \<Rightarrow> Inl (DetectionDenied ''EVENT_SCHEMA_INVALID'')
      | None \<Rightarrow> Inl DetectionValueError)"

definition store_events :: "event_store \<Rightarrow> detection_error + security_event list" where
  "store_events s = read_events (sort_key se_event_time (st_events s))"

fun verify_rows :: "(string \<Rightarrow> string) \<Rightarrow> string \<Rightarrow> event_row list \<Rightarrow> detection_error + string" where
  "verify_rows sha prior [] = Inr prior"
| "verify_rows sha prior (r # rs) =
     (case chain_digest sha event_domain prior (utf8 (se_payload r)) of
        Inl e \<Rightarrow> Inl e
      | Inr expected \<Rightarrow>
          if se_chain_hash r \<noteq> expected then Inl (DetectionDenied ''EVENT_CHAIN_TAMPERED'')
          else verify_rows sha (se_chain_hash r) rs)"

definition verify_event_chain :: "(string \<Rightarrow> string) \<Rightarrow> event_store \<Rightarrow> detection_error + string" where
  "verify_event_chain sha s = verify_rows sha ZERO_CHAIN (st_events s)"

subsection \<open>Alerts\<close>

definition alert_material :: "alert_row \<Rightarrow> string" where
  "alert_material a = utf8 (json_dumps False (JObj
     [(''alert_id'', JStr (al_alert_id a)), (''rule_id'', JStr (al_rule_id a)), (''severity'', JStr (al_severity a)),
      (''first'', JInt (al_first_time a)), (''last'', JInt (al_last_time a)), (''event_refs'', JList (map JStr (al_event_refs a))),
      (''sequence'', JInt (al_detection_sequence a))]))"

text \<open>
  \<^verbatim>\<open>ORDER BY detection_sequence DESC LIMIT 1\<close>: of rows with the same sequence SQL may return any; SQLite, whose sorter is
  stable, returns the one it scans first, which is the oldest.
\<close>

definition last_alert_chain :: "alert_row list \<Rightarrow> string" where
  "last_alert_chain rows = (case sort_key (\<lambda>a. - al_detection_sequence a) rows of [] \<Rightarrow> ZERO_CHAIN | a # _ \<Rightarrow> al_chain_hash a)"

text \<open>An attribute that is no field raises; the attributes are compared and rendered as the tuple of their items.\<close>

definition event_attr :: "security_event \<Rightarrow> string \<Rightarrow> json" where
  "event_attr e n = (case map_of e n of
     Some (JObj kvs) \<Rightarrow> JList (map (\<lambda>p. JList [JStr (fst p), snd p]) kvs)
   | Some v \<Rightarrow> v
   | None \<Rightarrow> JNull)"

definition dedup_material :: "detection_rule \<Rightarrow> security_event \<Rightarrow> int \<Rightarrow> string" where
  "dedup_material rule e first = utf8 (json_dumps False (JObj
     [(''rule'', JStr (ru_rule_id rule)), (''group'', JList (map (event_attr e) (ru_group_by rule))),
      (''bucket'', JInt (first div ru_window_seconds rule))]))"

definition event_times :: "security_event list \<Rightarrow> int list" where
  "event_times = map (ev_int ''event_time'')"

definition new_alert :: "(string \<Rightarrow> string) \<Rightarrow> detection_rule \<Rightarrow> security_event list \<Rightarrow> int \<Rightarrow> alert_row" where
  "new_alert sha rule events sequence =
     (let first = Min (set (event_times events)); dedup = sha (dedup_material rule (last events) first) in
      \<lparr>al_alert_id = ''alert-'' @ take 24 dedup, al_rule_id = ru_rule_id rule, al_dedup_key = dedup, al_severity = ru_severity rule,
       al_first_time = first, al_last_time = Max (set (event_times events)),
       al_event_refs = sorted_set (map (ev_str ''event_id'') events), al_detection_sequence = sequence, al_chain_hash = []\<rparr>)"

definition persist_alert ::
  "(string \<Rightarrow> string) \<Rightarrow> detection_rule \<Rightarrow> security_event list \<Rightarrow> int \<Rightarrow> (event_store, detection_error, bool) operation" where
  "persist_alert sha rule events sequence s =
     (if \<not> set (ru_group_by rule) \<subseteq> set EVENT_FIELDS then (Inl DetectionAttributeError, s)
      else if ru_window_seconds rule = 0 then (Inl DetectionZeroDivisionError, s)
      else
        (let a = new_alert sha rule events sequence;
             s = count_stat (\<lambda>t. t\<lparr>ss_alert_candidates := ss_alert_candidates t + 1\<rparr>) s in
         case chain_digest sha alert_domain (last_alert_chain (st_alerts s)) (alert_material a) of
           Inl e \<Rightarrow> (Inl e, s)
         | Inr chain \<Rightarrow>
             if \<exists>b \<in> set (st_alerts s). al_alert_id b = al_alert_id a \<or> al_dedup_key b = al_dedup_key a
               then (Inr False, count_stat (\<lambda>t. t\<lparr>ss_alerts_deduplicated := ss_alerts_deduplicated t + 1\<rparr>) s)
             else (Inr True, count_stat (\<lambda>t. t\<lparr>ss_alerts_created := ss_alerts_created t + 1\<rparr>)
                     (s\<lparr>st_alerts := st_alerts s @ [a\<lparr>al_chain_hash := chain\<rparr>]\<rparr>))))"

fun verify_alerts :: "(string \<Rightarrow> string) \<Rightarrow> string \<Rightarrow> alert_row list \<Rightarrow> detection_error + string" where
  "verify_alerts sha prior [] = Inr prior"
| "verify_alerts sha prior (a # as) =
     (case chain_digest sha alert_domain prior (alert_material a) of
        Inl e \<Rightarrow> Inl e
      | Inr expected \<Rightarrow>
          if al_chain_hash a \<noteq> expected then Inl (DetectionDenied ''ALERT_CHAIN_TAMPERED'')
          else verify_alerts sha (al_chain_hash a) as)"

definition verify_alert_chain :: "(string \<Rightarrow> string) \<Rightarrow> event_store \<Rightarrow> detection_error + string" where
  "verify_alert_chain sha s = verify_alerts sha ZERO_CHAIN (sort_key al_detection_sequence (st_alerts s))"

subsection \<open>DetectionEngine and CollectorService\<close>

definition relevant_events :: "detection_rule \<Rightarrow> security_event \<Rightarrow> security_event list \<Rightarrow> security_event list" where
  "relevant_events rule current ordered = filter (\<lambda>e.
     ev_int ''event_time'' current - ru_window_seconds rule \<le> ev_int ''event_time'' e \<and>
     ev_int ''event_time'' e \<le> ev_int ''event_time'' current \<and>
     list_all (\<lambda>n. event_attr e n = event_attr current n) (ru_group_by rule)) ordered"

text \<open>The stages of a correlation: for each event type the next event of that type.\<close>

fun find_stages :: "string list \<Rightarrow> security_event list \<Rightarrow> security_event list option" where
  "find_stages [] es = Some []"
| "find_stages (t # ts) es = (case dropWhile (\<lambda>e. ev_str ''event_type'' e \<noteq> t) es of
     [] \<Rightarrow> None
   | e # es \<Rightarrow> (case find_stages ts es of None \<Rightarrow> None | Some stages \<Rightarrow> Some (e # stages)))"

definition matched_events :: "detection_rule \<Rightarrow> security_event \<Rightarrow> security_event list \<Rightarrow> security_event list" where
  "matched_events rule current ordered =
     (let relevant = relevant_events rule current ordered in
      if ru_kind rule = ''single'' then (if ev_str ''event_type'' current \<in> set (ru_event_types rule) then [current] else [])
      else if ru_kind rule = ''threshold'' then
        (let matched = filter (\<lambda>e. ev_str ''event_type'' e \<in> set (ru_event_types rule)) relevant in
         if int (length matched) < ru_threshold rule then [] else matched)
      else if ru_kind rule = ''correlation'' then (case find_stages (ru_event_types rule) relevant of None \<Rightarrow> [] | Some stages \<Rightarrow> stages)
      else [])"

fun evaluate_rules :: "(string \<Rightarrow> string) \<Rightarrow> security_event \<Rightarrow> int \<Rightarrow> security_event list \<Rightarrow> detection_rule list
    \<Rightarrow> (event_store, detection_error, string list) operation" where
  "evaluate_rules sha current sequence ordered [] s = (Inr [], s)"
| "evaluate_rules sha current sequence ordered (rule # rules) s =
     (if \<not> set (ru_group_by rule) \<subseteq> set EVENT_FIELDS then (Inl DetectionAttributeError, s)
      else if matched_events rule current ordered = [] then evaluate_rules sha current sequence ordered rules s
      else
        (case persist_alert sha rule (matched_events rule current ordered) sequence s of
           (Inl e, s) \<Rightarrow> (Inl e, s)
         | (Inr created, s) \<Rightarrow>
             (case evaluate_rules sha current sequence ordered rules s of
                (Inl e, s) \<Rightarrow> (Inl e, s)
              | (Inr ids, s) \<Rightarrow> (Inr (if created then ru_rule_id rule # ids else ids), s))))"

definition engine_evaluate ::
  "(string \<Rightarrow> string) \<Rightarrow> detection_rule list \<Rightarrow> security_event \<Rightarrow> int \<Rightarrow> (event_store, detection_error, string list) operation" where
  "engine_evaluate sha rules current sequence s =
     (case store_events s of
        Inl e \<Rightarrow> (Inl e, s)
      | Inr ordered \<Rightarrow> evaluate_rules sha current sequence ordered rules s)"

datatype ingest_status = INGEST_ACCEPTED | INGEST_DEDUPLICATED

definition ingest ::
  "(string \<Rightarrow> string) \<Rightarrow> (string \<Rightarrow> string \<Rightarrow> string \<Rightarrow> bool) \<Rightarrow> source_policy list \<Rightarrow> detection_rule list \<Rightarrow> event_envelope \<Rightarrow> int
     \<Rightarrow> (event_store, detection_error, ingest_status \<times> string list) operation" where
  "ingest sha verify policies rules n now s =
     (case registry_verify sha verify policies n now of
        Inl e \<Rightarrow> (Inl e, case e of
          DetectionDenied _ \<Rightarrow> count_stat (\<lambda>t. t\<lparr>ss_attempted := ss_attempted t + 1, ss_rejected := ss_rejected t + 1\<rparr>) s
        | _ \<Rightarrow> s)
      | Inr event \<Rightarrow>
          (case store_append sha event s of
             (Inl e, s) \<Rightarrow> (Inl e, s)
           | (Inr (accepted, order), s) \<Rightarrow>
               if \<not> accepted then (Inr (INGEST_DEDUPLICATED, []), s)
               else (case engine_evaluate sha rules event order s of
                       (Inl e, s) \<Rightarrow> (Inl e, s)
                     | (Inr alerts, s) \<Rightarrow> (Inr (INGEST_ACCEPTED, alerts), s))))"

subsection \<open>Reading a stored event back\<close>

definition hex_sha :: "(string \<Rightarrow> string) \<Rightarrow> bool" where
  "hex_sha sha \<longleftrightarrow> (\<forall>m. \<exists>d. length d = 32 \<and> sha m = bytes_hex d)"

definition good_event :: "security_event \<Rightarrow> bool" where
  "good_event e \<longleftrightarrow> map fst e = EVENT_FIELDS \<and> event_validate e = None \<and>
     (\<exists>attrs. map_of e ''attributes'' = Some (JObj attrs) \<and> sort_key fst attrs = attrs \<and> distinct (map fst attrs) \<and>
        length attrs \<le> MAX_ATTRIBUTES \<and> list_all attribute_ok attrs)"

lemma first_error_None: "first_error es = None \<longleftrightarrow> (\<forall>e \<in> set es. e = None)"
  by (induction es rule: first_error.induct) auto

lemma distinct_EVENT_FIELDS [simp]: "distinct EVENT_FIELDS"
  unfolding EVENT_FIELDS_def by simp

lemma map_of_fields: "map_of (map (\<lambda>n. (n, f n)) ns) n = (if n \<in> set ns then Some (f n) else None)"
  by (induction ns) auto

lemma fields_rebuilt:
  assumes "map fst e = EVENT_FIELDS"
  shows "map (\<lambda>n. (n, the (map_of e n))) EVENT_FIELDS = e"
proof -
  have "distinct (map fst e)" using assms by simp
  then have "map (\<lambda>p. (fst p, the (map_of e (fst p)))) e = e" by (intro map_idI) (auto simp: map_of_is_SomeI)
  then have "map (\<lambda>n. (n, the (map_of e n))) (map fst e) = e" by (simp add: comp_def)
  then show ?thesis by (simp add: assms)
qed

lemma event_from_dict_good:
  assumes "event_from_dict d = Inr e" and "wf_json (JObj d)"
  shows "good_event e"
proof -
  from assms(1) obtain attrs where d: "set (map fst d) = set EVENT_FIELDS" "map_of d ''attributes'' = Some (JObj attrs)"
    "length attrs \<le> MAX_ATTRIBUTES" "list_all attribute_ok attrs"
    "e = map (\<lambda>n. (n, if n = ''attributes'' then JObj (sort_key fst attrs) else the (map_of d n))) EVENT_FIELDS"
    "event_validate e = None"
    by (auto simp: event_from_dict_def Let_def split: if_splits option.splits json.splits)
  have "\<forall>p \<in> set d. wf_json (snd p)" using assms(2) by (auto simp: list_all_iff)
  moreover have "(''attributes'', JObj attrs) \<in> set d" using d(2) by (rule map_of_SomeD)
  ultimately have "wf_json (JObj attrs)" by fastforce
  then have "distinct (map fst attrs)" by simp
  moreover have "map_of e ''attributes'' = Some (JObj (sort_key fst attrs))"
    unfolding d(5) map_of_fields by (simp add: EVENT_FIELDS_def)
  moreover have "map fst e = EVENT_FIELDS" unfolding d(5) by (simp add: comp_def)
  moreover have "list_all attribute_ok (sort_key fst attrs)" using d(4) by (simp add: list_all_iff)
  ultimately show ?thesis using d(3,6) by (auto simp: good_event_def sort_key_sorted distinct_map)
qed


lemma check_None:
  "check_pattern p r v = None \<longleftrightarrow> (\<exists>s. v = Some (JStr s) \<and> p s)"
  "check_member xs r v = None \<longleftrightarrow> (\<exists>s. v = Some (JStr s) \<and> s \<in> set xs)"
  "check_token v = None \<longleftrightarrow> (\<exists>s. v = Some (JStr s) \<and> length s \<le> MAX_STRING \<and> matches_token s)"
  by (auto simp: check_pattern_def check_member_def check_token_def split: option.splits json.splits if_splits)

lemma event_validate_None:
  "event_validate e = None \<longleftrightarrow>
     map_of e ''schema_version'' = Some (JStr EVENT_SCHEMA) \<and> map_of e ''policy_version'' = Some (JStr POLICY_VERSION) \<and>
     list_all (\<lambda>n. \<exists>s. map_of e n = Some (JStr s) \<and> matches_id s) [''event_id'', ''source_id''] \<and>
     list_all (\<lambda>p. \<exists>s. map_of e (fst p) = Some (JStr s) \<and> s \<in> set (snd p))
       [(''category'', CATEGORIES), (''severity'', SEVERITIES), (''provenance_classification'', PROVENANCE)] \<and>
     list_all (\<lambda>n. \<exists>s. map_of e n = Some (JStr s) \<and> length s \<le> MAX_STRING \<and> matches_token s)
       [''event_type'', ''action'', ''outcome'', ''reason_code'', ''source_kind''] \<and>
     list_all (\<lambda>n. \<exists>s. map_of e n = Some (JStr s) \<and> matches_ref s) refs_of_event \<and>
     int_value (map_of e ''event_time'') \<noteq> None \<and> int_value (map_of e ''sequence'') \<noteq> None \<and> 1 \<le> ev_int ''sequence'' e \<and>
     length (utf8 (json_dumps False (JObj e))) \<le> MAX_EVENT_BYTES \<and>
     \<not> list_ex (\<lambda>c. (of_char c :: nat) < 32) (json_dumps False (JObj e)) \<and> \<not> sensitive_material (json_dumps False (JObj e))"
proof -
  have conj: "first_error (x # xs) = None \<longleftrightarrow> x = None \<and> first_error xs = None" for x xs by (cases x) auto
  have app: "first_error (xs @ ys) = None \<longleftrightarrow> first_error xs = None \<and> first_error ys = None" for xs ys
    by (auto simp: first_error_None)
  have maps: "first_error (map f ns) = None \<longleftrightarrow> list_all (\<lambda>n. f n = None) ns" for f :: "string \<Rightarrow> detection_error option" and ns
    by (auto simp: first_error_None list_all_iff)
  have cond: "(if b then Some x else None) = None \<longleftrightarrow> \<not> b" for b and x :: detection_error by simp
  show ?thesis unfolding event_validate_def Let_def conj app maps cond check_None list.pred_inject fst_conv snd_conv
    by (simp only: first_error.simps list.pred_inject de_Morgan_disj not_not not_less simp_thms conj_assoc)
qed


definition scalar_at :: "security_event \<Rightarrow> string \<Rightarrow> bool" where
  "scalar_at e n \<longleftrightarrow> (case map_of e n of Some (JStr _) \<Rightarrow> True | Some (JInt _) \<Rightarrow> True | Some (JBool _) \<Rightarrow> True | _ \<Rightarrow> False)"

lemma scalar_atI:
  "\<exists>s. map_of e n = Some (JStr s) \<and> p s \<Longrightarrow> scalar_at e n"
  "map_of e n = Some (JStr s) \<Longrightarrow> scalar_at e n"
  "int_value (map_of e n) \<noteq> None \<Longrightarrow> scalar_at e n"
  by (auto simp: scalar_at_def int_value_def split: option.splits json.splits)

lemma scalar_atE:
  assumes "scalar_at e n"
  obtains v where "map_of e n = Some v" "sort_keys v = v" "wf_json v"
  using assms by (auto simp: scalar_at_def split: option.splits json.splits)

lemma event_validD:
  assumes "event_validate e = None"
  shows "map_of e ''schema_version'' = Some (JStr EVENT_SCHEMA)" "map_of e ''policy_version'' = Some (JStr POLICY_VERSION)"
    "list_all (\<lambda>n. \<exists>s. map_of e n = Some (JStr s) \<and> matches_id s) [''event_id'', ''source_id'']"
    "list_all (\<lambda>p. \<exists>s. map_of e (fst p) = Some (JStr s) \<and> s \<in> set (snd p))
       [(''category'', CATEGORIES), (''severity'', SEVERITIES), (''provenance_classification'', PROVENANCE)]"
    "list_all (\<lambda>n. \<exists>s. map_of e n = Some (JStr s) \<and> length s \<le> MAX_STRING \<and> matches_token s)
       [''event_type'', ''action'', ''outcome'', ''reason_code'', ''source_kind'']"
    "list_all (\<lambda>n. \<exists>s. map_of e n = Some (JStr s) \<and> matches_ref s) refs_of_event"
    "int_value (map_of e ''event_time'') \<noteq> None" "int_value (map_of e ''sequence'') \<noteq> None" "1 \<le> ev_int ''sequence'' e"
  by (insert assms [unfolded event_validate_None], elim conjE, assumption)+

definition SCALAR_FIELDS :: "string list" where
  "SCALAR_FIELDS = [''schema_version'', ''policy_version'', ''event_id'', ''source_id'', ''category'', ''severity'',
     ''provenance_classification'', ''event_type'', ''action'', ''outcome'', ''reason_code'', ''source_kind'', ''event_time'', ''sequence''] @
     refs_of_event"

lemma EVENT_FIELDS_scalar: "n \<in> set EVENT_FIELDS \<Longrightarrow> n \<noteq> ''attributes'' \<Longrightarrow> n \<in> set SCALAR_FIELDS"
proof -
  have "list_all (\<lambda>n. n = ''attributes'' \<or> n \<in> set SCALAR_FIELDS) EVENT_FIELDS" by code_simp
  then show "n \<in> set EVENT_FIELDS \<Longrightarrow> n \<noteq> ''attributes'' \<Longrightarrow> n \<in> set SCALAR_FIELDS" by (auto simp: list_all_iff)
qed

lemma good_event_scalar:
  assumes "good_event e" and "n \<in> set EVENT_FIELDS" and "n \<noteq> ''attributes''"
  shows "scalar_at e n"
proof -
  have "event_validate e = None" using assms(1) by (simp add: good_event_def)
  note valid = event_validD [OF this]
  have "list_all (scalar_at e) [''event_id'', ''source_id'']"
    "list_all (\<lambda>p. scalar_at e (fst p)) [(''category'', CATEGORIES), (''severity'', SEVERITIES), (''provenance_classification'', PROVENANCE)]"
    "list_all (scalar_at e) [''event_type'', ''action'', ''outcome'', ''reason_code'', ''source_kind'']"
    "list_all (scalar_at e) refs_of_event"
    by (rule list.pred_mono_strong [OF valid(3)], erule scalar_atI(1),
      rule list.pred_mono_strong [OF valid(4)], erule scalar_atI(1),
      rule list.pred_mono_strong [OF valid(5)], erule scalar_atI(1), rule list.pred_mono_strong [OF valid(6)], erule scalar_atI(1))
  moreover have "scalar_at e ''schema_version''" "scalar_at e ''policy_version''" "scalar_at e ''event_time''" "scalar_at e ''sequence''"
    by (rule scalar_atI(2) [OF valid(1)], rule scalar_atI(2) [OF valid(2)], rule scalar_atI(3) [OF valid(7)], rule scalar_atI(3) [OF valid(8)])
  ultimately have "list_all (scalar_at e) SCALAR_FIELDS"
    unfolding SCALAR_FIELDS_def by (simp only: list.pred_inject append.simps fst_conv simp_thms)
  then show ?thesis using EVENT_FIELDS_scalar [OF assms(2,3)] by (simp add: list_all_iff)
qed


lemma good_event_distinct: "good_event e \<Longrightarrow> distinct (map fst e)"
  unfolding good_event_def by simp

lemma attribute_json: "list_all attribute_ok attrs \<Longrightarrow> (k, v) \<in> set attrs \<Longrightarrow> sort_keys v = v \<and> wf_json v"
  by (cases v) (auto simp: list_all_iff attribute_ok_def)

lemma good_event_value:
  assumes "good_event e" and "(n, v) \<in> set e"
  shows "sort_keys v = v \<and> wf_json v"
proof (cases "n = ''attributes''")
  case True
  from assms(1) obtain attrs where attrs: "map_of e ''attributes'' = Some (JObj attrs)" "sort_key fst attrs = attrs" "distinct (map fst attrs)"
    "list_all attribute_ok attrs" unfolding good_event_def by blast
  have "v = JObj attrs" using assms(2) True attrs(1) good_event_distinct [OF assms(1)] by (metis map_of_eq_Some_iff option.inject)
  moreover have "map (map_prod id sort_keys) attrs = attrs" using attribute_json [OF attrs(4)] by (intro map_idI) auto
  ultimately show ?thesis using attrs(2,3) attribute_json [OF attrs(4)] by (auto simp: list_all_iff)
next
  case False
  have "n \<in> set (map fst e)" using assms(2) by force
  moreover have "map fst e = EVENT_FIELDS" using assms(1) by (simp add: good_event_def)
  ultimately have "n \<in> set EVENT_FIELDS" by (simp only:)
  from good_event_scalar [OF assms(1) this False] obtain w where "map_of e n = Some w" "sort_keys w = w" "wf_json w" by (rule scalar_atE)
  with assms(2) good_event_distinct [OF assms(1)] show ?thesis by (metis map_of_eq_Some_iff option.inject)
qed

lemma good_event_json:
  assumes "good_event e"
  shows "wf_json (JObj e)" "sort_keys (JObj e) = JObj (sort_key fst e)"
proof -
  have "map (map_prod id sort_keys) e = e" using good_event_value [OF assms] by (intro map_idI) auto
  then show "sort_keys (JObj e) = JObj (sort_key fst e)" by simp
  show "wf_json (JObj e)" using good_event_value [OF assms] good_event_distinct [OF assms] by (auto simp: list_all_iff)
qed

lemma good_event_read_back:
  assumes "good_event e"
  shows "json_loads (json_dumps False (JObj e)) = Some (JObj (sort_key fst e))" "event_from_dict (sort_key fst e) = Inr e"
proof -
  show "json_loads (json_dumps False (JObj e)) = Some (JObj (sort_key fst e))"
    using json_loads_dumps [OF good_event_json(1) [OF assms]] good_event_json(2) [OF assms] by simp
  from assms obtain attrs where e: "map fst e = EVENT_FIELDS" "event_validate e = None" "map_of e ''attributes'' = Some (JObj attrs)"
    "sort_key fst attrs = attrs" "length attrs \<le> MAX_ATTRIBUTES" "list_all attribute_ok attrs" unfolding good_event_def by blast
  have lookup: "map_of (sort_key fst e) = map_of e" by (rule map_of_sort_key [OF good_event_distinct [OF assms]])
  have "set (map fst (sort_key fst e)) = set EVENT_FIELDS" using e(1) by (metis list.set_map set_sort)
  moreover have "map (\<lambda>n. (n, if n = ''attributes'' then JObj attrs else the (map_of e n))) EVENT_FIELDS = e"
  proof -
    have "map (\<lambda>n. (n, if n = ''attributes'' then JObj attrs else the (map_of e n))) EVENT_FIELDS = map (\<lambda>n. (n, the (map_of e n))) EVENT_FIELDS"
      using e(3) by (intro map_cong) auto
    then show ?thesis using fields_rebuilt [OF e(1)] by simp
  qed
  ultimately show "event_from_dict (sort_key fst e) = Inr e" using e(2-6) by (simp add: event_from_dict_def lookup Let_def cong: if_cong)
qed

text \<open>The text of a JSON value holds no raw control character, whatever is in it.\<close>

definition no_control :: "string \<Rightarrow> bool" where
  "no_control s \<longleftrightarrow> (\<forall>c \<in> set s. 32 \<le> (of_char c :: nat))"

lemma no_control_simps [simp]: "no_control []" "no_control (s @ t) \<longleftrightarrow> no_control s \<and> no_control t"
  "no_control (c # s) \<longleftrightarrow> 32 \<le> (of_char c :: nat) \<and> no_control s"
  by (auto simp: no_control_def)

lemma printable_no_control: "printable s \<Longrightarrow> no_control s"
  by (simp add: printable_def no_control_def)

lemma no_control_quote_str: "no_control (quote_str ascii s)"
proof -
  have "no_control (escape_char ascii c)" for c
  proof -
    have "(of_char c :: nat) div 16 < 16" using of_char_bound [of c] by linarith
    with printable_no_control [OF printable_hex_digit] show ?thesis by (simp add: escape_char_def Let_def)
  qed
  then have "no_control (concat (map (escape_char ascii) s))" by (induction s) simp_all
  then show ?thesis by (simp add: quote_str_def)
qed

lemma no_control_join_with: "32 \<le> (of_char c :: nat) \<Longrightarrow> \<forall>x \<in> set xs. no_control x \<Longrightarrow> no_control (join_with c xs)"
  by (induction c xs rule: join_with.induct) auto

lemma json_text_no_control: "no_control (json_text ascii j)"
proof (induction j)
  case (JInt i)
  show ?case using printable_digits by (simp add: str_int_def printable_no_control)
next
  case (JList xs)
  then show ?case by (auto intro!: no_control_join_with)
next
  case (JObj kvs)
  then show ?case by (auto simp: item_text_def no_control_quote_str intro!: no_control_join_with)
qed (auto simp: no_control_quote_str)


subsection \<open>What the store holds\<close>

lemma hex_shaE:
  assumes "hex_sha sha"
  obtains d where "length d = 32" "sha m = bytes_hex d" "bytes_fromhex (sha m) = Some d"
  using assms unfolding hex_sha_def by (metis bytes_fromhex_hex)

lemma ZERO_CHAIN_bytes: "bytes_fromhex ZERO_CHAIN = Some (replicate 32 (CHR 0x00))"
  by code_simp

definition is_chain :: "(string \<Rightarrow> string) \<Rightarrow> string \<Rightarrow> bool" where
  "is_chain sha p \<longleftrightarrow> p = ZERO_CHAIN \<or> (\<exists>m. p = sha m)"

definition chain_bytes :: "string \<Rightarrow> string" where
  "chain_bytes p = the (bytes_fromhex p)"

lemma is_chain_bytes:
  assumes "hex_sha sha" and "is_chain sha p"
  shows "bytes_fromhex p = Some (chain_bytes p) \<and> length (chain_bytes p) = 32"
  using assms(2) unfolding is_chain_def
proof
  assume "\<exists>m. p = sha m"
  then obtain m where "p = sha m" by blast
  moreover from assms(1) obtain d where "length d = 32" "bytes_fromhex (sha m) = Some d" by (rule hex_shaE)
  ultimately show ?thesis by (simp add: chain_bytes_def)
qed (simp add: chain_bytes_def ZERO_CHAIN_bytes)

lemma chain_digest_ok:
  "hex_sha sha \<Longrightarrow> is_chain sha p \<Longrightarrow> chain_digest sha domain p payload = Inr (sha (chain_message domain (chain_bytes p) payload))"
  using is_chain_bytes by (simp add: chain_digest_def)

definition row_of_event :: "event_row \<Rightarrow> security_event \<Rightarrow> bool" where
  "row_of_event r e \<longleftrightarrow> good_event e \<and> se_payload r = json_dumps False (JObj e) \<and> se_event_id r = ev_str ''event_id'' e \<and>
     se_event_time r = ev_int ''event_time'' e"

lemma read_events_ok:
  "\<forall>r \<in> set rows. \<exists>e. row_of_event r e \<Longrightarrow> \<exists>es. read_events rows = Inr es \<and> list_all2 row_of_event rows es"
proof (induction rows)
  case (Cons r rows)
  then obtain e es where "row_of_event r e" "read_events rows = Inr es" "list_all2 row_of_event rows es" by auto
  moreover have "good_event e" "se_payload r = json_dumps False (JObj e)" using \<open>row_of_event r e\<close> by (simp_all add: row_of_event_def)
  ultimately show ?case using good_event_read_back [of e] by simp
qed simp

lemma verify_rows_snoc:
  "verify_rows sha p (rows @ [r]) = (case verify_rows sha p rows of
     Inl e \<Rightarrow> Inl e
   | Inr q \<Rightarrow> (case chain_digest sha event_domain q (utf8 (se_payload r)) of
       Inl e \<Rightarrow> Inl e
     | Inr expected \<Rightarrow> if se_chain_hash r \<noteq> expected then Inl (DetectionDenied ''EVENT_CHAIN_TAMPERED'') else Inr (se_chain_hash r)))"
  by (induction rows arbitrary: p) (auto split: sum.splits)

definition events_ok :: "(string \<Rightarrow> string) \<Rightarrow> event_row list \<Rightarrow> bool" where
  "events_ok sha rows \<longleftrightarrow> (\<forall>r \<in> set rows. (\<exists>e. row_of_event r e) \<and> (\<exists>m. se_chain_hash r = sha m)) \<and>
     distinct (map se_event_id rows) \<and> (\<forall>k < length rows. se_store_order (rows ! k) = int k + 1) \<and>
     verify_rows sha ZERO_CHAIN rows = Inr (last_chain rows)"

definition alert_message :: "string \<Rightarrow> alert_row \<Rightarrow> string" where
  "alert_message p a = chain_message alert_domain (chain_bytes p) (alert_material a)"

definition alert_link :: "(string \<Rightarrow> string) \<Rightarrow> alert_row list \<Rightarrow> nat \<Rightarrow> bool" where
  "alert_link sha alerts k \<longleftrightarrow> al_chain_hash (alerts ! k) = sha (alert_message (last_alert_chain (take k alerts)) (alerts ! k))"

definition alerts_ok :: "(string \<Rightarrow> string) \<Rightarrow> int \<Rightarrow> alert_row list \<Rightarrow> bool" where
  "alerts_ok sha k alerts \<longleftrightarrow> (\<forall>j < length alerts. alert_link sha alerts j) \<and> (\<forall>a \<in> set alerts. al_detection_sequence a \<le> k) \<and>
     sorted (map al_detection_sequence alerts) \<and> distinct (map al_alert_id alerts)"

definition stats_ok :: "event_store \<Rightarrow> bool" where
  "stats_ok s \<longleftrightarrow> ss_attempted (st_stats s) = ss_accepted (st_stats s) + ss_rejected (st_stats s) + ss_deduplicated (st_stats s) \<and>
     ss_accepted (st_stats s) = length (st_events s) \<and> ss_replayed (st_stats s) = ss_deduplicated (st_stats s) \<and>
     ss_alert_candidates (st_stats s) = ss_alerts_created (st_stats s) + ss_alerts_deduplicated (st_stats s) \<and>
     ss_alerts_created (st_stats s) = length (st_alerts s)"

definition collector_inv :: "(string \<Rightarrow> string) \<Rightarrow> event_store \<Rightarrow> bool" where
  "collector_inv sha s \<longleftrightarrow> events_ok sha (st_events s) \<and> alerts_ok sha (int (length (st_events s))) (st_alerts s) \<and> stats_ok s"

lemma events_ok_chain: "events_ok sha rows \<Longrightarrow> is_chain sha (last_chain rows)"
  by (auto simp: events_ok_def last_chain_def is_chain_def)

lemma alerts_ok_chain: "alerts_ok sha k alerts \<Longrightarrow> is_chain sha (last_alert_chain alerts)"
proof -
  assume ok: "alerts_ok sha k alerts"
  show ?thesis
  proof (cases "sort_key (\<lambda>a. - al_detection_sequence a) alerts")
    case (Cons a as)
    then have "a \<in> set alerts" by (metis list.set_intros(1) set_sort)
    with ok have "\<exists>m. al_chain_hash a = sha m" by (auto simp: alerts_ok_def alert_link_def in_set_conv_nth)
    with Cons show ?thesis by (auto simp: last_alert_chain_def is_chain_def)
  qed (simp add: last_alert_chain_def is_chain_def)
qed

lemma next_order_is: "events_ok sha rows \<Longrightarrow> next_order rows = int (length rows) + 1"
  by (cases rows rule: rev_cases) (auto simp: events_ok_def next_order_def nth_append dest: spec [of _ "length _"])

lemma collector_inv_new: "collector_inv sha new_store"
  by (simp add: collector_inv_def new_store_def events_ok_def alerts_ok_def stats_ok_def last_chain_def)

lemma count_stat_sel [simp]: "st_events (count_stat f s) = st_events s" "st_alerts (count_stat f s) = st_alerts s"
  "st_stats (count_stat f s) = f (st_stats s)"
  by (simp_all add: count_stat_def)

text \<open>Appending.\<close>

abbreviation appended :: "(string \<Rightarrow> string) \<Rightarrow> event_row list \<Rightarrow> security_event \<Rightarrow> event_row" where
  "appended sha rows e \<equiv> \<lparr>se_store_order = int (length rows) + 1, se_event_id = ev_str ''event_id'' e,
     se_event_time = ev_int ''event_time'' e, se_source_id = ev_str ''source_id'' e, se_category = ev_str ''category'' e,
     se_payload = json_dumps False (JObj e),
     se_chain_hash = sha (chain_message event_domain (chain_bytes (last_chain rows)) (utf8 (json_dumps False (JObj e))))\<rparr>"

lemma events_ok_append:
  assumes "hex_sha sha" and "events_ok sha rows" and "good_event e" and "ev_str ''event_id'' e \<notin> se_event_id ` set rows"
  shows "events_ok sha (rows @ [appended sha rows e])"
proof -
  have "verify_rows sha ZERO_CHAIN rows = Inr (last_chain rows)" using assms(2) by (simp add: events_ok_def)
  then have "verify_rows sha ZERO_CHAIN (rows @ [appended sha rows e]) = Inr (last_chain (rows @ [appended sha rows e]))"
    using chain_digest_ok [OF assms(1) events_ok_chain [OF assms(2)]] by (simp add: verify_rows_snoc) (simp add: last_chain_def)
  moreover have "row_of_event (appended sha rows e) e" using assms(3) by (simp add: row_of_event_def)
  ultimately show ?thesis using assms(2,4) by (auto simp: events_ok_def nth_append less_Suc_eq)
qed

lemma store_append_cases:
  assumes "hex_sha sha" and "collector_inv sha s" and "good_event e"
  obtains "ev_str ''event_id'' e \<in> se_event_id ` set (st_events s)" "\<exists>t. store_append sha e s = (Inr (False, 0), t) \<and>
      st_events t = st_events s \<and> st_alerts t = st_alerts s \<and> collector_inv sha t"
  | t where "ev_str ''event_id'' e \<notin> se_event_id ` set (st_events s)" "store_append sha e s = (Inr (True, int (length (st_events s)) + 1), t)"
      "st_events t = st_events s @ [appended sha (st_events s) e]" "st_alerts t = st_alerts s" "collector_inv sha t"
proof -
  have ok: "events_ok sha (st_events s)" "alerts_ok sha (int (length (st_events s))) (st_alerts s)" "stats_ok s"
    using assms(2) by (simp_all add: collector_inv_def)
  note digest = chain_digest_ok [OF assms(1) events_ok_chain [OF ok(1)]]
  show ?thesis
  proof (cases "row_of se_event_id (ev_str ''event_id'' e) (st_events s)")
    case None
    let ?t = "count_stat (\<lambda>t. t\<lparr>ss_accepted := ss_accepted t + 1\<rparr>) ((count_stat (\<lambda>t. t\<lparr>ss_attempted := ss_attempted t + 1\<rparr>) s)
      \<lparr>st_events := st_events s @ [appended sha (st_events s) e]\<rparr>)"
    have run: "store_append sha e s = (Inr (True, int (length (st_events s)) + 1), ?t)"
      using None digest next_order_is [OF ok(1)] by (simp add: store_append_def Let_def)
    have new: "ev_str ''event_id'' e \<notin> se_event_id ` set (st_events s)" using None by (simp add: row_of_None)
    have "alerts_ok sha (int (length (st_events ?t))) (st_alerts ?t)" using ok(2) by (force simp: alerts_ok_def)
    moreover have "stats_ok ?t" using ok(3) by (simp add: stats_ok_def)
    ultimately have "collector_inv sha ?t" using events_ok_append [OF assms(1) ok(1) assms(3) new] by (simp add: collector_inv_def)
    with that(2) [OF new run] show ?thesis by simp
  next
    case (Some r)
    let ?t = "count_stat (\<lambda>t. t\<lparr>ss_deduplicated := ss_deduplicated t + 1, ss_replayed := ss_replayed t + 1\<rparr>)
      (count_stat (\<lambda>t. t\<lparr>ss_attempted := ss_attempted t + 1\<rparr>) s)"
    have "store_append sha e s = (Inr (False, 0), ?t)" using Some digest by (simp add: store_append_def Let_def)
    moreover have "collector_inv sha ?t" using ok by (simp add: collector_inv_def stats_ok_def)
    ultimately show ?thesis using that(1) Some by (force dest: row_of_SomeD)
  qed
qed

text \<open>Alerts and ingestion keep the invariant, and only add rows.\<close>

lemma new_alert_sel [simp]: "al_chain_hash (new_alert sha rule events k) = []" "al_detection_sequence (new_alert sha rule events k) = k"
  "al_rule_id (new_alert sha rule events k) = ru_rule_id rule"
  by (simp_all add: new_alert_def Let_def)

definition chained_alert :: "(string \<Rightarrow> string) \<Rightarrow> alert_row list \<Rightarrow> alert_row \<Rightarrow> alert_row" where
  "chained_alert sha alerts a =
     a\<lparr>al_chain_hash := sha (alert_message (last_alert_chain alerts) a)\<rparr>"

lemma chained_alert_sel [simp]: "al_alert_id (chained_alert sha alerts a) = al_alert_id a"
  "al_detection_sequence (chained_alert sha alerts a) = al_detection_sequence a" "al_dedup_key (chained_alert sha alerts a) = al_dedup_key a"
  "al_chain_hash (chained_alert sha alerts a) = sha (alert_message (last_alert_chain alerts) a)"
  "alert_message p (chained_alert sha alerts a) = alert_message p a"
  "alert_material (chained_alert sha alerts a) = alert_material a" "al_rule_id (chained_alert sha alerts a) = al_rule_id a"
  by (simp_all add: chained_alert_def alert_material_def alert_message_def)

definition known_alert :: "alert_row list \<Rightarrow> alert_row \<Rightarrow> bool" where
  "known_alert alerts a \<longleftrightarrow> (\<exists>b \<in> set alerts. al_alert_id b = al_alert_id a \<or> al_dedup_key b = al_dedup_key a)"

lemma alerts_ok_add:
  assumes "alerts_ok sha k alerts" and "\<not> known_alert alerts a" and "al_detection_sequence a = k"
  shows "alerts_ok sha k (alerts @ [chained_alert sha alerts a])"
proof -
  have "alert_link sha (alerts @ [chained_alert sha alerts a]) j" if "j < length (alerts @ [chained_alert sha alerts a])" for j
    using that assms(1) by (cases "j = length alerts") (simp_all add: alert_link_def alerts_ok_def nth_append)
  then show ?thesis using assms by (auto simp: alerts_ok_def known_alert_def sorted_append)
qed

lemma persist_alert_cases:
  assumes "hex_sha sha" and "collector_inv sha s" and "sequence = int (length (st_events s))" and "persist_alert sha rule events sequence s = (res, t)"
  obtains "t = s" "\<exists>e. res = Inl e"
  | "res = Inr False" "known_alert (st_alerts s) (new_alert sha rule events sequence)" "st_events t = st_events s" "st_alerts t = st_alerts s" "collector_inv sha t"
  | "res = Inr True" "\<not> known_alert (st_alerts s) (new_alert sha rule events sequence)" "st_events t = st_events s"
    "st_alerts t = st_alerts s @ [chained_alert sha (st_alerts s) (new_alert sha rule events sequence)]" "collector_inv sha t"
proof -
  let ?a = "new_alert sha rule events sequence"
  have ok: "events_ok sha (st_events s)" "alerts_ok sha (int (length (st_events s))) (st_alerts s)" "stats_ok s"
    using assms(2) by (simp_all add: collector_inv_def)
  note digest = chain_digest_ok [OF assms(1) alerts_ok_chain [OF ok(2)]]
  show ?thesis
  proof (cases "set (ru_group_by rule) \<subseteq> set EVENT_FIELDS \<and> ru_window_seconds rule \<noteq> 0")
    case False
    then show ?thesis using assms(4) that(1) by (auto simp: persist_alert_def split: if_splits)
  next
    case fields: True
    show ?thesis
    proof (cases "known_alert (st_alerts s) ?a")
      case True
      let ?t = "count_stat (\<lambda>t. t\<lparr>ss_alerts_deduplicated := ss_alerts_deduplicated t + 1\<rparr>)
        (count_stat (\<lambda>t. t\<lparr>ss_alert_candidates := ss_alert_candidates t + 1\<rparr>) s)"
      have "res = Inr False" "t = ?t" using assms(4) fields True digest by (simp_all add: persist_alert_def Let_def known_alert_def)
      moreover have "collector_inv sha ?t" using ok by (simp add: collector_inv_def stats_ok_def)
      ultimately show ?thesis using that(2) True by simp
    next
      case False
      let ?t = "count_stat (\<lambda>t. t\<lparr>ss_alerts_created := ss_alerts_created t + 1\<rparr>)
        ((count_stat (\<lambda>t. t\<lparr>ss_alert_candidates := ss_alert_candidates t + 1\<rparr>) s)\<lparr>st_alerts := st_alerts s @ [chained_alert sha (st_alerts s) ?a]\<rparr>)"
      have "res = Inr True" "t = ?t" using assms(4) fields False digest
        by (simp_all add: persist_alert_def Let_def known_alert_def chained_alert_def alert_message_def)
      moreover have "collector_inv sha ?t"
        using ok alerts_ok_add [OF ok(2) False] assms(3) by (simp add: collector_inv_def stats_ok_def)
      ultimately show ?thesis using that(3) False by simp
    qed
  qed
qed

definition extends :: "event_store \<Rightarrow> event_store \<Rightarrow> bool" where
  "extends s t \<longleftrightarrow> (\<exists>new. st_events t = st_events s @ new) \<and> (\<exists>new. st_alerts t = st_alerts s @ new)"

lemma extends_refl [simp]: "extends s s"
  by (simp add: extends_def)

lemma extends_trans: "extends s t \<Longrightarrow> extends t u \<Longrightarrow> extends s u"
  by (auto simp: extends_def)

lemma extendsI: "st_events t = st_events s \<Longrightarrow> st_alerts t = st_alerts s \<Longrightarrow> extends s t"
  by (simp add: extends_def)

lemma evaluate_rules_keeps:
  assumes "hex_sha sha"
  shows "collector_inv sha s \<Longrightarrow> sequence = int (length (st_events s)) \<Longrightarrow>
    evaluate_rules sha current sequence ordered rules s = (res, t) \<Longrightarrow> collector_inv sha t \<and> st_events t = st_events s \<and> extends s t"
proof (induction rules arbitrary: s res t)
  case (Cons rule rules)
  show ?case
  proof (cases "set (ru_group_by rule) \<subseteq> set EVENT_FIELDS \<and> matched_events rule current ordered \<noteq> []")
    case False
    show ?thesis
    proof (cases "set (ru_group_by rule) \<subseteq> set EVENT_FIELDS")
      case True
      then have "evaluate_rules sha current sequence ordered rules s = (res, t)" using False Cons.prems(3) by simp
      with Cons.IH Cons.prems(1,2) show ?thesis by blast
    qed (use Cons.prems in simp)
  next
    case True
    obtain r u where run: "persist_alert sha rule (matched_events rule current ordered) sequence s = (r, u)" by force
    have u: "collector_inv sha u \<and> st_events u = st_events s \<and> extends s u"
      by (rule persist_alert_cases [OF assms Cons.prems(1,2) run]) (use Cons.prems(1) in \<open>auto simp: extends_def\<close>)
    show ?thesis
    proof (cases r)
      case (Inl e)
      then show ?thesis using Cons.prems(3) True run u by simp
    next
      case (Inr created)
      obtain r' v where rest: "evaluate_rules sha current sequence ordered rules u = (r', v)" by force
      with Cons.IH [OF _ _ rest] u Cons.prems(2) have "collector_inv sha v \<and> st_events v = st_events s \<and> extends s v"
        by (auto intro: extends_trans)
      moreover have "t = v" using Cons.prems(3) True run Inr rest by (auto split: sum.splits)
      ultimately show ?thesis by simp
    qed
  qed
qed simp

lemma store_events_ok:
  assumes "collector_inv sha s"
  obtains es where "store_events s = Inr es" "list_all2 row_of_event (sort_key se_event_time (st_events s)) es"
proof -
  have "\<forall>r \<in> set (sort_key se_event_time (st_events s)). \<exists>e. row_of_event r e" using assms by (auto simp: collector_inv_def events_ok_def)
  from read_events_ok [OF this] that show ?thesis by (auto simp: store_events_def)
qed

lemma registry_verify_good:
  assumes "registry_verify sha verify policies n now = Inr e" and "wf_json (JObj (en_body n))"
  shows "event_from_dict (en_body n) = Inr e" "good_event e"
proof -
  show "event_from_dict (en_body n) = Inr e"
    using assms(1) by (auto simp: registry_verify_def split: option.splits sum.splits if_splits)
  from event_from_dict_good [OF this assms(2)] show "good_event e" .
qed

lemma ingest_cases:
  assumes "hex_sha sha" and "collector_inv sha s" and "wf_json (JObj (en_body n))" and "ingest sha verify policies rules n now s = (res, t)"
  obtains (denied) e where "registry_verify sha verify policies n now = Inl e" "res = Inl e" "collector_inv sha t"
      "st_events t = st_events s" "st_alerts t = st_alerts s"
  | (again) e where "registry_verify sha verify policies n now = Inr e" "res = Inr (INGEST_DEDUPLICATED, [])" "collector_inv sha t"
      "ev_str ''event_id'' e \<in> se_event_id ` set (st_events s)" "st_events t = st_events s" "st_alerts t = st_alerts s"
  | (fresh) e u ordered r where "registry_verify sha verify policies n now = Inr e" "good_event e"
      "ev_str ''event_id'' e \<notin> se_event_id ` set (st_events s)" "st_events u = st_events s @ [appended sha (st_events s) e]"
      "st_alerts u = st_alerts s" "collector_inv sha u" "store_events u = Inr ordered"
      "evaluate_rules sha e (int (length (st_events s)) + 1) ordered rules u = (r, t)"
      "res = (case r of Inl x \<Rightarrow> Inl x | Inr alerts \<Rightarrow> Inr (INGEST_ACCEPTED, alerts))"
proof (cases "registry_verify sha verify policies n now")
  case (Inl e)
  have "collector_inv sha (count_stat (\<lambda>t. t\<lparr>ss_attempted := ss_attempted t + 1, ss_rejected := ss_rejected t + 1\<rparr>) s)"
    using assms(2) by (simp add: collector_inv_def stats_ok_def)
  then show thesis using assms(2,4) Inl by (intro denied [OF Inl]) (auto simp: ingest_def split: detection_error.splits)
next
  case (Inr e)
  have good: "good_event e" using registry_verify_good(2) [OF Inr assms(3)] .
  show thesis
  proof (rule store_append_cases [OF assms(1,2) good])
    assume "\<exists>u. store_append sha e s = (Inr (False, 0), u) \<and> st_events u = st_events s \<and> st_alerts u = st_alerts s \<and> collector_inv sha u"
      and "ev_str ''event_id'' e \<in> se_event_id ` set (st_events s)"
    then show thesis using assms(4) Inr by (intro again [OF Inr]) (auto simp: ingest_def)
  next
    fix u
    assume u: "store_append sha e s = (Inr (True, int (length (st_events s)) + 1), u)" "st_alerts u = st_alerts s" "collector_inv sha u"
      "st_events u = st_events s @ [appended sha (st_events s) e]" "ev_str ''event_id'' e \<notin> se_event_id ` set (st_events s)"
    from store_events_ok [OF u(3)] obtain ordered where ordered: "store_events u = Inr ordered" by blast
    obtain r v where rest: "evaluate_rules sha e (int (length (st_events s)) + 1) ordered rules u = (r, v)" by force
    then have "t = v" "res = (case r of Inl x \<Rightarrow> Inl x | Inr alerts \<Rightarrow> Inr (INGEST_ACCEPTED, alerts))"
      using assms(4) Inr u(1) ordered by (auto simp: ingest_def engine_evaluate_def split: sum.splits)
    with rest show thesis by (intro fresh [OF Inr good u(5,4,2,3) ordered]) simp_all
  qed
qed

lemma ingest_keeps:
  assumes "hex_sha sha" and "collector_inv sha s" and "wf_json (JObj (en_body n))" and "ingest sha verify policies rules n now s = (res, t)"
  shows "collector_inv sha t \<and> extends s t"
  using assms
proof (cases rule: ingest_cases)
  case (fresh e u ordered r)
  from evaluate_rules_keeps [OF assms(1) fresh(6) _ fresh(8)] fresh(4) have "collector_inv sha t" "extends u t" by simp_all
  moreover have "extends s u" using fresh(4,5) by (simp add: extends_def)
  ultimately show ?thesis by (blast intro: extends_trans)
qed (simp_all add: extends_def)

text \<open>All sequences of calls, whoever sends the envelopes and whatever the clock says.\<close>

inductive collector_step ::
  "(string \<Rightarrow> string) \<Rightarrow> (string \<Rightarrow> string \<Rightarrow> string \<Rightarrow> bool) \<Rightarrow> source_policy list \<Rightarrow> detection_rule list \<Rightarrow> event_store \<Rightarrow> event_store \<Rightarrow> bool"
  for sha verify policies rules where
  ingesting: "wf_json (JObj (en_body n)) \<Longrightarrow> ingest sha verify policies rules n now s = (res, t) \<Longrightarrow> collector_step sha verify policies rules s t"

abbreviation collector_run where
  "collector_run sha verify policies rules \<equiv> (collector_step sha verify policies rules)\<^sup>*\<^sup>*"

lemma collector_run_keeps:
  assumes "hex_sha sha" and "collector_inv sha s"
  shows "collector_run sha verify policies rules s t \<Longrightarrow> collector_inv sha t \<and> extends s t"
proof (induction rule: rtranclp_induct)
  case (step t u)
  from step.hyps(2) obtain n now res where "wf_json (JObj (en_body n))" "ingest sha verify policies rules n now t = (res, u)"
    by (cases rule: collector_step.cases) blast
  with ingest_keeps [OF assms(1)] step.IH show ?case by (blast intro: extends_trans)
qed (use assms in simp)

text \<open>The collector's history is append-only and adds up: in every run the stored events and alerts of an earlier
  moment are a prefix of the later ones, every event is stored once under the next number, the hash chain verifies
  up to the last row, all rows can be read back, and the counters account for every attempt and every alert.\<close>

theorem collector_history_is_append_only:
  assumes "hex_sha sha" and "collector_run sha verify policies rules new_store s" and "collector_run sha verify policies rules s t"
  shows "(\<exists>events alerts. st_events t = st_events s @ events \<and> st_alerts t = st_alerts s @ alerts) \<and>
    distinct (map se_event_id (st_events t)) \<and> map se_store_order (st_events t) = map (\<lambda>k. int k + 1) [0..<length (st_events t)] \<and>
    verify_event_chain sha t = Inr (last_chain (st_events t)) \<and>
    (\<exists>es. store_events t = Inr es \<and> map (ev_str ''event_id'') es = map se_event_id (sort_key se_event_time (st_events t))) \<and>
    ss_attempted (st_stats t) = length (st_events t) + ss_rejected (st_stats t) + ss_deduplicated (st_stats t) \<and>
    ss_alert_candidates (st_stats t) = length (st_alerts t) + ss_alerts_deduplicated (st_stats t)"
proof -
  have "collector_inv sha s" using collector_run_keeps [OF assms(1) collector_inv_new assms(2)] by blast
  from collector_run_keeps [OF assms(1) this assms(3)] have inv: "collector_inv sha t" and more: "extends s t" by simp_all
  from store_events_ok [OF inv] obtain es where es: "store_events t = Inr es" "list_all2 row_of_event (sort_key se_event_time (st_events t)) es" .
  have "map (ev_str ''event_id'') es = map se_event_id (sort_key se_event_time (st_events t))"
    using es(2) by (simp add: list_all2_conv_all_nth list_eq_iff_nth_eq row_of_event_def)
  moreover have "map se_store_order (st_events t) = map (\<lambda>k. int k + 1) [0..<length (st_events t)]"
    using inv by (intro nth_equalityI) (auto simp: collector_inv_def events_ok_def)
  ultimately show ?thesis using inv more es(1) by (auto simp: collector_inv_def events_ok_def stats_ok_def verify_event_chain_def extends_def)
qed

subsection \<open>Every stored event was signed\<close>

lemma sort_keys_cong:
  assumes "distinct (map fst kvs)" and "distinct (map fst kvs')"
    and "\<And>k. map_option sort_keys (map_of kvs k) = map_option sort_keys (map_of kvs' k)"
  shows "sort_keys (JObj kvs) = sort_keys (JObj kvs')"
proof -
  let ?a = "map (map_prod id sort_keys) kvs" and ?b = "map (map_prod id sort_keys) kvs'"
  have d: "distinct (map fst ?a)" "distinct (map fst ?b)" using assms(1,2) unfolding map_fst_map_prod .
  have "map_of ?a = map_of ?b" using assms(3) by (auto simp: map_of_map_prod)
  then have same: "set ?a = set ?b" using map_of_inject_set [OF d] by blast
  have inj: "inj_on fst (set c)" if "distinct (map fst c)" for c :: "(string \<times> json) list" using that by (simp add: distinct_map)
  note inj [OF d(1)]
  moreover have sorted: "distinct (map fst (sort_key fst c))" if "distinct (map fst c)" for c :: "(string \<times> json) list"
    using that by (metis distinct_sort distinct_map set_sort)
  note sorted [OF d(1)] sorted [OF d(2)]
  ultimately have "sort_key fst ?a = sort_key fst ?b"
    using same by (intro map_sorted_distinct_set_unique [where f = fst]) auto
  then show ?thesis by simp
qed

lemma event_text_is_body:
  assumes "event_from_dict d = Inr e" and "wf_json (JObj d)"
  shows "json_dumps False (JObj e) = json_dumps False (JObj d)"
proof -
  from assms(1) obtain attrs where d: "set (map fst d) = set EVENT_FIELDS" "map_of d ''attributes'' = Some (JObj attrs)"
    "e = map (\<lambda>n. (n, if n = ''attributes'' then JObj (sort_key fst attrs) else the (map_of d n))) EVENT_FIELDS"
    by (auto simp: event_from_dict_def Let_def split: if_splits option.splits json.splits)
  have "(''attributes'', JObj attrs) \<in> set d" using d(2) by (rule map_of_SomeD)
  then have attrs: "distinct (map fst attrs)" using assms(2) by (fastforce simp: list_all_iff)
  then have "distinct (map fst (sort_key fst attrs))" by (simp add: distinct_map)
  then have nested: "sort_keys (JObj (sort_key fst attrs)) = sort_keys (JObj attrs)"
    using attrs by (intro sort_keys_cong) (simp_all add: map_of_sort_key)
  have "sort_keys (JObj e) = sort_keys (JObj d)"
  proof (rule sort_keys_cong)
    show "distinct (map fst e)" unfolding d(3) by (simp add: comp_def)
    show "distinct (map fst d)" using assms(2) by simp
    show "map_option sort_keys (map_of e k) = map_option sort_keys (map_of d k)" for k
    proof (cases "map_of d k")
      case None
      then have "k \<notin> set EVENT_FIELDS" using d(1) by (metis map_of_eq_None_iff list.set_map)
      then show ?thesis using None unfolding d(3) map_of_fields by simp
    next
      case (Some v)
      then have "k \<in> set EVENT_FIELDS" using d(1) by (metis map_of_eq_None_iff list.set_map option.distinct(1))
      then show ?thesis using Some d(2) nested unfolding d(3) map_of_fields by (cases "k = ''attributes''") simp_all
    qed
  qed
  then show ?thesis by (metis json_dumps_sort_keys)
qed

lemma registry_verifyD:
  assumes "registry_verify sha verify policies n now = Inr e" and "wf_json (JObj (en_body n))"
  obtains policy sig where "policy \<in> set policies" "sp_source_id policy = en_source_id n" "verify (sp_public_key policy) sig (envelope_material n)"
    "ev_str ''source_id'' e = en_source_id n" "ev_str ''event_id'' e = en_event_id n" "ev_int ''event_time'' e = en_event_time n"
    "en_body_sha256 n = sha (utf8 (json_dumps False (JObj e)))" "ev_str ''category'' e \<in> set (sp_allowed_categories policy)"
    "ev_str ''provenance_classification'' e \<in> set (sp_allowed_provenance policy)"
    "now - MAX_STALE_AGE \<le> ev_int ''event_time'' e" "ev_int ''event_time'' e \<le> now + MAX_FUTURE_SKEW"
proof -
  have same_text: "event_digest sha (en_body n) = sha (utf8 (json_dumps False (JObj e)))"
    using event_text_is_body [OF registry_verify_good(1) [OF assms] assms(2)] by (simp add: event_digest_def)
  from assms(1) obtain policy where policy: "row_of sp_source_id (en_source_id n) policies = Some policy"
    by (auto simp: registry_verify_def split: option.splits)
  then have "policy \<in> set policies \<and> sp_source_id policy = en_source_id n" by (auto dest: row_of_SomeD)
  moreover obtain sig where "verify (sp_public_key policy) sig (envelope_material n)"
    using assms(1) policy by (cases "standard_b64decode (en_signature n)") (auto simp: registry_verify_def split: sum.splits if_splits)
  ultimately show thesis using assms(1) policy same_text by (intro that [of policy sig]) (auto simp: registry_verify_def split: sum.splits if_splits)
qed

definition row_signed :: "(string \<Rightarrow> string) \<Rightarrow> (string \<Rightarrow> string \<Rightarrow> string \<Rightarrow> bool) \<Rightarrow> source_policy list \<Rightarrow> event_row \<Rightarrow> bool" where
  "row_signed sha verify policies r \<longleftrightarrow> (\<exists>policy sig n. policy \<in> set policies \<and> sp_source_id policy = se_source_id r \<and>
     verify (sp_public_key policy) sig (envelope_material n) \<and> en_source_id n = se_source_id r \<and> en_event_id n = se_event_id r \<and>
     en_event_time n = se_event_time r \<and> en_body_sha256 n = sha (utf8 (se_payload r)) \<and>
     se_category r \<in> set (sp_allowed_categories policy))"

lemma collector_run_signed:
  assumes "hex_sha sha" and "collector_inv sha s" and "list_all (row_signed sha verify policies) (st_events s)"
  shows "collector_run sha verify policies rules s t \<Longrightarrow> list_all (row_signed sha verify policies) (st_events t)"
proof (induction rule: rtranclp_induct)
  case (step t u)
  have inv: "collector_inv sha t" using collector_run_keeps [OF assms(1,2) step.hyps(1)] by blast
  from step.hyps(2) obtain n now res where run: "wf_json (JObj (en_body n))" "ingest sha verify policies rules n now t = (res, u)"
    by (cases rule: collector_step.cases) blast
  show ?case using assms(1) inv run
  proof (cases rule: ingest_cases)
    case (fresh e v ordered r)
    have "row_signed sha verify policies (appended sha (st_events t) e)"
      by (rule registry_verifyD [OF fresh(1) run(1)], unfold row_signed_def, intro exI conjI) simp_all
    moreover have "st_events u = st_events v" using evaluate_rules_keeps [OF assms(1) fresh(6) _ fresh(8)] fresh(4) by simp
    ultimately show ?thesis using step.IH fresh(4) by simp
  qed (use step.IH in simp_all)
qed (rule assms(3))

text \<open>\<^bold>\<open>C29\<close>. Every stored event was signed by its source: if only the messages a source signed verify under its
  registered key, the source of a stored row signed a message that names the row's source, event id, event time
  and the SHA-256 of exactly the stored text, and the row's category is one the source is registered for.\<close>

theorem stored_events_are_signed:
  assumes "hex_sha sha" and "\<And>key sig m. verify key sig m \<Longrightarrow> m \<in> signed key"
    and "collector_run sha verify policies rules new_store s" and "r \<in> set (st_events s)"
  shows "\<exists>policy n. policy \<in> set policies \<and> sp_source_id policy = se_source_id r \<and> se_category r \<in> set (sp_allowed_categories policy) \<and>
    envelope_material n \<in> signed (sp_public_key policy) \<and> en_source_id n = se_source_id r \<and> en_event_id n = se_event_id r \<and>
    en_event_time n = se_event_time r \<and> en_body_sha256 n = sha (utf8 (se_payload r))"
proof -
  have "list_all (row_signed sha verify policies) (st_events s)"
    by (rule collector_run_signed [OF assms(1) collector_inv_new _ assms(3)]) (simp add: new_store_def)
  then have "row_signed sha verify policies r" using assms(4) by (simp add: list_all_iff)
  then show ?thesis using assms(2) unfolding row_signed_def by blast
qed

subsection \<open>An edited history\<close>

lemma chain_bytes_inject:
  assumes "hex_sha sha" and "is_chain sha p" and "is_chain sha q" and "chain_bytes p = chain_bytes q"
  shows "p = q"
proof -
  have zero: "ZERO_CHAIN = bytes_hex (replicate 32 (CHR 0x00))" by code_simp
  have "\<exists>d. p = bytes_hex d" if "is_chain sha p" for p
    using that zero assms(1) unfolding is_chain_def hex_sha_def by metis
  then obtain d d' where "p = bytes_hex d" "q = bytes_hex d'" using assms(2,3) by blast
  then show ?thesis using assms(4) by (simp add: chain_bytes_def)
qed

lemma chain_message_inject:
  assumes "hex_sha sha" and "is_chain sha p" and "is_chain sha q"
    and "chain_message domain (chain_bytes p) m = chain_message domain (chain_bytes q) m'"
  shows "p = q \<and> m = m'"
  using chain_bytes_inject [OF assms(1-3)] is_chain_bytes [OF assms(1,2)] is_chain_bytes [OF assms(1,3)] assms(4)
  by (auto simp: chain_message_def)

lemma verify_rows_is_chain: "verify_rows sha p rows = Inr q \<Longrightarrow> hex_sha sha \<Longrightarrow> is_chain sha p \<Longrightarrow> is_chain sha q"
  by (induction rows arbitrary: p) (auto simp: chain_digest_ok is_chain_def split: if_splits)

lemma verify_rows_snocD:
  assumes "hex_sha sha" and "verify_rows sha ZERO_CHAIN (rows @ [r]) = Inr h"
  obtains p where "verify_rows sha ZERO_CHAIN rows = Inr p" "is_chain sha p"
    "h = sha (chain_message event_domain (chain_bytes p) (utf8 (se_payload r)))"
proof -
  from assms(2) obtain p where p: "verify_rows sha ZERO_CHAIN rows = Inr p" by (auto simp: verify_rows_snoc split: sum.splits)
  then have "is_chain sha p" using assms(1) by (rule verify_rows_is_chain) (simp add: is_chain_def)
  with p assms show thesis by (intro that [of p]) (auto simp: verify_rows_snoc chain_digest_ok split: if_splits)
qed

definition row_message :: "string \<Rightarrow> event_row \<Rightarrow> string" where
  "row_message p r = chain_message event_domain (chain_bytes p) (utf8 (se_payload r))"

lemma same_head_same_rows:
  assumes "hex_sha sha"
  shows "verify_rows sha ZERO_CHAIN rows = Inr h \<Longrightarrow> verify_rows sha ZERO_CHAIN rows' = Inr h \<Longrightarrow>
    map se_payload rows = map se_payload rows' \<or>
    (\<exists>r \<in> set rows. \<exists>r' \<in> set rows'. \<exists>p q. collision sha (row_message p r) (row_message q r')) \<or>
    (\<exists>r \<in> set rows \<union> set rows'. \<exists>p. sha (row_message p r) = ZERO_CHAIN)"
proof (induction rows arbitrary: h rows' rule: rev_induct)
  case Nil
  then show ?case
  proof (cases rows' rule: rev_cases)
    case (snoc rs r)
    with Nil obtain p where "ZERO_CHAIN = sha (row_message p r)" unfolding row_message_def by (auto elim: verify_rows_snocD [OF assms])
    then show ?thesis using snoc by (metis Un_iff in_set_conv_decomp)
  qed simp
next
  case (snoc r rows)
  from snoc.prems(1) obtain p where p: "verify_rows sha ZERO_CHAIN rows = Inr p" "is_chain sha p" "h = sha (row_message p r)"
    unfolding row_message_def by (rule verify_rows_snocD [OF assms])
  show ?case
  proof (cases rows' rule: rev_cases)
    case Nil
    then have "sha (row_message p r) = ZERO_CHAIN" using snoc.prems(2) p(3) by simp
    then show ?thesis by auto
  next
    case rest: (snoc rs r')
    from snoc.prems(2) obtain q where q: "verify_rows sha ZERO_CHAIN rs = Inr q" "is_chain sha q" "h = sha (row_message q r')"
      unfolding row_message_def rest by (rule verify_rows_snocD [OF assms])
    show ?thesis
    proof (cases "row_message p r = row_message q r'")
      case True
      then have "p = q" "se_payload r = se_payload r'" using chain_message_inject [OF assms p(2) q(2) True [unfolded row_message_def]] by simp_all
      show ?thesis
        using snoc.IH [OF p(1) q(1) [folded \<open>p = q\<close>]] \<open>se_payload r = se_payload r'\<close>
        unfolding rest set_append map_append by (elim disjE) (simp, blast+)
    next
      case False
      then have "collision sha (row_message p r) (row_message q r')" using p(3) q(3) by (simp add: collision_def)
      then show ?thesis unfolding rest by auto
    qed
  qed
qed

text \<open>An edited history does not pass for the collector's: rows that verify to the head of the store's own chain
  hold the texts the store holds, each once and in the same order, or SHA-256 collides on the chain messages of a
  stored and a presented row, or maps the message of one of them to the sixty-four zeros a chain starts from.\<close>

theorem edited_history_is_detected:
  assumes "hex_sha sha" and "collector_run sha verify policies rules new_store s"
    and "verify_event_chain sha forged = Inr (last_chain (st_events s))"
  shows "map se_payload (st_events forged) = map se_payload (st_events s) \<or>
    (\<exists>r \<in> set (st_events s). \<exists>r' \<in> set (st_events forged). \<exists>p q. collision sha (row_message p r) (row_message q r')) \<or>
    (\<exists>r \<in> set (st_events s) \<union> set (st_events forged). \<exists>p. sha (row_message p r) = ZERO_CHAIN)"
proof -
  have "collector_inv sha s" using collector_run_keeps [OF assms(1) collector_inv_new assms(2)] by blast
  then have "verify_rows sha ZERO_CHAIN (st_events s) = Inr (last_chain (st_events s))" by (simp add: collector_inv_def events_ok_def)
  from same_head_same_rows [OF assms(1) this assms(3) [unfolded verify_event_chain_def]] show ?thesis by (simp only: eq_commute)
qed

subsection \<open>What a source signs is accepted\<close>

abbreviation standard_char :: "char \<Rightarrow> char" where
  "standard_char c \<equiv> (if c = CHR ''-'' then CHR ''+'' else if c = CHR ''_'' then CHR ''/'' else c)"

lemma b64_val_standard: "b64_val (standard_char c) = b64_val c"
  by (simp add: b64_val_def Let_def)

lemma standard_char_pad: "standard_char c = CHR ''='' \<longleftrightarrow> c = CHR ''=''"
  by simp

lemma strict_b64decode_standard: "strict_b64decode (map standard_char s) = strict_b64decode s"
proof (induction s rule: strict_b64decode.induct)
  case (2 c1 c2 c3 c4 rest)
  show ?case
  proof (cases "c3 = CHR ''='' \<and> c4 = CHR ''='' \<and> rest = [] \<or> b64_val c3 = None \<or> c4 = CHR ''='' \<and> rest = [] \<or> b64_val c4 = None")
    case True
    then show ?thesis
      unfolding list.map strict_b64decode.simps b64_val_standard standard_char_pad by (auto split: option.splits)
  next
    case False
    with 2 show ?thesis
      unfolding list.map strict_b64decode.simps b64_val_standard standard_char_pad by (auto split: option.splits)
  qed
qed simp_all

lemma standard_b64decode_encode: "standard_b64decode (standard_b64encode s) = Some s"
proof -
  let ?t = "b64url_encode s @ replicate ((4 - length (b64url_encode s) mod 4) mod 4) (CHR ''='')"
  have "strict_b64decode (map standard_char ?t) = Some s"
    unfolding strict_b64decode_standard using b64url_decode_encode [of s] by (simp add: b64url_decode_def)
  moreover have "CHR ''-'' \<notin> set (map standard_char ?t)" "CHR ''_'' \<notin> set (map standard_char ?t)" by auto
  ultimately show ?thesis unfolding standard_b64decode_def standard_b64encode_def Let_def by simp
qed

lemma good_event_from_itself:
  assumes "good_event e"
  shows "event_from_dict e = Inr e"
proof -
  have "map_of (sort_key fst e) = map_of e" "set (map fst (sort_key fst e)) = set (map fst e)"
    using map_of_sort_key [OF good_event_distinct [OF assms]] by simp_all
  then have "event_from_dict e = event_from_dict (sort_key fst e)" by (simp only: event_from_dict_def)
  with good_event_read_back(2) [OF assms] show ?thesis by simp
qed

text \<open>What a source signs, the registry accepts as it is: if the signatures of a source verify under its registered
  key, a valid event of the source's own kind, of a category and a provenance it is registered for, signed by its
  producer, is verified to the same event at any time between thirty seconds before and an hour after the event.\<close>

theorem signed_event_is_verified:
  assumes "good_event e" and "row_of sp_source_id source policies = Some policy" and "\<And>m. verify (sp_public_key policy) (sign m) m"
    and "map_of e ''source_id'' = Some (JStr source)" and "map_of e ''source_kind'' = Some (JStr (sp_source_kind policy))"
    and "ev_str ''category'' e \<in> set (sp_allowed_categories policy)"
    and "ev_str ''provenance_classification'' e \<in> set (sp_allowed_provenance policy)"
    and "now - MAX_STALE_AGE \<le> ev_int ''event_time'' e" and "ev_int ''event_time'' e \<le> now + MAX_FUTURE_SKEW"
  shows "registry_verify sha verify policies (producer_sign sha sign source e) now = Inr e"
  using assms(2-9) good_event_from_itself [OF assms(1)]
  by (simp add: registry_verify_def producer_sign_def Let_def standard_b64decode_encode envelope_material_def
    ev_str_def [of "''source_id''"] ev_str_def [of "''source_kind''"])

end
