(* ===== verification/Detection_Alerts.thy ===== *)
theory Detection_Alerts
  imports Security_Events
begin

section \<open>Detection: the alerts\<close>

text \<open>
  The alerts of \<open>aegis/detection/security_analytics.py\<close>: their hash chain, which two alerts for one event break, the rules
  that leave one for every match, the check for control characters, and a concrete collector for the witnesses.
\<close>

subsection \<open>The chain of alerts\<close>

lemma sorted_key_id: "sorted (map f xs) \<Longrightarrow> sort_key f xs = xs"
  by (rule properties_for_sort_key) simp_all

lemma last_alert_increasing:
  assumes "sorted (map al_detection_sequence alerts)" and "distinct (map al_detection_sequence alerts)" and "alerts \<noteq> []"
  shows "last_alert_chain alerts = al_chain_hash (last alerts)"
proof -
  let ?f = "\<lambda>a. - al_detection_sequence a"
  have inj: "inj_on ?f (set alerts)" using assms(2) by (auto simp: distinct_map inj_on_def)
  have "sort_key ?f alerts = rev alerts"
  proof (rule map_sorted_distinct_set_unique [where f = ?f])
    show "inj_on ?f (set (sort_key ?f alerts) \<union> set (rev alerts))" using inj by simp
    show "sorted (map ?f (rev alerts))" using assms(1) by (auto simp: sorted_iff_nth_mono rev_nth)
    have "distinct alerts" using assms(2) by (simp add: distinct_map)
    then show "distinct (map ?f (sort_key ?f alerts))" "distinct (map ?f (rev alerts))" using inj by (simp_all add: distinct_map)
  qed simp_all
  moreover from assms(3) obtain b bs where "rev alerts = b # bs" by (cases "rev alerts") auto
  moreover from this have "last alerts = b" by (metis hd_rev list.sel(1))
  ultimately show ?thesis by (simp add: last_alert_chain_def)
qed

text \<open>With one tie at the end the row read is the one before the last.\<close>

lemma last_alert_tie:
  assumes "sorted (map al_detection_sequence (alerts @ [a]))" and "distinct (map al_detection_sequence (alerts @ [a]))"
    and "al_detection_sequence b = al_detection_sequence a"
  shows "last_alert_chain (alerts @ [a, b]) = al_chain_hash a"
proof -
  let ?f = "\<lambda>a. - al_detection_sequence a"
  have "sort_key ?f (alerts @ [a, b]) = a # b # sort_key ?f alerts"
  proof (rule properties_for_sort_key)
    show "mset (a # b # sort_key ?f alerts) = mset (alerts @ [a, b])" by simp
    show "sorted (map ?f (a # b # sort_key ?f alerts))" using assms(1,3) by (auto simp: sorted_append)
    show "filter (\<lambda>x. ?f c = ?f x) (a # b # sort_key ?f alerts) = filter (\<lambda>x. ?f c = ?f x) (alerts @ [a, b])"
      if "c \<in> set (a # b # sort_key ?f alerts)" for c
    proof -
      have none: "filter (\<lambda>x. ?f a = ?f x) alerts = []" using assms(2) by (auto simp: filter_empty_conv)
      have "filter (\<lambda>y. ?f y = ?f c) (sort_key ?f alerts) = filter (\<lambda>y. ?f y = ?f c) alerts"
        using sort_key_stable [of ?f "?f c" alerts] by simp
      then have stable: "filter (\<lambda>x. ?f c = ?f x) (sort_key ?f alerts) = filter (\<lambda>x. ?f c = ?f x) alerts"
        unfolding eq_commute [of "?f c"] .
      show ?thesis
      proof (cases "?f c = ?f a")
        case True
        with none assms(3) stable show ?thesis by simp
      next
        case False
        with assms(3) stable show ?thesis by simp
      qed
    qed
  qed
  then show ?thesis by (simp add: last_alert_chain_def)
qed

definition prior_chain :: "string \<Rightarrow> alert_row list \<Rightarrow> nat \<Rightarrow> string" where
  "prior_chain p alerts k = (case k of 0 \<Rightarrow> p | Suc j \<Rightarrow> al_chain_hash (alerts ! j))"

lemma verify_alerts_spec:
  assumes "hex_sha sha"
  shows "is_chain sha p \<Longrightarrow> \<forall>a \<in> set alerts. \<exists>m. al_chain_hash a = sha m \<Longrightarrow>
    verify_alerts sha p alerts =
      (if \<forall>k < length alerts. al_chain_hash (alerts ! k) = sha (alert_message (prior_chain p alerts k) (alerts ! k))
       then Inr (if alerts = [] then p else al_chain_hash (last alerts)) else Inl (DetectionDenied ''ALERT_CHAIN_TAMPERED''))"
proof (induction alerts arbitrary: p)
  case (Cons a alerts)
  have "is_chain sha (al_chain_hash a)" using Cons.prems(2) by (auto simp: is_chain_def)
  note IH = Cons.IH [OF this] Cons.prems(2)
  have prior: "prior_chain p (a # alerts) (Suc k) = prior_chain (al_chain_hash a) alerts k" for k
    by (cases k) (simp_all add: prior_chain_def)
  have all: "(\<forall>k < length (a # alerts). al_chain_hash ((a # alerts) ! k) = sha (alert_message (prior_chain p (a # alerts) k) ((a # alerts) ! k))) \<longleftrightarrow>
    al_chain_hash a = sha (alert_message p a) \<and>
    (\<forall>k < length alerts. al_chain_hash (alerts ! k) = sha (alert_message (prior_chain (al_chain_hash a) alerts k) (alerts ! k)))"
    unfolding length_Cons All_less_Suc2 nth_Cons_0 nth_Cons_Suc prior by (simp add: prior_chain_def)
  have digest: "chain_digest sha alert_domain p (alert_material a) = Inr (sha (alert_message p a))"
    using chain_digest_ok [OF assms Cons.prems(1)] by (simp add: alert_message_def)
  show ?case unfolding all using IH digest by (cases "al_chain_hash a = sha (alert_message p a)") simp_all
qed simp

lemma alerts_ok_hash: "alerts_ok sha k alerts \<Longrightarrow> \<forall>a \<in> set alerts. \<exists>m. al_chain_hash a = sha m"
  by (metis alerts_ok_def alert_link_def in_set_conv_nth)

lemma alert_chain_spec:
  assumes "hex_sha sha" and "collector_inv sha s"
  shows "verify_alert_chain sha s =
      (if \<forall>k < length (st_alerts s). al_chain_hash (st_alerts s ! k) = sha (alert_message (prior_chain ZERO_CHAIN (st_alerts s) k) (st_alerts s ! k))
       then Inr (if st_alerts s = [] then ZERO_CHAIN else al_chain_hash (last (st_alerts s))) else Inl (DetectionDenied ''ALERT_CHAIN_TAMPERED''))"
proof -
  have ok: "alerts_ok sha (int (length (st_events s))) (st_alerts s)" using assms(2) by (simp add: collector_inv_def)
  then have "sort_key al_detection_sequence (st_alerts s) = st_alerts s" by (intro sorted_key_id) (simp add: alerts_ok_def)
  then show ?thesis using verify_alerts_spec [OF assms(1) _ alerts_ok_hash [OF ok], of ZERO_CHAIN]
    by (simp add: verify_alert_chain_def is_chain_def)
qed

lemma prior_of_increasing:
  assumes "sorted (map al_detection_sequence alerts)" and "distinct (map al_detection_sequence (take k alerts))" and "k \<le> length alerts"
  shows "last_alert_chain (take k alerts) = prior_chain ZERO_CHAIN alerts k"
proof (cases k)
  case 0
  then show ?thesis by (simp add: last_alert_chain_def prior_chain_def)
next
  case (Suc j)
  have "sorted (map al_detection_sequence (take k alerts))" using assms(1) by (simp add: take_map [symmetric] sorted_wrt_take)
  moreover have "take k alerts \<noteq> []" "last (take k alerts) = alerts ! j" using Suc assms(3) by (auto simp: take_Suc_conv_app_nth)
  ultimately show ?thesis using last_alert_increasing [OF _ assms(2)] Suc by (simp add: prior_chain_def)
qed

text \<open>The chain of alerts verifies as long as no event has raised two: if the alerts of a reachable store have different
  detection sequences, the verification returns the hash of the last alert.\<close>

theorem single_alerts_are_chained:
  assumes "hex_sha sha" and "collector_run sha verify policies rules new_store s" and "distinct (map al_detection_sequence (st_alerts s))"
  shows "verify_alert_chain sha s = Inr (if st_alerts s = [] then ZERO_CHAIN else al_chain_hash (last (st_alerts s)))"
proof -
  have inv: "collector_inv sha s" using collector_run_keeps [OF assms(1) collector_inv_new assms(2)] by blast
  then have ok: "alerts_ok sha (int (length (st_events s))) (st_alerts s)" by (simp add: collector_inv_def)
  have "al_chain_hash (st_alerts s ! k) = sha (alert_message (prior_chain ZERO_CHAIN (st_alerts s) k) (st_alerts s ! k))"
    if "k < length (st_alerts s)" for k
  proof -
    have "distinct (map al_detection_sequence (take k (st_alerts s)))" using assms(3) by (simp add: take_map [symmetric])
    with ok that prior_of_increasing [of "st_alerts s" k] show ?thesis by (simp add: alerts_ok_def alert_link_def)
  qed
  then show ?thesis using alert_chain_spec [OF assms(1) inv] by simp
qed

lemma first_repetition:
  fixes xs :: "'a::linorder list"
  assumes "sorted xs" and "\<not> distinct xs"
  obtains k where "Suc k < length xs" "xs ! k = xs ! Suc k" "distinct (take (Suc k) xs)"
proof -
  have "\<exists>k. Suc k < length xs \<and> xs ! k = xs ! Suc k \<and> distinct (take (Suc k) xs)" using assms
  proof (induction xs rule: rev_induct)
    case (snoc x xs)
    show ?case
    proof (cases "distinct xs")
      case True
      with snoc.prems have x: "x \<in> set xs" by simp
      then have xs: "xs \<noteq> []" by auto
      moreover have "x \<le> last xs" using x snoc.prems(1) xs by (auto simp: in_set_conv_nth last_conv_nth sorted_append intro: sorted_nth_mono)
      moreover have "last xs \<le> x" using snoc.prems(1) xs by (simp add: sorted_append)
      ultimately have "xs \<noteq> []" "last xs = x" by simp_all
      then show ?thesis using True by (intro exI [of _ "length xs - 1"]) (auto simp: nth_append last_conv_nth)
    next
      case False
      with snoc obtain k where "Suc k < length xs" "xs ! k = xs ! Suc k" "distinct (take (Suc k) xs)" by (auto simp: sorted_append)
      then show ?thesis by (intro exI [of _ k]) (simp add: nth_append)
    qed
  qed simp
  with that show thesis by blast
qed


lemma alert_material_id:
  assumes "alert_material a = alert_material b"
  shows "al_alert_id a = al_alert_id b"
proof -
  let ?fields = "\<lambda>a. [(''alert_id'', JStr (al_alert_id a)), (''rule_id'', JStr (al_rule_id a)), (''severity'', JStr (al_severity a)),
      (''first'', JInt (al_first_time a)), (''last'', JInt (al_last_time a)), (''event_refs'', JList (map JStr (al_event_refs a))),
      (''sequence'', JInt (al_detection_sequence a))]"
  have wf: "wf_json (JObj (?fields a))" for a by (simp add: list_all_iff)
  have "json_dumps False (JObj (?fields a)) = json_dumps False (JObj (?fields b))" using assms by (simp only: alert_material_def utf8_inject)
  from json_dumps_field [OF this wf wf, of "''alert_id''"] show ?thesis by simp
qed

lemma broken_link:
  assumes "hex_sha sha" and "alerts_ok sha n alerts" and "Suc (Suc k) < length alerts"
    and "al_detection_sequence (alerts ! k) = al_detection_sequence (alerts ! Suc k)" and "distinct (map al_detection_sequence (take (Suc k) alerts))"
    and "al_chain_hash (alerts ! Suc (Suc k)) = sha (alert_message (al_chain_hash (alerts ! Suc k)) (alerts ! Suc (Suc k)))"
  shows "\<exists>a \<in> set alerts. \<exists>b \<in> set alerts. \<exists>p q. collision sha (alert_message p a) (alert_message q b)"
proof -
  let ?h = "\<lambda>k. al_chain_hash (alerts ! k)" and ?in = "\<lambda>k. alerts ! k \<in> set alerts"
  have ins: "?in k" "?in (Suc k)" "?in (Suc (Suc k))" using assms(3) by simp_all
  have sorted: "sorted (map al_detection_sequence alerts)" using assms(2) by (simp add: alerts_ok_def)
  have links: "alert_link sha alerts j" if "j < length alerts" for j
    using assms(2) that by (simp_all add: alerts_ok_def)
  have is_chain: "is_chain sha (?h j)" if "j < length alerts" for j using links [OF that] by (auto simp: alert_link_def is_chain_def)
  then have chain: "is_chain sha (?h k)" "is_chain sha (?h (Suc k))" using assms(3) by simp_all
  have part: "take (Suc k) alerts = take k alerts @ [alerts ! k]" "take (Suc (Suc k)) alerts = take k alerts @ [alerts ! k, alerts ! Suc k]"
    using assms(3) by (simp_all add: take_Suc_conv_app_nth)
  have "sorted (map al_detection_sequence (take (Suc k) alerts))" using sorted assms(3) by (simp add: take_map [symmetric] sorted_wrt_take)
  then have order: "sorted (map al_detection_sequence (take k alerts @ [alerts ! k]))" "distinct (map al_detection_sequence (take k alerts @ [alerts ! k]))"
    using assms(5) by (simp_all only: part)
  have tie: "last_alert_chain (take (Suc (Suc k)) alerts) = ?h k" "last_alert_chain (take (Suc k) alerts) = ?h k"
    using last_alert_tie [OF order assms(4) [symmetric]] last_alert_increasing [OF order] by (simp_all only: part last_snoc) simp
  have hashes: "?h (Suc (Suc k)) = sha (alert_message (?h k) (alerts ! Suc (Suc k)))" "?h (Suc k) = sha (alert_message (?h k) (alerts ! Suc k))"
    "?h k = sha (alert_message (last_alert_chain (take k alerts)) (alerts ! k))"
    using links [of "Suc (Suc k)"] links [of "Suc k"] links [of k] assms(3) tie by (simp_all add: alert_link_def)
  show ?thesis
  proof (cases "?h k = ?h (Suc k)")
    case True
    have "al_alert_id (alerts ! k) \<noteq> al_alert_id (alerts ! Suc k)"
      using assms(2,3) by (simp add: alerts_ok_def distinct_conv_nth)
    moreover have "is_chain sha (last_alert_chain (take k alerts))"
    proof -
      have "distinct (map al_detection_sequence (take k alerts))" using order(2) by simp
      then have "last_alert_chain (take k alerts) = prior_chain ZERO_CHAIN alerts k" using prior_of_increasing [OF sorted] assms(3) by simp
      moreover have "is_chain sha (prior_chain ZERO_CHAIN alerts k)"
        using is_chain [of "k - 1"] assms(3) by (cases k) (simp_all add: prior_chain_def is_chain_def)
      ultimately show ?thesis by simp
    qed
    ultimately have "alert_message (last_alert_chain (take k alerts)) (alerts ! k) \<noteq> alert_message (?h k) (alerts ! Suc k)"
      using chain_message_inject [OF assms(1) _ chain(1)] alert_material_id unfolding alert_message_def by blast
    then have "collision sha (alert_message (last_alert_chain (take k alerts)) (alerts ! k)) (alert_message (?h k) (alerts ! Suc k))"
      using hashes(2,3) True unfolding collision_def by metis
    then show ?thesis using ins by blast
  next
    case False
    then have "alert_message (?h k) (alerts ! Suc (Suc k)) \<noteq> alert_message (?h (Suc k)) (alerts ! Suc (Suc k))"
      using chain_message_inject [OF assms(1) chain] by (auto simp: alert_message_def)
    then have "collision sha (alert_message (?h k) (alerts ! Suc (Suc k))) (alert_message (?h (Suc k)) (alerts ! Suc (Suc k)))"
      using hashes(1) assms(6) by (simp add: collision_def)
    then show ?thesis using ins by blast
  qed
qed

text \<open>\<^bold>\<open>C31\<close>. Two alerts for one event break the chain of alerts: once a store holds two alerts with the same detection
  sequence and another alert follows, the verification of the alerts the collector itself has written reports
  tampering, at every later time, or SHA-256 collides on the chain messages of two of the alerts.\<close>

theorem two_alerts_for_one_event_break_the_chain:
  assumes "hex_sha sha" and "collector_run sha verify policies rules new_store s" and "collector_run sha verify policies rules s t"
    and "\<not> distinct (map al_detection_sequence (st_alerts s))" and "length (st_alerts s) < length (st_alerts t)"
  shows "verify_alert_chain sha t = Inl (DetectionDenied ''ALERT_CHAIN_TAMPERED'') \<or>
    (\<exists>a \<in> set (st_alerts t). \<exists>b \<in> set (st_alerts t). \<exists>p q. collision sha (alert_message p a) (alert_message q b))"
proof -
  have s: "collector_inv sha s" using collector_run_keeps [OF assms(1) collector_inv_new assms(2)] by blast
  from collector_run_keeps [OF assms(1) s assms(3)] have t: "collector_inv sha t" and "extends s t" by simp_all
  then obtain new where new: "st_alerts t = st_alerts s @ new" by (auto simp: extends_def)
  have "sorted (map al_detection_sequence (st_alerts s))" using s by (simp add: collector_inv_def alerts_ok_def)
  from first_repetition [OF this assms(4)] obtain k where k: "Suc k < length (st_alerts s)"
    "al_detection_sequence (st_alerts s ! k) = al_detection_sequence (st_alerts s ! Suc k)" "distinct (map al_detection_sequence (take (Suc k) (st_alerts s)))"
    by (auto simp: take_map)
  have there: "Suc (Suc k) < length (st_alerts t)" "al_detection_sequence (st_alerts t ! k) = al_detection_sequence (st_alerts t ! Suc k)"
    "distinct (map al_detection_sequence (take (Suc k) (st_alerts t)))"
    using k assms(5) by (cases new; simp add: new nth_append)+
  have ok: "alerts_ok sha (int (length (st_events t))) (st_alerts t)" using t by (simp add: collector_inv_def)
  show ?thesis
  proof (cases "verify_alert_chain sha t = Inl (DetectionDenied ''ALERT_CHAIN_TAMPERED'')")
    case False
    then have "al_chain_hash (st_alerts t ! Suc (Suc k)) = sha (alert_message (prior_chain ZERO_CHAIN (st_alerts t) (Suc (Suc k))) (st_alerts t ! Suc (Suc k)))"
      using alert_chain_spec [OF assms(1) t] there(1) by (simp split: if_splits)
    then show ?thesis using broken_link [OF assms(1) ok there] by (simp add: prior_chain_def)
  qed simp
qed

subsection \<open>Every match leaves an alert\<close>

lemma known_alert_mono: "known_alert alerts a \<Longrightarrow> known_alert (alerts @ new) a"
  by (auto simp: known_alert_def)

lemma known_alert_self: "known_alert (alerts @ [chained_alert sha alerts a]) a"
  by (auto simp: known_alert_def)

lemma persist_alert_runs:
  assumes "hex_sha sha" and "collector_inv sha s" and "sequence = int (length (st_events s))"
    and "set (ru_group_by rule) \<subseteq> set EVENT_FIELDS" and "ru_window_seconds rule \<noteq> 0"
  obtains created t where "persist_alert sha rule events sequence s = (Inr created, t)" "collector_inv sha t" "st_events t = st_events s"
    "known_alert (st_alerts t) (new_alert sha rule events sequence)"
proof -
  have "alerts_ok sha (int (length (st_events s))) (st_alerts s)" using assms(2) by (simp add: collector_inv_def)
  note digest = chain_digest_ok [OF assms(1) alerts_ok_chain [OF this]]
  obtain res t where run: "persist_alert sha rule events sequence s = (res, t)" by force
  have "\<not> isl (fst (persist_alert sha rule events sequence s))" using assms(4,5) digest by (simp add: persist_alert_def Let_def)
  then obtain created where "res = Inr created" using run by (cases res) simp_all
  with run persist_alert_cases [OF assms(1-3) run] known_alert_self show thesis by (metis sum.distinct(1) that)
qed

lemma evaluate_rules_alerts:
  assumes "hex_sha sha" and "list_all (\<lambda>rule. set (ru_group_by rule) \<subseteq> set EVENT_FIELDS \<and> ru_window_seconds rule \<noteq> 0) rules"
    and "collector_inv sha s" and "sequence = int (length (st_events s))"
  shows "\<exists>ids t. evaluate_rules sha e sequence ordered rules s = (Inr ids, t) \<and>
    (\<forall>rule \<in> set rules. matched_events rule e ordered \<noteq> [] \<longrightarrow>
       known_alert (st_alerts t) (new_alert sha rule (matched_events rule e ordered) sequence))"
  using assms(2-4)
proof (induction rules arbitrary: s)
  case (Cons rule rules)
  show ?case
  proof (cases "matched_events rule e ordered = []")
    case True
    from Cons.IH [OF _ Cons.prems(2,3)] Cons.prems(1) obtain ids t where "evaluate_rules sha e sequence ordered rules s = (Inr ids, t)"
      "\<forall>rule \<in> set rules. matched_events rule e ordered \<noteq> [] \<longrightarrow>
        known_alert (st_alerts t) (new_alert sha rule (matched_events rule e ordered) sequence)" by auto
    then show ?thesis using True Cons.prems(1) by (intro exI [of _ ids] exI [of _ t]) simp
  next
    case False
    from Cons.prems(1) have rule: "set (ru_group_by rule) \<subseteq> set EVENT_FIELDS" "ru_window_seconds rule \<noteq> 0" by simp_all
    from persist_alert_runs [OF assms(1) Cons.prems(2,3) rule] obtain created u where u:
      "persist_alert sha rule (matched_events rule e ordered) sequence s = (Inr created, u)" "collector_inv sha u" "st_events u = st_events s"
      "known_alert (st_alerts u) (new_alert sha rule (matched_events rule e ordered) sequence)" .
    from Cons.IH [OF _ u(2)] Cons.prems(1,3) u(3) obtain ids t where t: "evaluate_rules sha e sequence ordered rules u = (Inr ids, t)"
      "\<forall>rule \<in> set rules. matched_events rule e ordered \<noteq> [] \<longrightarrow>
        known_alert (st_alerts t) (new_alert sha rule (matched_events rule e ordered) sequence)" by auto
    have "extends u t" using evaluate_rules_keeps [OF assms(1) u(2) _ t(1)] u(3) Cons.prems(3) by simp
    then have "known_alert (st_alerts t) (new_alert sha rule (matched_events rule e ordered) sequence)"
      using u(4) known_alert_mono by (auto simp: extends_def)
    moreover have "evaluate_rules sha e sequence ordered (rule # rules) s = (Inr (if created then ru_rule_id rule # ids else ids), t)"
      using rule(1) False u(1) t(1) by simp
    ultimately show ?thesis using t(2) by (intro exI [of _ "if created then ru_rule_id rule # ids else ids"] exI [of _ t]) simp
  qed
qed simp

lemma check_rules_None:
  assumes "check_rules rules = None"
  shows "list_all (\<lambda>rule. check_rule rule = None) rules"
  using assms first_error_None [of "map check_rule rules"]
  by (cases "first_error (map check_rule rules)") (auto simp: check_rules_def list_all_iff split: if_splits)

lemma row_of_event_unique: "row_of_event r e \<Longrightarrow> row_of_event r e' \<Longrightarrow> e = e'"
  unfolding row_of_event_def using good_event_read_back by (metis json.inject(5) option.inject sum.inject(2))

text \<open>\<^bold>\<open>C30\<close>. An accepted event is always evaluated, and every match leaves an alert: with rules that pass their check and group
  by fields of an event, an authentic event with a new id is stored and accepted whatever the store holds; the rules
  see it among the stored events, and for every rule that matches the store has an alert with the alert id or the
  deduplication key of the match.\<close>

theorem every_match_leaves_an_alert:
  assumes "hex_sha sha" and "check_rules rules = None" and "list_all (\<lambda>rule. set (ru_group_by rule) \<subseteq> set EVENT_FIELDS) rules"
    and "collector_run sha verify policies rules new_store s" and "wf_json (JObj (en_body n))"
    and "registry_verify sha verify policies n now = Inr e" and "en_event_id n \<notin> se_event_id ` set (st_events s)"
  shows "\<exists>ids t ordered. ingest sha verify policies rules n now s = (Inr (INGEST_ACCEPTED, ids), t) \<and>
    store_events t = Inr ordered \<and> e \<in> set ordered \<and>
    (\<forall>rule \<in> set rules. matched_events rule e ordered \<noteq> [] \<longrightarrow>
       known_alert (st_alerts t) (new_alert sha rule (matched_events rule e ordered) (int (length (st_events s)) + 1)))"
proof -
  have inv: "collector_inv sha s" using collector_run_keeps [OF assms(1) collector_inv_new assms(4)] by blast
  have id: "ev_str ''event_id'' e = en_event_id n" by (rule registry_verifyD [OF assms(6,5)])
  obtain res t where run: "ingest sha verify policies rules n now s = (res, t)" by force
  show ?thesis
    using assms(1) inv assms(5) run
  proof (cases rule: ingest_cases)
    case (fresh x u ordered r)
    have [simp]: "x = e" using fresh(1) assms(6) by simp
    have "list_all (\<lambda>rule. set (ru_group_by rule) \<subseteq> set EVENT_FIELDS \<and> ru_window_seconds rule \<noteq> 0) rules"
      using assms(3) check_rules_None [OF assms(2)] by (auto simp: list_all_iff check_rule_def split: if_splits)
    from evaluate_rules_alerts [OF assms(1) this fresh(6), of "int (length (st_events s)) + 1" e ordered] fresh(4,8) obtain ids where
      ids: "r = Inr ids" "\<forall>rule \<in> set rules. matched_events rule e ordered \<noteq> [] \<longrightarrow>
        known_alert (st_alerts t) (new_alert sha rule (matched_events rule e ordered) (int (length (st_events s)) + 1))" by auto
    have same: "st_events t = st_events u" using evaluate_rules_keeps [OF assms(1) fresh(6) _ fresh(8)] fresh(4) by simp
    then have all: "store_events t = Inr ordered" using fresh(7) by (simp add: store_events_def)
    from store_events_ok [OF fresh(6)] fresh(7) have rows: "list_all2 row_of_event (sort_key se_event_time (st_events u)) ordered" by auto
    have "appended sha (st_events s) e \<in> set (sort_key se_event_time (st_events u))" using fresh(4) by simp
    then obtain i where i: "i < length (sort_key se_event_time (st_events u))" "sort_key se_event_time (st_events u) ! i = appended sha (st_events s) e"
      unfolding in_set_conv_nth by blast
    have "row_of_event (appended sha (st_events s) e) (ordered ! i)" using list_all2_nthD [OF rows i(1)] unfolding i(2) .
    moreover have "ordered ! i \<in> set ordered" using i(1) list_all2_lengthD [OF rows] by (intro nth_mem) (simp only:)
    moreover have "row_of_event (appended sha (st_events s) e) e" using fresh(2) by (simp add: row_of_event_def)
    ultimately have "e \<in> set ordered" using row_of_event_unique by blast
    moreover have "ingest sha verify policies rules n now s = (Inr (INGEST_ACCEPTED, ids), t)" using run fresh(9) ids(1) by simp
    ultimately show ?thesis using ids(2) all by blast
  next
    case (denied x)
    then show ?thesis using assms(6) by simp
  next
    case (again x)
    then have "x = e" using assms(6) by simp
    then have "en_event_id n \<in> se_event_id ` set (st_events s)" using again(4) id by simp
    with assms(7) show ?thesis by blast
  qed
qed

subsection \<open>Control characters\<close>

text \<open>Text whose sensitive parts can be excluded at sight: no white space and no \<open>j\<close>, which starts no token.\<close>

definition plain_char :: "char \<Rightarrow> bool" where
  "plain_char c = (let n = of_char c :: nat in 33 \<le> n \<and> n < 127 \<and> n \<noteq> 74 \<and> n \<noteq> 106)"

definition plain_str :: "string \<Rightarrow> bool" where
  "plain_str s = list_all (\<lambda>c. c = CHR 0x0A \<or> plain_char c) s"

fun plain_json :: "json \<Rightarrow> bool" where
  "plain_json (JStr s) = plain_str s"
| "plain_json (JList xs) = list_all plain_json xs"
| "plain_json (JObj kvs) = list_all (\<lambda>p. plain_str (fst p) \<and> plain_json (snd p)) kvs"
| "plain_json _ = True"

fun json_bound :: "json \<Rightarrow> nat" where
  "json_bound (JStr s) = 2 + 2 * length s"
| "json_bound (JObj kvs) = 2 + sum_list (map (\<lambda>p. 4 + 2 * length (fst p) + json_bound (snd p)) kvs)"
| "json_bound (JList xs) = 2 + sum_list (map (\<lambda>x. 1 + json_bound x) xs)"
| "json_bound (JInt i) = length (str_int i)"
| "json_bound _ = 5"

lemma plain_sort_keys: "plain_json (sort_keys j) = plain_json j"
  by (induction j) (auto simp: list_all_iff)

lemma bound_sort_keys: "json_bound (sort_keys j) = json_bound j"
proof (induction j)
  case (JList xs)
  have "map (\<lambda>x. 1 + json_bound x) (map sort_keys xs) = map (\<lambda>x. 1 + json_bound x) xs" using JList by simp
  then show ?case by (simp only: sort_keys.simps json_bound.simps)
next
  case (JObj kvs)
  let ?f = "\<lambda>p :: string \<times> json. 4 + 2 * length (fst p) + json_bound (snd p)"
  have "json_bound (sort_keys (snd p)) = json_bound (snd p)" if "p \<in> set kvs" for p using JObj that by (cases p) auto
  then have "map ?f (map (map_prod id sort_keys) kvs) = map ?f kvs" unfolding map_map comp_def by (intro map_cong) simp_all
  moreover have "sum_list (map ?f (sort_key fst xs)) = sum_list (map ?f xs)" for xs :: "(string \<times> json) list"
    by (simp only: sum_mset_sum_list [symmetric] mset_map mset_sort)
  ultimately show ?case by (simp only: sort_keys.simps json_bound.simps)
qed simp_all

definition plain_text :: "string \<Rightarrow> bool" where
  "plain_text s \<longleftrightarrow> (\<forall>c \<in> set s. plain_char c)"

lemma plain_text_simps [simp]: "plain_text []" "plain_text (s @ t) \<longleftrightarrow> plain_text s \<and> plain_text t"
  "plain_text (c # s) \<longleftrightarrow> plain_char c \<and> plain_text s"
  by (auto simp: plain_text_def)

lemma plain_chars [simp]: "plain_char (CHR 0x22)" "plain_char (CHR ''{'')" "plain_char (CHR ''}'')" "plain_char (CHR ''['')" "plain_char (CHR '']'')"
  "plain_char (CHR '','')" "plain_char (CHR '':'')" "plain_char (CHR 0x5C)" "plain_char (CHR ''n'')"
  by code_simp+

lemma escape_plain:
  assumes "c = CHR 0x0A \<or> plain_char c"
  shows "plain_text (escape_char False c) \<and> length (escape_char False c) \<le> 2"
  using assms by (auto simp: escape_char_def plain_char_def Let_def)

lemma quote_plain:
  assumes "plain_str s"
  shows "plain_text (quote_str False s) \<and> length (quote_str False s) \<le> 2 + 2 * length s"
proof -
  have "plain_text (concat (map (escape_char False) s)) \<and> length (concat (map (escape_char False) s)) \<le> 2 * length s"
    using assms
  proof (induction s)
    case (Cons c s)
    then show ?case using escape_plain [of c] by (auto simp: plain_str_def)
  qed simp
  then show ?thesis by (simp add: quote_str_def)
qed

lemma plain_join_with: "plain_char c \<Longrightarrow> \<forall>x \<in> set xs. plain_text x \<Longrightarrow> plain_text (join_with c xs)"
  by (induction c xs rule: join_with.induct) auto

lemma length_join_with: "length (join_with c xs) \<le> sum_list (map (\<lambda>x. 1 + length x) xs)"
  by (induction c xs rule: join_with.induct) auto

lemma plain_digits: "plain_text (str_int i)"
proof -
  have "plain_char c" if "is_digit c" for c using that by (auto simp: is_digit_def plain_char_def Let_def)
  moreover have "plain_char (CHR ''-'')" by code_simp
  ultimately show ?thesis using digits_are_digits by (auto simp: str_int_def plain_text_def list_all_iff)
qed

lemma plain_json_text: "plain_json j \<Longrightarrow> plain_text (json_text False j) \<and> length (json_text False j) \<le> json_bound j"
proof (induction j)
  case (JList xs)
  have "sum_list (map (\<lambda>x. 1 + length x) (map (json_text False) xs)) \<le> sum_list (map (\<lambda>x. 1 + json_bound x) xs)"
    unfolding map_map comp_def using JList by (intro sum_list_mono) (auto simp: list_all_iff)
  then show ?case using JList length_join_with [of "CHR '',''" "map (json_text False) xs"]
    by (auto simp: list_all_iff intro!: plain_join_with)
next
  case (JObj kvs)
  let ?items = "map (item_text False) (map (map_prod id (json_text False)) kvs)"
  have item: "plain_text (item_text False (map_prod id (json_text False) p)) \<and>
      length (item_text False (map_prod id (json_text False) p)) \<le> 3 + 2 * length (fst p) + json_bound (snd p)" if "p \<in> set kvs" for p
  proof -
    obtain k v where kv: "p = (k, v)" by force
    then have "plain_str k" "plain_json v" using that JObj.prems by (auto simp: list_all_iff)
    with JObj.IH [OF that, of v] quote_plain [of k] show ?thesis by (simp add: kv item_text_def)
  qed
  then have "sum_list (map (\<lambda>x. 1 + length x) ?items) \<le> sum_list (map (\<lambda>p. 4 + 2 * length (fst p) + json_bound (snd p)) kvs)"
    unfolding map_map comp_def by (intro sum_list_mono) fastforce
  with item length_join_with [of "CHR '',''" ?items] show ?case by (auto intro!: plain_join_with)
qed (use quote_plain plain_digits in \<open>auto simp: plain_char_def\<close>)

lemma casefold_plain:
  assumes "plain_char c"
  shows "casefold [c] = [d] \<Longrightarrow> d \<noteq> CHR '' '' \<and> d \<noteq> CHR ''j'' \<and> \<not> is_py_space d"
proof -
  assume d: "casefold [c] = [d]"
  have "(of_char d :: nat) < 127 \<and> 33 \<le> (of_char d :: nat) \<and> (of_char d :: nat) \<noteq> 106"
    using assms d by (auto simp: casefold_def plain_char_def Let_def split: if_splits)
  then show ?thesis by (auto simp: is_py_space_def Let_def)
qed

lemma re_search_suffix: "re_search p s \<Longrightarrow> \<exists>u v. s = u @ v \<and> p v"
proof (induction s)
  case (Cons c s)
  then show ?case by (metis append.left_neutral append_Cons re_search.simps(2))
qed simp

lemma afterD: "after p s = Some r \<Longrightarrow> s = p @ r"
  unfolding after_def by (metis append_take_drop_id option.inject option.distinct(1))

lemma private_key_space: "private_key_at v \<Longrightarrow> CHR '' '' \<in> set v"
  by (auto simp: private_key_at_def dest!: afterD)

lemma bearer_header_end: "bearer_header_at v \<Longrightarrow> (\<exists>d \<in> set v. is_py_space d) \<or> v \<noteq> [] \<and> last v = CHR ''r''"
proof -
  assume "bearer_header_at v"
  then obtain a b r where r: "after ''authorization'' v = Some a" "after '':'' (dropWhile is_py_space a) = Some b"
    "after ''bearer'' (dropWhile is_py_space b) = Some r" "r = [] \<or> is_py_space (hd r)"
    by (auto simp: bearer_header_at_def split: option.splits bind_splits)
  have v: "v = ''authorization'' @ a" "dropWhile is_py_space a = '':'' @ b" "dropWhile is_py_space b = ''bearer'' @ r" using r(1-3) by (auto dest: afterD)
  then have "v = (''authorization'' @ takeWhile is_py_space a @ '':'' @ takeWhile is_py_space b) @ ''bearer'' @ r"
    by (metis append.assoc takeWhile_dropWhile_id)
  then show ?thesis using r(4) by (cases r) auto
qed

lemma bearer_token_space: "bearer_token_at v \<Longrightarrow> \<exists>d \<in> set v. is_py_space d"
  by (auto simp: bearer_token_at_def dest!: afterD split: option.splits)

lemma jwt_j: "jwt_at k v \<Longrightarrow> CHR ''j'' \<in> set v"
  by (cases "after ''eyj'' v") (auto simp: jwt_at_def dest: afterD)

lemma plain_not_sensitive:
  assumes "plain_text s" and "s \<noteq> []" and "last s = CHR ''}''"
  shows "\<not> sensitive_material s"
proof
  let ?s = "casefold s"
  have chars: "d \<noteq> CHR '' '' \<and> d \<noteq> CHR ''j'' \<and> \<not> is_py_space d" if "d \<in> set ?s" for d
  proof -
    from that obtain c where c: "c \<in> set s" "[d] = casefold [c]" by (auto simp: casefold_def)
    with assms(1) have "plain_char c" by (simp add: plain_text_def)
    from casefold_plain [OF this] c(2) show ?thesis by simp
  qed
  have last: "last ?s = CHR ''}''" using assms(2,3) by (simp add: casefold_def last_map)
  assume "sensitive_material s"
  then obtain p where p: "re_search p ?s" "p \<in> {private_key_at, bearer_header_at, bearer_token_at, jwt_at 16}"
    by (auto simp: sensitive_material_def Let_def)
  from re_search_suffix [OF p(1)] obtain u v where v: "?s = u @ v" "p v" by blast
  have found: "CHR '' '' \<in> set v \<or> CHR ''j'' \<in> set v \<or> (\<exists>d \<in> set v. is_py_space d) \<or> v \<noteq> [] \<and> last v = CHR ''r''"
    using p(2) v(2) private_key_space [of v] bearer_header_end [of v] bearer_token_space [of v] jwt_j [of 16 v] by blast
  have "set v \<subseteq> set ?s" using v(1) by simp
  moreover have "last v = last ?s" if "v \<noteq> []" using that v(1) by simp
  ultimately show False using found chars last by auto
qed

definition demo_event :: "string \<Rightarrow> string \<Rightarrow> string \<Rightarrow> security_event" where
  "demo_event i t v =
     [(''schema_version'', JStr EVENT_SCHEMA), (''event_id'', JStr i), (''event_time'', JInt 1000), (''source_id'', JStr ''planner''),
      (''source_kind'', JStr ''APP''), (''event_type'', JStr t), (''category'', JStr ''application_agent''),
      (''action'', JStr ''CALL''), (''outcome'', JStr ''DENIED''), (''severity'', JStr ''high''), (''reason_code'', JStr ''POLICY''),
      (''tenant_ref'', JStr ''ref:acme''), (''principal_ref'', JStr ''ref:acme''), (''workload_ref'', JStr ''ref:agent''),
      (''namespace_ref'', JStr ''ref:acme''), (''resource_ref'', JStr ''ref:acme''), (''request_ref'', JStr ''ref:acme''),
      (''session_ref'', JStr ''ref:acme''), (''trace_ref'', JStr ''ref:acme''), (''policy_version'', JStr POLICY_VERSION),
      (''sequence'', JInt 1), (''provenance_classification'', JStr ''NATIVE_LIVE''), (''attributes'', JObj [(''note'', JStr v)])]"

lemma demo_lookup:
  "map_of (demo_event i t v) ''schema_version'' = Some (JStr EVENT_SCHEMA)" "map_of (demo_event i t v) ''policy_version'' = Some (JStr POLICY_VERSION)"
  "map_of (demo_event i t v) ''event_id'' = Some (JStr i)" "map_of (demo_event i t v) ''source_id'' = Some (JStr ''planner'')"
  "map_of (demo_event i t v) ''category'' = Some (JStr ''application_agent'')" "map_of (demo_event i t v) ''severity'' = Some (JStr ''high'')"
  "map_of (demo_event i t v) ''provenance_classification'' = Some (JStr ''NATIVE_LIVE'')" "map_of (demo_event i t v) ''event_type'' = Some (JStr t)"
  "map_of (demo_event i t v) ''action'' = Some (JStr ''CALL'')" "map_of (demo_event i t v) ''outcome'' = Some (JStr ''DENIED'')"
  "map_of (demo_event i t v) ''reason_code'' = Some (JStr ''POLICY'')" "map_of (demo_event i t v) ''source_kind'' = Some (JStr ''APP'')"
  "map_of (demo_event i t v) ''event_time'' = Some (JInt 1000)" "map_of (demo_event i t v) ''sequence'' = Some (JInt 1)"
  "map_of (demo_event i t v) ''attributes'' = Some (JObj [(''note'', JStr v)])"
  by (simp_all add: demo_event_def)

lemma demo_refs: "list_all (\<lambda>n. \<exists>s. map_of (demo_event i t v) n = Some (JStr s) \<and> matches_ref s) refs_of_event"
proof -
  have "matches_ref ''ref:acme''" "matches_ref ''ref:agent''" by code_simp+
  then show ?thesis by (simp add: demo_event_def)
qed

lemma utf8_plain: "plain_text s \<Longrightarrow> length (utf8 s) = length s"
  by (induction s) (simp_all add: utf8_char_def plain_char_def Let_def)

lemma demo_good:
  assumes "matches_id i" and "matches_token t" and "list_all plain_str [i, t, v]" and "list_all (\<lambda>s. length s \<le> 100) [i, t, v]"
  shows "good_event (demo_event i t v)"
proof -
  let ?e = "demo_event i t v" and ?text = "json_dumps False (JObj (demo_event i t v))"
  have fixed: "list_all plain_str (map fst ?e)" "plain_str EVENT_SCHEMA" "plain_str POLICY_VERSION"
    "list_all plain_str [''planner'', ''APP'', ''application_agent'', ''CALL'', ''DENIED'', ''high'', ''POLICY'', ''ref:acme'', ''ref:agent'', ''NATIVE_LIVE'', ''note'']"
    unfolding demo_event_def list.map fst_conv by code_simp+
  then have "plain_json (JObj ?e)" using assms(3) by (simp add: demo_event_def)
  moreover have "length (digits 1000) \<le> 4" "length (digits (Suc 0)) \<le> 1" by code_simp+
  then have "json_bound (JObj ?e) \<le> MAX_EVENT_BYTES"
    using assms(4) by (simp add: demo_event_def MAX_EVENT_BYTES_def EVENT_SCHEMA_def POLICY_VERSION_def str_int_def)
  ultimately have plain: "plain_text ?text" "length ?text \<le> MAX_EVENT_BYTES"
    using plain_json_text [of "sort_keys (JObj ?e)"] by (simp_all add: json_dumps_def plain_sort_keys bound_sort_keys del: sort_keys.simps)
  have "\<not> sensitive_material ?text" using plain(1) by (rule plain_not_sensitive) (simp_all add: json_dumps_def)
  moreover have "\<not> list_ex (\<lambda>c. (of_char c :: nat) < 32) ?text"
    using json_text_no_control [of False "sort_keys (JObj ?e)"] unfolding json_dumps_def no_control_def list_ex_iff by (meson not_less)
  moreover have "length (utf8 ?text) \<le> MAX_EVENT_BYTES" using plain utf8_plain by simp
  moreover have "matches_id ''planner''" "list_all matches_token [''APP'', ''CALL'', ''DENIED'', ''POLICY'']" by code_simp+
  ultimately have "event_validate ?e = None" unfolding event_validate_None
    using assms demo_refs [of i t v] by (simp add: demo_lookup int_value_def ev_int_def CATEGORIES_def SEVERITIES_def PROVENANCE_def MAX_STRING_def)
  moreover have "map fst ?e = EVENT_FIELDS" by (simp add: demo_event_def EVENT_FIELDS_def)
  moreover have "matches_id ''note''" by code_simp
  ultimately show ?thesis using assms(4)
    by (simp add: good_event_def demo_lookup attribute_ok_def MAX_ATTRIBUTES_def MAX_ATTRIBUTE_KEY_def MAX_ATTRIBUTE_VALUE_def)
qed

lemma first_error_in: "first_error es = Some x \<Longrightarrow> Some x \<in> set es"
  by (induction es rule: first_error.induct) auto

lemma reason_is: "Some (DetectionDenied q) = check_pattern p r v \<Longrightarrow> q = r" "Some (DetectionDenied q) = check_member xs r v \<Longrightarrow> q = r"
  "Some (DetectionDenied q) = check_token v \<Longrightarrow> q = ''EVENT_TOKEN_INVALID''"
  by (auto simp: check_pattern_def check_member_def check_token_def split: option.splits json.splits if_splits)

text \<open>The check for control characters never fires: no event is refused with \<open>CONTROL_CHARACTER_DENIED\<close>, since the check
  reads the JSON text, in which control characters are escaped, and an event whose attribute is a line feed is accepted.\<close>

theorem control_characters_are_accepted:
  "event_validate e \<noteq> Some (DetectionDenied ''CONTROL_CHARACTER_DENIED'') \<and>
   (\<exists>d x. event_from_dict d = Inr x \<and> map_of x ''attributes'' = Some (JObj [(''note'', JStr [CHR 0x0A])]))"
proof -
  have "\<not> list_ex (\<lambda>c. (of_char c :: nat) < 32) (json_dumps False (JObj e))"
    using json_text_no_control [of False "sort_keys (JObj e)"] unfolding json_dumps_def no_control_def list_ex_iff by (meson not_less)
  then have "event_validate e \<noteq> Some (DetectionDenied ''CONTROL_CHARACTER_DENIED'')"
    unfolding event_validate_def Let_def by (auto dest!: first_error_in reason_is split: if_splits)
  moreover have "good_event (demo_event ''evt-1'' ''DENIED'' [CHR 0x0A])"
  proof (rule demo_good)
    show "matches_id ''evt-1''" "matches_token ''DENIED''" "list_all plain_str [''evt-1'', ''DENIED'', [CHR 0x0A]]" by code_simp+
  qed simp
  ultimately show ?thesis using good_event_read_back(2) demo_lookup(15) by blast
qed

subsection \<open>A concrete collector\<close>

definition site_sha :: "string \<Rightarrow> string" where
  "site_sha m = bytes_hex (take 32 (rev m @ replicate 32 (CHR 0x00)))"

lemma site_sha_hex: "hex_sha site_sha"
proof -
  have "length (take 32 (rev m @ replicate 32 (CHR 0x00))) = 32" for m by simp
  then show ?thesis unfolding hex_sha_def site_sha_def by blast
qed

definition site_envelope :: "string \<Rightarrow> string \<Rightarrow> event_envelope" where
  "site_envelope i t = \<lparr>en_source_id = ''planner'', en_event_id = i, en_event_time = 1000, en_sequence = 1,
     en_body_sha256 = event_digest site_sha (sort_key fst (demo_event i t [])), en_body = sort_key fst (demo_event i t []),
     en_signature = ''AAAA''\<rparr>"

text \<open>The source's key signed the messages of these envelopes and nothing else.\<close>

definition site_verify :: "string \<Rightarrow> string \<Rightarrow> string \<Rightarrow> bool" where
  "site_verify key sig m \<longleftrightarrow> key = ''pk'' \<and> m \<in> {envelope_material (site_envelope i t) | i t. True}"

definition site_policy :: source_policy where
  "site_policy = \<lparr>sp_source_id = ''planner'', sp_source_kind = ''APP'', sp_public_key = ''pk'',
     sp_allowed_categories = [''application_agent''], sp_allowed_provenance = [''NATIVE_LIVE'']\<rparr>"

definition site_rule :: "string \<Rightarrow> string \<Rightarrow> string \<Rightarrow> string list \<Rightarrow> detection_rule" where
  "site_rule i domain kind types = \<lparr>ru_rule_id = i, ru_title = i, ru_version = 1, ru_enabled = True, ru_severity = ''high'', ru_domain = domain,
     ru_kind = kind, ru_event_types = types, ru_window_seconds = 60, ru_group_by = [''tenant_ref''], ru_threshold = 1,
     ru_response_category = ''investigate''\<rparr>"

definition site_rules :: "detection_rule list" where
  "site_rules = [site_rule ''rule-a'' ''application_agent'' ''single'' [''AA''], site_rule ''rule-b'' ''identity_iam'' ''single'' [''AA''],
     site_rule ''rule-c'' ''serving_network'' ''single'' [''BB''], site_rule ''rule-d'' ''kubernetes_platform'' ''single'' [''ZZ''],
     site_rule ''rule-e'' ''supply_chain'' ''single'' [''ZZ''], site_rule ''rule-f'' ''cross_source_correlation'' ''correlation'' [''ZZ'', ''ZZ'', ''ZZ'']]"

lemma site_rules_checked: "check_rules site_rules = None" "list_all (\<lambda>rule. set (ru_group_by rule) \<subseteq> set EVENT_FIELDS) site_rules"
  by code_simp+

lemma site_events: "good_event (demo_event ''evt-1'' ''AA'' [])" "good_event (demo_event ''evt-2'' ''BB'' [])"
  by (rule demo_good; code_simp)+

lemma site_accepts:
  assumes "good_event (demo_event i t [])"
  shows "registry_verify site_sha site_verify [site_policy] (site_envelope i t) 1000 = Inr (demo_event i t [])"
    and "wf_json (JObj (en_body (site_envelope i t)))"
proof -
  have "standard_b64decode ''AAAA'' \<noteq> None" by code_simp
  then obtain sig where "standard_b64decode ''AAAA'' = Some sig" by blast
  moreover have "site_verify ''pk'' sig (envelope_material (site_envelope i t))" unfolding site_verify_def by blast
  ultimately show "registry_verify site_sha site_verify [site_policy] (site_envelope i t) 1000 = Inr (demo_event i t [])"
    using good_event_read_back(2) [OF assms]
    by (simp add: registry_verify_def site_envelope_def site_policy_def ev_str_def ev_int_def demo_lookup int_value_def
      MAX_FUTURE_SKEW_def MAX_STALE_AGE_def)
  have "wf_json (sort_keys (JObj (demo_event i t [])))" by (rule wf_sort_keys [OF good_event_json(1) [OF assms]])
  then show "wf_json (JObj (en_body (site_envelope i t)))" unfolding good_event_json(2) [OF assms] by (simp only: site_envelope_def event_envelope.simps)
qed

lemma evaluate_match:
  assumes "hex_sha sha" and "collector_inv sha s" and "sequence = int (length (st_events s))" and "matched_events rule e ordered = ms" and "ms \<noteq> []"
    and "set (ru_group_by rule) \<subseteq> set EVENT_FIELDS" and "ru_window_seconds rule \<noteq> 0" and "\<not> known_alert (st_alerts s) (new_alert sha rule ms sequence)"
  obtains t where "st_alerts t = st_alerts s @ [chained_alert sha (st_alerts s) (new_alert sha rule ms sequence)]" "collector_inv sha t"
    "st_events t = st_events s" "snd (evaluate_rules sha e sequence ordered (rule # rules) s) = snd (evaluate_rules sha e sequence ordered rules t)"
proof -
  from persist_alert_runs [OF assms(1-3,6,7)] obtain created t where t: "persist_alert sha rule ms sequence s = (Inr created, t)" "collector_inv sha t"
    "st_events t = st_events s" .
  have alerts: "st_alerts t = st_alerts s @ [chained_alert sha (st_alerts s) (new_alert sha rule ms sequence)]"
    using persist_alert_cases [OF assms(1-3) t(1)] assms(8) by auto
  have "snd (evaluate_rules sha e sequence ordered (rule # rules) s) = snd (evaluate_rules sha e sequence ordered rules t)"
    using t(1) assms(4-6) by (simp split: prod.split sum.split)
  with alerts t(2,3) show thesis by (rule that)
qed

lemma site_types: "ev_str ''event_type'' (demo_event i t v) = t" "ev_str ''event_id'' (demo_event i t v) = i"
  by (simp_all add: ev_str_def demo_lookup)

lemma site_matches:
  "matched_events (site_rule i d ''single'' types) (demo_event e t v) ordered = (if t \<in> set types then [demo_event e t v] else [])"
  "list_all (\<lambda>x. ev_str ''event_type'' x \<noteq> ''ZZ'') ordered \<Longrightarrow>
     matched_events (site_rule i d ''correlation'' [''ZZ'', ''ZZ'', ''ZZ'']) (demo_event e t v) ordered = []"
proof -
  show "matched_events (site_rule i d ''single'' types) (demo_event e t v) ordered = (if t \<in> set types then [demo_event e t v] else [])"
    by (simp add: matched_events_def site_rule_def site_types Let_def)
  assume "list_all (\<lambda>x. ev_str ''event_type'' x \<noteq> ''ZZ'') ordered"
  then have "dropWhile (\<lambda>x. ev_str ''event_type'' x \<noteq> ''ZZ'') (relevant_events r c ordered) = []" for r c
    by (auto simp: relevant_events_def list_all_iff dropWhile_eq_Nil_conv)
  then show "matched_events (site_rule i d ''correlation'' [''ZZ'', ''ZZ'', ''ZZ'']) (demo_event e t v) ordered = []"
    by (simp add: matched_events_def site_rule_def Let_def del: dropWhile_eq_Nil_conv)
qed

lemma site_rule_sel: "set (ru_group_by (site_rule i d k ts)) \<subseteq> set EVENT_FIELDS" "ru_window_seconds (site_rule i d k ts) \<noteq> 0"
  by (simp_all add: site_rule_def EVENT_FIELDS_def)

abbreviation site_alert :: "string \<Rightarrow> string \<Rightarrow> string \<Rightarrow> string \<Rightarrow> string \<Rightarrow> int \<Rightarrow> alert_row" where
  "site_alert r d t i ty k \<equiv> new_alert site_sha (site_rule r d ''single'' [t]) [demo_event i ty []] k"

lemma new_alerts_differ:
  assumes "take 24 (al_dedup_key (new_alert sha r es k)) \<noteq> take 24 (al_dedup_key (new_alert sha r' es' k'))"
  shows "al_alert_id (new_alert sha r es k) \<noteq> al_alert_id (new_alert sha r' es' k') \<and>
    al_dedup_key (new_alert sha r es k) \<noteq> al_dedup_key (new_alert sha r' es' k')"
  using assms by (auto simp: new_alert_def Let_def)

lemma site_keys_differ:
  "distinct (map (take 24 \<circ> al_dedup_key)
    [site_alert ''rule-a'' ''application_agent'' ''AA'' ''evt-1'' ''AA'' 1, site_alert ''rule-b'' ''identity_iam'' ''AA'' ''evt-1'' ''AA'' 1,
     site_alert ''rule-c'' ''serving_network'' ''BB'' ''evt-2'' ''BB'' 2])"
  by code_simp

lemma site_alerts_differ:
  "list_all (\<lambda>p. al_alert_id (fst p) \<noteq> al_alert_id (snd p) \<and> al_dedup_key (fst p) \<noteq> al_dedup_key (snd p))
    [(site_alert ''rule-a'' ''application_agent'' ''AA'' ''evt-1'' ''AA'' 1, site_alert ''rule-b'' ''identity_iam'' ''AA'' ''evt-1'' ''AA'' 1),
     (site_alert ''rule-a'' ''application_agent'' ''AA'' ''evt-1'' ''AA'' 1, site_alert ''rule-c'' ''serving_network'' ''BB'' ''evt-2'' ''BB'' 2),
     (site_alert ''rule-b'' ''identity_iam'' ''AA'' ''evt-1'' ''AA'' 1, site_alert ''rule-c'' ''serving_network'' ''BB'' ''evt-2'' ''BB'' 2)]"
  using site_keys_differ by (simp add: new_alerts_differ)

abbreviation site_run where
  "site_run \<equiv> collector_run site_sha site_verify [site_policy] site_rules"

lemma site_ingest:
  assumes "collector_inv site_sha s" and "good_event (demo_event i t [])" and "i \<notin> se_event_id ` set (st_events s)"
  obtains u ordered v where "site_run s v" "st_events u = st_events s @ [appended site_sha (st_events s) (demo_event i t [])]"
    "st_alerts u = st_alerts s" "collector_inv site_sha u" "store_events u = Inr ordered"
    "v = snd (evaluate_rules site_sha (demo_event i t []) (int (length (st_events s)) + 1) ordered site_rules u)"
    "collector_inv site_sha v" "st_events v = st_events u"
proof -
  note env = site_accepts [OF assms(2)]
  obtain res v where run: "ingest site_sha site_verify [site_policy] site_rules (site_envelope i t) 1000 s = (res, v)" by force
  have step: "site_run s v" by (rule r_into_rtranclp, rule collector_step.ingesting [OF env(2) run])
  show thesis
    using site_sha_hex assms(1) env(2) run
  proof (cases rule: ingest_cases)
    case (fresh x u ordered r)
    have x: "x = demo_event i t []" using fresh(1) env(1) by simp
    have "v = snd (evaluate_rules site_sha x (int (length (st_events s)) + 1) ordered site_rules u)" using fresh(8) by simp
    moreover from evaluate_rules_keeps [OF site_sha_hex fresh(6) _ fresh(8)] fresh(4) have "collector_inv site_sha v" "st_events v = st_events u" by simp_all
    ultimately show thesis using step fresh(4-7) unfolding x by (intro that [of v u ordered])
  next
    case (again x)
    then have "x = demo_event i t []" using env(1) by simp
    then show thesis using again(4) assms(3) site_types(2) by simp
  qed (use env(1) in simp)
qed

lemma site_adds:
  assumes "collector_inv site_sha w" and "k = int (length (st_events w))" and "\<not> known_alert (st_alerts w) (site_alert r d t i t k)"
  obtains z where "st_alerts z = st_alerts w @ [chained_alert site_sha (st_alerts w) (site_alert r d t i t k)]" "collector_inv site_sha z"
    "st_events z = st_events w"
    "snd (evaluate_rules site_sha (demo_event i t []) k ordered (site_rule r d ''single'' [t] # rules) w) =
       snd (evaluate_rules site_sha (demo_event i t []) k ordered rules z)"
proof -
  have "matched_events (site_rule r d ''single'' [t]) (demo_event i t []) ordered = [demo_event i t []]" by (simp add: site_matches(1))
  from evaluate_match [OF site_sha_hex assms(1,2) this _ site_rule_sel assms(3)] that show thesis by blast
qed

lemma site_ingest_first:
  assumes "good_event (demo_event i t [])"
  obtains u v where "site_run new_store v" "st_events u = [appended site_sha [] (demo_event i t [])]" "st_alerts u = []" "collector_inv site_sha u"
    "v = snd (evaluate_rules site_sha (demo_event i t []) 1 [demo_event i t []] site_rules u)" "collector_inv site_sha v" "st_events v = st_events u"
proof -
  let ?e = "demo_event i t []"
  obtain u ordered v where u: "site_run new_store v" "st_events u = [appended site_sha [] ?e]" "st_alerts u = []" "collector_inv site_sha u"
    "store_events u = Inr ordered" "v = snd (evaluate_rules site_sha ?e 1 ordered site_rules u)" "collector_inv site_sha v" "st_events v = st_events u"
    by (rule site_ingest [OF collector_inv_new assms]) (simp_all add: new_store_def)
  have "list_all2 row_of_event [appended site_sha [] ?e] ordered" by (rule store_events_ok [OF u(4)]) (use u(2,5) in simp)
  moreover have "row_of_event (appended site_sha [] ?e) ?e" using assms by (simp add: row_of_event_def)
  ultimately have "ordered = [?e]" using row_of_event_unique by (cases ordered) (auto simp: list_all2_Cons1)
  with u that show thesis by blast
qed

lemma site_quiet:
  assumes "t \<noteq> ''ZZ''"
  shows "evaluate_rules site_sha (demo_event i t []) k [demo_event i t []] (tl (tl (tl site_rules))) z = (Inr [], z)"
proof -
  have "list_all (\<lambda>x. ev_str ''event_type'' x \<noteq> ''ZZ'') [demo_event i t []]" using assms by (simp add: site_types)
  from site_matches(2) [OF this] assms show ?thesis using site_rule_sel by (simp add: site_rules_def site_matches(1))
qed

lemma site_first:
  obtains s where "site_run new_store s" "collector_inv site_sha s" "st_events s = [appended site_sha [] (demo_event ''evt-1'' ''AA'' [])]"
    "list_all2 (\<lambda>a b. al_alert_id a = al_alert_id b \<and> al_dedup_key a = al_dedup_key b \<and> al_detection_sequence a = 1) (st_alerts s)
      [site_alert ''rule-a'' ''application_agent'' ''AA'' ''evt-1'' ''AA'' 1, site_alert ''rule-b'' ''identity_iam'' ''AA'' ''evt-1'' ''AA'' 1]"
proof -
  let ?e = "demo_event ''evt-1'' ''AA'' []"
  obtain u v where u: "site_run new_store v" "st_events u = [appended site_sha [] ?e]" "st_alerts u = []" "collector_inv site_sha u"
    "v = snd (evaluate_rules site_sha ?e 1 [?e] site_rules u)" "collector_inv site_sha v" "st_events v = st_events u"
    by (rule site_ingest_first [OF site_events(1)])
  let ?a = "site_alert ''rule-a'' ''application_agent'' ''AA'' ''evt-1'' ''AA'' 1" and ?b = "site_alert ''rule-b'' ''identity_iam'' ''AA'' ''evt-1'' ''AA'' 1"
  have rules: "site_rules = site_rule ''rule-a'' ''application_agent'' ''single'' [''AA''] # site_rule ''rule-b'' ''identity_iam'' ''single'' [''AA''] # tl (tl site_rules)"
    by (simp add: site_rules_def)
  have "1 = int (length (st_events u))" "\<not> known_alert (st_alerts u) ?a" using u(2,3) by (simp_all add: known_alert_def)
  from site_adds [OF u(4) this] obtain w where w: "st_alerts w = [chained_alert site_sha [] ?a]" "collector_inv site_sha w" "st_events w = st_events u"
    "v = snd (evaluate_rules site_sha ?e 1 [?e] (site_rule ''rule-b'' ''identity_iam'' ''single'' [''AA''] # tl (tl site_rules)) w)"
    using u(3,5) rules by (metis append_Nil)
  have "1 = int (length (st_events w))" "\<not> known_alert (st_alerts w) ?b" using w(1,3) u(2) site_alerts_differ by (simp_all add: known_alert_def)
  from site_adds [OF w(2) this] obtain z where z: "st_alerts z = st_alerts w @ [chained_alert site_sha (st_alerts w) ?b]"
    "collector_inv site_sha z" "v = snd (evaluate_rules site_sha ?e 1 [?e] (tl (tl site_rules)) z)"
    using w(4) by metis
  have "evaluate_rules site_sha ?e 1 [?e] (tl (tl site_rules)) z = evaluate_rules site_sha ?e 1 [?e] (tl (tl (tl site_rules))) z"
    using site_rule_sel by (simp add: site_rules_def site_matches(1))
  then have "evaluate_rules site_sha ?e 1 [?e] (tl (tl site_rules)) z = (Inr [], z)" using site_quiet [of "''AA''"] by simp
  then have "v = z" using z(3) by simp
  then show thesis using u z w by (intro that [of v]) simp_all
qed

lemma site_second:
  assumes "site_run new_store s" and "collector_inv site_sha s" and "st_events s = [appended site_sha [] (demo_event ''evt-1'' ''AA'' [])]"
    and "list_all2 (\<lambda>a b. al_alert_id a = al_alert_id b \<and> al_dedup_key a = al_dedup_key b \<and> al_detection_sequence a = 1) (st_alerts s)
      [site_alert ''rule-a'' ''application_agent'' ''AA'' ''evt-1'' ''AA'' 1, site_alert ''rule-b'' ''identity_iam'' ''AA'' ''evt-1'' ''AA'' 1]"
  obtains t where "site_run s t" "length (st_alerts s) < length (st_alerts t)"
proof -
  let ?e = "demo_event ''evt-2'' ''BB'' []" and ?c = "site_alert ''rule-c'' ''serving_network'' ''BB'' ''evt-2'' ''BB'' 2"
  obtain u ordered v where u: "site_run s v" "st_events u = st_events s @ [appended site_sha (st_events s) ?e]" "st_alerts u = st_alerts s" "collector_inv site_sha u"
    "v = snd (evaluate_rules site_sha ?e 2 ordered site_rules u)"
    by (rule site_ingest [OF assms(2) site_events(2)]) (simp_all add: assms(3) site_types)
  have skip: "evaluate_rules site_sha ?e 2 ordered site_rules u = evaluate_rules site_sha ?e 2 ordered (tl (tl site_rules)) u"
    using site_rule_sel by (simp add: site_rules_def site_matches(1))
  have rules: "tl (tl site_rules) = site_rule ''rule-c'' ''serving_network'' ''single'' [''BB''] # tl (tl (tl site_rules))" by (simp add: site_rules_def)
  have "2 = int (length (st_events u))" "\<not> known_alert (st_alerts u) ?c"
    using u(2,3) assms(3,4) site_alerts_differ by (auto simp: known_alert_def list_all2_Cons2)
  from site_adds [OF u(4) this] obtain w where w: "st_alerts w = st_alerts u @ [chained_alert site_sha (st_alerts u) ?c]" "collector_inv site_sha w"
    "st_events w = st_events u" "v = snd (evaluate_rules site_sha ?e 2 ordered (tl (tl (tl site_rules))) w)"
    using u(5) skip rules by metis
  have "2 = int (length (st_events w))" using w(3) u(2) assms(3) by simp
  then have "extends w v" using evaluate_rules_keeps [OF site_sha_hex w(2)] w(4) by (metis prod.collapse)
  then have "length (st_alerts s) < length (st_alerts v)" using w(1) u(3) by (auto simp: extends_def)
  with u(1) show thesis by (rule that)
qed

theorem collector_history_is_append_only_witness:
  "\<exists>s t events. site_run new_store s \<and> site_run s t \<and> st_events s \<noteq> [] \<and> st_events t = st_events s @ events \<and>
     verify_event_chain site_sha t = Inr (last_chain (st_events t))"
proof (rule site_first)
  fix s assume s: "site_run new_store s" "st_events s = [appended site_sha [] (demo_event ''evt-1'' ''AA'' [])]"
  have "\<exists>events. st_events s = st_events s @ events" by simp
  moreover have "verify_event_chain site_sha s = Inr (last_chain (st_events s))"
    using collector_history_is_append_only [OF site_sha_hex s(1) rtranclp.rtrancl_refl] by blast
  ultimately show ?thesis using s(1) s(2) by (intro exI [of _ s] exI [of _ "[]"] conjI) simp_all
qed

theorem stored_events_are_signed_witness:
  "\<exists>s r n. site_run new_store s \<and> r \<in> set (st_events s) \<and> envelope_material n \<in> {envelope_material (site_envelope i t) | i t. True} \<and>
     en_event_id n = ''evt-1'' \<and> en_body_sha256 n = site_sha (utf8 (se_payload r))"
proof (rule site_first)
  let ?signed = "\<lambda>key. {envelope_material (site_envelope i t) | i t. True}" and ?r = "appended site_sha [] (demo_event ''evt-1'' ''AA'' [])"
  fix s assume s: "site_run new_store s" "st_events s = [?r]"
  have "\<exists>policy n. policy \<in> set [site_policy] \<and> sp_source_id policy = se_source_id ?r \<and> se_category ?r \<in> set (sp_allowed_categories policy) \<and>
    envelope_material n \<in> ?signed (sp_public_key policy) \<and> en_source_id n = se_source_id ?r \<and> en_event_id n = se_event_id ?r \<and>
    en_event_time n = se_event_time ?r \<and> en_body_sha256 n = site_sha (utf8 (se_payload ?r))"
  proof (rule stored_events_are_signed [OF site_sha_hex _ s(1)])
    show "m \<in> ?signed key" if "site_verify key sig m" for key sig m using that unfolding site_verify_def by (elim conjE)
    show "?r \<in> set (st_events s)" using s(2) by simp
  qed
  then obtain n where "envelope_material n \<in> ?signed ''pk''" "en_event_id n = se_event_id ?r" "en_body_sha256 n = site_sha (utf8 (se_payload ?r))"
    by blast
  moreover have "se_event_id ?r = ''evt-1''" "?r \<in> set (st_events s)" using s(2) by (simp_all add: site_types)
  ultimately show ?thesis using s(1) by (intro exI [of _ s] exI [of _ ?r] exI [of _ n] conjI) (assumption | simp only:)+
qed

theorem edited_history_is_detected_witness:
  "\<exists>s. site_run new_store s \<and> st_events s \<noteq> [] \<and> (map se_payload (st_events s) = map se_payload (st_events s) \<or>
    (\<exists>r \<in> set (st_events s). \<exists>r' \<in> set (st_events s). \<exists>p q. collision site_sha (row_message p r) (row_message q r')) \<or>
    (\<exists>r \<in> set (st_events s) \<union> set (st_events s). \<exists>p. site_sha (row_message p r) = ZERO_CHAIN))"
proof (rule site_first)
  fix s assume s: "site_run new_store s" "collector_inv site_sha s" "st_events s = [appended site_sha [] (demo_event ''evt-1'' ''AA'' [])]"
  have "verify_event_chain site_sha s = Inr (last_chain (st_events s))" using s(2) by (simp add: collector_inv_def events_ok_def verify_event_chain_def)
  from edited_history_is_detected [OF site_sha_hex s(1) this] s(1,3) show ?thesis by (intro exI [of _ s] conjI) simp_all
qed

theorem single_alerts_are_chained_witness:
  "\<exists>s. site_run new_store s \<and> length (st_alerts s) = 1 \<and> verify_alert_chain site_sha s = Inr (al_chain_hash (hd (st_alerts s)))"
proof (rule site_ingest_first [OF site_events(2)])
  let ?e = "demo_event ''evt-2'' ''BB'' []" and ?c = "site_alert ''rule-c'' ''serving_network'' ''BB'' ''evt-2'' ''BB'' 1"
  fix u v assume u: "site_run new_store v" "st_events u = [appended site_sha [] ?e]" "st_alerts u = []" "collector_inv site_sha u"
    "v = snd (evaluate_rules site_sha ?e 1 [?e] site_rules u)"
  have "evaluate_rules site_sha ?e 1 [?e] site_rules u = evaluate_rules site_sha ?e 1 [?e] (tl (tl site_rules)) u"
    using site_rule_sel by (simp add: site_rules_def site_matches(1))
  moreover have "tl (tl site_rules) = site_rule ''rule-c'' ''serving_network'' ''single'' [''BB''] # tl (tl (tl site_rules))" by (simp add: site_rules_def)
  moreover have "1 = int (length (st_events u))" "\<not> known_alert (st_alerts u) ?c" using u(2,3) by (simp_all add: known_alert_def)
  moreover note site_adds [OF u(4) calculation(3,4)]
  ultimately obtain w where w: "st_alerts w = [chained_alert site_sha [] ?c]" "v = snd (evaluate_rules site_sha ?e 1 [?e] (tl (tl (tl site_rules))) w)"
    using u(3,5) by (metis append_Nil)
  then have v: "v = w" using site_quiet [of "''BB''"] by simp
  then have "distinct (map al_detection_sequence (st_alerts v))" using w(1) by simp
  from single_alerts_are_chained [OF site_sha_hex u(1) this] w(1) u(1) show ?thesis unfolding v by (intro exI [of _ w]) simp
qed

theorem two_alerts_for_one_event_break_the_chain_witness:
  "\<exists>s t. site_run new_store s \<and> site_run s t \<and> (verify_alert_chain site_sha t = Inl (DetectionDenied ''ALERT_CHAIN_TAMPERED'') \<or>
    (\<exists>a \<in> set (st_alerts t). \<exists>b \<in> set (st_alerts t). \<exists>p q. collision site_sha (alert_message p a) (alert_message q b)))"
proof (rule site_first, rule site_second)
  fix s t
  let ?ab = "[site_alert ''rule-a'' ''application_agent'' ''AA'' ''evt-1'' ''AA'' 1, site_alert ''rule-b'' ''identity_iam'' ''AA'' ''evt-1'' ''AA'' 1]"
  assume s: "site_run new_store s" and t: "site_run s t" "length (st_alerts s) < length (st_alerts t)"
    and two: "list_all2 (\<lambda>a b. al_alert_id a = al_alert_id b \<and> al_dedup_key a = al_dedup_key b \<and> al_detection_sequence a = 1) (st_alerts s) ?ab"
  have "\<not> distinct (map al_detection_sequence (st_alerts s))" using two by (auto simp: list_all2_Cons2)
  from two_alerts_for_one_event_break_the_chain [OF site_sha_hex s t(1) this t(2)] s t(1) show ?thesis by blast
qed

theorem every_match_leaves_an_alert_witness:
  "\<exists>ids t ordered. ingest site_sha site_verify [site_policy] site_rules (site_envelope ''evt-1'' ''AA'') 1000 new_store = (Inr (INGEST_ACCEPTED, ids), t) \<and>
     store_events t = Inr ordered \<and> demo_event ''evt-1'' ''AA'' [] \<in> set ordered"
  using every_match_leaves_an_alert [OF site_sha_hex site_rules_checked rtranclp.rtrancl_refl site_accepts(2,1) [OF site_events(1)]]
  by (auto simp: new_store_def)

theorem signed_event_is_verified_witness:
  "registry_verify site_sha (\<lambda>key sig m. sig = site_sha (key @ m)) [site_policy]
     (producer_sign site_sha (\<lambda>m. site_sha (''pk'' @ m)) ''planner'' (demo_event ''evt-1'' ''AA'' [])) 1000 = Inr (demo_event ''evt-1'' ''AA'' [])"
  by (rule signed_event_is_verified [OF site_events(1), where policy = site_policy])
    (simp_all add: site_policy_def demo_lookup ev_str_def ev_int_def int_value_def MAX_STALE_AGE_def MAX_FUTURE_SKEW_def)

end
