(* ===== verification/Detection_Pipeline.thy ===== *)
theory Detection_Pipeline
  imports Detection_Alerts
begin

section \<open>From signed events to incidents\<close>

text \<open>
  \<open>aegis/detection/intelligence_bridge.py\<close>, and the path an event takes: collector, store, bridge, correlation, intake.
  The bridge validates an event again before it projects it.
\<close>

definition bridge_context :: "security_event \<Rightarrow> detection_context" where
  "bridge_context e = \<lparr>dc_event_id = ev_str ''event_id'' e, dc_event_time = ev_int ''event_time'' e,
     dc_source_id = ev_str ''source_id'' e, dc_source_kind = ev_str ''source_kind'' e, dc_event_type = ev_str ''event_type'' e,
     dc_category = ev_str ''category'' e, dc_action = ev_str ''action'' e, dc_outcome = ev_str ''outcome'' e,
     dc_severity = ev_str ''severity'' e, dc_reason_code = ev_str ''reason_code'' e, dc_sequence = ev_int ''sequence'' e,
     dc_evidence_references = map (\<lambda>n. (n, ev_str n e)) refs_of_event\<rparr>"

definition build_context :: "security_event \<Rightarrow> detection_error + detection_context" where
  "build_context e = (case event_validate e of Some error \<Rightarrow> Inl error | None \<Rightarrow> Inr (bridge_context e))"

subsection \<open>Every stored event can be correlated\<close>

lemma matched_not_empty: "matches_id s \<Longrightarrow> s \<noteq> []" "matches_ref s \<Longrightarrow> s \<noteq> []"
  by (auto simp: matches_id_def matches_ref_def)

lemma bridge_scope:
  assumes "event_validate e = None"
  shows "context_scope (bridge_context e) = Some (ev_str ''tenant_ref'' e, ev_str ''workload_ref'' e)"
proof -
  have "list_all (\<lambda>n. ev_str n e \<noteq> []) refs_of_event"
    by (rule list.pred_mono_strong [OF event_validD(6) [OF assms]], elim exE conjE, drule matched_not_empty(2)) (simp add: ev_str_def)
  then have "ev_str ''tenant_ref'' e \<noteq> []" "ev_str ''workload_ref'' e \<noteq> []" by simp_all
  then show ?thesis by (simp add: context_scope_def bridge_context_def references_named_def)
qed

lemma bridge_valid:
  assumes "event_validate e = None"
  shows "dc_event_id (bridge_context e) \<noteq> []" "known_severity (dc_severity (bridge_context e))"
proof -
  from event_validD(3) [OF assms] obtain s where "map_of e ''event_id'' = Some (JStr s)" "matches_id s" by auto
  then show "dc_event_id (bridge_context e) \<noteq> []" using matched_not_empty(1) by (simp add: bridge_context_def ev_str_def)
  from event_validD(4) [OF assms] obtain s where "map_of e ''severity'' = Some (JStr s)" "s \<in> set SEVERITIES" by auto
  moreover have "list_all known_severity SEVERITIES" by code_simp
  ultimately show "known_severity (dc_severity (bridge_context e))" by (simp add: bridge_context_def ev_str_def list_all_iff)
qed

lemma unique_contexts_ok:
  assumes "distinct (map dc_event_id (u @ cs))" and "\<forall>c \<in> set cs. dc_event_id c \<noteq> [] \<and> known_severity (dc_severity c)"
  shows "unique_contexts u cs = Inr (u @ cs)"
  using assms
proof (induction cs arbitrary: u)
  case (Cons c cs)
  then have "row_of dc_event_id (dc_event_id c) u = None" by (auto simp: row_of_None)
  with Cons.IH [of "u @ [c]"] Cons.prems show ?case by simp
qed simp

lemma group_detections_ok: "\<forall>c \<in> set cs. context_scope c \<noteq> None \<Longrightarrow> \<exists>g'. group_detections g cs = Inr g'"
  by (induction cs arbitrary: g) auto

lemma bridged_events_correlate:
  assumes "es \<noteq> []" and "\<forall>e \<in> set es. event_validate e = None" and "distinct (map (ev_str ''event_id'') es)"
  shows "\<exists>cs. build_contexts (map bridge_context es) = Inr cs"
proof -
  have "distinct (map dc_event_id ([] @ map bridge_context es))" using assms(3) by (simp add: comp_def bridge_context_def)
  from unique_contexts_ok [OF this] have "unique_contexts [] (map bridge_context es) = Inr (map bridge_context es)"
    using assms(2) bridge_valid by simp
  moreover obtain g where "group_detections [] (map bridge_context es) = Inr g"
    using group_detections_ok [of "map bridge_context es" "[]"] assms(2) bridge_scope by (auto simp del: split_paired_Ex)
  ultimately show ?thesis using assms(1) by (simp add: build_contexts_def)
qed

text \<open>\<^bold>\<open>C32\<close>. Every signed event reaches the incident of its tenant and workload, and no other: after any history of a collector
  that has stored an event, the bridge projects every stored event, the correlation accepts all projections, intake
  makes incidents of them, and an event is among the events of an incident exactly if it carries its tenant and
  workload; each stored event has such an incident.\<close>

theorem stored_events_become_incidents:
  assumes "hex_sha sha" and "collector_run sha verify policies rules new_store s" and "st_events s \<noteq> []"
  shows "\<exists>es cs incidents. store_events s = Inr es \<and> length es = length (st_events s) \<and>
    map build_context es = map Inr (map bridge_context es) \<and> build_contexts (map bridge_context es) = Inr cs \<and> intake sha cs = Inr incidents \<and>
    (\<forall>e \<in> set es. \<forall>i \<in> set incidents. ev_str ''event_id'' e \<in> set (ii_contributing_event_ids i) \<longleftrightarrow>
      ii_tenant_ref i = ev_str ''tenant_ref'' e \<and> ii_workload_ref i = ev_str ''workload_ref'' e) \<and>
    (\<forall>e \<in> set es. \<exists>i \<in> set incidents. ev_str ''event_id'' e \<in> set (ii_contributing_event_ids i))"
proof -
  have inv: "collector_inv sha s" using collector_run_keeps [OF assms(1) collector_inv_new assms(2)] by blast
  let ?rows = "sort_key se_event_time (st_events s)"
  from store_events_ok [OF inv] obtain es where es: "store_events s = Inr es" "list_all2 row_of_event ?rows es" .
  have len: "length es = length (st_events s)" using list_all2_lengthD [OF es(2)] by simp
  have valid: "event_validate e = None" if e: "e \<in> set es" for e
  proof -
    from e obtain k where "k < length es" "es ! k = e" by (auto simp: in_set_conv_nth)
    then have "row_of_event (?rows ! k) e" using list_all2_nthD2 [OF es(2), of k] by simp
    then show ?thesis by (simp add: row_of_event_def good_event_def)
  qed
  have "map (ev_str ''event_id'') es = map se_event_id ?rows"
    using es(2) by (simp add: list_all2_conv_all_nth list_eq_iff_nth_eq row_of_event_def)
  moreover have "distinct (map se_event_id ?rows)" using inv by (simp add: collector_inv_def events_ok_def distinct_map)
  ultimately have "distinct (map (ev_str ''event_id'') es)" by simp
  moreover have "es \<noteq> []" using len assms(3) by auto
  ultimately obtain cs where cs: "build_contexts (map bridge_context es) = Inr cs" using bridged_events_correlate valid by blast
  from detections_reach_their_incident [OF cs, of sha] obtain incidents where incidents: "intake sha cs = Inr incidents"
    "\<forall>d \<in> set (map bridge_context es). \<forall>i \<in> set incidents.
      dc_event_id d \<in> set (ii_contributing_event_ids i) \<longleftrightarrow> context_scope d = Some (ii_tenant_ref i, ii_workload_ref i)"
    "\<forall>d \<in> set (map bridge_context es). \<exists>i \<in> set incidents. context_scope d = Some (ii_tenant_ref i, ii_workload_ref i)" by blast
  have projected: "dc_event_id (bridge_context e) = ev_str ''event_id'' e"
    "context_scope (bridge_context e) = Some (ev_str ''tenant_ref'' e, ev_str ''workload_ref'' e)" if "e \<in> set es" for e
    using bridge_scope [OF valid [OF that]] by (simp_all add: bridge_context_def)
  have member: "ev_str ''event_id'' e \<in> set (ii_contributing_event_ids i) \<longleftrightarrow>
      ii_tenant_ref i = ev_str ''tenant_ref'' e \<and> ii_workload_ref i = ev_str ''workload_ref'' e" if "e \<in> set es" "i \<in> set incidents" for e i
    using incidents(2) projected [OF that(1)] that by auto
  have "\<exists>i \<in> set incidents. ev_str ''event_id'' e \<in> set (ii_contributing_event_ids i)" if e: "e \<in> set es" for e
  proof -
    from incidents(3) e obtain i where "i \<in> set incidents" "context_scope (bridge_context e) = Some (ii_tenant_ref i, ii_workload_ref i)" by auto
    with member [OF e] projected(2) [OF e] show ?thesis by auto
  qed
  moreover have "map build_context es = map Inr (map bridge_context es)" using valid by (simp add: build_context_def)
  ultimately show ?thesis using es(1) len cs incidents(1) member by (intro exI [of _ es] exI [of _ cs] exI [of _ incidents]) simp
qed

theorem stored_events_become_incidents_witness:
  "\<exists>s es cs incidents. site_run new_store s \<and> length es = 1 \<and> store_events s = Inr es \<and> build_contexts (map bridge_context es) = Inr cs \<and>
     intake site_sha cs = Inr incidents \<and> incidents \<noteq> []"
proof (rule site_first)
  fix s assume s: "site_run new_store s" "st_events s = [appended site_sha [] (demo_event ''evt-1'' ''AA'' [])]"
  then have "st_events s \<noteq> []" by simp
  from stored_events_become_incidents [OF site_sha_hex s(1) this] obtain es cs incidents where
    es: "store_events s = Inr es" "length es = 1" "build_contexts (map bridge_context es) = Inr cs" "intake site_sha cs = Inr incidents"
    "\<forall>e \<in> set es. \<exists>i \<in> set incidents. ev_str ''event_id'' e \<in> set (ii_contributing_event_ids i)" using s(2) by auto
  have "hd es \<in> set es" using es(2) by (cases es) auto
  with es(5) have "incidents \<noteq> []" by auto
  with es s(1) show ?thesis by blast
qed

end
