(* ===== verification/Checkpoint_Store.thy ===== *)
theory Checkpoint_Store
  imports Encodings "HOL-Library.Product_Lexorder"
begin

section \<open>The integrity-checked checkpoint store\<close>

text \<open>
  \<open>aegis/agent/checkpoint_durability.py\<close>: \<open>DurableIntegrityCheckpointer\<close>. Checkpoints and pending writes live in one SQLite
  database; a second one, the anchor, keeps for each thread the head of its chain of checkpoints and for each checkpoint
  the digest of its set of writes. No transaction spans the two. The HMAC of the instance's key is the argument \<open>mac\<close>,
  the serializer and the reserved channel indices of langgraph are the argument \<open>serde\<close>. The column \<^verbatim>\<open>metadata\<close> is
  represented by its text; what is hashed is the UTF-8 of it. SQLite's order of text is the order of code points.
\<close>

datatype integrity_reason =
    CHECKPOINT_CONFLICT | CHECKPOINT_INTEGRITY_MISMATCH | CHECKPOINT_CHAIN_BROKEN | CHECKPOINT_ROLLBACK_DETECTED
  | WRITE_INTEGRITY_MISMATCH | WRITE_SET_MISMATCH

datatype checkpoint_error = CheckpointIntegrityError integrity_reason | SqliteIntegrityError | SerializerError

record 'v serde =
  sd_dumps :: "'v \<Rightarrow> string \<times> string"
  sd_loads :: "string \<times> string \<Rightarrow> 'v option"
  sd_idx_map :: "string \<Rightarrow> int option"

definition CHECKPOINT_SCHEMA :: string where "CHECKPOINT_SCHEMA = ''aegis.agent-checkpoint-integrity.v1''"
definition WRITE_SCHEMA :: string where "WRITE_SCHEMA = ''aegis.agent-checkpoint-write-integrity.v1''"
definition ZERO_DIGEST :: string where "ZERO_DIGEST = replicate 64 (CHR ''0'')"

record checkpoint_row =
  cr_thread :: string
  cr_ns :: string
  cr_id :: string
  cr_parent :: "string option"
  cr_type :: string
  cr_checkpoint :: string
  cr_metadata :: string
  cr_generation :: int
  cr_previous :: string
  cr_digest :: string

record write_row =
  wr_thread :: string
  wr_ns :: string
  wr_checkpoint :: string
  wr_task :: string
  wr_idx :: int
  wr_channel :: string
  wr_type :: string
  wr_value :: string
  wr_digest :: string

record checkpoint_head =
  ch_thread :: string
  ch_ns :: string
  ch_generation :: int
  ch_id :: string
  ch_digest :: string

record write_head =
  wh_thread :: string
  wh_ns :: string
  wh_checkpoint :: string
  wh_count :: nat
  wh_aggregate :: string

record checkpoint_world =
  cw_checkpoints :: "checkpoint_row list"
  cw_writes :: "write_row list"
  cw_heads :: "checkpoint_head list"
  cw_write_heads :: "write_head list"

definition empty_world :: checkpoint_world where
  "empty_world = \<lparr>cw_checkpoints = [], cw_writes = [], cw_heads = [], cw_write_heads = []\<rparr>"

text \<open>Primary keys.\<close>

definition cr_key :: "checkpoint_row \<Rightarrow> string \<times> string \<times> string" where "cr_key r = (cr_thread r, cr_ns r, cr_id r)"
definition cr_slot :: "checkpoint_row \<Rightarrow> string \<times> string \<times> int" where "cr_slot r = (cr_thread r, cr_ns r, cr_generation r)"
definition wr_key :: "write_row \<Rightarrow> string \<times> string \<times> string \<times> string \<times> int" where
  "wr_key w = (wr_thread w, wr_ns w, wr_checkpoint w, wr_task w, wr_idx w)"
definition wr_set :: "write_row \<Rightarrow> string \<times> string \<times> string" where "wr_set w = (wr_thread w, wr_ns w, wr_checkpoint w)"
definition ch_key :: "checkpoint_head \<Rightarrow> string \<times> string" where "ch_key h = (ch_thread h, ch_ns h)"
definition wh_key :: "write_head \<Rightarrow> string \<times> string \<times> string" where "wh_key h = (wh_thread h, wh_ns h, wh_checkpoint h)"

subsection \<open>Digests\<close>

definition json_option :: "string option \<Rightarrow> json" where
  "json_option x = (case x of None \<Rightarrow> JNull | Some s \<Rightarrow> JStr s)"

definition checkpoint_fields :: "(string \<Rightarrow> string) \<Rightarrow> string \<Rightarrow> checkpoint_row \<Rightarrow> (string \<times> json) list" where
  "checkpoint_fields sha key_id r =
     [(''schema_version'', JStr CHECKPOINT_SCHEMA), (''thread_id'', JStr (cr_thread r)), (''checkpoint_ns'', JStr (cr_ns r)),
      (''checkpoint_id'', JStr (cr_id r)), (''parent_checkpoint_id'', json_option (cr_parent r)), (''type'', JStr (cr_type r)),
      (''checkpoint_sha256'', JStr (sha (cr_checkpoint r))), (''metadata_sha256'', JStr (sha (utf8 (cr_metadata r)))),
      (''generation'', JInt (cr_generation r)), (''previous_digest'', JStr (cr_previous r)), (''key_id'', JStr key_id)]"

definition checkpoint_message :: "(string \<Rightarrow> string) \<Rightarrow> string \<Rightarrow> checkpoint_row \<Rightarrow> string" where
  "checkpoint_message sha key_id r = utf8 (json_dumps False (JObj (checkpoint_fields sha key_id r)))"

definition write_message :: "(string \<Rightarrow> string) \<Rightarrow> string \<Rightarrow> write_row \<Rightarrow> string" where
  "write_message sha key_id w = utf8 (json_dumps False (JObj
     [(''schema_version'', JStr WRITE_SCHEMA), (''thread_id'', JStr (wr_thread w)), (''checkpoint_ns'', JStr (wr_ns w)),
      (''checkpoint_id'', JStr (wr_checkpoint w)), (''task_id'', JStr (wr_task w)), (''idx'', JInt (wr_idx w)),
      (''channel'', JStr (wr_channel w)), (''type'', JStr (wr_type w)), (''value_sha256'', JStr (sha (wr_value w))),
      (''key_id'', JStr key_id)]))"

definition write_entry :: "write_row \<Rightarrow> json" where
  "write_entry w = JObj [(''task_id'', JStr (wr_task w)), (''idx'', JInt (wr_idx w)), (''channel'', JStr (wr_channel w)),
     (''integrity_digest'', JStr (wr_digest w))]"

definition aggregate_message :: "string \<Rightarrow> write_row list \<Rightarrow> string" where
  "aggregate_message key_id rows = utf8 (json_dumps False (JObj
     [(''schema_version'', JStr WRITE_SCHEMA), (''entries'', JList (map write_entry rows)), (''key_id'', JStr key_id)]))"

subsection \<open>Verification\<close>

definition verify_checkpoint_row :: "(string \<Rightarrow> string) \<Rightarrow> (string \<Rightarrow> string) \<Rightarrow> string \<Rightarrow> checkpoint_row \<Rightarrow> checkpoint_error option" where
  "verify_checkpoint_row sha mac key_id r =
     (if mac (checkpoint_message sha key_id r) \<noteq> cr_digest r then Some (CheckpointIntegrityError CHECKPOINT_INTEGRITY_MISMATCH) else None)"

definition previous_row :: "checkpoint_row list \<Rightarrow> checkpoint_row \<Rightarrow> checkpoint_row option" where
  "previous_row rows r = row_of cr_slot (cr_thread r, cr_ns r, cr_generation r - 1) rows"

lemma previous_row_in: "previous_row rows r = Some q \<Longrightarrow> q \<in> set rows \<and> cr_generation q = cr_generation r - 1"
  unfolding previous_row_def by (drule row_of_SomeD) (simp add: cr_slot_def)

text \<open>The loop walks down the generations; each turn leaves fewer rows below, so it ends whatever the table holds.\<close>

function verify_checkpoint_chain ::
  "(string \<Rightarrow> string) \<Rightarrow> (string \<Rightarrow> string) \<Rightarrow> string \<Rightarrow> checkpoint_row list \<Rightarrow> checkpoint_row \<Rightarrow> checkpoint_error option" where
  "verify_checkpoint_chain sha mac key_id rows r =
     (case verify_checkpoint_row sha mac key_id r of
        Some e \<Rightarrow> Some e
      | None \<Rightarrow>
          if cr_generation r = 1
            then (if cr_previous r \<noteq> ZERO_DIGEST then Some (CheckpointIntegrityError CHECKPOINT_CHAIN_BROKEN) else None)
          else (case previous_row rows r of
            None \<Rightarrow> Some (CheckpointIntegrityError CHECKPOINT_CHAIN_BROKEN)
          | Some q \<Rightarrow>
              if cr_previous r \<noteq> cr_digest q then Some (CheckpointIntegrityError CHECKPOINT_CHAIN_BROKEN)
              else verify_checkpoint_chain sha mac key_id rows q))"
  by pat_completeness auto
termination
proof (relation "measure (\<lambda>(_, _, _, rows, r). length (filter (\<lambda>q. cr_generation q < cr_generation r) rows))", simp)
  fix sha mac :: "string \<Rightarrow> string" and key_id :: string and rows r q
  assume "previous_row rows r = Some q"
  from previous_row_in [OF this] have q: "q \<in> set rows" "cr_generation q = cr_generation r - 1" by simp_all
  then have "filter (\<lambda>x. cr_generation x < cr_generation q) rows = filter (\<lambda>x. cr_generation x < cr_generation q) (filter (\<lambda>x. cr_generation x < cr_generation r) rows)"
    by (intro filter_cong [THEN trans, OF refl _ filter_filter [symmetric]]) auto
  moreover have "q \<in> set (filter (\<lambda>x. cr_generation x < cr_generation r) rows)" using q by simp
  ultimately have "length (filter (\<lambda>x. cr_generation x < cr_generation q) rows) < length (filter (\<lambda>x. cr_generation x < cr_generation r) rows)"
    using length_filter_less [of q "filter (\<lambda>x. cr_generation x < cr_generation r) rows" "\<lambda>x. cr_generation x < cr_generation q"] by simp
  then show "((sha, mac, key_id, rows, q), (sha, mac, key_id, rows, r)) \<in> measure (\<lambda>(_, _, _, rows, r). length (filter (\<lambda>q. cr_generation q < cr_generation r) rows))"
    by simp
qed

declare verify_checkpoint_chain.simps [simp del]

definition write_rows_of :: "string \<times> string \<times> string \<Rightarrow> write_row list \<Rightarrow> write_row list" where
  "write_rows_of key rows = sort_key (\<lambda>w. (wr_task w, wr_idx w)) (filter (\<lambda>w. wr_set w = key) rows)"

definition verify_write_set ::
  "(string \<Rightarrow> string) \<Rightarrow> (string \<Rightarrow> string) \<Rightarrow> string \<Rightarrow> string \<times> string \<times> string \<Rightarrow> write_row list \<Rightarrow> write_head list \<Rightarrow> checkpoint_error option" where
  "verify_write_set sha mac key_id key rows heads =
     (if list_ex (\<lambda>w. mac (write_message sha key_id w) \<noteq> wr_digest w) rows then Some (CheckpointIntegrityError WRITE_INTEGRITY_MISMATCH)
      else case row_of wh_key key heads of
        None \<Rightarrow> if rows = [] then None else Some (CheckpointIntegrityError WRITE_SET_MISMATCH)
      | Some h \<Rightarrow>
          if wh_count h \<noteq> length rows \<or> wh_aggregate h \<noteq> mac (aggregate_message key_id rows)
            then Some (CheckpointIntegrityError WRITE_SET_MISMATCH) else None)"

subsection \<open>Reading\<close>

record 'v checkpoint_tuple =
  ct_thread :: string
  ct_ns :: string
  ct_id :: string
  ct_checkpoint :: 'v
  ct_metadata :: json
  ct_parent :: "string option"
  ct_writes :: "(string \<times> string \<times> 'v) list"

fun load_writes :: "'v serde \<Rightarrow> write_row list \<Rightarrow> (string \<times> string \<times> 'v) list option" where
  "load_writes sd [] = Some []"
| "load_writes sd (w # ws) = (case (sd_loads sd (wr_type w, wr_value w), load_writes sd ws) of
     (Some v, Some vs) \<Rightarrow> Some ((wr_task w, wr_channel w, v) # vs)
   | _ \<Rightarrow> None)"

definition tuple_from_row ::
  "(string \<Rightarrow> string) \<Rightarrow> (string \<Rightarrow> string) \<Rightarrow> string \<Rightarrow> 'v serde \<Rightarrow> checkpoint_world \<Rightarrow> bool \<Rightarrow> checkpoint_row
     \<Rightarrow> checkpoint_error + 'v checkpoint_tuple" where
  "tuple_from_row sha mac key_id sd w require_current_head r =
     (case verify_checkpoint_chain sha mac key_id (cw_checkpoints w) r of
        Some e \<Rightarrow> Inl e
      | None \<Rightarrow>
          if require_current_head \<and> (case row_of ch_key (cr_thread r, cr_ns r) (cw_heads w) of
               None \<Rightarrow> True
             | Some h \<Rightarrow> ch_generation h \<noteq> cr_generation r \<or> ch_id h \<noteq> cr_id r \<or> ch_digest h \<noteq> cr_digest r)
            then Inl (CheckpointIntegrityError CHECKPOINT_ROLLBACK_DETECTED)
          else
            (let rows = write_rows_of (cr_key r) (cw_writes w) in
             case verify_write_set sha mac key_id (cr_key r) rows (cw_write_heads w) of
               Some e \<Rightarrow> Inl e
             | None \<Rightarrow>
                 (case (sd_loads sd (cr_type r, cr_checkpoint r), json_loads (cr_metadata r), load_writes sd rows) of
                    (Some c, Some m, Some vs) \<Rightarrow> Inr \<lparr>ct_thread = cr_thread r, ct_ns = cr_ns r, ct_id = cr_id r, ct_checkpoint = c,
                       ct_metadata = m, ct_parent = cr_parent r, ct_writes = vs\<rparr>
                  | _ \<Rightarrow> Inl SerializerError)))"

definition get_tuple ::
  "(string \<Rightarrow> string) \<Rightarrow> (string \<Rightarrow> string) \<Rightarrow> string \<Rightarrow> 'v serde \<Rightarrow> string \<times> string \<Rightarrow> string option \<Rightarrow> checkpoint_world
     \<Rightarrow> checkpoint_error + 'v checkpoint_tuple option" where
  "get_tuple sha mac key_id sd thread requested w =
     (case (case requested of Some i \<Rightarrow> Some i | None \<Rightarrow> map_option ch_id (row_of ch_key thread (cw_heads w))) of
        None \<Rightarrow> Inr None
      | Some i \<Rightarrow>
          (case row_of cr_key (fst thread, snd thread, i) (cw_checkpoints w) of
             None \<Rightarrow> if requested = None then Inl (CheckpointIntegrityError CHECKPOINT_ROLLBACK_DETECTED) else Inr None
           | Some r \<Rightarrow> map_sum id Some (tuple_from_row sha mac key_id sd w (requested = None) r)))"

text \<open>
  \<open>list\<close>: the identifiers are read first, newest first; \<open>filter\<close> compares fields of the metadata, a missing field being \<^verbatim>\<open>None\<close>;
  the generator is consumed to its end.
\<close>

definition metadata_matches :: "(string \<times> json) list \<Rightarrow> json \<Rightarrow> bool" where
  "metadata_matches wanted m = list_all (\<lambda>p. (case m of JObj kvs \<Rightarrow> (case map_of kvs (fst p) of Some v \<Rightarrow> v | None \<Rightarrow> JNull) | _ \<Rightarrow> JNull) = snd p) wanted"

fun list_items ::
  "((string \<times> string \<times> string) \<Rightarrow> checkpoint_error + 'v checkpoint_tuple option) \<Rightarrow> (string \<times> json) list \<Rightarrow> int option \<Rightarrow> int
     \<Rightarrow> (string \<times> string \<times> string) list \<Rightarrow> checkpoint_error + 'v checkpoint_tuple list" where
  "list_items get wanted limit emitted [] = Inr []"
| "list_items get wanted limit emitted (k # ks) =
     (case get k of
        Inl e \<Rightarrow> Inl e
      | Inr None \<Rightarrow> list_items get wanted limit emitted ks
      | Inr (Some item) \<Rightarrow>
          if \<not> metadata_matches wanted (ct_metadata item) then list_items get wanted limit emitted ks
          else if (case limit of None \<Rightarrow> False | Some n \<Rightarrow> n \<le> emitted + 1) then Inr [item]
          else map_sum id ((#) item) (list_items get wanted limit (emitted + 1) ks))"

definition list_checkpoints ::
  "(string \<Rightarrow> string) \<Rightarrow> (string \<Rightarrow> string) \<Rightarrow> string \<Rightarrow> 'v serde \<Rightarrow> (string \<times> string) option \<Rightarrow> (string \<times> json) list \<Rightarrow> string option \<Rightarrow> int option
     \<Rightarrow> checkpoint_world \<Rightarrow> checkpoint_error + 'v checkpoint_tuple list" where
  "list_checkpoints sha mac key_id sd thread wanted before limit w =
     list_items (\<lambda>k. get_tuple sha mac key_id sd (fst k, fst (snd k)) (Some (snd (snd k))) w) wanted limit 0
       (map cr_key (rev (sort_key cr_id (filter (\<lambda>r. (case thread of None \<Rightarrow> True | Some t \<Rightarrow> (cr_thread r, cr_ns r) = t) \<and>
          (case before of None \<Rightarrow> True | Some b \<Rightarrow> cr_id r < b)) (cw_checkpoints w)))))"

subsection \<open>Storing checkpoints\<close>

text \<open>
  \<open>put\<close> inserts the row in one transaction and moves the head of the thread in another, for which it carries the head it read
  and the row. A row that is there already ends the call.
\<close>

record put_request =
  pr_thread :: string
  pr_ns :: string
  pr_id :: string
  pr_parent :: "string option"
  pr_type :: string
  pr_checkpoint :: string
  pr_metadata :: string

definition put_request_of :: "'v serde \<Rightarrow> string \<times> string \<Rightarrow> string option \<Rightarrow> string \<Rightarrow> 'v \<Rightarrow> json \<Rightarrow> put_request" where
  "put_request_of sd thread parent i checkpoint metadata =
     (let dumped = sd_dumps sd checkpoint in
      \<lparr>pr_thread = fst thread, pr_ns = snd thread, pr_id = i, pr_parent = parent, pr_type = fst dumped, pr_checkpoint = snd dumped,
       pr_metadata = json_dumps False metadata\<rparr>)"

definition new_checkpoint_row :: "(string \<Rightarrow> string) \<Rightarrow> (string \<Rightarrow> string) \<Rightarrow> string \<Rightarrow> put_request \<Rightarrow> checkpoint_head option \<Rightarrow> checkpoint_row" where
  "new_checkpoint_row sha mac key_id p head =
     (let r = \<lparr>cr_thread = pr_thread p, cr_ns = pr_ns p, cr_id = pr_id p, cr_parent = pr_parent p, cr_type = pr_type p,
            cr_checkpoint = pr_checkpoint p, cr_metadata = pr_metadata p,
            cr_generation = (case head of None \<Rightarrow> 1 | Some h \<Rightarrow> ch_generation h + 1),
            cr_previous = (case head of None \<Rightarrow> ZERO_DIGEST | Some h \<Rightarrow> ch_digest h), cr_digest = []\<rparr>
      in r\<lparr>cr_digest := mac (checkpoint_message sha key_id r)\<rparr>)"

definition same_checkpoint :: "put_request \<Rightarrow> checkpoint_row \<Rightarrow> bool" where
  "same_checkpoint p r \<longleftrightarrow> cr_type r = pr_type p \<and> cr_checkpoint r = pr_checkpoint p \<and> cr_metadata r = pr_metadata p \<and> cr_parent r = pr_parent p"

definition put_insert ::
  "(string \<Rightarrow> string) \<Rightarrow> (string \<Rightarrow> string) \<Rightarrow> string \<Rightarrow> put_request
     \<Rightarrow> (checkpoint_world, checkpoint_error, (checkpoint_head option \<times> checkpoint_row) option) operation" where
  "put_insert sha mac key_id p w =
     (case row_of cr_key (pr_thread p, pr_ns p, pr_id p) (cw_checkpoints w) of
        Some existing \<Rightarrow>
          (case verify_checkpoint_row sha mac key_id existing of
             Some e \<Rightarrow> (Inl e, w)
           | None \<Rightarrow> if same_checkpoint p existing then (Inr None, w) else (Inl (CheckpointIntegrityError CHECKPOINT_CONFLICT), w))
      | None \<Rightarrow>
          (let head = row_of ch_key (pr_thread p, pr_ns p) (cw_heads w); r = new_checkpoint_row sha mac key_id p head in
           if cr_generation r < 1 \<or> cr_slot r \<in> cr_slot ` set (cw_checkpoints w) then (Inl SqliteIntegrityError, w)
           else (Inr (Some (head, r)), w\<lparr>cw_checkpoints := cw_checkpoints w @ [r]\<rparr>)))"

definition head_of :: "checkpoint_row \<Rightarrow> checkpoint_head" where
  "head_of r = \<lparr>ch_thread = cr_thread r, ch_ns = cr_ns r, ch_generation = cr_generation r, ch_id = cr_id r, ch_digest = cr_digest r\<rparr>"

text \<open>The head may have moved since it was read; then the row is taken back and the conflict raised.\<close>

definition put_undo :: "checkpoint_row \<Rightarrow> checkpoint_world \<Rightarrow> checkpoint_world" where
  "put_undo r w = w\<lparr>cw_checkpoints := filter (\<lambda>q. cr_key q \<noteq> cr_key r) (cw_checkpoints w)\<rparr>"

definition put_anchor :: "checkpoint_head option \<times> checkpoint_row \<Rightarrow> (checkpoint_world, checkpoint_error, unit) operation" where
  "put_anchor ticket w =
     (let r = snd ticket in
      if row_of ch_key (cr_thread r, cr_ns r) (cw_heads w) \<noteq> fst ticket
        then (Inl (CheckpointIntegrityError CHECKPOINT_CONFLICT), put_undo r w)
      else (Inr (), w\<lparr>cw_heads := upsert ch_key (head_of r) (cw_heads w)\<rparr>))"

definition checkpoint_put ::
  "(string \<Rightarrow> string) \<Rightarrow> (string \<Rightarrow> string) \<Rightarrow> string \<Rightarrow> put_request \<Rightarrow> (checkpoint_world, checkpoint_error, string \<times> string \<times> string) operation" where
  "checkpoint_put sha mac key_id p w =
     (case put_insert sha mac key_id p w of
        (Inl e, w) \<Rightarrow> (Inl e, w)
      | (Inr None, w) \<Rightarrow> (Inr (pr_thread p, pr_ns p, pr_id p), w)
      | (Inr (Some ticket), w) \<Rightarrow>
          (case put_anchor ticket w of (Inl e, w) \<Rightarrow> (Inl e, w) | (Inr _, w) \<Rightarrow> (Inr (pr_thread p, pr_ns p, pr_id p), w)))"

subsection \<open>Pending writes\<close>

definition new_write_row ::
  "(string \<Rightarrow> string) \<Rightarrow> (string \<Rightarrow> string) \<Rightarrow> string \<Rightarrow> 'v serde \<Rightarrow> string \<times> string \<times> string \<Rightarrow> string \<Rightarrow> nat \<Rightarrow> string \<times> 'v \<Rightarrow> write_row" where
  "new_write_row sha mac key_id sd key task i cv =
     (let dumped = sd_dumps sd (snd cv);
          w = \<lparr>wr_thread = fst key, wr_ns = fst (snd key), wr_checkpoint = snd (snd key), wr_task = task,
            wr_idx = (case sd_idx_map sd (fst cv) of Some j \<Rightarrow> j | None \<Rightarrow> int i), wr_channel = fst cv, wr_type = fst dumped,
            wr_value = snd dumped, wr_digest = []\<rparr>
      in w\<lparr>wr_digest := mac (write_message sha key_id w)\<rparr>)"

definition new_write_rows ::
  "(string \<Rightarrow> string) \<Rightarrow> (string \<Rightarrow> string) \<Rightarrow> string \<Rightarrow> 'v serde \<Rightarrow> string \<times> string \<times> string \<Rightarrow> string \<Rightarrow> (string \<times> 'v) list \<Rightarrow> write_row list" where
  "new_write_rows sha mac key_id sd key task writes = map (\<lambda>(i, cv). new_write_row sha mac key_id sd key task i cv) (List.enumerate 0 writes)"

text \<open>\<^verbatim>\<open>INSERT OR REPLACE\<close> deletes the row of the same key first.\<close>

definition insert_write :: "bool \<Rightarrow> write_row \<Rightarrow> write_row list \<Rightarrow> write_row list" where
  "insert_write replacing r rows =
     (if replacing then filter (\<lambda>q. wr_key q \<noteq> wr_key r) rows @ [r] else insert_or_ignore wr_key r rows)"

definition writes_insert ::
  "(string \<Rightarrow> string) \<Rightarrow> (string \<Rightarrow> string) \<Rightarrow> string \<Rightarrow> 'v serde \<Rightarrow> string \<times> string \<times> string \<Rightarrow> (string \<times> 'v) list \<Rightarrow> string
     \<Rightarrow> checkpoint_world \<Rightarrow> write_head \<times> checkpoint_world" where
  "writes_insert sha mac key_id sd key writes task w =
     (let replacing = list_all (\<lambda>cv. sd_idx_map sd (fst cv) \<noteq> None) writes;
          table = fold (insert_write replacing) (new_write_rows sha mac key_id sd key task writes) (cw_writes w);
          rows = write_rows_of key table
      in (\<lparr>wh_thread = fst key, wh_ns = fst (snd key), wh_checkpoint = snd (snd key), wh_count = length rows,
             wh_aggregate = mac (aggregate_message key_id rows)\<rparr>, w\<lparr>cw_writes := table\<rparr>))"

definition writes_anchor :: "write_head \<Rightarrow> checkpoint_world \<Rightarrow> checkpoint_world" where
  "writes_anchor h w = w\<lparr>cw_write_heads := upsert wh_key h (cw_write_heads w)\<rparr>"

definition put_writes ::
  "(string \<Rightarrow> string) \<Rightarrow> (string \<Rightarrow> string) \<Rightarrow> string \<Rightarrow> 'v serde \<Rightarrow> string \<times> string \<times> string \<Rightarrow> (string \<times> 'v) list \<Rightarrow> string
     \<Rightarrow> checkpoint_world \<Rightarrow> checkpoint_world" where
  "put_writes sha mac key_id sd key writes task w =
     (let (h, w) = writes_insert sha mac key_id sd key writes task w in writes_anchor h w)"

subsection \<open>Deleting a thread\<close>

definition delete_rows :: "string \<Rightarrow> checkpoint_world \<Rightarrow> checkpoint_world" where
  "delete_rows thread w = w\<lparr>cw_checkpoints := filter (\<lambda>r. cr_thread r \<noteq> thread) (cw_checkpoints w),
     cw_writes := filter (\<lambda>r. wr_thread r \<noteq> thread) (cw_writes w)\<rparr>"

definition delete_heads :: "string \<Rightarrow> checkpoint_world \<Rightarrow> checkpoint_world" where
  "delete_heads thread w = w\<lparr>cw_heads := filter (\<lambda>h. ch_thread h \<noteq> thread) (cw_heads w),
     cw_write_heads := filter (\<lambda>h. wh_thread h \<noteq> thread) (cw_write_heads w)\<rparr>"

definition delete_thread :: "string \<Rightarrow> checkpoint_world \<Rightarrow> checkpoint_world" where
  "delete_thread thread w = delete_heads thread (delete_rows thread w)"

end
