(* ===== verification/Checkpoint_Histories.thy ===== *)
theory Checkpoint_Histories
  imports Checkpoint_Store
begin

section \<open>Histories of the checkpoint store\<close>

text \<open>
  The chain of a thread, and what can be said of a store whose main database anyone may rewrite: a collision of the HMAC or of
  SHA-256 is named where the conclusion depends on there being none.
\<close>

definition checkpoint_collision :: "(string \<Rightarrow> string) \<Rightarrow> (string \<Rightarrow> string) \<Rightarrow> string \<Rightarrow> checkpoint_row \<Rightarrow> checkpoint_row \<Rightarrow> bool" where
  "checkpoint_collision sha mac key_id a b \<longleftrightarrow> collision mac (checkpoint_message sha key_id a) (checkpoint_message sha key_id b) \<or>
     collision sha (cr_checkpoint a) (cr_checkpoint b) \<or> collision sha (utf8 (cr_metadata a)) (utf8 (cr_metadata b))"

definition signed :: "(string \<Rightarrow> string) \<Rightarrow> (string \<Rightarrow> string) \<Rightarrow> string \<Rightarrow> checkpoint_row \<Rightarrow> bool" where
  "signed sha mac key_id r \<longleftrightarrow> cr_digest r = mac (checkpoint_message sha key_id r)"

lemma verify_checkpoint_row_None: "verify_checkpoint_row sha mac key_id r = None \<longleftrightarrow> signed sha mac key_id r"
  by (auto simp: verify_checkpoint_row_def signed_def)

lemma json_option_inject [simp]: "json_option x = json_option y \<longleftrightarrow> x = y"
  by (simp add: json_option_def split: option.splits)

lemma wf_checkpoint_fields: "wf_json (JObj (checkpoint_fields sha key_id r))"
  by (simp add: checkpoint_fields_def json_option_def split: option.split)

lemma sort_keys_json_option [simp]: "sort_keys (json_option x) = json_option x"
  by (simp add: json_option_def split: option.split)

lemma checkpoint_message_field:
  assumes "checkpoint_message sha key_id a = checkpoint_message sha key_id b"
  shows "map_option sort_keys (map_of (checkpoint_fields sha key_id a) k) = map_option sort_keys (map_of (checkpoint_fields sha key_id b) k)"
  using assms unfolding checkpoint_message_def utf8_inject by (rule json_dumps_field [OF _ wf_checkpoint_fields wf_checkpoint_fields])

lemma checkpoint_message_inject:
  assumes "checkpoint_message sha key_id a = checkpoint_message sha key_id b"
  shows "cr_thread a = cr_thread b" "cr_ns a = cr_ns b" "cr_id a = cr_id b" "cr_parent a = cr_parent b" "cr_type a = cr_type b"
    "sha (cr_checkpoint a) = sha (cr_checkpoint b)" "sha (utf8 (cr_metadata a)) = sha (utf8 (cr_metadata b))"
    "cr_generation a = cr_generation b" "cr_previous a = cr_previous b"
  using checkpoint_message_field [OF assms, of "''thread_id''"] checkpoint_message_field [OF assms, of "''checkpoint_ns''"]
    checkpoint_message_field [OF assms, of "''checkpoint_id''"] checkpoint_message_field [OF assms, of "''parent_checkpoint_id''"]
    checkpoint_message_field [OF assms, of "''type''"] checkpoint_message_field [OF assms, of "''checkpoint_sha256''"]
    checkpoint_message_field [OF assms, of "''metadata_sha256''"] checkpoint_message_field [OF assms, of "''generation''"]
    checkpoint_message_field [OF assms, of "''previous_digest''"]
  by (simp_all add: checkpoint_fields_def)

lemma signed_inject:
  assumes "signed sha mac key_id a" and "signed sha mac key_id b" and "cr_digest a = cr_digest b"
  shows "a = b \<or> checkpoint_collision sha mac key_id a b"
proof (rule disjCI)
  assume none: "\<not> checkpoint_collision sha mac key_id a b"
  have "checkpoint_message sha key_id a = checkpoint_message sha key_id b"
    using assms none by (auto simp: signed_def checkpoint_collision_def collision_def)
  note same = checkpoint_message_inject [OF this]
  have "cr_checkpoint a = cr_checkpoint b" "cr_metadata a = cr_metadata b"
    using same(6,7) none unfolding checkpoint_collision_def collision_def by (metis utf8_inject)+
  then show "a = b" using same assms(3) by simp
qed

subsection \<open>The chain of a thread\<close>

definition same_thread :: "string \<times> string \<Rightarrow> checkpoint_row \<Rightarrow> bool" where "same_thread t r \<longleftrightarrow> (cr_thread r, cr_ns r) = t"

text \<open>Newest first: each row continues the next one.\<close>

fun linked :: "(string \<Rightarrow> string) \<Rightarrow> (string \<Rightarrow> string) \<Rightarrow> string \<Rightarrow> string \<times> string \<Rightarrow> checkpoint_row list \<Rightarrow> bool" where
  "linked sha mac key_id t [] \<longleftrightarrow> True"
| "linked sha mac key_id t (r # rs) \<longleftrightarrow> same_thread t r \<and> signed sha mac key_id r \<and> cr_generation r = int (length rs) + 1 \<and>
     cr_previous r = (case rs of [] \<Rightarrow> ZERO_DIGEST | q # _ \<Rightarrow> cr_digest q) \<and> linked sha mac key_id t rs"

lemma verify_checkpoint_chain_signed: "verify_checkpoint_chain sha mac key_id rows r = None \<Longrightarrow> signed sha mac key_id r"
  by (subst (asm) verify_checkpoint_chain.simps) (simp add: verify_checkpoint_row_None [symmetric] split: option.splits)

lemma verified_chain_holds_linked:
  assumes "linked sha mac key_id t (l # rest)" and "cr_digest r = cr_digest l" and "r \<in> set rows"
    and "verify_checkpoint_chain sha mac key_id rows r = None"
  shows "set (l # rest) \<subseteq> set rows \<or> (\<exists>a \<in> set rows. \<exists>b \<in> set (l # rest). checkpoint_collision sha mac key_id a b)"
  using assms
proof (induction rest arbitrary: l r)
  case Nil
  then have "r = l \<or> checkpoint_collision sha mac key_id r l"
    using signed_inject [OF verify_checkpoint_chain_signed] by simp
  then show ?case using Nil.prems(3) by auto
next
  case (Cons l' rest)
  have same: "r = l \<or> checkpoint_collision sha mac key_id r l"
    using Cons.prems signed_inject [OF verify_checkpoint_chain_signed] by simp
  show ?case
  proof (cases "r = l")
    case False
    with same Cons.prems(3) show ?thesis by auto
  next
    case True
    have gen: "cr_generation r \<noteq> 1" and prev: "cr_previous r = cr_digest l'" using True Cons.prems(1) by simp_all
    obtain q where q: "previous_row rows r = Some q" "cr_previous r = cr_digest q" "verify_checkpoint_chain sha mac key_id rows q = None"
      using Cons.prems(4) gen
      by (subst (asm) verify_checkpoint_chain.simps) (auto split: option.splits if_splits)
    have "set (l' # rest) \<subseteq> set rows \<or> (\<exists>a \<in> set rows. \<exists>b \<in> set (l' # rest). checkpoint_collision sha mac key_id a b)"
      using Cons.IH [of l' q] Cons.prems(1) q prev previous_row_in [OF q(1)] by simp
    then show ?thesis using True Cons.prems(3) by auto
  qed
qed

subsection \<open>Histories\<close>

text \<open>
  A history knows, besides the two databases, the calls of \<open>put\<close> that have stored their row and not yet moved the head, and the
  same for \<open>put_writes\<close>; a crash leaves a ticket unused. The log holds the rows whose \<open>put\<close> moved the head, newest first. The main
  database may be rewritten at any time.
\<close>

record checkpoint_state =
  hs_world :: checkpoint_world
  hs_tickets :: "(checkpoint_head option \<times> checkpoint_row) list"
  hs_sets :: "write_head list"
  hs_log :: "checkpoint_row list"

definition initial_checkpoints :: checkpoint_state where
  "initial_checkpoints = \<lparr>hs_world = empty_world, hs_tickets = [], hs_sets = [], hs_log = []\<rparr>"

inductive checkpoint_step ::
  "(string \<Rightarrow> string) \<Rightarrow> (string \<Rightarrow> string) \<Rightarrow> string \<Rightarrow> 'v serde \<Rightarrow> checkpoint_state \<Rightarrow> checkpoint_state \<Rightarrow> bool"
  for sha mac :: "string \<Rightarrow> string" and key_id :: string and sd :: "'v serde" where
  inserted: "put_insert sha mac key_id p (hs_world s) = (Inr (Some k), w) \<Longrightarrow>
     checkpoint_step sha mac key_id sd s (s\<lparr>hs_world := w, hs_tickets := k # hs_tickets s\<rparr>)"
| found: "put_insert sha mac key_id p (hs_world s) = (Inr None, w) \<Longrightarrow> checkpoint_step sha mac key_id sd s (s\<lparr>hs_world := w\<rparr>)"
| refused: "put_insert sha mac key_id p (hs_world s) = (Inl e, w) \<Longrightarrow> checkpoint_step sha mac key_id sd s (s\<lparr>hs_world := w\<rparr>)"
| anchored: "k \<in> set (hs_tickets s) \<Longrightarrow> put_anchor k (hs_world s) = (Inr (), w) \<Longrightarrow>
     checkpoint_step sha mac key_id sd s (s\<lparr>hs_world := w, hs_tickets := remove1 k (hs_tickets s), hs_log := snd k # hs_log s\<rparr>)"
| conflicted: "k \<in> set (hs_tickets s) \<Longrightarrow> put_anchor k (hs_world s) = (Inl e, w) \<Longrightarrow>
     checkpoint_step sha mac key_id sd s (s\<lparr>hs_world := w, hs_tickets := remove1 k (hs_tickets s)\<rparr>)"
| anchor_failed: "k \<in> set (hs_tickets s) \<Longrightarrow>
     checkpoint_step sha mac key_id sd s (s\<lparr>hs_world := put_undo (snd k) (hs_world s), hs_tickets := remove1 k (hs_tickets s)\<rparr>)"
| wrote: "writes_insert sha mac key_id sd key writes task (hs_world s) = (h, w) \<Longrightarrow>
     checkpoint_step sha mac key_id sd s (s\<lparr>hs_world := w, hs_sets := h # hs_sets s\<rparr>)"
| recorded: "h \<in> set (hs_sets s) \<Longrightarrow>
     checkpoint_step sha mac key_id sd s (s\<lparr>hs_world := writes_anchor h (hs_world s), hs_sets := remove1 h (hs_sets s)\<rparr>)"
| rows_deleted: "checkpoint_step sha mac key_id sd s (s\<lparr>hs_world := delete_rows thread (hs_world s)\<rparr>)"
| heads_deleted: "checkpoint_step sha mac key_id sd s
     (s\<lparr>hs_world := delete_heads thread (hs_world s), hs_log := filter (\<lambda>r. cr_thread r \<noteq> thread) (hs_log s)\<rparr>)"
| rewritten: "checkpoint_step sha mac key_id sd s (s\<lparr>hs_world := (hs_world s)\<lparr>cw_checkpoints := rows, cw_writes := wrs\<rparr>\<rparr>)"

abbreviation checkpoint_history ::
  "(string \<Rightarrow> string) \<Rightarrow> (string \<Rightarrow> string) \<Rightarrow> string \<Rightarrow> 'v serde \<Rightarrow> checkpoint_state \<Rightarrow> bool" where
  "checkpoint_history sha mac key_id sd s \<equiv> (checkpoint_step sha mac key_id sd)\<^sup>*\<^sup>* initial_checkpoints s"

definition thread_log :: "string \<times> string \<Rightarrow> checkpoint_row list \<Rightarrow> checkpoint_row list" where
  "thread_log t log = filter (same_thread t) log"

definition ticket_ok :: "(string \<Rightarrow> string) \<Rightarrow> (string \<Rightarrow> string) \<Rightarrow> string \<Rightarrow> checkpoint_head option \<times> checkpoint_row \<Rightarrow> bool" where
  "ticket_ok sha mac key_id k \<longleftrightarrow> signed sha mac key_id (snd k) \<and>
     cr_generation (snd k) = (case fst k of None \<Rightarrow> 1 | Some h \<Rightarrow> ch_generation h + 1) \<and>
     cr_previous (snd k) = (case fst k of None \<Rightarrow> ZERO_DIGEST | Some h \<Rightarrow> ch_digest h)"

definition anchors_log :: "(string \<Rightarrow> string) \<Rightarrow> (string \<Rightarrow> string) \<Rightarrow> string \<Rightarrow> checkpoint_state \<Rightarrow> bool" where
  "anchors_log sha mac key_id s \<longleftrightarrow>
     (\<forall>t. linked sha mac key_id t (thread_log t (hs_log s)) \<and>
       row_of ch_key t (cw_heads (hs_world s)) = (case thread_log t (hs_log s) of [] \<Rightarrow> None | r # _ \<Rightarrow> Some (head_of r))) \<and>
     (\<forall>k \<in> set (hs_tickets s). ticket_ok sha mac key_id k)"

lemma checkpoint_message_digest [simp]: "checkpoint_message sha key_id (r\<lparr>cr_digest := d\<rparr>) = checkpoint_message sha key_id r"
  by (simp add: checkpoint_message_def checkpoint_fields_def)

lemma new_checkpoint_row_fields [simp]:
  "cr_thread (new_checkpoint_row sha mac key_id p head) = pr_thread p" "cr_ns (new_checkpoint_row sha mac key_id p head) = pr_ns p"
  "cr_id (new_checkpoint_row sha mac key_id p head) = pr_id p" "cr_parent (new_checkpoint_row sha mac key_id p head) = pr_parent p"
  "cr_type (new_checkpoint_row sha mac key_id p head) = pr_type p"
  "cr_checkpoint (new_checkpoint_row sha mac key_id p head) = pr_checkpoint p"
  "cr_metadata (new_checkpoint_row sha mac key_id p head) = pr_metadata p"
  "cr_generation (new_checkpoint_row sha mac key_id p head) = (case head of None \<Rightarrow> 1 | Some h \<Rightarrow> ch_generation h + 1)"
  "cr_previous (new_checkpoint_row sha mac key_id p head) = (case head of None \<Rightarrow> ZERO_DIGEST | Some h \<Rightarrow> ch_digest h)"
  by (simp_all add: new_checkpoint_row_def Let_def)

lemma signed_by_digest: "signed sha mac key_id (r\<lparr>cr_digest := mac (checkpoint_message sha key_id r)\<rparr>)"
  by (simp add: signed_def)

lemma new_checkpoint_row_signed [simp]: "signed sha mac key_id (new_checkpoint_row sha mac key_id p head)"
  unfolding new_checkpoint_row_def Let_def by (rule signed_by_digest)

text \<open>What \<open>put\<close> does up to the anchor, on each branch.\<close>

lemma put_insert_cases:
  obtains
    (found) r where "row_of cr_key (pr_thread p, pr_ns p, pr_id p) (cw_checkpoints w) = Some r" "signed sha mac key_id r" "same_checkpoint p r"
      "put_insert sha mac key_id p w = (Inr None, w)"
  | (inserted) head where "row_of cr_key (pr_thread p, pr_ns p, pr_id p) (cw_checkpoints w) = None"
      "head = row_of ch_key (pr_thread p, pr_ns p) (cw_heads w)"
      "cr_slot (new_checkpoint_row sha mac key_id p head) \<notin> cr_slot ` set (cw_checkpoints w)"
      "put_insert sha mac key_id p w = (Inr (Some (head, new_checkpoint_row sha mac key_id p head)),
         w\<lparr>cw_checkpoints := cw_checkpoints w @ [new_checkpoint_row sha mac key_id p head]\<rparr>)"
  | (refused) e where "put_insert sha mac key_id p w = (Inl e, w)"
proof (cases "row_of cr_key (pr_thread p, pr_ns p, pr_id p) (cw_checkpoints w)")
  case None
  define head where "head = row_of ch_key (pr_thread p, pr_ns p) (cw_heads w)"
  let ?r = "new_checkpoint_row sha mac key_id p head"
  show ?thesis
  proof (cases "cr_generation ?r < 1 \<or> cr_slot ?r \<in> cr_slot ` set (cw_checkpoints w)")
    case True
    then show ?thesis using None that(3) [of SqliteIntegrityError] by (simp add: put_insert_def Let_def head_def)
  next
    case False
    then have "put_insert sha mac key_id p w = (Inr (Some (head, ?r)), w\<lparr>cw_checkpoints := cw_checkpoints w @ [?r]\<rparr>)"
      using None unfolding put_insert_def Let_def head_def by (simp only: option.case if_False)
    then show ?thesis using None False that(2) [of head] head_def by simp
  qed
next
  case (Some r)
  then show ?thesis using that
    by (cases "verify_checkpoint_row sha mac key_id r"; cases "same_checkpoint p r")
      (simp_all add: put_insert_def verify_checkpoint_row_None [symmetric])
qed

lemma put_insert_world:
  assumes "put_insert sha mac key_id p w = (x, w')"
  shows "cw_heads w' = cw_heads w" and "x = Inr (Some k) \<Longrightarrow> ticket_ok sha mac key_id k"
  using assms by (cases rule: put_insert_cases [of p w sha mac key_id]; force simp: ticket_ok_def)+

lemma row_of_filter:
  assumes "\<And>h. key h = k \<Longrightarrow> P h"
  shows "row_of key k (filter P rows) = row_of key k rows"
  using assms by (induction rows) auto

lemma thread_log_Cons: "thread_log t (r # log) = (if same_thread t r then r # thread_log t log else thread_log t log)"
  by (simp add: thread_log_def)

lemma linked_same_thread: "linked sha mac key_id t rs \<Longrightarrow> r \<in> set rs \<Longrightarrow> same_thread t r"
  by (induction rs) auto

lemma anchors_logD:
  assumes "anchors_log sha mac key_id s"
  shows "linked sha mac key_id t (thread_log t (hs_log s))"
    and "row_of ch_key t (cw_heads (hs_world s)) = (case thread_log t (hs_log s) of [] \<Rightarrow> None | r # _ \<Rightarrow> Some (head_of r))"
    and "k \<in> set (hs_tickets s) \<Longrightarrow> ticket_ok sha mac key_id k"
  using assms unfolding anchors_log_def by blast+

lemma anchors_logI:
  assumes "\<And>t. linked sha mac key_id t (thread_log t (hs_log s)) \<and>
      row_of ch_key t (cw_heads (hs_world s)) = (case thread_log t (hs_log s) of [] \<Rightarrow> None | r # _ \<Rightarrow> Some (head_of r))"
    and "\<And>k. k \<in> set (hs_tickets s) \<Longrightarrow> ticket_ok sha mac key_id k"
  shows "anchors_log sha mac key_id s"
  using assms unfolding anchors_log_def by blast

lemma in_remove1: "x \<in> set (remove1 k xs) \<Longrightarrow> x \<in> set xs"
  using set_remove1_subset by fast

lemma anchors_log_initial: "anchors_log sha mac key_id initial_checkpoints"
  by (simp add: anchors_log_def initial_checkpoints_def thread_log_def empty_world_def)

lemma anchors_log_same:
  assumes "anchors_log sha mac key_id s" and "hs_log s' = hs_log s" and "cw_heads (hs_world s') = cw_heads (hs_world s)"
    and "\<And>k. k \<in> set (hs_tickets s') \<Longrightarrow> k \<in> set (hs_tickets s) \<or> ticket_ok sha mac key_id k"
  shows "anchors_log sha mac key_id s'"
  using assms unfolding anchors_log_def by (metis (no_types, lifting))

lemma anchored_row_links:
  assumes "linked sha mac key_id t log" and "same_thread t r" and "ticket_ok sha mac key_id (h, r)"
    and "h = (case log of [] \<Rightarrow> None | l # _ \<Rightarrow> Some (head_of l))"
  shows "linked sha mac key_id t (r # log)"
  using assms by (cases log) (auto simp: ticket_ok_def head_of_def)

lemma anchors_log_anchored:
  assumes "anchors_log sha mac key_id s" and "k \<in> set (hs_tickets s)" and "put_anchor k (hs_world s) = (Inr (), w)"
  shows "anchors_log sha mac key_id (s\<lparr>hs_world := w, hs_tickets := remove1 k (hs_tickets s), hs_log := snd k # hs_log s\<rparr>)"
proof -
  obtain h r where k: "k = (h, r)" by (cases k)
  let ?t = "(cr_thread r, cr_ns r)"
  have head: "row_of ch_key ?t (cw_heads (hs_world s)) = h" and w: "cw_heads w = upsert ch_key (head_of r) (cw_heads (hs_world s))"
    using assms(3) by (auto simp: k put_anchor_def Let_def split: if_splits)
  have key: "ch_key (head_of r) = ?t" by (simp add: ch_key_def head_of_def)
  have ok: "ticket_ok sha mac key_id (h, r)" using assms(1,2) by (simp add: anchors_log_def k)
  have each: "linked sha mac key_id t (thread_log t (r # hs_log s)) \<and>
      row_of ch_key t (cw_heads w) = (case thread_log t (r # hs_log s) of [] \<Rightarrow> None | r # _ \<Rightarrow> Some (head_of r))" for t
  proof (cases "same_thread t r")
    case True
    then have t: "t = ?t" by (simp add: same_thread_def)
    have "linked sha mac key_id t (r # thread_log t (hs_log s))"
      using anchors_logD(2) [OF assms(1), of t] head t
      by (intro anchored_row_links [OF anchors_logD(1) [OF assms(1)] True ok]) simp
    with True t key show ?thesis by (simp add: thread_log_Cons w row_of_upsert)
  next
    case False
    then have "ch_key (head_of r) \<noteq> t" by (auto simp: key same_thread_def)
    with False anchors_logD(1,2) [OF assms(1), of t] show ?thesis by (simp add: thread_log_Cons w row_of_upsert)
  qed
  show ?thesis
  proof (rule anchors_logI)
    fix j assume "j \<in> set (hs_tickets (s\<lparr>hs_world := w, hs_tickets := remove1 k (hs_tickets s), hs_log := snd k # hs_log s\<rparr>))"
    then have "j \<in> set (hs_tickets s)" by simp (rule in_remove1)
    then show "ticket_ok sha mac key_id j" by (rule anchors_logD(3) [OF assms(1)])
  next
    fix t
    let ?s = "s\<lparr>hs_world := w, hs_tickets := remove1 k (hs_tickets s), hs_log := snd k # hs_log s\<rparr>"
    have "hs_log ?s = r # hs_log s" "hs_world ?s = w" by (simp_all add: k)
    then show "linked sha mac key_id t (thread_log t (hs_log ?s)) \<and>
        row_of ch_key t (cw_heads (hs_world ?s)) = (case thread_log t (hs_log ?s) of [] \<Rightarrow> None | r # _ \<Rightarrow> Some (head_of r))"
      using each [of t] by (simp only:)
  qed
qed

lemma anchors_log_heads_deleted:
  assumes "anchors_log sha mac key_id s"
  shows "anchors_log sha mac key_id
    (s\<lparr>hs_world := delete_heads thread (hs_world s), hs_log := filter (\<lambda>r. cr_thread r \<noteq> thread) (hs_log s)\<rparr>)"
proof -
  let ?log = "filter (\<lambda>r. cr_thread r \<noteq> thread) (hs_log s)" and ?heads = "filter (\<lambda>h. ch_thread h \<noteq> thread) (cw_heads (hs_world s))"
  have each: "linked sha mac key_id t (thread_log t ?log) \<and>
      row_of ch_key t ?heads = (case thread_log t ?log of [] \<Rightarrow> None | r # _ \<Rightarrow> Some (head_of r))" for t
  proof (cases "fst t = thread")
    case True
    have "thread_log t ?log = []" using True by (auto simp: thread_log_def same_thread_def filter_empty_conv)
    moreover have "row_of ch_key t ?heads = None" using True by (auto simp: row_of_None ch_key_def)
    ultimately show ?thesis by simp
  next
    case False
    have "thread_log t ?log = thread_log t (hs_log s)" 
      using False by (auto simp: thread_log_def filter_filter same_thread_def intro!: filter_cong)
    moreover have "row_of ch_key t ?heads = row_of ch_key t (cw_heads (hs_world s))"
      using False by (intro row_of_filter) (auto simp: ch_key_def)
    ultimately show ?thesis using anchors_logD(1,2) [OF assms, of t] by simp
  qed
  let ?s = "s\<lparr>hs_world := delete_heads thread (hs_world s), hs_log := ?log\<rparr>"
  have fields: "hs_log ?s = ?log" "cw_heads (hs_world ?s) = ?heads" "hs_tickets ?s = hs_tickets s" by (simp_all add: delete_heads_def)
  show ?thesis by (rule anchors_logI; unfold fields) (rule each, rule anchors_logD(3) [OF assms])
qed

lemma put_anchor_Inl: "put_anchor k w = (Inl e, w') \<Longrightarrow> w' = put_undo (snd k) w \<and> e = CheckpointIntegrityError CHECKPOINT_CONFLICT"
  by (auto simp: put_anchor_def Let_def split: if_splits)

lemma anchors_log_step:
  assumes "checkpoint_step sha mac key_id sd s s'" and "anchors_log sha mac key_id s"
  shows "anchors_log sha mac key_id s'"
  using assms
proof (induction rule: checkpoint_step.induct)
  case (inserted p s k w)
  then show ?case using put_insert_world [OF inserted(1)] by (intro anchors_log_same [OF inserted(2)]) auto
next
  case (found p s w)
  then show ?case using put_insert_world [OF found(1)] by (intro anchors_log_same [OF found(2)]) auto
next
  case (refused p s e w)
  then show ?case using put_insert_world [OF refused(1)] by (intro anchors_log_same [OF refused(2)]) auto
next
  case (anchored k s w)
  then show ?case by (intro anchors_log_anchored)
next
  case (conflicted k s e w)
  then show ?case using put_anchor_Inl [OF conflicted(2)]
    by (intro anchors_log_same [OF conflicted(3)]) (auto simp: put_undo_def dest: in_remove1)
next
  case (anchor_failed k s)
  then show ?case by (intro anchors_log_same [OF anchor_failed(2)]) (auto simp: put_undo_def dest: in_remove1)
next
  case (wrote key writes task s h w)
  then show ?case by (intro anchors_log_same [OF wrote(2)]) (auto simp: writes_insert_def Let_def)
next
  case (recorded h s)
  then show ?case by (intro anchors_log_same [OF recorded(2)]) (auto simp: writes_anchor_def)
next
  case (rows_deleted s thread)
  then show ?case by (intro anchors_log_same [OF rows_deleted]) (auto simp: delete_rows_def)
next
  case (heads_deleted s thread)
  then show ?case by (rule anchors_log_heads_deleted)
next
  case (rewritten s rows wrs)
  then show ?case by (intro anchors_log_same [OF rewritten]) auto
qed

lemma anchors_log_history: "checkpoint_history sha mac key_id sd s \<Longrightarrow> anchors_log sha mac key_id s"
  by (induction rule: rtranclp_induct) (simp_all add: anchors_log_initial anchors_log_step)

lemma tuple_from_row_Inr:
  assumes "tuple_from_row sha mac key_id sd w current r = Inr x"
  shows "verify_checkpoint_chain sha mac key_id (cw_checkpoints w) r = None"
    and "current \<Longrightarrow> \<exists>h. row_of ch_key (cr_thread r, cr_ns r) (cw_heads w) = Some h \<and> ch_generation h = cr_generation r \<and>
      ch_id h = cr_id r \<and> ch_digest h = cr_digest r"
    and "verify_write_set sha mac key_id (cr_key r) (write_rows_of (cr_key r) (cw_writes w)) (cw_write_heads w) = None"
    and "ct_thread x = cr_thread r" "ct_ns x = cr_ns r" "ct_id x = cr_id r" "ct_parent x = cr_parent r"
    and "sd_loads sd (cr_type r, cr_checkpoint r) = Some (ct_checkpoint x)" "json_loads (cr_metadata r) = Some (ct_metadata x)"
    and "load_writes sd (write_rows_of (cr_key r) (cw_writes w)) = Some (ct_writes x)"
  using assms by (auto simp: tuple_from_row_def Let_def split: option.splits if_splits prod.splits)

lemma get_tuple_row:
  assumes "get_tuple sha mac key_id sd t req w = Inr (Some x)"
  obtains r where "r \<in> set (cw_checkpoints w)" "cr_key r = (fst t, snd t, cr_id r)" "\<And>i. req = Some i \<Longrightarrow> cr_id r = i"
    "tuple_from_row sha mac key_id sd w (req = None) r = Inr x"
    "row_of cr_key (fst t, snd t, cr_id r) (cw_checkpoints w) = Some r"
proof -
  define i where "i = (case req of Some i \<Rightarrow> Some i | None \<Rightarrow> map_option ch_id (row_of ch_key t (cw_heads w)))"
  obtain j where j: "i = Some j" using assms by (cases i) (simp_all add: get_tuple_def i_def)
  obtain r where r: "row_of cr_key (fst t, snd t, j) (cw_checkpoints w) = Some r"
    using assms j by (cases "row_of cr_key (fst t, snd t, j) (cw_checkpoints w)") (simp_all add: get_tuple_def i_def split: if_splits)
  have x: "tuple_from_row sha mac key_id sd w (req = None) r = Inr x"
    using assms j r by (cases "tuple_from_row sha mac key_id sd w (req = None) r") (simp_all add: get_tuple_def i_def)
  have key: "cr_key r = (fst t, snd t, j)" "r \<in> set (cw_checkpoints w)" using row_of_SomeD [OF r] by simp_all
  then have "cr_id r = j" by (simp add: cr_key_def)
  then show thesis using key x r j by (intro that [of r]) (simp_all add: i_def)
qed

lemma map_sum_Some_None [simp]: "map_sum id Some x \<noteq> Inr None"
  by (cases x) simp_all

lemma get_latest_None: "get_tuple sha mac key_id sd t None w = Inr None \<Longrightarrow> row_of ch_key t (cw_heads w) = None"
  by (auto simp: get_tuple_def split: option.splits)

subsection \<open>A completed put\<close>

lemma verify_checkpoint_chain_mono:
  "verify_checkpoint_chain sha mac key_id rows r = None \<Longrightarrow> verify_checkpoint_chain sha mac key_id (rows @ extra) r = None"
proof (induction sha mac key_id rows r rule: verify_checkpoint_chain.induct)
  case (1 sha mac key_id rows r)
  have signed: "verify_checkpoint_row sha mac key_id r = None"
    using 1(2) by (subst (asm) verify_checkpoint_chain.simps) (simp split: option.splits)
  show ?case
  proof (cases "cr_generation r = 1")
    case True
    then show ?thesis using 1(2) signed by (subst (asm) verify_checkpoint_chain.simps, subst verify_checkpoint_chain.simps) simp
  next
    case False
    then obtain q where q: "previous_row rows r = Some q" "cr_previous r = cr_digest q" "verify_checkpoint_chain sha mac key_id rows q = None"
      using 1(2) signed by (subst (asm) verify_checkpoint_chain.simps) (auto split: option.splits if_splits)
    have "previous_row (rows @ extra) r = Some q" using q(1) by (simp add: previous_row_def find_append)
    then show ?thesis using 1(1) [OF signed False q(1)] q signed False by (subst verify_checkpoint_chain.simps) simp
  qed
qed

lemma verified_generation: "verify_checkpoint_chain sha mac key_id rows r = None \<Longrightarrow> 1 \<le> cr_generation r"
proof (induction sha mac key_id rows r rule: verify_checkpoint_chain.induct)
  case (1 sha mac key_id rows r)
  show ?case
  proof (cases "cr_generation r = 1")
    case False
    from 1(2) have signed: "verify_checkpoint_row sha mac key_id r = None"
      by (subst (asm) verify_checkpoint_chain.simps) (simp split: option.splits)
    from 1(2) signed False obtain q where "previous_row rows r = Some q" "cr_previous r = cr_digest q" "verify_checkpoint_chain sha mac key_id rows q = None"
      by (subst (asm) verify_checkpoint_chain.simps) (auto split: option.splits if_splits)
    then show ?thesis using 1(1) [OF signed False] previous_row_in by fastforce
  qed simp
qed

text \<open>What a successful read of the latest checkpoint says of the head.\<close>

lemma latest_head:
  assumes "get_tuple sha mac key_id sd t None w = Inr y"
  obtains (none) "y = None" "row_of ch_key t (cw_heads w) = None"
  | (some) x h q where "y = Some x" "row_of ch_key t (cw_heads w) = Some h" "q \<in> set (cw_checkpoints w)"
      "cr_slot q = (fst t, snd t, ch_generation h)" "cr_digest q = ch_digest h" "1 \<le> ch_generation h"
      "verify_checkpoint_chain sha mac key_id (cw_checkpoints w) q = None"
proof (cases y)
  case None
  then show thesis using none get_latest_None [of sha mac key_id sd t w] assms by simp
next
  case (Some x)
  obtain q where q: "q \<in> set (cw_checkpoints w)" "cr_key q = (fst t, snd t, cr_id q)" "tuple_from_row sha mac key_id sd w True q = Inr x"
    using get_tuple_row [OF assms [unfolded Some]] by auto
  have t: "(cr_thread q, cr_ns q) = t" using q(2) by (simp add: cr_key_def prod_eq_iff)
  obtain h where "row_of ch_key t (cw_heads w) = Some h" "ch_generation h = cr_generation q" "ch_digest h = cr_digest q"
    using tuple_from_row_Inr(2) [OF q(3)] t by auto
  then show thesis using some [OF Some _ q(1), of h] t verified_generation tuple_from_row_Inr(1) [OF q(3)]
    by (auto simp: cr_slot_def)
qed

definition next_generation :: "string \<times> string \<Rightarrow> checkpoint_world \<Rightarrow> int" where
  "next_generation t w = (case row_of ch_key t (cw_heads w) of None \<Rightarrow> 1 | Some h \<Rightarrow> ch_generation h + 1)"

text \<open>
  A checkpoint may be put: the thread reads, its next generation is free, and its identifier is new among checkpoints and pending
  writes. \<open>put\<close> does not check that the generation is free: a put that crashed between the two databases leaves it taken.
\<close>

definition put_ready :: "(string \<Rightarrow> string) \<Rightarrow> (string \<Rightarrow> string) \<Rightarrow> string \<Rightarrow> 'v serde \<Rightarrow> string \<times> string \<Rightarrow> string \<Rightarrow> checkpoint_world \<Rightarrow> bool" where
  "put_ready sha mac key_id sd t i w \<longleftrightarrow> (\<exists>y. get_tuple sha mac key_id sd t None w = Inr y) \<and>
     distinct (map cr_slot (cw_checkpoints w)) \<and> (fst t, snd t, next_generation t w) \<notin> cr_slot ` set (cw_checkpoints w) \<and>
     (fst t, snd t, i) \<notin> cr_key ` set (cw_checkpoints w) \<and> (fst t, snd t, i) \<notin> wr_set ` set (cw_writes w) \<and>
     (fst t, snd t, i) \<notin> wh_key ` set (cw_write_heads w)"

lemma new_row_chain:
  assumes "get_tuple sha mac key_id sd (pr_thread p, pr_ns p) None w = Inr y" and "distinct (map cr_slot (cw_checkpoints w))"
    and "head = row_of ch_key (pr_thread p, pr_ns p) (cw_heads w)" and "r = new_checkpoint_row sha mac key_id p head"
  shows "verify_checkpoint_chain sha mac key_id (cw_checkpoints w @ [r]) r = None" and "1 \<le> cr_generation r"
proof -
  have signed: "verify_checkpoint_row sha mac key_id r = None" by (simp add: verify_checkpoint_row_None assms(4))
  show "verify_checkpoint_chain sha mac key_id (cw_checkpoints w @ [r]) r = None"
    using assms(1)
  proof (cases rule: latest_head)
    case none
    then show ?thesis using signed by (subst verify_checkpoint_chain.simps) (simp add: assms(3,4))
  next
    case (some x h q)
    have "row_of cr_slot (pr_thread p, pr_ns p, ch_generation h) (cw_checkpoints w) = Some q"
      using some(3,4) assms(2) by (simp add: row_of_unique)
    then have "previous_row (cw_checkpoints w @ [r]) r = Some q"
      using some(2) by (simp add: previous_row_def find_append assms(3,4))
    then show ?thesis using signed some verify_checkpoint_chain_mono
      by (subst verify_checkpoint_chain.simps) (simp add: assms(3,4))
  qed
  show "1 \<le> cr_generation r" using assms(1) by (cases rule: latest_head) (simp_all add: assms(3,4))
qed

lemma set_write_rows_of [simp]: "set (write_rows_of key rows) = {r \<in> set rows. wr_set r = key}"
  by (simp add: write_rows_of_def)

lemma write_rows_of_None: "key \<notin> wr_set ` set rows \<Longrightarrow> write_rows_of key rows = []"
  using set_write_rows_of [of key rows] by (metis (mono_tags, lifting) Collect_empty_eq image_eqI set_empty)

lemma completed_put:
  assumes "put_ready sha mac key_id sd (pr_thread p, pr_ns p) (pr_id p) w"
    and "sd_loads sd (pr_type p, pr_checkpoint p) = Some c" and "json_loads (pr_metadata p) = Some m"
    and "head = row_of ch_key (pr_thread p, pr_ns p) (cw_heads w)" and "r = new_checkpoint_row sha mac key_id p head"
    and "w1 = w\<lparr>cw_checkpoints := cw_checkpoints w @ [r]\<rparr>" and "w2 = w1\<lparr>cw_heads := upsert ch_key (head_of r) (cw_heads w)\<rparr>"
  shows "put_insert sha mac key_id p w = (Inr (Some (head, r)), w1)" and "put_anchor (head, r) w1 = (Inr (), w2)"
    and "get_tuple sha mac key_id sd (pr_thread p, pr_ns p) None w2 = Inr (Some \<lparr>ct_thread = pr_thread p, ct_ns = pr_ns p, ct_id = pr_id p,
      ct_checkpoint = c, ct_metadata = m, ct_parent = pr_parent p, ct_writes = []\<rparr>)"
proof -
  obtain y where y: "get_tuple sha mac key_id sd (pr_thread p, pr_ns p) None w = Inr y"
    and slots: "distinct (map cr_slot (cw_checkpoints w))" "(pr_thread p, pr_ns p, cr_generation r) \<notin> cr_slot ` set (cw_checkpoints w)"
    and fresh: "(pr_thread p, pr_ns p, pr_id p) \<notin> cr_key ` set (cw_checkpoints w)"
      "(pr_thread p, pr_ns p, pr_id p) \<notin> wr_set ` set (cw_writes w)" "(pr_thread p, pr_ns p, pr_id p) \<notin> wh_key ` set (cw_write_heads w)"
    using assms(1) by (auto simp: put_ready_def next_generation_def assms(4,5) split: option.splits)
  note chain = new_row_chain [OF y slots(1) assms(4,5)]
  have none: "row_of cr_key (pr_thread p, pr_ns p, pr_id p) (cw_checkpoints w) = None" using fresh(1) by (simp add: row_of_None)
  have slot: "cr_slot r = (pr_thread p, pr_ns p, cr_generation r)" by (simp add: cr_slot_def assms(5))
  show "put_insert sha mac key_id p w = (Inr (Some (head, r)), w1)"
    using slots(2) slot chain(2)
    unfolding put_insert_def none Let_def option.case assms(4) [symmetric] assms(5) [symmetric] assms(6) by simp
  show "put_anchor (head, r) w1 = (Inr (), w2)"
    by (simp add: put_anchor_def Let_def assms(6,7)) (simp add: assms(4,5))
  have key: "cr_key r = (pr_thread p, pr_ns p, pr_id p)" by (simp add: cr_key_def assms(5))
  have row: "row_of cr_key (pr_thread p, pr_ns p, pr_id p) (cw_checkpoints w2) = Some r"
    using none key by (simp add: assms(6,7) find_append)
  have head_key: "ch_key (head_of r) = (pr_thread p, pr_ns p)" by (simp add: ch_key_def head_of_def assms(5))
  have head: "row_of ch_key (pr_thread p, pr_ns p) (cw_heads w2) = Some (head_of r)"
    using row_of_upsert [of ch_key "(pr_thread p, pr_ns p)" "head_of r" "cw_heads w"] head_key by (simp add: assms(7))
  have writes: "write_rows_of (pr_thread p, pr_ns p, pr_id p) (cw_writes w2) = []"
    using fresh(2) by (simp add: write_rows_of_None assms(6,7))
  have heads: "row_of wh_key (pr_thread p, pr_ns p, pr_id p) (cw_write_heads w2) = None"
    using fresh(3) by (simp add: row_of_None assms(6,7))
  have sets: "verify_write_set sha mac key_id (pr_thread p, pr_ns p, pr_id p) [] (cw_write_heads w2) = None"
    using heads by (simp add: verify_write_set_def)
  have fields: "cr_thread r = pr_thread p" "cr_ns r = pr_ns p" "cr_id r = pr_id p" "cr_parent r = pr_parent p" "cr_type r = pr_type p"
    "cr_checkpoint r = pr_checkpoint p" "cr_metadata r = pr_metadata p" by (simp_all add: assms(5))
  have rows: "cw_checkpoints w2 = cw_checkpoints w @ [r]" by (simp add: assms(6,7))
  have "tuple_from_row sha mac key_id sd w2 True r = Inr \<lparr>ct_thread = pr_thread p, ct_ns = pr_ns p, ct_id = pr_id p,
      ct_checkpoint = c, ct_metadata = m, ct_parent = pr_parent p, ct_writes = []\<rparr>"
    using chain(1) head writes key sets assms(2,3) by (simp add: tuple_from_row_def fields rows) (simp add: head_of_def fields)
  then show "get_tuple sha mac key_id sd (pr_thread p, pr_ns p) None w2 = Inr (Some \<lparr>ct_thread = pr_thread p, ct_ns = pr_ns p, ct_id = pr_id p,
      ct_checkpoint = c, ct_metadata = m, ct_parent = pr_parent p, ct_writes = []\<rparr>)"
    using head row by (simp add: get_tuple_def head_of_def fields)
qed

lemma tuple_from_row_more_rows:
  assumes "tuple_from_row sha mac key_id sd w current r = Inr x"
  shows "tuple_from_row sha mac key_id sd (w\<lparr>cw_checkpoints := cw_checkpoints w @ extra\<rparr>) current r = Inr x"
  using assms verify_checkpoint_chain_mono [OF tuple_from_row_Inr(1) [OF assms]] tuple_from_row_Inr(1) [OF assms]
  by (simp add: tuple_from_row_def split: if_splits)

lemma get_tuple_more_rows:
  assumes "get_tuple sha mac key_id sd t None w = Inr y"
  shows "get_tuple sha mac key_id sd t None (w\<lparr>cw_checkpoints := cw_checkpoints w @ extra\<rparr>) = Inr y"
proof (cases y)
  case None
  then show ?thesis using get_latest_None [of sha mac key_id sd t w] assms by (simp add: get_tuple_def)
next
  case (Some x)
  note x = assms [unfolded Some]
  obtain r where key: "cr_key r = (fst t, snd t, cr_id r)" and r: "tuple_from_row sha mac key_id sd w True r = Inr x"
    and row: "row_of cr_key (fst t, snd t, cr_id r) (cw_checkpoints w) = Some r"
    using get_tuple_row [OF x] by auto
  have t: "(cr_thread r, cr_ns r) = t" using key by (simp add: cr_key_def prod_eq_iff)
  obtain h where "row_of ch_key t (cw_heads w) = Some h" "ch_id h = cr_id r" using tuple_from_row_Inr(2) [OF r] t by auto
  then show ?thesis using Some row r by (simp add: get_tuple_def find_append tuple_from_row_more_rows)
qed

lemma latest_row:
  assumes "get_tuple sha mac key_id sd t None w = Inr (Some x)" and "row_of cr_key (fst t, snd t, ct_id x) (cw_checkpoints w) = Some r"
  shows "tuple_from_row sha mac key_id sd w False r = Inr x"
proof (rule get_tuple_row [OF assms(1)])
  fix q assume q: "tuple_from_row sha mac key_id sd w (None = None) q = Inr x" "row_of cr_key (fst t, snd t, cr_id q) (cw_checkpoints w) = Some q"
  have "q = r" using assms(2) q(2) tuple_from_row_Inr(6) [OF q(1)] by simp
  then show ?thesis using q(1) by (simp add: tuple_from_row_def split: option.splits if_splits)
qed

text \<open>The values a checkpoint row stands for.\<close>

definition decodes :: "'v serde \<Rightarrow> checkpoint_row \<Rightarrow> 'v checkpoint_tuple \<Rightarrow> bool" where
  "decodes sd r x \<longleftrightarrow> ct_thread x = cr_thread r \<and> ct_ns x = cr_ns r \<and> ct_id x = cr_id r \<and> ct_parent x = cr_parent r \<and>
     sd_loads sd (cr_type r, cr_checkpoint r) = Some (ct_checkpoint x) \<and> json_loads (cr_metadata r) = Some (ct_metadata x)"

text \<open>\<^bold>\<open>C33\<close>. A checkpoint cannot be rolled back, edited or removed unnoticed. Whatever is done to the main database, in any
history of puts, crashes, deletions and rewritings: when the latest checkpoint of a thread is read, either the thread has none, or
what is returned is the checkpoint of the last completed put of the thread (the one that last moved the head, not a repeat that
returned early) and every checkpoint put before it is still there unchanged, or two messages with the same HMAC or digest are at hand.\<close>

theorem latest_checkpoint_is_the_last_put:
  assumes "checkpoint_history sha mac key_id sd s" and "get_tuple sha mac key_id sd t None (hs_world s) = Inr y"
  shows "(y = None \<and> thread_log t (hs_log s) = []) \<or>
    (\<exists>x r rest. y = Some x \<and> thread_log t (hs_log s) = r # rest \<and> decodes sd r x \<and> set (r # rest) \<subseteq> set (cw_checkpoints (hs_world s))) \<or>
    (\<exists>a \<in> set (cw_checkpoints (hs_world s)). \<exists>b \<in> set (hs_log s). checkpoint_collision sha mac key_id a b)"
proof (cases y)
  case None
  have "row_of ch_key t (cw_heads (hs_world s)) = None"
    using assms(2) None get_latest_None by blast
  then show ?thesis using anchors_logD(2) [OF anchors_log_history [OF assms(1)], of t] None by (simp split: list.splits)
next
  case (Some x)
  let ?w = "hs_world s" and ?log = "thread_log t (hs_log s)"
  obtain q where q: "q \<in> set (cw_checkpoints ?w)" "cr_key q = (fst t, snd t, cr_id q)" "tuple_from_row sha mac key_id sd ?w True q = Inr x"
    using get_tuple_row [OF assms(2) [unfolded Some]] by auto
  have t: "(cr_thread q, cr_ns q) = t" using q(2) by (simp add: cr_key_def prod_eq_iff)
  obtain h where h: "row_of ch_key t (cw_heads ?w) = Some h" "ch_digest h = cr_digest q"
    using tuple_from_row_Inr(2) [OF q(3)] t by auto
  obtain r rest where log: "?log = r # rest" and head: "h = head_of r"
    using anchors_logD(2) [OF anchors_log_history [OF assms(1)], of t] h by (simp split: list.splits)
  have linked: "linked sha mac key_id t (r # rest)" using anchors_logD(1) [OF anchors_log_history [OF assms(1)], of t] log by simp
  have digest: "cr_digest q = cr_digest r" using h head by (simp add: head_of_def)
  have subset: "set (r # rest) \<subseteq> set (hs_log s)" unfolding log [symmetric] by (simp add: thread_log_def)
  show ?thesis
  proof (cases "q = r")
    case True
    then have "decodes sd r x" using tuple_from_row_Inr(4-9) [OF q(3)] by (simp add: decodes_def)
    then show ?thesis
      using verified_chain_holds_linked [OF linked digest q(1) tuple_from_row_Inr(1) [OF q(3)]] log Some subset by auto
  next
    case False
    then have "checkpoint_collision sha mac key_id q r"
      using signed_inject [OF verify_checkpoint_chain_signed [OF tuple_from_row_Inr(1) [OF q(3)]] _ digest] linked by simp
    then show ?thesis using q(1) subset by auto
  qed
qed

text \<open>\<^bold>\<open>C34\<close>. What is put is what is read. The thread must be ready (\<open>put_ready\<close>): its latest checkpoint can be read or it has
none, no stored row has its next generation, as one does after an interrupted put, no two stored rows share a thread and a
generation, and no checkpoint, pending write or head of pending writes uses the identifier. Then \<open>put\<close> succeeds and the latest
checkpoint is the one given, with its metadata (the keys sorted), its parent and no pending writes, for a serializer that reads
back what it wrote and well-formed metadata.\<close>

theorem put_checkpoint_is_read_back:
  assumes "put_ready sha mac key_id sd t i w" and "\<And>v. sd_loads sd (sd_dumps sd v) = Some v" and "wf_json metadata"
  shows "\<exists>w'. checkpoint_put sha mac key_id (put_request_of sd t parent i checkpoint metadata) w = (Inr (fst t, snd t, i), w') \<and>
    get_tuple sha mac key_id sd t None w' = Inr (Some \<lparr>ct_thread = fst t, ct_ns = snd t, ct_id = i, ct_checkpoint = checkpoint,
      ct_metadata = sort_keys metadata, ct_parent = parent, ct_writes = []\<rparr>)"
proof -
  let ?p = "put_request_of sd t parent i checkpoint metadata"
  have p: "pr_thread ?p = fst t" "pr_ns ?p = snd t" "pr_id ?p = i" "pr_parent ?p = parent"
    "(pr_type ?p, pr_checkpoint ?p) = sd_dumps sd checkpoint" "pr_metadata ?p = json_dumps False metadata"
    by (simp_all add: put_request_of_def Let_def)
  have "put_ready sha mac key_id sd (pr_thread ?p, pr_ns ?p) (pr_id ?p) w" "sd_loads sd (pr_type ?p, pr_checkpoint ?p) = Some checkpoint"
    "json_loads (pr_metadata ?p) = Some (sort_keys metadata)"
    using assms by (simp_all add: p json_loads_dumps)
  from completed_put [OF this refl refl refl refl] show ?thesis
    unfolding p prod.collapse by (auto simp: checkpoint_put_def p)
qed

text \<open>\<^bold>\<open>C35\<close>. A crash between the two databases wedges a thread: once \<open>put\<close> has stored its row and not moved the head, repeating it
reports success without moving the head, every other new checkpoint of the thread is refused by the database's uniqueness
constraint, no sequence of further puts of the thread changes anything, and the latest checkpoint stays the one before.\<close>

theorem interrupted_put_wedges_the_thread:
  assumes "put_insert sha mac key_id p w = (Inr (Some k), w')" and "get_tuple sha mac key_id sd (pr_thread p, pr_ns p) None w = Inr y"
    and "\<And>q. q \<in> set puts \<Longrightarrow> (pr_thread q, pr_ns q) = (pr_thread p, pr_ns p)"
  shows "checkpoint_put sha mac key_id p w' = (Inr (pr_thread p, pr_ns p, pr_id p), w') \<and>
    (q \<in> set puts \<and> row_of cr_key (pr_thread q, pr_ns q, pr_id q) (cw_checkpoints w') = None \<longrightarrow>
       checkpoint_put sha mac key_id q w' = (Inl SqliteIntegrityError, w')) \<and>
    fold (\<lambda>q w. snd (checkpoint_put sha mac key_id q w)) puts w' = w' \<and>
    get_tuple sha mac key_id sd (pr_thread p, pr_ns p) None w' = Inr y"
proof (intro conjI impI)
  obtain head r where r: "r = new_checkpoint_row sha mac key_id p head" and head: "head = row_of ch_key (pr_thread p, pr_ns p) (cw_heads w)"
    and none: "row_of cr_key (pr_thread p, pr_ns p, pr_id p) (cw_checkpoints w) = None" and w': "w' = w\<lparr>cw_checkpoints := cw_checkpoints w @ [r]\<rparr>"
    using assms(1) by (cases rule: put_insert_cases [of p w sha mac key_id]) auto
  have row: "row_of cr_key (pr_thread p, pr_ns p, pr_id p) (cw_checkpoints w') = Some r"
    using none by (simp add: w' find_append) (simp add: r cr_key_def)
  have same: "same_checkpoint p r" "verify_checkpoint_row sha mac key_id r = None" by (simp_all add: r same_checkpoint_def verify_checkpoint_row_None)
  then have retry: "put_insert sha mac key_id p w' = (Inr None, w')" using row by (simp add: put_insert_def)
  then show "checkpoint_put sha mac key_id p w' = (Inr (pr_thread p, pr_ns p, pr_id p), w')" by (simp add: checkpoint_put_def)
  have taken: "(pr_thread p, pr_ns p, case head of None \<Rightarrow> 1 | Some h \<Rightarrow> ch_generation h + 1) \<in> cr_slot ` set (cw_checkpoints w')"
    by (simp add: w' r cr_slot_def)
  have fresh: "checkpoint_put sha mac key_id q w' = (Inl SqliteIntegrityError, w')"
    if "q \<in> set puts" "row_of cr_key (pr_thread q, pr_ns q, pr_id q) (cw_checkpoints w') = None" for q
  proof -
    have t: "pr_thread q = pr_thread p" "pr_ns q = pr_ns p" using assms(3) [OF that(1)] by simp_all
    have slot: "cr_slot (new_checkpoint_row sha mac key_id q head) \<in> cr_slot ` set (cw_checkpoints w')" using taken by (simp add: cr_slot_def t)
    have "row_of ch_key (pr_thread q, pr_ns q) (cw_heads w') = head" by (simp add: w' t head)
    then have "put_insert sha mac key_id q w' = (Inl SqliteIntegrityError, w')"
      unfolding put_insert_def that(2) option.case Let_def using slot by simp
    then show ?thesis by (simp add: checkpoint_put_def)
  qed
  then show "checkpoint_put sha mac key_id q w' = (Inl SqliteIntegrityError, w')"
    if "q \<in> set puts \<and> row_of cr_key (pr_thread q, pr_ns q, pr_id q) (cw_checkpoints w') = None" using that by blast
  have "snd (checkpoint_put sha mac key_id q w') = w'" if "q \<in> set puts" for q
  proof (cases "row_of cr_key (pr_thread q, pr_ns q, pr_id q) (cw_checkpoints w')")
    case None
    then show ?thesis using fresh [OF that] by simp
  next
    case (Some x)
    then show ?thesis by (simp add: checkpoint_put_def put_insert_def split: option.split)
  qed
  then show "fold (\<lambda>q w. snd (checkpoint_put sha mac key_id q w)) puts w' = w'"
    by (induction puts) simp_all
  show "get_tuple sha mac key_id sd (pr_thread p, pr_ns p) None w' = Inr y"
    using get_tuple_more_rows [OF assms(2), of "[r]"] by (simp add: w')
qed

subsection \<open>Pending writes\<close>

definition write_signed :: "(string \<Rightarrow> string) \<Rightarrow> (string \<Rightarrow> string) \<Rightarrow> string \<Rightarrow> write_row \<Rightarrow> bool" where
  "write_signed sha mac key_id r \<longleftrightarrow> mac (write_message sha key_id r) = wr_digest r"

lemma verify_write_set_None:
  "verify_write_set sha mac key_id key rows heads = None \<longleftrightarrow> (\<forall>r \<in> set rows. write_signed sha mac key_id r) \<and>
     (case row_of wh_key key heads of None \<Rightarrow> rows = []
      | Some h \<Rightarrow> wh_count h = length rows \<and> wh_aggregate h = mac (aggregate_message key_id rows))"
  by (auto simp: verify_write_set_def write_signed_def list_ex_iff split: option.splits)

lemma write_signed_by_digest: "write_signed sha mac key_id (r\<lparr>wr_digest := mac (write_message sha key_id r)\<rparr>)"
  by (simp add: write_signed_def write_message_def)

lemma new_write_row_facts:
  "write_signed sha mac key_id (new_write_row sha mac key_id sd key task i cv)"
  "wr_set (new_write_row sha mac key_id sd key task i cv) = key"
  "(wr_type (new_write_row sha mac key_id sd key task i cv), wr_value (new_write_row sha mac key_id sd key task i cv)) = sd_dumps sd (snd cv)"
  unfolding new_write_row_def Let_def by (rule write_signed_by_digest, simp_all add: wr_set_def)

lemma new_write_rowsD:
  assumes "r \<in> set (new_write_rows sha mac key_id sd key task writes)"
  shows "write_signed sha mac key_id r" and "wr_set r = key" and "\<exists>v. (wr_type r, wr_value r) = sd_dumps sd v"
proof -
  obtain i cv where r: "r = new_write_row sha mac key_id sd key task i cv" using assms by (auto simp: new_write_rows_def simp del: split_paired_Ex)
  show "write_signed sha mac key_id r" "wr_set r = key" "\<exists>v. (wr_type r, wr_value r) = sd_dumps sd v"
    unfolding r using new_write_row_facts [of sha mac key_id sd key task i cv] by blast+
qed

lemma set_insert_write: "set (insert_write replacing r rows) \<subseteq> insert r (set rows)"
  by (auto simp: insert_write_def insert_or_ignore_def)

lemma set_insert_writes: "set (fold (insert_write replacing) rs rows) \<subseteq> set rows \<union> set rs"
proof (induction rs arbitrary: rows)
  case (Cons r rs)
  then show ?case using set_insert_write [of replacing r rows] by fastforce
qed simp

lemma load_writes_Some:
  "(\<exists>vs. load_writes sd rows = Some vs) \<longleftrightarrow> (\<forall>r \<in> set rows. \<exists>v. sd_loads sd (wr_type r, wr_value r) = Some v)"
  by (induction rows) (auto split: option.splits)

text \<open>After \<open>put_writes\<close> the rows present are the set, whatever they are.\<close>

lemma put_writes_set:
  assumes "w' = put_writes sha mac key_id sd key writes task w" and "rows = write_rows_of key (cw_writes w')"
    and "\<And>r. r \<in> set (cw_writes w) \<Longrightarrow> wr_set r = key \<Longrightarrow> write_signed sha mac key_id r"
  shows "cw_checkpoints w' = cw_checkpoints w" and "set rows \<subseteq> set (write_rows_of key (cw_writes w)) \<union> set (new_write_rows sha mac key_id sd key task writes)"
    and "verify_write_set sha mac key_id key rows (cw_write_heads w') = None"
proof -
  define replacing where "replacing = list_all (\<lambda>cv. sd_idx_map sd (fst cv) \<noteq> None) writes"
  define table where "table = fold (insert_write replacing) (new_write_rows sha mac key_id sd key task writes) (cw_writes w)"
  define h where "h = \<lparr>wh_thread = fst key, wh_ns = fst (snd key), wh_checkpoint = snd (snd key), wh_count = length (write_rows_of key table),
    wh_aggregate = mac (aggregate_message key_id (write_rows_of key table))\<rparr>"
  have w': "w' = w\<lparr>cw_writes := table, cw_write_heads := upsert wh_key h (cw_write_heads w)\<rparr>"
    by (simp add: assms(1) put_writes_def writes_insert_def writes_anchor_def Let_def h_def table_def replacing_def)
  then show "cw_checkpoints w' = cw_checkpoints w" by simp
  have table: "set table \<subseteq> set (cw_writes w) \<union> set (new_write_rows sha mac key_id sd key task writes)"
    unfolding table_def by (rule set_insert_writes)
  then show "set rows \<subseteq> set (write_rows_of key (cw_writes w)) \<union> set (new_write_rows sha mac key_id sd key task writes)"
    by (auto simp: assms(2) w')
  have "row_of wh_key key (cw_write_heads w') = Some h"
    using row_of_upsert [of wh_key key h] by (simp add: w') (simp add: wh_key_def h_def)
  moreover have "write_signed sha mac key_id r" if "r \<in> set rows" for r
  proof -
    have "r \<in> set (cw_writes w) \<union> set (new_write_rows sha mac key_id sd key task writes)" "wr_set r = key"
      using that table by (auto simp: assms(2) w')
    then show ?thesis using new_write_rowsD(1) [of r sha mac key_id sd key task writes] assms(3) [of r] by blast
  qed
  ultimately show "verify_write_set sha mac key_id key rows (cw_write_heads w') = None"
    by (simp add: verify_write_set_None h_def assms(2) w')
qed

lemma tuple_from_row_writes:
  assumes "tuple_from_row sha mac key_id sd w current r = Inr x" and "cw_checkpoints w' = cw_checkpoints w" and "cw_heads w' = cw_heads w"
  shows "verify_write_set sha mac key_id (cr_key r) (write_rows_of (cr_key r) (cw_writes w')) (cw_write_heads w') = None \<Longrightarrow>
      load_writes sd (write_rows_of (cr_key r) (cw_writes w')) = Some vs \<Longrightarrow> tuple_from_row sha mac key_id sd w' current r = Inr (x\<lparr>ct_writes := vs\<rparr>)"
    and "verify_write_set sha mac key_id (cr_key r) (write_rows_of (cr_key r) (cw_writes w')) (cw_write_heads w') = Some e \<Longrightarrow>
      tuple_from_row sha mac key_id sd w' current r = Inl e"
  using assms by (auto simp: tuple_from_row_def Let_def split: option.splits if_splits)

text \<open>So the checkpoint reads after it, when each row present that is not new was in a set that was read.\<close>

lemma put_writes_readable:
  assumes "row_of cr_key (fst t, snd t, i) (cw_checkpoints w) = Some q" and "tuple_from_row sha mac key_id sd w False q = Inr x"
    and "\<And>v. sd_loads sd (sd_dumps sd v) = Some v" and "w' = w\<lparr>cw_writes := ws\<rparr>" and "set ws \<subseteq> set (cw_writes w)"
    and "w'' = put_writes sha mac key_id sd (fst t, snd t, i) writes task w'" and "rows = write_rows_of (fst t, snd t, i) (cw_writes w'')"
  shows "\<exists>vs. get_tuple sha mac key_id sd t (Some i) w'' = Inr (Some (x\<lparr>ct_writes := vs\<rparr>)) \<and> load_writes sd rows = Some vs"
    and "set rows \<subseteq> set ws \<union> set (new_write_rows sha mac key_id sd (fst t, snd t, i) task writes)"
proof -
  let ?key = "(fst t, snd t, i)"
  have key: "cr_key q = ?key" using row_of_SomeD [OF assms(1)] by simp
  note old = tuple_from_row_Inr [OF assms(2), unfolded key]
  have signed: "\<forall>r \<in> set (write_rows_of ?key (cw_writes w)). write_signed sha mac key_id r" using old(3) by (simp add: verify_write_set_None)
  then have "\<And>r. r \<in> set (cw_writes w') \<Longrightarrow> wr_set r = ?key \<Longrightarrow> write_signed sha mac key_id r" using assms(4,5) by auto
  note new = put_writes_set [OF assms(6,7) this]
  show rows: "set rows \<subseteq> set ws \<union> set (new_write_rows sha mac key_id sd ?key task writes)" using new(2) by (auto simp: assms(4))
  have "\<exists>v. sd_loads sd (wr_type r, wr_value r) = Some v" if "r \<in> set rows" for r
  proof (cases "r \<in> set (write_rows_of ?key (cw_writes w))")
    case True
    then show ?thesis using load_writes_Some [of sd "write_rows_of ?key (cw_writes w)"] old(10) by blast
  next
    case False
    then have "r \<in> set (new_write_rows sha mac key_id sd ?key task writes)" using that rows assms(5,7) by auto
    then show ?thesis using new_write_rowsD(3) [of r sha mac key_id sd ?key task writes] assms(3) by force
  qed
  then obtain vs where vs: "load_writes sd rows = Some vs" using load_writes_Some [of sd rows] by blast
  have same: "cw_checkpoints w'' = cw_checkpoints w" "cw_heads w'' = cw_heads w"
    by (simp_all add: assms(4,6) put_writes_def writes_insert_def writes_anchor_def Let_def)
  have "tuple_from_row sha mac key_id sd w'' False q = Inr (x\<lparr>ct_writes := vs\<rparr>)"
    using tuple_from_row_writes(1) [OF assms(2) same] new(3) vs by (simp add: key assms(7))
  then show "\<exists>vs. get_tuple sha mac key_id sd t (Some i) w'' = Inr (Some (x\<lparr>ct_writes := vs\<rparr>)) \<and> load_writes sd rows = Some vs"
    using assms(1) same vs by (simp add: get_tuple_def)
qed

text \<open>\<^bold>\<open>C36\<close>. Tampering with the pending writes is forgotten: when a write of a checkpoint is deleted from the database, reading the
checkpoint fails as it should; but as soon as any task adds writes to that checkpoint, the digest is recomputed over the rows
that are left, and the checkpoint reads without complaint and without the deleted write.\<close>

theorem deleted_write_is_laundered:
  assumes "get_tuple sha mac key_id sd t (Some i) w = Inr (Some x)"
    and "z \<in> set (cw_writes w)" and "wr_set z = (fst t, snd t, i)" and "\<And>v. sd_loads sd (sd_dumps sd v) = Some v"
    and "w' = w\<lparr>cw_writes := filter (\<lambda>r. r \<noteq> z) (cw_writes w)\<rparr>" and "w'' = put_writes sha mac key_id sd (fst t, snd t, i) writes task w'"
    and "rows = write_rows_of (fst t, snd t, i) (cw_writes w'')"
  shows "get_tuple sha mac key_id sd t (Some i) w' = Inl (CheckpointIntegrityError WRITE_SET_MISMATCH) \<and>
    (\<exists>vs. get_tuple sha mac key_id sd t (Some i) w'' = Inr (Some (x\<lparr>ct_writes := vs\<rparr>)) \<and> load_writes sd rows = Some vs) \<and>
    set rows \<subseteq> (set (cw_writes w) - {z}) \<union> set (new_write_rows sha mac key_id sd (fst t, snd t, i) task writes)"
proof -
  let ?key = "(fst t, snd t, i)" and ?rest = "filter (\<lambda>r. r \<noteq> z) (cw_writes w)"
  obtain q where q: "cr_key q = ?key" "tuple_from_row sha mac key_id sd w False q = Inr x" "row_of cr_key ?key (cw_checkpoints w) = Some q"
  proof (rule get_tuple_row [OF assms(1)])
    fix q assume *: "cr_key q = (fst t, snd t, cr_id q)" "\<And>j. Some i = Some j \<Longrightarrow> cr_id q = j"
      "tuple_from_row sha mac key_id sd w (Some i = None) q = Inr x" "row_of cr_key (fst t, snd t, cr_id q) (cw_checkpoints w) = Some q"
    have "cr_id q = i" using *(2) by simp
    then show thesis using that [of q] *(1,3,4) by simp
  qed
  note old = tuple_from_row_Inr [OF q(2), unfolded q(1)]
  have signed: "\<forall>r \<in> set (write_rows_of ?key (cw_writes w)). write_signed sha mac key_id r" using old(3) by (simp add: verify_write_set_None)
  have z: "z \<in> set (write_rows_of ?key (cw_writes w))" using assms(2,3) by simp
  then have some: "write_rows_of ?key (cw_writes w) \<noteq> []" by (metis empty_iff list.set(1))
  obtain h where h: "row_of wh_key ?key (cw_write_heads w) = Some h" "wh_count h = length (write_rows_of ?key (cw_writes w))"
    using old(3) some by (auto simp: verify_write_set_None split: option.splits)
  have "length (write_rows_of ?key ?rest) < length (write_rows_of ?key (cw_writes w))"
  proof -
    have "filter (\<lambda>r. wr_set r = ?key) ?rest = filter (\<lambda>r. r \<noteq> z) (filter (\<lambda>r. wr_set r = ?key) (cw_writes w))" by (simp add: conj_commute)
    moreover have "z \<in> set (filter (\<lambda>r. wr_set r = ?key) (cw_writes w))" using assms(2,3) by simp
    ultimately show ?thesis unfolding write_rows_of_def length_sort
      using length_filter_less [of z "filter (\<lambda>r. wr_set r = ?key) (cw_writes w)" "\<lambda>r. r \<noteq> z"] by simp
  qed
  then have "verify_write_set sha mac key_id ?key (write_rows_of ?key ?rest) (cw_write_heads w) = Some (CheckpointIntegrityError WRITE_SET_MISMATCH)"
    using signed h by (auto simp: verify_write_set_def write_signed_def list_ex_iff)
  then have "tuple_from_row sha mac key_id sd w' False q = Inl (CheckpointIntegrityError WRITE_SET_MISMATCH)"
    using tuple_from_row_writes(2) [OF q(2), of w'] by (simp add: q(1) assms(5))
  then have refused: "get_tuple sha mac key_id sd t (Some i) w' = Inl (CheckpointIntegrityError WRITE_SET_MISMATCH)"
    using q(3) by (simp add: get_tuple_def assms(5))
  show ?thesis using refused put_writes_readable [OF q(3,2) assms(4,5) _ assms(6,7)] by auto
qed

subsection \<open>A thread with two checkpoints\<close>

definition text_serde :: "string serde" where
  "text_serde = \<lparr>sd_dumps = (\<lambda>v. (''text'', v)), sd_loads = (\<lambda>p. Some (snd p)),
     sd_idx_map = (\<lambda>c. if c = ''__error__'' then Some (- 1) else None)\<rparr>"

abbreviation site_thread :: "string \<times> string" where "site_thread \<equiv> (''run-7'', [])"

definition site_put :: "string option \<Rightarrow> string \<Rightarrow> put_request" where
  "site_put parent i = put_request_of text_serde site_thread parent i (''state '' @ i) (JObj [(''step'', JStr i)])"

definition row_a :: checkpoint_row where "row_a = new_checkpoint_row id id ''k1'' (site_put None ''a'') None"
definition row_b :: checkpoint_row where "row_b = new_checkpoint_row id id ''k1'' (site_put (Some ''a'') ''b'') (Some (head_of row_a))"

definition world_a :: checkpoint_world where
  "world_a = \<lparr>cw_checkpoints = [row_a], cw_writes = [], cw_heads = [head_of row_a], cw_write_heads = []\<rparr>"
definition world_b :: checkpoint_world where
  "world_b = \<lparr>cw_checkpoints = [row_a, row_b], cw_writes = [], cw_heads = [head_of row_b], cw_write_heads = []\<rparr>"

definition tuple_of :: "string option \<Rightarrow> string \<Rightarrow> string checkpoint_tuple" where
  "tuple_of parent i = \<lparr>ct_thread = ''run-7'', ct_ns = [], ct_id = i, ct_checkpoint = ''state '' @ i,
     ct_metadata = JObj [(''step'', JStr i)], ct_parent = parent, ct_writes = []\<rparr>"

lemma text_serde_simps [simp]:
  "sd_loads text_serde (x, v) = Some v" "sd_dumps text_serde v = (''text'', v)"
  "sd_idx_map text_serde c = (if c = ''__error__'' then Some (- 1) else None)"
  by (simp_all add: text_serde_def)

lemma site_put_simps [simp]:
  "pr_thread (site_put parent i) = ''run-7''" "pr_ns (site_put parent i) = []" "pr_id (site_put parent i) = i" "pr_parent (site_put parent i) = parent"
  "pr_checkpoint (site_put parent i) = ''state '' @ i" "json_loads (pr_metadata (site_put parent i)) = Some (JObj [(''step'', JStr i)])"
  by (simp_all add: site_put_def put_request_of_def Let_def json_loads_dumps)

lemma site_rows [simp]:
  "cr_thread row_a = ''run-7''" "cr_ns row_a = []" "cr_id row_a = ''a''" "cr_generation row_a = 1"
  "cr_thread row_b = ''run-7''" "cr_ns row_b = []" "cr_id row_b = ''b''" "cr_generation row_b = 2"
  by (simp_all add: row_a_def row_b_def head_of_def)

lemma site_heads [simp]:
  "ch_thread (head_of r) = cr_thread r" "ch_ns (head_of r) = cr_ns r" "ch_generation (head_of r) = cr_generation r" "ch_id (head_of r) = cr_id r"
  "ch_digest (head_of r) = cr_digest r" "ch_key (head_of r) = (cr_thread r, cr_ns r)"
  by (simp_all add: head_of_def ch_key_def)

lemma ready_at_first: "put_ready id id ''k1'' text_serde site_thread i empty_world"
  by (simp add: put_ready_def empty_world_def get_tuple_def)

lemma put_a:
  "put_insert id id ''k1'' (site_put None ''a'') empty_world = (Inr (Some (None, row_a)), empty_world\<lparr>cw_checkpoints := [row_a]\<rparr>)"
  "put_anchor (None, row_a) (empty_world\<lparr>cw_checkpoints := [row_a]\<rparr>) = (Inr (), world_a)"
  "get_tuple id id ''k1'' text_serde site_thread None world_a = Inr (Some (tuple_of None ''a''))"
proof -
  let ?w1 = "empty_world\<lparr>cw_checkpoints := cw_checkpoints empty_world @ [row_a]\<rparr>"
  have world: "world_a = ?w1\<lparr>cw_heads := upsert ch_key (head_of row_a) (cw_heads empty_world)\<rparr>"
    by (simp add: world_a_def empty_world_def upsert_def)
  have head: "None = row_of ch_key (pr_thread (site_put None ''a''), pr_ns (site_put None ''a'')) (cw_heads empty_world)"
    by (simp add: empty_world_def)
  have "put_ready id id ''k1'' text_serde (pr_thread (site_put None ''a''), pr_ns (site_put None ''a'')) (pr_id (site_put None ''a'')) empty_world"
    using ready_at_first by simp
  note put = completed_put [OF this _ _ head row_a_def refl world]
  have "cw_checkpoints empty_world @ [row_a] = [row_a]" by (simp add: empty_world_def)
  with put [of "''state a''" "JObj [(''step'', JStr ''a'')]"]
  show "put_insert id id ''k1'' (site_put None ''a'') empty_world = (Inr (Some (None, row_a)), empty_world\<lparr>cw_checkpoints := [row_a]\<rparr>)"
    "put_anchor (None, row_a) (empty_world\<lparr>cw_checkpoints := [row_a]\<rparr>) = (Inr (), world_a)"
    "get_tuple id id ''k1'' text_serde site_thread None world_a = Inr (Some (tuple_of None ''a''))"
    by (simp_all add: tuple_of_def)
qed

lemma ready_after_first: "i \<noteq> ''a'' \<Longrightarrow> put_ready id id ''k1'' text_serde site_thread i world_a"
  using put_a(3) by (simp add: put_ready_def next_generation_def) (simp add: world_a_def cr_slot_def cr_key_def)

lemma put_b:
  "put_insert id id ''k1'' (site_put (Some ''a'') ''b'') world_a = (Inr (Some (Some (head_of row_a), row_b)), world_a\<lparr>cw_checkpoints := [row_a, row_b]\<rparr>)"
  "put_anchor (Some (head_of row_a), row_b) (world_a\<lparr>cw_checkpoints := [row_a, row_b]\<rparr>) = (Inr (), world_b)"
  "get_tuple id id ''k1'' text_serde site_thread None world_b = Inr (Some (tuple_of (Some ''a'') ''b''))"
proof -
  let ?p = "site_put (Some ''a'') ''b''" and ?w1 = "world_a\<lparr>cw_checkpoints := cw_checkpoints world_a @ [row_b]\<rparr>"
  have world: "world_b = ?w1\<lparr>cw_heads := upsert ch_key (head_of row_b) (cw_heads world_a)\<rparr>"
    by (simp add: world_a_def world_b_def upsert_def update_where_def)
  have head: "Some (head_of row_a) = row_of ch_key (pr_thread ?p, pr_ns ?p) (cw_heads world_a)"
    by (simp add: world_a_def)
  have "put_ready id id ''k1'' text_serde (pr_thread ?p, pr_ns ?p) (pr_id ?p) world_a" using ready_after_first by simp
  note put = completed_put [OF this _ _ head row_b_def refl world]
  have "cw_checkpoints world_a @ [row_b] = [row_a, row_b]" by (simp add: world_a_def)
  with put [of "''state b''" "JObj [(''step'', JStr ''b'')]"]
  show "put_insert id id ''k1'' ?p world_a = (Inr (Some (Some (head_of row_a), row_b)), world_a\<lparr>cw_checkpoints := [row_a, row_b]\<rparr>)"
    "put_anchor (Some (head_of row_a), row_b) (world_a\<lparr>cw_checkpoints := [row_a, row_b]\<rparr>) = (Inr (), world_b)"
    "get_tuple id id ''k1'' text_serde site_thread None world_b = Inr (Some (tuple_of (Some ''a'') ''b''))"
    by (simp_all add: tuple_of_def)
qed

definition forged_row :: checkpoint_row where "forged_row = row_a\<lparr>cr_id := ''z'', cr_generation := 9\<rparr>"

definition attacked_state :: checkpoint_state where
  "attacked_state = \<lparr>hs_world = world_b\<lparr>cw_checkpoints := [row_a, row_b, forged_row]\<rparr>, hs_tickets = [], hs_sets = [], hs_log = [row_b, row_a]\<rparr>"

lemma attacked_history: "checkpoint_history id id ''k1'' text_serde attacked_state"
proof -
  let ?step = "checkpoint_step id id ''k1'' text_serde"
  let ?s1 = "initial_checkpoints\<lparr>hs_world := empty_world\<lparr>cw_checkpoints := [row_a]\<rparr>, hs_tickets := [(None, row_a)]\<rparr>"
  let ?s2 = "initial_checkpoints\<lparr>hs_world := world_a, hs_log := [row_a]\<rparr>"
  let ?s3 = "initial_checkpoints\<lparr>hs_world := world_a\<lparr>cw_checkpoints := [row_a, row_b]\<rparr>, hs_tickets := [(Some (head_of row_a), row_b)], hs_log := [row_a]\<rparr>"
  let ?s4 = "initial_checkpoints\<lparr>hs_world := world_b, hs_log := [row_b, row_a]\<rparr>"
  have 1: "?step initial_checkpoints ?s1"
    using checkpoint_step.inserted [where s = initial_checkpoints and sd = text_serde and k = "(None, row_a)"] put_a(1)
    by (simp add: initial_checkpoints_def)
  have 2: "?step ?s1 ?s2"
    using checkpoint_step.anchored [of "(None, row_a)" ?s1 world_a id id "''k1''" text_serde] put_a(2) by (simp add: initial_checkpoints_def)
  have 3: "?step ?s2 ?s3"
    using checkpoint_step.inserted [where s = ?s2 and sd = text_serde and k = "(Some (head_of row_a), row_b)"] put_b(1) by (simp add: initial_checkpoints_def)
  have 4: "?step ?s3 ?s4"
    using checkpoint_step.anchored [of "(Some (head_of row_a), row_b)" ?s3 world_b id id "''k1''" text_serde] put_b(2) by (simp add: initial_checkpoints_def)
  have 5: "?step ?s4 attacked_state"
    using checkpoint_step.rewritten [where s = ?s4 and rows = "[row_a, row_b, forged_row]" and wrs = "[]"]
    by (simp add: initial_checkpoints_def attacked_state_def world_b_def)
  show ?thesis
    using 1 2 3 4 5 by (meson rtranclp.rtrancl_into_rtrancl rtranclp.rtrancl_refl)
qed

lemma attacked_read: "get_tuple id id ''k1'' text_serde site_thread None (hs_world attacked_state) = Inr (Some (tuple_of (Some ''a'') ''b''))"
  using get_tuple_more_rows [OF put_b(3), of "[forged_row]"] by (simp add: attacked_state_def world_b_def)

lemma no_checkpoint_collision: "\<not> checkpoint_collision id id k a b" by (simp add: checkpoint_collision_def collision_def)

theorem latest_checkpoint_is_the_last_put_witness:
  "checkpoint_history id id ''k1'' text_serde attacked_state \<and>
   (\<exists>r rest. thread_log site_thread (hs_log attacked_state) = r # rest \<and> decodes text_serde r (tuple_of (Some ''a'') ''b'') \<and>
      set (r # rest) \<subseteq> set (cw_checkpoints (hs_world attacked_state)))"
  using latest_checkpoint_is_the_last_put [OF attacked_history attacked_read] attacked_history no_checkpoint_collision by auto

theorem put_checkpoint_is_read_back_witness:
  "\<exists>w'. checkpoint_put id id ''k1'' (put_request_of text_serde site_thread (Some ''a'') ''c'' ''state c'' (JObj [(''step'', JInt 2)])) world_a =
      (Inr (''run-7'', [], ''c''), w') \<and>
    get_tuple id id ''k1'' text_serde site_thread None w' = Inr (Some \<lparr>ct_thread = ''run-7'', ct_ns = [], ct_id = ''c'', ct_checkpoint = ''state c'',
      ct_metadata = JObj [(''step'', JInt 2)], ct_parent = Some ''a'', ct_writes = []\<rparr>)"
  using put_checkpoint_is_read_back [OF ready_after_first, of "''c''" "JObj [(''step'', JInt 2)]" "Some ''a''" "''state c''"] by simp

theorem interrupted_put_wedges_the_thread_witness:
  "checkpoint_put id id ''k1'' (site_put (Some ''a'') ''c'') (world_a\<lparr>cw_checkpoints := [row_a, row_b]\<rparr>) =
     (Inl SqliteIntegrityError, world_a\<lparr>cw_checkpoints := [row_a, row_b]\<rparr>) \<and>
   get_tuple id id ''k1'' text_serde site_thread None (world_a\<lparr>cw_checkpoints := [row_a, row_b]\<rparr>) = Inr (Some (tuple_of None ''a''))"
proof -
  let ?w = "world_a\<lparr>cw_checkpoints := [row_a, row_b]\<rparr>" and ?p = "site_put (Some ''a'') ''b''" and ?q = "site_put (Some ''a'') ''c''"
  have read: "get_tuple id id ''k1'' text_serde (pr_thread ?p, pr_ns ?p) None world_a = Inr (Some (tuple_of None ''a''))" using put_a(3) by simp
  have "row_of cr_key (pr_thread ?q, pr_ns ?q, pr_id ?q) (cw_checkpoints ?w) = None" by (simp add: cr_key_def)
  then show ?thesis using interrupted_put_wedges_the_thread [OF put_b(1) read, of "[?q]" ?q] by simp
qed

definition noted_world :: checkpoint_world where
  "noted_world = put_writes id id ''k1'' text_serde (''run-7'', [], ''a'') [(''draft'', ''v1''), (''note'', ''v2'')] ''task'' world_a"

definition draft_row :: write_row where
  "draft_row = new_write_row id id ''k1'' text_serde (''run-7'', [], ''a'') ''task'' 0 (''draft'', ''v1'')"

lemma wr_key_new_write_row [simp]:
  "wr_key (new_write_row sha mac key_id sd key task i cv) =
     (fst key, fst (snd key), snd (snd key), task, (case sd_idx_map sd (fst cv) of Some j \<Rightarrow> j | None \<Rightarrow> int i))"
  by (simp add: new_write_row_def Let_def wr_key_def)

lemma noted_rows: "draft_row \<in> set (cw_writes noted_world)"
  by (simp add: noted_world_def put_writes_def writes_insert_def writes_anchor_def world_a_def new_write_rows_def insert_write_def
      insert_or_ignore_def draft_row_def Let_def)

lemma noted_read:
  obtains vs where "get_tuple id id ''k1'' text_serde site_thread (Some ''a'') noted_world = Inr (Some ((tuple_of None ''a'')\<lparr>ct_writes := vs\<rparr>))"
proof -
  have row: "row_of cr_key (fst site_thread, snd site_thread, ''a'') (cw_checkpoints world_a) = Some row_a" by (simp add: world_a_def cr_key_def)
  then have "tuple_from_row id id ''k1'' text_serde world_a False row_a = Inr (tuple_of None ''a'')"
    using latest_row [OF put_a(3)] by (simp add: tuple_of_def)
  from put_writes_readable(1) [OF row this, of world_a "cw_writes world_a" noted_world "[(''draft'', ''v1''), (''note'', ''v2'')]" "''task''"]
  show thesis using that by (auto simp: noted_world_def)
qed

theorem deleted_write_is_laundered_witness:
  "draft_row \<in> set (cw_writes noted_world) \<and>
   get_tuple id id ''k1'' text_serde site_thread (Some ''a'') (noted_world\<lparr>cw_writes := filter (\<lambda>r. r \<noteq> draft_row) (cw_writes noted_world)\<rparr>) =
     Inl (CheckpointIntegrityError WRITE_SET_MISMATCH) \<and>
   (\<exists>x. get_tuple id id ''k1'' text_serde site_thread (Some ''a'') (put_writes id id ''k1'' text_serde (''run-7'', [], ''a'') [(''log'', ''v3'')] ''other''
     (noted_world\<lparr>cw_writes := filter (\<lambda>r. r \<noteq> draft_row) (cw_writes noted_world)\<rparr>)) = Inr (Some x))"
proof (rule noted_read)
  fix vs assume read: "get_tuple id id ''k1'' text_serde site_thread (Some ''a'') noted_world = Inr (Some ((tuple_of None ''a'')\<lparr>ct_writes := vs\<rparr>))"
  have "wr_set draft_row = (fst site_thread, snd site_thread, ''a'')" by (simp add: draft_row_def new_write_row_facts)
  from deleted_write_is_laundered [OF read noted_rows this _ refl refl refl, of "[(''log'', ''v3'')]" "''other''"] noted_rows
  show ?thesis by auto
qed

end
