(* ===== verification/Evidence_Checks.thy ===== *)
theory Evidence_Checks
  imports Identity
begin

section \<open>Checks shared by the evidence analyzers\<close>

text \<open>
  The analyzers under \<open>aegis/agentic/\<close> go through a sequence of checks and raise at the first that fails, compare the sets of
  identifiers of a manifest and a policy, and collect risks.
\<close>

definition is_digest :: "string \<Rightarrow> bool" where
  "is_digest s \<longleftrightarrow> length s = 64 \<and> list_all (\<lambda>c. c \<in> set ''0123456789abcdef'') (casefold s)"

fun first_rejection :: "'e option list \<Rightarrow> 'e option" where
  "first_rejection [] = None"
| "first_rejection (None # rs) = first_rejection rs"
| "first_rejection (Some r # rs) = Some r"

lemma first_rejection_None: "first_rejection rs = None \<longleftrightarrow> (\<forall>r \<in> set rs. r = None)"
  by (induction rs rule: first_rejection.induct) auto

definition same_set :: "'a list \<Rightarrow> 'a list \<Rightarrow> bool" where "same_set xs ys \<longleftrightarrow> set xs = set ys"

fun duplicate_identifier :: "string list \<Rightarrow> string list \<Rightarrow> string option" where
  "duplicate_identifier seen [] = None"
| "duplicate_identifier seen (i # is) = (if i \<in> set seen then Some i else duplicate_identifier (i # seen) is)"

lemma duplicate_identifier_None: "duplicate_identifier seen ids = None \<longleftrightarrow> distinct ids \<and> set ids \<inter> set seen = {}"
  by (induction seen ids rule: duplicate_identifier.induct) auto

definition risk_if :: "bool \<Rightarrow> 'r \<Rightarrow> 'r list" where "risk_if c r = (if c then [r] else [])"

lemma risk_if_Nil [simp]: "risk_if c r = [] \<longleftrightarrow> \<not> c"
  by (simp add: risk_if_def)

lemma set_risk_if [simp]: "r \<in> set (risk_if c q) \<longleftrightarrow> c \<and> r = q"
  by (auto simp: risk_if_def)

definition allowed_for :: "(string \<times> 'a list) list \<Rightarrow> string \<Rightarrow> 'a list" where
  "allowed_for table i = (case map_of table i of None \<Rightarrow> [] | Some xs \<Rightarrow> xs)"

end
