(* ===== verification/State_Transitions.thy ===== *)
theory State_Transitions
  imports Evidence_Checks Encodings "HOL-Library.Product_Lexorder"
begin

section \<open>Concurrent state transitions of agents\<close>

text \<open>
  \<open>aegis/agentic/state_machine_security.py\<close>: \<open>AgentStateMachineSecurityAnalyzer\<close> decides, for a pinned set of proposed transitions
  on versioned objects, which of them may be applied and what state results. The three earlier assessments it relies on are
  untyped; of each it reads a digest, two flags and a sequence of items, of which an identifier, a decision and, of messages,
  a tenant and a sender (a missing attribute is \<open>None\<close>). A mapping is the list of its items.
\<close>

datatype state_object_type = TASK | TOOL_RESOURCE | RELEASE | TELEMETRY | POLICY | MEMORY

datatype transition_intent = READ | RESERVE | MUTATE | COMMIT | CANCEL | ROLLBACK

datatype concurrency_control = NONE | IDEMPOTENCY_KEY | EXPECTED_VERSION | LEASE | SERIALIZABLE

datatype transition_decision = ALLOW | DENY

datatype transition_risk =
    DUPLICATE_EXECUTION | IDEMPOTENCY_REUSE_MISMATCH | STALE_EXPECTED_VERSION | EXPECTED_STATE_MISMATCH | VERSION_NON_MONOTONIC
  | LOST_UPDATE | CONCURRENT_CONFLICT | LEASE_REQUIRED | LEASE_EXPIRED | LEASE_OWNER_MISMATCH | LEASE_OBJECT_MISMATCH
  | CANCEL_EXECUTE_RACE | APPROVAL_TO_USE_RACE | TOCTOU_STATE_CHANGE | IRREVERSIBLE_REPLAY | ROLLBACK_RACE | DUPLICATE_SIDE_EFFECT
  | TENANT_MISMATCH | PRINCIPAL_MISMATCH | CONTROL_MISMATCH | INTENT_UNAUTHORIZED | UPSTREAM_MESSAGE_UNSAFE
  | UPSTREAM_APPROVAL_UNSAFE | UPSTREAM_OBSERVATION_UNSAFE

datatype state_reject =
    POLICY_INVALID | REQUEST_INVALID | UPSTREAM_INVALID | MANIFEST_INVALID | COVERAGE_MISMATCH | OWNER_UNTRUSTED | POLICY_DRIFT
  | REFERENCE_INVALID | DECLARED_DECISION_MISMATCH | DECLARED_RISK_MISMATCH

datatype state_rejection = AgentStateSecurityRejected state_reject "string option"

record state_object =
  so_id :: string
  so_type :: state_object_type
  so_tenant :: string
  so_version :: int
  so_state :: string
  so_owner :: string
  so_description :: string

record lease_record =
  ls_id :: string
  ls_object :: string
  ls_agent :: string
  ls_issued :: int
  ls_expires :: int
  ls_owner :: string
  ls_description :: string

record state_transition =
  tn_id :: string
  tn_object :: string
  tn_message :: string
  tn_approval :: "string option"
  tn_observation :: "string option"
  tn_actor :: string
  tn_principal :: string
  tn_tenant :: string
  tn_intent :: transition_intent
  tn_control :: concurrency_control
  tn_expected_version :: int
  tn_expected_state :: string
  tn_proposed_version :: int
  tn_proposed_state :: string
  tn_key :: "string option"
  tn_lease :: "string option"
  tn_approved_version :: "int option"
  tn_approved_state :: "string option"
  tn_payload :: string
  tn_irreversible :: bool
  tn_issued :: int
  tn_commit :: int
  tn_owner :: string
  tn_description :: string

record transition_manifest =
  tm_graph_id :: string
  tm_version :: string
  tm_p8d :: string
  tm_p8f :: string
  tm_p8g :: string
  tm_created :: int
  tm_objects :: "state_object list"
  tm_leases :: "lease_record list"
  tm_transitions :: "state_transition list"
  tm_schema :: string

type_synonym object_profile = "state_object_type \<times> string \<times> int \<times> string"

record transition_policy =
  tp_graph_id :: string
  tp_version :: string
  tp_graph_sha :: string
  tp_p8d :: string
  tp_p8f :: string
  tp_p8g :: string
  tp_objects :: "string list"
  tp_leases :: "string list"
  tp_transitions :: "string list"
  tp_owners :: "string list"
  tp_profiles :: "(string \<times> object_profile) list"
  tp_intents :: "(string \<times> transition_intent list) list"
  tp_controls :: "(string \<times> concurrency_control list) list"
  tp_approval_objects :: "string list"
  tp_observation_objects :: "string list"
  tp_lease_objects :: "string list"
  tp_irreversible_objects :: "string list"
  tp_max_age :: int
  tp_max_skew :: int

record transition_request =
  tr_graph_id :: string
  tr_version :: string
  tr_graph_sha :: string
  tr_p8d :: string
  tr_p8f :: string
  tr_p8g :: string
  tr_now :: int
  tr_transitions :: "string list"
  tr_denied :: "string list"
  tr_risks :: "(string \<times> transition_risk list) list"
  tr_versions :: "(string \<times> int) list"

record upstream_item =
  ui_id :: string
  ui_decision :: string
  ui_tenant :: "string option"
  ui_sender :: "string option"

record upstream_assessment =
  ua_digest :: string
  ua_verified :: bool
  ua_caller_trusted :: bool
  ua_items :: "upstream_item list"

record transition_fact =
  tf_id :: string
  tf_object :: string
  tf_intent :: transition_intent
  tf_decision :: transition_decision
  tf_risks :: "transition_risk list"
  tf_expected :: int
  tf_pre :: int
  tf_proposed :: int
  tf_applied :: int
  tf_key :: "string option"
  tf_lease :: "string option"
  tf_irreversible :: bool
  tf_score :: int

definition P8H_STATE_SCHEMA_VERSION :: string where "P8H_STATE_SCHEMA_VERSION = ''aegis-agent-state-transition-manifest-v1''"

fun object_type_value :: "state_object_type \<Rightarrow> string" where
  "object_type_value TASK = ''task''"
| "object_type_value TOOL_RESOURCE = ''tool_resource''"
| "object_type_value RELEASE = ''release''"
| "object_type_value TELEMETRY = ''telemetry''"
| "object_type_value POLICY = ''policy''"
| "object_type_value MEMORY = ''memory''"

fun intent_value :: "transition_intent \<Rightarrow> string" where
  "intent_value READ = ''read''"
| "intent_value RESERVE = ''reserve''"
| "intent_value MUTATE = ''mutate''"
| "intent_value COMMIT = ''commit''"
| "intent_value CANCEL = ''cancel''"
| "intent_value ROLLBACK = ''rollback''"

fun control_value :: "concurrency_control \<Rightarrow> string" where
  "control_value NONE = ''none''"
| "control_value IDEMPOTENCY_KEY = ''idempotency_key''"
| "control_value EXPECTED_VERSION = ''expected_version''"
| "control_value LEASE = ''lease''"
| "control_value SERIALIZABLE = ''serializable''"

fun transition_decision_value :: "transition_decision \<Rightarrow> string" where
  "transition_decision_value ALLOW = ''allow''"
| "transition_decision_value DENY = ''deny''"

fun risk_value :: "transition_risk \<Rightarrow> string" where
  "risk_value DUPLICATE_EXECUTION = ''duplicate_execution''"
| "risk_value IDEMPOTENCY_REUSE_MISMATCH = ''idempotency_reuse_mismatch''"
| "risk_value STALE_EXPECTED_VERSION = ''stale_expected_version''"
| "risk_value EXPECTED_STATE_MISMATCH = ''expected_state_mismatch''"
| "risk_value VERSION_NON_MONOTONIC = ''version_non_monotonic''"
| "risk_value LOST_UPDATE = ''lost_update''"
| "risk_value CONCURRENT_CONFLICT = ''concurrent_conflict''"
| "risk_value LEASE_REQUIRED = ''lease_required''"
| "risk_value LEASE_EXPIRED = ''lease_expired''"
| "risk_value LEASE_OWNER_MISMATCH = ''lease_owner_mismatch''"
| "risk_value LEASE_OBJECT_MISMATCH = ''lease_object_mismatch''"
| "risk_value CANCEL_EXECUTE_RACE = ''cancel_execute_race''"
| "risk_value APPROVAL_TO_USE_RACE = ''approval_to_use_race''"
| "risk_value TOCTOU_STATE_CHANGE = ''toctou_state_change''"
| "risk_value IRREVERSIBLE_REPLAY = ''irreversible_replay''"
| "risk_value ROLLBACK_RACE = ''rollback_race''"
| "risk_value DUPLICATE_SIDE_EFFECT = ''duplicate_side_effect''"
| "risk_value TENANT_MISMATCH = ''tenant_mismatch''"
| "risk_value PRINCIPAL_MISMATCH = ''principal_mismatch''"
| "risk_value CONTROL_MISMATCH = ''control_mismatch''"
| "risk_value INTENT_UNAUTHORIZED = ''intent_unauthorized''"
| "risk_value UPSTREAM_MESSAGE_UNSAFE = ''upstream_message_unsafe''"
| "risk_value UPSTREAM_APPROVAL_UNSAFE = ''upstream_approval_unsafe''"
| "risk_value UPSTREAM_OBSERVATION_UNSAFE = ''upstream_observation_unsafe''"

fun risk_score :: "transition_risk \<Rightarrow> int" where
  "risk_score DUPLICATE_EXECUTION = 104"
| "risk_score IDEMPOTENCY_REUSE_MISMATCH = 116"
| "risk_score STALE_EXPECTED_VERSION = 108"
| "risk_score EXPECTED_STATE_MISMATCH = 109"
| "risk_score VERSION_NON_MONOTONIC = 111"
| "risk_score LOST_UPDATE = 115"
| "risk_score CONCURRENT_CONFLICT = 112"
| "risk_score LEASE_REQUIRED = 103"
| "risk_score LEASE_EXPIRED = 110"
| "risk_score LEASE_OWNER_MISMATCH = 113"
| "risk_score LEASE_OBJECT_MISMATCH = 113"
| "risk_score CANCEL_EXECUTE_RACE = 118"
| "risk_score APPROVAL_TO_USE_RACE = 117"
| "risk_score TOCTOU_STATE_CHANGE = 116"
| "risk_score IRREVERSIBLE_REPLAY = 120"
| "risk_score ROLLBACK_RACE = 119"
| "risk_score DUPLICATE_SIDE_EFFECT = 120"
| "risk_score TENANT_MISMATCH = 108"
| "risk_score PRINCIPAL_MISMATCH = 108"
| "risk_score CONTROL_MISMATCH = 101"
| "risk_score INTENT_UNAUTHORIZED = 105"
| "risk_score UPSTREAM_MESSAGE_UNSAFE = 110"
| "risk_score UPSTREAM_APPROVAL_UNSAFE = 114"
| "risk_score UPSTREAM_OBSERVATION_UNSAFE = 112"

subsection \<open>The digest of a manifest\<close>

text \<open>
  \<open>_norm\<close> turns the manifest into a JSON document. Sequences are sorted by the text Python prints for their items; an item is a
  dict by then, so the text is its \<^verbatim>\<open>repr\<close>.
\<close>

datatype norm_scalar = NvText string | NvInt int | NvBool bool | NvNone | NvEnum string string string

definition repr_char :: "char \<Rightarrow> char \<Rightarrow> string" where
  "repr_char q c = (let n = of_char c :: nat in
     if c = q \<or> c = CHR 0x5C then [CHR 0x5C, c]
     else if n = 9 then [CHR 0x5C, CHR ''t''] else if n = 10 then [CHR 0x5C, CHR ''n''] else if n = 13 then [CHR 0x5C, CHR ''r'']
     else if n < 32 \<or> 127 \<le> n \<and> n \<le> 160 \<or> n = 173 then [CHR 0x5C, CHR ''x'', hex_digit (n div 16), hex_digit (n mod 16)]
     else [c])"

definition repr_text :: "string \<Rightarrow> string" where
  "repr_text s = (let q = (if CHR 0x27 \<in> set s \<and> CHR 0x22 \<notin> set s then CHR 0x22 else CHR 0x27) in
     [q] @ concat (map (repr_char q) s) @ [q])"

fun repr_scalar :: "norm_scalar \<Rightarrow> string" where
  "repr_scalar (NvText s) = repr_text s"
| "repr_scalar (NvInt i) = str_int i"
| "repr_scalar (NvBool b) = (if b then ''True'' else ''False'')"
| "repr_scalar NvNone = ''None''"
| "repr_scalar (NvEnum c m v) = ''<'' @ c @ ''.'' @ m @ '': '' @ repr_text v @ ''>''"

definition repr_dict :: "(string \<times> norm_scalar) list \<Rightarrow> string" where
  "repr_dict kvs = ''{'' @ drop 2 (concat (map (\<lambda>(k, v). '', '' @ repr_text k @ '': '' @ repr_scalar v) kvs)) @ ''}''"

definition norm_text :: "string \<Rightarrow> json" where
  "norm_text s = JStr (if length s = 64 \<and> list_all (\<lambda>c. c \<in> set ''0123456789abcdefABCDEF'') s then casefold s else s)"

fun norm_scalar_json :: "norm_scalar \<Rightarrow> json" where
  "norm_scalar_json (NvText s) = norm_text s"
| "norm_scalar_json (NvInt i) = JInt i"
| "norm_scalar_json (NvBool b) = JBool b"
| "norm_scalar_json NvNone = JNull"
| "norm_scalar_json (NvEnum c m v) = JStr v"

definition nv_optional :: "('a \<Rightarrow> norm_scalar) \<Rightarrow> 'a option \<Rightarrow> norm_scalar" where
  "nv_optional f x = (case x of None \<Rightarrow> NvNone | Some y \<Rightarrow> f y)"

text \<open>A member of these enumerations has the name of its value in capitals.\<close>

definition upper :: "string \<Rightarrow> string" where
  "upper s = map (\<lambda>c. let n = of_char c :: nat in if 97 \<le> n \<and> n \<le> 122 then char_of (n - 32) else c) s"

definition object_type_norm :: "state_object_type \<Rightarrow> norm_scalar" where
  "object_type_norm x = NvEnum ''StateObjectType'' (upper (object_type_value x)) (object_type_value x)"

definition object_fields :: "state_object \<Rightarrow> (string \<times> norm_scalar) list" where
  "object_fields x =
     [(''object_id'', NvText (so_id x)), (''object_type'', object_type_norm (so_type x)), (''tenant_id'', NvText (so_tenant x)),
      (''version'', NvInt (so_version x)), (''state_sha256'', NvText (so_state x)), (''owner_id'', NvText (so_owner x)),
      (''description'', NvText (so_description x))]"

definition lease_fields :: "lease_record \<Rightarrow> (string \<times> norm_scalar) list" where
  "lease_fields x =
     [(''lease_id'', NvText (ls_id x)), (''object_id'', NvText (ls_object x)), (''owner_agent_id'', NvText (ls_agent x)),
      (''issued_at_epoch'', NvInt (ls_issued x)), (''expires_at_epoch'', NvInt (ls_expires x)), (''owner_id'', NvText (ls_owner x)),
      (''description'', NvText (ls_description x))]"

definition transition_fields :: "state_transition \<Rightarrow> (string \<times> norm_scalar) list" where
  "transition_fields x =
     [(''transition_id'', NvText (tn_id x)), (''object_id'', NvText (tn_object x)), (''message_id'', NvText (tn_message x)),
      (''approval_action_id'', nv_optional NvText (tn_approval x)), (''observation_id'', nv_optional NvText (tn_observation x)),
      (''actor_agent_id'', NvText (tn_actor x)), (''original_principal_id'', NvText (tn_principal x)), (''tenant_id'', NvText (tn_tenant x)),
      (''intent'', NvEnum ''TransitionIntent'' (upper (intent_value (tn_intent x))) (intent_value (tn_intent x))),
      (''concurrency_control'', NvEnum ''ConcurrencyControl'' (upper (control_value (tn_control x))) (control_value (tn_control x))),
      (''expected_version'', NvInt (tn_expected_version x)), (''expected_state_sha256'', NvText (tn_expected_state x)),
      (''proposed_version'', NvInt (tn_proposed_version x)), (''proposed_state_sha256'', NvText (tn_proposed_state x)),
      (''idempotency_key'', nv_optional NvText (tn_key x)), (''lease_id'', nv_optional NvText (tn_lease x)),
      (''approval_bound_version'', nv_optional NvInt (tn_approved_version x)),
      (''approval_bound_state_sha256'', nv_optional NvText (tn_approved_state x)), (''payload_sha256'', NvText (tn_payload x)),
      (''irreversible'', NvBool (tn_irreversible x)), (''issued_at_epoch'', NvInt (tn_issued x)), (''commit_at_epoch'', NvInt (tn_commit x)),
      (''owner_id'', NvText (tn_owner x)), (''description'', NvText (tn_description x))]"

definition norm_items :: "(string \<times> norm_scalar) list list \<Rightarrow> json" where
  "norm_items xs = JList (map (\<lambda>kvs. JObj (map (\<lambda>(k, v). (k, norm_scalar_json v)) kvs)) (sort_key repr_dict xs))"

definition norm_manifest :: "transition_manifest \<Rightarrow> json" where
  "norm_manifest m = JObj
     [(''graph_id'', norm_text (tm_graph_id m)), (''version'', norm_text (tm_version m)),
      (''p8d_assessment_evidence_sha256'', norm_text (tm_p8d m)), (''p8f_assessment_evidence_sha256'', norm_text (tm_p8f m)),
      (''p8g_assessment_evidence_sha256'', norm_text (tm_p8g m)), (''created_at_epoch'', JInt (tm_created m)),
      (''objects'', norm_items (map object_fields (tm_objects m))), (''leases'', norm_items (map lease_fields (tm_leases m))),
      (''transitions'', norm_items (map transition_fields (tm_transitions m))), (''schema_version'', norm_text (tm_schema m))]"

definition manifest_digest :: "(string \<Rightarrow> string) \<Rightarrow> transition_manifest \<Rightarrow> string" where
  "manifest_digest sha m = sha (json_dumps True (norm_manifest m))"

subsection \<open>Validation\<close>

definition reject_if :: "bool \<Rightarrow> state_reject \<Rightarrow> string option \<Rightarrow> state_rejection option" where
  "reject_if c r i = (if c then Some (AgentStateSecurityRejected r i) else None)"

definition validate_policy :: "transition_policy \<Rightarrow> state_rejection option" where
  "validate_policy p = first_rejection
     [reject_if (tp_graph_id p = [] \<or> tp_version p = [] \<or> tp_owners p = []) POLICY_INVALID None,
      reject_if (\<not> list_all is_digest [tp_graph_sha p, tp_p8d p, tp_p8f p, tp_p8g p]) POLICY_INVALID None,
      reject_if (tp_max_age p \<le> 0 \<or> tp_max_skew p < 0) POLICY_INVALID None,
      reject_if (\<not> same_set (map fst (tp_profiles p)) (tp_objects p)) POLICY_INVALID None,
      reject_if (\<not> same_set (map fst (tp_intents p)) (tp_objects p) \<or> \<not> same_set (map fst (tp_controls p)) (tp_objects p)) POLICY_INVALID None,
      reject_if (\<not> list_all (\<lambda>i. i \<in> set (tp_objects p))
        (tp_approval_objects p @ tp_observation_objects p @ tp_lease_objects p @ tp_irreversible_objects p)) POLICY_INVALID None]"

definition validate_upstream :: "upstream_assessment \<Rightarrow> string \<Rightarrow> string \<Rightarrow> state_rejection option list" where
  "validate_upstream u pin manifest_pin =
     [reject_if (casefold (ua_digest u) \<noteq> casefold pin \<or> casefold manifest_pin \<noteq> casefold pin) UPSTREAM_INVALID None,
      reject_if (\<not> ua_verified u \<or> ua_caller_trusted u) UPSTREAM_INVALID None]"

definition validate_upstreams ::
  "transition_policy \<Rightarrow> transition_manifest \<Rightarrow> upstream_assessment \<Rightarrow> upstream_assessment \<Rightarrow> upstream_assessment \<Rightarrow> state_rejection option" where
  "validate_upstreams p m p8d p8f p8g = first_rejection
     (validate_upstream p8d (tp_p8d p) (tm_p8d m) @ validate_upstream p8f (tp_p8f p) (tm_p8f m) @ validate_upstream p8g (tp_p8g p) (tm_p8g m))"

definition reject_duplicate :: "string list \<Rightarrow> state_rejection option" where
  "reject_duplicate ids = map_option (\<lambda>i. AgentStateSecurityRejected COVERAGE_MISMATCH (Some i)) (duplicate_identifier [] ids)"

definition validate_object :: "transition_policy \<Rightarrow> state_object \<Rightarrow> state_rejection option list" where
  "validate_object p x =
     [reject_if (so_owner x \<notin> set (tp_owners p)) OWNER_UNTRUSTED (Some (so_id x)),
      reject_if (so_version x < 0 \<or> \<not> is_digest (so_state x)) REFERENCE_INVALID (Some (so_id x)),
      reject_if (map_of (tp_profiles p) (so_id x) \<noteq> Some (so_type x, so_tenant x, so_version x, casefold (so_state x))) POLICY_DRIFT (Some (so_id x)),
      reject_if (map_of (tp_intents p) (so_id x) = Some [] \<or> map_of (tp_controls p) (so_id x) = Some []) POLICY_INVALID (Some (so_id x))]"

definition validate_lease :: "transition_policy \<Rightarrow> string list \<Rightarrow> lease_record \<Rightarrow> state_rejection option list" where
  "validate_lease p objects l =
     [reject_if (ls_owner l \<notin> set (tp_owners p)) OWNER_UNTRUSTED (Some (ls_id l)),
      reject_if (ls_object l \<notin> set objects \<or> ls_agent l = []) REFERENCE_INVALID (Some (ls_id l)),
      reject_if (ls_expires l < ls_issued l) REFERENCE_INVALID (Some (ls_id l))]"

definition validate_transition :: "transition_policy \<Rightarrow> string list \<Rightarrow> string list \<Rightarrow> state_transition \<Rightarrow> state_rejection option list" where
  "validate_transition p objects leases t =
     [reject_if (tn_owner t \<notin> set (tp_owners p)) OWNER_UNTRUSTED (Some (tn_id t)),
      reject_if (tn_object t \<notin> set objects \<or> tn_message t = []) REFERENCE_INVALID (Some (tn_id t)),
      reject_if (\<not> list_all is_digest [tn_expected_state t, tn_proposed_state t, tn_payload t]) REFERENCE_INVALID (Some (tn_id t)),
      reject_if (tn_key t = Some []) REFERENCE_INVALID (Some (tn_id t)),
      reject_if (case tn_lease t of None \<Rightarrow> False | Some l \<Rightarrow> l \<notin> set leases) REFERENCE_INVALID (Some (tn_id t)),
      reject_if (case tn_approved_state t of None \<Rightarrow> False | Some s \<Rightarrow> \<not> is_digest s) REFERENCE_INVALID (Some (tn_id t)),
      reject_if ((tn_approved_version t = None) \<noteq> (tn_approved_state t = None)) REFERENCE_INVALID (Some (tn_id t)),
      reject_if (tn_commit t < tn_issued t) REFERENCE_INVALID (Some (tn_id t))]"

definition validate_manifest :: "(string \<Rightarrow> string) \<Rightarrow> transition_policy \<Rightarrow> transition_manifest \<Rightarrow> int \<Rightarrow> state_rejection option" where
  "validate_manifest sha p m now =
     (let objects = map so_id (tm_objects m); leases = map ls_id (tm_leases m); transitions = map tn_id (tm_transitions m) in
      first_rejection
        ([reject_if (tm_schema m \<noteq> P8H_STATE_SCHEMA_VERSION \<or> tm_graph_id m \<noteq> tp_graph_id p \<or> tm_version m \<noteq> tp_version p) MANIFEST_INVALID None,
          reject_if (manifest_digest sha m \<noteq> casefold (tp_graph_sha p)) MANIFEST_INVALID None,
          reject_if (now - tm_created m > tp_max_age p \<or> tm_created m - now > tp_max_skew p) MANIFEST_INVALID None,
          reject_duplicate objects, reject_duplicate leases, reject_duplicate transitions,
          reject_if (\<not> same_set objects (tp_objects p) \<or> \<not> same_set leases (tp_leases p) \<or> \<not> same_set transitions (tp_transitions p))
            COVERAGE_MISMATCH None]
         @ concat (map (validate_object p) (tm_objects m)) @ concat (map (validate_lease p objects) (tm_leases m))
         @ concat (map (validate_transition p objects leases) (tm_transitions m))))"

subsection \<open>The decision on one transition\<close>

record object_cell =
  oc_id :: string
  oc_version :: int
  oc_state :: string
  oc_cancelled :: bool

type_synonym fingerprint =
  "string \<times> string \<times> string option \<times> string option \<times> string \<times> string \<times> string \<times> transition_intent \<times> int \<times> string \<times> int \<times> string \<times> string \<times> bool"

definition transition_semantic_fingerprint :: "state_transition \<Rightarrow> fingerprint" where
  "transition_semantic_fingerprint t =
     (tn_object t, tn_message t, tn_approval t, tn_observation t, tn_actor t, tn_principal t, tn_tenant t, tn_intent t, tn_expected_version t,
      casefold (tn_expected_state t), tn_proposed_version t, casefold (tn_proposed_state t), casefold (tn_payload t), tn_irreversible t)"

record transition_context =
  tc_policy :: transition_policy
  tc_objects :: "state_object list"
  tc_leases :: "lease_record list"
  tc_observations :: "upstream_item list"
  tc_approvals :: "upstream_item list"
  tc_messages :: "upstream_item list"
  tc_ordered :: "state_transition list"

text \<open>A later item of an assessment replaces an earlier one of the same identifier.\<close>

definition evidence :: "string \<Rightarrow> upstream_item list \<Rightarrow> upstream_item option" where "evidence i items = row_of ui_id i (rev items)"

definition is_safe :: "upstream_item \<Rightarrow> bool" where
  "is_safe u \<longleftrightarrow> casefold (ui_decision u) \<in> {''allow'', ''allowed'', ''safe'', ''holds''}"

definition unsafe :: "upstream_item option \<Rightarrow> bool" where "unsafe x = (case x of None \<Rightarrow> True | Some u \<Rightarrow> \<not> is_safe u)"

definition or_empty :: "string option \<Rightarrow> string" where "or_empty x = (case x of None \<Rightarrow> [] | Some s \<Rightarrow> s)"

definition message_risks :: "transition_context \<Rightarrow> state_transition \<Rightarrow> transition_risk list" where
  "message_risks c t = (case evidence (tn_message t) (tc_messages c) of
       None \<Rightarrow> [UPSTREAM_MESSAGE_UNSAFE]
     | Some u \<Rightarrow>
         if \<not> is_safe u then [UPSTREAM_MESSAGE_UNSAFE]
         else risk_if (case ui_tenant u of None \<Rightarrow> False | Some x \<Rightarrow> x \<noteq> tn_tenant t) TENANT_MISMATCH
           @ risk_if (case ui_sender u of None \<Rightarrow> False | Some x \<Rightarrow> x \<noteq> tn_actor t) PRINCIPAL_MISMATCH)"

definition approval_risks :: "transition_context \<Rightarrow> object_cell \<Rightarrow> state_transition \<Rightarrow> transition_risk list" where
  "approval_risks c cell t =
     (if tn_object t \<in> set (tp_approval_objects (tc_policy c)) then
        risk_if (unsafe (evidence (or_empty (tn_approval t)) (tc_approvals c))) UPSTREAM_APPROVAL_UNSAFE
        @ (case (tn_approved_version t, tn_approved_state t) of
             (Some v, Some s) \<Rightarrow> risk_if (v \<noteq> oc_version cell \<or> casefold s \<noteq> oc_state cell) APPROVAL_TO_USE_RACE
           | _ \<Rightarrow> [APPROVAL_TO_USE_RACE])
      else case tn_approval t of
        None \<Rightarrow> []
      | Some a \<Rightarrow> risk_if (unsafe (evidence a (tc_approvals c))) UPSTREAM_APPROVAL_UNSAFE)"

definition observation_uses :: "state_transition list \<Rightarrow> string \<Rightarrow> nat" where
  "observation_uses ts o' = length (filter (\<lambda>t. tn_observation t = Some o') ts)"

definition observation_risks :: "transition_context \<Rightarrow> state_transition \<Rightarrow> transition_risk list" where
  "observation_risks c t =
     (if tn_object t \<in> set (tp_observation_objects (tc_policy c))
        then risk_if (unsafe (evidence (or_empty (tn_observation t)) (tc_observations c))) UPSTREAM_OBSERVATION_UNSAFE
      else case tn_observation t of
        None \<Rightarrow> []
      | Some o' \<Rightarrow> risk_if (unsafe (evidence o' (tc_observations c))) UPSTREAM_OBSERVATION_UNSAFE)
     @ (case tn_observation t of
          None \<Rightarrow> []
        | Some o' \<Rightarrow> risk_if (observation_uses (tc_ordered c) o' > 1) DUPLICATE_SIDE_EFFECT)"

text \<open>A lease that is named is there: the manifest was validated.\<close>

definition lease_risks :: "transition_context \<Rightarrow> state_transition \<Rightarrow> transition_risk list" where
  "lease_risks c t =
     (if tn_object t \<notin> set (tp_lease_objects (tc_policy c)) then []
      else case tn_lease t of
        None \<Rightarrow> [LEASE_REQUIRED]
      | Some i \<Rightarrow> (case row_of ls_id i (tc_leases c) of
            None \<Rightarrow> [LEASE_REQUIRED]
          | Some l \<Rightarrow>
              risk_if (ls_object l \<noteq> tn_object t) LEASE_OBJECT_MISMATCH @ risk_if (ls_agent l \<noteq> tn_actor t) LEASE_OWNER_MISMATCH
              @ risk_if (tn_commit t > ls_expires l \<or> tn_commit t < ls_issued l) LEASE_EXPIRED))"

definition is_irreversible :: "transition_context \<Rightarrow> state_transition \<Rightarrow> bool" where
  "is_irreversible c t \<longleftrightarrow> tn_irreversible t \<or> tn_object t \<in> set (tp_irreversible_objects (tc_policy c))"

definition key_risks :: "transition_context \<Rightarrow> (string \<times> fingerprint) list \<Rightarrow> state_transition \<Rightarrow> transition_risk list" where
  "key_risks c seen t = (case tn_key t of
       None \<Rightarrow> risk_if (tn_control t = IDEMPOTENCY_KEY) CONTROL_MISMATCH
     | Some k \<Rightarrow> (case map_of seen k of
           None \<Rightarrow> []
         | Some f \<Rightarrow>
             if f = transition_semantic_fingerprint t then DUPLICATE_EXECUTION # risk_if (is_irreversible c t) IRREVERSIBLE_REPLAY
             else [IDEMPOTENCY_REUSE_MISMATCH]))"

definition writers :: "state_transition list \<Rightarrow> state_transition \<Rightarrow> state_transition list" where
  "writers ts t = filter (\<lambda>u. tn_intent u \<noteq> READ \<and> tn_object u = tn_object t \<and> tn_expected_version u = tn_expected_version t) ts"

definition state_risks :: "transition_context \<Rightarrow> object_cell \<Rightarrow> state_transition \<Rightarrow> transition_risk list" where
  "state_risks c cell t =
     (if tn_intent t = READ then
        risk_if (tn_proposed_version t \<noteq> tn_expected_version t \<or> casefold (tn_proposed_state t) \<noteq> casefold (tn_expected_state t)) VERSION_NON_MONOTONIC
      else
        risk_if (tn_expected_version t \<noteq> oc_version cell) STALE_EXPECTED_VERSION
        @ risk_if (tn_expected_version t < oc_version cell) LOST_UPDATE
        @ (if casefold (tn_expected_state t) \<noteq> oc_state cell then [EXPECTED_STATE_MISMATCH, TOCTOU_STATE_CHANGE] else [])
        @ risk_if (tn_proposed_version t \<noteq> tn_expected_version t + 1) VERSION_NON_MONOTONIC
        @ (if length (writers (tc_ordered c) t) > 1
             then [CONCURRENT_CONFLICT, LOST_UPDATE] @ risk_if (list_ex (\<lambda>u. tn_intent u = ROLLBACK) (writers (tc_ordered c) t)) ROLLBACK_RACE
             else [])
        @ risk_if (oc_cancelled cell \<and> tn_intent t \<noteq> ROLLBACK) CANCEL_EXECUTE_RACE
        @ risk_if (tn_irreversible t \<and> tn_intent t \<notin> {COMMIT, MUTATE}) INTENT_UNAUTHORIZED
        @ risk_if (is_irreversible c t \<and> tn_key t = None) CONTROL_MISMATCH)"

definition transition_risks ::
  "transition_context \<Rightarrow> object_cell \<Rightarrow> (string \<times> fingerprint) list \<Rightarrow> state_transition \<Rightarrow> transition_risk list" where
  "transition_risks c cell seen t =
     risk_if (case row_of so_id (tn_object t) (tc_objects c) of None \<Rightarrow> True | Some x \<Rightarrow> tn_tenant t \<noteq> so_tenant x) TENANT_MISMATCH
     @ risk_if (tn_intent t \<notin> set (allowed_for (tp_intents (tc_policy c)) (tn_object t))) INTENT_UNAUTHORIZED
     @ risk_if (tn_control t \<notin> set (allowed_for (tp_controls (tc_policy c)) (tn_object t))) CONTROL_MISMATCH
     @ message_risks c t @ approval_risks c cell t @ observation_risks c t @ lease_risks c t @ key_risks c seen t @ state_risks c cell t"

definition sorted_risks :: "transition_risk list \<Rightarrow> transition_risk list" where "sorted_risks rs = sort_key risk_value (remdups rs)"

subsection \<open>The run over all transitions\<close>

definition transition_order :: "state_transition \<Rightarrow> int \<times> int \<times> string" where
  "transition_order t = (tn_commit t, tn_issued t, tn_id t)"

definition apply_transition :: "state_transition \<Rightarrow> object_cell \<Rightarrow> object_cell" where
  "apply_transition t cell =
     cell\<lparr>oc_version := tn_proposed_version t, oc_state := casefold (tn_proposed_state t),
       oc_cancelled := (if tn_intent t = CANCEL then True else if tn_intent t = ROLLBACK then False else oc_cancelled cell)\<rparr>"

definition remember_key :: "state_transition \<Rightarrow> (string \<times> fingerprint) list \<Rightarrow> (string \<times> fingerprint) list" where
  "remember_key t seen = (case tn_key t of
       None \<Rightarrow> seen
     | Some k \<Rightarrow> if map_of seen k = None then (k, transition_semantic_fingerprint t) # seen else seen)"

definition decide_transition ::
  "transition_context \<Rightarrow> object_cell list \<Rightarrow> (string \<times> fingerprint) list \<Rightarrow> state_transition \<Rightarrow> transition_risk list" where
  "decide_transition c cells seen t = (case row_of oc_id (tn_object t) cells of
       None \<Rightarrow> [TENANT_MISMATCH]
     | Some cell \<Rightarrow> transition_risks c cell seen t)"

definition next_cells :: "state_transition \<Rightarrow> transition_risk list \<Rightarrow> object_cell list \<Rightarrow> object_cell list" where
  "next_cells t risks cells =
     (if risks = [] \<and> tn_intent t \<noteq> READ then update_where (\<lambda>x. oc_id x = tn_object t) (apply_transition t) cells else cells)"

definition cell_version :: "string \<Rightarrow> object_cell list \<Rightarrow> int" where
  "cell_version i cells = (case row_of oc_id i cells of None \<Rightarrow> 0 | Some x \<Rightarrow> oc_version x)"

definition transition_fact_of :: "state_transition \<Rightarrow> transition_risk list \<Rightarrow> object_cell list \<Rightarrow> object_cell list \<Rightarrow> transition_fact" where
  "transition_fact_of t risks before after =
     \<lparr>tf_id = tn_id t, tf_object = tn_object t, tf_intent = tn_intent t, tf_decision = (if risks = [] then ALLOW else DENY),
       tf_risks = sorted_risks risks, tf_expected = tn_expected_version t, tf_pre = cell_version (tn_object t) before,
       tf_proposed = tn_proposed_version t, tf_applied = cell_version (tn_object t) after, tf_key = tn_key t, tf_lease = tn_lease t,
       tf_irreversible = tn_irreversible t, tf_score = foldr (\<lambda>r. max (risk_score r)) risks 0\<rparr>"

fun derive_facts ::
  "transition_context \<Rightarrow> object_cell list \<Rightarrow> (string \<times> fingerprint) list \<Rightarrow> state_transition list \<Rightarrow> transition_fact list \<times> object_cell list" where
  "derive_facts c cells seen [] = ([], cells)"
| "derive_facts c cells seen (t # ts) =
     (let risks = decide_transition c cells seen t; cells' = next_cells t risks cells;
          (facts, final) = derive_facts c cells' (remember_key t seen) ts
      in (transition_fact_of t risks cells cells' # facts, final))"

definition initial_cell :: "state_object \<Rightarrow> object_cell" where
  "initial_cell x = \<lparr>oc_id = so_id x, oc_version = so_version x, oc_state = casefold (so_state x), oc_cancelled = False\<rparr>"

definition transition_context_of ::
  "transition_policy \<Rightarrow> transition_manifest \<Rightarrow> upstream_assessment \<Rightarrow> upstream_assessment \<Rightarrow> upstream_assessment \<Rightarrow> transition_context" where
  "transition_context_of p m p8d p8f p8g =
     \<lparr>tc_policy = p, tc_objects = tm_objects m, tc_leases = tm_leases m, tc_observations = ua_items p8d, tc_approvals = ua_items p8f,
       tc_messages = ua_items p8g, tc_ordered = sort_key transition_order (tm_transitions m)\<rparr>"

definition derive ::
  "(string \<Rightarrow> string) \<Rightarrow> transition_policy \<Rightarrow> transition_manifest \<Rightarrow> upstream_assessment \<Rightarrow> upstream_assessment \<Rightarrow> upstream_assessment \<Rightarrow> int
     \<Rightarrow> state_rejection + transition_fact list \<times> object_cell list" where
  "derive sha p m p8d p8f p8g now =
     (case first_rejection [validate_policy p, validate_upstreams p m p8d p8f p8g, validate_manifest sha p m now] of
        Some e \<Rightarrow> Inl e
      | None \<Rightarrow> (let c = transition_context_of p m p8d p8f p8g in Inr (derive_facts c (map initial_cell (tm_objects m)) [] (tc_ordered c))))"

subsection \<open>The assessment\<close>

record transition_assessment =
  sa_graph_id :: string
  sa_version :: string
  sa_graph_sha :: string
  sa_p8d :: string
  sa_p8f :: string
  sa_p8g :: string
  sa_count :: nat
  sa_allowed :: nat
  sa_denied :: nat
  sa_replay :: nat
  sa_stale :: nat
  sa_lease :: nat
  sa_cancel :: nat
  sa_toctou :: nat
  sa_upstream :: nat
  sa_maximum :: int
  sa_final_versions :: "(string \<times> int) list"
  sa_final_states :: "(string \<times> string) list"
  sa_facts :: "transition_fact list"
  sa_digest :: string

definition final_versions :: "object_cell list \<Rightarrow> (string \<times> int) list" where "final_versions cells = map (\<lambda>x. (oc_id x, oc_version x)) cells"
definition final_states :: "object_cell list \<Rightarrow> (string \<times> string) list" where "final_states cells = map (\<lambda>x. (oc_id x, oc_state x)) cells"

definition fact_json :: "transition_fact \<Rightarrow> json" where
  "fact_json f = JObj
     [(''id'', JStr (tf_id f)), (''decision'', JStr (transition_decision_value (tf_decision f))),
      (''risks'', JList (map (\<lambda>r. JStr (risk_value r)) (tf_risks f))), (''pre'', JInt (tf_pre f)), (''applied'', JInt (tf_applied f)),
      (''score'', JInt (tf_score f))]"

definition assessment_digest :: "(string \<Rightarrow> string) \<Rightarrow> transition_fact list \<Rightarrow> transition_manifest \<Rightarrow> object_cell list \<Rightarrow> string" where
  "assessment_digest sha facts m cells = sha (json_dumps True (JObj
     [(''graph_sha256'', JStr (manifest_digest sha m)), (''final_versions'', JObj (map (\<lambda>(i, v). (i, JInt v)) (final_versions cells))),
      (''final_hashes'', JObj (map (\<lambda>(i, s). (i, JStr s)) (final_states cells))), (''transitions'', JList (map fact_json facts))]))"

definition denied_ids :: "transition_fact list \<Rightarrow> string list" where
  "denied_ids facts = sort (map tf_id (filter (\<lambda>f. tf_decision f = DENY) facts))"

definition count_risks :: "transition_risk list \<Rightarrow> transition_fact list \<Rightarrow> nat" where
  "count_risks rs facts = length (filter (\<lambda>f. list_ex (\<lambda>r. r \<in> set (tf_risks f)) rs) facts)"

definition assessment_of :: "(string \<Rightarrow> string) \<Rightarrow> transition_policy \<Rightarrow> transition_manifest \<Rightarrow> transition_fact list \<Rightarrow> object_cell list \<Rightarrow> transition_assessment" where
  "assessment_of sha p m facts cells =
     \<lparr>sa_graph_id = tm_graph_id m, sa_version = tm_version m, sa_graph_sha = manifest_digest sha m, sa_p8d = tp_p8d p, sa_p8f = tp_p8f p,
       sa_p8g = tp_p8g p, sa_count = length facts, sa_allowed = length facts - length (denied_ids facts), sa_denied = length (denied_ids facts),
       sa_replay = count_risks [DUPLICATE_EXECUTION, IDEMPOTENCY_REUSE_MISMATCH, IRREVERSIBLE_REPLAY, DUPLICATE_SIDE_EFFECT] facts,
       sa_stale = count_risks [STALE_EXPECTED_VERSION, EXPECTED_STATE_MISMATCH, LOST_UPDATE, CONCURRENT_CONFLICT, VERSION_NON_MONOTONIC] facts,
       sa_lease = count_risks [LEASE_REQUIRED, LEASE_EXPIRED, LEASE_OWNER_MISMATCH, LEASE_OBJECT_MISMATCH] facts,
       sa_cancel = count_risks [CANCEL_EXECUTE_RACE, ROLLBACK_RACE] facts,
       sa_toctou = count_risks [APPROVAL_TO_USE_RACE, TOCTOU_STATE_CHANGE] facts,
       sa_upstream = count_risks [UPSTREAM_MESSAGE_UNSAFE, UPSTREAM_APPROVAL_UNSAFE, UPSTREAM_OBSERVATION_UNSAFE] facts,
       sa_maximum = foldr (\<lambda>f. max (tf_score f)) facts 0, sa_final_versions = final_versions cells, sa_final_states = final_states cells,
       sa_facts = facts, sa_digest = assessment_digest sha facts m cells\<rparr>"

definition request_bound :: "transition_policy \<Rightarrow> transition_request \<Rightarrow> bool" where
  "request_bound p r \<longleftrightarrow> tr_graph_id r = tp_graph_id p \<and> tr_version r = tp_version p \<and> casefold (tr_graph_sha r) = casefold (tp_graph_sha p) \<and>
     casefold (tr_p8d r) = casefold (tp_p8d p) \<and> casefold (tr_p8f r) = casefold (tp_p8f p) \<and> casefold (tr_p8g r) = casefold (tp_p8g p)"

definition declared_risks_ok :: "transition_fact list \<Rightarrow> string \<times> transition_risk list \<Rightarrow> state_rejection option" where
  "declared_risks_ok facts entry =
     reject_if (case row_of tf_id (fst entry) facts of None \<Rightarrow> True | Some f \<Rightarrow> snd entry \<noteq> tf_risks f) DECLARED_RISK_MISMATCH (Some (fst entry))"

definition evaluate_transitions ::
  "(string \<Rightarrow> string) \<Rightarrow> transition_policy \<Rightarrow> transition_request \<Rightarrow> transition_manifest \<Rightarrow> upstream_assessment \<Rightarrow> upstream_assessment
     \<Rightarrow> upstream_assessment \<Rightarrow> state_rejection + transition_assessment" where
  "evaluate_transitions sha p r m p8d p8f p8g =
     (case first_rejection
        [validate_policy p, reject_if (\<not> request_bound p r) REQUEST_INVALID None,
         reject_if (\<not> distinct (tr_transitions r) \<or> \<not> same_set (tr_transitions r) (tp_transitions p)) COVERAGE_MISMATCH None] of
        Some e \<Rightarrow> Inl e
      | None \<Rightarrow>
          (case derive sha p m p8d p8f p8g (tr_now r) of
             Inl e \<Rightarrow> Inl e
           | Inr (facts, cells) \<Rightarrow>
               (case first_rejection
                  ([reject_if (sort (tr_denied r) \<noteq> denied_ids facts) DECLARED_DECISION_MISMATCH None,
                    reject_if (\<not> same_set (map fst (tr_risks r)) (tp_transitions p)) DECLARED_RISK_MISMATCH None]
                   @ map (declared_risks_ok facts) (tr_risks r)
                   @ [reject_if (\<not> same_set (tr_versions r) (final_versions cells)) DECLARED_DECISION_MISMATCH None]) of
                  Some e \<Rightarrow> Inl e
                | None \<Rightarrow> Inr (assessment_of sha p m facts cells))))"

end
