(* ===== verification/Serializability.thy ===== *)
theory Serializability
  imports State_Transitions
begin

section \<open>Allowed transitions are a serial history\<close>

text \<open>The properties of \<open>State_Transitions\<close>: what is allowed is what a compare-and-swap store would execute.\<close>

subsection \<open>The allowed transitions, executed\<close>

text \<open>
  The specification is a store of versioned objects with compare-and-swap: a write names the version and the state it read, and
  succeeds only when they are current and the object is not cancelled; it leaves the next version.
\<close>

definition cas_write :: "state_transition \<Rightarrow> object_cell \<Rightarrow> object_cell option" where
  "cas_write t cell =
     (if oc_version cell = tn_expected_version t \<and> oc_state cell = casefold (tn_expected_state t) \<and> (oc_cancelled cell \<longrightarrow> tn_intent t = ROLLBACK)
      then Some \<lparr>oc_id = oc_id cell, oc_version = oc_version cell + 1, oc_state = casefold (tn_proposed_state t),
        oc_cancelled = (tn_intent t = CANCEL \<or> oc_cancelled cell \<and> tn_intent t \<noteq> ROLLBACK)\<rparr>
      else None)"

fun cas_run :: "state_transition list \<Rightarrow> object_cell list \<Rightarrow> object_cell list option" where
  "cas_run [] cells = Some cells"
| "cas_run (t # ts) cells =
     (case row_of oc_id (tn_object t) cells of
        None \<Rightarrow> None
      | Some cell \<Rightarrow> (case cas_write t cell of
            None \<Rightarrow> None
          | Some cell' \<Rightarrow> cas_run ts (update_where (\<lambda>x. oc_id x = tn_object t) (\<lambda>_. cell') cells)))"

definition writes :: "state_transition list \<Rightarrow> state_transition list" where "writes ts = filter (\<lambda>t. tn_intent t \<noteq> READ) ts"

text \<open>The allowed ones of a run, in order.\<close>

fun allowed_run :: "state_transition list \<Rightarrow> transition_fact list \<Rightarrow> state_transition list" where
  "allowed_run (t # ts) (f # fs) = (if tf_decision f = ALLOW then t # allowed_run ts fs else allowed_run ts fs)"
| "allowed_run _ _ = []"

lemma transition_risks_write:
  assumes "transition_risks c cell seen t = []" and "tn_intent t \<noteq> READ"
  shows "cas_write t cell = Some (apply_transition t cell)"
proof -
  have "state_risks c cell t = []" using assms(1) by (simp add: transition_risks_def)
  then have "oc_version cell = tn_expected_version t" "oc_state cell = casefold (tn_expected_state t)" "oc_cancelled cell \<longrightarrow> tn_intent t = ROLLBACK"
    "tn_proposed_version t = tn_expected_version t + 1"
    using assms(2) by (auto simp: state_risks_def split: if_splits)
  then show ?thesis by (auto simp: cas_write_def apply_transition_def)
qed

lemma update_where_at:
  assumes "distinct (map key rows)" and "row_of key k rows = Some r"
  shows "update_where (\<lambda>x. key x = k) f rows = update_where (\<lambda>x. key x = k) (\<lambda>_. f r) rows"
proof -
  have "x = r" if "x \<in> set rows" "key x = k" for x using row_of_unique [OF assms(1), of k x] row_of_unique [OF assms(1), of k r] assms(2) that by simp
  then show ?thesis unfolding update_where_def by (intro map_cong) auto
qed

lemma oc_id_apply_transition [simp]: "oc_id (apply_transition t cell) = oc_id cell"
  by (simp add: apply_transition_def)

lemma next_cells_ids: "map oc_id (next_cells t risks cells) = map oc_id cells"
  by (simp add: next_cells_def map_key_update_where)

lemma length_derived: "derive_facts c cells seen ts = (facts, final) \<Longrightarrow> length facts = length ts"
  by (induction c cells seen ts arbitrary: facts final rule: derive_facts.induct) (auto simp: Let_def split: prod.splits)

lemma allowed_writes_run:
  assumes "derive_facts c cells seen ts = (facts, final)" and "distinct (map oc_id cells)"
  shows "cas_run (writes (allowed_run ts facts)) cells = Some final"
  using assms
proof (induction c cells seen ts arbitrary: facts final rule: derive_facts.induct)
  case (1 c cells seen)
  then show ?case by (simp add: writes_def)
next
  case (2 c cells seen t ts)
  define risks where "risks = decide_transition c cells seen t"
  define after where "after = next_cells t risks cells"
  obtain fs final' where rest: "derive_facts c after (remember_key t seen) ts = (fs, final')" by fastforce
  have facts: "facts = transition_fact_of t risks cells after # fs" and final: "final = final'"
    using 2(2) rest by (simp_all add: Let_def risks_def [symmetric] after_def [symmetric])
  have ids: "distinct (map oc_id after)" using 2(3) by (simp add: after_def next_cells_ids)
  have IH: "cas_run (writes (allowed_run ts fs)) after = Some final"
    using 2(1) [OF risks_def after_def, of fs final] rest ids final by simp
  show ?case
  proof (cases "risks = [] \<and> tn_intent t \<noteq> READ")
    case False
    then have "after = cells" by (auto simp: after_def next_cells_def)
    with False IH show ?thesis by (auto simp: facts writes_def transition_fact_of_def)
  next
    case True
    then obtain cell where cell: "row_of oc_id (tn_object t) cells = Some cell" and none: "transition_risks c cell seen t = []"
      by (auto simp: risks_def decide_transition_def split: option.splits)
    have "after = update_where (\<lambda>x. oc_id x = tn_object t) (\<lambda>_. apply_transition t cell) cells"
      using True update_where_at [OF 2(3) cell, of "apply_transition t"] by (simp add: after_def next_cells_def)
    then show ?thesis using True cell none transition_risks_write [of c cell seen t] IH
      by (simp add: facts writes_def transition_fact_of_def)
  qed
qed

subsection \<open>What validation guarantees\<close>

lemma reject_if_None [simp]: "reject_if c r i = None \<longleftrightarrow> \<not> c"
  by (simp add: reject_if_def)

lemma derive_Inr:
  assumes "derive sha p m p8d p8f p8g now = Inr (facts, final)"
  shows "derive_facts (transition_context_of p m p8d p8f p8g) (map initial_cell (tm_objects m)) [] (sort_key transition_order (tm_transitions m)) = (facts, final)"
    and "distinct (map so_id (tm_objects m))" and "distinct (map tn_id (tm_transitions m))"
    and "\<And>t. t \<in> set (tm_transitions m) \<Longrightarrow> tn_object t \<in> so_id ` set (tm_objects m)"
    and "\<And>t l. t \<in> set (tm_transitions m) \<Longrightarrow> tn_lease t = Some l \<Longrightarrow> l \<in> ls_id ` set (tm_leases m)"
proof -
  have none: "first_rejection [validate_policy p, validate_upstreams p m p8d p8f p8g, validate_manifest sha p m now] = None"
    using assms by (simp add: derive_def split: option.splits)
  then show "derive_facts (transition_context_of p m p8d p8f p8g) (map initial_cell (tm_objects m)) [] (sort_key transition_order (tm_transitions m)) = (facts, final)"
    using assms by (simp add: derive_def Let_def transition_context_of_def)
  have valid: "validate_manifest sha p m now = None" using none by (simp add: first_rejection_None)
  note checks = valid [unfolded validate_manifest_def Let_def first_rejection_None]
  show "distinct (map so_id (tm_objects m))" "distinct (map tn_id (tm_transitions m))"
    using checks by (simp_all add: reject_duplicate_def duplicate_identifier_None)
  have each: "\<forall>r \<in> set (validate_transition p (map so_id (tm_objects m)) (map ls_id (tm_leases m)) t). r = None"
    if "t \<in> set (tm_transitions m)" for t using checks that by auto
  show "tn_object t \<in> so_id ` set (tm_objects m)" if "t \<in> set (tm_transitions m)" for t
    using each [OF that] by (simp add: validate_transition_def)
  show "l \<in> ls_id ` set (tm_leases m)" if "t \<in> set (tm_transitions m)" "tn_lease t = Some l" for t l
    using each [OF that(1)] that(2) by (simp add: validate_transition_def)
qed

subsection \<open>One transition of a run\<close>

lemma remember_key_keeps: "map_of seen k \<noteq> None \<Longrightarrow> map_of (remember_key t seen) k \<noteq> None"
  by (auto simp: remember_key_def split: option.split)

lemma remember_key_adds: "tn_key t = Some k \<Longrightarrow> map_of (remember_key t seen) k \<noteq> None"
  by (simp add: remember_key_def del: not_None_eq)

lemma run_at:
  assumes "derive_facts c cells seen ts = (facts, final)" and "k < length ts"
  obtains cells' seen' where "tf_id (facts ! k) = tn_id (ts ! k)"
    and "tf_decision (facts ! k) = ALLOW \<longleftrightarrow> decide_transition c cells' seen' (ts ! k) = []"
    and "tf_risks (facts ! k) = sorted_risks (decide_transition c cells' seen' (ts ! k))"
    and "map oc_id cells' = map oc_id cells" and "\<And>i. map_of seen i \<noteq> None \<Longrightarrow> map_of seen' i \<noteq> None"
    and "\<And>j i. j < k \<Longrightarrow> tn_key (ts ! j) = Some i \<Longrightarrow> map_of seen' i \<noteq> None"
  using assms
proof (induction c cells seen ts arbitrary: facts k thesis rule: derive_facts.induct)
  case (1 c cells seen)
  then show ?case by simp
next
  case (2 c cells seen t ts)
  define risks where "risks = decide_transition c cells seen t"
  define after where "after = next_cells t risks cells"
  obtain fs final' where rest: "derive_facts c after (remember_key t seen) ts = (fs, final')" by fastforce
  have facts: "facts = transition_fact_of t risks cells after # fs" and final: "final' = final"
    using 2(3) rest by (simp_all add: Let_def risks_def [symmetric] after_def [symmetric])
  show ?case
  proof (cases k)
    case 0
    then show ?thesis by (intro 2(2) [of cells seen]) (simp_all add: facts transition_fact_of_def risks_def)
  next
    case (Suc k')
    have k': "k' < length ts" using 2(4) Suc by simp
    show ?thesis
    proof (rule 2(1) [OF risks_def after_def _ _ k', of fs])
      show "derive_facts c after (remember_key t seen) ts = (fs, final)" using rest final by simp
    next
      fix cells' seen'
      assume run: "tf_id (fs ! k') = tn_id (ts ! k')" "(tf_decision (fs ! k') = ALLOW) = (decide_transition c cells' seen' (ts ! k') = [])"
        "tf_risks (fs ! k') = sorted_risks (decide_transition c cells' seen' (ts ! k'))" "map oc_id cells' = map oc_id after"
        and seen: "\<And>i. map_of (remember_key t seen) i \<noteq> None \<Longrightarrow> map_of seen' i \<noteq> None"
        and earlier: "\<And>j i. j < k' \<Longrightarrow> tn_key (ts ! j) = Some i \<Longrightarrow> map_of seen' i \<noteq> None"
      show ?thesis
      proof (rule 2(2) [of cells' seen'])
        show "map_of seen' i \<noteq> None" if "map_of seen i \<noteq> None" for i using that seen remember_key_keeps by blast
        show "map_of seen' i \<noteq> None" if "j < k" "tn_key ((t # ts) ! j) = Some i" for j i
        proof (cases j)
          case 0
          then show ?thesis using that seen remember_key_adds by simp
        next
          case (Suc j')
          then show ?thesis using that earlier \<open>k = Suc k'\<close> by simp
        qed
      qed (use run Suc in \<open>simp_all add: facts after_def next_cells_ids\<close>)
    qed
  qed
qed

lemma set_sorted_risks [simp]: "set (sorted_risks rs) = set rs"
  by (simp add: sorted_risks_def)

subsection \<open>Versions\<close>

lemma cas_run_version:
  assumes "cas_run ts cells = Some final" and "distinct (map oc_id cells)" and "row_of oc_id i cells = Some cell"
  shows "\<exists>cell'. row_of oc_id i final = Some cell' \<and> oc_version cell' = oc_version cell + int (length (filter (\<lambda>t. tn_object t = i) ts))"
  using assms
proof (induction ts arbitrary: cells cell)
  case (Cons t ts)
  obtain x x' where x: "row_of oc_id (tn_object t) cells = Some x" "cas_write t x = Some x'"
    and rest: "cas_run ts (update_where (\<lambda>y. oc_id y = tn_object t) (\<lambda>_. x') cells) = Some final"
    using Cons.prems(1) by (auto split: option.splits)
  have x': "oc_id x' = tn_object t" "oc_version x' = oc_version x + 1"
    using x row_of_SomeD [OF x(1)] by (auto simp: cas_write_def split: if_splits)
  let ?next = "update_where (\<lambda>y. oc_id y = tn_object t) (\<lambda>_. x') cells"
  have ids: "map oc_id ?next = map oc_id cells" by (rule map_key_update_where) (simp add: x')
  show ?case
  proof (cases "tn_object t = i")
    case True
    have "x' \<in> set ?next" using row_of_SomeD [OF x(1)] by (force simp: update_where_def)
    then have "row_of oc_id i ?next = Some x'" using Cons.prems(2) x' True ids row_of_unique [of oc_id ?next i x'] by simp
    from Cons.IH [OF rest _ this] ids Cons.prems(2) True x x' Cons.prems(3) show ?thesis by (simp add: algebra_simps)
  next
    case False
    have "row_of oc_id i ?next = Some cell" using Cons.prems(3) False by (subst find_update_where_other) (auto simp: x')
    from Cons.IH [OF rest _ this] ids Cons.prems(2) False show ?thesis by simp
  qed
qed simp

text \<open>The evidence that \<open>evaluate\<close> accepts.\<close>

lemma evaluate_Inr:
  assumes "evaluate_transitions sha p r m p8d p8f p8g = Inr a"
  obtains facts cells where "derive sha p m p8d p8f p8g (tr_now r) = Inr (facts, cells)" "a = assessment_of sha p m facts cells"
    "sort (tr_denied r) = denied_ids facts" "set (tr_versions r) = set (final_versions cells)"
    "\<And>i rs. (i, rs) \<in> set (tr_risks r) \<Longrightarrow> \<exists>f. row_of tf_id i facts = Some f \<and> rs = tf_risks f"
proof -
  obtain facts cells where derived: "derive sha p m p8d p8f p8g (tr_now r) = Inr (facts, cells)"
    using assms by (auto simp: evaluate_transitions_def split: option.splits sum.splits)
  have checks: "first_rejection
     ([reject_if (sort (tr_denied r) \<noteq> denied_ids facts) DECLARED_DECISION_MISMATCH None,
       reject_if (\<not> same_set (map fst (tr_risks r)) (tp_transitions p)) DECLARED_RISK_MISMATCH None]
      @ map (declared_risks_ok facts) (tr_risks r)
      @ [reject_if (\<not> same_set (tr_versions r) (final_versions cells)) DECLARED_DECISION_MISMATCH None]) = None"
    and a: "a = assessment_of sha p m facts cells"
    using assms derived by (auto simp: evaluate_transitions_def split: option.splits)
  note each = checks [unfolded first_rejection_None]
  have "declared_risks_ok facts (i, rs) = None" if "(i, rs) \<in> set (tr_risks r)" for i rs using each that by auto
  then have risks: "\<exists>f. row_of tf_id i facts = Some f \<and> rs = tf_risks f" if "(i, rs) \<in> set (tr_risks r)" for i rs
    using that by (fastforce simp: declared_risks_ok_def split: option.splits)
  show thesis
    by (rule that [OF derived a _ _ risks]) (use each in \<open>auto simp: same_set_def\<close>)
qed

lemma initial_cells_ids: "map oc_id (map initial_cell objects) = map so_id objects"
  by (simp add: initial_cell_def)

text \<open>\<^bold>\<open>C37\<close>. What is accepted is a serial history: the allowed writes, executed one after another in the order of their commit times
against a compare-and-swap store with the objects of the manifest, all succeed and leave exactly the versions the caller declared
and the states reported; each object's version grew by the number of writes to it; and the transitions declared denied are those
that were denied.\<close>

theorem accepted_transitions_are_serializable:
  assumes "evaluate_transitions sha p r m p8d p8f p8g = Inr a" and "ordered = sort_key transition_order (tm_transitions m)"
  shows "\<exists>final. cas_run (writes (allowed_run ordered (sa_facts a))) (map initial_cell (tm_objects m)) = Some final \<and>
    set (tr_versions r) = set (final_versions final) \<and> sa_final_versions a = final_versions final \<and> sa_final_states a = final_states final \<and>
    sort (tr_denied r) = denied_ids (sa_facts a) \<and>
    (\<forall>x \<in> set (tm_objects m). \<exists>cell. row_of oc_id (so_id x) final = Some cell \<and>
       oc_version cell = so_version x + int (length (filter (\<lambda>t. tn_object t = so_id x) (writes (allowed_run ordered (sa_facts a))))))"
proof -
  obtain facts cells where derived: "derive sha p m p8d p8f p8g (tr_now r) = Inr (facts, cells)" and a: "a = assessment_of sha p m facts cells"
    and declared: "sort (tr_denied r) = denied_ids facts" "set (tr_versions r) = set (final_versions cells)"
    using evaluate_Inr [OF assms(1)] by metis
  note run = derive_Inr [OF derived]
  have ids: "distinct (map oc_id (map initial_cell (tm_objects m)))" using run(2) by (simp only: initial_cells_ids)
  have cas: "cas_run (writes (allowed_run ordered facts)) (map initial_cell (tm_objects m)) = Some cells"
    using allowed_writes_run [OF run(1) ids] by (simp add: assms(2))
  have "\<exists>cell. row_of oc_id (so_id x) cells = Some cell \<and>
       oc_version cell = so_version x + int (length (filter (\<lambda>t. tn_object t = so_id x) (writes (allowed_run ordered facts))))"
    if "x \<in> set (tm_objects m)" for x
  proof -
    have "row_of oc_id (so_id x) (map initial_cell (tm_objects m)) = Some (initial_cell x)"
      using ids that row_of_unique [of oc_id "map initial_cell (tm_objects m)" "so_id x" "initial_cell x"] by (simp add: initial_cell_def)
    from cas_run_version [OF cas ids this] show ?thesis by (simp add: initial_cell_def)
  qed
  then show ?thesis using cas declared by (auto simp: a assessment_of_def)
qed

lemma transition_context_of_simps [simp]:
  "tc_policy (transition_context_of p m p8d p8f p8g) = p" "tc_objects (transition_context_of p m p8d p8f p8g) = tm_objects m"
  "tc_leases (transition_context_of p m p8d p8f p8g) = tm_leases m" "tc_observations (transition_context_of p m p8d p8f p8g) = ua_items p8d"
  "tc_approvals (transition_context_of p m p8d p8f p8g) = ua_items p8f" "tc_messages (transition_context_of p m p8d p8f p8g) = ua_items p8g"
  "tc_ordered (transition_context_of p m p8d p8f p8g) = sort_key transition_order (tm_transitions m)"
  by (simp_all add: transition_context_of_def)

text \<open>The decision on the transition at a position, with the object as it is then.\<close>

lemma derived_at:
  assumes "derive sha p m p8d p8f p8g now = Inr (facts, final)" and "k < length (tm_transitions m)"
    and "t = sort_key transition_order (tm_transitions m) ! k"
  obtains cell seen where "tf_id (facts ! k) = tn_id t"
    and "tf_decision (facts ! k) = ALLOW \<longleftrightarrow> transition_risks (transition_context_of p m p8d p8f p8g) cell seen t = []"
    and "set (tf_risks (facts ! k)) = set (transition_risks (transition_context_of p m p8d p8f p8g) cell seen t)"
    and "\<And>j i. j < k \<Longrightarrow> tn_key (sort_key transition_order (tm_transitions m) ! j) = Some i \<Longrightarrow> map_of seen i \<noteq> None"
proof -
  let ?c = "transition_context_of p m p8d p8f p8g" and ?ts = "sort_key transition_order (tm_transitions m)"
  note run = derive_Inr [OF assms(1)]
  have k: "k < length ?ts" using assms(2) by simp
  have "t \<in> set ?ts" using nth_mem [OF k] assms(3) by simp
  then have object: "tn_object t \<in> so_id ` set (tm_objects m)" using run(4) by simp
  show thesis
  proof (rule run_at [OF run(1) k])
    fix cells seen
    assume at: "tf_id (facts ! k) = tn_id (?ts ! k)" "(tf_decision (facts ! k) = ALLOW) = (decide_transition ?c cells seen (?ts ! k) = [])"
      "tf_risks (facts ! k) = sorted_risks (decide_transition ?c cells seen (?ts ! k))" "map oc_id cells = map oc_id (map initial_cell (tm_objects m))"
      and earlier: "\<And>j i. j < k \<Longrightarrow> tn_key (?ts ! j) = Some i \<Longrightarrow> map_of seen i \<noteq> None"
    have "tn_object t \<in> oc_id ` set cells" using object at(4) unfolding initial_cells_ids by (metis list.set_map)
    then obtain cell where "row_of oc_id (tn_object t) cells = Some cell" using row_of_None [of oc_id "tn_object t" cells] by fastforce
    then have "decide_transition ?c cells seen (?ts ! k) = transition_risks ?c cell seen t" by (simp add: decide_transition_def assms(3))
    then show thesis using that [of cell seen] at earlier by (simp add: assms(3))
  qed
qed

lemma two_in_filter:
  assumes "j < k" and "k < length xs" and "P (xs ! j)" and "P (xs ! k)"
  shows "1 < length (filter P xs)"
proof -
  have "xs = take k xs @ xs ! k # drop (Suc k) xs" using assms(2) by (simp add: id_take_nth_drop)
  then have "length (filter P xs) = length (filter P (take k xs)) + (1 + length (filter P (drop (Suc k) xs)))"
    using assms(4) by (metis filter_append filter.simps(2) length_append length_Cons plus_1_eq_Suc)
  moreover have "xs ! j \<in> set (filter P (take k xs))" using assms(1-3) by (auto simp: in_set_conv_nth intro!: exI [of _ j])
  then have "0 < length (filter P (take k xs))" by (metis length_greater_0_conv list.set(1) empty_iff)
  ultimately show ?thesis by simp
qed

text \<open>\<^bold>\<open>C38\<close>. No transition is allowed without the guards the policy asks for. Every allowed transition has a safe message, and its
intent and control are permitted for its object. If the policy lists the object as needing an approval, the approval is safe and,
unless the transition only reads, bound to the version and state it expects. If the policy lists the object as needing a
lease, the lease is for the object, held by the actor and current at commit. A write that is irreversible, or to an object the policy
lists as irreversible, has an idempotency key. And no transition before it, allowed or not, used its key, if it has one.\<close>

theorem allowed_transition_is_guarded:
  assumes "derive sha p m p8d p8f p8g now = Inr (facts, final)" and "k < length (tm_transitions m)"
    and "ordered = sort_key transition_order (tm_transitions m)" and "t = ordered ! k" and "tf_decision (facts ! k) = ALLOW"
  shows "tf_id (facts ! k) = tn_id t \<and> \<not> unsafe (evidence (tn_message t) (ua_items p8g)) \<and>
    tn_intent t \<in> set (allowed_for (tp_intents p) (tn_object t)) \<and> tn_control t \<in> set (allowed_for (tp_controls p) (tn_object t)) \<and>
    (tn_object t \<in> set (tp_approval_objects p) \<longrightarrow> \<not> unsafe (evidence (or_empty (tn_approval t)) (ua_items p8f)) \<and>
       (tn_intent t \<noteq> READ \<longrightarrow> tn_approved_version t = Some (tn_expected_version t) \<and>
          map_option casefold (tn_approved_state t) = Some (casefold (tn_expected_state t)))) \<and>
    (tn_object t \<in> set (tp_lease_objects p) \<longrightarrow> (\<exists>l \<in> set (tm_leases m). tn_lease t = Some (ls_id l) \<and> ls_object l = tn_object t \<and>
       ls_agent l = tn_actor t \<and> ls_issued l \<le> tn_commit t \<and> tn_commit t \<le> ls_expires l)) \<and>
    (tn_intent t \<noteq> READ \<and> (tn_irreversible t \<or> tn_object t \<in> set (tp_irreversible_objects p)) \<longrightarrow> tn_key t \<noteq> None) \<and>
    (\<forall>j < k. tn_key t \<noteq> None \<longrightarrow> tn_key (ordered ! j) \<noteq> tn_key t)"
proof -
  let ?c = "transition_context_of p m p8d p8f p8g"
  obtain cell seen where id: "tf_id (facts ! k) = tn_id t" and none: "transition_risks ?c cell seen t = []"
    and earlier: "\<And>j i. j < k \<Longrightarrow> tn_key (ordered ! j) = Some i \<Longrightarrow> map_of seen i \<noteq> None"
    using derived_at [OF assms(1,2), of t] assms(3-5) by metis
  note risks = none [unfolded transition_risks_def append_is_Nil_conv, simplified]
  have message: "\<not> unsafe (evidence (tn_message t) (ua_items p8g))"
    using risks by (auto simp: message_risks_def unsafe_def split: option.splits if_splits)
  have state: "tn_intent t \<noteq> READ \<Longrightarrow> oc_version cell = tn_expected_version t \<and> oc_state cell = casefold (tn_expected_state t) \<and>
      (is_irreversible ?c t \<longrightarrow> tn_key t \<noteq> None)"
    using risks by (auto simp: state_risks_def split: if_splits)
  have approval: "tn_object t \<in> set (tp_approval_objects p) \<Longrightarrow> \<not> unsafe (evidence (or_empty (tn_approval t)) (ua_items p8f)) \<and>
      tn_approved_version t = Some (oc_version cell) \<and> map_option casefold (tn_approved_state t) = Some (oc_state cell)"
    using risks by (auto simp: approval_risks_def split: option.splits)
  have lease: "\<exists>l \<in> set (tm_leases m). tn_lease t = Some (ls_id l) \<and> ls_object l = tn_object t \<and> ls_agent l = tn_actor t \<and>
      ls_issued l \<le> tn_commit t \<and> tn_commit t \<le> ls_expires l" if required: "tn_object t \<in> set (tp_lease_objects p)"
  proof -
    have empty: "lease_risks ?c t = []" using risks by simp
    then obtain i l where i: "tn_lease t = Some i" "row_of ls_id i (tm_leases m) = Some l"
      using required by (auto simp: lease_risks_def split: option.splits if_splits)
    then have "ls_object l = tn_object t \<and> ls_agent l = tn_actor t \<and> ls_issued l \<le> tn_commit t \<and> tn_commit t \<le> ls_expires l"
      using empty required by (auto simp: lease_risks_def)
    then show ?thesis using i row_of_SomeD [OF i(2)] by auto
  qed
  have key: "map_of seen i = None" if "tn_key t = Some i" for i
    using risks that by (auto simp: key_risks_def split: option.splits if_splits)
  have fresh: "tn_key (ordered ! j) \<noteq> tn_key t" if "j < k" "tn_key t \<noteq> None" for j
    using earlier [OF that(1)] key that(2) by (metis option.exhaust)
  show ?thesis
    using id message risks state approval lease fresh by (auto simp: is_irreversible_def)
qed

text \<open>Transitions that are themselves refused stop others: of two writes against one version of an object both are
denied, whatever else is wrong with either; two transitions that name one observation are both denied, a read included; and a
transition whose idempotency key was named before is denied even when the earlier one was denied and nothing was executed.\<close>

theorem refused_transitions_stop_others:
  assumes "derive sha p m p8d p8f p8g now = Inr (facts, final)" and "j < k" and "k < length (tm_transitions m)"
    and "ordered = sort_key transition_order (tm_transitions m)" and "s = ordered ! j" and "t = ordered ! k"
  shows "(tn_intent s \<noteq> READ \<and> tn_intent t \<noteq> READ \<and> tn_object s = tn_object t \<and> tn_expected_version s = tn_expected_version t \<longrightarrow>
      CONCURRENT_CONFLICT \<in> set (tf_risks (facts ! j)) \<and> CONCURRENT_CONFLICT \<in> set (tf_risks (facts ! k))) \<and>
    (tn_observation s \<noteq> None \<and> tn_observation s = tn_observation t \<longrightarrow>
      DUPLICATE_SIDE_EFFECT \<in> set (tf_risks (facts ! j)) \<and> DUPLICATE_SIDE_EFFECT \<in> set (tf_risks (facts ! k))) \<and>
    (tn_key s \<noteq> None \<and> tn_key s = tn_key t \<longrightarrow> tf_decision (facts ! k) = DENY)"
proof -
  let ?c = "transition_context_of p m p8d p8f p8g"
  have both: "1 < length (filter P ordered)" if "P s" "P t" for P
    using two_in_filter [of j k ordered P] that assms(2-6) by simp
  have conflict: "CONCURRENT_CONFLICT \<in> set (tf_risks (facts ! i))" if "i < length (tm_transitions m)" "u = ordered ! i" "tn_intent u \<noteq> READ"
    "1 < length (writers ordered u)" for i u
  proof (rule derived_at [OF assms(1) that(1), of u])
    fix cell seen assume "set (tf_risks (facts ! i)) = set (transition_risks ?c cell seen u)"
    then show ?thesis using that assms(4) by (simp add: transition_risks_def state_risks_def)
  qed (use that assms(4) in simp)
  have duplicate: "DUPLICATE_SIDE_EFFECT \<in> set (tf_risks (facts ! i))" if "i < length (tm_transitions m)" "u = ordered ! i"
    "tn_observation u = Some x" "1 < observation_uses ordered x" for i u x
  proof (rule derived_at [OF assms(1) that(1), of u])
    fix cell seen assume "set (tf_risks (facts ! i)) = set (transition_risks ?c cell seen u)"
    then show ?thesis using that assms(4) by (simp add: transition_risks_def observation_risks_def risk_if_def)
  qed (use that assms(4) in simp)
  have burned: "tf_decision (facts ! k) = DENY" if key: "tn_key s = Some i" "tn_key t = Some i" for i
  proof (rule derived_at [OF assms(1,3), of t])
    fix cell seen assume decision: "(tf_decision (facts ! k) = ALLOW) = (transition_risks ?c cell seen t = [])"
      and earlier: "\<And>j i. j < k \<Longrightarrow> tn_key (sort_key transition_order (tm_transitions m) ! j) = Some i \<Longrightarrow> map_of seen i \<noteq> None"
    have "map_of seen i \<noteq> None" using earlier [OF assms(2)] key(1) assms(4,5) by simp
    then have "key_risks ?c seen t \<noteq> []" using key(2) by (auto simp: key_risks_def split: if_splits)
    then show ?thesis using decision by (cases "tf_decision (facts ! k)") (simp_all add: transition_risks_def)
  qed (simp add: assms(4,6))
  have j: "j < length (tm_transitions m)" using assms(2,3) by simp
  show ?thesis
  proof (intro conjI impI)
    assume same: "tn_intent s \<noteq> READ \<and> tn_intent t \<noteq> READ \<and> tn_object s = tn_object t \<and> tn_expected_version s = tn_expected_version t"
    then have "1 < length (writers ordered s)" "1 < length (writers ordered t)" unfolding writers_def by (intro both; simp)+
    then show "CONCURRENT_CONFLICT \<in> set (tf_risks (facts ! j))" "CONCURRENT_CONFLICT \<in> set (tf_risks (facts ! k))"
      using conflict [OF j assms(5)] conflict [OF assms(3,6)] same by simp_all
  next
    assume same: "tn_observation s \<noteq> None \<and> tn_observation s = tn_observation t"
    then obtain x where x: "tn_observation s = Some x" "tn_observation t = Some x" by (metis option.exhaust)
    then have "1 < observation_uses ordered x" unfolding observation_uses_def by (intro both)
    then show "DUPLICATE_SIDE_EFFECT \<in> set (tf_risks (facts ! j))" "DUPLICATE_SIDE_EFFECT \<in> set (tf_risks (facts ! k))"
      using duplicate [OF j assms(5) x(1)] duplicate [OF assms(3,6) x(2)] by simp_all
  next
    assume "tn_key s \<noteq> None \<and> tn_key s = tn_key t"
    then show "tf_decision (facts ! k) = DENY" using burned by (metis option.exhaust)
  qed
qed

subsection \<open>A ticket and its transitions\<close>

definition site_digest :: "string \<Rightarrow> string" where "site_digest x = replicate 64 (CHR ''a'')"

definition state_digest :: "char \<Rightarrow> string" where "state_digest c = replicate 64 c"

definition site_transition :: "string \<Rightarrow> int \<Rightarrow> char \<Rightarrow> char \<Rightarrow> string \<Rightarrow> int \<Rightarrow> state_transition" where
  "site_transition i v before after key commit =
     \<lparr>tn_id = i, tn_object = ''ticket'', tn_message = ''msg'', tn_approval = Some ''action'', tn_observation = None, tn_actor = ''agent'',
       tn_principal = ''user'', tn_tenant = ''t1'', tn_intent = MUTATE, tn_control = EXPECTED_VERSION, tn_expected_version = v,
       tn_expected_state = state_digest before, tn_proposed_version = v + 1, tn_proposed_state = state_digest after, tn_key = Some key,
       tn_lease = Some ''lease'', tn_approved_version = Some v, tn_approved_state = Some (state_digest before), tn_payload = state_digest CHR ''f'',
       tn_irreversible = False, tn_issued = 0, tn_commit = commit, tn_owner = ''sec'', tn_description = []\<rparr>"

definition site_manifest :: "state_transition list \<Rightarrow> transition_manifest" where
  "site_manifest ts =
     \<lparr>tm_graph_id = ''g'', tm_version = ''1'', tm_p8d = state_digest CHR ''d'', tm_p8f = state_digest CHR ''d'', tm_p8g = state_digest CHR ''d'',
       tm_created = 100,
       tm_objects = [\<lparr>so_id = ''ticket'', so_type = TOOL_RESOURCE, so_tenant = ''t1'', so_version = 10, so_state = state_digest CHR ''0'',
         so_owner = ''sec'', so_description = []\<rparr>],
       tm_leases = [\<lparr>ls_id = ''lease'', ls_object = ''ticket'', ls_agent = ''agent'', ls_issued = 0, ls_expires = 50, ls_owner = ''sec'',
         ls_description = []\<rparr>],
       tm_transitions = ts, tm_schema = P8H_STATE_SCHEMA_VERSION\<rparr>"

definition site_transition_policy :: "string list \<Rightarrow> transition_policy" where
  "site_transition_policy ids =
     \<lparr>tp_graph_id = ''g'', tp_version = ''1'', tp_graph_sha = state_digest CHR ''a'', tp_p8d = state_digest CHR ''d'', tp_p8f = state_digest CHR ''d'',
       tp_p8g = state_digest CHR ''d'', tp_objects = [''ticket''], tp_leases = [''lease''], tp_transitions = ids, tp_owners = [''sec''],
       tp_profiles = [(''ticket'', TOOL_RESOURCE, ''t1'', 10, state_digest CHR ''0'')], tp_intents = [(''ticket'', [READ, MUTATE])],
       tp_controls = [(''ticket'', [EXPECTED_VERSION])], tp_approval_objects = [''ticket''], tp_observation_objects = [],
       tp_lease_objects = [''ticket''], tp_irreversible_objects = [''ticket''], tp_max_age = 100, tp_max_skew = 0\<rparr>"

definition site_upstream :: "string \<Rightarrow> upstream_assessment" where
  "site_upstream i = \<lparr>ua_digest = state_digest CHR ''d'', ua_verified = True, ua_caller_trusted = False,
     ua_items = [\<lparr>ui_id = i, ui_decision = ''allow'', ui_tenant = Some ''t1'', ui_sender = Some ''agent''\<rparr>]\<rparr>"

definition serial_transitions :: "state_transition list" where
  "serial_transitions = [site_transition ''b'' 11 (CHR ''1'') (CHR ''2'') ''k2'' 8, site_transition ''a'' 10 (CHR ''0'') (CHR ''1'') ''k1'' 5]"

definition racing_transitions :: "state_transition list" where
  "racing_transitions = [site_transition ''a'' 10 (CHR ''0'') (CHR ''1'') ''k1'' 5, site_transition ''b'' 10 (CHR ''0'') (CHR ''2'') ''k2'' 90]"

lemma state_digest_ok [simp]:
  "c \<in> set ''0123456789abcdef'' \<Longrightarrow> is_digest (state_digest c)" "c \<in> set ''0123456789abcdef'' \<Longrightarrow> casefold (state_digest c) = state_digest c"
proof -
  assume c: "c \<in> set ''0123456789abcdef''"
  then have "casefold [c] = [c]" by (auto simp: casefold_def)
  then show fold: "casefold (state_digest c) = state_digest c" by (simp add: casefold_def state_digest_def)
  show "is_digest (state_digest c)" using c unfolding is_digest_def fold by (simp add: state_digest_def list_all_iff del: replicate.simps)
qed

lemma state_digest_inject [simp]: "state_digest c = state_digest d \<longleftrightarrow> c = d"
  by (auto simp: state_digest_def replicate_eq_replicate)

lemma site_manifest_digest [simp]: "manifest_digest site_digest m = state_digest CHR ''a''"
  by (simp add: manifest_digest_def site_digest_def state_digest_def)

definition site_facts :: "string list \<Rightarrow> state_transition list \<Rightarrow> transition_fact list \<times> object_cell list" where
  "site_facts ids ts = derive_facts (transition_context_of (site_transition_policy ids) (site_manifest ts) (site_upstream ''o'') (site_upstream ''action'') (site_upstream ''msg''))
     (map initial_cell (tm_objects (site_manifest ts))) [] (sort_key transition_order ts)"

lemmas site_defs = site_transition_policy_def site_manifest_def site_upstream_def site_transition_def

lemma site_manifest_transitions [simp]: "tm_transitions (site_manifest ts) = ts"
  by (simp add: site_manifest_def)

lemma site_valid:
  assumes "ids = map tn_id ts" and "distinct ids" and "ts = serial_transitions \<or> ts = racing_transitions"
  shows "derive site_digest (site_transition_policy ids) (site_manifest ts) (site_upstream ''o'') (site_upstream ''action'') (site_upstream ''msg'') 110 =
     Inr (site_facts ids ts)"
proof -
  let ?p = "site_transition_policy ids" and ?m = "site_manifest ts"
  have "validate_policy ?p = None"
    by (simp add: validate_policy_def first_rejection_None same_set_def site_defs)
  moreover have "validate_upstreams ?p ?m (site_upstream ''o'') (site_upstream ''action'') (site_upstream ''msg'') = None"
    by (simp add: validate_upstreams_def validate_upstream_def first_rejection_None site_defs)
  moreover have "\<forall>t \<in> set ts. \<forall>r \<in> set (validate_transition ?p [''ticket''] [''lease''] t). r = None"
    using assms(3) by (auto simp: validate_transition_def serial_transitions_def racing_transitions_def site_defs)
  then have "validate_manifest site_digest ?p ?m 110 = None"
    using assms(1,2) by (auto simp: validate_manifest_def first_rejection_None reject_duplicate_def duplicate_identifier_None same_set_def
      validate_object_def validate_lease_def Let_def site_transition_policy_def site_manifest_def)
  ultimately show ?thesis by (simp add: derive_def site_facts_def first_rejection_None transition_context_of_def)
qed

definition serial_facts :: "transition_fact list" where "serial_facts = fst (site_facts [''b'', ''a''] serial_transitions)"

lemma serial_outcome:
  "map (\<lambda>f. (tf_id f, tf_decision f, tf_risks f)) serial_facts = [(''a'', ALLOW, []), (''b'', ALLOW, [])]"
  "map (\<lambda>x. (oc_id x, oc_version x)) (snd (site_facts [''b'', ''a''] serial_transitions)) = [(''ticket'', 12)]"
  by code_simp+

lemma racing_outcome:
  "map (\<lambda>f. (tf_id f, tf_decision f, tf_risks f)) (fst (site_facts [''a'', ''b''] racing_transitions)) =
     [(''a'', DENY, [CONCURRENT_CONFLICT, LOST_UPDATE]), (''b'', DENY, [CONCURRENT_CONFLICT, LEASE_EXPIRED, LOST_UPDATE])]"
  by code_simp

definition serial_request :: transition_request where
  "serial_request =
     \<lparr>tr_graph_id = ''g'', tr_version = ''1'', tr_graph_sha = state_digest CHR ''a'', tr_p8d = state_digest CHR ''d'', tr_p8f = state_digest CHR ''d'',
       tr_p8g = state_digest CHR ''d'', tr_now = 110, tr_transitions = [''a'', ''b''], tr_denied = [], tr_risks = [(''a'', []), (''b'', [])],
       tr_versions = [(''ticket'', 12)]\<rparr>"

lemma serial_ids: "[''b'', ''a''] = map tn_id serial_transitions" "distinct [''b'', ''a'']"
  by (simp_all add: serial_transitions_def site_transition_def)

lemma racing_ids: "[''a'', ''b''] = map tn_id racing_transitions" "distinct [''a'', ''b'']"
  by (simp_all add: racing_transitions_def site_transition_def)

lemma serial_accepted:
  "\<exists>a. evaluate_transitions site_digest (site_transition_policy [''b'', ''a'']) serial_request (site_manifest serial_transitions) (site_upstream ''o'')
     (site_upstream ''action'') (site_upstream ''msg'') = Inr a \<and> sa_facts a = serial_facts"
proof -
  obtain facts cells where run: "site_facts [''b'', ''a''] serial_transitions = (facts, cells)" by fastforce
  then have facts: "serial_facts = facts" by (simp add: serial_facts_def)
  obtain f g where fs: "facts = [f, g]" and f: "tf_id f = ''a''" "tf_decision f = ALLOW" "tf_risks f = []" and g: "tf_id g = ''b''" "tf_decision g = ALLOW" "tf_risks g = []"
    using serial_outcome(1) unfolding facts by (auto simp: map_eq_Cons_conv)
  have cells: "final_versions cells = [(''ticket'', 12)]" using serial_outcome(2) run by (simp add: final_versions_def)
  have policy: "validate_policy (site_transition_policy [''b'', ''a'']) = None"
    by (simp add: validate_policy_def first_rejection_None same_set_def site_defs)
  have bound: "request_bound (site_transition_policy [''b'', ''a'']) serial_request"
    by (simp add: request_bound_def serial_request_def site_defs)
  have covered: "distinct (tr_transitions serial_request) \<and> same_set (tr_transitions serial_request) (tp_transitions (site_transition_policy [''b'', ''a'']))"
    by (auto simp: serial_request_def same_set_def site_defs)
  have now: "tr_now serial_request = 110" by (simp add: serial_request_def)
  have declared: "first_rejection
     ([reject_if (sort (tr_denied serial_request) \<noteq> denied_ids facts) DECLARED_DECISION_MISMATCH None,
       reject_if (\<not> same_set (map fst (tr_risks serial_request)) (tp_transitions (site_transition_policy [''b'', ''a'']))) DECLARED_RISK_MISMATCH None]
      @ map (declared_risks_ok facts) (tr_risks serial_request)
      @ [reject_if (\<not> same_set (tr_versions serial_request) (final_versions cells)) DECLARED_DECISION_MISMATCH None]) = None"
    unfolding first_rejection_None using f g cells
    by (auto simp: fs serial_request_def denied_ids_def same_set_def declared_risks_ok_def site_defs)
  have request: "first_rejection [validate_policy (site_transition_policy [''b'', ''a'']),
      reject_if (\<not> request_bound (site_transition_policy [''b'', ''a'']) serial_request) REQUEST_INVALID None,
      reject_if (\<not> distinct (tr_transitions serial_request) \<or>
        \<not> same_set (tr_transitions serial_request) (tp_transitions (site_transition_policy [''b'', ''a'']))) COVERAGE_MISMATCH None] = None"
    unfolding first_rejection_None using policy bound covered by simp
  have derived: "derive site_digest (site_transition_policy [''b'', ''a'']) (site_manifest serial_transitions) (site_upstream ''o'') (site_upstream ''action'')
      (site_upstream ''msg'') (tr_now serial_request) = Inr (facts, cells)"
    using site_valid [OF serial_ids disjI1 [OF refl]] run now by simp
  have "evaluate_transitions site_digest (site_transition_policy [''b'', ''a'']) serial_request (site_manifest serial_transitions) (site_upstream ''o'')
     (site_upstream ''action'') (site_upstream ''msg'') =
      Inr (assessment_of site_digest (site_transition_policy [''b'', ''a'']) (site_manifest serial_transitions) facts cells)"
    unfolding evaluate_transitions_def request derived option.case sum.case prod.case declared ..
  then show ?thesis by (simp add: assessment_of_def facts)
qed

theorem accepted_transitions_are_serializable_witness:
  "\<exists>a final. evaluate_transitions site_digest (site_transition_policy [''b'', ''a'']) serial_request (site_manifest serial_transitions) (site_upstream ''o'')
       (site_upstream ''action'') (site_upstream ''msg'') = Inr a \<and>
     cas_run (writes (allowed_run (sort_key transition_order serial_transitions) (sa_facts a))) (map initial_cell (tm_objects (site_manifest serial_transitions))) = Some final \<and>
     set (final_versions final) = {(''ticket'', 12)}"
proof -
  obtain a where a: "evaluate_transitions site_digest (site_transition_policy [''b'', ''a'']) serial_request (site_manifest serial_transitions) (site_upstream ''o'')
     (site_upstream ''action'') (site_upstream ''msg'') = Inr a" using serial_accepted by blast
  have "set (tr_versions serial_request) = {(''ticket'', 12)}" by (simp add: serial_request_def)
  then show ?thesis using accepted_transitions_are_serializable [OF a refl] a by auto
qed

theorem allowed_transition_is_guarded_witness:
  "tf_decision (serial_facts ! 1) = ALLOW \<and> tf_id (serial_facts ! 1) = ''b'' \<and>
   tn_key (sort_key transition_order serial_transitions ! 0) \<noteq> tn_key (sort_key transition_order serial_transitions ! 1) \<and>
   tn_approved_version (sort_key transition_order serial_transitions ! 1) = Some 11"
proof -
  let ?t = "sort_key transition_order (tm_transitions (site_manifest serial_transitions)) ! 1"
  obtain facts cells where run: "site_facts [''b'', ''a''] serial_transitions = (facts, cells)" by fastforce
  then have facts: "serial_facts = facts" by (simp add: serial_facts_def)
  have allow: "tf_decision (facts ! 1) = ALLOW" and id: "tf_id (facts ! 1) = ''b''"
    using serial_outcome(1) unfolding facts by (auto simp: map_eq_Cons_conv)
  have "sort_key transition_order serial_transitions = rev serial_transitions" by code_simp
  then have t: "?t = site_transition ''b'' 11 (CHR ''1'') (CHR ''2'') ''k2'' 8" by (simp add: serial_transitions_def)
  have derived: "derive site_digest (site_transition_policy [''b'', ''a'']) (site_manifest serial_transitions) (site_upstream ''o'') (site_upstream ''action'')
      (site_upstream ''msg'') 110 = Inr (facts, cells)"
    using site_valid [OF serial_ids disjI1 [OF refl]] run by simp
  have "1 < length (tm_transitions (site_manifest serial_transitions))" by (simp add: serial_transitions_def)
  from allowed_transition_is_guarded [OF derived this refl refl allow] show ?thesis
    using allow id t by (simp add: facts site_defs)
qed

theorem refused_transitions_stop_others_witness:
  "CONCURRENT_CONFLICT \<in> set (tf_risks (fst (site_facts [''a'', ''b''] racing_transitions) ! 0)) \<and>
   LEASE_EXPIRED \<in> set (tf_risks (fst (site_facts [''a'', ''b''] racing_transitions) ! 1))"
proof -
  obtain facts cells where run: "site_facts [''a'', ''b''] racing_transitions = (facts, cells)" by fastforce
  have derived: "derive site_digest (site_transition_policy [''a'', ''b'']) (site_manifest racing_transitions) (site_upstream ''o'') (site_upstream ''action'')
      (site_upstream ''msg'') 110 = Inr (facts, cells)"
    using site_valid [OF racing_ids disjI2 [OF refl]] run by simp
  have sorted: "sort_key transition_order racing_transitions = racing_transitions" by code_simp
  have length: "(1::nat) < length (tm_transitions (site_manifest racing_transitions))" by (simp add: racing_transitions_def)
  have expired: "LEASE_EXPIRED \<in> set (tf_risks (facts ! 1))" using racing_outcome run by (auto simp: map_eq_Cons_conv)
  from refused_transitions_stop_others [OF derived zero_less_one length refl refl refl] show ?thesis
    using expired by (simp add: run sorted) (simp add: racing_transitions_def site_defs)
qed

end
