(* ===== verification/Delegation.thy ===== *)
theory Delegation
  imports Evidence_Checks Encodings "HOL-Library.Product_Lexorder"
begin

section \<open>Delegation between agents\<close>

text \<open>
  \<open>aegis/agentic/delegation_security.py\<close>: \<open>MultiAgentDelegationSecurityAnalyzer\<close> decides which delegations of capabilities from
  agent to agent are admissible. Of each of the three earlier assessments it reads a digest, some flags and a sequence of items of
  which an identifier and whether it is exposed, or a state, matter.
\<close>

datatype agent_role = ORCHESTRATOR | RETRIEVAL_AGENT | TOOL_BROKER | TOOL_AGENT | SECURITY_AGENT | RELEASE_AGENT | OBSERVABILITY_AGENT

datatype tenant_scope = TENANT_BOUND | SYSTEM

datatype delegation_decision = DELEGATION_ALLOW | DELEGATION_DENY

datatype delegation_risk =
    SCOPE_AMPLIFICATION | CROSS_TENANT | CONFUSED_DEPUTY | CAPABILITY_LAUNDERING | CHAIN_TOO_DEEP | CHAIN_DISCONTINUITY
  | IDENTITY_CONTINUITY | PROVENANCE_MISMATCH | EXPIRED | UPSTREAM_PRIVILEGE_EXPOSED | CONTROL_PLANE_ROUTE_EXPOSED
  | ARCHITECTURE_INVARIANT_UNSAFE | TASK_NOT_AUTHORIZED | UNTRUSTED_AGENT

datatype delegation_reject =
    DELEGATION_POLICY_INVALID | DELEGATION_REQUEST_INVALID | P7B_UNVERIFIED | P7B_DIGEST_MISMATCH | P7H_UNVERIFIED | P7H_DIGEST_MISMATCH
  | P7I_UNVERIFIED | P7I_DIGEST_MISMATCH | DELEGATION_MANIFEST_INVALID | MANIFEST_DIGEST_MISMATCH | MANIFEST_STALE | MANIFEST_FUTURE
  | AGENT_DUPLICATE | AGENT_COVERAGE_MISMATCH | AGENT_OWNER_UNTRUSTED | AGENT_ROLE_DRIFT | AGENT_TENANT_DRIFT | AGENT_TRUST_DOMAIN_DRIFT
  | AGENT_CAPABILITY_DRIFT | AGENT_PRIVILEGE_PATH_DRIFT | AGENT_PRIVILEGE_PATH_UNKNOWN | AGENT_CONTROL_ROUTE_DRIFT
  | AGENT_CONTROL_ROUTE_UNKNOWN | AGENT_DELEGATION_FLAG_DRIFT | AGENT_DEPTH_DRIFT | CAPABILITY_DUPLICATE | CAPABILITY_COVERAGE_MISMATCH
  | CAPABILITY_FAMILY_DRIFT | CAPABILITY_LEVEL_DRIFT | CAPABILITY_SCOPE_DRIFT | CAPABILITY_PRIVILEGE_DRIFT | CAPABILITY_ROUTE_DRIFT
  | CAPABILITY_INVARIANT_DRIFT | CAPABILITY_REFERENCE_UNKNOWN | DELEGATION_DUPLICATE | DELEGATION_COVERAGE_MISMATCH
  | DELEGATION_OWNER_UNTRUSTED | DELEGATION_REFERENCE_UNKNOWN | DELEGATION_CAPABILITY_UNKNOWN | DELEGATION_PARENT_UNKNOWN
  | DELEGATION_CYCLE | DELEGATION_TIME_INVALID | DELEGATION_PROVENANCE_INVALID | ORIGINAL_PRINCIPAL_UNKNOWN
  | DELEGATION_DECLARED_DECISION_MISMATCH | DELEGATION_DECLARED_RISK_MISMATCH

text \<open>The identifier an exception carries; which of its three fields it is follows from the reason.\<close>

datatype delegation_error = DelegationSecurityRejected delegation_reject "string option" | DelegationKeyError

record agent_identity =
  ag_id :: string
  ag_role :: agent_role
  ag_tenant :: string
  ag_domain :: string
  ag_owner :: string
  ag_capabilities :: "string list"
  ag_paths :: "string list"
  ag_routes :: "string list"
  ag_accepts :: bool
  ag_depth :: int
  ag_description :: string

record agent_capability =
  ac_id :: string
  ac_family :: string
  ac_level :: int
  ac_scope :: tenant_scope
  ac_privileged :: bool
  ac_routes :: "string list"
  ac_invariants :: "string list"
  ac_description :: string

record delegation_record =
  dl_id :: string
  dl_parent :: "string option"
  dl_principal :: string
  dl_delegator :: string
  dl_delegatee :: string
  dl_task :: string
  dl_tenant :: string
  dl_capabilities :: "string list"
  dl_request :: string
  dl_issued :: int
  dl_expires :: int
  dl_owner :: string
  dl_description :: string

record delegation_manifest =
  dm_graph_id :: string
  dm_version :: string
  dm_p7b :: string
  dm_p7h :: string
  dm_p7i :: string
  dm_created :: int
  dm_agents :: "agent_identity list"
  dm_capabilities :: "agent_capability list"
  dm_delegations :: "delegation_record list"
  dm_schema :: string

record delegation_request =
  dq_graph_id :: string
  dq_version :: string
  dq_graph_sha :: string
  dq_p7b :: string
  dq_p7h :: string
  dq_p7i :: string
  dq_now :: int
  dq_delegations :: "string list"
  dq_denied :: "string list"
  dq_risks :: "(string \<times> delegation_risk list) list"

record delegation_policy =
  dp_graph_id :: string
  dp_version :: string
  dp_graph_sha :: string
  dp_p7b :: string
  dp_p7h :: string
  dp_p7i :: string
  dp_agents :: "string list"
  dp_capabilities :: "string list"
  dp_delegations :: "string list"
  dp_owners :: "string list"
  dp_domains :: "string list"
  dp_shared :: "string list"
  dp_agent_role :: "(string \<times> agent_role) list"
  dp_agent_tenant :: "(string \<times> string) list"
  dp_agent_domain :: "(string \<times> string) list"
  dp_agent_capabilities :: "(string \<times> string list) list"
  dp_agent_paths :: "(string \<times> string list) list"
  dp_agent_routes :: "(string \<times> string list) list"
  dp_agent_accepts :: "(string \<times> bool) list"
  dp_agent_depth :: "(string \<times> int) list"
  dp_capability_family :: "(string \<times> string) list"
  dp_capability_level :: "(string \<times> int) list"
  dp_capability_scope :: "(string \<times> tenant_scope) list"
  dp_capability_privileged :: "(string \<times> bool) list"
  dp_capability_routes :: "(string \<times> string list) list"
  dp_capability_invariants :: "(string \<times> string list) list"
  dp_principal_tenant :: "(string \<times> string) list"
  dp_principal_tasks :: "(string \<times> string list) list"
  dp_principal_levels :: "(string \<times> (string \<times> int) list) list"
  dp_max_depth :: int
  dp_max_age :: int
  dp_max_skew :: int

record delegation_evidence =
  de_id :: string
  de_exposed :: bool
  de_state :: string

record evidence_assessment =
  ea_digest :: string
  ea_flags :: "bool list"
  ea_items :: "delegation_evidence list"

record delegation_fact =
  df_id :: string
  df_parent :: "string option"
  df_principal :: string
  df_delegator :: string
  df_delegatee :: string
  df_task :: string
  df_tenant :: string
  df_depth :: int
  df_requested :: "string list"
  df_families :: "string list"
  df_decision :: delegation_decision
  df_risks :: "delegation_risk list"
  df_effective :: "string list"
  df_maximum :: "string list"
  df_paths :: "string list"
  df_routes :: "string list"
  df_invariants :: "string list"

definition P8A_DELEGATION_SCHEMA_VERSION :: string where "P8A_DELEGATION_SCHEMA_VERSION = ''aegis-agent-delegation-manifest-v1''"

fun agent_role_value :: "agent_role \<Rightarrow> string" where
  "agent_role_value ORCHESTRATOR = ''orchestrator''"
| "agent_role_value RETRIEVAL_AGENT = ''retrieval_agent''"
| "agent_role_value TOOL_BROKER = ''tool_broker''"
| "agent_role_value TOOL_AGENT = ''tool_agent''"
| "agent_role_value SECURITY_AGENT = ''security_agent''"
| "agent_role_value RELEASE_AGENT = ''release_agent''"
| "agent_role_value OBSERVABILITY_AGENT = ''observability_agent''"

fun tenant_scope_value :: "tenant_scope \<Rightarrow> string" where
  "tenant_scope_value TENANT_BOUND = ''tenant_bound''"
| "tenant_scope_value SYSTEM = ''system''"

fun delegation_decision_value :: "delegation_decision \<Rightarrow> string" where
  "delegation_decision_value DELEGATION_ALLOW = ''allow''"
| "delegation_decision_value DELEGATION_DENY = ''deny''"

fun delegation_risk_value :: "delegation_risk \<Rightarrow> string" where
  "delegation_risk_value SCOPE_AMPLIFICATION = ''scope_amplification''"
| "delegation_risk_value CROSS_TENANT = ''cross_tenant''"
| "delegation_risk_value CONFUSED_DEPUTY = ''confused_deputy''"
| "delegation_risk_value CAPABILITY_LAUNDERING = ''capability_laundering''"
| "delegation_risk_value CHAIN_TOO_DEEP = ''chain_too_deep''"
| "delegation_risk_value CHAIN_DISCONTINUITY = ''chain_discontinuity''"
| "delegation_risk_value IDENTITY_CONTINUITY = ''identity_continuity''"
| "delegation_risk_value PROVENANCE_MISMATCH = ''provenance_mismatch''"
| "delegation_risk_value EXPIRED = ''expired''"
| "delegation_risk_value UPSTREAM_PRIVILEGE_EXPOSED = ''upstream_privilege_exposed''"
| "delegation_risk_value CONTROL_PLANE_ROUTE_EXPOSED = ''control_plane_route_exposed''"
| "delegation_risk_value ARCHITECTURE_INVARIANT_UNSAFE = ''architecture_invariant_unsafe''"
| "delegation_risk_value TASK_NOT_AUTHORIZED = ''task_not_authorized''"
| "delegation_risk_value UNTRUSTED_AGENT = ''untrusted_agent''"

fun risk_priority :: "delegation_risk \<Rightarrow> int" where
  "risk_priority CROSS_TENANT = 100"
| "risk_priority CONFUSED_DEPUTY = 95"
| "risk_priority CAPABILITY_LAUNDERING = 90"
| "risk_priority SCOPE_AMPLIFICATION = 85"
| "risk_priority UPSTREAM_PRIVILEGE_EXPOSED = 80"
| "risk_priority CONTROL_PLANE_ROUTE_EXPOSED = 78"
| "risk_priority ARCHITECTURE_INVARIANT_UNSAFE = 76"
| "risk_priority IDENTITY_CONTINUITY = 74"
| "risk_priority PROVENANCE_MISMATCH = 72"
| "risk_priority CHAIN_DISCONTINUITY = 70"
| "risk_priority CHAIN_TOO_DEEP = 68"
| "risk_priority TASK_NOT_AUTHORIZED = 65"
| "risk_priority UNTRUSTED_AGENT = 60"
| "risk_priority EXPIRED = 50"

subsection \<open>The digest of a delegation manifest\<close>

definition sorted_texts :: "string list \<Rightarrow> json" where "sorted_texts xs = JList (map JStr (sort xs))"

definition optional_text :: "string option \<Rightarrow> json" where "optional_text x = (case x of None \<Rightarrow> JNull | Some s \<Rightarrow> JStr s)"

definition agent_json :: "agent_identity \<Rightarrow> json" where
  "agent_json a = JObj
     [(''accepts_delegation'', JBool (ag_accepts a)), (''agent_id'', JStr (ag_id a)), (''description'', JStr (ag_description a)),
      (''max_delegation_depth'', JInt (ag_depth a)), (''maximum_capability_ids'', sorted_texts (ag_capabilities a)),
      (''owner_id'', JStr (ag_owner a)), (''p7b_path_ids'', sorted_texts (ag_paths a)), (''p7h_route_ids'', sorted_texts (ag_routes a)),
      (''role'', JStr (agent_role_value (ag_role a))), (''tenant_id'', JStr (ag_tenant a)), (''trust_domain'', JStr (ag_domain a))]"

definition capability_json :: "agent_capability \<Rightarrow> json" where
  "capability_json c = JObj
     [(''capability_id'', JStr (ac_id c)), (''description'', JStr (ac_description c)), (''family'', JStr (ac_family c)),
      (''privilege_level'', JInt (ac_level c)), (''privileged'', JBool (ac_privileged c)), (''required_p7h_route_ids'', sorted_texts (ac_routes c)),
      (''required_p7i_invariant_ids'', sorted_texts (ac_invariants c)), (''tenant_scope'', JStr (tenant_scope_value (ac_scope c)))]"

definition delegation_json :: "delegation_record \<Rightarrow> json" where
  "delegation_json d = JObj
     [(''delegatee_agent_id'', JStr (dl_delegatee d)), (''delegation_id'', JStr (dl_id d)), (''delegator_agent_id'', JStr (dl_delegator d)),
      (''description'', JStr (dl_description d)), (''expires_at_epoch'', JInt (dl_expires d)), (''issued_at_epoch'', JInt (dl_issued d)),
      (''original_principal_id'', JStr (dl_principal d)), (''original_request_sha256'', JStr (casefold (dl_request d))),
      (''owner_id'', JStr (dl_owner d)), (''parent_delegation_id'', optional_text (dl_parent d)),
      (''requested_capability_ids'', sorted_texts (dl_capabilities d)), (''task_class'', JStr (dl_task d)), (''tenant_id'', JStr (dl_tenant d))]"

definition delegation_manifest_digest :: "(string \<Rightarrow> string) \<Rightarrow> delegation_manifest \<Rightarrow> string" where
  "delegation_manifest_digest sha m = sha (json_dumps True (JObj
     [(''agents'', JList (map agent_json (sort_key ag_id (dm_agents m)))),
      (''capabilities'', JList (map capability_json (sort_key ac_id (dm_capabilities m)))), (''created_at_epoch'', JInt (dm_created m)),
      (''delegations'', JList (map delegation_json (sort_key dl_id (dm_delegations m)))), (''graph_id'', JStr (dm_graph_id m)),
      (''p7b_assessment_evidence_sha256'', JStr (casefold (dm_p7b m))), (''p7h_assessment_evidence_sha256'', JStr (casefold (dm_p7h m))),
      (''p7i_assessment_evidence_sha256'', JStr (casefold (dm_p7i m))), (''schema_version'', JStr (dm_schema m)), (''version'', JStr (dm_version m))]))"

subsection \<open>Validation\<close>

definition deny_if :: "bool \<Rightarrow> delegation_reject \<Rightarrow> string option \<Rightarrow> delegation_error option" where
  "deny_if c r i = (if c then Some (DelegationSecurityRejected r i) else None)"

fun bad_identifier :: "string list \<Rightarrow> string list \<Rightarrow> string option" where
  "bad_identifier seen [] = None"
| "bad_identifier seen (i # is) = (if i = [] \<or> i \<in> set seen then Some i else bad_identifier (i # seen) is)"

definition deny_duplicate :: "delegation_reject \<Rightarrow> string list \<Rightarrow> delegation_error option" where
  "deny_duplicate r ids = map_option (\<lambda>i. DelegationSecurityRejected r (if i = [] then None else Some i)) (bad_identifier [] ids)"

definition validate_delegation_policy :: "delegation_policy \<Rightarrow> delegation_error option" where
  "validate_delegation_policy p =
     (let agents = \<lambda>ks. same_set ks (dp_agents p); capabilities = \<lambda>ks. same_set ks (dp_capabilities p) in first_rejection
     [deny_if (dp_graph_id p = [] \<or> dp_version p = [] \<or> \<not> list_all is_digest [dp_graph_sha p, dp_p7b p, dp_p7h p, dp_p7i p] \<or> dp_agents p = [] \<or>
        dp_capabilities p = [] \<or> dp_delegations p = [] \<or> dp_owners p = [] \<or> dp_domains p = [] \<or> dp_max_depth p \<le> 0 \<or> dp_max_age p \<le> 0 \<or>
        dp_max_skew p < 0) DELEGATION_POLICY_INVALID None,
      deny_if (\<not> (agents (map fst (dp_agent_role p)) \<and> agents (map fst (dp_agent_tenant p)) \<and> agents (map fst (dp_agent_domain p)) \<and>
        agents (map fst (dp_agent_capabilities p)) \<and> agents (map fst (dp_agent_paths p)) \<and> agents (map fst (dp_agent_routes p)) \<and>
        agents (map fst (dp_agent_accepts p)) \<and> agents (map fst (dp_agent_depth p)))) DELEGATION_POLICY_INVALID None,
      deny_if (\<not> (capabilities (map fst (dp_capability_family p)) \<and> capabilities (map fst (dp_capability_level p)) \<and>
        capabilities (map fst (dp_capability_scope p)) \<and> capabilities (map fst (dp_capability_privileged p)) \<and>
        capabilities (map fst (dp_capability_routes p)) \<and> capabilities (map fst (dp_capability_invariants p)))) DELEGATION_POLICY_INVALID None,
      deny_if (list_ex (\<lambda>e. snd e \<le> 0) (dp_capability_level p)) DELEGATION_POLICY_INVALID None,
      deny_if (list_ex (\<lambda>e. snd e \<le> 0 \<or> snd e > dp_max_depth p) (dp_agent_depth p)) DELEGATION_POLICY_INVALID None,
      deny_if (dp_principal_tenant p = [] \<or> \<not> same_set (map fst (dp_principal_tasks p)) (map fst (dp_principal_tenant p)) \<or>
        \<not> same_set (map fst (dp_principal_levels p)) (map fst (dp_principal_tenant p))) DELEGATION_POLICY_INVALID None,
      deny_if (list_ex (\<lambda>e. snd e = []) (dp_principal_tasks p)) DELEGATION_POLICY_INVALID None,
      deny_if (list_ex (\<lambda>e. snd e = [] \<or> list_ex (\<lambda>l. snd l \<le> 0) (snd e)) (dp_principal_levels p)) DELEGATION_POLICY_INVALID None])"

definition unique_inventory :: "delegation_reject \<Rightarrow> delegation_evidence list \<Rightarrow> delegation_error option" where
  "unique_inventory r items = first_rejection
     [map_option (\<lambda>_. DelegationSecurityRejected r None) (bad_identifier [] (map de_id items)), deny_if (items = []) r None]"

definition validate_delegation_upstreams ::
  "delegation_policy \<Rightarrow> evidence_assessment \<Rightarrow> evidence_assessment \<Rightarrow> evidence_assessment \<Rightarrow> delegation_error option" where
  "validate_delegation_upstreams p p7b p7h p7i = first_rejection
     [deny_if (\<not> list_all id (ea_flags p7b)) P7B_UNVERIFIED None, deny_if (casefold (ea_digest p7b) \<noteq> casefold (dp_p7b p)) P7B_DIGEST_MISMATCH None,
      deny_if (\<not> list_all id (ea_flags p7h)) P7H_UNVERIFIED None, deny_if (casefold (ea_digest p7h) \<noteq> casefold (dp_p7h p)) P7H_DIGEST_MISMATCH None,
      deny_if (\<not> list_all id (ea_flags p7i)) P7I_UNVERIFIED None, deny_if (casefold (ea_digest p7i) \<noteq> casefold (dp_p7i p)) P7I_DIGEST_MISMATCH None,
      unique_inventory P7B_UNVERIFIED (ea_items p7b), unique_inventory P7H_UNVERIFIED (ea_items p7h), unique_inventory P7I_UNVERIFIED (ea_items p7i)]"

definition drifted :: "string list \<Rightarrow> (string \<times> string list) list \<Rightarrow> string \<Rightarrow> bool" where
  "drifted xs table i \<longleftrightarrow> \<not> same_set xs (allowed_for table i) \<or> \<not> distinct xs"

definition validate_agent :: "delegation_policy \<Rightarrow> string list \<Rightarrow> string list \<Rightarrow> agent_identity \<Rightarrow> delegation_error option list" where
  "validate_agent p paths routes a =
     [deny_if (ag_owner a \<notin> set (dp_owners p) \<or> ag_domain a \<notin> set (dp_domains p)) AGENT_OWNER_UNTRUSTED (Some (ag_id a)),
      deny_if (map_of (dp_agent_role p) (ag_id a) \<noteq> Some (ag_role a)) AGENT_ROLE_DRIFT (Some (ag_id a)),
      deny_if (map_of (dp_agent_tenant p) (ag_id a) \<noteq> Some (ag_tenant a)) AGENT_TENANT_DRIFT (Some (ag_id a)),
      deny_if (map_of (dp_agent_domain p) (ag_id a) \<noteq> Some (ag_domain a)) AGENT_TRUST_DOMAIN_DRIFT (Some (ag_id a)),
      deny_if (drifted (ag_capabilities a) (dp_agent_capabilities p) (ag_id a)) AGENT_CAPABILITY_DRIFT (Some (ag_id a)),
      deny_if (drifted (ag_paths a) (dp_agent_paths p) (ag_id a)) AGENT_PRIVILEGE_PATH_DRIFT (Some (ag_id a)),
      deny_if (list_ex (\<lambda>i. i \<notin> set paths) (ag_paths a)) AGENT_PRIVILEGE_PATH_UNKNOWN (Some (ag_id a)),
      deny_if (drifted (ag_routes a) (dp_agent_routes p) (ag_id a)) AGENT_CONTROL_ROUTE_DRIFT (Some (ag_id a)),
      deny_if (list_ex (\<lambda>i. i \<notin> set routes) (ag_routes a)) AGENT_CONTROL_ROUTE_UNKNOWN (Some (ag_id a)),
      deny_if (map_of (dp_agent_accepts p) (ag_id a) \<noteq> Some (ag_accepts a)) AGENT_DELEGATION_FLAG_DRIFT (Some (ag_id a)),
      deny_if (map_of (dp_agent_depth p) (ag_id a) \<noteq> Some (ag_depth a) \<or> ag_depth a \<le> 0 \<or> ag_depth a > dp_max_depth p) AGENT_DEPTH_DRIFT (Some (ag_id a))]"

definition validate_capability :: "delegation_policy \<Rightarrow> string list \<Rightarrow> string list \<Rightarrow> agent_capability \<Rightarrow> delegation_error option list" where
  "validate_capability p routes invariants c =
     [deny_if (map_of (dp_capability_family p) (ac_id c) \<noteq> Some (ac_family c)) CAPABILITY_FAMILY_DRIFT (Some (ac_id c)),
      deny_if (map_of (dp_capability_level p) (ac_id c) \<noteq> Some (ac_level c) \<or> ac_level c \<le> 0) CAPABILITY_LEVEL_DRIFT (Some (ac_id c)),
      deny_if (map_of (dp_capability_scope p) (ac_id c) \<noteq> Some (ac_scope c)) CAPABILITY_SCOPE_DRIFT (Some (ac_id c)),
      deny_if (map_of (dp_capability_privileged p) (ac_id c) \<noteq> Some (ac_privileged c)) CAPABILITY_PRIVILEGE_DRIFT (Some (ac_id c)),
      deny_if (\<not> same_set (ac_routes c) (allowed_for (dp_capability_routes p) (ac_id c))) CAPABILITY_ROUTE_DRIFT (Some (ac_id c)),
      deny_if (\<not> same_set (ac_invariants c) (allowed_for (dp_capability_invariants p) (ac_id c))) CAPABILITY_INVARIANT_DRIFT (Some (ac_id c)),
      deny_if (list_ex (\<lambda>i. i \<notin> set routes) (ac_routes c) \<or> list_ex (\<lambda>i. i \<notin> set invariants) (ac_invariants c))
        CAPABILITY_REFERENCE_UNKNOWN (Some (ac_id c))]"

definition validate_delegation ::
  "delegation_policy \<Rightarrow> int \<Rightarrow> string list \<Rightarrow> string list \<Rightarrow> string list \<Rightarrow> delegation_record \<Rightarrow> delegation_error option list" where
  "validate_delegation p now agents capabilities delegations d =
     [deny_if (dl_owner d \<notin> set (dp_owners p)) DELEGATION_OWNER_UNTRUSTED (Some (dl_id d)),
      deny_if (dl_delegator d \<notin> set agents \<or> dl_delegatee d \<notin> set agents) DELEGATION_REFERENCE_UNKNOWN (Some (dl_id d)),
      deny_if (dl_principal d \<notin> set (map fst (dp_principal_tenant p))) ORIGINAL_PRINCIPAL_UNKNOWN (Some (dl_id d)),
      deny_if (dl_capabilities d = [] \<or> \<not> distinct (dl_capabilities d) \<or> list_ex (\<lambda>i. i \<notin> set capabilities) (dl_capabilities d))
        DELEGATION_CAPABILITY_UNKNOWN (Some (dl_id d)),
      deny_if (case dl_parent d of None \<Rightarrow> False | Some i \<Rightarrow> i \<notin> set delegations) DELEGATION_PARENT_UNKNOWN (Some (dl_id d)),
      deny_if (\<not> is_digest (dl_request d)) DELEGATION_PROVENANCE_INVALID (Some (dl_id d)),
      deny_if (dl_issued d > now + dp_max_skew p \<or> dl_expires d \<le> dl_issued d) DELEGATION_TIME_INVALID (Some (dl_id d))]"

text \<open>The walk to the root gives up after \<open>max_chain_depth + 2\<close> records; the fuel is that number.\<close>

fun cyclic_from :: "delegation_record list \<Rightarrow> nat \<Rightarrow> string list \<Rightarrow> string \<Rightarrow> bool" where
  "cyclic_from ds 0 seen i = False"
| "cyclic_from ds (Suc n) seen i =
     (i \<in> set seen \<or> (case row_of dl_id i ds of
        None \<Rightarrow> False
      | Some d \<Rightarrow> (case dl_parent d of None \<Rightarrow> False | Some j \<Rightarrow> cyclic_from ds n (i # seen) j)))"

definition validate_delegation_manifest ::
  "(string \<Rightarrow> string) \<Rightarrow> delegation_policy \<Rightarrow> delegation_request \<Rightarrow> delegation_manifest \<Rightarrow> string list \<Rightarrow> string list \<Rightarrow> string list
     \<Rightarrow> delegation_error option" where
  "validate_delegation_manifest sha p r m paths routes invariants =
     (let agents = map ag_id (dm_agents m); capabilities = map ac_id (dm_capabilities m); delegations = map dl_id (dm_delegations m);
          digest = delegation_manifest_digest sha m in first_rejection
     ([deny_if (dm_schema m \<noteq> P8A_DELEGATION_SCHEMA_VERSION \<or> dm_graph_id m \<noteq> dp_graph_id p \<or> dm_version m \<noteq> dp_version p \<or> dm_agents m = [] \<or>
         dm_capabilities m = [] \<or> dm_delegations m = []) DELEGATION_MANIFEST_INVALID None,
       deny_if (casefold (dm_p7b m) \<noteq> casefold (dp_p7b p) \<or> casefold (dm_p7h m) \<noteq> casefold (dp_p7h p) \<or> casefold (dm_p7i m) \<noteq> casefold (dp_p7i p))
         DELEGATION_MANIFEST_INVALID None,
       deny_if (dm_created m > dq_now r + dp_max_skew p) MANIFEST_FUTURE None,
       deny_if (dq_now r - dm_created m > dp_max_age p) MANIFEST_STALE None,
       deny_if (digest \<noteq> casefold (dp_graph_sha p) \<or> digest \<noteq> casefold (dq_graph_sha r)) MANIFEST_DIGEST_MISMATCH None,
       deny_duplicate AGENT_DUPLICATE agents, deny_if (\<not> same_set agents (dp_agents p)) AGENT_COVERAGE_MISMATCH None]
      @ concat (map (validate_agent p paths routes) (dm_agents m))
      @ [deny_duplicate CAPABILITY_DUPLICATE capabilities,
         deny_if (\<not> same_set capabilities (dp_capabilities p)) CAPABILITY_COVERAGE_MISMATCH None]
      @ concat (map (validate_capability p routes invariants) (dm_capabilities m))
      @ map (\<lambda>a. deny_if (list_ex (\<lambda>i. i \<notin> set capabilities) (ag_capabilities a)) AGENT_CAPABILITY_DRIFT (Some (ag_id a))) (dm_agents m)
      @ [deny_duplicate DELEGATION_DUPLICATE delegations,
         deny_if (\<not> same_set delegations (dp_delegations p)) DELEGATION_COVERAGE_MISMATCH None]
      @ concat (map (validate_delegation p (dq_now r) agents capabilities delegations) (dm_delegations m))
      @ map (\<lambda>d. deny_if (cyclic_from (dm_delegations m) (nat (dp_max_depth p) + 2) [] (dl_id d)) DELEGATION_CYCLE (Some (dl_id d))) (dm_delegations m)))"

subsection \<open>One delegation\<close>

record delegation_context =
  dc_policy :: delegation_policy
  dc_now :: int
  dc_agents :: "agent_identity list"
  dc_capabilities :: "agent_capability list"
  dc_delegations :: "delegation_record list"
  dc_paths :: "delegation_evidence list"
  dc_routes :: "delegation_evidence list"
  dc_invariants :: "delegation_evidence list"

text \<open>A parent with its effective capabilities and its depth.\<close>

type_synonym delegation_parent = "delegation_record \<times> string list \<times> int"

definition capabilities_of :: "agent_capability list \<Rightarrow> string list \<Rightarrow> agent_capability list" where
  "capabilities_of cs ids = filter (\<lambda>c. ac_id c \<in> set ids) cs"

definition max_level_by_family :: "agent_capability list \<Rightarrow> string list \<Rightarrow> string \<Rightarrow> int option" where
  "max_level_by_family cs ids f = (case map ac_level (filter (\<lambda>c. ac_family c = f) (capabilities_of cs ids)) of
       [] \<Rightarrow> None
     | ls \<Rightarrow> Some (foldr max ls 0))"

definition exceeds :: "int option \<Rightarrow> agent_capability \<Rightarrow> bool" where
  "exceeds limit c = (case limit of None \<Rightarrow> True | Some n \<Rightarrow> ac_level c > n)"

definition unsafe_exposed :: "delegation_evidence list \<Rightarrow> string list \<Rightarrow> bool" where
  "unsafe_exposed items ids \<longleftrightarrow> list_ex (\<lambda>e. de_id e \<in> set ids \<and> de_exposed e) items"

definition unsafe_invariant :: "delegation_evidence list \<Rightarrow> string list \<Rightarrow> bool" where
  "unsafe_invariant items ids \<longleftrightarrow> list_ex (\<lambda>e. de_id e \<in> set ids \<and> casefold (de_state e) \<in> {''degraded'', ''violated''}) items"

definition depth_of :: "delegation_parent option \<Rightarrow> int" where
  "depth_of parent = (case parent of None \<Rightarrow> 0 | Some (_, _, n) \<Rightarrow> n) + 1"

definition tenant_risks :: "delegation_context \<Rightarrow> agent_identity \<Rightarrow> agent_identity \<Rightarrow> delegation_record \<Rightarrow> delegation_risk list" where
  "tenant_risks c a b d =
     risk_if (map_of (dp_principal_tenant (dc_policy c)) (dl_principal d) \<noteq> Some (dl_tenant d)) CROSS_TENANT
     @ risk_if (ag_tenant a \<notin> {dl_tenant d, ''system''} \<or> ag_tenant b \<notin> {dl_tenant d, ''system''}) CROSS_TENANT
     @ risk_if ((ag_id a \<in> set (dp_shared (dc_policy c)) \<or> ag_id b \<in> set (dp_shared (dc_policy c))) \<and> dl_tenant d \<noteq> ''system'' \<and>
         list_ex (\<lambda>x. ac_scope x = TENANT_BOUND) (capabilities_of (dc_capabilities c) (dl_capabilities d))) CROSS_TENANT"

definition continuity_risks :: "delegation_parent option \<Rightarrow> delegation_record \<Rightarrow> delegation_risk list" where
  "continuity_risks parent d = (case parent of
       None \<Rightarrow> []
     | Some (q, _, _) \<Rightarrow>
         risk_if (dl_delegatee q \<noteq> dl_delegator d) CHAIN_DISCONTINUITY
         @ risk_if (dl_principal q \<noteq> dl_principal d \<or> dl_tenant q \<noteq> dl_tenant d) IDENTITY_CONTINUITY
         @ risk_if (casefold (dl_request q) \<noteq> casefold (dl_request d)) PROVENANCE_MISMATCH
         @ risk_if (dl_issued d < dl_issued q \<or> dl_expires d > dl_expires q) PROVENANCE_MISMATCH)"

definition authority_risks ::
  "delegation_context \<Rightarrow> agent_identity \<Rightarrow> agent_identity \<Rightarrow> delegation_parent option \<Rightarrow> delegation_record \<Rightarrow> delegation_risk list" where
  "authority_risks c a b parent d =
     (let requested = capabilities_of (dc_capabilities c) (dl_capabilities d);
          levels = map_of (allowed_for (dp_principal_levels (dc_policy c)) (dl_principal d)) in
      risk_if (list_ex (\<lambda>x. exceeds (levels (ac_family x)) x) requested) CONFUSED_DEPUTY
      @ risk_if (\<not> set (dl_capabilities d) \<subseteq> set (ag_capabilities b)) SCOPE_AMPLIFICATION
      @ (case parent of
           None \<Rightarrow> []
         | Some (_, effective, _) \<Rightarrow>
             risk_if (list_ex (\<lambda>x. exceeds (max_level_by_family (dc_capabilities c) effective (ac_family x)) x) requested) CAPABILITY_LAUNDERING)
      @ risk_if (\<not> set (dl_capabilities d) \<subseteq> set (ag_capabilities a)) SCOPE_AMPLIFICATION)"

definition required_routes :: "delegation_context \<Rightarrow> delegation_record \<Rightarrow> string list" where
  "required_routes c d = concat (map ac_routes (capabilities_of (dc_capabilities c) (dl_capabilities d)))"

definition required_invariants :: "delegation_context \<Rightarrow> delegation_record \<Rightarrow> string list" where
  "required_invariants c d = concat (map ac_invariants (capabilities_of (dc_capabilities c) (dl_capabilities d)))"

definition dependency_risks :: "delegation_context \<Rightarrow> agent_identity \<Rightarrow> agent_identity \<Rightarrow> delegation_record \<Rightarrow> delegation_risk list" where
  "dependency_risks c a b d =
     risk_if (unsafe_exposed (dc_paths c) (ag_paths a @ ag_paths b)) UPSTREAM_PRIVILEGE_EXPOSED
     @ risk_if (list_ex (\<lambda>x. ac_privileged x \<and> ac_invariants x = []) (capabilities_of (dc_capabilities c) (dl_capabilities d)))
         ARCHITECTURE_INVARIANT_UNSAFE
     @ risk_if (\<not> set (required_routes c d) \<subseteq> set (ag_routes a) \<union> set (ag_routes b)) SCOPE_AMPLIFICATION
     @ risk_if (unsafe_exposed (dc_routes c) (required_routes c d)) CONTROL_PLANE_ROUTE_EXPOSED
     @ risk_if (unsafe_invariant (dc_invariants c) (required_invariants c d)) ARCHITECTURE_INVARIANT_UNSAFE"

definition delegation_risks ::
  "delegation_context \<Rightarrow> agent_identity \<Rightarrow> agent_identity \<Rightarrow> delegation_parent option \<Rightarrow> delegation_record \<Rightarrow> delegation_risk list" where
  "delegation_risks c a b parent d =
     risk_if (depth_of parent > dp_max_depth (dc_policy c) \<or> depth_of parent > ag_depth a \<or> depth_of parent > ag_depth b) CHAIN_TOO_DEEP
     @ risk_if (\<not> ag_accepts b) UNTRUSTED_AGENT
     @ tenant_risks c a b d
     @ risk_if (dl_task d \<notin> set (allowed_for (dp_principal_tasks (dc_policy c)) (dl_principal d))) TASK_NOT_AUTHORIZED
     @ continuity_risks parent d
     @ risk_if (dl_expires d \<le> dc_now c) EXPIRED
     @ authority_risks c a b parent d
     @ dependency_risks c a b d"

definition ranked_risks :: "delegation_risk list \<Rightarrow> delegation_risk list" where
  "ranked_risks rs = sort_key (\<lambda>r. (- risk_priority r, delegation_risk_value r)) (remdups rs)"

subsection \<open>All delegations\<close>

record delegation_run =
  dr_effective :: "(string \<times> string list) list"
  dr_depths :: "(string \<times> int) list"
  dr_facts :: "delegation_fact list"

definition sorted_identifiers :: "string list \<Rightarrow> string list" where "sorted_identifiers xs = sort (remdups xs)"

definition parent_of :: "delegation_context \<Rightarrow> delegation_record \<Rightarrow> delegation_run \<Rightarrow> delegation_parent option" where
  "parent_of c d s = (case dl_parent d of
       None \<Rightarrow> None
     | Some j \<Rightarrow> (case (row_of dl_id j (dc_delegations c), map_of (dr_effective s) j, map_of (dr_depths s) j) of
           (Some q, Some effective, Some n) \<Rightarrow> Some (q, effective, n)
         | _ \<Rightarrow> None))"

definition delegation_fact_of ::
  "delegation_context \<Rightarrow> agent_identity \<Rightarrow> agent_identity \<Rightarrow> delegation_parent option \<Rightarrow> delegation_record \<Rightarrow> delegation_fact" where
  "delegation_fact_of c a b parent d =
     (let risks = delegation_risks c a b parent d in
      \<lparr>df_id = dl_id d, df_parent = dl_parent d, df_principal = dl_principal d, df_delegator = dl_delegator d, df_delegatee = dl_delegatee d,
        df_task = dl_task d, df_tenant = dl_tenant d, df_depth = depth_of parent, df_requested = sorted_identifiers (dl_capabilities d),
        df_families = sorted_identifiers (map ac_family (capabilities_of (dc_capabilities c) (dl_capabilities d))),
        df_decision = (if risks = [] then DELEGATION_ALLOW else DELEGATION_DENY), df_risks = ranked_risks risks,
        df_effective = sorted_identifiers (case parent of None \<Rightarrow> ag_capabilities a | Some (_, effective, _) \<Rightarrow> effective),
        df_maximum = sorted_identifiers (ag_capabilities b), df_paths = sorted_identifiers (ag_paths a @ ag_paths b),
        df_routes = sorted_identifiers (required_routes c d), df_invariants = sorted_identifiers (required_invariants c d)\<rparr>)"

definition decide_delegation :: "delegation_context \<Rightarrow> delegation_record \<Rightarrow> delegation_run \<Rightarrow> delegation_error + delegation_run" where
  "decide_delegation c d s =
     (case (row_of ag_id (dl_delegator d) (dc_agents c), row_of ag_id (dl_delegatee d) (dc_agents c)) of
        (Some a, Some b) \<Rightarrow>
          (let parent = parent_of c d s in
           Inr \<lparr>dr_effective = (dl_id d, if delegation_risks c a b parent d = [] then dl_capabilities d else []) # dr_effective s,
             dr_depths = (dl_id d, depth_of parent) # dr_depths s, dr_facts = dr_facts s @ [delegation_fact_of c a b parent d]\<rparr>)
      | _ \<Rightarrow> Inl DelegationKeyError)"

text \<open>A parent is evaluated before its child; \<open>stack\<close> holds the records under evaluation, so the recursion ends.\<close>

function evaluate_record ::
  "delegation_context \<Rightarrow> string list \<Rightarrow> string \<Rightarrow> delegation_run \<Rightarrow> delegation_error + delegation_run" where
  "evaluate_record c stack i s =
     (if map_of (dr_effective s) i \<noteq> None then Inr s
      else if i \<in> set stack then Inl (DelegationSecurityRejected DELEGATION_CYCLE (Some i))
      else (case row_of dl_id i (dc_delegations c) of
          None \<Rightarrow> Inl DelegationKeyError
        | Some d \<Rightarrow>
            (case dl_parent d of
               None \<Rightarrow> decide_delegation c d s
             | Some j \<Rightarrow>
                 (case evaluate_record c (i # stack) j s of
                    Inl e \<Rightarrow> Inl e
                  | Inr s' \<Rightarrow> decide_delegation c d s'))))"
  by pat_completeness auto
termination
proof (relation "measure (\<lambda>(c, stack, i, s). length (filter (\<lambda>d. dl_id d \<notin> set stack) (dc_delegations c)))", simp)
  fix c :: delegation_context and stack :: "string list" and i j :: string and s :: delegation_run and d
  assume "i \<notin> set stack" and d: "row_of dl_id i (dc_delegations c) = Some d"
  let ?rest = "filter (\<lambda>d. dl_id d \<notin> set stack) (dc_delegations c)"
  have "d \<in> set ?rest" "\<not> dl_id d \<noteq> i" using row_of_SomeD [OF d] \<open>i \<notin> set stack\<close> by simp_all
  then have "length (filter (\<lambda>d. dl_id d \<noteq> i) ?rest) < length ?rest" by (intro length_filter_less) auto
  then show "((c, i # stack, j, s), c, stack, i, s) \<in> measure (\<lambda>(c, stack, i, s). length (filter (\<lambda>d. dl_id d \<notin> set stack) (dc_delegations c)))"
    by (simp add: conj_commute)
qed

declare evaluate_record.simps [simp del]

fun evaluate_records :: "delegation_context \<Rightarrow> string list \<Rightarrow> delegation_run \<Rightarrow> delegation_error + delegation_run" where
  "evaluate_records c [] s = Inr s"
| "evaluate_records c (i # is) s = (case evaluate_record c [] i s of Inl e \<Rightarrow> Inl e | Inr s' \<Rightarrow> evaluate_records c is s')"

subsection \<open>The assessment\<close>

record delegation_assessment =
  da_graph_id :: string
  da_version :: string
  da_graph_sha :: string
  da_p7b :: string
  da_p7h :: string
  da_p7i :: string
  da_count :: nat
  da_allowed :: nat
  da_denied :: nat
  da_cross_tenant :: nat
  da_confused_deputy :: nat
  da_laundering :: nat
  da_amplification :: nat
  da_prioritized :: "string list"
  da_facts :: "delegation_fact list"
  da_digest :: string

definition texts_json :: "string list \<Rightarrow> json" where "texts_json xs = JList (map JStr xs)"

definition delegation_fact_json :: "delegation_fact \<Rightarrow> json" where
  "delegation_fact_json f = JObj
     [(''delegation_id'', JStr (df_id f)), (''parent_delegation_id'', optional_text (df_parent f)), (''original_principal_id'', JStr (df_principal f)),
      (''delegator_agent_id'', JStr (df_delegator f)), (''delegatee_agent_id'', JStr (df_delegatee f)), (''task_class'', JStr (df_task f)),
      (''tenant_id'', JStr (df_tenant f)), (''chain_depth'', JInt (df_depth f)), (''requested_capability_ids'', texts_json (df_requested f)),
      (''requested_families'', texts_json (df_families f)), (''decision'', JStr (delegation_decision_value (df_decision f))),
      (''risks'', texts_json (map delegation_risk_value (df_risks f))), (''effective_delegator_capability_ids'', texts_json (df_effective f)),
      (''delegatee_maximum_capability_ids'', texts_json (df_maximum f)), (''p7b_path_ids'', texts_json (df_paths f)),
      (''p7h_route_ids'', texts_json (df_routes f)), (''p7i_invariant_ids'', texts_json (df_invariants f))]"

definition denied_facts :: "delegation_fact list \<Rightarrow> delegation_fact list" where
  "denied_facts fs = filter (\<lambda>f. df_decision f = DELEGATION_DENY) fs"

definition prioritized_ids :: "delegation_fact list \<Rightarrow> string list" where
  "prioritized_ids fs = map df_id (sort_key (\<lambda>f. (- foldr max (map risk_priority (df_risks f)) 0, df_id f)) (denied_facts fs))"

definition facts_with :: "delegation_risk \<Rightarrow> delegation_fact list \<Rightarrow> nat" where
  "facts_with r fs = length (filter (\<lambda>f. r \<in> set (df_risks f)) fs)"

definition delegation_assessment_of ::
  "(string \<Rightarrow> string) \<Rightarrow> delegation_manifest \<Rightarrow> evidence_assessment \<Rightarrow> evidence_assessment \<Rightarrow> evidence_assessment \<Rightarrow> delegation_fact list
     \<Rightarrow> delegation_assessment" where
  "delegation_assessment_of sha m p7b p7h p7i fs =
     \<lparr>da_graph_id = dm_graph_id m, da_version = dm_version m, da_graph_sha = delegation_manifest_digest sha m, da_p7b = casefold (ea_digest p7b),
       da_p7h = casefold (ea_digest p7h), da_p7i = casefold (ea_digest p7i), da_count = length fs, da_allowed = length fs - length (denied_facts fs),
       da_denied = length (denied_facts fs), da_cross_tenant = facts_with CROSS_TENANT fs, da_confused_deputy = facts_with CONFUSED_DEPUTY fs,
       da_laundering = facts_with CAPABILITY_LAUNDERING fs, da_amplification = facts_with SCOPE_AMPLIFICATION fs,
       da_prioritized = prioritized_ids fs, da_facts = fs,
       da_digest = sha (json_dumps True (JObj
         [(''delegations'', JList (map delegation_fact_json fs)), (''graph_sha256'', JStr (delegation_manifest_digest sha m)),
          (''p7b_assessment_evidence_sha256'', JStr (casefold (ea_digest p7b))), (''p7h_assessment_evidence_sha256'', JStr (casefold (ea_digest p7h))),
          (''p7i_assessment_evidence_sha256'', JStr (casefold (ea_digest p7i))),
          (''prioritized_denied_delegation_ids'', texts_json (prioritized_ids fs))]))\<rparr>"

definition delegation_request_bound :: "delegation_policy \<Rightarrow> delegation_request \<Rightarrow> bool" where
  "delegation_request_bound p r \<longleftrightarrow> dq_graph_id r = dp_graph_id p \<and> dq_version r = dp_version p \<and>
     list_all is_digest [dq_graph_sha r, dq_p7b r, dq_p7h r, dq_p7i r] \<and>
     map casefold [dq_graph_sha r, dq_p7b r, dq_p7h r, dq_p7i r] = map casefold [dp_graph_sha p, dp_p7b p, dp_p7h p, dp_p7i p] \<and>
     same_set (dq_delegations r) (dp_delegations p) \<and> distinct (dq_delegations r)"

definition declared_delegation_ok :: "delegation_request \<Rightarrow> delegation_fact \<Rightarrow> delegation_error option" where
  "declared_delegation_ok r f =
     (let declared = allowed_for (dq_risks r) (df_id f) in
      deny_if (\<not> same_set declared (df_risks f) \<or> \<not> distinct declared) DELEGATION_DECLARED_RISK_MISMATCH (Some (df_id f)))"

definition delegation_context_of ::
  "delegation_policy \<Rightarrow> int \<Rightarrow> delegation_manifest \<Rightarrow> evidence_assessment \<Rightarrow> evidence_assessment \<Rightarrow> evidence_assessment \<Rightarrow> delegation_context" where
  "delegation_context_of p now m p7b p7h p7i =
     \<lparr>dc_policy = p, dc_now = now, dc_agents = dm_agents m, dc_capabilities = dm_capabilities m, dc_delegations = dm_delegations m,
       dc_paths = ea_items p7b, dc_routes = ea_items p7h, dc_invariants = ea_items p7i\<rparr>"

definition no_delegations :: delegation_run where "no_delegations = \<lparr>dr_effective = [], dr_depths = [], dr_facts = []\<rparr>"

text \<open>The policy is validated when the analyzer is made.\<close>

definition evaluate_delegations ::
  "(string \<Rightarrow> string) \<Rightarrow> delegation_policy \<Rightarrow> delegation_request \<Rightarrow> delegation_manifest \<Rightarrow> evidence_assessment \<Rightarrow> evidence_assessment
     \<Rightarrow> evidence_assessment \<Rightarrow> delegation_error + delegation_assessment" where
  "evaluate_delegations sha p r m p7b p7h p7i =
     (case first_rejection
        [validate_delegation_policy p, deny_if (\<not> delegation_request_bound p r) DELEGATION_REQUEST_INVALID None,
         validate_delegation_upstreams p p7b p7h p7i,
         validate_delegation_manifest sha p r m (map de_id (ea_items p7b)) (map de_id (ea_items p7h)) (map de_id (ea_items p7i))] of
        Some e \<Rightarrow> Inl e
      | None \<Rightarrow>
          (case evaluate_records (delegation_context_of p (dq_now r) m p7b p7h p7i) (sort (map dl_id (dm_delegations m))) no_delegations of
             Inl e \<Rightarrow> Inl e
           | Inr s \<Rightarrow>
               (let facts = sort_key df_id (dr_facts s) in
                case first_rejection
                  ([deny_if (\<not> same_set (dq_denied r) (map df_id (denied_facts facts))) DELEGATION_DECLARED_DECISION_MISMATCH None,
                    deny_if (\<not> same_set (map fst (dq_risks r)) (dq_delegations r)) DELEGATION_DECLARED_RISK_MISMATCH None]
                   @ map (declared_delegation_ok r) facts) of
                  Some e \<Rightarrow> Inl e
                | None \<Rightarrow> Inr (delegation_assessment_of sha m p7b p7h p7i facts))))"

end
