(* ===== verification/Delegation_Chains.thy ===== *)
theory Delegation_Chains
  imports Delegation
begin

section \<open>Chains of delegations\<close>

text \<open>The properties of \<open>Delegation\<close>: what an allowed delegation may pass on, and from whom.\<close>

subsection \<open>Chains\<close>

text \<open>
  A chain lists a delegation, its parent, and so on to the root. It is admissible when each of its records was decided without
  a risk, the parent with exactly the capabilities it asked for.
\<close>

definition decided_without_risk :: "delegation_context \<Rightarrow> delegation_parent option \<Rightarrow> delegation_record \<Rightarrow> bool" where
  "decided_without_risk c parent d \<longleftrightarrow> (\<exists>a b. row_of ag_id (dl_delegator d) (dc_agents c) = Some a \<and> row_of ag_id (dl_delegatee d) (dc_agents c) = Some b \<and>
     delegation_risks c a b parent d = [])"

fun admissible :: "delegation_context \<Rightarrow> delegation_record list \<Rightarrow> bool" where
  "admissible c [] \<longleftrightarrow> False"
| "admissible c [d] \<longleftrightarrow> d \<in> set (dc_delegations c) \<and> dl_parent d = None \<and> decided_without_risk c None d"
| "admissible c (d # q # rest) \<longleftrightarrow> d \<in> set (dc_delegations c) \<and> dl_parent d = Some (dl_id q) \<and>
     decided_without_risk c (Some (q, dl_capabilities q, int (length (q # rest)))) d \<and> admissible c (q # rest)"

definition known_capabilities :: "delegation_context \<Rightarrow> bool" where
  "known_capabilities c \<longleftrightarrow> (\<forall>d \<in> set (dc_delegations c). dl_capabilities d \<noteq> [] \<and> set (dl_capabilities d) \<subseteq> ac_id ` set (dc_capabilities c)) \<and>
     (\<forall>x \<in> set (dc_capabilities c). 0 < ac_level x) \<and> distinct (map dl_id (dc_delegations c))"

definition run_sound :: "delegation_context \<Rightarrow> delegation_run \<Rightarrow> bool" where
  "run_sound c s \<longleftrightarrow>
     (\<forall>i. map_of (dr_effective s) i = None \<longleftrightarrow> map_of (dr_depths s) i = None) \<and>
     (\<forall>i effective. map_of (dr_effective s) i = Some effective \<longrightarrow> i \<in> dl_id ` set (dc_delegations c) \<and>
        (effective = [] \<or> (\<exists>chain. admissible c chain \<and> dl_id (hd chain) = i \<and> effective = dl_capabilities (hd chain) \<and>
           map_of (dr_depths s) i = Some (int (length chain))))) \<and>
     (\<forall>f \<in> set (dr_facts s). df_decision f = DELEGATION_ALLOW \<longrightarrow>
        (\<exists>chain. admissible c chain \<and> dl_id (hd chain) = df_id f \<and> df_depth f = int (length chain) \<and>
           df_requested f = sorted_identifiers (dl_capabilities (hd chain))))"

lemma run_sound_initial: "run_sound c no_delegations"
  by (simp add: run_sound_def no_delegations_def)

lemma requested_capability:
  assumes "known_capabilities c" and "d \<in> set (dc_delegations c)"
  obtains x where "x \<in> set (capabilities_of (dc_capabilities c) (dl_capabilities d))"
proof -
  obtain i where i: "i \<in> set (dl_capabilities d)" using assms by (metis known_capabilities_def list.set_sel(1))
  then obtain x where "x \<in> set (dc_capabilities c)" "ac_id x = i" using assms by (force simp: known_capabilities_def)
  then show thesis using that [of x] i by (simp add: capabilities_of_def)
qed

lemma no_effective_capabilities:
  assumes "known_capabilities c" and "d \<in> set (dc_delegations c)"
  shows "delegation_risks c a b (Some (q, [], n)) d \<noteq> []"
proof -
  obtain x where "x \<in> set (capabilities_of (dc_capabilities c) (dl_capabilities d))" using requested_capability [OF assms] .
  then have "CAPABILITY_LAUNDERING \<in> set (authority_risks c a b (Some (q, [], n)) d)"
    by (auto simp: authority_risks_def Let_def list_ex_iff exceeds_def max_level_by_family_def capabilities_of_def)
  then show ?thesis by (auto simp: delegation_risks_def)
qed

text \<open>A decision made after the parent's keeps the run sound.\<close>

lemma decide_delegation_sound:
  assumes "decide_delegation c d s = Inr s'" and "run_sound c s" and "known_capabilities c" and "d \<in> set (dc_delegations c)"
    and "\<And>j. dl_parent d = Some j \<Longrightarrow> map_of (dr_effective s) j \<noteq> None"
  shows "run_sound c s'" and "map_of (dr_effective s') (dl_id d) \<noteq> None"
proof -
  obtain a b where ab: "row_of ag_id (dl_delegator d) (dc_agents c) = Some a" "row_of ag_id (dl_delegatee d) (dc_agents c) = Some b"
    using assms(1) by (auto simp: decide_delegation_def split: option.splits)
  define parent where "parent = parent_of c d s"
  define risks where "risks = delegation_risks c a b parent d"
  define f where "f = delegation_fact_of c a b parent d"
  have f: "df_id f = dl_id d" "df_depth f = depth_of parent" "df_requested f = sorted_identifiers (dl_capabilities d)" "df_decision f = DELEGATION_ALLOW \<longleftrightarrow> risks = []"
    by (simp_all add: f_def delegation_fact_of_def Let_def risks_def)
  have s': "s' = \<lparr>dr_effective = (dl_id d, if risks = [] then dl_capabilities d else []) # dr_effective s,
      dr_depths = (dl_id d, depth_of parent) # dr_depths s, dr_facts = dr_facts s @ [f]\<rparr>"
    using assms(1) by (simp add: decide_delegation_def ab Let_def parent_def risks_def f_def)
  have chain: "\<exists>chain. admissible c chain \<and> hd chain = d \<and> depth_of parent = int (length chain)" if "risks = []"
  proof (cases "dl_parent d")
    case None
    then have "parent = None" by (simp add: parent_def parent_of_def)
    then have "admissible c [d]" using ab assms(4) that None by (auto simp: decided_without_risk_def risks_def)
    then show ?thesis using \<open>parent = None\<close> by (intro exI [of _ "[d]"]) (simp add: depth_of_def)
  next
    case (Some j)
    obtain effective where effective: "map_of (dr_effective s) j = Some effective" using assms(5) [OF Some] by auto
    then obtain n where n: "map_of (dr_depths s) j = Some n" using assms(2) unfolding run_sound_def by (metis option.exhaust option.distinct(1))
    have j: "j \<in> dl_id ` set (dc_delegations c)" using assms(2) effective unfolding run_sound_def by blast
    then obtain q where q: "row_of dl_id j (dc_delegations c) = Some q" using row_of_None [of dl_id j "dc_delegations c"] by fastforce
    have parent: "parent = Some (q, effective, n)" by (simp add: parent_def parent_of_def Some q effective n)
    have "effective \<noteq> []" using that no_effective_capabilities [OF assms(3,4)] unfolding risks_def parent by auto
    then obtain ch where ch: "admissible c ch" "dl_id (hd ch) = j" "effective = dl_capabilities (hd ch)" "n = int (length ch)"
      using assms(2) effective n unfolding run_sound_def by (metis option.inject)
    then obtain rest where rest: "ch = hd ch # rest" by (cases ch) auto
    have "hd ch \<in> set (dc_delegations c)" using ch(1) by (cases "(c, ch)" rule: admissible.cases) auto
    then have "hd ch = q" using q ch(2) row_of_unique [of dl_id "dc_delegations c" j "hd ch"] assms(3) by (simp add: known_capabilities_def)
    then have "admissible c (d # ch)"
      using ch rest that ab assms(4) Some row_of_SomeD [OF q] parent
      by (subst rest, subst admissible.simps(3)) (auto simp: decided_without_risk_def risks_def)
    then show ?thesis using parent ch(4) by (intro exI [of _ "d # ch"]) (simp add: depth_of_def)
  qed
  show "map_of (dr_effective s') (dl_id d) \<noteq> None" by (simp add: s')
  have table: "i \<in> dl_id ` set (dc_delegations c) \<and> (effective = [] \<or> (\<exists>chain. admissible c chain \<and> dl_id (hd chain) = i \<and>
      effective = dl_capabilities (hd chain) \<and> map_of (dr_depths s') i = Some (int (length chain))))"
    if "map_of (dr_effective s') i = Some effective" for i effective
  proof (cases "i = dl_id d")
    case True
    then show ?thesis using that chain assms(4) by (cases "risks = []") (auto simp: s')
  next
    case False
    then have "map_of (dr_effective s) i = Some effective" "map_of (dr_depths s') i = map_of (dr_depths s) i" using that by (simp_all add: s')
    then show ?thesis using assms(2) unfolding run_sound_def by presburger
  qed
  have facts: "\<exists>chain. admissible c chain \<and> dl_id (hd chain) = df_id g \<and> df_depth g = int (length chain) \<and>
      df_requested g = sorted_identifiers (dl_capabilities (hd chain))"
    if "g \<in> set (dr_facts s')" "df_decision g = DELEGATION_ALLOW" for g
  proof (cases "g \<in> set (dr_facts s)")
    case True
    then show ?thesis using assms(2) that(2) unfolding run_sound_def by blast
  next
    case False
    then have "g = f" using that(1) by (simp add: s')
    moreover from this have "risks = []" using that(2) f(4) by simp
    ultimately show ?thesis using chain f(1-3) by auto
  qed
  have "map_of (dr_effective s') i = None \<longleftrightarrow> map_of (dr_depths s') i = None" for i
    using assms(2) by (simp add: s' run_sound_def)
  then show "run_sound c s'" using table facts unfolding run_sound_def by blast
qed

lemma evaluate_record_sound:
  "evaluate_record c stack i s = Inr s' \<Longrightarrow> run_sound c s \<Longrightarrow> known_capabilities c \<Longrightarrow> run_sound c s' \<and> map_of (dr_effective s') i \<noteq> None"
proof (induction c stack i s arbitrary: s' rule: evaluate_record.induct)
  case (1 c stack i s)
  show ?case
  proof (cases "map_of (dr_effective s) i \<noteq> None \<or> i \<in> set stack")
    case True
    then show ?thesis using 1(2,3) by (subst (asm) evaluate_record.simps) (auto split: if_splits)
  next
    case False
    then have new: "map_of (dr_effective s) i = None" "i \<notin> set stack" by simp_all
    obtain d where d: "row_of dl_id i (dc_delegations c) = Some d"
      using 1(2) new by (subst (asm) evaluate_record.simps) (auto split: option.splits)
    have member: "d \<in> set (dc_delegations c)" "dl_id d = i" using row_of_SomeD [OF d] by simp_all
    show ?thesis
    proof (cases "dl_parent d")
      case None
      then have "decide_delegation c d s = Inr s'" using 1(2) new d by (subst (asm) evaluate_record.simps) simp
      from decide_delegation_sound [OF this 1(3,4) member(1)] show ?thesis using None member(2) by simp
    next
      case (Some j)
      obtain t where t: "evaluate_record c (i # stack) j s = Inr t" "decide_delegation c d t = Inr s'"
        using 1(2) new d Some by (subst (asm) evaluate_record.simps) (auto split: sum.splits)
      have IH: "run_sound c t \<and> map_of (dr_effective t) j \<noteq> None"
        using 1(1) [of d j t] False d Some t(1) 1(3,4) by simp
      have "map_of (dr_effective t) k \<noteq> None" if "dl_parent d = Some k" for k using IH Some that by simp
      from decide_delegation_sound [OF t(2) _ 1(4) member(1) this] show ?thesis using IH member(2) by simp
    qed
  qed
qed

lemma evaluate_records_sound:
  "evaluate_records c is s = Inr s' \<Longrightarrow> run_sound c s \<Longrightarrow> known_capabilities c \<Longrightarrow> run_sound c s'"
proof (induction "is" arbitrary: s)
  case (Cons i "is")
  then obtain t where "evaluate_record c [] i s = Inr t" "evaluate_records c is t = Inr s'" by (auto split: sum.splits)
  then show ?case using Cons evaluate_record_sound by blast
qed simp

subsection \<open>What an admissible chain guarantees\<close>

lemma admissible_head: "admissible c chain \<Longrightarrow> hd chain \<in> set (dc_delegations c) \<and> chain \<noteq> []"
  by (cases "(c, chain)" rule: admissible.cases) auto

lemma decided_within_principal:
  assumes "decided_without_risk c parent d" and "x \<in> set (capabilities_of (dc_capabilities c) (dl_capabilities d))"
  shows "\<exists>n. map_of (allowed_for (dp_principal_levels (dc_policy c)) (dl_principal d)) (ac_family x) = Some n \<and> ac_level x \<le> n"
  using assms by (auto simp: decided_without_risk_def delegation_risks_def authority_risks_def Let_def list_ex_iff exceeds_def split: option.splits)

lemma foldr_max_in: "0 < foldr max ls (0::int) \<Longrightarrow> foldr max ls 0 \<in> set ls"
  by (induction ls) (auto simp: max_def split: if_splits)

lemma decided_within_parent:
  assumes "decided_without_risk c (Some (q, dl_capabilities q, n)) d" and "known_capabilities c"
    and "x \<in> set (capabilities_of (dc_capabilities c) (dl_capabilities d))"
  shows "\<exists>y \<in> set (capabilities_of (dc_capabilities c) (dl_capabilities q)). ac_family y = ac_family x \<and> ac_level x \<le> ac_level y"
proof -
  have "\<not> exceeds (max_level_by_family (dc_capabilities c) (dl_capabilities q) (ac_family x)) x"
    using assms(1,3) by (auto simp: decided_without_risk_def delegation_risks_def authority_risks_def Let_def list_ex_iff)
  then obtain n where n: "max_level_by_family (dc_capabilities c) (dl_capabilities q) (ac_family x) = Some n" "ac_level x \<le> n"
    by (auto simp: exceeds_def split: option.splits)
  let ?ls = "map ac_level (filter (\<lambda>y. ac_family y = ac_family x) (capabilities_of (dc_capabilities c) (dl_capabilities q)))"
  have "n = foldr max ?ls 0" using n(1) unfolding max_level_by_family_def by (auto split: list.splits)
  moreover have "0 < ac_level x" using assms(2,3) by (simp add: known_capabilities_def capabilities_of_def)
  ultimately have "n \<in> set ?ls" using n(2) foldr_max_in [of ?ls] by simp
  then show ?thesis using n(2) by auto
qed

lemma decided_continues:
  assumes "decided_without_risk c (Some (q, effective, n)) d"
  shows "dl_delegatee q = dl_delegator d" "dl_principal q = dl_principal d" "dl_tenant q = dl_tenant d"
    "casefold (dl_request q) = casefold (dl_request d)" "dl_expires d \<le> dl_expires q" "dl_issued q \<le> dl_issued d"
  using assms by (auto simp: decided_without_risk_def delegation_risks_def continuity_risks_def)

lemma decided_now:
  assumes "decided_without_risk c parent d"
  shows "dc_now c < dl_expires d" and "map_of (dp_principal_tenant (dc_policy c)) (dl_principal d) = Some (dl_tenant d)"
    and "depth_of parent \<le> dp_max_depth (dc_policy c)"
    and "dl_task d \<in> set (allowed_for (dp_principal_tasks (dc_policy c)) (dl_principal d))"
  using assms by (auto simp: decided_without_risk_def delegation_risks_def tenant_risks_def)

fun contiguous :: "delegation_record list \<Rightarrow> bool" where
  "contiguous (d # q # rest) \<longleftrightarrow> dl_parent d = Some (dl_id q) \<and> dl_delegatee q = dl_delegator d \<and> contiguous (q # rest)"
| "contiguous [d] \<longleftrightarrow> dl_parent d = None"
| "contiguous [] \<longleftrightarrow> False"

definition attenuates :: "agent_capability list \<Rightarrow> delegation_record \<Rightarrow> delegation_record \<Rightarrow> bool" where
  "attenuates cs d q \<longleftrightarrow> dl_principal q = dl_principal d \<and> dl_tenant q = dl_tenant d \<and> casefold (dl_request q) = casefold (dl_request d) \<and>
     dl_expires d \<le> dl_expires q \<and>
     (\<forall>x \<in> set (capabilities_of cs (dl_capabilities d)). \<exists>y \<in> set (capabilities_of cs (dl_capabilities q)).
        ac_family y = ac_family x \<and> ac_level x \<le> ac_level y)"

lemma attenuates_refl: "attenuates cs d d" by (auto simp: attenuates_def)

lemma attenuates_trans:
  assumes "attenuates cs d q" and "attenuates cs q e"
  shows "attenuates cs d e"
proof -
  have "\<exists>y \<in> set (capabilities_of cs (dl_capabilities e)). ac_family y = ac_family x \<and> ac_level x \<le> ac_level y"
    if "x \<in> set (capabilities_of cs (dl_capabilities d))" for x
  proof -
    obtain y where y: "y \<in> set (capabilities_of cs (dl_capabilities q))" "ac_family y = ac_family x" "ac_level x \<le> ac_level y"
      using assms(1) \<open>x \<in> _\<close> unfolding attenuates_def by blast
    obtain z where "z \<in> set (capabilities_of cs (dl_capabilities e))" "ac_family z = ac_family y" "ac_level y \<le> ac_level z"
      using assms(2) y(1) unfolding attenuates_def by blast
    then show ?thesis using y by (intro bexI [of _ z]) auto
  qed
  then show ?thesis using assms unfolding attenuates_def by auto
qed

lemma admissible_chain:
  assumes "admissible c chain" and "known_capabilities c"
  shows "contiguous chain" and "set chain \<subseteq> set (dc_delegations c)" and "\<And>q. q \<in> set chain \<Longrightarrow> attenuates (dc_capabilities c) (hd chain) q"
    and "dc_now c < dl_expires (hd chain)" and "int (length chain) \<le> dp_max_depth (dc_policy c)"
    and "\<exists>a. row_of ag_id (dl_delegator (last chain)) (dc_agents c) = Some a \<and> set (dl_capabilities (last chain)) \<subseteq> set (ag_capabilities a)"
    and "\<exists>parent. decided_without_risk c parent (hd chain)"
  using assms
proof (induction c chain rule: admissible.induct)
  case (2 c d)
  {
    case 1
    then show ?case by simp
  next
    case 2
    then show ?case by simp
  next
    case (3 q)
    then show ?case by (simp add: attenuates_refl)
  next
    case 4
    then show ?case using decided_now(1) by auto
  next
    case 5
    then show ?case using decided_now(3) [of c None d] by (simp add: depth_of_def)
  next
    case 6
    then show ?case by (auto simp: decided_without_risk_def delegation_risks_def authority_risks_def Let_def)
  next
    case 7
    then show ?case by auto
  }
next
  case (3 c d q rest)
  note IH = "3.IH"
  let ?parent = "Some (q, dl_capabilities q, int (length (q # rest)))"
  {
    case 1
    then show ?case using IH(1) decided_continues(1) by auto
  next
    case 2
    then show ?case using IH(2) by auto
  next
    case (3 e)
    then have risk: "decided_without_risk c ?parent d" and tail: "admissible c (q # rest)" by simp_all
    have "attenuates (dc_capabilities c) d q"
      using decided_continues [OF risk] decided_within_parent [OF risk 3(3)] by (auto simp: attenuates_def)
    then show ?case using 3(1) IH(3) [of e] tail 3(3) attenuates_refl attenuates_trans by (cases "e = d") auto
  next
    case 4
    then show ?case using decided_now(1) [of c ?parent d] by simp
  next
    case 5
    then show ?case using decided_now(3) [of c ?parent d] by (simp add: depth_of_def)
  next
    case 6
    then show ?case using IH(6) by simp
  next
    case 7
    then show ?case by auto
  }
qed simp_all

subsection \<open>Accepted assessments\<close>

lemma deny_if_None [simp]: "deny_if x r i = None \<longleftrightarrow> \<not> x"
  by (simp add: deny_if_def)

lemma bad_identifier_None: "bad_identifier seen ids = None \<longleftrightarrow> distinct ids \<and> [] \<notin> set ids \<and> set ids \<inter> set seen = {}"
  by (induction seen ids rule: bad_identifier.induct) auto

lemma evaluate_delegations_Inr:
  assumes "evaluate_delegations sha p r m p7b p7h p7i = Inr a" and "c = delegation_context_of p (dq_now r) m p7b p7h p7i"
  obtains s where "evaluate_records c (sort (map dl_id (dm_delegations m))) no_delegations = Inr s" "da_facts a = sort_key df_id (dr_facts s)"
    "known_capabilities c" "set (dq_denied r) = df_id ` set (denied_facts (da_facts a))"
proof -
  let ?checks = "[validate_delegation_policy p, deny_if (\<not> delegation_request_bound p r) DELEGATION_REQUEST_INVALID None,
     validate_delegation_upstreams p p7b p7h p7i,
     validate_delegation_manifest sha p r m (map de_id (ea_items p7b)) (map de_id (ea_items p7h)) (map de_id (ea_items p7i))]"
  have none: "first_rejection ?checks = None" using assms(1) by (auto simp: evaluate_delegations_def split: option.splits)
  then have valid: "validate_delegation_manifest sha p r m (map de_id (ea_items p7b)) (map de_id (ea_items p7h)) (map de_id (ea_items p7i)) = None"
    by (simp add: first_rejection_None)
  obtain s where s: "evaluate_records c (sort (map dl_id (dm_delegations m))) no_delegations = Inr s"
    using assms none by (auto simp: evaluate_delegations_def Let_def split: sum.splits)
  let ?facts = "sort_key df_id (dr_facts s)"
  have declared: "first_rejection ([deny_if (\<not> same_set (dq_denied r) (map df_id (denied_facts ?facts))) DELEGATION_DECLARED_DECISION_MISMATCH None,
      deny_if (\<not> same_set (map fst (dq_risks r)) (dq_delegations r)) DELEGATION_DECLARED_RISK_MISMATCH None] @ map (declared_delegation_ok r) ?facts) = None"
    and a: "a = delegation_assessment_of sha m p7b p7h p7i ?facts"
    using assms none s by (auto simp: evaluate_delegations_def Let_def split: option.splits)
  note checks = valid [unfolded validate_delegation_manifest_def Let_def first_rejection_None]
  have "\<forall>e \<in> set (validate_delegation p (dq_now r) (map ag_id (dm_agents m)) (map ac_id (dm_capabilities m)) (map dl_id (dm_delegations m)) d). e = None"
    if "d \<in> set (dm_delegations m)" for d using checks that by auto
  then have requested: "dl_capabilities d \<noteq> [] \<and> set (dl_capabilities d) \<subseteq> ac_id ` set (dm_capabilities m)" if "d \<in> set (dm_delegations m)" for d
    using that by (fastforce simp: validate_delegation_def list_ex_iff)
  have "\<forall>e \<in> set (validate_capability p (map de_id (ea_items p7h)) (map de_id (ea_items p7i)) x). e = None" if "x \<in> set (dm_capabilities m)" for x
    using checks that by auto
  then have levels: "0 < ac_level x" if "x \<in> set (dm_capabilities m)" for x using that by (fastforce simp: validate_capability_def)
  have "deny_duplicate DELEGATION_DUPLICATE (map dl_id (dm_delegations m)) = None" using checks by auto
  then have "distinct (map dl_id (dm_delegations m))" by (simp add: deny_duplicate_def bad_identifier_None)
  then have "known_capabilities c" using requested levels by (simp add: known_capabilities_def assms(2) delegation_context_of_def)
  moreover have "set (dq_denied r) = df_id ` set (denied_facts ?facts)" using declared by (auto simp: first_rejection_None same_set_def)
  ultimately show thesis using that [OF s] a by (simp add: delegation_assessment_of_def)
qed

lemma delegation_context_of_simps [simp]:
  "dc_policy (delegation_context_of p now m p7b p7h p7i) = p" "dc_now (delegation_context_of p now m p7b p7h p7i) = now"
  "dc_agents (delegation_context_of p now m p7b p7h p7i) = dm_agents m"
  "dc_capabilities (delegation_context_of p now m p7b p7h p7i) = dm_capabilities m"
  "dc_delegations (delegation_context_of p now m p7b p7h p7i) = dm_delegations m"
  by (simp_all add: delegation_context_of_def)

text \<open>\<^bold>\<open>C39\<close>. Authority does not grow along a chain of delegations: every delegation that is allowed ends a chain of records from a
root, of bounded length, in which each delegator is the agent its parent delegated to; every record of it is for the same
principal, tenant and request and expires no earlier; every capability asked for is, family by family, no higher than one that
each record above it asked for, and than what the principal may have; the root's capabilities are its delegator's own; and it has
not expired.\<close>

theorem authority_never_grows_along_a_chain:
  assumes "evaluate_delegations sha p r m p7b p7h p7i = Inr a" and "f \<in> set (da_facts a)" and "df_decision f = DELEGATION_ALLOW"
  shows "\<exists>chain. contiguous chain \<and> set chain \<subseteq> set (dm_delegations m) \<and> dl_id (hd chain) = df_id f \<and>
    df_requested f = sorted_identifiers (dl_capabilities (hd chain)) \<and> int (length chain) = df_depth f \<and> df_depth f \<le> dp_max_depth p \<and>
    (\<forall>q \<in> set chain. attenuates (dm_capabilities m) (hd chain) q) \<and>
    (\<forall>x \<in> set (capabilities_of (dm_capabilities m) (dl_capabilities (hd chain))). \<exists>n.
       map_of (allowed_for (dp_principal_levels p) (dl_principal (hd chain))) (ac_family x) = Some n \<and> ac_level x \<le> n) \<and>
    (\<exists>root. row_of ag_id (dl_delegator (last chain)) (dm_agents m) = Some root \<and> set (dl_capabilities (last chain)) \<subseteq> set (ag_capabilities root)) \<and>
    dq_now r < dl_expires (hd chain)"
proof -
  define c where "c = delegation_context_of p (dq_now r) m p7b p7h p7i"
  obtain s where run: "evaluate_records c (sort (map dl_id (dm_delegations m))) no_delegations = Inr s"
    and facts: "da_facts a = sort_key df_id (dr_facts s)" and known: "known_capabilities c"
    using evaluate_delegations_Inr [OF assms(1) c_def] by metis
  have "run_sound c s" using evaluate_records_sound [OF run run_sound_initial known] .
  moreover have "f \<in> set (dr_facts s)" using assms(2) facts by simp
  ultimately obtain chain where chain: "admissible c chain" "dl_id (hd chain) = df_id f" "df_depth f = int (length chain)"
    "df_requested f = sorted_identifiers (dl_capabilities (hd chain))"
    using assms(3) unfolding run_sound_def by blast
  note guarantees = admissible_chain [OF chain(1) known]
  show ?thesis
    using chain(2-4) guarantees(1-6) guarantees(7) decided_within_principal [of c _ "hd chain"]
    by (intro exI [of _ chain]) (auto simp: c_def)
qed

subsection \<open>What the laundering check compares\<close>

lemma capabilities_of_sorted [simp]: "capabilities_of cs (sorted_identifiers ids) = capabilities_of cs ids"
  by (simp add: capabilities_of_def sorted_identifiers_def)

lemma laundering_risk:
  "CAPABILITY_LAUNDERING \<in> set (delegation_risks c a b (Some (q, effective, n)) d) \<longleftrightarrow>
     list_ex (\<lambda>x. exceeds (max_level_by_family (dc_capabilities c) effective (ac_family x)) x) (capabilities_of (dc_capabilities c) (dl_capabilities d))"
  by (auto simp: delegation_risks_def tenant_risks_def continuity_risks_def dependency_risks_def authority_risks_def Let_def risk_if_def)

lemma exceeds_family:
  assumes "0 < ac_level x"
  shows "exceeds (max_level_by_family cs ids (ac_family x)) x \<longleftrightarrow>
    (\<forall>y \<in> set (capabilities_of cs ids). ac_family y = ac_family x \<longrightarrow> ac_level y < ac_level x)"
proof -
  let ?ls = "map ac_level (filter (\<lambda>y. ac_family y = ac_family x) (capabilities_of cs ids))"
  have below: "foldr max ls 0 < k \<longleftrightarrow> (\<forall>l \<in> set ls. l < k)" if "0 < k" for ls and k :: int
    using that by (induction ls) auto
  have "exceeds (max_level_by_family cs ids (ac_family x)) x \<longleftrightarrow> foldr max ?ls 0 < ac_level x"
    using assms unfolding max_level_by_family_def exceeds_def by (cases ?ls) simp_all
  also have "\<dots> \<longleftrightarrow> (\<forall>y \<in> set (capabilities_of cs ids). ac_family y = ac_family x \<longrightarrow> ac_level y < ac_level x)"
    unfolding below [OF assms] by auto
  finally show ?thesis .
qed

text \<open>Each fact agrees with the table of effective capabilities, its own entry and its parent's.\<close>

definition facts_linked :: "delegation_context \<Rightarrow> delegation_run \<Rightarrow> bool" where
  "facts_linked c s \<longleftrightarrow> (\<forall>f \<in> set (dr_facts s).
     (\<exists>own. map_of (dr_effective s) (df_id f) = Some own \<and>
        sorted_identifiers own = (if df_decision f = DELEGATION_ALLOW then df_requested f else [])) \<and>
     (\<forall>j. df_parent f = Some j \<longrightarrow> (\<exists>effective. map_of (dr_effective s) j = Some effective \<and> df_effective f = sorted_identifiers effective \<and>
        (CAPABILITY_LAUNDERING \<in> set (df_risks f) \<longleftrightarrow>
           list_ex (\<lambda>x. exceeds (max_level_by_family (dc_capabilities c) effective (ac_family x)) x)
             (capabilities_of (dc_capabilities c) (df_requested f))))))"

lemma facts_linked_initial: "facts_linked c no_delegations"
  by (simp add: facts_linked_def no_delegations_def)

lemma decide_delegation_linked:
  assumes "decide_delegation c d s = Inr s'" and "run_sound c s" and "facts_linked c s" and "map_of (dr_effective s) (dl_id d) = None"
    and "\<And>j. dl_parent d = Some j \<Longrightarrow> map_of (dr_effective s) j \<noteq> None"
  shows "facts_linked c s'"
proof -
  obtain a b where ab: "row_of ag_id (dl_delegator d) (dc_agents c) = Some a" "row_of ag_id (dl_delegatee d) (dc_agents c) = Some b"
    using assms(1) by (auto simp: decide_delegation_def split: option.splits)
  define parent where "parent = parent_of c d s"
  define risks where "risks = delegation_risks c a b parent d"
  define f where "f = delegation_fact_of c a b parent d"
  let ?own = "if risks = [] then dl_capabilities d else []"
  have "s' = \<lparr>dr_effective = (dl_id d, ?own) # dr_effective s, dr_depths = (dl_id d, depth_of parent) # dr_depths s, dr_facts = dr_facts s @ [f]\<rparr>"
    using assms(1) by (simp add: decide_delegation_def ab Let_def parent_def risks_def f_def)
  then have s': "dr_effective s' = (dl_id d, ?own) # dr_effective s" "dr_facts s' = dr_facts s @ [f]" by simp_all
  have kept: "map_of (dr_effective s') j = Some effective" if "map_of (dr_effective s) j = Some effective" for j effective
    using that assms(4) by (auto simp: s')
  have own: "map_of (dr_effective s') (df_id f) = Some ?own" "sorted_identifiers ?own = (if df_decision f = DELEGATION_ALLOW then df_requested f else [])"
    by (simp_all add: s' f_def delegation_fact_of_def Let_def risks_def sorted_identifiers_def)
  have linked: "\<exists>effective. map_of (dr_effective s') j = Some effective \<and> df_effective f = sorted_identifiers effective \<and>
      (CAPABILITY_LAUNDERING \<in> set (df_risks f) \<longleftrightarrow> list_ex (\<lambda>x. exceeds (max_level_by_family (dc_capabilities c) effective (ac_family x)) x)
         (capabilities_of (dc_capabilities c) (df_requested f)))" if "df_parent f = Some j" for j
  proof -
    have j: "dl_parent d = Some j" using that by (simp add: f_def delegation_fact_of_def Let_def)
    obtain effective where effective: "map_of (dr_effective s) j = Some effective" using assms(5) [OF j] by auto
    then obtain n where "map_of (dr_depths s) j = Some n" using assms(2) unfolding run_sound_def by (metis option.exhaust option.distinct(1))
    moreover have "j \<in> dl_id ` set (dc_delegations c)" using assms(2) effective unfolding run_sound_def by blast
    then obtain q where "row_of dl_id j (dc_delegations c) = Some q" using row_of_None [of dl_id j "dc_delegations c"] by fastforce
    ultimately have "parent = Some (q, effective, n)" by (simp add: parent_def parent_of_def j effective)
    then show ?thesis using kept [OF effective] laundering_risk [of c a b q effective n d]
      by (simp add: f_def delegation_fact_of_def Let_def ranked_risks_def)
  qed
  show ?thesis unfolding facts_linked_def s'(2)
  proof
    fix g assume "g \<in> set (dr_facts s @ [f])"
    then consider "g \<in> set (dr_facts s)" | "g = f" by auto
    then show "(\<exists>own. map_of (dr_effective s') (df_id g) = Some own \<and>
        sorted_identifiers own = (if df_decision g = DELEGATION_ALLOW then df_requested g else [])) \<and>
      (\<forall>j. df_parent g = Some j \<longrightarrow> (\<exists>effective. map_of (dr_effective s') j = Some effective \<and> df_effective g = sorted_identifiers effective \<and>
        (CAPABILITY_LAUNDERING \<in> set (df_risks g) \<longleftrightarrow> list_ex (\<lambda>x. exceeds (max_level_by_family (dc_capabilities c) effective (ac_family x)) x)
           (capabilities_of (dc_capabilities c) (df_requested g)))))"
    proof cases
      case 1
      then show ?thesis using assms(3) kept unfolding facts_linked_def by meson
    next
      case 2
      then show ?thesis using own linked by blast
    qed
  qed
qed

lemma decide_delegation_table: "decide_delegation c d s = Inr s' \<Longrightarrow> k \<noteq> dl_id d \<Longrightarrow> map_of (dr_effective s') k = map_of (dr_effective s) k"
  by (auto simp: decide_delegation_def Let_def split: option.splits)

lemma evaluate_record_stack:
  "evaluate_record c stack i s = Inr s' \<Longrightarrow> k \<in> set stack \<Longrightarrow> map_of (dr_effective s') k = map_of (dr_effective s) k"
proof (induction c stack i s arbitrary: s' rule: evaluate_record.induct)
  case (1 c stack i s)
  show ?case
  proof (cases "map_of (dr_effective s) i \<noteq> None \<or> i \<in> set stack")
    case True
    then show ?thesis using 1(2) by (subst (asm) evaluate_record.simps) (auto split: if_splits)
  next
    case False
    then have new: "map_of (dr_effective s) i = None" "i \<notin> set stack" by simp_all
    obtain d where d: "row_of dl_id i (dc_delegations c) = Some d"
      using 1(2) new by (subst (asm) evaluate_record.simps) (auto split: option.splits)
    have k: "k \<noteq> dl_id d" using 1(3) new(2) row_of_SomeD [OF d] by auto
    show ?thesis
    proof (cases "dl_parent d")
      case None
      then have "decide_delegation c d s = Inr s'" using 1(2) new d by (subst (asm) evaluate_record.simps) simp
      then show ?thesis using decide_delegation_table k by blast
    next
      case (Some j)
      obtain t where t: "evaluate_record c (i # stack) j s = Inr t" "decide_delegation c d t = Inr s'"
        using 1(2) new d Some by (subst (asm) evaluate_record.simps) (auto split: sum.splits)
      have "map_of (dr_effective t) k = map_of (dr_effective s) k" using 1(1) [of d j t] False d Some t(1) 1(3) by simp
      then show ?thesis using decide_delegation_table [OF t(2) k] by simp
    qed
  qed
qed

lemma evaluate_record_linked:
  "evaluate_record c stack i s = Inr s' \<Longrightarrow> run_sound c s \<Longrightarrow> known_capabilities c \<Longrightarrow> facts_linked c s \<Longrightarrow> facts_linked c s'"
proof (induction c stack i s arbitrary: s' rule: evaluate_record.induct)
  case (1 c stack i s)
  show ?case
  proof (cases "map_of (dr_effective s) i \<noteq> None \<or> i \<in> set stack")
    case True
    then show ?thesis using 1(2,5) by (subst (asm) evaluate_record.simps) (auto split: if_splits)
  next
    case False
    then have new: "map_of (dr_effective s) i = None" "i \<notin> set stack" by simp_all
    obtain d where d: "row_of dl_id i (dc_delegations c) = Some d"
      using 1(2) new by (subst (asm) evaluate_record.simps) (auto split: option.splits)
    have id: "dl_id d = i" using row_of_SomeD [OF d] by simp
    show ?thesis
    proof (cases "dl_parent d")
      case None
      then have "decide_delegation c d s = Inr s'" using 1(2) new d by (subst (asm) evaluate_record.simps) simp
      from decide_delegation_linked [OF this 1(3,5)] new(1) show ?thesis by (simp add: id None)
    next
      case (Some j)
      obtain t where t: "evaluate_record c (i # stack) j s = Inr t" "decide_delegation c d t = Inr s'"
        using 1(2) new d Some by (subst (asm) evaluate_record.simps) (auto split: sum.splits)
      have IH: "facts_linked c t" using 1(1) [of d j t] False d Some t(1) 1(3-5) by simp
      have sound: "run_sound c t" "map_of (dr_effective t) j \<noteq> None" using evaluate_record_sound [OF t(1) 1(3,4)] by simp_all
      have "map_of (dr_effective t) (dl_id d) = None" using evaluate_record_stack [OF t(1), of i] new(1) by (simp add: id)
      from decide_delegation_linked [OF t(2) sound(1) IH this] sound(2) show ?thesis by (simp add: Some)
    qed
  qed
qed

lemma evaluate_records_linked:
  "evaluate_records c is s = Inr s' \<Longrightarrow> run_sound c s \<Longrightarrow> known_capabilities c \<Longrightarrow> facts_linked c s \<Longrightarrow> facts_linked c s'"
proof (induction "is" arbitrary: s)
  case (Cons i "is")
  then obtain t where "evaluate_record c [] i s = Inr t" "evaluate_records c is t = Inr s'" by (auto split: sum.splits)
  then show ?case using Cons evaluate_record_sound evaluate_record_linked by blast
qed simp

text \<open>\<^bold>\<open>C40\<close>. What a delegation may pass on is judged by family and level, not by what was delegated to it. In every accepted
assessment, the effective capabilities of a delegation with a parent are the ones its parent asked for if the parent was allowed
and none otherwise; and the delegation is reported for capability laundering exactly when it asks for a capability such that
every effective one of the same family has a lower level. So a capability that was never delegated is not laundering when one of
its family at its level or above was.\<close>

theorem laundering_is_judged_by_family_and_level:
  assumes "evaluate_delegations sha p r m p7b p7h p7i = Inr a" and "d \<in> set (da_facts a)" and "e \<in> set (da_facts a)"
    and "df_parent e = Some (df_id d)"
  shows "df_effective e = (if df_decision d = DELEGATION_ALLOW then df_requested d else []) \<and>
    (CAPABILITY_LAUNDERING \<in> set (df_risks e) \<longleftrightarrow>
       (\<exists>x \<in> set (capabilities_of (dm_capabilities m) (df_requested e)). \<forall>y \<in> set (capabilities_of (dm_capabilities m) (df_effective e)).
          ac_family y = ac_family x \<longrightarrow> ac_level y < ac_level x))"
proof -
  define c where "c = delegation_context_of p (dq_now r) m p7b p7h p7i"
  obtain s where run: "evaluate_records c (sort (map dl_id (dm_delegations m))) no_delegations = Inr s"
    and facts: "da_facts a = sort_key df_id (dr_facts s)" and known: "known_capabilities c"
    using evaluate_delegations_Inr [OF assms(1) c_def] by metis
  have linked: "facts_linked c s" using evaluate_records_linked [OF run run_sound_initial known facts_linked_initial] .
  have de: "d \<in> set (dr_facts s)" "e \<in> set (dr_facts s)" using assms(2,3) facts by simp_all
  obtain own where own: "map_of (dr_effective s) (df_id d) = Some own"
    "sorted_identifiers own = (if df_decision d = DELEGATION_ALLOW then df_requested d else [])"
    using linked de(1) unfolding facts_linked_def by blast
  have e: "df_effective e = sorted_identifiers own" "CAPABILITY_LAUNDERING \<in> set (df_risks e) \<longleftrightarrow>
      list_ex (\<lambda>x. exceeds (max_level_by_family (dm_capabilities m) own (ac_family x)) x) (capabilities_of (dm_capabilities m) (df_requested e))"
    using linked de(2) assms(4) own(1) unfolding facts_linked_def by (fastforce simp: c_def)+
  have "exceeds (max_level_by_family (dm_capabilities m) own (ac_family x)) x \<longleftrightarrow>
      (\<forall>y \<in> set (capabilities_of (dm_capabilities m) (df_effective e)). ac_family y = ac_family x \<longrightarrow> ac_level y < ac_level x)"
    if "x \<in> set (capabilities_of (dm_capabilities m) (df_requested e))" for x
  proof -
    have "0 < ac_level x" using known that by (simp add: known_capabilities_def c_def capabilities_of_def)
    then show ?thesis by (simp add: exceeds_family e(1))
  qed
  then show ?thesis using e own(2) by (auto simp: list_ex_iff)
qed

subsection \<open>A sibling capability\<close>

text \<open>An orchestrator that holds only \<open>read\<close> delegates it to a broker, which delegates \<open>write\<close>, of the same family and level, further.\<close>

definition one_digest :: "string \<Rightarrow> string" where "one_digest x = replicate 64 (CHR ''a'')"
definition pin :: "char \<Rightarrow> string" where "pin c = replicate 64 c"

definition tool_agent :: "string \<Rightarrow> string list \<Rightarrow> agent_identity" where
  "tool_agent i capabilities = \<lparr>ag_id = i, ag_role = TOOL_AGENT, ag_tenant = ''t1'', ag_domain = ''runtime'', ag_owner = ''sec'', ag_capabilities = capabilities,
     ag_paths = [''path''], ag_routes = [], ag_accepts = True, ag_depth = 3, ag_description = []\<rparr>"

definition tool_capability :: "string \<Rightarrow> agent_capability" where
  "tool_capability i = \<lparr>ac_id = i, ac_family = ''tool'', ac_level = 2, ac_scope = TENANT_BOUND, ac_privileged = False, ac_routes = [],
     ac_invariants = [], ac_description = []\<rparr>"

definition hop :: "string \<Rightarrow> string option \<Rightarrow> string \<Rightarrow> string \<Rightarrow> string \<Rightarrow> delegation_record" where
  "hop i parent from to capability = \<lparr>dl_id = i, dl_parent = parent, dl_principal = ''user'', dl_delegator = from, dl_delegatee = to, dl_task = ''task'',
     dl_tenant = ''t1'', dl_capabilities = [capability], dl_request = pin CHR ''f'', dl_issued = 10, dl_expires = 500, dl_owner = ''sec'', dl_description = []\<rparr>"

definition tool_manifest :: delegation_manifest where
  "tool_manifest = \<lparr>dm_graph_id = ''g'', dm_version = ''1'', dm_p7b = pin CHR ''b'', dm_p7h = pin CHR ''b'', dm_p7i = pin CHR ''b'', dm_created = 100,
     dm_agents = [tool_agent ''orchestrator'' [''read''], tool_agent ''broker'' [''read'', ''write''], tool_agent ''executor'' [''write'']],
     dm_capabilities = [tool_capability ''read'', tool_capability ''write''],
     dm_delegations = [hop ''d1'' None ''orchestrator'' ''broker'' ''read'', hop ''d2'' (Some ''d1'') ''broker'' ''executor'' ''write''],
     dm_schema = P8A_DELEGATION_SCHEMA_VERSION\<rparr>"

definition tool_policy :: delegation_policy where
  "tool_policy =
     (let agents = [''orchestrator'', ''broker'', ''executor'']; capabilities = [''read'', ''write''] in
      \<lparr>dp_graph_id = ''g'', dp_version = ''1'', dp_graph_sha = pin CHR ''a'', dp_p7b = pin CHR ''b'', dp_p7h = pin CHR ''b'', dp_p7i = pin CHR ''b'',
        dp_agents = agents, dp_capabilities = capabilities, dp_delegations = [''d1'', ''d2''], dp_owners = [''sec''], dp_domains = [''runtime''],
        dp_shared = [], dp_agent_role = map (\<lambda>i. (i, TOOL_AGENT)) agents, dp_agent_tenant = map (\<lambda>i. (i, ''t1'')) agents,
        dp_agent_domain = map (\<lambda>i. (i, ''runtime'')) agents,
        dp_agent_capabilities = [(''orchestrator'', [''read'']), (''broker'', [''read'', ''write'']), (''executor'', [''write''])],
        dp_agent_paths = map (\<lambda>i. (i, [''path''])) agents, dp_agent_routes = map (\<lambda>i. (i, [])) agents,
        dp_agent_accepts = map (\<lambda>i. (i, True)) agents, dp_agent_depth = map (\<lambda>i. (i, 3)) agents,
        dp_capability_family = map (\<lambda>i. (i, ''tool'')) capabilities, dp_capability_level = map (\<lambda>i. (i, 2)) capabilities,
        dp_capability_scope = map (\<lambda>i. (i, TENANT_BOUND)) capabilities, dp_capability_privileged = map (\<lambda>i. (i, False)) capabilities,
        dp_capability_routes = map (\<lambda>i. (i, [])) capabilities, dp_capability_invariants = map (\<lambda>i. (i, [])) capabilities,
        dp_principal_tenant = [(''user'', ''t1'')], dp_principal_tasks = [(''user'', [''task''])], dp_principal_levels = [(''user'', [(''tool'', 2)])],
        dp_max_depth = 3, dp_max_age = 1000, dp_max_skew = 0\<rparr>)"

definition tool_request :: delegation_request where
  "tool_request = \<lparr>dq_graph_id = ''g'', dq_version = ''1'', dq_graph_sha = pin CHR ''a'', dq_p7b = pin CHR ''b'', dq_p7h = pin CHR ''b'', dq_p7i = pin CHR ''b'',
     dq_now = 200, dq_delegations = [''d1'', ''d2''], dq_denied = [], dq_risks = [(''d1'', []), (''d2'', [])]\<rparr>"

definition tool_evidence :: "string \<Rightarrow> evidence_assessment" where
  "tool_evidence i = \<lparr>ea_digest = pin CHR ''b'', ea_flags = [True, True], ea_items = [\<lparr>de_id = i, de_exposed = False, de_state = ''holds''\<rparr>]\<rparr>"

lemma pin_ok [simp]:
  "c \<in> set ''abf'' \<Longrightarrow> is_digest (pin c)" "c \<in> set ''abf'' \<Longrightarrow> casefold (pin c) = pin c" "pin c = pin d \<longleftrightarrow> c = d"
proof -
  show "casefold (pin c) = pin c" if "c \<in> set ''abf''" using that by (auto simp: casefold_def pin_def)
  then show "is_digest (pin c)" if "c \<in> set ''abf''" using that by (auto simp: is_digest_def pin_def list_all_iff simp del: replicate.simps)
  show "pin c = pin d \<longleftrightarrow> c = d" by (auto simp: pin_def replicate_eq_replicate)
qed

lemma tool_digest [simp]: "delegation_manifest_digest one_digest m = pin CHR ''a''"
  by (simp add: delegation_manifest_digest_def one_digest_def pin_def)

lemma tool_valid:
  "validate_delegation_policy tool_policy = None" "delegation_request_bound tool_policy tool_request"
  "validate_delegation_upstreams tool_policy (tool_evidence ''path'') (tool_evidence ''route'') (tool_evidence ''invariant'') = None"
  "validate_delegation_manifest one_digest tool_policy tool_request tool_manifest [''path''] [''route''] [''invariant''] = None"
proof -
  show "validate_delegation_policy tool_policy = None"
    by (simp add: validate_delegation_policy_def first_rejection_None same_set_def tool_policy_def Let_def)
  show "delegation_request_bound tool_policy tool_request"
    by (simp add: delegation_request_bound_def same_set_def tool_policy_def tool_request_def Let_def)
  show "validate_delegation_upstreams tool_policy (tool_evidence ''path'') (tool_evidence ''route'') (tool_evidence ''invariant'') = None"
    by (simp add: validate_delegation_upstreams_def unique_inventory_def first_rejection_None tool_evidence_def tool_policy_def Let_def)
  have agents: "\<forall>a \<in> set (dm_agents tool_manifest). \<forall>e \<in> set (validate_agent tool_policy [''path''] [''route''] a). e = None"
    by (auto simp: tool_manifest_def validate_agent_def tool_agent_def tool_policy_def Let_def drifted_def allowed_for_def same_set_def)
  have capabilities: "\<forall>x \<in> set (dm_capabilities tool_manifest). \<forall>e \<in> set (validate_capability tool_policy [''route''] [''invariant''] x). e = None"
    by (simp add: tool_manifest_def validate_capability_def tool_capability_def tool_policy_def Let_def allowed_for_def same_set_def)
  have delegations: "\<forall>d \<in> set (dm_delegations tool_manifest). \<forall>e \<in> set (validate_delegation tool_policy 200 [''orchestrator'', ''broker'', ''executor'']
      [''read'', ''write''] [''d1'', ''d2''] d). e = None"
    by (simp add: tool_manifest_def validate_delegation_def hop_def tool_policy_def Let_def)
  have acyclic: "\<forall>d \<in> set (dm_delegations tool_manifest). \<not> cyclic_from (dm_delegations tool_manifest) (nat (dp_max_depth tool_policy) + 2) [] (dl_id d)"
    by (simp add: tool_manifest_def hop_def tool_policy_def Let_def numeral_eq_Suc)
  have ids: "map ag_id (dm_agents tool_manifest) = [''orchestrator'', ''broker'', ''executor'']" "map ac_id (dm_capabilities tool_manifest) = [''read'', ''write'']"
    "map dl_id (dm_delegations tool_manifest) = [''d1'', ''d2'']"
    by (simp_all add: tool_manifest_def tool_agent_def tool_capability_def hop_def)
  have known: "\<forall>a \<in> set (dm_agents tool_manifest). \<not> list_ex (\<lambda>i. i \<notin> set [''read'', ''write'']) (ag_capabilities a)"
    by (simp add: tool_manifest_def tool_agent_def)
  have now: "dq_now tool_request = 200" by (simp add: tool_request_def)
  show "validate_delegation_manifest one_digest tool_policy tool_request tool_manifest [''path''] [''route''] [''invariant''] = None"
    unfolding validate_delegation_manifest_def Let_def first_rejection_None ids now
    using agents capabilities delegations acyclic known
    by (simp add: deny_duplicate_def ball_Un) (simp add: tool_manifest_def tool_policy_def tool_request_def Let_def same_set_def)
qed

definition tool_facts :: "delegation_fact list" where
  "tool_facts = (case evaluate_records (delegation_context_of tool_policy 200 tool_manifest (tool_evidence ''path'') (tool_evidence ''route'') (tool_evidence ''invariant''))
     [''d1'', ''d2''] no_delegations of Inr s \<Rightarrow> dr_facts s | Inl _ \<Rightarrow> [])"

lemma tool_outcome:
  "map (\<lambda>f. (df_id f, df_decision f, df_risks f, df_requested f, df_effective f)) tool_facts =
     [(''d1'', DELEGATION_ALLOW, [], [''read''], [''read'']), (''d2'', DELEGATION_ALLOW, [], [''write''], [''read''])]"
  by code_simp

lemma tool_accepted:
  "\<exists>a. evaluate_delegations one_digest tool_policy tool_request tool_manifest (tool_evidence ''path'') (tool_evidence ''route'') (tool_evidence ''invariant'') =
     Inr a \<and> da_facts a = tool_facts"
proof -
  obtain f g where fs: "tool_facts = [f, g]" and f: "df_id f = ''d1''" "df_decision f = DELEGATION_ALLOW" "df_risks f = []"
    and g: "df_id g = ''d2''" "df_decision g = DELEGATION_ALLOW" "df_risks g = []"
    using tool_outcome by (auto simp: map_eq_Cons_conv)
  let ?c = "delegation_context_of tool_policy 200 tool_manifest (tool_evidence ''path'') (tool_evidence ''route'') (tool_evidence ''invariant'')"
  obtain s where s: "evaluate_records ?c [''d1'', ''d2''] no_delegations = Inr s" and facts: "dr_facts s = [f, g]"
    using fs by (cases "evaluate_records ?c [''d1'', ''d2''] no_delegations") (simp_all add: tool_facts_def)
  have sorted: "sort (map dl_id (dm_delegations tool_manifest)) = [''d1'', ''d2'']" by code_simp
  have order: "sort_key df_id [f, g] = [f, g]" using f(1) g(1) by (simp add: Char_ord.less_eq_char_def)
  have now: "dq_now tool_request = 200" by (simp add: tool_request_def)
  have evidence: "map de_id (ea_items (tool_evidence i)) = [i]" for i by (simp add: tool_evidence_def)
  have checks: "first_rejection
      [validate_delegation_policy tool_policy, deny_if (\<not> delegation_request_bound tool_policy tool_request) DELEGATION_REQUEST_INVALID None,
       validate_delegation_upstreams tool_policy (tool_evidence ''path'') (tool_evidence ''route'') (tool_evidence ''invariant''),
       validate_delegation_manifest one_digest tool_policy tool_request tool_manifest [''path''] [''route''] [''invariant'']] = None"
    unfolding first_rejection_None using tool_valid by simp
  have declared: "first_rejection ([deny_if (\<not> same_set (dq_denied tool_request) (map df_id (denied_facts [f, g]))) DELEGATION_DECLARED_DECISION_MISMATCH None,
      deny_if (\<not> same_set (map fst (dq_risks tool_request)) (dq_delegations tool_request)) DELEGATION_DECLARED_RISK_MISMATCH None] @
      map (declared_delegation_ok tool_request) [f, g]) = None"
    unfolding first_rejection_None using f g
    by (simp add: tool_request_def denied_facts_def same_set_def declared_delegation_ok_def allowed_for_def)
  have "evaluate_delegations one_digest tool_policy tool_request tool_manifest (tool_evidence ''path'') (tool_evidence ''route'') (tool_evidence ''invariant'') =
      Inr (delegation_assessment_of one_digest tool_manifest (tool_evidence ''path'') (tool_evidence ''route'') (tool_evidence ''invariant'') [f, g])"
    unfolding evaluate_delegations_def evidence checks option.case now sorted s sum.case facts order Let_def declared ..
  then show ?thesis by (simp add: delegation_assessment_of_def fs)
qed

theorem authority_never_grows_along_a_chain_witness:
  "\<exists>chain. contiguous chain \<and> dl_id (hd chain) = ''d2'' \<and> length chain = 2 \<and>
     (\<exists>root. row_of ag_id (dl_delegator (last chain)) (dm_agents tool_manifest) = Some root \<and> set (dl_capabilities (last chain)) \<subseteq> set (ag_capabilities root))"
proof -
  obtain a where a: "evaluate_delegations one_digest tool_policy tool_request tool_manifest (tool_evidence ''path'') (tool_evidence ''route'') (tool_evidence ''invariant'') = Inr a"
    and facts: "da_facts a = tool_facts" using tool_accepted by blast
  have "map (\<lambda>f. (df_id f, df_depth f, df_decision f)) tool_facts = [(''d1'', 1, DELEGATION_ALLOW), (''d2'', 2, DELEGATION_ALLOW)]" by code_simp
  then obtain e f where list: "tool_facts = [e, f]" and f: "df_id f = ''d2''" "df_depth f = 2" "df_decision f = DELEGATION_ALLOW" by (auto simp: map_eq_Cons_conv)
  have "f \<in> set tool_facts" by (simp add: list)
  from authority_never_grows_along_a_chain [OF a _ f(3)] this obtain chain where "contiguous chain" "dl_id (hd chain) = df_id f"
    "int (length chain) = df_depth f"
    "\<exists>root. row_of ag_id (dl_delegator (last chain)) (dm_agents tool_manifest) = Some root \<and> set (dl_capabilities (last chain)) \<subseteq> set (ag_capabilities root)"
    unfolding facts by auto
  then show ?thesis using f(1,2) by (intro exI [of _ chain]) auto
qed

text \<open>
  The sibling: the second of two chained delegations is allowed although the only capability it passes on, \<open>write\<close>, is neither
  among the effective capabilities of the first nor among those of the agent the chain starts from, which has only \<open>read\<close>.
\<close>

theorem laundering_is_judged_by_family_and_level_witness:
  "\<exists>a d e. evaluate_delegations one_digest tool_policy tool_request tool_manifest (tool_evidence ''path'') (tool_evidence ''route'')
       (tool_evidence ''invariant'') = Inr a \<and> {d, e} \<subseteq> set (da_facts a) \<and> df_parent e = Some (df_id d) \<and>
     df_effective e = df_requested d \<and> df_requested d = [''read''] \<and> df_requested e = [''write''] \<and> df_decision e = DELEGATION_ALLOW \<and>
     \<not> (\<exists>x \<in> set (capabilities_of (dm_capabilities tool_manifest) (df_requested e)).
         \<forall>y \<in> set (capabilities_of (dm_capabilities tool_manifest) (df_effective e)). ac_family y = ac_family x \<longrightarrow> ac_level y < ac_level x)"
proof -
  obtain a where a: "evaluate_delegations one_digest tool_policy tool_request tool_manifest (tool_evidence ''path'') (tool_evidence ''route'')
      (tool_evidence ''invariant'') = Inr a" and facts: "da_facts a = tool_facts" using tool_accepted by blast
  have "map (\<lambda>f. (df_id f, df_parent f, df_decision f, df_risks f, df_requested f)) tool_facts =
      [(''d1'', None, DELEGATION_ALLOW, [], [''read'']), (''d2'', Some ''d1'', DELEGATION_ALLOW, [], [''write''])]"
    by code_simp
  then obtain d e where list: "tool_facts = [d, e]" and fields: "df_id d = ''d1''" "df_decision d = DELEGATION_ALLOW" "df_requested d = [''read'']"
    "df_parent e = Some ''d1''" "df_decision e = DELEGATION_ALLOW" "df_risks e = []" "df_requested e = [''write'']"
    by (auto simp: map_eq_Cons_conv)
  have de: "d \<in> set (da_facts a)" "e \<in> set (da_facts a)" "df_parent e = Some (df_id d)" by (simp_all add: facts list fields)
  note judged = laundering_is_judged_by_family_and_level [OF a de]
  have "df_effective e = df_requested d" using judged fields(2) by simp
  moreover have "CAPABILITY_LAUNDERING \<notin> set (df_risks e)" by (simp add: fields)
  then have "\<not> (\<exists>x \<in> set (capabilities_of (dm_capabilities tool_manifest) (df_requested e)).
      \<forall>y \<in> set (capabilities_of (dm_capabilities tool_manifest) (df_effective e)). ac_family y = ac_family x \<longrightarrow> ac_level y < ac_level x)"
    using judged by blast
  ultimately show ?thesis using a de fields by (intro exI [of _ a] exI [of _ d] exI [of _ e]) blast
qed

end
