(* ===== verification/Spec2Isabelle.thy ===== *)
theory Spec2Isabelle
  imports Rollback_Anchor Bounded_Loop Tool_Gateway Agent_Review Provider_Commands Control_Plane_Recovery Incident_Response
    Detection_Pipeline Checkpoint_Histories Serializability Delegation_Chains
begin

text \<open>
  \<^bold>\<open>A verification development for AegisDesk.\<close> AegisDesk (Python, \<open>aegis/\<close>) is a help-desk agent whose
  planner is untrusted: a model proposes tool calls, and everything that matters for security is
  decided by server-side code. A high-impact proposal becomes an approval request, a second person
  decides it, the approved effect goes through a transactional outbox to an idempotent downstream,
  and at execution time the decision is checked again against current state, revocation epochs,
  policy versions, signatures and a rollback anchor. Around that core are the stores and services
  the tools use and the budgets that bound an agent run.

  \<^bold>\<open>How the code is modelled.\<close> A class with state is a record, an enum a datatype, a method a function from
  arguments and state to a result and the state it leaves (\<open>operation\<close> of \<^verbatim>\<open>Aegis_Prelude\<close>); an exception
  is the left of the result, and a call that raises in the middle leaves what it had written unless
  a SQLite transaction rolls it back (\<open>transaction\<close>). A table is the list of its rows. Clock
  readings, random tokens and nonces are arguments, in the order in which the code takes them.
  Strings are lists of code points below 256, and \<open>casefold\<close> lowers their ASCII letters only. The reads of one database
  within one call see one snapshot. The similarity score of a search result, which the tool does not show, is left out. Code outside the repository is a parameter: SHA-256
  (\<open>sha\<close>), Ed25519 (\<open>sign\<close>, \<open>verify\<close>), pydantic's whitespace stripping and integer conversion, the vector
  index, the MCP client. A result about a hash speaks of a collision of exactly the two messages
  that the code hashes, never of an ideal hash.

  \<^bold>\<open>Theories and sources.\<close>
  \<^item> \<^verbatim>\<open>Aegis_Prelude\<close>, \<^verbatim>\<open>Exceptions\<close>: results, transactions, tables, text; the exception classes.
  \<^item> \<^verbatim>\<open>Json\<close>, \<^verbatim>\<open>Encodings\<close>: the part of \<^verbatim>\<open>json.dumps\<close> and \<^verbatim>\<open>json.loads\<close>, hex and base64url that the code uses.
    Reading canonical text back gives the value with sorted keys, so canonical text is injective.
    The reader takes fuel, the length of its input, which is proved to be enough.
  \<^item> \<^verbatim>\<open>Identity\<close>: \<open>identity/\<close>. Roles, principals, synthetic handles.
  \<^item> \<^verbatim>\<open>Approvals\<close>: \<open>approvals/store.py\<close>, the in-memory store. Four eyes, single use, authenticity of what is
    consumed, finality of closed approvals. Its interface is the locale \<open>approval_lifecycle\<close>.
  \<^item> \<^verbatim>\<open>Durable_Approvals\<close>: \<open>approvals/durable.py\<close>, the SQLite store and the workflow journal. It refines the
    in-memory store, provides the same interface, and a run can be resumed from the journal alone.
  \<^item> \<^verbatim>\<open>Effect_Outbox\<close>: \<open>effects/durable.py\<close>. Outbox, synthetic downstream, worker and pipeline; \<open>pipeline_step\<close>
    is the relation of all interleaved calls, crashes and restarts. No effect without approval, at
    most one effect, delivery and crash recovery. The worker relies on the locales \<open>effect_service\<close>
    and \<open>replaying_service\<close>, which every later service is proved to provide.
  \<^item> \<^verbatim>\<open>Revalidation\<close>, \<^verbatim>\<open>Versioned_Revalidation\<close>, \<^verbatim>\<open>Signed_Authorization\<close>, \<^verbatim>\<open>Rollback_Anchor\<close>: the modules of
    \<open>effects/\<close> with these names. Each adds a fence around the effect (locale \<open>fenced_effects\<close>): current
    authorization, epochs and policy versions, signed decisions, control-plane generations.
  \<^item> \<^verbatim>\<open>Control_Plane_Recovery\<close>: \<open>effects/control_plane_recovery.py\<close>. Changes of the control plane, journaled next to the
    generation and applied to the execution database, which no transaction spans; crashes between any two
    transactions, recovery, and the services that wait for it. \<open>control_step\<close> is the relation of all interleaved
    transactions; what an invariant of the execution tables needs is the locale \<open>control_history\<close>, interpreted for the
    effect of the mutations in order, for arbitrary tables and for key epochs.
  \<^item> \<^verbatim>\<open>Execution_Budget\<close>, \<^verbatim>\<open>Bounded_Loop\<close>: \<open>agent/execution_budget.py\<close>, \<open>agent/bounded_loop.py\<close> and
    \<open>agent/runaway_model.py\<close>. For every planner, gateway and clock a run stays within its limits. The loop
    recurses on the remaining iterations, so it is total.
  \<^item> \<^verbatim>\<open>Helpdesk\<close>: \<open>helpdesk/\<close> and \<open>downstream/\<close>. Tickets, assets, credentials; the locale \<open>asset_reader\<close> is the
    boundary \<open>AssetReader\<close> of the server, provided by the store and by the broker.
  \<^item> \<^verbatim>\<open>Durable_Memory\<close>: \<open>memory/\<close>. Isolation of notes, the longest fitting prefix, memory without authority;
    and that notes beyond the first hundred never reach the planner.
  \<^item> \<^verbatim>\<open>Tool_Gateway\<close>: \<open>mcp_gateway/\<close> (models, server, gateway, bound principal) and \<open>rag/store.py\<close>. A dispatch
    acts only in the caller's name; normalization is idempotent; revoked documents stay hidden; and
    long notes make every search invalid.
  \<^item> \<^verbatim>\<open>Agent_Review\<close>: the durable review path of \<open>agent/graph.py\<close>, end to end over journal, approvals, outbox
    and downstream, crash and resumption included.

  \<^item> \<^verbatim>\<open>Lifecycle_Commands\<close>: \<open>agent/checkpoint_lifecycle_fencing.py\<close> and the capability check of
    \<open>agent/checkpoint_lifecycle_capabilities.py\<close>. Commands that migrate, snapshot or restore the checkpoints,
    their digests, and the fenced coordinator: receipts are written once (locale \<open>write_once\<close>), stale fences refused.
  \<^item> \<^verbatim>\<open>Lifecycle_Journal\<close>: \<open>agent/checkpoint_lifecycle_journal.py\<close>. The SQLite journal whose rows and counters are
    authenticated by HMAC (\<open>mac\<close>), its verification on opening, \<open>issue_command\<close>, \<open>execute\<close> and \<open>reconcile\<close> with every
    injected fault.
  \<^item> \<^verbatim>\<open>Journal_Histories\<close>: the journal against its abstract content, a list of records of which the rows and the
    counters are an authenticated image (\<open>in_order\<close>). Histories of calls, faults and restarts; what the two versions of
    a coordinator have to provide is the locale \<open>coordinator_methods\<close>.
  \<^item> \<^verbatim>\<open>Provider_Outcomes\<close>: \<open>agent/checkpoint_lifecycle_outcome_receipts.py\<close>. The receipts the provider keeps, and the
    coordinator that settles an ambiguous command from them.
  \<^item> \<^verbatim>\<open>Provider_Commands\<close>: \<open>agent/checkpoint_lifecycle_provider_state_machine.py\<close>. The provider that records a command
    before and after it mutates, and recovers an interrupted one from what it can observe. Its two methods call
    each other; that this ends within three nested calls is a theorem. A torn anchor snapshot makes recovery raise the wrong exception.

  \<^item> \<^verbatim>\<open>Checkpoint_Store\<close>, \<^verbatim>\<open>Checkpoint_Histories\<close>: \<open>agent/checkpoint_durability.py\<close>. The checkpoints and pending writes of
    the agent's graph in one database, the heads of the chains in another (\<open>checkpoint_world\<close>). \<open>checkpoint_step\<close> takes the two
    transactions of a \<open>put\<close> apart, lets the process crash in between and lets anyone rewrite the first database: the latest
    checkpoint read is still that of the last completed put. A crash in between wedges the thread, and a deleted pending
    write is forgotten by the next \<open>put_writes\<close>.

  \<^item> \<^verbatim>\<open>Incident_Intake\<close>: \<open>detection/incident_context.py\<close>, \<open>incidents/intake.py\<close> and \<open>incidents/types.py\<close>. Detections are
    grouped by tenant and workload, and the groups become incidents: separation of tenants, nothing lost, and
    independence of the order.
  \<^item> \<^verbatim>\<open>Incident_Lifecycle\<close>: \<open>incidents/lifecycle.py\<close>. Chains of transitions, their digests and the boundary that
    remembers which transition it saw at which position (\<open>lifecycle_run\<close>): histories do not fork.
  \<^item> \<^verbatim>\<open>Incident_Response\<close>: \<open>incidents/governance.py\<close>, \<open>incidents/execution.py\<close>, \<open>incidents/handoff.py\<close>. Decisions on a
    response, the ledger of inert projections and the handoff. The ledger provides \<open>write_once\<close>. Execution,
    unlike the other two, does not look at the decision.

  \<^item> \<^verbatim>\<open>Security_Events\<close>, \<^verbatim>\<open>Detection_Alerts\<close>: \<open>detection/security_analytics.py\<close>. Signed events, the registry of sources,
    the event store with its hash chain, rules and alerts; \<open>collector_step\<close> is one call of the collector. Stored events
    were signed, an edited history is detected, every match leaves an alert; and two alerts for one event break the
    chain of alerts, and control characters are not refused. Of rows with equal keys the model of the sorted query
    returns the oldest, as SQLite does.
  \<^item> \<^verbatim>\<open>Detection_Pipeline\<close>: \<open>detection/intelligence_bridge.py\<close> and the whole path from a signed event to an incident.

  \<^item> \<^verbatim>\<open>State_Transitions\<close>, \<^verbatim>\<open>Serializability\<close>: \<open>agentic/state_machine_security.py\<close>. The analyzer that decides which of
    the proposed transitions of agents on versioned objects may be applied. What it allows is a serial history of a
    compare-and-swap store (\<open>cas_run\<close>), each transition with its guards; what it refuses can stop others.
  \<^item> \<^verbatim>\<open>Delegation\<close>, \<^verbatim>\<open>Delegation_Chains\<close>: \<open>agentic/delegation_security.py\<close>. The analyzer of delegations between agents; a record
    is decided after its parent (\<open>evaluate_record\<close>, whose stack makes it end). Along an \<open>admissible\<close> chain authority does not
    grow, but it is compared by family and level only. \<^verbatim>\<open>Evidence_Checks\<close> holds what the two analyzers share.

  The lifecycle provider, the checkpointer and the files they read are records of functions of an arbitrary state:
  the theorems hold for every such provider, one that raises at any call included.

  \<^bold>\<open>Interfaces.\<close> \<open>approval_lifecycle\<close> (interpreted for both stores), \<open>effect_service\<close>, \<open>replaying_service\<close> and
  \<open>fenced_effects\<close> (for the five services), \<open>control_history\<close> (three invariants), \<open>monotone_register\<close> (epochs, policies, keys, generations),
  \<open>asset_reader\<close> (store and broker), \<open>write_once\<close> (receipts of the fenced coordinator, committed journal records,
  provider receipts, incident projections), \<open>coordinator_methods\<close> (the durable, the recovering and the state-machine coordinator).

  \<^bold>\<open>Not modelled.\<close> HTTP routes and process wiring (\<open>apps/\<close>), the graph engine and telemetry around the agent,
  the encryption of checkpoints and their backups, the \<open>public_posture\<close> dictionaries, the other analyzers of \<open>aegis/agentic\<close>,
  \<open>aegis/architecture\<close> and \<open>aegis/assurance\<close>, the model supply chain, training, inference and platform controls, and the deliberately vulnerable variants in
  \<open>aegis/vulnerable\<close>: they are separate subsystems that the core above does not call. Lost updates between
  two connections to one database are covered by the interleaving of whole transactions, as SQLite
  serializes them; the file system and the network are not modelled.
\<close>

end
